(* ===== verification/Prelude.thy ===== *)
theory Prelude
  imports Complex_Main
begin

text \<open>
  Shared vocabulary of the development: the exceptions of the TypeScript code as values of
  one datatype, results as sums, the metrics sink that every service writes to, the outcome
  of a network call, and the generic lemmas on lists, maps and sums that the component
  theories use.
\<close>

section \<open>Proof collections\<close>

named_theorems result_iffs "when a fallible operation returns a value"

section \<open>Exceptions\<close>

text \<open>
  One constructor per exception class the source throws. Messages are kept; the parts of a
  message that the source interpolates (a rejected value, a limit) are left out.
  \<open>PgError code constraint\<close> is an error the pg driver raises, \<open>RaiseException code msg\<close> a
  PL/pgSQL \<open>RAISE EXCEPTION\<close> with its SQLSTATE.
\<close>

datatype exn =
    BadRequestException string
  | UnauthorizedException string
  | NotFoundException string
  | ConflictException string
  | InternalServerErrorException string
  | HttpException int string int        \<comment> \<open>status, message, retryAfterSeconds\<close>
  | PgError string string
  | RaiseException string string
  | InventoryVersionError string
  | InventoryEventContractError string
  | EventMetadataContractError string
  | IllegalStateException string
  | SeedNamespaceActiveError string string  \<comment> \<open>namespace, writer mode\<close>
  | OpenSearchError nat string          \<comment> \<open>statusCode, error type\<close>
  | PlainError string

type_synonym 'a result = "exn + 'a"

definition is_ok :: "'a result \<Rightarrow> bool" where
  "is_ok r = (case r of Inl _ \<Rightarrow> False | Inr _ \<Rightarrow> True)"

lemma is_ok_simps [simp]: "is_ok (Inr x)" "\<not> is_ok (Inl e)"
  by (simp_all add: is_ok_def)

lemma is_ok_iff: "is_ok r \<longleftrightarrow> (\<exists>x. r = Inr x)"
  by (cases r) auto

lemma map_sum_Inr [simp]: "map_sum id f r = Inr y \<longleftrightarrow> (\<exists>x. r = Inr x \<and> f x = y)"
  by (cases r) auto

text \<open>Statements in sequence: the first exception ends it.\<close>

definition bind_result :: "'a result \<Rightarrow> ('a \<Rightarrow> 'b result) \<Rightarrow> 'b result" where
  "bind_result r k = (case r of Inl e \<Rightarrow> Inl e | Inr x \<Rightarrow> k x)"

lemma bind_result_simps [simp]: "bind_result (Inl e) k = Inl e" "bind_result (Inr x) k = k x"
  by (simp_all add: bind_result_def)

lemma bind_result_Inr [result_iffs]: "bind_result r k = Inr y \<longleftrightarrow> (\<exists>x. r = Inr x \<and> k x = Inr y)"
  by (cases r) simp_all

section \<open>Metrics\<close>

text \<open>
  \<open>emitMetric\<close> (src/observability/emf.ts) prints one log line. The model keeps the list of
  emitted metrics, newest last, each with its name and its extra dimensions.
\<close>

type_synonym metric = "string \<times> (string \<times> string) list"

record io =
  metrics :: "metric list"

definition emitMetric :: "string \<Rightarrow> (string \<times> string) list \<Rightarrow> 'a io_scheme \<Rightarrow> 'a io_scheme" where
  "emitMetric name dims w = w\<lparr>metrics := metrics w @ [(name, dims)]\<rparr>"

lemma metrics_emitMetric [simp]:
  "metrics (emitMetric name dims w) = metrics w @ [(name, dims)]"
  by (simp add: emitMetric_def)

definition count_metric :: "string \<Rightarrow> 'a io_scheme \<Rightarrow> nat" where
  "count_metric name w = length (filter (\<lambda>m. fst m = name) (metrics w))"

lemma count_metric_emitMetric [simp]:
  "count_metric n (emitMetric name dims w) = (if n = name then Suc (count_metric n w) else count_metric n w)"
  by (simp add: count_metric_def)

section \<open>Network calls\<close>

text \<open>
  What can happen to a request to a remote store: it is executed and answered, it never
  arrives, or it is executed and the answer is lost (the client sees an error for the last
  two and cannot tell them apart).
\<close>

datatype link = Delivered | LostRequest | LostReply

definition via :: "link \<Rightarrow> ('s \<Rightarrow> 'r \<times> 's) \<Rightarrow> 's \<Rightarrow> 'r option \<times> 's" where
  "via l f s = (case l of
       Delivered \<Rightarrow> (let (r, s') = f s in (Some r, s'))
     | LostRequest \<Rightarrow> (None, s)
     | LostReply \<Rightarrow> (None, snd (f s)))"

lemma via_simps [simp]:
  "via Delivered f s = (Some (fst (f s)), snd (f s))"
  "via LostRequest f s = (None, s)"
  "via LostReply f s = (None, snd (f s))"
  by (simp_all add: via_def split_beta)

lemma snd_via: "snd (via l f s) = (if l = LostRequest then s else snd (f s))"
  by (cases l) simp_all

section \<open>Tables\<close>

text \<open>
  A table is the list of its rows. \<open>row_by\<close> looks a row up by a key column, \<open>put_row\<close> replaces
  the row with the same key or appends a new one, \<open>sum_where\<close> is SQL's sum over a filter.
\<close>

definition row_by :: "('r \<Rightarrow> 'k) \<Rightarrow> 'k \<Rightarrow> 'r list \<Rightarrow> 'r option" where
  "row_by key k rows = find (\<lambda>r. key r = k) rows"

definition put_row :: "('r \<Rightarrow> 'k) \<Rightarrow> 'r \<Rightarrow> 'r list \<Rightarrow> 'r list" where
  "put_row key r rows =
     (if row_by key (key r) rows = None then rows @ [r]
      else map (\<lambda>x. if key x = key r then r else x) rows)"

definition sum_where :: "('r \<Rightarrow> int) \<Rightarrow> ('r \<Rightarrow> bool) \<Rightarrow> 'r list \<Rightarrow> int" where
  "sum_where f p rows = sum_list (map f (filter p rows))"

lemma row_by_Nil [simp]: "row_by key k [] = None"
  by (simp add: row_by_def)

lemma row_by_Cons [simp]:
  "row_by key k (r # rows) = (if key r = k then Some r else row_by key k rows)"
  by (simp add: row_by_def)

lemma row_by_append:
  "row_by key k (xs @ ys) = (case row_by key k xs of None \<Rightarrow> row_by key k ys | Some r \<Rightarrow> Some r)"
  by (induction xs) simp_all

lemma row_by_None_iff: "row_by key k rows = None \<longleftrightarrow> k \<notin> key ` set rows"
  by (induction rows) auto

lemma row_by_Some: "row_by key k rows = Some r \<Longrightarrow> r \<in> set rows \<and> key r = k"
  by (induction rows) (auto split: if_splits)

lemma row_by_unique:
  "distinct (map key rows) \<Longrightarrow> r \<in> set rows \<Longrightarrow> row_by key (key r) rows = Some r"
  by (induction rows) (auto simp: rev_image_eqI)

lemma row_by_map_replace:
  "row_by key k (map (\<lambda>x. if key x = key r then r else x) rows) =
     (if k = key r then (if row_by key k rows = None then None else Some r) else row_by key k rows)"
  by (induction rows) auto

lemma row_by_put [simp]:
  "row_by key k (put_row key r rows) = (if k = key r then Some r else row_by key k rows)"
  by (auto simp: put_row_def row_by_append row_by_map_replace split: option.splits)

lemma map_key_replace:
  "map key (map (\<lambda>x. if key x = key r then r else x) rows) = map key rows"
  by (induction rows) auto

lemma distinct_put_row:
  "distinct (map key rows) \<Longrightarrow> distinct (map key (put_row key r rows))"
  unfolding put_row_def using map_key_replace [of key r rows]
  by (auto simp: row_by_None_iff simp del: map_map)

lemma set_put_row: "set (put_row key r rows) \<subseteq> insert r (set rows)"
  by (auto simp: put_row_def)

lemma mem_put_row: "x \<in> set (put_row key r rows) \<Longrightarrow> x = r \<or> x \<in> set rows"
  using set_put_row by fastforce

lemma put_row_mem: "r \<in> set (put_row key r rows)"
  by (auto simp: put_row_def row_by_None_iff image_iff)

lemma put_row_other: "x \<in> set rows \<Longrightarrow> key x \<noteq> key r \<Longrightarrow> x \<in> set (put_row key r rows)"
  by (auto simp: put_row_def image_iff)

lemma keys_put_row: "key ` set (put_row key r rows) = insert (key r) (key ` set rows)"
proof (cases "row_by key (key r) rows = None")
  case False
  have "key ` set (put_row key r rows) = set (map key (map (\<lambda>x. if key x = key r then r else x) rows))"
    using False by (simp only: put_row_def if_False set_map)
  with False show ?thesis unfolding map_key_replace by (auto simp: row_by_None_iff)
qed (simp add: put_row_def)

lemma sum_where_simps [simp]:
  "sum_where f p [] = 0"
  "sum_where f p (r # rows) = (if p r then f r else 0) + sum_where f p rows"
  by (simp_all add: sum_where_def)

lemma sum_where_append [simp]: "sum_where f p (xs @ ys) = sum_where f p xs + sum_where f p ys"
  by (simp add: sum_where_def)

lemma sum_where_nonneg: "(\<And>r. r \<in> set rows \<Longrightarrow> p r \<Longrightarrow> 0 \<le> f r) \<Longrightarrow> 0 \<le> sum_where f p rows"
  by (induction rows) auto

lemma sum_where_none: "(\<And>r. r \<in> set rows \<Longrightarrow> \<not> p r) \<Longrightarrow> sum_where f p rows = 0"
  by (induction rows) auto

lemma sum_where_replace_none:
  "key r \<notin> key ` set rows \<Longrightarrow>
     sum_where f p (map (\<lambda>x. if key x = key r then r else x) rows) = sum_where f p rows"
  by (induction rows) auto

lemma sum_where_put:
  assumes "distinct (map key rows)"
  shows "sum_where f p (put_row key r rows) =
    sum_where f p rows + (if p r then f r else 0)
      - (case row_by key (key r) rows of None \<Rightarrow> 0 | Some r0 \<Rightarrow> if p r0 then f r0 else 0)"
proof (cases "row_by key (key r) rows")
  case None
  then show ?thesis by (simp add: put_row_def)
next
  case (Some r0)
  have "sum_where f p (map (\<lambda>x. if key x = key r then r else x) rows) =
      sum_where f p rows + (if p r then f r else 0) - (if p r0 then f r0 else 0)"
    using assms Some
  proof (induction rows)
    case Nil
    then show ?case by simp
  next
    case (Cons y ys)
    show ?case
    proof (cases "key y = key r")
      case True
      with Cons.prems have "key r \<notin> key ` set ys" "y = r0" by auto
      with True show ?thesis by (simp add: sum_where_replace_none)
    next
      case False
      with Cons show ?thesis by simp
    qed
  qed
  with Some show ?thesis by (simp add: put_row_def)
qed

lemma sum_where_single:
  assumes "distinct (map key rows)" "\<And>r. r \<in> set rows \<Longrightarrow> p r \<Longrightarrow> key r = k"
  shows "sum_where f p rows =
    (case row_by key k rows of None \<Rightarrow> 0 | Some r \<Rightarrow> if p r then f r else 0)"
  using assms
proof (induction rows)
  case Nil
  then show ?case by simp
next
  case (Cons y ys)
  show ?case
  proof (cases "key y = k")
    case True
    with Cons.prems(1) have "k \<notin> key ` set ys" by auto
    then have "\<And>r. r \<in> set ys \<Longrightarrow> \<not> p r"
      using Cons.prems(2) by (metis image_eqI list.set_intros(2))
    then have "sum_where f p ys = 0" by (rule sum_where_none)
    with True show ?thesis by simp
  next
    case False
    with Cons show ?thesis by auto
  qed
qed

lemma sum_where_ge_mem:
  assumes "r \<in> set rows" "p r" "\<And>x. x \<in> set rows \<Longrightarrow> p x \<Longrightarrow> 0 \<le> f x"
  shows "f r \<le> sum_where f p rows"
  using assms
proof (induction rows)
  case Nil
  then show ?case by simp
next
  case (Cons y ys)
  have rest: "0 \<le> sum_where f p ys" using Cons.prems by (intro sum_where_nonneg) auto
  show ?case
  proof (cases "r = y")
    case True
    with rest Cons.prems(2) show ?thesis by simp
  next
    case False
    with Cons have "f r \<le> sum_where f p ys" by simp
    moreover have "0 \<le> (if p y then f y else 0)" using Cons.prems(3) by simp
    ultimately show ?thesis by simp
  qed
qed

lemma find_filter: "find P xs = Some x \<Longrightarrow> \<exists>ys. filter P xs = x # ys"
  by (induction xs) (auto split: if_splits)

section \<open>Cells guarded by a version\<close>

text \<open>
  The interface every guarded store of the program offers: cells, each with a revision and a
  content, changed by operations one at a time on valid states. The laws: an operation keeps a
  state valid, a revision never goes back, and an operation that leaves a cell's revision as it
  was leaves its content as it was. The Valkey counters, the PostgreSQL rows and the search
  documents are instances.
\<close>

locale versioned_cells =
  fixes scope :: "'k \<Rightarrow> bool"
    and admissible :: "'op \<Rightarrow> bool"
    and valid :: "'s \<Rightarrow> bool"
    and revision :: "'k \<Rightarrow> 's \<Rightarrow> int"
    and content :: "'k \<Rightarrow> 's \<Rightarrow> 'v"
    and perform :: "'op \<Rightarrow> 's \<Rightarrow> 's"
  assumes valid_step: "admissible op \<Longrightarrow> valid s \<Longrightarrow> valid (perform op s)"
    and revision_mono:
      "scope k \<Longrightarrow> admissible op \<Longrightarrow> valid s \<Longrightarrow> revision k s \<le> revision k (perform op s)"
    and content_frozen:
      "scope k \<Longrightarrow> admissible op \<Longrightarrow> valid s \<Longrightarrow> revision k (perform op s) = revision k s
         \<Longrightarrow> content k (perform op s) = content k s"
begin

lemma run_valid: "list_all admissible ops \<Longrightarrow> valid s \<Longrightarrow> valid (fold perform ops s)"
  by (induction ops arbitrary: s) (auto simp: valid_step)

lemma run_revision_mono:
  "scope k \<Longrightarrow> list_all admissible ops \<Longrightarrow> valid s \<Longrightarrow> revision k s \<le> revision k (fold perform ops s)"
proof (induction ops arbitrary: s)
  case Nil
  then show ?case by simp
next
  case (Cons op ops)
  then have "revision k s \<le> revision k (perform op s)" by (simp add: revision_mono)
  also have "\<dots> \<le> revision k (fold perform ops (perform op s))" using Cons by (simp add: valid_step)
  finally show ?case by simp
qed

text \<open>Compare-and-set is sound: an unchanged revision rules out any change in between.\<close>

lemma run_content_frozen:
  "scope k \<Longrightarrow> list_all admissible ops \<Longrightarrow> valid s \<Longrightarrow> revision k (fold perform ops s) = revision k s
     \<Longrightarrow> content k (fold perform ops s) = content k s"
proof (induction ops arbitrary: s)
  case Nil
  then show ?case by simp
next
  case (Cons op ops)
  then have adm: "admissible op" "list_all admissible ops" and v: "valid (perform op s)"
    by (simp_all add: valid_step)
  have "revision k s \<le> revision k (perform op s)"
    by (simp add: revision_mono Cons.prems adm)
  moreover have "revision k (perform op s) \<le> revision k (fold perform ops (perform op s))"
    by (rule run_revision_mono [OF Cons.prems(1) adm(2) v])
  ultimately have eq: "revision k (perform op s) = revision k s"
      "revision k (fold perform ops (perform op s)) = revision k (perform op s)"
    using Cons.prems(4) by simp_all
  from Cons.IH [OF Cons.prems(1) adm(2) v eq(2)] content_frozen [OF Cons.prems(1) adm(1) Cons.prems(3) eq(1)]
  show ?case by simp
qed

end

end
