(* ===== verification/JsValues.thy ===== *)
theory JsValues
  imports Prelude
begin

text \<open>
  The JavaScript values that cross the program's boundaries (request bodies, event details),
  the number predicates the validators use, and the shared primitives of
  src/common/validation-primitives.ts and src/messaging/inventory-version.ts.
  Characters are the code units below 256; every regular expression of the modelled code
  tests ASCII only.
\<close>

section \<open>Values\<close>

text \<open>
  A JavaScript number is an IEEE double: a finite rational, an infinity or NaN. An object
  holds its own enumerable fields, at most one per name.
\<close>

datatype jsnum = Fin rat | NaN | PosInf | NegInf

datatype jsval =
    JUndefined
  | JNull
  | JBool bool
  | JNumber jsnum
  | JString string
  | JArray "jsval list"
  | JObject "(string \<times> jsval) list"

definition jsint :: "int \<Rightarrow> jsval" where
  "jsint i = JNumber (Fin (of_int i))"

lemma jsint_eq_iff [simp]: "jsint i = jsint j \<longleftrightarrow> i = j"
  by (simp add: jsint_def)

lemma jsint_distinct [simp]:
  "jsint i \<noteq> JUndefined" "jsint i \<noteq> JNull" "jsint i \<noteq> JString s"
  "JUndefined \<noteq> jsint i" "JNull \<noteq> jsint i" "JString s \<noteq> jsint i"
  by (simp_all add: jsint_def)

definition get_field :: "(string \<times> jsval) list \<Rightarrow> string \<Rightarrow> jsval" where
  "get_field fs name = (case map_of fs name of None \<Rightarrow> JUndefined | Some v \<Rightarrow> v)"

lemma get_field_simps [simp]:
  "get_field [] name = JUndefined"
  "get_field ((n, v) # fs) name = (if n = name then v else get_field fs name)"
  by (simp_all add: get_field_def)

definition number_value :: "jsval \<Rightarrow> int" where
  "number_value v = (case v of JNumber (Fin r) \<Rightarrow> \<lfloor>r\<rfloor> | _ \<Rightarrow> 0)"

lemma number_value_jsint [simp]: "number_value (jsint i) = i"
  by (simp add: number_value_def jsint_def)

definition string_value :: "jsval \<Rightarrow> string" where
  "string_value v = (case v of JString s \<Rightarrow> s | _ \<Rightarrow> [])"

lemma string_value_simps [simp]: "string_value (JString s) = s"
  by (simp add: string_value_def)

section \<open>Number predicates\<close>

text \<open>
  \<open>Number.isInteger\<close>, \<open>Number.isSafeInteger\<close> and \<open>Number.isFinite\<close>, false on anything that
  is not a number.
\<close>

definition isInteger :: "jsval \<Rightarrow> bool" where
  "isInteger v = (case v of JNumber (Fin r) \<Rightarrow> of_int \<lfloor>r\<rfloor> = r | _ \<Rightarrow> False)"

definition isSafeInteger :: "jsval \<Rightarrow> bool" where
  "isSafeInteger v = (isInteger v \<and> \<bar>number_value v\<bar> \<le> 9007199254740991)"

definition isFinite :: "jsval \<Rightarrow> bool" where
  "isFinite v = (case v of JNumber (Fin r) \<Rightarrow> True | _ \<Rightarrow> False)"

lemma isInteger_jsint [simp]: "isInteger (jsint i)"
  by (simp add: isInteger_def jsint_def)

lemma isInteger_iff: "isInteger v \<longleftrightarrow> v = jsint (number_value v)"
  by (cases v rule: jsval.exhaust)
    (auto simp: isInteger_def jsint_def number_value_def split: jsnum.splits)

section \<open>Validation primitives\<close>

definition POSTGRES_INT4_MAX :: int where
  "POSTGRES_INT4_MAX = 2147483647"

text \<open>
  A regular expression without repetition operators other than fixed counts is the list of
  its character classes; the anchors make the match a match of the whole string.
\<close>

type_synonym pattern = "(char \<Rightarrow> bool) list"

definition matches :: "pattern \<Rightarrow> string \<Rightarrow> bool" where
  "matches p s = list_all2 (\<lambda>c x. c x) p s"

definition lit :: "string \<Rightarrow> pattern" where
  "lit s = map (\<lambda>c x. x = c) s"

definition is_hex :: "char \<Rightarrow> bool" where
  "is_hex c = (let n = (of_char c :: nat) in
     (48 \<le> n \<and> n \<le> 57) \<or> (97 \<le> n \<and> n \<le> 102) \<or> (65 \<le> n \<and> n \<le> 70))"

definition UUID_PATTERN :: pattern where
  "UUID_PATTERN = replicate 8 is_hex @ lit ''-'' @ replicate 4 is_hex @ lit ''-''
     @ replicate 4 is_hex @ lit ''-'' @ replicate 4 is_hex @ lit ''-'' @ replicate 12 is_hex"

definition isUuidString :: "jsval \<Rightarrow> bool" where
  "isUuidString v = (case v of JString s \<Rightarrow> matches UUID_PATTERN s | _ \<Rightarrow> False)"

abbreviation is_uuid :: "string \<Rightarrow> bool" where
  "is_uuid s \<equiv> isUuidString (JString s)"

lemma isUuidString_iff: "isUuidString v \<longleftrightarrow> v = JString (string_value v) \<and> is_uuid (string_value v)"
  by (cases v) (auto simp: isUuidString_def)

lemma matches_append:
  "matches (p @ q) s \<longleftrightarrow> matches p (take (length p) s) \<and> matches q (drop (length p) s)"
proof
  assume "matches (p @ q) s"
  then obtain us vs where "s = us @ vs" "length us = length p" "matches p us" "matches q vs"
    by (auto simp: matches_def list_all2_append1)
  then show "matches p (take (length p) s) \<and> matches q (drop (length p) s)" by simp
next
  assume *: "matches p (take (length p) s) \<and> matches q (drop (length p) s)"
  then have "list_all2 (\<lambda>c x. c x) (p @ q) (take (length p) s @ drop (length p) s)"
    unfolding matches_def by (intro list_all2_appendI) auto
  then show "matches (p @ q) s" by (simp add: matches_def)
qed

lemma matches_length: "matches p s \<Longrightarrow> length s = length p"
  by (simp add: matches_def list_all2_lengthD)

lemma length_lit [simp]: "length (lit s) = length s"
  by (simp add: lit_def)

lemma matches_lit: "matches (lit k) s \<longleftrightarrow> s = k"
  by (auto simp: matches_def lit_def list_all2_map1 list.rel_eq list_all2_same list_eq_iff_nth_eq
      list_all2_conv_all_nth)

lemma matches_replicate: "matches (replicate n c) s \<longleftrightarrow> length s = n \<and> list_all c s"
  by (auto simp: matches_def list_all2_conv_all_nth list_all_length)

lemma matches_imp_class:
  assumes "matches p s" "\<forall>c \<in> set p. \<forall>x. c x \<longrightarrow> d x"
  shows "list_all d s"
proof (clarsimp simp: list_all_length)
  fix n assume n: "n < length s"
  with assms(1) have "(p ! n) (s ! n)" "n < length p"
    by (auto simp: matches_def list_all2_conv_all_nth)
  with assms(2) show "d (s ! n)" by auto
qed

lemma length_uuid: "is_uuid s \<Longrightarrow> length s = 36"
  by (auto simp: isUuidString_def UUID_PATTERN_def dest!: matches_length)

lemma uuid_chars: "is_uuid s \<Longrightarrow> list_all (\<lambda>c. is_hex c \<or> c = CHR ''-'') s"
  by (auto simp: isUuidString_def UUID_PATTERN_def lit_def elim!: matches_imp_class)

lemma uuid_hd_hex: "is_uuid s \<Longrightarrow> is_hex (hd s)"
  by (cases s) (auto simp: isUuidString_def UUID_PATTERN_def matches_def numeral_eq_Suc)

text \<open>Three identifiers for the concrete instances below.\<close>

definition uuid_a :: string where "uuid_a = ''aaaaaaaa-aaaa-4aaa-8aaa-aaaaaaaaaaaa''"
definition uuid_b :: string where "uuid_b = ''bbbbbbbb-bbbb-4bbb-8bbb-bbbbbbbbbbbb''"
definition uuid_c :: string where "uuid_c = ''cccccccc-cccc-4ccc-8ccc-cccccccccccc''"

lemma uuid_samples [simp]: "is_uuid uuid_a" "is_uuid uuid_b" "is_uuid uuid_c"
  by code_simp+

lemma uuid_samples_distinct [simp]:
  "uuid_a \<noteq> uuid_b" "uuid_a \<noteq> uuid_c" "uuid_b \<noteq> uuid_c"
  "uuid_b \<noteq> uuid_a" "uuid_c \<noteq> uuid_a" "uuid_c \<noteq> uuid_b"
  by (simp_all add: uuid_a_def uuid_b_def uuid_c_def)

section \<open>Inventory versions\<close>

text \<open>
  The branded number types of src/messaging/inventory-version.ts. A branded number is a
  number at run time; two datatypes keep a Ticket Type version and an Event aggregate
  version apart as the brands do at compile time.
\<close>

datatype TicketTypeInventoryVersion = TTVersion (ttv: int)
datatype EventInventoryVersion = EvVersion (evv: int)

definition isVersionValue :: "jsval \<Rightarrow> bool" where
  "isVersionValue v = (isSafeInteger v \<and> number_value v \<ge> 0 \<and> number_value v \<le> POSTGRES_INT4_MAX)"

definition toTicketTypeInventoryVersion :: "jsval \<Rightarrow> TicketTypeInventoryVersion result" where
  "toTicketTypeInventoryVersion v =
     (if \<not> isVersionValue v then Inl (InventoryVersionError ''invalid ticket type inventory version'')
      else Inr (TTVersion (number_value v)))"

definition toEventInventoryVersion :: "jsval \<Rightarrow> EventInventoryVersion result" where
  "toEventInventoryVersion v =
     (if \<not> isVersionValue v then Inl (InventoryVersionError ''invalid event inventory version'')
      else Inr (EvVersion (number_value v)))"

lemma isVersionValue_jsint [simp]: "isVersionValue (jsint i) \<longleftrightarrow> 0 \<le> i \<and> i \<le> POSTGRES_INT4_MAX"
  by (auto simp: isVersionValue_def isSafeInteger_def POSTGRES_INT4_MAX_def)

lemma isVersionValue_iff:
  "isVersionValue v \<longleftrightarrow> v = jsint (number_value v) \<and> 0 \<le> number_value v \<and> number_value v \<le> POSTGRES_INT4_MAX"
  by (auto simp: isVersionValue_def isSafeInteger_def POSTGRES_INT4_MAX_def isInteger_iff [symmetric])

lemma to_version_simps [simp]:
  "0 \<le> i \<Longrightarrow> i \<le> POSTGRES_INT4_MAX \<Longrightarrow> toTicketTypeInventoryVersion (jsint i) = Inr (TTVersion i)"
  "0 \<le> i \<Longrightarrow> i \<le> POSTGRES_INT4_MAX \<Longrightarrow> toEventInventoryVersion (jsint i) = Inr (EvVersion i)"
  by (simp_all add: toTicketTypeInventoryVersion_def toEventInventoryVersion_def)

text \<open>Versions of one brand are compared; the brands are not comparable with each other.\<close>

instantiation TicketTypeInventoryVersion :: linorder
begin

definition less_eq_TicketTypeInventoryVersion :: "TicketTypeInventoryVersion \<Rightarrow> TicketTypeInventoryVersion \<Rightarrow> bool" where
  "less_eq_TicketTypeInventoryVersion a b = (ttv a \<le> ttv b)"

definition less_TicketTypeInventoryVersion :: "TicketTypeInventoryVersion \<Rightarrow> TicketTypeInventoryVersion \<Rightarrow> bool" where
  "less_TicketTypeInventoryVersion a b = (ttv a < ttv b)"

instance
  by standard (auto simp: less_eq_TicketTypeInventoryVersion_def less_TicketTypeInventoryVersion_def
      intro: TicketTypeInventoryVersion.expand)

end

instantiation EventInventoryVersion :: linorder
begin

definition less_eq_EventInventoryVersion :: "EventInventoryVersion \<Rightarrow> EventInventoryVersion \<Rightarrow> bool" where
  "less_eq_EventInventoryVersion a b = (evv a \<le> evv b)"

definition less_EventInventoryVersion :: "EventInventoryVersion \<Rightarrow> EventInventoryVersion \<Rightarrow> bool" where
  "less_EventInventoryVersion a b = (evv a < evv b)"

instance
  by standard (auto simp: less_eq_EventInventoryVersion_def less_EventInventoryVersion_def
      intro: EventInventoryVersion.expand)

end

lemmas version_order_defs = less_eq_TicketTypeInventoryVersion_def less_TicketTypeInventoryVersion_def
  less_eq_EventInventoryVersion_def less_EventInventoryVersion_def

end
