(* ===== verification/CacheKeys.thy ===== *)
theory CacheKeys
  imports JsValues
begin

text \<open>
  The Valkey key formats of src/cache/inventory-cache.keys.ts: the Event counter and version
  keys, the Ticket Type counter and revision keys, the request marker keys, the SCAN pattern
  and the parser of counter keys. The lemmas give the parser as the exact inverse of the
  formatter on UUIDs and keep the four key families apart.
\<close>

section \<open>Formatting\<close>

definition eventCounterKey :: "string \<Rightarrow> string" where
  "eventCounterKey eventId = ''inventory:'' @ eventId"

definition eventCounterVersionKey :: "string \<Rightarrow> string" where
  "eventCounterVersionKey eventId = ''inventory:'' @ eventId @ '':v''"

definition ticketTypeCounterKey :: "string \<Rightarrow> string \<Rightarrow> string" where
  "ticketTypeCounterKey eventId ticketTypeId =
     ''inventory:ticket-type:{'' @ eventId @ '':'' @ ticketTypeId @ ''}:remaining''"

definition ticketTypeCounterRevisionKey :: "string \<Rightarrow> string \<Rightarrow> string" where
  "ticketTypeCounterRevisionKey eventId ticketTypeId =
     ''inventory:ticket-type:{'' @ eventId @ '':'' @ ticketTypeId @ ''}:revision''"

definition purchaseRequestSeenKey :: "string \<Rightarrow> string \<Rightarrow> string \<Rightarrow> string" where
  "purchaseRequestSeenKey buyerId eventId requestId =
     ''purchase-request:'' @ buyerId @ '':'' @ eventId @ '':'' @ requestId"

lemmas key_defs = eventCounterKey_def eventCounterVersionKey_def ticketTypeCounterKey_def
  ticketTypeCounterRevisionKey_def purchaseRequestSeenKey_def

section \<open>Parsing\<close>

text \<open>
  \<open>[0-9a-fA-F-]\<close> is a hexadecimal digit or a hyphen; the two groups the pattern captures are
  the substrings at the positions of its two runs of 36.
\<close>

definition is_uuid_char :: "char \<Rightarrow> bool" where
  "is_uuid_char c = (is_hex c \<or> c = CHR ''-'')"

definition TICKET_TYPE_COUNTER_KEY_PATTERN :: pattern where
  "TICKET_TYPE_COUNTER_KEY_PATTERN =
     lit ''inventory:ticket-type:{'' @ replicate 36 is_uuid_char @ lit '':''
     @ replicate 36 is_uuid_char @ lit ''}:remaining''"

definition parseTicketTypeCounterKey :: "string \<Rightarrow> (string \<times> string) option" where
  "parseTicketTypeCounterKey key =
     (if \<not> matches TICKET_TYPE_COUNTER_KEY_PATTERN key then None
      else (let eventId = take 36 (drop 23 key);
                ticketTypeId = take 36 (drop 60 key)
            in if \<not> matches UUID_PATTERN eventId \<or> \<not> matches UUID_PATTERN ticketTypeId then None
               else Some (eventId, ticketTypeId)))"

text \<open>
  \<open>inventory:ticket-type:*:remaining\<close>: the glob of TICKET_TYPE_COUNTER_SCAN_PATTERN, a fixed
  prefix and a fixed suffix around anything.
\<close>

definition TICKET_TYPE_COUNTER_SCAN_PATTERN :: "string \<times> string" where
  "TICKET_TYPE_COUNTER_SCAN_PATTERN = (''inventory:ticket-type:'', '':remaining'')"

definition scan_matches :: "string \<Rightarrow> bool" where
  "scan_matches key = (case TICKET_TYPE_COUNTER_SCAN_PATTERN of (pre, post) \<Rightarrow>
     length pre + length post \<le> length key \<and> take (length pre) key = pre
     \<and> drop (length key - length post) key = post)"

section \<open>The parser inverts the formatter\<close>

lemma uuid_char_run: "is_uuid s \<Longrightarrow> matches (replicate 36 is_uuid_char) s"
  using uuid_chars [of s] length_uuid [of s]
  by (simp add: matches_replicate is_uuid_char_def [abs_def])

lemma lit_lengths:
  "length (lit ''inventory:ticket-type:{'') = 23" "length (lit '':'') = 1"
  by simp_all

lemma counter_pattern_shape:
  assumes "matches TICKET_TYPE_COUNTER_KEY_PATTERN key"
  shows "key = ticketTypeCounterKey (take 36 (drop 23 key)) (take 36 (drop 60 key))"
proof -
  define e t where "e = take 36 (drop 23 key)" and "t = take 36 (drop 60 key)"
  have len: "length key = 23 + 36 + 1 + 36 + 11"
    using assms matches_length [OF assms] by (simp add: TICKET_TYPE_COUNTER_KEY_PATTERN_def)
  have parts: "take 23 key = ''inventory:ticket-type:{''" "take 1 (drop 59 key) = '':''"
    "drop 96 key = ''}:remaining''"
    using assms
    unfolding TICKET_TYPE_COUNTER_KEY_PATTERN_def matches_append matches_lit lit_lengths
      length_replicate drop_drop
    by simp_all
  have "key = take 23 key @ e @ take 1 (drop 59 key) @ t @ drop 96 key"
  proof -
    have "key = take 23 key @ drop 23 key" by simp
    also have "drop 23 key = e @ drop 59 key"
      using append_take_drop_id [of 36 "drop 23 key"] by (simp add: e_def)
    also have "drop 59 key = take 1 (drop 59 key) @ drop 60 key"
      using append_take_drop_id [of 1 "drop 59 key"] by simp
    also have "drop 60 key = t @ drop 96 key"
      using append_take_drop_id [of 36 "drop 60 key"] by (simp add: t_def)
    finally show ?thesis .
  qed
  then show ?thesis
    unfolding ticketTypeCounterKey_def e_def [symmetric] t_def [symmetric] using parts by simp
qed

lemma format_matches:
  assumes "is_uuid e" "is_uuid t"
  shows "matches TICKET_TYPE_COUNTER_KEY_PATTERN (ticketTypeCounterKey e t)"
proof -
  have "length e = 36" "length t = 36" using assms by (simp_all add: length_uuid)
  then show ?thesis
    using uuid_char_run [OF assms(1)] uuid_char_run [OF assms(2)]
    by (simp add: TICKET_TYPE_COUNTER_KEY_PATTERN_def ticketTypeCounterKey_def matches_append
        matches_lit take_Cons' drop_Cons')
qed

lemma format_groups:
  assumes "length e = 36" "length t = 36"
  shows "take 36 (drop 23 (ticketTypeCounterKey e t)) = e"
    and "take 36 (drop 60 (ticketTypeCounterKey e t)) = t"
  using assms by (simp_all add: ticketTypeCounterKey_def)

text \<open>parseTicketTypeCounterKey is the exact inverse of ticketTypeCounterKey: it returns
  a pair of ids for a key exactly when both are UUIDs and the key is the one formatted from
  them, so a key that any other writer produced is never attributed to a Ticket Type.\<close>

theorem parse_counter_key_iff:
  "parseTicketTypeCounterKey key = Some (e, t)
     \<longleftrightarrow> isUuidString (JString e) \<and> isUuidString (JString t) \<and> key = ticketTypeCounterKey e t"
proof
  assume p: "parseTicketTypeCounterKey key = Some (e, t)"
  then have "matches TICKET_TYPE_COUNTER_KEY_PATTERN key"
    by (simp add: parseTicketTypeCounterKey_def split: if_splits)
  from counter_pattern_shape [OF this] p
  show "is_uuid e \<and> is_uuid t \<and> key = ticketTypeCounterKey e t"
    by (auto simp: parseTicketTypeCounterKey_def isUuidString_def Let_def split: if_splits)
next
  assume a: "is_uuid e \<and> is_uuid t \<and> key = ticketTypeCounterKey e t"
  then have "length e = 36" "length t = 36" by (simp_all add: length_uuid)
  with a show "parseTicketTypeCounterKey key = Some (e, t)"
    using format_matches [of e t] format_groups [of e t]
    by (simp add: parseTicketTypeCounterKey_def isUuidString_def Let_def)
qed

section \<open>The key families are disjoint\<close>

lemma ticketTypeCounterKey_inject:
  assumes "is_uuid e" "is_uuid e'"
  shows "ticketTypeCounterKey e t = ticketTypeCounterKey e' t' \<longleftrightarrow> e = e' \<and> t = t'"
  using assms by (auto simp: ticketTypeCounterKey_def length_uuid)

lemma ticketTypeCounterRevisionKey_inject:
  assumes "is_uuid e" "is_uuid e'"
  shows "ticketTypeCounterRevisionKey e t = ticketTypeCounterRevisionKey e' t' \<longleftrightarrow> e = e' \<and> t = t'"
  using assms by (auto simp: ticketTypeCounterRevisionKey_def length_uuid)

lemma eventCounterKey_inject [simp]: "eventCounterKey e = eventCounterKey e' \<longleftrightarrow> e = e'"
  by (simp add: eventCounterKey_def)

lemma eventCounterVersionKey_inject [simp]:
  "eventCounterVersionKey e = eventCounterVersionKey e' \<longleftrightarrow> e = e'"
  by (simp add: eventCounterVersionKey_def)

lemma hd_event_id: "is_uuid e \<Longrightarrow> e = CHR ''t'' # s \<Longrightarrow> False"
  using uuid_hd_hex [of e] by (simp add: is_hex_def)

lemma event_type_keys_differ:
  assumes "is_uuid e"
  shows "eventCounterKey e \<noteq> ticketTypeCounterKey e' t'"
    "eventCounterKey e \<noteq> ticketTypeCounterRevisionKey e' t'"
    "eventCounterVersionKey e \<noteq> ticketTypeCounterKey e' t'"
    "eventCounterVersionKey e \<noteq> ticketTypeCounterRevisionKey e' t'"
proof -
  obtain c s where e: "e = c # s" using length_uuid [OF assms] by (cases e) auto
  then have "c \<noteq> CHR ''t''" using hd_event_id [OF assms] by auto
  with e show "eventCounterKey e \<noteq> ticketTypeCounterKey e' t'"
    "eventCounterKey e \<noteq> ticketTypeCounterRevisionKey e' t'"
    "eventCounterVersionKey e \<noteq> ticketTypeCounterKey e' t'"
    "eventCounterVersionKey e \<noteq> ticketTypeCounterRevisionKey e' t'"
    by (simp_all add: key_defs)
qed

lemma event_key_version_differ:
  assumes "is_uuid e" "is_uuid e'"
  shows "eventCounterKey e \<noteq> eventCounterVersionKey e'"
proof
  assume "eventCounterKey e = eventCounterVersionKey e'"
  then have "length e = length e' + 2" by (simp add: key_defs)
  with assms show False by (simp add: length_uuid)
qed

lemma counter_revision_differ:
  assumes "is_uuid e" "is_uuid e'" "is_uuid t" "is_uuid t'"
  shows "ticketTypeCounterKey e t \<noteq> ticketTypeCounterRevisionKey e' t'"
  using assms by (auto simp: key_defs length_uuid)

lemma marker_keys_differ [simp]:
  "purchaseRequestSeenKey b e r \<noteq> eventCounterKey e'"
  "purchaseRequestSeenKey b e r \<noteq> eventCounterVersionKey e'"
  "purchaseRequestSeenKey b e r \<noteq> ticketTypeCounterKey e' t'"
  "purchaseRequestSeenKey b e r \<noteq> ticketTypeCounterRevisionKey e' t'"
  "eventCounterKey e' \<noteq> purchaseRequestSeenKey b e r"
  "eventCounterVersionKey e' \<noteq> purchaseRequestSeenKey b e r"
  "ticketTypeCounterKey e' t' \<noteq> purchaseRequestSeenKey b e r"
  "ticketTypeCounterRevisionKey e' t' \<noteq> purchaseRequestSeenKey b e r"
  by (simp_all add: key_defs)

lemmas type_key_inject = ticketTypeCounterKey_inject ticketTypeCounterRevisionKey_inject
lemmas key_families = event_type_keys_differ event_type_keys_differ [symmetric]
  event_key_version_differ event_key_version_differ [symmetric]
  counter_revision_differ counter_revision_differ [symmetric]

lemma scan_matches_counter_keys: "scan_matches (ticketTypeCounterKey e t)"
  by (simp add: scan_matches_def TICKET_TYPE_COUNTER_SCAN_PATTERN_def ticketTypeCounterKey_def)

lemma scan_misses_event_keys:
  assumes "is_uuid e"
  shows "\<not> scan_matches (eventCounterKey e)" "\<not> scan_matches (eventCounterVersionKey e)"
proof -
  obtain c s where e: "e = c # s" using length_uuid [OF assms] by (cases e) auto
  then have "c \<noteq> CHR ''t''" using hd_event_id [OF assms] by auto
  with e show "\<not> scan_matches (eventCounterKey e)" "\<not> scan_matches (eventCounterVersionKey e)"
    by (simp_all add: scan_matches_def TICKET_TYPE_COUNTER_SCAN_PATTERN_def key_defs)
qed

end
