(* ===== verification/Valkey.thy ===== *)
theory Valkey
  imports CacheKeys
begin

text \<open>
  The commands that the Lua scripts of src/cache/ and src/auth/rate-limit.service.ts run
  inside Valkey, as functions on the key space. Values are the integers whose decimal form
  the server stores; each key has an optional deadline in seconds on the server's clock, and a
  key whose deadline has passed reads as missing. A script is one function: the server runs
  scripts one at a time.
\<close>

record valkey =
  data :: "string \<Rightarrow> int option"
  deadline :: "string \<Rightarrow> int option"
  clock :: int

definition expired :: "valkey \<Rightarrow> string \<Rightarrow> bool" where
  "expired s k = (case deadline s k of None \<Rightarrow> False | Some d \<Rightarrow> d \<le> clock s)"

definition vk_get :: "string \<Rightarrow> valkey \<Rightarrow> int option" where
  "vk_get k s = (if expired s k then None else data s k)"

definition vk_exists :: "string \<Rightarrow> valkey \<Rightarrow> bool" where
  "vk_exists k s = (vk_get k s \<noteq> None)"

definition vk_set :: "string \<Rightarrow> int \<Rightarrow> valkey \<Rightarrow> valkey" where
  "vk_set k v s = s\<lparr>data := (data s)(k \<mapsto> v), deadline := (deadline s)(k := None)\<rparr>"

definition vk_set_ex :: "string \<Rightarrow> int \<Rightarrow> int \<Rightarrow> valkey \<Rightarrow> valkey" where
  "vk_set_ex k v ttl s =
     s\<lparr>data := (data s)(k \<mapsto> v), deadline := (deadline s)(k \<mapsto> clock s + ttl)\<rparr>"

text \<open>INCRBY starts a missing key at 0 and keeps the deadline of a live one.\<close>

definition vk_incrby :: "string \<Rightarrow> int \<Rightarrow> valkey \<Rightarrow> valkey" where
  "vk_incrby k n s =
     (case vk_get k s of
        None \<Rightarrow> vk_set k n s
      | Some v \<Rightarrow> s\<lparr>data := (data s)(k \<mapsto> v + n)\<rparr>)"

definition vk_expire :: "string \<Rightarrow> int \<Rightarrow> valkey \<Rightarrow> valkey" where
  "vk_expire k ttl s =
     (if vk_exists k s then s\<lparr>deadline := (deadline s)(k \<mapsto> clock s + ttl)\<rparr> else s)"

definition vk_ttl :: "string \<Rightarrow> valkey \<Rightarrow> int" where
  "vk_ttl k s =
     (if \<not> vk_exists k s then -2
      else (case deadline s k of None \<Rightarrow> -1 | Some d \<Rightarrow> d - clock s))"

abbreviation vk_decrby :: "string \<Rightarrow> int \<Rightarrow> valkey \<Rightarrow> valkey" where
  "vk_decrby k n \<equiv> vk_incrby k (- n)"

abbreviation vk_incr :: "string \<Rightarrow> valkey \<Rightarrow> valkey" where
  "vk_incr k \<equiv> vk_incrby k 1"

lemma vk_get_set [simp]:
  "vk_get k' (vk_set k v s) = (if k' = k then Some v else vk_get k' s)"
  by (auto simp: vk_get_def vk_set_def expired_def split: option.splits)

lemma vk_get_incrby [simp]:
  "vk_get k' (vk_incrby k n s) =
     (if k' = k then Some ((case vk_get k s of None \<Rightarrow> 0 | Some v \<Rightarrow> v) + n) else vk_get k' s)"
  by (auto simp: vk_get_def vk_set_def vk_incrby_def expired_def split: option.splits if_splits)

lemma vk_get_set_ex:
  "vk_get k' (vk_set_ex k v ttl s) =
     (if k' = k then (if ttl \<le> 0 then None else Some v) else vk_get k' s)"
  by (auto simp: vk_get_def vk_set_ex_def expired_def split: option.splits)

lemma vk_exists_iff: "vk_exists k s \<longleftrightarrow> (\<exists>v. vk_get k s = Some v)"
  by (auto simp: vk_exists_def)

lemma clock_simps [simp]:
  "clock (vk_set k v s) = clock s"
  "clock (vk_set_ex k v ttl s) = clock s"
  "clock (vk_incrby k n s) = clock s"
  "clock (vk_expire k ttl s) = clock s"
  by (auto simp: vk_set_def vk_set_ex_def vk_incrby_def vk_expire_def split: option.splits)

end
