(* ===== verification/InventoryCache.thy ===== *)
theory InventoryCache
  imports Valkey
begin

text \<open>
  The Valkey pre-filter of src/cache/inventory-cache.service.ts with the shared scripts of
  src/cache/inventory-cache.scripts.ts: every Lua script as a function on the key space and
  every method of \<open>InventoryCacheService\<close> with its fail-open path. The counters are
  interpretations of \<open>versioned_cells\<close>.
\<close>

section \<open>The scripts\<close>

datatype ReserveOutcome = Reserved | SoldOut | Unknown

datatype script_reply = Initialized | Released | Skipped | Synced

definition INIT_SCRIPT :: "string \<Rightarrow> string \<Rightarrow> int \<Rightarrow> valkey \<Rightarrow> script_reply \<times> valkey" where
  "INIT_SCRIPT k1 k2 quantity s = (Initialized, vk_incr k2 (vk_set k1 quantity s))"

definition TICKET_TYPE_INIT_SCRIPT :: "string \<Rightarrow> string \<Rightarrow> int \<Rightarrow> valkey \<Rightarrow> script_reply \<times> valkey" where
  "TICKET_TYPE_INIT_SCRIPT k1 k2 quantity s = (Initialized, vk_incr k2 (vk_set k1 quantity s))"

definition RESERVE_SCRIPT :: "string \<Rightarrow> string \<Rightarrow> int \<Rightarrow> valkey \<Rightarrow> ReserveOutcome \<times> valkey" where
  "RESERVE_SCRIPT k1 k2 quantity s =
     (case vk_get k1 s of
        None \<Rightarrow> (Unknown, s)
      | Some current \<Rightarrow>
          if current < quantity then (SoldOut, s)
          else (Reserved, vk_incr k2 (vk_decrby k1 quantity s)))"

definition RELEASE_SCRIPT :: "string \<Rightarrow> string \<Rightarrow> int \<Rightarrow> valkey \<Rightarrow> script_reply \<times> valkey" where
  "RELEASE_SCRIPT k1 k2 quantity s =
     (if \<not> vk_exists k1 s then (Skipped, s)
      else (Released, vk_incr k2 (vk_incrby k1 quantity s)))"

text \<open>A missing version key counts as \<open>'0'\<close>; the legacy script has no EXISTS check.\<close>

definition SYNC_SCRIPT :: "string \<Rightarrow> string \<Rightarrow> int \<Rightarrow> int \<Rightarrow> valkey \<Rightarrow> script_reply \<times> valkey" where
  "SYNC_SCRIPT k1 k2 remaining expected s =
     (let version = (case vk_get k2 s of None \<Rightarrow> 0 | Some v \<Rightarrow> v)
      in if version \<noteq> expected then (Skipped, s)
         else (Synced, vk_incr k2 (vk_set k1 remaining s)))"

definition TICKET_TYPE_RESERVE_SCRIPT ::
    "string \<Rightarrow> string \<Rightarrow> int \<Rightarrow> valkey \<Rightarrow> (ReserveOutcome \<times> int option) \<times> valkey" where
  "TICKET_TYPE_RESERVE_SCRIPT k1 k2 quantity s =
     (case vk_get k1 s of
        None \<Rightarrow> ((Unknown, None), s)
      | Some current \<Rightarrow>
          if current < quantity then ((SoldOut, None), s)
          else (let s' = vk_incr k2 (vk_decrby k1 quantity s)
                in ((Reserved, vk_get k2 s'), s')))"

definition TICKET_TYPE_RELEASE_SCRIPT :: "string \<Rightarrow> string \<Rightarrow> int \<Rightarrow> valkey \<Rightarrow> script_reply \<times> valkey" where
  "TICKET_TYPE_RELEASE_SCRIPT k1 k2 quantity s =
     (if \<not> vk_exists k1 s then (Skipped, s)
      else (Released, vk_incr k2 (vk_incrby k1 quantity s)))"

definition TICKET_TYPE_SYNC_SCRIPT ::
    "string \<Rightarrow> string \<Rightarrow> int \<Rightarrow> int \<Rightarrow> valkey \<Rightarrow> script_reply \<times> valkey" where
  "TICKET_TYPE_SYNC_SCRIPT k1 k2 remaining expected s =
     (if \<not> vk_exists k1 s then (Skipped, s)
      else (let revision = (case vk_get k2 s of None \<Rightarrow> 0 | Some v \<Rightarrow> v)
            in if revision \<noteq> expected then (Skipped, s)
               else (Synced, vk_incr k2 (vk_set k1 remaining s))))"

definition CLI_LEGACY_GUARDED_SYNC_SCRIPT ::
    "string \<Rightarrow> string \<Rightarrow> int \<Rightarrow> int \<Rightarrow> valkey \<Rightarrow> script_reply \<times> valkey" where
  "CLI_LEGACY_GUARDED_SYNC_SCRIPT k1 k2 remaining expected s =
     (if \<not> vk_exists k1 s then (Skipped, s)
      else (let version = (case vk_get k2 s of None \<Rightarrow> 0 | Some v \<Rightarrow> v)
            in if version \<noteq> expected then (Skipped, s)
               else (Synced, vk_incr k2 (vk_set k1 remaining s))))"

lemmas script_defs = INIT_SCRIPT_def TICKET_TYPE_INIT_SCRIPT_def RESERVE_SCRIPT_def
  RELEASE_SCRIPT_def SYNC_SCRIPT_def TICKET_TYPE_RESERVE_SCRIPT_def
  TICKET_TYPE_RELEASE_SCRIPT_def TICKET_TYPE_SYNC_SCRIPT_def CLI_LEGACY_GUARDED_SYNC_SCRIPT_def

section \<open>The service\<close>

text \<open>
  The service's state: the metrics sink, the key space, and whether a client exists
  (\<open>VALKEY_URL\<close> set). \<open>client_eval\<close> is one awaited command inside the method's try block:
  \<open>None\<close> is the exception its catch block handles.
\<close>

record cache_io = io +
  vk :: valkey
  client_enabled :: bool

definition client_eval ::
    "link \<Rightarrow> (valkey \<Rightarrow> 'r \<times> valkey) \<Rightarrow> 'a cache_io_scheme \<Rightarrow> 'r option \<times> 'a cache_io_scheme" where
  "client_eval net f w = (let (r, v) = via net f (vk w) in (r, w\<lparr>vk := v\<rparr>))"

definition fail_open :: "string \<Rightarrow> 'a cache_io_scheme \<Rightarrow> 'a cache_io_scheme" where
  "fail_open operation w = emitMetric ''ValkeyFailOpen'' [(''Operation'', operation)] w"

definition initCounter :: "link \<Rightarrow> string \<Rightarrow> int \<Rightarrow> 'a cache_io_scheme \<Rightarrow> 'a cache_io_scheme" where
  "initCounter net eventId quantity w =
     (if \<not> client_enabled w then w
      else snd (client_eval net
             (INIT_SCRIPT (eventCounterKey eventId) (eventCounterVersionKey eventId) quantity) w))"

definition reserve ::
    "link \<Rightarrow> string \<Rightarrow> int \<Rightarrow> 'a cache_io_scheme \<Rightarrow> ReserveOutcome \<times> 'a cache_io_scheme" where
  "reserve net eventId quantity w =
     (if \<not> client_enabled w then (Unknown, w)
      else (case client_eval net
              (RESERVE_SCRIPT (eventCounterKey eventId) (eventCounterVersionKey eventId) quantity) w of
             (Some outcome, w') \<Rightarrow> (outcome, w')
           | (None, w') \<Rightarrow> (Unknown, fail_open ''reserve'' w')))"

definition release :: "link \<Rightarrow> string \<Rightarrow> int \<Rightarrow> 'a cache_io_scheme \<Rightarrow> 'a cache_io_scheme" where
  "release net eventId quantity w =
     (if \<not> client_enabled w then w
      else snd (client_eval net
             (RELEASE_SCRIPT (eventCounterKey eventId) (eventCounterVersionKey eventId) quantity) w))"

definition getCounterVersion ::
    "link \<Rightarrow> string \<Rightarrow> 'a cache_io_scheme \<Rightarrow> int option \<times> 'a cache_io_scheme" where
  "getCounterVersion net eventId w =
     (if \<not> client_enabled w then (None, w)
      else (case client_eval net (\<lambda>s. (vk_get (eventCounterVersionKey eventId) s, s)) w of
             (Some reply, w') \<Rightarrow> (Some (case reply of None \<Rightarrow> 0 | Some v \<Rightarrow> v), w')
           | (None, w') \<Rightarrow> (None, fail_open ''getCounterVersion'' w')))"

definition syncCounter ::
    "link \<Rightarrow> string \<Rightarrow> int \<Rightarrow> int \<Rightarrow> 'a cache_io_scheme \<Rightarrow> bool \<times> 'a cache_io_scheme" where
  "syncCounter net eventId remaining expectedVersion w =
     (if \<not> client_enabled w then (False, w)
      else (case client_eval net
              (SYNC_SCRIPT (eventCounterKey eventId) (eventCounterVersionKey eventId)
                 remaining expectedVersion) w of
             (Some outcome, w') \<Rightarrow> (outcome = Synced, w')
           | (None, w') \<Rightarrow> (False, w')))"

definition REQUEST_SEEN_TTL_SECONDS :: int where
  "REQUEST_SEEN_TTL_SECONDS = 24 * 60 * 60"

definition markRequestSeen ::
    "link \<Rightarrow> string \<Rightarrow> string \<Rightarrow> string \<Rightarrow> 'a cache_io_scheme \<Rightarrow> 'a cache_io_scheme" where
  "markRequestSeen net buyerId eventId requestId w =
     (if \<not> client_enabled w then w
      else snd (client_eval net
             (\<lambda>s. ((), vk_set_ex (purchaseRequestSeenKey buyerId eventId requestId) 1
                        REQUEST_SEEN_TTL_SECONDS s)) w))"

definition wasRequestSeen ::
    "link \<Rightarrow> string \<Rightarrow> string \<Rightarrow> string \<Rightarrow> 'a cache_io_scheme \<Rightarrow> bool \<times> 'a cache_io_scheme" where
  "wasRequestSeen net buyerId eventId requestId w =
     (if \<not> client_enabled w then (True, w)
      else (case client_eval net
              (\<lambda>s. (vk_exists (purchaseRequestSeenKey buyerId eventId requestId) s, s)) w of
             (Some seen, w') \<Rightarrow> (seen, w')
           | (None, w') \<Rightarrow> (True, fail_open ''wasRequestSeen'' w')))"

definition initTicketTypeCounter ::
    "link \<Rightarrow> string \<Rightarrow> string \<Rightarrow> int \<Rightarrow> 'a cache_io_scheme \<Rightarrow> 'a cache_io_scheme" where
  "initTicketTypeCounter net eventId ticketTypeId quantity w =
     (if \<not> client_enabled w then w
      else (case client_eval net
              (TICKET_TYPE_INIT_SCRIPT (ticketTypeCounterKey eventId ticketTypeId)
                 (ticketTypeCounterRevisionKey eventId ticketTypeId) quantity) w of
             (Some _, w') \<Rightarrow> w'
           | (None, w') \<Rightarrow> fail_open ''initTicketTypeCounter'' w'))"

text \<open>The revision is handed on only with \<open>reserved\<close>.\<close>

definition reserveTicketType ::
    "link \<Rightarrow> string \<Rightarrow> string \<Rightarrow> int \<Rightarrow> 'a cache_io_scheme
       \<Rightarrow> (ReserveOutcome \<times> int option) \<times> 'a cache_io_scheme" where
  "reserveTicketType net eventId ticketTypeId quantity w =
     (if \<not> client_enabled w then ((Unknown, None), w)
      else (case client_eval net
              (TICKET_TYPE_RESERVE_SCRIPT (ticketTypeCounterKey eventId ticketTypeId)
                 (ticketTypeCounterRevisionKey eventId ticketTypeId) quantity) w of
             (Some (outcome, revn), w') \<Rightarrow> ((outcome, if outcome = Reserved then revn else None), w')
           | (None, w') \<Rightarrow> ((Unknown, None), fail_open ''reserveTicketType'' w')))"

definition releaseTicketType ::
    "link \<Rightarrow> string \<Rightarrow> string \<Rightarrow> int \<Rightarrow> 'a cache_io_scheme \<Rightarrow> bool \<times> 'a cache_io_scheme" where
  "releaseTicketType net eventId ticketTypeId quantity w =
     (if \<not> client_enabled w then (True, w)
      else (case client_eval net
              (TICKET_TYPE_RELEASE_SCRIPT (ticketTypeCounterKey eventId ticketTypeId)
                 (ticketTypeCounterRevisionKey eventId ticketTypeId) quantity) w of
             (Some _, w') \<Rightarrow> (True, w')
           | (None, w') \<Rightarrow> (False, fail_open ''releaseTicketType'' w')))"

definition getTicketTypeCounterRevision ::
    "link \<Rightarrow> string \<Rightarrow> string \<Rightarrow> 'a cache_io_scheme \<Rightarrow> int option \<times> 'a cache_io_scheme" where
  "getTicketTypeCounterRevision net eventId ticketTypeId w =
     (if \<not> client_enabled w then (None, w)
      else (case client_eval net
              (\<lambda>s. (vk_get (ticketTypeCounterRevisionKey eventId ticketTypeId) s, s)) w of
             (Some reply, w') \<Rightarrow> (Some (case reply of None \<Rightarrow> 0 | Some v \<Rightarrow> v), w')
           | (None, w') \<Rightarrow> (None, fail_open ''getTicketTypeCounterRevision'' w')))"

definition syncTicketTypeCounter ::
    "link \<Rightarrow> string \<Rightarrow> string \<Rightarrow> int \<Rightarrow> int \<Rightarrow> 'a cache_io_scheme \<Rightarrow> bool \<times> 'a cache_io_scheme" where
  "syncTicketTypeCounter net eventId ticketTypeId remaining expectedRevision w =
     (if \<not> client_enabled w then (False, w)
      else (case client_eval net
              (TICKET_TYPE_SYNC_SCRIPT (ticketTypeCounterKey eventId ticketTypeId)
                 (ticketTypeCounterRevisionKey eventId ticketTypeId) remaining expectedRevision) w of
             (Some outcome, w') \<Rightarrow> (outcome = Synced, w')
           | (None, w') \<Rightarrow> (False, fail_open ''syncTicketTypeCounter'' w')))"


lemmas service_defs = initCounter_def reserve_def release_def getCounterVersion_def syncCounter_def
  markRequestSeen_def wasRequestSeen_def initTicketTypeCounter_def reserveTicketType_def
  releaseTicketType_def getTicketTypeCounterRevision_def syncTicketTypeCounter_def

lemma client_eval_simps [simp]:
  "client_eval Delivered f w = (Some (fst (f (vk w))), w\<lparr>vk := snd (f (vk w))\<rparr>)"
  "client_eval LostRequest f w = (None, w)"
  "client_eval LostReply f w = (None, w\<lparr>vk := snd (f (vk w))\<rparr>)"
  by (simp_all add: client_eval_def)

lemma emitMetric_cache [simp]:
  "vk (emitMetric n d w) = vk w" "client_enabled (emitMetric n d w) = client_enabled w"
  by (simp_all add: emitMetric_def)

lemma fail_open_cache [simp]:
  "vk (fail_open n w) = vk w" "client_enabled (fail_open n w) = client_enabled w"
  by (simp_all add: fail_open_def)

definition sample_cache :: cache_io where
  "sample_cache = \<lparr>metrics = [],
     vk = \<lparr>data = [ticketTypeCounterKey uuid_a uuid_b \<mapsto> 5,
                   ticketTypeCounterRevisionKey uuid_a uuid_b \<mapsto> 1,
                   ticketTypeCounterKey uuid_a uuid_c \<mapsto> 3,
                   ticketTypeCounterRevisionKey uuid_a uuid_c \<mapsto> 1],
           deadline = Map.empty, clock = 0\<rparr>,
     client_enabled = True\<rparr>"

section \<open>Sequences of cache operations\<close>

text \<open>
  The operations other requests can perform between two calls of one request, with the fate
  of their network call. Ids reach the cache only after \<open>parsePurchaseInput\<close> or from the
  database, so they are UUIDs.
\<close>

datatype cache_op =
    OpInit string int
  | OpReserve string int
  | OpRelease string int
  | OpSync string int int
  | OpMark string string string
  | OpInitTT string string int
  | OpReserveTT string string int
  | OpReleaseTT string string int
  | OpSyncTT string string int int

fun cache_step :: "cache_op \<times> link \<Rightarrow> cache_io \<Rightarrow> cache_io" where
  "cache_step (OpInit e q, net) w = initCounter net e q w"
| "cache_step (OpReserve e q, net) w = snd (reserve net e q w)"
| "cache_step (OpRelease e q, net) w = release net e q w"
| "cache_step (OpSync e r v, net) w = snd (syncCounter net e r v w)"
| "cache_step (OpMark b e i, net) w = markRequestSeen net b e i w"
| "cache_step (OpInitTT e t q, net) w = initTicketTypeCounter net e t q w"
| "cache_step (OpReserveTT e t q, net) w = snd (reserveTicketType net e t q w)"
| "cache_step (OpReleaseTT e t q, net) w = snd (releaseTicketType net e t q w)"
| "cache_step (OpSyncTT e t r v, net) w = snd (syncTicketTypeCounter net e t r v w)"

fun op_ids :: "cache_op \<Rightarrow> string list" where
  "op_ids (OpInit e q) = [e]"
| "op_ids (OpReserve e q) = [e]"
| "op_ids (OpRelease e q) = [e]"
| "op_ids (OpSync e r v) = [e]"
| "op_ids (OpMark b e i) = [b, e]"
| "op_ids (OpInitTT e t q) = [e, t]"
| "op_ids (OpReserveTT e t q) = [e, t]"
| "op_ids (OpReleaseTT e t q) = [e, t]"
| "op_ids (OpSyncTT e t r v) = [e, t]"

definition op_ok :: "cache_op \<times> link \<Rightarrow> bool" where
  "op_ok x = list_all (\<lambda>s. is_uuid s) (op_ids (fst x))"

fun op_quantity :: "cache_op \<Rightarrow> int" where
  "op_quantity (OpInit e q) = q"
| "op_quantity (OpReserve e q) = q"
| "op_quantity (OpRelease e q) = q"
| "op_quantity (OpSync e r v) = r"
| "op_quantity (OpMark b e i) = 0"
| "op_quantity (OpInitTT e t q) = q"
| "op_quantity (OpReserveTT e t q) = q"
| "op_quantity (OpReleaseTT e t q) = q"
| "op_quantity (OpSyncTT e t r v) = r"

definition uuid_pair :: "string \<times> string \<Rightarrow> bool" where
  "uuid_pair k = (is_uuid (fst k) \<and> is_uuid (snd k))"

definition tt_counter :: "string \<times> string \<Rightarrow> 'a cache_io_scheme \<Rightarrow> int option" where
  "tt_counter k w = vk_get (ticketTypeCounterKey (fst k) (snd k)) (vk w)"

definition tt_revision :: "string \<times> string \<Rightarrow> 'a cache_io_scheme \<Rightarrow> int" where
  "tt_revision k w =
     (case vk_get (ticketTypeCounterRevisionKey (fst k) (snd k)) (vk w) of None \<Rightarrow> 0 | Some v \<Rightarrow> v)"

definition ev_counter :: "string \<Rightarrow> 'a cache_io_scheme \<Rightarrow> int option" where
  "ev_counter e w = vk_get (eventCounterKey e) (vk w)"

definition ev_version :: "string \<Rightarrow> 'a cache_io_scheme \<Rightarrow> int" where
  "ev_version e w = (case vk_get (eventCounterVersionKey e) (vk w) of None \<Rightarrow> 0 | Some v \<Rightarrow> v)"

lemmas cell_defs = tt_counter_def tt_revision_def ev_counter_def ev_version_def

text \<open>What one delivered script does to a counter cell: the whole of the case analysis.\<close>

definition cell_change :: "int option \<Rightarrow> int \<Rightarrow> int option \<Rightarrow> int \<Rightarrow> bool" where
  "cell_change c r c' r' \<longleftrightarrow> (c' = c \<and> r' = r) \<or> r' = r + 1"

lemma tt_cell_step:
  assumes "uuid_pair k" "op_ok x"
  shows "cell_change (tt_counter k w) (tt_revision k w)
           (tt_counter k (cache_step x w)) (tt_revision k (cache_step x w))"
proof -
  obtain op net where x: "x = (op, net)" by (cases x)
  show ?thesis
    using assms unfolding x
    by (cases op; cases net)
      (auto simp: cell_change_def cell_defs service_defs script_defs uuid_pair_def op_ok_def
         key_families type_key_inject vk_exists_iff vk_get_set_ex Let_def split: option.splits if_splits)
qed


lemma ev_cell_step:
  assumes "is_uuid e" "op_ok x"
  shows "cell_change (ev_counter e w) (ev_version e w)
           (ev_counter e (cache_step x w)) (ev_version e (cache_step x w))"
proof -
  obtain op net where x: "x = (op, net)" by (cases x)
  show ?thesis
    using assms unfolding x
    by (cases op; cases net)
      (auto simp: cell_change_def cell_defs service_defs script_defs op_ok_def
         key_families vk_exists_iff vk_get_set_ex Let_def split: option.splits if_splits)
qed

interpretation tt_cells: versioned_cells uuid_pair op_ok "\<lambda>_. True" tt_revision tt_counter cache_step
proof unfold_locales
  fix k x and s :: cache_io
  assume "uuid_pair k" "op_ok x"
  from tt_cell_step [OF this, of s]
  show "tt_revision k s \<le> tt_revision k (cache_step x s)"
    and "tt_revision k (cache_step x s) = tt_revision k s
           \<Longrightarrow> tt_counter k (cache_step x s) = tt_counter k s"
    by (auto simp: cell_change_def)
qed simp

interpretation ev_cells: versioned_cells "\<lambda>e. is_uuid e" op_ok "\<lambda>_. True" ev_version ev_counter cache_step
proof unfold_locales
  fix e x and s :: cache_io
  assume "is_uuid e" "op_ok x"
  from ev_cell_step [OF this, of s]
  show "ev_version e s \<le> ev_version e (cache_step x s)"
    and "ev_version e (cache_step x s) = ev_version e s
           \<Longrightarrow> ev_counter e (cache_step x s) = ev_counter e s"
    by (auto simp: cell_change_def)
qed simp

section \<open>Compare-and-set never overwrites a concurrent change\<close>

lemma getTicketTypeCounterRevision_Some:
  "getTicketTypeCounterRevision net e t w = (Some r, w') \<Longrightarrow> r = tt_revision (e, t) w \<and> w' = w"
  by (cases net) (auto simp: getTicketTypeCounterRevision_def tt_revision_def split: if_splits)

lemma getCounterVersion_Some:
  "getCounterVersion net e w = (Some r, w') \<Longrightarrow> r = ev_version e w \<and> w' = w"
  by (cases net) (auto simp: getCounterVersion_def ev_version_def split: if_splits)

lemma syncTicketTypeCounter_True:
  "syncTicketTypeCounter net e t q r w = (True, w') \<Longrightarrow>
     r = tt_revision (e, t) w \<and> tt_counter (e, t) w \<noteq> None"
  by (cases net)
    (auto simp: syncTicketTypeCounter_def tt_revision_def tt_counter_def vk_exists_def
      TICKET_TYPE_SYNC_SCRIPT_def Let_def split: if_splits option.splits)

lemma syncTicketTypeCounter_effect:
  assumes "syncTicketTypeCounter net e t q r w = (True, w')" "is_uuid e" "is_uuid t"
  shows "tt_counter (e, t) w' = Some q"
  using assms
  by (cases net)
    (auto simp: syncTicketTypeCounter_def tt_revision_def tt_counter_def key_families
      TICKET_TYPE_SYNC_SCRIPT_def Let_def split: if_splits option.splits)

lemma syncCounter_True:
  "syncCounter net e q v w = (True, w') \<Longrightarrow> v = ev_version e w"
  by (cases net)
    (auto simp: syncCounter_def ev_version_def SYNC_SCRIPT_def Let_def split: if_splits option.splits)

text \<open>C10: a Ticket Type sync anchored at a revision read earlier succeeds only if no operation
  of any other request changed that counter in between, whatever those requests did and
  whatever happened to their network calls: compare-and-set loses no update.\<close>

theorem tt_sync_loses_no_update:
  assumes "isUuidString (JString e)" "isUuidString (JString t)"
    and "list_all op_ok others"
    and "fst (getTicketTypeCounterRevision net e t w) = Some r"
    and "w2 = fold cache_step others (snd (getTicketTypeCounterRevision net e t w))"
    and "fst (syncTicketTypeCounter net' e t remaining r w2)"
  shows "tt_counter (e, t) w2 = tt_counter (e, t) w
    \<and> tt_counter (e, t) (snd (syncTicketTypeCounter net' e t remaining r w2)) = Some remaining"
proof -
  have k: "uuid_pair (e, t)" using assms(1,2) by (simp add: uuid_pair_def)
  obtain w1 where g: "getTicketTypeCounterRevision net e t w = (Some r, w1)"
    using assms(4) by (metis prod.collapse)
  obtain w3 where s: "syncTicketTypeCounter net' e t remaining r w2 = (True, w3)"
    using assms(6) by (metis prod.collapse)
  from getTicketTypeCounterRevision_Some [OF g]
  have r: "r = tt_revision (e, t) w" and w1: "w1 = w" by simp_all
  have w2: "w2 = fold cache_step others w" using assms(5) g w1 by simp
  from syncTicketTypeCounter_True [OF s] r
  have "tt_revision (e, t) (fold cache_step others w) = tt_revision (e, t) w" by (simp add: w2)
  with tt_cells.run_content_frozen [OF k assms(3) TrueI]
  have "tt_counter (e, t) w2 = tt_counter (e, t) w" by (simp add: w2)
  with syncTicketTypeCounter_effect [OF s assms(1,2)] s show ?thesis by simp
qed

theorem tt_sync_loses_no_update_witness:
  "tt_counter (uuid_a, uuid_b)
     (snd (syncTicketTypeCounter Delivered uuid_a uuid_b 4 1
        (fold cache_step [(OpReserveTT uuid_a uuid_c 1, Delivered)]
          (snd (getTicketTypeCounterRevision Delivered uuid_a uuid_b sample_cache))))) = Some 4"
proof -
  have "list_all op_ok [(OpReserveTT uuid_a uuid_c 1, Delivered)]" by (simp add: op_ok_def)
  moreover have "fst (getTicketTypeCounterRevision Delivered uuid_a uuid_b sample_cache) = Some 1"
    by code_simp
  moreover have "fst (syncTicketTypeCounter Delivered uuid_a uuid_b 4 1
      (fold cache_step [(OpReserveTT uuid_a uuid_c 1, Delivered)]
        (snd (getTicketTypeCounterRevision Delivered uuid_a uuid_b sample_cache))))"
    by code_simp
  ultimately show ?thesis
    using tt_sync_loses_no_update [OF uuid_samples(1,2) _ _ refl] by blast
qed

section \<open>Counters stay within the stock\<close>

text \<open>
  Every counter key of either namespace holds a non-negative value: reserve compares before
  it subtracts, and nothing else subtracts.
\<close>

definition counters_nonneg :: "'a cache_io_scheme \<Rightarrow> bool" where
  "counters_nonneg w \<longleftrightarrow>
     (\<forall>k c. uuid_pair k \<longrightarrow> tt_counter k w = Some c \<longrightarrow> 0 \<le> c)
     \<and> (\<forall>e c. isUuidString (JString e) \<longrightarrow> ev_counter e w = Some c \<longrightarrow> 0 \<le> c)"

lemma cache_step_tt_nonneg:
  assumes "uuid_pair k" "op_ok x" "0 \<le> op_quantity (fst x)"
    and "\<And>c. tt_counter k w = Some c \<Longrightarrow> 0 \<le> c" "tt_counter k (cache_step x w) = Some c'"
  shows "0 \<le> c'"
proof -
  obtain op net where x: "x = (op, net)" by (cases x)
  show ?thesis
    using assms unfolding x
    by (cases op; cases net)
      (auto simp: cell_defs service_defs script_defs uuid_pair_def op_ok_def key_families
         type_key_inject vk_exists_iff vk_get_set_ex Let_def split: option.splits if_splits)
qed

lemma cache_step_ev_nonneg:
  assumes "is_uuid e" "op_ok x" "0 \<le> op_quantity (fst x)"
    and "\<And>c. ev_counter e w = Some c \<Longrightarrow> 0 \<le> c" "ev_counter e (cache_step x w) = Some c'"
  shows "0 \<le> c'"
proof -
  obtain op net where x: "x = (op, net)" by (cases x)
  show ?thesis
    using assms unfolding x
    by (cases op; cases net)
      (auto simp: cell_defs service_defs script_defs op_ok_def key_families
         vk_exists_iff vk_get_set_ex Let_def split: option.splits if_splits)
qed

lemma cache_step_counters_nonneg:
  assumes "counters_nonneg w" "op_ok x" "0 \<le> op_quantity (fst x)"
  shows "counters_nonneg (cache_step x w)"
  unfolding counters_nonneg_def
proof (intro conjI allI impI)
  fix k c assume k: "uuid_pair k" and c: "tt_counter k (cache_step x w) = Some c"
  have "\<And>c. tt_counter k w = Some c \<Longrightarrow> 0 \<le> c"
    using assms(1) k unfolding counters_nonneg_def by blast
  from cache_step_tt_nonneg [OF k assms(2,3) this c] show "0 \<le> c" .
next
  fix e c assume e: "is_uuid e" and c: "ev_counter e (cache_step x w) = Some c"
  have "\<And>c. ev_counter e w = Some c \<Longrightarrow> 0 \<le> c"
    using assms(1) e by (simp add: counters_nonneg_def)
  from cache_step_ev_nonneg [OF e assms(2,3) this c] show "0 \<le> c" .
qed

text \<open>C11: no interleaving of cache operations with non-negative quantities, delivered or lost,
  drives a counter of either namespace below zero.\<close>

theorem counters_never_negative:
  assumes "counters_nonneg w" "list_all (\<lambda>x. op_ok x \<and> 0 \<le> op_quantity (fst x)) ops"
  shows "counters_nonneg (fold cache_step ops w)"
  using assms by (induction ops arbitrary: w) (auto intro: cache_step_counters_nonneg)

lemma sample_cache_nonneg: "counters_nonneg sample_cache"
  by (auto simp: counters_nonneg_def sample_cache_def cell_defs vk_get_def expired_def
      split: if_splits)

theorem counters_never_negative_witness:
  "counters_nonneg (fold cache_step
     [(OpReserveTT uuid_a uuid_b 5, Delivered), (OpReserveTT uuid_a uuid_b 1, LostReply)] sample_cache)"
  by (rule counters_never_negative [OF sample_cache_nonneg]) (simp add: op_ok_def)

section \<open>Scope isolation and no fabricated counters\<close>

fun op_scope :: "cache_op \<Rightarrow> (string \<times> string) option" where
  "op_scope (OpInitTT e t q) = Some (e, t)"
| "op_scope (OpReserveTT e t q) = Some (e, t)"
| "op_scope (OpReleaseTT e t q) = Some (e, t)"
| "op_scope (OpSyncTT e t r v) = Some (e, t)"
| "op_scope _ = None"

fun is_init_tt :: "cache_op \<Rightarrow> bool" where
  "is_init_tt (OpInitTT e t q) = True"
| "is_init_tt _ = False"

lemma cache_step_other_scope:
  assumes "uuid_pair k" "op_ok x" "op_scope (fst x) \<noteq> Some k"
  shows "tt_counter k (cache_step x w) = tt_counter k w
    \<and> tt_revision k (cache_step x w) = tt_revision k w"
proof -
  obtain op net where x: "x = (op, net)" by (cases x)
  show ?thesis
    using assms unfolding x
    by (cases op; cases net; cases k)
      (auto simp: cell_defs service_defs script_defs uuid_pair_def op_ok_def
         key_families type_key_inject vk_exists_iff vk_get_set_ex Let_def
         split: option.splits if_splits)
qed

text \<open>An operation changes only the counter and the revision of its own Ticket Type: no
  sequence of operations on other Types, and no operation of the legacy Event namespace,
  touches the cell of a Type.\<close>

theorem ticket_type_scopes_isolated:
  assumes "uuid_pair k" "list_all (\<lambda>x. op_ok x \<and> op_scope (fst x) \<noteq> Some k) ops"
  shows "tt_counter k (fold cache_step ops w) = tt_counter k w
    \<and> tt_revision k (fold cache_step ops w) = tt_revision k w"
  using assms(2)
proof (induction ops arbitrary: w)
  case Nil
  then show ?case by simp
next
  case (Cons x ops)
  then show ?case using cache_step_other_scope [OF assms(1), of x w] by simp
qed

theorem ticket_type_scopes_isolated_witness:
  "tt_counter (uuid_a, uuid_b) (fold cache_step [(OpReserveTT uuid_a uuid_c 2, Delivered)] sample_cache)
     = tt_counter (uuid_a, uuid_b) sample_cache"
proof -
  have "uuid_pair (uuid_a, uuid_b)" by (simp add: uuid_pair_def)
  moreover have "list_all (\<lambda>x. op_ok x \<and> op_scope (fst x) \<noteq> Some (uuid_a, uuid_b))
      [(OpReserveTT uuid_a uuid_c 2, Delivered)]"
    by (simp add: op_ok_def uuid_samples_distinct)
  ultimately show ?thesis using ticket_type_scopes_isolated by blast
qed

lemma cache_step_no_fabrication:
  assumes "uuid_pair k" "op_ok x" "\<not> is_init_tt (fst x)" "tt_counter k w = None"
  shows "tt_counter k (cache_step x w) = None"
proof -
  obtain op net where x: "x = (op, net)" by (cases x)
  show ?thesis
    using assms unfolding x
    by (cases op; cases net)
      (auto simp: cell_defs service_defs script_defs uuid_pair_def op_ok_def key_families
         type_key_inject vk_exists_iff vk_get_set_ex Let_def split: option.splits if_splits)
qed

text \<open>Only initTicketTypeCounter activates a Ticket Type: reserve, release and sync, in any
  order and under any network failures, never create the counter of a Type that has none.\<close>

theorem only_init_creates_counter:
  assumes "uuid_pair k" "tt_counter k w = None"
    and "list_all (\<lambda>x. op_ok x \<and> \<not> is_init_tt (fst x)) ops"
  shows "tt_counter k (fold cache_step ops w) = None"
  using assms(2,3)
proof (induction ops arbitrary: w)
  case Nil
  then show ?case by simp
next
  case (Cons x ops)
  then show ?case using cache_step_no_fabrication [OF assms(1), of x w] by simp
qed

theorem only_init_creates_counter_witness:
  "tt_counter (uuid_b, uuid_c) (fold cache_step
     [(OpReleaseTT uuid_b uuid_c 2, Delivered), (OpSyncTT uuid_b uuid_c 7 0, Delivered)] sample_cache) = None"
proof -
  have "uuid_pair (uuid_b, uuid_c)" by (simp add: uuid_pair_def)
  moreover have "tt_counter (uuid_b, uuid_c) sample_cache = None" by code_simp
  moreover have "list_all (\<lambda>x. op_ok x \<and> \<not> is_init_tt (fst x))
      [(OpReleaseTT uuid_b uuid_c 2, Delivered), (OpSyncTT uuid_b uuid_c 7 0, Delivered)]"
    by (simp add: op_ok_def)
  ultimately show ?thesis using only_init_creates_counter by blast
qed

end
