(* ===== verification/InventoryEvent.thy ===== *)
theory InventoryEvent
  imports JsValues
begin

text \<open>
  The InventoryChanged contract of src/messaging/inventory-event.contract.ts: the versioned payload,
  its builder (producer) and the runtime parser (consumer), which tells versioned from legacy
  payloads and throws on anything in between.
\<close>

section \<open>The payload\<close>

record VersionedInventoryChangedPayload =
  vp_eventId :: string
  vp_remainingQuantity :: int
  vp_inventoryEventVersion :: int
  vp_ticketTypeId :: string
  vp_ticketTypeName :: string
  vp_ticketTypeTotalQuantity :: int
  vp_ticketTypeRemainingQuantity :: int
  vp_inventoryVersion :: TicketTypeInventoryVersion
  vp_eventTotalQuantity :: int
  vp_eventRemainingQuantity :: int
  vp_eventInventoryVersion :: EventInventoryVersion

datatype ParsedInventoryChanged =
    Versioned VersionedInventoryChangedPayload
  | LegacyChange string int

definition SUPPORTED_INVENTORY_EVENT_VERSION :: int where
  "SUPPORTED_INVENTORY_EVENT_VERSION = 1"

definition VERSIONED_MARKER_FIELDS :: "string list" where
  "VERSIONED_MARKER_FIELDS =
     [''inventoryEventVersion'', ''ticketTypeId'', ''ticketTypeName'', ''ticketTypeTotalQuantity'',
      ''ticketTypeRemainingQuantity'', ''inventoryVersion'', ''eventTotalQuantity'',
      ''eventRemainingQuantity'', ''eventInventoryVersion'']"

definition TRACE_CONTEXT_FIELD :: string where
  "TRACE_CONTEXT_FIELD = ''_traceContext''"

section \<open>The parser\<close>

definition isNonNegativeInt :: "jsval \<Rightarrow> bool" where
  "isNonNegativeInt v = (isSafeInteger v \<and> number_value v \<ge> 0 \<and> number_value v \<le> POSTGRES_INT4_MAX)"

text \<open>The white space \<open>trim\<close> removes, among the first 256 code units.\<close>

definition is_js_space :: "char \<Rightarrow> bool" where
  "is_js_space c = (let n = (of_char c :: nat) in (9 \<le> n \<and> n \<le> 13) \<or> n = 32 \<or> n = 160)"

definition isNonBlankString :: "jsval \<Rightarrow> bool" where
  "isNonBlankString v = (case v of JString s \<Rightarrow> \<not> list_all is_js_space s | _ \<Rightarrow> False)"

definition parseInventoryChangedDetail :: "jsval \<Rightarrow> ParsedInventoryChanged result" where
  "parseInventoryChangedDetail detail =
     (case detail of
        JObject fs \<Rightarrow>
          (let f = get_field fs in
           if \<not> isUuidString (f ''eventId'')
           then Inl (InventoryEventContractError ''InventoryChanged detail has missing or invalid eventId'')
           else if \<not> list_ex (\<lambda>m. f m \<noteq> JUndefined) VERSIONED_MARKER_FIELDS
           then (if \<not> isNonNegativeInt (f ''remainingQuantity'')
                 then Inl (InventoryEventContractError ''legacy InventoryChanged detail has missing or invalid remainingQuantity'')
                 else Inr (LegacyChange (string_value (f ''eventId'')) (number_value (f ''remainingQuantity''))))
           else if f ''inventoryEventVersion'' \<noteq> jsint SUPPORTED_INVENTORY_EVENT_VERSION
           then Inl (InventoryEventContractError ''unsupported inventoryEventVersion'')
           else if \<not> isUuidString (f ''ticketTypeId'')
           then Inl (InventoryEventContractError ''versioned InventoryChanged has missing or invalid ticketTypeId'')
           else if \<not> isNonBlankString (f ''ticketTypeName'')
           then Inl (InventoryEventContractError ''versioned InventoryChanged has missing or invalid ticketTypeName'')
           else if \<not> isNonNegativeInt (f ''ticketTypeTotalQuantity'')
           then Inl (InventoryEventContractError ''versioned InventoryChanged has invalid ticketTypeTotalQuantity'')
           else if \<not> isNonNegativeInt (f ''ticketTypeRemainingQuantity'')
           then Inl (InventoryEventContractError ''versioned InventoryChanged has invalid ticketTypeRemainingQuantity'')
           else if number_value (f ''ticketTypeRemainingQuantity'') > number_value (f ''ticketTypeTotalQuantity'')
           then Inl (InventoryEventContractError ''versioned InventoryChanged has ticketType remaining greater than total'')
           else if \<not> isNonNegativeInt (f ''inventoryVersion'')
           then Inl (InventoryEventContractError ''versioned InventoryChanged has invalid inventoryVersion'')
           else if \<not> isNonNegativeInt (f ''eventTotalQuantity'')
           then Inl (InventoryEventContractError ''versioned InventoryChanged has invalid eventTotalQuantity'')
           else if \<not> isNonNegativeInt (f ''eventRemainingQuantity'')
           then Inl (InventoryEventContractError ''versioned InventoryChanged has invalid eventRemainingQuantity'')
           else if number_value (f ''eventRemainingQuantity'') > number_value (f ''eventTotalQuantity'')
           then Inl (InventoryEventContractError ''versioned InventoryChanged has event remaining greater than total'')
           else if \<not> isNonNegativeInt (f ''eventInventoryVersion'')
           then Inl (InventoryEventContractError ''versioned InventoryChanged has invalid eventInventoryVersion'')
           else if \<not> isNonNegativeInt (f ''remainingQuantity'')
           then Inl (InventoryEventContractError ''versioned InventoryChanged has invalid legacy remainingQuantity'')
           else if f ''remainingQuantity'' \<noteq> f ''eventRemainingQuantity''
           then Inl (InventoryEventContractError ''versioned InventoryChanged legacy remainingQuantity diverges from eventRemainingQuantity'')
           else (case (toTicketTypeInventoryVersion (f ''inventoryVersion''),
                       toEventInventoryVersion (f ''eventInventoryVersion'')) of
               (Inl e, _) \<Rightarrow> Inl e
             | (_, Inl e) \<Rightarrow> Inl e
             | (Inr tv, Inr ev) \<Rightarrow> Inr (Versioned
                 \<lparr>vp_eventId = string_value (f ''eventId''),
                  vp_remainingQuantity = number_value (f ''remainingQuantity''),
                  vp_inventoryEventVersion = SUPPORTED_INVENTORY_EVENT_VERSION,
                  vp_ticketTypeId = string_value (f ''ticketTypeId''),
                  vp_ticketTypeName = string_value (f ''ticketTypeName''),
                  vp_ticketTypeTotalQuantity = number_value (f ''ticketTypeTotalQuantity''),
                  vp_ticketTypeRemainingQuantity = number_value (f ''ticketTypeRemainingQuantity''),
                  vp_inventoryVersion = tv,
                  vp_eventTotalQuantity = number_value (f ''eventTotalQuantity''),
                  vp_eventRemainingQuantity = number_value (f ''eventRemainingQuantity''),
                  vp_eventInventoryVersion = ev\<rparr>)))
      | _ \<Rightarrow> Inl (InventoryEventContractError ''InventoryChanged detail is not an object''))"

section \<open>The builder\<close>

definition buildVersionedInventoryChangedDetail ::
    "string \<Rightarrow> string \<Rightarrow> string \<Rightarrow> int \<Rightarrow> int \<Rightarrow> TicketTypeInventoryVersion \<Rightarrow> int \<Rightarrow> int \<Rightarrow> EventInventoryVersion
       \<Rightarrow> VersionedInventoryChangedPayload" where
  "buildVersionedInventoryChangedDetail eventId ticketTypeId ticketTypeName ticketTypeTotal ticketTypeRemaining
       inventoryVersion eventTotal eventRemaining eventInventoryVersion =
     \<lparr>vp_eventId = eventId, vp_remainingQuantity = eventRemaining,
      vp_inventoryEventVersion = SUPPORTED_INVENTORY_EVENT_VERSION,
      vp_ticketTypeId = ticketTypeId, vp_ticketTypeName = ticketTypeName,
      vp_ticketTypeTotalQuantity = ticketTypeTotal, vp_ticketTypeRemainingQuantity = ticketTypeRemaining,
      vp_inventoryVersion = inventoryVersion, vp_eventTotalQuantity = eventTotal,
      vp_eventRemainingQuantity = eventRemaining, vp_eventInventoryVersion = eventInventoryVersion\<rparr>"

text \<open>The object the payload is at run time, which \<open>JSON.stringify\<close> and \<open>JSON.parse\<close> carry unchanged.\<close>

definition payload_fields :: "VersionedInventoryChangedPayload \<Rightarrow> (string \<times> jsval) list" where
  "payload_fields p =
     [(''eventId'', JString (vp_eventId p)), (''remainingQuantity'', jsint (vp_remainingQuantity p)),
      (''inventoryEventVersion'', jsint (vp_inventoryEventVersion p)),
      (''ticketTypeId'', JString (vp_ticketTypeId p)), (''ticketTypeName'', JString (vp_ticketTypeName p)),
      (''ticketTypeTotalQuantity'', jsint (vp_ticketTypeTotalQuantity p)),
      (''ticketTypeRemainingQuantity'', jsint (vp_ticketTypeRemainingQuantity p)),
      (''inventoryVersion'', jsint (ttv (vp_inventoryVersion p))),
      (''eventTotalQuantity'', jsint (vp_eventTotalQuantity p)),
      (''eventRemainingQuantity'', jsint (vp_eventRemainingQuantity p)),
      (''eventInventoryVersion'', jsint (evv (vp_eventInventoryVersion p)))]"

definition stripTraceContext :: "(string \<times> jsval) list \<Rightarrow> (string \<times> jsval) list" where
  "stripTraceContext fs = (if get_field fs TRACE_CONTEXT_FIELD = JUndefined then fs
                           else filter (\<lambda>f. fst f \<noteq> TRACE_CONTEXT_FIELD) fs)"

text \<open>The spread of \<open>publish\<close> (src/messaging/domain-events.service.ts): the carrier, when there is one,
  is set on a copy of the detail.\<close>

definition detailWithTrace :: "jsval option \<Rightarrow> (string \<times> jsval) list \<Rightarrow> (string \<times> jsval) list" where
  "detailWithTrace traceContext detail =
     (case traceContext of
        None \<Rightarrow> detail
      | Some c \<Rightarrow> filter (\<lambda>f. fst f \<noteq> TRACE_CONTEXT_FIELD) detail @ [(TRACE_CONTEXT_FIELD, c)])"

section \<open>Properties\<close>

definition int4_nonneg :: "int \<Rightarrow> bool" where
  "int4_nonneg i = (0 \<le> i \<and> i \<le> POSTGRES_INT4_MAX)"

definition payload_wf :: "VersionedInventoryChangedPayload \<Rightarrow> bool" where
  "payload_wf p \<longleftrightarrow> is_uuid (vp_eventId p) \<and> is_uuid (vp_ticketTypeId p)
     \<and> isNonBlankString (JString (vp_ticketTypeName p))
     \<and> vp_inventoryEventVersion p = SUPPORTED_INVENTORY_EVENT_VERSION
     \<and> vp_remainingQuantity p = vp_eventRemainingQuantity p
     \<and> int4_nonneg (vp_ticketTypeTotalQuantity p) \<and> int4_nonneg (vp_ticketTypeRemainingQuantity p)
     \<and> int4_nonneg (vp_eventTotalQuantity p) \<and> int4_nonneg (vp_eventRemainingQuantity p)
     \<and> vp_ticketTypeRemainingQuantity p \<le> vp_ticketTypeTotalQuantity p
     \<and> vp_eventRemainingQuantity p \<le> vp_eventTotalQuantity p
     \<and> int4_nonneg (ttv (vp_inventoryVersion p)) \<and> int4_nonneg (evv (vp_eventInventoryVersion p))"

lemma isNonNegativeInt_iff: "isNonNegativeInt v \<longleftrightarrow> v = jsint (number_value v) \<and> int4_nonneg (number_value v)"
  using isVersionValue_iff [of v] by (simp add: isNonNegativeInt_def isVersionValue_def int4_nonneg_def)

lemma isNonNegativeInt_jsint [simp]: "isNonNegativeInt (jsint i) \<longleftrightarrow> int4_nonneg i"
  by (simp add: isNonNegativeInt_iff)

lemma to_versions:
  assumes "isNonNegativeInt v"
  shows "toTicketTypeInventoryVersion v = Inr (TTVersion (number_value v))"
    "toEventInventoryVersion v = Inr (EvVersion (number_value v))"
  using assms by (simp_all add: toTicketTypeInventoryVersion_def toEventInventoryVersion_def
      isVersionValue_def isNonNegativeInt_def)

lemma isNonBlankString_string: "isNonBlankString v \<Longrightarrow> isNonBlankString (JString (string_value v))"
  by (cases v) (auto simp: isNonBlankString_def)

lemma payload_without_trace: "filter (\<lambda>f. fst f \<noteq> TRACE_CONTEXT_FIELD) (payload_fields p) = payload_fields p"
  by (simp add: payload_fields_def TRACE_CONTEXT_FIELD_def)

lemma get_payload_field:
  "get_field (payload_fields p @ fs) ''eventId'' = JString (vp_eventId p)"
  "get_field (payload_fields p @ fs) ''remainingQuantity'' = jsint (vp_remainingQuantity p)"
  "get_field (payload_fields p @ fs) ''inventoryEventVersion'' = jsint (vp_inventoryEventVersion p)"
  "get_field (payload_fields p @ fs) ''ticketTypeId'' = JString (vp_ticketTypeId p)"
  "get_field (payload_fields p @ fs) ''ticketTypeName'' = JString (vp_ticketTypeName p)"
  "get_field (payload_fields p @ fs) ''ticketTypeTotalQuantity'' = jsint (vp_ticketTypeTotalQuantity p)"
  "get_field (payload_fields p @ fs) ''ticketTypeRemainingQuantity'' = jsint (vp_ticketTypeRemainingQuantity p)"
  "get_field (payload_fields p @ fs) ''inventoryVersion'' = jsint (ttv (vp_inventoryVersion p))"
  "get_field (payload_fields p @ fs) ''eventTotalQuantity'' = jsint (vp_eventTotalQuantity p)"
  "get_field (payload_fields p @ fs) ''eventRemainingQuantity'' = jsint (vp_eventRemainingQuantity p)"
  "get_field (payload_fields p @ fs) ''eventInventoryVersion'' = jsint (evv (vp_eventInventoryVersion p))"
  by (simp_all add: payload_fields_def)

lemma parse_payload_fields:
  assumes "payload_wf p"
  shows "parseInventoryChangedDetail (JObject (payload_fields p @ fs)) = Inr (Versioned p)"
proof -
  have v: "toTicketTypeInventoryVersion (jsint (ttv (vp_inventoryVersion p))) = Inr (vp_inventoryVersion p)"
    "toEventInventoryVersion (jsint (evv (vp_eventInventoryVersion p))) = Inr (vp_eventInventoryVersion p)"
    using assms by (simp_all add: payload_wf_def int4_nonneg_def)
  show ?thesis
    using assms unfolding parseInventoryChangedDetail_def payload_wf_def
    by (simp add: get_payload_field VERSIONED_MARKER_FIELDS_def v)
qed

text \<open>The consumer reads back what the producer built: a well-formed payload survives the trip
  through the event bus, with the trace context added on the way and whether or not it is
  stripped again before parsing.\<close>

theorem built_payload_parses:
  assumes "payload_wf p"
  shows "parseInventoryChangedDetail (JObject (detailWithTrace c (payload_fields p))) = Inr (Versioned p)
    \<and> parseInventoryChangedDetail (JObject (stripTraceContext (detailWithTrace c (payload_fields p)))) = Inr (Versioned p)"
proof -
  note parses = parse_payload_fields [OF assms] parse_payload_fields [OF assms, of "[]", simplified]
  show ?thesis
  proof (cases c)
    case None
    then show ?thesis
      by (simp add: detailWithTrace_def stripTraceContext_def payload_without_trace parses)
  next
    case (Some x)
    then have d: "detailWithTrace c (payload_fields p) = payload_fields p @ [(TRACE_CONTEXT_FIELD, x)]"
      by (simp add: detailWithTrace_def payload_without_trace)
    show ?thesis unfolding d by (simp add: stripTraceContext_def payload_without_trace parses)
  qed
qed

definition sample_payload :: VersionedInventoryChangedPayload where
  "sample_payload = buildVersionedInventoryChangedDetail uuid_a uuid_b ''General Admission'' 5 3 (TTVersion 2) 8 6 (EvVersion 4)"

lemma sample_payload_wf: "payload_wf sample_payload"
  by code_simp

theorem built_payload_parses_witness:
  "parseInventoryChangedDetail (JObject (detailWithTrace (Some (JObject [(''Root'', JString ''1-2'')]))
     (payload_fields sample_payload))) = Inr (Versioned sample_payload)"
  using built_payload_parses [OF sample_payload_wf] by blast

lemma parsed_payload:
  assumes "parseInventoryChangedDetail (JObject fs) = Inr c"
  shows "case c of
      Versioned p \<Rightarrow> payload_wf p \<and> JString (vp_eventId p) = get_field fs ''eventId''
    | LegacyChange e q \<Rightarrow> is_uuid e \<and> int4_nonneg q
        \<and> (\<forall>m \<in> set VERSIONED_MARKER_FIELDS. get_field fs m = JUndefined)"
proof -
  have u: "isUuidString v \<Longrightarrow> is_uuid (string_value v) \<and> JString (string_value v) = v" for v
    using isUuidString_iff [of v] by metis
  have n: "isNonNegativeInt v \<Longrightarrow> int4_nonneg (number_value v)" for v using isNonNegativeInt_iff by blast
  show ?thesis
    using assms unfolding parseInventoryChangedDetail_def
    by (auto simp: Let_def to_versions payload_wf_def list_ex_iff u n isNonBlankString_string
        split: if_splits)
qed

lemma parsed_versioned:
  assumes "parseInventoryChangedDetail detail = Inr (Versioned p)"
  shows "payload_wf p"
proof -
  from assms obtain fs where "detail = JObject fs"
    by (cases detail) (simp_all add: parseInventoryChangedDetail_def)
  with parsed_payload [of fs "Versioned p"] assms show ?thesis by simp
qed

text \<open>An object carries a payload when each field of the payload is a field of the object with that value.\<close>

definition carries_payload :: "VersionedInventoryChangedPayload \<Rightarrow> (string \<times> jsval) list \<Rightarrow> bool" where
  "carries_payload p fs = list_all (\<lambda>f. get_field fs (fst f) = snd f) (payload_fields p)"

text \<open>Of the fields of a versioned payload the object has none but the two that a legacy one has as well.\<close>

definition unversioned_object :: "(string \<times> jsval) list \<Rightarrow> bool" where
  "unversioned_object fs \<longleftrightarrow> (\<forall>p. list_all (\<lambda>f. fst f = ''eventId'' \<or> fst f = ''remainingQuantity''
     \<or> get_field fs (fst f) = JUndefined) (payload_fields p))"

lemma carries_payload_iff:
  "carries_payload p fs \<longleftrightarrow>
     get_field fs ''eventId'' = JString (vp_eventId p) \<and> get_field fs ''remainingQuantity'' = jsint (vp_remainingQuantity p)
   \<and> get_field fs ''inventoryEventVersion'' = jsint (vp_inventoryEventVersion p)
   \<and> get_field fs ''ticketTypeId'' = JString (vp_ticketTypeId p) \<and> get_field fs ''ticketTypeName'' = JString (vp_ticketTypeName p)
   \<and> get_field fs ''ticketTypeTotalQuantity'' = jsint (vp_ticketTypeTotalQuantity p)
   \<and> get_field fs ''ticketTypeRemainingQuantity'' = jsint (vp_ticketTypeRemainingQuantity p)
   \<and> get_field fs ''inventoryVersion'' = jsint (ttv (vp_inventoryVersion p))
   \<and> get_field fs ''eventTotalQuantity'' = jsint (vp_eventTotalQuantity p)
   \<and> get_field fs ''eventRemainingQuantity'' = jsint (vp_eventRemainingQuantity p)
   \<and> get_field fs ''eventInventoryVersion'' = jsint (evv (vp_eventInventoryVersion p))"
  by (simp add: carries_payload_def payload_fields_def)

lemma unversioned_iff: "unversioned_object fs \<longleftrightarrow> list_all (\<lambda>m. get_field fs m = JUndefined) VERSIONED_MARKER_FIELDS"
  by (auto simp: unversioned_object_def payload_fields_def VERSIONED_MARKER_FIELDS_def)

lemma unversioned_no_marker: "unversioned_object fs \<longleftrightarrow> \<not> list_ex (\<lambda>m. get_field fs m \<noteq> JUndefined) VERSIONED_MARKER_FIELDS"
  by (simp add: unversioned_iff list_all_iff list_ex_iff)

lemma parsed_carries:
  assumes "parseInventoryChangedDetail (JObject fs) = Inr (Versioned p)"
  shows "carries_payload p fs"
proof -
  have u: "isUuidString v \<Longrightarrow> (v = JString (string_value v)) = True" for v using isUuidString_iff [of v] by metis
  have b: "isNonBlankString v \<Longrightarrow> (v = JString (string_value v)) = True" for v by (cases v) (auto simp: isNonBlankString_def)
  have n: "isNonNegativeInt v \<Longrightarrow> (v = jsint (number_value v)) = True" for v using isNonNegativeInt_iff by blast
  show ?thesis
    using assms unfolding parseInventoryChangedDetail_def carries_payload_iff
    by (auto simp: Let_def to_versions u b n split: if_splits)
qed

lemma carried_parses:
  assumes "payload_wf p" "carries_payload p fs"
  shows "parseInventoryChangedDetail (JObject fs) = Inr (Versioned p)"
proof -
  have v: "toTicketTypeInventoryVersion (jsint (ttv (vp_inventoryVersion p))) = Inr (vp_inventoryVersion p)"
    "toEventInventoryVersion (jsint (evv (vp_eventInventoryVersion p))) = Inr (vp_eventInventoryVersion p)"
    using assms(1) by (simp_all add: payload_wf_def int4_nonneg_def)
  show ?thesis
    using assms(1) assms(2) [unfolded carries_payload_iff] unfolding parseInventoryChangedDetail_def payload_wf_def
    by (simp add: VERSIONED_MARKER_FIELDS_def v)
qed

lemma parsed_legacy:
  "parseInventoryChangedDetail (JObject fs) = Inr (LegacyChange e q) \<longleftrightarrow>
     is_uuid e \<and> int4_nonneg q \<and> get_field fs ''eventId'' = JString e \<and> get_field fs ''remainingQuantity'' = jsint q
     \<and> unversioned_object fs"
proof -
  have u: "isUuidString v \<and> string_value v = e \<longleftrightarrow> is_uuid e \<and> v = JString e" for v
    using isUuidString_iff [of v] isUuidString_iff [of "JString e"] by auto
  have n: "isNonNegativeInt v \<and> number_value v = q \<longleftrightarrow> int4_nonneg q \<and> v = jsint q" for v
    using isNonNegativeInt_iff [of v] isNonNegativeInt_jsint [of q] by auto
  have "parseInventoryChangedDetail (JObject fs) = Inr (LegacyChange e q) \<longleftrightarrow>
      (isUuidString (get_field fs ''eventId'') \<and> string_value (get_field fs ''eventId'') = e)
      \<and> (isNonNegativeInt (get_field fs ''remainingQuantity'') \<and> number_value (get_field fs ''remainingQuantity'') = q)
      \<and> unversioned_object fs"
    unfolding unversioned_no_marker parseInventoryChangedDetail_def
    by (auto simp: Let_def split: if_splits sum.splits)
  then show ?thesis unfolding u n by blast
qed

text \<open>C13: the parser accepts exactly the two shapes of the contract, and what it returns is what it read: the result is
  a versioned payload precisely when the input is an object that carries every field of that payload (the supported
  version included) and the payload is well-formed, and a legacy one precisely when the object has a valid Event id
  and quantity and not a single other field of a versioned payload, so a damaged versioned payload is never taken
  for a legacy one. Everything else is refused.\<close>

theorem parser_is_strict:
  "parseInventoryChangedDetail detail = Inr c \<longleftrightarrow>
     (\<exists>fs. detail = JObject fs \<and> (case c of
          Versioned p \<Rightarrow> payload_wf p \<and> carries_payload p fs
        | LegacyChange e q \<Rightarrow> is_uuid e \<and> int4_nonneg q \<and> get_field fs ''eventId'' = JString e
            \<and> get_field fs ''remainingQuantity'' = jsint q \<and> unversioned_object fs))"
proof (cases detail)
  case (JObject fs)
  show ?thesis
  proof (cases c)
    case (Versioned p)
    show ?thesis
      unfolding JObject Versioned using parsed_versioned [of "JObject fs" p] parsed_carries [of fs p] carried_parses [of p fs] by auto
  next
    case (LegacyChange e q)
    show ?thesis unfolding JObject LegacyChange parsed_legacy by simp
  qed
qed (simp_all add: parseInventoryChangedDetail_def)

definition unsupported_detail :: jsval where
  "unsupported_detail = JObject (payload_fields (sample_payload\<lparr>vp_inventoryEventVersion := 2\<rparr>))"

theorem parser_is_strict_witness:
  "parseInventoryChangedDetail (JObject (payload_fields sample_payload)) = Inr (Versioned sample_payload)
   \<and> \<not> is_ok (parseInventoryChangedDetail unsupported_detail)"
proof -
  have "carries_payload sample_payload (payload_fields sample_payload)" by code_simp
  then have "parseInventoryChangedDetail (JObject (payload_fields sample_payload)) = Inr (Versioned sample_payload)"
    using sample_payload_wf by (simp add: parser_is_strict)
  moreover have "\<not> is_ok (parseInventoryChangedDetail unsupported_detail)" by code_simp
  ultimately show ?thesis ..
qed

end
