(* ===== verification/DomainEvents.thy ===== *)
theory DomainEvents
  imports InventoryCache InventoryEvent
begin

text \<open>
  The publisher of src/messaging/domain-events.service.ts. Events the bus accepted are kept in
  \<open>bus\<close>, oldest first. A publish never throws: what the SDK answered only decides the metric.
\<close>

record bus_io = cache_io +
  bus_enabled :: bool
  trace_context :: "jsval option"
  bus :: "(string \<times> jsval) list"

text \<open>
  The answers to \<open>PutEvents\<close> with its single entry: accepted, refused with an entry error, or an
  exception of the SDK, after which the event may have been accepted or not.
\<close>

datatype put_reply = PutOk | PutEntryError | PutThrows bool

datatype publish_outcome = PublishSuccess | PublishPartialFailure | PublishSdkError

definition outcome_text :: "publish_outcome \<Rightarrow> string" where
  "outcome_text r = (case r of PublishSuccess \<Rightarrow> ''success'' | PublishPartialFailure \<Rightarrow> ''partial_failure''
                            | PublishSdkError \<Rightarrow> ''sdk_error'')"

definition emitPublishOutcome :: "string \<Rightarrow> publish_outcome \<Rightarrow> 'a bus_io_scheme \<Rightarrow> 'a bus_io_scheme" where
  "emitPublishOutcome detailType r w =
     emitMetric ''DomainEventPublish'' [(''DetailType'', detailType), (''Outcome'', outcome_text r)] w"

definition accept_event :: "string \<Rightarrow> (string \<times> jsval) list \<Rightarrow> 'a bus_io_scheme \<Rightarrow> 'a bus_io_scheme" where
  "accept_event detailType detail w = w\<lparr>bus := bus w @ [(detailType, JObject detail)]\<rparr>"

definition publish :: "put_reply \<Rightarrow> string \<Rightarrow> (string \<times> jsval) list \<Rightarrow> 'a bus_io_scheme \<Rightarrow> 'a bus_io_scheme" where
  "publish reply detailType detail w =
     (if \<not> bus_enabled w then w
      else (let d = detailWithTrace (trace_context w) detail
            in case reply of
                 PutOk \<Rightarrow> emitPublishOutcome detailType PublishSuccess (accept_event detailType d w)
               | PutEntryError \<Rightarrow> emitPublishOutcome detailType PublishPartialFailure w
               | PutThrows accepted \<Rightarrow> emitPublishOutcome detailType PublishSdkError
                   (if accepted then accept_event detailType d w else w)))"

lemma publish_frame [simp]:
  "vk (publish r t d w) = vk w" "client_enabled (publish r t d w) = client_enabled w"
  "bus_enabled (publish r t d w) = bus_enabled w" "trace_context (publish r t d w) = trace_context w"
  "bus_io.more (publish r t d w) = bus_io.more w"
  by (auto simp: publish_def emitPublishOutcome_def accept_event_def emitMetric_def Let_def split: put_reply.split)

lemma publish_bus:
  "bus (publish r t d w) = bus w @
     (if bus_enabled w \<and> (r = PutOk \<or> r = PutThrows True) then [(t, JObject (detailWithTrace (trace_context w) d))] else [])"
  by (auto simp: publish_def emitPublishOutcome_def accept_event_def emitMetric_def Let_def split: put_reply.split)

lemma publish_metric:
  "bus_enabled w \<Longrightarrow> count_metric ''DomainEventPublish'' (publish r t d w) = Suc (count_metric ''DomainEventPublish'' w)"
  by (auto simp: publish_def emitPublishOutcome_def accept_event_def count_metric_def emitMetric_def Let_def split: put_reply.split)

end
