(* ===== verification/PgInventory.thy ===== *)
theory PgInventory
  imports JsValues
begin

text \<open>
  The inventory tables in PostgreSQL with the constraints and triggers that the migrations of
  src/database/migrations/ create (baseline, Ticket Type expand schema, compatibility writer):
  the writer-mode fence and guards, the forward bridge from the Event inventory to the default
  Ticket Type, and the reverse mirror from the Ticket Types to the Event aggregate; and the
  control state of src/database/inventory-writer-control.ts.
  A statement is a function on the database that returns an exception or the new database;
  row locks and the writer barrier make the statements of one transaction from its first
  inventory write to its COMMIT one uninterrupted step.
\<close>

section \<open>Tables\<close>

record type_row =
  type_id :: string
  type_event :: string
  type_name :: string
  is_default :: bool

record ti_row =
  ti_event :: string
  ti_total :: int
  ti_remaining :: int
  ti_version :: int

record tti_row =
  tti_type :: string
  tti_event :: string
  tti_total :: int
  tti_remaining :: int
  tti_version :: int

datatype PurchaseStatus = Confirmed | Rejected

record purchase_row =
  p_id :: string
  p_event :: string
  p_type :: string
  p_buyer :: string
  p_request :: "string option"
  p_quantity :: int
  p_status :: PurchaseStatus
  p_reason :: "string option"
  p_remaining_after :: "int option"

text \<open>
  \<open>writer_control\<close> is the writer mode of the singleton row, if the row exists;
  \<open>mirror_origin\<close> is the transaction-local setting \<open>ticket_c2c.inventory_mirror_origin\<close>.
\<close>

record pg =
  events :: "string list"
  ticket_types :: "type_row list"
  ticket_inventory :: "ti_row list"
  ticket_type_inventory :: "tti_row list"
  purchases :: "purchase_row list"
  writer_control :: "string option"
  mirror_origin :: "string option"

text \<open>A uuid parameter is compared by value: the cast folds the letters to lower case.\<close>

definition lower_char :: "char \<Rightarrow> char" where
  "lower_char c = (let n = (of_char c :: nat) in if 65 \<le> n \<and> n \<le> 90 then char_of (n + 32) else c)"

definition pg_uuid :: "string \<Rightarrow> string" where
  "pg_uuid s = map lower_char s"

section \<open>Writer control\<close>

datatype InventoryWriterMode = Legacy | TicketTypeMode

definition mode_text :: "InventoryWriterMode \<Rightarrow> string" where
  "mode_text m = (case m of Legacy \<Rightarrow> ''legacy'' | TicketTypeMode \<Rightarrow> ''ticket_type'')"

definition readInventoryWriterMode :: "pg \<Rightarrow> InventoryWriterMode result" where
  "readInventoryWriterMode s =
     (case writer_control s of
        None \<Rightarrow> Inl (PlainError ''inventory writer control state is missing or invalid'')
      | Some mode \<Rightarrow>
          if mode = ''legacy'' then Inr Legacy
          else if mode = ''ticket_type'' then Inr TicketTypeMode
          else Inl (PlainError ''inventory writer control state is missing or invalid''))"

definition updateInventoryWriterMode :: "InventoryWriterMode \<Rightarrow> pg \<Rightarrow> pg result" where
  "updateInventoryWriterMode mode s =
     (case writer_control s of
        None \<Rightarrow> Inl (PlainError ''inventory writer control state is missing or invalid'')
      | Some _ \<Rightarrow> Inr (s\<lparr>writer_control := Some (mode_text mode)\<rparr>))"

section \<open>Constraints\<close>

definition check_quantities :: "int \<Rightarrow> int \<Rightarrow> int \<Rightarrow> bool" where
  "check_quantities tot rem ver = (0 \<le> tot \<and> 0 \<le> rem \<and> 0 \<le> ver \<and> rem \<le> tot)"

definition in_int4 :: "int \<Rightarrow> bool" where
  "in_int4 i = (- 2147483648 \<le> i \<and> i \<le> POSTGRES_INT4_MAX)"

definition put_ti :: "ti_row \<Rightarrow> pg \<Rightarrow> pg result" where
  "put_ti r s =
     (if \<not> in_int4 (ti_version r) then Inl (PgError ''22003'' [])
      else if \<not> check_quantities (ti_total r) (ti_remaining r) 0
      then Inl (PgError ''23514'' ''ticket_inventory_check'')
      else Inr (s\<lparr>ticket_inventory := put_row ti_event r (ticket_inventory s)\<rparr>))"

definition put_tti :: "tti_row \<Rightarrow> pg \<Rightarrow> pg result" where
  "put_tti r s =
     (if \<not> in_int4 (tti_version r) then Inl (PgError ''22003'' [])
      else if \<not> check_quantities (tti_total r) (tti_remaining r) (tti_version r)
      then Inl (PgError ''23514'' ''ticket_type_inventory_check'')
      else if \<not> (\<exists>t \<in> set (ticket_types s). type_id t = tti_type r \<and> type_event t = tti_event r)
      then Inl (PgError ''23503'' ''ticket_type_inventory_event_ticket_type_fkey'')
      else Inr (s\<lparr>ticket_type_inventory := put_row tti_type r (ticket_type_inventory s)\<rparr>))"

section \<open>Guards\<close>

text \<open>
  \<open>depth\<close> is what \<open>pg_trigger_depth()\<close> returns in the triggers of the statement: 1 for a
  statement the client sends, more for one that a trigger runs.
\<close>

datatype inventory_table = TicketInventory | TicketTypeInventory

definition control_missing :: exn where
  "control_missing = RaiseException ''55000'' ''inventory writer control row is missing''"

definition fence_inventory_statement :: "inventory_table \<Rightarrow> nat \<Rightarrow> pg \<Rightarrow> pg result" where
  "fence_inventory_statement tbl depth s =
     (case writer_control s of
        None \<Rightarrow> Inl control_missing
      | Some mode \<Rightarrow>
          if depth = 1 then
            (if (tbl = TicketInventory \<and> mode \<noteq> ''legacy'')
                \<or> (tbl = TicketTypeInventory \<and> mode \<noteq> ''ticket_type'')
             then Inl (RaiseException ''55000'' ''inactive inventory writer rejected'')
             else Inr (s\<lparr>mirror_origin := Some mode\<rparr>))
          else if (tbl = TicketInventory \<and> mode = ''ticket_type'' \<and> mirror_origin s = Some ''ticket_type'')
                \<or> (tbl = TicketTypeInventory \<and> mode = ''legacy'' \<and> mirror_origin s = Some ''legacy'')
                \<or> (tbl = TicketTypeInventory \<and> mode = ''ticket_type'' \<and> mirror_origin s = Some ''ticket_type'')
          then Inr s
          else Inl (RaiseException ''55000'' ''unexpected nested inventory statement''))"

definition guard_legacy_write :: "nat \<Rightarrow> pg \<Rightarrow> pg result" where
  "guard_legacy_write depth s =
     (case writer_control s of
        None \<Rightarrow> Inl control_missing
      | Some mode \<Rightarrow>
          if depth = 1 then
            (if mode \<noteq> ''legacy''
             then Inl (RaiseException ''55000'' ''inactive legacy inventory writer rejected while mode is ticket_type'')
             else Inr (s\<lparr>mirror_origin := Some ''legacy''\<rparr>))
          else if mode = ''ticket_type'' \<and> mirror_origin s = Some ''ticket_type'' then Inr s
          else Inl (RaiseException ''55000'' ''unexpected nested legacy inventory write''))"

text \<open>\<open>Inr (False, s)\<close> is \<open>RETURN NULL\<close>: the row is skipped.\<close>

definition guard_ticket_type_write :: "nat \<Rightarrow> pg \<Rightarrow> (bool \<times> pg) result" where
  "guard_ticket_type_write depth s =
     (case writer_control s of
        None \<Rightarrow> Inl control_missing
      | Some mode \<Rightarrow>
          if depth = 1 then
            (if mode \<noteq> ''ticket_type''
             then Inl (RaiseException ''55000'' ''inactive Ticket Type inventory writer rejected while mode is legacy'')
             else Inr (True, s\<lparr>mirror_origin := Some ''ticket_type''\<rparr>))
          else if mode = ''legacy'' \<and> mirror_origin s = Some ''legacy'' then Inr (True, s)
          else if mode = ''ticket_type'' \<and> mirror_origin s = Some ''ticket_type'' then Inr (False, s)
          else Inl (RaiseException ''55000'' ''unexpected nested Ticket Type inventory write''))"

definition default_type_of :: "string \<Rightarrow> pg \<Rightarrow> string option" where
  "default_type_of event s =
     map_option type_id (find (\<lambda>t. type_event t = event \<and> is_default t) (ticket_types s))"

definition aggregate_total :: "string \<Rightarrow> pg \<Rightarrow> int" where
  "aggregate_total event s = sum_where tti_total (\<lambda>r. tti_event r = event) (ticket_type_inventory s)"

definition aggregate_remaining :: "string \<Rightarrow> pg \<Rightarrow> int" where
  "aggregate_remaining event s = sum_where tti_remaining (\<lambda>r. tti_event r = event) (ticket_type_inventory s)"

section \<open>Statements and their row triggers\<close>

text \<open>
  \<open>ti_write\<close> is the row part of a statement on \<open>ticket_inventory\<close> (BEFORE ROW guard, constraints,
  AFTER ROW forward bridge), \<open>tti_write\<close> the one on \<open>ticket_type_inventory\<close> (guard, constraints,
  AFTER ROW reverse mirror). The bridge and the mirror run statements one trigger level deeper;
  the mirror acts at level 1 only, which bounds the nesting. The fence of a nested statement
  leaves the state as it is, so the two statements of the mirror on one table share one call.
\<close>

function ti_write :: "nat \<Rightarrow> ti_row \<Rightarrow> pg \<Rightarrow> pg result"
  and sync_inventory :: "nat \<Rightarrow> ti_row \<Rightarrow> pg \<Rightarrow> pg result"
  and tti_write :: "nat \<Rightarrow> tti_row \<Rightarrow> pg \<Rightarrow> pg result"
  and sync_ticket_type_to_legacy :: "nat \<Rightarrow> tti_row \<Rightarrow> pg \<Rightarrow> pg result"
where
  "ti_write depth r s =
     (case guard_legacy_write depth s of
        Inl e \<Rightarrow> Inl e
      | Inr s1 \<Rightarrow> (case put_ti r s1 of
          Inl e \<Rightarrow> Inl e
        | Inr s2 \<Rightarrow> sync_inventory depth r s2))"
| "sync_inventory depth r s =
     (if depth > 1 \<and> mirror_origin s = Some ''ticket_type'' then Inr s
      else (case default_type_of (ti_event r) s of
          None \<Rightarrow> Inl (RaiseException ''P0001'' ''ticket type inventory bridge failed: event has no default ticket type'')
        | Some t \<Rightarrow> (case fence_inventory_statement TicketTypeInventory (Suc depth) s of
            Inl e \<Rightarrow> Inl e
          | Inr s1 \<Rightarrow> tti_write (Suc depth)
              \<lparr>tti_type = t, tti_event = ti_event r, tti_total = ti_total r,
               tti_remaining = ti_remaining r, tti_version = ti_version r\<rparr> s1)))"
| "tti_write depth r s =
     (case guard_ticket_type_write depth s of
        Inl e \<Rightarrow> Inl e
      | Inr (proceed, s1) \<Rightarrow>
          if \<not> proceed then Inr s1
          else (case put_tti r s1 of
              Inl e \<Rightarrow> Inl e
            | Inr s2 \<Rightarrow> sync_ticket_type_to_legacy depth r s2))"
| "sync_ticket_type_to_legacy depth r s =
     (if depth \<noteq> 1 \<or> mirror_origin s \<noteq> Some ''ticket_type'' then Inr s
      else (case writer_control s of
          None \<Rightarrow> Inl control_missing
        | Some mode \<Rightarrow>
            if mode \<noteq> ''ticket_type''
            then Inl (RaiseException ''55000'' ''Ticket Type inventory reverse mirror invoked outside ticket_type mode'')
            else (case fence_inventory_statement TicketInventory (Suc depth) s of
                Inl e \<Rightarrow> Inl e
              | Inr s1 \<Rightarrow>
                  (case (if row_by ti_event (tti_event r) (ticket_inventory s1) \<noteq> None
                         then guard_legacy_write (Suc depth) s1
                         else ti_write (Suc depth)
                                \<lparr>ti_event = tti_event r, ti_total = 0, ti_remaining = 0, ti_version = 0\<rparr> s1) of
                     Inl e \<Rightarrow> Inl e
                   | Inr s2 \<Rightarrow>
                       (case row_by ti_event (tti_event r) (ticket_inventory s2) of
                          None \<Rightarrow> Inl (RaiseException ''55000'' ''legacy compatibility inventory row is missing for event'')
                        | Some row \<Rightarrow>
                            if aggregate_total (tti_event r) s2 > POSTGRES_INT4_MAX
                               \<or> aggregate_remaining (tti_event r) s2 > POSTGRES_INT4_MAX
                            then Inl (RaiseException ''22003'' ''Ticket Type inventory aggregate is missing or exceeds INTEGER for event'')
                            else ti_write (Suc depth)
                              (row\<lparr>ti_total := aggregate_total (tti_event r) s2,
                                   ti_remaining := aggregate_remaining (tti_event r) s2,
                                   ti_version := ti_version row + 1\<rparr>) s2)))))"
  by pat_completeness auto

termination
  by (relation "measure (\<lambda>x. case x of
        Inl (Inl (d, r, s)) \<Rightarrow> if d = 0 then 20 else 3
      | Inl (Inr (d, r, s)) \<Rightarrow> if d = 0 then 19 else 2
      | Inr (Inl (d, r, s)) \<Rightarrow> if d \<le> 1 then 11 else 1
      | Inr (Inr (d, r, s)) \<Rightarrow> if d \<le> 1 then 10 else (0::nat))") auto

declare ti_write.simps [simp del] sync_inventory.simps [simp del]
  tti_write.simps [simp del] sync_ticket_type_to_legacy.simps [simp del]


section \<open>What a client statement does, with its cascade of triggers\<close>

text \<open>
  The two closed forms the rest of the development uses: in legacy mode a write of the Event row
  also writes the default Type's shadow row with the same numbers; in ticket_type mode a write of
  a Type row also writes the Event row with the sums over the Event's Types. In the other
  mode the statement is refused.
\<close>

definition shadow_row :: "string \<Rightarrow> ti_row \<Rightarrow> tti_row" where
  "shadow_row t r = \<lparr>tti_type = t, tti_event = ti_event r, tti_total = ti_total r,
     tti_remaining = ti_remaining r, tti_version = ti_version r\<rparr>"

lemma fence_Inr:
  "fence_inventory_statement tbl 1 s = Inr s' \<Longrightarrow>
     \<exists>m. writer_control s = Some m \<and> s' = s\<lparr>mirror_origin := Some m\<rparr>
       \<and> (tbl = TicketInventory \<longrightarrow> m = ''legacy'') \<and> (tbl = TicketTypeInventory \<longrightarrow> m = ''ticket_type'')"
  by (auto simp: fence_inventory_statement_def split: option.splits if_splits)

lemma put_ti_Inr:
  "put_ti r s = Inr s' \<Longrightarrow> s' = s\<lparr>ticket_inventory := put_row ti_event r (ticket_inventory s)\<rparr>
     \<and> check_quantities (ti_total r) (ti_remaining r) 0 \<and> in_int4 (ti_version r)"
  by (auto simp: put_ti_def split: if_splits)

lemma put_tti_Inr:
  "put_tti r s = Inr s' \<Longrightarrow>
     s' = s\<lparr>ticket_type_inventory := put_row tti_type r (ticket_type_inventory s)\<rparr>
     \<and> check_quantities (tti_total r) (tti_remaining r) (tti_version r) \<and> in_int4 (tti_version r)
     \<and> (\<exists>t \<in> set (ticket_types s). type_id t = tti_type r \<and> type_event t = tti_event r)"
  by (auto simp: put_tti_def split: if_splits)

lemma default_type_of_update [simp]:
  "default_type_of e (s\<lparr>mirror_origin := m\<rparr>) = default_type_of e s"
  "default_type_of e (s\<lparr>ticket_inventory := x\<rparr>) = default_type_of e s"
  "default_type_of e (s\<lparr>ticket_type_inventory := y\<rparr>) = default_type_of e s"
  by (simp_all add: default_type_of_def)

lemma legacy_ti_write:
  assumes "writer_control s = Some ''legacy''" "ti_write 1 r s = Inr s'"
  shows "\<exists>t. default_type_of (ti_event r) s = Some t
    \<and> check_quantities (ti_total r) (ti_remaining r) 0
    \<and> check_quantities (ti_total r) (ti_remaining r) (ti_version r)
    \<and> in_int4 (ti_version r)
    \<and> (\<exists>ty \<in> set (ticket_types s). type_id ty = t \<and> type_event ty = ti_event r)
    \<and> s' = s\<lparr>mirror_origin := Some ''legacy'',
        ticket_inventory := put_row ti_event r (ticket_inventory s),
        ticket_type_inventory := put_row tti_type (shadow_row t r) (ticket_type_inventory s)\<rparr>"
  using assms
  by (auto simp: ti_write.simps sync_inventory.simps tti_write.simps sync_ticket_type_to_legacy.simps
      guard_legacy_write_def guard_ticket_type_write_def fence_inventory_statement_def shadow_row_def
      split: sum.splits option.splits if_splits dest!: put_ti_Inr put_tti_Inr) blast

text \<open>The nested write of the mirror: the bridge it fires returns at once.\<close>

lemma nested_ti_write:
  assumes "writer_control s = Some ''ticket_type''" "mirror_origin s = Some ''ticket_type''"
  shows "ti_write 2 r s = put_ti r s"
proof (cases "put_ti r s")
  case (Inl e)
  with assms show ?thesis by (simp add: ti_write.simps guard_legacy_write_def)
next
  case (Inr s2)
  with put_ti_Inr [OF Inr] assms show ?thesis
    by (simp add: ti_write.simps sync_inventory.simps guard_legacy_write_def)
qed

lemma ticket_type_tti_write:
  assumes "writer_control s = Some ''ticket_type''" "tti_write 1 r s = Inr s'"
  shows "\<exists>row. ti_event row = tti_event r
    \<and> ti_total row = aggregate_total (tti_event r) s'
    \<and> ti_remaining row = aggregate_remaining (tti_event r) s'
    \<and> check_quantities (ti_total row) (ti_remaining row) 0 \<and> in_int4 (ti_version row)
    \<and> ti_version row = (case row_by ti_event (tti_event r) (ticket_inventory s) of
         None \<Rightarrow> 0 | Some r0 \<Rightarrow> ti_version r0) + 1
    \<and> ti_total row \<le> POSTGRES_INT4_MAX
    \<and> check_quantities (tti_total r) (tti_remaining r) (tti_version r) \<and> in_int4 (tti_version r)
    \<and> (\<exists>ty \<in> set (ticket_types s). type_id ty = tti_type r \<and> type_event ty = tti_event r)
    \<and> s' = s\<lparr>mirror_origin := Some ''ticket_type'',
        ticket_type_inventory := put_row tti_type r (ticket_type_inventory s),
        ticket_inventory := put_row ti_event row
          (if row_by ti_event (tti_event r) (ticket_inventory s) = None
           then put_row ti_event \<lparr>ti_event = tti_event r, ti_total = 0, ti_remaining = 0, ti_version = 0\<rparr>
                  (ticket_inventory s)
           else ticket_inventory s)\<rparr>"
proof -
  define s1 where "s1 = s\<lparr>mirror_origin := Some ''ticket_type''\<rparr>"
  obtain s2 where s2: "put_tti r s1 = Inr s2" and w: "sync_ticket_type_to_legacy 1 r s2 = Inr s'"
    using assms by (auto simp: tti_write.simps guard_ticket_type_write_def s1_def split: sum.splits)
  note p = put_tti_Inr [OF s2]
  have c: "writer_control s2 = Some ''ticket_type''" "mirror_origin s2 = Some ''ticket_type''"
    using p assms(1) by (simp_all add: s1_def)
  have w2: "\<And>r'. ti_write (Suc (Suc 0)) r' s2 = put_ti r' s2"
    using nested_ti_write [OF c] by (simp add: numeral_2_eq_2)
  have f: "fence_inventory_statement TicketInventory (Suc (Suc 0)) s2 = Inr s2"
    "guard_legacy_write (Suc (Suc 0)) s2 = Inr s2"
    using c by (simp_all add: fence_inventory_statement_def guard_legacy_write_def)
  let ?e = "tti_event r"
  show ?thesis
  proof (cases "row_by ti_event ?e (ticket_inventory s2)")
    case (Some r0)
    with w c f have "put_ti (r0\<lparr>ti_total := aggregate_total ?e s2,
        ti_remaining := aggregate_remaining ?e s2, ti_version := ti_version r0 + 1\<rparr>) s2 = Inr s'"
      and le: "aggregate_total ?e s2 \<le> POSTGRES_INT4_MAX"
      by (auto simp: sync_ticket_type_to_legacy.simps w2 split: if_splits)
    from put_ti_Inr [OF this(1)] row_by_Some [OF Some] p Some le show ?thesis
      by (auto simp: s1_def aggregate_total_def aggregate_remaining_def
          intro!: exI [of _ "r0\<lparr>ti_total := aggregate_total ?e s2,
            ti_remaining := aggregate_remaining ?e s2, ti_version := ti_version r0 + 1\<rparr>"])
  next
    case None
    let ?ph = "\<lparr>ti_event = ?e, ti_total = 0, ti_remaining = 0, ti_version = 0\<rparr>"
    define s3 where "s3 = s2\<lparr>ticket_inventory := put_row ti_event ?ph (ticket_inventory s2)\<rparr>"
    have s3: "put_ti ?ph s2 = Inr s3"
      by (simp add: put_ti_def in_int4_def check_quantities_def POSTGRES_INT4_MAX_def s3_def)
    have c3: "writer_control s3 = Some ''ticket_type''" "mirror_origin s3 = Some ''ticket_type''"
      using c by (simp_all add: s3_def)
    have w3: "\<And>r'. ti_write (Suc (Suc 0)) r' s3 = put_ti r' s3"
      using nested_ti_write [OF c3] by (simp add: numeral_2_eq_2)
    have agg: "aggregate_total ?e s3 = aggregate_total ?e s2"
      "aggregate_remaining ?e s3 = aggregate_remaining ?e s2"
      by (simp_all add: s3_def aggregate_total_def aggregate_remaining_def)
    have look: "row_by ti_event ?e (ticket_inventory s3) = Some ?ph" by (simp add: s3_def)
    from w c f None s3 look have "put_ti (?ph\<lparr>ti_total := aggregate_total ?e s2,
        ti_remaining := aggregate_remaining ?e s2, ti_version := 1\<rparr>) s3 = Inr s'"
      and le: "aggregate_total ?e s2 \<le> POSTGRES_INT4_MAX"
      by (auto simp: sync_ticket_type_to_legacy.simps w2 w3 agg split: if_splits)
    from put_ti_Inr [OF this(1)] p None le show ?thesis
      by (auto simp: s1_def s3_def aggregate_total_def aggregate_remaining_def
          intro!: exI [of _ "?ph\<lparr>ti_total := aggregate_total ?e s2,
            ti_remaining := aggregate_remaining ?e s2, ti_version := 1\<rparr>"])
  qed
qed

text \<open>A statement on the table that is not the active writer's is refused before it reaches
  a row, so while the mode is ticket_type no client write of the Event inventory succeeds and
  while it is legacy none of the Ticket Type inventory does.\<close>

theorem inactive_writer_refused:
  "(writer_control s \<noteq> Some ''legacy'' \<longrightarrow> \<not> is_ok (fence_inventory_statement TicketInventory 1 s)
      \<and> \<not> is_ok (ti_write 1 r s))
   \<and> (writer_control s \<noteq> Some ''ticket_type'' \<longrightarrow> \<not> is_ok (fence_inventory_statement TicketTypeInventory 1 s)
      \<and> \<not> is_ok (tti_write 1 r' s))"
  by (auto simp: fence_inventory_statement_def ti_write.simps tti_write.simps guard_legacy_write_def
      guard_ticket_type_write_def is_ok_def split: option.splits)


theorem inactive_writer_refused_witness:
  "\<not> is_ok (ti_write 1 \<lparr>ti_event = ''e'', ti_total = 1, ti_remaining = 1, ti_version = 1\<rparr>
     \<lparr>events = [''e''], ticket_types = [], ticket_inventory = [], ticket_type_inventory = [], purchases = [],
      writer_control = Some ''ticket_type'', mirror_origin = None\<rparr>)"
  using inactive_writer_refused
    [of "\<lparr>events = [''e''], ticket_types = [], ticket_inventory = [], ticket_type_inventory = [], purchases = [],
      writer_control = Some ''ticket_type'', mirror_origin = None\<rparr>"] by simp

section \<open>The invariant of the inventory tables\<close>

text \<open>
  Well-formed tables: primary keys, the composite foreign key of the Type inventory, the check
  constraints, a valid writer mode, and the Event version at least the version of each of its
  Types.
\<close>

definition pg_wf :: "pg \<Rightarrow> bool" where
  "pg_wf s \<longleftrightarrow>
     distinct (map type_id (ticket_types s))
   \<and> distinct (map ti_event (ticket_inventory s))
   \<and> distinct (map tti_type (ticket_type_inventory s))
   \<and> (\<forall>r \<in> set (ticket_type_inventory s).
        \<exists>t \<in> set (ticket_types s). type_id t = tti_type r \<and> type_event t = tti_event r)
   \<and> (\<forall>r \<in> set (ticket_inventory s). check_quantities (ti_total r) (ti_remaining r) 0)
   \<and> (\<forall>r \<in> set (ticket_type_inventory s). check_quantities (tti_total r) (tti_remaining r) (tti_version r))
   \<and> (\<forall>r \<in> set (ticket_type_inventory s). \<exists>a \<in> set (ticket_inventory s).
        ti_event a = tti_event r \<and> tti_version r \<le> ti_version a)
   \<and> writer_control s \<in> {Some ''legacy'', Some ''ticket_type''}"

text \<open>The Event row is the sum of its Type rows.\<close>

definition aggregates_match :: "pg \<Rightarrow> bool" where
  "aggregates_match s \<longleftrightarrow> (\<forall>r \<in> set (ticket_inventory s).
     ti_total r = aggregate_total (ti_event r) s \<and> ti_remaining r = aggregate_remaining (ti_event r) s)"

definition sold_quantity :: "string \<Rightarrow> pg \<Rightarrow> int" where
  "sold_quantity t s = sum_where p_quantity (\<lambda>p. p_type p = t \<and> p_status p = Confirmed) (purchases s)"

text \<open>Nothing is oversold: what remains and what was confirmed add up to the total.\<close>

definition stock_conserved :: "pg \<Rightarrow> bool" where
  "stock_conserved s \<longleftrightarrow> (\<forall>r \<in> set (ticket_type_inventory s).
     tti_remaining r + sold_quantity (tti_type r) s = tti_total r)"

definition sole_type :: "string \<Rightarrow> string \<Rightarrow> pg \<Rightarrow> bool" where
  "sole_type e t s \<longleftrightarrow> (\<forall>ty \<in> set (ticket_types s). type_event ty = e \<longrightarrow> type_id ty = t)"

text \<open>\<open>q\<close> tickets of type \<open>t\<close> leave the stock and the row's version grows; no other row changes.\<close>

definition takes_stock :: "string \<Rightarrow> int \<Rightarrow> pg \<Rightarrow> pg \<Rightarrow> bool" where
  "takes_stock t q s s' \<longleftrightarrow> (\<forall>x \<in> set (ticket_type_inventory s').
     (tti_type x \<noteq> t \<and> x \<in> set (ticket_type_inventory s))
   \<or> (tti_type x = t \<and> (\<exists>x0 \<in> set (ticket_type_inventory s). tti_type x0 = t \<and> tti_event x0 = tti_event x
        \<and> tti_total x0 = tti_total x \<and> tti_remaining x = tti_remaining x0 - q
        \<and> tti_version x0 < tti_version x)))"

text \<open>The columns an inventory statement does not write.\<close>

definition same_catalog :: "pg \<Rightarrow> pg \<Rightarrow> bool" where
  "same_catalog s s' \<longleftrightarrow> events s' = events s \<and> ticket_types s' = ticket_types s
     \<and> purchases s' = purchases s \<and> writer_control s' = writer_control s"

lemma aggregate_put:
  assumes "distinct (map tti_type (ticket_type_inventory s))"
    and "row_by tti_type (tti_type r) (ticket_type_inventory s) = Some r0" "tti_event r0 = tti_event r"
  shows "sum_where tti_remaining (\<lambda>x. tti_event x = e) (put_row tti_type r (ticket_type_inventory s)) =
      aggregate_remaining e s + (if tti_event r = e then tti_remaining r - tti_remaining r0 else 0)"
    and "sum_where tti_total (\<lambda>x. tti_event x = e) (put_row tti_type r (ticket_type_inventory s)) =
      aggregate_total e s + (if tti_event r = e then tti_total r - tti_total r0 else 0)"
  using assms by (auto simp: sum_where_put aggregate_remaining_def aggregate_total_def)

lemma aggregate_sole:
  assumes "pg_wf s" "sole_type e t s"
  shows "aggregate_remaining e s = (case row_by tti_type t (ticket_type_inventory s) of
        None \<Rightarrow> 0 | Some x \<Rightarrow> if tti_event x = e then tti_remaining x else 0)"
    and "aggregate_total e s = (case row_by tti_type t (ticket_type_inventory s) of
        None \<Rightarrow> 0 | Some x \<Rightarrow> if tti_event x = e then tti_total x else 0)"
proof -
  have d: "distinct (map tti_type (ticket_type_inventory s))" using assms by (simp add: pg_wf_def)
  have k: "\<And>x. x \<in> set (ticket_type_inventory s) \<Longrightarrow> tti_event x = e \<Longrightarrow> tti_type x = t"
    using assms unfolding pg_wf_def sole_type_def by metis
  show "aggregate_remaining e s = (case row_by tti_type t (ticket_type_inventory s) of
        None \<Rightarrow> 0 | Some x \<Rightarrow> if tti_event x = e then tti_remaining x else 0)"
    and "aggregate_total e s = (case row_by tti_type t (ticket_type_inventory s) of
        None \<Rightarrow> 0 | Some x \<Rightarrow> if tti_event x = e then tti_total x else 0)"
    using sum_where_single [OF d k] unfolding aggregate_remaining_def aggregate_total_def by simp_all
qed

text \<open>
  Both modes change the same pair of rows: the row \<open>x0\<close> of one Type becomes \<open>x1\<close>, \<open>q\<close> tickets
  poorer, and the row of its Event becomes \<open>a'\<close>, which holds the new sums.
\<close>

definition pair_update ::
    "string \<Rightarrow> string \<Rightarrow> int \<Rightarrow> tti_row \<Rightarrow> ti_row \<Rightarrow> tti_row \<Rightarrow> pg \<Rightarrow> pg \<Rightarrow> bool" where
  "pair_update e t q x0 a' x1 s s' \<longleftrightarrow>
     x0 \<in> set (ticket_type_inventory s) \<and> tti_type x0 = t \<and> tti_event x0 = e
   \<and> tti_type x1 = t \<and> tti_event x1 = e \<and> tti_total x1 = tti_total x0
   \<and> tti_remaining x1 = tti_remaining x0 - q \<and> tti_version x0 < tti_version x1
   \<and> tti_version x1 \<le> ti_version a' \<and> (\<forall>a \<in> set (ticket_inventory s). ti_event a = e \<longrightarrow> ti_version a < ti_version a')
   \<and> ti_event a' = e \<and> ti_total a' = aggregate_total e s \<and> ti_remaining a' = aggregate_remaining e s - q
   \<and> check_quantities (ti_total a') (ti_remaining a') 0
   \<and> check_quantities (tti_total x1) (tti_remaining x1) (tti_version x1)
   \<and> same_catalog s s'
   \<and> ticket_inventory s' = put_row ti_event a' (ticket_inventory s)
   \<and> ticket_type_inventory s' = put_row tti_type x1 (ticket_type_inventory s)"

lemma pair_update_rows:
  assumes "pg_wf s" "pair_update e t q x0 a' x1 s s'"
  shows "x \<in> set (ticket_type_inventory s') \<Longrightarrow> x = x1 \<or> (x \<in> set (ticket_type_inventory s) \<and> tti_type x \<noteq> t)"
    and "a \<in> set (ticket_inventory s') \<Longrightarrow> a = a' \<or> (a \<in> set (ticket_inventory s) \<and> ti_event a \<noteq> e)"
proof -
  have d: "distinct (map tti_type (ticket_type_inventory s'))" "distinct (map ti_event (ticket_inventory s'))"
    using assms by (simp_all add: pair_update_def pg_wf_def distinct_put_row)
  show "x \<in> set (ticket_type_inventory s') \<Longrightarrow> x = x1 \<or> (x \<in> set (ticket_type_inventory s) \<and> tti_type x \<noteq> t)"
    using row_by_unique [OF d(1), of x] assms(2)
    by (auto simp: pair_update_def dest!: mem_put_row split: if_splits)
  show "a \<in> set (ticket_inventory s') \<Longrightarrow> a = a' \<or> (a \<in> set (ticket_inventory s) \<and> ti_event a \<noteq> e)"
    using row_by_unique [OF d(2), of a] assms(2)
    by (auto simp: pair_update_def dest!: mem_put_row split: if_splits)
qed

lemma pair_update_takes_stock:
  assumes "pg_wf s" "pair_update e t q x0 a' x1 s s'"
  shows "takes_stock t q s s'"
  unfolding takes_stock_def
proof
  fix x assume "x \<in> set (ticket_type_inventory s')"
  from pair_update_rows(1) [OF assms this]
  consider "x = x1" | "x \<in> set (ticket_type_inventory s)" "tti_type x \<noteq> t" by blast
  then show "(tti_type x \<noteq> t \<and> x \<in> set (ticket_type_inventory s))
    \<or> (tti_type x = t \<and> (\<exists>x0 \<in> set (ticket_type_inventory s). tti_type x0 = t \<and> tti_event x0 = tti_event x
        \<and> tti_total x0 = tti_total x \<and> tti_remaining x = tti_remaining x0 - q \<and> tti_version x0 < tti_version x))"
  proof cases
    case 1
    from assms(2) have "x0 \<in> set (ticket_type_inventory s)" "tti_type x0 = t"
      "tti_event x0 = e" "tti_event x1 = e" "tti_total x1 = tti_total x0"
      "tti_remaining x1 = tti_remaining x0 - q" "tti_version x0 < tti_version x1" "tti_type x1 = t"
      unfolding pair_update_def by blast+
    with 1 show ?thesis by metis
  next
    case 2
    then show ?thesis by blast
  qed
qed

lemma pair_update_aggregates:
  assumes "pg_wf s" "aggregates_match s" "pair_update e t q x0 a' x1 s s'"
  shows "aggregates_match s'"
proof -
  have d: "distinct (map tti_type (ticket_type_inventory s))" using assms(1) by (simp add: pg_wf_def)
  have "row_by tti_type (tti_type x1) (ticket_type_inventory s) = Some x0"
    using row_by_unique [OF d, of x0] assms(3) by (simp add: pair_update_def)
  from aggregate_put [OF d this] assms(3)
  have sums: "aggregate_remaining b s' = aggregate_remaining b s - (if e = b then q else 0)"
    "aggregate_total b s' = aggregate_total b s" for b
    by (auto simp: pair_update_def aggregate_remaining_def [of _ s'] aggregate_total_def [of _ s'])
  show ?thesis
    unfolding aggregates_match_def
  proof
    fix a assume "a \<in> set (ticket_inventory s')"
    from pair_update_rows(2) [OF assms(1,3) this]
    consider "a = a'" | "a \<in> set (ticket_inventory s)" "ti_event a \<noteq> e" by blast
    then show "ti_total a = aggregate_total (ti_event a) s' \<and> ti_remaining a = aggregate_remaining (ti_event a) s'"
    proof cases
      case 1
      have "ti_event a' = e" "ti_total a' = aggregate_total e s" "ti_remaining a' = aggregate_remaining e s - q"
        using assms(3) unfolding pair_update_def by blast+
      with 1 show ?thesis by (simp add: sums)
    next
      case 2
      have "ti_total a = aggregate_total (ti_event a) s" "ti_remaining a = aggregate_remaining (ti_event a) s"
        using assms(2) 2(1) unfolding aggregates_match_def by blast+
      with 2(2) show ?thesis by (simp add: sums)
    qed
  qed
qed

lemma pair_update_wf:
  assumes "pg_wf s" "pair_update e t q x0 a' x1 s s'"
  shows "pg_wf s'"
  unfolding pg_wf_def
proof (intro conjI ballI)
  show "distinct (map type_id (ticket_types s'))" "writer_control s' \<in> {Some ''legacy'', Some ''ticket_type''}"
    "distinct (map ti_event (ticket_inventory s'))" "distinct (map tti_type (ticket_type_inventory s'))"
    using assms by (auto simp: pg_wf_def pair_update_def same_catalog_def distinct_put_row)
next
  fix a assume "a \<in> set (ticket_inventory s')"
  from pair_update_rows(2) [OF assms this] assms
  show "check_quantities (ti_total a) (ti_remaining a) 0" by (auto simp: pg_wf_def pair_update_def)
next
  fix x assume "x \<in> set (ticket_type_inventory s')"
  note x = pair_update_rows(1) [OF assms this]
  have cat: "ticket_types s' = ticket_types s" using assms(2) by (simp add: pair_update_def same_catalog_def)
  show "check_quantities (tti_total x) (tti_remaining x) (tti_version x)"
    using x assms by (auto simp: pg_wf_def pair_update_def)
  show "\<exists>t \<in> set (ticket_types s'). type_id t = tti_type x \<and> type_event t = tti_event x"
  proof (cases "x = x1")
    case True
    with assms show ?thesis unfolding cat pg_wf_def pair_update_def by metis
  next
    case False
    with x assms(1) show ?thesis unfolding cat pg_wf_def by blast
  qed
  show "\<exists>a \<in> set (ticket_inventory s'). ti_event a = tti_event x \<and> tti_version x \<le> ti_version a"
  proof (cases "tti_event x = e")
    case True
    have "a' \<in> set (ticket_inventory s')" using assms(2) put_row_mem by (auto simp: pair_update_def)
    moreover have "tti_version x \<le> ti_version a'"
    proof (cases "x = x1")
      case False
      with x assms(1) obtain a where "a \<in> set (ticket_inventory s)" "ti_event a = tti_event x"
        "tti_version x \<le> ti_version a" unfolding pg_wf_def by blast
      with True assms(2) show ?thesis unfolding pair_update_def by force
    qed (use assms(2) in \<open>simp add: pair_update_def\<close>)
    ultimately show ?thesis using True assms(2) by (auto simp: pair_update_def)
  next
    case False
    with x assms(2) have "x \<in> set (ticket_type_inventory s)" by (auto simp: pair_update_def)
    then obtain a where a: "a \<in> set (ticket_inventory s)" "ti_event a = tti_event x" "tti_version x \<le> ti_version a"
      using assms(1) unfolding pg_wf_def by blast
    then have "a \<in> set (ticket_inventory s')"
      using False assms(2) put_row_other [of a _ ti_event a'] by (auto simp: pair_update_def)
    with a show ?thesis by blast
  qed
qed

lemmas pair_update_preserves = pair_update_wf pair_update_aggregates pair_update_takes_stock

section \<open>The inventory writes of a purchase are pair updates\<close>

lemma ti_row_of:
  assumes "pg_wf s" "row_by ti_event e (ticket_inventory s) = Some r"
    "a \<in> set (ticket_inventory s)" "ti_event a = e"
  shows "a = r"
  using row_by_unique [of ti_event "ticket_inventory s" a] assms by (simp add: pg_wf_def)

lemma shadow_simps [simp]:
  "tti_type (shadow_row t r) = t" "tti_event (shadow_row t r) = ti_event r"
  "tti_total (shadow_row t r) = ti_total r" "tti_remaining (shadow_row t r) = ti_remaining r"
  "tti_version (shadow_row t r) = ti_version r"
  by (simp_all add: shadow_row_def)

lemma legacy_write_pair_update:
  assumes wf: "pg_wf s" and agg: "aggregates_match s" and mode: "writer_control s = Some ''legacy''"
    and row: "row_by ti_event e (ticket_inventory s) = Some r" and sole: "sole_type e t s"
    and q: "0 < q" and r': "r' = r\<lparr>ti_remaining := ti_remaining r - q, ti_version := ti_version r + 1\<rparr>"
    and w: "ti_write 1 r' s = Inr s'"
  shows "\<exists>x0. pair_update e t q x0 r' (shadow_row t r') s s'"
proof -
  have re: "ti_event r = e" "r \<in> set (ticket_inventory s)" using row_by_Some [OF row] by simp_all
  from legacy_ti_write [OF mode w] obtain t' ty where
    ty: "ty \<in> set (ticket_types s)" "type_id ty = t'" "type_event ty = e"
    and ck: "check_quantities (ti_total r') (ti_remaining r') 0"
      "check_quantities (ti_total r') (ti_remaining r') (ti_version r')"
    and s': "s' = s\<lparr>mirror_origin := Some ''legacy'',
        ticket_inventory := put_row ti_event r' (ticket_inventory s),
        ticket_type_inventory := put_row tti_type (shadow_row t' r') (ticket_type_inventory s)\<rparr>"
    using re r' by auto
  have t: "t' = t" using sole ty by (auto simp: sole_type_def)
  have eqs: "ti_total r = aggregate_total e s" "ti_remaining r = aggregate_remaining e s"
    using agg re by (auto simp: aggregates_match_def)
  have "ti_remaining r \<ge> q" using ck(1) q by (simp add: check_quantities_def r')
  then obtain x0 where x0: "row_by tti_type t (ticket_type_inventory s) = Some x0" "tti_event x0 = e"
    and vals: "ti_total r = tti_total x0" "ti_remaining r = tti_remaining x0"
    using eqs aggregate_sole [OF wf sole] q by (auto split: option.splits if_splits)
  have x0m: "x0 \<in> set (ticket_type_inventory s)" "tti_type x0 = t" using row_by_Some [OF x0(1)] by simp_all
  have "tti_version x0 \<le> ti_version r"
    using wf x0m(1) x0(2) ti_row_of [OF wf row] unfolding pg_wf_def by metis
  with x0m x0(2) vals ck eqs re have "pair_update e t q x0 r' (shadow_row t r') s s'"
    by (auto simp: pair_update_def s' t same_catalog_def r' dest!: ti_row_of [OF wf row])
  then show ?thesis by blast
qed

lemma ticket_type_write_pair_update:
  assumes wf: "pg_wf s" and agg: "aggregates_match s" and mode: "writer_control s = Some ''ticket_type''"
    and x0: "x0 \<in> set (ticket_type_inventory s)" "tti_type x0 = t" "tti_event x0 = e"
    and x1: "x1 = x0\<lparr>tti_remaining := tti_remaining x0 - q, tti_version := tti_version x0 + 1\<rparr>"
    and w: "tti_write 1 x1 s = Inr s'"
  shows "\<exists>a'. pair_update e t q x0 a' x1 s s'"
proof -
  have d: "distinct (map tti_type (ticket_type_inventory s))" using wf by (simp add: pg_wf_def)
  obtain a where a: "a \<in> set (ticket_inventory s)" "ti_event a = e" "tti_version x0 \<le> ti_version a"
    using wf x0 unfolding pg_wf_def by blast
  have look: "row_by ti_event e (ticket_inventory s) = Some a"
    using row_by_unique [of ti_event "ticket_inventory s" a] a wf by (simp add: pg_wf_def)
  have old: "row_by tti_type (tti_type x1) (ticket_type_inventory s) = Some x0"
    using row_by_unique [OF d x0(1)] x0 x1 by simp
  from ticket_type_tti_write [OF mode w] obtain row where
    row: "ti_event row = e" "ti_total row = aggregate_total e s'" "ti_remaining row = aggregate_remaining e s'"
      "check_quantities (ti_total row) (ti_remaining row) 0" "ti_version row = ti_version a + 1"
      "check_quantities (tti_total x1) (tti_remaining x1) (tti_version x1)"
    and s': "s' = s\<lparr>mirror_origin := Some ''ticket_type'',
        ticket_type_inventory := put_row tti_type x1 (ticket_type_inventory s),
        ticket_inventory := put_row ti_event row (ticket_inventory s)\<rparr>"
    using x0 x1 look by auto
  have "aggregate_remaining e s' = aggregate_remaining e s - q" "aggregate_total e s' = aggregate_total e s"
    using aggregate_put [OF d old, of e] x0 x1
    by (auto simp: s' aggregate_remaining_def [of _ "pg.ticket_inventory_update _ _"]
        aggregate_total_def [of _ "pg.ticket_inventory_update _ _"])
  with row x0 x1 a have "pair_update e t q x0 row x1 s s'"
    by (auto simp: pair_update_def s' same_catalog_def dest!: ti_row_of [OF wf look])
  then show ?thesis by blast
qed

end
