(* ===== verification/PurchaseTransaction.thy ===== *)
theory PurchaseTransaction
  imports PgInventory
begin

text \<open>
  The authoritative purchase transaction of src/purchases/purchases.service.ts:
  \<open>parsePurchaseInput\<close>, the SQL helpers, and \<open>executePurchaseTransaction\<close> with its replay path,
  its rollback handler and the recovery from a lost race on the idempotency index.
\<close>

section \<open>Input\<close>

definition is_nonempty_string :: "jsval \<Rightarrow> bool" where
  "is_nonempty_string v = (case v of JString s \<Rightarrow> s \<noteq> [] | _ \<Rightarrow> False)"

record ParsedPurchaseInput =
  in_eventId :: string
  in_buyerId :: string
  in_quantity :: int
  in_requestId :: "string option"
  in_ticketTypeId :: "string option"

definition parsePurchaseInput :: "string \<Rightarrow> string \<Rightarrow> jsval \<Rightarrow> jsval \<Rightarrow> ParsedPurchaseInput result" where
  "parsePurchaseInput eventId buyerId body ticketTypeId =
     (if \<not> isUuidString (JString eventId) then Inl (BadRequestException ''eventId must be a UUID'')
      else if \<not> isUuidString (JString buyerId)
      then Inl (BadRequestException ''authenticated user id must be a UUID'')
      else (case body of
        JObject fs \<Rightarrow>
          (if get_field fs ''buyerId'' \<noteq> JUndefined
           then Inl (BadRequestException ''buyerId is no longer accepted: it is derived from the authenticated user'')
           else if \<not> isInteger (get_field fs ''quantity'')
              \<or> number_value (get_field fs ''quantity'') \<le> 0
              \<or> number_value (get_field fs ''quantity'') > POSTGRES_INT4_MAX
           then Inl (BadRequestException ''quantity must be a positive integer up to 2147483647'')
           else if get_field fs ''requestId'' \<noteq> JUndefined \<and> \<not> is_nonempty_string (get_field fs ''requestId'')
           then Inl (BadRequestException ''requestId must be a non-empty string'')
           else if ticketTypeId \<noteq> JUndefined \<and> \<not> isUuidString ticketTypeId
           then Inl (BadRequestException ''ticketTypeId must be a UUID'')
           else Inr \<lparr>in_eventId = eventId, in_buyerId = buyerId,
                     in_quantity = number_value (get_field fs ''quantity''),
                     in_requestId = (if get_field fs ''requestId'' = JUndefined then None
                                     else Some (string_value (get_field fs ''requestId''))),
                     in_ticketTypeId = (if ticketTypeId = JUndefined then None
                                        else Some (string_value ticketTypeId))\<rparr>)
      | _ \<Rightarrow> Inl (BadRequestException ''request body must be an object'')))"


lemma parsePurchaseInput_Inr:
  assumes "parsePurchaseInput eventId buyerId body sel = Inr i"
  shows "is_uuid (in_eventId i) \<and> is_uuid (in_buyerId i) \<and> in_eventId i = eventId \<and> in_buyerId i = buyerId
    \<and> 0 < in_quantity i \<and> in_quantity i \<le> POSTGRES_INT4_MAX \<and> in_requestId i \<noteq> Some []
    \<and> (case in_ticketTypeId i of None \<Rightarrow> True | Some t \<Rightarrow> is_uuid t)"
proof -
  have sel: "isUuidString sel \<Longrightarrow> is_uuid (string_value sel)" by (cases sel) (auto simp: isUuidString_def)
  have req: "is_nonempty_string v \<Longrightarrow> string_value v \<noteq> []" for v by (cases v) (auto simp: is_nonempty_string_def)
  show ?thesis
    using assms by (cases body) (auto simp: parsePurchaseInput_def split: if_splits intro: sel dest: req)
qed

section \<open>Results\<close>

record PurchaseResult =
  purchaseId :: "string option"
  r_eventId :: string
  r_buyerId :: string
  r_quantity :: int
  r_status :: PurchaseStatus
  rejectionReason :: "string option"
  remainingQuantity :: "int option"

record PurchaseInventoryChange =
  ic_ticketTypeId :: string
  ic_ticketTypeName :: string
  ic_ticketTypeTotalQuantity :: int
  ic_ticketTypeRemainingQuantity :: int
  ic_inventoryVersion :: TicketTypeInventoryVersion
  ic_eventTotalQuantity :: int
  ic_eventRemainingQuantity :: int
  ic_eventInventoryVersion :: EventInventoryVersion

datatype disposition = Created | Replayed

record PurchaseTransactionOutcome =
  o_result :: PurchaseResult
  o_disposition :: disposition
  inventoryChange :: "PurchaseInventoryChange option"
  compatibilityRemainingQuantity :: "int option"
  resolvedTicketTypeId :: "string option"
  ticketTypeRemainingQuantity :: "int option"
  writerModeUsed :: InventoryWriterMode

section \<open>Statements of the transaction\<close>

definition types_of_event :: "string \<Rightarrow> pg \<Rightarrow> type_row list" where
  "types_of_event e s = filter (\<lambda>t. type_event t = pg_uuid e) (ticket_types s)"

text \<open>
  \<open>LIMIT 2\<close> keeps at most two ids; their order does not matter, because an id is used only when
  it is the only one.
\<close>

definition resolveTicketType ::
    "pg \<Rightarrow> ParsedPurchaseInput \<Rightarrow> InventoryWriterMode \<Rightarrow> string result" where
  "resolveTicketType s i mode =
     (case mode of
        Legacy \<Rightarrow>
          (case take 2 (types_of_event (in_eventId i) s) of
             [] \<Rightarrow> Inl (InternalServerErrorException ''ticket type is not configured for event'')
           | [t] \<Rightarrow>
               (case in_ticketTypeId i of
                  Some sel \<Rightarrow> if sel \<noteq> type_id t then Inl (NotFoundException ''ticket type not found for event'')
                              else Inr (type_id t)
                | None \<Rightarrow> Inr (type_id t))
           | _ \<Rightarrow> Inl (BadRequestException ''legacy inventory mode requires exactly one ticket type''))
      | TicketTypeMode \<Rightarrow>
          (case in_ticketTypeId i of
             Some sel \<Rightarrow>
               (case filter (\<lambda>t. type_id t = pg_uuid sel) (types_of_event (in_eventId i) s) of
                  [] \<Rightarrow> Inl (NotFoundException ''ticket type not found for event'')
                | t # _ \<Rightarrow> Inr (type_id t))
           | None \<Rightarrow>
               (case take 2 (types_of_event (in_eventId i) s) of
                  [] \<Rightarrow> Inl (InternalServerErrorException ''ticket type is not configured for event'')
                | [t] \<Rightarrow> Inr (type_id t)
                | _ \<Rightarrow> Inl (BadRequestException ''ticketTypeId is required when an event has multiple ticket types''))))"

text \<open>
  The conditional UPDATE. The answer is the remaining quantity of the updated row, \<open>None\<close> when no
  row met the condition. The statement trigger fires in either case.
\<close>

definition updateActiveInventory ::
    "ParsedPurchaseInput \<Rightarrow> string \<Rightarrow> InventoryWriterMode \<Rightarrow> pg \<Rightarrow> (int option \<times> pg) result" where
  "updateActiveInventory i ticketTypeId mode s =
     (case mode of
        Legacy \<Rightarrow>
          (case fence_inventory_statement TicketInventory 1 s of
             Inl e \<Rightarrow> Inl e
           | Inr s1 \<Rightarrow>
               (case row_by ti_event (pg_uuid (in_eventId i)) (ticket_inventory s1) of
                  Some r \<Rightarrow>
                    if ti_remaining r \<ge> in_quantity i
                    then map_sum id (\<lambda>s2. (Some (ti_remaining r - in_quantity i), s2))
                           (ti_write 1 (r\<lparr>ti_remaining := ti_remaining r - in_quantity i,
                                          ti_version := ti_version r + 1\<rparr>) s1)
                    else Inr (None, s1)
                | None \<Rightarrow> Inr (None, s1)))
      | TicketTypeMode \<Rightarrow>
          (case fence_inventory_statement TicketTypeInventory 1 s of
             Inl e \<Rightarrow> Inl e
           | Inr s1 \<Rightarrow>
               (case row_by tti_type ticketTypeId (ticket_type_inventory s1) of
                  Some r \<Rightarrow>
                    if tti_event r = pg_uuid (in_eventId i) \<and> tti_remaining r \<ge> in_quantity i
                    then map_sum id (\<lambda>s2. (Some (tti_remaining r - in_quantity i), s2))
                           (tti_write 1 (r\<lparr>tti_remaining := tti_remaining r - in_quantity i,
                                           tti_version := tti_version r + 1\<rparr>) s1)
                    else Inr (None, s1)
                | None \<Rightarrow> Inr (None, s1))))"

definition readActiveInventory ::
    "pg \<Rightarrow> string \<Rightarrow> string \<Rightarrow> InventoryWriterMode \<Rightarrow> int option" where
  "readActiveInventory s eventId ticketTypeId mode =
     (case mode of
        Legacy \<Rightarrow> map_option ti_remaining (row_by ti_event (pg_uuid eventId) (ticket_inventory s))
      | TicketTypeMode \<Rightarrow>
          (case row_by tti_type ticketTypeId (ticket_type_inventory s) of
             Some r \<Rightarrow> if tti_event r = pg_uuid eventId then Some (tti_remaining r) else None
           | None \<Rightarrow> None))"

definition request_key :: "ParsedPurchaseInput \<Rightarrow> purchase_row \<Rightarrow> bool" where
  "request_key i p = (p_buyer p = pg_uuid (in_buyerId i) \<and> p_event p = pg_uuid (in_eventId i)
     \<and> p_request p \<noteq> None \<and> p_request p = in_requestId i)"

definition findExistingPurchase :: "pg \<Rightarrow> ParsedPurchaseInput \<Rightarrow> purchase_row option" where
  "findExistingPurchase s i = find (request_key i) (purchases s)"

definition assertIdempotencyReplayPayload :: "purchase_row \<Rightarrow> ParsedPurchaseInput \<Rightarrow> unit result" where
  "assertIdempotencyReplayPayload p i =
     (if p_quantity p \<noteq> in_quantity i
         \<or> (in_ticketTypeId i \<noteq> None \<and> in_ticketTypeId i \<noteq> Some (p_type p))
      then Inl (ConflictException ''requestId was already used with a different purchase payload'')
      else Inr ())"

definition toPurchaseResult :: "purchase_row \<Rightarrow> PurchaseResult" where
  "toPurchaseResult p = \<lparr>purchaseId = Some (p_id p), r_eventId = p_event p, r_buyerId = p_buyer p,
     r_quantity = p_quantity p, r_status = p_status p, rejectionReason = p_reason p,
     remainingQuantity = p_remaining_after p\<rparr>"

definition replayOutcome :: "purchase_row \<Rightarrow> InventoryWriterMode \<Rightarrow> PurchaseTransactionOutcome" where
  "replayOutcome p mode = \<lparr>o_result = toPurchaseResult p, o_disposition = Replayed,
     inventoryChange = None, compatibilityRemainingQuantity = None,
     resolvedTicketTypeId = Some (p_type p), ticketTypeRemainingQuantity = None,
     writerModeUsed = mode\<rparr>"

definition isConstraintViolation :: "exn \<Rightarrow> string \<Rightarrow> bool" where
  "isConstraintViolation e c = (case e of PgError code cn \<Rightarrow> code = ''23505'' \<and> cn = c | _ \<Rightarrow> False)"

text \<open>
  INSERT INTO purchases with the BEFORE INSERT trigger that fills a missing Ticket Type, the
  check constraints, the composite foreign key and the unique idempotency index.
\<close>

definition set_purchase_ticket_type :: "pg \<Rightarrow> string \<Rightarrow> string option \<Rightarrow> string result" where
  "set_purchase_ticket_type s e t =
     (case (case t of Some x \<Rightarrow> Some x | None \<Rightarrow> default_type_of e s) of
        None \<Rightarrow> Inl (RaiseException ''P0001'' ''purchase ticket type bridge failed: event has no default ticket type'')
      | Some x \<Rightarrow> Inr x)"

definition purchase_checks :: "purchase_row \<Rightarrow> bool" where
  "purchase_checks p = (0 < p_quantity p
     \<and> (case p_remaining_after p of None \<Rightarrow> True | Some r \<Rightarrow> 0 \<le> r)
     \<and> ((p_status p = Confirmed \<and> p_reason p = None) \<or> (p_status p = Rejected \<and> p_reason p \<noteq> None)))"

definition same_request :: "purchase_row \<Rightarrow> purchase_row \<Rightarrow> bool" where
  "same_request p q = (p_request p \<noteq> None \<and> p_buyer p = p_buyer q \<and> p_event p = p_event q
     \<and> p_request p = p_request q)"

definition insertPurchase :: "purchase_row \<Rightarrow> string option \<Rightarrow> pg \<Rightarrow> pg result" where
  "insertPurchase row t s =
     (case set_purchase_ticket_type s (p_event row) t of
        Inl e \<Rightarrow> Inl e
      | Inr tid \<Rightarrow>
          (let p = row\<lparr>p_type := tid\<rparr>
           in if \<not> purchase_checks p then Inl (PgError ''23514'' ''purchases_check'')
              else if list_ex (same_request p) (purchases s) then Inl (PgError ''23505'' ''purchases_request_id_uq'')
              else if \<not> list_ex (\<lambda>ty. type_id ty = tid \<and> type_event ty = p_event p) (ticket_types s)
              then Inl (PgError ''23503'' ''purchases_event_ticket_type_fkey'')
              else Inr (s\<lparr>purchases := purchases s @ [p]\<rparr>)))"


section \<open>The transaction\<close>

text \<open>
  The environment of one call: the fate of each statement on the wire, what other transactions
  commit between the idempotency lookup and this transaction's first inventory write (the
  shared barrier keeps the writer mode out of their reach), and the id
  \<open>gen_random_uuid()\<close> draws for the new row.
\<close>

datatype tx_stmt =
    Q_CONNECT | Q_BEGIN | Q_BARRIER | Q_REQUEST_LOCK | Q_MODE | Q_EVENT | Q_EXISTING | Q_TYPES
  | Q_UPDATE | Q_ACTIVE | Q_COMPAT | Q_TYPE_STATE | Q_INSERT | Q_COMMIT | Q_ROLLBACK
  | Q_EXISTING_AFTER_ROLLBACK

record tx_env =
  tx_net :: "tx_stmt \<Rightarrow> link"
  tx_others :: "pg \<Rightarrow> pg"
  new_purchase_id :: string

definition connection_lost :: exn where
  "connection_lost = PgError ''08006'' []"

definition ask :: "tx_env \<Rightarrow> tx_stmt \<Rightarrow> 'a result \<Rightarrow> 'a result" where
  "ask env q r = (if tx_net env q = Delivered then r else Inl connection_lost)"

text \<open>
  How the try block ends: committed with an outcome, or an exception together with the writer
  mode read so far and the database a rollback returns to.
\<close>

datatype tx_end =
    Committed PurchaseTransactionOutcome pg
  | Aborted exn "InventoryWriterMode option" pg

definition tx_bind ::
    "'a result \<Rightarrow> InventoryWriterMode option \<Rightarrow> pg \<Rightarrow> ('a \<Rightarrow> tx_end) \<Rightarrow> tx_end" where
  "tx_bind r mode base k = (case r of Inl e \<Rightarrow> Aborted e mode base | Inr x \<Rightarrow> k x)"

definition end_tx :: "pg \<Rightarrow> pg" where
  "end_tx s = s\<lparr>mirror_origin := None\<rparr>"

definition tx_commit ::
    "tx_env \<Rightarrow> PurchaseTransactionOutcome \<Rightarrow> InventoryWriterMode \<Rightarrow> pg \<Rightarrow> pg \<Rightarrow> tx_end" where
  "tx_commit env outcome mode s base =
     (case tx_net env Q_COMMIT of
        Delivered \<Rightarrow> Committed outcome (end_tx s)
      | LostRequest \<Rightarrow> Aborted connection_lost (Some mode) base
      | LostReply \<Rightarrow> Aborted connection_lost (Some mode) (end_tx s))"

definition build_inventory_change :: "pg \<Rightarrow> string \<Rightarrow> ti_row \<Rightarrow> PurchaseInventoryChange result" where
  "build_inventory_change s t agg =
     (case (row_by tti_type t (ticket_type_inventory s), row_by type_id t (ticket_types s)) of
        (Some x, Some ty) \<Rightarrow>
          (case toTicketTypeInventoryVersion (jsint (tti_version x)) of
             Inl e \<Rightarrow> Inl e
           | Inr tv \<Rightarrow>
               (case toEventInventoryVersion (jsint (ti_version agg)) of
                  Inl e \<Rightarrow> Inl e
                | Inr ev \<Rightarrow> Inr \<lparr>ic_ticketTypeId = t, ic_ticketTypeName = type_name ty,
                     ic_ticketTypeTotalQuantity = tti_total x,
                     ic_ticketTypeRemainingQuantity = tti_remaining x, ic_inventoryVersion = tv,
                     ic_eventTotalQuantity = ti_total agg, ic_eventRemainingQuantity = ti_remaining agg,
                     ic_eventInventoryVersion = ev\<rparr>))
      | _ \<Rightarrow> Inl (InternalServerErrorException ''ticket type inventory state is not configured''))"

definition new_purchase_row ::
    "tx_env \<Rightarrow> ParsedPurchaseInput \<Rightarrow> string \<Rightarrow> bool \<Rightarrow> int option \<Rightarrow> purchase_row" where
  "new_purchase_row env i t confirmed after =
     \<lparr>p_id = new_purchase_id env, p_event = pg_uuid (in_eventId i), p_type = t,
      p_buyer = pg_uuid (in_buyerId i), p_request = in_requestId i, p_quantity = in_quantity i,
      p_status = (if confirmed then Confirmed else Rejected),
      p_reason = (if confirmed then None else Some ''insufficient_inventory''),
      p_remaining_after = after\<rparr>"

definition created_outcome ::
    "tx_env \<Rightarrow> ParsedPurchaseInput \<Rightarrow> string \<Rightarrow> InventoryWriterMode \<Rightarrow> bool \<Rightarrow> int \<Rightarrow> ti_row
       \<Rightarrow> PurchaseInventoryChange option \<Rightarrow> PurchaseTransactionOutcome" where
  "created_outcome env i t mode confirmed active agg change =
     \<lparr>o_result = \<lparr>purchaseId = Some (new_purchase_id env), r_eventId = in_eventId i,
        r_buyerId = in_buyerId i, r_quantity = in_quantity i,
        r_status = (if confirmed then Confirmed else Rejected),
        rejectionReason = (if confirmed then None else Some ''insufficient_inventory''),
        remainingQuantity = (if confirmed then Some (ti_remaining agg) else None)\<rparr>,
      o_disposition = Created, inventoryChange = change,
      compatibilityRemainingQuantity = Some (ti_remaining agg),
      resolvedTicketTypeId = Some t,
      ticketTypeRemainingQuantity = (if mode = TicketTypeMode then Some active else None),
      writerModeUsed = mode\<rparr>"

text \<open>From the resolution of the Ticket Type to COMMIT, for a request without an earlier row.\<close>

definition purchase_tx_new ::
    "tx_env \<Rightarrow> ParsedPurchaseInput \<Rightarrow> InventoryWriterMode \<Rightarrow> pg \<Rightarrow> tx_end" where
  "purchase_tx_new env i mode s =
     tx_bind (ask env Q_TYPES (resolveTicketType s i mode)) (Some mode) s (\<lambda>t.
     tx_bind (ask env Q_UPDATE (updateActiveInventory i t mode s)) (Some mode) s (\<lambda>(upd, s1).
     tx_bind (case upd of
                Some r \<Rightarrow> Inr r
              | None \<Rightarrow> ask env Q_ACTIVE (case readActiveInventory s1 (in_eventId i) t mode of
                    None \<Rightarrow> Inl (InternalServerErrorException ''ticket inventory is not configured'')
                  | Some r \<Rightarrow> Inr r)) (Some mode) s (\<lambda>active.
     tx_bind (ask env Q_COMPAT (case row_by ti_event (pg_uuid (in_eventId i)) (ticket_inventory s1) of
                  None \<Rightarrow> Inl (InternalServerErrorException ''compatibility ticket inventory is not configured'')
                | Some r \<Rightarrow> Inr r)) (Some mode) s (\<lambda>agg.
     tx_bind (if upd \<noteq> None
              then map_sum id Some (ask env Q_TYPE_STATE (build_inventory_change s1 t agg))
              else Inr None) (Some mode) s (\<lambda>change.
     tx_bind (ask env Q_INSERT (insertPurchase
                (new_purchase_row env i t (upd \<noteq> None) (if upd \<noteq> None then Some (ti_remaining agg) else None))
                (Some t) s1)) (Some mode) s (\<lambda>s2.
     tx_commit env (created_outcome env i t mode (upd \<noteq> None) active agg change) mode s2 s))))))"

definition purchase_tx_body :: "tx_env \<Rightarrow> ParsedPurchaseInput \<Rightarrow> pg \<Rightarrow> tx_end" where
  "purchase_tx_body env i s =
     tx_bind (ask env Q_BEGIN (Inr ())) None s (\<lambda>_.
     tx_bind (ask env Q_BARRIER (Inr ())) None s (\<lambda>_.
     tx_bind (if in_requestId i \<noteq> None then ask env Q_REQUEST_LOCK (Inr ()) else Inr ()) None s (\<lambda>_.
     tx_bind (ask env Q_MODE (readInventoryWriterMode s)) None s (\<lambda>mode.
     tx_bind (ask env Q_EVENT (if pg_uuid (in_eventId i) \<in> set (events s) then Inr ()
                               else Inl (NotFoundException ''event not found''))) (Some mode) s (\<lambda>_.
     tx_bind (if in_requestId i \<noteq> None then ask env Q_EXISTING (Inr (findExistingPurchase s i))
              else Inr None) (Some mode) s (\<lambda>existing.
     (case existing of
        Some p \<Rightarrow>
          tx_bind (assertIdempotencyReplayPayload p i) (Some mode) s (\<lambda>_.
            tx_commit env (replayOutcome p mode) mode s s)
      | None \<Rightarrow> purchase_tx_new env i mode (tx_others env s))))))))"

text \<open>The catch block: roll back, then turn a lost race on the idempotency index into a replay.\<close>

definition purchase_tx_rollback ::
    "tx_env \<Rightarrow> ParsedPurchaseInput \<Rightarrow> exn \<Rightarrow> InventoryWriterMode option \<Rightarrow> pg
       \<Rightarrow> PurchaseTransactionOutcome result" where
  "purchase_tx_rollback env i e mode base =
     (if tx_net env Q_ROLLBACK = Delivered \<and> in_requestId i \<noteq> None
         \<and> isConstraintViolation e ''purchases_request_id_uq''
      then (case ask env Q_EXISTING_AFTER_ROLLBACK (Inr (findExistingPurchase base i)) of
          Inl e' \<Rightarrow> Inl e'
        | Inr None \<Rightarrow> Inl e
        | Inr (Some p) \<Rightarrow>
            (case assertIdempotencyReplayPayload p i of
               Inl e' \<Rightarrow> Inl e'
             | Inr _ \<Rightarrow> Inr (replayOutcome p (case mode of Some m \<Rightarrow> m | None \<Rightarrow> Legacy))))
      else Inl e)"

definition executePurchaseTransaction ::
    "tx_env \<Rightarrow> ParsedPurchaseInput \<Rightarrow> pg \<Rightarrow> PurchaseTransactionOutcome result \<times> pg" where
  "executePurchaseTransaction env i s =
     (case ask env Q_CONNECT (Inr ()) of
        Inl e \<Rightarrow> (Inl e, s)
      | Inr _ \<Rightarrow>
          (case purchase_tx_body env i s of
             Committed outcome s' \<Rightarrow> (Inr outcome, s')
           | Aborted e mode base \<Rightarrow> (purchase_tx_rollback env i e mode base, base)))"

lemma tx_bind_simps [simp]:
  "tx_bind (Inl e) mode base k = Aborted e mode base"
  "tx_bind (Inr x) mode base k = k x"
  by (simp_all add: tx_bind_def)

lemma tx_bind_Committed:
  "tx_bind r mode base k = Committed out s' \<longleftrightarrow> (\<exists>x. r = Inr x \<and> k x = Committed out s')"
  by (cases r) simp_all

lemma tx_bind_Aborted:
  "tx_bind r mode base k = Aborted e m b \<longleftrightarrow>
     (r = Inl e \<and> m = mode \<and> b = base) \<or> (\<exists>x. r = Inr x \<and> k x = Aborted e m b)"
  by (cases r) auto

lemma ask_Inr: "ask env q r = Inr x \<longleftrightarrow> tx_net env q = Delivered \<and> r = Inr x"
  by (auto simp: ask_def)

lemma tx_commit_Committed:
  "tx_commit env out m s base = Committed out' s' \<longleftrightarrow>
     tx_net env Q_COMMIT = Delivered \<and> out' = out \<and> s' = end_tx s"
  by (auto simp: tx_commit_def split: link.splits)


section \<open>Invariant\<close>

definition requests_unique :: "pg \<Rightarrow> bool" where
  "requests_unique s \<longleftrightarrow> sorted_wrt (\<lambda>p q. \<not> same_request p q) (purchases s)"

definition purchases_linked :: "pg \<Rightarrow> bool" where
  "purchases_linked s \<longleftrightarrow> (\<forall>p \<in> set (purchases s). purchase_checks p
     \<and> (\<exists>ty \<in> set (ticket_types s). type_id ty = p_type p \<and> type_event ty = p_event p))"

definition pg_inv :: "pg \<Rightarrow> bool" where
  "pg_inv s \<longleftrightarrow> pg_wf s \<and> aggregates_match s \<and> stock_conserved s \<and> requests_unique s \<and> purchases_linked s"

lemma origin_sel:
  "events (s\<lparr>mirror_origin := m\<rparr>) = events s"
  "ticket_types (s\<lparr>mirror_origin := m\<rparr>) = ticket_types s"
  "ticket_inventory (s\<lparr>mirror_origin := m\<rparr>) = ticket_inventory s"
  "ticket_type_inventory (s\<lparr>mirror_origin := m\<rparr>) = ticket_type_inventory s"
  "purchases (s\<lparr>mirror_origin := m\<rparr>) = purchases s"
  "writer_control (s\<lparr>mirror_origin := m\<rparr>) = writer_control s"
  by simp_all

lemma table_defs_origin [simp]:
  "pg_wf (s\<lparr>mirror_origin := m\<rparr>) = pg_wf s"
  "aggregates_match (s\<lparr>mirror_origin := m\<rparr>) = aggregates_match s"
  "stock_conserved (s\<lparr>mirror_origin := m\<rparr>) = stock_conserved s"
  "requests_unique (s\<lparr>mirror_origin := m\<rparr>) = requests_unique s"
  "purchases_linked (s\<lparr>mirror_origin := m\<rparr>) = purchases_linked s"
  "pg_inv (s\<lparr>mirror_origin := m\<rparr>) = pg_inv s"
  "sole_type e t (s\<lparr>mirror_origin := m\<rparr>) = sole_type e t s"
  "pair_update e t q x0 a x1 (s\<lparr>mirror_origin := m\<rparr>) s' = pair_update e t q x0 a x1 s s'"
  "pair_update e t q x0 a x1 s (s'\<lparr>mirror_origin := m\<rparr>) = pair_update e t q x0 a x1 s s'"
  by (simp_all only: pg_wf_def aggregates_match_def stock_conserved_def requests_unique_def
      purchases_linked_def pg_inv_def sole_type_def pair_update_def same_catalog_def
      aggregate_total_def aggregate_remaining_def sold_quantity_def origin_sel)

lemma readInventoryWriterMode_iff:
  "readInventoryWriterMode s = Inr m \<longleftrightarrow> writer_control s = Some (mode_text m)"
  by (cases m) (auto simp: readInventoryWriterMode_def mode_text_def split: option.splits if_splits)

lemma resolve_legacy_sole:
  assumes "resolveTicketType s i Legacy = Inr t"
  shows "sole_type (pg_uuid (in_eventId i)) t s"
proof -
  obtain ty where ty: "take 2 (types_of_event (in_eventId i) s) = [ty]" "type_id ty = t"
    using assms by (auto simp: resolveTicketType_def split: list.splits option.splits if_splits)
  then have "types_of_event (in_eventId i) s = [ty]"
    by (cases "types_of_event (in_eventId i) s" rule: remdups_adj.cases) auto
  then have "set (types_of_event (in_eventId i) s) = {ty}" by simp
  then have "\<And>x. x \<in> set (ticket_types s) \<Longrightarrow> type_event x = pg_uuid (in_eventId i) \<Longrightarrow> x = ty"
    unfolding types_of_event_def by auto
  with ty(2) show ?thesis unfolding sole_type_def by blast
qed

lemmas fence_dest = fence_Inr [unfolded One_nat_def]

lemma resolve_selected:
  "resolveTicketType s i mode = Inr t \<Longrightarrow>
     in_ticketTypeId i = None \<or> map_option pg_uuid (in_ticketTypeId i) = Some t \<or> in_ticketTypeId i = Some t"
  by (auto simp: resolveTicketType_def filter_eq_Cons_iff
      split: InventoryWriterMode.splits list.splits option.splits if_splits)

lemma resolve_type_listed:
  assumes "resolveTicketType s i mode = Inr t"
  shows "\<exists>ty \<in> set (ticket_types s). type_id ty = t \<and> type_event ty = pg_uuid (in_eventId i)"
proof -
  have two: "\<exists>ty \<in> set (types_of_event (in_eventId i) s). type_id ty = type_id y"
    if "take 2 (types_of_event (in_eventId i) s) = [y]" for y
    using that by (metis in_set_takeD list.set_intros(1))
  have "\<exists>ty \<in> set (types_of_event (in_eventId i) s). type_id ty = t"
  proof (cases mode)
    case Legacy
    with assms show ?thesis
      by (auto simp: resolveTicketType_def split: list.splits option.splits if_splits dest: two)
  next
    case TicketTypeMode
    have sel: "\<exists>ty \<in> set xs. type_id ty = type_id y" if "filter P xs = y # ys" for P xs y and ys :: "type_row list"
      using that by (metis filter_is_subset list.set_intros(1) subset_code(1))
    from TicketTypeMode assms show ?thesis
      by (auto simp: resolveTicketType_def split: list.splits option.splits if_splits dest: two sel)
  qed
  then show ?thesis by (auto simp: types_of_event_def)
qed

lemma update_fence:
  assumes "updateActiveInventory i t mode s = Inr (upd, s1)"
  shows "writer_control s = Some (mode_text mode)"
  using assms
  by (cases mode) (auto simp: updateActiveInventory_def mode_text_def split: sum.splits dest!: fence_dest)

lemma update_none:
  assumes "updateActiveInventory i t mode s = Inr (None, s1)"
  shows "s1 = s\<lparr>mirror_origin := Some (mode_text mode)\<rparr>"
  using assms
  by (cases mode)
    (auto simp: updateActiveInventory_def mode_text_def split: sum.splits option.splits if_splits dest!: fence_dest)

lemma update_some:
  assumes inv: "pg_wf s" "aggregates_match s" and q: "0 < in_quantity i"
    and t: "resolveTicketType s i mode = Inr t"
    and u: "updateActiveInventory i t mode s = Inr (Some r, s1)"
  shows "\<exists>x0 a' x1. pair_update (pg_uuid (in_eventId i)) t (in_quantity i) x0 a' x1 s s1
    \<and> r = (case mode of Legacy \<Rightarrow> ti_remaining a' | TicketTypeMode \<Rightarrow> tti_remaining x1)"
proof (cases mode)
  case Legacy
  let ?s = "s\<lparr>mirror_origin := Some ''legacy''\<rparr>"
  obtain r0 where m: "writer_control s = Some ''legacy''"
    and r0: "row_by ti_event (pg_uuid (in_eventId i)) (ticket_inventory ?s) = Some r0"
    and w: "ti_write 1 (r0\<lparr>ti_remaining := ti_remaining r0 - in_quantity i, ti_version := ti_version r0 + 1\<rparr>) ?s = Inr s1"
    and r: "r = ti_remaining r0 - in_quantity i"
    using u Legacy
    by (auto simp: updateActiveInventory_def split: sum.splits option.splits if_splits dest!: fence_dest)
  have sole: "sole_type (pg_uuid (in_eventId i)) t ?s" using resolve_legacy_sole t Legacy by simp
  from legacy_write_pair_update [OF _ _ _ r0 sole q refl w] inv m
  obtain y0 x1 where "pair_update (pg_uuid (in_eventId i)) t (in_quantity i) y0
      (r0\<lparr>ti_remaining := ti_remaining r0 - in_quantity i, ti_version := ti_version r0 + 1\<rparr>) x1 s s1"
    by auto
  moreover have "r = ti_remaining (r0\<lparr>ti_remaining := ti_remaining r0 - in_quantity i, ti_version := ti_version r0 + 1\<rparr>)"
    using r by simp
  ultimately show ?thesis unfolding Legacy InventoryWriterMode.case by blast
next
  case TicketTypeMode
  let ?s = "s\<lparr>mirror_origin := Some ''ticket_type''\<rparr>"
  obtain x0 where m: "writer_control s = Some ''ticket_type''"
    and x0: "row_by tti_type t (ticket_type_inventory ?s) = Some x0" "tti_event x0 = pg_uuid (in_eventId i)"
    and w: "tti_write 1 (x0\<lparr>tti_remaining := tti_remaining x0 - in_quantity i, tti_version := tti_version x0 + 1\<rparr>) ?s = Inr s1"
    and r: "r = tti_remaining x0 - in_quantity i"
    using u TicketTypeMode
    by (auto simp: updateActiveInventory_def split: sum.splits option.splits if_splits dest!: fence_dest)
  have "x0 \<in> set (ticket_type_inventory ?s)" "tti_type x0 = t" using row_by_Some [OF x0(1)] by simp_all
  from ticket_type_write_pair_update [OF _ _ _ this x0(2) refl w] inv m
  obtain a' where "pair_update (pg_uuid (in_eventId i)) t (in_quantity i) x0 a'
      (x0\<lparr>tti_remaining := tti_remaining x0 - in_quantity i, tti_version := tti_version x0 + 1\<rparr>) s s1"
    by auto
  moreover have "r = tti_remaining (x0\<lparr>tti_remaining := tti_remaining x0 - in_quantity i, tti_version := tti_version x0 + 1\<rparr>)"
    using r by simp
  ultimately show ?thesis unfolding TicketTypeMode InventoryWriterMode.case by blast
qed

lemma insertPurchase_Inr:
  assumes "insertPurchase row (Some t) s = Inr s'"
  shows "s' = s\<lparr>purchases := purchases s @ [row\<lparr>p_type := t\<rparr>]\<rparr>
    \<and> purchase_checks (row\<lparr>p_type := t\<rparr>) \<and> \<not> list_ex (same_request (row\<lparr>p_type := t\<rparr>)) (purchases s)
    \<and> (\<exists>ty \<in> set (ticket_types s). type_id ty = t \<and> type_event ty = p_event row)"
  using assms by (auto simp: insertPurchase_def set_purchase_ticket_type_def list_ex_iff Let_def split: if_splits)

lemma same_request_sym: "same_request p q \<Longrightarrow> same_request q p"
  by (auto simp: same_request_def)

lemma insert_preserves_rows:
  assumes "insertPurchase row (Some t) s = Inr s'"
  shows "requests_unique s \<Longrightarrow> requests_unique s'" "purchases_linked s \<Longrightarrow> purchases_linked s'"
    "pg_wf s' = pg_wf s" "aggregates_match s' = aggregates_match s"
    "ticket_type_inventory s' = ticket_type_inventory s"
    "sold_quantity u s' = sold_quantity u s + (if u = t \<and> p_status row = Confirmed then p_quantity row else 0)"
proof -
  note p = insertPurchase_Inr [OF assms]
  show "requests_unique s \<Longrightarrow> requests_unique s'"
    using p by (auto simp: requests_unique_def sorted_wrt_append list_ex_iff dest: same_request_sym)
  show "purchases_linked s \<Longrightarrow> purchases_linked s'"
    using p by (auto simp: purchases_linked_def)
  show "pg_wf s' = pg_wf s" "aggregates_match s' = aggregates_match s"
    "ticket_type_inventory s' = ticket_type_inventory s"
    "sold_quantity u s' = sold_quantity u s + (if u = t \<and> p_status row = Confirmed then p_quantity row else 0)"
    using p by (auto simp: pg_wf_def aggregates_match_def aggregate_total_def aggregate_remaining_def sold_quantity_def)
qed

text \<open>The inversion of a committed new purchase.\<close>

lemma purchase_tx_new_Committed:
  assumes "purchase_tx_new env i mode s = Committed out s'"
  obtains t upd s1 active agg change s2 where
    "resolveTicketType s i mode = Inr t"
    "updateActiveInventory i t mode s = Inr (upd, s1)"
    "case upd of Some r \<Rightarrow> active = r | None \<Rightarrow> readActiveInventory s1 (in_eventId i) t mode = Some active"
    "row_by ti_event (pg_uuid (in_eventId i)) (ticket_inventory s1) = Some agg"
    "case upd of None \<Rightarrow> change = None
       | Some _ \<Rightarrow> (\<exists>c. change = Some c \<and> build_inventory_change s1 t agg = Inr c)"
    "insertPurchase (new_purchase_row env i t (upd \<noteq> None) (if upd \<noteq> None then Some (ti_remaining agg) else None))
       (Some t) s1 = Inr s2"
    "s' = end_tx s2"
    "out = created_outcome env i t mode (upd \<noteq> None) active agg change"
proof -
  obtain t us active agg change s2 where
    1: "ask env Q_TYPES (resolveTicketType s i mode) = Inr t"
    and 2: "ask env Q_UPDATE (updateActiveInventory i t mode s) = Inr us"
    and 3: "(case fst us of Some r \<Rightarrow> Inr r
              | None \<Rightarrow> ask env Q_ACTIVE (case readActiveInventory (snd us) (in_eventId i) t mode of
                    None \<Rightarrow> Inl (InternalServerErrorException ''ticket inventory is not configured'')
                  | Some r \<Rightarrow> Inr r)) = Inr active"
    and 4: "ask env Q_COMPAT (case row_by ti_event (pg_uuid (in_eventId i)) (ticket_inventory (snd us)) of
                  None \<Rightarrow> Inl (InternalServerErrorException ''compatibility ticket inventory is not configured'')
                | Some r \<Rightarrow> Inr r) = Inr agg"
    and 5: "(if fst us \<noteq> None then map_sum id Some (ask env Q_TYPE_STATE (build_inventory_change (snd us) t agg))
              else Inr None) = Inr change"
    and 6: "ask env Q_INSERT (insertPurchase
                (new_purchase_row env i t (fst us \<noteq> None) (if fst us \<noteq> None then Some (ti_remaining agg) else None))
                (Some t) (snd us)) = Inr s2"
    and 7: "tx_commit env (created_outcome env i t mode (fst us \<noteq> None) active agg change) mode s2 s = Committed out s'"
    using assms unfolding purchase_tx_new_def tx_bind_Committed split_beta by (elim exE conjE) (rule that)
  have active: "case fst us of Some r \<Rightarrow> active = r
      | None \<Rightarrow> readActiveInventory (snd us) (in_eventId i) t mode = Some active"
    using 3 by (auto simp: ask_Inr split: option.splits)
  have change: "case fst us of None \<Rightarrow> change = None
       | Some _ \<Rightarrow> (\<exists>c. change = Some c \<and> build_inventory_change (snd us) t agg = Inr c)"
    using 5 by (auto simp: ask_Inr split: option.splits if_splits)
  have agg: "row_by ti_event (pg_uuid (in_eventId i)) (ticket_inventory (snd us)) = Some agg"
    using 4 by (auto simp: ask_Inr split: option.splits)
  from 1 2 6 7 show ?thesis
    by (intro that [OF _ _ active agg change]) (simp_all add: ask_Inr tx_commit_Committed)
qed


lemma stock_conserved_sale:
  assumes "stock_conserved s" "takes_stock t q s s1" "ticket_type_inventory s2 = ticket_type_inventory s1"
    and "\<And>u. sold_quantity u s2 = sold_quantity u s + (if u = t then q else 0)"
  shows "stock_conserved s2"
  unfolding stock_conserved_def assms(3)
proof
  fix x assume "x \<in> set (ticket_type_inventory s1)"
  with assms(2) consider "tti_type x \<noteq> t" "x \<in> set (ticket_type_inventory s)"
    | x0 where "tti_type x = t" "x0 \<in> set (ticket_type_inventory s)" "tti_type x0 = t"
        "tti_total x0 = tti_total x" "tti_remaining x = tti_remaining x0 - q"
    unfolding takes_stock_def by blast
  then show "tti_remaining x + sold_quantity (tti_type x) s2 = tti_total x"
  proof cases
    case 1
    with assms(1) show ?thesis by (simp add: assms(4) stock_conserved_def)
  next
    case 2
    with assms(1) have "tti_remaining x0 + sold_quantity t s = tti_total x0" unfolding stock_conserved_def by metis
    with 2 show ?thesis by (simp add: assms(4))
  qed
qed

lemma same_catalog_tables:
  assumes "same_catalog s s1"
  shows "sold_quantity u s1 = sold_quantity u s" "requests_unique s1 = requests_unique s"
    "purchases_linked s1 = purchases_linked s"
  using assms by (simp_all add: same_catalog_def sold_quantity_def requests_unique_def purchases_linked_def)

lemma pair_update_same: "pair_update e t q x0 a' x1 s s1 \<Longrightarrow> same_catalog s s1"
  unfolding pair_update_def by blast

text \<open>The two endings of a new purchase: a sale, which is a pair update, or a refusal, which writes
  the purchase row only.\<close>

lemma insert_confirmed_inv:
  assumes inv: "pg_inv s" and pu: "pair_update e t (p_quantity row) x0 a' x1 s s1"
    and ins: "insertPurchase row (Some t) s1 = Inr s2" and st: "p_status row = Confirmed"
  shows "pg_inv s2"
proof -
  have wf: "pg_wf s" "aggregates_match s" using inv by (simp_all add: pg_inv_def)
  note same = same_catalog_tables [OF pair_update_same [OF pu]]
  note rows = insert_preserves_rows [OF ins]
  have "stock_conserved s2"
    by (rule stock_conserved_sale [OF _ pair_update_takes_stock [OF wf(1) pu] rows(5)])
      (use inv st in \<open>simp_all add: pg_inv_def rows(6) same(1)\<close>)
  with inv rows same pair_update_wf [OF wf(1) pu] pair_update_aggregates [OF wf pu]
  show ?thesis by (simp add: pg_inv_def)
qed

lemma insert_rejected_inv:
  assumes inv: "pg_inv s" and ins: "insertPurchase row (Some t) s = Inr s2" and st: "p_status row = Rejected"
  shows "pg_inv s2"
proof -
  note rows = insert_preserves_rows [OF ins]
  have "stock_conserved s2"
    using inv by (simp add: pg_inv_def stock_conserved_def rows(5,6) st)
  with inv rows show ?thesis by (simp add: pg_inv_def)
qed

lemma new_purchase_row_simps [simp]:
  "p_quantity (new_purchase_row env i t c a) = in_quantity i"
  "p_status (new_purchase_row env i t c a) = (if c then Confirmed else Rejected)"
  "p_type (new_purchase_row env i t c a) = t"
  "p_event (new_purchase_row env i t c a) = pg_uuid (in_eventId i)"
  "p_buyer (new_purchase_row env i t c a) = pg_uuid (in_buyerId i)"
  "p_request (new_purchase_row env i t c a) = in_requestId i"
  "p_id (new_purchase_row env i t c a) = new_purchase_id env"
  "p_remaining_after (new_purchase_row env i t c a) = a"
  "p_reason (new_purchase_row env i t c a) = (if c then None else Some ''insufficient_inventory'')"
  "new_purchase_row env i t c a\<lparr>p_type := t\<rparr> = new_purchase_row env i t c a"
  by (simp_all add: new_purchase_row_def)

lemma purchase_tx_new_sale_or_refusal:
  assumes inv: "pg_inv s" and q: "0 < in_quantity i" and c: "purchase_tx_new env i mode s = Committed out s'"
  obtains
    (sale) t x0 a' x1 s1 s2 ch where "resolveTicketType s i mode = Inr t" "s' = end_tx s2"
      "pair_update (pg_uuid (in_eventId i)) t (in_quantity i) x0 a' x1 s s1"
      "build_inventory_change s1 t a' = Inr ch"
      "insertPurchase (new_purchase_row env i t True (Some (ti_remaining a'))) (Some t) s1 = Inr s2"
      "out = created_outcome env i t mode True
         (case mode of Legacy \<Rightarrow> ti_remaining a' | TicketTypeMode \<Rightarrow> tti_remaining x1) a' (Some ch)"
  | (refusal) t active agg s2 where "resolveTicketType s i mode = Inr t" "s' = end_tx s2"
      "updateActiveInventory i t mode s = Inr (None, s\<lparr>mirror_origin := Some (mode_text mode)\<rparr>)"
      "readActiveInventory s (in_eventId i) t mode = Some active"
      "insertPurchase (new_purchase_row env i t False None) (Some t)
         (s\<lparr>mirror_origin := Some (mode_text mode)\<rparr>) = Inr s2"
      "out = created_outcome env i t mode False active agg None"
proof -
  from purchase_tx_new_Committed [OF c] obtain t upd s1 active agg change s2 where
    1: "resolveTicketType s i mode = Inr t" and 2: "updateActiveInventory i t mode s = Inr (upd, s1)"
    and 3: "case upd of Some r \<Rightarrow> active = r | None \<Rightarrow> readActiveInventory s1 (in_eventId i) t mode = Some active"
    and 4: "row_by ti_event (pg_uuid (in_eventId i)) (ticket_inventory s1) = Some agg"
    and 5: "case upd of None \<Rightarrow> change = None
       | Some _ \<Rightarrow> (\<exists>c. change = Some c \<and> build_inventory_change s1 t agg = Inr c)"
    and 6: "insertPurchase (new_purchase_row env i t (upd \<noteq> None)
        (if upd \<noteq> None then Some (ti_remaining agg) else None)) (Some t) s1 = Inr s2"
    and 7: "s' = end_tx s2" "out = created_outcome env i t mode (upd \<noteq> None) active agg change" .
  show thesis
  proof (cases upd)
    case None
    have s1: "s1 = s\<lparr>mirror_origin := Some (mode_text mode)\<rparr>" using update_none 2 None by blast
    have "readActiveInventory s1 (in_eventId i) t mode = readActiveInventory s (in_eventId i) t mode"
      by (simp add: s1 readActiveInventory_def cong: InventoryWriterMode.case_cong)
    with 1 2 3 5 6 7 None s1 show ?thesis by (intro refusal [of t s2 active agg]) simp_all
  next
    case (Some r)
    have "pg_wf s" "aggregates_match s" using inv by (simp_all add: pg_inv_def)
    from update_some [OF this q 1] 2 Some obtain x0 a' x1 where
      pu: "pair_update (pg_uuid (in_eventId i)) t (in_quantity i) x0 a' x1 s s1"
      and r: "r = (case mode of Legacy \<Rightarrow> ti_remaining a' | TicketTypeMode \<Rightarrow> tti_remaining x1)" by blast
    have "row_by ti_event (pg_uuid (in_eventId i)) (ticket_inventory s1) = Some a'"
      using pu by (simp add: pair_update_def)
    with 4 have "agg = a'" by simp
    with 3 5 obtain ch where "change = Some ch" "build_inventory_change s1 t a' = Inr ch" "active = r"
      using Some by auto
    with 1 pu 6 7 Some r \<open>agg = a'\<close> show ?thesis by (intro sale [of t s2 x0 a' x1 s1 ch]) simp_all
  qed
qed

lemma purchase_tx_new_inv:
  assumes "pg_inv s" "0 < in_quantity i" "purchase_tx_new env i mode s = Committed out s'"
  shows "pg_inv s'"
  using assms
proof (cases rule: purchase_tx_new_sale_or_refusal)
  case (sale t x0 a' x1 s1 s2 ch)
  with insert_confirmed_inv [OF assms(1), of _ t "new_purchase_row env i t True (Some (ti_remaining a'))"]
  show ?thesis by (auto simp: end_tx_def)
next
  case (refusal t active agg s2)
  with insert_rejected_inv [of "s\<lparr>mirror_origin := Some (mode_text mode)\<rparr>"] assms(1)
  show ?thesis by (auto simp: end_tx_def)
qed


section \<open>What a transaction may change\<close>

definition type_row_of :: "string \<Rightarrow> pg \<Rightarrow> tti_row option" where
  "type_row_of t s = row_by tti_type t (ticket_type_inventory s)"

definition event_row_of :: "string \<Rightarrow> pg \<Rightarrow> ti_row option" where
  "event_row_of e s = row_by ti_event e (ticket_inventory s)"

definition type_version :: "string \<Rightarrow> pg \<Rightarrow> int" where
  "type_version t s = (case type_row_of t s of None \<Rightarrow> -1 | Some r \<Rightarrow> tti_version r)"

definition event_version :: "string \<Rightarrow> pg \<Rightarrow> int" where
  "event_version e s = (case event_row_of e s of None \<Rightarrow> -1 | Some r \<Rightarrow> ti_version r)"

lemmas version_defs = type_row_of_def event_row_of_def type_version_def event_version_def

text \<open>
  The law of the database: the invariant, the writer mode and the totals are kept, the ledger only
  grows, and a row changes only together with its version, which only grows.
\<close>

definition type_total :: "string \<Rightarrow> pg \<Rightarrow> int option" where
  "type_total t s = map_option tti_total (type_row_of t s)"

definition advances :: "pg \<Rightarrow> pg \<Rightarrow> bool" where
  "advances s s' \<longleftrightarrow> pg_inv s' \<and> writer_control s' = writer_control s
     \<and> (\<exists>ps. purchases s' = purchases s @ ps) \<and> events s' = events s \<and> ticket_types s' = ticket_types s
     \<and> ti_event ` set (ticket_inventory s') = ti_event ` set (ticket_inventory s)
     \<and> (\<forall>t. type_version t s \<le> type_version t s'
           \<and> (type_version t s' = type_version t s \<longrightarrow> type_row_of t s' = type_row_of t s))
     \<and> (\<forall>e. event_version e s \<le> event_version e s'
           \<and> (event_version e s' = event_version e s \<longrightarrow> event_row_of e s' = event_row_of e s))
     \<and> (\<forall>t. type_total t s' = type_total t s)"

lemma version_origin [simp]:
  "type_row_of t (s\<lparr>mirror_origin := m\<rparr>) = type_row_of t s"
  "event_row_of e (s\<lparr>mirror_origin := m\<rparr>) = event_row_of e s"
  "type_version t (s\<lparr>mirror_origin := m\<rparr>) = type_version t s"
  "event_version e (s\<lparr>mirror_origin := m\<rparr>) = event_version e s"
  "type_total t (s\<lparr>mirror_origin := m\<rparr>) = type_total t s"
  "advances s (s'\<lparr>mirror_origin := m\<rparr>) = advances s s'"
  by (simp_all add: version_defs advances_def type_total_def)

lemma advances_refl: "pg_inv s \<Longrightarrow> advances s s"
  by (simp add: advances_def)

lemma advances_end_tx [simp]: "advances s (end_tx s') = advances s s'" "pg_inv (end_tx s) = pg_inv s"
  by (simp_all add: end_tx_def)

lemma advances_rows:
  assumes "advances s s'"
  shows "type_version t s \<le> type_version t s'" "event_version e s \<le> event_version e s'"
    "type_version t s' = type_version t s \<Longrightarrow> type_row_of t s' = type_row_of t s"
    "event_version e s' = event_version e s \<Longrightarrow> event_row_of e s' = event_row_of e s"
  using assms unfolding advances_def by blast+

lemma advances_rest:
  assumes "advances s s'"
  shows "pg_inv s'" "writer_control s' = writer_control s" "\<exists>ps. purchases s' = purchases s @ ps"
    "events s' = events s" "ticket_types s' = ticket_types s"
    "ti_event ` set (ticket_inventory s') = ti_event ` set (ticket_inventory s)"
    "\<And>t. type_total t s' = type_total t s"
  using assms unfolding advances_def by blast+

lemma advances_trans:
  assumes 1: "advances s s'" and 2: "advances s' s''"
  shows "advances s s''"
proof -
  have t: "type_version t s \<le> type_version t s''"
    "type_version t s'' = type_version t s \<Longrightarrow> type_row_of t s'' = type_row_of t s" for t
    using advances_rows(1,3) [OF 1, of t] advances_rows(1,3) [OF 2, of t] by auto
  have e: "event_version e s \<le> event_version e s''"
    "event_version e s'' = event_version e s \<Longrightarrow> event_row_of e s'' = event_row_of e s" for e
    using advances_rows(2,4) [OF 1, of e] advances_rows(2,4) [OF 2, of e] by auto
  have "\<exists>ps. purchases s'' = purchases s @ ps"
    using advances_rest(3) [OF 1] advances_rest(3) [OF 2] by force
  with t e advances_rest [OF 1] advances_rest [OF 2] show ?thesis unfolding advances_def by simp
qed

lemma pair_update_versions:
  assumes wf: "pg_wf s" and pu: "pair_update e t q x0 a' x1 s s1"
  shows "type_version u s \<le> type_version u s1
      \<and> (type_version u s1 = type_version u s \<longrightarrow> type_row_of u s1 = type_row_of u s)"
    and "event_version b s \<le> event_version b s1
      \<and> (event_version b s1 = event_version b s \<longrightarrow> event_row_of b s1 = event_row_of b s)"
    and "type_total u s1 = type_total u s"
proof -
  have x: "x0 \<in> set (ticket_type_inventory s)" "tti_type x0 = t" "tti_type x1 = t" "tti_version x0 < tti_version x1"
    "check_quantities (tti_total x1) (tti_remaining x1) (tti_version x1)" "tti_total x1 = tti_total x0"
    "ticket_type_inventory s1 = put_row tti_type x1 (ticket_type_inventory s)"
    using pu unfolding pair_update_def by blast+
  have "row_by tti_type t (ticket_type_inventory s) = Some x0"
    using row_by_unique [of tti_type "ticket_type_inventory s" x0] wf x by (simp add: pg_wf_def)
  with x show "type_version u s \<le> type_version u s1
      \<and> (type_version u s1 = type_version u s \<longrightarrow> type_row_of u s1 = type_row_of u s)"
    "type_total u s1 = type_total u s"
    by (auto simp: version_defs type_total_def)
  have a: "\<forall>a \<in> set (ticket_inventory s). ti_event a = e \<longrightarrow> ti_version a < ti_version a'"
    "ti_event a' = e" "tti_version x1 \<le> ti_version a'" "0 \<le> tti_version x1"
    "ticket_inventory s1 = put_row ti_event a' (ticket_inventory s)"
    using pu unfolding pair_update_def check_quantities_def by blast+
  then show "event_version b s \<le> event_version b s1
      \<and> (event_version b s1 = event_version b s \<longrightarrow> event_row_of b s1 = event_row_of b s)"
    by (cases "row_by ti_event e (ticket_inventory s)") (auto simp: version_defs dest: row_by_Some)
qed

lemma pair_update_events:
  assumes "pg_wf s" "pair_update e t q x0 a' x1 s s1"
  shows "ti_event ` set (ticket_inventory s1) = ti_event ` set (ticket_inventory s)"
proof -
  have "x0 \<in> set (ticket_type_inventory s)" "tti_event x0 = e" "ti_event a' = e"
    "ticket_inventory s1 = put_row ti_event a' (ticket_inventory s)"
    using assms(2) unfolding pair_update_def by blast+
  moreover from this(1,2) assms(1) have "e \<in> ti_event ` set (ticket_inventory s)" unfolding pg_wf_def by force
  ultimately show ?thesis by (auto simp: keys_put_row)
qed

lemma purchase_tx_new_advances:
  assumes "pg_inv s" "0 < in_quantity i" "purchase_tx_new env i mode s = Committed out s'"
  shows "advances s s'"
  using assms
proof (cases rule: purchase_tx_new_sale_or_refusal)
  case (sale t x0 a' x1 s1 s2 ch)
  have wf: "pg_wf s" using assms(1) by (simp add: pg_inv_def)
  note same = pair_update_same [OF sale(3), unfolded same_catalog_def]
  note ins = insertPurchase_Inr [OF sale(5)]
  have "type_row_of u s' = type_row_of u s1" "event_row_of b s' = event_row_of b s1" "type_total u s' = type_total u s1" for u b
    using ins sale(2) by (simp_all add: end_tx_def version_defs type_total_def)
  with pair_update_versions [OF wf sale(3)] pair_update_events [OF wf sale(3)] purchase_tx_new_inv [OF assms]
    ins same sale(2) show ?thesis
    by (auto simp: advances_def end_tx_def type_version_def event_version_def)
next
  case (refusal t active agg s2)
  with purchase_tx_new_inv [OF assms] insertPurchase_Inr [OF refusal(5)] show ?thesis
    by (auto simp: advances_def end_tx_def version_defs type_total_def)
qed


section \<open>How a call can end\<close>

text \<open>
  A COMMIT whose answer is lost has happened. \<open>deliver_commit\<close> is the same call with that answer
  delivered: an aborted call leaves the database of the rollback, or the one of the delivered call.
\<close>

definition deliver_commit :: "tx_env \<Rightarrow> tx_env" where
  "deliver_commit env = env\<lparr>tx_net := (tx_net env)(Q_COMMIT := Delivered)\<rparr>"

lemma deliver_commit_simps [simp]:
  "ask (deliver_commit env) Q_CONNECT = ask env Q_CONNECT"
  "ask (deliver_commit env) Q_BEGIN = ask env Q_BEGIN"
  "ask (deliver_commit env) Q_BARRIER = ask env Q_BARRIER"
  "ask (deliver_commit env) Q_REQUEST_LOCK = ask env Q_REQUEST_LOCK"
  "ask (deliver_commit env) Q_MODE = ask env Q_MODE"
  "ask (deliver_commit env) Q_EVENT = ask env Q_EVENT"
  "ask (deliver_commit env) Q_EXISTING = ask env Q_EXISTING"
  "ask (deliver_commit env) Q_TYPES = ask env Q_TYPES"
  "ask (deliver_commit env) Q_UPDATE = ask env Q_UPDATE"
  "ask (deliver_commit env) Q_ACTIVE = ask env Q_ACTIVE"
  "ask (deliver_commit env) Q_COMPAT = ask env Q_COMPAT"
  "ask (deliver_commit env) Q_TYPE_STATE = ask env Q_TYPE_STATE"
  "ask (deliver_commit env) Q_INSERT = ask env Q_INSERT"
  "tx_others (deliver_commit env) = tx_others env"
  "new_purchase_id (deliver_commit env) = new_purchase_id env"
  "new_purchase_row (deliver_commit env) = new_purchase_row env"
  "created_outcome (deliver_commit env) = created_outcome env"
  by (auto simp: deliver_commit_def ask_def new_purchase_row_def created_outcome_def fun_eq_iff)

definition aborts_at :: "tx_env \<Rightarrow> pg set \<Rightarrow> tx_end \<Rightarrow> tx_end \<Rightarrow> bool" where
  "aborts_at env bases x y \<longleftrightarrow> (\<forall>e m b. x = Aborted e m b \<longrightarrow>
     b \<in> bases \<or> (tx_net env Q_COMMIT = LostReply \<and> e = connection_lost \<and> (\<exists>out. y = Committed out b)))"

lemma aborts_at_bind:
  assumes "base \<in> bases" "\<And>x. r = Inr x \<Longrightarrow> aborts_at env bases (k x) (k' x)"
  shows "aborts_at env bases (tx_bind r m base k) (tx_bind r m base k')"
  using assms by (cases r) (auto simp: aborts_at_def)

lemma aborts_at_commit:
  "base \<in> bases \<Longrightarrow> aborts_at env bases (tx_commit env out mode s base) (tx_commit (deliver_commit env) out mode s base)"
  by (auto simp: aborts_at_def tx_commit_def deliver_commit_def split: link.splits)

lemma purchase_tx_new_aborts_at:
  "aborts_at env {s} (purchase_tx_new env i mode s) (purchase_tx_new (deliver_commit env) i mode s)"
  unfolding purchase_tx_new_def deliver_commit_simps
  by (auto intro!: aborts_at_bind aborts_at_commit)

lemma aborts_at_mono: "aborts_at env A x y \<Longrightarrow> A \<subseteq> B \<Longrightarrow> aborts_at env B x y"
  by (auto simp: aborts_at_def)

lemma purchase_tx_body_aborts_at:
  "aborts_at env {s, tx_others env s} (purchase_tx_body env i s) (purchase_tx_body (deliver_commit env) i s)"
  unfolding purchase_tx_body_def deliver_commit_simps
  by (auto intro!: aborts_at_bind aborts_at_commit aborts_at_mono [OF purchase_tx_new_aborts_at] split: option.split)

lemma purchase_tx_body_Committed:
  assumes "purchase_tx_body env i s = Committed out s'"
  obtains (replay) mode p where "readInventoryWriterMode s = Inr mode" "in_requestId i \<noteq> None"
      "findExistingPurchase s i = Some p" "assertIdempotencyReplayPayload p i = Inr ()"
      "out = replayOutcome p mode" "s' = end_tx s"
  | (fresh) mode where "readInventoryWriterMode s = Inr mode" "pg_uuid (in_eventId i) \<in> set (events s)"
      "in_requestId i \<noteq> None \<longrightarrow> findExistingPurchase s i = None"
      "purchase_tx_new env i mode (tx_others env s) = Committed out s'"
proof -
  from assms obtain mode existing where
    m: "readInventoryWriterMode s = Inr mode" and ev: "pg_uuid (in_eventId i) \<in> set (events s)"
    and ex: "if in_requestId i \<noteq> None then existing = findExistingPurchase s i else existing = None"
    and c: "(case existing of
        Some p \<Rightarrow>
          tx_bind (assertIdempotencyReplayPayload p i) (Some mode) s (\<lambda>_.
            tx_commit env (replayOutcome p mode) mode s s)
      | None \<Rightarrow> purchase_tx_new env i mode (tx_others env s)) = Committed out s'"
    unfolding purchase_tx_body_def tx_bind_Committed by (auto simp: ask_Inr split: if_splits)
  show thesis
  proof (cases existing)
    case None
    with fresh m ev ex c show ?thesis by (auto split: if_splits)
  next
    case (Some p)
    with c have "assertIdempotencyReplayPayload p i = Inr ()" "out = replayOutcome p mode" "s' = end_tx s"
      by (auto simp: tx_bind_Committed tx_commit_Committed)
    moreover have "in_requestId i \<noteq> None" "findExistingPurchase s i = Some p"
      using ex Some by (auto split: if_splits)
    ultimately show ?thesis using replay m by blast
  qed
qed

lemma find_Some_request: "findExistingPurchase s i = Some p \<Longrightarrow> p \<in> set (purchases s) \<and> request_key i p"
  by (auto simp: findExistingPurchase_def find_Some_iff)

lemma rollback_Inr:
  assumes "purchase_tx_rollback env i e mode base = Inr out"
  shows "\<exists>p m. findExistingPurchase base i = Some p \<and> assertIdempotencyReplayPayload p i = Inr ()
    \<and> out = replayOutcome p m \<and> in_requestId i \<noteq> None"
  using assms by (auto simp: purchase_tx_rollback_def ask_Inr split: if_splits sum.splits option.splits)

text \<open>Where the database can be after a call.\<close>

lemma execute_database:
  "snd (executePurchaseTransaction env i s) \<in> {s, end_tx s, tx_others env s}
   \<or> (\<exists>env' mode out. tx_others env' = tx_others env
        \<and> purchase_tx_new env' i mode (tx_others env s) = Committed out (snd (executePurchaseTransaction env i s)))"
proof -
  have com: "b \<in> {s, end_tx s, tx_others env s} \<or>
      (\<exists>env' mode out. tx_others env' = tx_others env \<and> purchase_tx_new env' i mode (tx_others env s) = Committed out b)"
    if c: "purchase_tx_body env1 i s = Committed out b" and o: "tx_others env1 = tx_others env" for env1 out b
    using c
  proof (cases rule: purchase_tx_body_Committed)
    case (fresh mode)
    then have "purchase_tx_new env1 i mode (tx_others env s) = Committed out b" using o by simp
    with o show ?thesis by blast
  qed simp
  show ?thesis
  proof (cases "tx_net env Q_CONNECT = Delivered")
    case True
    show ?thesis
    proof (cases "purchase_tx_body env i s")
      case (Committed out s')
      with True com [OF Committed refl] show ?thesis by (simp add: executePurchaseTransaction_def ask_def)
    next
      case (Aborted e m b)
      from purchase_tx_body_aborts_at [of env s i, unfolded aborts_at_def, rule_format, OF Aborted]
      have "b \<in> {s, end_tx s, tx_others env s} \<or>
        (\<exists>env' mode out. tx_others env' = tx_others env \<and> purchase_tx_new env' i mode (tx_others env s) = Committed out b)"
        using com [of "deliver_commit env"] by auto
      with True Aborted show ?thesis by (simp add: executePurchaseTransaction_def ask_def)
    qed
  qed (simp add: executePurchaseTransaction_def ask_def)
qed


section \<open>Histories of the database\<close>

lemma execute_advances:
  assumes "pg_inv s" "0 < in_quantity i" "\<And>u. pg_inv u \<Longrightarrow> advances u (tx_others env u)"
  shows "advances s (snd (executePurchaseTransaction env i s))"
proof -
  have o: "advances s (tx_others env s)" using assms by blast
  from execute_database [of env i s] show ?thesis
  proof (elim disjE exE conjE)
    assume "snd (executePurchaseTransaction env i s) \<in> {s, end_tx s, tx_others env s}"
    then show ?thesis using o advances_refl [OF assms(1)] by auto
  next
    fix env' mode out
    assume "purchase_tx_new env' i mode (tx_others env s) = Committed out (snd (executePurchaseTransaction env i s))"
    from purchase_tx_new_advances [OF advances_rest(1) [OF o] assms(2) this] o show ?thesis
      by (rule advances_trans [rotated])
  qed
qed

text \<open>
  What other requests can do while one runs: any number of purchases one after the other, each of
  them again with others in between, and each with its own network failures.
\<close>

inductive purchases_run :: "(pg \<Rightarrow> pg) \<Rightarrow> bool" where
  idle: "purchases_run (\<lambda>s. s)"
| buy: "purchases_run f \<Longrightarrow> purchases_run (tx_others env) \<Longrightarrow> 0 < in_quantity i
    \<Longrightarrow> purchases_run (\<lambda>s. snd (executePurchaseTransaction env i (f s)))"

lemma purchases_run_advances: "purchases_run f \<Longrightarrow> pg_inv s \<Longrightarrow> advances s (f s)"
proof (induction f arbitrary: s rule: purchases_run.induct)
  case idle
  then show ?case by (simp add: advances_refl)
next
  case (buy f env i)
  have f: "advances s (f s)" using buy by simp
  have "advances (f s) (snd (executePurchaseTransaction env i (f s)))"
    using execute_advances [OF advances_rest(1) [OF f] buy.hyps(3)] buy.IH(2) by blast
  with f show ?case by (rule advances_trans)
qed

text \<open>The operations of the database: a purchase, and the operator's switch of the writer mode.\<close>

datatype db_op = Purchase tx_env ParsedPurchaseInput | SwitchWriter InventoryWriterMode

fun db_perform :: "db_op \<Rightarrow> pg \<Rightarrow> pg" where
  "db_perform (Purchase env i) s = snd (executePurchaseTransaction env i s)"
| "db_perform (SwitchWriter m) s = (case updateInventoryWriterMode m s of Inl e \<Rightarrow> s | Inr s' \<Rightarrow> s')"

fun db_admissible :: "db_op \<Rightarrow> bool" where
  "db_admissible (Purchase env i) = (purchases_run (tx_others env) \<and> 0 < in_quantity i)"
| "db_admissible (SwitchWriter m) = True"

lemma switch_Inr:
  "updateInventoryWriterMode m s = Inr s' \<Longrightarrow>
     s' = s\<lparr>writer_control := Some (mode_text m)\<rparr> \<and> writer_control s \<noteq> None"
  by (auto simp: updateInventoryWriterMode_def split: option.splits)

lemma switch_inv: "pg_inv s \<Longrightarrow> updateInventoryWriterMode m s = Inr s' \<Longrightarrow> pg_inv s'"
  by (cases m) (auto simp: pg_inv_def pg_wf_def aggregates_match_def aggregate_total_def aggregate_remaining_def
      stock_conserved_def sold_quantity_def requests_unique_def purchases_linked_def mode_text_def dest!: switch_Inr)

lemma db_perform_facts:
  assumes "db_admissible op" "pg_inv s"
  shows "pg_inv (db_perform op s)"
    and "\<exists>ps. purchases (db_perform op s) = purchases s @ ps" "events (db_perform op s) = events s"
    and "type_version t s \<le> type_version t (db_perform op s)"
    and "type_version t (db_perform op s) = type_version t s \<Longrightarrow> type_row_of t (db_perform op s) = type_row_of t s"
    and "event_version e s \<le> event_version e (db_perform op s)"
    and "event_version e (db_perform op s) = event_version e s \<Longrightarrow> event_row_of e (db_perform op s) = event_row_of e s"
proof -
  have "pg_inv (db_perform op s) \<and> (\<exists>ps. purchases (db_perform op s) = purchases s @ ps)
    \<and> events (db_perform op s) = events s
    \<and> (\<forall>t. type_version t s \<le> type_version t (db_perform op s)
       \<and> (type_version t (db_perform op s) = type_version t s \<longrightarrow> type_row_of t (db_perform op s) = type_row_of t s))
    \<and> (\<forall>e. event_version e s \<le> event_version e (db_perform op s)
       \<and> (event_version e (db_perform op s) = event_version e s \<longrightarrow> event_row_of e (db_perform op s) = event_row_of e s))"
  proof (cases op)
    case (Purchase env i)
    then have "advances s (db_perform op s)"
      using execute_advances [OF assms(2)] purchases_run_advances assms(1) by auto
    from advances_rest [OF this] advances_rows [OF this] show ?thesis by blast
  next
    case (SwitchWriter m)
    show ?thesis
    proof (cases "updateInventoryWriterMode m s")
      case (Inr s')
      from switch_Inr [OF Inr] switch_inv [OF assms(2) Inr] Inr SwitchWriter show ?thesis
        by (auto simp: version_defs)
    qed (simp add: SwitchWriter assms)
  qed
  then show "pg_inv (db_perform op s)" "\<exists>ps. purchases (db_perform op s) = purchases s @ ps"
    "events (db_perform op s) = events s" "type_version t s \<le> type_version t (db_perform op s)"
    "type_version t (db_perform op s) = type_version t s \<Longrightarrow> type_row_of t (db_perform op s) = type_row_of t s"
    "event_version e s \<le> event_version e (db_perform op s)"
    "event_version e (db_perform op s) = event_version e s \<Longrightarrow> event_row_of e (db_perform op s) = event_row_of e s"
    by blast+
qed

interpretation type_cells: versioned_cells "\<lambda>_. True" db_admissible pg_inv type_version type_row_of db_perform
  by unfold_locales (blast intro: db_perform_facts)+

interpretation event_cells: versioned_cells "\<lambda>_. True" db_admissible pg_inv event_version event_row_of db_perform
  by unfold_locales (blast intro: db_perform_facts)+

lemma run_keeps_purchases:
  "list_all db_admissible ops \<Longrightarrow> pg_inv s \<Longrightarrow>
     (\<exists>ps. purchases (fold db_perform ops s) = purchases s @ ps) \<and> events (fold db_perform ops s) = events s"
proof (induction ops arbitrary: s)
  case Nil
  then show ?case by simp
next
  case (Cons op ops)
  then have "db_admissible op" "list_all db_admissible ops" "pg_inv (db_perform op s)"
    by (simp_all add: db_perform_facts)
  with Cons.IH [of "db_perform op s"] db_perform_facts(2,3) [of op s] Cons.prems(2) show ?case by force
qed

section \<open>A sample database\<close>

text \<open>One Event with two Types of 5 and 3 tickets; \<open>sample_single\<close> keeps the first Type only.\<close>

definition sample_pg :: pg where
  "sample_pg = \<lparr>events = [''a''],
     ticket_types = [\<lparr>type_id = ''b'', type_event = ''a'', type_name = ''S'', is_default = True\<rparr>,
                     \<lparr>type_id = ''c'', type_event = ''a'', type_name = ''A'', is_default = False\<rparr>],
     ticket_inventory = [\<lparr>ti_event = ''a'', ti_total = 8, ti_remaining = 8, ti_version = 1\<rparr>],
     ticket_type_inventory = [\<lparr>tti_type = ''b'', tti_event = ''a'', tti_total = 5, tti_remaining = 5, tti_version = 0\<rparr>,
                              \<lparr>tti_type = ''c'', tti_event = ''a'', tti_total = 3, tti_remaining = 3, tti_version = 0\<rparr>],
     purchases = [], writer_control = Some ''ticket_type'', mirror_origin = None\<rparr>"

definition calm_env :: "string \<Rightarrow> tx_env" where
  "calm_env pid = \<lparr>tx_net = (\<lambda>_. Delivered), tx_others = (\<lambda>s. s), new_purchase_id = pid\<rparr>"

definition sample_input :: "string \<Rightarrow> int \<Rightarrow> string option \<Rightarrow> ParsedPurchaseInput" where
  "sample_input t q rid = \<lparr>in_eventId = ''a'', in_buyerId = ''c'', in_quantity = q,
     in_requestId = rid, in_ticketTypeId = Some t\<rparr>"

lemma calm_env_run [simp]: "purchases_run (tx_others (calm_env pid))"
  by (simp add: calm_env_def idle)

lemma sample_pg_inv: "pg_inv sample_pg"
  unfolding pg_inv_def pg_wf_def aggregates_match_def stock_conserved_def
  by code_simp


section \<open>No overselling\<close>

lemma execute_Inr:
  assumes "executePurchaseTransaction env i s = (Inr out, s')"
  obtains (body) "purchase_tx_body env i s = Committed out s'"
  | (recovered) e m where "purchase_tx_body env i s = Aborted e m s'" "purchase_tx_rollback env i e m s' = Inr out"
  using assms by (auto simp: executePurchaseTransaction_def ask_def split: sum.splits tx_end.splits if_splits)

lemma replayOutcome_simps [simp]:
  "o_disposition (replayOutcome p m) = Replayed" "o_result (replayOutcome p m) = toPurchaseResult p"
  "inventoryChange (replayOutcome p m) = None" "writerModeUsed (replayOutcome p m) = m"
  "resolvedTicketTypeId (replayOutcome p m) = Some (p_type p)"
  by (simp_all add: replayOutcome_def)

lemma created_outcome_simps [simp]:
  "o_disposition (created_outcome env i t mode c active agg ch) = Created"
  "inventoryChange (created_outcome env i t mode c active agg ch) = ch"
  "writerModeUsed (created_outcome env i t mode c active agg ch) = mode"
  "resolvedTicketTypeId (created_outcome env i t mode c active agg ch) = Some t"
  "r_status (o_result (created_outcome env i t mode c active agg ch)) = (if c then Confirmed else Rejected)"
  by (simp_all add: created_outcome_def)

lemma execute_created:
  assumes "executePurchaseTransaction env i s = (Inr out, s')" "o_disposition out = Created"
  shows "\<exists>mode. readInventoryWriterMode s = Inr mode \<and> pg_uuid (in_eventId i) \<in> set (events s)
    \<and> purchase_tx_new env i mode (tx_others env s) = Committed out s'"
  using assms(1)
proof (cases rule: execute_Inr)
  case body
  then show ?thesis using assms(2) by (cases rule: purchase_tx_body_Committed) auto
next
  case (recovered e m)
  then show ?thesis using rollback_Inr [OF recovered(2)] assms(2) by auto
qed

text \<open>The same call when only the answer of COMMIT is lost: it throws, and the row is there.\<close>

definition loses_commit :: "tx_end \<Rightarrow> tx_end \<Rightarrow> bool" where
  "loses_commit x y \<longleftrightarrow> (\<forall>out b. x = Committed out b \<longrightarrow> (\<exists>m. y = Aborted connection_lost m b))"

lemma loses_commit_bind:
  assumes "\<And>x. r = Inr x \<Longrightarrow> loses_commit (k x) (k' x)"
  shows "loses_commit (tx_bind r m base k) (tx_bind r m base k')"
  using assms by (cases r) (auto simp: loses_commit_def)

lemma loses_commit_commit:
  "tx_net env Q_COMMIT = LostReply \<Longrightarrow> loses_commit (tx_commit (deliver_commit env) out mode s base) (tx_commit env out mode s base)"
  by (simp add: loses_commit_def tx_commit_def deliver_commit_def)

lemma purchase_tx_new_loses_commit:
  "tx_net env Q_COMMIT = LostReply \<Longrightarrow> loses_commit (purchase_tx_new (deliver_commit env) i mode s) (purchase_tx_new env i mode s)"
  unfolding purchase_tx_new_def deliver_commit_simps
  by (auto intro!: loses_commit_bind loses_commit_commit)

lemma purchase_tx_body_loses_commit:
  assumes "tx_net env Q_COMMIT = LostReply"
  shows "loses_commit (purchase_tx_body (deliver_commit env) i s) (purchase_tx_body env i s)"
  unfolding purchase_tx_body_def deliver_commit_simps
  using assms by (auto intro!: loses_commit_bind loses_commit_commit purchase_tx_new_loses_commit split: option.split)

lemma rollback_connection_lost: "purchase_tx_rollback env i connection_lost m s = Inl connection_lost"
  by (simp add: purchase_tx_rollback_def isConstraintViolation_def connection_lost_def)

lemma execute_lost_commit:
  assumes "tx_net env Q_COMMIT = LostReply"
    and "executePurchaseTransaction (deliver_commit env) i s = (Inr out, s')" "o_disposition out = Created"
  shows "executePurchaseTransaction env i s = (Inl connection_lost, s')"
  using assms(2)
proof (cases rule: execute_Inr)
  case body
  then obtain m where b: "purchase_tx_body env i s = Aborted connection_lost m s'"
    using purchase_tx_body_loses_commit [OF assms(1), of i s] unfolding loses_commit_def by blast
  have "ask env Q_CONNECT (Inr ()) = Inr ()"
    using assms(2) by (simp add: executePurchaseTransaction_def ask_def split: if_splits)
  with b show ?thesis by (simp add: executePurchaseTransaction_def rollback_connection_lost)
next
  case (recovered e m)
  then show ?thesis using rollback_Inr [OF recovered(2)] assms(3) by auto
qed

text \<open>C1: whatever sequence of purchases (with other purchases committing in the middle of each
  of them, statements lost, COMMIT answers lost) and writer switches runs, no Ticket Type is
  oversold: what was confirmed and what remains add up to its total, and the Event row is the sum
  of the Event's Types.\<close>

theorem no_oversell:
  assumes "pg_inv s" "list_all db_admissible ops"
    and "r \<in> set (ticket_type_inventory (fold db_perform ops s))"
    and "a \<in> set (ticket_inventory (fold db_perform ops s))"
  shows "0 \<le> tti_remaining r
    \<and> sold_quantity (tti_type r) (fold db_perform ops s) + tti_remaining r = tti_total r
    \<and> ti_remaining a = aggregate_remaining (ti_event a) (fold db_perform ops s)
    \<and> ti_total a = aggregate_total (ti_event a) (fold db_perform ops s)"
proof -
  have "pg_inv (fold db_perform ops s)" by (rule type_cells.run_valid [OF assms(2,1)])
  with assms(3,4) show ?thesis
    unfolding pg_inv_def pg_wf_def stock_conserved_def aggregates_match_def check_quantities_def by (metis add.commute)
qed

definition sample_ops :: "db_op list" where
  "sample_ops = [Purchase (calm_env ''a'') (sample_input ''b'' 4 None),
     Purchase (calm_env ''b'') (sample_input ''b'' 2 None),
     Purchase ((calm_env ''c'')\<lparr>tx_net := (\<lambda>_. Delivered)(Q_COMMIT := LostReply),
        tx_others := (\<lambda>s. snd (executePurchaseTransaction (calm_env ''a'') (sample_input ''c'' 1 None) s))\<rparr>)
       (sample_input ''c'' 2 (Some ''r1''))]"

lemma sample_ops_admissible: "list_all db_admissible sample_ops"
proof -
  have "purchases_run (\<lambda>s. snd (executePurchaseTransaction (calm_env ''a'') (sample_input ''c'' 1 None) s))"
    using buy [OF idle calm_env_run, of "sample_input ''c'' 1 None" "''a''"] by (simp add: sample_input_def)
  then show ?thesis by (simp add: sample_ops_def) (simp add: sample_input_def)
qed

theorem no_oversell_witness:
  "sold_quantity ''b'' (fold db_perform sample_ops sample_pg) = 4
   \<and> sold_quantity ''c'' (fold db_perform sample_ops sample_pg) = 3
   \<and> list_all (\<lambda>r. 0 \<le> tti_remaining r) (ticket_type_inventory (fold db_perform sample_ops sample_pg))"
proof -
  have "ticket_inventory (fold db_perform sample_ops sample_pg) \<noteq> []" by code_simp
  from no_oversell [OF sample_pg_inv sample_ops_admissible _ hd_in_set [OF this]]
  have "\<forall>r \<in> set (ticket_type_inventory (fold db_perform sample_ops sample_pg)). 0 \<le> tti_remaining r"
    by blast
  moreover have "sold_quantity ''b'' (fold db_perform sample_ops sample_pg) = 4"
    "sold_quantity ''c'' (fold db_perform sample_ops sample_pg) = 3"
    by code_simp+
  ultimately show ?thesis by (simp add: list_all_iff)
qed

section \<open>Refinement of the abstract shop\<close>

text \<open>
  The contract of a purchase: a stock per Ticket Type and a ledger. \<open>buy_tickets\<close> confirms exactly when
  enough is available, and takes that much; otherwise it only records the refusal.
\<close>

record ledger_entry =
  l_event :: string
  l_type :: string
  l_buyer :: string
  l_request :: "string option"
  l_quantity :: int
  l_status :: PurchaseStatus

record shop =
  available :: "string \<Rightarrow> int"
  ledger :: "ledger_entry list"

definition entry_of :: "purchase_row \<Rightarrow> ledger_entry" where
  "entry_of p = \<lparr>l_event = p_event p, l_type = p_type p, l_buyer = p_buyer p, l_request = p_request p,
     l_quantity = p_quantity p, l_status = p_status p\<rparr>"

definition shop_of :: "pg \<Rightarrow> shop" where
  "shop_of s = \<lparr>available = (\<lambda>t. case type_row_of t s of None \<Rightarrow> 0 | Some r \<Rightarrow> tti_remaining r),
     ledger = map entry_of (purchases s)\<rparr>"

definition buy_tickets ::
    "string \<Rightarrow> string \<Rightarrow> string \<Rightarrow> string option \<Rightarrow> int \<Rightarrow> shop \<Rightarrow> PurchaseStatus \<times> shop" where
  "buy_tickets e t b rid q sh =
     (let status = (if q \<le> available sh t then Confirmed else Rejected)
      in (status, sh\<lparr>available := (if status = Confirmed then (available sh)(t := available sh t - q)
                                 else available sh),
            ledger := ledger sh @ [\<lparr>l_event = e, l_type = t, l_buyer = b, l_request = rid,
              l_quantity = q, l_status = status\<rparr>]\<rparr>))"

lemma sale_refines:
  assumes wf: "pg_wf s" and pu: "pair_update e t q x0 a' x1 s s1"
  shows "q \<le> available (shop_of s) t \<and> available (shop_of s1) = (available (shop_of s))(t := available (shop_of s) t - q)"
proof -
  have x: "x0 \<in> set (ticket_type_inventory s)" "tti_type x0 = t" "tti_type x1 = t"
    "tti_remaining x1 = tti_remaining x0 - q" "0 \<le> tti_remaining x1"
    "ticket_type_inventory s1 = put_row tti_type x1 (ticket_type_inventory s)"
    using pu unfolding pair_update_def check_quantities_def by blast+
  have "row_by tti_type t (ticket_type_inventory s) = Some x0"
    using row_by_unique [of tti_type "ticket_type_inventory s" x0] wf x by (simp add: pg_wf_def)
  with x show ?thesis by (auto simp: shop_of_def type_row_of_def fun_eq_iff)
qed

lemma refusal_refines:
  assumes inv: "pg_inv s" and q: "0 < in_quantity i" and t: "resolveTicketType s i mode = Inr t"
    and u: "updateActiveInventory i t mode s = Inr (None, s1)"
    and r: "readActiveInventory s (in_eventId i) t mode = Some active"
  shows "available (shop_of s) t < in_quantity i"
proof (cases mode)
  case Legacy
  have wf: "pg_wf s" using inv by (simp add: pg_inv_def)
  obtain a where a: "row_by ti_event (pg_uuid (in_eventId i)) (ticket_inventory s) = Some a"
    using r Legacy by (auto simp: readActiveInventory_def)
  have "ti_remaining a < in_quantity i"
    using u Legacy a by (auto simp: updateActiveInventory_def split: sum.splits if_splits dest!: fence_dest)
  moreover have "ti_remaining a = aggregate_remaining (pg_uuid (in_eventId i)) s"
    using inv row_by_Some [OF a] by (auto simp: pg_inv_def aggregates_match_def)
  moreover have "available (shop_of s) t \<le> aggregate_remaining (pg_uuid (in_eventId i)) s \<or> available (shop_of s) t = 0"
  proof (cases "row_by tti_type t (ticket_type_inventory s)")
    case (Some x)
    from row_by_Some [OF Some] wf obtain ty where
      ty: "ty \<in> set (ticket_types s)" "type_id ty = t" "type_event ty = tti_event x" unfolding pg_wf_def by metis
    obtain ty' where "ty' \<in> set (ticket_types s)" "type_id ty' = t" "type_event ty' = pg_uuid (in_eventId i)"
      using resolve_type_listed [OF t] by blast
    with ty wf have "tti_event x = pg_uuid (in_eventId i)"
      unfolding pg_wf_def by (metis distinct_map inj_on_eq_iff)
    with aggregate_sole(1) [OF wf resolve_legacy_sole] t Legacy Some show ?thesis
      by (simp add: shop_of_def type_row_of_def)
  qed (simp add: shop_of_def type_row_of_def)
  ultimately show ?thesis using q by auto
next
  case TicketTypeMode
  with u r show ?thesis
    by (auto simp: updateActiveInventory_def readActiveInventory_def shop_of_def type_row_of_def
        split: sum.splits option.splits if_splits dest!: fence_dest)
qed


text \<open>C2: a purchase that creates a row refines the abstract shop, whichever writer mode is
  active: the answer and the new stock and ledger are those of \<open>buy_tickets\<close> on the database the
  transaction found (after whatever other purchases committed before its first write).\<close>

theorem purchase_refines_shop:
  assumes "pg_inv s" "0 < in_quantity i" "purchases_run (tx_others env)"
    and "executePurchaseTransaction env i s = (Inr out, s')" "o_disposition out = Created"
  shows "resolvedTicketTypeId out \<noteq> None
    \<and> buy_tickets (pg_uuid (in_eventId i)) (the (resolvedTicketTypeId out)) (pg_uuid (in_buyerId i))
        (in_requestId i) (in_quantity i) (shop_of (tx_others env s)) = (r_status (o_result out), shop_of s')"
proof -
  have inv: "pg_inv (tx_others env s)"
    using advances_rest(1) [OF purchases_run_advances [OF assms(3,1)]] .
  obtain mode where c: "purchase_tx_new env i mode (tx_others env s) = Committed out s'"
    using execute_created [OF assms(4,5)] by blast
  from inv assms(2) c show ?thesis
  proof (cases rule: purchase_tx_new_sale_or_refusal)
    case (sale t x0 a' x1 s1 s2 ch)
    have wf: "pg_wf (tx_others env s)" using inv by (simp add: pg_inv_def)
    note ins = insertPurchase_Inr [OF sale(5)] and same = pair_update_same [OF sale(3), unfolded same_catalog_def]
    have "available (shop_of s') = available (shop_of s1)"
      using ins sale(2) by (simp add: shop_of_def end_tx_def type_row_of_def fun_eq_iff)
    with sale_refines [OF wf sale(3)] ins same sale(2) show ?thesis
      by (auto simp: sale(6) created_outcome_def buy_tickets_def Let_def shop_of_def end_tx_def entry_of_def)
  next
    case (refusal t active agg s2)
    note ins = insertPurchase_Inr [OF refusal(5)]
    have "available (shop_of s') = available (shop_of (tx_others env s))"
      using ins refusal(2) by (simp add: shop_of_def end_tx_def type_row_of_def fun_eq_iff)
    with refusal_refines [OF inv assms(2) refusal(1,3,4)] ins refusal(2) show ?thesis
      by (auto simp: refusal(6) created_outcome_def buy_tickets_def Let_def shop_of_def end_tx_def entry_of_def)
  qed
qed


text \<open>The sample call: 4 of the 5 tickets of the first Type, with a request id, while another
  purchase of the second Type commits in the middle.\<close>

definition sample_env :: tx_env where
  "sample_env = (calm_env ''b'')\<lparr>tx_others :=
     (\<lambda>s. snd (executePurchaseTransaction (calm_env ''a'') (sample_input ''c'' 1 None) s))\<rparr>"

definition sample_call :: "PurchaseTransactionOutcome result \<times> pg" where
  "sample_call = executePurchaseTransaction sample_env (sample_input ''b'' 4 (Some ''r1'')) sample_pg"

definition sample_outcome :: PurchaseTransactionOutcome where
  "sample_outcome = projr (fst sample_call)"

lemma sample_env_run: "purchases_run (tx_others sample_env)"
  using buy [OF idle calm_env_run, of "sample_input ''c'' 1 None" "''a''"]
  by (simp add: sample_env_def sample_input_def)

lemma sample_call_ok: "sample_call = (Inr sample_outcome, snd sample_call)" "o_disposition sample_outcome = Created"
proof -
  have "is_ok (fst sample_call)" by code_simp
  then show "sample_call = (Inr sample_outcome, snd sample_call)"
    by (auto simp: sample_outcome_def is_ok_iff prod_eq_iff)
  show "o_disposition sample_outcome = Created" by code_simp
qed

theorem purchase_refines_shop_witness:
  "buy_tickets (pg_uuid ''a'') (the (resolvedTicketTypeId sample_outcome)) (pg_uuid ''c'') (Some ''r1'') 4
     (shop_of (tx_others sample_env sample_pg)) = (Confirmed, shop_of (snd sample_call))"
proof -
  have "0 < in_quantity (sample_input ''b'' 4 (Some ''r1''))" by (simp add: sample_input_def)
  from purchase_refines_shop [OF sample_pg_inv this sample_env_run
      sample_call_ok(1) [unfolded sample_call_def [of]] sample_call_ok(2)]
  have "buy_tickets (pg_uuid ''a'') (the (resolvedTicketTypeId sample_outcome)) (pg_uuid ''c'') (Some ''r1'') 4
     (shop_of (tx_others sample_env sample_pg)) = (r_status (o_result sample_outcome), shop_of (snd sample_call))"
    by (simp add: sample_input_def sample_call_def)
  moreover have "r_status (o_result sample_outcome) = Confirmed" by code_simp
  ultimately show ?thesis by simp
qed

section \<open>Idempotency\<close>

lemma request_key_clash: "request_key i p \<Longrightarrow> request_key i q \<Longrightarrow> same_request p q"
  unfolding request_key_def same_request_def by metis

lemma requests_unique_find:
  assumes "requests_unique s" "p \<in> set (purchases s)" "request_key i p"
  shows "findExistingPurchase s i = Some p"
proof -
  have "sorted_wrt (\<lambda>p q. \<not> same_request p q) ps \<Longrightarrow> p \<in> set ps \<Longrightarrow> find (request_key i) ps = Some p" for ps
    by (induction ps) (auto simp: assms(3) dest: request_key_clash [OF assms(3)] request_key_clash [OF _ assms(3)] same_request_sym)
  with assms(1,2) show ?thesis by (simp add: findExistingPurchase_def requests_unique_def)
qed

lemma requests_unique_one:
  assumes "requests_unique s"
  shows "length (filter (request_key i) (purchases s)) \<le> 1"
proof -
  have "sorted_wrt (\<lambda>p q. \<not> same_request p q) ps \<Longrightarrow> length (filter (request_key i) ps) \<le> 1" for ps
  proof (induction ps)
    case (Cons p ps)
    then show ?case by (auto simp: filter_empty_conv dest: request_key_clash)
  qed simp
  with assms show ?thesis by (simp add: requests_unique_def)
qed

text \<open>The row a creating call leaves, and what later transactions find.\<close>

lemma created_row:
  assumes "pg_inv s" "0 < in_quantity i" "purchases_run (tx_others env)"
    and "executePurchaseTransaction env i s = (Inr out, s')" "o_disposition out = Created"
  shows "\<exists>p. purchases s' = purchases (tx_others env s) @ [p] \<and> pg_inv s' \<and> events s' = events s
    \<and> pg_uuid (in_eventId i) \<in> set (events s)
    \<and> p_buyer p = pg_uuid (in_buyerId i) \<and> p_event p = pg_uuid (in_eventId i) \<and> p_request p = in_requestId i
    \<and> p_quantity p = in_quantity i \<and> resolvedTicketTypeId out = Some (p_type p)
    \<and> (in_ticketTypeId i = None \<or> map_option pg_uuid (in_ticketTypeId i) = Some (p_type p)
         \<or> in_ticketTypeId i = Some (p_type p))
    \<and> \<not> list_ex (same_request p) (purchases (tx_others env s))
    \<and> o_result out = (toPurchaseResult p)\<lparr>r_eventId := in_eventId i, r_buyerId := in_buyerId i\<rparr>"
proof -
  have adv: "advances s (tx_others env s)" using purchases_run_advances assms(3,1) .
  have inv: "pg_inv (tx_others env s)" using advances_rest(1) [OF adv] .
  obtain mode where c: "purchase_tx_new env i mode (tx_others env s) = Committed out s'"
    and ev: "pg_uuid (in_eventId i) \<in> set (events s)"
    using execute_created [OF assms(4,5)] by blast
  have adv': "advances s s'" using advances_trans [OF adv purchase_tx_new_advances [OF inv assms(2) c]] .
  from inv assms(2) c show ?thesis
  proof (cases rule: purchase_tx_new_sale_or_refusal)
    case (sale t x0 a' x1 s1 s2 ch)
    note ins = insertPurchase_Inr [OF sale(5)] and same = pair_update_same [OF sale(3), unfolded same_catalog_def]
    show ?thesis
      using ins same sale(2) ev advances_rest(1,4) [OF adv'] resolve_selected [OF sale(1)]
      by (intro exI [of _ "new_purchase_row env i t True (Some (ti_remaining a'))"])
        (auto simp: sale(6) created_outcome_def toPurchaseResult_def end_tx_def)
  next
    case (refusal t active agg s2)
    note ins = insertPurchase_Inr [OF refusal(5)]
    show ?thesis
      using ins refusal(2) ev advances_rest(1,4) [OF adv'] resolve_selected [OF refusal(1)]
      by (intro exI [of _ "new_purchase_row env i t False None"])
        (auto simp: refusal(6) created_outcome_def toPurchaseResult_def end_tx_def)
  qed
qed


text \<open>The row that the first call left is what every later call with the same key meets, however its ids are spelled.\<close>

lemma later_call_finds:
  assumes "pg_inv s" "0 < in_quantity i" "purchases_run (tx_others env)"
    and "executePurchaseTransaction env i s = (Inr out, s')" "o_disposition out = Created"
    and "in_requestId i \<noteq> None" "list_all db_admissible ops"
    and "pg_uuid (in_eventId j) = pg_uuid (in_eventId i)" "pg_uuid (in_buyerId j) = pg_uuid (in_buyerId i)"
      "in_requestId j = in_requestId i"
  shows "\<exists>p mode. resolvedTicketTypeId out = Some (p_type p) \<and> p_quantity p = in_quantity i
    \<and> (in_ticketTypeId i = None \<or> map_option pg_uuid (in_ticketTypeId i) = Some (p_type p)
         \<or> in_ticketTypeId i = Some (p_type p))
    \<and> o_result out = (toPurchaseResult p)\<lparr>r_eventId := in_eventId i, r_buyerId := in_buyerId i\<rparr>
    \<and> p_event p = pg_uuid (in_eventId i) \<and> p_buyer p = pg_uuid (in_buyerId i)
    \<and> readInventoryWriterMode (fold db_perform ops s') = Inr mode
    \<and> pg_uuid (in_eventId j) \<in> set (events (fold db_perform ops s'))
    \<and> findExistingPurchase (fold db_perform ops s') j = Some p"
proof -
  let ?s = "fold db_perform ops s'"
  obtain p where p: "purchases s' = purchases (tx_others env s) @ [p]" "pg_inv s'" "events s' = events s"
    "pg_uuid (in_eventId i) \<in> set (events s)" "p_buyer p = pg_uuid (in_buyerId i)"
    "p_event p = pg_uuid (in_eventId i)" "p_request p = in_requestId i" "p_quantity p = in_quantity i"
    "resolvedTicketTypeId out = Some (p_type p)"
    "in_ticketTypeId i = None \<or> map_option pg_uuid (in_ticketTypeId i) = Some (p_type p) \<or> in_ticketTypeId i = Some (p_type p)"
    "o_result out = (toPurchaseResult p)\<lparr>r_eventId := in_eventId i, r_buyerId := in_buyerId i\<rparr>"
    using created_row [OF assms(1-5)] by blast
  have inv: "pg_inv ?s" by (rule type_cells.run_valid [OF assms(7) p(2)])
  have "p \<in> set (purchases ?s)" "events ?s = events s"
    using run_keeps_purchases [OF assms(7) p(2)] p(1,3) by auto
  moreover have key: "request_key j p" using assms(6,8-10) p by (auto simp: request_key_def)
  ultimately have "findExistingPurchase ?s j = Some p" "pg_uuid (in_eventId j) \<in> set (events ?s)"
    using requests_unique_find inv p(4) assms(8) by (auto simp: pg_inv_def)
  moreover obtain mode where "readInventoryWriterMode ?s = Inr mode"
    using inv by (auto simp: pg_inv_def pg_wf_def readInventoryWriterMode_def)
  ultimately show ?thesis using p by blast
qed

text \<open>What a call does that finds its row: each statement may be lost on the way.\<close>

lemma connection_lost_no_violation [simp]: "\<not> isConstraintViolation connection_lost c"
  by (simp add: isConstraintViolation_def connection_lost_def)

lemma replaying_call:
  assumes "readInventoryWriterMode s = Inr mode" "pg_uuid (in_eventId j) \<in> set (events s)"
    and "findExistingPurchase s j = Some p" "in_requestId j \<noteq> None"
    and "executePurchaseTransaction env j s = (r, s'')"
  shows "s'' \<in> {s, end_tx s} \<and>
    (r = Inl connection_lost \<and> (\<exists>q. tx_net env q \<noteq> Delivered)
     \<or> r = map_sum id (\<lambda>_. replayOutcome p mode) (assertIdempotencyReplayPayload p j))"
proof -
  have conflict: "assertIdempotencyReplayPayload p j = Inl e \<Longrightarrow> \<not> isConstraintViolation e c" for e c
    by (auto simp: assertIdempotencyReplayPayload_def isConstraintViolation_def split: if_splits)
  show ?thesis
  proof (cases "tx_net env Q_CONNECT = Delivered")
    case False
    with assms(5) show ?thesis by (auto simp: executePurchaseTransaction_def ask_def)
  next
    case True
    define lost where "lost = (\<exists>q. tx_net env q \<noteq> Delivered)"
    have "case purchase_tx_body env j s of
        Committed out base \<Rightarrow> base = end_tx s \<and> assertIdempotencyReplayPayload p j = Inr () \<and> out = replayOutcome p mode
      | Aborted e m base \<Rightarrow> base \<in> {s, end_tx s} \<and> (e = connection_lost \<and> lost \<or> assertIdempotencyReplayPayload p j = Inl e)"
      using assms(1-4)
      by (auto simp: purchase_tx_body_def ask_def tx_commit_def lost_def tx_bind_def split: link.split sum.splits)
        (metis link.distinct)+
    then show ?thesis
      using assms(5) True conflict
      by (auto simp: executePurchaseTransaction_def ask_def purchase_tx_rollback_def lost_def split: tx_end.splits)
  qed
qed

text \<open>C4: repeating a request is idempotent, after any further history (other purchases, writer switches), whatever
  statement of the repeated call is lost, and however its ids are spelled: the call changes no table, and it ends in one
  of three ways. It answers with the first result, naming the Event and the buyer as PostgreSQL spells them, and with no
  inventory change to publish; it is answered 409, exactly when it asks for another quantity or for a Ticket Type
  that is spelled otherwise than the stored one (an upper-case spelling of the same Type included, because
  that comparison is between strings); or it fails with the connection, when some statement was not
  delivered.\<close>

theorem replay_returns_first_result:
  assumes "pg_inv s" "0 < in_quantity i" "purchases_run (tx_others env)"
    and "executePurchaseTransaction env i s = (Inr out, s')" "o_disposition out = Created"
    and "in_requestId i \<noteq> None" "list_all db_admissible ops"
    and "pg_uuid (in_eventId j) = pg_uuid (in_eventId i)" "pg_uuid (in_buyerId j) = pg_uuid (in_buyerId i)"
      "in_requestId j = in_requestId i"
    and "executePurchaseTransaction env' j (fold db_perform ops s') = (r, s'')"
  shows "s'' \<in> {fold db_perform ops s', end_tx (fold db_perform ops s')} \<and>
    (case r of
       Inr again \<Rightarrow> in_quantity j = in_quantity i \<and> in_ticketTypeId j \<in> {None, resolvedTicketTypeId out}
         \<and> o_disposition again = Replayed \<and> inventoryChange again = None
         \<and> resolvedTicketTypeId again = resolvedTicketTypeId out
         \<and> o_result again = (o_result out)\<lparr>r_eventId := pg_uuid (in_eventId i), r_buyerId := pg_uuid (in_buyerId i)\<rparr>
     | Inl e \<Rightarrow>
         e = connection_lost \<and> (\<exists>q. tx_net env' q \<noteq> Delivered)
       \<or> e = ConflictException ''requestId was already used with a different purchase payload''
         \<and> (in_quantity j \<noteq> in_quantity i \<or> in_ticketTypeId j \<notin> {None, resolvedTicketTypeId out}))"
proof -
  let ?s = "fold db_perform ops s'"
  obtain p mode where p: "resolvedTicketTypeId out = Some (p_type p)" "p_quantity p = in_quantity i"
    "o_result out = (toPurchaseResult p)\<lparr>r_eventId := in_eventId i, r_buyerId := in_buyerId i\<rparr>"
    "p_event p = pg_uuid (in_eventId i)" "p_buyer p = pg_uuid (in_buyerId i)"
    and found: "readInventoryWriterMode ?s = Inr mode" "pg_uuid (in_eventId j) \<in> set (events ?s)"
      "findExistingPurchase ?s j = Some p"
    using later_call_finds [OF assms(1-10)] by blast
  have rid: "in_requestId j \<noteq> None" using assms(6,10) by simp
  note call = replaying_call [OF found rid assms(11)]
  show ?thesis
  proof (intro conjI)
    show "s'' \<in> {?s, end_tx ?s}" using call by blast
  next
    show "case r of
       Inr again \<Rightarrow> in_quantity j = in_quantity i \<and> in_ticketTypeId j \<in> {None, resolvedTicketTypeId out}
         \<and> o_disposition again = Replayed \<and> inventoryChange again = None
         \<and> resolvedTicketTypeId again = resolvedTicketTypeId out
         \<and> o_result again = (o_result out)\<lparr>r_eventId := pg_uuid (in_eventId i), r_buyerId := pg_uuid (in_buyerId i)\<rparr>
     | Inl e \<Rightarrow>
         e = connection_lost \<and> (\<exists>q. tx_net env' q \<noteq> Delivered)
       \<or> e = ConflictException ''requestId was already used with a different purchase payload''
         \<and> (in_quantity j \<noteq> in_quantity i \<or> in_ticketTypeId j \<notin> {None, resolvedTicketTypeId out})"
      using conjunct2 [OF call] p
      by (auto simp: assertIdempotencyReplayPayload_def replayOutcome_def toPurchaseResult_def split: if_splits sum.splits)
  qed
qed

lemma sample_input_simps [simp]:
  "in_eventId (sample_input t q rid) = ''a''" "in_buyerId (sample_input t q rid) = ''c''"
  "in_quantity (sample_input t q rid) = q" "in_requestId (sample_input t q rid) = rid"
  "in_ticketTypeId (sample_input t q rid) = Some t"
  by (simp_all add: sample_input_def)

lemma sample_ids_lower [simp]: "pg_uuid ''a'' = ''a''" "pg_uuid ''b'' = ''b''" "pg_uuid ''c'' = ''c''"
  by code_simp+

lemma sample_executed:
  "executePurchaseTransaction sample_env (sample_input ''b'' 4 (Some ''r1'')) sample_pg
     = (Inr sample_outcome, snd sample_call)"
  using sample_call_ok(1) by (simp add: sample_call_def)

definition sample_later :: "db_op list" where
  "sample_later = [Purchase (calm_env ''c'') (sample_input ''c'' 1 None), SwitchWriter Legacy]"

lemma sample_later_admissible: "list_all db_admissible sample_later"
  by (simp add: sample_later_def)

lemma calm_env_net: "tx_net (calm_env pid) = (\<lambda>_. Delivered)"
  by (simp add: calm_env_def)

definition sample_again :: "PurchaseTransactionOutcome result \<times> pg" where
  "sample_again = executePurchaseTransaction (calm_env ''a'')
     ((sample_input ''b'' 4 (Some ''r1''))\<lparr>in_eventId := ''A''\<rparr>) (fold db_perform sample_later (snd sample_call))"

theorem replay_returns_first_result_witness:
  "\<exists>again. fst sample_again = Inr again \<and> o_disposition again = Replayed
     \<and> o_result again = (o_result sample_outcome)\<lparr>r_eventId := ''a'', r_buyerId := ''c''\<rparr>"
proof -
  have "is_ok (fst sample_again)" by code_simp
  then obtain again where again: "fst sample_again = Inr again" by (auto simp: is_ok_iff)
  have upper: "pg_uuid ''A'' = ''a''" by code_simp
  have run: "executePurchaseTransaction (calm_env ''a'') ((sample_input ''b'' 4 (Some ''r1''))\<lparr>in_eventId := ''A''\<rparr>)
      (fold db_perform sample_later (snd sample_call)) = (Inr again, snd sample_again)"
    using again by (simp add: sample_again_def prod_eq_iff)
  have "0 < in_quantity (sample_input ''b'' 4 (Some ''r1''))" "in_requestId (sample_input ''b'' 4 (Some ''r1'')) \<noteq> None" by simp_all
  from replay_returns_first_result [OF sample_pg_inv this(1) sample_env_run sample_executed sample_call_ok(2) this(2)
      sample_later_admissible _ _ _ run] again upper
  show ?thesis by simp
qed

lemma purchase_tx_new_created:
  "purchase_tx_new env i mode s = Committed out s' \<Longrightarrow> o_disposition out = Created"
  by (elim purchase_tx_new_Committed) simp

lemma recovered_base:
  assumes "purchase_tx_body env i s = Aborted e m b" "purchase_tx_rollback env i e m b = Inr out"
  shows "b \<in> {s, tx_others env s}"
proof -
  have "e \<noteq> connection_lost"
    using assms(2) by (auto simp: purchase_tx_rollback_def isConstraintViolation_def connection_lost_def split: if_splits)
  with purchase_tx_body_aborts_at [of env s i] assms(1) show ?thesis by (auto simp: aborts_at_def)
qed

text \<open>C3: one request, one purchase: when a call with a request id answers, exactly one row of the
  ledger carries that request; a call that created it found none, not even after the other
  purchases that committed while it ran, and a call that replays it has written nothing.\<close>

theorem one_purchase_per_request:
  assumes "pg_inv s" "0 < in_quantity i" "purchases_run (tx_others env)" "in_requestId i \<noteq> None"
    and "executePurchaseTransaction env i s = (Inr out, s')"
  shows "length (filter (request_key i) (purchases s')) = 1
    \<and> (case o_disposition out of
         Created \<Rightarrow> filter (request_key i) (purchases (tx_others env s)) = []
       | Replayed \<Rightarrow> s' \<in> {s, end_tx s, tx_others env s}
           \<and> o_result out = toPurchaseResult (hd (filter (request_key i) (purchases s'))))"
proof (cases "o_disposition out")
  case Created
  from created_row [OF assms(1-3,5) Created] obtain p where p: "purchases s' = purchases (tx_others env s) @ [p]"
    "pg_inv s'" "request_key i p" "\<not> list_ex (same_request p) (purchases (tx_others env s))"
    using assms(4) by (auto simp: request_key_def)
  have "filter (request_key i) (purchases (tx_others env s)) = []"
    using p(4) request_key_clash [OF p(3)] by (auto simp: filter_empty_conv list_ex_iff)
  with p Created show ?thesis by simp
next
  case Replayed
  have adv: "advances s (snd (executePurchaseTransaction env i s))"
    using execute_advances [OF assms(1,2)] purchases_run_advances [OF assms(3)] by blast
  have "\<exists>p. findExistingPurchase s' i = Some p \<and> o_result out = toPurchaseResult p
      \<and> s' \<in> {s, end_tx s, tx_others env s}"
    using assms(5)
  proof (cases rule: execute_Inr)
    case body
    then show ?thesis
    proof (cases rule: purchase_tx_body_Committed)
      case (replay mode p)
      then have "findExistingPurchase s' i = Some p" by (simp add: findExistingPurchase_def end_tx_def)
      with replay show ?thesis by simp
    next
      case (fresh mode)
      with Replayed show ?thesis by (auto dest!: purchase_tx_new_created)
    qed
  next
    case (recovered e m)
    show ?thesis using rollback_Inr [OF recovered(2)] recovered_base [OF recovered] by auto
  qed
  then obtain p where p: "findExistingPurchase s' i = Some p" "o_result out = toPurchaseResult p"
    "s' \<in> {s, end_tx s, tx_others env s}" by blast
  have "requests_unique s'" using advances_rest(1) [OF adv] assms(5) by (simp add: pg_inv_def)
  from requests_unique_one [OF this, of i] find_filter [OF p(1) [unfolded findExistingPurchase_def]]
  have "filter (request_key i) (purchases s') = [p]" by auto
  with p Replayed show ?thesis by simp
qed


theorem one_purchase_per_request_witness:
  "length (filter (request_key (sample_input ''b'' 4 (Some ''r1''))) (purchases (snd sample_call))) = 1"
proof -
  have "0 < in_quantity (sample_input ''b'' 4 (Some ''r1''))"
    "in_requestId (sample_input ''b'' 4 (Some ''r1'')) \<noteq> None" by simp_all
  from one_purchase_per_request [OF sample_pg_inv this(1) sample_env_run this(2) sample_executed]
  show ?thesis by blast
qed

section \<open>Failed calls\<close>

text \<open>C5: a call that throws has changed nothing: the database is the one it found, or the one
  the other purchases left meanwhile. The only exception is a COMMIT whose answer got lost: then
  the thrown error may hide a committed purchase, which is the row that the same call with the
  answer delivered would report.\<close>

theorem failed_purchase_leaves_no_trace:
  assumes "executePurchaseTransaction env i s = (Inl e, s')"
  shows "s' \<in> {s, tx_others env s}
    \<or> (tx_net env Q_COMMIT = LostReply \<and> e = connection_lost
       \<and> (\<exists>out. executePurchaseTransaction (deliver_commit env) i s = (Inr out, s')))"
proof (cases "tx_net env Q_CONNECT = Delivered")
  case True
  then have conn: "tx_net (deliver_commit env) Q_CONNECT = Delivered" by (simp add: deliver_commit_def)
  from assms True obtain e0 m where a: "purchase_tx_body env i s = Aborted e0 m s'"
    and r: "purchase_tx_rollback env i e0 m s' = Inl e"
    by (auto simp: executePurchaseTransaction_def ask_def split: tx_end.splits)
  from purchase_tx_body_aborts_at [of env s i] a consider "s' \<in> {s, tx_others env s}"
    | out where "tx_net env Q_COMMIT = LostReply" "e0 = connection_lost"
      "purchase_tx_body (deliver_commit env) i s = Committed out s'"
    unfolding aborts_at_def by blast
  then show ?thesis
  proof cases
    case 2
    then have "e = connection_lost"
      using r by (auto simp: purchase_tx_rollback_def isConstraintViolation_def connection_lost_def split: if_splits)
    with 2 conn True show ?thesis by (simp add: executePurchaseTransaction_def ask_def)
  qed blast
next
  case False
  with assms show ?thesis by (auto simp: executePurchaseTransaction_def ask_def)
qed

definition sample_failing_env :: tx_env where
  "sample_failing_env = sample_env\<lparr>tx_net := (\<lambda>_. Delivered)(Q_INSERT := LostRequest)\<rparr>"

definition sample_failure :: "PurchaseTransactionOutcome result \<times> pg" where
  "sample_failure = executePurchaseTransaction sample_failing_env (sample_input ''b'' 4 None) sample_pg"

theorem failed_purchase_leaves_no_trace_witness:
  "snd sample_failure \<in> {sample_pg, tx_others sample_failing_env sample_pg}"
proof -
  have "\<not> is_ok (fst sample_failure)" by code_simp
  then obtain e where "fst sample_failure = Inl e" by (cases "fst sample_failure") auto
  then have "executePurchaseTransaction sample_failing_env (sample_input ''b'' 4 None) sample_pg
      = (Inl e, snd sample_failure)" by (simp add: sample_failure_def prod_eq_iff)
  from failed_purchase_leaves_no_trace [OF this] show ?thesis by (simp add: sample_failing_env_def)
qed

section \<open>Versions\<close>

text \<open>C6: a version names one state of a row: along any history the versions of the Ticket Type
  rows and of the Event rows never go back, and a row read twice at the same version is the
  same row. (The consumers of the InventoryChanged events rest on this.)\<close>

theorem version_names_one_state:
  assumes "pg_inv s" "list_all db_admissible ops"
  shows "type_version t s \<le> type_version t (fold db_perform ops s)
    \<and> event_version e s \<le> event_version e (fold db_perform ops s)
    \<and> (type_version t (fold db_perform ops s) = type_version t s
         \<longrightarrow> type_row_of t (fold db_perform ops s) = type_row_of t s)
    \<and> (event_version e (fold db_perform ops s) = event_version e s
         \<longrightarrow> event_row_of e (fold db_perform ops s) = event_row_of e s)"
  using type_cells.run_revision_mono [OF TrueI assms(2,1)] event_cells.run_revision_mono [OF TrueI assms(2,1)]
    type_cells.run_content_frozen [OF TrueI assms(2,1)] event_cells.run_content_frozen [OF TrueI assms(2,1)]
  by blast


theorem version_names_one_state_witness:
  "type_row_of ''c'' (fold db_perform [Purchase (calm_env ''a'') (sample_input ''b'' 4 None)] sample_pg)
     = type_row_of ''c'' sample_pg"
proof -
  have adm: "list_all db_admissible [Purchase (calm_env ''a'') (sample_input ''b'' 4 None)]" by simp
  have "type_version ''c'' (fold db_perform [Purchase (calm_env ''a'') (sample_input ''b'' 4 None)] sample_pg)
      = type_version ''c'' sample_pg" by code_simp
  with version_names_one_state [OF sample_pg_inv adm] show ?thesis by blast
qed

end
