(* ===== verification/TicketTypeResolver.thy ===== *)
theory TicketTypeResolver
  imports PurchaseTransaction
begin

text \<open>
  The resolver of the pre-filter's scope, src/purchases/ticket-type-resolver.service.ts: a bounded
  in-process cache with a time to live, one database load per Event at a time (singleflight), and
  \<open>prime\<close> / \<open>invalidate\<close> that a load started earlier must not undo. Each await of the source is a
  step boundary of \<open>resolver_step\<close>.
\<close>

section \<open>State\<close>

datatype PrefilterScope = SingleType string | MultiType

datatype PrefilterPlan = LegacyPlan | TicketTypePlan PrefilterScope

record CacheEntry =
  plan :: PrefilterPlan
  expiresAt :: rat

text \<open>
  \<open>cache\<close> is a Map in insertion order, oldest entry first; \<open>inflight\<close> holds the token of the load
  in progress; \<open>date_now\<close> is what \<open>Date.now()\<close> returns.
\<close>

record resolver =
  cache :: "(string \<times> CacheEntry) list"
  inflight :: "string \<rightharpoonup> nat"
  loadToken :: nat
  ttlMs :: rat
  maxEntries :: nat
  date_now :: rat

definition DEFAULT_TTL_MS :: rat where
  "DEFAULT_TTL_MS = 5000"

definition DEFAULT_MAX_ENTRIES :: nat where
  "DEFAULT_MAX_ENTRIES = 10000"

text \<open>The constructor; its arguments are what \<open>Number\<close> makes of the two environment variables.\<close>

definition new_resolver :: "jsnum \<Rightarrow> jsnum \<Rightarrow> rat \<Rightarrow> resolver" where
  "new_resolver configuredTtl configuredMax t = \<lparr>cache = [], inflight = (\<lambda>_. None), loadToken = 0,
     ttlMs = (case configuredTtl of Fin r \<Rightarrow> if r > 0 then r else DEFAULT_TTL_MS | _ \<Rightarrow> DEFAULT_TTL_MS),
     maxEntries = (if isInteger (JNumber configuredMax) \<and> number_value (JNumber configuredMax) > 0
                   then nat (number_value (JNumber configuredMax)) else DEFAULT_MAX_ENTRIES),
     date_now = t\<rparr>"

section \<open>The cache\<close>

definition map_delete :: "string \<Rightarrow> (string \<times> 'v) list \<Rightarrow> (string \<times> 'v) list" where
  "map_delete k m = filter (\<lambda>p. fst p \<noteq> k) m"

text \<open>\<open>delete\<close> followed by \<open>set\<close>: the entry moves to the end of the insertion order.\<close>

definition map_touch :: "string \<Rightarrow> 'v \<Rightarrow> (string \<times> 'v) list \<Rightarrow> (string \<times> 'v) list" where
  "map_touch k v m = map_delete k m @ [(k, v)]"

definition getFresh :: "string \<Rightarrow> resolver \<Rightarrow> PrefilterPlan option \<times> resolver" where
  "getFresh e r =
     (case map_of (cache r) e of
        None \<Rightarrow> (None, r)
      | Some entry \<Rightarrow>
          if expiresAt entry \<le> date_now r then (None, r\<lparr>cache := map_delete e (cache r)\<rparr>)
          else (Some (plan entry), r\<lparr>cache := map_touch e entry (cache r)\<rparr>))"

fun evict :: "nat \<Rightarrow> (string \<times> 'v) list \<Rightarrow> (string \<times> 'v) list" where
  "evict limit [] = []"
| "evict limit (p # m) = (if length (p # m) > limit then evict limit m else p # m)"

definition storeInternal :: "string \<Rightarrow> PrefilterPlan \<Rightarrow> resolver \<Rightarrow> resolver" where
  "storeInternal e p r = r\<lparr>cache := evict (maxEntries r)
     (map_touch e \<lparr>plan = p, expiresAt = date_now r + ttlMs r\<rparr> (cache r))\<rparr>"

definition prime :: "string \<Rightarrow> PrefilterPlan \<Rightarrow> resolver \<Rightarrow> resolver" where
  "prime e p r = (storeInternal e p r)\<lparr>inflight := (inflight r)(e := None)\<rparr>"

definition invalidate :: "string \<Rightarrow> resolver \<Rightarrow> resolver" where
  "invalidate e r = r\<lparr>cache := map_delete e (cache r), inflight := (inflight r)(e := None)\<rparr>"

text \<open>
  The query of \<open>loadPlanFromDatabase\<close>: one row per Ticket Type, at most two, and a row without a
  Type when there is none.
\<close>

definition loadPlanFromDatabase :: "string \<Rightarrow> pg \<Rightarrow> PrefilterPlan result" where
  "loadPlanFromDatabase e s =
     (case writer_control s of
        None \<Rightarrow> Inl (PlainError ''inventory writer control state is missing or invalid'')
      | Some mode \<Rightarrow>
          if mode \<noteq> ''legacy'' \<and> mode \<noteq> ''ticket_type''
          then Inl (PlainError ''inventory writer control state is missing or invalid'')
          else if mode = ''legacy'' then Inr LegacyPlan
          else (case take 2 (types_of_event e s) of
              [t] \<Rightarrow> Inr (TicketTypePlan (SingleType (type_id t)))
            | _ \<Rightarrow> Inr (TicketTypePlan MultiType)))"

section \<open>Resolution, step by step\<close>

text \<open>
  \<open>resolve_begin\<close> is \<open>resolvePrefilterPlan\<close> up to its first await: a fresh entry is returned, a load in
  progress is joined, otherwise a load starts with a new token. \<open>load_continue\<close> is the load's
  continuation when the database answered, \<open>load_finally\<close> the finally block of the caller.
\<close>

datatype resolution = Hit PrefilterPlan | Joined nat | Started nat

definition resolve_begin :: "string \<Rightarrow> resolver \<Rightarrow> resolution \<times> resolver" where
  "resolve_begin e r =
     (case getFresh e r of
        (Some p, r1) \<Rightarrow> (Hit p, r1)
      | (None, r1) \<Rightarrow>
          (case inflight r1 e of
             Some token \<Rightarrow> (Joined token, r1)
           | None \<Rightarrow> (Started (loadToken r1 + 1),
               r1\<lparr>loadToken := loadToken r1 + 1, inflight := (inflight r1)(e \<mapsto> loadToken r1 + 1)\<rparr>)))"

definition load_continue :: "string \<Rightarrow> nat \<Rightarrow> PrefilterPlan result \<Rightarrow> resolver \<Rightarrow> resolver" where
  "load_continue e token answer r =
     (case answer of
        Inl _ \<Rightarrow> r
      | Inr p \<Rightarrow> if inflight r e = Some token then storeInternal e p r else r)"

definition load_finally :: "string \<Rightarrow> nat \<Rightarrow> resolver \<Rightarrow> resolver" where
  "load_finally e token r =
     (if inflight r e = Some token then r\<lparr>inflight := (inflight r)(e := None)\<rparr> else r)"

lemmas resolver_defs = getFresh_def storeInternal_def prime_def invalidate_def resolve_begin_def
  load_continue_def load_finally_def

section \<open>The cache is bounded and never serves an expired entry\<close>

definition cache_ok :: "resolver \<Rightarrow> bool" where
  "cache_ok r \<longleftrightarrow> length (cache r) \<le> maxEntries r \<and> distinct (map fst (cache r))"

lemma evict_drop: "evict n m = drop (length m - n) m"
  by (induction m) (auto simp: Suc_diff_le)

lemma evict_length: "length (evict n m) = min n (length m)"
  by (simp add: evict_drop)

lemma evict_set: "set (evict n m) \<subseteq> set m"
  by (simp add: evict_drop set_drop_subset)

lemma distinct_evict: "distinct (map f m) \<Longrightarrow> distinct (map f (evict n m))"
  by (simp add: evict_drop drop_map [symmetric])

lemma distinct_delete: "distinct (map fst m) \<Longrightarrow> distinct (map fst (map_delete k m))"
  unfolding map_delete_def by (rule distinct_map_filter)

lemma map_delete_key: "k \<notin> fst ` set (map_delete k m)"
  by (auto simp: map_delete_def)

lemma distinct_touch: "distinct (map fst m) \<Longrightarrow> distinct (map fst (map_touch k v m))"
  using map_delete_key [of k m] distinct_delete [of m k] by (auto simp: map_touch_def)

lemma length_delete_mem: "k \<in> fst ` set m \<Longrightarrow> length (map_delete k m) < length m"
  unfolding map_delete_def by (elim imageE) (rule length_filter_less, auto)

lemma length_delete: "length (map_delete k m) \<le> length m"
  by (simp add: map_delete_def)

lemma cache_ok_touch:
  assumes "cache_ok r" "map_of (cache r) e = Some v"
  shows "cache_ok (r\<lparr>cache := map_touch e v (cache r)\<rparr>)"
proof -
  have "e \<in> fst ` set (cache r)" using assms(2) by (metis domI dom_map_of_conv_image_fst)
  from length_delete_mem [OF this] assms(1) show ?thesis
    by (simp add: cache_ok_def distinct_touch) (simp add: map_touch_def)
qed

lemma cache_ok_store: "cache_ok r \<Longrightarrow> cache_ok (storeInternal e p r)"
  unfolding storeInternal_def cache_ok_def
  by (simp add: evict_length distinct_evict distinct_touch)

lemma cache_ok_delete: "cache_ok r \<Longrightarrow> cache_ok (r\<lparr>cache := map_delete e (cache r)\<rparr>)"
  by (auto simp: cache_ok_def distinct_delete length_delete intro: le_trans [OF length_delete])

lemma cache_ok_getFresh: "cache_ok r \<Longrightarrow> cache_ok (snd (getFresh e r))"
  by (auto simp: getFresh_def cache_ok_delete cache_ok_touch split: option.splits)

lemma cache_ok_inflight [simp]:
  "cache_ok (r\<lparr>inflight := f\<rparr>) = cache_ok r" "cache_ok (r\<lparr>loadToken := n\<rparr>) = cache_ok r"
  "cache_ok (r\<lparr>date_now := t\<rparr>) = cache_ok r"
  by (simp_all add: cache_ok_def)

lemma evict_last: "0 < n \<Longrightarrow> \<exists>m'. evict n (m @ [x]) = m' @ [x]"
  by (induction m) auto


lemma cache_ok_ops:
  "cache_ok r \<Longrightarrow> cache_ok (prime e p r)" "cache_ok r \<Longrightarrow> cache_ok (invalidate e r)"
  "cache_ok r \<Longrightarrow> cache_ok (snd (resolve_begin e r))"
  "cache_ok r \<Longrightarrow> cache_ok (load_continue e t a r)" "cache_ok r \<Longrightarrow> cache_ok (load_finally e t r)"
proof -
  assume ok: "cache_ok r"
  show "cache_ok (prime e p r)" using ok by (simp add: prime_def cache_ok_store)
  show "cache_ok (invalidate e r)"
    using cache_ok_delete [OF ok, of e] cache_ok_inflight(1) [where r = "r\<lparr>cache := map_delete e (cache r)\<rparr>"]
    by (simp add: invalidate_def)
  show "cache_ok (snd (resolve_begin e r))"
    using cache_ok_getFresh [OF ok, of e] by (auto simp: resolve_begin_def split: prod.split option.split)
  show "cache_ok (load_continue e t a r)" "cache_ok (load_finally e t r)"
    using ok by (auto simp: load_continue_def load_finally_def cache_ok_store split: sum.split)
qed

section \<open>The system of concurrent requests\<close>

text \<open>
  One service instance with its loads in progress and the database, which other processes change
  at any time (\<open>dbs\<close> is its history, the current state last). Three observers record what the
  safety property speaks about: \<open>reset_at\<close>, the database state at the last \<open>prime\<close> or \<open>invalidate\<close> of
  an Event, \<open>plan_source\<close>, what a plan was last stored from (the database state that a load read, or the plan that
  a \<open>prime\<close> was called with, and when), and \<open>stored_at\<close>, the clock at that moment.
\<close>

datatype load =
    Connecting string
  | Answered string "PrefilterPlan result" nat
  | Settled string

fun load_event :: "load \<Rightarrow> string" where
  "load_event (Connecting e) = e"
| "load_event (Answered e a n) = e"
| "load_event (Settled e) = e"

datatype source = Loaded nat | Primed nat PrefilterPlan

record rsys =
  res :: resolver
  pending :: "nat \<rightharpoonup> load"
  dbs :: "pg list"
  reset_at :: "string \<Rightarrow> nat"
  plan_source :: "string \<Rightarrow> source"
  stored_at :: "string \<Rightarrow> rat"

abbreviation current_db :: "rsys \<Rightarrow> nat" where
  "current_db s \<equiv> length (dbs s) - 1"

inductive resolver_step :: "rsys \<Rightarrow> rsys \<Rightarrow> bool" where
  resolve: "resolve_begin e (res s) = (answer, r) \<Longrightarrow>
     resolver_step s (s\<lparr>res := r, pending := (case answer of Started t \<Rightarrow> (pending s)(t \<mapsto> Connecting e) | _ \<Rightarrow> pending s)\<rparr>)"
| read: "pending s t = Some (Connecting e) \<Longrightarrow>
     resolver_step s (s\<lparr>pending := (pending s)(t \<mapsto> Answered e (loadPlanFromDatabase e (dbs s ! current_db s)) (current_db s))\<rparr>)"
| read_fails: "pending s t = Some (Connecting e) \<Longrightarrow>
     resolver_step s (s\<lparr>pending := (pending s)(t \<mapsto> Answered e (Inl x) (current_db s))\<rparr>)"
| continue: "pending s t = Some (Answered e a n) \<Longrightarrow>
     resolver_step s (s\<lparr>res := load_continue e t a (res s), pending := (pending s)(t \<mapsto> Settled e),
       plan_source := (if is_ok a \<and> inflight (res s) e = Some t then (plan_source s)(e := Loaded n) else plan_source s),
       stored_at := (if is_ok a \<and> inflight (res s) e = Some t then (stored_at s)(e := date_now (res s)) else stored_at s)\<rparr>)"
| finish: "pending s t = Some (Settled e) \<Longrightarrow>
     resolver_step s (s\<lparr>res := load_finally e t (res s), pending := (pending s)(t := None)\<rparr>)"
| prime: "resolver_step s (s\<lparr>res := prime e p (res s), reset_at := (reset_at s)(e := current_db s),
       plan_source := (plan_source s)(e := Primed (current_db s) p), stored_at := (stored_at s)(e := date_now (res s))\<rparr>)"
| invalidate: "resolver_step s (s\<lparr>res := invalidate e (res s), reset_at := (reset_at s)(e := current_db s)\<rparr>)"
| time: "resolver_step s (s\<lparr>res := (res s)\<lparr>date_now := t\<rparr>\<rparr>)"
| database: "resolver_step s (s\<lparr>dbs := dbs s @ [d]\<rparr>)"

definition initial_rsys :: "resolver \<Rightarrow> pg \<Rightarrow> rsys" where
  "initial_rsys r d = \<lparr>res = r, pending = (\<lambda>_. None), dbs = [d], reset_at = (\<lambda>_. 0), plan_source = (\<lambda>_. Primed 0 LegacyPlan),
     stored_at = (\<lambda>_. 0)\<rparr>"

text \<open>
  A plan for \<open>e\<close> is justified when it is the plan of the latest \<open>prime\<close>, or what a load read from a database state, not
  older than the last reset of \<open>e\<close> in either case.
\<close>

definition justified :: "rsys \<Rightarrow> string \<Rightarrow> PrefilterPlan \<Rightarrow> bool" where
  "justified s e p \<longleftrightarrow> (case plan_source s e of
       Primed n q \<Rightarrow> reset_at s e \<le> n \<and> n < length (dbs s) \<and> p = q
     | Loaded n \<Rightarrow> reset_at s e \<le> n \<and> n < length (dbs s) \<and> loadPlanFromDatabase e (dbs s ! n) = Inr p)"

definition loads_ok :: "rsys \<Rightarrow> bool" where
  "loads_ok s \<longleftrightarrow>
     (\<forall>t. loadToken (res s) < t \<longrightarrow> pending s t = None)
   \<and> (\<forall>e t. inflight (res s) e = Some t \<longrightarrow> (\<exists>l. pending s t = Some l \<and> load_event l = e))
   \<and> (\<forall>t e a n. pending s t = Some (Answered e a n) \<longrightarrow> n < length (dbs s)
        \<and> (\<forall>p. a = Inr p \<longrightarrow> loadPlanFromDatabase e (dbs s ! n) = Inr p)
        \<and> (inflight (res s) e = Some t \<longrightarrow> reset_at s e \<le> n))"

text \<open>A cache entry expires \<open>ttlMs\<close> after it was stored.\<close>

definition entry_ok :: "rsys \<Rightarrow> string \<Rightarrow> CacheEntry \<Rightarrow> bool" where
  "entry_ok s e entry \<longleftrightarrow> justified s e (plan entry) \<and> expiresAt entry = stored_at s e + ttlMs (res s)"

definition plans_ok :: "rsys \<Rightarrow> bool" where
  "plans_ok s \<longleftrightarrow> dbs s \<noteq> [] \<and> (\<forall>e. reset_at s e < length (dbs s))
     \<and> (\<forall>(e, entry) \<in> set (cache (res s)). entry_ok s e entry)"


section \<open>Invariants of the system\<close>

lemma getFresh_frame:
  "set (cache (snd (getFresh e r))) \<subseteq> set (cache r)"
  "inflight (snd (getFresh e r)) = inflight r" "loadToken (snd (getFresh e r)) = loadToken r"
  "maxEntries (snd (getFresh e r)) = maxEntries r"
  by (auto simp: getFresh_def map_delete_def map_touch_def split: option.splits dest: map_of_SomeD)

lemma getFresh_hit:
  "getFresh e r = (Some p, r') \<Longrightarrow> \<exists>entry. (e, entry) \<in> set (cache r) \<and> plan entry = p \<and> date_now r < expiresAt entry"
  by (auto simp: getFresh_def split: option.splits if_splits dest: map_of_SomeD)

lemma resolve_frame:
  "set (cache (snd (resolve_begin e r))) \<subseteq> set (cache r)"
  using getFresh_frame(1) [of e r] by (auto simp: resolve_begin_def split: prod.splits option.splits)

lemma store_entries:
  "(k, v) \<in> set (cache (storeInternal e p r)) \<Longrightarrow>
     (k = e \<and> plan v = p \<and> expiresAt v = date_now r + ttlMs r) \<or> (k \<noteq> e \<and> (k, v) \<in> set (cache r))"
  using evict_set unfolding storeInternal_def by (fastforce simp: map_touch_def map_delete_def)

lemma store_frame [simp]:
  "inflight (storeInternal e p r) = inflight r" "loadToken (storeInternal e p r) = loadToken r"
  "ttlMs (storeInternal e p r) = ttlMs r" "maxEntries (storeInternal e p r) = maxEntries r"
  by (simp_all add: storeInternal_def)

lemma limits_frame [simp]:
  "ttlMs (snd (resolve_begin e r)) = ttlMs r" "maxEntries (snd (resolve_begin e r)) = maxEntries r"
  "ttlMs (prime e p r) = ttlMs r" "maxEntries (prime e p r) = maxEntries r"
  "ttlMs (invalidate e r) = ttlMs r" "maxEntries (invalidate e r) = maxEntries r"
  "ttlMs (load_continue e t a r) = ttlMs r" "maxEntries (load_continue e t a r) = maxEntries r"
  "ttlMs (load_finally e t r) = ttlMs r" "maxEntries (load_finally e t r) = maxEntries r"
  by (auto simp: resolver_defs split: option.splits sum.splits prod.splits)

lemma limits_step:
  assumes "resolver_step s s'"
  shows "ttlMs (res s') = ttlMs (res s) \<and> maxEntries (res s') = maxEntries (res s)"
  using assms
proof cases
  case (resolve e answer r)
  then show ?thesis using limits_frame(1,2) [of e "res s"] by simp
qed simp_all

lemma loads_ok_facts:
  assumes "loads_ok s"
  shows "loadToken (res s) < t \<Longrightarrow> pending s t = None"
    and "inflight (res s) e = Some t \<Longrightarrow> \<exists>l. pending s t = Some l \<and> load_event l = e"
    and "pending s t = Some (Answered e a n) \<Longrightarrow> n < length (dbs s)"
    and "pending s t = Some (Answered e (Inr p) n) \<Longrightarrow> loadPlanFromDatabase e (dbs s ! n) = Inr p"
    and "pending s t = Some (Answered e a n) \<Longrightarrow> inflight (res s) e = Some t \<Longrightarrow> reset_at s e \<le> n"
  using assms unfolding loads_ok_def by blast+

lemma loads_ok_answer:
  assumes ok: "loads_ok s" and t: "pending s t = Some (Connecting e)"
    and r: "\<forall>e. reset_at s e < length (dbs s)"
    and a: "\<forall>p. a = Inr p \<longrightarrow> loadPlanFromDatabase e (dbs s ! current_db s) = Inr p"
  shows "loads_ok (s\<lparr>pending := (pending s)(t \<mapsto> Answered e a (current_db s))\<rparr>)"
proof -
  have cur: "current_db s < length (dbs s)" using r [rule_format, of e] by linarith
  have le: "reset_at s e' \<le> current_db s" for e' using r [rule_format, of e'] by linarith
  have tok: "\<not> loadToken (res s) < t" using loads_ok_facts(1) [OF ok] t by auto
  show ?thesis
    unfolding loads_ok_def
  proof (intro conjI allI impI)
    fix u assume "loadToken (res (s\<lparr>pending := (pending s)(t \<mapsto> Answered e a (current_db s))\<rparr>)) < u"
    with tok loads_ok_facts(1) [OF ok, of u] show "pending (s\<lparr>pending := (pending s)(t \<mapsto> Answered e a (current_db s))\<rparr>) u = None"
      by auto
  next
    fix e' u assume "inflight (res (s\<lparr>pending := (pending s)(t \<mapsto> Answered e a (current_db s))\<rparr>)) e' = Some u"
    with loads_ok_facts(2) [OF ok, of e' u] t
    show "\<exists>l. pending (s\<lparr>pending := (pending s)(t \<mapsto> Answered e a (current_db s))\<rparr>) u = Some l \<and> load_event l = e'"
      by auto
  next
    fix u e' a' n assume u: "pending (s\<lparr>pending := (pending s)(t \<mapsto> Answered e a (current_db s))\<rparr>) u = Some (Answered e' a' n)"
    show "n < length (dbs (s\<lparr>pending := (pending s)(t \<mapsto> Answered e a (current_db s))\<rparr>))"
      using u cur loads_ok_facts(3) [OF ok, of u e' a' n] by (auto split: if_splits)
    show "loadPlanFromDatabase e' (dbs (s\<lparr>pending := (pending s)(t \<mapsto> Answered e a (current_db s))\<rparr>) ! n) = Inr p"
      if "a' = Inr p" for p
      using u that a loads_ok_facts(4) [OF ok, of u e' p n] by (auto split: if_splits)
    show "reset_at (s\<lparr>pending := (pending s)(t \<mapsto> Answered e a (current_db s))\<rparr>) e' \<le> n"
      if "inflight (res (s\<lparr>pending := (pending s)(t \<mapsto> Answered e a (current_db s))\<rparr>)) e' = Some u"
      using u that le [of e'] loads_ok_facts(5) [OF ok, of u e' a' n] by (auto split: if_splits)
  qed
qed

lemma loads_ok_step:
  assumes "resolver_step s s'" "loads_ok s" "\<forall>e. reset_at s e < length (dbs s)"
  shows "loads_ok s'"
  using assms(1)
proof cases
  case (resolve e answer r)
  show ?thesis
  proof (cases "fst (getFresh e (res s))")
    case None
    obtain r1 where g: "getFresh e (res s) = (None, r1)" using None by (metis prod.collapse)
    have fr: "inflight r1 = inflight (res s)" "loadToken r1 = loadToken (res s)"
      using getFresh_frame [of e "res s"] g by simp_all
    show ?thesis
    proof (cases "inflight (res s) e")
      case (Some t)
      with resolve g fr assms(2) show ?thesis by (auto simp: resolve_begin_def loads_ok_def)
    next
      case inone: None
      let ?t = "loadToken (res s) + 1"
      have s': "s' = s\<lparr>res := r1\<lparr>loadToken := ?t, inflight := (inflight (res s))(e \<mapsto> ?t)\<rparr>,
          pending := (pending s)(?t \<mapsto> Connecting e)\<rparr>"
        using resolve g fr inone by (auto simp: resolve_begin_def)
      have "pending s ?t = None" using assms(2) unfolding loads_ok_def by auto
      then have "\<And>e'. inflight (res s) e' \<noteq> Some ?t" using assms(2) unfolding loads_ok_def by fastforce
      with assms(2,3) show ?thesis unfolding s' loads_ok_def by auto
    qed
  next
    case (Some p)
    obtain r1 where "getFresh e (res s) = (Some p, r1)" using Some by (metis prod.collapse)
    then have "answer = Hit p" "inflight r = inflight (res s)" "loadToken r = loadToken (res s)"
      using resolve getFresh_frame [of e "res s"] by (auto simp: resolve_begin_def)
    with resolve assms(2) show ?thesis by (auto simp: loads_ok_def)
  qed
next
  case (read t e)
  then show ?thesis using loads_ok_answer [OF assms(2) read(2) assms(3)] by simp
next
  case (read_fails t e x)
  then show ?thesis using loads_ok_answer [OF assms(2) read_fails(2) assms(3), of "Inl x"] by simp
next
  case (continue t e a n)
  with assms(2) show ?thesis by (auto simp: loads_ok_def load_continue_def split: sum.splits) (fastforce+)?
next
  case (finish t e)
  with assms(2) show ?thesis by (auto simp: loads_ok_def load_finally_def split: if_splits) (fastforce+)?
next
  case (prime e p)
  with assms(2) show ?thesis by (auto simp: loads_ok_def TicketTypeResolver.prime_def)
next
  case (invalidate e)
  with assms(2) show ?thesis by (auto simp: loads_ok_def TicketTypeResolver.invalidate_def)
next
  case (time t)
  with assms(2) show ?thesis by (auto simp: loads_ok_def)
next
  case (database d)
  with assms(2) show ?thesis by (auto simp: loads_ok_def nth_append less_SucI)
qed


lemma plans_ok_mem: "plans_ok s \<Longrightarrow> (e, entry) \<in> set (cache (res s)) \<Longrightarrow> entry_ok s e entry"
  unfolding plans_ok_def by blast

lemma plans_okI:
  assumes "dbs s \<noteq> []" "\<And>e. reset_at s e < length (dbs s)"
    and "\<And>e entry. (e, entry) \<in> set (cache (res s)) \<Longrightarrow> entry_ok s e entry"
  shows "plans_ok s"
  using assms unfolding plans_ok_def by blast

lemma plans_ok_subset:
  assumes "plans_ok s" "set (cache (res s')) \<subseteq> set (cache (res s))"
    and "dbs s' = dbs s" "reset_at s' = reset_at s" "plan_source s' = plan_source s" "stored_at s' = stored_at s"
    and "ttlMs (res s') = ttlMs (res s)"
  shows "plans_ok s'"
proof -
  have "entry_ok s' = entry_ok s"
    using assms(3-7) by (simp add: entry_ok_def justified_def fun_eq_iff cong: source.case_cong)
  with assms show ?thesis unfolding plans_ok_def by auto
qed

lemma entry_ok_other:
  assumes "entry_ok s k v" "reset_at s' k = reset_at s k" "plan_source s' k = plan_source s k" "stored_at s' k = stored_at s k"
    and "dbs s' = dbs s @ ds" "ttlMs (res s') = ttlMs (res s)"
  shows "entry_ok s' k v"
  using assms by (auto simp: entry_ok_def justified_def nth_append split: source.splits)

lemma plans_ok_step:
  assumes step: "resolver_step s s'" and ok: "plans_ok s" "loads_ok s"
  shows "plans_ok s'"
proof -
  have base: "dbs s \<noteq> []" "\<And>e. reset_at s e < length (dbs s)" using ok(1) by (auto simp: plans_ok_def)
  have cur: "current_db s < length (dbs s)" using base(1) by simp
  have ttl: "ttlMs (res s') = ttlMs (res s)" using limits_step [OF step] by blast
  from step show ?thesis
  proof cases
    case (resolve e answer r)
    then show ?thesis using resolve_frame [of e "res s"] ttl by (intro plans_ok_subset [OF ok(1)]) auto
  next
    case (continue t e a n)
    show ?thesis
    proof (cases "is_ok a \<and> inflight (res s) e = Some t")
      case True
      then obtain p where a: "a = Inr p" by (auto simp: is_ok_iff)
      have new: "justified s' e p"
        using continue True a loads_ok_facts(3) [OF ok(2), of t e a n] loads_ok_facts(4) [OF ok(2), of t e p n]
          loads_ok_facts(5) [OF ok(2), of t e a n]
        by (auto simp: justified_def)
      show ?thesis
      proof (rule plans_okI)
        fix k v assume "(k, v) \<in> set (cache (res s'))"
        then have "(k = e \<and> plan v = p \<and> expiresAt v = date_now (res s) + ttlMs (res s))
            \<or> (k \<noteq> e \<and> (k, v) \<in> set (cache (res s)))"
          using continue True a store_entries [of k v e p "res s"] by (simp add: load_continue_def)
        then show "entry_ok s' k v"
        proof
          assume other: "k \<noteq> e \<and> (k, v) \<in> set (cache (res s))"
          from plans_ok_mem [OF ok(1) conjunct2 [OF other]] other continue ttl show ?thesis
            using entry_ok_other [of s k v s' "[]"] by simp
        qed (use new continue True ttl in \<open>auto simp: entry_ok_def\<close>)
      qed (use base continue in auto)
    next
      case False
      then have "load_continue e t a (res s) = res s" by (auto simp: load_continue_def split: sum.split)
      then show ?thesis using continue False by (intro plans_ok_subset [OF ok(1)]) auto
    qed
  next
    case (prime e p)
    show ?thesis
    proof (rule plans_okI)
      fix k v assume "(k, v) \<in> set (cache (res s'))"
      then have "(k = e \<and> plan v = p \<and> expiresAt v = date_now (res s) + ttlMs (res s))
          \<or> (k \<noteq> e \<and> (k, v) \<in> set (cache (res s)))"
        using prime store_entries [of k v e p "res s"] by (simp add: TicketTypeResolver.prime_def)
      then show "entry_ok s' k v"
      proof
        assume other: "k \<noteq> e \<and> (k, v) \<in> set (cache (res s))"
        from plans_ok_mem [OF ok(1) conjunct2 [OF other]] other prime ttl show ?thesis
          using entry_ok_other [of s k v s' "[]"] by simp
      qed (use prime cur ttl in \<open>auto simp: entry_ok_def justified_def\<close>)
    qed (use base cur prime in auto)
  next
    case (invalidate e)
    show ?thesis
    proof (rule plans_okI)
      fix k v assume "(k, v) \<in> set (cache (res s'))"
      then have "k \<noteq> e" "(k, v) \<in> set (cache (res s))"
        using invalidate by (auto simp: TicketTypeResolver.invalidate_def map_delete_def)
      with plans_ok_mem [OF ok(1), of k v] invalidate ttl show "entry_ok s' k v"
        using entry_ok_other [of s k v s' "[]"] by simp
    qed (use base cur invalidate in auto)
  next
    case (database d)
    show ?thesis
    proof (rule plans_okI)
      fix k v assume "(k, v) \<in> set (cache (res s'))"
      with plans_ok_mem [OF ok(1), of k v] database show "entry_ok s' k v"
        using entry_ok_other [of s k v s' "[d]"] by simp
    qed (use base database in \<open>auto simp: less_SucI\<close>)
  qed (use ttl in \<open>auto intro: plans_ok_subset [OF ok(1)] simp: load_finally_def\<close>)
qed

lemma cache_ok_step:
  assumes "resolver_step s s'" "cache_ok (res s)"
  shows "cache_ok (res s')"
  using assms(1)
proof cases
  case (resolve e answer r)
  with cache_ok_ops(3) [OF assms(2), of e] show ?thesis by simp
qed (use assms(2) in \<open>simp_all add: cache_ok_ops\<close>)

lemma resolver_reachable:
  assumes "resolver_step\<^sup>*\<^sup>* (initial_rsys r d) s" "cache r = []" "inflight r = (\<lambda>_. None)"
  shows "loads_ok s \<and> plans_ok s \<and> cache_ok (res s) \<and> ttlMs (res s) = ttlMs r \<and> maxEntries (res s) = maxEntries r"
  using assms(1)
proof (induction rule: rtranclp_induct)
  case base
  then show ?case using assms(2,3) by (simp add: initial_rsys_def loads_ok_def plans_ok_def cache_ok_def)
next
  case (step u v)
  then have "\<forall>e. reset_at u e < length (dbs u)" by (auto simp: plans_ok_def)
  with step loads_ok_step plans_ok_step cache_ok_step limits_step show ?case by metis
qed

text \<open>C12: whatever requests, loads (slow, failing, overlapping), resets, clock readings and database
  changes interleave, a plan served from the cache is the one that was stored last for its Event and is not undone:
  it is exactly the plan that the latest \<open>prime\<close> was called with, or what the latest load that was let through read
  from the database, and in either case at a moment not before the last \<open>prime\<close> or \<open>invalidate\<close> of that
  Event, even when the load that read it had started earlier. It is served for less than the configured time to
  live after it was stored, and the cache never outgrows its limit.\<close>

theorem resolver_serves_no_undone_plan:
  assumes "resolver_step\<^sup>*\<^sup>* (initial_rsys (new_resolver ttl limit t0) d) s"
    and "resolve_begin e (res s) = (Hit p, r')"
  shows "justified s e p \<and> date_now (res s) < stored_at s e + ttlMs (new_resolver ttl limit t0)
    \<and> length (cache r') \<le> maxEntries (new_resolver ttl limit t0)"
proof -
  let ?r = "new_resolver ttl limit t0"
  have ok: "plans_ok s" "cache_ok (res s)" "ttlMs (res s) = ttlMs ?r" "maxEntries (res s) = maxEntries ?r"
    using resolver_reachable [OF assms(1)] by (simp_all add: new_resolver_def)
  obtain r1 where "getFresh e (res s) = (Some p, r1)"
    using assms(2) by (auto simp: resolve_begin_def split: prod.splits option.splits)
  from getFresh_hit [OF this] obtain entry where
    "(e, entry) \<in> set (cache (res s))" "plan entry = p" "date_now (res s) < expiresAt entry" by blast
  moreover have "cache_ok r'" "maxEntries r' = maxEntries (res s)"
    using cache_ok_ops(3) [OF ok(2), of e] limits_frame(2) [of e "res s"] assms(2) by simp_all
  ultimately show ?thesis using plans_ok_mem [OF ok(1)] ok(3,4) by (auto simp: cache_ok_def entry_ok_def)
qed


definition sample_resolver :: resolver where
  "sample_resolver = new_resolver NaN (Fin 2) 100"

text \<open>A plan is primed over an older one and then served.\<close>

definition sample_plan :: PrefilterPlan where
  "sample_plan = TicketTypePlan (SingleType ''b'')"

definition sample_primed :: resolver where
  "sample_primed = prime ''e'' sample_plan (prime ''e'' LegacyPlan sample_resolver)"

definition sample_rsys :: rsys where
  "sample_rsys = (initial_rsys sample_resolver sample_pg)
     \<lparr>res := sample_primed, plan_source := (\<lambda>_. Primed 0 LegacyPlan)(''e'' := Primed 0 sample_plan),
      stored_at := (\<lambda>_. 0)(''e'' := 100), reset_at := (\<lambda>_. 0)(''e'' := 0)\<rparr>"

lemma sample_rsys_reached: "resolver_step\<^sup>*\<^sup>* (initial_rsys sample_resolver sample_pg) sample_rsys"
proof -
  let ?i = "initial_rsys sample_resolver sample_pg"
  have now: "date_now sample_resolver = 100" "date_now (prime ''e'' LegacyPlan sample_resolver) = 100"
    by (simp_all add: sample_resolver_def new_resolver_def prime_def storeInternal_def)
  have 1: "resolver_step ?i (?i\<lparr>res := prime ''e'' LegacyPlan sample_resolver, reset_at := (\<lambda>_. 0)(''e'' := 0),
      plan_source := (\<lambda>_. Primed 0 LegacyPlan)(''e'' := Primed 0 LegacyPlan), stored_at := (\<lambda>_. 0)(''e'' := 100)\<rparr>)"
      (is "resolver_step _ ?s1")
    using resolver_step.prime [of ?i "''e''" LegacyPlan] now by (simp add: initial_rsys_def)
  have 2: "resolver_step ?s1 sample_rsys"
    using resolver_step.prime [of ?s1 "''e''" sample_plan] now by (simp add: initial_rsys_def sample_rsys_def sample_primed_def)
  from 1 2 show ?thesis by (meson converse_rtranclp_into_rtranclp rtranclp.rtrancl_refl)
qed

theorem resolver_serves_no_undone_plan_witness:
  "fst (resolve_begin ''e'' (res sample_rsys)) = Hit sample_plan \<and> justified sample_rsys ''e'' sample_plan
     \<and> plan_source sample_rsys ''e'' = Primed 0 sample_plan"
proof -
  have hit: "fst (resolve_begin ''e'' (res sample_rsys)) = Hit sample_plan"
    by (simp add: resolver_defs sample_rsys_def sample_primed_def sample_resolver_def new_resolver_def map_touch_def map_delete_def
        DEFAULT_TTL_MS_def isInteger_def number_value_def)
  with resolver_serves_no_undone_plan [OF sample_rsys_reached [unfolded sample_resolver_def],
      of "''e''" sample_plan "snd (resolve_begin ''e'' (res sample_rsys))"]
  have "justified sample_rsys ''e'' sample_plan" by (metis prod.collapse)
  with hit show ?thesis by (simp add: sample_rsys_def)
qed

text \<open>Singleflight: a request that joins a load waits for a load of its own Event that is in
  progress (nobody waits for a load that is gone), and a new load starts only when the Event has
  none registered, under a token no other load has.\<close>

theorem one_load_per_event:
  assumes "resolver_step\<^sup>*\<^sup>* (initial_rsys (new_resolver ttl limit t0) d) s"
    and "resolve_begin e (res s) = (answer, r')"
  shows "case answer of
      Joined t \<Rightarrow> (\<exists>l. pending s t = Some l \<and> load_event l = e)
    | Started t \<Rightarrow> inflight (res s) e = None \<and> pending s t = None \<and> (\<forall>e'. inflight (res s) e' \<noteq> Some t)
        \<and> inflight r' e = Some t
    | Hit p \<Rightarrow> True"
proof -
  have ok: "loads_ok s" using resolver_reachable [OF assms(1)] by (simp add: new_resolver_def)
  obtain fresh r1 where g: "getFresh e (res s) = (fresh, r1)" by fastforce
  have fr: "inflight r1 = inflight (res s)" "loadToken r1 = loadToken (res s)"
    using getFresh_frame [of e "res s"] g by simp_all
  have new: "pending s (loadToken (res s) + 1) = None" using loads_ok_facts(1) [OF ok] by simp
  then have "\<And>e'. inflight (res s) e' \<noteq> Some (loadToken (res s) + 1)"
    using loads_ok_facts(2) [OF ok] by fastforce
  with assms(2) g fr new show ?thesis
    using loads_ok_facts(2) [OF ok, of e] by (auto simp: resolve_begin_def split: option.splits)
qed

theorem one_load_per_event_witness:
  "inflight (snd (resolve_begin ''x'' sample_resolver)) ''x'' = Some 1"
proof -
  have "fst (resolve_begin ''x'' sample_resolver) = Started 1"
    by (simp add: resolver_defs sample_resolver_def new_resolver_def)
  with one_load_per_event [of NaN "Fin 2" 100 sample_pg "initial_rsys sample_resolver sample_pg" "''x''"]
  show ?thesis by (cases "resolve_begin ''x'' sample_resolver") (simp add: sample_resolver_def initial_rsys_def)
qed

end
