(* ===== verification/PurchaseFlow.thy ===== *)
theory PurchaseFlow
  imports DomainEvents TicketTypeResolver
begin

text \<open>
  The purchase request of src/purchases/purchases.service.ts around the transaction: the pre-filter
  in Valkey, the three paths (database only, legacy, Ticket Type), the compensation of a
  reservation, and the domain events. Other requests may change the key space before each cache
  call and the database inside the transaction.
\<close>

section \<open>The world of a request\<close>

text \<open>
  Two observers: \<open>calls\<close> are the cache operations this request has issued, oldest first, each with
  what it reported (a reservation made, a release answered, a sync applied); \<open>moves\<close> are the same operations with
  what they did, the value of their counter just before and just after, whether or not their answer arrived.
\<close>

record flow = bus_io +
  db :: pg
  calls :: "(cache_op \<times> bool) list"
  moves :: "(cache_op \<times> int option \<times> int option) list"

datatype flow_call = C_RESERVE | C_ANCHOR | C_MARK | C_SYNC | C_RELEASE

text \<open>
  The environment of one request: the fate of its cache calls, what other requests do to the key
  space before each of them, the environment of its transaction, and the answers of the event
  bus to the first and the second publish.
\<close>

record flow_env =
  cache_net :: "flow_call \<Rightarrow> link"
  cache_others :: "flow_call \<Rightarrow> valkey \<Rightarrow> valkey"
  tx :: tx_env
  put_purchased :: put_reply
  put_inventory :: put_reply

definition interfere :: "flow_env \<Rightarrow> flow_call \<Rightarrow> flow \<Rightarrow> flow" where
  "interfere env c w = w\<lparr>vk := cache_others env c (vk w)\<rparr>"

fun counter_of :: "cache_op \<Rightarrow> valkey \<Rightarrow> int option" where
  "counter_of (OpInit e q) s = vk_get (eventCounterKey e) s"
| "counter_of (OpReserve e q) s = vk_get (eventCounterKey e) s"
| "counter_of (OpRelease e q) s = vk_get (eventCounterKey e) s"
| "counter_of (OpSync e r v) s = vk_get (eventCounterKey e) s"
| "counter_of (OpMark b e i) s = None"
| "counter_of (OpInitTT e t q) s = vk_get (ticketTypeCounterKey e t) s"
| "counter_of (OpReserveTT e t q) s = vk_get (ticketTypeCounterKey e t) s"
| "counter_of (OpReleaseTT e t q) s = vk_get (ticketTypeCounterKey e t) s"
| "counter_of (OpSyncTT e t r v) s = vk_get (ticketTypeCounterKey e t) s"

text \<open>\<open>w0\<close> is the world right before the operation.\<close>

definition record_call :: "cache_op \<Rightarrow> bool \<Rightarrow> flow \<Rightarrow> flow \<Rightarrow> flow" where
  "record_call op ok w0 w = w\<lparr>calls := calls w @ [(op, ok)],
     moves := moves w @ [(op, counter_of op (vk w0), counter_of op (vk w))]\<rparr>"

definition call_reserve :: "flow_env \<Rightarrow> string \<Rightarrow> int \<Rightarrow> flow \<Rightarrow> ReserveOutcome \<times> flow" where
  "call_reserve env e q w =
     (let w0 = interfere env C_RESERVE w; (r, w1) = reserve (cache_net env C_RESERVE) e q w0
      in (r, record_call (OpReserve e q) (r = Reserved) w0 w1))"

definition call_release :: "flow_env \<Rightarrow> string \<Rightarrow> int \<Rightarrow> flow \<Rightarrow> flow" where
  "call_release env e q w =
     (let w0 = interfere env C_RELEASE w
      in record_call (OpRelease e q) True w0 (release (cache_net env C_RELEASE) e q w0))"

definition call_sync :: "flow_env \<Rightarrow> string \<Rightarrow> int \<Rightarrow> int \<Rightarrow> flow \<Rightarrow> bool \<times> flow" where
  "call_sync env e r v w =
     (let w0 = interfere env C_SYNC w; (ok, w1) = syncCounter (cache_net env C_SYNC) e r v w0
      in (ok, record_call (OpSync e r v) ok w0 w1))"

definition call_version :: "flow_env \<Rightarrow> string \<Rightarrow> flow \<Rightarrow> int option \<times> flow" where
  "call_version env e w = getCounterVersion (cache_net env C_ANCHOR) e (interfere env C_ANCHOR w)"

definition call_reserve_type ::
    "flow_env \<Rightarrow> string \<Rightarrow> string \<Rightarrow> int \<Rightarrow> flow \<Rightarrow> (ReserveOutcome \<times> int option) \<times> flow" where
  "call_reserve_type env e t q w =
     (let w0 = interfere env C_RESERVE w; (r, w1) = reserveTicketType (cache_net env C_RESERVE) e t q w0
      in (r, record_call (OpReserveTT e t q) (fst r = Reserved) w0 w1))"

definition call_release_type :: "flow_env \<Rightarrow> string \<Rightarrow> string \<Rightarrow> int \<Rightarrow> flow \<Rightarrow> bool \<times> flow" where
  "call_release_type env e t q w =
     (let w0 = interfere env C_RELEASE w; (ok, w1) = releaseTicketType (cache_net env C_RELEASE) e t q w0
      in (ok, record_call (OpReleaseTT e t q) ok w0 w1))"

definition call_sync_type :: "flow_env \<Rightarrow> string \<Rightarrow> string \<Rightarrow> int \<Rightarrow> int \<Rightarrow> flow \<Rightarrow> bool \<times> flow" where
  "call_sync_type env e t r v w =
     (let w0 = interfere env C_SYNC w; (ok, w1) = syncTicketTypeCounter (cache_net env C_SYNC) e t r v w0
      in (ok, record_call (OpSyncTT e t r v) ok w0 w1))"

definition call_revision :: "flow_env \<Rightarrow> string \<Rightarrow> string \<Rightarrow> flow \<Rightarrow> int option \<times> flow" where
  "call_revision env e t w = getTicketTypeCounterRevision (cache_net env C_ANCHOR) e t (interfere env C_ANCHOR w)"

definition call_transaction ::
    "flow_env \<Rightarrow> ParsedPurchaseInput \<Rightarrow> flow \<Rightarrow> PurchaseTransactionOutcome result \<times> flow" where
  "call_transaction env i w =
     (let (r, s) = executePurchaseTransaction (tx env) i (db w) in (r, w\<lparr>db := s\<rparr>))"

section \<open>After the transaction\<close>

definition status_text :: "string option \<Rightarrow> string" where
  "status_text reason = (case reason of None \<Rightarrow> ''unknown'' | Some r \<Rightarrow> r)"

definition emitPurchaseOutcomeMetrics :: "PurchaseTransactionOutcome \<Rightarrow> flow \<Rightarrow> flow" where
  "emitPurchaseOutcomeMetrics outcome w =
     (if r_status (o_result outcome) = Confirmed then emitMetric ''PurchaseConfirmed'' [] w
      else (let w1 = emitMetric ''PurchaseRejected''
                       [(''Reason'', status_text (rejectionReason (o_result outcome)))] w
            in if o_disposition outcome = Created then emitMetric ''PurchaseRejectedPersisted'' [] w1 else w1))"

definition maybeMarkRequestSeen ::
    "flow_env \<Rightarrow> ParsedPurchaseInput \<Rightarrow> PurchaseResult \<Rightarrow> flow \<Rightarrow> flow" where
  "maybeMarkRequestSeen env i r w =
     (case in_requestId i of
        Some rid \<Rightarrow>
          if purchaseId r \<noteq> None
          then (let w0 = interfere env C_MARK w
                in record_call (OpMark (in_buyerId i) (in_eventId i) rid) True w0
                     (markRequestSeen (cache_net env C_MARK) (in_buyerId i) (in_eventId i) rid w0))
          else w
      | None \<Rightarrow> w)"

definition json_option :: "('a \<Rightarrow> jsval) \<Rightarrow> 'a option \<Rightarrow> jsval" where
  "json_option f x = (case x of None \<Rightarrow> JNull | Some v \<Rightarrow> f v)"

definition ticket_purchased_detail :: "PurchaseResult \<Rightarrow> (string \<times> jsval) list" where
  "ticket_purchased_detail r =
     [(''eventId'', JString (r_eventId r)), (''purchaseId'', json_option JString (purchaseId r)),
      (''quantity'', jsint (r_quantity r)), (''remainingQuantity'', json_option jsint (remainingQuantity r))]"

definition change_payload :: "string \<Rightarrow> PurchaseInventoryChange \<Rightarrow> VersionedInventoryChangedPayload" where
  "change_payload e c = buildVersionedInventoryChangedDetail e (ic_ticketTypeId c) (ic_ticketTypeName c)
     (ic_ticketTypeTotalQuantity c) (ic_ticketTypeRemainingQuantity c) (ic_inventoryVersion c)
     (ic_eventTotalQuantity c) (ic_eventRemainingQuantity c) (ic_eventInventoryVersion c)"

definition publishPurchaseDomainEvents :: "flow_env \<Rightarrow> PurchaseTransactionOutcome \<Rightarrow> flow \<Rightarrow> flow" where
  "publishPurchaseDomainEvents env outcome w =
     (case inventoryChange outcome of
        Some c \<Rightarrow>
          if r_status (o_result outcome) \<noteq> Confirmed \<or> o_disposition outcome \<noteq> Created then w
          else publish (put_inventory env) ''InventoryChanged''
                 (payload_fields (change_payload (r_eventId (o_result outcome)) c))
                 (publish (put_purchased env) ''TicketPurchased''
                    (ticket_purchased_detail (o_result outcome)) w)
      | None \<Rightarrow> w)"

definition precheck_rejection :: "ParsedPurchaseInput \<Rightarrow> PurchaseResult" where
  "precheck_rejection i = \<lparr>purchaseId = None, r_eventId = in_eventId i, r_buyerId = in_buyerId i,
     r_quantity = in_quantity i, r_status = Rejected, rejectionReason = Some ''sold_out_precheck'',
     remainingQuantity = None\<rparr>"

section \<open>The database-only path\<close>

definition createPurchaseDbOnly ::
    "flow_env \<Rightarrow> ParsedPurchaseInput \<Rightarrow> flow \<Rightarrow> PurchaseResult result \<times> flow" where
  "createPurchaseDbOnly env i w =
     (case call_transaction env i w of
        (Inl e, w1) \<Rightarrow> (Inl e, w1)
      | (Inr outcome, w1) \<Rightarrow>
          (Inr (o_result outcome),
           publishPurchaseDomainEvents env outcome
             (maybeMarkRequestSeen env i (o_result outcome) (emitPurchaseOutcomeMetrics outcome w1))))"

section \<open>The legacy path\<close>

text \<open>The branches between the marker and the publish of \<open>createPurchaseLegacy\<close>.\<close>

definition reconcile_legacy ::
    "flow_env \<Rightarrow> ParsedPurchaseInput \<Rightarrow> bool \<Rightarrow> int option \<Rightarrow> PurchaseTransactionOutcome \<Rightarrow> flow \<Rightarrow> flow" where
  "reconcile_legacy env i reserved counterVersion outcome w =
     (if o_disposition outcome = Replayed
      then (if reserved then call_release env (in_eventId i) (in_quantity i) w else w)
      else (case (r_status (o_result outcome), compatibilityRemainingQuantity outcome) of
          (Confirmed, Some r) \<Rightarrow>
            (case counterVersion of
               Some v \<Rightarrow> if \<not> reserved then snd (call_sync env (in_eventId i) r v w) else w
             | None \<Rightarrow> w)
        | (Rejected, Some r) \<Rightarrow>
            if reserved
            then (let (synced, w1) = (case counterVersion of
                        Some v \<Rightarrow> call_sync env (in_eventId i) r v w | None \<Rightarrow> (False, w))
                  in if \<not> synced then call_release env (in_eventId i) (in_quantity i) w1 else w1)
            else w
        | _ \<Rightarrow> w))"

text \<open>From the transaction on.\<close>

definition transactLegacy ::
    "flow_env \<Rightarrow> ParsedPurchaseInput \<Rightarrow> bool \<Rightarrow> int option \<Rightarrow> flow \<Rightarrow> PurchaseResult result \<times> flow" where
  "transactLegacy env i reserved counterVersion w =
     (case call_transaction env i w of
        (Inl e, w4) \<Rightarrow>
          (Inl e, if reserved then call_release env (in_eventId i) (in_quantity i) w4 else w4)
      | (Inr outcome, w4) \<Rightarrow>
          (let w5 = maybeMarkRequestSeen env i (o_result outcome) (emitPurchaseOutcomeMetrics outcome w4);
               w6 = reconcile_legacy env i reserved counterVersion outcome w5
           in (Inr (o_result outcome), publishPurchaseDomainEvents env outcome w6)))"

definition createPurchaseLegacy ::
    "flow_env \<Rightarrow> ParsedPurchaseInput \<Rightarrow> flow \<Rightarrow> PurchaseResult result \<times> flow" where
  "createPurchaseLegacy env i w =
     (let (outcome0, w1) = call_reserve env (in_eventId i) (in_quantity i) w
      in if outcome0 = SoldOut \<and> in_requestId i = None
         then (Inr (precheck_rejection i),
               emitMetric ''PurchaseRejected'' [(''Reason'', ''sold_out_precheck'')] w1)
         else
           (let w2 = (if outcome0 = SoldOut then emitMetric ''PurchaseSoldOutToPostgres'' [] w1 else w1);
                (counterVersion, w3) = call_version env (in_eventId i) w2
            in transactLegacy env i (outcome0 = Reserved) counterVersion w3))"

section \<open>The Ticket Type path\<close>

definition compensateTicketTypeRelease :: "flow_env \<Rightarrow> string \<Rightarrow> string \<Rightarrow> int \<Rightarrow> flow \<Rightarrow> flow" where
  "compensateTicketTypeRelease env e t q w =
     (let (ok, w1) = call_release_type env e t q w
      in if \<not> ok then emitMetric ''CompensationFailure'' [(''Operation'', ''releaseTicketType'')] w1 else w1)"

text \<open>\<open>prefilter\<close> is the Type of the pre-filter's scope, \<open>reserved\<close> the gate.\<close>

definition reconcileTicketTypeCounter ::
    "flow_env \<Rightarrow> ParsedPurchaseInput \<Rightarrow> string option \<Rightarrow> bool \<Rightarrow> int option \<Rightarrow> int option
       \<Rightarrow> PurchaseTransactionOutcome \<Rightarrow> flow \<Rightarrow> flow" where
  "reconcileTicketTypeCounter env i prefilter reserved reservedRevision preTransactionRevision outcome w0 =
     (let e = in_eventId i; q = in_quantity i;
          hasReservation = (reserved \<and> prefilter \<noteq> None);
          usedTicketTypeWriter = (writerModeUsed outcome = TicketTypeMode);
          w = (if \<not> usedTicketTypeWriter then emitMetric ''WriterModeMismatch'' [] w0 else w0);
          release_it = (\<lambda>w'. if hasReservation then compensateTicketTypeRelease env e (the prefilter) q w' else w')
      in if o_disposition outcome = Replayed then release_it w
         else if prefilter \<noteq> None \<and> resolvedTicketTypeId outcome \<noteq> None \<and> prefilter \<noteq> resolvedTicketTypeId outcome
         then release_it (emitMetric ''TicketTypeScopeMismatch'' [] w)
         else if r_status (o_result outcome) = Confirmed
         then (if hasReservation then w
               else (case (prefilter, ticketTypeRemainingQuantity outcome, preTransactionRevision) of
                   (Some t, Some r, Some v) \<Rightarrow>
                     if usedTicketTypeWriter then snd (call_sync_type env e t r v w) else w
                 | _ \<Rightarrow> w))
         else if hasReservation
         then (let (synced, w1) =
                 (case (ticketTypeRemainingQuantity outcome, reservedRevision) of
                    (Some r, Some v) \<Rightarrow>
                      if usedTicketTypeWriter then call_sync_type env e (the prefilter) r v w else (False, w)
                  | _ \<Rightarrow> (False, w))
               in if \<not> synced then compensateTicketTypeRelease env e (the prefilter) q w1 else w1)
         else w)"

definition prefilter_type :: "ParsedPurchaseInput \<Rightarrow> PrefilterScope \<Rightarrow> string option" where
  "prefilter_type i sc =
     (case in_ticketTypeId i of
        Some t \<Rightarrow> Some t
      | None \<Rightarrow> (case sc of SingleType t \<Rightarrow> Some t | MultiType \<Rightarrow> None))"

text \<open>From the transaction on, with the gate, the reserved revision and the anchor revision.\<close>

definition transactTicketType ::
    "flow_env \<Rightarrow> ParsedPurchaseInput \<Rightarrow> string option \<Rightarrow> bool \<Rightarrow> int option \<Rightarrow> int option \<Rightarrow> flow
       \<Rightarrow> PurchaseResult result \<times> flow" where
  "transactTicketType env i prefilter reserved reservedRevision preTransactionRevision w =
     (case call_transaction env i w of
        (Inl e, w4) \<Rightarrow>
          (Inl e, if reserved \<and> prefilter \<noteq> None
                  then compensateTicketTypeRelease env (in_eventId i) (the prefilter) (in_quantity i) w4
                  else w4)
      | (Inr outcome, w4) \<Rightarrow>
          (let w5 = maybeMarkRequestSeen env i (o_result outcome) (emitPurchaseOutcomeMetrics outcome w4);
               w6 = reconcileTicketTypeCounter env i prefilter reserved reservedRevision
                      preTransactionRevision outcome w5
           in (Inr (o_result outcome), publishPurchaseDomainEvents env outcome w6)))"

definition createPurchaseTicketType ::
    "flow_env \<Rightarrow> ParsedPurchaseInput \<Rightarrow> PrefilterScope \<Rightarrow> flow \<Rightarrow> PurchaseResult result \<times> flow" where
  "createPurchaseTicketType env i sc w =
     (let prefilter = prefilter_type i sc;
          ((outcome0, reservedRevision), w1) = (case prefilter of
             Some t \<Rightarrow> call_reserve_type env (in_eventId i) t (in_quantity i) w
           | None \<Rightarrow> ((Unknown, None), w))
      in if outcome0 = SoldOut \<and> in_requestId i = None
         then (Inr (precheck_rejection i),
               emitMetric ''PurchaseRejected'' [(''Reason'', ''sold_out_precheck'')] w1)
         else
           (let w2 = (if outcome0 = SoldOut then emitMetric ''PurchaseSoldOutToPostgres'' [] w1 else w1);
                reserved = (outcome0 = Reserved);
                (preTransactionRevision, w3) = (case prefilter of
                   Some t \<Rightarrow> if \<not> reserved then call_revision env (in_eventId i) t w2 else (None, w2)
                 | None \<Rightarrow> (None, w2))
            in transactTicketType env i prefilter reserved reservedRevision preTransactionRevision w3))"

section \<open>The request\<close>

text \<open>
  \<open>resolved\<close> is what \<open>resolvePrefilterPlan\<close> returns; any plan is possible, since a plan served from
  the resolver's cache may be out of date.
\<close>

definition createPurchase ::
    "flow_env \<Rightarrow> PrefilterPlan result \<Rightarrow> string \<Rightarrow> string \<Rightarrow> jsval \<Rightarrow> jsval \<Rightarrow> flow \<Rightarrow> PurchaseResult result \<times> flow" where
  "createPurchase env resolved eventId buyerId body ticketTypeId w =
     (case parsePurchaseInput eventId buyerId body ticketTypeId of
        Inl e \<Rightarrow> (Inl e, w)
      | Inr i \<Rightarrow>
          (case resolved of
             Inl _ \<Rightarrow> createPurchaseDbOnly env i (emitMetric ''PrefilterBypass'' [(''Reason'', ''resolver_error'')] w)
           | Inr (TicketTypePlan sc) \<Rightarrow> createPurchaseTicketType env i sc w
           | Inr LegacyPlan \<Rightarrow> createPurchaseLegacy env i w))"


section \<open>Frames\<close>

text \<open>A cache call touches the key space and the metrics only.\<close>

definition same_rest :: "flow \<Rightarrow> flow \<Rightarrow> bool" where
  "same_rest w w' \<longleftrightarrow> db w' = db w \<and> calls w' = calls w \<and> moves w' = moves w \<and> client_enabled w' = client_enabled w \<and> bus w' = bus w \<and> bus_enabled w' = bus_enabled w
     \<and> trace_context w' = trace_context w"

lemma same_rest_simps [simp]:
  "same_rest w w" "same_rest w (emitMetric n d w) " "same_rest w (fail_open n w)" "same_rest w (w\<lparr>vk := v\<rparr>)"
  "same_rest w (fail_open n (w\<lparr>vk := v\<rparr>))" "same_rest w (interfere env c w)"
  by (simp_all add: same_rest_def emitMetric_def fail_open_def interfere_def)

lemma same_rest_trans: "same_rest w w' \<Longrightarrow> same_rest w' w'' \<Longrightarrow> same_rest w w''"
  by (simp add: same_rest_def)

lemma cache_calls_same_rest:
  "same_rest w (snd (reserve net e q w))"
  "same_rest w (release net e q w)"
  "same_rest w (snd (syncCounter net e r v w))"
  "same_rest w (snd (getCounterVersion net e w))"
  "same_rest w (snd (reserveTicketType net e t q w))"
  "same_rest w (snd (releaseTicketType net e t q w))"
  "same_rest w (snd (syncTicketTypeCounter net e t r v w))"
  "same_rest w (snd (getTicketTypeCounterRevision net e t w))"
  "same_rest w (markRequestSeen net b e i w)"
  by (cases net; simp add: service_defs split: prod.split option.split)+

definition own_calls :: "flow \<Rightarrow> flow \<Rightarrow> (cache_op \<times> bool) list" where
  "own_calls w w' = drop (length (calls w)) (calls w')"

text \<open>\<open>adds w cs w'\<close>: the step issues the cache operations \<open>cs\<close> and leaves database and bus alone.\<close>

definition adds :: "flow \<Rightarrow> (cache_op \<times> bool) list \<Rightarrow> flow \<Rightarrow> bool" where
  "adds w cs w' \<longleftrightarrow> db w' = db w \<and> calls w' = calls w @ cs \<and> bus w' = bus w \<and> bus_enabled w' = bus_enabled w
     \<and> trace_context w' = trace_context w"

lemma adds_Nil [simp]: "adds w [] w"
  by (simp add: adds_def)

lemma adds_trans: "adds w cs w' \<Longrightarrow> adds w' ds w'' \<Longrightarrow> adds w (cs @ ds) w''"
  by (simp add: adds_def)

lemma adds_metric [simp]: "adds w cs (emitMetric n d w') = adds w cs w'"
  by (simp add: adds_def emitMetric_def)

lemma adds_record: "same_rest w w' \<Longrightarrow> adds w [(op, ok)] (record_call op ok w0 w')"
  by (simp add: adds_def same_rest_def record_call_def)

lemma same_rest_call:
  "same_rest w (snd (reserve net e q (interfere env c w)))"
  "same_rest w (release net e q (interfere env c w))"
  "same_rest w (snd (syncCounter net e r v (interfere env c w)))"
  "same_rest w (snd (getCounterVersion net e (interfere env c w)))"
  "same_rest w (snd (reserveTicketType net e t q (interfere env c w)))"
  "same_rest w (snd (releaseTicketType net e t q (interfere env c w)))"
  "same_rest w (snd (syncTicketTypeCounter net e t r v (interfere env c w)))"
  "same_rest w (snd (getTicketTypeCounterRevision net e t (interfere env c w)))"
  "same_rest w (markRequestSeen net b e i (interfere env c w))"
  by (rule same_rest_trans, rule same_rest_simps, rule cache_calls_same_rest)+

lemma call_adds:
  "call_reserve env e q w = (o0, w') \<Longrightarrow> adds w [(OpReserve e q, o0 = Reserved)] w'"
  "adds w [(OpRelease e q, True)] (call_release env e q w)"
  "call_sync env e r v w = (ok, w') \<Longrightarrow> adds w [(OpSync e r v, ok)] w'"
  "call_version env e w = (ver, w') \<Longrightarrow> adds w [] w'"
  "call_reserve_type env e t q w = ((o0, rv), w') \<Longrightarrow> adds w [(OpReserveTT e t q, o0 = Reserved)] w'"
  "call_release_type env e t q w = (ok, w') \<Longrightarrow> adds w [(OpReleaseTT e t q, ok)] w'"
  "call_sync_type env e t r v w = (ok, w') \<Longrightarrow> adds w [(OpSyncTT e t r v, ok)] w'"
  "call_revision env e t w = (ver, w') \<Longrightarrow> adds w [] w'"
proof -
  show "call_reserve env e q w = (o0, w') \<Longrightarrow> adds w [(OpReserve e q, o0 = Reserved)] w'"
    using same_rest_call(1) [where w = w and env = env and c = C_RESERVE and net = "cache_net env C_RESERVE" and e = e and q = q]
    by (auto simp: call_reserve_def adds_record Let_def split: prod.splits)
  show "adds w [(OpRelease e q, True)] (call_release env e q w)"
    using same_rest_call(2) by (simp add: call_release_def adds_record Let_def)
  show "call_sync env e r v w = (ok, w') \<Longrightarrow> adds w [(OpSync e r v, ok)] w'"
    using same_rest_call(3) [where w = w and env = env and c = C_SYNC and net = "cache_net env C_SYNC" and e = e and r = r and v = v]
    by (auto simp: call_sync_def adds_record Let_def split: prod.splits)
  show "call_version env e w = (ver, w') \<Longrightarrow> adds w [] w'"
    using same_rest_call(4) [where w = w and env = env and c = C_ANCHOR and net = "cache_net env C_ANCHOR" and e = e]
    by (auto simp: call_version_def adds_def same_rest_def)
  show "call_reserve_type env e t q w = ((o0, rv), w') \<Longrightarrow> adds w [(OpReserveTT e t q, o0 = Reserved)] w'"
    using same_rest_call(5) [where w = w and env = env and c = C_RESERVE and net = "cache_net env C_RESERVE" and e = e and t = t and q = q]
    by (auto simp: call_reserve_type_def adds_record Let_def split: prod.splits)
  show "call_release_type env e t q w = (ok, w') \<Longrightarrow> adds w [(OpReleaseTT e t q, ok)] w'"
    using same_rest_call(6) [where w = w and env = env and c = C_RELEASE and net = "cache_net env C_RELEASE" and e = e and t = t and q = q]
    by (auto simp: call_release_type_def adds_record Let_def split: prod.splits)
  show "call_sync_type env e t r v w = (ok, w') \<Longrightarrow> adds w [(OpSyncTT e t r v, ok)] w'"
    using same_rest_call(7) [where w = w and env = env and c = C_SYNC and net = "cache_net env C_SYNC" and e = e and t = t and r = r and v = v]
    by (auto simp: call_sync_type_def adds_record Let_def split: prod.splits)
  show "call_revision env e t w = (ver, w') \<Longrightarrow> adds w [] w'"
    using same_rest_call(8) [where w = w and env = env and c = C_ANCHOR and net = "cache_net env C_ANCHOR" and e = e and t = t]
    by (auto simp: call_revision_def adds_def same_rest_def)
qed


section \<open>What each part of a request adds\<close>

lemma call_transaction_adds:
  assumes "executePurchaseTransaction (tx env) i (db w) = (tr, s')"
  shows "call_transaction env i w = (tr, w\<lparr>db := s'\<rparr>)"
  using assms by (simp add: call_transaction_def)

lemma outcome_metrics_adds [simp]: "adds w cs (emitPurchaseOutcomeMetrics out w') = adds w cs w'"
  by (simp add: emitPurchaseOutcomeMetrics_def Let_def)

lemma mark_adds:
  "\<exists>ms. adds w ms (maybeMarkRequestSeen env i r w) \<and> ms \<in> {[], [(OpMark (in_buyerId i) (in_eventId i) (the (in_requestId i)), True)]}"
proof (cases "in_requestId i")
  case (Some rid)
  show ?thesis
  proof (cases "purchaseId r")
    case None
    with Some show ?thesis by (intro exI [of _ "[]"]) (simp add: maybeMarkRequestSeen_def)
  next
    case (Some pid)
    with \<open>in_requestId i = Some rid\<close> show ?thesis
      by (intro exI [of _ "[(OpMark (in_buyerId i) (in_eventId i) rid, True)]"])
        (simp add: maybeMarkRequestSeen_def adds_record same_rest_call Let_def)
  qed
qed (intro exI [of _ "[]"], simp add: maybeMarkRequestSeen_def)

definition purchase_events :: "flow_env \<Rightarrow> PurchaseTransactionOutcome \<Rightarrow> flow \<Rightarrow> (string \<times> jsval) list" where
  "purchase_events env outcome w =
     (case inventoryChange outcome of
        None \<Rightarrow> []
      | Some c \<Rightarrow>
          if r_status (o_result outcome) \<noteq> Confirmed \<or> o_disposition outcome \<noteq> Created \<or> \<not> bus_enabled w then []
          else (if put_purchased env = PutOk \<or> put_purchased env = PutThrows True
                then [(''TicketPurchased'', JObject (detailWithTrace (trace_context w) (ticket_purchased_detail (o_result outcome))))]
                else [])
             @ (if put_inventory env = PutOk \<or> put_inventory env = PutThrows True
                then [(''InventoryChanged'', JObject (detailWithTrace (trace_context w)
                         (payload_fields (change_payload (r_eventId (o_result outcome)) c))))]
                else []))"

lemma publish_flow [simp]: "db (publish r t d w) = db w" "calls (publish r t d w) = calls w"
  using publish_frame(5) [of r t d w] by (auto simp: publish_def emitPublishOutcome_def accept_event_def emitMetric_def
      Let_def split: put_reply.split)

lemma publish_purchase_events:
  "bus (publishPurchaseDomainEvents env out w) = bus w @ purchase_events env out w"
  "db (publishPurchaseDomainEvents env out w) = db w"
  "calls (publishPurchaseDomainEvents env out w) = calls w"
  by (auto simp: publishPurchaseDomainEvents_def purchase_events_def publish_bus split: option.split)

lemma purchase_events_cong:
  "bus_enabled w' = bus_enabled w \<Longrightarrow> trace_context w' = trace_context w \<Longrightarrow> purchase_events env out w' = purchase_events env out w"
  unfolding purchase_events_def by (elim ssubst) (rule refl)

section \<open>The reservation of the Ticket Type path\<close>

text \<open>The transaction consumed the reserved tickets: it created a confirmed purchase of that Type.\<close>

definition consumed :: "PurchaseTransactionOutcome result \<Rightarrow> string \<Rightarrow> bool" where
  "consumed tr t = (case tr of
       Inl _ \<Rightarrow> False
     | Inr out \<Rightarrow> o_disposition out = Created \<and> r_status (o_result out) = Confirmed \<and> resolvedTicketTypeId out = Some t)"

text \<open>How a reservation that was not consumed ends: released once, or replaced by a sync.\<close>

definition handed_back :: "string \<Rightarrow> string \<Rightarrow> int \<Rightarrow> (cache_op \<times> bool) list \<Rightarrow> bool" where
  "handed_back e t q cs \<longleftrightarrow>
     (\<exists>ok. cs = [(OpReleaseTT e t q, ok)])
   \<or> (\<exists>r v. cs = [(OpSyncTT e t r v, True)])
   \<or> (\<exists>r v ok. cs = [(OpSyncTT e t r v, False), (OpReleaseTT e t q, ok)])"

text \<open>When a sync may be issued.\<close>

definition sync_allowed :: "PurchaseTransactionOutcome \<Rightarrow> string \<Rightarrow> int \<Rightarrow> bool" where
  "sync_allowed out t r \<longleftrightarrow> writerModeUsed out = TicketTypeMode \<and> o_disposition out = Created
     \<and> resolvedTicketTypeId out = Some t \<and> ticketTypeRemainingQuantity out = Some r"

lemma compensate_adds:
  "\<exists>ok. adds w [(OpReleaseTT e t q, ok)] (compensateTicketTypeRelease env e t q w)"
proof -
  obtain ok w1 where c: "call_release_type env e t q w = (ok, w1)" by fastforce
  from call_adds(6) [OF c] show ?thesis
    by (auto simp: compensateTicketTypeRelease_def c intro!: exI [of _ ok])
qed

text \<open>A reservation made for Type \<open>t\<close>.\<close>

lemma reconcile_reserved:
  assumes "resolvedTicketTypeId out \<noteq> None"
  shows "\<exists>cs. adds w cs (reconcileTicketTypeCounter env i (Some t) True rv pre out w)
    \<and> (if consumed (Inr out) t then cs = [] else handed_back (in_eventId i) t (in_quantity i) cs)
    \<and> (\<forall>e u r v ok. (OpSyncTT e u r v, ok) \<in> set cs \<longrightarrow> e = in_eventId i \<and> u = t \<and> sync_allowed out t r)"
proof -
  define w1 where "w1 = (if writerModeUsed out \<noteq> TicketTypeMode then emitMetric ''WriterModeMismatch'' [] w else w)"
  have w1: "\<And>cs x. adds w1 cs x = adds w cs x" by (auto simp: w1_def adds_def emitMetric_def)
  define w2 where "w2 = emitMetric ''TicketTypeScopeMismatch'' [] w1"
  have w2: "\<And>cs x. adds w2 cs x = adds w cs x" using w1 by (auto simp: w2_def adds_def emitMetric_def)
  let ?e = "in_eventId i" and ?q = "in_quantity i"
  obtain ok1 where c1: "adds w [(OpReleaseTT ?e t ?q, ok1)] (compensateTicketTypeRelease env ?e t ?q w1)"
    using compensate_adds [of w1] unfolding w1 by blast
  obtain ok2 where c2: "adds w [(OpReleaseTT ?e t ?q, ok2)] (compensateTicketTypeRelease env ?e t ?q w2)"
    using compensate_adds [of w2] unfolding w2 by blast
  note rec = reconcileTicketTypeCounter_def [of env i "Some t" True rv pre out w, unfolded Let_def, folded w1_def w2_def]
  consider (replayed) "o_disposition out = Replayed"
    | (mismatch) "o_disposition out = Created" "resolvedTicketTypeId out \<noteq> Some t"
    | (sold) "o_disposition out = Created" "resolvedTicketTypeId out = Some t" "r_status (o_result out) = Confirmed"
    | (cas) r v where "o_disposition out = Created" "resolvedTicketTypeId out = Some t" "r_status (o_result out) = Rejected"
        "writerModeUsed out = TicketTypeMode" "ticketTypeRemainingQuantity out = Some r" "rv = Some v"
    | (exact) "o_disposition out = Created" "resolvedTicketTypeId out = Some t" "r_status (o_result out) = Rejected"
        "writerModeUsed out \<noteq> TicketTypeMode \<or> ticketTypeRemainingQuantity out = None \<or> rv = None"
    by (cases "o_disposition out"; cases "r_status (o_result out)"; cases "ticketTypeRemainingQuantity out"; cases rv) auto
  then show ?thesis
  proof cases
    case replayed
    with c1 show ?thesis by (intro exI [of _ "[(OpReleaseTT ?e t ?q, ok1)]"]) (simp add: rec consumed_def handed_back_def)
  next
    case mismatch
    with c2 assms show ?thesis
      by (intro exI [of _ "[(OpReleaseTT ?e t ?q, ok2)]"]) (auto simp: rec consumed_def handed_back_def w2_def)
  next
    case sold
    then show ?thesis by (intro exI [of _ "[]"]) (simp add: rec consumed_def w1_def)
  next
    case cas
    obtain ok w3 where s: "call_sync_type env ?e t r v w1 = (ok, w3)" by fastforce
    have a: "adds w [(OpSyncTT ?e t r v, ok)] w3" using call_adds(7) [OF s] unfolding w1 .
    show ?thesis
    proof (cases ok)
      case True
      with cas a s show ?thesis
        unfolding rec
        by (intro exI [of _ "[(OpSyncTT ?e t r v, ok)]"]) (simp add: consumed_def handed_back_def sync_allowed_def)
    next
      case False
      obtain ok3 where "adds w3 [(OpReleaseTT ?e t ?q, ok3)] (compensateTicketTypeRelease env ?e t ?q w3)"
        using compensate_adds by blast
      from adds_trans [OF a this] False cas s show ?thesis
        unfolding rec
        by (intro exI [of _ "[(OpSyncTT ?e t r v, False), (OpReleaseTT ?e t ?q, ok3)]"])
          (simp add: consumed_def handed_back_def sync_allowed_def)
    qed
  next
    case exact
    with c1 show ?thesis
      by (intro exI [of _ "[(OpReleaseTT ?e t ?q, ok1)]"])
        (auto simp: rec consumed_def handed_back_def split: option.splits)
  qed
qed

text \<open>Without a reservation nothing is released; at most one sync is issued.\<close>

lemma reconcile_unreserved:
  assumes "resolvedTicketTypeId out \<noteq> None"
  shows "\<exists>cs. adds w cs (reconcileTicketTypeCounter env i pf False rv pre out w)
    \<and> (cs = [] \<or> (\<exists>t r v ok. cs = [(OpSyncTT (in_eventId i) t r v, ok)] \<and> pf = Some t \<and> sync_allowed out t r))"
proof -
  define w1 where "w1 = (if writerModeUsed out \<noteq> TicketTypeMode then emitMetric ''WriterModeMismatch'' [] w else w)"
  have w1: "\<And>cs x. adds w1 cs x = adds w cs x" by (auto simp: w1_def adds_def emitMetric_def)
  note rec = reconcileTicketTypeCounter_def [of env i pf False rv pre out w, unfolded Let_def, folded w1_def]
  show ?thesis
  proof (cases "\<exists>t r v. pf = Some t \<and> ticketTypeRemainingQuantity out = Some r \<and> pre = Some v
      \<and> writerModeUsed out = TicketTypeMode \<and> o_disposition out = Created \<and> resolvedTicketTypeId out = Some t
      \<and> r_status (o_result out) = Confirmed")
    case True
    then obtain t r v where c: "pf = Some t" "ticketTypeRemainingQuantity out = Some r" "pre = Some v"
      "writerModeUsed out = TicketTypeMode" "o_disposition out = Created" "resolvedTicketTypeId out = Some t"
      "r_status (o_result out) = Confirmed" by blast
    obtain ok w3 where s: "call_sync_type env (in_eventId i) t r v w1 = (ok, w3)" by fastforce
    have "adds w [(OpSyncTT (in_eventId i) t r v, ok)] w3" using call_adds(7) [OF s] unfolding w1 .
    with c s show ?thesis
      unfolding rec by (intro exI [of _ "[(OpSyncTT (in_eventId i) t r v, ok)]"]) (simp add: sync_allowed_def)
  next
    case False
    have "adds w [] w1" "adds w [] (emitMetric ''TicketTypeScopeMismatch'' [] w1)" by (simp_all add: w1_def)
    moreover have "o_disposition out \<noteq> Replayed \<Longrightarrow> o_disposition out = Created" by (cases "o_disposition out") simp_all
    ultimately show ?thesis using False assms
      by (intro exI [of _ "[]"]) (auto simp: rec split: option.splits)
  qed
qed


section \<open>The shape of a request\<close>

text \<open>A request that reaches the transaction issues the cache operations \<open>cs\<close>.\<close>

definition ran_transaction ::
    "flow_env \<Rightarrow> ParsedPurchaseInput \<Rightarrow> flow \<Rightarrow> (cache_op \<times> bool) list \<Rightarrow> PurchaseResult result \<Rightarrow> flow \<Rightarrow> bool" where
  "ran_transaction env i w cs r w' \<longleftrightarrow>
     (\<exists>tr. executePurchaseTransaction (tx env) i (db w) = (tr, db w') \<and> r = map_sum id o_result tr
       \<and> calls w' = calls w @ cs
       \<and> bus w' = bus w @ (case tr of Inl _ \<Rightarrow> [] | Inr out \<Rightarrow> purchase_events env out w))"

definition stopped_early ::
    "ParsedPurchaseInput \<Rightarrow> flow \<Rightarrow> (cache_op \<times> bool) list \<Rightarrow> PurchaseResult result \<Rightarrow> flow \<Rightarrow> bool" where
  "stopped_early i w cs r w' \<longleftrightarrow> r = Inr (precheck_rejection i) \<and> in_requestId i = None \<and> adds w cs w'"

lemma ran_to_the_end:
  assumes "adds w cs w3" "executePurchaseTransaction (tx env) i (db w) = (Inr out, s')" "adds (w3\<lparr>db := s'\<rparr>) ds w6"
  shows "ran_transaction env i w (cs @ ds) (Inr (o_result out)) (publishPurchaseDomainEvents env out w6)"
proof -
  have "bus_enabled w6 = bus_enabled w" "trace_context w6 = trace_context w" "bus w6 = bus w" "db w6 = s'"
    "calls w6 = calls w @ cs @ ds" using assms(1,3) by (simp_all add: adds_def)
  then show ?thesis
    using assms(2) purchase_events_cong [of w6 w env out]
    by (simp add: ran_transaction_def publish_purchase_events)
qed

lemma ran_and_threw:
  assumes "adds w cs w3" "executePurchaseTransaction (tx env) i (db w) = (Inl e, s')" "adds (w3\<lparr>db := s'\<rparr>) ds w6"
  shows "ran_transaction env i w (cs @ ds) (Inl e) w6"
  using assms by (simp add: ran_transaction_def adds_def)

lemma execute_resolved:
  assumes "executePurchaseTransaction env i s = (Inr out, s')"
  shows "resolvedTicketTypeId out \<noteq> None"
  using assms
proof (cases rule: execute_Inr)
  case body
  then show ?thesis
  proof (cases rule: purchase_tx_body_Committed)
    case (fresh mode)
    then show ?thesis by (elim purchase_tx_new_Committed) simp
  qed simp
next
  case (recovered e m)
  then show ?thesis using rollback_Inr by fastforce
qed

text \<open>The marker, when it is written.\<close>

definition only_marks :: "(cache_op \<times> bool) list \<Rightarrow> bool" where
  "only_marks cs = list_all (\<lambda>c. case fst c of OpMark b e r \<Rightarrow> True | _ \<Rightarrow> False) cs"

lemma only_marks_Nil: "only_marks []"
  by (simp add: only_marks_def)

lemma outcome_adds:
  "\<exists>ms. adds w ms (maybeMarkRequestSeen env i (o_result out) (emitPurchaseOutcomeMetrics out w)) \<and> only_marks ms"
proof -
  obtain ms where ms: "adds (emitPurchaseOutcomeMetrics out w) ms
      (maybeMarkRequestSeen env i (o_result out) (emitPurchaseOutcomeMetrics out w))"
    "ms \<in> {[], [(OpMark (in_buyerId i) (in_eventId i) (the (in_requestId i)), True)]}"
    using mark_adds by blast
  have "adds w [] (emitPurchaseOutcomeMetrics out w)" by simp
  from adds_trans [OF this ms(1)] ms(2) show ?thesis by (intro exI [of _ ms]) (auto simp: only_marks_def)
qed

section \<open>The protocol of the Ticket Type path\<close>

text \<open>
  What happens to the counters after the transaction answered \<open>tr\<close>: with a reservation for \<open>t\<close>,
  nothing if the transaction consumed it, otherwise it is handed back; without one, at most a
  sync; and a sync only when it is allowed.
\<close>

definition type_protocol ::
    "string \<Rightarrow> int \<Rightarrow> string option \<Rightarrow> bool \<Rightarrow> PurchaseTransactionOutcome result \<Rightarrow> (cache_op \<times> bool) list \<Rightarrow> bool" where
  "type_protocol e q pf reserved tr ds \<longleftrightarrow>
     (case pf of
        Some t \<Rightarrow>
          if reserved then (if consumed tr t then ds = [] else handed_back e t q ds)
          else ds = [] \<or> (\<exists>v x ok. ds = [(OpSyncTT e t v x, ok)])
      | None \<Rightarrow> ds = [])
   \<and> (\<forall>e' t v x ok. (OpSyncTT e' t v x, ok) \<in> set ds \<longrightarrow> e' = e \<and> pf = Some t
        \<and> (\<exists>out. tr = Inr out \<and> sync_allowed out t v))"

lemma reconcile_protocol:
  assumes "resolvedTicketTypeId out \<noteq> None" "reserved \<Longrightarrow> pf \<noteq> None"
  shows "\<exists>ds. adds w ds (reconcileTicketTypeCounter env i pf reserved rv pre out w)
    \<and> type_protocol (in_eventId i) (in_quantity i) pf reserved (Inr out) ds"
proof (cases reserved)
  case True
  then obtain t where "pf = Some t" using assms(2) by blast
  obtain ds where ds: "adds w ds (reconcileTicketTypeCounter env i (Some t) True rv pre out w)"
    "if consumed (Inr out) t then ds = [] else handed_back (in_eventId i) t (in_quantity i) ds"
    "\<forall>e u r v ok. (OpSyncTT e u r v, ok) \<in> set ds \<longrightarrow> e = in_eventId i \<and> u = t \<and> sync_allowed out t r"
    using reconcile_reserved [OF assms(1)] by blast
  then have "type_protocol (in_eventId i) (in_quantity i) pf reserved (Inr out) ds"
    unfolding type_protocol_def \<open>pf = Some t\<close> option.case using True by (intro conjI) (simp, blast)
  with ds(1) True \<open>pf = Some t\<close> show ?thesis by auto
next
  case False
  obtain ds where ds: "adds w ds (reconcileTicketTypeCounter env i pf reserved rv pre out w)"
    "ds = [] \<or> (\<exists>t v x ok. ds = [(OpSyncTT (in_eventId i) t v x, ok)] \<and> pf = Some t \<and> sync_allowed out t v)"
    using reconcile_unreserved [OF assms(1), of w env i pf rv pre] False by auto
  then show ?thesis using False by (intro exI [of _ ds]) (auto simp: type_protocol_def split: option.splits)
qed

lemma transact_type:
  assumes a3: "adds w cs w3" and tr: "executePurchaseTransaction (tx env) i (db w) = (tr, s')"
    and res: "reserved \<Longrightarrow> pf \<noteq> None" and run: "transactTicketType env i pf reserved rv pre w3 = (r, w')"
  shows "\<exists>ms ds. ran_transaction env i w (cs @ ms @ ds) r w' \<and> only_marks ms
    \<and> type_protocol (in_eventId i) (in_quantity i) pf reserved tr ds"
proof -
  have db3: "db w3 = db w" using a3 by (simp add: adds_def)
  note t3 = call_transaction_adds [of env i w3 tr s', unfolded db3, OF tr]
  note path = run [unfolded transactTicketType_def t3 prod.case]
  show ?thesis
  proof (cases tr)
    case (Inl e)
    show ?thesis
    proof (cases reserved)
      case True
      then obtain t where t: "pf = Some t" using res by blast
      obtain ok where "adds (w3\<lparr>db := s'\<rparr>) [(OpReleaseTT (in_eventId i) t (in_quantity i), ok)]
          (compensateTicketTypeRelease env (in_eventId i) t (in_quantity i) (w3\<lparr>db := s'\<rparr>))"
        using compensate_adds by blast
      from ran_and_threw [OF a3 tr [unfolded Inl] this] path Inl True t
      have "ran_transaction env i w (cs @ [] @ [(OpReleaseTT (in_eventId i) t (in_quantity i), ok)]) r w'" by auto
      moreover have "type_protocol (in_eventId i) (in_quantity i) pf reserved tr [(OpReleaseTT (in_eventId i) t (in_quantity i), ok)]"
        using Inl True t by (simp add: type_protocol_def consumed_def handed_back_def)
      ultimately show ?thesis using only_marks_Nil by blast
    next
      case False
      from ran_and_threw [OF a3 tr [unfolded Inl] adds_Nil] path Inl False
      have "ran_transaction env i w (cs @ [] @ []) r w'" by auto
      moreover have "type_protocol (in_eventId i) (in_quantity i) pf reserved tr []"
        using False by (simp add: type_protocol_def split: option.split)
      ultimately show ?thesis using only_marks_Nil by blast
    qed
  next
    case (Inr out)
    have resolved: "resolvedTicketTypeId out \<noteq> None" using execute_resolved tr Inr by blast
    define w5 where "w5 = maybeMarkRequestSeen env i (o_result out) (emitPurchaseOutcomeMetrics out (w3\<lparr>db := s'\<rparr>))"
    obtain ms where ms: "adds (w3\<lparr>db := s'\<rparr>) ms w5" "only_marks ms"
      unfolding w5_def using outcome_adds by blast
    obtain ds where ds: "adds w5 ds (reconcileTicketTypeCounter env i pf reserved rv pre out w5)"
      "type_protocol (in_eventId i) (in_quantity i) pf reserved (Inr out) ds"
      using reconcile_protocol [OF resolved res] by blast
    from ran_to_the_end [OF a3 tr [unfolded Inr] adds_trans [OF ms(1) ds(1)]] path Inr
    have "ran_transaction env i w (cs @ ms @ ds) r w'" by (simp add: w5_def)
    with ms(2) ds(2) Inr show ?thesis by blast
  qed
qed

text \<open>The cache operations before the transaction, and what follows it.\<close>

lemma ticket_type_path:
  assumes run: "createPurchaseTicketType env i sc w = (r, w')"
    and tr: "executePurchaseTransaction (tx env) i (db w) = (tr, s')"
  shows "\<exists>cs reserved. cs = (case prefilter_type i sc of None \<Rightarrow> []
           | Some t \<Rightarrow> [(OpReserveTT (in_eventId i) t (in_quantity i), reserved)])
     \<and> (reserved \<longrightarrow> prefilter_type i sc \<noteq> None)
     \<and> ((stopped_early i w cs r w' \<and> \<not> reserved)
      \<or> (\<exists>ms ds. ran_transaction env i w (cs @ ms @ ds) r w' \<and> only_marks ms
           \<and> type_protocol (in_eventId i) (in_quantity i) (prefilter_type i sc) reserved tr ds))"
proof -
  define pf where "pf = prefilter_type i sc"
  obtain o0 rv w1 where res: "(case pf of
             Some t \<Rightarrow> call_reserve_type env (in_eventId i) t (in_quantity i) w
           | None \<Rightarrow> ((Unknown, None), w)) = ((o0, rv), w1)" by (metis prod.collapse)
  define cs where "cs = (case pf of None \<Rightarrow> []
     | Some t \<Rightarrow> [(OpReserveTT (in_eventId i) t (in_quantity i), o0 = Reserved)])"
  have a1: "adds w cs w1"
    using res call_adds(5) by (auto simp: cs_def split: option.splits)
  have none: "o0 = Reserved \<Longrightarrow> pf \<noteq> None" using res by (cases pf) auto
  note path = run [unfolded createPurchaseTicketType_def Let_def, folded pf_def, unfolded res prod.case]
  show ?thesis
  proof (cases "o0 = SoldOut \<and> in_requestId i = None")
    case True
    then have "stopped_early i w cs r w'" using path a1 by (auto simp: stopped_early_def)
    with True show ?thesis unfolding pf_def [symmetric] cs_def by (intro exI [of _ "o0 = Reserved"] exI) auto
  next
    case False
    define w2 where "w2 = (if o0 = SoldOut then emitMetric ''PurchaseSoldOutToPostgres'' [] w1 else w1)"
    obtain pre w3 where anchor: "(case pf of
                   Some t \<Rightarrow> if \<not> o0 = Reserved then call_revision env (in_eventId i) t w2 else (None, w2)
                 | None \<Rightarrow> (None, w2)) = (pre, w3)" by fastforce
    have a2: "adds w cs w2" using a1 by (simp add: w2_def)
    have "adds w2 [] w3" using anchor call_adds(8) by (auto split: option.splits if_splits)
    with adds_trans [OF a2] have a3: "adds w cs w3" by fastforce
    have "transactTicketType env i pf (o0 = Reserved) rv pre w3 = (r, w')"
      using path False by (simp only: if_False w2_def [symmetric] anchor prod.case)
    from transact_type [OF a3 tr none this] obtain ms ds where "ran_transaction env i w (cs @ ms @ ds) r w'" "only_marks ms"
      "type_protocol (in_eventId i) (in_quantity i) pf (o0 = Reserved) tr ds" by blast
    then show ?thesis using none unfolding pf_def [symmetric] cs_def by (intro exI [of _ "o0 = Reserved"] exI) auto
  qed
qed


section \<open>The protocol of the legacy path\<close>

definition sold_new :: "PurchaseTransactionOutcome result \<Rightarrow> bool" where
  "sold_new tr = (case tr of
       Inl _ \<Rightarrow> False
     | Inr out \<Rightarrow> o_disposition out = Created \<and> r_status (o_result out) = Confirmed)"

definition handed_back_event :: "string \<Rightarrow> int \<Rightarrow> (cache_op \<times> bool) list \<Rightarrow> bool" where
  "handed_back_event e q cs \<longleftrightarrow>
     cs = [(OpRelease e q, True)]
   \<or> (\<exists>r v. cs = [(OpSync e r v, True)])
   \<or> (\<exists>r v. cs = [(OpSync e r v, False), (OpRelease e q, True)])"

definition legacy_protocol ::
    "string \<Rightarrow> int \<Rightarrow> bool \<Rightarrow> PurchaseTransactionOutcome result \<Rightarrow> (cache_op \<times> bool) list \<Rightarrow> bool" where
  "legacy_protocol e q reserved tr ds \<longleftrightarrow>
     (if reserved then (if sold_new tr then ds = [] else handed_back_event e q ds)
      else ds = [] \<or> (\<exists>v x ok. ds = [(OpSync e v x, ok)] \<and> sold_new tr))
   \<and> (\<forall>e' v x ok. (OpSync e' v x, ok) \<in> set ds \<longrightarrow> e' = e
        \<and> (\<exists>out. tr = Inr out \<and> o_disposition out = Created \<and> compatibilityRemainingQuantity out = Some v))"

lemma created_outcome_compat [simp]:
  "compatibilityRemainingQuantity (created_outcome env i t mode c active agg ch) = Some (ti_remaining agg)"
  "ticketTypeRemainingQuantity (created_outcome env i t mode c active agg ch) = (if mode = TicketTypeMode then Some active else None)"
  "purchaseId (o_result (created_outcome env i t mode c active agg ch)) = Some (new_purchase_id env)"
  "r_eventId (o_result (created_outcome env i t mode c active agg ch)) = in_eventId i"
  by (simp_all add: created_outcome_def)

lemma execute_compat:
  assumes "executePurchaseTransaction env i s = (Inr out, s')" "o_disposition out = Created"
  shows "compatibilityRemainingQuantity out \<noteq> None"
proof -
  obtain mode where "purchase_tx_new env i mode (tx_others env s) = Committed out s'"
    using execute_created [OF assms] by blast
  then show ?thesis by (elim purchase_tx_new_Committed) simp
qed

lemma reconcile_legacy_protocol:
  assumes "o_disposition out = Created \<Longrightarrow> compatibilityRemainingQuantity out \<noteq> None"
  shows "\<exists>ds. adds w ds (reconcile_legacy env i reserved ver out w)
    \<and> legacy_protocol (in_eventId i) (in_quantity i) reserved (Inr out) ds"
proof -
  let ?e = "in_eventId i" and ?q = "in_quantity i"
  have rel: "\<And>w. adds w [(OpRelease ?e ?q, True)] (call_release env ?e ?q w)" by (rule call_adds(2))
  show ?thesis
  proof (cases "o_disposition out")
    case Replayed
    then show ?thesis
      using rel by (intro exI [of _ "if reserved then [(OpRelease ?e ?q, True)] else []"])
        (auto simp: reconcile_legacy_def legacy_protocol_def sold_new_def handed_back_event_def)
  next
    case Created
    then obtain r where r: "compatibilityRemainingQuantity out = Some r" using assms by blast
    show ?thesis
    proof (cases ver)
      case None
      show ?thesis
      proof (cases "r_status (o_result out) = Rejected \<and> reserved")
        case True
        with Created r None rel show ?thesis
          by (intro exI [of _ "[(OpRelease ?e ?q, True)]"])
            (simp add: reconcile_legacy_def legacy_protocol_def sold_new_def handed_back_event_def)
      next
        case False
        then show ?thesis using Created r None
          by (cases "r_status (o_result out)"; intro exI [of _ "[]"])
            (auto simp: reconcile_legacy_def legacy_protocol_def sold_new_def)
      qed
    next
      case (Some v)
      obtain ok w2 where s: "call_sync env ?e r v w = (ok, w2)" by fastforce
      note a = call_adds(3) [OF s]
      show ?thesis
      proof (cases "r_status (o_result out)")
        case Confirmed
        show ?thesis
        proof (cases reserved)
          case False
          with Confirmed Created r Some s a show ?thesis
            by (intro exI [of _ "[(OpSync ?e r v, ok)]"]) (simp add: reconcile_legacy_def legacy_protocol_def sold_new_def)
        qed (use Confirmed Created r Some in \<open>intro exI [of _ "[]"], auto simp: reconcile_legacy_def legacy_protocol_def sold_new_def\<close>)
      next
        case Rejected
        show ?thesis
        proof (cases reserved)
          case True
          have "adds w ([(OpSync ?e r v, ok)] @ (if ok then [] else [(OpRelease ?e ?q, True)]))
              (if \<not> ok then call_release env ?e ?q w2 else w2)"
            using a adds_trans [OF a rel] by (cases ok) simp_all
          with True Rejected Created r Some s show ?thesis
            by (intro exI [of _ "[(OpSync ?e r v, ok)] @ (if ok then [] else [(OpRelease ?e ?q, True)])"])
              (auto simp: reconcile_legacy_def legacy_protocol_def sold_new_def handed_back_event_def)
        qed (use Rejected Created r Some in \<open>intro exI [of _ "[]"], auto simp: reconcile_legacy_def legacy_protocol_def sold_new_def\<close>)
      qed
    qed
  qed
qed

lemma transact_legacy:
  assumes a3: "adds w cs w3" and tr: "executePurchaseTransaction (tx env) i (db w) = (tr, s')"
    and run: "transactLegacy env i reserved ver w3 = (r, w')"
  shows "\<exists>ms ds. ran_transaction env i w (cs @ ms @ ds) r w' \<and> only_marks ms
    \<and> legacy_protocol (in_eventId i) (in_quantity i) reserved tr ds"
proof -
  have db3: "db w3 = db w" using a3 by (simp add: adds_def)
  note t3 = call_transaction_adds [of env i w3 tr s', unfolded db3, OF tr]
  note path = run [unfolded transactLegacy_def t3 prod.case]
  show ?thesis
  proof (cases tr)
    case (Inl e)
    define ds where "ds = (if reserved then [(OpRelease (in_eventId i) (in_quantity i), True)] else [])"
    have "adds (w3\<lparr>db := s'\<rparr>) ds (if reserved then call_release env (in_eventId i) (in_quantity i) (w3\<lparr>db := s'\<rparr>) else w3\<lparr>db := s'\<rparr>)"
      by (simp add: ds_def call_adds(2))
    from ran_and_threw [OF a3 tr [unfolded Inl] this] path Inl
    have "ran_transaction env i w (cs @ [] @ ds) r w'" by auto
    moreover have "legacy_protocol (in_eventId i) (in_quantity i) reserved tr ds"
      by (simp add: Inl ds_def legacy_protocol_def sold_new_def handed_back_event_def)
    ultimately show ?thesis using only_marks_Nil by blast
  next
    case (Inr out)
    have c: "o_disposition out = Created \<Longrightarrow> compatibilityRemainingQuantity out \<noteq> None"
      using execute_compat tr Inr by blast
    define w5 where "w5 = maybeMarkRequestSeen env i (o_result out) (emitPurchaseOutcomeMetrics out (w3\<lparr>db := s'\<rparr>))"
    obtain ms where ms: "adds (w3\<lparr>db := s'\<rparr>) ms w5" "only_marks ms"
      unfolding w5_def using outcome_adds by blast
    obtain ds where ds: "adds w5 ds (reconcile_legacy env i reserved ver out w5)"
      "legacy_protocol (in_eventId i) (in_quantity i) reserved (Inr out) ds"
      using reconcile_legacy_protocol [OF c] by blast
    from ran_to_the_end [OF a3 tr [unfolded Inr] adds_trans [OF ms(1) ds(1)]] path Inr
    have "ran_transaction env i w (cs @ ms @ ds) r w'" by (simp add: w5_def)
    with ms(2) ds(2) Inr show ?thesis by blast
  qed
qed

lemma legacy_path:
  assumes run: "createPurchaseLegacy env i w = (r, w')"
    and tr: "executePurchaseTransaction (tx env) i (db w) = (tr, s')"
  shows "\<exists>cs reserved. cs = [(OpReserve (in_eventId i) (in_quantity i), reserved)]
     \<and> ((stopped_early i w cs r w' \<and> \<not> reserved)
      \<or> (\<exists>ms ds. ran_transaction env i w (cs @ ms @ ds) r w' \<and> only_marks ms
           \<and> legacy_protocol (in_eventId i) (in_quantity i) reserved tr ds))"
proof -
  obtain o0 w1 where res: "call_reserve env (in_eventId i) (in_quantity i) w = (o0, w1)" by fastforce
  define cs where "cs = [(OpReserve (in_eventId i) (in_quantity i), o0 = Reserved)]"
  have a1: "adds w cs w1" unfolding cs_def by (rule call_adds(1) [OF res])
  note path = run [unfolded createPurchaseLegacy_def Let_def res prod.case]
  show ?thesis
  proof (cases "o0 = SoldOut \<and> in_requestId i = None")
    case True
    then have "stopped_early i w cs r w'" using path a1 by (auto simp: stopped_early_def)
    with True show ?thesis unfolding cs_def by (intro exI [of _ "o0 = Reserved"] exI) auto
  next
    case False
    define w2 where "w2 = (if o0 = SoldOut then emitMetric ''PurchaseSoldOutToPostgres'' [] w1 else w1)"
    obtain ver w3 where anchor: "call_version env (in_eventId i) w2 = (ver, w3)" by fastforce
    have "adds w cs w2" using a1 by (simp add: w2_def)
    from adds_trans [OF this call_adds(4) [OF anchor]] have a3: "adds w cs w3" by simp
    have "transactLegacy env i (o0 = Reserved) ver w3 = (r, w')"
      using path False by (simp only: if_False w2_def [symmetric] anchor prod.case)
    from transact_legacy [OF a3 tr this] show ?thesis unfolding cs_def by (intro exI [of _ "o0 = Reserved"] exI) auto
  qed
qed


section \<open>Every reservation is settled\<close>

lemma own_calls_adds: "calls w' = calls w @ cs \<Longrightarrow> own_calls w w' = cs"
  by (simp add: own_calls_def)

lemma stopped_early_calls: "stopped_early i w cs r w' \<Longrightarrow> calls w' = calls w @ cs"
  by (simp add: stopped_early_def adds_def)

lemma ran_transaction_calls: "ran_transaction env i w cs r w' \<Longrightarrow> calls w' = calls w @ cs"
  by (auto simp: ran_transaction_def)

subsection \<open>What the operations of one request do to the counter of its Type\<close>

definition moved :: "flow \<Rightarrow> (cache_op \<times> int option \<times> int option) list \<Rightarrow> flow \<Rightarrow> bool" where
  "moved w ms w' \<longleftrightarrow> moves w' = moves w @ ms \<and> client_enabled w' = client_enabled w"

lemma moved_Nil [simp]: "moved w [] w"
  by (simp add: moved_def)

lemma moved_trans: "moved w ms w' \<Longrightarrow> moved w' ns w'' \<Longrightarrow> moved w (ms @ ns) w''"
  by (simp add: moved_def)

lemma emitMetric_moves [simp]:
  fixes w :: flow
  shows "moves (emitMetric n d w) = moves w" "db (emitMetric n d w) = db w" "client_enabled (emitMetric n d w) = client_enabled w" "vk (emitMetric n d w) = vk w"
  by (simp_all add: emitMetric_def)

lemma moved_metric [simp]: "moved w ms (emitMetric n d w') = moved w ms w'" "moved (emitMetric n d w) ms w' = moved w ms w'"
  by (simp_all add: moved_def)

lemma same_rest_moved: "same_rest w w' \<Longrightarrow> moved w [] w'"
  by (simp add: same_rest_def moved_def)

lemma publish_moves [simp]:
  fixes w :: flow
  shows "moves (publish r t d w) = moves w" "client_enabled (publish r t d w) = client_enabled w"
  by (auto simp: publish_def emitPublishOutcome_def accept_event_def Let_def split: put_reply.split)

lemma publish_purchase_moved: "moved w ms (publishPurchaseDomainEvents env out w') = moved w ms w'"
  by (simp add: publishPurchaseDomainEvents_def moved_def split: option.split)

lemma outcome_metrics_moved [simp]: "moved w ms (emitPurchaseOutcomeMetrics out w') = moved w ms w'"
  by (simp add: emitPurchaseOutcomeMetrics_def Let_def)

text \<open>Taking \<open>q\<close> tickets from a counter that has as many; giving them back to one that still exists.\<close>

definition enough :: "int \<Rightarrow> int option \<Rightarrow> bool" where
  "enough q c = (case c of None \<Rightarrow> False | Some n \<Rightarrow> q \<le> n)"

definition take_tickets :: "int \<Rightarrow> int option \<Rightarrow> int option" where
  "take_tickets q c = (if enough q c then map_option (\<lambda>n. n - q) c else c)"

definition given_back :: "flow_env \<Rightarrow> string \<Rightarrow> string \<Rightarrow> int \<Rightarrow> cache_op \<times> int option \<times> int option \<Rightarrow> bool" where
  "given_back env e t q m \<longleftrightarrow>
     (\<exists>c. m = (OpReleaseTT e t q, c, if cache_net env C_RELEASE = LostRequest then c else map_option (\<lambda>n. n + q) c))"

lemma type_keys_differ [simp]: "ticketTypeCounterKey e t \<noteq> ticketTypeCounterRevisionKey e t"
  "ticketTypeCounterRevisionKey e t \<noteq> ticketTypeCounterKey e t"
  by (simp_all add: ticketTypeCounterKey_def ticketTypeCounterRevisionKey_def)

lemma reserve_type_moves:
  assumes "call_reserve_type env e t q w = ((o0, rv), w')"
  shows "let c = vk_get (ticketTypeCounterKey e t) (cache_others env C_RESERVE (vk w)) in
      moved w [(OpReserveTT e t q, c,
        if client_enabled w \<and> cache_net env C_RESERVE \<noteq> LostRequest then take_tickets q c else c)] w'
    \<and> (o0 = Reserved \<longleftrightarrow> client_enabled w \<and> cache_net env C_RESERVE = Delivered \<and> enough q c)"
  using assms
  by (cases "cache_net env C_RESERVE")
    (auto simp: call_reserve_type_def Let_def interfere_def reserveTicketType_def TICKET_TYPE_RESERVE_SCRIPT_def record_call_def
      fail_open_def moved_def take_tickets_def enough_def split: option.splits if_splits)

lemma release_type_moves:
  assumes "call_release_type env e t q w = (ok, w')" "client_enabled w"
  shows "\<exists>m. moved w [m] w' \<and> given_back env e t q m"
  using assms
  by (cases "cache_net env C_RELEASE")
    (auto simp: call_release_type_def Let_def interfere_def releaseTicketType_def TICKET_TYPE_RELEASE_SCRIPT_def record_call_def
      fail_open_def moved_def given_back_def vk_exists_def split: option.splits if_splits)

lemma sync_type_moves:
  assumes "call_sync_type env e t v x w = (ok, w')"
  shows "\<exists>c d. moved w [(OpSyncTT e t v x, c, d)] w'
    \<and> (if ok then c \<noteq> None \<and> d = Some v else d = c \<or> cache_net env C_SYNC = LostReply \<and> c \<noteq> None \<and> d = Some v)"
  using assms
  by (cases "cache_net env C_SYNC")
    (auto simp: call_sync_type_def Let_def interfere_def syncTicketTypeCounter_def TICKET_TYPE_SYNC_SCRIPT_def record_call_def
      fail_open_def moved_def vk_exists_def split: option.splits if_splits)

lemma compensate_moves:
  assumes "client_enabled w"
  shows "\<exists>m. moved w [m] (compensateTicketTypeRelease env e t q w) \<and> given_back env e t q m"
proof -
  obtain ok w1 where c: "call_release_type env e t q w = (ok, w1)" by fastforce
  from release_type_moves [OF c assms] show ?thesis by (auto simp: compensateTicketTypeRelease_def c)
qed

text \<open>
  How a reservation that the transaction did not consume ends: one release; or a sync to the number of the database,
  alone when its answer arrived, and followed by the release when it reported a failure. The last case is the
  unfortunate one: the sync was applied, its answer was lost, and the release adds the tickets on top.
\<close>

definition hands_back ::
    "flow_env \<Rightarrow> string \<Rightarrow> string \<Rightarrow> int \<Rightarrow> PurchaseTransactionOutcome result \<Rightarrow> (cache_op \<times> int option \<times> int option) list \<Rightarrow> bool" where
  "hands_back env e t q tr ms \<longleftrightarrow>
     (\<exists>m. ms = [m] \<and> given_back env e t q m)
   \<or> (\<exists>out v x c. tr = Inr out \<and> sync_allowed out t v \<and> ms = [(OpSyncTT e t v x, Some c, Some v)])
   \<or> (\<exists>out v x c m. tr = Inr out \<and> sync_allowed out t v \<and> ms = [(OpSyncTT e t v x, c, c), m] \<and> given_back env e t q m)
   \<or> (\<exists>out v x c m. tr = Inr out \<and> sync_allowed out t v \<and> cache_net env C_SYNC = LostReply
        \<and> ms = [(OpSyncTT e t v x, Some c, Some v), m] \<and> given_back env e t q m)"

text \<open>Without a reservation at most one sync runs, after a new sale that the counter has not seen.\<close>

definition corrects ::
    "string \<Rightarrow> string \<Rightarrow> PurchaseTransactionOutcome result \<Rightarrow> (cache_op \<times> int option \<times> int option) list \<Rightarrow> bool" where
  "corrects e t tr ms \<longleftrightarrow> ms = []
   \<or> (\<exists>out v x c d. tr = Inr out \<and> consumed tr t \<and> sync_allowed out t v \<and> ms = [(OpSyncTT e t v x, c, d)] \<and> d \<in> {c, Some v})"

lemma reconcile_reserved_moves:
  assumes "resolvedTicketTypeId out \<noteq> None" "client_enabled w"
  shows "\<exists>ms. moved w ms (reconcileTicketTypeCounter env i (Some t) True rv pre out w)
    \<and> (if consumed (Inr out) t then ms = [] else hands_back env (in_eventId i) t (in_quantity i) (Inr out) ms)"
proof -
  define w1 where "w1 = (if writerModeUsed out \<noteq> TicketTypeMode then emitMetric ''WriterModeMismatch'' [] w else w)"
  have w1: "\<And>ms x. moved w1 ms x = moved w ms x" "client_enabled w1" using assms(2) by (auto simp: w1_def)
  define w2 where "w2 = emitMetric ''TicketTypeScopeMismatch'' [] w1"
  have w2: "\<And>ms x. moved w2 ms x = moved w ms x" "client_enabled w2" using w1 by (auto simp: w2_def)
  let ?e = "in_eventId i" and ?q = "in_quantity i"
  obtain m1 where m1: "moved w [m1] (compensateTicketTypeRelease env ?e t ?q w1)" "given_back env ?e t ?q m1"
    using compensate_moves [OF w1(2)] unfolding w1(1) by blast
  obtain m2 where m2: "moved w [m2] (compensateTicketTypeRelease env ?e t ?q w2)" "given_back env ?e t ?q m2"
    using compensate_moves [OF w2(2)] unfolding w2(1) by blast
  note rec = reconcileTicketTypeCounter_def [of env i "Some t" True rv pre out w, unfolded Let_def, folded w1_def w2_def]
  consider (replayed) "o_disposition out = Replayed"
    | (mismatch) "o_disposition out = Created" "resolvedTicketTypeId out \<noteq> Some t"
    | (sold) "o_disposition out = Created" "resolvedTicketTypeId out = Some t" "r_status (o_result out) = Confirmed"
    | (cas) v x where "o_disposition out = Created" "resolvedTicketTypeId out = Some t" "r_status (o_result out) = Rejected"
        "writerModeUsed out = TicketTypeMode" "ticketTypeRemainingQuantity out = Some v" "rv = Some x"
    | (exact) "o_disposition out = Created" "resolvedTicketTypeId out = Some t" "r_status (o_result out) = Rejected"
        "writerModeUsed out \<noteq> TicketTypeMode \<or> ticketTypeRemainingQuantity out = None \<or> rv = None"
    by (cases "o_disposition out"; cases "r_status (o_result out)"; cases "ticketTypeRemainingQuantity out"; cases rv) auto
  then show ?thesis
  proof cases
    case replayed
    with m1 show ?thesis by (intro exI [of _ "[m1]"]) (simp add: rec consumed_def hands_back_def)
  next
    case mismatch
    with m2 assms show ?thesis by (intro exI [of _ "[m2]"]) (auto simp: rec consumed_def hands_back_def w2_def)
  next
    case sold
    then show ?thesis by (intro exI [of _ "[]"]) (simp add: rec consumed_def w1_def)
  next
    case cas
    then have allowed: "sync_allowed out t v" "\<not> consumed (Inr out) t" by (simp_all add: sync_allowed_def consumed_def)
    obtain ok w3 where s: "call_sync_type env ?e t v x w1 = (ok, w3)" by fastforce
    from sync_type_moves [OF s] obtain c d where m: "moved w [(OpSyncTT ?e t v x, c, d)] w3"
      and d: "if ok then c \<noteq> None \<and> d = Some v else d = c \<or> cache_net env C_SYNC = LostReply \<and> c \<noteq> None \<and> d = Some v"
      unfolding w1 by blast
    show ?thesis
    proof (cases ok)
      case True
      with cas m d s allowed show ?thesis
        unfolding rec by (intro exI [of _ "[(OpSyncTT ?e t v x, c, d)]"]) (auto simp: hands_back_def)
    next
      case False
      have "client_enabled w3" using m assms(2) by (simp add: moved_def)
      then obtain m3 where m3: "moved w3 [m3] (compensateTicketTypeRelease env ?e t ?q w3)" "given_back env ?e t ?q m3"
        using compensate_moves by blast
      from moved_trans [OF m m3(1)] False cas s d m3(2) allowed show ?thesis
        unfolding rec by (intro exI [of _ "[(OpSyncTT ?e t v x, c, d), m3]"]) (auto simp: hands_back_def)
    qed
  next
    case exact
    with m1 show ?thesis
      by (intro exI [of _ "[m1]"]) (auto simp: rec consumed_def hands_back_def split: option.splits)
  qed
qed

lemma reconcile_unreserved_moves:
  assumes "resolvedTicketTypeId out \<noteq> None"
  shows "\<exists>ms. moved w ms (reconcileTicketTypeCounter env i (Some t) False rv pre out w) \<and> corrects (in_eventId i) t (Inr out) ms"
proof -
  define w1 where "w1 = (if writerModeUsed out \<noteq> TicketTypeMode then emitMetric ''WriterModeMismatch'' [] w else w)"
  have w1: "\<And>ms x. moved w1 ms x = moved w ms x" by (auto simp: w1_def)
  note rec = reconcileTicketTypeCounter_def [of env i "Some t" False rv pre out w, unfolded Let_def, folded w1_def]
  have none: "moved w [] w1" "moved w [] (emitMetric ''TicketTypeScopeMismatch'' [] w1)" by (simp_all add: w1_def)
  show ?thesis
  proof (cases "\<exists>v x. ticketTypeRemainingQuantity out = Some v \<and> pre = Some x \<and> writerModeUsed out = TicketTypeMode
      \<and> o_disposition out = Created \<and> resolvedTicketTypeId out = Some t \<and> r_status (o_result out) = Confirmed")
    case True
    then obtain v x where c: "ticketTypeRemainingQuantity out = Some v" "pre = Some x" "writerModeUsed out = TicketTypeMode"
      "o_disposition out = Created" "resolvedTicketTypeId out = Some t" "r_status (o_result out) = Confirmed" by blast
    obtain ok w3 where s: "call_sync_type env (in_eventId i) t v x w1 = (ok, w3)" by fastforce
    from sync_type_moves [OF s] obtain b d where "moved w [(OpSyncTT (in_eventId i) t v x, b, d)] w3" "d \<in> {b, Some v}"
      unfolding w1 by (auto split: if_splits)
    with c s show ?thesis
      unfolding rec by (intro exI [of _ "[(OpSyncTT (in_eventId i) t v x, b, d)]"]) (simp add: corrects_def consumed_def sync_allowed_def)
  next
    case False
    moreover have "o_disposition out \<noteq> Replayed \<Longrightarrow> o_disposition out = Created" by (cases "o_disposition out") simp_all
    ultimately show ?thesis using none assms
      by (intro exI [of _ "[]"]) (auto simp: rec corrects_def split: option.splits)
  qed
qed

lemma mark_moves:
  "\<exists>ms. moved w ms (maybeMarkRequestSeen env i r w) \<and> set ms \<subseteq> {(OpMark (in_buyerId i) (in_eventId i) (the (in_requestId i)), None, None)}"
proof (cases "\<exists>rid. in_requestId i = Some rid \<and> purchaseId r \<noteq> None")
  case True
  then obtain rid where rid: "in_requestId i = Some rid" "purchaseId r \<noteq> None" by blast
  let ?w = "markRequestSeen (cache_net env C_MARK) (in_buyerId i) (in_eventId i) rid (interfere env C_MARK w)"
  have "same_rest w ?w" by (rule same_rest_call)
  with rid show ?thesis
    by (intro exI [of _ "[(OpMark (in_buyerId i) (in_eventId i) rid, None, None)]"])
      (auto simp: maybeMarkRequestSeen_def record_call_def moved_def same_rest_def Let_def)
next
  case False
  then show ?thesis by (intro exI [of _ "[]"]) (auto simp: maybeMarkRequestSeen_def split: option.split)
qed

lemma transact_type_moves:
  assumes tr: "executePurchaseTransaction (tx env) i (db w) = (tr, s')" and en: "reserved \<Longrightarrow> client_enabled w"
    and run: "transactTicketType env i (Some t) reserved rv pre w = (r, w')"
  shows "\<exists>marks ms. moved w (marks @ ms) w'
    \<and> set marks \<subseteq> {(OpMark (in_buyerId i) (in_eventId i) (the (in_requestId i)), None, None)}
    \<and> (if reserved then if consumed tr t then ms = [] else hands_back env (in_eventId i) t (in_quantity i) tr ms
       else corrects (in_eventId i) t tr ms)"
proof -
  note path = run [unfolded transactTicketType_def call_transaction_adds [OF tr] prod.case]
  have db: "\<And>ms x. moved (w\<lparr>db := s'\<rparr>) ms x = moved w ms x" "moved w [] (w\<lparr>db := s'\<rparr>)" by (simp_all add: moved_def)
  show ?thesis
  proof (cases tr)
    case (Inl e)
    show ?thesis
    proof (cases reserved)
      case True
      then have "client_enabled (w\<lparr>db := s'\<rparr>)" using en by simp
      from compensate_moves [OF this] obtain m where
        "moved w [m] (compensateTicketTypeRelease env (in_eventId i) t (in_quantity i) (w\<lparr>db := s'\<rparr>))"
        "given_back env (in_eventId i) t (in_quantity i) m" unfolding db by blast
      with path Inl True show ?thesis
        by (intro exI [of _ "[]"] exI [of _ "[m]"]) (auto simp: consumed_def hands_back_def)
    next
      case False
      with path Inl db(2) show ?thesis by (intro exI [of _ "[]"]) (auto simp: corrects_def)
    qed
  next
    case (Inr out)
    have resolved: "resolvedTicketTypeId out \<noteq> None" using execute_resolved tr Inr by blast
    define w5 where "w5 = maybeMarkRequestSeen env i (o_result out) (emitPurchaseOutcomeMetrics out (w\<lparr>db := s'\<rparr>))"
    obtain marks where marks: "moved (emitPurchaseOutcomeMetrics out (w\<lparr>db := s'\<rparr>)) marks w5"
      "set marks \<subseteq> {(OpMark (in_buyerId i) (in_eventId i) (the (in_requestId i)), None, None)}"
      unfolding w5_def using mark_moves by blast
    have "moved w [] (emitPurchaseOutcomeMetrics out (w\<lparr>db := s'\<rparr>))" using db(2) by simp
    from moved_trans [OF this marks(1)] have w5: "moved w marks w5" by simp
    have "\<exists>ms. moved w5 ms (reconcileTicketTypeCounter env i (Some t) reserved rv pre out w5)
        \<and> (if reserved then if consumed tr t then ms = [] else hands_back env (in_eventId i) t (in_quantity i) tr ms
           else corrects (in_eventId i) t tr ms)"
    proof (cases reserved)
      case True
      then have "client_enabled w5" using en w5 by (simp add: moved_def)
      from reconcile_reserved_moves [OF resolved this, of env i t rv pre] show ?thesis by (simp only: Inr True if_True)
    next
      case False
      with reconcile_unreserved_moves [OF resolved, of w5 env i t rv pre] Inr show ?thesis by simp
    qed
    then obtain ms where ms: "moved w5 ms (reconcileTicketTypeCounter env i (Some t) reserved rv pre out w5)"
      "if reserved then if consumed tr t then ms = [] else hands_back env (in_eventId i) t (in_quantity i) tr ms
       else corrects (in_eventId i) t tr ms" by blast
    have "w' = publishPurchaseDomainEvents env out (reconcileTicketTypeCounter env i (Some t) reserved rv pre out w5)"
      using path Inr by (auto simp: w5_def Let_def)
    with moved_trans [OF w5 ms(1)] have "moved w (marks @ ms) w'" by (simp add: publish_purchase_moved)
    with marks(2) ms(2) show ?thesis by blast
  qed
qed

text \<open>C8: what a Ticket Type request does to the counter of its Type, move by move, whatever the transaction, the
  network and the other requests do. Its first operation takes the quantity from a counter that has as many, and
  nothing otherwise, also when only the answer is lost. When that answer says that the reservation was made and the
  transaction created a confirmed purchase of that Type, the reservation stands for the purchase and no later
  operation touches a counter. When it says so and the transaction did not, the tickets are handed back: one release
  adds the same quantity to the counter, unless its request is lost or the counter is gone, or a compare-and-set puts
  the counter to the number of the database. There is one exception, which the statement lists: when the
  compare-and-set is applied and its answer is lost, the release adds the quantity on top of the database's
  number. A request that does not know of a reservation releases nothing (so one whose answer was lost stays
  taken) and corrects the counter at most once, to the number of the database after its own sale.\<close>

theorem reservation_is_settled:
  assumes "createPurchaseTicketType env i sc w = (r, w')" "prefilter_type i sc = Some t"
    and "executePurchaseTransaction (tx env) i (db w) = (tr, s')"
  shows "let e = in_eventId i; q = in_quantity i; c = vk_get (ticketTypeCounterKey e t) (cache_others env C_RESERVE (vk w)) in
    \<exists>marks ms. moves w' = moves w
        @ (OpReserveTT e t q, c, if client_enabled w \<and> cache_net env C_RESERVE \<noteq> LostRequest then take_tickets q c else c)
        # marks @ ms
    \<and> set marks \<subseteq> {(OpMark (in_buyerId i) e (the (in_requestId i)), None, None)}
    \<and> (if client_enabled w \<and> cache_net env C_RESERVE = Delivered \<and> enough q c
       then if consumed tr t then ms = [] else hands_back env e t q tr ms
       else corrects e t tr ms)"
proof -
  let ?e = "in_eventId i" and ?q = "in_quantity i"
  let ?c = "vk_get (ticketTypeCounterKey ?e t) (cache_others env C_RESERVE (vk w))"
  let ?res = "client_enabled w \<and> cache_net env C_RESERVE = Delivered \<and> enough ?q ?c"
  obtain o0 rv w1 where res: "call_reserve_type env ?e t ?q w = ((o0, rv), w1)" by (metis prod.collapse)
  let ?m = "(OpReserveTT ?e t ?q, ?c, if client_enabled w \<and> cache_net env C_RESERVE \<noteq> LostRequest then take_tickets ?q ?c else ?c)"
  from reserve_type_moves [OF res] have m: "moved w [?m] w1" and o0: "o0 = Reserved \<longleftrightarrow> ?res" by (simp_all add: Let_def)
  have db1: "db w1 = db w" using call_adds(5) [OF res] by (simp add: adds_def)
  note path = assms(1) [unfolded createPurchaseTicketType_def Let_def assms(2) option.case res prod.case]
  have "\<exists>marks ms. moves w' = moves w @ ?m # marks @ ms \<and> set marks \<subseteq> {(OpMark (in_buyerId i) ?e (the (in_requestId i)), None, None)}
      \<and> (if ?res then if consumed tr t then ms = [] else hands_back env ?e t ?q tr ms else corrects ?e t tr ms)"
  proof (cases "o0 = SoldOut \<and> in_requestId i = None")
    case True
    then have "\<not> ?res" unfolding o0 [symmetric] by simp
    moreover have "moves w' = moves w @ ?m # [] @ []" using path True m by (auto simp: moved_def)
    moreover have "corrects ?e t tr []" by (simp add: corrects_def)
    ultimately show ?thesis by (intro exI [of _ "[]"]) auto
  next
    case False
    define w2 where "w2 = (if o0 = SoldOut then emitMetric ''PurchaseSoldOutToPostgres'' [] w1 else w1)"
    obtain pre w3 where anchor: "(if \<not> o0 = Reserved then call_revision env ?e t w2 else (None, w2)) = (pre, w3)" by fastforce
    have "same_rest w2 (snd (call_revision env ?e t w2))" unfolding call_revision_def by (rule same_rest_call(8))
    then have "same_rest w2 w3" using anchor by (cases "o0 = Reserved") auto
    then have "moved w1 [] w3" "db w3 = db w1" by (auto simp: w2_def same_rest_def moved_def)
    with moved_trans [OF m, of "[]" w3] have m3: "moved w [?m] w3" and db3: "db w3 = db w" using db1 by simp_all
    have run: "transactTicketType env i (Some t) (o0 = Reserved) rv pre w3 = (r, w')"
      using path False by (simp only: if_False w2_def [symmetric] anchor prod.case)
    have "o0 = Reserved \<Longrightarrow> client_enabled w3" using o0 m3 by (simp add: moved_def)
    from transact_type_moves [OF assms(3) [folded db3] this run] obtain marks ms where t: "moved w3 (marks @ ms) w'"
      "set marks \<subseteq> {(OpMark (in_buyerId i) ?e (the (in_requestId i)), None, None)}"
      "if ?res then if consumed tr t then ms = [] else hands_back env ?e t ?q tr ms else corrects ?e t tr ms"
      unfolding o0 by blast
    have "moves w' = moves w @ ?m # marks @ ms" using moved_trans [OF m3 t(1)] by (simp add: moved_def)
    with t(2,3) show ?thesis by blast
  qed
  then show ?thesis by (simp add: Let_def)
qed

text \<open>The same for the Event counter of the legacy path: a reservation is kept exactly by a
  newly confirmed purchase, and is handed back once otherwise; an Event counter that was not
  reserved is never released, and corrected only after a new sale.\<close>

theorem legacy_reservation_is_settled:
  assumes "createPurchaseLegacy env i w = (r, w')"
    and "executePurchaseTransaction (tx env) i (db w) = (tr, s')"
  shows "\<exists>reserved ms ds. own_calls w w' = (OpReserve (in_eventId i) (in_quantity i), reserved) # ms @ ds
    \<and> only_marks ms
    \<and> (if reserved then (if sold_new tr then ds = [] else handed_back_event (in_eventId i) (in_quantity i) ds)
       else ds = [] \<or> (\<exists>v x ok. ds = [(OpSync (in_eventId i) v x, ok)] \<and> sold_new tr))"
proof -
  from legacy_path [OF assms] obtain reserved where
    "(stopped_early i w [(OpReserve (in_eventId i) (in_quantity i), reserved)] r w' \<and> \<not> reserved)
      \<or> (\<exists>ms ds. ran_transaction env i w ([(OpReserve (in_eventId i) (in_quantity i), reserved)] @ ms @ ds) r w'
           \<and> only_marks ms \<and> legacy_protocol (in_eventId i) (in_quantity i) reserved tr ds)"
    by blast
  then show ?thesis
  proof (elim disjE exE conjE)
    assume "stopped_early i w [(OpReserve (in_eventId i) (in_quantity i), reserved)] r w'" "\<not> reserved"
    then show ?thesis using own_calls_adds [OF stopped_early_calls] only_marks_Nil
      by (intro exI [of _ reserved] exI [of _ "[]"]) auto
  next
    fix ms ds
    assume "ran_transaction env i w ([(OpReserve (in_eventId i) (in_quantity i), reserved)] @ ms @ ds) r w'"
      and rest: "only_marks ms" "legacy_protocol (in_eventId i) (in_quantity i) reserved tr ds"
    from own_calls_adds [OF ran_transaction_calls [OF this(1)]] rest show ?thesis
      by (intro exI [of _ reserved] exI [of _ ms] exI [of _ ds]) (auto simp: legacy_protocol_def split: if_splits)
  qed
qed

section \<open>What a sync writes\<close>

lemma sync_value:
  assumes "pg_inv s" "0 < in_quantity i" "purchases_run (tx_others env)"
    and "executePurchaseTransaction env i s = (Inr out, s')" "sync_allowed out t v"
  shows "writer_control s' = Some ''ticket_type''
    \<and> (\<exists>row. type_row_of t s' = Some row \<and> tti_remaining row = v \<and> tti_event row = pg_uuid (in_eventId i))"
proof -
  have adv: "advances s (tx_others env s)" using purchases_run_advances [OF assms(3,1)] .
  have inv: "pg_inv (tx_others env s)" using advances_rest(1) [OF adv] .
  obtain mode where m: "readInventoryWriterMode s = Inr mode"
    and c: "purchase_tx_new env i mode (tx_others env s) = Committed out s'"
    using execute_created [OF assms(4)] assms(5) unfolding sync_allowed_def by blast
  have wc: "writer_control s' = writer_control s"
    using advances_rest(2) [OF purchase_tx_new_advances [OF inv assms(2) c]] advances_rest(2) [OF adv] by simp
  from inv assms(2) c show ?thesis
  proof (cases rule: purchase_tx_new_sale_or_refusal)
    case (sale u x0 a' x1 s1 s2 ch)
    then have u: "u = t" "mode = TicketTypeMode" "v = tti_remaining x1"
      using assms(5) by (auto simp: sync_allowed_def split: if_splits)
    have "type_row_of t s' = Some x1"
      using sale(2) insertPurchase_Inr [OF sale(5)] sale(3) u
      by (simp add: type_row_of_def end_tx_def) (simp add: pair_update_def)
    moreover have "tti_event x1 = pg_uuid (in_eventId i)" using sale(3) by (simp add: pair_update_def)
    ultimately show ?thesis
      using wc m u readInventoryWriterMode_iff [of s mode] by (simp add: mode_text_def)
  next
    case (refusal u active agg s2)
    then have u: "u = t" "mode = TicketTypeMode" "v = active"
      using assms(5) by (auto simp: sync_allowed_def split: if_splits)
    have "type_row_of t s' = type_row_of t (tx_others env s)"
      using refusal(2) insertPurchase_Inr [OF refusal(5)] by (simp add: type_row_of_def end_tx_def)
    with refusal(4) u wc m readInventoryWriterMode_iff [of s mode] show ?thesis
      by (auto simp: readActiveInventory_def type_row_of_def mode_text_def split: option.splits if_splits)
  qed
qed

lemma marks_no_sync: "only_marks ms \<Longrightarrow> (OpSyncTT e t v x, ok) \<notin> set ms"
  by (auto simp: only_marks_def list_all_iff)

text \<open>A compare-and-set on a Ticket Type counter is issued only while the database's writer
  mode is ticket_type, only for the Type of the request's own scope, and writes exactly the
  remaining quantity of that Type's row in the database this transaction left; a writer mode that
  changed since the pre-filter, or a Type that differs, never leads to a sync.\<close>

theorem sync_writes_committed_remaining:
  assumes "pg_inv (db w)" "0 < in_quantity i" "purchases_run (tx_others (tx env))"
    and "createPurchaseTicketType env i sc w = (r, w')"
    and "(OpSyncTT e t v x, ok) \<in> set (own_calls w w')"
  shows "e = in_eventId i \<and> prefilter_type i sc = Some t \<and> writer_control (db w') = Some ''ticket_type''
    \<and> (\<exists>row. type_row_of t (db w') = Some row \<and> tti_remaining row = v \<and> tti_event row = pg_uuid e)"
proof -
  obtain tr s' where tr: "executePurchaseTransaction (tx env) i (db w) = (tr, s')" by fastforce
  from ticket_type_path [OF assms(4) tr] obtain cs reserved where
    cs: "cs = (case prefilter_type i sc of None \<Rightarrow> []
           | Some t \<Rightarrow> [(OpReserveTT (in_eventId i) t (in_quantity i), reserved)])"
    and run: "stopped_early i w cs r w'
      \<or> (\<exists>ms ds. ran_transaction env i w (cs @ ms @ ds) r w' \<and> only_marks ms
           \<and> type_protocol (in_eventId i) (in_quantity i) (prefilter_type i sc) reserved tr ds)" by blast
  have nocs: "(OpSyncTT e t v x, ok) \<notin> set cs" by (auto simp: cs split: option.split)
  then have "\<not> stopped_early i w cs r w'" using assms(5) own_calls_adds [OF stopped_early_calls] by auto
  with run obtain ms ds where ran: "ran_transaction env i w (cs @ ms @ ds) r w'" and m: "only_marks ms"
    and p: "type_protocol (in_eventId i) (in_quantity i) (prefilter_type i sc) reserved tr ds" by blast
  have "(OpSyncTT e t v x, ok) \<in> set ds"
    using assms(5) own_calls_adds [OF ran_transaction_calls [OF ran]] nocs marks_no_sync [OF m] by auto
  with p obtain out where "e = in_eventId i" "prefilter_type i sc = Some t" "tr = Inr out" "sync_allowed out t v"
    unfolding type_protocol_def by blast
  moreover have "db w' = s'" using ran tr by (auto simp: ran_transaction_def)
  ultimately show ?thesis using sync_value [OF assms(1-3), of out s' t v] tr by simp
qed

section \<open>The request as a whole\<close>

lemma purchase_events_metric [simp]: "purchase_events env out (emitMetric n d w) = purchase_events env out w"
  by (rule purchase_events_cong) (simp_all add: emitMetric_def)

lemma emitMetric_flow [simp]:
  "db (emitMetric n d w) = db w" "calls (emitMetric n d w) = calls w" "bus (emitMetric n d w) = bus w"
  by (simp_all add: emitMetric_def)

lemma ran_transaction_metric [simp]: "ran_transaction env i (emitMetric n d w) cs r w' = ran_transaction env i w cs r w'"
  unfolding ran_transaction_def purchase_events_metric emitMetric_flow by (rule refl)

lemma ran_transaction_Inr:
  "ran_transaction env i w cs (Inr r) w' \<Longrightarrow> \<exists>out. executePurchaseTransaction (tx env) i (db w) = (Inr out, db w')
     \<and> r = o_result out \<and> bus w' = bus w @ purchase_events env out w"
  unfolding ran_transaction_def by (elim exE conjE) (auto simp: eq_commute [of "Inr r"])

lemma ran_transaction_events:
  assumes "ran_transaction env i w cs r w'" "bus w' = bus w @ es" "es \<noteq> []"
  shows "\<exists>out. executePurchaseTransaction (tx env) i (db w) = (Inr out, db w') \<and> es = purchase_events env out w"
proof -
  obtain tr where tr: "executePurchaseTransaction (tx env) i (db w) = (tr, db w')"
    "bus w' = bus w @ (case tr of Inl _ \<Rightarrow> [] | Inr out \<Rightarrow> purchase_events env out w)"
    using assms(1) by (auto simp: ran_transaction_def)
  then show ?thesis using assms(2,3) by (cases tr) auto
qed

lemma db_only_path:
  assumes "createPurchaseDbOnly env i w = (r, w')"
  shows "\<exists>cs. ran_transaction env i w cs r w'"
proof -
  obtain tr s' where tr: "executePurchaseTransaction (tx env) i (db w) = (tr, s')" by fastforce
  note path = assms [unfolded createPurchaseDbOnly_def call_transaction_adds [OF tr] prod.case]
  show ?thesis
  proof (cases tr)
    case (Inl e)
    from ran_and_threw [OF adds_Nil tr [unfolded Inl] adds_Nil] path Inl show ?thesis by auto
  next
    case (Inr out)
    obtain ms where "adds (w\<lparr>db := s'\<rparr>) ms (maybeMarkRequestSeen env i (o_result out) (emitPurchaseOutcomeMetrics out (w\<lparr>db := s'\<rparr>)))"
      using outcome_adds by blast
    from ran_to_the_end [OF adds_Nil tr [unfolded Inr] this] path Inr show ?thesis by auto
  qed
qed

lemma createPurchase_shape:
  assumes "createPurchase env resolved eventId buyerId body sel w = (r, w')"
  shows "(\<exists>e. parsePurchaseInput eventId buyerId body sel = Inl e \<and> r = Inl e \<and> w' = w)
   \<or> (\<exists>i cs. parsePurchaseInput eventId buyerId body sel = Inr i
        \<and> (stopped_early i w cs r w' \<or> ran_transaction env i w cs r w'))"
proof (cases "parsePurchaseInput eventId buyerId body sel")
  case (Inl e)
  with assms show ?thesis by (simp add: createPurchase_def)
next
  case (Inr i)
  obtain tr s' where tr: "executePurchaseTransaction (tx env) i (db w) = (tr, s')" by fastforce
  have "\<exists>cs. stopped_early i w cs r w' \<or> ran_transaction env i w cs r w'"
  proof (cases resolved)
    case (Inl e)
    with assms Inr db_only_path [of env i "emitMetric ''PrefilterBypass'' [(''Reason'', ''resolver_error'')] w"]
    show ?thesis by (auto simp: createPurchase_def)
  next
    case plan: (Inr p)
    show ?thesis
    proof (cases p)
      case LegacyPlan
      then have "createPurchaseLegacy env i w = (r, w')" using assms Inr plan by (simp add: createPurchase_def)
      from legacy_path [OF this tr] show ?thesis by blast
    next
      case (TicketTypePlan sc)
      then have "createPurchaseTicketType env i sc w = (r, w')" using assms Inr plan by (simp add: createPurchase_def)
      from ticket_type_path [OF this tr] show ?thesis by blast
    qed
  qed
  with Inr show ?thesis by blast
qed


lemma execute_purchaseId:
  assumes "executePurchaseTransaction env i s = (Inr out, s')"
  shows "purchaseId (o_result out) \<noteq> None"
  using assms
proof (cases rule: execute_Inr)
  case body
  then show ?thesis
  proof (cases rule: purchase_tx_body_Committed)
    case (fresh mode)
    then show ?thesis by (elim purchase_tx_new_Committed) simp
  qed (simp add: toPurchaseResult_def)
next
  case (recovered e m)
  then show ?thesis using rollback_Inr by (fastforce simp: toPurchaseResult_def)
qed

text \<open>A rejection without a purchase id is the pre-filter's own answer: it is given only to a
  request without a request id, and it has touched neither the database nor the event bus.\<close>

theorem precheck_stays_out_of_database:
  assumes "createPurchase env resolved eventId buyerId body sel w = (Inr r, w')" "purchaseId r = None"
  shows "db w' = db w \<and> bus w' = bus w
    \<and> (\<exists>i. parsePurchaseInput eventId buyerId body sel = Inr i \<and> in_requestId i = None \<and> r = precheck_rejection i)"
proof -
  from createPurchase_shape [OF assms(1)] obtain i cs where
    i: "parsePurchaseInput eventId buyerId body sel = Inr i"
    and run: "stopped_early i w cs (Inr r) w' \<or> ran_transaction env i w cs (Inr r) w'" by auto
  have "\<not> ran_transaction env i w cs (Inr r) w'"
    using assms(2) execute_purchaseId ran_transaction_Inr by blast
  with run i show ?thesis by (auto simp: stopped_early_def adds_def)
qed

text \<open>Domain events are published only for a newly confirmed purchase, after its commit:
  at most one TicketPurchased followed by at most one InventoryChanged; a replay, a rejection and
  a failed request publish nothing.\<close>

theorem events_only_for_new_sales:
  assumes "createPurchase env resolved eventId buyerId body sel w = (r, w')"
  shows "\<exists>es. bus w' = bus w @ es
    \<and> map fst es \<in> {[], [''TicketPurchased''], [''InventoryChanged''], [''TicketPurchased'', ''InventoryChanged'']}
    \<and> (es \<noteq> [] \<longrightarrow> (\<exists>i out. parsePurchaseInput eventId buyerId body sel = Inr i \<and> r = Inr (o_result out)
          \<and> executePurchaseTransaction (tx env) i (db w) = (Inr out, db w') \<and> sold_new (Inr out)))"
  using createPurchase_shape [OF assms]
proof (elim disjE exE conjE)
  fix i cs assume "parsePurchaseInput eventId buyerId body sel = Inr i" "ran_transaction env i w cs r w'"
  then obtain tr where tr: "executePurchaseTransaction (tx env) i (db w) = (tr, db w')" "r = map_sum id o_result tr"
    "bus w' = bus w @ (case tr of Inl _ \<Rightarrow> [] | Inr out \<Rightarrow> purchase_events env out w)"
    and i: "parsePurchaseInput eventId buyerId body sel = Inr i" by (auto simp: ran_transaction_def)
  show ?thesis
  proof (cases tr)
    case (Inr out)
    have "purchase_events env out w \<noteq> [] \<longrightarrow> sold_new (Inr out)"
      "map fst (purchase_events env out w)
         \<in> {[], [''TicketPurchased''], [''InventoryChanged''], [''TicketPurchased'', ''InventoryChanged'']}"
      by (auto simp: purchase_events_def sold_new_def split: option.split)
    with tr i Inr show ?thesis by auto
  qed (use tr in auto)
qed (auto simp: stopped_early_def adds_def)

text \<open>The catalog: ids and names are what the tables' column types and constraints admit.\<close>

definition catalog_ok :: "pg \<Rightarrow> bool" where
  "catalog_ok s \<longleftrightarrow>
     (\<forall>ty \<in> set (ticket_types s). is_uuid (type_id ty) \<and> isNonBlankString (JString (type_name ty)))
   \<and> (\<forall>x \<in> set (ticket_type_inventory s). in_int4 (tti_total x) \<and> in_int4 (tti_version x))
   \<and> (\<forall>a \<in> set (ticket_inventory s). in_int4 (ti_total a))"

definition describes :: "VersionedInventoryChangedPayload \<Rightarrow> pg \<Rightarrow> bool" where
  "describes p s \<longleftrightarrow> (\<exists>x a. type_row_of (vp_ticketTypeId p) s = Some x \<and> event_row_of (pg_uuid (vp_eventId p)) s = Some a
     \<and> tti_event x = pg_uuid (vp_eventId p)
     \<and> vp_ticketTypeTotalQuantity p = tti_total x \<and> vp_ticketTypeRemainingQuantity p = tti_remaining x
     \<and> ttv (vp_inventoryVersion p) = tti_version x
     \<and> vp_eventTotalQuantity p = ti_total a \<and> vp_eventRemainingQuantity p = ti_remaining a
     \<and> evv (vp_eventInventoryVersion p) = ti_version a)"

lemma built_change:
  assumes "build_inventory_change s t agg = Inr ch"
  shows "\<exists>x ty. row_by tti_type t (ticket_type_inventory s) = Some x \<and> row_by type_id t (ticket_types s) = Some ty
    \<and> ch = \<lparr>ic_ticketTypeId = t, ic_ticketTypeName = type_name ty, ic_ticketTypeTotalQuantity = tti_total x,
         ic_ticketTypeRemainingQuantity = tti_remaining x, ic_inventoryVersion = TTVersion (tti_version x),
         ic_eventTotalQuantity = ti_total agg, ic_eventRemainingQuantity = ti_remaining agg,
         ic_eventInventoryVersion = EvVersion (ti_version agg)\<rparr>
    \<and> int4_nonneg (tti_version x) \<and> int4_nonneg (ti_version agg)"
  using assms by (auto simp: build_inventory_change_def toTicketTypeInventoryVersion_def toEventInventoryVersion_def
      int4_nonneg_def split: option.splits if_splits)

lemma sale_payload:
  assumes "pg_inv s" "0 < in_quantity i" "is_uuid (in_eventId i)" "catalog_ok s'"
    and c: "purchase_tx_new env i mode s = Committed out s'" and ch: "inventoryChange out = Some ch"
  shows "payload_wf (change_payload (in_eventId i) ch) \<and> describes (change_payload (in_eventId i) ch) s'
    \<and> r_eventId (o_result out) = in_eventId i"
  using assms(1,2) c
proof (cases rule: purchase_tx_new_sale_or_refusal)
  case (sale t x0 a' x1 s1 s2 ch')
  have rows: "row_by tti_type t (ticket_type_inventory s1) = Some x1"
    "row_by ti_event (pg_uuid (in_eventId i)) (ticket_inventory s1) = Some a'" "tti_event x1 = pg_uuid (in_eventId i)"
    using sale(3) by (simp_all add: pair_update_def)
  have tabs: "ticket_type_inventory s' = ticket_type_inventory s1" "ticket_inventory s' = ticket_inventory s1"
    "ticket_types s' = ticket_types s1"
    using sale(2) insertPurchase_Inr [OF sale(5)] by (simp_all add: end_tx_def)
  have eq: "ch' = ch" using sale(6) ch by simp
  from built_change [OF sale(4)] rows(1) eq obtain ty where
    ty: "row_by type_id t (ticket_types s1) = Some ty"
    and chv: "ch = \<lparr>ic_ticketTypeId = t, ic_ticketTypeName = type_name ty, ic_ticketTypeTotalQuantity = tti_total x1,
         ic_ticketTypeRemainingQuantity = tti_remaining x1, ic_inventoryVersion = TTVersion (tti_version x1),
         ic_eventTotalQuantity = ti_total a', ic_eventRemainingQuantity = ti_remaining a',
         ic_eventInventoryVersion = EvVersion (ti_version a')\<rparr>"
    and ver: "int4_nonneg (tti_version x1)" "int4_nonneg (ti_version a')" by auto
  have q: "check_quantities (tti_total x1) (tti_remaining x1) (tti_version x1)"
    "check_quantities (ti_total a') (ti_remaining a') 0" using sale(3) unfolding pair_update_def by blast+
  have m: "x1 \<in> set (ticket_type_inventory s')" "a' \<in> set (ticket_inventory s')" "ty \<in> set (ticket_types s')"
    "type_id ty = t" using row_by_Some [OF rows(1)] row_by_Some [OF rows(2)] row_by_Some [OF ty] tabs by simp_all
  then have "in_int4 (tti_total x1)" "in_int4 (ti_total a')" "is_uuid t" "isNonBlankString (JString (type_name ty))"
    using assms(4) unfolding catalog_ok_def by blast+
  with q ver assms(3) have "payload_wf (change_payload (in_eventId i) ch)"
    by (simp add: chv payload_wf_def change_payload_def buildVersionedInventoryChangedDetail_def
        check_quantities_def int4_nonneg_def in_int4_def)
  moreover have "describes (change_payload (in_eventId i) ch) s'"
    using rows tabs by (simp add: chv describes_def change_payload_def buildVersionedInventoryChangedDetail_def
        type_row_of_def event_row_of_def)
  ultimately show ?thesis using sale(6) by simp
next
  case (refusal t active agg s2)
  with ch show ?thesis by simp
qed

lemma inventory_event_mem:
  "(''InventoryChanged'', d) \<in> set (purchase_events env out w) \<Longrightarrow>
     \<exists>ch. inventoryChange out = Some ch \<and> o_disposition out = Created
       \<and> d = JObject (detailWithTrace (trace_context w) (payload_fields (change_payload (r_eventId (o_result out)) ch)))"
  by (cases "inventoryChange out") (auto simp: purchase_events_def split: if_splits)

text \<open>C7: what reaches the bus is the committed state: every InventoryChanged event a request
  publishes is accepted by the consumer's parser as a versioned payload, and its quantities and
  its two versions are those of the Type row and the Event row in the database the request left.\<close>

theorem published_inventory_is_committed_state:
  assumes "pg_inv (db w)" "purchases_run (tx_others (tx env))"
    and "createPurchase env resolved eventId buyerId body sel w = (r, w')" "catalog_ok (db w')"
    and "bus w' = bus w @ es" "(''InventoryChanged'', d) \<in> set es"
  shows "\<exists>p. parseInventoryChangedDetail d = Inr (Versioned p) \<and> vp_eventId p = eventId \<and> describes p (db w')"
proof -
  have "es \<noteq> []" using assms(6) by auto
  from createPurchase_shape [OF assms(3)] obtain i cs where
    i: "parsePurchaseInput eventId buyerId body sel = Inr i" and ran: "ran_transaction env i w cs r w'"
    using assms(5) \<open>es \<noteq> []\<close> by (auto simp: stopped_early_def adds_def)
  from ran_transaction_events [OF ran assms(5) \<open>es \<noteq> []\<close>] obtain out where tr: "executePurchaseTransaction (tx env) i (db w) = (Inr out, db w')"
    and es: "es = purchase_events env out w" by blast
  note inp = parsePurchaseInput_Inr [OF i]
  obtain ch where ch: "inventoryChange out = Some ch" "o_disposition out = Created"
    and d: "d = JObject (detailWithTrace (trace_context w) (payload_fields (change_payload (r_eventId (o_result out)) ch)))"
    using inventory_event_mem assms(6) unfolding es by blast
  obtain mode where c: "purchase_tx_new (tx env) i mode (tx_others (tx env) (db w)) = Committed out (db w')"
    using execute_created [OF tr ch(2)] by blast
  have inv: "pg_inv (tx_others (tx env) (db w))"
    using advances_rest(1) [OF purchases_run_advances [OF assms(2,1)]] .
  from sale_payload [OF inv _ _ assms(4) c ch(1)] inp
  have "payload_wf (change_payload eventId ch)" "describes (change_payload eventId ch) (db w')"
    "r_eventId (o_result out) = eventId" by auto
  with built_payload_parses [of "change_payload eventId ch" "trace_context w"] d show ?thesis
    by (auto simp: change_payload_def buildVersionedInventoryChangedDetail_def)
qed


section \<open>Concrete requests\<close>

text \<open>One Event with one Type of 5 tickets, its counter at 3 (two reservations are under way).\<close>

definition flow_pg :: pg where
  "flow_pg = \<lparr>events = [uuid_a],
     ticket_types = [\<lparr>type_id = uuid_b, type_event = uuid_a, type_name = ''General Admission'', is_default = True\<rparr>],
     ticket_inventory = [\<lparr>ti_event = uuid_a, ti_total = 5, ti_remaining = 5, ti_version = 1\<rparr>],
     ticket_type_inventory = [\<lparr>tti_type = uuid_b, tti_event = uuid_a, tti_total = 5, tti_remaining = 5, tti_version = 0\<rparr>],
     purchases = [], writer_control = Some ''ticket_type'', mirror_origin = None\<rparr>"

definition flow_start :: flow where
  "flow_start = \<lparr>metrics = [],
     vk = \<lparr>data = [ticketTypeCounterKey uuid_a uuid_b \<mapsto> 3, ticketTypeCounterRevisionKey uuid_a uuid_b \<mapsto> 1,
                   eventCounterKey uuid_a \<mapsto> 3, eventCounterVersionKey uuid_a \<mapsto> 1],
           deadline = Map.empty, clock = 0\<rparr>,
     client_enabled = True, bus_enabled = True, trace_context = None, bus = [], db = flow_pg, calls = [], moves = []\<rparr>"

definition flow_calm :: flow_env where
  "flow_calm = \<lparr>cache_net = (\<lambda>_. Delivered), cache_others = (\<lambda>_ v. v), tx = calm_env uuid_c,
     put_purchased = PutOk, put_inventory = PutOk\<rparr>"

definition flow_input :: "int \<Rightarrow> string option \<Rightarrow> ParsedPurchaseInput" where
  "flow_input q rid = \<lparr>in_eventId = uuid_a, in_buyerId = uuid_c, in_quantity = q, in_requestId = rid, in_ticketTypeId = None\<rparr>"

lemma flow_pg_inv: "pg_inv (db flow_start)"
  by code_simp

lemma flow_calm_run: "purchases_run (tx_others (tx flow_calm))"
  by (simp add: flow_calm_def)

definition sold_request :: "PurchaseResult result \<times> flow" where
  "sold_request = createPurchaseTicketType flow_calm (flow_input 2 None) (SingleType uuid_b) flow_start"

definition failed_env :: flow_env where
  "failed_env = flow_calm\<lparr>tx := (calm_env uuid_c)\<lparr>tx_net := (\<lambda>_. Delivered)(Q_INSERT := LostRequest)\<rparr>\<rparr>"

definition failed_request :: "PurchaseResult result \<times> flow" where
  "failed_request = createPurchaseTicketType failed_env (flow_input 2 None) (SingleType uuid_b) flow_start"

text \<open>The counter is at 3, the request takes 2 of them, its transaction fails, and 2 are given back.\<close>

theorem reservation_is_settled_witness:
  "moves (snd failed_request) = [(OpReserveTT uuid_a uuid_b 2, Some 3, Some 1), (OpReleaseTT uuid_a uuid_b 2, Some 1, Some 3)]
   \<and> hands_back failed_env uuid_a uuid_b 2 (Inl connection_lost) [(OpReleaseTT uuid_a uuid_b 2, Some 1, Some 3)]
   \<and> vk_get (ticketTypeCounterKey uuid_a uuid_b) (vk (snd failed_request)) = Some 3"
proof -
  let ?i = "flow_input 2 None"
  have p: "prefilter_type ?i (SingleType uuid_b) = Some uuid_b" "in_eventId ?i = uuid_a" "in_quantity ?i = 2"
    by (simp_all add: prefilter_type_def flow_input_def)
  have run: "createPurchaseTicketType failed_env ?i (SingleType uuid_b) flow_start = (fst failed_request, snd failed_request)"
    by (simp add: failed_request_def)
  have "fst (executePurchaseTransaction (tx failed_env) ?i (db flow_start)) = Inl connection_lost" by code_simp
  then have tr: "executePurchaseTransaction (tx failed_env) ?i (db flow_start)
      = (Inl connection_lost, snd (executePurchaseTransaction (tx failed_env) ?i (db flow_start)))" by (metis prod.collapse)
  have moves: "moves (snd failed_request) = [(OpReserveTT uuid_a uuid_b 2, Some 3, Some 1), (OpReleaseTT uuid_a uuid_b 2, Some 1, Some 3)]"
    by code_simp
  have start: "client_enabled flow_start" "moves flow_start = []" "cache_net failed_env C_RESERVE = Delivered"
    "vk_get (ticketTypeCounterKey uuid_a uuid_b) (cache_others failed_env C_RESERVE (vk flow_start)) = Some 3" by code_simp+
  from reservation_is_settled [OF run p(1) tr] obtain marks ms where
    m: "marks @ ms = [(OpReleaseTT uuid_a uuid_b 2, Some 1, Some 3)]"
    "set marks \<subseteq> {(OpMark (in_buyerId ?i) uuid_a (the (in_requestId ?i)), None, None)}"
    "hands_back failed_env uuid_a uuid_b 2 (Inl connection_lost) ms"
    unfolding p Let_def by (auto simp: start moves consumed_def enough_def)
  then have "marks = []" by (cases marks) auto
  moreover have "vk_get (ticketTypeCounterKey uuid_a uuid_b) (vk (snd failed_request)) = Some 3" by code_simp
  ultimately show ?thesis using m moves by simp
qed

text \<open>
  The exception: 6 tickets are asked for, the counter has 8 and the database 5. The sync to 5 is applied, its answer is
  lost, and the release adds the 6 on top.
\<close>

definition lost_sync_env :: flow_env where
  "lost_sync_env = flow_calm\<lparr>cache_net := (\<lambda>_. Delivered)(C_SYNC := LostReply)\<rparr>"

definition lost_sync_request :: "PurchaseResult result \<times> flow" where
  "lost_sync_request = createPurchaseTicketType lost_sync_env (flow_input 6 None) (SingleType uuid_b)
     (flow_start\<lparr>vk := vk_set (ticketTypeCounterKey uuid_a uuid_b) 8 (vk flow_start)\<rparr>)"

theorem lost_sync_answer_overstates:
  "map snd (moves (snd lost_sync_request)) = [(Some 8, Some 2), (Some 2, Some 5), (Some 5, Some 11)]
   \<and> map_option tti_remaining (type_row_of uuid_b (db (snd lost_sync_request))) = Some 5"
proof -
  have "map snd (moves (snd lost_sync_request)) = [(Some 8, Some 2), (Some 2, Some 5), (Some 5, Some 11)]" by code_simp
  moreover have "map_option tti_remaining (type_row_of uuid_b (db (snd lost_sync_request))) = Some 5" by code_simp
  ultimately show ?thesis ..
qed

theorem legacy_reservation_is_settled_witness:
  "\<exists>reserved rest. own_calls flow_start (snd (createPurchaseLegacy flow_calm (flow_input 2 None) flow_start))
     = (OpReserve uuid_a 2, reserved) # rest"
proof -
  obtain r w' where run: "createPurchaseLegacy flow_calm (flow_input 2 None) flow_start = (r, w')" by fastforce
  obtain tr s' where tr: "executePurchaseTransaction (tx flow_calm) (flow_input 2 None) (db flow_start) = (tr, s')" by fastforce
  from legacy_reservation_is_settled [OF run tr] run show ?thesis by (auto simp: flow_input_def)
qed

text \<open>No room in the cache of another Type's scope: the counter is unknown, the sale is corrected by a sync.\<close>

definition unknown_env :: flow_env where
  "unknown_env = flow_calm\<lparr>cache_net := (\<lambda>_. Delivered)(C_RESERVE := LostRequest)\<rparr>"

definition synced_request :: "PurchaseResult result \<times> flow" where
  "synced_request = createPurchaseTicketType unknown_env (flow_input 2 None) (SingleType uuid_b) flow_start"

theorem sync_writes_committed_remaining_witness:
  "\<exists>row. type_row_of uuid_b (db (snd synced_request)) = Some row \<and> tti_remaining row = 3"
proof -
  have "(OpSyncTT uuid_a uuid_b 3 1, True) \<in> set (own_calls flow_start (snd synced_request))" by code_simp
  moreover have "purchases_run (tx_others (tx unknown_env))" by (simp add: unknown_env_def flow_calm_def)
  moreover have "0 < in_quantity (flow_input 2 None)" by (simp add: flow_input_def)
  ultimately show ?thesis
    using sync_writes_committed_remaining [OF flow_pg_inv, of "flow_input 2 None" unknown_env "SingleType uuid_b"
        "fst synced_request" "snd synced_request" uuid_a uuid_b 3 1 True]
    unfolding synced_request_def prod.collapse by blast
qed

definition sold_out_request :: "PurchaseResult result \<times> flow" where
  "sold_out_request = createPurchase flow_calm (Inr (TicketTypePlan (SingleType uuid_b))) uuid_a uuid_c
     (JObject [(''quantity'', jsint 4)]) JUndefined flow_start"

theorem precheck_stays_out_of_database_witness:
  "db (snd sold_out_request) = db flow_start"
proof -
  have ok: "is_ok (fst sold_out_request)" by code_simp
  then obtain r where r: "fst sold_out_request = Inr r" by (auto simp: is_ok_iff)
  have "purchaseId (projr (fst sold_out_request)) = None" by code_simp
  with r have "purchaseId r = None" by simp
  with precheck_stays_out_of_database [of flow_calm "Inr (TicketTypePlan (SingleType uuid_b))" uuid_a uuid_c
      "JObject [(''quantity'', jsint 4)]" JUndefined flow_start r "snd sold_out_request"] r
  show ?thesis by (simp add: sold_out_request_def prod_eq_iff)
qed

definition full_request :: "PurchaseResult result \<times> flow" where
  "full_request = createPurchase flow_calm (Inr (TicketTypePlan (SingleType uuid_b))) uuid_a uuid_c
     (JObject [(''quantity'', jsint 2)]) JUndefined flow_start"

theorem events_only_for_new_sales_witness:
  "map fst (bus (snd full_request)) = [''TicketPurchased'', ''InventoryChanged'']
   \<and> (\<exists>out. fst full_request = Inr (o_result out) \<and> sold_new (Inr out))"
proof -
  have names: "map fst (bus (snd full_request)) = [''TicketPurchased'', ''InventoryChanged'']" by code_simp
  obtain es where "bus (snd full_request) = bus flow_start @ es"
    "es \<noteq> [] \<longrightarrow> (\<exists>out. fst full_request = Inr (o_result out) \<and> sold_new (Inr out))"
    using events_only_for_new_sales [of flow_calm "Inr (TicketTypePlan (SingleType uuid_b))" uuid_a uuid_c
        "JObject [(''quantity'', jsint 2)]" JUndefined flow_start "fst full_request" "snd full_request"]
    unfolding full_request_def prod.collapse by blast
  with names show ?thesis by (auto simp: flow_start_def)
qed

lemma full_request_catalog: "catalog_ok (db (snd full_request))"
  unfolding catalog_ok_def by code_simp

theorem published_inventory_is_committed_state_witness:
  "\<exists>p. parseInventoryChangedDetail (snd (bus (snd full_request) ! 1)) = Inr (Versioned p)
     \<and> vp_eventId p = uuid_a \<and> describes p (db (snd full_request))"
proof -
  have two: "map fst (bus (snd full_request)) = [''TicketPurchased'', ''InventoryChanged'']" by code_simp
  then have "bus (snd full_request) ! 1 \<in> set (bus (snd full_request))" "fst (bus (snd full_request) ! 1) = ''InventoryChanged''"
    by (auto simp: map_eq_Cons_conv)
  then have mem: "(''InventoryChanged'', snd (bus (snd full_request) ! 1)) \<in> set (bus (snd full_request))"
    by (metis prod.collapse)
  have bus: "bus (snd full_request) = bus flow_start @ bus (snd full_request)" by (simp add: flow_start_def)
  have run: "createPurchase flow_calm (Inr (TicketTypePlan (SingleType uuid_b))) uuid_a uuid_c
      (JObject [(''quantity'', jsint 2)]) JUndefined flow_start = (fst full_request, snd full_request)"
    by (simp add: full_request_def)
  show ?thesis
    by (rule published_inventory_is_committed_state [OF flow_pg_inv flow_calm_run run full_request_catalog bus mem])
qed

section \<open>A lost COMMIT answer\<close>

definition lost_commit_env :: flow_env where
  "lost_commit_env = flow_calm\<lparr>tx := (calm_env uuid_c)\<lparr>tx_net := (\<lambda>_. Delivered)(Q_COMMIT := LostReply)\<rparr>\<rparr>"

definition lost_commit_request :: "PurchaseResult result \<times> flow" where
  "lost_commit_request = createPurchaseTicketType lost_commit_env (flow_input 2 None) (SingleType uuid_b) flow_start"

definition kept_commit :: "PurchaseTransactionOutcome result \<times> pg" where
  "kept_commit = executePurchaseTransaction (deliver_commit (tx lost_commit_env)) (flow_input 2 None) (db flow_start)"

text \<open>C9: when a purchase is committed and only the answer to COMMIT is lost, the request fails and
  hands its reservation back, although the purchase is in the database: the counter promises
  tickets that are sold. Valkey only pre-filters, so nothing is oversold; the counter stays too
  high until a sync.\<close>

theorem lost_commit_releases_sold_tickets:
  assumes "createPurchaseTicketType env i sc w = (r, w')" "prefilter_type i sc = Some t"
    and "tx_net (tx env) Q_COMMIT = LostReply"
    and "executePurchaseTransaction (deliver_commit (tx env)) i (db w) = (Inr out, s)" "o_disposition out = Created"
    and "(OpReserveTT (in_eventId i) t (in_quantity i), True) \<in> set (own_calls w w')"
  shows "r = Inl connection_lost \<and> db w' = s
    \<and> (\<exists>ok. (OpReleaseTT (in_eventId i) t (in_quantity i), ok) \<in> set (own_calls w w'))"
proof -
  from execute_lost_commit [OF assms(3-5)]
  have tr: "executePurchaseTransaction (tx env) i (db w) = (Inl connection_lost, s)" .
  let ?op = "OpReserveTT (in_eventId i) t (in_quantity i)"
  from ticket_type_path [OF assms(1) tr] assms(2) obtain reserved where
    "(stopped_early i w [(?op, reserved)] r w' \<and> \<not> reserved)
      \<or> (\<exists>ms ds. ran_transaction env i w ([(?op, reserved)] @ ms @ ds) r w'
           \<and> only_marks ms \<and> type_protocol (in_eventId i) (in_quantity i) (Some t) reserved (Inl connection_lost) ds)"
    by auto
  then show ?thesis
  proof (elim disjE exE conjE)
    assume "stopped_early i w [(?op, reserved)] r w'" "\<not> reserved"
    with own_calls_adds [OF stopped_early_calls] assms(6) have False by auto
    then show ?thesis ..
  next
    fix ms ds
    assume ran: "ran_transaction env i w ([(?op, reserved)] @ ms @ ds) r w'" and ms: "only_marks ms"
      and p: "type_protocol (in_eventId i) (in_quantity i) (Some t) reserved (Inl connection_lost) ds"
    have calls: "own_calls w w' = (?op, reserved) # ms @ ds"
      using own_calls_adds [OF ran_transaction_calls [OF ran]] by simp
    have "(?op, True) \<notin> set ms" using ms by (auto simp: only_marks_def list_all_iff)
    moreover have "\<not> reserved \<Longrightarrow> (?op, True) \<notin> set ds" using p by (auto simp: type_protocol_def)
    ultimately have "reserved" using calls assms(6) by auto
    with p have "\<exists>ok. ds = [(OpReleaseTT (in_eventId i) t (in_quantity i), ok)]"
      by (auto simp: type_protocol_def consumed_def handed_back_def)
    with calls ran tr show ?thesis by (auto simp: ran_transaction_def)
  qed
qed

theorem lost_commit_releases_sold_tickets_witness:
  "fst lost_commit_request = Inl connection_lost \<and> sold_quantity uuid_b (db (snd lost_commit_request)) = 2
   \<and> (\<exists>ok. (OpReleaseTT uuid_a uuid_b 2, ok) \<in> set (own_calls flow_start (snd lost_commit_request)))"
proof -
  have "is_ok (fst kept_commit) \<and> o_disposition (projr (fst kept_commit)) = Created" by code_simp
  then obtain out where out: "kept_commit = (Inr out, snd kept_commit)" "o_disposition out = Created"
    by (auto simp: is_ok_iff prod_eq_iff)
  have "(OpReserveTT uuid_a uuid_b 2, True) \<in> set (own_calls flow_start (snd lost_commit_request))" by code_simp
  moreover have "sold_quantity uuid_b (db (snd lost_commit_request)) = 2" by code_simp
  moreover have "tx_net (tx lost_commit_env) Q_COMMIT = LostReply" by (simp add: lost_commit_env_def)
  moreover have "in_eventId (flow_input 2 None) = uuid_a" "in_quantity (flow_input 2 None) = 2"
    "prefilter_type (flow_input 2 None) (SingleType uuid_b) = Some uuid_b"
    by (simp_all add: flow_input_def prefilter_type_def)
  ultimately show ?thesis
    using lost_commit_releases_sold_tickets [of lost_commit_env "flow_input 2 None" "SingleType uuid_b" flow_start
        "fst lost_commit_request" "snd lost_commit_request" uuid_b out "snd kept_commit"] out
    unfolding lost_commit_request_def kept_commit_def prod.collapse by auto
qed

end
