(* ===== verification/Events.thy ===== *)
theory Events
  imports PurchaseFlow
begin

text \<open>
  Event registration, \<open>EventsService.createEvent\<close> of src/events/events.service.ts: the validation of the
  body, the transaction that creates the Event, its default Ticket Type (a trigger of the expand
  migration) and its inventory through the active writer, and what follows the commit: the
  pre-filter's counter, the resolver's plan and the \<open>EventListed\<close> event. With it, the law that every
  database the program can build from the empty one is sound.
\<close>

section \<open>Input\<close>

record ParsedCreateEventInput =
  ce_title :: string
  ce_eventType :: string
  ce_startsAt :: string
  ce_latitude :: "jsnum option"
  ce_longitude :: "jsnum option"
  ce_totalQuantity :: int

definition abs_exceeds :: "jsnum \<Rightarrow> rat \<Rightarrow> bool" where
  "abs_exceeds n absMax = (case n of Fin r \<Rightarrow> \<bar>r\<bar> > absMax | NaN \<Rightarrow> False | _ \<Rightarrow> True)"

definition parseOptionalCoordinate :: "jsval \<Rightarrow> rat \<Rightarrow> string \<Rightarrow> jsnum option result" where
  "parseOptionalCoordinate v absMax name =
     (case v of
        JUndefined \<Rightarrow> Inr None
      | JNull \<Rightarrow> Inr None
      | JNumber n \<Rightarrow> if abs_exceeds n absMax then Inl (BadRequestException (name @ '' must be a number within''))
                    else Inr (Some n)
      | _ \<Rightarrow> Inl (BadRequestException (name @ '' must be a number within'')))"

definition bounded_string :: "jsval \<Rightarrow> nat \<Rightarrow> bool" where
  "bounded_string v n = (case v of JString s \<Rightarrow> length s \<noteq> 0 \<and> length s \<le> n | _ \<Rightarrow> False)"

text \<open>
  \<open>to_iso\<close> is \<open>Date.parse\<close> followed by \<open>toISOString\<close>: \<open>None\<close> when the text is no date. Outside the ISO format
  \<open>Date.parse\<close> is up to the engine, so it is an argument.
\<close>

definition parseCreateEventInput :: "(string \<Rightarrow> string option) \<Rightarrow> jsval \<Rightarrow> ParsedCreateEventInput result" where
  "parseCreateEventInput to_iso body =
     (case body of
        JObject fs \<Rightarrow>
          (if \<not> bounded_string (get_field fs ''title'') 200
           then Inl (BadRequestException ''title must be a non-empty string (max 200)'')
           else if \<not> bounded_string (get_field fs ''eventType'') 50
           then Inl (BadRequestException ''eventType must be a non-empty string (max 50)'')
           else (case (get_field fs ''startsAt'', to_iso (string_value (get_field fs ''startsAt''))) of
               (JString _, Some startsAt) \<Rightarrow>
                 bind_result (parseOptionalCoordinate (get_field fs ''latitude'') 90 ''latitude'') (\<lambda>latitude.
                 bind_result (parseOptionalCoordinate (get_field fs ''longitude'') 180 ''longitude'') (\<lambda>longitude.
                 if (latitude = None) \<noteq> (longitude = None)
                 then Inl (BadRequestException ''latitude and longitude must be provided together'')
                 else if \<not> isInteger (get_field fs ''totalQuantity'')
                   \<or> number_value (get_field fs ''totalQuantity'') \<le> 0
                   \<or> number_value (get_field fs ''totalQuantity'') > POSTGRES_INT4_MAX
                 then Inl (BadRequestException ''totalQuantity must be a positive integer up to 2147483647'')
                 else Inr \<lparr>ce_title = string_value (get_field fs ''title''),
                   ce_eventType = string_value (get_field fs ''eventType''), ce_startsAt = startsAt,
                   ce_latitude = latitude, ce_longitude = longitude,
                   ce_totalQuantity = number_value (get_field fs ''totalQuantity'')\<rparr>))
             | _ \<Rightarrow> Inl (BadRequestException ''startsAt must be an ISO 8601 datetime'')))
      | _ \<Rightarrow> Inl (BadRequestException ''request body must be an object''))"

section \<open>The transaction\<close>

datatype ce_stmt = CE_CONNECT | CE_BEGIN | CE_BARRIER | CE_MODE | CE_EVENT | CE_DEFAULT_TYPE | CE_INVENTORY | CE_COMMIT

text \<open>
  The environment of one call: the fate of each statement, the purchases that commit before its first
  write, the ids \<open>gen_random_uuid()\<close> draws, what PostgreSQL answers to the descriptive columns and the
  creator (\<open>None\<close>: accepted), what others commit between this call's COMMIT and the initialisation of
  the counter (\<open>ce_meanwhile\<close>: the Event is visible by then, so its tickets can sell), and what happens
  to the calls after the commit.
\<close>

record listing_env =
  ce_net :: "ce_stmt \<Rightarrow> link"
  ce_others :: "pg \<Rightarrow> pg"
  ce_event_id :: string
  ce_type_id :: string
  ce_row_error :: "exn option"
  ce_meanwhile :: "db_op list"
  ce_init :: link
  ce_cache_others :: "valkey \<Rightarrow> valkey"
  ce_put :: put_reply
  ce_iso :: "string \<Rightarrow> string option"

definition ce_ask :: "listing_env \<Rightarrow> ce_stmt \<Rightarrow> 'a result \<Rightarrow> 'a result" where
  "ce_ask env q r = (if ce_net env q = Delivered then r else Inl connection_lost)"

text \<open>INSERT INTO events; the trigger adds the default Ticket Type in the same statement.\<close>

definition create_default_ticket_type :: "string \<Rightarrow> string \<Rightarrow> pg \<Rightarrow> pg result" where
  "create_default_ticket_type tid eid s =
     (if list_ex (\<lambda>t. type_id t = tid) (ticket_types s) then Inl (PgError ''23505'' ''ticket_types_pkey'')
      else if list_ex (\<lambda>t. type_event t = eid \<and> is_default t) (ticket_types s)
      then Inl (PgError ''23505'' ''ticket_types_one_default_per_event_uq'')
      else Inr (s\<lparr>ticket_types := ticket_types s
        @ [\<lparr>type_id = tid, type_event = eid, type_name = ''General Admission'', is_default = True\<rparr>]\<rparr>))"

definition insert_event :: "listing_env \<Rightarrow> pg \<Rightarrow> pg result" where
  "insert_event env s =
     (case ce_row_error env of
        Some e \<Rightarrow> Inl e
      | None \<Rightarrow>
          if ce_event_id env \<in> set (events s) then Inl (PgError ''23505'' ''events_pkey'')
          else create_default_ticket_type (ce_type_id env) (ce_event_id env)
                 (s\<lparr>events := events s @ [ce_event_id env]\<rparr>))"

text \<open>The INSERTs into the inventory tables, with their statement and row triggers.\<close>

definition insert_ticket_inventory :: "string \<Rightarrow> int \<Rightarrow> pg \<Rightarrow> pg result" where
  "insert_ticket_inventory e q s =
     bind_result (fence_inventory_statement TicketInventory 1 s) (\<lambda>s1.
     if row_by ti_event e (ticket_inventory s1) \<noteq> None then Inl (PgError ''23505'' ''ticket_inventory_pkey'')
     else ti_write 1 \<lparr>ti_event = e, ti_total = q, ti_remaining = q, ti_version = 0\<rparr> s1)"

definition insert_ticket_type_inventory :: "string \<Rightarrow> string \<Rightarrow> int \<Rightarrow> pg \<Rightarrow> pg result" where
  "insert_ticket_type_inventory t e q s =
     bind_result (fence_inventory_statement TicketTypeInventory 1 s) (\<lambda>s1.
     if row_by tti_type t (ticket_type_inventory s1) \<noteq> None then Inl (PgError ''23505'' ''ticket_type_inventory_pkey'')
     else tti_write 1 \<lparr>tti_type = t, tti_event = e, tti_total = q, tti_remaining = q, tti_version = 0\<rparr> s1)"

text \<open>The try block up to COMMIT: the default Type's id in ticket_type mode, \<open>None\<close> in legacy mode.\<close>

definition create_event_tx :: "listing_env \<Rightarrow> ParsedCreateEventInput \<Rightarrow> pg \<Rightarrow> (string option \<times> pg) result" where
  "create_event_tx env i s =
     bind_result (ce_ask env CE_BEGIN (Inr ())) (\<lambda>_.
     bind_result (ce_ask env CE_BARRIER (Inr ())) (\<lambda>_.
     bind_result (ce_ask env CE_MODE (readInventoryWriterMode s)) (\<lambda>mode.
     bind_result (ce_ask env CE_EVENT (insert_event env s)) (\<lambda>s1.
     case mode of
       Legacy \<Rightarrow>
         bind_result (ce_ask env CE_INVENTORY (insert_ticket_inventory (ce_event_id env) (ce_totalQuantity i) s1)) (\<lambda>s2.
         Inr (None, s2))
     | TicketTypeMode \<Rightarrow>
         bind_result (ce_ask env CE_DEFAULT_TYPE
           (case filter (\<lambda>t. type_event t = ce_event_id env \<and> is_default t) (ticket_types s1) of
              [t] \<Rightarrow> Inr (type_id t)
            | _ \<Rightarrow> Inl (PlainError ''new event does not have exactly one default ticket type''))) (\<lambda>t.
         bind_result (ce_ask env CE_INVENTORY (insert_ticket_type_inventory t (ce_event_id env) (ce_totalQuantity i) s1)) (\<lambda>s2.
         Inr (Some t, s2)))))))"

text \<open>With COMMIT and the catch block's rollback: what the caller sees, and what stays.\<close>

definition run_create_event :: "listing_env \<Rightarrow> ParsedCreateEventInput \<Rightarrow> pg \<Rightarrow> string option result \<times> pg" where
  "run_create_event env i s0 =
     (if ce_net env CE_CONNECT \<noteq> Delivered then (Inl connection_lost, s0)
      else (let s = ce_others env s0
            in case create_event_tx env i s of
                 Inl e \<Rightarrow> (Inl e, s)
               | Inr (t, s1) \<Rightarrow>
                   (case ce_net env CE_COMMIT of
                      Delivered \<Rightarrow> (Inr t, end_tx s1)
                    | LostRequest \<Rightarrow> (Inl connection_lost, s)
                    | LostReply \<Rightarrow> (Inl connection_lost, end_tx s1))))"

section \<open>The request\<close>

record EventSummary =
  es_eventId :: string
  es_title :: string
  es_eventType :: string
  es_startsAt :: string
  es_latitude :: "jsnum option"
  es_longitude :: "jsnum option"
  es_totalQuantity :: int
  es_remainingQuantity :: int

text \<open>The world of the request: that of a purchase, and the resolver.\<close>

record listing = flow +
  planner :: resolver

definition event_listed_detail :: "string \<Rightarrow> ParsedCreateEventInput \<Rightarrow> (string \<times> jsval) list" where
  "event_listed_detail e i =
     [(''eventId'', JString e), (''title'', JString (ce_title i)), (''eventType'', JString (ce_eventType i)),
      (''startsAt'', JString (ce_startsAt i)), (''latitude'', json_option JNumber (ce_latitude i)),
      (''longitude'', json_option JNumber (ce_longitude i)), (''totalQuantity'', jsint (ce_totalQuantity i)),
      (''remainingQuantity'', jsint (ce_totalQuantity i))]"

definition createEvent :: "listing_env \<Rightarrow> jsval \<Rightarrow> listing \<Rightarrow> EventSummary result \<times> listing" where
  "createEvent env body w =
     (case parseCreateEventInput (ce_iso env) body of
        Inl e \<Rightarrow> (Inl e, w)
      | Inr i \<Rightarrow>
          (let (r, s) = run_create_event env i (db w); w1 = w\<lparr>db := s\<rparr>; e = ce_event_id env
           in case r of
                Inl ex \<Rightarrow> (Inl ex, w1)
              | Inr defaultType \<Rightarrow>
                  (let w2 = w1\<lparr>db := fold db_perform (ce_meanwhile env) s, vk := ce_cache_others env (vk w1)\<rparr>;
                       w3 = (case defaultType of
                          Some t \<Rightarrow> (initTicketTypeCounter (ce_init env) e t (ce_totalQuantity i) w2)
                                     \<lparr>planner := prime e (TicketTypePlan (SingleType t)) (planner w2)\<rparr>
                        | None \<Rightarrow> initCounter (ce_init env) e (ce_totalQuantity i) w2)
                   in (Inr \<lparr>es_eventId = e, es_title = ce_title i, es_eventType = ce_eventType i,
                            es_startsAt = ce_startsAt i, es_latitude = ce_latitude i, es_longitude = ce_longitude i,
                            es_totalQuantity = ce_totalQuantity i, es_remainingQuantity = ce_totalQuantity i\<rparr>,
                       publish (ce_put env) ''EventListed'' (event_listed_detail e i) w3))))"

section \<open>A new Event with its stock\<close>

lemma ce_ask_Inr [result_iffs]: "ce_ask env q r = Inr x \<longleftrightarrow> ce_net env q = Delivered \<and> r = Inr x"
  by (auto simp: ce_ask_def)

text \<open>
  The catalog: Types and inventory rows belong to Events, and every Event has a default Type with an inventory row.
\<close>

definition listed :: "pg \<Rightarrow> bool" where
  "listed s \<longleftrightarrow> (\<forall>t \<in> set (ticket_types s). type_event t \<in> set (events s))
     \<and> ti_event ` set (ticket_inventory s) \<subseteq> set (events s)
     \<and> (\<forall>e \<in> set (events s). \<exists>t. default_type_of e s = Some t \<and> type_row_of t s \<noteq> None)"

definition sound :: "pg \<Rightarrow> bool" where
  "sound s \<longleftrightarrow> pg_inv s \<and> listed s"

text \<open>\<open>s'\<close> is \<open>s\<close> with a new Event \<open>e\<close>, its default Type \<open>t\<close> and \<open>q\<close> tickets of it.\<close>

definition lists_event :: "string \<Rightarrow> string \<Rightarrow> int \<Rightarrow> ti_row \<Rightarrow> tti_row \<Rightarrow> pg \<Rightarrow> pg \<Rightarrow> bool" where
  "lists_event e t q a x s s' \<longleftrightarrow>
     e \<notin> set (events s) \<and> (\<forall>ty \<in> set (ticket_types s). type_id ty \<noteq> t)
   \<and> ti_event a = e \<and> ti_total a = q \<and> ti_remaining a = q \<and> 0 \<le> ti_version a
   \<and> x = \<lparr>tti_type = t, tti_event = e, tti_total = q, tti_remaining = q, tti_version = 0\<rparr>
   \<and> events s' = events s @ [e]
   \<and> ticket_types s' = ticket_types s @ [\<lparr>type_id = t, type_event = e, type_name = ''General Admission'', is_default = True\<rparr>]
   \<and> ticket_inventory s' = put_row ti_event a (ticket_inventory s)
   \<and> ticket_type_inventory s' = put_row tti_type x (ticket_type_inventory s)
   \<and> purchases s' = purchases s \<and> writer_control s' = writer_control s"

lemma find_append: "find P (xs @ ys) = (case find P xs of None \<Rightarrow> find P ys | Some x \<Rightarrow> Some x)"
  by (induction xs) simp_all

lemma lists_event_facts:
  assumes "pg_wf s" "listed s" "lists_event e t q a x s s'"
  shows "\<forall>r \<in> set (ticket_type_inventory s). tti_event r \<noteq> e \<and> tti_type r \<noteq> t"
    and "ticket_type_inventory s' = ticket_type_inventory s @ [x]"
    and "b \<in> set (ticket_inventory s') \<Longrightarrow> b = a \<or> (b \<in> set (ticket_inventory s) \<and> ti_event b \<noteq> e)"
proof -
  from assms show no: "\<forall>r \<in> set (ticket_type_inventory s). tti_event r \<noteq> e \<and> tti_type r \<noteq> t"
    unfolding pg_wf_def listed_def lists_event_def by metis
  have "row_by tti_type t (ticket_type_inventory s) = None" using no by (auto simp: row_by_None_iff)
  with assms(3) show "ticket_type_inventory s' = ticket_type_inventory s @ [x]"
    by (simp add: lists_event_def put_row_def)
  have d: "distinct (map ti_event (ticket_inventory s'))"
    using assms by (simp add: lists_event_def pg_wf_def distinct_put_row)
  show "b \<in> set (ticket_inventory s') \<Longrightarrow> b = a \<or> (b \<in> set (ticket_inventory s) \<and> ti_event b \<noteq> e)"
    using row_by_unique [OF d, of b] assms(3)
    by (auto simp: lists_event_def dest!: mem_put_row split: if_splits)
qed

lemma lists_event_wf:
  assumes "pg_wf s" "listed s" "lists_event e t q a x s s'" "0 < q"
  shows "pg_wf s'"
proof -
  note le = assms(3) [unfolded lists_event_def] and f = lists_event_facts [OF assms(1-3)]
  have x: "tti_event x = e" "tti_type x = t" "tti_version x \<le> ti_version a" using le by simp_all
  have a: "a \<in> set (ticket_inventory s')" using le by (simp add: put_row_mem)
  have old: "\<exists>b \<in> set (ticket_inventory s'). ti_event b = tti_event r \<and> tti_version r \<le> ti_version b"
    if "r \<in> set (ticket_type_inventory s)" for r
  proof -
    from assms(1) that obtain b where "b \<in> set (ticket_inventory s)" "ti_event b = tti_event r" "tti_version r \<le> ti_version b"
      unfolding pg_wf_def by blast
    moreover have "ti_event b \<noteq> ti_event a" using f(1) that calculation(2) le by auto
    ultimately show ?thesis using le by (auto intro!: bexI [of _ b] put_row_other)
  qed
  have "\<exists>b \<in> set (ticket_inventory s'). ti_event b = tti_event r \<and> tti_version r \<le> ti_version b"
    if "r \<in> set (ticket_type_inventory s @ [x])" for r
  proof (cases "r = x")
    case True
    have "ti_event a = e" using le by blast
    with True show ?thesis by (intro bexI [OF _ a]) (simp add: x)
  qed (use that old in auto)
  then have "\<forall>r \<in> set (ticket_type_inventory s'). \<exists>b \<in> set (ticket_inventory s'). ti_event b = tti_event r \<and> tti_version r \<le> ti_version b"
    unfolding f(2) by blast
  moreover have "\<forall>r \<in> set (ticket_type_inventory s'). \<exists>ty \<in> set (ticket_types s'). type_id ty = tti_type r \<and> type_event ty = tti_event r"
    using assms(1) x le unfolding f(2) pg_wf_def by auto
  moreover have "\<forall>b \<in> set (ticket_inventory s'). check_quantities (ti_total b) (ti_remaining b) 0"
    using f(3) assms(1,4) le by (fastforce simp: pg_wf_def check_quantities_def)
  ultimately show ?thesis
    using assms(1,4) le f(1) unfolding pg_wf_def f(2)
    by (auto simp: check_quantities_def distinct_put_row)
qed

lemma lists_event_aggregates:
  assumes "pg_wf s" "listed s" "aggregates_match s" "lists_event e t q a x s s'"
  shows "aggregates_match s'"
proof -
  note le = assms(4) [unfolded lists_event_def] and f = lists_event_facts [OF assms(1,2,4)]
  have none: "aggregate_total e s = 0" "aggregate_remaining e s = 0"
    using f(1) unfolding aggregate_total_def aggregate_remaining_def by (auto intro: sum_where_none)
  have sums: "aggregate_total b s' = aggregate_total b s + (if b = e then q else 0)"
    "aggregate_remaining b s' = aggregate_remaining b s + (if b = e then q else 0)" for b
    using le by (auto simp: aggregate_total_def aggregate_remaining_def f(2))
  show ?thesis
    unfolding aggregates_match_def
  proof
    fix b assume "b \<in> set (ticket_inventory s')"
    from f(3) [OF this] show "ti_total b = aggregate_total (ti_event b) s' \<and> ti_remaining b = aggregate_remaining (ti_event b) s'"
    proof
      assume "b = a"
      then show ?thesis using le none sums by simp
    next
      assume "b \<in> set (ticket_inventory s) \<and> ti_event b \<noteq> e"
      then show ?thesis using assms(3) sums by (auto simp: aggregates_match_def)
    qed
  qed
qed

lemma lists_event_sound:
  assumes "sound s" "lists_event e t q a x s s'" "0 < q"
  shows "sound s'"
proof -
  have inv: "pg_wf s" "listed s" "aggregates_match s" "stock_conserved s" "requests_unique s" "purchases_linked s"
    using assms(1) by (simp_all add: sound_def pg_inv_def)
  note le = assms(2) [unfolded lists_event_def] and f = lists_event_facts [OF inv(1,2) assms(2)]
  have sold: "sold_quantity u s' = sold_quantity u s" for u using le by (simp add: sold_quantity_def)
  have "sold_quantity t s = 0"
    using inv(6) le unfolding sold_quantity_def purchases_linked_def by (intro sum_where_none) auto
  then have "stock_conserved s'" using inv(4) le sold by (auto simp: stock_conserved_def f(2))
  moreover have "requests_unique s'" "purchases_linked s'"
    using inv(5,6) le by (auto simp: requests_unique_def purchases_linked_def)
  moreover have "listed s'"
    unfolding listed_def
  proof (intro conjI ballI)
    show "ti_event ` set (ticket_inventory s') \<subseteq> set (events s')"
      using inv(2) le by (auto simp: listed_def keys_put_row)
  next
    show "type_event ty \<in> set (events s')" if "ty \<in> set (ticket_types s')" for ty
      using that inv(2) le by (auto simp: listed_def)
  next
    fix b assume b: "b \<in> set (events s')"
    show "\<exists>u. default_type_of b s' = Some u \<and> type_row_of u s' \<noteq> None"
    proof (cases "b = e")
      case True
      have "find (\<lambda>ty. type_event ty = e \<and> is_default ty) (ticket_types s) = None"
        using inv(2) le by (auto simp: find_None_iff listed_def)
      then have "default_type_of e s' = Some t"
        using le by (simp add: default_type_of_def find_append)
      then show ?thesis using True le by (simp add: type_row_of_def)
    next
      case False
      with b le have "b \<in> set (events s)" by simp
      with inv(2) obtain u where u: "default_type_of b s = Some u" "type_row_of u s \<noteq> None" by (auto simp: listed_def)
      then have "default_type_of b s' = Some u" using le by (auto simp: default_type_of_def find_append)
      moreover have "type_row_of u s' \<noteq> None"
        using u(2) le by (auto simp: type_row_of_def)
      ultimately show ?thesis by blast
    qed
  qed
  ultimately show ?thesis
    using lists_event_wf [OF inv(1,2) assms(2,3)] lists_event_aggregates [OF inv(1-3) assms(2)]
    by (simp add: sound_def pg_inv_def)
qed

lemma put_row_put:
  assumes "key p = key r" "row_by key (key r) rows = None"
  shows "put_row key r (put_row key p rows) = put_row key r rows"
proof -
  have "map (\<lambda>x. if key x = key r then r else x) rows = rows" using assms(2) unfolding row_by_None_iff by (intro map_idI) (metis imageI)
  with assms show ?thesis by (simp add: put_row_def row_by_append)
qed

lemma default_type_of_new:
  assumes "listed s" "e \<notin> set (events s)" "ticket_types s' = ticket_types s @ [ty]" "type_event ty = e" "is_default ty"
  shows "default_type_of e s' = Some (type_id ty)" "filter (\<lambda>t. type_event t = e \<and> is_default t) (ticket_types s') = [ty]"
proof -
  have "\<forall>t \<in> set (ticket_types s). \<not> (type_event t = e \<and> is_default t)" using assms(1,2) by (auto simp: listed_def)
  then have "find (\<lambda>t. type_event t = e \<and> is_default t) (ticket_types s) = None"
    "filter (\<lambda>t. type_event t = e \<and> is_default t) (ticket_types s) = []"
    by (simp_all add: find_None_iff)
  with assms(3-5) show "default_type_of e s' = Some (type_id ty)"
    "filter (\<lambda>t. type_event t = e \<and> is_default t) (ticket_types s') = [ty]"
    by (simp_all add: default_type_of_def find_append)
qed

lemma insert_event_Inr [result_iffs]:
  "insert_event env s = Inr s' \<longleftrightarrow> ce_row_error env = None \<and> ce_event_id env \<notin> set (events s)
     \<and> (\<forall>t \<in> set (ticket_types s). type_id t \<noteq> ce_type_id env)
     \<and> (\<forall>t \<in> set (ticket_types s). \<not> (type_event t = ce_event_id env \<and> is_default t))
     \<and> s' = s\<lparr>events := events s @ [ce_event_id env], ticket_types := ticket_types s
        @ [\<lparr>type_id = ce_type_id env, type_event = ce_event_id env, type_name = ''General Admission'', is_default = True\<rparr>]\<rparr>"
  by (auto simp: insert_event_def create_default_ticket_type_def list_ex_iff split: option.split)

text \<open>The stock of the new Event, through either writer.\<close>

lemma legacy_stock:
  assumes "writer_control s = Some ''legacy''" "default_type_of e s = Some t"
    and "insert_ticket_inventory e q s = Inr s'"
  shows "s' = s\<lparr>mirror_origin := Some ''legacy'',
        ticket_inventory := put_row ti_event \<lparr>ti_event = e, ti_total = q, ti_remaining = q, ti_version = 0\<rparr> (ticket_inventory s),
        ticket_type_inventory := put_row tti_type
          \<lparr>tti_type = t, tti_event = e, tti_total = q, tti_remaining = q, tti_version = 0\<rparr> (ticket_type_inventory s)\<rparr>"
proof -
  obtain s1 where s1: "fence_inventory_statement TicketInventory 1 s = Inr s1"
    and w: "ti_write 1 \<lparr>ti_event = e, ti_total = q, ti_remaining = q, ti_version = 0\<rparr> s1 = Inr s'"
    using assms(3) by (auto simp: insert_ticket_inventory_def bind_result_Inr split: if_splits)
  from fence_Inr [OF s1] assms(1) have s1: "s1 = s\<lparr>mirror_origin := Some ''legacy''\<rparr>" by simp
  with assms(1) have "writer_control s1 = Some ''legacy''" by simp
  from legacy_ti_write [OF this w] assms(2) show ?thesis by (auto simp: s1 shadow_row_def)
qed

lemma ticket_type_stock:
  assumes "writer_control s = Some ''ticket_type''" "row_by ti_event e (ticket_inventory s) = None"
    and "\<forall>r \<in> set (ticket_type_inventory s). tti_event r \<noteq> e"
    and "insert_ticket_type_inventory t e q s = Inr s'"
  shows "s' = s\<lparr>mirror_origin := Some ''ticket_type'',
        ticket_inventory := put_row ti_event \<lparr>ti_event = e, ti_total = q, ti_remaining = q, ti_version = 1\<rparr> (ticket_inventory s),
        ticket_type_inventory := put_row tti_type
          \<lparr>tti_type = t, tti_event = e, tti_total = q, tti_remaining = q, tti_version = 0\<rparr> (ticket_type_inventory s)\<rparr>"
proof -
  let ?x = "\<lparr>tti_type = t, tti_event = e, tti_total = q, tti_remaining = q, tti_version = 0\<rparr>"
  obtain s1 where s1: "fence_inventory_statement TicketTypeInventory 1 s = Inr s1"
    and new: "row_by tti_type t (ticket_type_inventory s1) = None" and w: "tti_write 1 ?x s1 = Inr s'"
    using assms(4) by (auto simp: insert_ticket_type_inventory_def bind_result_Inr split: if_splits)
  from fence_Inr [OF s1] assms(1) have s1: "s1 = s\<lparr>mirror_origin := Some ''ticket_type''\<rparr>" by simp
  with assms(1) have "writer_control s1 = Some ''ticket_type''" by simp
  from ticket_type_tti_write [OF this w] obtain row where
    row: "ti_event row = e" "ti_total row = aggregate_total e s'" "ti_remaining row = aggregate_remaining e s'" "ti_version row = 1"
    and s': "s' = s\<lparr>mirror_origin := Some ''ticket_type'', ticket_type_inventory := put_row tti_type ?x (ticket_type_inventory s),
        ticket_inventory := put_row ti_event row (put_row ti_event
          \<lparr>ti_event = e, ti_total = 0, ti_remaining = 0, ti_version = 0\<rparr> (ticket_inventory s))\<rparr>"
    using assms(2) by (auto simp: s1)
  have "ticket_type_inventory s' = ticket_type_inventory s @ [?x]" using new by (simp add: s' s1 put_row_def)
  then have "aggregate_total e s' = q" "aggregate_remaining e s' = q"
    using assms(3) by (simp_all add: aggregate_total_def aggregate_remaining_def sum_where_none)
  then have "row = \<lparr>ti_event = e, ti_total = q, ti_remaining = q, ti_version = 1\<rparr>" using row by simp
  with s' assms(2) show ?thesis by (simp add: put_row_put)
qed

lemma create_event_lists:
  assumes "pg_wf s" "listed s" "create_event_tx env i s = Inr (u, s')"
  obtains a x where "lists_event (ce_event_id env) (ce_type_id env) (ce_totalQuantity i) a x s s'"
    "u = (if writer_control s = Some ''legacy'' then None else Some (ce_type_id env))"
proof -
  let ?e = "ce_event_id env" and ?t = "ce_type_id env" and ?q = "ce_totalQuantity i"
  let ?ty = "\<lparr>type_id = ?t, type_event = ?e, type_name = ''General Admission'', is_default = True\<rparr>"
  let ?x = "\<lparr>tti_type = ?t, tti_event = ?e, tti_total = ?q, tti_remaining = ?q, tti_version = 0\<rparr>"
  from assms(3) obtain mode s1 where mode: "readInventoryWriterMode s = Inr mode" and s1: "insert_event env s = Inr s1"
    and k: "(case mode of
       Legacy \<Rightarrow> bind_result (ce_ask env CE_INVENTORY (insert_ticket_inventory ?e ?q s1)) (\<lambda>s2. Inr (None, s2))
     | TicketTypeMode \<Rightarrow>
         bind_result (ce_ask env CE_DEFAULT_TYPE
           (case filter (\<lambda>t. type_event t = ?e \<and> is_default t) (ticket_types s1) of
              [t] \<Rightarrow> Inr (type_id t)
            | _ \<Rightarrow> Inl (PlainError ''new event does not have exactly one default ticket type''))) (\<lambda>t.
         bind_result (ce_ask env CE_INVENTORY (insert_ticket_type_inventory t ?e ?q s1)) (\<lambda>s2. Inr (Some t, s2)))) = Inr (u, s')"
    by (auto simp: create_event_tx_def result_iffs)
  have rest: "mode = Legacy \<and> u = None \<and> insert_ticket_inventory ?e ?q s1 = Inr s'
      \<or> mode = TicketTypeMode \<and> (\<exists>t. filter (\<lambda>t. type_event t = ?e \<and> is_default t) (ticket_types s1) = [t]
           \<and> u = Some (type_id t) \<and> insert_ticket_type_inventory (type_id t) ?e ?q s1 = Inr s')"
    using k by (cases mode) (auto simp: result_iffs split: list.splits)
  note new = s1 [unfolded insert_event_Inr]
  have types: "ticket_types s1 = ticket_types s @ [?ty]" using new by simp
  from new have fresh: "?e \<notin> set (events s)" by blast
  note default = default_type_of_new [OF assms(2) fresh types]
  from mode have wc: "writer_control s = Some (mode_text mode)"
    by (auto simp: readInventoryWriterMode_def mode_text_def split: option.splits if_splits)
  from rest show thesis
  proof (elim disjE conjE exE)
    assume m: "mode = Legacy" "u = None" "insert_ticket_inventory ?e ?q s1 = Inr s'"
    have "writer_control s1 = Some ''legacy''" using wc m(1) new by (simp add: mode_text_def)
    from legacy_stock [OF this _ m(3), of ?t] default(1) have
      "lists_event ?e ?t ?q \<lparr>ti_event = ?e, ti_total = ?q, ti_remaining = ?q, ti_version = 0\<rparr> ?x s s'"
      using new by (simp add: lists_event_def)
    with that m wc show thesis by (simp add: mode_text_def)
  next
    fix t assume m: "mode = TicketTypeMode" "filter (\<lambda>t. type_event t = ?e \<and> is_default t) (ticket_types s1) = [t]"
      "u = Some (type_id t)" "insert_ticket_type_inventory (type_id t) ?e ?q s1 = Inr s'"
    have "t = ?ty" using m(2) default(2) by simp
    then have t: "type_id t = ?t" by simp
    have "writer_control s1 = Some ''ticket_type''" using wc m(1) new by (simp add: mode_text_def)
    moreover have "row_by ti_event ?e (ticket_inventory s1) = None"
      using assms(2) fresh new by (auto simp: row_by_None_iff listed_def)
    moreover have "\<forall>r \<in> set (ticket_type_inventory s1). tti_event r \<noteq> ?e"
    proof -
      have "ticket_type_inventory s1 = ticket_type_inventory s" using new by simp
      with assms(1,2) fresh show ?thesis unfolding pg_wf_def listed_def by metis
    qed
    ultimately have
      "lists_event ?e ?t ?q \<lparr>ti_event = ?e, ti_total = ?q, ti_remaining = ?q, ti_version = 1\<rparr> ?x s s'"
      using ticket_type_stock [OF _ _ _ m(4)] new t by (simp add: lists_event_def)
    with that m t wc show thesis by (simp add: mode_text_def)
  qed
qed

section \<open>Histories from the empty database\<close>

lemma advances_listed:
  assumes "pg_inv s" "listed s" "pg_inv s'" "events s' = events s" "ticket_types s' = ticket_types s"
    and "ti_event ` set (ticket_inventory s') = ti_event ` set (ticket_inventory s)"
    and "\<And>t. type_version t s \<le> type_version t s'"
  shows "listed s'"
proof -
  have "type_row_of t s' \<noteq> None" if "type_row_of t s \<noteq> None" for t
  proof
    assume "type_row_of t s' = None"
    then have "type_version t s \<le> -1" using assms(7) [of t] by (simp add: type_version_def)
    moreover from that obtain r where r: "type_row_of t s = Some r" by blast
    then have "0 \<le> tti_version r"
      using row_by_Some [of tti_type t "ticket_type_inventory s" r] assms(1)
      by (auto simp: type_row_of_def pg_inv_def pg_wf_def check_quantities_def)
    ultimately show False using r by (simp add: type_version_def)
  qed
  then show ?thesis using assms(2,4-6) unfolding listed_def default_type_of_def by metis
qed

lemma advances_sound: "sound s \<Longrightarrow> advances s s' \<Longrightarrow> sound s'"
  using advances_listed [of s s'] advances_rest(1,4-6) [of s s'] advances_rows(1) [of s s'] by (simp add: sound_def)

lemma run_create_event_sound:
  assumes "sound s" "purchases_run (ce_others env)" "0 < ce_totalQuantity i"
  shows "sound (snd (run_create_event env i s))"
proof -
  have "advances s (ce_others env s)" using purchases_run_advances [OF assms(2)] assms(1) by (simp add: sound_def)
  from advances_sound [OF assms(1) this] have o: "sound (ce_others env s)" .
  moreover have "sound (end_tx s1)" if "create_event_tx env i (ce_others env s) = Inr (u, s1)" for u s1
  proof -
    have "pg_wf (ce_others env s)" "listed (ce_others env s)" using o by (simp_all add: sound_def pg_inv_def)
    from create_event_lists [OF this that] obtain a x where
      "lists_event (ce_event_id env) (ce_type_id env) (ce_totalQuantity i) a x (ce_others env s) s1" by blast
    from lists_event_sound [OF o this assms(3)] have "sound s1" .
    then show ?thesis by (simp add: sound_def listed_def end_tx_def default_type_of_def type_row_of_def)
  qed
  ultimately show ?thesis
    using assms(1) by (auto simp: run_create_event_def Let_def split: sum.split link.split)
qed

lemma parse_coordinate_Inr:
  assumes "parseOptionalCoordinate v m n = Inr c" "v \<noteq> JNumber NaN"
  shows "case c of None \<Rightarrow> v = JUndefined \<or> v = JNull | Some x \<Rightarrow> (\<exists>r. x = Fin r \<and> \<bar>r\<bar> \<le> m \<and> v = JNumber x)"
  using assms by (auto simp: parseOptionalCoordinate_def abs_exceeds_def split: jsval.splits if_splits jsnum.splits)

lemma parseCreateEventInput_Inr:
  assumes "parseCreateEventInput f body = Inr i"
  obtains fs where "body = JObject fs" "bounded_string (get_field fs ''title'') 200" "bounded_string (get_field fs ''eventType'') 50"
    "ce_title i = string_value (get_field fs ''title'')" "ce_eventType i = string_value (get_field fs ''eventType'')"
    "f (string_value (get_field fs ''startsAt'')) = Some (ce_startsAt i)"
    "parseOptionalCoordinate (get_field fs ''latitude'') 90 ''latitude'' = Inr (ce_latitude i)"
    "parseOptionalCoordinate (get_field fs ''longitude'') 180 ''longitude'' = Inr (ce_longitude i)"
    "(ce_latitude i = None) = (ce_longitude i = None)" "0 < ce_totalQuantity i" "ce_totalQuantity i \<le> POSTGRES_INT4_MAX"
  using assms
  by (auto simp: parseCreateEventInput_def bind_result_Inr split: jsval.splits if_splits option.splits)

text \<open>
  The operations of the database with registrations among them. In such a history an Event's only Type
  is its default Type: nothing in the program adds another.
\<close>

datatype shop_op = DbOp db_op | ListEvent listing_env jsval

fun shop_perform :: "shop_op \<Rightarrow> pg \<Rightarrow> pg" where
  "shop_perform (DbOp op) s = db_perform op s"
| "shop_perform (ListEvent env body) s =
     (case parseCreateEventInput (ce_iso env) body of
        Inl e \<Rightarrow> s
      | Inr i \<Rightarrow>
          (case run_create_event env i s of
             (Inl e, s1) \<Rightarrow> s1
           | (Inr t, s1) \<Rightarrow> fold db_perform (ce_meanwhile env) s1))"

fun shop_admissible :: "shop_op \<Rightarrow> bool" where
  "shop_admissible (DbOp op) = db_admissible op"
| "shop_admissible (ListEvent env body) = (purchases_run (ce_others env) \<and> list_all db_admissible (ce_meanwhile env))"

definition empty_pg :: "InventoryWriterMode \<Rightarrow> pg" where
  "empty_pg m = \<lparr>events = [], ticket_types = [], ticket_inventory = [], ticket_type_inventory = [], purchases = [],
     writer_control = Some (mode_text m), mirror_origin = None\<rparr>"

lemma publish_planner [simp]: "planner (publish r t d w) = planner w" "db (publish r t d w) = db w"
  by (auto simp: publish_def emitPublishOutcome_def accept_event_def emitMetric_def Let_def split: put_reply.split)

lemma init_frame [simp]:
  "db (initCounter l e q w) = db w" "planner (initCounter l e q v) = planner v"
  "db (initTicketTypeCounter l e t q w) = db w"
  by (auto simp: initCounter_def initTicketTypeCounter_def client_eval_def fail_open_def emitMetric_def split: prod.split option.split)

definition sole_types :: "pg \<Rightarrow> bool" where
  "sole_types s \<longleftrightarrow> (\<forall>ty \<in> set (ticket_types s). default_type_of (type_event ty) s = Some (type_id ty))"

lemma createEvent_db: "db (snd (createEvent env body w)) = shop_perform (ListEvent env body) (db w)"
  by (auto simp: createEvent_def Let_def split: sum.split prod.split option.split)

lemma list_event_sole_types:
  assumes "sound s" "sole_types s" "lists_event e t q a x s s'"
  shows "sole_types s'"
proof -
  note le = assms(3) [unfolded lists_event_def]
  have "listed s" using assms(1) by (simp add: sound_def)
  then have new: "default_type_of e s' = Some t"
    using le default_type_of_new(1) [of s e s' "\<lparr>type_id = t, type_event = e, type_name = ''General Admission'', is_default = True\<rparr>"]
    by simp
  have "default_type_of b s' = default_type_of b s" if "b \<noteq> e" for b
    using le that by (auto simp: default_type_of_def find_append split: option.split)
  moreover have "\<forall>ty \<in> set (ticket_types s). type_event ty \<noteq> e"
    using \<open>listed s\<close> le by (auto simp: listed_def)
  ultimately show ?thesis using assms(2) new le by (auto simp: sole_types_def)
qed

lemma sole_types_frame: "sole_types s \<Longrightarrow> ticket_types s' = ticket_types s \<Longrightarrow> sole_types s'"
  by (simp add: sole_types_def default_type_of_def)

lemma run_create_event_sole:
  assumes "sound s" "sole_types s" "purchases_run (ce_others env)" "0 < ce_totalQuantity i"
  shows "sole_types (snd (run_create_event env i s))"
proof -
  have adv: "advances s (ce_others env s)" using purchases_run_advances [OF assms(3)] assms(1) by (simp add: sound_def)
  have o: "sound (ce_others env s)" "sole_types (ce_others env s)"
    using advances_sound [OF assms(1) adv] sole_types_frame [OF assms(2) advances_rest(5) [OF adv]] by simp_all
  have "sole_types (end_tx s1)" if "create_event_tx env i (ce_others env s) = Inr (u, s1)" for u s1
  proof -
    have "pg_wf (ce_others env s)" "listed (ce_others env s)" using o by (simp_all add: sound_def pg_inv_def)
    from create_event_lists [OF this that] obtain a x where
      "lists_event (ce_event_id env) (ce_type_id env) (ce_totalQuantity i) a x (ce_others env s) s1" by blast
    from list_event_sole_types [OF o this] show ?thesis by (rule sole_types_frame) (simp add: end_tx_def)
  qed
  with o assms(2) show ?thesis by (auto simp: run_create_event_def Let_def split: sum.split link.split)
qed

lemma db_perform_sound:
  assumes "db_admissible op" "sound s"
  shows "sound (db_perform op s)"
proof (cases op)
  case (Purchase env i)
  then have "advances s (db_perform op s)"
    using execute_advances [of s i env] purchases_run_advances assms by (auto simp: sound_def)
  from advances_sound [OF assms(2) this] show ?thesis .
next
  case (SwitchWriter m)
  show ?thesis
  proof (cases "updateInventoryWriterMode m s")
    case (Inr s')
    have "pg_inv s'" using switch_inv [OF _ Inr] assms(2) by (simp add: sound_def)
    with assms(2) switch_Inr [OF Inr] Inr SwitchWriter show ?thesis
      by (simp add: sound_def listed_def default_type_of_def type_row_of_def)
  qed (simp add: SwitchWriter assms)
qed

lemma db_perform_types:
  assumes "db_admissible op" "pg_inv s"
  shows "ticket_types (db_perform op s) = ticket_types s" "type_total t (db_perform op s) = type_total t s"
proof -
  have "ticket_types (db_perform op s) = ticket_types s \<and> type_total t (db_perform op s) = type_total t s"
  proof (cases op)
    case (Purchase env i)
    then have "advances s (db_perform op s)"
      using execute_advances [of s i env] purchases_run_advances assms by auto
    from advances_rest(5,7) [OF this] show ?thesis by simp
  next
    case (SwitchWriter m)
    then show ?thesis
      by (auto simp: type_total_def type_row_of_def split: sum.split dest!: switch_Inr)
  qed
  then show "ticket_types (db_perform op s) = ticket_types s" "type_total t (db_perform op s) = type_total t s" by simp_all
qed

lemma db_perform_listed:
  "db_admissible op \<Longrightarrow> sound s \<Longrightarrow> sole_types s \<Longrightarrow> sound (db_perform op s) \<and> sole_types (db_perform op s)"
  using db_perform_sound [of op s] sole_types_frame [of s "db_perform op s"] db_perform_types(1) [of op s]
  by (simp add: sound_def)

lemma db_run_listed:
  "list_all db_admissible ops \<Longrightarrow> sound s \<Longrightarrow> sole_types s
     \<Longrightarrow> sound (fold db_perform ops s) \<and> sole_types (fold db_perform ops s)"
  by (induction ops arbitrary: s) (auto simp: db_perform_listed)

lemma shop_step:
  assumes "shop_admissible op" "sound s \<and> sole_types s"
  shows "sound (shop_perform op s) \<and> sole_types (shop_perform op s)"
proof (cases op)
  case (DbOp o')
  with assms show ?thesis by (simp add: db_perform_listed)
next
  case (ListEvent env body)
  show ?thesis
  proof (cases "parseCreateEventInput (ce_iso env) body")
    case (Inr i)
    have "0 < ce_totalQuantity i" by (rule parseCreateEventInput_Inr [OF Inr])
    with assms ListEvent have
      "sound (snd (run_create_event env i s))" "sole_types (snd (run_create_event env i s))"
      by (simp_all add: run_create_event_sound run_create_event_sole)
    with db_run_listed [of "ce_meanwhile env"] assms(1) ListEvent Inr show ?thesis
      by (auto split: prod.split sum.split)
  qed (simp add: ListEvent assms)
qed

lemma shop_run: "list_all shop_admissible ops \<Longrightarrow> sound s \<and> sole_types s
    \<Longrightarrow> sound (fold shop_perform ops s) \<and> sole_types (fold shop_perform ops s)"
  by (induction ops arbitrary: s) (simp_all add: shop_step)

definition sold_for_event :: "string \<Rightarrow> pg \<Rightarrow> int" where
  "sold_for_event e s = sum_where p_quantity (\<lambda>p. p_event p = e \<and> p_status p = Confirmed) (purchases s)"

lemma default_type_member:
  assumes "default_type_of e s = Some t"
  shows "\<exists>ty \<in> set (ticket_types s). type_id ty = t \<and> type_event ty = e"
proof -
  from assms obtain ty where ty: "find (\<lambda>t. type_event t = e \<and> is_default t) (ticket_types s) = Some ty" "type_id ty = t"
    by (auto simp: default_type_of_def)
  from find_filter [OF ty(1)] have "ty \<in> set (filter (\<lambda>t. type_event t = e \<and> is_default t) (ticket_types s))"
    by (auto simp del: set_filter)
  with ty(2) show ?thesis by auto
qed

lemma sold_for_sole_type:
  assumes "pg_inv s" "sole_types s" "default_type_of e s = Some t"
  shows "sold_for_event e s = sold_quantity t s"
proof -
  have d: "distinct (map type_id (ticket_types s))" using assms(1) by (simp add: pg_inv_def pg_wf_def)
  obtain ty0 where ty0: "ty0 \<in> set (ticket_types s)" "type_id ty0 = t" "type_event ty0 = e"
    using default_type_member [OF assms(3)] by blast
  have "(p_event p = e) = (p_type p = t)" if "p \<in> set (purchases s)" for p
  proof -
    from that assms(1) obtain ty where ty: "ty \<in> set (ticket_types s)" "type_id ty = p_type p" "type_event ty = p_event p"
      by (auto simp: pg_inv_def purchases_linked_def)
    have "type_id ty = t \<Longrightarrow> ty = ty0" using d ty(1) ty0 by (auto simp: distinct_map inj_on_def)
    moreover have "default_type_of (type_event ty) s = Some (type_id ty)" using assms(2) ty(1) by (simp add: sole_types_def)
    ultimately show ?thesis using ty ty0 assms(3) by auto
  qed
  then have "filter (\<lambda>p. p_event p = e \<and> p_status p = Confirmed) (purchases s)
      = filter (\<lambda>p. p_type p = t \<and> p_status p = Confirmed) (purchases s)" by (intro filter_cong) auto
  then show ?thesis by (simp add: sold_for_event_def sold_quantity_def sum_where_def)
qed

lemma aggregate_of_sole_type:
  assumes "pg_inv s" "sole_types s" "default_type_of e s = Some t" "type_row_of t s = Some x"
  shows "aggregate_remaining e s = tti_remaining x" "aggregate_total e s = tti_total x" "tti_event x = e"
proof -
  have wf: "pg_wf s" using assms(1) by (simp add: pg_inv_def)
  then have d: "distinct (map type_id (ticket_types s))" by (simp add: pg_wf_def)
  obtain ty0 where ty0: "ty0 \<in> set (ticket_types s)" "type_id ty0 = t" "type_event ty0 = e"
    using default_type_member [OF assms(3)] by blast
  have x: "x \<in> set (ticket_type_inventory s)" "tti_type x = t" using row_by_Some [of tti_type t _ x] assms(4) by (auto simp: type_row_of_def)
  with wf obtain ty where "ty \<in> set (ticket_types s)" "type_id ty = t" "type_event ty = tti_event x" unfolding pg_wf_def by metis
  with d ty0 show ev: "tti_event x = e" by (auto simp: distinct_map inj_on_def)
  have "sole_type e t s" using assms(2,3) by (auto simp: sole_type_def sole_types_def)
  from aggregate_sole [OF wf this] assms(4) ev show "aggregate_remaining e s = tti_remaining x" "aggregate_total e s = tti_total x"
    by (simp_all add: type_row_of_def)
qed

text \<open>C18: from the empty database on, whatever registrations, purchases and writer switches run, with
  statements and answers lost at any point, every Event adds up: what was sold for it and what its
  inventory row says remains are the quantity it was registered with, and nothing is negative.\<close>

theorem event_sales_add_up:
  assumes "list_all shop_admissible ops" "e \<in> set (events (fold shop_perform ops (empty_pg m)))"
  shows "\<exists>a. event_row_of e (fold shop_perform ops (empty_pg m)) = Some a \<and> 0 \<le> ti_remaining a
    \<and> sold_for_event e (fold shop_perform ops (empty_pg m)) + ti_remaining a = ti_total a"
proof -
  define s where "s = fold shop_perform ops (empty_pg m)"
  have "sound (empty_pg m) \<and> sole_types (empty_pg m)"
    by (cases m) (simp_all add: empty_pg_def sound_def pg_inv_def pg_wf_def aggregates_match_def stock_conserved_def
        requests_unique_def purchases_linked_def listed_def sole_types_def mode_text_def)
  from shop_run [OF assms(1) this] have s: "pg_inv s" "listed s" "sole_types s" by (simp_all add: s_def sound_def)
  from s(2) assms(2) obtain t x where t: "default_type_of e s = Some t" "type_row_of t s = Some x"
    by (auto simp: listed_def s_def)
  note agg = aggregate_of_sole_type [OF s(1,3) t]
  have x: "x \<in> set (ticket_type_inventory s)" "tti_type x = t"
    using row_by_Some [of tti_type t _ x] t(2) by (auto simp: type_row_of_def)
  from s(1) have wf: "pg_wf s" "aggregates_match s" "stock_conserved s" by (simp_all add: pg_inv_def)
  from wf(1) x agg(3) obtain a where a: "a \<in> set (ticket_inventory s)" "ti_event a = e" unfolding pg_wf_def by metis
  then have "event_row_of e s = Some a"
    using row_by_unique [of ti_event "ticket_inventory s" a] wf(1) by (simp add: event_row_of_def pg_wf_def)
  moreover have "ti_total a = tti_total x" "ti_remaining a = tti_remaining x"
    using wf(2) a agg by (auto simp: aggregates_match_def)
  moreover have "tti_remaining x + sold_quantity t s = tti_total x" "0 \<le> tti_remaining x"
    using wf(1,3) x by (auto simp: stock_conserved_def pg_wf_def check_quantities_def)
  ultimately show ?thesis using sold_for_sole_type [OF s(1,3) t(1)] unfolding s_def [symmetric] by simp
qed

definition sample_fields :: "(string \<times> jsval) list" where
  "sample_fields = [(''title'', JString ''Gig''), (''eventType'', JString ''music''),
     (''startsAt'', JString ''2030-01-01''), (''latitude'', JNumber (Fin 35)), (''longitude'', JNumber (Fin 139)),
     (''totalQuantity'', jsint 5)]"

definition sample_world :: listing where
  "sample_world = \<lparr>metrics = [], vk = \<lparr>data = Map.empty, deadline = Map.empty, clock = 0\<rparr>, client_enabled = True,
     bus_enabled = True, trace_context = None, bus = [], db = empty_pg TicketTypeMode, calls = [], moves = [], planner = sample_resolver\<rparr>"

definition sample_listing :: "string \<Rightarrow> listing_env" where
  "sample_listing e = \<lparr>ce_net = (\<lambda>_. Delivered), ce_others = (\<lambda>s. s), ce_event_id = e, ce_type_id = ''b'' @ e,
     ce_row_error = None, ce_meanwhile = [], ce_init = Delivered, ce_cache_others = (\<lambda>v. v), ce_put = PutOk, ce_iso = (\<lambda>t. Some t)\<rparr>"

text \<open>Two Events; three purchases of the first, one of them too large, with the writer switched after the first.\<close>

definition sample_history :: "shop_op list" where
  "sample_history = [ListEvent (sample_listing ''a'') (JObject sample_fields), ListEvent (sample_listing ''e'') (JObject sample_fields),
     DbOp (Purchase (calm_env ''p1'') ((sample_input ''ba'' 2 None)\<lparr>in_ticketTypeId := None\<rparr>)),
     DbOp (SwitchWriter TicketTypeMode),
     DbOp (Purchase (calm_env ''p2'') (sample_input ''ba'' 4 None)),
     DbOp (Purchase (calm_env ''p3'') (sample_input ''ba'' 2 (Some ''r'')))]"

theorem event_sales_add_up_witness:
  "sold_for_event ''a'' (fold shop_perform sample_history (empty_pg Legacy)) = 4
   \<and> map_option ti_remaining (event_row_of ''a'' (fold shop_perform sample_history (empty_pg Legacy))) = Some 1
   \<and> map_option ti_total (event_row_of ''a'' (fold shop_perform sample_history (empty_pg Legacy))) = Some 5"
proof -
  have "list_all shop_admissible sample_history"
    by (simp add: sample_history_def sample_listing_def idle sample_input_def)
  moreover have "''a'' \<in> set (events (fold shop_perform sample_history (empty_pg Legacy)))" by code_simp
  ultimately obtain a where a: "event_row_of ''a'' (fold shop_perform sample_history (empty_pg Legacy)) = Some a"
    "sold_for_event ''a'' (fold shop_perform sample_history (empty_pg Legacy)) + ti_remaining a = ti_total a"
    using event_sales_add_up by blast
  moreover have "map_option ti_remaining (event_row_of ''a'' (fold shop_perform sample_history (empty_pg Legacy))) = Some 1"
    "map_option ti_total (event_row_of ''a'' (fold shop_perform sample_history (empty_pg Legacy))) = Some 5"
    by code_simp+
  ultimately show ?thesis by simp
qed

section \<open>The created Event\<close>

text \<open>What \<open>createEvent\<close> accepts fits the columns and the limits the API documents: a title of 1 to 200
  and a type of 1 to 50 code units, a quantity in 1 .. 2147483647 of which all remain, and either no
  coordinates or both, finite and within 90 and 180 degrees; anything else is refused before the
  database is touched. (JSON has no NaN.)\<close>

theorem created_event_is_well_typed:
  assumes "createEvent env (JObject fs) w = (r, w')"
    and "get_field fs ''latitude'' \<noteq> JNumber NaN" "get_field fs ''longitude'' \<noteq> JNumber NaN"
  shows "(\<exists>msg. r = Inl (BadRequestException msg) \<and> w' = w) \<or>
    (\<exists>i. parseCreateEventInput (ce_iso env) (JObject fs) = Inr i
       \<and> 1 \<le> length (ce_title i) \<and> length (ce_title i) \<le> 200
       \<and> 1 \<le> length (ce_eventType i) \<and> length (ce_eventType i) \<le> 50
       \<and> 1 \<le> ce_totalQuantity i \<and> in_int4 (ce_totalQuantity i)
       \<and> (case (ce_latitude i, ce_longitude i) of
            (None, None) \<Rightarrow> True
          | (Some (Fin x), Some (Fin y)) \<Rightarrow> \<bar>x\<bar> \<le> 90 \<and> \<bar>y\<bar> \<le> 180
          | _ \<Rightarrow> False)
       \<and> (\<forall>sm. r = Inr sm \<longrightarrow> es_title sm = ce_title i \<and> es_totalQuantity sm = ce_totalQuantity i
            \<and> es_remainingQuantity sm = ce_totalQuantity i))"
proof (cases "parseCreateEventInput (ce_iso env) (JObject fs)")
  case (Inl e)
  then have "\<exists>msg. e = BadRequestException msg"
    by (auto simp: parseCreateEventInput_def parseOptionalCoordinate_def bind_result_def
        split: if_splits jsval.splits option.splits)
  with Inl assms(1) show ?thesis by (auto simp: createEvent_def)
next
  case (Inr i)
  have str: "bounded_string v n \<Longrightarrow> 1 \<le> length (string_value v) \<and> length (string_value v) \<le> n" for v n
    by (cases v) (auto simp: bounded_string_def Suc_le_eq)
  from Inr show ?thesis
  proof (rule parseCreateEventInput_Inr)
    fix fs' assume p: "JObject fs = JObject fs'" "bounded_string (get_field fs' ''title'') 200" "bounded_string (get_field fs' ''eventType'') 50"
      "ce_title i = string_value (get_field fs' ''title'')" "ce_eventType i = string_value (get_field fs' ''eventType'')"
      "parseOptionalCoordinate (get_field fs' ''latitude'') 90 ''latitude'' = Inr (ce_latitude i)"
      "parseOptionalCoordinate (get_field fs' ''longitude'') 180 ''longitude'' = Inr (ce_longitude i)"
      "(ce_latitude i = None) = (ce_longitude i = None)" "0 < ce_totalQuantity i" "ce_totalQuantity i \<le> POSTGRES_INT4_MAX"
    have "case (ce_latitude i, ce_longitude i) of
        (None, None) \<Rightarrow> True | (Some (Fin x), Some (Fin y)) \<Rightarrow> \<bar>x\<bar> \<le> 90 \<and> \<bar>y\<bar> \<le> 180 | _ \<Rightarrow> False"
      using parse_coordinate_Inr [OF p(6)] parse_coordinate_Inr [OF p(7)] assms(2,3) p(1,8)
      by (auto split: option.splits)
    moreover have "r = Inr sm \<Longrightarrow> es_title sm = ce_title i \<and> es_totalQuantity sm = ce_totalQuantity i
        \<and> es_remainingQuantity sm = ce_totalQuantity i" for sm
      using assms(1) Inr by (auto simp: createEvent_def Let_def split: prod.splits sum.splits)
    ultimately show ?thesis
      using str [OF p(2)] str [OF p(3)] p(4,5,9,10) Inr by (auto simp: in_int4_def)
  qed
qed

lemma created_event_is_well_typed_witness:
  "is_ok (fst (createEvent (sample_listing ''a'') (JObject sample_fields) sample_world))
   \<and> map_sum id ce_totalQuantity (parseCreateEventInput (ce_iso (sample_listing ''a'')) (JObject sample_fields)) = Inr 5"
proof -
  have ok: "is_ok (fst (createEvent (sample_listing ''a'') (JObject sample_fields) sample_world))"
    "map_sum id ce_totalQuantity (parseCreateEventInput (ce_iso (sample_listing ''a'')) (JObject sample_fields)) = Inr 5"
    by code_simp+
  have "get_field sample_fields ''latitude'' \<noteq> JNumber NaN" "get_field sample_fields ''longitude'' \<noteq> JNumber NaN"
    by (simp_all add: sample_fields_def)
  from created_event_is_well_typed [of "sample_listing ''a''" sample_fields sample_world, OF surjective_pairing this]
  show ?thesis using ok by auto
qed

lemma primed_plan_hits:
  assumes "0 < maxEntries r" "0 < ttlMs r"
  shows "fst (resolve_begin e (prime e p r)) = Hit p"
proof -
  define x where "x = (e, \<lparr>plan = p, expiresAt = date_now r + ttlMs r\<rparr>)"
  define A where "A = map_delete e (cache r)"
  obtain m where m: "evict (maxEntries r) (A @ [x]) = m @ [x]" using evict_last [OF assms(1)] by blast
  obtain n where n: "drop n (A @ [x]) = m @ [x]" using m unfolding evict_drop by blast
  have "A @ [x] = (take n (A @ [x]) @ m) @ [x]" using append_take_drop_id [of n "A @ [x]"] unfolding n by simp
  then have "A = take n (A @ [x]) @ m" by (simp only: append1_eq_conv)
  then have "set m \<subseteq> set A" by (metis set_append Un_upper2)
  then have "e \<notin> fst ` set m" using map_delete_key [of e "cache r"] unfolding A_def by blast
  then have "map_of (m @ [x]) e = Some \<lparr>plan = p, expiresAt = date_now r + ttlMs r\<rparr>"
    by (simp add: x_def map_add_def map_of_eq_None_iff [THEN iffD2])
  with assms(2) m show ?thesis
    by (simp add: resolve_begin_def getFresh_def prime_def storeInternal_def map_touch_def x_def A_def)
qed

text \<open>What the operations of the database leave of an Event: its Types, and the total of each.\<close>

lemma db_run_catalog:
  "list_all db_admissible ops \<Longrightarrow> pg_inv s
     \<Longrightarrow> ticket_types (fold db_perform ops s) = ticket_types s \<and> type_total t (fold db_perform ops s) = type_total t s"
  by (induction ops arbitrary: s) (simp_all add: db_perform_types db_perform_facts(1))

lemma db_run_sound: "list_all db_admissible ops \<Longrightarrow> sound s \<Longrightarrow> sound (fold db_perform ops s)"
  by (induction ops arbitrary: s) (simp_all add: db_perform_sound)

text \<open>An Event with one Type: both of its rows say the same, and what is sold and what remains make the total.\<close>

lemma single_type_event:
  assumes "sound s" "filter (\<lambda>ty. type_event ty = e) (ticket_types s) = [ty]" "type_total (type_id ty) s = Some q"
  obtains a x where "event_row_of e s = Some a" "type_row_of (type_id ty) s = Some x"
    "ti_total a = q" "tti_total x = q" "ti_remaining a = tti_remaining x" "0 \<le> tti_remaining x"
    "sold_quantity (type_id ty) s + tti_remaining x = q"
proof -
  have inv: "pg_wf s" "aggregates_match s" "stock_conserved s" using assms(1) by (simp_all add: sound_def pg_inv_def)
  have "ty \<in> set (filter (\<lambda>ty. type_event ty = e) (ticket_types s))" using assms(2) by simp
  then have ty: "ty \<in> set (ticket_types s)" "type_event ty = e" by simp_all
  from assms(3) obtain x where xr: "type_row_of (type_id ty) s = Some x" "tti_total x = q" by (auto simp: type_total_def)
  then have x: "x \<in> set (ticket_type_inventory s)" "tti_type x = type_id ty"
    using row_by_Some [of tti_type "type_id ty" _ x] by (auto simp: type_row_of_def)
  from inv(1) x obtain ty' where "ty' \<in> set (ticket_types s)" "type_id ty' = type_id ty" "type_event ty' = tti_event x"
    unfolding pg_wf_def by metis
  moreover have "distinct (map type_id (ticket_types s))" using inv(1) by (simp add: pg_wf_def)
  ultimately have ev: "tti_event x = e" using ty by (auto simp: distinct_map inj_on_def)
  from inv(1) x ev obtain a where a: "a \<in> set (ticket_inventory s)" "ti_event a = e" unfolding pg_wf_def by metis
  then have ar: "event_row_of e s = Some a"
    using row_by_unique [of ti_event "ticket_inventory s" a] inv(1) by (simp add: event_row_of_def pg_wf_def)
  have "sole_type e (type_id ty) s"
    unfolding sole_type_def
  proof (intro ballI impI)
    fix u assume "u \<in> set (ticket_types s)" "type_event u = e"
    then have "u \<in> set (filter (\<lambda>ty. type_event ty = e) (ticket_types s))" by simp
    then show "type_id u = type_id ty" using assms(2) by simp
  qed
  from aggregate_sole [OF inv(1) this] xr(1) ev have
    "aggregate_remaining e s = tti_remaining x" "aggregate_total e s = tti_total x" by (simp_all add: type_row_of_def)
  then have "ti_total a = q" "ti_remaining a = tti_remaining x"
    using inv(2) a xr(2) by (auto simp: aggregates_match_def)
  moreover have "tti_remaining x + sold_quantity (type_id ty) s = tti_total x" "0 \<le> tti_remaining x"
    using inv(1,3) x by (auto simp: stock_conserved_def pg_wf_def check_quantities_def)
  ultimately show thesis using that [OF ar xr(1)] xr(2) by simp
qed

lemma createEvent_Inr:
  assumes "createEvent env body w = (Inr sm, w')"
  obtains i u s1 where "parseCreateEventInput (ce_iso env) body = Inr i" "0 < ce_totalQuantity i"
    "create_event_tx env i (ce_others env (db w)) = Inr (u, s1)"
    "es_eventId sm = ce_event_id env" "es_totalQuantity sm = ce_totalQuantity i"
    "db w' = fold db_perform (ce_meanwhile env) (end_tx s1)"
    "vk w' = vk (case u of
        Some t \<Rightarrow> initTicketTypeCounter (ce_init env) (ce_event_id env) t (ce_totalQuantity i) (w\<lparr>vk := ce_cache_others env (vk w)\<rparr>)
      | None \<Rightarrow> initCounter (ce_init env) (ce_event_id env) (ce_totalQuantity i) (w\<lparr>vk := ce_cache_others env (vk w)\<rparr>))"
    "case u of Some t \<Rightarrow> planner w' = prime (ce_event_id env) (TicketTypePlan (SingleType t)) (planner w) | None \<Rightarrow> True"
proof -
  let ?e = "ce_event_id env"
  obtain i where i: "parseCreateEventInput (ce_iso env) body = Inr i"
    using assms by (auto simp: createEvent_def split: sum.splits)
  obtain u s where run: "run_create_event env i (db w) = (Inr u, s)"
    using assms i by (cases "run_create_event env i (db w)") (auto simp: createEvent_def Let_def split: sum.splits)
  then obtain s1 where tx: "create_event_tx env i (ce_others env (db w)) = Inr (u, s1)" "s = end_tx s1"
    by (auto simp: run_create_event_def Let_def split: if_splits sum.splits link.splits)
  have sm: "es_eventId sm = ?e" "es_totalQuantity sm = ce_totalQuantity i"
    and w': "w' = publish (ce_put env) ''EventListed'' (event_listed_detail ?e i)
      (let w2 = w\<lparr>db := fold db_perform (ce_meanwhile env) s, vk := ce_cache_others env (vk w)\<rparr>
       in case u of
         Some t \<Rightarrow> (initTicketTypeCounter (ce_init env) ?e t (ce_totalQuantity i) w2)
           \<lparr>planner := prime ?e (TicketTypePlan (SingleType t)) (planner w2)\<rparr>
       | None \<Rightarrow> initCounter (ce_init env) ?e (ce_totalQuantity i) w2)"
    using assms i run by (auto simp: createEvent_def Let_def)
  have "0 < ce_totalQuantity i" by (rule parseCreateEventInput_Inr [OF i])
  moreover have "db w' = fold db_perform (ce_meanwhile env) (end_tx s1)"
    unfolding w' tx(2) by (simp add: Let_def split: option.split)
  moreover have "vk w' = vk (case u of
        Some t \<Rightarrow> initTicketTypeCounter (ce_init env) ?e t (ce_totalQuantity i) (w\<lparr>vk := ce_cache_others env (vk w)\<rparr>)
      | None \<Rightarrow> initCounter (ce_init env) ?e (ce_totalQuantity i) (w\<lparr>vk := ce_cache_others env (vk w)\<rparr>))"
    unfolding w' by (auto simp: Let_def initTicketTypeCounter_def initCounter_def client_eval_def fail_open_def emitMetric_def
        split: option.split prod.split)
  moreover have "case u of Some t \<Rightarrow> planner w' = prime ?e (TicketTypePlan (SingleType t)) (planner w) | None \<Rightarrow> True"
    unfolding w' by (simp add: Let_def split: option.split)
  ultimately show thesis using that [OF i _ tx(1) sm] by blast
qed

text \<open>The counter after its initialisation: set when Valkey ran the script, otherwise what others left there.\<close>

lemma init_counter_value:
  "vk_get (eventCounterKey e) (vk (initCounter l e q (w\<lparr>vk := v\<rparr>)))
     = (if client_enabled w \<and> l \<noteq> LostRequest then Some q else vk_get (eventCounterKey e) v)"
  "vk_get (ticketTypeCounterKey e t) (vk (initTicketTypeCounter l e t q (w\<lparr>vk := v\<rparr>)))
     = (if client_enabled w \<and> l \<noteq> LostRequest then Some q else vk_get (ticketTypeCounterKey e t) v)"
  by (cases l; simp add: initCounter_def initTicketTypeCounter_def script_defs client_eval_def fail_open_def emitMetric_def
      eventCounterKey_def eventCounterVersionKey_def ticketTypeCounterKey_def ticketTypeCounterRevisionKey_def)+

text \<open>The tables after the call: the transaction's Event, with its one Type, and what others did to it since.\<close>

lemma registered_tables:
  assumes "sound s0" "purchases_run (ce_others env)" "list_all db_admissible (ce_meanwhile env)" "0 < ce_totalQuantity i"
    and "create_event_tx env i (ce_others env s0) = Inr (u, s1)" "s' = fold db_perform (ce_meanwhile env) (end_tx s1)"
  shows "ce_event_id env \<notin> set (events s0)" "sound s'" "type_total (ce_type_id env) s' = Some (ce_totalQuantity i)"
    and "u = (if writer_control s0 = Some ''legacy'' then None else Some (ce_type_id env))"
    and "filter (\<lambda>ty. type_event ty = ce_event_id env) (ticket_types s') = [\<lparr>type_id = ce_type_id env,
           type_event = ce_event_id env, type_name = ''General Admission'', is_default = True\<rparr>]"
proof -
  let ?s = "ce_others env s0" and ?e = "ce_event_id env" and ?t = "ce_type_id env"
  have adv: "advances s0 ?s" using purchases_run_advances [OF assms(2)] assms(1) by (simp add: sound_def)
  from advances_sound [OF assms(1) this] have o: "sound ?s" "pg_wf ?s" "listed ?s" by (simp_all add: sound_def pg_inv_def)
  obtain b x where l: "lists_event ?e ?t (ce_totalQuantity i) b x ?s s1"
    and u: "u = (if writer_control s0 = Some ''legacy'' then None else Some ?t)"
    using create_event_lists [OF o(2,3) assms(5)] advances_rest(2) [OF adv] by metis
  note le = l [unfolded lists_event_def]
  have s1: "sound (end_tx s1)"
    using lists_event_sound [OF o(1) l assms(4)] by (simp add: sound_def listed_def end_tx_def default_type_of_def type_row_of_def)
  then have inv1: "pg_inv (end_tx s1)" by (simp add: sound_def)
  note same = db_run_catalog [OF assms(3) inv1]
  show "u = (if writer_control s0 = Some ''legacy'' then None else Some ?t)" by (rule u)
  show "?e \<notin> set (events s0)" using le advances_rest(4) [OF adv] by simp
  show "sound s'" using db_run_sound [OF assms(3) s1] assms(6) by simp
  have "type_total ?t (end_tx s1) = Some (ce_totalQuantity i)" using le by (simp add: type_total_def type_row_of_def end_tx_def)
  then show "type_total ?t s' = Some (ce_totalQuantity i)" using same assms(6) by simp
  have "filter (\<lambda>ty. type_event ty = ?e) (ticket_types ?s) = []" using o(3) le by (auto simp: listed_def filter_empty_conv)
  then show "filter (\<lambda>ty. type_event ty = ?e) (ticket_types s')
      = [\<lparr>type_id = ?t, type_event = ?e, type_name = ''General Admission'', is_default = True\<rparr>]"
    using same le assms(6) by (simp add: end_tx_def)
qed

text \<open>C19: a registered Event is for sale at once. It was not there before, its one Type is its default
  Type, and both inventory rows carry the registered quantity as their total, of which what others bought
  between COMMIT and the answer is sold and the rest remains. In the mode the transaction ran in, the
  counter a purchase will reserve from holds the registered quantity when Valkey ran the initialisation
  (a client is configured and the request was not lost; a lost answer does not matter), and otherwise is
  what others left there: without Valkey the call succeeds all the same. In ticket_type mode the resolver
  serves the Event's Type from its cache, and unless the writer was switched meanwhile that is also what
  the database says. (The counter holds the whole quantity also when tickets were sold meanwhile. The id
  is spelled the way PostgreSQL returns a uuid, and the resolver's limits are positive.)\<close>

theorem created_event_is_for_sale:
  assumes "sound (db w)" "purchases_run (ce_others env)" "list_all db_admissible (ce_meanwhile env)"
    and "pg_uuid (ce_event_id env) = ce_event_id env" "0 < maxEntries (planner w)" "0 < ttlMs (planner w)"
    and "createEvent env body w = (Inr sm, w')"
  shows "es_eventId sm \<notin> set (events (db w)) \<and> (\<exists>a ty x.
      event_row_of (es_eventId sm) (db w') = Some a \<and> ti_total a = es_totalQuantity sm
    \<and> types_of_event (es_eventId sm) (db w') = [ty] \<and> is_default ty
    \<and> type_row_of (type_id ty) (db w') = Some x \<and> tti_total x = es_totalQuantity sm
    \<and> ti_remaining a = tti_remaining x \<and> 0 \<le> tti_remaining x
    \<and> sold_quantity (type_id ty) (db w') + tti_remaining x = es_totalQuantity sm
    \<and> (if writer_control (db w) = Some ''legacy''
       then vk_get (eventCounterKey (es_eventId sm)) (vk w') =
              (if client_enabled w \<and> ce_init env \<noteq> LostRequest then Some (es_totalQuantity sm)
               else vk_get (eventCounterKey (es_eventId sm)) (ce_cache_others env (vk w)))
       else vk_get (ticketTypeCounterKey (es_eventId sm) (type_id ty)) (vk w') =
              (if client_enabled w \<and> ce_init env \<noteq> LostRequest then Some (es_totalQuantity sm)
               else vk_get (ticketTypeCounterKey (es_eventId sm) (type_id ty)) (ce_cache_others env (vk w)))
            \<and> fst (resolve_begin (es_eventId sm) (planner w')) = Hit (TicketTypePlan (SingleType (type_id ty))))
    \<and> (writer_control (db w') = writer_control (db w) \<longrightarrow>
         loadPlanFromDatabase (es_eventId sm) (db w') =
           Inr (if writer_control (db w) = Some ''legacy'' then LegacyPlan else TicketTypePlan (SingleType (type_id ty)))))"
proof -
  let ?e = "ce_event_id env" and ?t = "ce_type_id env"
  let ?ty = "\<lparr>type_id = ?t, type_event = ?e, type_name = ''General Admission'', is_default = True\<rparr>"
  from assms(7) show ?thesis
  proof (rule createEvent_Inr)
    fix i :: ParsedCreateEventInput and u s1
    let ?q = "ce_totalQuantity i"
    assume i: "0 < ?q" and tx: "create_event_tx env i (ce_others env (db w)) = Inr (u, s1)"
      and sm: "es_eventId sm = ?e" "es_totalQuantity sm = ?q"
      and d: "db w' = fold db_perform (ce_meanwhile env) (end_tx s1)"
      and v: "vk w' = vk (case u of
          Some t \<Rightarrow> initTicketTypeCounter (ce_init env) ?e t ?q (w\<lparr>vk := ce_cache_others env (vk w)\<rparr>)
        | None \<Rightarrow> initCounter (ce_init env) ?e ?q (w\<lparr>vk := ce_cache_others env (vk w)\<rparr>))"
      and pl: "case u of Some t \<Rightarrow> planner w' = prime ?e (TicketTypePlan (SingleType t)) (planner w) | None \<Rightarrow> True"
    note new = registered_tables [OF assms(1-3) i tx d]
    have types: "types_of_event ?e (db w') = [?ty]" using assms(4) new(5) by (simp add: types_of_event_def)
    have "type_total (type_id ?ty) (db w') = Some ?q" using new(3) by simp
    with new(2,5) show ?thesis
    proof (rule single_type_event)
      fix a x assume r: "event_row_of ?e (db w') = Some a" "type_row_of (type_id ?ty) (db w') = Some x"
        "ti_total a = ?q" "tti_total x = ?q" "ti_remaining a = tti_remaining x" "0 \<le> tti_remaining x"
        "sold_quantity (type_id ?ty) (db w') + tti_remaining x = ?q"
      have "writer_control (db w) \<in> {Some ''legacy'', Some ''ticket_type''}"
        using assms(1) by (simp add: sound_def pg_inv_def pg_wf_def)
      then have plan: "writer_control (db w') = writer_control (db w) \<Longrightarrow> loadPlanFromDatabase ?e (db w')
          = Inr (if writer_control (db w) = Some ''legacy'' then LegacyPlan else TicketTypePlan (SingleType ?t))"
        using types by (auto simp: loadPlanFromDatabase_def)
      have hit: "u = Some ?t \<Longrightarrow> fst (resolve_begin ?e (planner w')) = Hit (TicketTypePlan (SingleType ?t))"
        using primed_plan_hits [OF assms(5,6)] pl by simp
      show ?thesis
        unfolding sm
        by (intro conjI exI [of _ a] exI [of _ ?ty] exI [of _ x])
          (use new(1,4) types r plan hit v in \<open>simp_all add: init_counter_value\<close>)
    qed
  qed
qed

text \<open>Two of the five tickets sell before the counter is set, and the answer of the initialisation is lost.\<close>

definition sample_rush :: listing_env where
  "sample_rush = (sample_listing ''a'')\<lparr>ce_meanwhile := [Purchase (calm_env ''p1'') (sample_input ''ba'' 2 None)], ce_init := LostReply\<rparr>"

lemma created_event_is_for_sale_witness:
  "map_option ti_remaining (event_row_of ''a'' (db (snd (createEvent sample_rush (JObject sample_fields) sample_world)))) = Some 3
   \<and> vk_get (ticketTypeCounterKey ''a'' ''ba'') (vk (snd (createEvent sample_rush (JObject sample_fields) sample_world))) = Some 5"
proof -
  let ?w = "snd (createEvent sample_rush (JObject sample_fields) sample_world)"
  have "fst (createEvent sample_rush (JObject sample_fields) sample_world)
      = Inr \<lparr>es_eventId = ''a'', es_title = ''Gig'', es_eventType = ''music'', es_startsAt = ''2030-01-01'',
          es_latitude = Some (Fin 35), es_longitude = Some (Fin 139), es_totalQuantity = 5, es_remainingQuantity = 5\<rparr>"
    by code_simp
  then have c: "createEvent sample_rush (JObject sample_fields) sample_world
      = (Inr \<lparr>es_eventId = ''a'', es_title = ''Gig'', es_eventType = ''music'', es_startsAt = ''2030-01-01'',
          es_latitude = Some (Fin 35), es_longitude = Some (Fin 139), es_totalQuantity = 5, es_remainingQuantity = 5\<rparr>, ?w)"
    by (metis prod.collapse)
  have so: "sound (db sample_world)"
    by (simp add: sample_world_def empty_pg_def sound_def pg_inv_def pg_wf_def aggregates_match_def stock_conserved_def
        requests_unique_def purchases_linked_def listed_def mode_text_def)
  have r: "pg_uuid (ce_event_id sample_rush) = ce_event_id sample_rush" "0 < maxEntries (planner sample_world)" "0 < ttlMs (planner sample_world)"
    by code_simp+
  have e: "purchases_run (ce_others sample_rush)" "list_all db_admissible (ce_meanwhile sample_rush)"
    "ce_init sample_rush \<noteq> LostRequest" "client_enabled sample_world" "writer_control (db sample_world) \<noteq> Some ''legacy''"
    by (simp_all add: sample_rush_def sample_listing_def sample_world_def sample_input_def idle empty_pg_def mode_text_def)
  have n: "map type_id (types_of_event ''a'' (db ?w)) = [''ba'']" "sold_quantity ''ba'' (db ?w) = 2" by code_simp+
  from created_event_is_for_sale [OF so e(1,2) r c] e n show ?thesis by auto
qed

end
