(* ===== verification/ProjectionStore.thy ===== *)
theory ProjectionStore
  imports InventoryEvent
begin

text \<open>
  The search projection's write layer, src/search/events-projection.store.ts: the three Painless
  scripts that change a document atomically, the update calls with their bounded retry on a
  version conflict, the index mapping, and the location directive. OpenSearch executes a script
  on one document at a time; what its answers may be is an argument of each call.
\<close>

section \<open>Documents\<close>

text \<open>
  \<open>_source\<close> of a document. Fields that come unchecked from an event detail are JavaScript values,
  \<open>JUndefined\<close> when the field is absent; the versioned ones are written by one script only.
\<close>

record ProjectionTicketType =
  pt_id :: string
  pt_name :: string
  pt_total :: int
  pt_remaining :: int
  pt_version :: int

record ProjectionDocument =
  d_event_id :: jsval
  d_title :: jsval
  d_event_type :: jsval
  d_starts_at :: jsval
  d_location :: "(jsval \<times> jsval) option"
  d_total :: jsval
  d_remaining :: jsval
  d_event_total :: "int option"
  d_event_remaining :: "int option"
  d_event_version :: "int option"
  d_ticket_types :: "ProjectionTicketType list option"

definition empty_doc :: ProjectionDocument where
  "empty_doc = \<lparr>d_event_id = JUndefined, d_title = JUndefined, d_event_type = JUndefined,
     d_starts_at = JUndefined, d_location = None, d_total = JUndefined, d_remaining = JUndefined,
     d_event_total = None, d_event_remaining = None, d_event_version = None, d_ticket_types = None\<rparr>"

definition is_nullish :: "jsval \<Rightarrow> bool" where
  "is_nullish v = (v = JNull \<or> v = JUndefined)"

definition or_null :: "jsval \<Rightarrow> jsval" where
  "or_null v = (if is_nullish v then JNull else v)"

section \<open>The scripts\<close>

text \<open>\<open>ctx.op\<close> at the end of a script: the document is written, or the update is a no-op.\<close>

datatype ctx_op = CtxIndex | CtxNoop

record inventory_params =
  q_eventId :: string
  q_ticketTypeId :: string
  q_ticketTypeName :: string
  q_ticketTypeTotalQuantity :: int
  q_ticketTypeRemainingQuantity :: int
  q_inventoryVersion :: int
  q_eventTotalQuantity :: int
  q_eventRemainingQuantity :: int
  q_eventInventoryVersion :: int

definition buildVersionedInventoryScriptParams :: "VersionedInventoryChangedPayload \<Rightarrow> inventory_params" where
  "buildVersionedInventoryScriptParams p =
     \<lparr>q_eventId = vp_eventId p, q_ticketTypeId = vp_ticketTypeId p, q_ticketTypeName = vp_ticketTypeName p,
      q_ticketTypeTotalQuantity = vp_ticketTypeTotalQuantity p,
      q_ticketTypeRemainingQuantity = vp_ticketTypeRemainingQuantity p,
      q_inventoryVersion = ttv (vp_inventoryVersion p),
      q_eventTotalQuantity = vp_eventTotalQuantity p,
      q_eventRemainingQuantity = vp_eventRemainingQuantity p,
      q_eventInventoryVersion = evv (vp_eventInventoryVersion p)\<rparr>"

definition type_entry :: "inventory_params \<Rightarrow> ProjectionTicketType" where
  "type_entry q = \<lparr>pt_id = q_ticketTypeId q, pt_name = q_ticketTypeName q,
     pt_total = q_ticketTypeTotalQuantity q, pt_remaining = q_ticketTypeRemainingQuantity q,
     pt_version = q_inventoryVersion q\<rparr>"

text \<open>
  The Ticket Type half of the guard: the new array and whether it changed. The loop stops at the
  first entry with the id, and the entry is updated in place.
\<close>

fun set_first :: "ProjectionTicketType \<Rightarrow> ProjectionTicketType list \<Rightarrow> ProjectionTicketType list" where
  "set_first x [] = []"
| "set_first x (y # ys) = (if pt_id y = pt_id x then x # ys else y # set_first x ys)"

definition guard_ticket_type ::
    "inventory_params \<Rightarrow> ProjectionTicketType list \<Rightarrow> (bool \<times> ProjectionTicketType list) result" where
  "guard_ticket_type q types =
     (case row_by pt_id (q_ticketTypeId q) types of
        None \<Rightarrow> Inr (True, types @ [type_entry q])
      | Some target \<Rightarrow>
          if q_inventoryVersion q > pt_version target
          then Inr (True, set_first (type_entry q) types)
          else if q_inventoryVersion q = pt_version target
          then (if pt_total target \<noteq> q_ticketTypeTotalQuantity q
                   \<or> pt_remaining target \<noteq> q_ticketTypeRemainingQuantity q
                   \<or> pt_name target \<noteq> q_ticketTypeName q
                then Inl (IllegalStateException ''ticket type inventory contract corruption at version'')
                else Inr (False, types))
          else Inr (False, types))"

definition write_aggregate :: "inventory_params \<Rightarrow> ProjectionDocument \<Rightarrow> ProjectionDocument" where
  "write_aggregate q d = d\<lparr>d_event_version := Some (q_eventInventoryVersion q),
     d_event_total := Some (q_eventTotalQuantity q), d_event_remaining := Some (q_eventRemainingQuantity q),
     d_total := jsint (q_eventTotalQuantity q), d_remaining := jsint (q_eventRemainingQuantity q)\<rparr>"

text \<open>The Event half. \<open>asLong\<close> of a missing field throws, as any dereference of null in Painless.\<close>

definition guard_aggregate ::
    "inventory_params \<Rightarrow> ProjectionDocument \<Rightarrow> (bool \<times> ProjectionDocument) result" where
  "guard_aggregate q d =
     (case d_event_version d of
        None \<Rightarrow> Inr (True, write_aggregate q d)
      | Some stored \<Rightarrow>
          if q_eventInventoryVersion q > stored then Inr (True, write_aggregate q d)
          else if q_eventInventoryVersion q = stored
          then (case (d_event_total d, d_event_remaining d) of
                  (Some storedTotal, Some storedRemaining) \<Rightarrow>
                    if storedTotal \<noteq> q_eventTotalQuantity q \<or> storedRemaining \<noteq> q_eventRemainingQuantity q
                    then Inl (IllegalStateException ''event aggregate inventory contract corruption at version'')
                    else Inr (False, d)
                | _ \<Rightarrow> Inl (PlainError ''null_pointer_exception''))
          else Inr (False, d))"

definition INVENTORY_VERSION_GUARD_SCRIPT ::
    "inventory_params \<Rightarrow> ProjectionDocument \<Rightarrow> (ctx_op \<times> ProjectionDocument) result" where
  "INVENTORY_VERSION_GUARD_SCRIPT q d =
     (case guard_ticket_type q (case d_ticket_types d of None \<Rightarrow> [] | Some ts \<Rightarrow> ts) of
        Inl e \<Rightarrow> Inl e
      | Inr (changed1, types) \<Rightarrow>
          (case guard_aggregate q (d\<lparr>d_ticket_types := Some types\<rparr>) of
             Inl e \<Rightarrow> Inl e
           | Inr (changed2, d') \<Rightarrow>
               if changed1 \<or> changed2 then Inr (CtxIndex, d'\<lparr>d_event_id := JString (q_eventId q)\<rparr>)
               else Inr (CtxNoop, d')))"

definition LEGACY_INVENTORY_SCRIPT ::
    "string \<Rightarrow> int \<Rightarrow> ProjectionDocument \<Rightarrow> (ctx_op \<times> ProjectionDocument) result" where
  "LEGACY_INVENTORY_SCRIPT eventId remainingQuantity d =
     (case d_event_version d of
        None \<Rightarrow> Inr (CtxIndex, d\<lparr>d_remaining := jsint remainingQuantity, d_event_id := JString eventId\<rparr>)
      | Some _ \<Rightarrow> Inr (CtxNoop, d))"

section \<open>Event metadata\<close>

datatype LocationDirective = SetLocation jsval jsval | ClearLocation | PreserveLocation

definition resolveLocationDirective :: "jsval \<Rightarrow> jsval \<Rightarrow> LocationDirective result" where
  "resolveLocationDirective latitude longitude =
     (if latitude = JUndefined \<and> longitude = JUndefined then Inr PreserveLocation
      else if latitude = JNull \<and> longitude = JNull then Inr ClearLocation
      else if isFinite latitude \<and> isFinite longitude then Inr (SetLocation latitude longitude)
      else Inl (EventMetadataContractError ''event metadata has invalid partial location''))"

record EventMetadata =
  m_eventId :: jsval
  m_title :: jsval
  m_eventType :: jsval
  m_startsAt :: jsval
  m_latitude :: jsval
  m_longitude :: jsval
  m_totalQuantity :: jsval
  m_remainingQuantity :: jsval

record metadata_params =
  mp_eventId :: jsval
  mp_title :: jsval
  mp_eventType :: jsval
  mp_startsAt :: jsval
  mp_location :: LocationDirective
  mp_totalQuantity :: jsval
  mp_remainingQuantity :: jsval

definition EVENT_METADATA_SCRIPT ::
    "metadata_params \<Rightarrow> ProjectionDocument \<Rightarrow> (ctx_op \<times> ProjectionDocument) result" where
  "EVENT_METADATA_SCRIPT m d =
     (let d1 = d\<lparr>d_event_id := mp_eventId m, d_title := mp_title m, d_event_type := mp_eventType m,
                d_starts_at := mp_startsAt m\<rparr>;
          d2 = (case mp_location m of
                  SetLocation lat lon \<Rightarrow> d1\<lparr>d_location := Some (lat, lon)\<rparr>
                | ClearLocation \<Rightarrow> d1\<lparr>d_location := None\<rparr>
                | PreserveLocation \<Rightarrow> d1);
          d3 = (if d_event_version d2 = None
                then (let d4 = (if is_nullish (d_total d2) then d2\<lparr>d_total := mp_totalQuantity m\<rparr> else d2)
                      in if is_nullish (d_remaining d4) then d4\<lparr>d_remaining := mp_remainingQuantity m\<rparr> else d4)
                else d2)
      in Inr (CtxIndex, d3))"

text \<open>The body of an update request names a script and its parameters; the upsert document is empty.\<close>

datatype update_body =
    VersionGuard inventory_params
  | LegacyInventory string int
  | MetadataMerge metadata_params

definition buildEventMetadataUpdateBody :: "EventMetadata \<Rightarrow> update_body result" where
  "buildEventMetadataUpdateBody m =
     map_sum id (\<lambda>location. MetadataMerge
         \<lparr>mp_eventId = m_eventId m, mp_title = or_null (m_title m), mp_eventType = or_null (m_eventType m),
          mp_startsAt = or_null (m_startsAt m), mp_location = location,
          mp_totalQuantity = or_null (m_totalQuantity m),
          mp_remainingQuantity = or_null (m_remainingQuantity m)\<rparr>)
       (resolveLocationDirective (m_latitude m) (m_longitude m))"

fun run_script :: "update_body \<Rightarrow> ProjectionDocument \<Rightarrow> (ctx_op \<times> ProjectionDocument) result" where
  "run_script (VersionGuard q) d = INVENTORY_VERSION_GUARD_SCRIPT q d"
| "run_script (LegacyInventory e r) d = LEGACY_INVENTORY_SCRIPT e r d"
| "run_script (MetadataMerge m) d = EVENT_METADATA_SCRIPT m d"


section \<open>The index and the update call\<close>

text \<open>
  A mapping is the list of its fields by path: the fields of the nested \<open>ticket_types\<close> objects are
  listed under \<open>ticket_types.\<close>, as OpenSearch names them.
\<close>

datatype field_type = Keyword | TextField | DateField | GeoPoint | IntegerField | LongField | Nested

type_synonym mapping_properties = "(string \<times> field_type) list"

record search_cluster =
  os_docs :: "string \<Rightarrow> string \<Rightarrow> ProjectionDocument option"
  os_mappings :: "string \<Rightarrow> mapping_properties option"

definition EVENTS_INDEX :: string where
  "EVENTS_INDEX = ''events''"

definition EVENTS_INDEX_PROPERTIES :: mapping_properties where
  "EVENTS_INDEX_PROPERTIES =
     [(''event_id'', Keyword), (''title'', TextField), (''event_type'', Keyword), (''starts_at'', DateField),
      (''location'', GeoPoint), (''total_quantity'', IntegerField), (''remaining_quantity'', IntegerField),
      (''event_total_quantity'', IntegerField), (''event_remaining_quantity'', IntegerField),
      (''event_inventory_version'', LongField), (''ticket_types'', Nested),
      (''ticket_types.ticket_type_id'', Keyword), (''ticket_types.name'', TextField),
      (''ticket_types.total_quantity'', IntegerField), (''ticket_types.remaining_quantity'', IntegerField),
      (''ticket_types.inventory_version'', LongField)]"

text \<open>
  One \<open>client.update\<close> with \<open>scripted_upsert\<close> and an empty upsert document: a missing document is
  created from what the script makes of the empty one, a script that throws is answered with
  400 and writes nothing, a no-op writes nothing.
\<close>

definition execute_update ::
    "string \<Rightarrow> string \<Rightarrow> update_body \<Rightarrow> search_cluster \<Rightarrow> string result \<times> search_cluster" where
  "execute_update index doc_id body c =
     (case run_script body (case os_docs c index doc_id of None \<Rightarrow> empty_doc | Some d \<Rightarrow> d) of
        Inl e \<Rightarrow> (Inl (OpenSearchError 400 ''illegal_argument_exception''), c)
      | Inr (CtxNoop, d) \<Rightarrow> (Inr ''noop'', c)
      | Inr (CtxIndex, d) \<Rightarrow>
          (Inr (if os_docs c index doc_id = None then ''created'' else ''updated''),
           c\<lparr>os_docs := (os_docs c)(index := (os_docs c index)(doc_id := Some d))\<rparr>))"

text \<open>
  What the client sees: the answer, an error before anything was written (a version conflict, a
  rejected mapping, no connection), or an error after the update ran.
\<close>

datatype update_reply = UpAnswered | UpRefused exn | UpAnswerLost exn

definition client_update ::
    "update_reply \<Rightarrow> string \<Rightarrow> string \<Rightarrow> update_body \<Rightarrow> search_cluster \<Rightarrow> string result \<times> search_cluster" where
  "client_update reply index doc_id body c =
     (case reply of
        UpAnswered \<Rightarrow> execute_update index doc_id body c
      | UpRefused e \<Rightarrow> (Inl e, c)
      | UpAnswerLost e \<Rightarrow> (Inl e, snd (execute_update index doc_id body c)))"

definition isVersionConflict :: "exn \<Rightarrow> bool" where
  "isVersionConflict e =
     (case e of OpenSearchError statusCode type \<Rightarrow> statusCode = 409 \<or> type = ''version_conflict_engine_exception''
              | _ \<Rightarrow> False)"

definition MAX_CONFLICT_RETRIES :: nat where
  "MAX_CONFLICT_RETRIES = 5"

function conflict_retry :: "(nat \<Rightarrow> 's \<Rightarrow> 'a result \<times> 's) \<Rightarrow> nat \<Rightarrow> 's \<Rightarrow> 'a result \<times> 's" where
  "conflict_retry op attempt s =
     (case op attempt s of
        (Inr x, s') \<Rightarrow> (Inr x, s')
      | (Inl e, s') \<Rightarrow>
          if \<not> isVersionConflict e then (Inl e, s')
          else if attempt < MAX_CONFLICT_RETRIES then conflict_retry op (Suc attempt) s'
          else (Inl e, s'))"
  by pat_completeness auto
termination by (relation "measure (\<lambda>(op, attempt, s). MAX_CONFLICT_RETRIES - attempt)") auto

declare conflict_retry.simps [simp del]

definition runWithConflictRetry :: "(nat \<Rightarrow> 's \<Rightarrow> 'a result \<times> 's) \<Rightarrow> 's \<Rightarrow> 'a result \<times> 's" where
  "runWithConflictRetry op s = conflict_retry op 0 s"

text \<open>The environment of a call: the reply to each attempt, and what other writers did before it.\<close>

record search_env =
  os_reply :: "nat \<Rightarrow> update_reply"
  os_others :: "nat \<Rightarrow> search_cluster \<Rightarrow> search_cluster"

definition retried_update ::
    "search_env \<Rightarrow> string \<Rightarrow> string \<Rightarrow> update_body \<Rightarrow> search_cluster \<Rightarrow> string result \<times> search_cluster" where
  "retried_update env index doc_id body =
     runWithConflictRetry (\<lambda>n c. client_update (os_reply env n) index doc_id body (os_others env n c))"

section \<open>The operations\<close>

datatype apply_outcome = Applied | Stale | LegacyIgnore

definition applyVersionedInventoryChanged ::
    "search_env \<Rightarrow> string \<Rightarrow> VersionedInventoryChangedPayload \<Rightarrow> search_cluster \<Rightarrow> apply_outcome result \<times> search_cluster" where
  "applyVersionedInventoryChanged env index p c =
     (case retried_update env index (vp_eventId p) (VersionGuard (buildVersionedInventoryScriptParams p)) c of
        (r, c') \<Rightarrow> (map_sum id (\<lambda>response. if response = ''noop'' then Stale else Applied) r, c'))"

definition applyLegacyInventoryChanged ::
    "search_env \<Rightarrow> string \<Rightarrow> string \<Rightarrow> int \<Rightarrow> search_cluster \<Rightarrow> apply_outcome result \<times> search_cluster" where
  "applyLegacyInventoryChanged env index eventId remainingQuantity c =
     (case retried_update env index eventId (LegacyInventory eventId remainingQuantity) c of
        (r, c') \<Rightarrow> (map_sum id (\<lambda>response. if response = ''noop'' then LegacyIgnore else Applied) r, c'))"

text \<open>
  A metadata event's id is used as it came; an id that is not a string is written into the URL by
  the client library, as \<open>url_text\<close> says.
\<close>

definition document_id :: "(jsval \<Rightarrow> string) \<Rightarrow> jsval \<Rightarrow> string" where
  "document_id url_text v = (case v of JString s \<Rightarrow> s | _ \<Rightarrow> url_text v)"

definition applyEventMetadata ::
    "(jsval \<Rightarrow> string) \<Rightarrow> search_env \<Rightarrow> string \<Rightarrow> EventMetadata \<Rightarrow> search_cluster \<Rightarrow> unit result \<times> search_cluster" where
  "applyEventMetadata url_text env index m c =
     (case buildEventMetadataUpdateBody m of
        Inl e \<Rightarrow> (Inl e, c)
      | Inr body \<Rightarrow> (case retried_update env index (document_id url_text (m_eventId m)) body c of
          (r, c') \<Rightarrow> (map_sum id (\<lambda>_. ()) r, c')))"

definition applyParsedInventoryChanged ::
    "search_env \<Rightarrow> string \<Rightarrow> ParsedInventoryChanged \<Rightarrow> search_cluster \<Rightarrow> apply_outcome result \<times> search_cluster" where
  "applyParsedInventoryChanged env index parsed c =
     (case parsed of
        Versioned p \<Rightarrow> applyVersionedInventoryChanged env index p c
      | LegacyChange eventId remainingQuantity \<Rightarrow> applyLegacyInventoryChanged env index eventId remainingQuantity c)"

text \<open>The two lines of a bulk request: the action with its index, id and retries, and the body.\<close>

type_synonym bulk_action = "string \<times> jsval \<times> nat"

definition buildEventMetadataBulkOps :: "string \<Rightarrow> EventMetadata \<Rightarrow> (bulk_action \<times> update_body) result" where
  "buildEventMetadataBulkOps index m =
     map_sum id (\<lambda>body. ((index, m_eventId m, MAX_CONFLICT_RETRIES), body)) (buildEventMetadataUpdateBody m)"

definition buildVersionedInventoryBulkOps ::
    "string \<Rightarrow> VersionedInventoryChangedPayload \<Rightarrow> bulk_action \<times> update_body" where
  "buildVersionedInventoryBulkOps index p =
     ((index, JString (vp_eventId p), MAX_CONFLICT_RETRIES), VersionGuard (buildVersionedInventoryScriptParams p))"


section \<open>Creating and migrating the index\<close>

text \<open>
  \<open>putMapping\<close> is additive: new fields are added, a field already mapped keeps its type, and a
  field mapped with another type refuses the whole request.
\<close>

definition mapping_conflict :: exn where
  "mapping_conflict = OpenSearchError 400 ''illegal_argument_exception''"

fun merge_properties :: "mapping_properties \<Rightarrow> mapping_properties \<Rightarrow> mapping_properties result" where
  "merge_properties old [] = Inr old"
| "merge_properties old ((n, ty) # new) =
     (case map_of old n of
        None \<Rightarrow> merge_properties (old @ [(n, ty)]) new
      | Some ty0 \<Rightarrow> if ty0 = ty then merge_properties old new else Inl mapping_conflict)"

definition indices_exists :: "string \<Rightarrow> search_cluster \<Rightarrow> bool" where
  "indices_exists index c = (os_mappings c index \<noteq> None)"

definition ensureEventsIndex :: "string \<Rightarrow> search_cluster \<Rightarrow> unit result \<times> search_cluster" where
  "ensureEventsIndex index c =
     (case os_mappings c index of
        None \<Rightarrow> (Inr (), c\<lparr>os_mappings := (os_mappings c)(index := Some EVENTS_INDEX_PROPERTIES)\<rparr>)
      | Some old \<Rightarrow> (case merge_properties old EVENTS_INDEX_PROPERTIES of
            Inl e \<Rightarrow> (Inl e, c)
          | Inr new \<Rightarrow> (Inr (), c\<lparr>os_mappings := (os_mappings c)(index := Some new)\<rparr>)))"

definition assertEventsIndexExists :: "string \<Rightarrow> search_cluster \<Rightarrow> unit result" where
  "assertEventsIndexExists index c =
     (if \<not> indices_exists index c
      then Inl (PlainError ''events index does not exist. Run the search index migration before starting the worker.'')
      else Inr ())"

section \<open>What a document shows\<close>

definition shown_type :: "string \<Rightarrow> ProjectionDocument \<Rightarrow> ProjectionTicketType option" where
  "shown_type t d = row_by pt_id t (case d_ticket_types d of None \<Rightarrow> [] | Some ts \<Rightarrow> ts)"

definition shown_event :: "ProjectionDocument \<Rightarrow> (int \<times> int option \<times> int option \<times> jsval \<times> jsval) option" where
  "shown_event d = map_option (\<lambda>v. (v, d_event_total d, d_event_remaining d, d_total d, d_remaining d)) (d_event_version d)"

definition doc_at :: "string \<Rightarrow> string \<Rightarrow> search_cluster \<Rightarrow> ProjectionDocument" where
  "doc_at index doc_id c = (case os_docs c index doc_id of None \<Rightarrow> empty_doc | Some d \<Rightarrow> d)"

definition aggregate_of :: "inventory_params \<Rightarrow> int \<times> int option \<times> int option \<times> jsval \<times> jsval" where
  "aggregate_of q = (q_eventInventoryVersion q, Some (q_eventTotalQuantity q), Some (q_eventRemainingQuantity q),
     jsint (q_eventTotalQuantity q), jsint (q_eventRemainingQuantity q))"

text \<open>A document whose versioned aggregate is complete and repeated at the top level.\<close>

definition doc_ok :: "ProjectionDocument \<Rightarrow> bool" where
  "doc_ok d \<longleftrightarrow> (case d_event_version d of
       None \<Rightarrow> True
     | Some v \<Rightarrow> (\<exists>x y. d_event_total d = Some x \<and> d_event_remaining d = Some y
         \<and> d_total d = jsint x \<and> d_remaining d = jsint y))"

lemmas shown_defs = shown_type_def shown_event_def

lemma row_by_set_first:
  "row_by pt_id t (set_first x ts) =
     (if t = pt_id x \<and> row_by pt_id t ts \<noteq> None then Some x else row_by pt_id t ts)"
  by (induction ts) auto

lemma type_entry_id [simp]: "pt_id (type_entry q) = q_ticketTypeId q"
  and type_entry_version [simp]: "pt_version (type_entry q) = q_inventoryVersion q"
  by (simp_all add: type_entry_def)

lemma type_entry_eq:
  "x = type_entry q \<longleftrightarrow> pt_id x = q_ticketTypeId q \<and> pt_name x = q_ticketTypeName q
     \<and> pt_total x = q_ticketTypeTotalQuantity q \<and> pt_remaining x = q_ticketTypeRemainingQuantity q
     \<and> pt_version x = q_inventoryVersion q"
  by (cases x) (auto simp: type_entry_def)

text \<open>The Type half: the entry of the params' own id becomes the newer of the two.\<close>

lemma guard_ticket_type_Inr:
  assumes "guard_ticket_type q ts = Inr (ch, ts')"
  shows "row_by pt_id t ts' = (if t \<noteq> q_ticketTypeId q then row_by pt_id t ts
     else case row_by pt_id t ts of
         None \<Rightarrow> Some (type_entry q)
       | Some x \<Rightarrow> if pt_version x < q_inventoryVersion q then Some (type_entry q) else Some x)"
    and "\<not> ch \<Longrightarrow> ts' = ts"
    and "\<And>x. row_by pt_id (q_ticketTypeId q) ts = Some x \<Longrightarrow> pt_version x = q_inventoryVersion q \<Longrightarrow> x = type_entry q"
  using assms
  by (auto simp: guard_ticket_type_def row_by_append row_by_set_first type_entry_eq
      dest: row_by_Some split: option.splits if_splits)

lemma guard_ticket_type_Inl:
  "guard_ticket_type q ts = Inl e \<longleftrightarrow>
     (\<exists>x. row_by pt_id (q_ticketTypeId q) ts = Some x \<and> pt_version x = q_inventoryVersion q \<and> x \<noteq> type_entry q
        \<and> e = IllegalStateException ''ticket type inventory contract corruption at version'')"
  by (auto simp: guard_ticket_type_def type_entry_eq dest: row_by_Some split: option.splits if_splits)

lemma guard_aggregate_Inr:
  assumes "guard_aggregate q d = Inr (ch, d')" "doc_ok d"
  shows "doc_ok d'" "d_ticket_types d' = d_ticket_types d"
    and "shown_event d' = (case shown_event d of
         None \<Rightarrow> Some (aggregate_of q)
       | Some a \<Rightarrow> if fst a < q_eventInventoryVersion q then Some (aggregate_of q) else Some a)"
    and "\<not> ch \<Longrightarrow> d' = d"
    and "\<And>a. shown_event d = Some a \<Longrightarrow> fst a = q_eventInventoryVersion q \<Longrightarrow> a = aggregate_of q"
  using assms
  by (auto simp: guard_aggregate_def shown_event_def doc_ok_def write_aggregate_def aggregate_of_def
      split: option.splits if_splits)

lemma guard_aggregate_Inl:
  assumes "doc_ok d"
  shows "guard_aggregate q d = Inl e \<longleftrightarrow>
     (\<exists>a. shown_event d = Some a \<and> fst a = q_eventInventoryVersion q \<and> a \<noteq> aggregate_of q
        \<and> e = IllegalStateException ''event aggregate inventory contract corruption at version'')"
  using assms
  by (auto simp: guard_aggregate_def shown_event_def doc_ok_def aggregate_of_def split: option.splits if_splits)


text \<open>What a delivery of \<open>q\<close> makes of the entry and of the aggregate a document shows.\<close>

fun newer_type :: "inventory_params \<Rightarrow> ProjectionTicketType option \<Rightarrow> ProjectionTicketType option" where
  "newer_type q None = Some (type_entry q)"
| "newer_type q (Some x) = (if pt_version x < q_inventoryVersion q then Some (type_entry q) else Some x)"

fun newer_event ::
    "inventory_params \<Rightarrow> (int \<times> int option \<times> int option \<times> jsval \<times> jsval) option
       \<Rightarrow> (int \<times> int option \<times> int option \<times> jsval \<times> jsval) option" where
  "newer_event q None = Some (aggregate_of q)"
| "newer_event q (Some a) = (if fst a < q_eventInventoryVersion q then Some (aggregate_of q) else Some a)"

definition step_doc :: "update_body \<Rightarrow> ProjectionDocument \<Rightarrow> ProjectionDocument" where
  "step_doc body d = (case run_script body d of Inr (CtxIndex, d') \<Rightarrow> d' | _ \<Rightarrow> d)"

definition corrupts :: "inventory_params \<Rightarrow> ProjectionDocument \<Rightarrow> bool" where
  "corrupts q d \<longleftrightarrow>
     (\<exists>x. shown_type (q_ticketTypeId q) d = Some x \<and> pt_version x = q_inventoryVersion q \<and> x \<noteq> type_entry q)
   \<or> (\<exists>a. shown_event d = Some a \<and> fst a = q_eventInventoryVersion q \<and> a \<noteq> aggregate_of q)"

lemma doc_frames [simp]:
  "shown_event (d\<lparr>d_ticket_types := x\<rparr>) = shown_event d" "doc_ok (d\<lparr>d_ticket_types := x\<rparr>) = doc_ok d"
  "shown_event (d\<lparr>d_event_id := y\<rparr>) = shown_event d" "doc_ok (d\<lparr>d_event_id := y\<rparr>) = doc_ok d"
  "shown_type t (d\<lparr>d_event_id := y\<rparr>) = shown_type t d"
  by (simp_all add: shown_defs doc_ok_def split: option.split)

lemma guard_script:
  assumes "doc_ok d"
  shows "case INVENTORY_VERSION_GUARD_SCRIPT q d of
      Inl e \<Rightarrow> corrupts q d
    | Inr (op, d') \<Rightarrow> \<not> corrupts q d \<and> doc_ok d' \<and> (op = CtxNoop \<longrightarrow> d' = d)
        \<and> (\<forall>t. shown_type t d' = (if t = q_ticketTypeId q then newer_type q (shown_type t d) else shown_type t d))
        \<and> shown_event d' = newer_event q (shown_event d)"
proof -
  define ts where "ts = (case d_ticket_types d of None \<Rightarrow> [] | Some ts \<Rightarrow> ts)"
  have st: "shown_type t d = row_by pt_id t ts" for t by (simp add: shown_type_def ts_def)
  show ?thesis
  proof (cases "guard_ticket_type q ts")
    case (Inl e)
    from Inl [unfolded guard_ticket_type_Inl] have "corrupts q d" unfolding corrupts_def st by blast
    with Inl show ?thesis by (simp add: INVENTORY_VERSION_GUARD_SCRIPT_def ts_def)
  next
    case (Inr r)
    obtain ch types where r: "r = (ch, types)" by fastforce
    note T = guard_ticket_type_Inr [OF Inr [unfolded r]]
    define d1 where "d1 = d\<lparr>d_ticket_types := Some types\<rparr>"
    have d1: "doc_ok d1" "shown_event d1 = shown_event d" using assms by (simp_all add: d1_def)
    show ?thesis
    proof (cases "guard_aggregate q d1")
      case (Inl e)
      from Inl [unfolded guard_aggregate_Inl [OF d1(1)]] have "corrupts q d" unfolding corrupts_def d1(2) by blast
      with Inl Inr show ?thesis by (simp add: INVENTORY_VERSION_GUARD_SCRIPT_def ts_def d1_def r)
    next
      case (Inr r2)
      obtain ch2 d2 where r2: "r2 = (ch2, d2)" by fastforce
      note A = guard_aggregate_Inr [OF Inr [unfolded r2] d1(1)]
      have types: "shown_type t d2 = row_by pt_id t types" for t by (simp add: shown_type_def A(2) d1_def)
      have "\<not> corrupts q d" using T(3) A(5) by (auto simp: corrupts_def st d1(2))
      moreover have "\<forall>t. shown_type t d2 = (if t = q_ticketTypeId q then newer_type q (shown_type t d) else shown_type t d)"
        unfolding types st T(1) by (auto split: option.split)
      moreover have "shown_event d2 = newer_event q (shown_event d)"
        using A(3) by (auto simp: d1(2) split: option.splits)
      moreover have "d2 = d" if "\<not> ch" "\<not> ch2"
      proof -
        have "types = ts" "ts \<noteq> []" using T(2) [OF that(1)] T(1) [of "q_ticketTypeId q"] by (auto split: option.splits)
        then have "d_ticket_types d = Some types" by (auto simp: ts_def split: option.splits)
        then show ?thesis using A(4) [OF that(2)] by (simp add: d1_def)
      qed
      moreover have "INVENTORY_VERSION_GUARD_SCRIPT q d =
          (if ch \<or> ch2 then Inr (CtxIndex, d2\<lparr>d_event_id := JString (q_eventId q)\<rparr>) else Inr (CtxNoop, d2))"
        using \<open>guard_ticket_type q ts = Inr r\<close> Inr
        by (simp add: INVENTORY_VERSION_GUARD_SCRIPT_def ts_def [symmetric] d1_def [symmetric] r r2)
      ultimately show ?thesis using A(1) by (cases "ch \<or> ch2") auto
    qed
  qed
qed


text \<open>The other two scripts leave everything versioned alone.\<close>

lemma legacy_script:
  assumes "LEGACY_INVENTORY_SCRIPT e r d = Inr (op, d')" "doc_ok d"
  shows "doc_ok d'" "shown_type t d' = shown_type t d" "shown_event d' = shown_event d"
    "op = CtxNoop \<longleftrightarrow> shown_event d \<noteq> None"
  using assms by (auto simp: LEGACY_INVENTORY_SCRIPT_def shown_defs doc_ok_def split: option.splits)

lemma metadata_script:
  assumes "EVENT_METADATA_SCRIPT m d = Inr (op, d')" "doc_ok d"
  shows "doc_ok d'" "shown_type t d' = shown_type t d" "shown_event d' = shown_event d" "op = CtxIndex"
  using assms unfolding EVENT_METADATA_SCRIPT_def Let_def shown_defs doc_ok_def
  by (auto split: LocationDirective.splits if_splits option.splits)

lemma step_guard:
  assumes "doc_ok d" "\<not> corrupts q d"
  shows "shown_type t (step_doc (VersionGuard q) d) =
      (if t = q_ticketTypeId q then newer_type q (shown_type t d) else shown_type t d)"
    and "shown_event (step_doc (VersionGuard q) d) = newer_event q (shown_event d)"
proof -
  from guard_script [OF assms(1), of q] assms(2) obtain op d' where
    "INVENTORY_VERSION_GUARD_SCRIPT q d = Inr (op, d')" and noop: "op = CtxNoop \<longrightarrow> d' = d"
    and shown: "\<forall>t. shown_type t d' = (if t = q_ticketTypeId q then newer_type q (shown_type t d) else shown_type t d)"
      "shown_event d' = newer_event q (shown_event d)"
    by (auto split: sum.splits)
  then have "step_doc (VersionGuard q) d = d'"
    by (cases op) (simp_all add: step_doc_def)
  with shown show "shown_type t (step_doc (VersionGuard q) d) =
      (if t = q_ticketTypeId q then newer_type q (shown_type t d) else shown_type t d)"
    and "shown_event (step_doc (VersionGuard q) d) = newer_event q (shown_event d)" by metis+
qed

lemma step_corrupt: "doc_ok d \<Longrightarrow> corrupts q d \<Longrightarrow> step_doc (VersionGuard q) d = d"
  using guard_script [of d q] by (auto simp: step_doc_def split: sum.splits prod.splits)

lemma step_doc_cases:
  obtains (runs) op d' where "run_script body d = Inr (op, d')" "step_doc body d = (if op = CtxIndex then d' else d)"
  | (throws) e where "run_script body d = Inl e" "step_doc body d = d"
  by (cases "run_script body d") (auto simp: step_doc_def split: ctx_op.splits)

lemma step_unversioned:
  assumes "doc_ok d" "\<forall>q. body \<noteq> VersionGuard q"
  shows "shown_type t (step_doc body d) = shown_type t d \<and> shown_event (step_doc body d) = shown_event d"
proof (cases rule: step_doc_cases [of body d])
  case (runs op d')
  with assms legacy_script [OF _ assms(1)] metadata_script [OF _ assms(1)] show ?thesis
    by (cases body) auto
qed simp

lemma step_doc_ok: "doc_ok d \<Longrightarrow> doc_ok (step_doc body d)"
  using guard_script [of d] legacy_script(1) metadata_script(1)
  by (cases body) (fastforce simp: step_doc_def split: sum.splits prod.splits ctx_op.splits)+

lemma doc_at_execute:
  "doc_at i k (snd (execute_update index doc_id body c)) =
     (if i = index \<and> k = doc_id then step_doc body (doc_at i k c) else doc_at i k c)"
  by (auto simp: execute_update_def step_doc_def doc_at_def split: option.splits sum.splits prod.splits ctx_op.splits)

lemma empty_doc_ok [simp]: "doc_ok empty_doc"
  by (simp add: doc_ok_def empty_doc_def)

section \<open>Sequences of updates\<close>

text \<open>
  An update of any writer, with its fate on the wire. Versions come from the parser and are not
  negative.
\<close>

type_synonym search_op = "update_reply \<times> string \<times> string \<times> update_body"

fun perform_update :: "search_op \<Rightarrow> search_cluster \<Rightarrow> search_cluster" where
  "perform_update (reply, index, doc_id, body) c = snd (client_update reply index doc_id body c)"

fun body_ok :: "update_body \<Rightarrow> bool" where
  "body_ok (VersionGuard q) = (0 \<le> q_inventoryVersion q \<and> 0 \<le> q_eventInventoryVersion q)"
| "body_ok _ = True"

fun update_ok :: "search_op \<Rightarrow> bool" where
  "update_ok (reply, index, doc_id, body) = body_ok body"

fun hits :: "string \<Rightarrow> string \<Rightarrow> search_op \<Rightarrow> bool" where
  "hits index doc_id (reply, i, k, body) \<longleftrightarrow> i = index \<and> k = doc_id \<and> (case reply of UpRefused _ \<Rightarrow> False | _ \<Rightarrow> True)"

definition docs_ok :: "search_cluster \<Rightarrow> bool" where
  "docs_ok c \<longleftrightarrow> (\<forall>index doc_id. doc_ok (doc_at index doc_id c))"

lemma doc_at_perform:
  "doc_at index doc_id (perform_update op c) =
     (if hits index doc_id op then step_doc (snd (snd (snd op))) (doc_at index doc_id c) else doc_at index doc_id c)"
  by (cases op rule: update_ok.cases) (auto simp: client_update_def doc_at_execute split: update_reply.split)

lemma docs_ok_perform: "docs_ok c \<Longrightarrow> docs_ok (perform_update op c)"
  by (auto simp: docs_ok_def doc_at_perform step_doc_ok)

definition type_shown_version :: "string \<times> string \<times> string \<Rightarrow> search_cluster \<Rightarrow> int" where
  "type_shown_version k c = (case k of (index, e, t) \<Rightarrow>
     (case shown_type t (doc_at index e c) of None \<Rightarrow> -1 | Some x \<Rightarrow> pt_version x))"

definition event_shown_version :: "string \<times> string \<Rightarrow> search_cluster \<Rightarrow> int" where
  "event_shown_version k c = (case k of (index, e) \<Rightarrow>
     (case shown_event (doc_at index e c) of None \<Rightarrow> -1 | Some a \<Rightarrow> fst a))"

lemma step_doc_shown:
  assumes "doc_ok d" "body_ok body"
  obtains (same) "shown_type t (step_doc body d) = shown_type t d"
  | (newer) q where "body = VersionGuard q" "t = q_ticketTypeId q" "0 \<le> q_inventoryVersion q"
      "shown_type t (step_doc body d) = Some (type_entry q)"
      "\<And>x. shown_type t d = Some x \<Longrightarrow> pt_version x < q_inventoryVersion q"
proof (cases "\<exists>q. body = VersionGuard q \<and> \<not> corrupts q d \<and> t = q_ticketTypeId q")
  case True
  then obtain q where q: "body = VersionGuard q" "\<not> corrupts q d" "t = q_ticketTypeId q" by blast
  from step_guard(1) [OF assms(1) q(2), of t] q(1,3) assms(2) same newer [OF q(1,3)] show thesis
    by (cases "shown_type t d") (auto split: if_splits)
next
  case False
  then show thesis
    using same step_unversioned [OF assms(1)] step_guard(1) [OF assms(1)] step_corrupt [OF assms(1)] by metis
qed

lemma step_doc_shown_event:
  assumes "doc_ok d" "body_ok body"
  obtains (same) "shown_event (step_doc body d) = shown_event d"
  | (newer) q where "body = VersionGuard q" "0 \<le> q_eventInventoryVersion q"
      "shown_event (step_doc body d) = Some (aggregate_of q)"
      "\<And>a. shown_event d = Some a \<Longrightarrow> fst a < q_eventInventoryVersion q"
proof (cases "\<exists>q. body = VersionGuard q \<and> \<not> corrupts q d")
  case True
  then obtain q where q: "body = VersionGuard q" "\<not> corrupts q d" by blast
  from step_guard(2) [OF assms(1) q(2)] q(1) assms(2) same newer [OF q(1)] show thesis
    by (cases "shown_event d") (auto split: if_splits)
next
  case False
  then show thesis
    using same step_unversioned [OF assms(1)] step_corrupt [OF assms(1)] by metis
qed

text \<open>Both versioned parts of a document are cells guarded by their version.\<close>

interpretation doc_types: versioned_cells "\<lambda>_. True" update_ok docs_ok type_shown_version
    "\<lambda>(index, e, t) c. shown_type t (doc_at index e c)" perform_update
proof unfold_locales
  fix op c and k :: "string \<times> string \<times> string"
  assume op: "update_ok op" and c: "docs_ok c"
  show "docs_ok (perform_update op c)" using docs_ok_perform [OF c] .
  obtain index e t where k: "k = (index, e, t)" by (rule prod_cases3)
  have d: "doc_ok (doc_at index e c)" using c by (simp add: docs_ok_def)
  have b: "body_ok (snd (snd (snd op)))" using op by (cases op rule: update_ok.cases) simp
  show "type_shown_version k c \<le> type_shown_version k (perform_update op c)"
    unfolding k type_shown_version_def prod.case doc_at_perform
    by (cases rule: step_doc_shown [OF d b, of t]) (auto split: option.splits)
  assume "type_shown_version k (perform_update op c) = type_shown_version k c"
  then show "(case k of (index, e, t) \<Rightarrow> \<lambda>c. shown_type t (doc_at index e c)) (perform_update op c) =
      (case k of (index, e, t) \<Rightarrow> \<lambda>c. shown_type t (doc_at index e c)) c"
    unfolding k type_shown_version_def prod.case doc_at_perform
    by (cases rule: step_doc_shown [OF d b, of t]) (auto split: option.splits)
qed

interpretation doc_events: versioned_cells "\<lambda>_. True" update_ok docs_ok event_shown_version
    "\<lambda>(index, e) c. shown_event (doc_at index e c)" perform_update
proof unfold_locales
  fix op c and k :: "string \<times> string"
  assume op: "update_ok op" and c: "docs_ok c"
  show "docs_ok (perform_update op c)" using docs_ok_perform [OF c] .
  obtain index e where k: "k = (index, e)" by fastforce
  have d: "doc_ok (doc_at index e c)" using c by (simp add: docs_ok_def)
  have b: "body_ok (snd (snd (snd op)))" using op by (cases op rule: update_ok.cases) simp
  show "event_shown_version k c \<le> event_shown_version k (perform_update op c)"
    unfolding k event_shown_version_def prod.case doc_at_perform
    by (cases rule: step_doc_shown_event [OF d b]) (auto simp: aggregate_of_def split: option.splits)
  assume "event_shown_version k (perform_update op c) = event_shown_version k c"
  then show "(case k of (index, e) \<Rightarrow> \<lambda>c. shown_event (doc_at index e c)) (perform_update op c) =
      (case k of (index, e) \<Rightarrow> \<lambda>c. shown_event (doc_at index e c)) c"
    unfolding k event_shown_version_def prod.case doc_at_perform
    by (cases rule: step_doc_shown_event [OF d b]) (auto simp: aggregate_of_def split: option.splits)
qed


section \<open>Newest state and convergence\<close>

fun params_of :: "search_op \<Rightarrow> inventory_params list" where
  "params_of (reply, index, doc_id, VersionGuard q) = [q]"
| "params_of _ = []"

text \<open>The versioned payloads a history delivered to one document, in order, with repetitions.\<close>

definition delivered :: "string \<Rightarrow> string \<Rightarrow> search_op list \<Rightarrow> inventory_params list" where
  "delivered index doc_id ops = concat (map params_of (filter (hits index doc_id) ops))"

text \<open>Payloads that describe one source: a version stands for one state.\<close>

definition consistent :: "inventory_params set \<Rightarrow> bool" where
  "consistent Q \<longleftrightarrow> (\<forall>p \<in> Q. \<forall>q \<in> Q.
     (q_ticketTypeId p = q_ticketTypeId q \<and> q_inventoryVersion p = q_inventoryVersion q \<longrightarrow> type_entry p = type_entry q)
   \<and> (q_eventInventoryVersion p = q_eventInventoryVersion q \<longrightarrow> aggregate_of p = aggregate_of q))"

definition newest_type :: "inventory_params set \<Rightarrow> string \<Rightarrow> ProjectionTicketType option \<Rightarrow> bool" where
  "newest_type Q t shown \<longleftrightarrow> (case shown of
      None \<Rightarrow> \<forall>q \<in> Q. q_ticketTypeId q \<noteq> t
    | Some x \<Rightarrow> (\<exists>q \<in> Q. q_ticketTypeId q = t \<and> x = type_entry q)
        \<and> (\<forall>q \<in> Q. q_ticketTypeId q = t \<longrightarrow> q_inventoryVersion q \<le> pt_version x))"

definition newest_event ::
    "inventory_params set \<Rightarrow> (int \<times> int option \<times> int option \<times> jsval \<times> jsval) option \<Rightarrow> bool" where
  "newest_event Q shown \<longleftrightarrow> (case shown of
      None \<Rightarrow> Q = {}
    | Some a \<Rightarrow> (\<exists>q \<in> Q. a = aggregate_of q) \<and> (\<forall>q \<in> Q. q_eventInventoryVersion q \<le> fst a))"

definition shows_newest :: "inventory_params set \<Rightarrow> ProjectionDocument \<Rightarrow> bool" where
  "shows_newest Q d \<longleftrightarrow> (\<forall>t. newest_type Q t (shown_type t d)) \<and> newest_event Q (shown_event d)"

lemma fst_aggregate_of [simp]: "fst (aggregate_of q) = q_eventInventoryVersion q"
  by (simp add: aggregate_of_def)

lemma newest_type_simps:
  "newest_type Q t None \<longleftrightarrow> (\<forall>q \<in> Q. q_ticketTypeId q \<noteq> t)"
  "newest_type Q t (Some x) \<longleftrightarrow> (\<exists>q \<in> Q. q_ticketTypeId q = t \<and> x = type_entry q)
     \<and> (\<forall>q \<in> Q. q_ticketTypeId q = t \<longrightarrow> q_inventoryVersion q \<le> pt_version x)"
  by (simp_all add: newest_type_def)

lemma newest_event_simps:
  "newest_event Q None \<longleftrightarrow> Q = {}"
  "newest_event Q (Some a) \<longleftrightarrow> (\<exists>q \<in> Q. a = aggregate_of q) \<and> (\<forall>q \<in> Q. q_eventInventoryVersion q \<le> fst a)"
  by (simp_all add: newest_event_def)

lemma consistent_types:
  "consistent Q \<Longrightarrow> p \<in> Q \<Longrightarrow> q \<in> Q \<Longrightarrow> q_ticketTypeId p = q_ticketTypeId q
     \<Longrightarrow> q_inventoryVersion p = q_inventoryVersion q \<Longrightarrow> type_entry p = type_entry q"
  unfolding consistent_def by blast

lemma consistent_events:
  "consistent Q \<Longrightarrow> p \<in> Q \<Longrightarrow> q \<in> Q \<Longrightarrow> q_eventInventoryVersion p = q_eventInventoryVersion q
     \<Longrightarrow> aggregate_of p = aggregate_of q"
  unfolding consistent_def by blast

lemma newest_not_corrupt:
  assumes "shows_newest Q d" "consistent (insert q Q)"
  shows "\<not> corrupts q d"
proof -
  have "x = type_entry q" if "shown_type (q_ticketTypeId q) d = Some x" "pt_version x = q_inventoryVersion q" for x
  proof -
    have "newest_type Q (q_ticketTypeId q) (Some x)" using assms(1) that(1) unfolding shows_newest_def by metis
    then obtain p where p: "p \<in> Q" "q_ticketTypeId p = q_ticketTypeId q" "x = type_entry p"
      unfolding newest_type_simps by blast
    with that(2) have "q_inventoryVersion p = q_inventoryVersion q" by simp
    from consistent_types [OF assms(2) _ _ p(2) this] p(1,3) show ?thesis by simp
  qed
  moreover have "a = aggregate_of q" if "shown_event d = Some a" "fst a = q_eventInventoryVersion q" for a
  proof -
    have "newest_event Q (Some a)" using assms(1) that(1) unfolding shows_newest_def by simp
    then obtain p where p: "p \<in> Q" "a = aggregate_of p" unfolding newest_event_simps by blast
    with that(2) have "q_eventInventoryVersion p = q_eventInventoryVersion q" by simp
    from consistent_events [OF assms(2) _ _ this] p show ?thesis by simp
  qed
  ultimately show ?thesis unfolding corrupts_def by blast
qed

lemma newest_type_insert:
  assumes "newest_type Q t shown"
  shows "newest_type (insert q Q) t (if t = q_ticketTypeId q then newer_type q shown else shown)"
proof (cases shown)
  case None
  with assms show ?thesis by (auto simp: newest_type_simps)
next
  case (Some x)
  show ?thesis
  proof (cases "t = q_ticketTypeId q \<and> pt_version x < q_inventoryVersion q")
    case True
    with assms show ?thesis unfolding Some newest_type_simps by (fastforce simp: newest_type_simps)
  next
    case False
    with assms have "newest_type (insert q Q) t (Some x)" unfolding Some newest_type_simps by auto
    with False Some show ?thesis by auto
  qed
qed

lemma newest_event_insert:
  assumes "newest_event Q shown"
  shows "newest_event (insert q Q) (newer_event q shown)"
proof (cases shown)
  case None
  with assms show ?thesis by (auto simp: newest_event_simps)
next
  case (Some a)
  show ?thesis
  proof (cases "fst a < q_eventInventoryVersion q")
    case True
    with assms show ?thesis unfolding Some by (fastforce simp: newest_event_simps)
  next
    case False
    with assms have "newest_event (insert q Q) (Some a)" unfolding Some newest_event_simps by auto
    with False Some show ?thesis by simp
  qed
qed

lemma shows_newest_insert:
  assumes "doc_ok d" "shows_newest Q d" "consistent (insert q Q)"
  shows "shows_newest (insert q Q) (step_doc (VersionGuard q) d)"
  using step_guard [OF assms(1) newest_not_corrupt [OF assms(2,3)]] assms(2)
    newest_type_insert [of Q _ _ q] newest_event_insert [of Q _ q]
  by (auto simp: shows_newest_def)

lemma delivered_Cons:
  "delivered index doc_id (op # ops) = (if hits index doc_id op then params_of op else []) @ delivered index doc_id ops"
  by (simp add: delivered_def)

lemma consistent_mono: "consistent Q \<Longrightarrow> P \<subseteq> Q \<Longrightarrow> consistent P"
  unfolding consistent_def by blast

lemma run_shows_newest:
  assumes "docs_ok c" "shows_newest Q (doc_at index doc_id c)" "consistent (Q \<union> set (delivered index doc_id ops))"
  shows "shows_newest (Q \<union> set (delivered index doc_id ops)) (doc_at index doc_id (fold perform_update ops c))"
  using assms
proof (induction ops arbitrary: c Q)
  case Nil
  then show ?case by (simp add: delivered_def)
next
  case (Cons op ops)
  define P where "P = (if hits index doc_id op then set (params_of op) else {})"
  have all: "Q \<union> set (delivered index doc_id (op # ops)) = (Q \<union> P) \<union> set (delivered index doc_id ops)"
    by (auto simp: P_def delivered_Cons)
  have d: "doc_ok (doc_at index doc_id c)" using Cons.prems(1) by (simp add: docs_ok_def)
  have "shows_newest (Q \<union> P) (doc_at index doc_id (perform_update op c))"
  proof (cases "hits index doc_id op")
    case True
    obtain reply i k body where o: "op = (reply, i, k, body)" by (cases op rule: update_ok.cases)
    show ?thesis
    proof (cases "\<exists>q. body = VersionGuard q")
      case True
      then obtain q where q: "body = VersionGuard q" ..
      have "Q \<union> P = insert q Q" using \<open>hits index doc_id op\<close> by (simp add: P_def o q)
      moreover have "consistent (insert q Q)"
        using Cons.prems(3) unfolding all \<open>Q \<union> P = insert q Q\<close> by (rule consistent_mono) blast
      ultimately show ?thesis
        unfolding doc_at_perform using shows_newest_insert [OF d Cons.prems(2)] \<open>hits index doc_id op\<close>
        by (simp add: o q)
    next
      case False
      then have "P = {}" by (cases body) (auto simp: P_def o)
      then show ?thesis
        unfolding doc_at_perform using step_unversioned [OF d, of body] False Cons.prems(2) \<open>hits index doc_id op\<close>
        by (simp add: o shows_newest_def)
    qed
  next
    case False
    then show ?thesis using Cons.prems(2) by (simp add: P_def doc_at_perform)
  qed
  from Cons.IH [OF docs_ok_perform [OF Cons.prems(1)] this] Cons.prems(3) show ?case by (simp add: all)
qed

lemma empty_shows_newest: "shows_newest {} empty_doc"
  by (simp add: shows_newest_def newest_type_def newest_event_def shown_defs empty_doc_def)

lemma newest_type_unique:
  assumes "newest_type Q t x" "newest_type Q t y" "consistent Q"
  shows "x = y"
proof (cases x)
  case None
  with assms(1,2) show ?thesis by (cases y) (auto simp: newest_type_simps)
next
  case (Some x')
  with assms(1) obtain p where p: "p \<in> Q" "q_ticketTypeId p = t" "x' = type_entry p"
    and px: "\<forall>q \<in> Q. q_ticketTypeId q = t \<longrightarrow> q_inventoryVersion q \<le> q_inventoryVersion p"
    unfolding Some newest_type_simps by auto
  with assms(2) obtain q where q: "q \<in> Q" "q_ticketTypeId q = t" "y = Some (type_entry q)"
    and qx: "\<forall>p \<in> Q. q_ticketTypeId p = t \<longrightarrow> q_inventoryVersion p \<le> q_inventoryVersion q"
    by (cases y) (auto simp: newest_type_simps)
  have "q_inventoryVersion p = q_inventoryVersion q" using p q px qx by (simp add: order_antisym)
  with consistent_types [OF assms(3) p(1) q(1)] p q Some show ?thesis by simp
qed

lemma newest_event_unique:
  assumes "newest_event Q x" "newest_event Q y" "consistent Q"
  shows "x = y"
proof (cases x)
  case None
  with assms(1,2) show ?thesis by (cases y) (auto simp: newest_event_simps)
next
  case (Some x')
  with assms(1) obtain p where p: "p \<in> Q" "x' = aggregate_of p"
    and px: "\<forall>q \<in> Q. q_eventInventoryVersion q \<le> q_eventInventoryVersion p"
    unfolding Some newest_event_simps by auto
  with assms(2) obtain q where q: "q \<in> Q" "y = Some (aggregate_of q)"
    and qx: "\<forall>p \<in> Q. q_eventInventoryVersion p \<le> q_eventInventoryVersion q"
    by (cases y) (auto simp: newest_event_simps)
  have "q_eventInventoryVersion p = q_eventInventoryVersion q" using p q px qx by (simp add: order_antisym)
  with consistent_events [OF assms(3) p(1) q(1)] p q Some show ?thesis by simp
qed

lemma newest_unique:
  assumes "shows_newest Q d" "shows_newest Q d'" "consistent Q"
  shows "shown_type t d = shown_type t d'" "shown_event d = shown_event d'"
  using newest_type_unique [OF _ _ assms(3)] newest_event_unique [OF _ _ assms(3)] assms(1,2)
  unfolding shows_newest_def by blast+


section \<open>Retries\<close>

lemma conflict_retry_last:
  assumes "conflict_retry op n s = (r, s')" "n \<le> MAX_CONFLICT_RETRIES"
  shows "\<exists>m s1. n \<le> m \<and> m \<le> MAX_CONFLICT_RETRIES \<and> op m s1 = (r, s')
    \<and> (\<forall>e. r = Inl e \<and> isVersionConflict e \<longrightarrow> m = MAX_CONFLICT_RETRIES)
    \<and> (\<forall>k. n \<le> k \<and> k < m \<longrightarrow> (\<exists>sk e sk'. op k sk = (Inl e, sk') \<and> isVersionConflict e))"
  using assms
proof (induction op n s arbitrary: r s' rule: conflict_retry.induct)
  case (1 op n s)
  obtain r1 s1 where o: "op n s = (r1, s1)" by fastforce
  show ?case
  proof (cases "\<exists>e. r1 = Inl e \<and> isVersionConflict e \<and> n < MAX_CONFLICT_RETRIES")
    case True
    then obtain e where e: "r1 = Inl e" "isVersionConflict e" "n < MAX_CONFLICT_RETRIES" by blast
    have "conflict_retry op (Suc n) s1 = (r, s')"
      using "1.prems"(1) e by (simp add: conflict_retry.simps [of op n s] o)
    from "1.IH" [OF o [symmetric] e(1) _ e(3) this] e obtain m s2 where m: "Suc n \<le> m" "m \<le> MAX_CONFLICT_RETRIES"
        "op m s2 = (r, s')" "\<forall>e. r = Inl e \<and> isVersionConflict e \<longrightarrow> m = MAX_CONFLICT_RETRIES"
      and before: "\<forall>k. Suc n \<le> k \<and> k < m \<longrightarrow> (\<exists>sk e sk'. op k sk = (Inl e, sk') \<and> isVersionConflict e)"
      by (auto simp: Suc_le_eq)
    have "\<exists>sk e sk'. op k sk = (Inl e, sk') \<and> isVersionConflict e" if "n \<le> k" "k < m" for k
      using that before o e(1,2) by (cases "k = n") (auto simp: Suc_le_eq)
    with m show ?thesis by (intro exI [of _ m] exI [of _ s2]) auto
  next
    case False
    then have "(r, s') = (r1, s1)"
      using "1.prems"(1) by (auto simp: conflict_retry.simps [of op n s] o split: sum.splits if_splits)
    with o False "1.prems"(2) show ?thesis by (intro exI [of _ n] exI [of _ s]) auto
  qed
qed

lemma conflict_retry_steps:
  assumes "\<And>s. R s s" "\<And>a b c. R a b \<Longrightarrow> R b c \<Longrightarrow> R a c" "\<And>k s. R s (mid k s)"
    and "\<And>k s. op k s = run k (mid k s)" "\<And>k s. R s (snd (run k s))"
    and "conflict_retry op n s = (r, s')"
  shows "\<exists>m s1. R s s1 \<and> run m s1 = (r, s') \<and> n \<le> m"
  using assms(6)
proof (induction n arbitrary: s rule: measure_induct_rule [where f = "\<lambda>n. MAX_CONFLICT_RETRIES - n"])
  case (less n)
  obtain r1 s1 where o: "run n (mid n s) = (r1, s1)" by fastforce
  then have op: "op n s = (r1, s1)" by (simp only: assms(4))
  have r: "R s (mid n s)" and rs: "R s s1" using assms(3) assms(2) [OF assms(3) assms(5)] o by (metis snd_conv)+
  show ?case
  proof (cases "\<exists>e. r1 = Inl e \<and> isVersionConflict e \<and> n < MAX_CONFLICT_RETRIES")
    case True
    then have "conflict_retry op (Suc n) s1 = (r, s')"
      using less.prems by (auto simp: conflict_retry.simps [of op n s] op)
    moreover have "MAX_CONFLICT_RETRIES - Suc n < MAX_CONFLICT_RETRIES - n" using True by auto
    ultimately obtain m s2 where "R s1 s2" "run m s2 = (r, s')" "Suc n \<le> m" using less.IH by blast
    then show ?thesis using assms(2) [OF rs] Suc_leD by blast
  next
    case False
    then have "(r, s') = (r1, s1)"
      using less.prems by (auto simp: conflict_retry.simps [of op n s] op split: sum.splits if_splits)
    with o r show ?thesis by (intro exI [of _ n] exI [of _ "mid n s"]) auto
  qed
qed

text \<open>The clusters updates of any writers can lead to.\<close>

definition search_reach :: "search_cluster \<Rightarrow> search_cluster \<Rightarrow> bool" where
  "search_reach c c' \<longleftrightarrow> (\<exists>ops. list_all update_ok ops \<and> c' = fold perform_update ops c)"

definition search_env_ok :: "search_env \<Rightarrow> bool" where
  "search_env_ok env \<longleftrightarrow> (\<forall>n c. search_reach c (os_others env n c))"

lemma search_reach_refl: "search_reach c c"
  unfolding search_reach_def by (intro exI [of _ "[]"]) simp

lemma search_reach_trans: "search_reach a b \<Longrightarrow> search_reach b c \<Longrightarrow> search_reach a c"
  unfolding search_reach_def by (elim exE conjE) (rule_tac x = "ops @ opsa" in exI, simp)

lemma client_update_reach: "body_ok body \<Longrightarrow> search_reach c (snd (client_update reply index doc_id body c))"
  unfolding search_reach_def by (intro exI [of _ "[(reply, index, doc_id, body)]"]) simp

lemma execute_reach: "body_ok body \<Longrightarrow> search_reach c (snd (execute_update index doc_id body c))"
  using client_update_reach [of body c UpAnswered index doc_id] by (simp add: client_update_def)

lemma search_reach_docs_ok: "search_reach c c' \<Longrightarrow> docs_ok c \<Longrightarrow> docs_ok c'"
  using doc_types.run_valid unfolding search_reach_def by blast

lemma retried_update_ran:
  assumes "search_env_ok env" "body_ok body" "retried_update env index doc_id body c = (r, c')"
  shows "search_reach c c'" and "r = Inr x \<Longrightarrow> \<exists>c1. search_reach c c1 \<and> execute_update index doc_id body c1 = (r, c')"
proof -
  have "\<exists>m c1. search_reach c c1 \<and> client_update (os_reply env m) index doc_id body c1 = (r, c') \<and> 0 \<le> m"
    by (rule conflict_retry_steps [where mid = "os_others env"
          and op = "\<lambda>n c. client_update (os_reply env n) index doc_id body (os_others env n c)"])
      (use assms search_reach_refl search_reach_trans client_update_reach in
        \<open>auto simp: search_env_ok_def retried_update_def runWithConflictRetry_def\<close>)
  then obtain m c1 where c1: "search_reach c c1" and u: "client_update (os_reply env m) index doc_id body c1 = (r, c')" by blast
  show "search_reach c c'" using search_reach_trans [OF c1 client_update_reach [OF assms(2)]] u by (metis snd_conv)
  show "\<exists>c1. search_reach c c1 \<and> execute_update index doc_id body c1 = (r, c')" if "r = Inr x"
    using c1 u that by (auto simp: client_update_def split: update_reply.splits)
qed


section \<open>The contract of the projection\<close>

text \<open>C14: whatever updates of any writers reach the documents of an index, in any order, repeated, lost or
  refused, a document that started empty shows the newest payload delivered to it: for each Ticket
  Type the entry with the highest version, and the Event aggregate with the highest version (also
  at the top level, where the old readers look), provided the payloads describe one source.\<close>

theorem projection_shows_newest:
  assumes "docs_ok c" "os_docs c index doc_id = None" "consistent (set (delivered index doc_id ops))"
  shows "shows_newest (set (delivered index doc_id ops)) (doc_at index doc_id (fold perform_update ops c))"
  using run_shows_newest [OF assms(1), of "{}" index doc_id ops] assms(2,3) empty_shows_newest
  by (simp add: doc_at_def)

text \<open>Order does not matter: two histories that delivered the same versioned payloads to a
  document, in any order and number, with any legacy and metadata updates in between, leave it
  showing the same Ticket Types and the same Event aggregate.\<close>

theorem projection_converges:
  assumes "docs_ok c" "os_docs c index doc_id = None" "consistent (set (delivered index doc_id ops))"
    and "set (delivered index doc_id ops') = set (delivered index doc_id ops)"
  shows "shown_type t (doc_at index doc_id (fold perform_update ops c)) =
      shown_type t (doc_at index doc_id (fold perform_update ops' c))
    \<and> shown_event (doc_at index doc_id (fold perform_update ops c)) =
      shown_event (doc_at index doc_id (fold perform_update ops' c))"
proof -
  have start: "shows_newest {} (doc_at index doc_id c)" using assms(2) empty_shows_newest by (simp add: doc_at_def)
  from run_shows_newest [OF assms(1) start, of ops] run_shows_newest [OF assms(1) start, of ops'] assms(3,4)
  have "shows_newest (set (delivered index doc_id ops)) (doc_at index doc_id (fold perform_update ops c))"
    "shows_newest (set (delivered index doc_id ops)) (doc_at index doc_id (fold perform_update ops' c))" by simp_all
  from newest_unique [OF this assms(3)] show ?thesis by blast
qed

definition sample_params :: "string \<Rightarrow> int \<Rightarrow> int \<Rightarrow> int \<Rightarrow> int \<Rightarrow> inventory_params" where
  "sample_params t v left ev eleft = \<lparr>q_eventId = ''e'', q_ticketTypeId = t, q_ticketTypeName = ''VIP'',
     q_ticketTypeTotalQuantity = 9, q_ticketTypeRemainingQuantity = left, q_inventoryVersion = v,
     q_eventTotalQuantity = 18, q_eventRemainingQuantity = eleft, q_eventInventoryVersion = ev\<rparr>"

definition sample_cluster :: search_cluster where
  "sample_cluster = \<lparr>os_docs = (\<lambda>_ _. None), os_mappings = (\<lambda>_. None)\<rparr>"

definition sample_update :: "inventory_params \<Rightarrow> search_op" where
  "sample_update q = (UpAnswered, EVENTS_INDEX, ''e'', VersionGuard q)"

definition sample_history :: "search_op list" where
  "sample_history = map sample_update [sample_params ''a'' 1 8 1 17, sample_params ''b'' 1 7 3 14, sample_params ''a'' 2 7 2 16]"

definition shuffled_history :: "search_op list" where
  "shuffled_history = (UpAnswered, EVENTS_INDEX, ''e'', LegacyInventory ''e'' 5) # rev sample_history
     @ [sample_update (sample_params ''a'' 1 8 1 17), (UpAnswered, EVENTS_INDEX, ''e'', LegacyInventory ''e'' 1)]"

lemma sample_cluster_ok: "docs_ok sample_cluster" "os_docs sample_cluster i k = None"
  by (simp_all add: docs_ok_def doc_at_def sample_cluster_def)

lemma sample_history_params:
  "delivered EVENTS_INDEX ''e'' sample_history
     = [sample_params ''a'' 1 8 1 17, sample_params ''b'' 1 7 3 14, sample_params ''a'' 2 7 2 16]"
  "set (delivered EVENTS_INDEX ''e'' shuffled_history) = set (delivered EVENTS_INDEX ''e'' sample_history)"
  by (auto simp: delivered_def sample_history_def shuffled_history_def sample_update_def)

lemma sample_history_consistent: "consistent (set (delivered EVENTS_INDEX ''e'' sample_history))"
  by (simp add: sample_history_params(1) consistent_def sample_params_def)

theorem projection_shows_newest_witness:
  "shows_newest (set (delivered EVENTS_INDEX ''e'' sample_history))
     (doc_at EVENTS_INDEX ''e'' (fold perform_update sample_history sample_cluster))"
  by (rule projection_shows_newest [OF sample_cluster_ok sample_history_consistent])

theorem projection_converges_witness:
  "shown_event (doc_at EVENTS_INDEX ''e'' (fold perform_update sample_history sample_cluster)) =
   shown_event (doc_at EVENTS_INDEX ''e'' (fold perform_update shuffled_history sample_cluster))"
  using projection_converges [OF sample_cluster_ok sample_history_consistent sample_history_params(2)] by blast

text \<open>A document covers a payload when it shows it or something newer.\<close>

definition covers :: "inventory_params \<Rightarrow> ProjectionDocument \<Rightarrow> bool" where
  "covers q d \<longleftrightarrow>
     (\<exists>x. shown_type (q_ticketTypeId q) d = Some x \<and> q_inventoryVersion q \<le> pt_version x
        \<and> (pt_version x = q_inventoryVersion q \<longrightarrow> x = type_entry q))
   \<and> (\<exists>a. shown_event d = Some a \<and> q_eventInventoryVersion q \<le> fst a
        \<and> (fst a = q_eventInventoryVersion q \<longrightarrow> a = aggregate_of q))"

text \<open>The same without the parameters of a script: a Type entry and an aggregate, or newer ones.\<close>

definition shows_or_newer :: "ProjectionTicketType \<Rightarrow> int \<Rightarrow> int \<Rightarrow> int \<Rightarrow> ProjectionDocument \<Rightarrow> bool" where
  "shows_or_newer x v q left d \<longleftrightarrow>
     (\<exists>y. shown_type (pt_id x) d = Some y \<and> (pt_version x < pt_version y \<or> y = x))
   \<and> (\<exists>a. shown_event d = Some a \<and> (v < fst a \<or> a = (v, Some q, Some left, jsint q, jsint left)))"

lemma covers_iff:
  "covers q d \<longleftrightarrow> shows_or_newer (type_entry q) (q_eventInventoryVersion q) (q_eventTotalQuantity q) (q_eventRemainingQuantity q) d"
  by (fastforce simp: covers_def shows_or_newer_def aggregate_of_def)

text \<open>No update removes a document, and a metadata or a legacy update that succeeds leaves one.\<close>

lemma execute_keeps_document:
  "os_docs c i k \<noteq> None \<Longrightarrow> os_docs (snd (execute_update index doc_id body c)) i k \<noteq> None"
  by (auto simp: execute_update_def split: sum.split prod.split ctx_op.split)

lemma reach_keeps_document:
  assumes "search_reach c c'" "os_docs c i k \<noteq> None"
  shows "os_docs c' i k \<noteq> None"
proof -
  have one: "os_docs c i k \<noteq> None \<Longrightarrow> os_docs (perform_update op c) i k \<noteq> None" for op c
    using execute_keeps_document [of c i k] by (cases op rule: update_ok.cases) (auto simp: client_update_def split: update_reply.split)
  have "os_docs c i k \<noteq> None \<Longrightarrow> os_docs (fold perform_update ops c) i k \<noteq> None" for ops c
    by (induction ops arbitrary: c) (simp_all add: one del: not_None_eq)
  with assms show ?thesis by (auto simp: search_reach_def)
qed

lemma execute_leaves_document:
  assumes "execute_update index doc_id body c = (Inr x, c')" "\<forall>q. body \<noteq> VersionGuard q"
  shows "os_docs c' index doc_id \<noteq> None"
proof (cases "os_docs c index doc_id")
  case None
  have "d_event_version empty_doc = None" by (simp add: empty_doc_def)
  with None assms show ?thesis
    by (cases body) (auto simp: execute_update_def LEGACY_INVENTORY_SCRIPT_def EVENT_METADATA_SCRIPT_def Let_def split: sum.splits)
next
  case (Some d)
  with execute_keeps_document [of c index doc_id index doc_id body] assms(1) show ?thesis by simp
qed

lemma step_covers:
  assumes "doc_ok d" "\<not> corrupts q d"
  shows "covers q (step_doc (VersionGuard q) d)"
proof -
  have "\<exists>x. newer_type q (shown_type (q_ticketTypeId q) d) = Some x \<and> q_inventoryVersion q \<le> pt_version x
      \<and> (pt_version x = q_inventoryVersion q \<longrightarrow> x = type_entry q)"
    using assms(2) by (cases "shown_type (q_ticketTypeId q) d") (auto simp: corrupts_def)
  moreover have "\<exists>a. newer_event q (shown_event d) = Some a \<and> q_eventInventoryVersion q \<le> fst a
      \<and> (fst a = q_eventInventoryVersion q \<longrightarrow> a = aggregate_of q)"
    using assms(2) by (cases "shown_event d") (auto simp: corrupts_def simp del: split_paired_Ex split_paired_All)
  ultimately show ?thesis unfolding covers_def step_guard [OF assms] by simp
qed

lemma covers_noop:
  assumes "doc_ok d" "covers q d"
  shows "INVENTORY_VERSION_GUARD_SCRIPT q d = Inr (CtxNoop, d)"
proof -
  from assms(2) obtain x a where
    x: "shown_type (q_ticketTypeId q) d = Some x" "q_inventoryVersion q \<le> pt_version x"
      "pt_version x = q_inventoryVersion q \<longrightarrow> x = type_entry q"
    and a: "shown_event d = Some a" "q_eventInventoryVersion q \<le> fst a"
      "fst a = q_eventInventoryVersion q \<longrightarrow> a = aggregate_of q"
    unfolding covers_def by blast
  obtain ts where ts: "d_ticket_types d = Some ts"
    using x(1) by (cases "d_ticket_types d") (simp_all add: shown_type_def)
  then have "guard_ticket_type q ts = Inr (False, ts)"
    using x by (auto simp: guard_ticket_type_def shown_type_def type_entry_eq)
  moreover have "guard_aggregate q d = Inr (False, d)"
    using a assms(1) by (auto simp: guard_aggregate_def shown_event_def doc_ok_def aggregate_of_def split: option.splits)
  moreover have same: "d\<lparr>d_ticket_types := Some ts\<rparr> = d" by (cases d) (use ts in simp)
  ultimately show ?thesis by (simp add: INVENTORY_VERSION_GUARD_SCRIPT_def ts same)
qed

lemma covers_later:
  assumes "docs_ok c" "body_ok (VersionGuard q)" "covers q (doc_at index doc_id c)" "search_reach c c'"
  shows "covers q (doc_at index doc_id c')"
proof -
  from assms(4) obtain ops where ops: "list_all update_ok ops" "c' = fold perform_update ops c"
    unfolding search_reach_def by blast
  note T = doc_types.run_revision_mono [OF TrueI ops(1) assms(1), of "(index, doc_id, q_ticketTypeId q)", folded ops(2)]
    doc_types.run_content_frozen [OF TrueI ops(1) assms(1), of "(index, doc_id, q_ticketTypeId q)", folded ops(2)]
  note E = doc_events.run_revision_mono [OF TrueI ops(1) assms(1), of "(index, doc_id)", folded ops(2)]
    doc_events.run_content_frozen [OF TrueI ops(1) assms(1), of "(index, doc_id)", folded ops(2)]
  from assms(3) obtain x a where
    x: "shown_type (q_ticketTypeId q) (doc_at index doc_id c) = Some x" "q_inventoryVersion q \<le> pt_version x"
      "pt_version x = q_inventoryVersion q \<longrightarrow> x = type_entry q"
    and a: "shown_event (doc_at index doc_id c) = Some a" "q_eventInventoryVersion q \<le> fst a"
      "fst a = q_eventInventoryVersion q \<longrightarrow> a = aggregate_of q"
    unfolding covers_def by blast
  have nonneg: "0 \<le> q_inventoryVersion q" "0 \<le> q_eventInventoryVersion q" using assms(2) by simp_all
  have "\<exists>y. shown_type (q_ticketTypeId q) (doc_at index doc_id c') = Some y \<and> q_inventoryVersion q \<le> pt_version y
      \<and> (pt_version y = q_inventoryVersion q \<longrightarrow> y = type_entry q)"
    using T x nonneg by (cases "shown_type (q_ticketTypeId q) (doc_at index doc_id c')")
      (auto simp: type_shown_version_def)
  moreover have "\<exists>b. shown_event (doc_at index doc_id c') = Some b \<and> q_eventInventoryVersion q \<le> fst b
      \<and> (fst b = q_eventInventoryVersion q \<longrightarrow> b = aggregate_of q)"
    using E a nonneg by (cases "shown_event (doc_at index doc_id c')") (auto simp: event_shown_version_def)
  ultimately show ?thesis unfolding covers_def by blast
qed

lemma execute_guard_ok:
  assumes "docs_ok c" "execute_update index doc_id (VersionGuard q) c = (Inr response, c1)"
  shows "\<not> corrupts q (doc_at index doc_id c)" "covers q (doc_at index doc_id c1)"
proof -
  have d: "doc_ok (doc_at index doc_id c)" using assms(1) by (simp add: docs_ok_def)
  show "\<not> corrupts q (doc_at index doc_id c)"
    using guard_script [OF d, of q] assms(2)
    by (auto simp: execute_update_def doc_at_def [symmetric] split: sum.splits)
  from step_covers [OF d this] assms(2) doc_at_execute [of index doc_id index doc_id "VersionGuard q" c]
  show "covers q (doc_at index doc_id c1)" by simp
qed

lemma execute_covered:
  assumes "docs_ok c" "covers q (doc_at index doc_id c)"
  shows "execute_update index doc_id (VersionGuard q) c = (Inr ''noop'', c)"
  using covers_noop [OF _ assms(2)] assms(1)
  by (simp add: execute_update_def docs_ok_def doc_at_def [symmetric])

text \<open>At-least-once delivery is harmless: a payload that was applied once is a no-op when it is
  delivered again, however much later and whatever other writers did in between; it is neither
  applied twice nor taken for corruption.\<close>

theorem redelivery_is_noop:
  assumes "docs_ok c" "execute_update index doc_id (VersionGuard q) c = (Inr response, c1)"
    and "body_ok (VersionGuard q)" "list_all update_ok ops" "c2 = fold perform_update ops c1"
  shows "execute_update index doc_id (VersionGuard q) c2 = (Inr ''noop'', c2)"
proof -
  have c1: "docs_ok c1" using search_reach_docs_ok [OF execute_reach [OF assms(3)] assms(1)] assms(2) by (metis snd_conv)
  have reach: "search_reach c1 c2" using assms(4,5) unfolding search_reach_def by blast
  from covers_later [OF c1 assms(3) execute_guard_ok(2) [OF assms(1,2)] reach]
  show ?thesis by (rule execute_covered [OF search_reach_docs_ok [OF reach c1]])
qed

definition sample_applied :: search_cluster where
  "sample_applied = snd (execute_update EVENTS_INDEX ''e'' (VersionGuard (sample_params ''a'' 1 8 1 17)) sample_cluster)"

theorem redelivery_is_noop_witness:
  "fst (execute_update EVENTS_INDEX ''e'' (VersionGuard (sample_params ''a'' 1 8 1 17))
     (fold perform_update sample_history sample_applied)) = Inr ''noop''"
proof -
  have ran: "fst (execute_update EVENTS_INDEX ''e'' (VersionGuard (sample_params ''a'' 1 8 1 17)) sample_cluster) = Inr ''created''"
    by code_simp
  have "list_all update_ok sample_history" "body_ok (VersionGuard (sample_params ''a'' 1 8 1 17))" by code_simp+
  with redelivery_is_noop [OF sample_cluster_ok(1), of EVENTS_INDEX "''e''" "sample_params ''a'' 1 8 1 17"
      "''created''" sample_applied sample_history, OF _ _ _ refl] ran
  show ?thesis by (simp add: sample_applied_def prod_eq_iff)
qed

text \<open>Contract corruption never enters the projection and is never silent: an update with a versioned
  payload is refused, with the document untouched, exactly when the document shows the same
  version of that Ticket Type or of the Event with other values.\<close>

theorem refused_iff_corrupt:
  assumes "docs_ok c"
  shows "(execute_update index doc_id (VersionGuard q) c = (Inl (OpenSearchError 400 ''illegal_argument_exception''), c)
       \<longleftrightarrow> corrupts q (doc_at index doc_id c))
    \<and> (is_ok (fst (execute_update index doc_id (VersionGuard q) c)) \<longleftrightarrow> \<not> corrupts q (doc_at index doc_id c))"
proof -
  have d: "doc_ok (doc_at index doc_id c)" using assms by (simp add: docs_ok_def)
  from guard_script [OF d, of q] show ?thesis
    by (auto simp: execute_update_def doc_at_def [symmetric] split: sum.splits ctx_op.splits)
qed

theorem refused_iff_corrupt_witness:
  "\<not> is_ok (fst (execute_update EVENTS_INDEX ''e'' (VersionGuard (sample_params ''a'' 1 7 1 17)) sample_applied))"
proof -
  have "docs_ok sample_applied"
    using search_reach_docs_ok [OF execute_reach sample_cluster_ok(1)] by (simp add: sample_applied_def sample_params_def)
  moreover have "shown_type ''a'' (doc_at EVENTS_INDEX ''e'' sample_applied) = Some (type_entry (sample_params ''a'' 1 8 1 17))"
    by code_simp
  then have "corrupts (sample_params ''a'' 1 7 1 17) (doc_at EVENTS_INDEX ''e'' sample_applied)"
    by (simp add: corrupts_def type_entry_def sample_params_def)
  ultimately show ?thesis using refused_iff_corrupt by blast
qed

text \<open>The writers of the old contract cannot roll the inventory back: legacy InventoryChanged events and
  event metadata, in any number and order, leave every Ticket Type entry and the versioned
  aggregate of every document as they are.\<close>

theorem unversioned_updates_keep_inventory:
  assumes "docs_ok c" "\<forall>op \<in> set ops. params_of op = []"
  shows "shown_type t (doc_at index doc_id (fold perform_update ops c)) = shown_type t (doc_at index doc_id c)
    \<and> shown_event (doc_at index doc_id (fold perform_update ops c)) = shown_event (doc_at index doc_id c)"
  using assms
proof (induction ops arbitrary: c)
  case Nil
  then show ?case by simp
next
  case (Cons op ops)
  obtain reply i k body where op: "op = (reply, i, k, body)" by (cases op rule: update_ok.cases)
  have "\<forall>q. body \<noteq> VersionGuard q" using Cons.prems(2) op by auto
  with step_unversioned [of "doc_at index doc_id c" body] Cons.prems(1)
  have "shown_type t (doc_at index doc_id (perform_update op c)) = shown_type t (doc_at index doc_id c)
    \<and> shown_event (doc_at index doc_id (perform_update op c)) = shown_event (doc_at index doc_id c)"
    unfolding doc_at_perform by (simp add: op docs_ok_def)
  with Cons.IH [OF docs_ok_perform [OF Cons.prems(1)], of op] Cons.prems(2) show ?case by simp
qed

theorem unversioned_updates_keep_inventory_witness:
  "shown_event (doc_at EVENTS_INDEX ''e'' (fold perform_update
     [(UpAnswered, EVENTS_INDEX, ''e'', LegacyInventory ''e'' 1)] sample_applied)) =
   shown_event (doc_at EVENTS_INDEX ''e'' sample_applied)"
proof -
  have "docs_ok sample_applied"
    using search_reach_docs_ok [OF execute_reach sample_cluster_ok(1)] by (simp add: sample_applied_def sample_params_def)
  from unversioned_updates_keep_inventory [OF this, of "[(UpAnswered, EVENTS_INDEX, ''e'', LegacyInventory ''e'' 1)]"]
  show ?thesis by simp
qed

text \<open>The retry loop always ends, after at most six attempts: the answer of an update is the answer of
  its last attempt, every attempt before it met a version conflict, and a version conflict is
  reported only when all six did.\<close>

theorem retry_is_bounded:
  "\<exists>m \<le> 5. \<exists>c1. client_update (os_reply env m) index doc_id body (os_others env m c1) = retried_update env index doc_id body c
    \<and> (\<forall>e. fst (retried_update env index doc_id body c) = Inl e \<and> isVersionConflict e \<longrightarrow> m = 5)
    \<and> (\<forall>k < m. \<exists>ck e. fst (client_update (os_reply env k) index doc_id body (os_others env k ck)) = Inl e
         \<and> isVersionConflict e)"
proof -
  obtain r c' where r: "retried_update env index doc_id body c = (r, c')" by fastforce
  from conflict_retry_last [OF r [unfolded retried_update_def runWithConflictRetry_def]] obtain m c1 where
    "m \<le> MAX_CONFLICT_RETRIES" "client_update (os_reply env m) index doc_id body (os_others env m c1) = (r, c')"
    "\<forall>e. r = Inl e \<and> isVersionConflict e \<longrightarrow> m = MAX_CONFLICT_RETRIES"
    "\<forall>k. k < m \<longrightarrow> (\<exists>ck e ck'. client_update (os_reply env k) index doc_id body (os_others env k ck) = (Inl e, ck')
       \<and> isVersionConflict e)"
    by auto
  then show ?thesis unfolding r MAX_CONFLICT_RETRIES_def
    by (intro exI [of _ m] conjI exI [of _ c1]) (simp, simp, simp, metis fst_conv)
qed

definition sample_contended :: search_env where
  "sample_contended = \<lparr>os_reply = (\<lambda>n. if n < 2 then UpRefused (OpenSearchError 409 ''version_conflict_engine_exception'') else UpAnswered),
     os_others = (\<lambda>_ c. c)\<rparr>"

theorem retry_is_bounded_witness:
  "\<exists>m \<le> 5. \<exists>c1. client_update (os_reply sample_contended m) EVENTS_INDEX ''e'' (LegacyInventory ''e'' 3) c1
     = retried_update sample_contended EVENTS_INDEX ''e'' (LegacyInventory ''e'' 3) sample_cluster"
proof -
  have "os_others sample_contended m c = c" for m c by (simp add: sample_contended_def)
  from retry_is_bounded [of sample_contended EVENTS_INDEX "''e''" "LegacyInventory ''e'' 3" sample_cluster, unfolded this]
  show ?thesis by blast
qed

section \<open>The index migration\<close>

lemma merge_properties_Inr:
  assumes "merge_properties old new = Inr m"
  shows "(\<forall>k ty. map_of old k = Some ty \<longrightarrow> map_of m k = Some ty) \<and> (\<forall>(k, ty) \<in> set new. map_of m k = Some ty)"
  using assms
proof (induction old new rule: merge_properties.induct)
  case (2 old n ty new)
  show ?case
  proof (cases "map_of old n")
    case None
    with 2 have ih: "\<forall>k ty'. map_of (old @ [(n, ty)]) k = Some ty' \<longrightarrow> map_of m k = Some ty'"
      "\<forall>(k, ty') \<in> set new. map_of m k = Some ty'" by simp_all
    from None have "map_of (old @ [(n, ty)]) n = Some ty" by (simp add: map_add_def)
    moreover have "map_of (old @ [(n, ty)]) k = Some ty'" if "map_of old k = Some ty'" for k ty'
      using that by (simp add: map_add_Some_iff map_add_def)
    ultimately show ?thesis using ih by auto
  next
    case (Some ty0)
    with 2 show ?thesis by (auto split: if_splits)
  qed
qed auto

lemma merge_properties_same: "\<forall>(n, ty) \<in> set new. map_of m n = Some ty \<Longrightarrow> merge_properties m new = Inr m"
  by (induction new) auto

text \<open>The index migration is additive and repeatable: it fails without changing anything, or it ends with
  every field of the projection mapped to its type, every field that was mapped before still
  mapped to its own type, and no document touched; running it again then changes nothing.\<close>

theorem index_migration_additive:
  assumes "ensureEventsIndex index c = (r, c')"
  shows "os_docs c' = os_docs c
    \<and> (case r of Inl e \<Rightarrow> c' = c
        | Inr _ \<Rightarrow> (\<exists>m. os_mappings c' index = Some m
            \<and> (\<forall>(n, ty) \<in> set EVENTS_INDEX_PROPERTIES. map_of m n = Some ty)
            \<and> (\<forall>old n ty. os_mappings c index = Some old \<longrightarrow> map_of old n = Some ty \<longrightarrow> map_of m n = Some ty))
          \<and> ensureEventsIndex index c' = (Inr (), c'))"
proof (cases "os_mappings c index")
  case None
  have "\<forall>(n, ty) \<in> set EVENTS_INDEX_PROPERTIES. map_of EVENTS_INDEX_PROPERTIES n = Some ty"
    by (simp add: EVENTS_INDEX_PROPERTIES_def)
  with None assms merge_properties_same [OF this] show ?thesis by (auto simp: ensureEventsIndex_def)
next
  case (Some old)
  show ?thesis
  proof (cases "merge_properties old EVENTS_INDEX_PROPERTIES")
    case (Inl e)
    with Some assms show ?thesis by (auto simp: ensureEventsIndex_def)
  next
    case (Inr m)
    note m = merge_properties_Inr [OF Inr]
    with Some Inr assms merge_properties_same [OF m [THEN conjunct2]] show ?thesis by (auto simp: ensureEventsIndex_def)
  qed
qed

theorem index_migration_additive_witness:
  "fst (ensureEventsIndex EVENTS_INDEX (snd (ensureEventsIndex EVENTS_INDEX
     (sample_cluster\<lparr>os_mappings := (\<lambda>_. Some [(''event_id'', Keyword), (''venue'', TextField)])\<rparr>)))) = Inr ()"
proof -
  define c where "c = sample_cluster\<lparr>os_mappings := (\<lambda>_. Some [(''event_id'', Keyword), (''venue'', TextField)])\<rparr>"
  have "fst (ensureEventsIndex EVENTS_INDEX c) = Inr ()" unfolding c_def by code_simp
  with index_migration_additive [of EVENTS_INDEX c "fst (ensureEventsIndex EVENTS_INDEX c)" "snd (ensureEventsIndex EVENTS_INDEX c)"]
  have "ensureEventsIndex EVENTS_INDEX (snd (ensureEventsIndex EVENTS_INDEX c)) = (Inr (), snd (ensureEventsIndex EVENTS_INDEX c))"
    by (simp add: prod_eq_iff)
  then show ?thesis by (simp add: c_def [symmetric])
qed

end
