(* ===== verification/ProjectionWorker.thy ===== *)
theory ProjectionWorker
  imports ProjectionStore
begin

text \<open>
  The search projection worker, src/worker/search-projection.worker.ts: it polls the queue, applies each message
  to the events index and deletes it. SQS, the clock and OpenSearch's answers are arguments; the
  trace spans and the log lines are left out.
\<close>

section \<open>Messages\<close>

text \<open>A body is absent or empty, is not JSON, or is what \<open>JSON.parse\<close> makes of it. \<open>sent_timestamp\<close> is the
  message attribute as \<open>Number\<close> reads it, NaN when it is missing.\<close>

datatype message_body = NoBody | Unparsable | Parsed jsval

record message =
  receipt :: string
  m_body :: message_body
  sent_timestamp :: jsnum

text \<open>
  The worker: its metrics, the search cluster it writes to, the flag \<open>stop\<close> clears, and the
  messages SQS has deleted on its request, oldest first.
\<close>

record worker = io +
  cluster :: search_cluster
  running :: bool
  deleted :: "message list"

record worker_env =
  w_url_text :: "jsval \<Rightarrow> string"
  w_search :: "message \<Rightarrow> search_env"
  w_delete :: "message \<Rightarrow> link"
  w_now :: "message \<Rightarrow> rat"

definition type_error :: exn where
  "type_error = PlainError ''TypeError''"

text \<open>Property access: null and undefined throw, other values without own fields have no such property.\<close>

definition get_prop :: "jsval \<Rightarrow> string \<Rightarrow> jsval result" where
  "get_prop v name = (case v of
       JNull \<Rightarrow> Inl type_error
     | JUndefined \<Rightarrow> Inl type_error
     | JObject fs \<Rightarrow> Inr (get_field fs name)
     | _ \<Rightarrow> Inr JUndefined)"

definition truthy :: "jsval \<Rightarrow> bool" where
  "truthy v = (case v of
       JUndefined \<Rightarrow> False | JNull \<Rightarrow> False | JBool b \<Rightarrow> b
     | JNumber n \<Rightarrow> n \<noteq> Fin 0 \<and> n \<noteq> NaN | JString s \<Rightarrow> s \<noteq> [] | _ \<Rightarrow> True)"

section \<open>Outcome metrics\<close>

text \<open>The table's own keys only: a detail-type that names a property of \<open>Object.prototype\<close> is not considered.\<close>

definition OPERATION_BY_DETAIL_TYPE :: "(string \<times> string) list" where
  "OPERATION_BY_DETAIL_TYPE = [(''InventoryChanged'', ''InventoryChanged''),
     (''EventListed'', ''EventMetadata''), (''EventUpdated'', ''EventMetadata'')]"

definition operationForDetailType :: "jsval \<Rightarrow> string option" where
  "operationForDetailType detailType = (case detailType of JString s \<Rightarrow> map_of OPERATION_BY_DETAIL_TYPE s | _ \<Rightarrow> None)"

definition outcome_name :: "apply_outcome \<Rightarrow> string" where
  "outcome_name r = (case r of Applied \<Rightarrow> ''applied'' | Stale \<Rightarrow> ''stale'' | LegacyIgnore \<Rightarrow> ''legacy_ignore'')"

definition emitOutcome :: "string \<Rightarrow> string \<Rightarrow> worker \<Rightarrow> worker" where
  "emitOutcome operation outcome w =
     emitMetric ''ProjectionOutcome'' [(''Operation'', operation), (''Outcome'', outcome)] w"

definition emitProcessingLag :: "rat \<Rightarrow> message \<Rightarrow> worker \<Rightarrow> worker" where
  "emitProcessingLag now m w =
     (case sent_timestamp m of
        Fin sent \<Rightarrow> if sent \<le> 0 then w
                    else if now - sent \<ge> 0 then emitMetric ''WorkerProcessingLagMs'' [] w else w
      | _ \<Rightarrow> w)"

section \<open>One message\<close>

definition event_metadata :: "jsval \<Rightarrow> (string \<Rightarrow> jsval) \<Rightarrow> EventMetadata" where
  "event_metadata eventId f =
     \<lparr>m_eventId = eventId, m_title = f ''title'', m_eventType = f ''eventType'', m_startsAt = f ''startsAt'',
      m_latitude = f ''latitude'', m_longitude = f ''longitude'',
      m_totalQuantity = f ''totalQuantity'', m_remainingQuantity = f ''remainingQuantity''\<rparr>"

definition detail_field :: "jsval \<Rightarrow> string \<Rightarrow> jsval" where
  "detail_field detail name = (case detail of JObject fs \<Rightarrow> get_field fs name | _ \<Rightarrow> JUndefined)"

definition processEnvelope ::
    "(jsval \<Rightarrow> string) \<Rightarrow> search_env \<Rightarrow> jsval \<Rightarrow> jsval \<Rightarrow> worker \<Rightarrow> unit result \<times> worker" where
  "processEnvelope url_text env detailType detail w =
     (if detailType = JString ''InventoryChanged''
      then (case parseInventoryChangedDetail detail of
          Inl e \<Rightarrow> (Inl e, w)
        | Inr parsed \<Rightarrow>
            (case applyParsedInventoryChanged env EVENTS_INDEX parsed (cluster w) of
               (Inl e, c) \<Rightarrow> (Inl e, w\<lparr>cluster := c\<rparr>)
             | (Inr outcome, c) \<Rightarrow> (Inr (), emitOutcome (the (operationForDetailType detailType))
                   (outcome_name outcome) (w\<lparr>cluster := c\<rparr>))))
      else (case get_prop detail ''eventId'' of
          Inl e \<Rightarrow> (Inl e, w)
        | Inr eventId \<Rightarrow>
            if \<not> truthy eventId then (Inr (), w)
            else if detailType = JString ''EventListed'' \<or> detailType = JString ''EventUpdated''
            then (case applyEventMetadata url_text env EVENTS_INDEX (event_metadata eventId (detail_field detail)) (cluster w) of
                (Inl e, c) \<Rightarrow> (Inl e, w\<lparr>cluster := c\<rparr>)
              | (Inr _, c) \<Rightarrow> (Inr (), emitOutcome (the (operationForDetailType detailType)) ''applied'' (w\<lparr>cluster := c\<rparr>)))
            else (Inr (), w)))"

definition handleMessage :: "worker_env \<Rightarrow> message \<Rightarrow> worker \<Rightarrow> unit result \<times> worker" where
  "handleMessage env m w =
     (case m_body m of
        NoBody \<Rightarrow> (Inr (), w)
      | Unparsable \<Rightarrow> (Inl (PlainError ''SyntaxError''), w)
      | Parsed envelope \<Rightarrow>
          (case (get_prop envelope ''detail'', get_prop envelope ''detail-type'') of
             (Inr detail, Inr detailType) \<Rightarrow>
               (case processEnvelope (w_url_text env) (w_search env m) detailType detail w of
                  (Inl e, w') \<Rightarrow> (Inl e, case operationForDetailType detailType of
                       Some operation \<Rightarrow> emitOutcome operation ''error'' w' | None \<Rightarrow> w')
                | (Inr _, w') \<Rightarrow> (Inr (), w'))
           | _ \<Rightarrow> (Inl type_error, w)))"

section \<open>Polling\<close>

definition delete_message :: "message \<Rightarrow> worker \<Rightarrow> unit \<times> worker" where
  "delete_message m w = ((), w\<lparr>deleted := deleted w @ [m]\<rparr>)"

text \<open>The loop of \<open>pollOnce\<close> over the received messages: the first exception leaves the rest to a later poll.\<close>

fun process_batch :: "worker_env \<Rightarrow> message list \<Rightarrow> worker \<Rightarrow> unit result \<times> worker" where
  "process_batch env [] w = (Inr (), w)"
| "process_batch env (m # ms) w =
     (case handleMessage env m w of
        (Inl e, w1) \<Rightarrow> (Inl e, w1)
      | (Inr _, w1) \<Rightarrow>
          (case via (w_delete env m) (delete_message m) w1 of
             (None, w2) \<Rightarrow> (Inl (PlainError ''NetworkingError''), w2)
           | (Some _, w2) \<Rightarrow> process_batch env ms (emitProcessingLag (w_now env m) m w2)))"

definition pollOnce :: "worker_env \<Rightarrow> message list result \<Rightarrow> worker \<Rightarrow> unit result \<times> worker" where
  "pollOnce env received w =
     (case received of Inl e \<Rightarrow> (Inl e, w) | Inr ms \<Rightarrow> process_batch env ms w)"

definition stop :: "worker \<Rightarrow> worker" where
  "stop w = w\<lparr>running := False\<rparr>"





section \<open>What a handled message leaves behind\<close>

text \<open>The versioned payload an InventoryChanged message carries.\<close>

definition change_of :: "message \<Rightarrow> ParsedInventoryChanged result option" where
  "change_of m = (case m_body m of
       Parsed (JObject fs) \<Rightarrow> if get_field fs ''detail-type'' = JString ''InventoryChanged''
                              then Some (parseInventoryChangedDetail (get_field fs ''detail'')) else None
     | _ \<Rightarrow> None)"





definition worker_step_ok :: "worker \<Rightarrow> worker \<Rightarrow> bool" where
  "worker_step_ok w w' \<longleftrightarrow> search_reach (cluster w) (cluster w')"


lemma worker_step_trans: "worker_step_ok a b \<Longrightarrow> worker_step_ok b c \<Longrightarrow> worker_step_ok a c"
  unfolding worker_step_ok_def by (rule search_reach_trans)

lemma worker_frames [simp]:
  "cluster (emitOutcome x y w) = cluster w" "deleted (emitOutcome x y w) = deleted w"
  "running (emitOutcome x y w) = running w"
  "cluster (emitProcessingLag now m w) = cluster w" "deleted (emitProcessingLag now m w) = deleted w"
  "cluster (stop w) = cluster w" "deleted (stop w) = deleted w"
  by (simp_all add: emitOutcome_def emitProcessingLag_def emitMetric_def stop_def split: jsnum.split)




















section \<open>The contract of the worker\<close>


lemma handleMessage_deleted: "deleted (snd (handleMessage env m w)) = deleted w"
  unfolding handleMessage_def processEnvelope_def
  by (auto split: message_body.split sum.split prod.split option.split)

text \<open>Messages are deleted in the order they were received: after a poll the deleted messages are the
  old ones followed by a prefix of the batch, and by the whole batch when the poll ended without
  an exception; nothing is skipped over.\<close>

theorem deletes_follow_the_batch:
  "\<exists>pre rest. ms = pre @ rest \<and> deleted (snd (pollOnce env (Inr ms) w)) = deleted w @ pre
     \<and> (is_ok (fst (pollOnce env (Inr ms) w)) \<longrightarrow> rest = [])"
  unfolding pollOnce_def sum.case
proof (induction ms arbitrary: w)
  case Nil
  then show ?case by simp
next
  case (Cons m ms)
  obtain r w1 where h: "handleMessage env m w = (r, w1)" by fastforce
  have d: "deleted w1 = deleted w" using handleMessage_deleted [of env m w] h by simp
  show ?case
  proof (cases "is_ok r \<and> w_delete env m \<noteq> LostRequest")
    case False
    then have "\<not> is_ok (fst (process_batch env (m # ms) w)) \<and> deleted (snd (process_batch env (m # ms) w)) = deleted w"
      using h d by (cases r) auto
    then show ?thesis by (intro exI [of _ "[]"] exI [of _ "m # ms"]) simp
  next
    case True
    show ?thesis
    proof (cases "w_delete env m")
      case Delivered
      define w2 where "w2 = emitProcessingLag (w_now env m) m (w1\<lparr>deleted := deleted w1 @ [m]\<rparr>)"
      have go: "process_batch env (m # ms) w = process_batch env ms w2"
        using h True Delivered by (cases r) (simp_all add: delete_message_def w2_def)
      obtain pre rest where "ms = pre @ rest" "deleted (snd (process_batch env ms w2)) = deleted w2 @ pre"
        "is_ok (fst (process_batch env ms w2)) \<longrightarrow> rest = []" using Cons.IH by blast
      then show ?thesis unfolding go by (intro exI [of _ "m # pre"] exI [of _ rest]) (simp add: w2_def d)
    next
      case LostReply
      then have "\<not> is_ok (fst (process_batch env (m # ms) w))
          \<and> deleted (snd (process_batch env (m # ms) w)) = deleted w @ [m]"
        using h d True by (cases r) (auto simp: delete_message_def)
      then show ?thesis by (intro exI [of _ "[m]"] exI [of _ ms]) simp
    qed (use True in simp)
  qed
qed

section \<open>Progress\<close>

definition calm_search :: search_env where
  "calm_search = \<lparr>os_reply = (\<lambda>_. UpAnswered), os_others = (\<lambda>_ c. c)\<rparr>"

definition calm_worker_env :: worker_env where
  "calm_worker_env = \<lparr>w_url_text = (\<lambda>_. []), w_search = (\<lambda>_. calm_search), w_delete = (\<lambda>_. Delivered), w_now = (\<lambda>_. 0)\<rparr>"

lemma calm_retried_update:
  "fst (execute_update index k body c) = Inr x \<Longrightarrow> retried_update calm_search index k body c = execute_update index k body c"
  by (auto simp: retried_update_def runWithConflictRetry_def conflict_retry.simps [of _ 0] calm_search_def client_update_def
      split: prod.splits sum.splits)

lemma calm_versioned:
  assumes "docs_ok (cluster w)" "change_of m = Some (Inr (Versioned p))"
    and "\<not> corrupts (buildVersionedInventoryScriptParams p) (doc_at EVENTS_INDEX (vp_eventId p) (cluster w))"
  shows "\<exists>w1. handleMessage calm_worker_env m w = (Inr (), w1) \<and> deleted w1 = deleted w
    \<and> cluster w1 = snd (execute_update EVENTS_INDEX (vp_eventId p) (VersionGuard (buildVersionedInventoryScriptParams p)) (cluster w))"
proof -
  let ?q = "buildVersionedInventoryScriptParams p"
  obtain fs where fs: "m_body m = Parsed (JObject fs)" "get_field fs ''detail-type'' = JString ''InventoryChanged''"
    "parseInventoryChangedDetail (get_field fs ''detail'') = Inr (Versioned p)"
    using assms(2) by (auto simp: change_of_def split: message_body.splits jsval.splits if_splits)
  have "doc_ok (doc_at EVENTS_INDEX (vp_eventId p) (cluster w))" using assms(1) by (simp add: docs_ok_def)
  from guard_script [OF this, of ?q] assms(3)
  have "\<exists>x. fst (execute_update EVENTS_INDEX (vp_eventId p) (VersionGuard ?q) (cluster w)) = Inr x"
    by (auto simp: execute_update_def doc_at_def [symmetric] split: sum.splits ctx_op.splits)
  then obtain x where x: "fst (execute_update EVENTS_INDEX (vp_eventId p) (VersionGuard ?q) (cluster w)) = Inr x" ..
  define c where "c = snd (execute_update EVENTS_INDEX (vp_eventId p) (VersionGuard ?q) (cluster w))"
  have "retried_update calm_search EVENTS_INDEX (vp_eventId p) (VersionGuard ?q) (cluster w) = (Inr x, c)"
    using calm_retried_update [OF x] x by (simp add: c_def prod_eq_iff)
  then show ?thesis
    unfolding c_def [symmetric] using fs
    by (simp add: handleMessage_def get_prop_def processEnvelope_def calm_worker_env_def applyParsedInventoryChanged_def
        applyVersionedInventoryChanged_def)
qed

text \<open>The params the messages of a batch carry for one Event.\<close>

fun batch_params :: "string \<Rightarrow> message list \<Rightarrow> inventory_params set" where
  "batch_params e [] = {}"
| "batch_params e (m # ms) = (case change_of m of
      Some (Inr (Versioned p)) \<Rightarrow> if vp_eventId p = e then insert (buildVersionedInventoryScriptParams p) (batch_params e ms)
                                  else batch_params e ms
    | _ \<Rightarrow> batch_params e ms)"

definition is_versioned :: "message \<Rightarrow> bool" where
  "is_versioned m = (case change_of m of Some (Inr (Versioned p)) \<Rightarrow> True | _ \<Rightarrow> False)"

lemma healthy_batch:
  assumes "docs_ok (cluster w)" "list_all is_versioned ms"
    and "\<forall>e. shows_newest (Q e) (doc_at EVENTS_INDEX e (cluster w))" "\<forall>e. consistent (Q e \<union> batch_params e ms)"
  shows "fst (process_batch calm_worker_env ms w) = Inr () \<and> deleted (snd (process_batch calm_worker_env ms w)) = deleted w @ ms
    \<and> (\<forall>e. shows_newest (Q e \<union> batch_params e ms) (doc_at EVENTS_INDEX e (cluster (snd (process_batch calm_worker_env ms w)))))"
  using assms
proof (induction ms arbitrary: w Q)
  case Nil
  then show ?case by simp
next
  case (Cons m ms)
  obtain p where p: "change_of m = Some (Inr (Versioned p))"
    using Cons.prems(2) by (auto simp: is_versioned_def split: option.splits sum.splits ParsedInventoryChanged.splits)
  define q where "q = buildVersionedInventoryScriptParams p"
  define k where "k = vp_eventId p"
  define Q' where "Q' = (\<lambda>e. if e = k then insert q (Q e) else Q e)"
  have batch: "Q e \<union> batch_params e (m # ms) = Q' e \<union> batch_params e ms" for e
    by (auto simp: p Q'_def q_def k_def)
  have d: "doc_ok (doc_at EVENTS_INDEX e (cluster w))" for e using Cons.prems(1) by (simp add: docs_ok_def)
  have con: "consistent (insert q (Q k))"
    using Cons.prems(4) [rule_format, of k] unfolding batch by (rule consistent_mono) (auto simp: Q'_def)
  have nc: "\<not> corrupts q (doc_at EVENTS_INDEX k (cluster w))" by (rule newest_not_corrupt [OF Cons.prems(3) [rule_format] con])
  from calm_versioned [OF Cons.prems(1) p nc [unfolded q_def k_def]] obtain w1 where
    w1: "handleMessage calm_worker_env m w = (Inr (), w1)" "deleted w1 = deleted w"
      "cluster w1 = snd (execute_update EVENTS_INDEX k (VersionGuard q) (cluster w))"
    unfolding q_def k_def by blast
  define w2 where "w2 = emitProcessingLag (w_now calm_worker_env m) m (w1\<lparr>deleted := deleted w1 @ [m]\<rparr>)"
  have go: "process_batch calm_worker_env (m # ms) w = process_batch calm_worker_env ms w2"
    using w1(1) by (simp add: delete_message_def w2_def calm_worker_env_def)
  have w2: "cluster w2 = cluster w1" "deleted w2 = deleted w @ [m]" by (simp_all add: w2_def w1(2))
  have doc: "doc_at EVENTS_INDEX e (cluster w2) = (if e = k then step_doc (VersionGuard q) (doc_at EVENTS_INDEX e (cluster w))
      else doc_at EVENTS_INDEX e (cluster w))" for e
    by (simp add: w2 w1(3) doc_at_execute)
  have "docs_ok (cluster w2)" unfolding w2 w1(3) docs_ok_def using Cons.prems(1)
    by (simp add: doc_at_execute docs_ok_def step_doc_ok)
  moreover have "\<forall>e. shows_newest (Q' e) (doc_at EVENTS_INDEX e (cluster w2))"
    unfolding doc Q'_def using Cons.prems(3) shows_newest_insert [OF d _ con] by auto
  moreover have "\<forall>e. consistent (Q' e \<union> batch_params e ms)" using Cons.prems(4) unfolding batch .
  ultimately have "fst (process_batch calm_worker_env ms w2) = Inr ()
      \<and> deleted (snd (process_batch calm_worker_env ms w2)) = deleted w2 @ ms
      \<and> (\<forall>e. shows_newest (Q' e \<union> batch_params e ms) (doc_at EVENTS_INDEX e (cluster (snd (process_batch calm_worker_env ms w2)))))"
    using Cons.prems(2) by (intro Cons.IH) simp_all
  then show ?case unfolding go batch w2(2) by simp
qed

text \<open>C16: a healthy system makes progress: when OpenSearch and SQS answer and the versioned payloads of a
  batch describe one source, the poll ends without an exception, deletes the whole batch, and
  every document it touched shows the newest of what it was ever sent.\<close>

theorem healthy_batch_drains:
  assumes "docs_ok (cluster w)" "list_all is_versioned ms"
    and "\<forall>e. shows_newest (Q e) (doc_at EVENTS_INDEX e (cluster w))" "\<forall>e. consistent (Q e \<union> batch_params e ms)"
    and "pollOnce calm_worker_env (Inr ms) w = (r, w')"
  shows "r = Inr () \<and> deleted w' = deleted w @ ms
    \<and> (\<forall>e. shows_newest (Q e \<union> batch_params e ms) (doc_at EVENTS_INDEX e (cluster w')))"
  using healthy_batch [OF assms(1-4)] assms(5) by (simp add: pollOnce_def)

definition sample_message :: message where
  "sample_message = \<lparr>receipt = ''r1'', m_body = Parsed (JObject
     [(''detail-type'', JString ''InventoryChanged''), (''detail'', JObject (payload_fields sample_payload))]),
     sent_timestamp = NaN\<rparr>"

definition broken_message :: message where
  "broken_message = \<lparr>receipt = ''r2'', m_body = Parsed (JObject
     [(''detail-type'', JString ''InventoryChanged''), (''detail'', JObject [(''eventId'', JNull)])]),
     sent_timestamp = NaN\<rparr>"

definition sample_worker :: worker where
  "sample_worker = \<lparr>metrics = [], cluster = sample_cluster, running = True, deleted = []\<rparr>"

lemma sample_change: "change_of sample_message = Some (Inr (Versioned sample_payload))"
  using parse_payload_fields [OF sample_payload_wf, of "[]"] by (simp add: change_of_def sample_message_def)

lemma broken_change: "change_of broken_message = Some (Inl (InventoryEventContractError ''InventoryChanged detail has missing or invalid eventId''))"
  by (simp add: change_of_def broken_message_def parseInventoryChangedDetail_def Let_def isUuidString_def)

lemma sample_worker_ok: "docs_ok (cluster sample_worker)" "deleted sample_worker = []"
  using sample_cluster_ok(1) by (simp_all add: sample_worker_def)

lemma sample_start_newest: "shows_newest {} (doc_at EVENTS_INDEX e (cluster sample_worker))"
  using empty_shows_newest by (simp add: sample_worker_def sample_cluster_def doc_at_def)

lemma sample_batch_consistent: "consistent ({} \<union> batch_params e [sample_message])"
  by (simp add: sample_change consistent_def)


definition sample_poll :: "unit result \<times> worker" where
  "sample_poll = pollOnce calm_worker_env (Inr [sample_message]) sample_worker"

theorem healthy_batch_drains_witness: "fst sample_poll = Inr () \<and> deleted (snd sample_poll) = [sample_message]"
proof -
  have "list_all is_versioned [sample_message]" by (simp add: is_versioned_def sample_change)
  from healthy_batch_drains [OF sample_worker_ok(1) this, of "\<lambda>_. {}" "fst sample_poll" "snd sample_poll"]
  show ?thesis using sample_start_newest sample_batch_consistent sample_worker_ok(2)
    by (simp add: sample_poll_def)
qed

theorem deletes_follow_the_batch_witness:
  "\<exists>pre rest. [sample_message, broken_message] = pre @ rest
     \<and> deleted (snd (pollOnce calm_worker_env (Inr [sample_message, broken_message]) sample_worker)) = pre"
  using deletes_follow_the_batch [of "[sample_message, broken_message]" calm_worker_env sample_worker] sample_worker_ok(2)
  by auto






end
