(* ===== verification/RateLimit.thy ===== *)
theory RateLimit
  imports InventoryCache
begin

text \<open>
  The rate limiter of the auth and purchase endpoints, src/auth/rate-limit.service.ts: fixed windows counted in
  Valkey, one counter per client address and one per second key, fail-open when Valkey does not
  answer. The environment variables are given as \<open>Number\<close> reads them, \<open>None\<close> when unset or empty.
\<close>

section \<open>Configuration\<close>

datatype RateLimitedEndpoint = Signup | Login | Refresh | PurchaseEndpoint

definition endpoint_name :: "RateLimitedEndpoint \<Rightarrow> string" where
  "endpoint_name e = (case e of Signup \<Rightarrow> ''signup'' | Login \<Rightarrow> ''login'' | Refresh \<Rightarrow> ''refresh''
                              | PurchaseEndpoint \<Rightarrow> ''purchase'')"

record RateLimitSubject =
  sub_ip :: "string option"
  sub_secondary :: "string option"

type_synonym number_env = "string \<Rightarrow> jsnum option"

definition readPositiveIntEnv :: "number_env \<Rightarrow> string \<Rightarrow> int \<Rightarrow> int" where
  "readPositiveIntEnv env name fallback =
     (case env name of
        None \<Rightarrow> fallback
      | Some v \<Rightarrow> if \<not> isInteger (JNumber v) \<or> number_value (JNumber v) \<le> 0 then fallback
                  else number_value (JNumber v))"

definition DEFAULT_WINDOW_SECONDS :: int where
  "DEFAULT_WINDOW_SECONDS = 15 * 60"

text \<open>The limit for the address and the limit for the second key.\<close>

definition DEFAULT_LIMITS :: "RateLimitedEndpoint \<Rightarrow> int \<times> int" where
  "DEFAULT_LIMITS e = (case e of Signup \<Rightarrow> (10, 10) | Login \<Rightarrow> (20, 10) | Refresh \<Rightarrow> (60, 30)
                               | PurchaseEndpoint \<Rightarrow> (300, 10))"

definition upper_char :: "char \<Rightarrow> char" where
  "upper_char c = (let n = (of_char c :: nat) in if 97 \<le> n \<and> n \<le> 122 then char_of (n - 32) else c)"

definition toUpperCase :: "string \<Rightarrow> string" where
  "toUpperCase s = map upper_char s"

definition capitalize :: "string \<Rightarrow> string" where
  "capitalize s = (case s of [] \<Rightarrow> [] | c # cs \<Rightarrow> upper_char c # cs)"

section \<open>The check\<close>

definition INCR_WITH_EXPIRE_SCRIPT :: "string \<Rightarrow> int \<Rightarrow> valkey \<Rightarrow> (int \<times> int) \<times> valkey" where
  "INCR_WITH_EXPIRE_SCRIPT key window s =
     (let s1 = vk_incr key s;
          current = (case vk_get key s1 of None \<Rightarrow> 0 | Some v \<Rightarrow> v);
          s2 = (if current = 1 then vk_expire key window s1 else s1)
      in ((current, vk_ttl key s2), s2))"

definition present :: "string option \<Rightarrow> string option" where
  "present v = (case v of Some s \<Rightarrow> if s = [] then None else Some s | None \<Rightarrow> None)"

definition limit_checks :: "number_env \<Rightarrow> RateLimitedEndpoint \<Rightarrow> RateLimitSubject \<Rightarrow> (string \<times> int) list" where
  "limit_checks env endpoint subject =
     (case present (sub_ip subject) of
        None \<Rightarrow> []
      | Some ip \<Rightarrow> [(''ratelimit:'' @ endpoint_name endpoint @ '':ip:'' @ ip,
           readPositiveIntEnv env (''AUTH_RATE_LIMIT_'' @ toUpperCase (endpoint_name endpoint) @ ''_IP'')
             (fst (DEFAULT_LIMITS endpoint)))])
   @ (case present (sub_secondary subject) of
        None \<Rightarrow> []
      | Some key \<Rightarrow> [(''ratelimit:'' @ endpoint_name endpoint @ '':sub:'' @ key,
           readPositiveIntEnv env (''AUTH_RATE_LIMIT_'' @ toUpperCase (endpoint_name endpoint) @ ''_SECONDARY'')
             (snd (DEFAULT_LIMITS endpoint)))])"

text \<open>The loop over the checks: \<open>None\<close> is the return of its catch block.\<close>

fun run_checks ::
    "(nat \<Rightarrow> link) \<Rightarrow> nat \<Rightarrow> int \<Rightarrow> (string \<times> int) list \<Rightarrow> int \<Rightarrow> 'a cache_io_scheme \<Rightarrow> int option \<times> 'a cache_io_scheme" where
  "run_checks net n window [] retryAfter w = (Some retryAfter, w)"
| "run_checks net n window ((key, limit) # checks) retryAfter w =
     (case client_eval (net n) (INCR_WITH_EXPIRE_SCRIPT key window) w of
        (None, w') \<Rightarrow> (None, w')
      | (Some (count, ttl), w') \<Rightarrow>
          run_checks net (Suc n) window checks
            (if count > limit then max retryAfter (if ttl > 0 then ttl else window) else retryAfter) w')"

definition window_seconds :: "number_env \<Rightarrow> int" where
  "window_seconds env = readPositiveIntEnv env ''AUTH_RATE_LIMIT_WINDOW_SECONDS'' DEFAULT_WINDOW_SECONDS"

definition enforce ::
    "number_env \<Rightarrow> (nat \<Rightarrow> link) \<Rightarrow> RateLimitedEndpoint \<Rightarrow> RateLimitSubject \<Rightarrow> 'a cache_io_scheme
       \<Rightarrow> unit result \<times> 'a cache_io_scheme" where
  "enforce env net endpoint subject w =
     (if \<not> client_enabled w then (Inr (), w)
      else (case run_checks net 0 (window_seconds env) (limit_checks env endpoint subject) 0 w of
          (None, w') \<Rightarrow> (Inr (), w')
        | (Some retryAfter, w') \<Rightarrow>
            if retryAfter > 0
            then (Inl (HttpException 429 ''too many requests'' retryAfter),
                  emitMetric (capitalize (endpoint_name endpoint) @ ''RateLimited'') [] w')
            else (Inr (), w')))"

definition extractRetryAfterSeconds :: "exn \<Rightarrow> int option" where
  "extractRetryAfterSeconds e = (case e of HttpException status msg retryAfter \<Rightarrow> Some retryAfter | _ \<Rightarrow> None)"

section \<open>One counter\<close>

definition cval :: "string \<Rightarrow> valkey \<Rightarrow> int" where
  "cval k s = (case vk_get k s of None \<Rightarrow> 0 | Some v \<Rightarrow> v)"

text \<open>A live counter has counted, and ends with its window.\<close>

definition timed :: "int \<Rightarrow> string \<Rightarrow> valkey \<Rightarrow> bool" where
  "timed window k s \<longleftrightarrow> (\<forall>v. vk_get k s = Some v \<longrightarrow> 1 \<le> v \<and> (\<exists>d. deadline s k = Some d \<and> d \<le> clock s + window))"

lemma vk_get_expire: "0 < window \<Longrightarrow> vk_get k' (vk_expire k window s) = vk_get k' s"
  by (auto simp: vk_expire_def vk_get_def expired_def vk_exists_def split: option.splits if_splits)

lemma deadline_incrby:
  "deadline (vk_incrby k n s) k' = (if k' = k \<and> vk_get k s = None then None else deadline s k')"
  by (auto simp: vk_incrby_def vk_set_def split: option.split)

lemma deadline_expire:
  "deadline (vk_expire k window s) k' = (if k' = k \<and> vk_get k s \<noteq> None then Some (clock s + window) else deadline s k')"
  by (auto simp: vk_expire_def vk_exists_def)

lemma live_deadline: "vk_get k s = Some v \<Longrightarrow> deadline s k = Some d \<Longrightarrow> clock s < d"
  by (simp add: vk_get_def expired_def split: if_splits)

text \<open>The script on its own counter and on the others.\<close>

lemma script_counts:
  assumes "0 < window" "INCR_WITH_EXPIRE_SCRIPT k window s = ((count, ttl), s')"
  shows "count = cval k s + 1" "vk_get k s' = Some count" "clock s' = clock s"
    and "k' \<noteq> k \<Longrightarrow> vk_get k' s' = vk_get k' s \<and> deadline s' k' = deadline s k'"
    and "deadline s' k = (if cval k s = 0 then Some (clock s + window) else deadline s k)"
    and "ttl = vk_ttl k s'"
  using assms
  by (auto simp: INCR_WITH_EXPIRE_SCRIPT_def Let_def cval_def vk_get_expire deadline_expire deadline_incrby
      split: option.splits if_splits)

lemma cval_other:
  "0 < window \<Longrightarrow> INCR_WITH_EXPIRE_SCRIPT k window s = ((count, ttl), s') \<Longrightarrow> k' \<noteq> k \<Longrightarrow> cval k' s' = cval k' s"
  using script_counts(4) [of window k s count ttl s' k'] by (simp add: cval_def)

lemma script_timed:
  assumes "0 < window" "timed window k' s" "INCR_WITH_EXPIRE_SCRIPT k window s = ((count, ttl), s')"
  shows "timed window k' s'"
  using script_counts [OF assms(1,3)] assms(2)
  by (cases "k' = k") (auto simp: timed_def cval_def split: option.splits if_splits)

lemma script_ttl:
  assumes "0 < window" "timed window k s" "INCR_WITH_EXPIRE_SCRIPT k window s = ((count, ttl), s')"
  shows "0 < ttl \<and> ttl \<le> window \<and> deadline s' k = Some (clock s' + ttl)"
proof -
  note c = script_counts [OF assms(1,3)]
  from script_timed [OF assms] c(2) obtain d where d: "deadline s' k = Some d" "d \<le> clock s' + window"
    by (auto simp: timed_def)
  with live_deadline [OF c(2) d(1)] c(2,6) show ?thesis by (simp add: vk_ttl_def vk_exists_def)
qed

lemma client_eval_Some:
  "client_eval l f w = (Some r, w') \<longleftrightarrow> l = Delivered \<and> (\<exists>s'. f (vk w) = (r, s') \<and> w' = w\<lparr>vk := s'\<rparr>)"
  by (cases l) (auto simp: client_eval_def via_def split: prod.splits)

lemma window_positive: "0 < window_seconds env"
  by (auto simp: window_seconds_def readPositiveIntEnv_def DEFAULT_WINDOW_SECONDS_def split: option.split)

lemma limit_checks_distinct: "distinct (map fst (limit_checks env e subject))"
  by (auto simp: limit_checks_def split: option.split)

lemma limit_positive: "(k, l) \<in> set (limit_checks env e subject) \<Longrightarrow> 0 < l"
  by (auto simp: limit_checks_def readPositiveIntEnv_def DEFAULT_LIMITS_def
      split: option.splits if_splits RateLimitedEndpoint.splits)

section \<open>The whole check\<close>

lemma run_checks_ConsE:
  assumes "run_checks net n window ((k, l) # cs) r w = (Some r', w')"
  obtains count ttl s' where "INCR_WITH_EXPIRE_SCRIPT k window (vk w) = ((count, ttl), s')"
    "run_checks net (Suc n) window cs (if count > l then max r (if ttl > 0 then ttl else window) else r) (w\<lparr>vk := s'\<rparr>) = (Some r', w')"
  using assms that
  by (cases "client_eval (net n) (INCR_WITH_EXPIRE_SCRIPT k window) w"; cases "fst (client_eval (net n) (INCR_WITH_EXPIRE_SCRIPT k window) w)")
    (auto simp: client_eval_Some)

lemma run_checks_frame:
  assumes "0 < window" "run_checks net n window cs r w = (Some r', w')"
  shows "clock (vk w') = clock (vk w) \<and> r \<le> r' \<and> client_enabled w' = client_enabled w
    \<and> (k \<notin> fst ` set cs \<longrightarrow> vk_get k (vk w') = vk_get k (vk w) \<and> deadline (vk w') k = deadline (vk w) k)"
  using assms(2)
proof (induction cs arbitrary: n r w)
  case (Cons c cs)
  obtain k0 l where c: "c = (k0, l)" by fastforce
  from Cons.prems [unfolded c] show ?case
  proof (cases rule: run_checks_ConsE)
    case (1 count ttl s')
    from Cons.IH [OF 1(2)] script_counts [OF assms(1) 1(1)] show ?thesis
      by (auto simp: c split: if_splits)
  qed
qed simp

lemma run_checks_counts:
  assumes "0 < window" "run_checks net n window cs r w = (Some r', w')" "distinct (map fst cs)" "(k, l) \<in> set cs"
  shows "vk_get k (vk w') = Some (cval k (vk w) + 1)
    \<and> deadline (vk w') k = (if cval k (vk w) = 0 then Some (clock (vk w) + window) else deadline (vk w) k)"
  using assms(2-4)
proof (induction cs arbitrary: n r w)
  case (Cons c cs)
  obtain k0 l0 where c: "c = (k0, l0)" by fastforce
  from Cons.prems(1) [unfolded c] show ?case
  proof (cases rule: run_checks_ConsE)
    case (1 count ttl s')
    note one = script_counts [OF assms(1) 1(1)]
    show ?thesis
    proof (cases "k = k0")
      case True
      with Cons.prems(2) c have "k \<notin> fst ` set cs" by auto
      with run_checks_frame [OF assms(1) 1(2), of k] one True show ?thesis by simp
    next
      case False
      with Cons.prems c have "distinct (map fst cs)" "(k, l) \<in> set cs" by auto
      from Cons.IH [OF 1(2) this] one(3) one(4) [OF False] show ?thesis by (simp add: cval_def)
    qed
  qed
qed simp

lemma run_checks_timed:
  assumes "0 < window" "run_checks net n window cs r w = (Some r', w')" "timed window k (vk w)"
  shows "timed window k (vk w')"
  using assms(2,3)
proof (induction cs arbitrary: n r w)
  case (Cons c cs)
  obtain k0 l where c: "c = (k0, l)" by fastforce
  from Cons.prems(1) [unfolded c] show ?case
  proof (cases rule: run_checks_ConsE)
    case (1 count ttl s')
    from script_timed [OF assms(1) Cons.prems(2) 1(1)] show ?thesis using Cons.IH [OF 1(2)] by simp
  qed
qed simp

text \<open>When the loop reports a wait, and how long it is.\<close>

lemma run_checks_exceeded:
  assumes "0 < window" "run_checks net n window cs r w = (Some r', w')" "distinct (map fst cs)" "0 \<le> r"
  shows "(k, l) \<in> set cs \<Longrightarrow> l < cval k (vk w) + 1 \<Longrightarrow> 0 < r'"
    and "r < r' \<Longrightarrow> \<exists>k l. (k, l) \<in> set cs \<and> l < cval k (vk w) + 1"
proof -
  have "(\<forall>(k, l) \<in> set cs. l < cval k (vk w) + 1 \<longrightarrow> 0 < r') \<and> (r < r' \<longrightarrow> (\<exists>(k, l) \<in> set cs. l < cval k (vk w) + 1))"
    using assms(2-4)
  proof (induction cs arbitrary: n r w)
    case (Cons c cs)
    obtain k0 l0 where c: "c = (k0, l0)" by fastforce
    from Cons.prems(1) [unfolded c] show ?case
    proof (cases rule: run_checks_ConsE)
      case (1 count ttl s')
      define r1 where "r1 = (if count > l0 then max r (if ttl > 0 then ttl else window) else r)"
      note one = script_counts [OF assms(1) 1(1)]
      have r1: "0 \<le> r1" "l0 < count \<Longrightarrow> 0 < r1" "\<not> l0 < count \<Longrightarrow> r1 = r"
        using Cons.prems(3) assms(1) by (auto simp: r1_def)
      have r': "r1 \<le> r'" using run_checks_frame [OF assms(1) 1(2)] by (simp add: r1_def)
      have same: "cval k (vk (w\<lparr>vk := s'\<rparr>)) = cval k (vk w)" if "(k, l) \<in> set cs" for k l
        using that Cons.prems(2) cval_other [OF assms(1) 1(1), of k] by (force simp: c)
      have ih: "(\<forall>(k, l) \<in> set cs. l < cval k (vk w) + 1 \<longrightarrow> 0 < r') \<and> (r1 < r' \<longrightarrow> (\<exists>(k, l) \<in> set cs. l < cval k (vk w) + 1))"
        using Cons.IH [OF 1(2)] Cons.prems(2) r1(1) same by (fastforce simp: r1_def [symmetric] c)
      show ?thesis
        using ih r1 r' one(1) by (cases "l0 < count") (auto simp: c)
    qed
  qed simp
  then show "(k, l) \<in> set cs \<Longrightarrow> l < cval k (vk w) + 1 \<Longrightarrow> 0 < r'"
    and "r < r' \<Longrightarrow> \<exists>k l. (k, l) \<in> set cs \<and> l < cval k (vk w) + 1" by blast+
qed

lemma run_checks_wait:
  assumes "0 < window" "run_checks net n window cs r w = (Some r', w')" "distinct (map fst cs)"
    and "\<forall>k \<in> fst ` set cs. timed window k (vk w)"
  shows "r' \<le> max r window
    \<and> (\<forall>(k, l) \<in> set cs. l < cval k (vk w) + 1 \<longrightarrow> (\<exists>d. deadline (vk w') k = Some d \<and> d \<le> clock (vk w') + r'))"
  using assms(2-4)
proof (induction cs arbitrary: n r w)
  case (Cons c cs)
  obtain k0 l0 where c: "c = (k0, l0)" by fastforce
  from Cons.prems(1) [unfolded c] show ?case
  proof (cases rule: run_checks_ConsE)
    case (1 count ttl s')
    define r1 where "r1 = (if count > l0 then max r (if ttl > 0 then ttl else window) else r)"
    note one = script_counts [OF assms(1) 1(1)]
    have t: "timed window k0 (vk w)" using Cons.prems(3) by (simp add: c)
    note ttl = script_ttl [OF assms(1) t 1(1)]
    have r1: "r1 \<le> max r window" "l0 < count \<Longrightarrow> ttl \<le> r1" using ttl by (auto simp: r1_def)
    note frame = run_checks_frame [OF assms(1) 1(2)]
    have r': "r1 \<le> r'" using frame by (simp add: r1_def)
    have k0: "k0 \<notin> fst ` set cs" using Cons.prems(2) by (auto simp: c)
    have same: "cval k (vk (w\<lparr>vk := s'\<rparr>)) = cval k (vk w)" if "(k, l) \<in> set cs" for k l
      using that k0 cval_other [OF assms(1) 1(1), of k] by force
    have "\<forall>k \<in> fst ` set cs. timed window k (vk (w\<lparr>vk := s'\<rparr>))"
      using Cons.prems(3) script_timed [OF assms(1) _ 1(1)] by (auto simp: c)
    with Cons.IH [OF 1(2)] Cons.prems(2) have ih: "r' \<le> max r1 window"
      "\<And>k l. (k, l) \<in> set cs \<Longrightarrow> l < cval k (vk w) + 1 \<Longrightarrow> \<exists>d. deadline (vk w') k = Some d \<and> d \<le> clock (vk w') + r'"
      using same by (fastforce simp: r1_def [symmetric] c)+
    have "deadline (vk w') k0 = Some (clock (vk w') + ttl)" using frame [of k0] k0 ttl by simp
    with ih r1 r' one(1) show ?thesis by (auto simp: c)
  qed
qed simp

section \<open>What the limiter promises\<close>

definition advance :: "int \<Rightarrow> 'a cache_io_scheme \<Rightarrow> 'a cache_io_scheme" where
  "advance dt w = w\<lparr>vk := (vk w)\<lparr>clock := clock (vk w) + dt\<rparr>\<rparr>"

lemma enforce_cases:
  assumes "enforce env net e subject w = (r, w')" "client_enabled w"
  obtains (failed_open) "r = Inr ()" "fst (run_checks net 0 (window_seconds env) (limit_checks env e subject) 0 w) = None"
  | (checked) retry w1 where "run_checks net 0 (window_seconds env) (limit_checks env e subject) 0 w = (Some retry, w1)"
      "r = (if retry > 0 then Inl (HttpException 429 ''too many requests'' retry) else Inr ())"
      "vk w' = vk w1" "client_enabled w' = client_enabled w1"
  using assms
  by (auto simp: enforce_def emitMetric_def split: prod.splits option.splits if_splits)

text \<open>A refusal is justified and tells how long to wait: 429 is answered only when some counter of the
  request is above its limit; the wait is between one second and the window, and after that many
  seconds every counter that was above its limit is gone (no counter outlives its window).\<close>

theorem refusal_ends_with_the_window:
  assumes "client_enabled w" "\<forall>(k, l) \<in> set (limit_checks env e subject). timed (window_seconds env) k (vk w)"
    and "enforce env net e subject w = (Inl ex, w')"
  shows "\<exists>retry. ex = HttpException 429 ''too many requests'' retry \<and> extractRetryAfterSeconds ex = Some retry
    \<and> 1 \<le> retry \<and> retry \<le> window_seconds env
    \<and> (\<exists>(k, l) \<in> set (limit_checks env e subject). l < cval k (vk w'))
    \<and> (\<forall>(k, l) \<in> set (limit_checks env e subject).
         l < cval k (vk w') \<longrightarrow> vk_get k (vk (advance retry w')) = None)"
  using assms(3,1)
proof (cases rule: enforce_cases)
  case (checked retry w1)
  let ?cs = "limit_checks env e subject"
  note run = checked(1)
  have timed: "\<forall>k \<in> fst ` set ?cs. timed (window_seconds env) k (vk w)" using assms(2) by auto
  have r: "0 < retry" "ex = HttpException 429 ''too many requests'' retry" using checked(2) by (auto split: if_splits)
  note wait = run_checks_wait [OF window_positive run limit_checks_distinct timed]
  have count: "cval k (vk w') = cval k (vk w) + 1" if "(k, l) \<in> set ?cs" for k l
    using run_checks_counts [OF window_positive run limit_checks_distinct that] checked(3) by (simp add: cval_def)
  obtain k l where kl: "(k, l) \<in> set ?cs" "l < cval k (vk w) + 1"
    using run_checks_exceeded(2) [OF window_positive run limit_checks_distinct _ r(1)] by auto
  have gone: "vk_get k (vk (advance retry w')) = None" if "(k, l) \<in> set ?cs" "l < cval k (vk w')" for k l
    using wait that count [OF that(1)] checked(3) by (auto simp: advance_def vk_get_def expired_def)
  have "\<exists>(k, l) \<in> set ?cs. l < cval k (vk w')" using kl count [OF kl(1)] by (intro bexI [OF _ kl(1)]) simp
  with r wait gone show ?thesis by (auto simp: extractRetryAfterSeconds_def)
qed simp

text \<open>A history of requests: the seconds before each of them, its endpoint and its subject. Valkey answers.\<close>

type_synonym rl_call = "int \<times> RateLimitedEndpoint \<times> RateLimitSubject"

fun run_calls :: "number_env \<Rightarrow> rl_call list \<Rightarrow> 'a cache_io_scheme \<Rightarrow> bool list \<times> 'a cache_io_scheme" where
  "run_calls env [] w = ([], w)"
| "run_calls env ((dt, e, subject) # calls) w =
     (let (r, w1) = enforce env (\<lambda>_. Delivered) e subject (advance dt w);
          (oks, w2) = run_calls env calls w1
      in (is_ok r # oks, w2))"

text \<open>How many of the accepted calls were counted on a counter with its limit.\<close>

fun accepted :: "number_env \<Rightarrow> string \<times> int \<Rightarrow> rl_call list \<Rightarrow> bool list \<Rightarrow> int" where
  "accepted env check ((dt, e, subject) # calls) (ok # oks) =
     (if ok \<and> check \<in> set (limit_checks env e subject) then 1 else 0) + accepted env check calls oks"
| "accepted env check _ _ = 0"

text \<open>A live counter is not dropped before \<open>D\<close>.\<close>

definition keeps_until :: "int \<Rightarrow> string \<Rightarrow> valkey \<Rightarrow> bool" where
  "keeps_until D k s \<longleftrightarrow> (\<forall>v d. vk_get k s = Some v \<longrightarrow> deadline s k = Some d \<longrightarrow> D \<le> d)"

lemma run_checks_answered: "fst (run_checks (\<lambda>_. Delivered) n window cs r w) \<noteq> None"
  by (induction cs arbitrary: n r w) (auto simp: client_eval_def split: prod.split)

lemma advance_keeps:
  assumes "keeps_until D k (vk w)" "0 \<le> dt" "clock (vk w) + dt < D"
  shows "keeps_until D k (vk (advance dt w))" "cval k (vk (advance dt w)) = cval k (vk w)"
proof -
  have same: "vk_get k (vk (advance dt w)) = vk_get k (vk w)"
    using assms unfolding keeps_until_def vk_get_def expired_def advance_def
    by (auto split: option.splits if_splits)
  then show "cval k (vk (advance dt w)) = cval k (vk w)" by (simp add: cval_def)
  show "keeps_until D k (vk (advance dt w))"
    using assms(1) unfolding keeps_until_def same by (simp add: advance_def)
qed

lemma enforce_counts:
  assumes "client_enabled w" "enforce env (\<lambda>_. Delivered) e subject w = (r, w')"
    and "keeps_until D k (vk w)" "D \<le> clock (vk w) + window_seconds env"
  shows "client_enabled w'" "clock (vk w') = clock (vk w)" "keeps_until D k (vk w')" "cval k (vk w) \<le> cval k (vk w')"
    and "(k, l) \<in> set (limit_checks env e subject) \<Longrightarrow>
      cval k (vk w') = cval k (vk w) + 1 \<and> (is_ok r \<longrightarrow> cval k (vk w) + 1 \<le> l)"
proof -
  let ?cs = "limit_checks env e subject"
  have "client_enabled w' \<and> clock (vk w') = clock (vk w) \<and> keeps_until D k (vk w') \<and> cval k (vk w) \<le> cval k (vk w')
    \<and> ((k, l) \<in> set ?cs \<longrightarrow> cval k (vk w') = cval k (vk w) + 1 \<and> (is_ok r \<longrightarrow> cval k (vk w) + 1 \<le> l))" for l
    using assms(2,1)
  proof (cases rule: enforce_cases)
    case failed_open
    with run_checks_answered show ?thesis by metis
  next
    case (checked retry w1)
    note run = checked(1)
    note frame = run_checks_frame [OF window_positive run, of k]
    have key: "vk_get k (vk w') = Some (cval k (vk w) + 1) \<and> deadline (vk w') k =
        (if cval k (vk w) = 0 then Some (clock (vk w) + window_seconds env) else deadline (vk w) k)"
      if "(k, l) \<in> set ?cs" for l
      using run_checks_counts [OF window_positive run limit_checks_distinct that] checked(3) by simp
    have le: "cval k (vk w) + 1 \<le> l" if "(k, l) \<in> set ?cs" "is_ok r" for l
      using run_checks_exceeded(1) [OF window_positive run limit_checks_distinct _ that(1)] that(2) checked(2)
      by (cases "l < cval k (vk w) + 1") (auto split: if_splits)
    show ?thesis
    proof (cases "k \<in> fst ` set ?cs")
      case True
      then obtain l0 where "(k, l0) \<in> set ?cs" by auto
      from key [OF this] have g: "vk_get k (vk w') = Some (cval k (vk w) + 1)" and d: "deadline (vk w') k =
        (if cval k (vk w) = 0 then Some (clock (vk w) + window_seconds env) else deadline (vk w) k)" by simp_all
      have "keeps_until D k (vk w')"
        using assms(3,4) g d by (auto simp: keeps_until_def cval_def split: option.splits if_splits)
      with g le frame checked(3,4) assms(1) show ?thesis by (auto simp: cval_def)
    next
      case False
      with frame have "vk_get k (vk w') = vk_get k (vk w)" "deadline (vk w') k = deadline (vk w) k"
        using checked(3) by simp_all
      with False frame checked(3,4) assms(1,3) show ?thesis by (force simp: keeps_until_def cval_def)
    qed
  qed
  then show "client_enabled w'" "clock (vk w') = clock (vk w)" "keeps_until D k (vk w')" "cval k (vk w) \<le> cval k (vk w')"
    and "(k, l) \<in> set (limit_checks env e subject) \<Longrightarrow>
      cval k (vk w') = cval k (vk w) + 1 \<and> (is_ok r \<longrightarrow> cval k (vk w) + 1 \<le> l)" by blast+
qed

lemma run_calls_bounded:
  assumes "client_enabled w" "keeps_until D k (vk w)" "D \<le> clock (vk w) + window_seconds env"
    and "\<forall>c \<in> set calls. 0 \<le> fst c" "clock (vk w) + sum_list (map fst calls) < D" "run_calls env calls w = (oks, w')"
  shows "accepted env (k, l) calls oks \<le> max 0 (l - cval k (vk w))"
  using assms
proof (induction calls arbitrary: w oks)
  case Nil
  then show ?case by simp
next
  case (Cons c calls)
  obtain dt e subject where c: "c = (dt, e, subject)" by (rule prod_cases3)
  obtain r w1 where r: "enforce env (\<lambda>_. Delivered) e subject (advance dt w) = (r, w1)" by fastforce
  obtain oks1 where oks: "run_calls env calls w1 = (oks1, w')" "oks = is_ok r # oks1"
    using Cons.prems(6) by (auto simp: c r split: prod.splits)
  have "0 \<le> sum_list (map fst calls)" using Cons.prems(4) by (intro sum_list_nonneg) auto
  with Cons.prems(4,5) have dt: "0 \<le> dt" "clock (vk w) + dt < D" by (auto simp: c)
  note adv = advance_keeps [OF Cons.prems(2) dt]
  have "client_enabled (advance dt w)" "D \<le> clock (vk (advance dt w)) + window_seconds env"
    using Cons.prems(1,3) dt(1) by (simp_all add: advance_def)
  note one = enforce_counts [OF this(1) r adv(1) this(2)]
  have "clock (vk w1) = clock (vk w) + dt" using one(2) by (simp add: advance_def)
  then have "accepted env (k, l) calls oks1 \<le> max 0 (l - cval k (vk w1))"
    using Cons.prems dt by (intro Cons.IH [OF one(1,3) _ _ _ oks(1)]) (auto simp: c)
  with one(4) one(5) [of l] show ?case unfolding oks(2) c adv(2) by auto
qed

text \<open>The limit is a limit: within one window after a counter was absent, however many requests of
  whatever subjects arrive and however they interleave, at most as many of them are accepted as
  the counter's limit allows.\<close>

theorem window_admits_at_most_limit:
  assumes "client_enabled w" "vk_get k (vk w) = None" "\<forall>c \<in> set calls. 0 \<le> fst c"
    and "sum_list (map fst calls) < window_seconds env" "run_calls env calls w = (oks, w')" "0 \<le> l"
  shows "accepted env (k, l) calls oks \<le> l"
proof -
  have "keeps_until (clock (vk w) + window_seconds env) k (vk w)" using assms(2) by (simp add: keeps_until_def)
  from run_calls_bounded [OF assms(1) this _ assms(3) _ assms(5), of l] assms(2,4,6)
  show ?thesis by (simp add: cval_def)
qed

definition quiet_env :: number_env where
  "quiet_env name = (if name = ''AUTH_RATE_LIMIT_LOGIN_IP'' then Some (Fin 2) else None)"

definition rl_start :: cache_io where
  "rl_start = \<lparr>metrics = [], vk = \<lparr>data = (\<lambda>_. None), deadline = (\<lambda>_. None), clock = 100\<rparr>, client_enabled = True\<rparr>"

definition rl_subject :: RateLimitSubject where
  "rl_subject = \<lparr>sub_ip = Some ''1.2.3.4'', sub_secondary = None\<rparr>"

definition rl_burst :: "bool list \<times> cache_io" where
  "rl_burst = run_calls quiet_env [(0, Login, rl_subject), (1, Login, rl_subject), (5, Login, rl_subject)] rl_start"

theorem window_admits_at_most_limit_witness:
  "accepted quiet_env (''ratelimit:login:ip:1.2.3.4'', 2)
     [(0, Login, rl_subject), (1, Login, rl_subject), (5, Login, rl_subject)] (fst rl_burst) \<le> 2
   \<and> fst rl_burst = [True, True, False]"
proof -
  have e: "client_enabled rl_start" "vk_get k (vk rl_start) = None" for k
    by (simp_all add: rl_start_def vk_get_def)
  have "(0::int) + 1 + 5 < window_seconds quiet_env" by code_simp
  with window_admits_at_most_limit [OF e, of "[(0, Login, rl_subject), (1, Login, rl_subject), (5, Login, rl_subject)]"
      quiet_env "fst rl_burst" "snd rl_burst" 2]
  have "accepted quiet_env (''ratelimit:login:ip:1.2.3.4'', 2)
     [(0, Login, rl_subject), (1, Login, rl_subject), (5, Login, rl_subject)] (fst rl_burst) \<le> 2"
    by (simp add: rl_burst_def)
  moreover have "fst rl_burst = [True, True, False]" by code_simp
  ultimately show ?thesis by simp
qed

definition rl_refused :: "unit result \<times> cache_io" where
  "rl_refused = enforce quiet_env (\<lambda>_. Delivered) Login rl_subject (snd rl_burst)"

theorem refusal_ends_with_the_window_witness:
  "extractRetryAfterSeconds (projl (fst rl_refused)) = Some 894
   \<and> vk_get ''ratelimit:login:ip:1.2.3.4'' (vk (advance 894 (snd rl_refused))) = None"
proof -
  have cs: "limit_checks quiet_env Login rl_subject = [(''ratelimit:login:ip:1.2.3.4'', 2)]" by code_simp
  have v: "vk_get ''ratelimit:login:ip:1.2.3.4'' (vk (snd rl_burst)) = Some 3
      \<and> deadline (vk (snd rl_burst)) ''ratelimit:login:ip:1.2.3.4'' = Some 1000 \<and> clock (vk (snd rl_burst)) = 106
      \<and> window_seconds quiet_env = 900 \<and> client_enabled (snd rl_burst)" by code_simp
  then have t: "\<forall>(k, l) \<in> set (limit_checks quiet_env Login rl_subject). timed (window_seconds quiet_env) k (vk (snd rl_burst))"
    by (simp add: cs timed_def)
  have r: "fst rl_refused = Inl (HttpException 429 ''too many requests'' 894)" by code_simp
  then have "enforce quiet_env (\<lambda>_. Delivered) Login rl_subject (snd rl_burst)
      = (Inl (HttpException 429 ''too many requests'' 894), snd rl_refused)"
    by (simp add: rl_refused_def prod_eq_iff)
  from refusal_ends_with_the_window [OF _ t this] v r show ?thesis by (simp add: cs extractRetryAfterSeconds_def)
qed

end
