(* ===== verification/RefreshTokens.thy ===== *)
theory RefreshTokens
  imports JsValues
begin

text \<open>
  Refresh tokens, src/auth/refresh-tokens.service.ts over the table of
  src/database/migrations/1783307740648-add-refresh-tokens.ts: issue, rotate on use with reuse detection, and
  revocation of a family. Times are milliseconds. SHA-256 and the random generators of
  node:crypto are arguments; so is what other transactions commit while a statement waits.
\<close>

section \<open>The table\<close>

record refresh_row =
  rt_id :: string
  rt_user :: string
  rt_family :: string
  rt_hash :: string
  rt_parent :: "string option"
  rt_expires :: int
  rt_used :: "int option"
  rt_revoked :: "int option"
  rt_reason :: "string option"
  rt_replaced :: "string option"
  rt_ip :: "string option"
  rt_agent :: "string option"

text \<open>Rows in order of insertion, and the ids of the existing users.\<close>

record token_db =
  tokens :: "refresh_row list"
  user_ids :: "string list"

record TokenClientMeta =
  meta_ip :: "string option"
  meta_agent :: "string option"

definition REFRESH_TOKEN_TTL_SECONDS :: int where
  "REFRESH_TOKEN_TTL_SECONDS = 14 * 24 * 60 * 60"

definition REVOKE_REASON_LOGOUT :: string where
  "REVOKE_REASON_LOGOUT = ''logout''"

definition REVOKE_REASON_REUSE :: string where
  "REVOKE_REASON_REUSE = ''reuse_detected''"

text \<open>
  The environment of one call: the fate of each statement, the clock of the database and of the
  process, the random values it draws, the hash, and what commits between the moment the family
  UPDATE fixed the rows it sees and the moment it has locked them.
\<close>

datatype rt_stmt = T_CONNECT | T_BEGIN | T_SELECT | T_REVOKE | T_INSERT | T_CONSUME | T_COMMIT | T_ROLLBACK

record rt_env =
  t_net :: "rt_stmt \<Rightarrow> link"
  t_db_now :: int
  t_date_now :: int
  t_new_token :: string
  t_new_family :: string
  t_new_id :: string
  t_hash :: "string \<Rightarrow> string"
  t_others :: "token_db \<Rightarrow> token_db"

definition token_lost :: exn where
  "token_lost = PgError ''08006'' []"

definition invalid_token :: exn where
  "invalid_token = UnauthorizedException ''invalid or expired refresh token''"

definition t_ask :: "rt_env \<Rightarrow> rt_stmt \<Rightarrow> 'a result \<Rightarrow> 'a result" where
  "t_ask env q r = (if t_net env q = Delivered then r else Inl token_lost)"

text \<open>INSERT with its primary key, the unique index on the hash and the foreign key to users.\<close>

definition insert_token :: "refresh_row \<Rightarrow> token_db \<Rightarrow> token_db result" where
  "insert_token r s =
     (if list_ex (\<lambda>x. rt_id x = rt_id r) (tokens s) then Inl (PgError ''23505'' ''refresh_tokens_pkey'')
      else if list_ex (\<lambda>x. rt_hash x = rt_hash r) (tokens s) then Inl (PgError ''23505'' ''refresh_tokens_token_hash_uq'')
      else if rt_user r \<notin> set (user_ids s) then Inl (PgError ''23503'' ''refresh_tokens_user_id_fkey'')
      else Inr (s\<lparr>tokens := tokens s @ [r]\<rparr>))"

definition token_row :: "rt_env \<Rightarrow> TokenClientMeta \<Rightarrow> string \<Rightarrow> string \<Rightarrow> string option \<Rightarrow> refresh_row" where
  "token_row env meta user family parent =
     \<lparr>rt_id = t_new_id env, rt_user = user, rt_family = family, rt_hash = t_hash env (t_new_token env),
      rt_parent = parent, rt_expires = t_db_now env + REFRESH_TOKEN_TTL_SECONDS * 1000, rt_used = None,
      rt_revoked = None, rt_reason = None, rt_replaced = None, rt_ip = meta_ip meta, rt_agent = meta_agent meta\<rparr>"

text \<open>
  \<open>UPDATE \<dots> WHERE family_id = f AND revoked_at IS NULL\<close>: the statement works on the rows it saw when it
  started, in the state they have when it gets their locks; rows inserted meanwhile it does not see.
\<close>

definition revoke_family :: "rt_env \<Rightarrow> string \<Rightarrow> string \<Rightarrow> token_db \<Rightarrow> token_db" where
  "revoke_family env f reason s =
     (let seen = map rt_id (tokens s); s' = t_others env s
      in s'\<lparr>tokens := map (\<lambda>r. if rt_id r \<in> set seen \<and> rt_family r = f \<and> rt_revoked r = None
                              then r\<lparr>rt_revoked := Some (t_db_now env), rt_reason := Some reason\<rparr> else r) (tokens s')\<rparr>)"

section \<open>Operations\<close>

record IssuedRefreshToken =
  i_token :: string
  i_expiresIn :: int

record RotatedRefreshToken =
  r_userId :: string
  r_token :: string
  r_expiresIn :: int

definition issue :: "rt_env \<Rightarrow> string \<Rightarrow> TokenClientMeta \<Rightarrow> token_db \<Rightarrow> IssuedRefreshToken result \<times> token_db" where
  "issue env userId meta s =
     (if t_net env T_CONNECT \<noteq> Delivered then (Inl token_lost, s)
      else (case insert_token (token_row env meta userId (t_new_family env) None) s of
          Inl e \<Rightarrow> (t_ask env T_INSERT (Inl e), s)
        | Inr s' \<Rightarrow> (t_ask env T_INSERT (Inr \<lparr>i_token = t_new_token env, i_expiresIn = REFRESH_TOKEN_TTL_SECONDS\<rparr>),
                     if t_net env T_INSERT = LostRequest then s else s')))"

text \<open>The end of a transaction: COMMIT decides which state stays, its answer what the caller sees.\<close>

definition t_commit :: "rt_env \<Rightarrow> 'a result \<Rightarrow> token_db \<Rightarrow> token_db \<Rightarrow> 'a result \<times> token_db" where
  "t_commit env r s base =
     (case t_net env T_COMMIT of
        Delivered \<Rightarrow> (r, s)
      | LostRequest \<Rightarrow> (Inl token_lost, base)
      | LostReply \<Rightarrow> (Inl token_lost, s))"

definition consume :: "rt_env \<Rightarrow> string \<Rightarrow> string \<Rightarrow> token_db \<Rightarrow> token_db" where
  "consume env old new s =
     s\<lparr>tokens := map (\<lambda>r. if rt_id r = old then r\<lparr>rt_used := Some (t_db_now env), rt_replaced := Some new\<rparr> else r) (tokens s)\<rparr>"

definition rotate :: "rt_env \<Rightarrow> string \<Rightarrow> TokenClientMeta \<Rightarrow> token_db \<Rightarrow> RotatedRefreshToken result \<times> token_db" where
  "rotate env rawToken meta s =
     (if t_net env T_CONNECT \<noteq> Delivered \<or> t_net env T_BEGIN \<noteq> Delivered \<or> t_net env T_SELECT \<noteq> Delivered
      then (Inl token_lost, s)
      else (case row_by rt_hash (t_hash env rawToken) (tokens s) of
          None \<Rightarrow> (Inl invalid_token, s)
        | Some row \<Rightarrow>
            if rt_used row \<noteq> None \<or> rt_revoked row \<noteq> None \<or> rt_replaced row \<noteq> None
            then (if t_net env T_REVOKE \<noteq> Delivered then (Inl token_lost, s)
                  else t_commit env (Inl invalid_token) (revoke_family env (rt_family row) REVOKE_REASON_REUSE s)
                         (t_others env s))
            else if rt_expires row \<le> t_date_now env then (t_ask env T_ROLLBACK (Inl invalid_token), s)
            else (case t_ask env T_INSERT (insert_token (token_row env meta (rt_user row) (rt_family row) (Some (rt_id row))) s) of
                Inl e \<Rightarrow> (Inl e, s)
              | Inr s1 \<Rightarrow>
                  if t_net env T_CONSUME \<noteq> Delivered then (Inl token_lost, s)
                  else t_commit env (Inr \<lparr>r_userId = rt_user row, r_token = t_new_token env,
                                          r_expiresIn = REFRESH_TOKEN_TTL_SECONDS\<rparr>)
                         (consume env (rt_id row) (t_new_id env) s1) s)))"

definition revokeFamilyByToken :: "rt_env \<Rightarrow> string \<Rightarrow> string \<Rightarrow> token_db \<Rightarrow> unit result \<times> token_db" where
  "revokeFamilyByToken env rawToken reason s =
     (if t_net env T_CONNECT \<noteq> Delivered then (Inl token_lost, s)
      else (t_ask env T_REVOKE (Inr ()),
            if t_net env T_REVOKE = LostRequest then s
            else (case row_by rt_hash (t_hash env rawToken) (tokens s) of
                    None \<Rightarrow> s
                  | Some row \<Rightarrow> revoke_family env (rt_family row) reason s)))"

section \<open>What any operation may do to the table\<close>

definition active :: "refresh_row \<Rightarrow> bool" where
  "active r \<longleftrightarrow> rt_used r = None \<and> rt_revoked r = None \<and> rt_replaced r = None"

text \<open>At most one valid token per family.\<close>

definition one_active :: "refresh_row set \<Rightarrow> bool" where
  "one_active R \<longleftrightarrow> (\<forall>r \<in> R. \<forall>r' \<in> R. active r \<and> active r' \<and> rt_family r = rt_family r' \<longrightarrow> rt_id r = rt_id r')"

definition tokens_ok :: "token_db \<Rightarrow> bool" where
  "tokens_ok s \<longleftrightarrow> distinct (map rt_id (tokens s)) \<and> distinct (map rt_hash (tokens s)) \<and> one_active (set (tokens s))"

text \<open>A row may only lose its validity; a family without a valid token stays without one.\<close>

definition row_le :: "refresh_row \<Rightarrow> refresh_row \<Rightarrow> bool" where
  "row_le r r' \<longleftrightarrow> rt_id r' = rt_id r \<and> rt_hash r' = rt_hash r \<and> rt_family r' = rt_family r \<and> rt_user r' = rt_user r
     \<and> rt_expires r' = rt_expires r \<and> (active r' \<longrightarrow> active r)"

definition dead_family :: "string \<Rightarrow> token_db \<Rightarrow> bool" where
  "dead_family f s \<longleftrightarrow> (\<exists>r \<in> set (tokens s). rt_family r = f) \<and> (\<forall>r \<in> set (tokens s). rt_family r = f \<longrightarrow> \<not> active r)"

definition token_adv :: "token_db \<Rightarrow> token_db \<Rightarrow> bool" where
  "token_adv s s' \<longleftrightarrow> tokens_ok s \<longrightarrow> tokens_ok s' \<and> (\<forall>r \<in> set (tokens s). \<exists>r' \<in> set (tokens s'). row_le r r')
     \<and> (\<forall>f. dead_family f s \<longrightarrow> dead_family f s')"

lemma row_le_refl [simp]: "row_le r r"
  by (simp add: row_le_def)

lemma one_activeD:
  "one_active R \<Longrightarrow> r \<in> R \<Longrightarrow> r' \<in> R \<Longrightarrow> active r \<Longrightarrow> active r' \<Longrightarrow> rt_family r = rt_family r' \<Longrightarrow> rt_id r = rt_id r'"
  unfolding one_active_def by blast

lemma one_active_image:
  assumes "one_active R" "\<And>r. row_le r (g r)"
  shows "one_active (g ` R)"
proof -
  have "rt_id (g r) = rt_id r" "rt_family (g r) = rt_family r" "active (g r) \<Longrightarrow> active r" for r
    using assms(2) [of r] by (simp_all add: row_le_def)
  with assms(1) show ?thesis unfolding one_active_def by (metis (no_types, lifting) imageE)
qed

lemma one_active_insert:
  "one_active R \<Longrightarrow> \<forall>r \<in> R. rt_family r = rt_family n \<longrightarrow> \<not> active r \<Longrightarrow> one_active (insert n R)"
  unfolding one_active_def by (metis insert_iff)

lemma row_le_trans: "row_le a b \<Longrightarrow> row_le b c \<Longrightarrow> row_le a c"
  by (simp add: row_le_def)

lemma token_adv_refl: "token_adv s s"
  unfolding token_adv_def using row_le_refl by blast

lemma token_adv_trans: "token_adv a b \<Longrightarrow> token_adv b c \<Longrightarrow> token_adv a c"
  unfolding token_adv_def using row_le_trans by meson

lemma map_row_le:
  assumes "\<And>r. row_le r (g r)"
  shows "map rt_id (map g rs) = map rt_id rs" "map rt_hash (map g rs) = map rt_hash rs"
  using assms by (simp_all add: row_le_def)

text \<open>Rows changed in place.\<close>

lemma token_adv_map:
  assumes g: "\<And>r. row_le r (g r)" and s': "tokens s' = map g (tokens s)"
  shows "token_adv s s'"
  unfolding token_adv_def
proof (intro impI conjI)
  have fam: "rt_family (g r) = rt_family r" and ident: "rt_id (g r) = rt_id r" for r
    using g [of r] by (simp_all add: row_le_def)
  have act: "active (g r) \<Longrightarrow> active r" for r using g [of r] by (simp add: row_le_def)
  assume ok: "tokens_ok s"
  have "one_active (set (tokens s'))"
    unfolding s' set_map using ok by (intro one_active_image [OF _ g]) (simp add: tokens_ok_def)
  moreover have "distinct (map rt_id (tokens s'))" "distinct (map rt_hash (tokens s'))"
    unfolding s' map_row_le [OF g] using ok by (simp_all add: tokens_ok_def)
  ultimately show "tokens_ok s'" by (simp add: tokens_ok_def)
  show "\<forall>r \<in> set (tokens s). \<exists>r' \<in> set (tokens s'). row_le r r'" using g by (auto simp: s')
  show "\<forall>f. dead_family f s \<longrightarrow> dead_family f s'"
    unfolding dead_family_def s' set_map bex_simps ball_simps fam using act by blast
qed

text \<open>A new valid row: its family is new, or its only valid token was consumed for it.\<close>

lemma token_adv_append:
  assumes g: "\<And>r. row_le r (g r)" and s': "tokens s' = map g (tokens s) @ [n]"
    and fresh: "\<forall>x \<in> set (tokens s). rt_id x \<noteq> rt_id n" "\<forall>x \<in> set (tokens s). rt_hash x \<noteq> rt_hash n"
    and alone: "\<And>r. r \<in> set (tokens s) \<Longrightarrow> rt_family r = rt_family n \<Longrightarrow> \<not> active (g r)"
    and live: "\<not> dead_family (rt_family n) s"
  shows "token_adv s s'"
  unfolding token_adv_def
proof (intro impI conjI)
  assume ok: "tokens_ok s"
  define m where "m = \<lparr>tokens = map g (tokens s), user_ids = user_ids s\<rparr>"
  have m: "token_adv s m" by (rule token_adv_map [OF g]) (simp add: m_def)
  then have okm: "tokens_ok m" using ok by (simp add: token_adv_def)
  have s'm: "tokens s' = tokens m @ [n]" by (simp add: s' m_def)
  have keys: "rt_id (g r) = rt_id r" "rt_hash (g r) = rt_hash r" "rt_family (g r) = rt_family r" for r
    using g [of r] by (simp_all add: row_le_def)
  have no: "\<forall>r \<in> set (tokens m). rt_family r = rt_family n \<longrightarrow> \<not> active r"
    using alone unfolding m_def token_db.simps set_map ball_simps keys by blast
  have "rt_id n \<notin> set (map rt_id (tokens m))" "rt_hash n \<notin> set (map rt_hash (tokens m))"
    using fresh unfolding m_def token_db.simps map_row_le [OF g] by auto
  with okm have dist: "distinct (map rt_id (tokens s'))" "distinct (map rt_hash (tokens s'))"
    by (simp_all add: tokens_ok_def s'm)
  have "one_active (insert n (set (tokens m)))"
    using okm no by (intro one_active_insert) (simp_all add: tokens_ok_def)
  with dist show "tokens_ok s'" by (simp add: tokens_ok_def s'm)
  show "\<forall>r \<in> set (tokens s). \<exists>r' \<in> set (tokens s'). row_le r r'" using g by (auto simp: s')
  have "\<forall>f. dead_family f s \<longrightarrow> dead_family f m" using m ok by (simp add: token_adv_def)
  moreover have "dead_family f s'" if "dead_family f m" "f \<noteq> rt_family n" for f
    using that by (auto simp: dead_family_def s'm)
  ultimately show "\<forall>f. dead_family f s \<longrightarrow> dead_family f s'" using live by blast
qed

lemma revoke_family_adv:
  assumes "token_adv s (t_others env s)"
  shows "token_adv s (revoke_family env f reason s)"
proof (rule token_adv_trans [OF assms])
  show "token_adv (t_others env s) (revoke_family env f reason s)"
    by (rule token_adv_map [where g = "\<lambda>r. if rt_id r \<in> set (map rt_id (tokens s)) \<and> rt_family r = f \<and> rt_revoked r = None
          then r\<lparr>rt_revoked := Some (t_db_now env), rt_reason := Some reason\<rparr> else r"])
      (auto simp: revoke_family_def Let_def row_le_def active_def)
qed

lemma insert_token_Inr:
  "insert_token r s = Inr s' \<longleftrightarrow> (\<forall>x \<in> set (tokens s). rt_id x \<noteq> rt_id r) \<and> (\<forall>x \<in> set (tokens s). rt_hash x \<noteq> rt_hash r)
     \<and> rt_user r \<in> set (user_ids s) \<and> s' = s\<lparr>tokens := tokens s @ [r]\<rparr>"
  by (auto simp: insert_token_def list_ex_iff)

lemma token_row_simps [simp]:
  "rt_id (token_row env meta u f p) = t_new_id env" "rt_family (token_row env meta u f p) = f"
  "rt_user (token_row env meta u f p) = u" "rt_hash (token_row env meta u f p) = t_hash env (t_new_token env)"
  "active (token_row env meta u f p)"
  by (simp_all add: token_row_def active_def)

lemma issue_adv:
  assumes "\<forall>x \<in> set (tokens s). rt_family x \<noteq> t_new_family env"
  shows "token_adv s (snd (issue env u meta s))"
proof (cases "insert_token (token_row env meta u (t_new_family env) None) s")
  case (Inr s1)
  then have i: "\<forall>x \<in> set (tokens s). rt_id x \<noteq> t_new_id env" "\<forall>x \<in> set (tokens s). rt_hash x \<noteq> t_hash env (t_new_token env)"
    "s1 = s\<lparr>tokens := tokens s @ [token_row env meta u (t_new_family env) None]\<rparr>"
    by (simp_all add: insert_token_Inr)
  have "token_adv s s1"
    by (rule token_adv_append [where g = "\<lambda>r. r" and n = "token_row env meta u (t_new_family env) None"])
      (use i assms in \<open>auto simp: dead_family_def\<close>)
  with Inr token_adv_refl show ?thesis by (simp add: issue_def)
qed (simp add: issue_def token_adv_refl)

text \<open>A successful rotation: what it found and what it leaves.\<close>

lemma rotate_Inr:
  assumes "rotate env raw meta s = (Inr res, s')"
  obtains row where "row_by rt_hash (t_hash env raw) (tokens s) = Some row" "active row" "t_date_now env < rt_expires row"
    "\<forall>x \<in> set (tokens s). rt_id x \<noteq> t_new_id env" "\<forall>x \<in> set (tokens s). rt_hash x \<noteq> t_hash env (t_new_token env)"
    "res = \<lparr>r_userId = rt_user row, r_token = t_new_token env, r_expiresIn = REFRESH_TOKEN_TTL_SECONDS\<rparr>"
    "s' = consume env (rt_id row) (t_new_id env)
       (s\<lparr>tokens := tokens s @ [token_row env meta (rt_user row) (rt_family row) (Some (rt_id row))]\<rparr>)"
  using assms
  by (auto simp: rotate_def t_ask_def t_commit_def insert_token_Inr active_def
      split: if_splits option.splits sum.splits link.splits)

lemma consume_tokens:
  assumes "\<forall>x \<in> set (tokens s). rt_id x \<noteq> t_new_id env" "row \<in> set (tokens s)"
  shows "tokens (consume env (rt_id row) (t_new_id env) (s\<lparr>tokens := tokens s @ [token_row env meta u f p]\<rparr>))
    = map (\<lambda>r. if rt_id r = rt_id row then r\<lparr>rt_used := Some (t_db_now env), rt_replaced := Some (t_new_id env)\<rparr> else r) (tokens s)
      @ [token_row env meta u f p]"
  using assms by (auto simp: consume_def)

lemma rotated_adv:
  assumes "row_by rt_hash (t_hash env raw) (tokens s) = Some row" "active row"
    and "\<forall>x \<in> set (tokens s). rt_id x \<noteq> t_new_id env" "\<forall>x \<in> set (tokens s). rt_hash x \<noteq> t_hash env (t_new_token env)"
  shows "token_adv s (consume env (rt_id row) (t_new_id env)
       (s\<lparr>tokens := tokens s @ [token_row env meta (rt_user row) (rt_family row) (Some (rt_id row))]\<rparr>))"
proof (cases "tokens_ok s")
  case True
  have row: "row \<in> set (tokens s)" using row_by_Some [OF assms(1)] by simp
  let ?g = "\<lambda>r. if rt_id r = rt_id row then r\<lparr>rt_used := Some (t_db_now env), rt_replaced := Some (t_new_id env)\<rparr> else r"
  show ?thesis
  proof (rule token_adv_append [where g = ?g])
    show "row_le r (?g r)" for r by (simp add: row_le_def active_def)
    show "\<not> active (?g r)" if "r \<in> set (tokens s)"
      "rt_family r = rt_family (token_row env meta (rt_user row) (rt_family row) (Some (rt_id row)))" for r
    proof (cases "rt_id r = rt_id row")
      case False
      have "one_active (set (tokens s))" using True by (simp add: tokens_ok_def)
      from one_activeD [OF this that(1) row] False that(2) assms(2) have "\<not> active r" by auto
      with False show ?thesis by simp
    qed (simp add: active_def)
    show "\<not> dead_family (rt_family (token_row env meta (rt_user row) (rt_family row) (Some (rt_id row)))) s"
      using row assms(2) by (auto simp: dead_family_def)
  qed (use assms(3,4) consume_tokens [OF assms(3) row] in simp_all)
qed (simp add: token_adv_def)

lemma rotate_snd:
  "snd (rotate env raw meta s) \<in> {s, t_others env s}
   \<or> (\<exists>row. row_by rt_hash (t_hash env raw) (tokens s) = Some row \<and> \<not> active row
        \<and> snd (rotate env raw meta s) = revoke_family env (rt_family row) REVOKE_REASON_REUSE s)
   \<or> (\<exists>row. row_by rt_hash (t_hash env raw) (tokens s) = Some row \<and> active row
        \<and> (\<forall>x \<in> set (tokens s). rt_id x \<noteq> t_new_id env) \<and> (\<forall>x \<in> set (tokens s). rt_hash x \<noteq> t_hash env (t_new_token env))
        \<and> snd (rotate env raw meta s) = consume env (rt_id row) (t_new_id env)
            (s\<lparr>tokens := tokens s @ [token_row env meta (rt_user row) (rt_family row) (Some (rt_id row))]\<rparr>))"
  by (auto simp: rotate_def t_ask_def t_commit_def insert_token_Inr active_def
      split: option.split sum.split link.split)

lemma rotate_adv:
  assumes "token_adv s (t_others env s)"
  shows "token_adv s (snd (rotate env raw meta s))"
  using rotate_snd [of env raw meta s] token_adv_refl assms revoke_family_adv [OF assms] rotated_adv
  by fastforce

lemma revokeFamilyByToken_adv:
  assumes "token_adv s (t_others env s)"
  shows "token_adv s (snd (revokeFamilyByToken env raw reason s))"
  using token_adv_refl revoke_family_adv [OF assms]
  by (auto simp: revokeFamilyByToken_def split: option.split)

section \<open>Histories\<close>

text \<open>
  One call of any client with the deployment's hash \<open>h\<close>; what commits in the middle of a call is itself
  a history. \<open>randomUUID\<close> draws a family id that no row has.
\<close>

inductive token_step :: "(string \<Rightarrow> string) \<Rightarrow> token_db \<Rightarrow> token_db \<Rightarrow> bool" for h where
  Issue: "t_hash env = h \<Longrightarrow> \<forall>x \<in> set (tokens s). rt_family x \<noteq> t_new_family env
    \<Longrightarrow> token_step h s (snd (issue env u meta s))"
| Rotate: "t_hash env = h \<Longrightarrow> (token_step h)\<^sup>*\<^sup>* s (t_others env s) \<Longrightarrow> token_step h s (snd (rotate env raw meta s))"
| Revoke: "t_hash env = h \<Longrightarrow> (token_step h)\<^sup>*\<^sup>* s (t_others env s)
    \<Longrightarrow> token_step h s (snd (revokeFamilyByToken env raw reason s))"

lemma token_step_adv: "token_step h s s' \<Longrightarrow> token_adv s s'"
proof (induction rule: token_step.induct)
  case (Issue env s u meta)
  then show ?case by (intro issue_adv)
next
  case (Rotate env s raw meta)
  have "(\<lambda>a b. token_step h a b \<and> token_adv a b)\<^sup>*\<^sup>* s (t_others env s)" using Rotate(2) .
  then have "token_adv s (t_others env s)"
    by (induction rule: rtranclp_induct) (auto intro: token_adv_refl token_adv_trans)
  then show ?case by (rule rotate_adv)
next
  case (Revoke env s raw reason)
  have "(\<lambda>a b. token_step h a b \<and> token_adv a b)\<^sup>*\<^sup>* s (t_others env s)" using Revoke(2) .
  then have "token_adv s (t_others env s)"
    by (induction rule: rtranclp_induct) (auto intro: token_adv_refl token_adv_trans)
  then show ?case by (rule revokeFamilyByToken_adv)
qed

lemma token_reach_adv: "(token_step h)\<^sup>*\<^sup>* s s' \<Longrightarrow> token_adv s s'"
  by (induction rule: rtranclp_induct) (auto intro: token_adv_refl token_adv_trans token_step_adv)

lemma rotate_refused:
  assumes "row_by rt_hash (t_hash env raw) (tokens s) = Some row" "\<not> active row"
  shows "\<not> is_ok (fst (rotate env raw meta s))"
    and "t_net env = (\<lambda>_. Delivered) \<Longrightarrow> fst (rotate env raw meta s) = Inl invalid_token"
  using assms by (auto simp: rotate_def t_commit_def active_def split: link.split)

lemma row_later:
  assumes "tokens_ok s" "row_by rt_hash k (tokens s) = Some row" "token_adv s s'"
  obtains row' where "row_by rt_hash k (tokens s') = Some row'" "row_le row row'"
proof -
  from assms obtain row' where r': "row' \<in> set (tokens s')" "row_le row row'"
    using row_by_Some [OF assms(2)] by (auto simp: token_adv_def)
  have "distinct (map rt_hash (tokens s'))" using assms(1,3) by (simp add: token_adv_def tokens_ok_def)
  from row_by_unique [OF this r'(1)] r'(2) row_by_Some [OF assms(2)] that r'(2) show thesis by (auto simp: row_le_def)
qed

text \<open>The token that a rotation has exchanged is there still, and no longer valid.\<close>

lemma consumed_row:
  assumes "tokens_ok s" "rotate env raw meta s = (Inr res, s1)" "token_adv s (t_others env s)"
  obtains used where "row_by rt_hash (t_hash env raw) (tokens s1) = Some used" "\<not> active used" "tokens_ok s1"
proof -
  have s1: "tokens_ok s1" using rotate_adv [OF assms(3)] assms(1,2) by (metis snd_conv token_adv_def)
  from assms(2) obtain row where row: "row_by rt_hash (t_hash env raw) (tokens s) = Some row"
    and new: "\<forall>x \<in> set (tokens s). rt_id x \<noteq> t_new_id env"
    and tk: "tokens s1 = map (\<lambda>r. if rt_id r = rt_id row then r\<lparr>rt_used := Some (t_db_now env), rt_replaced := Some (t_new_id env)\<rparr> else r) (tokens s)
      @ [token_row env meta (rt_user row) (rt_family row) (Some (rt_id row))]"
    by (rule rotate_Inr) (auto dest!: row_by_Some simp: consume_tokens)
  define used where "used = row\<lparr>rt_used := Some (t_db_now env), rt_replaced := Some (t_new_id env)\<rparr>"
  have "used \<in> set (tokens s1)" using row_by_Some [OF row] by (auto simp: tk used_def)
  moreover have "distinct (map rt_hash (tokens s1))" using s1 by (simp add: tokens_ok_def)
  ultimately have "row_by rt_hash (t_hash env raw) (tokens s1) = Some used"
    using row_by_unique [of rt_hash "tokens s1" used] row_by_Some [OF row] by (simp add: used_def)
  then show thesis by (rule that) (simp_all add: used_def active_def s1)
qed

section \<open>Samples\<close>

definition sample_rt_hash :: "string \<Rightarrow> string" where
  "sample_rt_hash t = ''#'' @ t"

definition sample_rt_env :: "string \<Rightarrow> string \<Rightarrow> rt_env" where
  "sample_rt_env i tok = \<lparr>t_net = (\<lambda>_. Delivered), t_db_now = 1000, t_date_now = 1000, t_new_token = tok,
     t_new_family = ''f2'', t_new_id = i, t_hash = sample_rt_hash, t_others = (\<lambda>s. s)\<rparr>"

definition sample_meta :: TokenClientMeta where
  "sample_meta = \<lparr>meta_ip = None, meta_agent = None\<rparr>"

text \<open>A login, and the token's first rotation.\<close>

definition sample_login :: token_db where
  "sample_login = snd (issue (sample_rt_env ''r1'' ''A'') ''u'' sample_meta \<lparr>tokens = [], user_ids = [''u'']\<rparr>)"

definition sample_rotated :: token_db where
  "sample_rotated = snd (rotate (sample_rt_env ''r2'' ''B'') ''A'' sample_meta sample_login)"

lemma sample_rt_env_simps [simp]:
  "t_hash (sample_rt_env i k) = sample_rt_hash" "t_others (sample_rt_env i k) = (\<lambda>s. s)"
  "t_net (sample_rt_env i k) = (\<lambda>_. Delivered)"
  by (simp_all add: sample_rt_env_def)

lemma sample_login_ok: "tokens_ok sample_login" "tokens_ok sample_rotated"
  unfolding tokens_ok_def one_active_def by code_simp+

lemma sample_rotation: "is_ok (fst (rotate (sample_rt_env ''r2'' ''B'') ''A'' sample_meta sample_login))"
  by code_simp

section \<open>Properties\<close>

text \<open>C17: a refresh token is exchanged at most once, and each login has at most one valid token: after a
  rotation succeeded, whatever calls follow (and overlap), the same token is refused ever after;
  and in every state any calls lead to, no two valid tokens share a family.\<close>

theorem refresh_token_is_single_use:
  assumes "tokens_ok s" "rotate env raw meta s = (Inr res, s1)" "(token_step (t_hash env))\<^sup>*\<^sup>* s (t_others env s)"
    and "(token_step (t_hash env))\<^sup>*\<^sup>* s1 s2" "t_hash env' = t_hash env"
  shows "\<not> is_ok (fst (rotate env' raw meta' s2)) \<and> one_active (set (tokens s2))
    \<and> (t_net env' = (\<lambda>_. Delivered) \<longrightarrow> fst (rotate env' raw meta' s2) = Inl invalid_token)"
proof -
  from consumed_row [OF assms(1,2) token_reach_adv [OF assms(3)]] obtain used where
    used: "row_by rt_hash (t_hash env raw) (tokens s1) = Some used" "\<not> active used" and s1: "tokens_ok s1" .
  from row_later [OF s1 used(1) token_reach_adv [OF assms(4)]] obtain row' where
    row': "row_by rt_hash (t_hash env raw) (tokens s2) = Some row'" "row_le used row'" .
  from used(2) row'(2) have "\<not> active row'" unfolding row_le_def by blast
  from rotate_refused [OF _ this, of env' raw s2 meta'] row'(1) assms(5)
  have "\<not> is_ok (fst (rotate env' raw meta' s2))
      \<and> (t_net env' = (\<lambda>_. Delivered) \<longrightarrow> fst (rotate env' raw meta' s2) = Inl invalid_token)" by simp
  moreover have "tokens_ok s2" using token_reach_adv [OF assms(4)] s1 by (simp add: token_adv_def)
  ultimately show ?thesis by (simp add: tokens_ok_def)
qed

lemma refresh_token_is_single_use_witness:
  "is_ok (fst (rotate (sample_rt_env ''r2'' ''B'') ''A'' sample_meta sample_login))
   \<and> fst (rotate (sample_rt_env ''r3'' ''C'') ''A'' sample_meta sample_rotated) = Inl invalid_token"
proof -
  from sample_rotation obtain res where
    "rotate (sample_rt_env ''r2'' ''B'') ''A'' sample_meta sample_login = (Inr res, sample_rotated)"
    unfolding sample_rotated_def by (metis is_ok_iff prod.collapse)
  from refresh_token_is_single_use [OF sample_login_ok(1) this, of sample_rotated "sample_rt_env ''r3'' ''C''" sample_meta]
  show ?thesis using sample_rotation by simp
qed

text \<open>Reuse detection ends the session for good: when a token that was already used or revoked is
  presented and nothing else commits while the family is locked, no token of its family is valid
  afterwards, and no token of that family is ever exchanged again, whatever calls follow.\<close>

theorem reuse_kills_the_family:
  assumes "tokens_ok s" "row_by rt_hash (t_hash env raw) (tokens s) = Some row" "\<not> active row"
    and "t_net env = (\<lambda>_. Delivered)" "t_others env = (\<lambda>x. x)" "rotate env raw meta s = (r, s1)"
    and "(token_step (t_hash env))\<^sup>*\<^sup>* s1 s2" "t_hash env' = t_hash env"
    and "row_by rt_hash (t_hash env raw') (tokens s2) = Some row'" "rt_family row' = rt_family row"
  shows "r = Inl invalid_token \<and> dead_family (rt_family row) s1 \<and> \<not> is_ok (fst (rotate env' raw' meta' s2))"
proof -
  have r: "r = Inl invalid_token" and s1: "s1 = revoke_family env (rt_family row) REVOKE_REASON_REUSE s"
    using assms(2-6) by (auto simp: rotate_def active_def t_commit_def)
  have row: "row \<in> set (tokens s)" using row_by_Some [OF assms(2)] by simp
  have tk: "tokens s1 = map (\<lambda>x. if rt_family x = rt_family row \<and> rt_revoked x = None
      then x\<lparr>rt_revoked := Some (t_db_now env), rt_reason := Some REVOKE_REASON_REUSE\<rparr> else x) (tokens s)"
    unfolding s1 revoke_family_def Let_def assms(5) by (auto intro: map_cong)
  have "rt_family ` set (tokens s1) = rt_family ` set (tokens s)" unfolding tk set_map image_image by (intro image_cong) auto
  then have "\<exists>x \<in> set (tokens s1). rt_family x = rt_family row" using row by (metis imageE imageI)
  moreover have "\<not> active x" if "x \<in> set (tokens s1)" "rt_family x = rt_family row" for x
    using that unfolding tk by (auto simp: active_def split: if_splits)
  ultimately have dead: "dead_family (rt_family row) s1" unfolding dead_family_def by blast
  have "token_adv s s1" using rotate_adv [of s env raw meta] assms(5,6) token_adv_refl by (metis snd_conv)
  with assms(1) have ok: "tokens_ok s1" by (simp add: token_adv_def)
  with token_reach_adv [OF assms(7)] dead have "dead_family (rt_family row) s2" by (simp add: token_adv_def)
  with assms(9,10) have "\<not> active row'" using row_by_Some [OF assms(9)] by (auto simp: dead_family_def)
  with rotate_refused(1) [of env' raw' s2 row' meta'] assms(8,9) r dead show ?thesis by simp
qed

lemma reuse_kills_the_family_witness:
  "dead_family ''f2'' (snd (rotate (sample_rt_env ''r3'' ''C'') ''A'' sample_meta sample_rotated))
   \<and> \<not> is_ok (fst (rotate (sample_rt_env ''r4'' ''D'') ''B'' sample_meta
         (snd (rotate (sample_rt_env ''r3'' ''C'') ''A'' sample_meta sample_rotated))))"
proof -
  let ?s1 = "snd (rotate (sample_rt_env ''r3'' ''C'') ''A'' sample_meta sample_rotated)"
  have a: "row_by rt_hash (sample_rt_hash ''A'') (tokens sample_rotated) = Some (tokens sample_rotated ! 0)"
    "\<not> active (tokens sample_rotated ! 0)" "rt_family (tokens sample_rotated ! 0) = ''f2''"
    "row_by rt_hash (sample_rt_hash ''B'') (tokens ?s1) = Some (tokens ?s1 ! 1)" "rt_family (tokens ?s1 ! 1) = ''f2''"
    by code_simp+
  show ?thesis
    using reuse_kills_the_family [of sample_rotated "sample_rt_env ''r3'' ''C''" "''A''" _ sample_meta _ ?s1 ?s1
        "sample_rt_env ''r4'' ''D''" "''B''" _ sample_meta, OF sample_login_ok(2) _ a(2) _ _ surjective_pairing]
      a by simp
qed

text \<open>The window of reuse detection: the family UPDATE does not see a token that an overlapping rotation
  of the same family inserts and commits while the UPDATE waits for its lock, so that token stays
  valid although the reuse was detected.\<close>

theorem reuse_misses_concurrent_rotation:
  assumes "row_by rt_hash (t_hash env raw) (tokens s) = Some row" "\<not> active row" "t_net env = (\<lambda>_. Delivered)"
    and "rotate env2 raw2 meta2 s = (Inr res, s2)" "t_others env s = s2" "rotate env raw meta s = (r, s1)"
  shows "r = Inl invalid_token \<and> (\<exists>x \<in> set (tokens s1). active x \<and> rt_hash x = t_hash env2 (r_token res))"
proof -
  have s1: "r = Inl invalid_token" "s1 = revoke_family env (rt_family row) REVOKE_REASON_REUSE s"
    using assms(1-3,6) by (auto simp: rotate_def active_def t_commit_def)
  from assms(4) obtain row2 where
    row2: "row_by rt_hash (t_hash env2 raw2) (tokens s) = Some row2" and new: "\<forall>x \<in> set (tokens s). rt_id x \<noteq> t_new_id env2"
    and res: "res = \<lparr>r_userId = rt_user row2, r_token = t_new_token env2, r_expiresIn = REFRESH_TOKEN_TTL_SECONDS\<rparr>"
    and s2: "s2 = consume env2 (rt_id row2) (t_new_id env2)
       (s\<lparr>tokens := tokens s @ [token_row env2 meta2 (rt_user row2) (rt_family row2) (Some (rt_id row2))]\<rparr>)"
    by (rule rotate_Inr) blast
  let ?x = "token_row env2 meta2 (rt_user row2) (rt_family row2) (Some (rt_id row2))"
  have "?x \<in> set (tokens s2)"
    using row_by_Some [OF row2] unfolding s2 by (simp add: consume_tokens [OF new])
  moreover have "rt_id ?x \<notin> set (map rt_id (tokens s))" using new by auto
  ultimately have "?x \<in> set (tokens s1)"
    unfolding s1(2) revoke_family_def Let_def assms(5) by (auto simp: image_iff intro!: bexI [of _ ?x])
  then show ?thesis using s1(1) res by (intro conjI bexI [of _ ?x]) simp_all
qed

lemma reuse_misses_concurrent_rotation_witness:
  "list_ex (\<lambda>x. active x \<and> rt_hash x = sample_rt_hash ''D'')
     (tokens (snd (rotate (sample_rt_env ''r3'' ''C'' \<lparr>t_others := \<lambda>s. snd (rotate (sample_rt_env ''r4'' ''D'') ''B'' sample_meta s)\<rparr>)
        ''A'' sample_meta sample_rotated)))"
proof -
  have a: "row_by rt_hash (sample_rt_hash ''A'') (tokens sample_rotated) = Some (tokens sample_rotated ! 0)"
    "\<not> active (tokens sample_rotated ! 0)"
    "fst (rotate (sample_rt_env ''r4'' ''D'') ''B'' sample_meta sample_rotated)
       = Inr \<lparr>r_userId = ''u'', r_token = ''D'', r_expiresIn = REFRESH_TOKEN_TTL_SECONDS\<rparr>"
    by code_simp+
  have "rotate (sample_rt_env ''r4'' ''D'') ''B'' sample_meta sample_rotated
      = (Inr \<lparr>r_userId = ''u'', r_token = ''D'', r_expiresIn = REFRESH_TOKEN_TTL_SECONDS\<rparr>,
         snd (rotate (sample_rt_env ''r4'' ''D'') ''B'' sample_meta sample_rotated))"
    using a(3) by (metis prod.collapse)
  from reuse_misses_concurrent_rotation [of "sample_rt_env ''r3'' ''C'' \<lparr>t_others := \<lambda>s. snd (rotate (sample_rt_env ''r4'' ''D'') ''B'' sample_meta s)\<rparr>",
      OF _ a(2) _ this _ surjective_pairing] a(1)
  show ?thesis by (auto simp: list_ex_iff)
qed

end
