(* ===== verification/Paging.thy ===== *)
theory Paging
  imports PurchaseTransaction "HOL-Library.List_Lexorder" "HOL-Library.Product_Lexorder" "HOL-Library.Char_ord"
begin

text \<open>
  Keyset pagination, the loop that the operators' tools share (src/cutover/, src/search/): read the next
  page of rows in key order after the last key seen, handle its rows one by one, stop at an empty or a
  short page. An exception, of a query or of a handler, ends the loop. A uuid column is ordered like its
  lower-case text.
\<close>

definition page :: "('r \<Rightarrow> 'k::linorder) \<Rightarrow> 'k option \<Rightarrow> nat \<Rightarrow> 'r list \<Rightarrow> 'r list" where
  "page key after n rows =
     take n (sort_key key (filter (\<lambda>r. case after of None \<Rightarrow> True | Some k \<Rightarrow> k < key r) rows))"

text \<open>A handler changes a state and may throw.\<close>

type_synonym ('r, 's) handler = "'r \<Rightarrow> 's \<Rightarrow> unit result \<times> 's"

fun each_row :: "('r, 's) handler \<Rightarrow> 'r list \<Rightarrow> 's \<Rightarrow> unit result \<times> 's" where
  "each_row f [] st = (Inr (), st)"
| "each_row f (r # rs) st = (case f r st of (Inl e, st') \<Rightarrow> (Inl e, st') | (Inr _, st') \<Rightarrow> each_row f rs st')"

definition and_then :: "unit result \<times> 's \<Rightarrow> ('s \<Rightarrow> unit result \<times> 's) \<Rightarrow> unit result \<times> 's" where
  "and_then r f = (case r of (Inl e, st) \<Rightarrow> (Inl e, st) | (Inr _, st) \<Rightarrow> f st)"

text \<open>\<open>boundedPageSize\<close>: a page holds between 1 and 1000 rows.\<close>

definition DEFAULT_PAGE_SIZE :: int where
  "DEFAULT_PAGE_SIZE = 200"

definition boundedPageSize :: "int option \<Rightarrow> nat" where
  "boundedPageSize pageSize =
     nat (max 1 (min (case pageSize of None \<Rightarrow> DEFAULT_PAGE_SIZE | Some n \<Rightarrow> n) 1000))"

lemma boundedPageSize_pos [simp]: "0 < boundedPageSize n"
  by (simp add: boundedPageSize_def)

text \<open>The rows behind a key.\<close>

definition beyond :: "('r \<Rightarrow> 'k::linorder) \<Rightarrow> 'k option \<Rightarrow> 'r list \<Rightarrow> 'r list" where
  "beyond key after rows = filter (\<lambda>r. case after of None \<Rightarrow> True | Some k \<Rightarrow> k < key r) rows"

lemma last_page: "page key after n rows \<noteq> [] \<Longrightarrow> last (page key after n rows) \<in> set (beyond key after rows)"
  by (metis beyond_def in_set_takeD last_in_set page_def set_sort)

lemma beyond_last:
  assumes "page key after n rows \<noteq> []"
  shows "beyond key (Some (key (last (page key after n rows)))) rows
    = filter (\<lambda>r. key (last (page key after n rows)) < key r) (beyond key after rows)"
proof -
  have "case after of None \<Rightarrow> True | Some k \<Rightarrow> k < key (last (page key after n rows))"
    using last_page [OF assms] by (simp add: beyond_def)
  then show ?thesis unfolding beyond_def filter_filter
    by (intro filter_cong) (auto split: option.splits)
qed

text \<open>The loop; \<open>fails i\<close> says whether the query for page \<open>i\<close> is lost.\<close>

function paged_loop ::
    "('r \<Rightarrow> 'k::linorder) \<Rightarrow> nat \<Rightarrow> (nat \<Rightarrow> bool) \<Rightarrow> 'r list \<Rightarrow> ('r, 's) handler \<Rightarrow> nat \<Rightarrow> 'k option \<Rightarrow> 's \<Rightarrow> unit result \<times> 's" where
  "paged_loop key n fails rows f i after st =
     (if fails i then (Inl connection_lost, st)
      else (let p = page key after n rows
            in if p = [] then (Inr (), st)
               else (case each_row f p st of
                   (Inl e, st') \<Rightarrow> (Inl e, st')
                 | (Inr _, st') \<Rightarrow>
                     if length p < n then (Inr (), st')
                     else paged_loop key n fails rows f (Suc i) (Some (key (last p))) st')))"
  by pat_completeness auto

termination
proof (relation "measure (\<lambda>(key, n, fails, rows, f, i, after, st). length (beyond key after rows))", simp, goal_cases)
  case (1 key n fails rows f i after st p r st' e)
  let ?l = "last (page key after n rows)"
  have ne: "page key after n rows \<noteq> []" using 1 by simp
  have "length (filter (\<lambda>r. key ?l < key r) (beyond key after rows)) < length (beyond key after rows)"
    using last_page [OF ne] by (intro length_filter_less) auto
  then show ?case using beyond_last [OF ne] 1 by simp
qed

declare paged_loop.simps [simp del]

lemma each_row_append:
  "each_row f (xs @ ys) st = (case each_row f xs st of (Inl e, st') \<Rightarrow> (Inl e, st') | (Inr _, st') \<Rightarrow> each_row f ys st')"
  by (induction xs arbitrary: st) (auto split: prod.split sum.split)

text \<open>The rows behind a full page, of a sorted list without repeated keys.\<close>

lemma behind_page:
  assumes "sorted (map key xs)" "distinct (map key xs)" "0 < n" "n \<le> length xs"
  shows "filter (\<lambda>r. key (last (take n xs)) < key r) xs = drop n xs"
proof -
  have l: "last (take n xs) = xs ! (n - 1)" using assms(3,4) by (subst last_conv_nth) (auto simp: min_def)
  have s: "sorted_wrt (<) (map key xs)" using assms(1,2) by (simp add: strict_sorted_iff)
  have "filter (\<lambda>r. key (xs ! (n - 1)) < key r) (take n xs) = []"
  proof (rule filter_False, rule ballI)
    fix r assume "r \<in> set (take n xs)"
    then obtain j where j: "j < n" "r = xs ! j" using assms(4) by (auto simp: in_set_conv_nth)
    have "sorted (map key xs)" by fact
    then have "key r \<le> key (xs ! (n - 1))"
      using sorted_nth_mono [of "map key xs" j "n - 1"] j assms(3,4) by simp
    then show "\<not> key (xs ! (n - 1)) < key r" by simp
  qed
  moreover have "filter (\<lambda>r. key (xs ! (n - 1)) < key r) (drop n xs) = drop n xs"
  proof (rule filter_True, rule ballI)
    fix r assume "r \<in> set (drop n xs)"
    then obtain j where "j < length xs - n" "r = drop n xs ! j" by (auto simp: in_set_conv_nth)
    then have j: "n + j < length xs" "r = xs ! (n + j)" by simp_all
    then show "key (xs ! (n - 1)) < key r"
      using sorted_wrt_nth_less [OF s, of "n - 1" "n + j"] assms(3) by simp
  qed
  ultimately have "filter (\<lambda>r. key (xs ! (n - 1)) < key r) (take n xs @ drop n xs) = drop n xs"
    by (simp only: filter_append append_Nil)
  then show ?thesis unfolding l by simp
qed

lemma paged_loop_beyond:
  assumes "distinct (map key rows)" "0 < n" "\<forall>i. \<not> fails i"
  shows "paged_loop key n fails rows f i after st = each_row f (sort_key key (beyond key after rows)) st"
  using assms
proof (induction key n fails rows f i after st rule: paged_loop.induct)
  case (1 key n fails rows f i after st)
  let ?xs = "sort_key key (beyond key after rows)" and ?p = "page key after n rows"
  have p: "?p = take n ?xs" by (simp add: page_def beyond_def)
  have d: "distinct (map key ?xs)"
    using "1.prems"(1) by (simp add: beyond_def distinct_map inj_on_def)
  have split: "each_row f ?xs st = (case each_row f ?p st of (Inl e, st') \<Rightarrow> (Inl e, st')
      | (Inr _, st') \<Rightarrow> each_row f (drop n ?xs) st')"
    using each_row_append [of f ?p "drop n ?xs" st] by (simp only: p append_take_drop_id)
  consider "?p = []" | "?p \<noteq> []" "length ?p < n" | "?p \<noteq> []" "n \<le> length ?xs" by (fastforce simp: p)
  then show ?case
  proof cases
    case 1
    then have "?xs = []" using \<open>0 < n\<close> p by simp
    with 1 "1.prems" show ?thesis by (subst paged_loop.simps) simp
  next
    case 2
    then have "drop n ?xs = []" by (simp add: p)
    with 2 "1.prems" split show ?thesis by (subst paged_loop.simps) (auto split: prod.split sum.split)
  next
    case 3
    then have full: "\<not> length ?p < n" by (simp add: p)
    have "sort_key key (beyond key (Some (key (last ?p))) rows) = filter (\<lambda>r. key (last ?p) < key r) ?xs"
      unfolding beyond_last [OF 3(1)] by (simp add: filter_sort)
    also have "\<dots> = drop n ?xs"
      unfolding p using behind_page [OF _ d "1.prems"(2) 3(2)] by simp
    finally have rest: "sort_key key (beyond key (Some (key (last ?p))) rows) = drop n ?xs" .
    show ?thesis
    proof (cases "each_row f ?p st")
      case (Pair r st')
      show ?thesis
      proof (cases r)
        case (Inl e)
        with Pair 3 "1.prems" split show ?thesis by (subst paged_loop.simps) simp
      next
        case (Inr u)
        have "paged_loop key n fails rows f (Suc i) (Some (key (last ?p))) st' = each_row f (drop n ?xs) st'"
          using "1.IH" [OF _ refl 3(1) Pair [symmetric] Inr full "1.prems"] "1.prems"(3) unfolding rest by blast
        with Pair Inr 3 full "1.prems" split show ?thesis by (subst paged_loop.simps) simp
      qed
    qed
  qed
qed

text \<open>A loop that ends well met no lost query, and no handler threw.\<close>

lemma paged_loop_Inr:
  "paged_loop key n fails rows f i after st = (Inr u, st') \<Longrightarrow> paged_loop key n (\<lambda>_. False) rows f i after st = (Inr u, st')"
proof (induction key n fails rows f i after st arbitrary: u st' rule: paged_loop.induct)
  case (1 key n fails rows f i after st)
  let ?p = "page key after n rows"
  from "1.prems" have ok: "\<not> fails i" by (subst (asm) paged_loop.simps) (auto split: if_splits)
  show ?case
  proof (cases "?p = []")
    case True
    with "1.prems" ok show ?thesis by (subst paged_loop.simps, subst (asm) paged_loop.simps) simp
  next
    case False
    from "1.prems" [unfolded paged_loop.simps [of key n fails rows f i after st]] ok False
    obtain u1 st1 where e: "each_row f ?p st = (Inr u1, st1)"
      and r: "(if length ?p < n then (Inr (), st1) else paged_loop key n fails rows f (Suc i) (Some (key (last ?p))) st1) = (Inr u, st')"
      by (auto simp: Let_def split: prod.splits sum.splits)
    show ?thesis
    proof (cases "length ?p < n")
      case True
      with False e r show ?thesis by (subst paged_loop.simps) simp
    next
      case full: False
      have "paged_loop key n (\<lambda>_. False) rows f (Suc i) (Some (key (last ?p))) st1 = (Inr u, st')"
        using "1.IH" [OF ok refl False e [symmetric] refl full] r full by simp
      with False e full show ?thesis by (subst paged_loop.simps) simp
    qed
  qed
qed

text \<open>The pages of a table are its rows: with a page size of at least one and a unique key, the loop ends
  and handles every row exactly once, in key order, whatever the page size, exactly as one pass over
  the sorted table would, up to the first exception.\<close>

theorem paged_loop_visits_every_row:
  assumes "distinct (map key rows)"
  shows "paged_loop key (boundedPageSize n) (\<lambda>_. False) rows f 0 None st = each_row f (sort_key key rows) st"
  using paged_loop_beyond [OF assms boundedPageSize_pos, of "\<lambda>_. False" n f 0 None st] by (simp add: beyond_def)

text \<open>Five rows in pages of two, added up in key order.\<close>

theorem paged_loop_visits_every_row_witness:
  "paged_loop fst (boundedPageSize (Some 2)) (\<lambda>_. False) [(3, ''c''), (1, ''a''), (5::nat, ''e''), (2, ''b''), (4, ''d'')]
     (\<lambda>r st. (Inr (), st @ snd r)) 0 None '''' = (Inr (), ''abcde'')"
proof -
  have "distinct (map fst [(3, ''c''), (1, ''a''), (5::nat, ''e''), (2, ''b''), (4, ''d'')])" by simp
  from paged_loop_visits_every_row [OF this, of "Some 2" "\<lambda>r st. (Inr (), st @ snd r)" "''''"] show ?thesis
    by simp
qed

lemma paged_loop_each_row:
  assumes "distinct (map key rows)" "paged_loop key (boundedPageSize n) fails rows f 0 None st = (Inr u, st')"
  shows "each_row f (sort_key key rows) st = (Inr (), st')"
  using paged_loop_Inr [OF assms(2)] paged_loop_beyond [OF assms(1) boundedPageSize_pos, of "\<lambda>_. False" n f 0 None st]
  by (simp add: beyond_def)

text \<open>Invariants of the loop: \<open>P\<close> between two rows, \<open>Q\<close> also after a handler threw.\<close>

lemma each_row_invar:
  assumes "P st" "\<And>r st u st'. r \<in> set rs \<Longrightarrow> P st \<Longrightarrow> f r st = (Inr u, st') \<Longrightarrow> P st'"
    and "\<And>r st e st'. r \<in> set rs \<Longrightarrow> P st \<Longrightarrow> f r st = (Inl e, st') \<Longrightarrow> Q st'"
  shows "case each_row f rs st of (Inl e, st') \<Rightarrow> Q st' | (Inr u, st') \<Rightarrow> P st'"
  using assms
proof (induction rs arbitrary: st)
  case (Cons r rs)
  obtain x st1 where f: "f r st = (x, st1)" by fastforce
  show ?case
  proof (cases x)
    case (Inl e)
    with f Cons.prems(3) [of r st e st1] Cons.prems(1) show ?thesis by simp
  next
    case (Inr u)
    with f Cons.prems(2) [of r st u st1] Cons.prems(1) have "P st1" by simp
    have "case each_row f rs st1 of (Inl e, st') \<Rightarrow> Q st' | (Inr u, st') \<Rightarrow> P st'"
      by (rule Cons.IH [OF \<open>P st1\<close>]) (blast intro: Cons.prems(2,3) list.set_intros(2))+
    with f Inr show ?thesis by simp
  qed
qed simp

lemma page_subset: "set (page key after n rows) \<subseteq> set rows"
  by (auto simp: page_def dest: in_set_takeD)

lemma paged_loop_invar:
  assumes "P st" "\<And>r st u st'. r \<in> set rows \<Longrightarrow> P st \<Longrightarrow> f r st = (Inr u, st') \<Longrightarrow> P st'"
    and "\<And>r st e st'. r \<in> set rows \<Longrightarrow> P st \<Longrightarrow> f r st = (Inl e, st') \<Longrightarrow> Q st'"
    and "\<And>st. P st \<Longrightarrow> Q st"
  shows "case paged_loop key n fails rows f i after st of (Inl e, st') \<Rightarrow> Q st' | (Inr u, st') \<Rightarrow> P st'"
  using assms
proof (induction key n fails rows f i after st rule: paged_loop.induct)
  case (1 key n fails rows f i after st)
  show ?case
  proof (cases "fails i \<or> page key after n rows = []")
    case True
    with "1.prems"(1,4) show ?thesis by (subst paged_loop.simps) auto
  next
    case False
    obtain x st1 where e: "each_row f (page key after n rows) st = (x, st1)" by fastforce
    with each_row_invar [of P st "page key after n rows" f Q, OF "1.prems"(1)] "1.prems"(2,3) page_subset [of key after n rows]
    have st1: "case x of Inl e \<Rightarrow> Q st1 | Inr u \<Rightarrow> P st1" by (cases x) fastforce+
    show ?thesis
    proof (cases x)
      case (Inl ex)
      with False e st1 show ?thesis by (subst paged_loop.simps) simp
    next
      case (Inr u)
      show ?thesis
      proof (cases "length (page key after n rows) < n")
        case True
        with False e Inr st1 show ?thesis by (subst paged_loop.simps) simp
      next
        case full: False
        have "case paged_loop key n fails rows f (Suc i) (Some (key (last (page key after n rows)))) st1 of
            (Inl e, st') \<Rightarrow> Q st' | (Inr u, st') \<Rightarrow> P st'"
          using "1.IH" [OF _ refl _ e [symmetric] Inr full _ "1.prems"(2-4)] False Inr st1 by simp
        with False e Inr full show ?thesis by (subst paged_loop.simps) simp
      qed
    qed
  qed
qed

end
