(* ===== verification/ProjectionSource.thy ===== *)
theory ProjectionSource
  imports Paging ProjectionStore
begin

text \<open>
  The authoritative reader of src/search/inventory-projection-source.ts: one snapshot of the inventory
  tables with the search metadata of the Event rows, read page by page for the rebuild and the
  reconciliation, or for one Event for the repair.
\<close>

section \<open>Authoritative values\<close>

record AuthoritativeTicketType =
  at_ticketTypeId :: string
  at_name :: string
  at_totalQuantity :: int
  at_remainingQuantity :: int
  at_inventoryVersion :: TicketTypeInventoryVersion

record AuthoritativeEventMetadata =
  am_title :: string
  am_eventType :: string
  am_startsAt :: string
  am_latitude :: "rat option"
  am_longitude :: "rat option"

record AuthoritativeEventInventory =
  ae_eventId :: string
  ae_eventTotalQuantity :: int
  ae_eventRemainingQuantity :: int
  ae_eventInventoryVersion :: EventInventoryVersion
  ae_metadata :: AuthoritativeEventMetadata
  ae_ticketTypes :: "AuthoritativeTicketType list"

text \<open>
  The metadata columns of an Event row as the driver returns them; a coordinate as the number its
  decimal text denotes.
\<close>

record event_columns =
  ec_title :: string
  ec_event_type :: string
  ec_starts_at :: string
  ec_latitude :: "jsnum option"
  ec_longitude :: "jsnum option"

text \<open>\<open>date_iso\<close> is \<open>new Date(value).toISOString()\<close>, None for an invalid date.\<close>

definition toIsoString :: "(string \<Rightarrow> string option) \<Rightarrow> string \<Rightarrow> string result" where
  "toIsoString date_iso value =
     (case date_iso value of None \<Rightarrow> Inl (PlainError ''authoritative starts_at is not a valid timestamp'') | Some s \<Rightarrow> Inr s)"

definition toCoordinateOrNull :: "jsnum option \<Rightarrow> rat option result" where
  "toCoordinateOrNull value =
     (case value of
        None \<Rightarrow> Inr None
      | Some (Fin r) \<Rightarrow> Inr (Some r)
      | _ \<Rightarrow> Inl (PlainError ''authoritative coordinate is not a finite number''))"

fun map_result :: "('a \<Rightarrow> 'b result) \<Rightarrow> 'a list \<Rightarrow> 'b list result" where
  "map_result f [] = Inr []"
| "map_result f (x # xs) = bind_result (f x) (\<lambda>y. bind_result (map_result f xs) (\<lambda>ys. Inr (y # ys)))"

section \<open>Reading\<close>

text \<open>The Type rows of one Event joined with their definitions, in the order of their ids.\<close>

definition type_rows :: "pg \<Rightarrow> string \<Rightarrow> (tti_row \<times> string) list" where
  "type_rows s e =
     concat (map (\<lambda>r. map (\<lambda>t. (r, type_name t)) (filter (\<lambda>t. type_id t = tti_type r) (ticket_types s)))
       (sort_key tti_type (filter (\<lambda>r. tti_event r = e) (ticket_type_inventory s))))"

definition authoritative_type :: "tti_row \<times> string \<Rightarrow> AuthoritativeTicketType result" where
  "authoritative_type p =
     map_sum id (\<lambda>v. \<lparr>at_ticketTypeId = tti_type (fst p), at_name = snd p, at_totalQuantity = tti_total (fst p),
         at_remainingQuantity = tti_remaining (fst p), at_inventoryVersion = v\<rparr>)
       (toTicketTypeInventoryVersion (jsint (tti_version (fst p))))"

definition authoritative_metadata :: "(string \<Rightarrow> string option) \<Rightarrow> event_columns \<Rightarrow> AuthoritativeEventMetadata result" where
  "authoritative_metadata date_iso c =
     bind_result (toIsoString date_iso (ec_starts_at c)) (\<lambda>startsAt.
     bind_result (toCoordinateOrNull (ec_latitude c)) (\<lambda>latitude.
     bind_result (toCoordinateOrNull (ec_longitude c)) (\<lambda>longitude.
     Inr \<lparr>am_title = ec_title c, am_eventType = ec_event_type c, am_startsAt = startsAt,
          am_latitude = latitude, am_longitude = longitude\<rparr>)))"

definition authoritative_event ::
    "(string \<Rightarrow> string option) \<Rightarrow> (string \<Rightarrow> event_columns) \<Rightarrow> pg \<Rightarrow> ti_row \<Rightarrow> AuthoritativeEventInventory result" where
  "authoritative_event date_iso columns s a =
     bind_result (map_result authoritative_type (type_rows s (ti_event a))) (\<lambda>types.
     bind_result (toEventInventoryVersion (jsint (ti_version a))) (\<lambda>version.
     bind_result (authoritative_metadata date_iso (columns (ti_event a))) (\<lambda>metadata.
     Inr \<lparr>ae_eventId = ti_event a, ae_eventTotalQuantity = ti_total a, ae_eventRemainingQuantity = ti_remaining a,
          ae_eventInventoryVersion = version, ae_metadata = metadata, ae_ticketTypes = types\<rparr>)))"

text \<open>The Event rows of the inventory that join an Event.\<close>

definition event_rows :: "pg \<Rightarrow> ti_row list" where
  "event_rows s = filter (\<lambda>a. ti_event a \<in> set (events s)) (ticket_inventory s)"

text \<open>
  \<open>iterateAuthoritativeInventory\<close> with the body of the loop that consumes it; \<open>fails i\<close> says whether one
  of the two queries for page \<open>i\<close> is lost.
\<close>

definition iterateAuthoritativeInventory ::
    "(string \<Rightarrow> string option) \<Rightarrow> (string \<Rightarrow> event_columns) \<Rightarrow> (nat \<Rightarrow> bool) \<Rightarrow> pg \<Rightarrow> int
       \<Rightarrow> (AuthoritativeEventInventory, 's) handler \<Rightarrow> 's \<Rightarrow> unit result \<times> 's" where
  "iterateAuthoritativeInventory date_iso columns fails s pageSize body st =
     paged_loop ti_event (boundedPageSize (Some pageSize)) fails (event_rows s)
       (\<lambda>a st. case authoritative_event date_iso columns s a of Inl e \<Rightarrow> (Inl e, st) | Inr x \<Rightarrow> body x st) 0 None st"

definition readAuthoritativeEventInventory ::
    "(string \<Rightarrow> string option) \<Rightarrow> (string \<Rightarrow> event_columns) \<Rightarrow> pg \<Rightarrow> string \<Rightarrow> AuthoritativeEventInventory option result" where
  "readAuthoritativeEventInventory date_iso columns s eventId =
     (case filter (\<lambda>a. ti_event a = pg_uuid eventId) (event_rows s) of
        [] \<Rightarrow> Inr None
      | a # _ \<Rightarrow> map_sum id Some (authoritative_event date_iso columns s a))"

section \<open>What is read\<close>

lemma map_result_Inr:
  "map_result f xs = Inr ys \<Longrightarrow> length ys = length xs \<and> (\<forall>i < length xs. f (xs ! i) = Inr (ys ! i))"
proof (induction xs arbitrary: ys)
  case (Cons x xs)
  then obtain y ys' where "f x = Inr y" "map_result f xs = Inr ys'" "ys = y # ys'" by (auto simp: bind_result_Inr)
  with Cons.IH [of ys'] show ?case by (auto simp: nth_Cons split: nat.split)
qed simp

lemma map_result_total: "\<forall>x \<in> set xs. f x = Inr (g x) \<Longrightarrow> map_result f xs = Inr (map g xs)"
  by (induction xs) simp_all

lemma authoritative_event_Inr:
  assumes "authoritative_event date_iso columns s a = Inr x"
  shows "ae_eventId x = ti_event a" "ae_eventTotalQuantity x = ti_total a" "ae_eventRemainingQuantity x = ti_remaining a"
    "toEventInventoryVersion (jsint (ti_version a)) = Inr (ae_eventInventoryVersion x)"
    "authoritative_metadata date_iso (columns (ti_event a)) = Inr (ae_metadata x)"
    "map_result authoritative_type (type_rows s (ti_event a)) = Inr (ae_ticketTypes x)"
  using assms by (auto simp: authoritative_event_def bind_result_Inr)

end
