(* ===== verification/Reconciliation.thy ===== *)
theory Reconciliation
  imports ProjectionSource
begin

text \<open>
  The read-only comparison of PostgreSQL with the search projection,
  src/search/inventory-reconciliation.service.ts: the difference categories, the comparison of one Event
  with its document, the two passes and the report. A document is the object of fields that OpenSearch
  returns.
\<close>

section \<open>Report\<close>

definition RECONCILIATION_CATEGORIES :: "string list" where
  "RECONCILIATION_CATEGORIES =
     [''missing_event_document'', ''unexpected_event_document'', ''missing_ticket_type'', ''unexpected_ticket_type'',
      ''ticket_type_total_mismatch'', ''ticket_type_remaining_mismatch'', ''ticket_type_version_mismatch'',
      ''event_total_mismatch'', ''event_remaining_mismatch'', ''event_version_mismatch'', ''metadata_mismatch'',
      ''contract_corruption'', ''unversioned_projection'', ''malformed_projection'']"

record ReconciliationFinding =
  rf_eventId :: string
  rf_category :: string
  rf_ticketTypeId :: "string option"

record ReconciliationReport =
  rp_index :: string
  rp_checkedEvents :: int
  rp_checkedDocuments :: int
  rp_counts :: "(string \<times> int) list"
  rp_totalDiffs :: int
  rp_findings :: "ReconciliationFinding list"
  rp_hasDiff :: bool

record ReconciliationOptions =
  ro_index :: "string option"
  ro_pageSize :: "int option"
  ro_maxFindings :: "int option"

section \<open>Comparing one Event\<close>

definition asQuantityOrNull :: "jsval \<Rightarrow> int option" where
  "asQuantityOrNull v =
     (if isSafeInteger v \<and> number_value v \<ge> 0 \<and> number_value v \<le> POSTGRES_INT4_MAX then Some (number_value v) else None)"

definition asVersionOrNull :: "jsval \<Rightarrow> int option" where
  "asVersionOrNull v = (if isSafeInteger v \<and> number_value v \<ge> 0 then Some (number_value v) else None)"

definition COORDINATE_TOLERANCE :: rat where
  "COORDINATE_TOLERANCE = 1 / 1000000"

text \<open>A property of a value: the field of an object, nothing of anything else.\<close>

definition property_of :: "jsval \<Rightarrow> string \<Rightarrow> jsval" where
  "property_of v name = (case v of JObject fs \<Rightarrow> get_field fs name | _ \<Rightarrow> JUndefined)"

definition coordinate_near :: "jsval \<Rightarrow> rat \<Rightarrow> bool" where
  "coordinate_near v r = (case v of JNumber (Fin x) \<Rightarrow> \<bar>x - r\<bar> < COORDINATE_TOLERANCE | _ \<Rightarrow> False)"

text \<open>\<open>date_ms\<close> is \<open>Date.parse\<close>, None for NaN.\<close>

definition metadataMatches :: "(string \<Rightarrow> int option) \<Rightarrow> AuthoritativeEventMetadata \<Rightarrow> (string \<times> jsval) list \<Rightarrow> bool" where
  "metadataMatches date_ms a doc =
     (get_field doc ''title'' = JString (am_title a)
    \<and> get_field doc ''event_type'' = JString (am_eventType a)
    \<and> (case get_field doc ''starts_at'' of
         JString s \<Rightarrow> date_ms s \<noteq> None \<and> date_ms s = date_ms (am_startsAt a)
       | _ \<Rightarrow> False)
    \<and> (let location = get_field doc ''location''
       in (case (am_latitude a, am_longitude a) of
             (Some lat, Some lon) \<Rightarrow>
               coordinate_near (property_of location ''lat'') lat \<and> coordinate_near (property_of location ''lon'') lon
           | _ \<Rightarrow> is_nullish location)))"

text \<open>
  \<open>compareEvent\<close> as the list of the \<open>record\<close> calls it makes, each a category and perhaps a Ticket Type.
  The map of the document's Types keeps the place of the first entry and the value of the last one.
\<close>

type_synonym difference = "string \<times> string option"

fun doc_types :: "jsval list \<Rightarrow> (string \<times> jsval) list \<Rightarrow> difference list \<times> (string \<times> jsval) list" where
  "doc_types [] m = ([], m)"
| "doc_types (t # ts) m =
     (case property_of t ''ticket_type_id'' of
        JString tid \<Rightarrow> doc_types ts (put_row fst (tid, t) m)
      | _ \<Rightarrow> (let (ds, m') = doc_types ts m in ((''malformed_projection'', None) # ds, m')))"

definition when_differs :: "bool \<Rightarrow> string \<Rightarrow> string option \<Rightarrow> difference list" where
  "when_differs b category t = (if b then [(category, t)] else [])"

definition compare_type :: "(string \<times> jsval) list \<Rightarrow> AuthoritativeTicketType \<Rightarrow> difference list" where
  "compare_type docTypes a =
     (let tid = Some (at_ticketTypeId a)
      in (case map_of docTypes (at_ticketTypeId a) of
            None \<Rightarrow> [(''missing_ticket_type'', tid)]
          | Some dt \<Rightarrow>
              (case (asQuantityOrNull (property_of dt ''total_quantity''), asQuantityOrNull (property_of dt ''remaining_quantity''),
                     asVersionOrNull (property_of dt ''inventory_version'')) of
                 (Some dtTotal, Some dtRemaining, Some dtVersion) \<Rightarrow>
                   if dtVersion = ttv (at_inventoryVersion a)
                   then when_differs (dtTotal \<noteq> at_totalQuantity a \<or> dtRemaining \<noteq> at_remainingQuantity a
                          \<or> property_of dt ''name'' \<noteq> JString (at_name a)) ''contract_corruption'' tid
                   else (''ticket_type_version_mismatch'', tid)
                     # when_differs (dtTotal \<noteq> at_totalQuantity a) ''ticket_type_total_mismatch'' tid
                     @ when_differs (dtRemaining \<noteq> at_remainingQuantity a) ''ticket_type_remaining_mismatch'' tid
               | _ \<Rightarrow> [(''malformed_projection'', tid)])))"

definition compare_aggregate :: "AuthoritativeEventInventory \<Rightarrow> int \<Rightarrow> int \<Rightarrow> int \<Rightarrow> difference list" where
  "compare_aggregate a docVersion docTotal docRemaining =
     (if docVersion = evv (ae_eventInventoryVersion a)
      then when_differs (docTotal \<noteq> ae_eventTotalQuantity a \<or> docRemaining \<noteq> ae_eventRemainingQuantity a) ''contract_corruption'' None
      else (''event_version_mismatch'', None)
        # when_differs (docTotal \<noteq> ae_eventTotalQuantity a) ''event_total_mismatch'' None
        @ when_differs (docRemaining \<noteq> ae_eventRemainingQuantity a) ''event_remaining_mismatch'' None)"

definition compare_versioned ::
    "(string \<Rightarrow> int option) \<Rightarrow> AuthoritativeEventInventory \<Rightarrow> (string \<times> jsval) list \<Rightarrow> int \<Rightarrow> int \<Rightarrow> int \<Rightarrow> jsval list
       \<Rightarrow> difference list" where
  "compare_versioned date_ms a doc docVersion docTotal docRemaining ts =
     (let (malformed, docTypes) = doc_types ts []
      in compare_aggregate a docVersion docTotal docRemaining
       @ when_differs (\<not> metadataMatches date_ms (ae_metadata a) doc) ''metadata_mismatch'' None
       @ malformed
       @ concat (map (compare_type docTypes) (ae_ticketTypes a))
       @ map (\<lambda>p. (''unexpected_ticket_type'', Some (fst p)))
           (filter (\<lambda>p. fst p \<notin> at_ticketTypeId ` set (ae_ticketTypes a)) docTypes))"

definition is_string :: "jsval \<Rightarrow> bool" where
  "is_string v = (case v of JString _ \<Rightarrow> True | _ \<Rightarrow> False)"

definition compareEvent ::
    "(string \<Rightarrow> int option) \<Rightarrow> AuthoritativeEventInventory \<Rightarrow> (string \<times> jsval) list \<Rightarrow> difference list" where
  "compareEvent date_ms a doc =
     (let types = get_field doc ''ticket_types'';
          ticketTypesEmpty = (is_nullish types \<or> types = JArray []);
          allVersionedAbsent = (is_nullish (get_field doc ''event_inventory_version'') \<and> is_nullish (get_field doc ''event_total_quantity'')
            \<and> is_nullish (get_field doc ''event_remaining_quantity'') \<and> ticketTypesEmpty);
          hasMetadata = (is_string (get_field doc ''title'') \<or> is_string (get_field doc ''event_type'')
            \<or> is_string (get_field doc ''starts_at''))
      in if allVersionedAbsent
         then (if asQuantityOrNull (get_field doc ''remaining_quantity'') \<noteq> None \<or> hasMetadata
               then [(''unversioned_projection'', None)] else [(''malformed_projection'', None)])
         else (case (asVersionOrNull (get_field doc ''event_inventory_version''), asQuantityOrNull (get_field doc ''event_total_quantity''),
                     asQuantityOrNull (get_field doc ''event_remaining_quantity''), types) of
             (Some docVersion, Some docTotal, Some docRemaining, JArray ts) \<Rightarrow>
               compare_versioned date_ms a doc docVersion docTotal docRemaining ts
           | _ \<Rightarrow> [(''malformed_projection'', None)]))"

section \<open>The run\<close>

record reconcile_run =
  rr_counts :: "string \<Rightarrow> int"
  rr_findings :: "ReconciliationFinding list"
  rr_checkedEvents :: int
  rr_checkedDocuments :: int
  rr_page :: "AuthoritativeEventInventory list"
  rr_mgets :: nat

definition record_diff :: "int \<Rightarrow> string \<Rightarrow> difference \<Rightarrow> reconcile_run \<Rightarrow> reconcile_run" where
  "record_diff maxFindings eventId d st =
     st\<lparr>rr_counts := (rr_counts st)(fst d := rr_counts st (fst d) + 1),
        rr_findings := (if int (length (rr_findings st)) < maxFindings
          then rr_findings st @ [\<lparr>rf_eventId = eventId, rf_category = fst d, rf_ticketTypeId = (if snd d = Some [] then None else snd d)\<rparr>]
          else rr_findings st)\<rparr>"

text \<open>
  What the run meets: the documents that its \<open>n\<close>-th \<open>mget\<close> returns, the hits of its searches up to the
  last one that has any, and the queries that are lost. A hit is its \<open>_id\<close>, its \<open>event_id\<close> field and
  whether it carries a sort value.
\<close>

record hit =
  h_id :: string
  h_event_id :: jsval
  h_sort :: bool

record reconcile_env =
  re_begin :: link
  re_page :: "nat \<Rightarrow> bool"
  re_mget :: "nat \<Rightarrow> (string \<Rightarrow> (string \<times> jsval) list option) result"
  re_search :: "hit list result list"
  re_present :: "nat \<Rightarrow> bool"
  re_end :: link

definition compare_one ::
    "(string \<Rightarrow> int option) \<Rightarrow> int \<Rightarrow> (string \<Rightarrow> (string \<times> jsval) list option) \<Rightarrow> AuthoritativeEventInventory
       \<Rightarrow> reconcile_run \<Rightarrow> reconcile_run" where
  "compare_one date_ms maxFindings docs a st =
     (let st1 = st\<lparr>rr_checkedEvents := rr_checkedEvents st + 1\<rparr>
      in (case docs (ae_eventId a) of
            None \<Rightarrow> record_diff maxFindings (ae_eventId a) (''missing_event_document'', None) st1
          | Some doc \<Rightarrow> fold (record_diff maxFindings (ae_eventId a)) (compareEvent date_ms a doc)
                (st1\<lparr>rr_checkedDocuments := rr_checkedDocuments st1 + 1\<rparr>)))"

definition flush_page ::
    "(string \<Rightarrow> int option) \<Rightarrow> reconcile_env \<Rightarrow> int \<Rightarrow> reconcile_run \<Rightarrow> unit result \<times> reconcile_run" where
  "flush_page date_ms env maxFindings st =
     (if rr_page st = [] then (Inr (), st)
      else (case re_mget env (rr_mgets st) of
          Inl e \<Rightarrow> (Inl e, st)
        | Inr docs \<Rightarrow> (Inr (), (fold (compare_one date_ms maxFindings docs) (rr_page st) st)
              \<lparr>rr_page := [], rr_mgets := Suc (rr_mgets st)\<rparr>)))"

definition consume_event ::
    "(string \<Rightarrow> int option) \<Rightarrow> reconcile_env \<Rightarrow> int \<Rightarrow> int \<Rightarrow> (AuthoritativeEventInventory, reconcile_run) handler" where
  "consume_event date_ms env pageSize maxFindings a st =
     (let st1 = st\<lparr>rr_page := rr_page st @ [a]\<rparr>
      in if int (length (rr_page st1)) \<ge> pageSize then flush_page date_ms env maxFindings st1 else (Inr (), st1))"

text \<open>The text of a uuid parameter must be one, or the query fails.\<close>

definition invalid_uuid :: exn where
  "invalid_uuid = PgError ''22P02'' []"

definition hit_event :: "hit \<Rightarrow> string" where
  "hit_event h = (case h_event_id h of JString e \<Rightarrow> e | _ \<Rightarrow> h_id h)"

text \<open>The events of a page of hits that the inventory table does not hold.\<close>

definition unexpected_events :: "pg \<Rightarrow> hit list \<Rightarrow> string list" where
  "unexpected_events s found =
     (let eventIds = map hit_event found;
          present = map ti_event (filter (\<lambda>r. ti_event r \<in> set (map pg_uuid eventIds)) (ticket_inventory s))
      in filter (\<lambda>e. e \<notin> set present) eventIds)"

fun detectUnexpected ::
    "reconcile_env \<Rightarrow> pg \<Rightarrow> nat \<Rightarrow> int \<Rightarrow> nat \<Rightarrow> hit list result list \<Rightarrow> reconcile_run \<Rightarrow> unit result \<times> reconcile_run" where
  "detectUnexpected env s n maxFindings i [] st = (Inr (), st)"
| "detectUnexpected env s n maxFindings i (Inl e # pages) st = (Inl e, st)"
| "detectUnexpected env s n maxFindings i (Inr found # pages) st =
     (if found = [] then (Inr (), st)
      else if re_present env i then (Inl connection_lost, st)
      else if \<not> list_all (\<lambda>h. is_uuid (hit_event h)) found then (Inl invalid_uuid, st)
      else (let st1 = fold (\<lambda>e. record_diff maxFindings e (''unexpected_event_document'', None)) (unexpected_events s found) st
            in if \<not> h_sort (last found) \<or> length found < n then (Inr (), st1)
               else detectUnexpected env s n maxFindings (Suc i) pages st1))"

definition start_reconcile :: reconcile_run where
  "start_reconcile = \<lparr>rr_counts = (\<lambda>_. 0), rr_findings = [], rr_checkedEvents = 0, rr_checkedDocuments = 0, rr_page = [], rr_mgets = 0\<rparr>"

definition report_of :: "string \<Rightarrow> reconcile_run \<Rightarrow> ReconciliationReport" where
  "report_of index st =
     (let totalDiffs = sum_list (map (rr_counts st) RECONCILIATION_CATEGORIES)
      in \<lparr>rp_index = index, rp_checkedEvents = rr_checkedEvents st, rp_checkedDocuments = rr_checkedDocuments st,
          rp_counts = map (\<lambda>c. (c, rr_counts st c)) RECONCILIATION_CATEGORIES, rp_totalDiffs = totalDiffs,
          rp_findings = rr_findings st, rp_hasDiff = (totalDiffs > 0)\<rparr>)"

definition reconcile_passes ::
    "(string \<Rightarrow> string option) \<Rightarrow> (string \<Rightarrow> int option) \<Rightarrow> (string \<Rightarrow> event_columns) \<Rightarrow> reconcile_env \<Rightarrow> pg
       \<Rightarrow> int \<Rightarrow> int \<Rightarrow> unit result \<times> reconcile_run" where
  "reconcile_passes date_iso date_ms columns env s pageSize maxFindings =
     (case iterateAuthoritativeInventory date_iso columns (re_page env) s pageSize
             (consume_event date_ms env pageSize maxFindings) start_reconcile of
        (Inl e, st) \<Rightarrow> (Inl e, st)
      | (Inr _, st) \<Rightarrow>
          (case flush_page date_ms env maxFindings st of
             (Inl e, st1) \<Rightarrow> (Inl e, st1)
           | (Inr _, st1) \<Rightarrow>
               detectUnexpected env s (boundedPageSize (Some pageSize)) maxFindings 0 (re_search env) st1))"

definition reconcileInventoryProjection ::
    "(string \<Rightarrow> string option) \<Rightarrow> (string \<Rightarrow> int option) \<Rightarrow> (string \<Rightarrow> event_columns) \<Rightarrow> reconcile_env \<Rightarrow> pg
       \<Rightarrow> ReconciliationOptions \<Rightarrow> ReconciliationReport result" where
  "reconcileInventoryProjection date_iso date_ms columns env s options =
     (let index = (case ro_index options of None \<Rightarrow> EVENTS_INDEX | Some i \<Rightarrow> i);
          pageSize = (case ro_pageSize options of None \<Rightarrow> DEFAULT_PAGE_SIZE | Some n \<Rightarrow> n);
          maxFindings = (case ro_maxFindings options of None \<Rightarrow> 100 | Some n \<Rightarrow> n)
      in if re_begin env \<noteq> Delivered then Inl connection_lost
         else (let (r, st) = reconcile_passes date_iso date_ms columns env s pageSize maxFindings
               in if re_end env \<noteq> Delivered then Inl connection_lost
                  else map_sum id (\<lambda>_. report_of index st) r))"

section \<open>Counting differences\<close>

definition diff_count :: "reconcile_run \<Rightarrow> int" where
  "diff_count st = sum_list (map (rr_counts st) RECONCILIATION_CATEGORIES)"

lemma sum_list_update:
  "distinct xs \<Longrightarrow> sum_list (map (f(k := f k + (1::int))) xs) = sum_list (map f xs) + (if k \<in> set xs then 1 else 0)"
  by (induction xs) auto

lemma distinct_reconciliation_categories: "distinct RECONCILIATION_CATEGORIES"
  by code_simp

lemma record_diff_count:
  "fst d \<in> set RECONCILIATION_CATEGORIES \<Longrightarrow> diff_count (record_diff m e d st) = diff_count st + 1"
  unfolding diff_count_def record_diff_def
  using sum_list_update [OF distinct_reconciliation_categories, of "rr_counts st" "fst d"] by simp

lemma record_diff_frame [simp]:
  "rr_page (record_diff m e d st) = rr_page st" "rr_mgets (record_diff m e d st) = rr_mgets st"
  "rr_checkedEvents (record_diff m e d st) = rr_checkedEvents st"
  by (simp_all add: record_diff_def)

lemma fold_record_count:
  "list_all (\<lambda>d. fst d \<in> set RECONCILIATION_CATEGORIES) ds
     \<Longrightarrow> diff_count (fold (record_diff m e) ds st) = diff_count st + int (length ds)"
  by (induction ds arbitrary: st) (simp_all add: record_diff_count)

lemma fold_record_frame [simp]: "rr_page (fold (record_diff m e) ds st) = rr_page st" "rr_mgets (fold (record_diff m e) ds st) = rr_mgets st"
  by (induction ds arbitrary: st) simp_all

abbreviation known :: "difference \<Rightarrow> bool" where
  "known d \<equiv> fst d \<in> set RECONCILIATION_CATEGORIES"

lemma doc_types_known: "list_all known (fst (doc_types ts m))"
proof (induction ts arbitrary: m)
  case (Cons t ts)
  have "known (''malformed_projection'', None)" by (simp add: RECONCILIATION_CATEGORIES_def)
  with Cons show ?case by (simp split: jsval.split prod.split) (metis fst_conv)
qed simp

lemma when_differs_known: "k \<in> set RECONCILIATION_CATEGORIES \<Longrightarrow> list_all known (when_differs b k t)"
  by (simp add: when_differs_def)

lemma compare_type_known: "list_all known (compare_type m a)"
  by (auto simp: compare_type_def Let_def when_differs_def RECONCILIATION_CATEGORIES_def split: option.split)

lemma compare_versioned_known: "list_all known (compare_versioned date_ms a doc v x y ts)"
proof -
  obtain ds m where m: "doc_types ts [] = (ds, m)" by fastforce
  then have "list_all known ds" using doc_types_known [of ts "[]"] by simp
  moreover have "list_all known (compare_aggregate a v x y)"
    by (simp add: compare_aggregate_def when_differs_def RECONCILIATION_CATEGORIES_def)
  moreover have "list_all known (concat (map (compare_type m) xs))" for xs
    using compare_type_known by (induction xs) simp_all
  moreover have "list_all known (map (\<lambda>p. (''unexpected_ticket_type'', Some (fst p))) xs)" for xs :: "(string \<times> jsval) list"
    by (simp add: list_all_iff RECONCILIATION_CATEGORIES_def)
  moreover have "list_all known (when_differs b ''metadata_mismatch'' None)" for b
    by (simp add: when_differs_def RECONCILIATION_CATEGORIES_def)
  ultimately show ?thesis by (simp add: compare_versioned_def m)
qed

lemma compareEvent_known: "list_all known (compareEvent date_ms a doc)"
proof -
  have "known (''malformed_projection'', None)" "known (''unversioned_projection'', None)"
    by (simp_all add: RECONCILIATION_CATEGORIES_def)
  then show ?thesis using compare_versioned_known
    by (simp add: compareEvent_def Let_def split: option.split jsval.split)
qed

section \<open>What a report without differences means\<close>

text \<open>Some \<open>mget\<close> of the run returned a document of the Event that the comparison found equal.\<close>

definition matched :: "(string \<Rightarrow> int option) \<Rightarrow> reconcile_env \<Rightarrow> AuthoritativeEventInventory \<Rightarrow> bool" where
  "matched date_ms env a \<longleftrightarrow> (\<exists>i docs doc. re_mget env i = Inr docs \<and> docs (ae_eventId a) = Some doc \<and> compareEvent date_ms a doc = [])"

lemma compare_one_count:
  "diff_count (compare_one date_ms m docs a st) = diff_count st
     + (case docs (ae_eventId a) of None \<Rightarrow> 1 | Some doc \<Rightarrow> int (length (compareEvent date_ms a doc)))"
proof (cases "docs (ae_eventId a)")
  case None
  have "known (''missing_event_document'', None)" by (simp add: RECONCILIATION_CATEGORIES_def)
  with None show ?thesis by (simp add: compare_one_def record_diff_count) (simp add: diff_count_def)
next
  case (Some doc)
  then show ?thesis using fold_record_count [OF compareEvent_known]
    by (simp add: compare_one_def Let_def) (simp add: diff_count_def)
qed

lemma compare_one_page [simp]: "rr_page (compare_one date_ms m docs a st) = rr_page st"
  by (simp add: compare_one_def Let_def split: option.split)

lemma fold_compare_count:
  "diff_count st \<le> diff_count (fold (compare_one date_ms m docs) as st)
   \<and> (diff_count (fold (compare_one date_ms m docs) as st) = diff_count st \<longleftrightarrow>
        (\<forall>a \<in> set as. \<exists>doc. docs (ae_eventId a) = Some doc \<and> compareEvent date_ms a doc = []))"
proof (induction as arbitrary: st)
  case (Cons a as)
  from Cons [of "compare_one date_ms m docs a st"] compare_one_count [of date_ms m docs a st]
  show ?case by (auto split: option.splits)
qed simp

lemma map_of_put_row: "map_of (put_row fst (k, v) m) = (map_of m)(k \<mapsto> v)"
proof -
  have "map_of (map (\<lambda>x. if fst x = k then (k, v) else x) m) = (if k \<in> fst ` set m then (map_of m)(k \<mapsto> v) else map_of m)"
    by (induction m) (auto simp: fun_eq_iff)
  moreover have "row_by fst k m = None \<longleftrightarrow> k \<notin> fst ` set m" by (auto simp: row_by_None_iff)
  moreover have "k \<notin> fst ` set m \<Longrightarrow> map_of (m @ [(k, v)]) = (map_of m)(k \<mapsto> v)"
    using map_of_eq_None_iff [of m k] by (auto simp: map_add_def split: option.split)
  ultimately show ?thesis by (simp add: put_row_def split: option.split)
qed

lemma doc_types_clean:
  "doc_types ts m = ([], m') \<Longrightarrow>
     (\<forall>t \<in> set ts. \<exists>tid. property_of t ''ticket_type_id'' = JString tid \<and> map_of m' tid \<noteq> None)
   \<and> (\<forall>tid t. map_of m' tid = Some t \<longrightarrow>
        (t \<in> set ts \<and> property_of t ''ticket_type_id'' = JString tid) \<or> map_of m tid = Some t)
   \<and> (\<forall>tid. map_of m tid \<noteq> None \<longrightarrow> map_of m' tid \<noteq> None)"
proof (induction ts arbitrary: m)
  case (Cons t ts)
  from Cons.prems obtain tid where t: "property_of t ''ticket_type_id'' = JString tid" "doc_types ts (put_row fst (tid, t) m) = ([], m')"
    by (auto split: jsval.splits prod.splits)
  from Cons.IH [OF t(2)] t(1) show ?case by (auto simp: map_of_put_row split: if_splits)
qed simp

text \<open>A document that shows exactly the state \<open>a\<close>.\<close>

definition document_current :: "(string \<Rightarrow> int option) \<Rightarrow> AuthoritativeEventInventory \<Rightarrow> (string \<times> jsval) list \<Rightarrow> bool" where
  "document_current date_ms a doc \<longleftrightarrow>
     asVersionOrNull (get_field doc ''event_inventory_version'') = Some (evv (ae_eventInventoryVersion a))
   \<and> asQuantityOrNull (get_field doc ''event_total_quantity'') = Some (ae_eventTotalQuantity a)
   \<and> asQuantityOrNull (get_field doc ''event_remaining_quantity'') = Some (ae_eventRemainingQuantity a)
   \<and> metadataMatches date_ms (ae_metadata a) doc
   \<and> (\<exists>ts. get_field doc ''ticket_types'' = JArray ts
        \<and> (\<forall>t \<in> set ts. \<exists>x \<in> set (ae_ticketTypes a). property_of t ''ticket_type_id'' = JString (at_ticketTypeId x))
        \<and> (\<forall>x \<in> set (ae_ticketTypes a). \<exists>t \<in> set ts. property_of t ''ticket_type_id'' = JString (at_ticketTypeId x)
             \<and> property_of t ''name'' = JString (at_name x)
             \<and> asQuantityOrNull (property_of t ''total_quantity'') = Some (at_totalQuantity x)
             \<and> asQuantityOrNull (property_of t ''remaining_quantity'') = Some (at_remainingQuantity x)
             \<and> asVersionOrNull (property_of t ''inventory_version'') = Some (ttv (at_inventoryVersion x))))"

lemma when_differs_Nil [simp]: "when_differs b k t = [] \<longleftrightarrow> \<not> b"
  by (simp add: when_differs_def)

lemma compare_type_Nil:
  "compare_type m x = [] \<longleftrightarrow> (\<exists>t. map_of m (at_ticketTypeId x) = Some t
     \<and> property_of t ''name'' = JString (at_name x)
     \<and> asQuantityOrNull (property_of t ''total_quantity'') = Some (at_totalQuantity x)
     \<and> asQuantityOrNull (property_of t ''remaining_quantity'') = Some (at_remainingQuantity x)
     \<and> asVersionOrNull (property_of t ''inventory_version'') = Some (ttv (at_inventoryVersion x)))"
  by (auto simp: compare_type_def Let_def split: option.splits if_splits)

lemma compare_versioned_Nil:
  "compare_versioned date_ms a doc v x y ts = [] \<longleftrightarrow>
     v = evv (ae_eventInventoryVersion a) \<and> x = ae_eventTotalQuantity a \<and> y = ae_eventRemainingQuantity a
   \<and> metadataMatches date_ms (ae_metadata a) doc
   \<and> (\<exists>m. doc_types ts [] = ([], m) \<and> (\<forall>t \<in> set (ae_ticketTypes a). compare_type m t = [])
        \<and> fst ` set m \<subseteq> at_ticketTypeId ` set (ae_ticketTypes a))"
  by (cases "doc_types ts []") (auto simp: compare_versioned_def compare_aggregate_def filter_empty_conv)

lemma compareEvent_Nil:
  "compareEvent date_ms a doc = [] \<longleftrightarrow> (\<exists>v x y ts.
      asVersionOrNull (get_field doc ''event_inventory_version'') = Some v
    \<and> asQuantityOrNull (get_field doc ''event_total_quantity'') = Some x
    \<and> asQuantityOrNull (get_field doc ''event_remaining_quantity'') = Some y
    \<and> get_field doc ''ticket_types'' = JArray ts \<and> compare_versioned date_ms a doc v x y ts = [])"
proof -
  have "asVersionOrNull v = Some i \<Longrightarrow> \<not> is_nullish v" for v i
    by (auto simp: asVersionOrNull_def is_nullish_def isSafeInteger_def isInteger_def split: if_splits)
  then show ?thesis by (auto simp: compareEvent_def Let_def split: option.splits jsval.splits)
qed

lemma compareEvent_current: "compareEvent date_ms a doc = [] \<Longrightarrow> document_current date_ms a doc"
proof -
  assume "compareEvent date_ms a doc = []"
  then obtain ts m where f: "asVersionOrNull (get_field doc ''event_inventory_version'') = Some (evv (ae_eventInventoryVersion a))"
    "asQuantityOrNull (get_field doc ''event_total_quantity'') = Some (ae_eventTotalQuantity a)"
    "asQuantityOrNull (get_field doc ''event_remaining_quantity'') = Some (ae_eventRemainingQuantity a)"
    "get_field doc ''ticket_types'' = JArray ts" "metadataMatches date_ms (ae_metadata a) doc" "doc_types ts [] = ([], m)"
    and t: "\<forall>t \<in> set (ae_ticketTypes a). compare_type m t = []" "fst ` set m \<subseteq> at_ticketTypeId ` set (ae_ticketTypes a)"
    by (auto simp: compareEvent_Nil compare_versioned_Nil)
  note d = doc_types_clean [OF f(6)]
  have "\<exists>x \<in> set (ae_ticketTypes a). property_of t ''ticket_type_id'' = JString (at_ticketTypeId x)" if "t \<in> set ts" for t
  proof -
    from d that obtain tid where "property_of t ''ticket_type_id'' = JString tid" "tid \<in> fst ` set m"
      unfolding map_of_eq_None_iff by blast
    with t(2) show ?thesis by auto
  qed
  moreover have "\<exists>t \<in> set ts. property_of t ''ticket_type_id'' = JString (at_ticketTypeId x)
             \<and> property_of t ''name'' = JString (at_name x)
             \<and> asQuantityOrNull (property_of t ''total_quantity'') = Some (at_totalQuantity x)
             \<and> asQuantityOrNull (property_of t ''remaining_quantity'') = Some (at_remainingQuantity x)
             \<and> asVersionOrNull (property_of t ''inventory_version'') = Some (ttv (at_inventoryVersion x))"
    if "x \<in> set (ae_ticketTypes a)" for x
  proof -
    from t(1) that have "compare_type m x = []" by blast
    then obtain dt where dt: "map_of m (at_ticketTypeId x) = Some dt" "property_of dt ''name'' = JString (at_name x)"
      "asQuantityOrNull (property_of dt ''total_quantity'') = Some (at_totalQuantity x)"
      "asQuantityOrNull (property_of dt ''remaining_quantity'') = Some (at_remainingQuantity x)"
      "asVersionOrNull (property_of dt ''inventory_version'') = Some (ttv (at_inventoryVersion x))"
      unfolding compare_type_Nil by blast
    from d dt(1) have "dt \<in> set ts" "property_of dt ''ticket_type_id'' = JString (at_ticketTypeId x)" by auto
    with dt show ?thesis by blast
  qed
  ultimately show ?thesis using f by (auto simp: document_current_def)
qed

text \<open>The loop: what has been read is still in the page buffer or was compared.\<close>

definition compared :: "(string \<Rightarrow> int option) \<Rightarrow> reconcile_env \<Rightarrow> AuthoritativeEventInventory list \<Rightarrow> reconcile_run \<Rightarrow> bool" where
  "compared date_ms env as st \<longleftrightarrow> 0 \<le> diff_count st
     \<and> (diff_count st = 0 \<longrightarrow> (\<forall>a \<in> set as. a \<in> set (rr_page st) \<or> matched date_ms env a))"

lemma flush_compared:
  assumes "flush_page date_ms env m st = (Inr u, st')" "compared date_ms env as st"
  shows "compared date_ms env as st'" "rr_page st' = []"
proof -
  show "rr_page st' = []" using assms(1) by (auto simp: flush_page_def split: if_splits sum.splits)
  show "compared date_ms env as st'"
  proof (cases "rr_page st = []")
    case True
    with assms show ?thesis by (simp add: flush_page_def)
  next
    case False
    with assms(1) obtain docs where d: "re_mget env (rr_mgets st) = Inr docs"
      and st': "st' = (fold (compare_one date_ms m docs) (rr_page st) st)\<lparr>rr_page := [], rr_mgets := Suc (rr_mgets st)\<rparr>"
      by (auto simp: flush_page_def split: sum.splits)
    have c: "diff_count st' = diff_count (fold (compare_one date_ms m docs) (rr_page st) st)" by (simp add: st' diff_count_def)
    have "matched date_ms env a" if "diff_count st' = 0" "a \<in> set as" for a
    proof -
      from fold_compare_count [of st date_ms m docs "rr_page st"] assms(2) that(1) c
      have z: "diff_count st = 0" "\<forall>a \<in> set (rr_page st). \<exists>doc. docs (ae_eventId a) = Some doc \<and> compareEvent date_ms a doc = []"
        by (auto simp: compared_def)
      with assms(2) that(2) d show ?thesis unfolding compared_def matched_def by blast
    qed
    moreover have "0 \<le> diff_count st'"
      using fold_compare_count [of st date_ms m docs "rr_page st"] assms(2) c by (simp add: compared_def)
    ultimately show ?thesis by (simp add: compared_def)
  qed
qed

lemma consume_compared:
  assumes "consume_event date_ms env n m a st = (Inr u, st')" "compared date_ms env as st"
  shows "compared date_ms env (a # as) st'"
proof -
  let ?st = "st\<lparr>rr_page := rr_page st @ [a]\<rparr>"
  have "compared date_ms env (a # as) ?st" using assms(2) by (auto simp: compared_def diff_count_def)
  with assms(1) flush_compared(1) [of date_ms env m ?st u st'] show ?thesis
    by (auto simp: consume_event_def Let_def split: if_splits)
qed

lemma record_unexpected_count:
  "diff_count (fold (\<lambda>e. record_diff m e (''unexpected_event_document'', None)) es st) = diff_count st + int (length es)"
proof (induction es arbitrary: st)
  case (Cons e es)
  have "''unexpected_event_document'' \<in> set RECONCILIATION_CATEGORIES" by (simp add: RECONCILIATION_CATEGORIES_def)
  with Cons [of "record_diff m e (''unexpected_event_document'', None) st"] show ?case by (simp add: record_diff_count)
qed simp

text \<open>The pages that the second pass looks at: up to the first one that is empty, short or without a sort value.\<close>

fun scanned_pages :: "nat \<Rightarrow> hit list result list \<Rightarrow> hit list list" where
  "scanned_pages n [] = []"
| "scanned_pages n (Inl e # pages) = []"
| "scanned_pages n (Inr found # pages) =
     (if found = [] then [] else if \<not> h_sort (last found) \<or> length found < n then [found] else found # scanned_pages n pages)"

lemma detect_counts:
  "detectUnexpected env s n m i pages st = (Inr u, st')
     \<Longrightarrow> diff_count st' = diff_count st + int (length (concat (map (unexpected_events s) (scanned_pages n pages))))"
  by (induction env s n m i pages st rule: detectUnexpected.induct)
    (auto simp: Let_def record_unexpected_count split: if_splits)

lemma unexpected_events_Nil:
  "unexpected_events s found = [] \<Longrightarrow> h \<in> set found \<Longrightarrow> \<exists>r \<in> set (ticket_inventory s). ti_event r = hit_event h"
  by (fastforce simp: unexpected_events_def Let_def filter_empty_conv)

lemma clean_report_facts:
  assumes "reconcileInventoryProjection date_iso date_ms columns env s options = Inr report" "\<not> rp_hasDiff report"
    and "distinct (map ti_event (ticket_inventory s))"
  shows "(\<forall>r \<in> set (event_rows s). \<exists>a i docs doc. authoritative_event date_iso columns s r = Inr a
      \<and> re_mget env i = Inr docs \<and> docs (ti_event r) = Some doc \<and> document_current date_ms a doc)
    \<and> (\<forall>found \<in> set (scanned_pages (boundedPageSize (Some (case ro_pageSize options of None \<Rightarrow> DEFAULT_PAGE_SIZE | Some n \<Rightarrow> n)))
           (re_search env)). \<forall>h \<in> set found. \<exists>r \<in> set (ticket_inventory s). ti_event r = hit_event h)"
proof -
  define n where "n = (case ro_pageSize options of None \<Rightarrow> DEFAULT_PAGE_SIZE | Some n \<Rightarrow> n)"
  define m where "m = (case ro_maxFindings options of None \<Rightarrow> 100 | Some n \<Rightarrow> n)"
  let ?f = "\<lambda>r st. case authoritative_event date_iso columns s r of Inl e \<Rightarrow> (Inl e, st) | Inr x \<Rightarrow> consume_event date_ms env n m x st"
  from assms(1) obtain st1 st2 st3 where
    l: "paged_loop ti_event (boundedPageSize (Some n)) (re_page env) (event_rows s) ?f 0 None start_reconcile = (Inr (), st1)"
    and f: "flush_page date_ms env m st1 = (Inr (), st2)"
    and d: "detectUnexpected env s (boundedPageSize (Some n)) m 0 (re_search env) st2 = (Inr (), st3)"
    and rep: "rp_hasDiff report = (0 < diff_count st3)"
    unfolding reconcileInventoryProjection_def reconcile_passes_def iterateAuthoritativeInventory_def Let_def
      n_def [symmetric] m_def [symmetric]
    by (auto simp: report_of_def diff_count_def Let_def split: if_splits prod.splits sum.splits)
  have dist: "distinct (map ti_event (event_rows s))" using assms(3) by (simp add: event_rows_def distinct_map_filter)
  from paged_loop_each_row [OF dist l] have e: "each_row ?f (sort_key ti_event (event_rows s)) start_reconcile = (Inr (), st1)" .
  have inv: "(\<forall>r \<in> set rows. is_ok (authoritative_event date_iso columns s r))
      \<and> compared date_ms env (as @ [a. r \<leftarrow> rows, a \<leftarrow> (case authoritative_event date_iso columns s r of Inl _ \<Rightarrow> [] | Inr a \<Rightarrow> [a])]) st'"
    if "each_row ?f rows st = (Inr (), st')" "compared date_ms env as st" for rows as st st'
    using that
  proof (induction rows arbitrary: as st)
    case (Cons r rows)
    from Cons.prems(1) obtain a st0 where a: "authoritative_event date_iso columns s r = Inr a"
      "consume_event date_ms env n m a st = (Inr (), st0)" "each_row ?f rows st0 = (Inr (), st')"
      by (auto split: sum.splits prod.splits)
    have "compared date_ms env (as @ [a]) st0" using consume_compared [OF a(2) Cons.prems(2)] by (auto simp: compared_def)
    from Cons.IH [OF a(3) this] a(1) show ?case by simp
  qed simp
  have "compared date_ms env [] start_reconcile" by (simp add: compared_def diff_count_def start_reconcile_def)
  from inv [OF e this] have ok: "\<forall>r \<in> set (event_rows s). is_ok (authoritative_event date_iso columns s r)"
    and c1: "compared date_ms env [a. r \<leftarrow> sort_key ti_event (event_rows s),
        a \<leftarrow> (case authoritative_event date_iso columns s r of Inl _ \<Rightarrow> [] | Inr a \<Rightarrow> [a])] st1" by simp_all
  note c2 = flush_compared [OF f c1]
  have z: "diff_count st2 = 0" "concat (map (unexpected_events s) (scanned_pages (boundedPageSize (Some n)) (re_search env))) = []"
  proof -
    let ?k = "length (concat (map (unexpected_events s) (scanned_pages (boundedPageSize (Some n)) (re_search env))))"
    have "diff_count st2 + int ?k \<le> 0" "0 \<le> diff_count st2"
      using detect_counts [OF d] c2(1) assms(2) rep by (simp_all only: compared_def not_less)
    then have "diff_count st2 = 0" "?k = 0" by linarith+
    then show "diff_count st2 = 0" "concat (map (unexpected_events s) (scanned_pages (boundedPageSize (Some n)) (re_search env))) = []"
      by (simp_all only: length_0_conv)
  qed
  show ?thesis unfolding n_def [symmetric]
  proof (intro conjI ballI)
    fix r assume r: "r \<in> set (event_rows s)"
    with ok obtain a where a: "authoritative_event date_iso columns s r = Inr a" by (auto simp: is_ok_iff)
    with r c2 z(1) have "matched date_ms env a" by (force simp: compared_def)
    then obtain i docs doc where "re_mget env i = Inr docs" "docs (ae_eventId a) = Some doc" "compareEvent date_ms a doc = []"
      unfolding matched_def by blast
    with a compareEvent_current authoritative_event_Inr(1) [OF a] show "\<exists>a i docs doc. authoritative_event date_iso columns s r = Inr a
      \<and> re_mget env i = Inr docs \<and> docs (ti_event r) = Some doc \<and> document_current date_ms a doc" by metis
  next
    fix found h assume "found \<in> set (scanned_pages (boundedPageSize (Some n)) (re_search env))" "h \<in> set found"
    with z(2) unexpected_events_Nil [of s found h] show "\<exists>r \<in> set (ticket_inventory s). ti_event r = hit_event h" by auto
  qed
qed

text \<open>C22: a report without differences is a proof of equality: every Event of the inventory had a document that
  showed exactly its row: the versions, totals and remaining quantities of the Event and of each of its
  Ticket Types, its names, its metadata, and no other Ticket Type; and every document that the second
  pass saw belongs to an Event of the inventory. (Each at the moment it was read.)\<close>

theorem clean_report_means_equal_projection:
  assumes "reconcileInventoryProjection date_iso date_ms columns env s options = Inr report" "\<not> rp_hasDiff report"
    and "distinct (map ti_event (ticket_inventory s))"
  shows "(\<forall>r \<in> set (event_rows s). \<exists>a i docs doc. authoritative_event date_iso columns s r = Inr a
      \<and> re_mget env i = Inr docs \<and> docs (ti_event r) = Some doc \<and> document_current date_ms a doc)
    \<and> (\<forall>found \<in> set (scanned_pages (boundedPageSize (Some (case ro_pageSize options of None \<Rightarrow> DEFAULT_PAGE_SIZE | Some n \<Rightarrow> n)))
           (re_search env)). \<forall>h \<in> set found. \<exists>r \<in> set (ticket_inventory s). ti_event r = hit_event h)"
  by (rule clean_report_facts [OF assms])

text \<open>One Event with one Ticket Type and its document, read back in one page.\<close>

definition sample_inventory :: pg where
  "sample_inventory = \<lparr>events = [uuid_a], ticket_types = [\<lparr>type_id = uuid_b, type_event = uuid_a, type_name = ''GA'', is_default = True\<rparr>],
     ticket_inventory = [\<lparr>ti_event = uuid_a, ti_total = 9, ti_remaining = 5, ti_version = 4\<rparr>],
     ticket_type_inventory = [\<lparr>tti_type = uuid_b, tti_event = uuid_a, tti_total = 9, tti_remaining = 5, tti_version = 4\<rparr>],
     purchases = [], writer_control = Some (mode_text Legacy), mirror_origin = None\<rparr>"

definition sample_columns :: "string \<Rightarrow> event_columns" where
  "sample_columns e = \<lparr>ec_title = ''T'', ec_event_type = ''live'', ec_starts_at = ''t'', ec_latitude = None, ec_longitude = None\<rparr>"

definition sample_document :: "(string \<times> jsval) list" where
  "sample_document =
     [(''event_id'', JString uuid_a), (''title'', JString ''T''), (''event_type'', JString ''live''), (''starts_at'', JString ''t''),
      (''event_inventory_version'', jsint 4), (''event_total_quantity'', jsint 9), (''event_remaining_quantity'', jsint 5),
      (''ticket_types'', JArray [JObject [(''ticket_type_id'', JString uuid_b), (''name'', JString ''GA''),
         (''total_quantity'', jsint 9), (''remaining_quantity'', jsint 5), (''inventory_version'', jsint 4)]])]"

definition sample_search :: reconcile_env where
  "sample_search = \<lparr>re_begin = Delivered, re_page = (\<lambda>_. False),
     re_mget = (\<lambda>_. Inr (\<lambda>e. if e = uuid_a then Some sample_document else None)),
     re_search = [Inr [\<lparr>h_id = uuid_a, h_event_id = JString uuid_a, h_sort = True\<rparr>]],
     re_present = (\<lambda>_. False), re_end = Delivered\<rparr>"

definition sample_report :: "ReconciliationReport result" where
  "sample_report = reconcileInventoryProjection Some (\<lambda>s. Some (int (length s))) sample_columns sample_search sample_inventory
     \<lparr>ro_index = None, ro_pageSize = None, ro_maxFindings = None\<rparr>"

lemma sample_report_clean: "case sample_report of Inl _ \<Rightarrow> False | Inr report \<Rightarrow> \<not> rp_hasDiff report"
  by code_simp

theorem clean_report_means_equal_projection_witness:
  "\<exists>a i docs doc. authoritative_event Some sample_columns sample_inventory (hd (ticket_inventory sample_inventory)) = Inr a
     \<and> re_mget sample_search i = Inr docs \<and> docs uuid_a = Some doc \<and> document_current (\<lambda>s. Some (int (length s))) a doc"
proof -
  from sample_report_clean obtain report where "sample_report = Inr report" "\<not> rp_hasDiff report"
    by (auto split: sum.splits)
  moreover have "distinct (map ti_event (ticket_inventory sample_inventory))" by code_simp
  moreover have "hd (ticket_inventory sample_inventory) \<in> set (event_rows sample_inventory)" "ti_event (hd (ticket_inventory sample_inventory)) = uuid_a"
    by (simp_all add: event_rows_def sample_inventory_def)
  ultimately show ?thesis using clean_report_means_equal_projection [of Some _ sample_columns sample_search sample_inventory]
    unfolding sample_report_def by metis
qed

end
