(* ===== verification/Rebuild.thy ===== *)
theory Rebuild
  imports Reconciliation
begin

text \<open>
  The rebuild of the search projection from PostgreSQL, src/search/inventory-rebuild.service.ts: for every
  Event of one snapshot a metadata update and one versioned update per Ticket Type, sent in bulk
  requests through the same scripts the worker uses, and a final refresh. All pages are read from one
  snapshot here (a connection inside a transaction); the tool's own connection is outside of one, so that
  each of its queries sees the changes committed before it.
\<close>

section \<open>Bulk requests\<close>

type_synonym bulk_op = "bulk_action \<times> update_body"

definition DEFAULT_BULK_SIZE :: int where
  "DEFAULT_BULK_SIZE = 200"

record RebuildOptions =
  ro_rebuild_index :: "string option"
  ro_rebuild_pageSize :: "int option"
  ro_bulkSize :: "int option"

record RebuildReport =
  rbr_index :: string
  rbr_processedEvents :: int
  rbr_processedTicketTypes :: int
  rbr_bulkRequests :: int

text \<open>
  What the run meets: the fate of the index migration, of the queries, of each bulk request and of the
  refresh, the items that OpenSearch refuses for a reason of its own, and what other writers do before
  each item.
\<close>

record rebuild_env =
  rb_ensure :: link
  rb_page :: "nat \<Rightarrow> bool"
  rb_bulk :: "nat \<Rightarrow> link"
  rb_item :: "nat \<Rightarrow> exn option"
  rb_others :: "nat \<Rightarrow> search_cluster \<Rightarrow> search_cluster"
  rb_refresh :: link

record rebuild_run =
  run_cluster :: search_cluster
  run_ops :: "bulk_op list"
  run_events :: int
  run_types :: int
  run_bulks :: nat
  run_items :: nat

text \<open>The server runs the items of a request in order; the answer holds an error for each item that failed.\<close>

fun bulk_items :: "(jsval \<Rightarrow> string) \<Rightarrow> rebuild_env \<Rightarrow> nat \<Rightarrow> bulk_op list \<Rightarrow> search_cluster \<Rightarrow> bool list \<times> search_cluster" where
  "bulk_items url_text env i [] c = ([], c)"
| "bulk_items url_text env i (((index, doc_id, retries), body) # ops) c =
     (let c1 = rb_others env i c;
          (failed, c2) = (case rb_item env i of
              Some e \<Rightarrow> (True, c1)
            | None \<Rightarrow> (case execute_update index (document_id url_text doc_id) body c1 of
                  (Inl e, c2) \<Rightarrow> (True, c2) | (Inr _, c2) \<Rightarrow> (False, c2)));
          (rest, c3) = bulk_items url_text env (Suc i) ops c2
      in (failed # rest, c3))"

definition sendBulk ::
    "(jsval \<Rightarrow> string) \<Rightarrow> rebuild_env \<Rightarrow> nat \<Rightarrow> nat \<Rightarrow> bulk_op list \<Rightarrow> search_cluster \<Rightarrow> unit result \<times> search_cluster" where
  "sendBulk url_text env n i ops c =
     (case via (rb_bulk env n) (bulk_items url_text env i ops) c of
        (None, c') \<Rightarrow> (Inl connection_lost, c')
      | (Some errors, c') \<Rightarrow>
          (if \<not> list_ex (\<lambda>failed. failed) errors then Inr () else Inl (PlainError ''rebuild bulk item failed''), c'))"

section \<open>The run\<close>

definition flush_ops :: "(jsval \<Rightarrow> string) \<Rightarrow> rebuild_env \<Rightarrow> rebuild_run \<Rightarrow> unit result \<times> rebuild_run" where
  "flush_ops url_text env st =
     (if run_ops st = [] then (Inr (), st)
      else (case sendBulk url_text env (run_bulks st) (run_items st) (run_ops st) (run_cluster st) of
          (Inl e, c) \<Rightarrow> (Inl e, st\<lparr>run_cluster := c\<rparr>)
        | (Inr _, c) \<Rightarrow> (Inr (), st\<lparr>run_cluster := c, run_bulks := Suc (run_bulks st),
              run_items := run_items st + length (run_ops st), run_ops := []\<rparr>)))"

definition push_op :: "(jsval \<Rightarrow> string) \<Rightarrow> rebuild_env \<Rightarrow> nat \<Rightarrow> (bulk_op, rebuild_run) handler" where
  "push_op url_text env bulkSize op st =
     (let st1 = st\<lparr>run_ops := run_ops st @ [op]\<rparr>
      in if length (run_ops st1) \<ge> bulkSize then flush_ops url_text env st1 else (Inr (), st1))"

definition or_json_null :: "rat option \<Rightarrow> jsval" where
  "or_json_null r = (case r of None \<Rightarrow> JNull | Some x \<Rightarrow> JNumber (Fin x))"

definition event_metadata_of :: "AuthoritativeEventInventory \<Rightarrow> EventMetadata" where
  "event_metadata_of a =
     \<lparr>m_eventId = JString (ae_eventId a), m_title = JString (am_title (ae_metadata a)),
      m_eventType = JString (am_eventType (ae_metadata a)), m_startsAt = JString (am_startsAt (ae_metadata a)),
      m_latitude = or_json_null (am_latitude (ae_metadata a)), m_longitude = or_json_null (am_longitude (ae_metadata a)),
      m_totalQuantity = jsint (ae_eventTotalQuantity a), m_remainingQuantity = jsint (ae_eventRemainingQuantity a)\<rparr>"

definition rebuild_payload :: "AuthoritativeEventInventory \<Rightarrow> AuthoritativeTicketType \<Rightarrow> VersionedInventoryChangedPayload" where
  "rebuild_payload a t =
     buildVersionedInventoryChangedDetail (ae_eventId a) (at_ticketTypeId t) (at_name t) (at_totalQuantity t)
       (at_remainingQuantity t) (at_inventoryVersion t) (ae_eventTotalQuantity a) (ae_eventRemainingQuantity a)
       (ae_eventInventoryVersion a)"

definition push_type ::
    "(jsval \<Rightarrow> string) \<Rightarrow> rebuild_env \<Rightarrow> string \<Rightarrow> nat \<Rightarrow> AuthoritativeEventInventory \<Rightarrow> (AuthoritativeTicketType, rebuild_run) handler" where
  "push_type url_text env index bulkSize a t st =
     and_then (push_op url_text env bulkSize (buildVersionedInventoryBulkOps index (rebuild_payload a t)) st)
       (\<lambda>st1. (Inr (), st1\<lparr>run_types := run_types st1 + 1\<rparr>))"

definition push_event ::
    "(jsval \<Rightarrow> string) \<Rightarrow> rebuild_env \<Rightarrow> string \<Rightarrow> nat \<Rightarrow> (AuthoritativeEventInventory, rebuild_run) handler" where
  "push_event url_text env index bulkSize a st =
     (let st1 = st\<lparr>run_events := run_events st + 1\<rparr>
      in case buildEventMetadataBulkOps index (event_metadata_of a) of
           Inl e \<Rightarrow> (Inl e, st1)
         | Inr op \<Rightarrow> and_then (push_op url_text env bulkSize op st1)
               (each_row (push_type url_text env index bulkSize a) (ae_ticketTypes a)))"

definition start_rebuild :: "search_cluster \<Rightarrow> rebuild_run" where
  "start_rebuild c = \<lparr>run_cluster = c, run_ops = [], run_events = 0, run_types = 0, run_bulks = 0, run_items = 0\<rparr>"

definition bounded_bulk :: "int option \<Rightarrow> nat" where
  "bounded_bulk bulkSize = nat (max 1 (min (case bulkSize of None \<Rightarrow> DEFAULT_BULK_SIZE | Some n \<Rightarrow> n) 1000))"

definition rebuildInventoryProjection ::
    "(jsval \<Rightarrow> string) \<Rightarrow> (string \<Rightarrow> string option) \<Rightarrow> (string \<Rightarrow> event_columns) \<Rightarrow> rebuild_env \<Rightarrow> pg \<Rightarrow> RebuildOptions
       \<Rightarrow> search_cluster \<Rightarrow> RebuildReport result \<times> search_cluster" where
  "rebuildInventoryProjection url_text date_iso columns env s options c =
     (let index = (case ro_rebuild_index options of None \<Rightarrow> EVENTS_INDEX | Some i \<Rightarrow> i);
          pageSize = (case ro_rebuild_pageSize options of None \<Rightarrow> DEFAULT_PAGE_SIZE | Some n \<Rightarrow> n);
          bulkSize = bounded_bulk (ro_bulkSize options)
      in (case via (rb_ensure env) (ensureEventsIndex index) c of
            (None, c1) \<Rightarrow> (Inl connection_lost, c1)
          | (Some (Inl e), c1) \<Rightarrow> (Inl e, c1)
          | (Some (Inr _), c1) \<Rightarrow>
              (case and_then (iterateAuthoritativeInventory date_iso columns (rb_page env) s pageSize
                       (push_event url_text env index bulkSize) (start_rebuild c1)) (flush_ops url_text env) of
                 (Inl e, st) \<Rightarrow> (Inl e, run_cluster st)
               | (Inr _, st) \<Rightarrow>
                   if 0 < run_bulks st \<and> rb_refresh env \<noteq> Delivered then (Inl connection_lost, run_cluster st)
                   else (Inr \<lparr>rbr_index = index, rbr_processedEvents = run_events st, rbr_processedTicketTypes = run_types st,
                           rbr_bulkRequests = int (run_bulks st)\<rparr>, run_cluster st))))"

section \<open>What a bulk request does\<close>

definition others_ok :: "rebuild_env \<Rightarrow> bool" where
  "others_ok env \<longleftrightarrow> (\<forall>i c. search_reach c (rb_others env i c))"

abbreviation ops_ok :: "bulk_op list \<Rightarrow> bool" where
  "ops_ok ops \<equiv> list_all (\<lambda>op. body_ok (snd op)) ops"

text \<open>An operation is done when its document covers the payload it carries, or exists when it carries none.\<close>

definition op_done :: "(jsval \<Rightarrow> string) \<Rightarrow> search_cluster \<Rightarrow> bulk_op \<Rightarrow> bool" where
  "op_done url_text c op = (case op of
       ((index, doc_id, n), VersionGuard q) \<Rightarrow> covers q (doc_at index (document_id url_text doc_id) c)
     | ((index, doc_id, n), _) \<Rightarrow> os_docs c index (document_id url_text doc_id) \<noteq> None)"

lemma op_done_later:
  assumes "docs_ok c" "body_ok (snd op)" "op_done url_text c op" "search_reach c c'"
  shows "op_done url_text c' op"
proof -
  obtain index doc_id n body where op: "op = ((index, doc_id, n), body)" by (metis prod_cases4 surj_pair)
  show ?thesis using assms(2,3) covers_later [OF assms(1) _ _ assms(4)] reach_keeps_document [OF assms(4)]
    by (cases body) (simp_all add: op op_done_def del: not_None_eq)
qed

lemma bulk_items_runs:
  assumes "others_ok env" "docs_ok c" "ops_ok ops" "bulk_items url_text env i ops c = (errs, c')"
  shows "search_reach c c' \<and> (\<not> list_ex (\<lambda>failed. failed) errs \<longrightarrow> list_all (op_done url_text c') ops)"
  using assms(2-4)
proof (induction ops arbitrary: i c errs c')
  case Nil
  then show ?case by (simp add: search_reach_refl)
next
  case (Cons op ops)
  obtain index doc_id n body where op: "op = ((index, doc_id, n), body)" by (metis prod_cases4 surj_pair)
  define c1 where "c1 = rb_others env i c"
  define x where "x = (case rb_item env i of Some e \<Rightarrow> (True, c1)
      | None \<Rightarrow> (case execute_update index (document_id url_text doc_id) body c1 of
            (Inl e, c2) \<Rightarrow> (True, c2) | (Inr _, c2) \<Rightarrow> (False, c2)))"
  obtain rest c3 where r: "bulk_items url_text env (Suc i) ops (snd x) = (rest, c3)" by fastforce
  have e: "errs = fst x # rest" "c' = c3"
    using Cons.prems(3) r by (simp_all add: op Let_def c1_def [symmetric] x_def [symmetric] case_prod_beta)
  have reach1: "search_reach c c1" using assms(1) by (simp add: others_ok_def c1_def)
  have ok1: "docs_ok c1" using search_reach_docs_ok [OF reach1 Cons.prems(1)] .
  have b: "body_ok body" using Cons.prems(2) by (simp add: op)
  have reach2: "search_reach c1 (snd x)"
    using execute_reach [OF b, of c1 index "document_id url_text doc_id"] search_reach_refl
    by (auto simp: x_def split: option.splits sum.splits prod.splits)
  have ok2: "docs_ok (snd x)" using search_reach_docs_ok [OF reach2 ok1] .
  from Cons.IH [OF ok2 _ r] Cons.prems(2) have ih: "search_reach (snd x) c3"
    "\<not> list_ex (\<lambda>failed. failed) rest \<longrightarrow> list_all (op_done url_text c3) ops" by simp_all
  have "op_done url_text (snd x) op" if "\<not> fst x"
  proof -
    from that have "is_ok (fst (execute_update index (document_id url_text doc_id) body c1))"
      "snd x = snd (execute_update index (document_id url_text doc_id) body c1)"
      by (auto simp: x_def is_ok_def split: option.splits sum.splits prod.splits)
    then obtain y where y: "execute_update index (document_id url_text doc_id) body c1 = (Inr y, snd x)"
      by (auto simp: is_ok_iff prod_eq_iff)
    show ?thesis
      using execute_guard_ok(2) [OF ok1] execute_leaves_document [OF y] y by (cases body) (auto simp: op op_done_def)
  qed
  then have "\<not> fst x \<Longrightarrow> op_done url_text c3 op" using op_done_later [OF ok2 _ _ ih(1)] Cons.prems(2) by simp
  moreover have "search_reach c c3" using reach1 reach2 ih(1) by (blast intro: search_reach_trans)
  ultimately show ?case using ih(2) e by auto
qed

lemma sendBulk_runs:
  assumes "others_ok env" "docs_ok c" "ops_ok ops" "sendBulk url_text env n i ops c = (r, c')"
  shows "search_reach c c'" "r = Inr u \<Longrightarrow> list_all (op_done url_text c') ops"
proof -
  note b = bulk_items_runs [OF assms(1-3) surjective_pairing, of url_text i]
  show "search_reach c c'" using assms(4) b search_reach_refl
    by (cases "rb_bulk env n") (auto simp: sendBulk_def split: if_splits)
  show "r = Inr u \<Longrightarrow> list_all (op_done url_text c') ops" using assms(4) b
    by (cases "rb_bulk env n") (auto simp: sendBulk_def split: if_splits)
qed

section \<open>The run\<close>

text \<open>Everything that was queued so far is still queued or done.\<close>

definition run_ok :: "(jsval \<Rightarrow> string) \<Rightarrow> search_cluster \<Rightarrow> bulk_op list \<Rightarrow> rebuild_run \<Rightarrow> bool" where
  "run_ok url_text c0 queued st \<longleftrightarrow> search_reach c0 (run_cluster st) \<and> ops_ok queued \<and> ops_ok (run_ops st)
     \<and> (\<forall>op \<in> set queued. op \<in> set (run_ops st) \<or> op_done url_text (run_cluster st) op)"

lemma flush_run_ok:
  assumes "others_ok env" "docs_ok c0" "run_ok url_text c0 queued st" "flush_ops url_text env st = (r, st')"
  shows "search_reach c0 (run_cluster st')" "r = Inr u \<Longrightarrow> run_ok url_text c0 queued st' \<and> run_ops st' = []"
proof -
  have ok: "docs_ok (run_cluster st)" "ops_ok (run_ops st)" using assms(2,3) search_reach_docs_ok by (auto simp: run_ok_def)
  obtain r1 c1 where s: "sendBulk url_text env (run_bulks st) (run_items st) (run_ops st) (run_cluster st) = (r1, c1)" by fastforce
  note b = sendBulk_runs [OF assms(1) ok s]
  have reach: "search_reach c0 c1" using assms(3) b(1) by (auto simp: run_ok_def intro: search_reach_trans)
  show "search_reach c0 (run_cluster st')"
    using assms(3,4) s reach by (auto simp: flush_ops_def run_ok_def split: if_splits sum.splits)
  show "r = Inr u \<Longrightarrow> run_ok url_text c0 queued st' \<and> run_ops st' = []"
  proof (cases "run_ops st = []")
    case True
    with assms(3,4) show "r = Inr u \<Longrightarrow> ?thesis" by (simp add: flush_ops_def)
  next
    case False
    assume "r = Inr u"
    with False assms(4) s have st': "r1 = Inr ()" "run_cluster st' = c1" "run_ops st' = []"
      by (auto simp: flush_ops_def split: sum.splits)
    have "op_done url_text c1 op" if "op \<in> set queued" for op
    proof (cases "op \<in> set (run_ops st)")
      case True
      with b(2) [OF st'(1)] show ?thesis by (simp add: list_all_iff)
    next
      case False
      with that assms(3) have "body_ok (snd op)" "op_done url_text (run_cluster st) op" by (auto simp: run_ok_def list_all_iff)
      with op_done_later [OF ok(1) _ _ b(1)] show ?thesis by blast
    qed
    with st' reach assms(3) show ?thesis by (simp add: run_ok_def)
  qed
qed

lemma push_run_ok:
  assumes "others_ok env" "docs_ok c0" "run_ok url_text c0 queued st" "body_ok (snd op)"
    and "push_op url_text env n op st = (r, st')"
  shows "search_reach c0 (run_cluster st')" "r = Inr u \<Longrightarrow> run_ok url_text c0 (queued @ [op]) st'"
proof -
  let ?st = "st\<lparr>run_ops := run_ops st @ [op]\<rparr>"
  have q: "run_ok url_text c0 (queued @ [op]) ?st" using assms(3,4) by (auto simp: run_ok_def)
  show "search_reach c0 (run_cluster st')" "r = Inr u \<Longrightarrow> run_ok url_text c0 (queued @ [op]) st'"
    using assms(5) flush_run_ok [OF assms(1,2) q] q
    by (auto simp: push_op_def Let_def run_ok_def [of _ _ "queued @ [op]" ?st] split: if_splits)
qed

lemma flush_frame [simp]:
  "run_events (snd (flush_ops url_text env st)) = run_events st" "run_types (snd (flush_ops url_text env st)) = run_types st"
  by (simp_all add: flush_ops_def split: sum.split prod.split)

lemma push_frame [simp]:
  "run_events (snd (push_op url_text env n op st)) = run_events st" "run_types (snd (push_op url_text env n op st)) = run_types st"
  by (simp_all add: push_op_def Let_def)

definition type_op :: "string \<Rightarrow> AuthoritativeEventInventory \<Rightarrow> AuthoritativeTicketType \<Rightarrow> bulk_op" where
  "type_op index a t = buildVersionedInventoryBulkOps index (rebuild_payload a t)"

lemma push_type_ok:
  assumes "others_ok env" "docs_ok c0" "run_ok url_text c0 queued st" "body_ok (snd (type_op index a t))"
    and "push_type url_text env index n a t st = (r, st')"
  shows "search_reach c0 (run_cluster st')" "run_events st' = run_events st"
    "r = Inr u \<Longrightarrow> run_ok url_text c0 (queued @ [type_op index a t]) st' \<and> run_types st' = run_types st + 1"
proof -
  obtain r1 st1 where p: "push_op url_text env n (type_op index a t) st = (r1, st1)" by fastforce
  note q = push_run_ok [OF assms(1-4) p] push_frame [of url_text env n "type_op index a t" st, unfolded p snd_conv]
  show "search_reach c0 (run_cluster st')" "run_events st' = run_events st"
    "r = Inr u \<Longrightarrow> run_ok url_text c0 (queued @ [type_op index a t]) st' \<and> run_types st' = run_types st + 1"
    using assms(5) p q by (cases r1; auto simp: push_type_def type_op_def and_then_def run_ok_def)+
qed

lemma push_types_ok:
  assumes "others_ok env" "docs_ok c0" "run_ok url_text c0 queued st" "ops_ok (map (type_op index a) ts)"
    and "each_row (push_type url_text env index n a) ts st = (r, st')"
  shows "search_reach c0 (run_cluster st') \<and> run_events st' = run_events st
    \<and> (r = Inr u \<longrightarrow> run_ok url_text c0 (queued @ map (type_op index a) ts) st' \<and> run_types st' = run_types st + int (length ts))"
  using assms(3-5)
proof (induction ts arbitrary: queued st)
  case Nil
  then show ?case by (simp add: run_ok_def)
next
  case (Cons t ts)
  obtain r1 st1 where p: "push_type url_text env index n a t st = (r1, st1)" by fastforce
  from Cons.prems have b: "body_ok (snd (type_op index a t))" "ops_ok (map (type_op index a) ts)" by simp_all
  note q = push_type_ok [OF assms(1,2) Cons.prems(1) b(1) p]
  show ?case
  proof (cases r1)
    case (Inl e)
    with Cons.prems(3) p q(1,2) show ?thesis by auto
  next
    case (Inr u1)
    with Cons.prems(3) p have "each_row (push_type url_text env index n a) ts st1 = (r, st')" by simp
    from Cons.IH [of "queued @ [type_op index a t]", OF _ b(2) this] q Inr show ?thesis by auto
  qed
qed

text \<open>The operations of one Event.\<close>

definition event_ops :: "string \<Rightarrow> AuthoritativeEventInventory \<Rightarrow> bulk_op list" where
  "event_ops index a = (case buildEventMetadataBulkOps index (event_metadata_of a) of
       Inl e \<Rightarrow> [] | Inr op \<Rightarrow> op # map (type_op index a) (ae_ticketTypes a))"

lemma metadata_op_ok: "buildEventMetadataBulkOps index m = Inr op \<Longrightarrow> body_ok (snd op)"
  by (auto simp: buildEventMetadataBulkOps_def buildEventMetadataUpdateBody_def map_sum_Inr)

lemma push_event_ok:
  assumes "others_ok env" "docs_ok c0" "run_ok url_text c0 queued st" "ops_ok (map (type_op index a) (ae_ticketTypes a))"
    and "push_event url_text env index n a st = (r, st')"
  shows "search_reach c0 (run_cluster st')"
    "r = Inr u \<Longrightarrow> run_ok url_text c0 (queued @ event_ops index a) st' \<and> is_ok (buildEventMetadataBulkOps index (event_metadata_of a))
       \<and> run_events st' = run_events st + 1 \<and> run_types st' = run_types st + int (length (ae_ticketTypes a))"
proof -
  let ?st = "st\<lparr>run_events := run_events st + 1\<rparr>"
  have st: "run_ok url_text c0 queued ?st" using assms(3) by (simp add: run_ok_def)
  have "search_reach c0 (run_cluster st') \<and> (r = Inr u \<longrightarrow> run_ok url_text c0 (queued @ event_ops index a) st'
      \<and> is_ok (buildEventMetadataBulkOps index (event_metadata_of a))
      \<and> run_events st' = run_events st + 1 \<and> run_types st' = run_types st + int (length (ae_ticketTypes a)))"
  proof (cases "buildEventMetadataBulkOps index (event_metadata_of a)")
    case (Inl e)
    with assms(3,5) show ?thesis by (auto simp: push_event_def run_ok_def)
  next
    case (Inr op)
    obtain r1 st1 where p: "push_op url_text env n op ?st = (r1, st1)" by fastforce
    note q = push_run_ok [OF assms(1,2) st metadata_op_ok [OF Inr] p] push_frame [of url_text env n op ?st, unfolded p snd_conv]
    show ?thesis
    proof (cases r1)
      case (Inl e)
      with Inr p q assms(5) show ?thesis by (auto simp: push_event_def and_then_def)
    next
      case r1: (Inr u1)
      with Inr p assms(5) have e: "each_row (push_type url_text env index n a) (ae_ticketTypes a) st1 = (r, st')"
        by (simp add: push_event_def and_then_def)
      from push_types_ok [OF assms(1,2) q(2) [OF r1] assms(4) e] q(3,4) Inr show ?thesis by (simp add: event_ops_def)
    qed
  qed
  then show "search_reach c0 (run_cluster st')"
    "r = Inr u \<Longrightarrow> run_ok url_text c0 (queued @ event_ops index a) st' \<and> is_ok (buildEventMetadataBulkOps index (event_metadata_of a))
       \<and> run_events st' = run_events st + 1 \<and> run_types st' = run_types st + int (length (ae_ticketTypes a))" by simp_all
qed

section \<open>The rebuild\<close>

lemma source_ops_ok:
  assumes "authoritative_event date_iso columns s row = Inr a"
  shows "ops_ok (map (type_op index a) (ae_ticketTypes a))"
proof -
  note ev = authoritative_event_Inr [OF assms]
  have e: "0 \<le> evv (ae_eventInventoryVersion a)"
    using ev(4) by (cases "ae_eventInventoryVersion a") (auto simp: toEventInventoryVersion_def isVersionValue_def split: if_splits)
  have "0 \<le> ttv (at_inventoryVersion t)" if t: "t \<in> set (ae_ticketTypes a)" for t
  proof -
    from t obtain i where i: "i < length (ae_ticketTypes a)" "t = ae_ticketTypes a ! i" by (auto simp: in_set_conv_nth)
    with map_result_Inr [OF ev(6)] have "authoritative_type (type_rows s (ti_event row) ! i) = Inr t" by auto
    then show ?thesis by (auto simp: authoritative_type_def toTicketTypeInventoryVersion_def isVersionValue_def split: if_splits)
  qed
  with e show ?thesis
    by (auto simp: list_all_iff type_op_def buildVersionedInventoryBulkOps_def buildVersionedInventoryScriptParams_def
        rebuild_payload_def buildVersionedInventoryChangedDetail_def)
qed

definition rebuild_row ::
    "(jsval \<Rightarrow> string) \<Rightarrow> (string \<Rightarrow> string option) \<Rightarrow> (string \<Rightarrow> event_columns) \<Rightarrow> rebuild_env \<Rightarrow> pg \<Rightarrow> string \<Rightarrow> nat
       \<Rightarrow> (ti_row, rebuild_run) handler" where
  "rebuild_row url_text date_iso columns env s index n row st =
     (case authoritative_event date_iso columns s row of Inl e \<Rightarrow> (Inl e, st) | Inr a \<Rightarrow> push_event url_text env index n a st)"

lemma rebuild_row_ok:
  assumes "others_ok env" "docs_ok c0" "run_ok url_text c0 queued st"
    and "rebuild_row url_text date_iso columns env s index n row st = (r, st')"
  shows "search_reach c0 (run_cluster st')"
    "r = Inr u \<Longrightarrow> \<exists>a. authoritative_event date_iso columns s row = Inr a \<and> run_ok url_text c0 (queued @ event_ops index a) st'
       \<and> is_ok (buildEventMetadataBulkOps index (event_metadata_of a))
       \<and> run_events st' = run_events st + 1 \<and> run_types st' = run_types st + int (length (ae_ticketTypes a))"
  using assms(3,4) push_event_ok [OF assms(1-3) source_ops_ok, of date_iso columns s row _ index n r st']
  by (auto simp: rebuild_row_def run_ok_def split: sum.splits)

lemma rebuild_rows_ok:
  assumes "others_ok env" "docs_ok c0" "run_ok url_text c0 queued st"
    and "each_row (rebuild_row url_text date_iso columns env s index n) rows st = (Inr u, st')"
  shows "\<exists>ops. run_ok url_text c0 (queued @ ops) st' \<and> run_events st' = run_events st + int (length rows)
    \<and> (\<forall>row \<in> set rows. \<exists>a. authoritative_event date_iso columns s row = Inr a
        \<and> is_ok (buildEventMetadataBulkOps index (event_metadata_of a)) \<and> set (event_ops index a) \<subseteq> set ops)"
  using assms(3,4)
proof (induction rows arbitrary: queued st)
  case Nil
  then show ?case by (intro exI [of _ "[]"]) simp
next
  case (Cons row rows)
  obtain r st1 where p: "rebuild_row url_text date_iso columns env s index n row st = (r, st1)" by fastforce
  with Cons.prems(2) obtain u1 where r: "r = Inr u1" by (cases r) auto
  from rebuild_row_ok(2) [OF assms(1,2) Cons.prems(1) p r] obtain a where
    a: "authoritative_event date_iso columns s row = Inr a" "run_ok url_text c0 (queued @ event_ops index a) st1"
      "is_ok (buildEventMetadataBulkOps index (event_metadata_of a))" "run_events st1 = run_events st + 1" by blast
  from Cons.prems(2) p r have "each_row (rebuild_row url_text date_iso columns env s index n) rows st1 = (Inr u, st')" by simp
  from Cons.IH [OF a(2) this] obtain ops where
    ops: "run_ok url_text c0 (queued @ event_ops index a @ ops) st'" "run_events st' = run_events st1 + int (length rows)"
      "\<forall>row \<in> set rows. \<exists>a. authoritative_event date_iso columns s row = Inr a
        \<and> is_ok (buildEventMetadataBulkOps index (event_metadata_of a)) \<and> set (event_ops index a) \<subseteq> set ops" by auto
  show ?case
    by (rule exI [of _ "event_ops index a @ ops"]) (use a ops in \<open>auto, blast\<close>)
qed

lemma ensure_docs: "os_docs (snd (via l (ensureEventsIndex index) c)) = os_docs c"
  by (cases l) (simp_all add: ensureEventsIndex_def split: option.split sum.split)

text \<open>
  What a rebuild brings about for an Event row: its document exists, and for each Type row that joins its definition the
  document shows the row and the Event row, value for value, or newer ones.
\<close>

definition rebuilt :: "string \<Rightarrow> search_cluster \<Rightarrow> pg \<Rightarrow> ti_row \<Rightarrow> bool" where
  "rebuilt index c s row \<longleftrightarrow> os_docs c index (ti_event row) \<noteq> None
     \<and> (\<forall>x \<in> set (ticket_type_inventory s). \<forall>ty \<in> set (ticket_types s). tti_event x = ti_event row \<and> type_id ty = tti_type x \<longrightarrow>
          shows_or_newer
            \<lparr>pt_id = tti_type x, pt_name = type_name ty, pt_total = tti_total x, pt_remaining = tti_remaining x, pt_version = tti_version x\<rparr>
            (ti_version row) (ti_total row) (ti_remaining row) (doc_at index (ti_event row) c))"

lemma type_rows_mem:
  assumes "x \<in> set (ticket_type_inventory s)" "ty \<in> set (ticket_types s)" "tti_event x = e" "type_id ty = tti_type x"
  shows "(x, type_name ty) \<in> set (type_rows s e)"
  using assms by (auto simp: type_rows_def)

lemma authoritative_types:
  assumes "authoritative_event date_iso columns s row = Inr a" "(x, name) \<in> set (type_rows s (ti_event row))"
  shows "\<exists>t \<in> set (ae_ticketTypes a). at_ticketTypeId t = tti_type x \<and> at_name t = name \<and> at_totalQuantity t = tti_total x
    \<and> at_remainingQuantity t = tti_remaining x \<and> ttv (at_inventoryVersion t) = tti_version x"
proof -
  note types = map_result_Inr [OF authoritative_event_Inr(6) [OF assms(1)]]
  from assms(2) obtain i where i: "i < length (type_rows s (ti_event row))" "type_rows s (ti_event row) ! i = (x, name)"
    by (auto simp: in_set_conv_nth)
  with types have "ae_ticketTypes a ! i \<in> set (ae_ticketTypes a)" "authoritative_type (x, name) = Inr (ae_ticketTypes a ! i)"
    by (auto simp: in_set_conv_nth dest!: spec [of _ i])
  moreover from this(2) have "ae_ticketTypes a ! i = \<lparr>at_ticketTypeId = tti_type x, at_name = name,
      at_totalQuantity = tti_total x, at_remainingQuantity = tti_remaining x, at_inventoryVersion = TTVersion (tti_version x)\<rparr>"
    by (auto simp: authoritative_type_def map_sum_Inr toTicketTypeInventoryVersion_def split: if_splits)
  ultimately show ?thesis by (intro bexI [of _ "ae_ticketTypes a ! i"]) simp_all
qed

lemma authoritative_version:
  assumes "authoritative_event date_iso columns s row = Inr a"
  shows "evv (ae_eventInventoryVersion a) = ti_version row"
  using authoritative_event_Inr(4) [OF assms]
  by (cases "ae_eventInventoryVersion a") (auto simp: toEventInventoryVersion_def split: if_splits)

lemma event_ops_rebuilt:
  assumes "set (event_ops index a) \<subseteq> set ops" "list_all (op_done url_text c) ops"
    "is_ok (buildEventMetadataBulkOps index (event_metadata_of a))" "authoritative_event date_iso columns s row = Inr a"
  shows "rebuilt index c s row"
proof -
  note ev = authoritative_event_Inr(1-3) [OF assms(4)] and v = authoritative_version [OF assms(4)]
  from assms(3) obtain op where op: "buildEventMetadataBulkOps index (event_metadata_of a) = Inr op" by (auto simp: is_ok_iff)
  with assms(1,2) have did: "op_done url_text c op" "\<And>t. t \<in> set (ae_ticketTypes a) \<Longrightarrow> op_done url_text c (type_op index a t)"
    by (auto simp: event_ops_def list_all_iff)
  have "os_docs c index (ti_event row) \<noteq> None"
    using op did(1) ev(1)
    by (auto simp: buildEventMetadataBulkOps_def buildEventMetadataUpdateBody_def map_sum_Inr op_done_def event_metadata_of_def document_id_def)
  moreover have "shows_or_newer
      \<lparr>pt_id = tti_type x, pt_name = type_name ty, pt_total = tti_total x, pt_remaining = tti_remaining x, pt_version = tti_version x\<rparr>
      (ti_version row) (ti_total row) (ti_remaining row) (doc_at index (ti_event row) c)"
    if "x \<in> set (ticket_type_inventory s)" "ty \<in> set (ticket_types s)" "tti_event x = ti_event row" "type_id ty = tti_type x" for x ty
  proof -
    from authoritative_types [OF assms(4) type_rows_mem [OF that]] obtain t where
      t: "t \<in> set (ae_ticketTypes a)" "at_ticketTypeId t = tti_type x" "at_name t = type_name ty" "at_totalQuantity t = tti_total x"
        "at_remainingQuantity t = tti_remaining x" "ttv (at_inventoryVersion t) = tti_version x" by blast
    from did(2) [OF t(1)] t(2-6) ev v show ?thesis
      by (simp add: op_done_def type_op_def buildVersionedInventoryBulkOps_def document_id_def rebuild_payload_def
          buildVersionedInventoryChangedDetail_def buildVersionedInventoryScriptParams_def covers_iff type_entry_def)
  qed
  ultimately show ?thesis by (simp add: rebuilt_def)
qed

definition rebuild_index :: "RebuildOptions \<Rightarrow> string" where
  "rebuild_index options = (case ro_rebuild_index options of None \<Rightarrow> EVENTS_INDEX | Some i \<Rightarrow> i)"

definition rebuild_loop ::
    "(jsval \<Rightarrow> string) \<Rightarrow> (string \<Rightarrow> string option) \<Rightarrow> (string \<Rightarrow> event_columns) \<Rightarrow> rebuild_env \<Rightarrow> pg \<Rightarrow> RebuildOptions
       \<Rightarrow> search_cluster \<Rightarrow> unit result \<times> rebuild_run" where
  "rebuild_loop url_text date_iso columns env s options c =
     paged_loop ti_event (boundedPageSize (Some (case ro_rebuild_pageSize options of None \<Rightarrow> DEFAULT_PAGE_SIZE | Some n \<Rightarrow> n)))
       (rb_page env) (event_rows s)
       (rebuild_row url_text date_iso columns env s (rebuild_index options) (bounded_bulk (ro_bulkSize options))) 0 None (start_rebuild c)"

lemma rebuild_run:
  "rebuildInventoryProjection url_text date_iso columns env s options c =
     (case via (rb_ensure env) (ensureEventsIndex (rebuild_index options)) c of
        (None, c1) \<Rightarrow> (Inl connection_lost, c1)
      | (Some (Inl e), c1) \<Rightarrow> (Inl e, c1)
      | (Some (Inr _), c1) \<Rightarrow> (case and_then (rebuild_loop url_text date_iso columns env s options c1) (flush_ops url_text env) of
             (Inl e, st) \<Rightarrow> (Inl e, run_cluster st)
           | (Inr _, st) \<Rightarrow>
               if 0 < run_bulks st \<and> rb_refresh env \<noteq> Delivered then (Inl connection_lost, run_cluster st)
               else (Inr \<lparr>rbr_index = rebuild_index options, rbr_processedEvents = run_events st,
                       rbr_processedTicketTypes = run_types st, rbr_bulkRequests = int (run_bulks st)\<rparr>, run_cluster st)))"
  unfolding rebuildInventoryProjection_def iterateAuthoritativeInventory_def Let_def rebuild_loop_def rebuild_index_def
    rebuild_row_def [abs_def] by (rule refl)

lemma rebuild_reach:
  assumes "others_ok env" "docs_ok c1" "rebuild_loop url_text date_iso columns env s options c1 = (r, st)"
  shows "search_reach c1 (run_cluster st)" "search_reach c1 (run_cluster (snd (and_then (r, st) (flush_ops url_text env))))"
proof -
  have "case rebuild_loop url_text date_iso columns env s options c1 of
      (Inl e, st) \<Rightarrow> search_reach c1 (run_cluster st) | (Inr u, st) \<Rightarrow> \<exists>queued. run_ok url_text c1 queued st"
    unfolding rebuild_loop_def
  proof (rule paged_loop_invar, goal_cases)
    case 1
    have "run_ok url_text c1 [] (start_rebuild c1)" by (simp add: run_ok_def start_rebuild_def search_reach_refl)
    then show ?case by blast
  next
    case (2 r st u st')
    then show ?case using rebuild_row_ok(2) [OF assms(1,2)] by blast
  next
    case (3 r st e st')
    then show ?case using rebuild_row_ok(1) [OF assms(1,2)] by blast
  next
    case (4 st)
    then show ?case by (auto simp: run_ok_def)
  qed
  then have inv: "case r of Inl e \<Rightarrow> search_reach c1 (run_cluster st) | Inr u \<Rightarrow> \<exists>queued. run_ok url_text c1 queued st"
    by (simp add: assms(3) split: sum.splits)
  then show "search_reach c1 (run_cluster st)" by (auto simp: run_ok_def split: sum.splits)
  show "search_reach c1 (run_cluster (snd (and_then (r, st) (flush_ops url_text env))))"
    using inv flush_run_ok(1) [OF assms(1,2) _ surjective_pairing, of url_text _ st]
    by (auto simp: and_then_def split: sum.splits)
qed

lemma rebuild_success:
  assumes "others_ok env" "docs_ok c1" "distinct (map ti_event (ticket_inventory s))"
    and "rebuild_loop url_text date_iso columns env s options c1 = (Inr u, st1)" "flush_ops url_text env st1 = (Inr u', st2)"
  shows "run_events st2 = int (length (event_rows s))"
    "\<forall>row \<in> set (event_rows s). rebuilt (rebuild_index options) (run_cluster st2) s row"
proof -
  have start: "run_ok url_text c1 [] (start_rebuild c1)" by (simp add: run_ok_def start_rebuild_def search_reach_refl)
  have dist: "distinct (map ti_event (event_rows s))" using assms(3) by (simp add: event_rows_def distinct_map_filter)
  from rebuild_rows_ok [OF assms(1,2) start paged_loop_each_row [OF dist assms(4) [unfolded rebuild_loop_def]]] obtain ops where
    o: "run_ok url_text c1 ops st1" "run_events st1 = int (length (event_rows s))"
      "\<forall>row \<in> set (event_rows s). \<exists>a. authoritative_event date_iso columns s row = Inr a
        \<and> is_ok (buildEventMetadataBulkOps (rebuild_index options) (event_metadata_of a))
        \<and> set (event_ops (rebuild_index options) a) \<subseteq> set ops"
    by (auto simp: start_rebuild_def)
  show "run_events st2 = int (length (event_rows s))"
    using flush_frame(1) [of url_text env st1] assms(5) o(2) by simp
  from flush_run_ok(2) [OF assms(1,2) o(1) assms(5)] have "list_all (op_done url_text (run_cluster st2)) ops"
    by (auto simp: run_ok_def list_all_iff)
  with o(3) event_ops_rebuilt show "\<forall>row \<in> set (event_rows s). rebuilt (rebuild_index options) (run_cluster st2) s row" by metis
qed

text \<open>C23: a rebuild brings the index up to its snapshot and never rolls it back: whatever the run meets (lost
  requests, failed items, other writers between any two items), what a document showed of a payload it
  shows afterwards or something newer; and when the rebuild reports success, it counted every Event row of
  the snapshot, each of these Events has a document, and that document shows every Ticket Type row and the Event row
  with the row's own version, name, total and remaining quantity, or at a newer version.\<close>

theorem rebuild_reaches_snapshot:
  assumes "rebuildInventoryProjection url_text date_iso columns env s options c = (r, c')"
    and "docs_ok c" "others_ok env" "distinct (map ti_event (ticket_inventory s))"
  shows "(\<forall>index doc_id q. covers q (doc_at index doc_id c) \<and> body_ok (VersionGuard q) \<longrightarrow> covers q (doc_at index doc_id c'))
    \<and> (\<forall>report. r = Inr report \<longrightarrow>
        rbr_processedEvents report = int (length (filter (\<lambda>row. ti_event row \<in> set (events s)) (ticket_inventory s)))
      \<and> (\<forall>row \<in> set (ticket_inventory s). ti_event row \<in> set (events s) \<longrightarrow> rebuilt (rbr_index report) c' s row))"
proof -
  obtain reply c1 where v: "via (rb_ensure env) (ensureEventsIndex (rebuild_index options)) c = (reply, c1)" by fastforce
  obtain x st where l: "rebuild_loop url_text date_iso columns env s options c1 = (x, st)" by fastforce
  have docs: "doc_at i k c1 = doc_at i k c" for i k using ensure_docs [of "rb_ensure env" "rebuild_index options" c] v
    by (simp add: doc_at_def)
  have c1: "docs_ok c1" using assms(2) by (simp add: docs_ok_def docs)
  have reach: "search_reach c1 c'"
    using assms(1) search_reach_refl rebuild_reach(2) [OF assms(3) c1 l]
    by (auto simp: rebuild_run v l split: option.splits sum.splits prod.splits if_splits)
  have "covers q (doc_at i k c')" if "covers q (doc_at i k c)" "body_ok (VersionGuard q)" for i k q
    using covers_later [OF c1 that(2) _ reach, of i k] that(1) by (simp add: docs)
  moreover have "rbr_processedEvents report = int (length (filter (\<lambda>row. ti_event row \<in> set (events s)) (ticket_inventory s)))
      \<and> (\<forall>row \<in> set (ticket_inventory s). ti_event row \<in> set (events s) \<longrightarrow> rebuilt (rbr_index report) c' s row)"
    if "r = Inr report" for report
  proof -
    from that assms(1) obtain st2 where f: "x = Inr ()" "flush_ops url_text env st = (Inr (), st2)"
      and rep: "rbr_index report = rebuild_index options" "rbr_processedEvents report = run_events st2" "c' = run_cluster st2"
      by (auto simp: rebuild_run v l and_then_def split: option.splits sum.splits prod.splits if_splits)
    from rebuild_success [OF assms(3) c1 assms(4) l [unfolded f(1)] f(2)] rep show ?thesis by (simp add: event_rows_def)
  qed
  ultimately show ?thesis by blast
qed

text \<open>The sample inventory in requests of one item, while another writer updates the same document.\<close>

definition sample_rebuild_env :: rebuild_env where
  "sample_rebuild_env = \<lparr>rb_ensure = Delivered, rb_page = (\<lambda>_. False), rb_bulk = (\<lambda>_. Delivered), rb_item = (\<lambda>_. None),
     rb_others = (\<lambda>i c. if i = 1 then perform_update (UpAnswered, EVENTS_INDEX, uuid_a, VersionGuard (sample_params uuid_b 3 6 3 6)) c else c),
     rb_refresh = Delivered\<rparr>"

definition sample_rebuild :: "RebuildReport result \<times> search_cluster" where
  "sample_rebuild = rebuildInventoryProjection (\<lambda>_. ''x'') Some sample_columns sample_rebuild_env sample_inventory
     \<lparr>ro_rebuild_index = None, ro_rebuild_pageSize = None, ro_bulkSize = Some 1\<rparr> sample_cluster"

theorem rebuild_reaches_snapshot_witness:
  "rebuilt EVENTS_INDEX (snd sample_rebuild) sample_inventory (hd (ticket_inventory sample_inventory))"
proof -
  have run: "(case fst sample_rebuild of Inl _ \<Rightarrow> ''none'' | Inr report \<Rightarrow> rbr_index report) = EVENTS_INDEX" by code_simp
  have ok: "is_ok (fst sample_rebuild)" by code_simp
  then obtain report where report: "sample_rebuild = (Inr report, snd sample_rebuild)" "rbr_index report = EVENTS_INDEX"
    using run by (auto simp: is_ok_iff prod_eq_iff)
  have "body_ok (VersionGuard (sample_params uuid_b 3 6 3 6))" by code_simp
  then have "others_ok sample_rebuild_env"
    using client_update_reach [of "VersionGuard (sample_params uuid_b 3 6 3 6)" _ UpAnswered]
    by (simp add: others_ok_def sample_rebuild_env_def search_reach_refl)
  moreover have "distinct (map ti_event (ticket_inventory sample_inventory))" by code_simp
  moreover have "hd (ticket_inventory sample_inventory) \<in> set (ticket_inventory sample_inventory)"
    "ti_event (hd (ticket_inventory sample_inventory)) \<in> set (events sample_inventory)" by code_simp+
  ultimately show ?thesis
    using rebuild_reaches_snapshot [OF report(1) [unfolded sample_rebuild_def] sample_cluster_ok(1)] report(2)
    unfolding sample_rebuild_def by metis
qed

end
