(* ===== verification/ProjectionRepair.thy ===== *)
theory ProjectionRepair
  imports Reconciliation
begin

text \<open>
  The manual repair of the search projection, src/search/projection-repair.service.ts and the arguments
  and exit codes of src/search/projection-repair.cli.ts. A document is its JSON source here, because the repair meets documents that the
  other writers would not produce. The statements of one repair see the database one after another,
  and other writers may change the index between its reads and its write: both are arguments.
\<close>

section \<open>Reports\<close>

datatype RepairMode = DeleteDocument | DeleteTicketType | RepairCorruption

datatype RepairRefusalReason =
    event_exists_in_authoritative
  | ticket_type_exists_in_authoritative
  | event_missing_in_authoritative
  | document_not_found
  | ticket_type_not_in_document
  | no_contract_corruption_detected
  | malformed_projection_detected

text \<open>An entry of the diff: the scope is \<open>ticket_type\<close> when it names one, \<open>event_aggregate\<close> otherwise.\<close>

record CorruptionDiffEntry =
  df_ticketTypeId :: "string option"
  df_field :: string
  df_version :: int
  df_projectionValue :: jsval
  df_authoritativeValue :: jsval

record RepairReport =
  rep_mode :: RepairMode
  rep_index :: string
  rep_eventId :: string
  rep_ticketTypeId :: "string option"
  rep_apply :: bool
  rep_refusals :: "RepairRefusalReason list"
  rep_diff :: "CorruptionDiffEntry list"
  rep_applied :: bool

record RepairTarget =
  tg_index :: "string option"
  tg_eventId :: string
  tg_ticketTypeId :: "string option"
  tg_apply :: "bool option"

definition emptyReport :: "RepairMode \<Rightarrow> string \<Rightarrow> string \<Rightarrow> bool \<Rightarrow> RepairReport" where
  "emptyReport mode index eventId apply = \<lparr>rep_mode = mode, rep_index = index, rep_eventId = eventId, rep_ticketTypeId = None,
     rep_apply = apply, rep_refusals = [], rep_diff = [], rep_applied = False\<rparr>"

section \<open>The scripts\<close>

type_synonym source = "(string \<times> jsval) list"

definition script_error :: exn where
  "script_error = OpenSearchError 400 ''illegal_argument_exception''"

definition set_field :: "string \<Rightarrow> jsval \<Rightarrow> source \<Rightarrow> source" where
  "set_field n v fs = put_row fst (n, v) fs"

text \<open>\<open>t.ticket_type_id\<close>: a list element that is not an object has no such field and the script throws.\<close>

definition element_fields :: "jsval \<Rightarrow> source result" where
  "element_fields t = (case t of JObject fs \<Rightarrow> Inr fs | _ \<Rightarrow> Inl script_error)"

definition is_type :: "string \<Rightarrow> source \<Rightarrow> bool" where
  "is_type tid fs = (get_field fs ''ticket_type_id'' = JString tid)"

fun remove_if :: "string \<Rightarrow> jsval list \<Rightarrow> jsval list result" where
  "remove_if tid [] = Inr []"
| "remove_if tid (t # ts) =
     bind_result (element_fields t) (\<lambda>fs.
     bind_result (remove_if tid ts) (\<lambda>ts'. Inr (if is_type tid fs then ts' else t # ts')))"

definition REMOVE_TICKET_TYPE_SCRIPT :: "string \<Rightarrow> source \<Rightarrow> (ctx_op \<times> source) result" where
  "REMOVE_TICKET_TYPE_SCRIPT ticketTypeId d =
     (if is_nullish (get_field d ''ticket_types'') then Inr (CtxNoop, d)
      else (case get_field d ''ticket_types'' of
          JArray ts \<Rightarrow>
            bind_result (remove_if ticketTypeId ts) (\<lambda>ts'.
            Inr (if length ts' \<noteq> length ts then (CtxIndex, set_field ''ticket_types'' (JArray ts') d) else (CtxNoop, d)))
        | _ \<Rightarrow> Inl script_error))"

text \<open>
  \<open>((Number) v).longValue()\<close>: a fraction is cut off and a number beyond 64 bits stops at the limit
  (as for a double; integers of that size written out in digits do not occur).
\<close>

definition LONG_MAX :: int where "LONG_MAX = 2 ^ 63 - 1"

definition asLong :: "jsval \<Rightarrow> int result" where
  "asLong v = (case v of
       JNumber (Fin r) \<Rightarrow> Inr (max (- LONG_MAX - 1) (min LONG_MAX (if 0 \<le> r then \<lfloor>r\<rfloor> else \<lceil>r\<rceil>)))
     | _ \<Rightarrow> Inl script_error)"

definition quantities_differ :: "jsval \<Rightarrow> int \<Rightarrow> jsval \<Rightarrow> int \<Rightarrow> bool result" where
  "quantities_differ v x w y =
     bind_result (asLong v) (\<lambda>a.
     if a \<noteq> x then Inr True
     else bind_result (asLong w) (\<lambda>b. Inr (b \<noteq> y)))"

definition corrected_type :: "AuthoritativeTicketType \<Rightarrow> source \<Rightarrow> source" where
  "corrected_type a fs =
     set_field ''remaining_quantity'' (jsint (at_remainingQuantity a))
       (set_field ''total_quantity'' (jsint (at_totalQuantity a)) (set_field ''name'' (JString (at_name a)) fs))"

definition repair_type :: "AuthoritativeTicketType \<Rightarrow> jsval \<Rightarrow> (bool \<times> jsval) result" where
  "repair_type a t =
     bind_result (element_fields t) (\<lambda>fs.
     if is_type (at_ticketTypeId a) fs \<and> \<not> is_nullish (get_field fs ''inventory_version'')
     then bind_result (asLong (get_field fs ''inventory_version'')) (\<lambda>v.
          if v = ttv (at_inventoryVersion a)
          then bind_result (quantities_differ (get_field fs ''total_quantity'') (at_totalQuantity a)
                              (get_field fs ''remaining_quantity'') (at_remainingQuantity a)) (\<lambda>b.
               if b \<or> get_field fs ''name'' \<noteq> JString (at_name a) then Inr (True, JObject (corrected_type a fs))
               else Inr (False, t))
          else Inr (False, t))
     else Inr (False, t))"

fun repair_elements :: "AuthoritativeTicketType \<Rightarrow> jsval list \<Rightarrow> (bool \<times> jsval list) result" where
  "repair_elements a [] = Inr (False, [])"
| "repair_elements a (t # ts) =
     bind_result (repair_type a t) (\<lambda>(c, t').
     bind_result (repair_elements a ts) (\<lambda>(c', ts'). Inr (c \<or> c', t' # ts')))"

fun repair_types :: "AuthoritativeTicketType list \<Rightarrow> jsval list \<Rightarrow> (bool \<times> jsval list) result" where
  "repair_types [] ts = Inr (False, ts)"
| "repair_types (a # as) ts =
     bind_result (repair_elements a ts) (\<lambda>(c, ts').
     bind_result (repair_types as ts') (\<lambda>(c', ts''). Inr (c \<or> c', ts'')))"

definition repair_ticket_types :: "AuthoritativeTicketType list \<Rightarrow> source \<Rightarrow> (bool \<times> source) result" where
  "repair_ticket_types as d =
     (if is_nullish (get_field d ''ticket_types'') \<or> as = [] then Inr (False, d)
      else (case get_field d ''ticket_types'' of
          JArray ts \<Rightarrow> bind_result (repair_types as ts) (\<lambda>(c, ts'). Inr (c, if c then set_field ''ticket_types'' (JArray ts') d else d))
        | _ \<Rightarrow> Inl script_error))"

definition corrected_aggregate :: "AuthoritativeEventInventory \<Rightarrow> source \<Rightarrow> source" where
  "corrected_aggregate a d =
     set_field ''remaining_quantity'' (jsint (ae_eventRemainingQuantity a)) (set_field ''total_quantity'' (jsint (ae_eventTotalQuantity a))
       (set_field ''event_remaining_quantity'' (jsint (ae_eventRemainingQuantity a))
         (set_field ''event_total_quantity'' (jsint (ae_eventTotalQuantity a)) d)))"

definition repair_aggregate :: "AuthoritativeEventInventory \<Rightarrow> source \<Rightarrow> (bool \<times> source) result" where
  "repair_aggregate a d =
     (if is_nullish (get_field d ''event_inventory_version'') then Inr (False, d)
      else bind_result (asLong (get_field d ''event_inventory_version'')) (\<lambda>v.
        if v = evv (ae_eventInventoryVersion a)
        then bind_result (quantities_differ (get_field d ''event_total_quantity'') (ae_eventTotalQuantity a)
                            (get_field d ''event_remaining_quantity'') (ae_eventRemainingQuantity a)) (\<lambda>b.
             if b then Inr (True, corrected_aggregate a d) else Inr (False, d))
        else Inr (False, d)))"

definition REPAIR_CONTRACT_CORRUPTION_SCRIPT :: "AuthoritativeEventInventory \<Rightarrow> source \<Rightarrow> (ctx_op \<times> source) result" where
  "REPAIR_CONTRACT_CORRUPTION_SCRIPT a d =
     bind_result (repair_ticket_types (ae_ticketTypes a) d) (\<lambda>(c, d1).
     bind_result (repair_aggregate a d1) (\<lambda>(c', d2).
     Inr (if c \<or> c' then (CtxIndex, d2) else (CtxNoop, d))))"

section \<open>The stores\<close>

type_synonym documents = "string \<Rightarrow> string \<Rightarrow> source option"

datatype repair_stmt = RP_EVENTS | RP_INVENTORY | RP_TYPES | RP_TYPE_INVENTORY | RP_SNAPSHOT | RP_READ | RP_END | RP_GET

record repair_env =
  repair_fail :: "repair_stmt \<Rightarrow> exn option"
  repair_db :: "repair_stmt \<Rightarrow> pg"
  repair_others :: "documents \<Rightarrow> documents"
  repair_reply :: update_reply

definition repair_ask :: "repair_env \<Rightarrow> repair_stmt \<Rightarrow> (pg \<Rightarrow> 'a result) \<Rightarrow> 'a result" where
  "repair_ask env q f = (case repair_fail env q of Some e \<Rightarrow> Inl e | None \<Rightarrow> f (repair_db env q))"

text \<open>A \<open>SELECT 1\<close> with uuid parameters: a text that is no uuid is an error.\<close>

definition uuid_query :: "string list \<Rightarrow> 'a \<Rightarrow> 'a result" where
  "uuid_query params x = (if list_all is_uuid params then Inr x else Inl invalid_uuid)"

definition existsInAuthoritative :: "repair_env \<Rightarrow> string \<Rightarrow> bool result" where
  "existsInAuthoritative env eventId =
     bind_result (repair_ask env RP_EVENTS (\<lambda>s. uuid_query [eventId] (pg_uuid eventId \<in> set (events s)))) (\<lambda>found.
     if found then Inr True
     else repair_ask env RP_INVENTORY (\<lambda>s. uuid_query [eventId] (pg_uuid eventId \<in> set (map ti_event (ticket_inventory s)))))"

definition ticketTypeBelongsToEventInAuthoritative :: "repair_env \<Rightarrow> string \<Rightarrow> string \<Rightarrow> bool result" where
  "ticketTypeBelongsToEventInAuthoritative env eventId ticketTypeId =
     bind_result (repair_ask env RP_TYPES (\<lambda>s. uuid_query [eventId, ticketTypeId]
         (list_ex (\<lambda>t. type_event t = pg_uuid eventId \<and> type_id t = pg_uuid ticketTypeId) (ticket_types s)))) (\<lambda>found.
     if found then Inr True
     else repair_ask env RP_TYPE_INVENTORY (\<lambda>s. uuid_query [eventId, ticketTypeId]
         (list_ex (\<lambda>r. tti_event r = pg_uuid eventId \<and> tti_type r = pg_uuid ticketTypeId) (ticket_type_inventory s))))"

definition documentExists :: "repair_env \<Rightarrow> string \<Rightarrow> string \<Rightarrow> documents \<Rightarrow> bool result" where
  "documentExists env index eventId docs =
     (case repair_fail env RP_GET of Some e \<Rightarrow> Inl e | None \<Rightarrow> Inr (docs index eventId \<noteq> None))"

definition getProjectionDoc :: "repair_env \<Rightarrow> string \<Rightarrow> string \<Rightarrow> documents \<Rightarrow> source option result" where
  "getProjectionDoc env index eventId docs =
     (case repair_fail env RP_GET of Some e \<Rightarrow> Inl e | None \<Rightarrow> Inr (docs index eventId))"

definition documentContainsTicketType :: "source \<Rightarrow> string \<Rightarrow> bool" where
  "documentContainsTicketType d ticketTypeId =
     (case get_field d ''ticket_types'' of
        JArray ts \<Rightarrow> list_ex (\<lambda>t. property_of t ''ticket_type_id'' = JString ticketTypeId) ts
      | _ \<Rightarrow> False)"

text \<open>One request that writes: refused, answered, or done without an answer.\<close>

definition write_request ::
    "update_reply \<Rightarrow> (documents \<Rightarrow> 'a result \<times> documents) \<Rightarrow> documents \<Rightarrow> 'a result \<times> documents" where
  "write_request reply f docs =
     (case reply of
        UpAnswered \<Rightarrow> f docs
      | UpRefused e \<Rightarrow> (Inl e, docs)
      | UpAnswerLost e \<Rightarrow> (Inl e, snd (f docs)))"

definition missing_document :: exn where
  "missing_document = OpenSearchError 404 ''document_missing_exception''"

definition put_doc :: "string \<Rightarrow> string \<Rightarrow> source option \<Rightarrow> documents \<Rightarrow> documents" where
  "put_doc index doc_id d docs = docs(index := (docs index)(doc_id := d))"

definition delete_doc :: "string \<Rightarrow> string \<Rightarrow> documents \<Rightarrow> unit result \<times> documents" where
  "delete_doc index doc_id docs =
     (if docs index doc_id = None then (Inl missing_document, docs) else (Inr (), put_doc index doc_id None docs))"

text \<open>A scripted update without an upsert document; the answer is its \<open>result\<close>.\<close>

definition update_doc ::
    "(source \<Rightarrow> (ctx_op \<times> source) result) \<Rightarrow> string \<Rightarrow> string \<Rightarrow> documents \<Rightarrow> string result \<times> documents" where
  "update_doc script index doc_id docs =
     (case docs index doc_id of
        None \<Rightarrow> (Inl missing_document, docs)
      | Some d \<Rightarrow>
          (case script d of
             Inl e \<Rightarrow> (Inl e, docs)
           | Inr (CtxNoop, _) \<Rightarrow> (Inr ''noop'', docs)
           | Inr (CtxIndex, d') \<Rightarrow> (Inr ''updated'', put_doc index doc_id (Some d') docs)))"

definition updateWasApplied :: "string \<Rightarrow> bool" where
  "updateWasApplied outcome = (outcome = ''updated'')"

section \<open>The repairs\<close>

text \<open>
  A repair reads, and then either returns its report or writes to the index as others have left it by
  then.
\<close>

definition finish_repair ::
    "repair_env \<Rightarrow> RepairReport \<Rightarrow> (documents \<Rightarrow> bool result \<times> documents) \<Rightarrow> documents \<Rightarrow> RepairReport result \<times> documents" where
  "finish_repair env report write docs =
     (if rep_refusals report \<noteq> [] \<or> \<not> rep_apply report then (Inr report, docs)
      else (case write_request (repair_reply env) write (repair_others env docs) of
          (Inl e, docs') \<Rightarrow> (Inl e, docs')
        | (Inr applied, docs') \<Rightarrow> (Inr (report\<lparr>rep_applied := applied\<rparr>), docs')))"

definition index_of :: "RepairTarget \<Rightarrow> string" where
  "index_of target = (case tg_index target of None \<Rightarrow> EVENTS_INDEX | Some i \<Rightarrow> i)"

definition apply_of :: "RepairTarget \<Rightarrow> bool" where
  "apply_of target = (case tg_apply target of None \<Rightarrow> False | Some b \<Rightarrow> b)"

definition refuse_if :: "bool \<Rightarrow> RepairRefusalReason \<Rightarrow> RepairReport \<Rightarrow> RepairReport" where
  "refuse_if b reason report = (if b then report\<lparr>rep_refusals := rep_refusals report @ [reason]\<rparr> else report)"

definition deleteOrphanDocument :: "repair_env \<Rightarrow> RepairTarget \<Rightarrow> documents \<Rightarrow> RepairReport result \<times> documents" where
  "deleteOrphanDocument env target docs =
     (let index = index_of target;
          report = emptyReport DeleteDocument index (tg_eventId target) (apply_of target)
      in case bind_result (existsInAuthoritative env (tg_eventId target)) (\<lambda>found.
              bind_result (documentExists env index (tg_eventId target) docs) (\<lambda>docExists.
              Inr (refuse_if (\<not> docExists) document_not_found (refuse_if found event_exists_in_authoritative report)))) of
           Inl e \<Rightarrow> (Inl e, docs)
         | Inr report1 \<Rightarrow>
             finish_repair env report1 (\<lambda>ds. apfst (map_sum id (\<lambda>_. True)) (delete_doc index (tg_eventId target) ds)) docs)"

definition deleteOrphanTicketType :: "repair_env \<Rightarrow> RepairTarget \<Rightarrow> string \<Rightarrow> documents \<Rightarrow> RepairReport result \<times> documents" where
  "deleteOrphanTicketType env target ticketTypeId docs =
     (let index = index_of target;
          report = (emptyReport DeleteTicketType index (tg_eventId target) (apply_of target))\<lparr>rep_ticketTypeId := Some ticketTypeId\<rparr>
      in case bind_result (existsInAuthoritative env (tg_eventId target)) (\<lambda>found.
              bind_result (ticketTypeBelongsToEventInAuthoritative env (tg_eventId target) ticketTypeId) (\<lambda>belongs.
              bind_result (getProjectionDoc env index (tg_eventId target) docs) (\<lambda>doc.
              let report1 = refuse_if belongs ticket_type_exists_in_authoritative
                    (refuse_if (\<not> found) event_missing_in_authoritative report)
              in Inr (case doc of
                   None \<Rightarrow> refuse_if True document_not_found report1
                 | Some d \<Rightarrow> refuse_if (\<not> documentContainsTicketType d ticketTypeId) ticket_type_not_in_document report1)))) of
           Inl e \<Rightarrow> (Inl e, docs)
         | Inr report1 \<Rightarrow>
             finish_repair env report1
               (\<lambda>ds. apfst (map_sum id updateWasApplied) (update_doc (REMOVE_TICKET_TYPE_SCRIPT ticketTypeId) index (tg_eventId target) ds)) docs)"

text \<open>The diff of \<open>repairContractCorruption\<close>: whether something was malformed, and the entries.\<close>

definition entry_if :: "bool \<Rightarrow> string option \<Rightarrow> string \<Rightarrow> int \<Rightarrow> jsval \<Rightarrow> jsval \<Rightarrow> CorruptionDiffEntry list" where
  "entry_if b t f version projection authoritative =
     (if b then [\<lparr>df_ticketTypeId = t, df_field = f, df_version = version, df_projectionValue = projection,
        df_authoritativeValue = authoritative\<rparr>] else [])"

definition aggregate_diff :: "AuthoritativeEventInventory \<Rightarrow> source \<Rightarrow> bool \<times> CorruptionDiffEntry list" where
  "aggregate_diff a d =
     (if asVersionOrNull (get_field d ''event_inventory_version'') = Some (evv (ae_eventInventoryVersion a))
      then (case (asQuantityOrNull (get_field d ''event_total_quantity''), asQuantityOrNull (get_field d ''event_remaining_quantity'')) of
          (Some docTotal, Some docRemaining) \<Rightarrow>
            (False, entry_if (docTotal \<noteq> ae_eventTotalQuantity a) None ''total_quantity'' (evv (ae_eventInventoryVersion a))
                      (jsint docTotal) (jsint (ae_eventTotalQuantity a))
                  @ entry_if (docRemaining \<noteq> ae_eventRemainingQuantity a) None ''remaining_quantity'' (evv (ae_eventInventoryVersion a))
                      (jsint docRemaining) (jsint (ae_eventRemainingQuantity a)))
        | _ \<Rightarrow> (True, []))
      else (False, []))"

definition type_diff :: "jsval list \<Rightarrow> AuthoritativeTicketType \<Rightarrow> bool \<times> CorruptionDiffEntry list" where
  "type_diff docTypes a =
     (case find (\<lambda>t. property_of t ''ticket_type_id'' = JString (at_ticketTypeId a)) docTypes of
        None \<Rightarrow> (False, [])
      | Some dt \<Rightarrow>
          if asVersionOrNull (property_of dt ''inventory_version'') = Some (ttv (at_inventoryVersion a))
          then (case (asQuantityOrNull (property_of dt ''total_quantity''), asQuantityOrNull (property_of dt ''remaining_quantity'')) of
              (Some dtTotal, Some dtRemaining) \<Rightarrow>
                (let entry = (\<lambda>b f. entry_if b (Some (at_ticketTypeId a)) f (ttv (at_inventoryVersion a)))
                 in (False, entry (dtTotal \<noteq> at_totalQuantity a) ''total_quantity'' (jsint dtTotal) (jsint (at_totalQuantity a))
                      @ entry (dtRemaining \<noteq> at_remainingQuantity a) ''remaining_quantity'' (jsint dtRemaining) (jsint (at_remainingQuantity a))
                      @ entry (property_of dt ''name'' \<noteq> JString (at_name a)) ''name''
                          (if is_string (property_of dt ''name'') then property_of dt ''name'' else JNull) (JString (at_name a))))
            | _ \<Rightarrow> (True, []))
          else (False, []))"

definition corruption_diff :: "AuthoritativeEventInventory \<Rightarrow> source \<Rightarrow> bool \<times> CorruptionDiffEntry list" where
  "corruption_diff a d =
     (let docTypes = (case get_field d ''ticket_types'' of JArray ts \<Rightarrow> ts | _ \<Rightarrow> []);
          parts = aggregate_diff a d # map (type_diff docTypes) (ae_ticketTypes a)
      in (list_ex fst parts, concat (map snd parts)))"

text \<open>The read in its snapshot; the \<open>finally\<close> block closes the snapshot on either path.\<close>

definition read_snapshot ::
    "(string \<Rightarrow> string option) \<Rightarrow> (string \<Rightarrow> event_columns) \<Rightarrow> repair_env \<Rightarrow> string \<Rightarrow> AuthoritativeEventInventory option result" where
  "read_snapshot date_iso columns env eventId =
     bind_result (repair_ask env RP_SNAPSHOT (\<lambda>_. Inr ())) (\<lambda>_.
     (let r = repair_ask env RP_READ (\<lambda>s. if is_uuid eventId then readAuthoritativeEventInventory date_iso columns s eventId
                                     else Inl invalid_uuid)
      in bind_result (repair_ask env RP_END (\<lambda>_. Inr ())) (\<lambda>_. r)))"

definition repairContractCorruption ::
    "(string \<Rightarrow> string option) \<Rightarrow> (string \<Rightarrow> event_columns) \<Rightarrow> repair_env \<Rightarrow> RepairTarget \<Rightarrow> documents
       \<Rightarrow> RepairReport result \<times> documents" where
  "repairContractCorruption date_iso columns env target docs =
     (let index = index_of target;
          report = emptyReport RepairCorruption index (tg_eventId target) (apply_of target)
      in case read_snapshot date_iso columns env (tg_eventId target) of
           Inl e \<Rightarrow> (Inl e, docs)
         | Inr None \<Rightarrow> (Inr (refuse_if True event_missing_in_authoritative report), docs)
         | Inr (Some a) \<Rightarrow>
             (case getProjectionDoc env index (tg_eventId target) docs of
                Inl e \<Rightarrow> (Inl e, docs)
              | Inr None \<Rightarrow> (Inr (refuse_if True document_not_found report), docs)
              | Inr (Some d) \<Rightarrow>
                  (let (malformed, diff) = corruption_diff a d
                   in finish_repair env
                        (refuse_if (diff = []) no_contract_corruption_detected
                          (refuse_if malformed malformed_projection_detected (report\<lparr>rep_diff := diff\<rparr>)))
                        (\<lambda>ds. apfst (map_sum id updateWasApplied)
                           (update_doc (REPAIR_CONTRACT_CORRUPTION_SCRIPT a) index (tg_eventId target) ds)) docs)))"

section \<open>The command line\<close>

text \<open>The options as the loop over the arguments collects them.\<close>

record repair_options =
  ra_mode :: "string option"
  ra_eventId :: "string option"
  ra_ticketTypeId :: "string option"
  ra_apply :: bool

record RepairCliArgs =
  ca_mode :: RepairMode
  ca_eventId :: string
  ca_ticketTypeId :: "string option"
  ca_apply :: bool

definition starts_with :: "string \<Rightarrow> string \<Rightarrow> bool" where
  "starts_with p s = (take (length p) s = p)"

text \<open>The value of an option, and how many further arguments it takes.\<close>

definition readValue :: "string \<Rightarrow> string \<Rightarrow> string list \<Rightarrow> (string \<times> nat) result" where
  "readValue name arg rest =
     (let eqPrefix = ''--'' @ name @ ''=''
      in if starts_with eqPrefix arg then Inr (drop (length eqPrefix) arg, 0)
         else (case rest of
             [] \<Rightarrow> Inl (PlainError ''requires a value'')
           | v # _ \<Rightarrow> if starts_with ''--'' v then Inl (PlainError ''requires a value'') else Inr (v, 1)))"

definition names_option :: "string \<Rightarrow> string \<Rightarrow> bool" where
  "names_option name arg = (arg = ''--'' @ name \<or> starts_with (''--'' @ name @ ''='') arg)"

function parse_options :: "string list \<Rightarrow> repair_options \<Rightarrow> repair_options result" where
  "parse_options [] st = Inr st"
| "parse_options (arg # rest) st =
     (if arg = ''--apply'' then parse_options rest (st\<lparr>ra_apply := True\<rparr>)
      else if names_option ''mode'' arg
      then bind_result (readValue ''mode'' arg rest) (\<lambda>(v, n). parse_options (drop n rest) (st\<lparr>ra_mode := Some v\<rparr>))
      else if names_option ''event-id'' arg
      then bind_result (readValue ''event-id'' arg rest) (\<lambda>(v, n). parse_options (drop n rest) (st\<lparr>ra_eventId := Some v\<rparr>))
      else if names_option ''ticket-type-id'' arg
      then bind_result (readValue ''ticket-type-id'' arg rest) (\<lambda>(v, n). parse_options (drop n rest) (st\<lparr>ra_ticketTypeId := Some v\<rparr>))
      else Inl (PlainError ''unknown argument''))"
  by pat_completeness auto
termination by (relation "measure (length \<circ> fst)") auto

declare parse_options.simps(2) [simp del]

definition MODES :: "(string \<times> RepairMode) list" where
  "MODES = [(''delete-document'', DeleteDocument), (''delete-ticket-type'', DeleteTicketType), (''repair-corruption'', RepairCorruption)]"

definition parseRepairArgs :: "string list \<Rightarrow> RepairCliArgs result" where
  "parseRepairArgs argv =
     bind_result (parse_options argv \<lparr>ra_mode = None, ra_eventId = None, ra_ticketTypeId = None, ra_apply = False\<rparr>) (\<lambda>o1.
     (case Option.bind (ra_mode o1) (map_of MODES) of
        None \<Rightarrow> Inl (PlainError ''--mode must be one of the modes'')
      | Some mode \<Rightarrow>
          (case ra_eventId o1 of
             None \<Rightarrow> Inl (PlainError ''--event-id must be a canonical UUID'')
           | Some eventId \<Rightarrow>
               if \<not> is_uuid eventId then Inl (PlainError ''--event-id must be a canonical UUID'')
               else if mode = DeleteTicketType \<and> \<not> (case ra_ticketTypeId o1 of None \<Rightarrow> False | Some t \<Rightarrow> is_uuid t)
               then Inl (PlainError ''--ticket-type-id must be a canonical UUID'')
               else if mode \<noteq> DeleteTicketType \<and> ra_ticketTypeId o1 \<noteq> None
               then Inl (PlainError ''--ticket-type-id is not allowed'')
               else Inr \<lparr>ca_mode = mode, ca_eventId = eventId, ca_ticketTypeId = ra_ticketTypeId o1, ca_apply = ra_apply o1\<rparr>)))"

definition run_repair ::
    "(string \<Rightarrow> string option) \<Rightarrow> (string \<Rightarrow> event_columns) \<Rightarrow> repair_env \<Rightarrow> RepairCliArgs \<Rightarrow> documents
       \<Rightarrow> RepairReport result \<times> documents" where
  "run_repair date_iso columns env args docs =
     (let target = \<lparr>tg_index = None, tg_eventId = ca_eventId args, tg_ticketTypeId = ca_ticketTypeId args, tg_apply = Some (ca_apply args)\<rparr>
      in case ca_mode args of
           DeleteDocument \<Rightarrow> deleteOrphanDocument env target docs
         | DeleteTicketType \<Rightarrow> deleteOrphanTicketType env target (the (ca_ticketTypeId args)) docs
         | RepairCorruption \<Rightarrow> repairContractCorruption date_iso columns env target docs)"

text \<open>\<open>main\<close> with the handlers around it: the exit code. \<open>connect\<close> is the error of the connection.\<close>

definition repair_main ::
    "(string \<Rightarrow> string option) \<Rightarrow> (string \<Rightarrow> event_columns) \<Rightarrow> exn option \<Rightarrow> repair_env \<Rightarrow> string list \<Rightarrow> documents
       \<Rightarrow> nat \<times> documents" where
  "repair_main date_iso columns connect env argv docs =
     (case parseRepairArgs argv of
        Inl e \<Rightarrow> (1, docs)
      | Inr args \<Rightarrow>
          (case connect of
             Some e \<Rightarrow> (1, docs)
           | None \<Rightarrow>
               (case run_repair date_iso columns env args docs of
                  (Inl e, docs') \<Rightarrow> (1, docs')
                | (Inr report, docs') \<Rightarrow> (if rep_refusals report \<noteq> [] then 2 else 0, docs'))))"

section \<open>When a repair writes\<close>

lemma finish_repair_cases:
  assumes "finish_repair env report write docs = (r, docs')"
  obtains (idle) "r = Inr report" "docs' = docs" "rep_refusals report \<noteq> [] \<or> \<not> rep_apply report"
  | (refused) e where "r = Inl e" "docs' = repair_others env docs" "rep_refusals report = []" "rep_apply report"
  | (ran) w where "write (repair_others env docs) = (w, docs')" "rep_refusals report = []" "rep_apply report"
      "r = map_sum id (\<lambda>b. report\<lparr>rep_applied := b\<rparr>) w \<or> (\<exists>e. r = Inl e)"
proof (cases "rep_refusals report \<noteq> [] \<or> \<not> rep_apply report")
  case False
  obtain w d where w: "write (repair_others env docs) = (w, d)" by fastforce
  show thesis
    using assms False w that(2,3)
    by (cases "repair_reply env"; cases w) (auto simp: finish_repair_def write_request_def)
qed (use assms that(1) in \<open>auto simp: finish_repair_def\<close>)

lemma refuse_if_frame [simp]:
  "rep_apply (refuse_if b x report) = rep_apply report" "rep_index (refuse_if b x report) = rep_index report"
  "rep_eventId (refuse_if b x report) = rep_eventId report" "rep_diff (refuse_if b x report) = rep_diff report"
  "rep_applied (refuse_if b x report) = rep_applied report"
  by (simp_all add: refuse_if_def)

lemma refuse_if_Nil [simp]: "rep_refusals (refuse_if b x report) = [] \<longleftrightarrow> \<not> b \<and> rep_refusals report = []"
  by (simp add: refuse_if_def)

lemma emptyReport_simps [simp]:
  "rep_apply (emptyReport m i e b) = b" "rep_refusals (emptyReport m i e b) = []" "rep_applied (emptyReport m i e b) = False"
  by (simp_all add: emptyReport_def)

lemma readValue_next: "readValue name arg rest = Inr (v, n) \<Longrightarrow> ''--apply'' \<in> set (drop n rest) \<longleftrightarrow> ''--apply'' \<in> set rest"
  by (auto simp: readValue_def Let_def starts_with_def split: if_splits list.splits)

lemma parse_options_apply:
  "parse_options argv st = Inr st' \<Longrightarrow> ra_apply st' \<longleftrightarrow> ra_apply st \<or> ''--apply'' \<in> set argv"
proof (induction argv st rule: parse_options.induct)
  case (2 arg rest st)
  show ?case
  proof (cases "arg = ''--apply''")
    case True
    with 2 show ?thesis by (simp add: parse_options.simps(2))
  next
    case False
    with "2.prems" "2.IH"(2-) show ?thesis
      by (auto simp: parse_options.simps(2) bind_result_Inr dest: readValue_next split: if_splits)
  qed
qed simp

lemma parsed_options:
  assumes "parseRepairArgs argv = Inr args"
  obtains o1 where "parse_options argv \<lparr>ra_mode = None, ra_eventId = None, ra_ticketTypeId = None, ra_apply = False\<rparr> = Inr o1"
    "ra_eventId o1 = Some (ca_eventId args)" "is_uuid (ca_eventId args)" "ra_ticketTypeId o1 = ca_ticketTypeId args"
    "ca_apply args = ra_apply o1" "ca_mode args = DeleteTicketType \<longleftrightarrow> (\<exists>t. ca_ticketTypeId args = Some t \<and> is_uuid t)"
proof -
  from assms obtain o1 where o: "parse_options argv \<lparr>ra_mode = None, ra_eventId = None, ra_ticketTypeId = None, ra_apply = False\<rparr> = Inr o1"
    by (auto simp: parseRepairArgs_def bind_result_Inr)
  with assms obtain mode where m: "Option.bind (ra_mode o1) (map_of MODES) = Some mode"
    by (auto simp: parseRepairArgs_def split: option.splits)
  with assms o obtain e where e: "ra_eventId o1 = Some e" by (auto simp: parseRepairArgs_def split: option.splits)
  show thesis
    by (rule that [OF o]) (use assms o m e in \<open>auto simp: parseRepairArgs_def split: if_splits option.splits\<close>)
qed

lemma parsed_apply: "parseRepairArgs argv = Inr args \<Longrightarrow> ca_apply args \<longleftrightarrow> ''--apply'' \<in> set argv"
  by (erule parsed_options) (auto dest: parse_options_apply)

lemma delete_doc_only: "delete_doc i k docs = (w, docs') \<Longrightarrow> docs' = docs \<or> docs' = put_doc i k None docs"
  by (auto simp: delete_doc_def split: if_splits)

lemma update_doc_cases:
  assumes "update_doc script i k docs = (w, docs')"
  obtains (kept) "docs' = docs" "w \<noteq> Inr ''updated''"
  | (written) d d' where "docs i k = Some d" "script d = Inr (CtxIndex, d')" "docs' = put_doc i k (Some d') docs" "w = Inr ''updated''"
  using assms by (auto simp: update_doc_def split: option.splits sum.splits prod.splits ctx_op.splits)

text \<open>Each repair either returns without a write or hands its document to one request.\<close>

definition writes_only :: "repair_env \<Rightarrow> string \<Rightarrow> string \<Rightarrow> documents \<Rightarrow> documents \<Rightarrow> bool" where
  "writes_only env i k docs docs' \<longleftrightarrow> docs' = docs \<or> (\<exists>d. docs' = put_doc i k d (repair_others env docs))"

lemma put_doc_same: "put_doc i k (docs i k) docs = docs"
  by (simp add: put_doc_def)

lemma writes_others: "writes_only env i k docs (repair_others env docs)"
  unfolding writes_only_def by (metis put_doc_same)

lemma finish_delete:
  assumes "finish_repair env report (\<lambda>ds. apfst (map_sum id (\<lambda>_. True)) (delete_doc i k ds)) docs = (r, docs')"
  shows "writes_only env i k docs docs'"
  using assms
proof (cases rule: finish_repair_cases)
  case (ran w)
  then obtain w' where "delete_doc i k (repair_others env docs) = (w', docs')" by (auto simp: apfst_def map_prod_def split: prod.splits)
  from delete_doc_only [OF this] show ?thesis using writes_others by (auto simp: writes_only_def)
qed (use writes_others in \<open>auto simp: writes_only_def\<close>)

lemma finish_update:
  assumes "finish_repair env report (\<lambda>ds. apfst (map_sum id updateWasApplied) (update_doc script i k ds)) docs = (r, docs')"
  shows "writes_only env i k docs docs'"
  using assms
proof (cases rule: finish_repair_cases)
  case (ran w)
  then obtain w' where "update_doc script i k (repair_others env docs) = (w', docs')" by (auto simp: apfst_def map_prod_def split: prod.splits)
  then show ?thesis by (cases rule: update_doc_cases) (use writes_others in \<open>auto simp: writes_only_def\<close>)
qed (use writes_others in \<open>auto simp: writes_only_def\<close>)

lemma applied_update:
  assumes "finish_repair env report (\<lambda>ds. apfst (map_sum id updateWasApplied) (update_doc script i k ds)) docs = (Inr rep, docs')"
    and "\<not> rep_applied report" "rep_applied rep"
  obtains d d' where "rep_refusals report = []" "repair_others env docs i k = Some d" "script d = Inr (CtxIndex, d')"
    "docs' = put_doc i k (Some d') (repair_others env docs)"
  using assms(1)
proof (cases rule: finish_repair_cases)
  case idle
  with assms(2,3) show thesis by simp
next
  case (ran w)
  obtain w' ds where u: "update_doc script i k (repair_others env docs) = (w', ds)" by fastforce
  with ran(1) have "w = map_sum id updateWasApplied w'" "ds = docs'" by simp_all
  with ran(4) assms(3) have "w' = Inr ''updated''" by (cases w') (auto simp: updateWasApplied_def)
  with u \<open>ds = docs'\<close> have "update_doc script i k (repair_others env docs) = (Inr ''updated'', docs')" by simp
  then show thesis
  proof (cases rule: update_doc_cases)
    case (written d d')
    with ran(2) that show thesis by blast
  qed simp
qed auto

lemma finish_silent:
  assumes "finish_repair env report write docs = (r, docs')"
  shows "\<not> rep_apply report \<Longrightarrow> docs' = docs" "r = Inr rep \<Longrightarrow> rep_refusals rep \<noteq> [] \<Longrightarrow> docs' = docs"
  using assms by (auto elim!: finish_repair_cases simp: map_sum_Inr eq_commute [of "Inr rep"])

text \<open>The three repairs at once.\<close>

definition repair_write :: "RepairMode \<Rightarrow> string \<Rightarrow> AuthoritativeEventInventory \<Rightarrow> string \<Rightarrow> string \<Rightarrow> documents \<Rightarrow> bool result \<times> documents" where
  "repair_write mode ticketTypeId a i k ds = (case mode of
       DeleteDocument \<Rightarrow> apfst (map_sum id (\<lambda>_. True)) (delete_doc i k ds)
     | DeleteTicketType \<Rightarrow> apfst (map_sum id updateWasApplied) (update_doc (REMOVE_TICKET_TYPE_SCRIPT ticketTypeId) i k ds)
     | RepairCorruption \<Rightarrow> apfst (map_sum id updateWasApplied) (update_doc (REPAIR_CONTRACT_CORRUPTION_SCRIPT a) i k ds))"

lemma repair_writes:
  "repair_write DeleteDocument t a i k = (\<lambda>ds. apfst (map_sum id (\<lambda>_. True)) (delete_doc i k ds))"
  "repair_write DeleteTicketType t a i k = (\<lambda>ds. apfst (map_sum id updateWasApplied) (update_doc (REMOVE_TICKET_TYPE_SCRIPT t) i k ds))"
  "repair_write RepairCorruption t a i k
     = (\<lambda>ds. apfst (map_sum id updateWasApplied) (update_doc (REPAIR_CONTRACT_CORRUPTION_SCRIPT a) i k ds))"
  by (simp_all add: repair_write_def fun_eq_iff)

lemma deleteOrphanDocument_shape:
  assumes "deleteOrphanDocument env target docs = (r, docs')"
  obtains (failed) e where "r = Inl e" "docs' = docs"
  | (finished) found docExists report where "existsInAuthoritative env (tg_eventId target) = Inr found"
      "documentExists env (index_of target) (tg_eventId target) docs = Inr docExists"
      "rep_apply report = apply_of target" "rep_refusals report = [] \<longleftrightarrow> \<not> found \<and> docExists" "\<not> rep_applied report"
      "finish_repair env report (repair_write DeleteDocument t a (index_of target) (tg_eventId target)) docs = (r, docs')"
proof (cases "existsInAuthoritative env (tg_eventId target)")
  case (Inr found)
  show thesis
  proof (cases "documentExists env (index_of target) (tg_eventId target) docs")
    case (Inr docExists)
    note found = \<open>existsInAuthoritative _ _ = Inr found\<close>
    show thesis
      by (rule that(2) [OF found Inr]) (use assms found Inr in \<open>auto simp: deleteOrphanDocument_def repair_writes Let_def\<close>)
  qed (use assms Inr that(1) in \<open>auto simp: deleteOrphanDocument_def Let_def\<close>)
qed (use assms that(1) in \<open>auto simp: deleteOrphanDocument_def Let_def\<close>)

lemma deleteOrphanTicketType_shape:
  assumes "deleteOrphanTicketType env target t docs = (r, docs')"
  obtains (failed) e where "r = Inl e" "docs' = docs"
  | (finished) found belongs doc report where "existsInAuthoritative env (tg_eventId target) = Inr found"
      "ticketTypeBelongsToEventInAuthoritative env (tg_eventId target) t = Inr belongs"
      "getProjectionDoc env (index_of target) (tg_eventId target) docs = Inr doc"
      "rep_apply report = apply_of target"
      "rep_refusals report = [] \<longleftrightarrow> found \<and> \<not> belongs \<and> (\<exists>d. doc = Some d \<and> documentContainsTicketType d t)" "\<not> rep_applied report"
      "finish_repair env report (repair_write DeleteTicketType t a (index_of target) (tg_eventId target)) docs = (r, docs')"
proof (cases "existsInAuthoritative env (tg_eventId target)")
  case (Inr found)
  show thesis
  proof (cases "ticketTypeBelongsToEventInAuthoritative env (tg_eventId target) t")
    case (Inr belongs)
    show thesis
    proof (cases "getProjectionDoc env (index_of target) (tg_eventId target) docs")
      case (Inr doc)
      note found = \<open>existsInAuthoritative _ _ = Inr found\<close> \<open>ticketTypeBelongsToEventInAuthoritative _ _ _ = Inr belongs\<close>
      show thesis
        by (rule that(2) [OF found Inr]) (use assms found Inr in
          \<open>auto simp: deleteOrphanTicketType_def repair_writes Let_def split: option.splits\<close>)
    qed (use assms \<open>_ = Inr found\<close> Inr that(1) in \<open>auto simp: deleteOrphanTicketType_def Let_def\<close>)
  qed (use assms Inr that(1) in \<open>auto simp: deleteOrphanTicketType_def Let_def\<close>)
qed (use assms that(1) in \<open>auto simp: deleteOrphanTicketType_def Let_def\<close>)

lemma repairContractCorruption_shape:
  assumes "repairContractCorruption date_iso columns env target docs = (r, docs')"
  obtains (failed) e where "r = Inl e" "docs' = docs"
  | (refused) report where "r = Inr report" "docs' = docs" "rep_refusals report \<noteq> []" "\<not> rep_applied report"
  | (finished) a d report where "read_snapshot date_iso columns env (tg_eventId target) = Inr (Some a)"
      "docs (index_of target) (tg_eventId target) = Some d"
      "rep_apply report = apply_of target" "rep_diff report = snd (corruption_diff a d)"
      "rep_refusals report = [] \<longleftrightarrow> \<not> fst (corruption_diff a d) \<and> snd (corruption_diff a d) \<noteq> []" "\<not> rep_applied report"
      "finish_repair env report (repair_write RepairCorruption t a (index_of target) (tg_eventId target)) docs = (r, docs')"
proof (cases "read_snapshot date_iso columns env (tg_eventId target)")
  case (Inr x)
  show thesis
  proof (cases x)
    case (Some a)
    show thesis
    proof (cases "getProjectionDoc env (index_of target) (tg_eventId target) docs")
      case (Inr y)
      note read = \<open>read_snapshot _ _ _ _ = Inr x\<close> [unfolded Some]
      show thesis
      proof (cases y)
        case None
        with assms read Inr that(2) show thesis by (auto simp: repairContractCorruption_def Let_def)
      next
        case (Some d)
        with Inr have d: "docs (index_of target) (tg_eventId target) = Some d" by (auto simp: getProjectionDoc_def split: option.splits)
        let ?report = "refuse_if (snd (corruption_diff a d) = []) no_contract_corruption_detected
            (refuse_if (fst (corruption_diff a d)) malformed_projection_detected
              ((emptyReport RepairCorruption (index_of target) (tg_eventId target) (apply_of target))
                 \<lparr>rep_diff := snd (corruption_diff a d)\<rparr>))"
        have "finish_repair env ?report (repair_write RepairCorruption t a (index_of target) (tg_eventId target)) docs = (r, docs')"
          using assms read Inr Some by (simp add: repairContractCorruption_def repair_writes Let_def case_prod_unfold)
        then show thesis by (rule that(3) [OF read d, rotated -1]) (auto simp: emptyReport_def)
      qed
    qed (use assms \<open>_ = Inr x\<close> Some that(1) in \<open>auto simp: repairContractCorruption_def Let_def\<close>)
  qed (use assms \<open>_ = Inr x\<close> that(2) in \<open>auto simp: repairContractCorruption_def Let_def\<close>)
qed (use assms that(1) in \<open>auto simp: repairContractCorruption_def Let_def\<close>)

lemma repair_write_only: "finish_repair env report (repair_write mode t a i k) docs = (r, docs') \<Longrightarrow> writes_only env i k docs docs'"
  by (cases mode) (auto simp: repair_writes dest: finish_delete finish_update)

lemma run_repair_writes:
  assumes "run_repair date_iso columns env args docs = (r, docs')"
  shows "writes_only env EVENTS_INDEX (ca_eventId args) docs docs'
    \<and> (\<not> ca_apply args \<longrightarrow> docs' = docs) \<and> (\<forall>rep. r = Inr rep \<and> rep_refusals rep \<noteq> [] \<longrightarrow> docs' = docs)"
proof -
  let ?t = "\<lparr>tg_index = None, tg_eventId = ca_eventId args, tg_ticketTypeId = ca_ticketTypeId args, tg_apply = Some (ca_apply args)\<rparr>"
  have tg: "index_of ?t = EVENTS_INDEX" "apply_of ?t = ca_apply args" "tg_eventId ?t = ca_eventId args" by (simp_all add: index_of_def apply_of_def)
  have "(docs' = docs) \<or> (\<exists>report mode t a. rep_apply report = ca_apply args
      \<and> finish_repair env report (repair_write mode t a EVENTS_INDEX (ca_eventId args)) docs = (r, docs'))"
  proof (cases "ca_mode args")
    case DeleteDocument
    with assms have "deleteOrphanDocument env ?t docs = (r, docs')" by (simp add: run_repair_def)
    then show ?thesis
    proof (cases rule: deleteOrphanDocument_shape [where t = undefined and a = undefined])
      case finished
      from finished(3,6) show ?thesis unfolding tg by blast
    qed auto
  next
    case DeleteTicketType
    with assms have "deleteOrphanTicketType env ?t (the (ca_ticketTypeId args)) docs = (r, docs')" by (simp add: run_repair_def)
    then show ?thesis
    proof (cases rule: deleteOrphanTicketType_shape [where a = undefined])
      case finished
      from finished(4,7) show ?thesis unfolding tg by blast
    qed auto
  next
    case RepairCorruption
    with assms have "repairContractCorruption date_iso columns env ?t docs = (r, docs')" by (simp add: run_repair_def)
    then show ?thesis
    proof (cases rule: repairContractCorruption_shape [where t = undefined])
      case finished
      from finished(3,7) show ?thesis unfolding tg by blast
    qed auto
  qed
  then show ?thesis
  proof
    assume "\<exists>report mode t a. rep_apply report = ca_apply args
      \<and> finish_repair env report (repair_write mode t a EVENTS_INDEX (ca_eventId args)) docs = (r, docs')"
    then obtain report mode t a where "rep_apply report = ca_apply args"
      and f: "finish_repair env report (repair_write mode t a EVENTS_INDEX (ca_eventId args)) docs = (r, docs')" by blast
    with repair_write_only [OF f] finish_silent [OF f] show ?thesis by auto
  qed (simp add: writes_only_def)
qed

text \<open>The command repairs nothing by accident: without \<open>--apply\<close>, and whenever it answers that it
  refused, the index is exactly as it was; and in any run it writes at most the one document whose id was
  given, which is a UUID.\<close>

theorem repair_needs_permission:
  assumes "repair_main date_iso columns connect env argv docs = (code, docs')"
  shows "(''--apply'' \<notin> set argv \<or> code = 2 \<longrightarrow> docs' = docs)
    \<and> (docs' = docs \<or> (\<exists>args d. parseRepairArgs argv = Inr args \<and> is_uuid (ca_eventId args)
         \<and> docs' = put_doc EVENTS_INDEX (ca_eventId args) d (repair_others env docs)))"
proof (cases "\<exists>args. parseRepairArgs argv = Inr args \<and> connect = None")
  case True
  then obtain args where args: "parseRepairArgs argv = Inr args" "connect = None" by blast
  obtain r d where run: "run_repair date_iso columns env args docs = (r, d)" by fastforce
  from args(1) have "is_uuid (ca_eventId args)" by (rule parsed_options)
  moreover have "d = docs'" "code = 2 \<Longrightarrow> \<exists>rep. r = Inr rep \<and> rep_refusals rep \<noteq> []"
    using assms args run by (auto simp: repair_main_def split: sum.splits if_splits)
  ultimately show ?thesis using run_repair_writes [OF run] parsed_apply [OF args(1)] args(1) by (auto simp: writes_only_def)
next
  case False
  with assms show ?thesis by (auto simp: repair_main_def split: sum.splits option.splits)
qed

section \<open>Removing a Ticket Type\<close>

lemma get_set_field [simp]: "get_field (set_field n v d) m = (if m = n then v else get_field d m)"
  by (simp add: get_field_def set_field_def map_of_put_row)

lemma element_fields_Inr [result_iffs]: "element_fields t = Inr fs \<longleftrightarrow> t = JObject fs"
  by (auto simp: element_fields_def split: jsval.splits)

lemma is_type_property: "is_type tid fs \<longleftrightarrow> property_of (JObject fs) ''ticket_type_id'' = JString tid"
  by (simp add: is_type_def property_of_def)

lemma remove_if_Inr: "remove_if tid ts = Inr ts' \<Longrightarrow> ts' = filter (\<lambda>t. property_of t ''ticket_type_id'' \<noteq> JString tid) ts"
  by (induction ts arbitrary: ts') (auto simp: bind_result_Inr element_fields_Inr is_type_property)

lemma filter_put_row:
  "filter (\<lambda>p. fst p \<noteq> k) (put_row fst r m) = (if fst r = k then filter (\<lambda>p. fst p \<noteq> k) m else put_row fst r (filter (\<lambda>p. fst p \<noteq> k) m))"
proof -
  have "filter (\<lambda>p. fst p \<noteq> k) (map (\<lambda>x. if fst x = fst r then r else x) m)
      = (if fst r = k then filter (\<lambda>p. fst p \<noteq> k) m else map (\<lambda>x. if fst x = fst r then r else x) (filter (\<lambda>p. fst p \<noteq> k) m))"
    by (induction m) auto
  moreover have "row_by fst (fst r) (filter (\<lambda>p. fst p \<noteq> k) m) = row_by fst (fst r) m" if "fst r \<noteq> k"
    using that by (induction m) auto
  ultimately show ?thesis by (auto simp: put_row_def)
qed

lemma doc_types_filter:
  "doc_types ts m = (ds, m') \<Longrightarrow> doc_types (filter (\<lambda>t. property_of t ''ticket_type_id'' \<noteq> JString k) ts) (filter (\<lambda>p. fst p \<noteq> k) m)
     = (ds, filter (\<lambda>p. fst p \<noteq> k) m')"
proof (induction ts arbitrary: m ds)
  case (Cons t ts)
  show ?case
  proof (cases "property_of t ''ticket_type_id''")
    case (JString tid)
    with Cons.prems have "doc_types ts (put_row fst (tid, t) m) = (ds, m')" by simp
    from Cons.IH [OF this] JString show ?thesis by (cases "tid = k") (simp_all add: filter_put_row)
  qed (use Cons in \<open>auto split: prod.splits\<close>)
qed simp

lemma map_of_filter_key: "k \<noteq> x \<Longrightarrow> map_of (filter (\<lambda>p. fst p \<noteq> k) m) x = map_of m x"
  by (induction m) auto

lemma metadata_fields:
  "(\<And>n. n \<in> {''title'', ''event_type'', ''starts_at'', ''location''} \<Longrightarrow> get_field d' n = get_field d n)
     \<Longrightarrow> metadataMatches date_ms a d' = metadataMatches date_ms a d"
  by (simp add: metadataMatches_def)

lemma compare_removed:
  assumes "k \<notin> at_ticketTypeId ` set (ae_ticketTypes a)"
  shows "compare_versioned date_ms a (set_field ''ticket_types'' v d) x y z (filter (\<lambda>t. property_of t ''ticket_type_id'' \<noteq> JString k) ts)
    = filter (\<lambda>p. p \<noteq> (''unexpected_ticket_type'', Some k)) (compare_versioned date_ms a d x y z ts)"
proof -
  obtain ds m where m: "doc_types ts [] = (ds, m)" by fastforce
  have f: "doc_types (filter (\<lambda>t. property_of t ''ticket_type_id'' \<noteq> JString k) ts) [] = (ds, filter (\<lambda>p. fst p \<noteq> k) m)"
    using doc_types_filter [OF m, of k] by simp
  let ?keep = "\<lambda>p. p \<noteq> (''unexpected_ticket_type'', Some k)"
  have ds: "filter ?keep ds = ds"
  proof -
    have "snd p = None" if "p \<in> set (fst (doc_types us n))" for p us n
      using that by (induction us n rule: doc_types.induct) (auto split: jsval.splits prod.splits)
    from this [of _ ts "[]"] m show ?thesis by (fastforce simp: filter_id_conv)
  qed
  have types: "map (compare_type (filter (\<lambda>p. fst p \<noteq> k) m)) (ae_ticketTypes a) = map (compare_type m) (ae_ticketTypes a)"
    using assms by (auto simp: compare_type_def map_of_filter_key image_iff)
  have keep: "filter ?keep (compare_aggregate a x y z) = compare_aggregate a x y z"
    "filter ?keep (concat (map (compare_type m) xs)) = concat (map (compare_type m) xs)" for xs
    by (auto simp: filter_id_conv compare_aggregate_def compare_type_def when_differs_def Let_def split: option.splits if_splits)
  have "filter ?keep (map (\<lambda>p. (''unexpected_ticket_type'', Some (fst p))) (filter q m))
      = map (\<lambda>p. (''unexpected_ticket_type'', Some (fst p))) (filter q (filter (\<lambda>p. fst p \<noteq> k) m))" for q
    by (induction m) auto
  moreover have "metadataMatches date_ms (ae_metadata a) (set_field ''ticket_types'' v d) = metadataMatches date_ms (ae_metadata a) d"
    by (rule metadata_fields) auto
  ultimately show ?thesis by (simp add: compare_versioned_def m f types keep ds when_differs_def)
qed

lemma compareEvent_known_type:
  assumes "(''unexpected_ticket_type'', Some k) \<in> set (compareEvent date_ms a d)"
  obtains x y z ts where "asVersionOrNull (get_field d ''event_inventory_version'') = Some x"
    "asQuantityOrNull (get_field d ''event_total_quantity'') = Some y" "asQuantityOrNull (get_field d ''event_remaining_quantity'') = Some z"
    "get_field d ''ticket_types'' = JArray ts" "compareEvent date_ms a d = compare_versioned date_ms a d x y z ts"
  using assms by (auto simp: compareEvent_def Let_def split: if_splits option.splits jsval.splits)

lemma not_nullish: "asVersionOrNull v = Some i \<Longrightarrow> \<not> is_nullish v" "asQuantityOrNull v = Some i \<Longrightarrow> \<not> is_nullish v"
  by (auto simp: asVersionOrNull_def asQuantityOrNull_def is_nullish_def isSafeInteger_def isInteger_def split: if_splits)

lemma removal_compared:
  assumes "REMOVE_TICKET_TYPE_SCRIPT k d = Inr (CtxIndex, d')"
    and "k \<notin> at_ticketTypeId ` set (ae_ticketTypes a)" "(''unexpected_ticket_type'', Some k) \<in> set (compareEvent date_ms a d)"
  shows "compareEvent date_ms a d' = filter (\<lambda>p. p \<noteq> (''unexpected_ticket_type'', Some k)) (compareEvent date_ms a d)"
proof -
  obtain x y z ts where f: "asVersionOrNull (get_field d ''event_inventory_version'') = Some x"
    "asQuantityOrNull (get_field d ''event_total_quantity'') = Some y" "asQuantityOrNull (get_field d ''event_remaining_quantity'') = Some z"
    "get_field d ''ticket_types'' = JArray ts" and c: "compareEvent date_ms a d = compare_versioned date_ms a d x y z ts"
    using compareEvent_known_type [OF assms(3)] .
  let ?ts = "filter (\<lambda>t. property_of t ''ticket_type_id'' \<noteq> JString k) ts"
  from assms(1) f(4) have d': "d' = set_field ''ticket_types'' (JArray ?ts) d"
    by (auto simp: REMOVE_TICKET_TYPE_SCRIPT_def bind_result_Inr dest: remove_if_Inr split: if_splits)
  have "compareEvent date_ms a d' = compare_versioned date_ms a d' x y z ?ts"
    using f not_nullish(1) [OF f(1)] by (simp add: compareEvent_def d' Let_def)
  then show ?thesis unfolding c d' compare_removed [OF assms(2)] .
qed

lemma type_ids:
  assumes "authoritative_event date_iso columns s r = Inr a" "x \<in> set (ae_ticketTypes a)"
  shows "\<exists>row \<in> set (ticket_type_inventory s). tti_event row = ti_event r \<and> tti_type row = at_ticketTypeId x"
proof -
  note m = map_result_Inr [OF authoritative_event_Inr(6) [OF assms(1)]]
  from assms(2) obtain i where i: "i < length (ae_ticketTypes a)" "ae_ticketTypes a ! i = x" by (auto simp: in_set_conv_nth)
  with m have "authoritative_type (type_rows s (ti_event r) ! i) = Inr x" "type_rows s (ti_event r) ! i \<in> set (type_rows s (ti_event r))"
    by auto
  then show ?thesis by (auto simp: authoritative_type_def type_rows_def map_sum_Inr)
qed

definition uuid_columns :: "pg \<Rightarrow> bool" where
  "uuid_columns s \<longleftrightarrow> list_all (\<lambda>r. pg_uuid (tti_type r) = tti_type r) (ticket_type_inventory s)"

text \<open>Removing an orphan Ticket Type converges and takes nothing else away: when the repair reports
  that it wrote, then the type did not belong to the Event in either table, every other field of the document is
  what the writers before had left, and the next reconciliation reports exactly the differences it would have
  reported without the repair, less this one.\<close>

theorem orphan_type_removal_converges:
  assumes "deleteOrphanTicketType env target t docs = (Inr report, docs')" "rep_applied report"
    and "repair_db env RP_TYPE_INVENTORY = s" "uuid_columns s"
    and "readAuthoritativeEventInventory date_iso columns s (tg_eventId target) = Inr (Some a)"
  shows "\<exists>d d'. repair_others env docs (index_of target) (tg_eventId target) = Some d
    \<and> docs' = put_doc (index_of target) (tg_eventId target) (Some d') (repair_others env docs)
    \<and> (\<forall>n. n \<noteq> ''ticket_types'' \<longrightarrow> get_field d' n = get_field d n)
    \<and> ((''unexpected_ticket_type'', Some t) \<in> set (compareEvent date_ms a d) \<longrightarrow>
         compareEvent date_ms a d' = filter (\<lambda>p. p \<noteq> (''unexpected_ticket_type'', Some t)) (compareEvent date_ms a d))"
proof -
  let ?i = "index_of target" and ?k = "tg_eventId target"
  obtain found belongs doc report1 where f: "ticketTypeBelongsToEventInAuthoritative env ?k t = Inr belongs" "\<not> rep_applied report1"
    "rep_refusals report1 = [] \<Longrightarrow> \<not> belongs"
    "finish_repair env report1 (repair_write DeleteTicketType t a ?i ?k) docs = (Inr report, docs')"
    using assms(1) by (cases rule: deleteOrphanTicketType_shape [where a = a]) auto
  obtain d d' where d: "repair_others env docs ?i ?k = Some d" "REMOVE_TICKET_TYPE_SCRIPT t d = Inr (CtxIndex, d')"
    "docs' = put_doc ?i ?k (Some d') (repair_others env docs)" and "\<not> belongs"
    using applied_update [OF f(4) [unfolded repair_writes] f(2) assms(2)] f(3) by blast
  have "\<forall>n. n \<noteq> ''ticket_types'' \<longrightarrow> get_field d' n = get_field d n"
    using d(2) by (auto simp: REMOVE_TICKET_TYPE_SCRIPT_def bind_result_Inr split: if_splits jsval.splits)
  moreover have "t \<notin> at_ticketTypeId ` set (ae_ticketTypes a)"
  proof
    assume "t \<in> at_ticketTypeId ` set (ae_ticketTypes a)"
    then obtain x where x: "x \<in> set (ae_ticketTypes a)" "t = at_ticketTypeId x" by blast
    from assms(5) obtain r where "authoritative_event date_iso columns s r = Inr a" "ti_event r = pg_uuid ?k"
      by (auto simp: readAuthoritativeEventInventory_def map_sum_Inr filter_eq_Cons_iff split: list.splits)
    from type_ids [OF this(1) x(1)] this(2) obtain row where row: "row \<in> set (ticket_type_inventory s)" "tti_event row = pg_uuid ?k" "tti_type row = t"
      using x(2) by auto
    with assms(4) have "tti_type row = pg_uuid t" by (auto simp: uuid_columns_def list_all_iff)
    with row f(1) assms(3) \<open>\<not> belongs\<close> show False
      by (auto simp: ticketTypeBelongsToEventInAuthoritative_def repair_ask_def uuid_query_def bind_result_Inr list_ex_iff
          split: option.splits if_splits)
  qed
  ultimately show ?thesis using d removal_compared [OF d(2)] by blast
qed

section \<open>Correcting values\<close>

lemma asLong_safe:
  "asVersionOrNull v = Some n \<Longrightarrow> asLong v = Inr n" "asQuantityOrNull v = Some n \<Longrightarrow> asLong v = Inr n"
proof -
  have l: "asLong v = Inr (number_value v)" if "isSafeInteger v" "number_value v \<ge> 0"
  proof -
    from that(1) have "v = jsint (number_value v)" "number_value v \<le> 9007199254740991" by (auto simp: isSafeInteger_def isInteger_iff)
    moreover have "asLong (jsint m) = Inr m" if "0 \<le> m" "m \<le> 9007199254740991" for m
      using that by (simp add: asLong_def jsint_def LONG_MAX_def)
    ultimately show ?thesis using that(2) by metis
  qed
  then show "asVersionOrNull v = Some n \<Longrightarrow> asLong v = Inr n" "asQuantityOrNull v = Some n \<Longrightarrow> asLong v = Inr n"
    by (auto simp: asVersionOrNull_def asQuantityOrNull_def split: if_splits)
qed

text \<open>An element that shows the version of \<open>a\<close> shows its values; and what the script does to an element.\<close>

definition uncorrupted :: "AuthoritativeTicketType \<Rightarrow> jsval \<Rightarrow> bool" where
  "uncorrupted a t \<longleftrightarrow>
     property_of t ''ticket_type_id'' = JString (at_ticketTypeId a)
     \<longrightarrow> asVersionOrNull (property_of t ''inventory_version'') = Some (ttv (at_inventoryVersion a))
     \<longrightarrow> property_of t ''name'' = JString (at_name a)
       \<and> asQuantityOrNull (property_of t ''total_quantity'') \<in> {None, Some (at_totalQuantity a)}
       \<and> asQuantityOrNull (property_of t ''remaining_quantity'') \<in> {None, Some (at_remainingQuantity a)}"

definition corrects :: "AuthoritativeTicketType \<Rightarrow> jsval \<Rightarrow> jsval \<Rightarrow> bool" where
  "corrects a t t' \<longleftrightarrow> (\<exists>fs. t = JObject fs \<and> t' = JObject (corrected_type a fs) \<and> is_type (at_ticketTypeId a) fs
     \<and> asLong (get_field fs ''inventory_version'') = Inr (ttv (at_inventoryVersion a)))"

definition fixed :: "AuthoritativeTicketType list \<Rightarrow> jsval \<Rightarrow> jsval \<Rightarrow> bool" where
  "fixed as t t' \<longleftrightarrow> t' = t \<or> (\<exists>a \<in> set as. corrects a t t')"

lemma corrects_keeps:
  assumes "corrects a t t'"
  shows "property_of t' ''ticket_type_id'' = property_of t ''ticket_type_id''"
    "property_of t' ''inventory_version'' = property_of t ''inventory_version''"
    "property_of t ''ticket_type_id'' = JString (at_ticketTypeId a)"
    "property_of t' ''name'' = JString (at_name a)"
    "property_of t' ''total_quantity'' = jsint (at_totalQuantity a)"
    "property_of t' ''remaining_quantity'' = jsint (at_remainingQuantity a)"
  using assms by (auto simp: corrects_def property_of_def corrected_type_def is_type_def)

lemma fixed_keeps:
  "fixed as t t' \<Longrightarrow> property_of t' ''ticket_type_id'' = property_of t ''ticket_type_id''
     \<and> property_of t' ''inventory_version'' = property_of t ''inventory_version''"
  by (auto simp: fixed_def corrects_keeps)

lemma asQuantity_jsint: "asQuantityOrNull (jsint n) \<in> {None, Some n}"
  by (auto simp: asQuantityOrNull_def)

lemma quantities_differ_False:
  assumes "quantities_differ v x w y = Inr False"
  shows "asQuantityOrNull v \<in> {None, Some x}" "asQuantityOrNull w \<in> {None, Some y}"
  using assms asLong_safe(2) [of v] asLong_safe(2) [of w]
  by (cases "asQuantityOrNull v"; cases "asQuantityOrNull w"; auto simp: quantities_differ_def bind_result_Inr split: if_splits)+

lemma repair_type_Inr:
  assumes "repair_type a t = Inr (c, t')"
  shows "uncorrupted a t'" "t' = t \<or> corrects a t t'" "\<not> c \<Longrightarrow> t' = t"
proof -
  from assms obtain fs where t: "t = JObject fs" by (auto simp: repair_type_def bind_result_Inr element_fields_Inr)
  let ?v = "get_field fs ''inventory_version''"
  show "t' = t \<or> corrects a t t'" "\<not> c \<Longrightarrow> t' = t"
    using assms by (auto simp: t repair_type_def bind_result_Inr element_fields_def corrects_def split: if_splits)
  show "uncorrupted a t'"
  proof (cases "corrects a t t'")
    case True
    with asQuantity_jsint show ?thesis by (auto simp: uncorrupted_def corrects_keeps)
  next
    case False
    with \<open>t' = t \<or> _\<close> have "t' = t" by simp
    with assms False show ?thesis
      using quantities_differ_False [of "get_field fs ''total_quantity''" "at_totalQuantity a" "get_field fs ''remaining_quantity''" "at_remainingQuantity a"]
        asLong_safe(1) [of ?v "ttv (at_inventoryVersion a)"] not_nullish(1) [of ?v]
      by (auto simp: t repair_type_def bind_result_Inr element_fields_def uncorrupted_def property_of_def is_type_def corrects_def split: if_splits)
  qed
qed

lemma repair_elements_Inr:
  "repair_elements a ts = Inr (c, ts') \<Longrightarrow>
     list_all2 (fixed [a]) ts ts' \<and> list_all (uncorrupted a) ts' \<and> (\<not> c \<longrightarrow> ts' = ts)"
proof (induction ts arbitrary: c ts')
  case (Cons t ts)
  then obtain c1 t1 c2 ts2 where "repair_type a t = Inr (c1, t1)" "repair_elements a ts = Inr (c2, ts2)" "c = (c1 \<or> c2)" "ts' = t1 # ts2"
    by (auto simp: bind_result_Inr)
  with Cons.IH [of c2 ts2] repair_type_Inr [of a t c1 t1] show ?case by (auto simp: fixed_def)
qed simp

lemma fixed_uncorrupted:
  assumes "fixed as t t'" "uncorrupted a t" "at_ticketTypeId a \<notin> at_ticketTypeId ` set as"
  shows "uncorrupted a t'"
proof (cases "t' = t")
  case False
  with assms(1) obtain b where b: "b \<in> set as" "corrects b t t'" by (auto simp: fixed_def)
  with assms(3) have "at_ticketTypeId b \<noteq> at_ticketTypeId a" by (metis imageI)
  with corrects_keeps(1,3) [OF b(2)] show ?thesis by (simp add: uncorrupted_def)
qed (use assms(2) in simp)

lemma fixed_Cons:
  assumes "fixed [a] t u" "fixed as u t'" "at_ticketTypeId a \<notin> at_ticketTypeId ` set as"
  shows "fixed (a # as) t t'"
proof (cases "u = t")
  case False
  with assms(1) have u: "corrects a t u" by (simp add: fixed_def)
  have "t' = u"
  proof (rule ccontr)
    assume "t' \<noteq> u"
    with assms(2) obtain b where b: "b \<in> set as" "corrects b u t'" by (auto simp: fixed_def)
    with corrects_keeps(1,3) [OF u] corrects_keeps(3) [OF b(2)] have "at_ticketTypeId b = at_ticketTypeId a" by simp
    with b(1) assms(3) show False by (metis imageI)
  qed
  with u show ?thesis by (simp add: fixed_def)
qed (use assms(2) in \<open>auto simp: fixed_def\<close>)

lemma repair_types_Inr:
  "repair_types as ts = Inr (c, ts') \<Longrightarrow> distinct (map at_ticketTypeId as) \<Longrightarrow>
     list_all2 (fixed as) ts ts' \<and> (\<forall>a \<in> set as. list_all (uncorrupted a) ts') \<and> (\<not> c \<longrightarrow> ts' = ts)"
proof (induction as arbitrary: ts c ts')
  case Nil
  then show ?case by (auto simp: fixed_def list_all2_refl)
next
  case (Cons a as)
  then obtain c1 ts1 c2 where r: "repair_elements a ts = Inr (c1, ts1)" "repair_types as ts1 = Inr (c2, ts')" "c = (c1 \<or> c2)"
    by (auto simp: bind_result_Inr)
  note e = repair_elements_Inr [OF r(1)] and i = Cons.IH [OF r(2)]
  have a: "at_ticketTypeId a \<notin> at_ticketTypeId ` set as" using Cons.prems(2) by auto
  have f: "list_all2 (fixed [a]) ts ts1" "list_all2 (fixed as) ts1 ts'" using e i Cons.prems(2) by simp_all
  have "list_all2 (fixed (a # as)) ts ts'"
    by (rule list_all2_trans [OF _ f]) (rule fixed_Cons [OF _ _ a])
  moreover have "list_all (uncorrupted a) ts'"
    using f(2) e fixed_uncorrupted [OF _ _ a] by (auto simp: list_all_length list_all2_conv_all_nth)
  ultimately show ?case using e i r(3) Cons.prems(2) by simp
qed

lemma repair_ticket_types_Inr:
  assumes "repair_ticket_types as d = Inr (c, d1)" "distinct (map at_ticketTypeId as)"
  shows "\<forall>n. n \<noteq> ''ticket_types'' \<longrightarrow> get_field d1 n = get_field d n" "\<not> c \<Longrightarrow> d1 = d"
    "get_field d ''ticket_types'' = JArray ts \<Longrightarrow> \<exists>ts'. get_field d1 ''ticket_types'' = JArray ts'
       \<and> list_all2 (fixed as) ts ts' \<and> (\<forall>a \<in> set as. list_all (uncorrupted a) ts')"
    "\<forall>ts. get_field d ''ticket_types'' \<noteq> JArray ts \<Longrightarrow> d1 = d"
proof -
  have "(\<forall>n. n \<noteq> ''ticket_types'' \<longrightarrow> get_field d1 n = get_field d n) \<and> (\<not> c \<longrightarrow> d1 = d)
      \<and> (\<forall>ts. get_field d ''ticket_types'' = JArray ts \<longrightarrow> (\<exists>ts'. get_field d1 ''ticket_types'' = JArray ts'
           \<and> list_all2 (fixed as) ts ts' \<and> (\<forall>a \<in> set as. list_all (uncorrupted a) ts')))
      \<and> ((\<forall>ts. get_field d ''ticket_types'' \<noteq> JArray ts) \<longrightarrow> d1 = d)"
  proof (cases "is_nullish (get_field d ''ticket_types'') \<or> as = []")
    case True
    with assms(1) have "d1 = d" by (simp add: repair_ticket_types_def)
    with True show ?thesis by (auto simp: is_nullish_def fixed_def list_all2_refl)
  next
    case False
    with assms(1) obtain ts where ts: "get_field d ''ticket_types'' = JArray ts"
      by (auto simp: repair_ticket_types_def split: jsval.splits)
    with assms(1) False obtain ts' where t: "repair_types as ts = Inr (c, ts')"
      "d1 = (if c then set_field ''ticket_types'' (JArray ts') d else d)"
      by (auto simp: repair_ticket_types_def bind_result_Inr)
    with repair_types_Inr [OF t(1) assms(2)] ts show ?thesis by auto
  qed
  then show "\<forall>n. n \<noteq> ''ticket_types'' \<longrightarrow> get_field d1 n = get_field d n" "\<not> c \<Longrightarrow> d1 = d"
    "get_field d ''ticket_types'' = JArray ts \<Longrightarrow> \<exists>ts'. get_field d1 ''ticket_types'' = JArray ts'
       \<and> list_all2 (fixed as) ts ts' \<and> (\<forall>a \<in> set as. list_all (uncorrupted a) ts')"
    "\<forall>ts. get_field d ''ticket_types'' \<noteq> JArray ts \<Longrightarrow> d1 = d" by blast+
qed

lemma repair_aggregate_Inr:
  assumes "repair_aggregate a d = Inr (c, d2)"
  shows "d2 = d \<or> (d2 = corrected_aggregate a d \<and> asLong (get_field d ''event_inventory_version'') = Inr (evv (ae_eventInventoryVersion a)))"
    "\<not> c \<Longrightarrow> d2 = d"
    "asVersionOrNull (get_field d ''event_inventory_version'') = Some (evv (ae_eventInventoryVersion a)) \<Longrightarrow>
       asQuantityOrNull (get_field d2 ''event_total_quantity'') \<in> {None, Some (ae_eventTotalQuantity a)}
     \<and> asQuantityOrNull (get_field d2 ''event_remaining_quantity'') \<in> {None, Some (ae_eventRemainingQuantity a)}"
proof -
  let ?v = "get_field d ''event_inventory_version''"
  show e: "d2 = d \<or> (d2 = corrected_aggregate a d \<and> asLong ?v = Inr (evv (ae_eventInventoryVersion a)))" and "\<not> c \<Longrightarrow> d2 = d"
    using assms by (auto simp: repair_aggregate_def bind_result_Inr split: if_splits)
  assume v: "asVersionOrNull ?v = Some (evv (ae_eventInventoryVersion a))"
  from assms asLong_safe(1) [OF v] not_nullish(1) [OF v] obtain b where
    q: "quantities_differ (get_field d ''event_total_quantity'') (ae_eventTotalQuantity a)
          (get_field d ''event_remaining_quantity'') (ae_eventRemainingQuantity a) = Inr b"
    and d2: "d2 = (if b then corrected_aggregate a d else d)"
    by (auto simp: repair_aggregate_def bind_result_Inr split: if_splits)
  show "asQuantityOrNull (get_field d2 ''event_total_quantity'') \<in> {None, Some (ae_eventTotalQuantity a)}
     \<and> asQuantityOrNull (get_field d2 ''event_remaining_quantity'') \<in> {None, Some (ae_eventRemainingQuantity a)}"
  proof (cases b)
    case True
    with d2 asQuantity_jsint show ?thesis by (simp add: corrected_aggregate_def)
  next
    case False
    with q d2 quantities_differ_False show ?thesis by auto
  qed
qed

text \<open>The document after the script: every field that the comparison reads.\<close>

lemma repair_script_Inr:
  assumes "REPAIR_CONTRACT_CORRUPTION_SCRIPT a d = Inr (outcome, d')" "distinct (map at_ticketTypeId (ae_ticketTypes a))"
  shows "\<forall>n. n \<notin> {''ticket_types'', ''event_total_quantity'', ''event_remaining_quantity'', ''total_quantity'', ''remaining_quantity''}
      \<longrightarrow> get_field d' n = get_field d n"
    "get_field d ''ticket_types'' = JArray ts \<Longrightarrow> \<exists>ts'. get_field d' ''ticket_types'' = JArray ts'
       \<and> list_all2 (fixed (ae_ticketTypes a)) ts ts' \<and> (\<forall>x \<in> set (ae_ticketTypes a). list_all (uncorrupted x) ts')"
    "\<forall>ts. get_field d ''ticket_types'' \<noteq> JArray ts \<Longrightarrow> get_field d' ''ticket_types'' = get_field d ''ticket_types''"
    "(\<forall>n. n \<noteq> ''ticket_types'' \<longrightarrow> get_field d' n = get_field d n)
      \<or> (asLong (get_field d ''event_inventory_version'') = Inr (evv (ae_eventInventoryVersion a))
         \<and> get_field d' ''event_total_quantity'' = jsint (ae_eventTotalQuantity a)
         \<and> get_field d' ''event_remaining_quantity'' = jsint (ae_eventRemainingQuantity a))"
    "asVersionOrNull (get_field d ''event_inventory_version'') = Some (evv (ae_eventInventoryVersion a)) \<Longrightarrow>
       asQuantityOrNull (get_field d' ''event_total_quantity'') \<in> {None, Some (ae_eventTotalQuantity a)}
     \<and> asQuantityOrNull (get_field d' ''event_remaining_quantity'') \<in> {None, Some (ae_eventRemainingQuantity a)}"
proof -
  from assms(1) obtain c d1 c' d2 where r: "repair_ticket_types (ae_ticketTypes a) d = Inr (c, d1)" "repair_aggregate a d1 = Inr (c', d2)"
    and "(outcome, d') = (if c \<or> c' then (CtxIndex, d2) else (CtxNoop, d))"
    by (auto simp: REPAIR_CONTRACT_CORRUPTION_SCRIPT_def bind_result_Inr)
  moreover note t = repair_ticket_types_Inr [OF r(1) assms(2)] and g = repair_aggregate_Inr [OF r(2)]
  ultimately have d': "d' = d2" by (auto split: if_splits)
  have v: "get_field d1 ''event_inventory_version'' = get_field d ''event_inventory_version''" using t(1) by simp
  show "\<forall>n. n \<notin> {''ticket_types'', ''event_total_quantity'', ''event_remaining_quantity'', ''total_quantity'', ''remaining_quantity''}
      \<longrightarrow> get_field d' n = get_field d n"
    using t(1) g(1) by (auto simp: d' corrected_aggregate_def)
  have same: "get_field d' ''ticket_types'' = get_field d1 ''ticket_types''" using g(1) by (auto simp: d' corrected_aggregate_def)
  show "get_field d ''ticket_types'' = JArray ts \<Longrightarrow> \<exists>ts'. get_field d' ''ticket_types'' = JArray ts'
       \<and> list_all2 (fixed (ae_ticketTypes a)) ts ts' \<and> (\<forall>x \<in> set (ae_ticketTypes a). list_all (uncorrupted x) ts')"
    unfolding same by (rule t(3))
  show "\<forall>ts. get_field d ''ticket_types'' \<noteq> JArray ts \<Longrightarrow> get_field d' ''ticket_types'' = get_field d ''ticket_types''"
    unfolding same using t(4) by simp
  show "(\<forall>n. n \<noteq> ''ticket_types'' \<longrightarrow> get_field d' n = get_field d n)
      \<or> (asLong (get_field d ''event_inventory_version'') = Inr (evv (ae_eventInventoryVersion a))
         \<and> get_field d' ''event_total_quantity'' = jsint (ae_eventTotalQuantity a)
         \<and> get_field d' ''event_remaining_quantity'' = jsint (ae_eventRemainingQuantity a))"
    using g(1) t(1) v by (auto simp: d' corrected_aggregate_def)
  show "asVersionOrNull (get_field d ''event_inventory_version'') = Some (evv (ae_eventInventoryVersion a)) \<Longrightarrow>
       asQuantityOrNull (get_field d' ''event_total_quantity'') \<in> {None, Some (ae_eventTotalQuantity a)}
     \<and> asQuantityOrNull (get_field d' ''event_remaining_quantity'') \<in> {None, Some (ae_eventRemainingQuantity a)}"
    using g(3) v d' by simp
qed

text \<open>The map of the Types of the corrected list.\<close>

lemma list_all2_put_row:
  assumes "list_all2 (\<lambda>p q. fst q = fst p \<and> R (snd p) (snd q)) m m'" "R t t'"
  shows "list_all2 (\<lambda>p q. fst q = fst p \<and> R (snd p) (snd q)) (put_row fst (k, t) m) (put_row fst (k, t') m')"
proof -
  have "list_all2 (\<lambda>p q. fst q = fst p \<and> R (snd p) (snd q)) (map (\<lambda>x. if fst x = k then (k, t) else x) m)
      (map (\<lambda>x. if fst x = k then (k, t') else x) m')"
    using assms by (auto simp: list_all2_conv_all_nth)
  moreover have "map fst m' = map fst m" using assms(1) by (induction rule: list_all2_induct) auto
  then have "row_by fst k m = None \<longleftrightarrow> row_by fst k m' = None" by (metis row_by_None_iff set_map)
  ultimately show ?thesis using assms by (auto simp: put_row_def list_all2_appendI)
qed

lemma doc_types_rel:
  assumes "list_all2 R ts ts'" "\<And>t t'. R t t' \<Longrightarrow> property_of t' ''ticket_type_id'' = property_of t ''ticket_type_id''"
  shows "doc_types ts m = (ds, n) \<Longrightarrow> doc_types ts' m' = (ds', n') \<Longrightarrow> list_all2 (\<lambda>p q. fst q = fst p \<and> R (snd p) (snd q)) m m'
    \<Longrightarrow> ds' = ds \<and> list_all2 (\<lambda>p q. fst q = fst p \<and> R (snd p) (snd q)) n n'"
  using assms(1)
proof (induction arbitrary: m m' ds ds' rule: list_all2_induct)
  case (Cons t ts t' ts')
  note p = assms(2) [OF Cons.hyps(1)]
  show ?case
  proof (cases "property_of t ''ticket_type_id''")
    case (JString tid)
    with Cons.prems p Cons.IH list_all2_put_row [OF Cons.prems(3) Cons.hyps(1), of tid] show ?thesis by auto
  qed (use Cons p in \<open>auto split: prod.splits\<close>)
qed simp

lemma doc_types_member:
  "doc_types ts m = (ds, n) \<Longrightarrow> map_of n k = Some t \<Longrightarrow> (t \<in> set ts \<and> property_of t ''ticket_type_id'' = JString k) \<or> map_of m k = Some t"
proof (induction ts arbitrary: m ds)
  case (Cons u ts)
  show ?case
  proof (cases "property_of u ''ticket_type_id''")
    case (JString tid)
    with Cons.prems have "doc_types ts (put_row fst (tid, u) m) = (ds, n)" by simp
    from Cons.IH [OF this Cons.prems(2)] JString show ?thesis by (auto simp: map_of_put_row split: if_splits)
  qed (use Cons in \<open>auto split: prod.splits\<close>)
qed simp

lemma list_all2_map_of:
  "list_all2 (\<lambda>p q. fst q = fst p \<and> R (snd p) (snd q)) m m' \<Longrightarrow> rel_option R (map_of m k) (map_of m' k)"
  by (induction rule: list_all2_induct) auto

text \<open>The rows hold quantities of an INTEGER column that its CHECK admits.\<close>

definition int4_quantities :: "int \<Rightarrow> int \<Rightarrow> bool" where
  "int4_quantities x y \<longleftrightarrow> 0 \<le> x \<and> x \<le> POSTGRES_INT4_MAX \<and> 0 \<le> y \<and> y \<le> POSTGRES_INT4_MAX"

lemma asQuantity_int4: "int4_quantities x y \<Longrightarrow> asQuantityOrNull (jsint x) = Some x \<and> asQuantityOrNull (jsint y) = Some y"
  by (simp add: int4_quantities_def asQuantityOrNull_def isSafeInteger_def POSTGRES_INT4_MAX_def)

abbreviation settled :: "difference list \<Rightarrow> difference set" where
  "settled ds \<equiv> {p \<in> set ds. fst p \<noteq> ''contract_corruption''}"

lemma settled_append: "set xs \<subseteq> settled xs' \<Longrightarrow> set ys \<subseteq> settled ys' \<Longrightarrow> set (xs @ ys) \<subseteq> settled (xs' @ ys')"
  by auto

lemma compare_type_corrected:
  assumes "rel_option (fixed as) (map_of m (at_ticketTypeId x)) (map_of m' (at_ticketTypeId x))"
    and "\<And>t. map_of m (at_ticketTypeId x) = Some t \<Longrightarrow> property_of t ''ticket_type_id'' = JString (at_ticketTypeId x)"
    and "\<And>t. map_of m' (at_ticketTypeId x) = Some t \<Longrightarrow> uncorrupted x t"
    and "x \<in> set as" "distinct (map at_ticketTypeId as)" "int4_quantities (at_totalQuantity x) (at_remainingQuantity x)"
  shows "set (compare_type m' x) \<subseteq> settled (compare_type m x)"
proof (cases "map_of m (at_ticketTypeId x)")
  case None
  with assms(1) show ?thesis by (simp add: compare_type_def)
next
  case (Some t)
  with assms(1) obtain t' where t': "map_of m' (at_ticketTypeId x) = Some t'" "fixed as t t'" by (auto simp: option_rel_Some1)
  show ?thesis
  proof (cases "t' = t")
    case True
    have "uncorrupted x t" "property_of t ''ticket_type_id'' = JString (at_ticketTypeId x)"
      using assms(2) [OF Some] assms(3) [OF t'(1)] True by simp_all
    with Some t'(1) True show ?thesis
      by (auto simp: compare_type_def uncorrupted_def when_differs_def Let_def split: option.splits if_splits)
  next
    case False
    with t'(2) obtain b where b: "b \<in> set as" "corrects b t t'" by (auto simp: fixed_def)
    have "at_ticketTypeId b = at_ticketTypeId x" using corrects_keeps(3) [OF b(2)] assms(2) [OF Some] by simp
    with b(1) assms(4,5) have bx: "b = x" by (auto simp: distinct_map inj_on_def)
    note k = corrects_keeps [OF b(2) [unfolded bx]]
    have "asLong (property_of t ''inventory_version'') = Inr (ttv (at_inventoryVersion x))"
      using b(2) bx by (auto simp: corrects_def property_of_def)
    then have v: "asVersionOrNull (property_of t ''inventory_version'') \<in> {None, Some (ttv (at_inventoryVersion x))}"
      using asLong_safe(1) [of "property_of t ''inventory_version''"] by (cases "asVersionOrNull (property_of t ''inventory_version'')") auto
    from v asQuantity_int4 [OF assms(6)] Some t'(1) k show ?thesis
      by (auto simp: compare_type_def when_differs_def Let_def split: option.splits)
  qed
qed

lemma compare_versioned_corrected:
  assumes "list_all2 (fixed (ae_ticketTypes a)) ts ts'" "\<forall>x \<in> set (ae_ticketTypes a). list_all (uncorrupted x) ts'"
    and "distinct (map at_ticketTypeId (ae_ticketTypes a))"
    and "\<forall>x \<in> set (ae_ticketTypes a). int4_quantities (at_totalQuantity x) (at_remainingQuantity x)"
    and "metadataMatches date_ms (ae_metadata a) d' = metadataMatches date_ms (ae_metadata a) d"
    and "set (compare_aggregate a v x' y') \<subseteq> settled (compare_aggregate a v x y)"
  shows "set (compare_versioned date_ms a d' v x' y' ts') \<subseteq> settled (compare_versioned date_ms a d v x y ts)"
proof -
  obtain ds m ds' m' where m: "doc_types ts [] = (ds, m)" "doc_types ts' [] = (ds', m')" by fastforce
  have "ds' = ds \<and> list_all2 (\<lambda>p q. fst q = fst p \<and> fixed (ae_ticketTypes a) (snd p) (snd q)) m m'"
    by (rule doc_types_rel [OF assms(1) _ m]) (auto simp: fixed_keeps)
  then have ds: "ds' = ds" and rel: "list_all2 (\<lambda>p q. fst q = fst p \<and> fixed (ae_ticketTypes a) (snd p) (snd q)) m m'" by simp_all
  have types: "set (compare_type m' x) \<subseteq> settled (compare_type m x)" if "x \<in> set (ae_ticketTypes a)" for x
  proof (rule compare_type_corrected [OF list_all2_map_of [OF rel] _ _ that assms(3)])
    show "property_of t ''ticket_type_id'' = JString (at_ticketTypeId x)" if "map_of m (at_ticketTypeId x) = Some t" for t
      using doc_types_member [OF m(1) that] by simp
    show "uncorrupted x t" if "map_of m' (at_ticketTypeId x) = Some t" for t
      using doc_types_member [OF m(2) that] assms(2) \<open>x \<in> _\<close> by (auto simp: list_all_iff)
  qed (use assms(4) that in simp)
  have fsts: "map fst m' = map fst m" using rel by (induction rule: list_all2_induct) auto
  have unexpected: "map (\<lambda>p. (''unexpected_ticket_type'', Some (fst p))) (filter (\<lambda>p. fst p \<notin> S) m')
      = map (\<lambda>p. (''unexpected_ticket_type'', Some (fst p))) (filter (\<lambda>p. fst p \<notin> S) m)" for S
    using rel by (induction rule: list_all2_induct) auto
  have known: "\<forall>p \<in> set ds. fst p = ''malformed_projection''"
  proof -
    have "list_all (\<lambda>p. fst p = ''malformed_projection'') (fst (doc_types us n))" for us n
      by (induction us n rule: doc_types.induct) (auto split: jsval.splits prod.splits)
    from this [of ts "[]"] m(1) show ?thesis by (simp add: list_all_iff)
  qed
  have "set (concat (map (compare_type m') (ae_ticketTypes a))) \<subseteq> settled (concat (map (compare_type m) (ae_ticketTypes a)))"
    using types by fastforce
  moreover have "set ds \<subseteq> settled ds" using known by auto
  ultimately show ?thesis
    unfolding compare_versioned_def m ds Let_def prod.case unexpected assms(5)
    by (intro settled_append assms(6)) (auto simp: when_differs_def)
qed

lemma aggregate_diff_read:
  assumes "\<not> fst (corruption_diff a d)"
    and "asVersionOrNull (get_field d ''event_inventory_version'') = Some (evv (ae_eventInventoryVersion a))"
  obtains x y where "asQuantityOrNull (get_field d ''event_total_quantity'') = Some x"
    "asQuantityOrNull (get_field d ''event_remaining_quantity'') = Some y"
  using assms by (auto simp: corruption_diff_def aggregate_diff_def Let_def split: option.splits)

lemma corruption_compared:
  assumes "REPAIR_CONTRACT_CORRUPTION_SCRIPT a d = Inr (outcome, d')" "\<not> fst (corruption_diff a d)"
    and "distinct (map at_ticketTypeId (ae_ticketTypes a))"
    and "\<forall>x \<in> set (ae_ticketTypes a). int4_quantities (at_totalQuantity x) (at_remainingQuantity x)"
    and "int4_quantities (ae_eventTotalQuantity a) (ae_eventRemainingQuantity a)"
  shows "set (compareEvent date_ms a d') \<subseteq> settled (compareEvent date_ms a d)"
proof -
  note r = repair_script_Inr [OF assms(1,3)]
  let ?V = "get_field d ''event_inventory_version''"
  let ?T = "get_field d ''event_total_quantity''" and ?R = "get_field d ''event_remaining_quantity''"
  let ?T' = "get_field d' ''event_total_quantity''" and ?R' = "get_field d' ''event_remaining_quantity''"
  have v: "get_field d' ''event_inventory_version'' = ?V" using r(1) by simp
  have meta: "metadataMatches date_ms (ae_metadata a) d' = metadataMatches date_ms (ae_metadata a) d"
  proof (rule metadata_fields)
    fix n :: string
    assume "n \<in> {''title'', ''event_type'', ''starts_at'', ''location''}"
    then have "n \<notin> {''ticket_types'', ''event_total_quantity'', ''event_remaining_quantity'', ''total_quantity'', ''remaining_quantity''}"
      by (elim insertE emptyE) simp_all
    then show "get_field d' n = get_field d n" by (rule r(1) [THEN spec, THEN mp])
  qed
  have nullish: "asLong w = Inr n \<Longrightarrow> \<not> is_nullish w" for w n by (auto simp: asLong_def is_nullish_def)
  show ?thesis
  proof (cases "asVersionOrNull ?V = None \<or> (\<forall>ts. get_field d ''ticket_types'' \<noteq> JArray ts)
      \<or> asQuantityOrNull ?T = None \<or> asQuantityOrNull ?R = None")
    case False
    then obtain n x y ts where f: "asVersionOrNull ?V = Some n" "asQuantityOrNull ?T = Some x" "asQuantityOrNull ?R = Some y"
      "get_field d ''ticket_types'' = JArray ts" by auto
    obtain ts' where ts': "get_field d' ''ticket_types'' = JArray ts'" "list_all2 (fixed (ae_ticketTypes a)) ts ts'"
      "\<forall>x \<in> set (ae_ticketTypes a). list_all (uncorrupted x) ts'" using r(2) [OF f(4)] by blast
    obtain x' y' where f': "asQuantityOrNull ?T' = Some x'" "asQuantityOrNull ?R' = Some y'"
      "n \<noteq> evv (ae_eventInventoryVersion a) \<Longrightarrow> x' = x \<and> y' = y"
      using r(4) f(2,3) asQuantity_int4 [OF assms(5)] asLong_safe(1) [OF f(1)] by auto
    have agg: "set (compare_aggregate a n x' y') \<subseteq> settled (compare_aggregate a n x y)"
    proof (cases "n = evv (ae_eventInventoryVersion a)")
      case True
      with r(5) f(1) f'(1,2) have "x' = ae_eventTotalQuantity a" "y' = ae_eventRemainingQuantity a" by auto
      with True show ?thesis by (simp add: compare_aggregate_def when_differs_def)
    qed (use f'(3) in \<open>auto simp: compare_aggregate_def when_differs_def\<close>)
    have "compareEvent date_ms a d = compare_versioned date_ms a d n x y ts" "compareEvent date_ms a d' = compare_versioned date_ms a d' n x' y' ts'"
      using f f'(1,2) ts'(1) not_nullish(1) [OF f(1)] by (simp_all add: compareEvent_def Let_def v)
    then show ?thesis using compare_versioned_corrected [OF ts'(2,3) assms(3,4) meta agg] by simp
  next
    case True
    have arr: "(\<exists>ts. get_field d' ''ticket_types'' = JArray ts) \<longleftrightarrow> (\<exists>ts. get_field d ''ticket_types'' = JArray ts)"
      using r(2,3) by metis
    have quantities: "asQuantityOrNull ?T' = None \<or> asQuantityOrNull ?R' = None"
      if "asVersionOrNull ?V = Some n" "asQuantityOrNull ?T = None \<or> asQuantityOrNull ?R = None" for n
    proof -
      have "n \<noteq> evv (ae_eventInventoryVersion a)" using that aggregate_diff_read [OF assms(2)] by fastforce
      with asLong_safe(1) [OF that(1)] r(4) have "\<forall>n. n \<noteq> ''ticket_types'' \<longrightarrow> get_field d' n = get_field d n" by simp
      with that(2) show ?thesis by simp
    qed
    have bad: "asVersionOrNull ?V = None \<or> (\<forall>ts. get_field d' ''ticket_types'' \<noteq> JArray ts)
        \<or> asQuantityOrNull ?T' = None \<or> asQuantityOrNull ?R' = None"
      using True arr quantities by (cases "asVersionOrNull ?V") auto
    show ?thesis
    proof (cases "is_nullish ?V")
      case null: True
      then have "asLong ?V \<noteq> Inr k" for k using nullish by blast
      with r(4) have same: "get_field d' n = get_field d n" if "n \<noteq> ''ticket_types''" for n using that by blast
      have none: "asVersionOrNull ?V = None"
        using null not_nullish(1) by (cases "asVersionOrNull ?V") auto
      have "is_nullish (get_field d' ''ticket_types'') \<or> get_field d' ''ticket_types'' = JArray []
          \<longleftrightarrow> is_nullish (get_field d ''ticket_types'') \<or> get_field d ''ticket_types'' = JArray []"
      proof (cases "\<exists>ts. get_field d ''ticket_types'' = JArray ts")
        case True
        then obtain ts where ts: "get_field d ''ticket_types'' = JArray ts" by blast
        with r(2) obtain ts' where "get_field d' ''ticket_types'' = JArray ts'" "list_all2 (fixed (ae_ticketTypes a)) ts ts'" by blast
        with ts show ?thesis by (auto simp: is_nullish_def)
      qed (use r(3) in simp)
      then have "compareEvent date_ms a d' = compareEvent date_ms a d"
        by (simp add: compareEvent_def Let_def same none)
      moreover have "fst p \<noteq> ''contract_corruption''" if "p \<in> set (compareEvent date_ms a d)" for p
        using none that by (auto simp: compareEvent_def Let_def split: if_splits)
      ultimately show ?thesis by auto
    next
      case False
      then have "compareEvent date_ms a d = [(''malformed_projection'', None)]" "compareEvent date_ms a d' = [(''malformed_projection'', None)]"
        using True bad v by (auto simp: compareEvent_def Let_def split: option.splits jsval.splits)
      then show ?thesis by simp
    qed
  qed
qed

text \<open>What the read of a well-formed inventory returns.\<close>

definition int4_columns :: "pg \<Rightarrow> bool" where
  "int4_columns s \<longleftrightarrow> list_all (\<lambda>r. ti_total r \<le> POSTGRES_INT4_MAX) (ticket_inventory s)
     \<and> list_all (\<lambda>r. tti_total r \<le> POSTGRES_INT4_MAX) (ticket_type_inventory s)"

lemma distinct_join:
  "distinct (map f rows) \<Longrightarrow> (\<And>r. length (g r) \<le> 1) \<Longrightarrow> distinct (concat (map (\<lambda>r. map (\<lambda>_. f r) (g r)) rows))"
proof (induction rows)
  case (Cons r rows)
  have "distinct (map (\<lambda>_. f r) (g r))" using Cons.prems(2) [of r] by (cases "g r") auto
  with Cons show ?case by auto
qed simp

lemma distinct_type_rows:
  assumes "pg_wf s"
  shows "distinct (map (tti_type \<circ> fst) (type_rows s e))"
proof -
  let ?rows = "sort_key tti_type (filter (\<lambda>r. tti_event r = e) (ticket_type_inventory s))"
  have "distinct (map tti_type (filter (\<lambda>r. tti_event r = e) (ticket_type_inventory s)))"
    using assms by (simp add: pg_wf_def distinct_map_filter)
  then have "distinct (map tti_type ?rows)" by (simp add: distinct_map)
  moreover have "length (filter (\<lambda>t. type_id t = tti_type r) (ticket_types s)) \<le> 1" for r
  proof -
    have d: "distinct (map type_id (filter (\<lambda>t. type_id t = tti_type r) (ticket_types s)))"
      using assms by (simp add: pg_wf_def distinct_map_filter)
    moreover have "set (map type_id (filter (\<lambda>t. type_id t = tti_type r) (ticket_types s))) \<subseteq> {tti_type r}" by auto
    ultimately have "card (set (map type_id (filter (\<lambda>t. type_id t = tti_type r) (ticket_types s)))) \<le> 1"
      by (metis card_mono finite.emptyI finite.insertI card.empty card_insert_disjoint empty_iff One_nat_def)
    then show ?thesis using d by (simp only: distinct_card length_map)
  qed
  ultimately have "distinct (concat (map (\<lambda>r. map (\<lambda>_. tti_type r) (filter (\<lambda>t. type_id t = tti_type r) (ticket_types s))) ?rows))"
    by (rule distinct_join)
  then show ?thesis by (simp add: type_rows_def map_concat comp_def)
qed

lemma read_inventory_facts:
  assumes "pg_wf s" "int4_columns s" "readAuthoritativeEventInventory date_iso columns s e = Inr (Some a)"
  shows "distinct (map at_ticketTypeId (ae_ticketTypes a))"
    "\<forall>x \<in> set (ae_ticketTypes a). int4_quantities (at_totalQuantity x) (at_remainingQuantity x)"
    "int4_quantities (ae_eventTotalQuantity a) (ae_eventRemainingQuantity a)"
proof -
  from assms(3) obtain r rest where r1: "authoritative_event date_iso columns s r = Inr a"
    and "filter (\<lambda>x. ti_event x = pg_uuid e) (event_rows s) = r # rest"
    by (auto simp: readAuthoritativeEventInventory_def map_sum_Inr split: list.splits)
  then have "r \<in> set (filter (\<lambda>x. ti_event x = pg_uuid e) (event_rows s))" by simp
  with r1 have r: "authoritative_event date_iso columns s r = Inr a" "r \<in> set (ticket_inventory s)" by (simp_all add: event_rows_def)
  note f = authoritative_event_Inr [OF r(1)]
  note m = map_result_Inr [OF f(6)]
  have at: "at_ticketTypeId x = tti_type (fst p) \<and> at_totalQuantity x = tti_total (fst p) \<and> at_remainingQuantity x = tti_remaining (fst p)"
    if "authoritative_type p = Inr x" for p x using that by (auto simp: authoritative_type_def map_sum_Inr)
  have "map at_ticketTypeId (ae_ticketTypes a) = map (tti_type \<circ> fst) (type_rows s (ti_event r))"
    by (rule nth_equalityI) (use m at in simp_all)
  then show "distinct (map at_ticketTypeId (ae_ticketTypes a))" using distinct_type_rows [OF assms(1)] by simp
  have int4: "int4_quantities x y" if "check_quantities x y v" "x \<le> POSTGRES_INT4_MAX" for x y v
    using that by (simp add: check_quantities_def int4_quantities_def)
  have quantities: "int4_quantities (tti_total x) (tti_remaining x)" if "x \<in> set (ticket_type_inventory s)" for x
    using assms(1,2) that by (intro int4 [of _ _ "tti_version x"]) (simp_all add: pg_wf_def int4_columns_def list_all_iff)
  show "\<forall>x \<in> set (ae_ticketTypes a). int4_quantities (at_totalQuantity x) (at_remainingQuantity x)"
  proof
    fix x
    assume "x \<in> set (ae_ticketTypes a)"
    with m obtain p where p: "p \<in> set (type_rows s (ti_event r))" "authoritative_type p = Inr x" by (metis in_set_conv_nth)
    then have "fst p \<in> set (ticket_type_inventory s)" by (auto simp: type_rows_def)
    with quantities at [OF p(2)] show "int4_quantities (at_totalQuantity x) (at_remainingQuantity x)" by simp
  qed
  show "int4_quantities (ae_eventTotalQuantity a) (ae_eventRemainingQuantity a)"
    unfolding f(2,3) using assms(1,2) r(2) by (intro int4 [of _ _ 0]) (simp_all add: pg_wf_def int4_columns_def list_all_iff)
qed

lemma read_snapshot_Inr:
  "read_snapshot date_iso columns env e = Inr (Some a) \<Longrightarrow>
     readAuthoritativeEventInventory date_iso columns (repair_db env RP_READ) e = Inr (Some a)"
  by (auto simp: read_snapshot_def repair_ask_def bind_result_Inr Let_def split: option.splits if_splits)

text \<open>A repair of values never rolls back: whatever others wrote meanwhile, the version of the Event and every
  element stay as they are found, except that an element that shows the version of its row may get the values
  of that row.\<close>

theorem corruption_repair_keeps_versions:
  assumes "repairContractCorruption date_iso columns env target docs = (r, docs')" "pg_wf (repair_db env RP_READ)" "int4_columns (repair_db env RP_READ)"
  shows "docs' \<in> {docs, repair_others env docs} \<or> (\<exists>a d d'.
      readAuthoritativeEventInventory date_iso columns (repair_db env RP_READ) (tg_eventId target) = Inr (Some a)
    \<and> repair_others env docs (index_of target) (tg_eventId target) = Some d
    \<and> docs' = put_doc (index_of target) (tg_eventId target) (Some d') (repair_others env docs)
    \<and> get_field d' ''event_inventory_version'' = get_field d ''event_inventory_version''
    \<and> (\<forall>ts. get_field d ''ticket_types'' = JArray ts \<longrightarrow>
         (\<exists>ts'. get_field d' ''ticket_types'' = JArray ts' \<and> list_all2 (fixed (ae_ticketTypes a)) ts ts')))"
  using assms(1)
proof (cases rule: repairContractCorruption_shape [where t = undefined])
  case (finished a d0 report)
  note a = read_snapshot_Inr [OF finished(1)]
  from finished(7) show ?thesis
  proof (cases rule: finish_repair_cases)
    case (ran w)
    then obtain w' where "update_doc (REPAIR_CONTRACT_CORRUPTION_SCRIPT a) (index_of target) (tg_eventId target) (repair_others env docs) = (w', docs')"
      by (auto simp: repair_writes apfst_def map_prod_def split: prod.splits)
    then show ?thesis
    proof (cases rule: update_doc_cases)
      case (written d d')
      note f = repair_script_Inr [OF written(2) read_inventory_facts(1) [OF assms(2,3) a]]
      have "get_field d' ''event_inventory_version'' = get_field d ''event_inventory_version''" using f(1) by simp
      with written a f(2) show ?thesis by blast
    qed simp
  qed auto
qed auto

text \<open>C29: repairing corrupted values converges: when the repair of an Event reports that it wrote, and no
  other writer changed the document in between, then every difference that the next reconciliation reports for
  this Event was there before and none of them is a contract corruption.\<close>

theorem corruption_repair_converges:
  assumes "repairContractCorruption date_iso columns env target docs = (Inr report, docs')" "rep_applied report"
    and "repair_others env docs (index_of target) (tg_eventId target) = docs (index_of target) (tg_eventId target)"
    and "pg_wf (repair_db env RP_READ)" "int4_columns (repair_db env RP_READ)"
  shows "\<exists>a d d'. readAuthoritativeEventInventory date_iso columns (repair_db env RP_READ) (tg_eventId target) = Inr (Some a)
    \<and> docs (index_of target) (tg_eventId target) = Some d
    \<and> docs' = put_doc (index_of target) (tg_eventId target) (Some d') (repair_others env docs)
    \<and> set (compareEvent date_ms a d') \<subseteq> {p \<in> set (compareEvent date_ms a d). fst p \<noteq> ''contract_corruption''}"
  using assms(1)
proof (cases rule: repairContractCorruption_shape [where t = undefined])
  case (finished a d report1)
  note a = read_snapshot_Inr [OF finished(1)] and f = finished(7) [unfolded repair_writes]
  obtain d1 d' where "rep_refusals report1 = []" "repair_others env docs (index_of target) (tg_eventId target) = Some d1"
    "REPAIR_CONTRACT_CORRUPTION_SCRIPT a d1 = Inr (CtxIndex, d')"
    "docs' = put_doc (index_of target) (tg_eventId target) (Some d') (repair_others env docs)"
    using applied_update [OF f finished(6) assms(2)] by blast
  moreover from this assms(3) finished(2,5) have "d1 = d" "\<not> fst (corruption_diff a d)" by simp_all
  ultimately show ?thesis
    using corruption_compared [of a d CtxIndex d'] read_inventory_facts [OF assms(4,5) a] a finished(2) by blast
qed (use assms(2) in simp_all)

text \<open>A reported corruption can be repaired: unless the document names a Ticket Type twice, the repair finds
  what the reconciliation reports, so it refuses at most because something else is malformed.\<close>

lemma entry_if_Nil [simp]: "entry_if b t f v x y = [] \<longleftrightarrow> \<not> b"
  by (simp add: entry_if_def)

lemma type_corruption_visible:
  assumes "doc_types ts [] = (ds, m)" "(''contract_corruption'', w) \<in> set (compare_type m x)"
    and "distinct (map (\<lambda>t. property_of t ''ticket_type_id'') ts)"
  shows "snd (type_diff ts x) \<noteq> []"
proof -
  let ?p = "\<lambda>t. property_of t ''ticket_type_id''"
  from assms(2) obtain dt where dt: "map_of m (at_ticketTypeId x) = Some dt"
    by (auto simp: compare_type_def Let_def split: option.splits)
  with doc_types_member [OF assms(1) dt] have t: "dt \<in> set ts" "?p dt = JString (at_ticketTypeId x)" by simp_all
  then obtain t' where t': "find (\<lambda>t. ?p t = JString (at_ticketTypeId x)) ts = Some t'"
    by (cases "find (\<lambda>t. ?p t = JString (at_ticketTypeId x)) ts") (auto simp: find_None_iff)
  then have "t' \<in> set ts" "?p t' = JString (at_ticketTypeId x)" by (auto simp: find_Some_iff)
  moreover have "inj_on ?p (set ts)" using assms(3) by (simp add: distinct_map)
  ultimately have "t' = dt" using t by (simp add: inj_on_def)
  from assms(2) dt obtain p q where q: "asQuantityOrNull (property_of dt ''total_quantity'') = Some p"
    "asQuantityOrNull (property_of dt ''remaining_quantity'') = Some q"
    "asVersionOrNull (property_of dt ''inventory_version'') = Some (ttv (at_inventoryVersion x))"
    "p \<noteq> at_totalQuantity x \<or> q \<noteq> at_remainingQuantity x \<or> property_of dt ''name'' \<noteq> JString (at_name x)"
    by (auto simp: compare_type_def when_differs_def Let_def split: option.splits if_splits)
  from q(4) show ?thesis by (simp add: type_diff_def t' \<open>t' = dt\<close> q(1-3) Let_def)
qed

theorem reported_corruption_is_visible:
  assumes "(''contract_corruption'', w) \<in> set (compareEvent date_ms a d)"
    and "\<forall>ts. get_field d ''ticket_types'' = JArray ts \<longrightarrow> distinct (map (\<lambda>t. property_of t ''ticket_type_id'') ts)"
  shows "snd (corruption_diff a d) \<noteq> []"
proof -
  from assms(1) obtain n x y ts where f: "asVersionOrNull (get_field d ''event_inventory_version'') = Some n"
    "asQuantityOrNull (get_field d ''event_total_quantity'') = Some x" "asQuantityOrNull (get_field d ''event_remaining_quantity'') = Some y"
    "get_field d ''ticket_types'' = JArray ts" and c: "(''contract_corruption'', w) \<in> set (compare_versioned date_ms a d n x y ts)"
    by (auto simp: compareEvent_def Let_def split: if_splits option.splits jsval.splits)
  obtain ds m where m: "doc_types ts [] = (ds, m)" by fastforce
  have known: "list_all (\<lambda>p. fst p = ''malformed_projection'') (fst (doc_types us k))" for us k
    by (induction us k rule: doc_types.induct) (auto split: jsval.splits prod.splits)
  from this [of ts "[]"] m c consider "(''contract_corruption'', w) \<in> set (compare_aggregate a n x y)"
    | z where "z \<in> set (ae_ticketTypes a)" "(''contract_corruption'', w) \<in> set (compare_type m z)"
    by (auto simp: compare_versioned_def when_differs_def list_all_iff split: if_splits)
  then show ?thesis
  proof cases
    case 1
    then have "snd (aggregate_diff a d) \<noteq> []"
      using f by (auto simp: compare_aggregate_def aggregate_diff_def when_differs_def split: if_splits)
    then show ?thesis by (simp add: corruption_diff_def Let_def)
  next
    case 2
    with type_corruption_visible [OF m] assms(2) f(4) have "snd (type_diff ts z) \<noteq> []" by blast
    with 2(1) f(4) show ?thesis by (auto simp: corruption_diff_def Let_def)
  qed
qed

section \<open>Examples\<close>

text \<open>The sample document with a wrong remaining quantity, with a foreign Ticket Type, and with its own one twice.\<close>

definition sample_element :: "string \<Rightarrow> int \<Rightarrow> jsval" where
  "sample_element t remaining = JObject [(''ticket_type_id'', JString t), (''name'', JString ''GA''),
     (''total_quantity'', jsint 9), (''remaining_quantity'', jsint remaining), (''inventory_version'', jsint 4)]"

definition sample_source :: "jsval list \<Rightarrow> source" where
  "sample_source ts = set_field ''ticket_types'' (JArray ts) sample_document"

definition sample_documents :: "jsval list \<Rightarrow> documents" where
  "sample_documents ts = (\<lambda>i k. if i = EVENTS_INDEX \<and> k = uuid_a then Some (sample_source ts) else None)"

definition sample_repair_env :: "pg \<Rightarrow> repair_env" where
  "sample_repair_env s = \<lparr>repair_fail = (\<lambda>_. None), repair_db = (\<lambda>_. s), repair_others = (\<lambda>docs. docs), repair_reply = UpAnswered\<rparr>"

definition sample_target :: RepairTarget where
  "sample_target = \<lparr>tg_index = None, tg_eventId = uuid_a, tg_ticketTypeId = None, tg_apply = Some True\<rparr>"

definition sample_argv :: "string list" where
  "sample_argv = [''--mode=delete-document'', ''--event-id'', uuid_a]"

definition no_tables :: pg where
  "no_tables = sample_inventory\<lparr>events := [], ticket_types := [], ticket_inventory := [], ticket_type_inventory := []\<rparr>"

theorem repair_needs_permission_witness:
  "snd (repair_main Some sample_columns None (sample_repair_env no_tables) sample_argv (sample_documents [])) = sample_documents []
   \<and> snd (repair_main Some sample_columns None (sample_repair_env no_tables) (sample_argv @ [''--apply'']) (sample_documents []))
       EVENTS_INDEX uuid_a = None"
proof -
  let ?run = "repair_main Some sample_columns None (sample_repair_env no_tables) sample_argv (sample_documents [])"
  have "''--apply'' \<notin> set sample_argv" by code_simp
  moreover have "snd (repair_main Some sample_columns None (sample_repair_env no_tables) (sample_argv @ [''--apply'']) (sample_documents []))
       EVENTS_INDEX uuid_a = None" by code_simp
  ultimately show ?thesis
    using repair_needs_permission [of Some sample_columns None "sample_repair_env no_tables" sample_argv "sample_documents []" "fst ?run" "snd ?run"]
    by simp
qed

lemma sample_inventory_facts: "pg_wf sample_inventory" "int4_columns sample_inventory" "uuid_columns sample_inventory"
proof -
  show "pg_wf sample_inventory" by (simp add: pg_wf_def sample_inventory_def check_quantities_def mode_text_def)
  show "int4_columns sample_inventory" "uuid_columns sample_inventory" by code_simp+
qed

definition sample_read :: "AuthoritativeEventInventory option result" where
  "sample_read = readAuthoritativeEventInventory Some sample_columns sample_inventory uuid_a"

theorem orphan_type_removal_converges_witness:
  "\<exists>d d'. snd (deleteOrphanTicketType (sample_repair_env sample_inventory) sample_target uuid_c
        (sample_documents [sample_element uuid_b 5, sample_element uuid_c 5])) EVENTS_INDEX uuid_a = Some d'
     \<and> d = sample_source [sample_element uuid_b 5, sample_element uuid_c 5]
     \<and> (case sample_read of Inr (Some a) \<Rightarrow>
          compareEvent (\<lambda>s. Some (int (length s))) a d = [(''unexpected_ticket_type'', Some uuid_c)]
        \<and> compareEvent (\<lambda>s. Some (int (length s))) a d' = [] | _ \<Rightarrow> False)"
proof -
  let ?d = "sample_source [sample_element uuid_b 5, sample_element uuid_c 5]"
  let ?run = "deleteOrphanTicketType (sample_repair_env sample_inventory) sample_target uuid_c
        (sample_documents [sample_element uuid_b 5, sample_element uuid_c 5])"
  have "case fst ?run of Inr rep \<Rightarrow> rep_applied rep | _ \<Rightarrow> False" by code_simp
  then obtain rep where run: "?run = (Inr rep, snd ?run)" "rep_applied rep" by (cases ?run) (auto split: sum.splits)
  have "case sample_read of Inr (Some a) \<Rightarrow> compareEvent (\<lambda>s. Some (int (length s))) a ?d = [(''unexpected_ticket_type'', Some uuid_c)] | _ \<Rightarrow> False"
    by code_simp
  then obtain a where a: "sample_read = Inr (Some a)"
    "compareEvent (\<lambda>s. Some (int (length s))) a ?d = [(''unexpected_ticket_type'', Some uuid_c)]"
    by (auto split: sum.splits option.splits)
  have t: "index_of sample_target = EVENTS_INDEX" "tg_eventId sample_target = uuid_a" by (simp_all add: sample_target_def index_of_def)
  from orphan_type_removal_converges [OF run _ sample_inventory_facts(3), of Some sample_columns a "\<lambda>s. Some (int (length s))"] a
  obtain d' where "snd ?run = put_doc EVENTS_INDEX uuid_a (Some d') (sample_documents [sample_element uuid_b 5, sample_element uuid_c 5])"
    "compareEvent (\<lambda>s. Some (int (length s))) a d' = []"
    by (auto simp: t sample_repair_env_def sample_read_def sample_documents_def)
  with a(2) show ?thesis unfolding a(1) by (simp add: put_doc_def)
qed

theorem corruption_repair_converges_witness:
  "\<exists>d'. snd (repairContractCorruption Some sample_columns (sample_repair_env sample_inventory) sample_target
        (sample_documents [sample_element uuid_b 7])) EVENTS_INDEX uuid_a = Some d'
     \<and> (case sample_read of Inr (Some a) \<Rightarrow>
          compareEvent (\<lambda>s. Some (int (length s))) a (sample_source [sample_element uuid_b 7]) = [(''contract_corruption'', Some uuid_b)]
        \<and> compareEvent (\<lambda>s. Some (int (length s))) a d' = [] | _ \<Rightarrow> False)"
proof -
  let ?d = "sample_source [sample_element uuid_b 7]"
  let ?run = "repairContractCorruption Some sample_columns (sample_repair_env sample_inventory) sample_target (sample_documents [sample_element uuid_b 7])"
  have "case fst ?run of Inr rep \<Rightarrow> rep_applied rep | _ \<Rightarrow> False" by code_simp
  then obtain rep where run: "?run = (Inr rep, snd ?run)" "rep_applied rep" by (cases ?run) (auto split: sum.splits)
  have "case sample_read of Inr (Some a) \<Rightarrow> compareEvent (\<lambda>s. Some (int (length s))) a ?d = [(''contract_corruption'', Some uuid_b)] | _ \<Rightarrow> False"
    by code_simp
  then obtain a where a: "sample_read = Inr (Some a)"
    "compareEvent (\<lambda>s. Some (int (length s))) a ?d = [(''contract_corruption'', Some uuid_b)]"
    by (auto split: sum.splits option.splits)
  have t: "index_of sample_target = EVENTS_INDEX" "tg_eventId sample_target = uuid_a" by (simp_all add: sample_target_def index_of_def)
  have env: "repair_db (sample_repair_env sample_inventory) q = sample_inventory" "repair_others (sample_repair_env sample_inventory) x = x" for q x
    by (simp_all add: sample_repair_env_def)
  have "sample_documents [sample_element uuid_b 7] EVENTS_INDEX uuid_a = Some ?d" by (simp add: sample_documents_def)
  with corruption_repair_converges [OF run, of "\<lambda>s. Some (int (length s))"] sample_inventory_facts(1,2) a
  obtain d' where d': "snd ?run = put_doc EVENTS_INDEX uuid_a (Some d') (sample_documents [sample_element uuid_b 7])"
    "set (compareEvent (\<lambda>s. Some (int (length s))) a d') \<subseteq> {p \<in> set (compareEvent (\<lambda>s. Some (int (length s))) a ?d). fst p \<noteq> ''contract_corruption''}"
    unfolding t env sample_read_def by fastforce
  then have "compareEvent (\<lambda>s. Some (int (length s))) a d' = []" unfolding a(2) by (cases "compareEvent (\<lambda>s. Some (int (length s))) a d'") auto
  with d'(1) a(2) show ?thesis unfolding a(1) by (simp add: put_doc_def)
qed

text \<open>A Ticket Type twice in the document: the reconciliation looks at the last one, the repair and the
  guard of normal updates at the first one, so a wrong last one is reported and never repaired.\<close>

lemma duplicate_hides_corruption:
  "case sample_read of Inr (Some a) \<Rightarrow>
      compareEvent (\<lambda>s. Some (int (length s))) a (sample_source [sample_element uuid_b 5, sample_element uuid_b 7])
        = [(''contract_corruption'', Some uuid_b)]
    \<and> corruption_diff a (sample_source [sample_element uuid_b 5, sample_element uuid_b 7]) = (False, [])
    | _ \<Rightarrow> False"
  by code_simp

end
