(* ===== verification/CounterSeed.thy ===== *)
theory CounterSeed
  imports Paging InventoryCache
begin

text \<open>
  The operators' tool that seeds and repairs the Valkey counters from PostgreSQL,
  src/cutover/reconcile-inventory-counters.ts: \<open>runInventoryCounterReconcile\<close> with its guard, its paged
  enumeration of the inventory rows inside one snapshot, the seed inside the transaction and the
  compare-and-set repair after it. It is fail-closed: a lost command ends the run with an exception.
\<close>

section \<open>Options and state\<close>

datatype CounterNamespace = TicketTypeNamespace | LegacyNamespace
datatype CounterCliMode = Seed | Reconcile

definition namespace_text :: "CounterNamespace \<Rightarrow> string" where
  "namespace_text ns = (case ns of TicketTypeNamespace \<Rightarrow> ''ticket-type'' | LegacyNamespace \<Rightarrow> ''legacy'')"

definition parseNamespaceOption :: "string option \<Rightarrow> CounterNamespace result" where
  "parseNamespaceOption raw =
     (if raw = Some ''ticket-type'' then Inr TicketTypeNamespace
      else if raw = Some ''legacy'' then Inr LegacyNamespace else Inl (PlainError ''usage''))"

definition parseModeOption :: "string option \<Rightarrow> CounterCliMode result" where
  "parseModeOption raw =
     (if raw = Some ''seed'' then Inr Seed else if raw = Some ''reconcile'' then Inr Reconcile else Inl (PlainError ''usage''))"

definition assertSeedNamespaceInactive :: "CounterNamespace \<Rightarrow> InventoryWriterMode \<Rightarrow> unit result" where
  "assertSeedNamespaceInactive ns mode =
     (let required = (if ns = TicketTypeNamespace then Legacy else TicketTypeMode)
      in if mode \<noteq> required then Inl (SeedNamespaceActiveError (namespace_text ns) (mode_text mode)) else Inr ())"

record CounterReconcileCounts =
  processed :: int
  initialized :: int
  synced :: int
  skipped :: int

record CounterReconcileOutcome =
  co_namespace :: CounterNamespace
  co_mode :: CounterCliMode
  co_writerMode :: InventoryWriterMode
  co_counts :: CounterReconcileCounts

text \<open>
  The state of a run: the counts, the key space, how many Valkey commands it has sent, and the rows
  left for the repair.
\<close>

record counter_run = CounterReconcileCounts +
  key_space :: valkey
  commands :: nat
  reconcileTargets :: "(string \<times> string option) list"

datatype rc_stmt = RC_CONNECT | RC_BEGIN | RC_TIMEOUTS | RC_BARRIER | RC_MODE | RC_COMMIT

text \<open>
  The environment: the fate of the statements, of the page queries and of the Valkey commands, what
  other clients do to the key space before each command, and the database each fresh read sees.
\<close>

record counter_env =
  rc_net :: "rc_stmt \<Rightarrow> link"
  rc_page :: "nat \<Rightarrow> bool"
  rc_command :: "nat \<Rightarrow> link"
  rc_between :: "nat \<Rightarrow> valkey \<Rightarrow> valkey"
  rc_fresh :: "nat \<Rightarrow> pg result"

definition valkey_command ::
    "counter_env \<Rightarrow> (valkey \<Rightarrow> 'r \<times> valkey) \<Rightarrow> counter_run \<Rightarrow> 'r result \<times> counter_run" where
  "valkey_command env f st =
     (let (r, v) = via (rc_command env (commands st)) f (rc_between env (commands st) (key_space st))
      in (case r of None \<Rightarrow> Inl (PlainError ''valkey command failed'') | Some x \<Rightarrow> Inr x,
          st\<lparr>key_space := v, commands := Suc (commands st)\<rparr>))"

section \<open>The rows\<close>

text \<open>Rows as the enumeration selects them: Event, Ticket Type (NULL for the legacy table), remaining.\<close>

type_synonym counter_row = "string \<times> string option \<times> int"

definition counter_rows :: "CounterNamespace \<Rightarrow> pg \<Rightarrow> counter_row list" where
  "counter_rows ns s =
     (case ns of
        TicketTypeNamespace \<Rightarrow> map (\<lambda>r. (tti_event r, Some (tti_type r), tti_remaining r)) (ticket_type_inventory s)
      | LegacyNamespace \<Rightarrow> map (\<lambda>r. (ti_event r, None, ti_remaining r)) (ticket_inventory s))"

definition row_cursor :: "counter_row \<Rightarrow> string \<times> string" where
  "row_cursor r = (fst r, case fst (snd r) of None \<Rightarrow> [] | Some t \<Rightarrow> t)"

definition counter_key :: "CounterNamespace \<Rightarrow> string \<Rightarrow> string option \<Rightarrow> string" where
  "counter_key ns e t = (case ns of TicketTypeNamespace \<Rightarrow> ticketTypeCounterKey e (the t) | LegacyNamespace \<Rightarrow> eventCounterKey e)"

definition revision_key :: "CounterNamespace \<Rightarrow> string \<Rightarrow> string option \<Rightarrow> string" where
  "revision_key ns e t =
     (case ns of TicketTypeNamespace \<Rightarrow> ticketTypeCounterRevisionKey e (the t) | LegacyNamespace \<Rightarrow> eventCounterVersionKey e)"

text \<open>The body of the enumeration: a seed initialises the pair of keys, a repair notes the row.\<close>

definition process_row ::
    "counter_env \<Rightarrow> CounterNamespace \<Rightarrow> CounterCliMode \<Rightarrow> (counter_row, counter_run) handler" where
  "process_row env ns mode r st =
     (case r of (e, t, remaining) \<Rightarrow>
        (let st1 = st\<lparr>processed := processed st + 1\<rparr>
         in if ns = TicketTypeNamespace \<and> t = None
            then (Inl (PlainError ''ticket_type_inventory row without ticket_type_id''), st1)
            else if mode = Seed
            then (case valkey_command env
                    (case ns of
                       TicketTypeNamespace \<Rightarrow> TICKET_TYPE_INIT_SCRIPT (counter_key ns e t) (revision_key ns e t) remaining
                     | LegacyNamespace \<Rightarrow> INIT_SCRIPT (counter_key ns e t) (revision_key ns e t) remaining) st1 of
                (Inl ex, st2) \<Rightarrow> (Inl ex, st2)
              | (Inr outcome, st2) \<Rightarrow>
                  if outcome \<noteq> Initialized then (Inl (PlainError ''unexpected init script outcome''), st2)
                  else (Inr (), st2\<lparr>initialized := initialized st2 + 1\<rparr>))
            else (Inr (), st1\<lparr>reconcileTargets := reconcileTargets st1 @ [(e, if ns = TicketTypeNamespace then t else None)]\<rparr>)))"

definition fresh_remaining :: "CounterNamespace \<Rightarrow> string \<Rightarrow> string option \<Rightarrow> pg \<Rightarrow> int option" where
  "fresh_remaining ns e t s =
     (case ns of
        TicketTypeNamespace \<Rightarrow>
          map_option tti_remaining (find (\<lambda>r. tti_event r = e \<and> Some (tti_type r) = t) (ticket_type_inventory s))
      | LegacyNamespace \<Rightarrow> map_option ti_remaining (find (\<lambda>r. ti_event r = e) (ticket_inventory s)))"

text \<open>One repair: note the revision, then read the row, then compare and set.\<close>

definition reconcile_row :: "counter_env \<Rightarrow> CounterNamespace \<Rightarrow> (string \<times> string option, counter_run) handler" where
  "reconcile_row env ns r st =
     (case r of (e, t) \<Rightarrow>
        (case valkey_command env (\<lambda>v. (case vk_get (revision_key ns e t) v of None \<Rightarrow> 0 | Some x \<Rightarrow> x, v)) st of
           (Inl ex, st1) \<Rightarrow> (Inl ex, st1)
         | (Inr expected, st1) \<Rightarrow>
             (case rc_fresh env (commands st1) of
                Inl ex \<Rightarrow> (Inl ex, st1)
              | Inr s \<Rightarrow>
                  (case fresh_remaining ns e t s of
                     None \<Rightarrow> (Inr (), st1\<lparr>skipped := skipped st1 + 1\<rparr>)
                   | Some remaining \<Rightarrow>
                       (case valkey_command env
                          (case ns of
                             TicketTypeNamespace \<Rightarrow>
                               TICKET_TYPE_SYNC_SCRIPT (counter_key ns e t) (revision_key ns e t) remaining expected
                           | LegacyNamespace \<Rightarrow>
                               CLI_LEGACY_GUARDED_SYNC_SCRIPT (counter_key ns e t) (revision_key ns e t) remaining expected) st1 of
                          (Inl ex, st2) \<Rightarrow> (Inl ex, st2)
                        | (Inr outcome, st2) \<Rightarrow>
                            if outcome = Synced then (Inr (), st2\<lparr>synced := synced st2 + 1\<rparr>)
                            else if outcome = Skipped then (Inr (), st2\<lparr>skipped := skipped st2 + 1\<rparr>)
                            else (Inl (PlainError ''unexpected sync script outcome''), st2))))))"

section \<open>The run\<close>

definition rc_ask :: "counter_env \<Rightarrow> rc_stmt \<Rightarrow> 'a result \<Rightarrow> 'a result" where
  "rc_ask env q r = (if rc_net env q = Delivered then r else Inl connection_lost)"

text \<open>The statements before the enumeration: the barrier, the mode, the guard of a seed.\<close>

definition counter_guard :: "counter_env \<Rightarrow> CounterNamespace \<Rightarrow> CounterCliMode \<Rightarrow> pg \<Rightarrow> InventoryWriterMode result" where
  "counter_guard env ns mode s =
     bind_result (rc_ask env RC_CONNECT (Inr ())) (\<lambda>_.
     bind_result (rc_ask env RC_BEGIN (Inr ())) (\<lambda>_.
     bind_result (rc_ask env RC_TIMEOUTS (Inr ())) (\<lambda>_.
     bind_result (rc_ask env RC_BARRIER (Inr ())) (\<lambda>_.
     bind_result (rc_ask env RC_MODE (readInventoryWriterMode s)) (\<lambda>writerMode.
     bind_result (if mode = Seed then assertSeedNamespaceInactive ns writerMode else Inr ()) (\<lambda>_.
     Inr writerMode))))))"

definition start_run :: "valkey \<Rightarrow> counter_run" where
  "start_run v = \<lparr>processed = 0, initialized = 0, synced = 0, skipped = 0, key_space = v, commands = 0, reconcileTargets = []\<rparr>"

definition runInventoryCounterReconcile ::
    "counter_env \<Rightarrow> CounterNamespace \<Rightarrow> CounterCliMode \<Rightarrow> int option \<Rightarrow> pg \<Rightarrow> valkey \<Rightarrow> CounterReconcileOutcome result \<times> counter_run" where
  "runInventoryCounterReconcile env ns mode pageSize s v =
     (case counter_guard env ns mode s of
        Inl e \<Rightarrow> (Inl e, start_run v)
      | Inr writerMode \<Rightarrow>
          (case paged_loop row_cursor (boundedPageSize pageSize) (rc_page env) (counter_rows ns s)
                  (process_row env ns mode) 0 None (start_run v) of
             (Inl e, st1) \<Rightarrow> (Inl e, st1)
           | (Inr _, st1) \<Rightarrow>
               if rc_net env RC_COMMIT \<noteq> Delivered then (Inl connection_lost, st1)
               else (case each_row (reconcile_row env ns) (reconcileTargets st1) st1 of
                   (Inl e, st2) \<Rightarrow> (Inl e, st2)
                 | (Inr _, st2) \<Rightarrow>
                     (Inr \<lparr>co_namespace = ns, co_mode = mode, co_writerMode = writerMode,
                           co_counts = CounterReconcileCounts.truncate st2\<rparr>, st2))))"

section \<open>One counter\<close>

text \<open>The references of the two namespaces, and the cell of one: its counter and its revision.\<close>

definition ref_ok :: "CounterNamespace \<Rightarrow> string \<Rightarrow> string option \<Rightarrow> bool" where
  "ref_ok ns e t \<longleftrightarrow> is_uuid e \<and>
     (case ns of TicketTypeNamespace \<Rightarrow> (case t of None \<Rightarrow> False | Some x \<Rightarrow> is_uuid x) | LegacyNamespace \<Rightarrow> t = None)"

definition cell :: "CounterNamespace \<Rightarrow> string \<Rightarrow> string option \<Rightarrow> valkey \<Rightarrow> int option \<times> int" where
  "cell ns e t v = (vk_get (counter_key ns e t) v, case vk_get (revision_key ns e t) v of None \<Rightarrow> 0 | Some x \<Rightarrow> x)"

lemma ref_keys:
  assumes "ref_ok ns e t" "ref_ok ns e' t'"
  shows "counter_key ns e t = counter_key ns e' t' \<longleftrightarrow> (e, t) = (e', t')"
    "revision_key ns e t = revision_key ns e' t' \<longleftrightarrow> (e, t) = (e', t')"
    "counter_key ns e t \<noteq> revision_key ns e' t'" "revision_key ns e t \<noteq> counter_key ns e' t'"
  using assms
  by (auto simp: ref_ok_def counter_key_def revision_key_def type_key_inject key_families
      split: CounterNamespace.splits option.splits)

lemma init_cell:
  assumes "ref_ok ns e t" "ref_ok ns e' t'"
  shows "cell ns e' t' (vk_incr (revision_key ns e t) (vk_set (counter_key ns e t) q v))
    = (if (e', t') = (e, t) then (Some q, snd (cell ns e t v) + 1) else cell ns e' t' v)"
  using ref_keys [OF assms] ref_keys [OF assms(2,1)] ref_keys(3,4) [OF assms(1,1)] by (auto simp: cell_def)

definition guarded_sync :: "string \<Rightarrow> string \<Rightarrow> int \<Rightarrow> int \<Rightarrow> valkey \<Rightarrow> script_reply \<times> valkey" where
  "guarded_sync k1 k2 q x v =
     (if \<not> vk_exists k1 v then (Skipped, v)
      else (let r = (case vk_get k2 v of None \<Rightarrow> 0 | Some y \<Rightarrow> y)
            in if r \<noteq> x then (Skipped, v) else (Synced, vk_incr k2 (vk_set k1 q v))))"

text \<open>The two sync scripts and the two init scripts differ in their keys only.\<close>

lemma script_twins:
  "TICKET_TYPE_SYNC_SCRIPT = guarded_sync" "CLI_LEGACY_GUARDED_SYNC_SCRIPT = guarded_sync"
  "TICKET_TYPE_INIT_SCRIPT = INIT_SCRIPT"
  by (intro ext, simp add: TICKET_TYPE_SYNC_SCRIPT_def CLI_LEGACY_GUARDED_SYNC_SCRIPT_def guarded_sync_def
      TICKET_TYPE_INIT_SCRIPT_def INIT_SCRIPT_def Let_def)+

lemma sync_cell:
  assumes "ref_ok ns e t" "ref_ok ns e' t'" "guarded_sync (counter_key ns e t) (revision_key ns e t) q x v = (r, v')"
  shows "r = Synced \<longleftrightarrow> fst (cell ns e t v) \<noteq> None \<and> snd (cell ns e t v) = x"
    "r = Synced \<or> r = Skipped"
    "cell ns e' t' v' = (if (e', t') = (e, t) \<and> r = Synced then (Some q, snd (cell ns e t v) + 1) else cell ns e' t' v)"
  using assms(3) init_cell [OF assms(1,2), of q v]
  by (auto simp: guarded_sync_def cell_def vk_exists_def Let_def split: if_splits)

section \<open>Seeding\<close>

definition leaves_alone :: "CounterNamespace \<Rightarrow> counter_env \<Rightarrow> bool" where
  "leaves_alone ns env \<longleftrightarrow> (\<forall>i e t v. ref_ok ns e t \<longrightarrow> cell ns e t (rc_between env i v) = cell ns e t v)"

definition row_ref :: "counter_row \<Rightarrow> string \<times> string option" where
  "row_ref r = (fst r, fst (snd r))"

definition rows_ok :: "CounterNamespace \<Rightarrow> counter_row list \<Rightarrow> bool" where
  "rows_ok ns rows \<longleftrightarrow> (\<forall>(e, t, q) \<in> set rows. ref_ok ns e t) \<and> distinct (map row_ref rows)"

lemma valkey_command_Inr:
  assumes "valkey_command env f st = (Inr x, st')"
  shows "x = fst (f (rc_between env (commands st) (key_space st)))"
    "st' = st\<lparr>key_space := snd (f (rc_between env (commands st) (key_space st))), commands := Suc (commands st)\<rparr>"
  using assms by (cases "rc_command env (commands st)"; simp add: valkey_command_def)+

lemma seed_row_Inr:
  assumes "process_row env ns Seed (e, t, q) st = (Inr u, st')"
  shows "key_space st' = vk_incr (revision_key ns e t) (vk_set (counter_key ns e t) q (rc_between env (commands st) (key_space st)))"
    "processed st' = processed st + 1" "initialized st' = initialized st + 1"
    "synced st' = synced st" "skipped st' = skipped st" "reconcileTargets st' = reconcileTargets st"
  using assms
  by (auto simp: process_row_def script_twins INIT_SCRIPT_def Let_def
      split: if_splits prod.splits sum.splits CounterNamespace.splits dest!: valkey_command_Inr)

lemma seed_rows:
  assumes "each_row (process_row env ns Seed) rows st = (Inr u, st')" "rows_ok ns rows" "leaves_alone ns env"
  shows "ref_ok ns e t \<Longrightarrow> cell ns e t (key_space st')
      = (case find (\<lambda>r. row_ref r = (e, t)) rows of None \<Rightarrow> cell ns e t (key_space st)
         | Some (_, _, q) \<Rightarrow> (Some q, snd (cell ns e t (key_space st)) + 1))"
    and "CounterReconcileCounts.truncate st' = \<lparr>processed = processed st + int (length rows),
      initialized = initialized st + int (length rows), synced = synced st, skipped = skipped st\<rparr>
      \<and> reconcileTargets st' = reconcileTargets st"
proof -
  have "(\<forall>e t. ref_ok ns e t \<longrightarrow> cell ns e t (key_space st')
      = (case find (\<lambda>r. row_ref r = (e, t)) rows of None \<Rightarrow> cell ns e t (key_space st)
         | Some (_, _, q) \<Rightarrow> (Some q, snd (cell ns e t (key_space st)) + 1)))
    \<and> CounterReconcileCounts.truncate st' = \<lparr>processed = processed st + int (length rows),
      initialized = initialized st + int (length rows), synced = synced st, skipped = skipped st\<rparr>
    \<and> reconcileTargets st' = reconcileTargets st"
    using assms(1,2)
  proof (induction rows arbitrary: st)
    case Nil
    then show ?case by (simp add: CounterReconcileCounts.truncate_def)
  next
    case (Cons r rows)
    obtain e0 t0 q0 where r: "r = (e0, t0, q0)" by (cases r)
    from Cons.prems(1) obtain u1 st1 where s1: "process_row env ns Seed (e0, t0, q0) st = (Inr u1, st1)"
      and rest: "each_row (process_row env ns Seed) rows st1 = (Inr u, st')"
      by (auto simp: r split: prod.splits sum.splits)
    have ok: "ref_ok ns e0 t0" "rows_ok ns rows" and new: "(e0, t0) \<notin> row_ref ` set rows"
      using Cons.prems(2) by (auto simp: rows_ok_def r row_ref_def)
    note step = seed_row_Inr [OF s1] and ih = Cons.IH [OF rest ok(2)]
    have c1: "cell ns e t (key_space st1) = (if (e, t) = (e0, t0) then (Some q0, snd (cell ns e t (key_space st)) + 1)
        else cell ns e t (key_space st))" if "ref_ok ns e t" for e t
      using init_cell [OF ok(1) that] that assms(3) by (auto simp: step(1) leaves_alone_def)
    have none: "find (\<lambda>r. row_ref r = (e0, t0)) rows = None"
      using new by (auto simp: find_None_iff image_iff)
    show ?case
    proof (intro conjI allI impI)
      fix e t assume "ref_ok ns e t"
      with ih c1 [of e t] none show "cell ns e t (key_space st')
        = (case find (\<lambda>r. row_ref r = (e, t)) (r # rows) of None \<Rightarrow> cell ns e t (key_space st)
           | Some (_, _, q) \<Rightarrow> (Some q, snd (cell ns e t (key_space st)) + 1))"
        by (auto simp: r row_ref_def split: option.splits)
    qed (use ih step in \<open>simp_all add: CounterReconcileCounts.truncate_def\<close>)
  qed
  then show "ref_ok ns e t \<Longrightarrow> cell ns e t (key_space st')
      = (case find (\<lambda>r. row_ref r = (e, t)) rows of None \<Rightarrow> cell ns e t (key_space st)
         | Some (_, _, q) \<Rightarrow> (Some q, snd (cell ns e t (key_space st)) + 1))"
    and "CounterReconcileCounts.truncate st' = \<lparr>processed = processed st + int (length rows),
      initialized = initialized st + int (length rows), synced = synced st, skipped = skipped st\<rparr>
      \<and> reconcileTargets st' = reconcileTargets st" by blast+
qed

lemma find_ref: "distinct (map row_ref rows) \<Longrightarrow> (e, t, q) \<in> set rows \<Longrightarrow> find (\<lambda>r. row_ref r = (e, t)) rows = Some (e, t, q)"
proof (induction rows)
  case (Cons r rows)
  then show ?case by (cases r) (force simp: row_ref_def image_iff)
qed simp

lemma rows_cursor:
  assumes "rows_ok ns rows"
  shows "distinct (map row_cursor rows)"
proof -
  have "inj_on row_cursor (set rows)"
  proof (rule inj_onI)
    fix r r' assume m: "r \<in> set rows" "r' \<in> set rows" "row_cursor r = row_cursor r'"
    obtain e t q e' t' q' where rr: "r = (e, t, q)" "r' = (e', t', q')" by (metis prod_cases3)
    from m(1,2) assms have ok: "ref_ok ns e t" "ref_ok ns e' t'" unfolding rows_ok_def rr by blast+
    then have "row_ref r = row_ref r'"
      using m(3) by (auto simp: rr ref_ok_def row_cursor_def row_ref_def split: CounterNamespace.splits option.splits)
    moreover have "inj_on row_ref (set rows)" using assms by (simp add: rows_ok_def distinct_map)
    ultimately show "r = r'" using m(1,2) by (simp add: inj_on_def)
  qed
  moreover have "distinct rows" using assms by (simp add: rows_ok_def distinct_map)
  ultimately show ?thesis by (simp add: distinct_map)
qed

lemma rows_ok_sort: "rows_ok ns rows \<Longrightarrow> rows_ok ns (sort_key f rows)"
  by (auto simp: rows_ok_def distinct_map)

lemma counter_guard_Inr:
  "counter_guard env ns mode s = Inr m \<longleftrightarrow> (\<forall>q \<in> {RC_CONNECT, RC_BEGIN, RC_TIMEOUTS, RC_BARRIER, RC_MODE}. rc_net env q = Delivered)
     \<and> readInventoryWriterMode s = Inr m \<and> (mode = Seed \<longrightarrow> m = (if ns = TicketTypeNamespace then Legacy else TicketTypeMode))"
  by (auto simp: counter_guard_def bind_result_Inr rc_ask_def assertSeedNamespaceInactive_def Let_def split: if_splits)

text \<open>A seed that reports success has filled the namespace and nothing else happened to it: the
  namespace was the inactive one, and every inventory row has its counter at the row's remaining
  quantity under a revision that has moved on, whatever the page size and whatever other clients do
  to other keys meanwhile; the report counts every row.\<close>

theorem seed_fills_namespace:
  assumes "runInventoryCounterReconcile env ns Seed n s v = (Inr out, st)"
    and "rows_ok ns (counter_rows ns s)" "leaves_alone ns env"
  shows "co_writerMode out = (if ns = TicketTypeNamespace then Legacy else TicketTypeMode)
    \<and> readInventoryWriterMode s = Inr (co_writerMode out)
    \<and> (\<forall>(e, t, q) \<in> set (counter_rows ns s). cell ns e t (key_space st) = (Some q, snd (cell ns e t v) + 1))
    \<and> co_counts out = \<lparr>processed = int (length (counter_rows ns s)), initialized = int (length (counter_rows ns s)),
        synced = 0, skipped = 0\<rparr>"
proof -
  let ?rows = "sort_key row_cursor (counter_rows ns s)"
  obtain m st1 where g: "counter_guard env ns Seed s = Inr m"
    and l: "paged_loop row_cursor (boundedPageSize n) (rc_page env) (counter_rows ns s) (process_row env ns Seed) 0 None (start_run v)
      = (Inr (), st1)"
    and rest: "each_row (reconcile_row env ns) (reconcileTargets st1) st1 = (Inr (), st)"
    and out: "out = \<lparr>co_namespace = ns, co_mode = Seed, co_writerMode = m, co_counts = CounterReconcileCounts.truncate st\<rparr>"
    using assms(1) by (auto simp: runInventoryCounterReconcile_def split: sum.splits prod.splits if_splits)
  from paged_loop_each_row [OF rows_cursor [OF assms(2)] l]
  have "each_row (process_row env ns Seed) ?rows (start_run v) = (Inr (), st1)" .
  note sr = seed_rows [OF this rows_ok_sort [OF assms(2)] assms(3)]
  have tr: "CounterReconcileCounts.truncate st1 = \<lparr>processed = int (length (counter_rows ns s)),
      initialized = int (length (counter_rows ns s)), synced = 0, skipped = 0\<rparr>" "reconcileTargets st1 = []"
    using sr(2) by (simp_all add: start_run_def)
  with rest have st: "st = st1" by simp
  have "cell ns e t (key_space st) = (Some q, snd (cell ns e t v) + 1)" if "(e, t, q) \<in> set (counter_rows ns s)" for e t q
  proof -
    have "ref_ok ns e t" using that assms(2) by (auto simp: rows_ok_def)
    from sr(1) [OF this] show ?thesis
      using find_ref [of ?rows e t q] that rows_ok_sort [OF assms(2), of row_cursor]
      by (simp add: st rows_ok_def start_run_def)
  qed
  then show ?thesis using g tr(1) unfolding counter_guard_Inr by (auto simp: out st)
qed

definition empty_keys :: valkey where
  "empty_keys = \<lparr>data = Map.empty, deadline = Map.empty, clock = 0\<rparr>"

definition sample_stock :: "InventoryWriterMode \<Rightarrow> pg" where
  "sample_stock m = \<lparr>events = [], ticket_types = [], ticket_inventory = [],
     ticket_type_inventory =
       [\<lparr>tti_type = uuid_c, tti_event = uuid_a, tti_total = 9, tti_remaining = 3, tti_version = 6\<rparr>,
        \<lparr>tti_type = uuid_b, tti_event = uuid_a, tti_total = 9, tti_remaining = 5, tti_version = 4\<rparr>],
     purchases = [], writer_control = Some (mode_text m), mirror_origin = None\<rparr>"

definition calm_env :: "InventoryWriterMode \<Rightarrow> counter_env" where
  "calm_env m = \<lparr>rc_net = (\<lambda>_. Delivered), rc_page = (\<lambda>_. False), rc_command = (\<lambda>_. Delivered),
     rc_between = (\<lambda>_ v. v), rc_fresh = (\<lambda>_. Inr (sample_stock m))\<rparr>"

definition sample_seed :: "CounterReconcileOutcome result \<times> counter_run" where
  "sample_seed = runInventoryCounterReconcile (calm_env Legacy) TicketTypeNamespace Seed (Some 1) (sample_stock Legacy) empty_keys"

lemma sample_stock_rows [simp]: "rows_ok TicketTypeNamespace (counter_rows TicketTypeNamespace (sample_stock m))"
  by (simp add: rows_ok_def counter_rows_def sample_stock_def row_ref_def ref_ok_def)

theorem seed_fills_namespace_witness:
  "cell TicketTypeNamespace uuid_a (Some uuid_c) (key_space (snd sample_seed)) = (Some 3, 1)"
proof -
  have "map_sum (\<lambda>_. ()) (\<lambda>_. ()) (fst sample_seed) = Inr ()" by code_simp
  then obtain out where "fst sample_seed = Inr out" by (cases "fst sample_seed") auto
  then have run: "runInventoryCounterReconcile (calm_env Legacy) TicketTypeNamespace Seed (Some 1) (sample_stock Legacy) empty_keys
    = (Inr out, snd sample_seed)" by (simp add: sample_seed_def prod_eq_iff)
  have "leaves_alone TicketTypeNamespace (calm_env Legacy)" by (simp add: leaves_alone_def calm_env_def)
  from seed_fills_namespace [OF run sample_stock_rows this] show ?thesis
    by (simp add: counter_rows_def sample_stock_def cell_def empty_keys_def vk_get_def)
qed

text \<open>A seed never touches the namespace that purchases use: when the writer mode makes it the active
  one, the run is refused before it sends a command to Valkey.\<close>

theorem seed_refuses_active_namespace:
  assumes "readInventoryWriterMode s = Inr (if ns = TicketTypeNamespace then TicketTypeMode else Legacy)"
  shows "\<exists>e. runInventoryCounterReconcile env ns Seed n s v = (Inl e, start_run v)
    \<and> ((\<forall>q. rc_net env q = Delivered) \<longrightarrow>
         e = SeedNamespaceActiveError (namespace_text ns) (mode_text (if ns = TicketTypeNamespace then TicketTypeMode else Legacy)))"
  using assms by (cases ns) (auto simp: runInventoryCounterReconcile_def counter_guard_def rc_ask_def bind_result_def
      assertSeedNamespaceInactive_def Let_def split: sum.split if_splits)

theorem seed_refuses_active_namespace_witness:
  "\<exists>e. runInventoryCounterReconcile (calm_env TicketTypeMode) TicketTypeNamespace Seed None (sample_stock TicketTypeMode) empty_keys
    = (Inl e, start_run empty_keys)"
proof -
  have "readInventoryWriterMode (sample_stock TicketTypeMode)
    = Inr (if TicketTypeNamespace = TicketTypeNamespace then TicketTypeMode else Legacy)"
    by (simp add: readInventoryWriterMode_def sample_stock_def mode_text_def)
  from seed_refuses_active_namespace [OF this, of "calm_env TicketTypeMode" None empty_keys] show ?thesis by blast
qed

section \<open>Repair\<close>

definition quiet :: "counter_env \<Rightarrow> pg \<Rightarrow> bool" where
  "quiet env s \<longleftrightarrow> (\<forall>q. rc_net env q = Delivered) \<and> (\<forall>i. \<not> rc_page env i) \<and> (\<forall>i. rc_command env i = Delivered)
     \<and> (\<forall>i v. rc_between env i v = v) \<and> (\<forall>i. rc_fresh env i = Inr s)"

lemma collect_rows:
  assumes "rows_ok ns rows"
  shows "each_row (process_row env ns Reconcile) rows st
    = (Inr (), st\<lparr>processed := processed st + int (length rows), reconcileTargets := reconcileTargets st @ map row_ref rows\<rparr>)"
  using assms
proof (induction rows arbitrary: st)
  case (Cons r rows)
  obtain e t q where r: "r = (e, t, q)" by (cases r)
  from Cons.prems have ok: "ref_ok ns e t" "rows_ok ns rows" by (auto simp: rows_ok_def r)
  then have "process_row env ns Reconcile r st
      = (Inr (), st\<lparr>processed := processed st + 1, reconcileTargets := reconcileTargets st @ [(e, t)]\<rparr>)"
    by (auto simp: process_row_def r ref_ok_def Let_def split: CounterNamespace.splits option.splits)
  with Cons.IH [OF ok(2)] show ?case by (simp add: r row_ref_def)
qed simp

lemma quiet_command:
  "quiet env s \<Longrightarrow> valkey_command env f st = (Inr (fst (f (key_space st))), st\<lparr>key_space := snd (f (key_space st)), commands := Suc (commands st)\<rparr>)"
  by (simp add: valkey_command_def quiet_def)

lemma quiet_repair_row:
  assumes "quiet env s" "ref_ok ns e t" "fresh_remaining ns e t s = Some q"
  obtains st' where "reconcile_row env ns (e, t) st = (Inr (), st')"
    "\<And>e' t'. ref_ok ns e' t' \<Longrightarrow> cell ns e' t' (key_space st')
      = (if (e', t') = (e, t) \<and> fst (cell ns e t (key_space st)) \<noteq> None then (Some q, snd (cell ns e t (key_space st)) + 1)
         else cell ns e' t' (key_space st))"
    "processed st' = processed st" "initialized st' = initialized st"
    "synced st' + skipped st' = synced st + skipped st + 1"
proof -
  let ?x = "snd (cell ns e t (key_space st))"
  obtain r v where g: "guarded_sync (counter_key ns e t) (revision_key ns e t) q ?x (key_space st) = (r, v)" by fastforce
  note c = sync_cell [OF assms(2) _ g]
  have fr: "rc_fresh env i = Inr s" for i using assms(1) by (simp add: quiet_def)
  have "reconcile_row env ns (e, t) st = (Inr (), (st\<lparr>key_space := v, commands := Suc (Suc (commands st))\<rparr>)
      \<lparr>synced := synced st + (if r = Synced then 1 else 0), skipped := skipped st + (if r = Synced then 0 else 1)\<rparr>)"
    using g c(1,2) [OF assms(2)] assms(3)
    by (auto simp: reconcile_row_def quiet_command [OF assms(1)] fr script_twins cell_def split: CounterNamespace.splits)
  from this show thesis
  proof (rule that)
    fix e' t' assume "ref_ok ns e' t'"
    from c(3) [OF this] c(1) [OF assms(2)]
    show "cell ns e' t' (key_space ((st\<lparr>key_space := v, commands := Suc (Suc (commands st))\<rparr>)
      \<lparr>synced := synced st + (if r = Synced then 1 else 0), skipped := skipped st + (if r = Synced then 0 else 1)\<rparr>))
      = (if (e', t') = (e, t) \<and> fst (cell ns e t (key_space st)) \<noteq> None then (Some q, ?x + 1)
         else cell ns e' t' (key_space st))" by auto
  qed simp_all
qed

definition repaired :: "int option \<times> int \<Rightarrow> int \<Rightarrow> int option \<times> int" where
  "repaired c q = (if fst c = None then c else (Some q, snd c + 1))"

lemma repair_rows:
  assumes "quiet env s" "rows_ok ns rows" "\<And>e t q. (e, t, q) \<in> set rows \<Longrightarrow> fresh_remaining ns e t s = Some q"
  shows "\<exists>st'. each_row (reconcile_row env ns) (map row_ref rows) st = (Inr (), st')
    \<and> (\<forall>e t. ref_ok ns e t \<longrightarrow> cell ns e t (key_space st') = (case find (\<lambda>r. row_ref r = (e, t)) rows of
          None \<Rightarrow> cell ns e t (key_space st) | Some (_, _, q) \<Rightarrow> repaired (cell ns e t (key_space st)) q))
    \<and> processed st' = processed st \<and> initialized st' = initialized st
    \<and> synced st' + skipped st' = synced st + skipped st + int (length rows)"
  using assms(2,3)
proof (induction rows arbitrary: st)
  case (Cons r rows)
  obtain e0 t0 q0 where r: "r = (e0, t0, q0)" by (cases r)
  from Cons.prems(1) have ok: "ref_ok ns e0 t0" "rows_ok ns rows" and new: "(e0, t0) \<notin> row_ref ` set rows"
    by (auto simp: rows_ok_def r row_ref_def)
  have "fresh_remaining ns e0 t0 s = Some q0" using Cons.prems(2) by (simp add: r)
  from quiet_repair_row [OF assms(1) ok(1) this, of st] obtain st1 where
    s1: "reconcile_row env ns (e0, t0) st = (Inr (), st1)"
    and c1: "\<And>e' t'. ref_ok ns e' t' \<Longrightarrow> cell ns e' t' (key_space st1)
      = (if (e', t') = (e0, t0) \<and> fst (cell ns e0 t0 (key_space st)) \<noteq> None then (Some q0, snd (cell ns e0 t0 (key_space st)) + 1)
         else cell ns e' t' (key_space st))"
    and n1: "processed st1 = processed st" "initialized st1 = initialized st" "synced st1 + skipped st1 = synced st + skipped st + 1" by blast
  from Cons.IH [OF ok(2), of st1] Cons.prems(2) obtain st' where
    s': "each_row (reconcile_row env ns) (map row_ref rows) st1 = (Inr (), st')"
    and c': "\<And>e t. ref_ok ns e t \<Longrightarrow> cell ns e t (key_space st') = (case find (\<lambda>r. row_ref r = (e, t)) rows of
          None \<Rightarrow> cell ns e t (key_space st1) | Some (_, _, q) \<Rightarrow> repaired (cell ns e t (key_space st1)) q)"
    and n': "processed st' = processed st1" "initialized st' = initialized st1"
      "synced st' + skipped st' = synced st1 + skipped st1 + int (length rows)"
    by (auto simp: r)
  have none: "find (\<lambda>r. row_ref r = (e0, t0)) rows = None" using new by (auto simp: find_None_iff image_iff)
  have "cell ns e t (key_space st') = (case find (\<lambda>r. row_ref r = (e, t)) (r # rows) of
      None \<Rightarrow> cell ns e t (key_space st) | Some (_, _, q) \<Rightarrow> repaired (cell ns e t (key_space st)) q)" if "ref_ok ns e t" for e t
    using c' [OF that] c1 [OF that] none by (auto simp: r row_ref_def repaired_def split: option.splits)
  moreover have "each_row (reconcile_row env ns) (map row_ref (r # rows)) st = (Inr (), st')"
    using s1 s' by (simp add: r row_ref_def)
  ultimately show ?case using n1 n' by auto
qed simp

lemma fresh_of_row:
  assumes "rows_ok ns (counter_rows ns s)" "(e, t, q) \<in> set (counter_rows ns s)"
  shows "fresh_remaining ns e t s = Some q"
proof -
  have inj: "inj_on row_ref (set (counter_rows ns s))" using assms(1) by (simp add: rows_ok_def distinct_map)
  obtain q' where q': "fresh_remaining ns e t s = Some q'" "(e, t, q') \<in> set (counter_rows ns s)"
  proof (cases ns)
    case TicketTypeNamespace
    with assms(2) have "find (\<lambda>r. tti_event r = e \<and> Some (tti_type r) = t) (ticket_type_inventory s) \<noteq> None"
      by (auto simp: counter_rows_def find_None_iff)
    then obtain r where "find (\<lambda>r. tti_event r = e \<and> Some (tti_type r) = t) (ticket_type_inventory s) = Some r" by blast
    moreover from find_filter [OF this] have "r \<in> set (filter (\<lambda>r. tti_event r = e \<and> Some (tti_type r) = t) (ticket_type_inventory s))"
      by (auto simp del: set_filter)
    ultimately show thesis using that TicketTypeNamespace by (force simp: counter_rows_def fresh_remaining_def)
  next
    case LegacyNamespace
    with assms(2) have "find (\<lambda>r. ti_event r = e) (ticket_inventory s) \<noteq> None" and t: "t = None"
      by (auto simp: counter_rows_def find_None_iff)
    then obtain r where "find (\<lambda>r. ti_event r = e) (ticket_inventory s) = Some r" by blast
    moreover from find_filter [OF this] have "r \<in> set (filter (\<lambda>r. ti_event r = e) (ticket_inventory s))"
      by (auto simp del: set_filter)
    ultimately show thesis using that LegacyNamespace t by (force simp: counter_rows_def fresh_remaining_def)
  qed
  have "(e, t, q') = (e, t, q)"
    by (rule inj_onD [OF inj _ q'(2) assms(2)]) (simp add: row_ref_def)
  with q'(1) show ?thesis by simp
qed

text \<open>C20: an undisturbed repair ends and puts every counter right: each counter that exists afterwards
  holds the remaining quantity of its row under a new revision, a counter that does not exist stays
  absent (a repair never activates one), and every row is counted once.\<close>

theorem quiet_repair_fixes_counters:
  assumes "quiet env s" "rows_ok ns (counter_rows ns s)" "readInventoryWriterMode s = Inr m"
  shows "\<exists>out st. runInventoryCounterReconcile env ns Reconcile n s v = (Inr out, st)
    \<and> (\<forall>(e, t, q) \<in> set (counter_rows ns s). cell ns e t (key_space st) = repaired (cell ns e t v) q)
    \<and> processed (co_counts out) = int (length (counter_rows ns s)) \<and> initialized (co_counts out) = 0
    \<and> synced (co_counts out) + skipped (co_counts out) = int (length (counter_rows ns s))"
proof -
  let ?rows = "sort_key row_cursor (counter_rows ns s)"
  let ?st1 = "(start_run v)\<lparr>processed := int (length ?rows), reconcileTargets := map row_ref ?rows\<rparr>"
  have ok: "rows_ok ns ?rows" by (rule rows_ok_sort [OF assms(2)])
  have g: "counter_guard env ns Reconcile s = Inr m" using assms(1,3) by (simp add: counter_guard_Inr quiet_def)
  have "\<forall>i. \<not> rc_page env i" using assms(1) by (simp add: quiet_def)
  from paged_loop_beyond [OF rows_cursor [OF assms(2)] boundedPageSize_pos this,
      of n "process_row env ns Reconcile" 0 None "start_run v"]
  have l: "paged_loop row_cursor (boundedPageSize n) (rc_page env) (counter_rows ns s) (process_row env ns Reconcile) 0 None (start_run v)
      = (Inr (), ?st1)"
    using collect_rows [OF ok, of env "start_run v"] by (simp add: beyond_def start_run_def)
  from repair_rows [OF assms(1) ok, of ?st1] fresh_of_row [OF assms(2)] obtain st where
    st: "each_row (reconcile_row env ns) (map row_ref ?rows) ?st1 = (Inr (), st)"
    and c: "\<And>e t. ref_ok ns e t \<Longrightarrow> cell ns e t (key_space st) = (case find (\<lambda>r. row_ref r = (e, t)) ?rows of
          None \<Rightarrow> cell ns e t (key_space ?st1) | Some (_, _, q) \<Rightarrow> repaired (cell ns e t (key_space ?st1)) q)"
    and n: "processed st = processed ?st1" "initialized st = initialized ?st1"
      "synced st + skipped st = synced ?st1 + skipped ?st1 + int (length ?rows)"
    by auto
  have "cell ns e t (key_space st) = repaired (cell ns e t v) q" if "(e, t, q) \<in> set (counter_rows ns s)" for e t q
  proof -
    have "ref_ok ns e t" using that assms(2) by (auto simp: rows_ok_def)
    from c [OF this] find_ref [of ?rows e t q] that ok show ?thesis by (simp add: rows_ok_def start_run_def)
  qed
  moreover have "runInventoryCounterReconcile env ns Reconcile n s v
      = (Inr \<lparr>co_namespace = ns, co_mode = Reconcile, co_writerMode = m, co_counts = CounterReconcileCounts.truncate st\<rparr>, st)"
    using g l st assms(1) by (simp add: runInventoryCounterReconcile_def quiet_def)
  ultimately show ?thesis using n by (auto simp: CounterReconcileCounts.truncate_def start_run_def)
qed

definition sample_counters :: valkey where
  "sample_counters = vk sample_cache"

theorem quiet_repair_fixes_counters_witness:
  "cell TicketTypeNamespace uuid_a (Some uuid_b) (key_space (snd
      (runInventoryCounterReconcile (calm_env TicketTypeMode) TicketTypeNamespace Reconcile (Some 1)
        (sample_stock TicketTypeMode) sample_counters))) = (Some 5, 2)"
proof -
  have q: "quiet (calm_env TicketTypeMode) (sample_stock TicketTypeMode)" by (simp add: quiet_def calm_env_def)
  have m: "readInventoryWriterMode (sample_stock TicketTypeMode) = Inr TicketTypeMode"
    by (simp add: readInventoryWriterMode_def sample_stock_def mode_text_def)
  have c: "cell TicketTypeNamespace uuid_a (Some uuid_b) sample_counters = (Some 5, 1)" by code_simp
  from quiet_repair_fixes_counters [OF q sample_stock_rows m, of "Some 1" sample_counters] show ?thesis
    using c by (auto simp: counter_rows_def sample_stock_def repaired_def)
qed

text \<open>What other requests do to the key space between two commands of a repair.\<close>

definition cache_run :: "(cache_op \<times> link) list \<Rightarrow> valkey \<Rightarrow> valkey" where
  "cache_run ops v = vk (fold cache_step ops \<lparr>metrics = [], vk = v, client_enabled = True\<rparr>)"

lemma cache_run_frozen:
  assumes "list_all op_ok ops" "ref_ok ns e t" "snd (cell ns e t (cache_run ops v)) = snd (cell ns e t v)"
  shows "cell ns e t (cache_run ops v) = cell ns e t v"
proof (cases ns)
  case TicketTypeNamespace
  with assms(2) obtain x where x: "t = Some x" "uuid_pair (e, x)" by (auto simp: ref_ok_def uuid_pair_def split: option.splits)
  show ?thesis
    using tt_cells.run_content_frozen [OF x(2) assms(1) TrueI, of "\<lparr>metrics = [], vk = v, client_enabled = True\<rparr>"]
      assms(3) TicketTypeNamespace x(1)
    by (simp add: cell_def counter_key_def revision_key_def tt_counter_def tt_revision_def cache_run_def prod_eq_iff)
next
  case LegacyNamespace
  with assms(2) have "is_uuid e" by (simp add: ref_ok_def)
  from ev_cells.run_content_frozen [OF this assms(1) TrueI, of "\<lparr>metrics = [], vk = v, client_enabled = True\<rparr>"]
    assms(3) LegacyNamespace show ?thesis
    by (simp add: cell_def counter_key_def revision_key_def ev_counter_def ev_version_def cache_run_def prod_eq_iff)
qed

text \<open>A repair among live traffic never undoes a sale: when it reports a counter as synced, no request
  changed that counter between the moment the revision was noted and the compare-and-set, the new
  value is the row's remaining quantity as read in between, and the revision moved on; when it does
  not, the repair itself changed nothing.\<close>

theorem repair_loses_no_update:
  assumes "ref_ok ns e t" "list_all op_ok ops" "rc_between env (Suc (commands st)) = cache_run ops"
    and "reconcile_row env ns (e, t) st = (Inr u, st')"
  shows "(synced st' = synced st + 1 \<and> (\<exists>s q. rc_fresh env (Suc (commands st)) = Inr s \<and> fresh_remaining ns e t s = Some q
        \<and> cell ns e t (cache_run ops (rc_between env (commands st) (key_space st))) = cell ns e t (rc_between env (commands st) (key_space st))
        \<and> cell ns e t (key_space st') = (Some q, snd (cell ns e t (rc_between env (commands st) (key_space st))) + 1)))
    \<or> (synced st' = synced st \<and> key_space st' \<in> {rc_between env (commands st) (key_space st),
          cache_run ops (rc_between env (commands st) (key_space st))})"
proof -
  let ?v = "rc_between env (commands st) (key_space st)"
  let ?x = "snd (cell ns e t ?v)"
  obtain x st1 where g: "valkey_command env (\<lambda>v. (case vk_get (revision_key ns e t) v of None \<Rightarrow> 0 | Some x \<Rightarrow> x, v)) st = (Inr x, st1)"
    using assms(4) by (auto simp: reconcile_row_def split: prod.splits sum.splits)
  from valkey_command_Inr [OF g] have x: "x = ?x" and st1: "st1 = st\<lparr>key_space := ?v, commands := Suc (commands st)\<rparr>"
    by (simp_all add: cell_def)
  obtain s where s: "rc_fresh env (Suc (commands st)) = Inr s"
    using assms(4) g by (auto simp: reconcile_row_def st1 split: sum.splits)
  show ?thesis
  proof (cases "fresh_remaining ns e t s")
    case None
    with assms(4) g s show ?thesis by (auto simp: reconcile_row_def st1)
  next
    case (Some q)
    with assms(4) g s obtain r st2 where
      c: "valkey_command env (guarded_sync (counter_key ns e t) (revision_key ns e t) q x) st1 = (Inr r, st2)"
      and st': "r = Synced \<and> st' = st2\<lparr>synced := synced st2 + 1\<rparr> \<or> r = Skipped \<and> st' = st2\<lparr>skipped := skipped st2 + 1\<rparr>"
      by (auto simp: reconcile_row_def st1 script_twins split: CounterNamespace.splits prod.splits sum.splits if_splits)
    obtain w where w: "guarded_sync (counter_key ns e t) (revision_key ns e t) q ?x (cache_run ops ?v) = (r, w)"
      and st2: "st2 = st1\<lparr>key_space := w, commands := Suc (commands st1)\<rparr>"
      using valkey_command_Inr [OF c] assms(3) x by (cases "guarded_sync (counter_key ns e t) (revision_key ns e t) q ?x (cache_run ops ?v)") (simp add: st1)
    note sc = sync_cell [OF assms(1,1) w]
    show ?thesis
    proof (cases "r = Synced")
      case True
      with sc(1) have "snd (cell ns e t (cache_run ops ?v)) = ?x" by simp
      from cache_run_frozen [OF assms(2,1) this] sc(3) True st' s Some show ?thesis by (auto simp: st2 st1)
    next
      case False
      have "w = cache_run ops ?v" using w False by (auto simp: guarded_sync_def Let_def split: if_splits)
      with False st' show ?thesis by (auto simp: st2 st1)
    qed
  qed
qed

text \<open>A purchase reserves two tickets between the note of the revision and the compare-and-set.\<close>

definition busy_env :: counter_env where
  "busy_env = (calm_env TicketTypeMode)\<lparr>rc_between := (\<lambda>i. if i = 1 then cache_run [(OpReserveTT uuid_a uuid_b 2, Delivered)] else (\<lambda>v. v))\<rparr>"

definition sample_repair :: "unit result \<times> counter_run" where
  "sample_repair = reconcile_row busy_env TicketTypeNamespace (uuid_a, Some uuid_b) (start_run sample_counters)"

theorem repair_loses_no_update_witness:
  "key_space (snd sample_repair) \<in> {sample_counters, cache_run [(OpReserveTT uuid_a uuid_b 2, Delivered)] sample_counters}
   \<and> cell TicketTypeNamespace uuid_a (Some uuid_b) (key_space (snd sample_repair)) = (Some 3, 2)"
proof -
  have ok: "ref_ok TicketTypeNamespace uuid_a (Some uuid_b)" by (simp add: ref_ok_def)
  have ops: "list_all op_ok [(OpReserveTT uuid_a uuid_b 2, Delivered)]" by (simp add: op_ok_def)
  have "fst sample_repair = Inr ()" by code_simp
  then have run: "reconcile_row busy_env TicketTypeNamespace (uuid_a, Some uuid_b) (start_run sample_counters)
    = (Inr (), snd sample_repair)" by (simp add: sample_repair_def prod_eq_iff)
  have b: "rc_between busy_env (Suc (commands (start_run sample_counters))) = cache_run [(OpReserveTT uuid_a uuid_b 2, Delivered)]"
    "rc_between busy_env (commands (start_run sample_counters)) = (\<lambda>v. v)"
    by (simp_all add: busy_env_def start_run_def)
  have "synced (snd sample_repair) = 0" by code_simp
  moreover have "cell TicketTypeNamespace uuid_a (Some uuid_b) (key_space (snd sample_repair)) = (Some 3, 2)" by code_simp
  ultimately show ?thesis
    using repair_loses_no_update [OF ok ops b(1) run] by (simp add: b(2)) (simp add: start_run_def)
qed

end
