(* ===== verification/CutoverDatabase.thy ===== *)
theory CutoverDatabase
  imports Events
begin

text \<open>
  The database half of the cutover checker, src/cutover/ticket-type-cutover-readiness.ts: the 23
  categories, the counts of the 13 database categories, \<open>collectCategoryCounts\<close> and
  \<open>checkCutoverDatabase\<close>. Results are pairs of a category and its violation count.
\<close>

section \<open>Decimal numbers\<close>

text \<open>\<open>NON_NEGATIVE_INTEGER\<close> is the expression 0 or a non-zero digit and digits, anchored at both ends.\<close>

definition is_digit :: "char \<Rightarrow> bool" where
  "is_digit c = (let n = (of_char c :: nat) in 48 \<le> n \<and> n \<le> 57)"

definition NON_NEGATIVE_INTEGER :: "string \<Rightarrow> bool" where
  "NON_NEGATIVE_INTEGER s = (s = ''0'' \<or> (s \<noteq> [] \<and> hd s \<noteq> CHR ''0'' \<and> list_all is_digit s))"

text \<open>\<open>Number\<close> of a string of digits, \<open>String\<close> of a natural number.\<close>

definition digits_value :: "string \<Rightarrow> nat" where
  "digits_value s = foldl (\<lambda>a c. 10 * a + (of_char c - 48)) 0 s"

fun decimal :: "nat \<Rightarrow> string" where
  "decimal n = (if n < 10 then [char_of (48 + n)] else decimal (n div 10) @ [char_of (48 + n mod 10)])"

declare decimal.simps [simp del]

text \<open>
  \<open>Number.isSafeInteger\<close> of such a number: rounding to a double keeps a value beyond 2 to the 53 beyond it.
\<close>

definition safe_count :: "nat \<Rightarrow> bool" where
  "safe_count n = (n \<le> 9007199254740991)"

lemma digit_of [simp]: "n < 10 \<Longrightarrow> (of_char (char_of (48 + n) :: char) :: nat) = 48 + n"
  by (simp add: of_char_of)

lemma digits_value_snoc [simp]: "digits_value (s @ [c]) = 10 * digits_value s + (of_char c - 48)"
  by (simp add: digits_value_def)

lemma digits_value_decimal [simp]: "digits_value (decimal n) = n"
proof (induction n rule: decimal.induct)
  case (1 n)
  show ?case
  proof (cases "n < 10")
    case True
    then show ?thesis by (subst decimal.simps) (simp add: digits_value_def)
  next
    case False
    with 1 show ?thesis by (subst decimal.simps) simp
  qed
qed

lemma digits_value_zero [simp]: "digits_value ''0'' = 0"
  by (simp add: digits_value_def)

lemma decimal_digits: "decimal n \<noteq> [] \<and> list_all is_digit (decimal n) \<and> (hd (decimal n) = CHR ''0'' \<longrightarrow> n = 0)"
proof (induction n rule: decimal.induct)
  case (1 n)
  show ?case
  proof (cases "n < 10")
    case True
    have "char_of (48 + n) = (CHR ''0'' :: char) \<Longrightarrow> n = 0"
    proof -
      assume "char_of (48 + n) = (CHR ''0'' :: char)"
      then have "(of_char (char_of (48 + n) :: char) :: nat) = of_char (CHR ''0'')" by simp
      with True show "n = 0" by simp
    qed
    with True show ?thesis by (subst (1 2 3) decimal.simps) (simp add: is_digit_def Let_def)
  next
    case False
    with 1 have ih: "decimal (n div 10) \<noteq> []" "list_all is_digit (decimal (n div 10))" "hd (decimal (n div 10)) \<noteq> CHR ''0''"
      by auto
    with False show ?thesis by (subst (1 2 3) decimal.simps) (simp add: is_digit_def Let_def)
  qed
qed

lemma decimal_zero [simp]: "decimal 0 = ''0''"
  by code_simp

lemma decimal_matches [simp]: "NON_NEGATIVE_INTEGER (decimal n)"
  using decimal_digits [of n] by (cases "n = 0") (auto simp: NON_NEGATIVE_INTEGER_def)

section \<open>Categories\<close>

definition DATABASE_CATEGORIES :: "string list" where
  "DATABASE_CATEGORIES =
     [''event_without_exactly_one_default'', ''event_without_legacy_inventory'',
      ''legacy_inventory_without_default_ticket_type_inventory'', ''ticket_type_inventory_without_ticket_type'',
      ''ticket_type_without_ticket_type_inventory'', ''purchase_without_ticket_type'',
      ''purchase_ticket_type_event_mismatch'', ''legacy_aggregate_total_mismatch'',
      ''legacy_aggregate_remaining_mismatch'', ''non_default_ticket_type_inventory_in_legacy_mode'',
      ''writer_control_state_missing_or_invalid'', ''writer_control_mode_mismatch'',
      ''compatibility_object_missing_or_invalid'']"

definition VALKEY_CATEGORIES :: "string list" where
  "VALKEY_CATEGORIES =
     [''valkey_counter_missing'', ''valkey_counter_without_inventory_row'', ''valkey_counter_value_invalid'',
      ''valkey_counter_remaining_mismatch'', ''valkey_revision_missing_or_invalid'', ''valkey_legacy_counter_missing'',
      ''valkey_legacy_counter_value_invalid'', ''valkey_legacy_counter_remaining_mismatch'',
      ''valkey_legacy_version_value_invalid'']"

definition TICKET_TYPE_CUTOVER_READINESS_CATEGORIES :: "string list" where
  "TICKET_TYPE_CUTOVER_READINESS_CATEGORIES = DATABASE_CATEGORIES @ VALKEY_CATEGORIES @ [''opensearch_projection_diff'']"

type_synonym TicketTypeCutoverReadinessResult = "string \<times> int"

section \<open>Counts\<close>

text \<open>
  What the checker reads, with the columns that may be broken: a purchase may lack its Type, the
  control table may hold any rows. \<open>compat_violations\<close> is the number of compatibility objects that the
  catalog query finds missing or altered, \<open>migrations\<close> the applied migrations, latest first.
\<close>

record cutover_tables =
  ct_events :: "string list"
  ct_types :: "type_row list"
  ct_legacy :: "ti_row list"
  ct_shadow :: "tti_row list"
  ct_purchases :: "(string \<times> string option) list"
  ct_control :: "(bool \<times> string) list"
  compat_violations :: nat
  migrations :: "string list"

definition tables_of :: "pg \<Rightarrow> nat \<Rightarrow> string list \<Rightarrow> cutover_tables" where
  "tables_of s altered revisions =
     \<lparr>ct_events = events s, ct_types = ticket_types s, ct_legacy = ticket_inventory s, ct_shadow = ticket_type_inventory s,
      ct_purchases = map (\<lambda>p. (p_event p, Some (p_type p))) (purchases s),
      ct_control = (case writer_control s of None \<Rightarrow> [] | Some m \<Rightarrow> [(True, m)]),
      compat_violations = altered, migrations = revisions\<rparr>"

definition count_rows :: "('r \<Rightarrow> bool) \<Rightarrow> 'r list \<Rightarrow> nat" where
  "count_rows p rows = length (filter p rows)"

definition default_types :: "string \<Rightarrow> cutover_tables \<Rightarrow> type_row list" where
  "default_types e d = filter (\<lambda>t. type_event t = e \<and> is_default t) (ct_types d)"

definition has_shadow :: "string \<Rightarrow> string \<Rightarrow> cutover_tables \<Rightarrow> bool" where
  "has_shadow e t d = list_ex (\<lambda>r. tti_event r = e \<and> tti_type r = t) (ct_shadow d)"

text \<open>The rows of the two left joins for one Event row of the inventory that found no Type inventory row.\<close>

definition defaults_without_shadow :: "string \<Rightarrow> cutover_tables \<Rightarrow> nat" where
  "defaults_without_shadow e d =
     (if default_types e d = [] then 1 else count_rows (\<lambda>t. \<not> has_shadow e (type_id t) d) (default_types e d))"

definition valid_mode :: "bool \<times> string \<Rightarrow> bool" where
  "valid_mode c = (fst c \<and> snd c \<in> {''legacy'', ''ticket_type''})"

definition TICKET_TYPE_CUTOVER_DATABASE_SQL :: "InventoryWriterMode \<Rightarrow> cutover_tables \<Rightarrow> (string \<times> string) list" where
  "TICKET_TYPE_CUTOVER_DATABASE_SQL expected d =
     map (\<lambda>(category, n). (category, decimal n))
      [(''event_without_exactly_one_default'', count_rows (\<lambda>e. length (default_types e d) \<noteq> 1) (ct_events d)),
       (''event_without_legacy_inventory'', count_rows (\<lambda>e. \<not> list_ex (\<lambda>r. ti_event r = e) (ct_legacy d)) (ct_events d)),
       (''legacy_inventory_without_default_ticket_type_inventory'',
          sum_list (map (\<lambda>r. defaults_without_shadow (ti_event r) d) (ct_legacy d))),
       (''ticket_type_inventory_without_ticket_type'',
          count_rows (\<lambda>r. \<not> list_ex (\<lambda>t. type_event t = tti_event r \<and> type_id t = tti_type r) (ct_types d)) (ct_shadow d)),
       (''ticket_type_without_ticket_type_inventory'', count_rows (\<lambda>t. \<not> has_shadow (type_event t) (type_id t) d) (ct_types d)),
       (''purchase_without_ticket_type'', count_rows (\<lambda>p. snd p = None) (ct_purchases d)),
       (''purchase_ticket_type_event_mismatch'',
          count_rows (\<lambda>(e, t). t \<noteq> None \<and> \<not> list_ex (\<lambda>tt. Some (type_id tt) = t \<and> type_event tt = e) (ct_types d)) (ct_purchases d)),
       (''legacy_aggregate_total_mismatch'',
          count_rows (\<lambda>r. sum_where tti_total (\<lambda>x. tti_event x = ti_event r) (ct_shadow d) \<noteq> ti_total r) (ct_legacy d)),
       (''legacy_aggregate_remaining_mismatch'',
          count_rows (\<lambda>r. sum_where tti_remaining (\<lambda>x. tti_event x = ti_event r) (ct_shadow d) \<noteq> ti_remaining r) (ct_legacy d)),
       (''non_default_ticket_type_inventory_in_legacy_mode'',
          if expected = Legacy
          then count_rows (\<lambda>r. list_ex (\<lambda>t. type_event t = tti_event r \<and> type_id t = tti_type r \<and> \<not> is_default t) (ct_types d)) (ct_shadow d)
          else 0),
       (''writer_control_state_missing_or_invalid'',
          if length (ct_control d) = 1 \<and> count_rows valid_mode (ct_control d) = 1 then 0 else 1),
       (''writer_control_mode_mismatch'', count_rows (\<lambda>c. fst c \<and> snd c \<noteq> mode_text expected) (ct_control d)),
       (''compatibility_object_missing_or_invalid'', compat_violations d)]"

section \<open>Collecting the counts\<close>

fun collect_rows :: "string list \<Rightarrow> (string \<times> string) list \<Rightarrow> (string \<times> int) list \<Rightarrow> (string \<times> int) list result" where
  "collect_rows expected [] counts = Inr counts"
| "collect_rows expected ((category, raw) # rows) counts =
     (if category \<notin> set expected then Inl (PlainError ''unexpected Ticket Type cutover category'')
      else if map_of counts category \<noteq> None then Inl (PlainError ''duplicate Ticket Type cutover category'')
      else if \<not> NON_NEGATIVE_INTEGER raw \<or> \<not> safe_count (digits_value raw)
      then Inl (PlainError ''invalid Ticket Type cutover count'')
      else collect_rows expected rows ((category, int (digits_value raw)) # counts))"

definition collectCategoryCounts :: "(string \<times> string) list \<Rightarrow> string list \<Rightarrow> TicketTypeCutoverReadinessResult list result" where
  "collectCategoryCounts rows expected =
     bind_result (collect_rows expected rows []) (\<lambda>counts.
       if filter (\<lambda>c. map_of counts c = None) expected \<noteq> []
       then Inl (PlainError ''missing Ticket Type cutover categories'')
       else Inr (map (\<lambda>c. (c, the (map_of counts c))) expected))"

section \<open>The check\<close>

record CutoverDatabaseCheck =
  cd_results :: "TicketTypeCutoverReadinessResult list"
  cd_writerMode :: "InventoryWriterMode option"
  cd_schemaRevision :: string

definition attested_mode :: "string list \<Rightarrow> InventoryWriterMode option" where
  "attested_mode rows =
     (if rows = [''legacy''] then Some Legacy else if rows = [''ticket_type''] then Some TicketTypeMode else None)"

lemma attested_mode_text [simp]: "attested_mode [mode_text m] = Some m"
  by (cases m) (simp_all add: attested_mode_def mode_text_def)

datatype cd_stmt = CD_VIOLATIONS | CD_CONTROL | CD_REVISION

text \<open>\<open>seen\<close> is the database that each of the three statements sees.\<close>

definition checkCutoverDatabase ::
    "(cd_stmt \<Rightarrow> link) \<Rightarrow> (cd_stmt \<Rightarrow> cutover_tables) \<Rightarrow> InventoryWriterMode \<Rightarrow> CutoverDatabaseCheck result" where
  "checkCutoverDatabase net seen expectedWriterMode =
     bind_result (if net CD_VIOLATIONS = Delivered
                  then collectCategoryCounts (TICKET_TYPE_CUTOVER_DATABASE_SQL expectedWriterMode (seen CD_VIOLATIONS)) DATABASE_CATEGORIES
                  else Inl connection_lost) (\<lambda>results.
     bind_result (if net CD_CONTROL = Delivered then Inr (map snd (filter fst (ct_control (seen CD_CONTROL)))) else Inl connection_lost)
       (\<lambda>controlRows.
     bind_result (if net CD_REVISION = Delivered then Inr (take 1 (migrations (seen CD_REVISION))) else Inl connection_lost)
       (\<lambda>revisionRows.
     if revisionRows = [] \<or> hd revisionRows = [] then Inl (PlainError ''cutover readiness cannot determine applied schema revision'')
     else Inr \<lparr>cd_results = results,
       cd_writerMode = attested_mode controlRows,
       cd_schemaRevision = hd revisionRows\<rparr>)))"

section \<open>What a clean check means\<close>

definition clean :: "TicketTypeCutoverReadinessResult list \<Rightarrow> bool" where
  "clean results \<longleftrightarrow> (\<forall>r \<in> set results. snd r = 0)"

text \<open>The state of the database in which the writer may be switched.\<close>

definition switchable :: "InventoryWriterMode \<Rightarrow> cutover_tables \<Rightarrow> bool" where
  "switchable m d \<longleftrightarrow>
     (\<forall>e \<in> set (ct_events d). (\<exists>t. default_types e d = [t]) \<and> (\<exists>r \<in> set (ct_legacy d). ti_event r = e))
   \<and> (\<forall>r \<in> set (ct_legacy d). default_types (ti_event r) d \<noteq> []
        \<and> ti_total r = sum_where tti_total (\<lambda>x. tti_event x = ti_event r) (ct_shadow d)
        \<and> ti_remaining r = sum_where tti_remaining (\<lambda>x. tti_event x = ti_event r) (ct_shadow d))
   \<and> (\<forall>t \<in> set (ct_types d). \<exists>r \<in> set (ct_shadow d). tti_type r = type_id t \<and> tti_event r = type_event t)
   \<and> (\<forall>r \<in> set (ct_shadow d). \<exists>t \<in> set (ct_types d). type_event t = tti_event r \<and> type_id t = tti_type r)
   \<and> (\<forall>(e, t) \<in> set (ct_purchases d). \<exists>tt \<in> set (ct_types d). t = Some (type_id tt) \<and> type_event tt = e)
   \<and> (m = Legacy \<longrightarrow> (\<forall>t \<in> set (ct_types d). is_default t))
   \<and> ct_control d = [(True, mode_text m)] \<and> compat_violations d = 0"

lemma count_rows_zero [simp]: "count_rows p rows = 0 \<longleftrightarrow> (\<forall>r \<in> set rows. \<not> p r)"
  by (auto simp: count_rows_def filter_empty_conv)

lemma mode_text_valid: "valid_mode (True, mode_text m)"
  by (cases m) (simp_all add: valid_mode_def mode_text_def)

lemma control_clean:
  "(length c = 1 \<and> count_rows valid_mode c = 1) \<and> count_rows (\<lambda>r. fst r \<and> snd r \<noteq> mode_text m) c = 0
     \<longleftrightarrow> c = [(True, mode_text m)]"
proof (cases c)
  case (Cons x xs)
  then show ?thesis using mode_text_valid [of m]
    by (cases x) (auto simp: count_rows_def valid_mode_def split: if_splits)
qed simp

lemma set_default_types: "t \<in> set (default_types e d) \<longleftrightarrow> t \<in> set (ct_types d) \<and> type_event t = e \<and> is_default t"
  by (simp add: default_types_def)

text \<open>When the counts of the query are zero, in the order of the categories.\<close>

lemma defaults_without_shadow_zero:
  "defaults_without_shadow e d = 0 \<longleftrightarrow> default_types e d \<noteq> [] \<and> (\<forall>t \<in> set (default_types e d). has_shadow e (type_id t) d)"
  by (simp add: defaults_without_shadow_def)

lemma has_shadow_iff: "has_shadow e t d \<longleftrightarrow> (\<exists>r \<in> set (ct_shadow d). tti_type r = t \<and> tti_event r = e)"
  by (auto simp: has_shadow_def list_ex_iff)

lemma decimal_zero_iff: "decimal n = ''0'' \<longleftrightarrow> n = 0"
  by (metis decimal_zero digits_value_decimal)

lemma zero_counts:
  "sum_list (map (\<lambda>r. defaults_without_shadow (ti_event r) d) rows) = 0
     \<longleftrightarrow> (\<forall>r \<in> set rows. default_types (ti_event r) d \<noteq> []
          \<and> (\<forall>t \<in> set (default_types (ti_event r) d). has_shadow (ti_event r) (type_id t) d))"
  "(if b then n else (0::nat)) = 0 \<longleftrightarrow> (b \<longrightarrow> n = 0)" "(if b then 0 else (1::nat)) = 0 \<longleftrightarrow> b"
  by (simp_all add: defaults_without_shadow_zero)

lemma database_counts:
  "list_all (\<lambda>r. snd r = ''0'') (TICKET_TYPE_CUTOVER_DATABASE_SQL m d) \<longleftrightarrow>
     (\<forall>e \<in> set (ct_events d). \<not> length (default_types e d) \<noteq> 1)
   \<and> (\<forall>e \<in> set (ct_events d). \<not> \<not> (\<exists>r \<in> set (ct_legacy d). ti_event r = e))
   \<and> (\<forall>r \<in> set (ct_legacy d). default_types (ti_event r) d \<noteq> []
        \<and> (\<forall>t \<in> set (default_types (ti_event r) d). has_shadow (ti_event r) (type_id t) d))
   \<and> (\<forall>r \<in> set (ct_shadow d). \<not> \<not> (\<exists>t \<in> set (ct_types d). type_event t = tti_event r \<and> type_id t = tti_type r))
   \<and> (\<forall>t \<in> set (ct_types d). \<not> \<not> has_shadow (type_event t) (type_id t) d)
   \<and> (\<forall>p \<in> set (ct_purchases d). snd p \<noteq> None)
   \<and> (\<forall>p \<in> set (ct_purchases d). \<not> (case p of (e, t) \<Rightarrow> t \<noteq> None
        \<and> \<not> (\<exists>tt \<in> set (ct_types d). Some (type_id tt) = t \<and> type_event tt = e)))
   \<and> (\<forall>r \<in> set (ct_legacy d). \<not> sum_where tti_total (\<lambda>x. tti_event x = ti_event r) (ct_shadow d) \<noteq> ti_total r)
   \<and> (\<forall>r \<in> set (ct_legacy d). \<not> sum_where tti_remaining (\<lambda>x. tti_event x = ti_event r) (ct_shadow d) \<noteq> ti_remaining r)
   \<and> (m = Legacy \<longrightarrow> (\<forall>r \<in> set (ct_shadow d). \<not> (\<exists>t \<in> set (ct_types d).
        type_event t = tti_event r \<and> type_id t = tti_type r \<and> \<not> is_default t)))
   \<and> (length (ct_control d) = 1 \<and> count_rows valid_mode (ct_control d) = 1)
   \<and> (\<forall>c \<in> set (ct_control d). \<not> (fst c \<and> snd c \<noteq> mode_text m))
   \<and> compat_violations d = 0"
  unfolding TICKET_TYPE_CUTOVER_DATABASE_SQL_def
  by (simp only: list.map list.pred_inject prod.case snd_conv decimal_zero_iff count_rows_zero zero_counts list_ex_iff simp_thms)

lemma database_counts_zero:
  "list_all (\<lambda>r. snd r = ''0'') (TICKET_TYPE_CUTOVER_DATABASE_SQL m d) \<longleftrightarrow> switchable m d" (is "?l \<longleftrightarrow> ?r")
proof
  assume ?l
  note l = this [unfolded database_counts]
  then have "ct_control d = [(True, mode_text m)]" using control_clean [of "ct_control d" m] by simp
  moreover have "\<exists>t. default_types e d = [t]" if "e \<in> set (ct_events d)" for e
    using l that by (auto simp: length_Suc_conv)
  moreover have "is_default t" if "m = Legacy" "t \<in> set (ct_types d)" for t
    using l that by (auto simp: has_shadow_iff)
  moreover have "\<forall>(e, t) \<in> set (ct_purchases d). \<exists>tt \<in> set (ct_types d). t = Some (type_id tt) \<and> type_event tt = e"
    using l by fastforce
  moreover have "\<exists>r \<in> set (ct_shadow d). tti_type r = type_id t \<and> tti_event r = type_event t" if "t \<in> set (ct_types d)" for t
    using l that by (simp add: has_shadow_iff)
  ultimately show ?r unfolding switchable_def using l by simp
next
  assume ?r
  note r = this [unfolded switchable_def]
  have sh: "has_shadow (type_event t) (type_id t) d" if "t \<in> set (ct_types d)" for t
    using r that by (simp add: has_shadow_iff)
  have "has_shadow (ti_event x) (type_id t) d" if "t \<in> set (default_types (ti_event x) d)" for x t
    using sh [of t] that by (simp add: set_default_types)
  moreover have "length (default_types e d) = 1" if "e \<in> set (ct_events d)" for e
    using r that by (metis length_Cons list.size(3) One_nat_def)
  moreover have "\<exists>tt \<in> set (ct_types d). Some (type_id tt) = t \<and> type_event tt = e \<and> t \<noteq> None" if "(e, t) \<in> set (ct_purchases d)" for e t
    using r that by fastforce
  moreover note sh
  moreover have "(length (ct_control d) = 1 \<and> count_rows valid_mode (ct_control d) = 1)
    \<and> (\<forall>c \<in> set (ct_control d). \<not> (fst c \<and> snd c \<noteq> mode_text m))"
    using r control_clean [of "ct_control d" m] by simp
  ultimately show ?l unfolding database_counts using r by (simp del: One_nat_def) fastforce
qed

lemma collect_rows_Inr:
  assumes "collect_rows expected rows counts = Inr out"
  shows "out = rev (map (\<lambda>(c, raw). (c, int (digits_value raw))) rows) @ counts"
  using assms by (induction rows arbitrary: counts) (auto split: if_splits)

lemma collect_rows_ok:
  assumes "\<forall>(c, raw) \<in> set rows. c \<in> set expected \<and> NON_NEGATIVE_INTEGER raw \<and> safe_count (digits_value raw)"
    and "distinct (map fst rows)" "fst ` set rows \<inter> fst ` set counts = {}"
  shows "collect_rows expected rows counts = Inr (rev (map (\<lambda>(c, raw). (c, int (digits_value raw))) rows) @ counts)"
  using assms by (induction rows arbitrary: counts) (auto simp: map_of_eq_None_iff)

lemma collect_total:
  assumes "map fst rows = expected" "distinct expected"
    and "\<forall>r \<in> set rows. NON_NEGATIVE_INTEGER (snd r) \<and> safe_count (digits_value (snd r))"
  shows "\<exists>results. collectCategoryCounts rows expected = Inr results"
proof -
  have "collect_rows expected rows [] = Inr (rev (map (\<lambda>(c, raw). (c, int (digits_value raw))) rows))"
    using collect_rows_ok [of rows expected "[]"] assms(2,3) unfolding assms(1) [symmetric] by (simp add: case_prod_unfold)
  moreover have "filter (\<lambda>c. map_of (rev (map (\<lambda>(c, raw). (c, int (digits_value raw))) rows)) c = None) expected = []"
    using assms(1) by (auto simp: filter_empty_conv map_of_eq_None_iff image_image case_prod_unfold)
  ultimately show ?thesis by (simp add: collectCategoryCounts_def)
qed

lemma sql_categories: "map fst (TICKET_TYPE_CUTOVER_DATABASE_SQL m d) = DATABASE_CATEGORIES"
  by (simp add: TICKET_TYPE_CUTOVER_DATABASE_SQL_def DATABASE_CATEGORIES_def)

lemma distinct_categories [simp]: "distinct TICKET_TYPE_CUTOVER_READINESS_CATEGORIES"
  by code_simp

lemma distinct_database_categories [simp]: "distinct DATABASE_CATEGORIES"
  using distinct_categories unfolding TICKET_TYPE_CUTOVER_READINESS_CATEGORIES_def by (simp only: distinct_append)

lemma collect_zero:
  assumes "map fst rows = expected" "distinct expected" "list_all (\<lambda>r. snd r = ''0'') rows"
  shows "collectCategoryCounts rows expected = Inr (map (\<lambda>c. (c, 0)) expected)"
proof -
  have z: "digits_value ''0'' = 0" "safe_count 0" by (simp_all add: digits_value_def safe_count_def)
  have rows: "rows = map (\<lambda>c. (c, ''0'')) expected"
    using assms(1,3) by (induction rows arbitrary: expected) auto
  have "map_of (rev (map (\<lambda>c. (c, 0::int)) expected)) c = Some 0" if "c \<in> set expected" for c
    using map_of_eq_Some_iff [of "rev (map (\<lambda>c. (c, 0::int)) expected)" c 0] assms(2) that by (simp add: comp_def rev_map)
  then have "filter (\<lambda>c. map_of (rev (map (\<lambda>c. (c, 0::int)) expected)) c = None) expected = []"
    and "map (\<lambda>c. (c, the (map_of (rev (map (\<lambda>c. (c, 0::int)) expected)) c))) expected = map (\<lambda>c. (c, 0)) expected"
    by (simp_all add: filter_empty_conv)
  moreover have "collect_rows expected rows [] = Inr (rev (map (\<lambda>c. (c, 0)) expected))"
    using collect_rows_ok [of rows expected "[]"] assms(1,2) z by (auto simp: rows NON_NEGATIVE_INTEGER_def comp_def)
  ultimately show ?thesis by (simp add: collectCategoryCounts_def)
qed

lemma collect_clean:
  assumes "collectCategoryCounts rows expected = Inr results" "clean results"
    and "map fst rows = expected" "distinct expected" "\<forall>r \<in> set rows. \<exists>n. snd r = decimal n"
  shows "list_all (\<lambda>r. snd r = ''0'') rows"
proof -
  let ?counts = "rev (map (\<lambda>(c, raw). (c, int (digits_value raw))) rows)"
  obtain counts where c: "collect_rows expected rows [] = Inr counts" "results = map (\<lambda>c. (c, the (map_of counts c))) expected"
    using assms(1) by (auto simp: collectCategoryCounts_def bind_result_Inr split: if_splits)
  have counts: "counts = ?counts" using collect_rows_Inr [OF c(1)] by simp
  have "snd r = ''0''" if r: "r \<in> set rows" for r
  proof -
    have "map_of ?counts (fst r) = Some (int (digits_value (snd r)))"
      using r assms(3,4) by (subst map_of_eq_Some_iff) (auto simp: rev_map [symmetric] comp_def case_prod_unfold intro!: image_eqI [of _ _ r])
    then have "int (digits_value (snd r)) = 0"
      using assms(2) r assms(3) by (force simp: c(2) counts clean_def)
    with assms(5) r show ?thesis by (auto simp: decimal_zero_iff)
  qed
  then show ?thesis by (simp add: list_all_iff)
qed

lemma sql_decimals: "\<forall>r \<in> set (TICKET_TYPE_CUTOVER_DATABASE_SQL m d). \<exists>n. snd r = decimal n"
  by (auto simp: TICKET_TYPE_CUTOVER_DATABASE_SQL_def intro: decimal_zero [symmetric])

lemma sql_total:
  assumes "\<forall>r \<in> set (TICKET_TYPE_CUTOVER_DATABASE_SQL m d). safe_count (digits_value (snd r))"
  shows "\<exists>results. collectCategoryCounts (TICKET_TYPE_CUTOVER_DATABASE_SQL m d) DATABASE_CATEGORIES = Inr results"
proof (rule collect_total [OF sql_categories distinct_database_categories], rule ballI)
  fix r assume r: "r \<in> set (TICKET_TYPE_CUTOVER_DATABASE_SQL m d)"
  then obtain n where "snd r = decimal n" using sql_decimals by blast
  with assms r show "NON_NEGATIVE_INTEGER (snd r) \<and> safe_count (digits_value (snd r))" by auto
qed

lemma database_results:
  assumes "collectCategoryCounts (TICKET_TYPE_CUTOVER_DATABASE_SQL m d) DATABASE_CATEGORIES = Inr results"
  shows "clean results \<longleftrightarrow> switchable m d" "map fst results = DATABASE_CATEGORIES"
proof -
  show "clean results \<longleftrightarrow> switchable m d"
    using collect_clean [OF assms _ sql_categories distinct_database_categories sql_decimals]
      collect_zero [OF sql_categories distinct_database_categories, of m d] assms
    unfolding database_counts_zero [symmetric] by (auto simp: clean_def)
  show "map fst results = DATABASE_CATEGORIES"
    using assms by (auto simp: collectCategoryCounts_def bind_result_Inr comp_def split: if_splits)
qed

lemma checkCutoverDatabase_Inr:
  "checkCutoverDatabase net seen m = Inr c \<longleftrightarrow>
     (\<forall>q. net q = Delivered)
   \<and> collectCategoryCounts (TICKET_TYPE_CUTOVER_DATABASE_SQL m (seen CD_VIOLATIONS)) DATABASE_CATEGORIES = Inr (cd_results c)
   \<and> (\<exists>r rs. migrations (seen CD_REVISION) = r # rs \<and> r \<noteq> [] \<and> cd_schemaRevision c = r)
   \<and> cd_writerMode c = attested_mode (map snd (filter fst (ct_control (seen CD_CONTROL))))"
proof -
  have all: "(\<forall>q. net q = Delivered) \<longleftrightarrow> net CD_VIOLATIONS = Delivered \<and> net CD_CONTROL = Delivered \<and> net CD_REVISION = Delivered"
    by (metis cd_stmt.exhaust)
  show ?thesis unfolding all
    by (cases c; cases "migrations (seen CD_REVISION)")
      (auto simp: checkCutoverDatabase_def bind_result_Inr Let_def split: if_splits)
qed

text \<open>C21: the database check is exact: it reports no violation in any category exactly when the database
  is switchable: every Event has one default Type and a stock row, Types and Type stock rows pair up,
  every purchase names a Type of its Event, the Event rows are the sums of their Type rows, in the
  legacy mode every Type is a default one, the control table holds the expected mode and no
  compatibility object was altered; and then it attests the expected mode.\<close>

theorem database_check_is_exact:
  assumes "checkCutoverDatabase net (\<lambda>_. d) m = Inr c"
  shows "map fst (cd_results c) = DATABASE_CATEGORIES \<and> (clean (cd_results c) \<longleftrightarrow> switchable m d)
    \<and> (clean (cd_results c) \<longrightarrow> cd_writerMode c = Some m)"
proof -
  from assms have c: "collectCategoryCounts (TICKET_TYPE_CUTOVER_DATABASE_SQL m d) DATABASE_CATEGORIES = Inr (cd_results c)"
    and mode: "cd_writerMode c = attested_mode (map snd (filter fst (ct_control d)))"
    by (simp_all add: checkCutoverDatabase_Inr)
  have "cd_writerMode c = Some m" if "switchable m d"
    using that by (simp add: mode switchable_def)
  with database_results [OF c] show ?thesis by simp
qed

lemma sole_element:
  assumes "x \<in> set xs" "distinct (map f xs)" "\<forall>y \<in> set xs. f y = k"
  shows "\<exists>y. xs = [y]"
proof (cases xs)
  case (Cons y ys)
  with assms(2,3) have "ys = []" by (cases ys) auto
  with Cons show ?thesis by simp
qed (use assms(1) in simp)

lemma sound_switchable:
  assumes "sound s" "sole_types s" "writer_control s = Some (mode_text m)"
  shows "switchable m (tables_of s 0 revisions)"
proof -
  let ?d = "tables_of s 0 revisions"
  note inv = assms(1) [unfolded sound_def pg_inv_def]
  then have wf: "pg_wf s" and listed: "listed s" by simp_all
  have dist: "distinct (map type_id (ticket_types s))" using wf by (simp add: pg_wf_def)
  have sole: "default_type_of (type_event t) s = Some (type_id t)" if "t \<in> set (ticket_types s)" for t
    using assms(2) that by (simp add: sole_types_def)
  have default: "is_default t" if t: "t \<in> set (ticket_types s)" for t
  proof -
    from sole [OF t] obtain ty where ty: "find (\<lambda>x. type_event x = type_event t \<and> is_default x) (ticket_types s) = Some ty"
      "type_id ty = type_id t" by (auto simp: default_type_of_def)
    from find_filter [OF ty(1)] have "ty \<in> set (filter (\<lambda>x. type_event x = type_event t \<and> is_default x) (ticket_types s))"
      by (auto simp del: set_filter)
    with ty(2) t dist show ?thesis by (auto simp: distinct_map inj_on_def)
  qed
  have row: "\<exists>r \<in> set (ticket_type_inventory s). tti_type r = type_id t \<and> tti_event r = type_event t"
    if t: "t \<in> set (ticket_types s)" for t
  proof -
    from t listed sole [OF t] have "type_row_of (type_id t) s \<noteq> None" by (fastforce simp: listed_def)
    then obtain r where r: "type_row_of (type_id t) s = Some r" by blast
    from aggregate_of_sole_type(3) [OF _ assms(2) sole [OF t] r] inv
    have "tti_event r = type_event t" by (simp add: pg_inv_def)
    with row_by_Some [of tti_type "type_id t" _ r] r show ?thesis by (auto simp: type_row_of_def)
  qed
  have one: "\<exists>t. default_types e ?d = [t]" if e: "e \<in> set (events s)" for e
  proof -
    from e listed obtain t0 where t0: "default_type_of e s = Some t0" by (auto simp: listed_def)
    have ids: "type_id t = t0" if "t \<in> set (default_types e ?d)" for t
      using that t0 sole [of t] by (auto simp: set_default_types tables_of_def)
    obtain ty where ty: "ty \<in> set (ticket_types s)" "type_event ty = e" using default_type_member [OF t0] by blast
    then have "ty \<in> set (default_types e ?d)" using default by (simp add: set_default_types tables_of_def)
    moreover have "distinct (map type_id (default_types e ?d))"
      using dist by (simp add: default_types_def tables_of_def distinct_map_filter)
    ultimately show ?thesis using ids by (intro sole_element) blast+
  qed
  have stock: "\<exists>r \<in> set (ticket_inventory s). ti_event r = e" if e: "e \<in> set (events s)" for e
  proof -
    from e listed obtain t0 where t0: "default_type_of e s = Some t0" by (auto simp: listed_def)
    then obtain ty where "ty \<in> set (ticket_types s)" "type_event ty = e" using default_type_member by blast
    from row [OF this(1)] this wf show ?thesis unfolding pg_wf_def by metis
  qed
  have "\<exists>tt \<in> set (ticket_types s). Some (p_type p) = Some (type_id tt) \<and> type_event tt = p_event p" if "p \<in> set (purchases s)" for p
    using inv that unfolding purchases_linked_def by (metis (no_types, lifting))
  moreover have "default_types (ti_event r) ?d \<noteq> []" if "r \<in> set (ticket_inventory s)" for r
    using one [of "ti_event r"] listed that by (auto simp: listed_def)
  moreover have "\<exists>t \<in> set (ticket_types s). type_event t = tti_event r \<and> type_id t = tti_type r"
    if "r \<in> set (ticket_type_inventory s)" for r
    using wf that unfolding pg_wf_def by blast
  ultimately show ?thesis
    unfolding switchable_def using one stock row default inv assms(3)
    by (auto simp: tables_of_def aggregates_match_def aggregate_total_def aggregate_remaining_def)
qed

text \<open>The program never blocks its own cutover: after any history of registrations, purchases and writer
  switches from the empty database the database check, run for the mode in force, ends with no
  violation in any of its categories, attests that mode and names the latest migration.\<close>

theorem shop_database_is_switchable:
  assumes "list_all shop_admissible ops" "s = fold shop_perform ops (empty_pg m0)" "r \<noteq> []"
  shows "\<exists>m c. readInventoryWriterMode s = Inr m
    \<and> checkCutoverDatabase (\<lambda>_. Delivered) (\<lambda>_. tables_of s 0 (r # rs)) m = Inr c
    \<and> cd_results c = map (\<lambda>k. (k, 0)) DATABASE_CATEGORIES \<and> cd_writerMode c = Some m \<and> cd_schemaRevision c = r"
proof -
  have "sound (empty_pg m0) \<and> sole_types (empty_pg m0)"
    by (cases m0) (simp_all add: empty_pg_def sound_def pg_inv_def pg_wf_def aggregates_match_def stock_conserved_def
        requests_unique_def purchases_linked_def listed_def sole_types_def mode_text_def)
  from shop_run [OF assms(1) this] have s: "sound s" "sole_types s" by (simp_all add: assms(2))
  then obtain m where m: "writer_control s = Some (mode_text m)"
    by (auto simp: sound_def pg_inv_def pg_wf_def mode_text_def)
      (metis InventoryWriterMode.simps(3,4))+
  let ?d = "tables_of s 0 (r # rs)"
  let ?c = "\<lparr>cd_results = map (\<lambda>k. (k, 0)) DATABASE_CATEGORIES, cd_writerMode = Some m, cd_schemaRevision = r\<rparr>"
  have "list_all (\<lambda>x. snd x = ''0'') (TICKET_TYPE_CUTOVER_DATABASE_SQL m ?d)"
    unfolding database_counts_zero by (rule sound_switchable [OF s m])
  from collect_zero [OF sql_categories distinct_database_categories this]
  have "checkCutoverDatabase (\<lambda>_. Delivered) (\<lambda>_. ?d) m = Inr ?c"
    using assms(3) m by (simp add: checkCutoverDatabase_Inr) (simp add: tables_of_def)
  moreover have "readInventoryWriterMode s = Inr m" using m by (cases m) (simp_all add: readInventoryWriterMode_def mode_text_def)
  ultimately show ?thesis by (intro exI [of _ m] exI [of _ ?c]) simp
qed

theorem shop_database_is_switchable_witness:
  "\<exists>c. checkCutoverDatabase (\<lambda>_. Delivered) (\<lambda>_. tables_of (fold shop_perform sample_history (empty_pg Legacy)) 0 [''rev1'']) TicketTypeMode = Inr c
    \<and> cd_results c = map (\<lambda>k. (k, 0)) DATABASE_CATEGORIES"
proof -
  have ok: "list_all shop_admissible sample_history"
    by (simp add: sample_history_def sample_listing_def idle sample_input_def)
  have "readInventoryWriterMode (fold shop_perform sample_history (empty_pg Legacy)) = Inr TicketTypeMode" by code_simp
  with shop_database_is_switchable [OF ok refl, of "''rev1''" Legacy "[]"] show ?thesis by auto
qed

text \<open>A database with one Event whose stock row lost its two Type rows.\<close>

definition sample_broken :: cutover_tables where
  "sample_broken = \<lparr>ct_events = [''e''], ct_types = [\<lparr>type_id = ''t'', type_event = ''e'', type_name = ''A'', is_default = True\<rparr>],
     ct_legacy = [\<lparr>ti_event = ''e'', ti_total = 5, ti_remaining = 5, ti_version = 0\<rparr>], ct_shadow = [], ct_purchases = [],
     ct_control = [(True, ''legacy'')], compat_violations = 0, migrations = [''rev1'']\<rparr>"

definition sample_check :: "CutoverDatabaseCheck result" where
  "sample_check = checkCutoverDatabase (\<lambda>_. Delivered) (\<lambda>_. sample_broken) Legacy"

theorem database_check_is_exact_witness:
  "(case sample_check of Inl e \<Rightarrow> False | Inr c \<Rightarrow> \<not> clean (cd_results c)) \<and> \<not> switchable Legacy sample_broken"
proof -
  obtain c where c: "checkCutoverDatabase (\<lambda>_. Delivered) (\<lambda>_. sample_broken) Legacy = Inr c"
  proof -
    have "\<forall>r \<in> set (TICKET_TYPE_CUTOVER_DATABASE_SQL Legacy sample_broken). safe_count (digits_value (snd r))"
      by (simp add: TICKET_TYPE_CUTOVER_DATABASE_SQL_def sample_broken_def safe_count_def count_rows_def default_types_def
          defaults_without_shadow_def has_shadow_def valid_mode_def mode_text_def)
    then obtain results where "collectCategoryCounts (TICKET_TYPE_CUTOVER_DATABASE_SQL Legacy sample_broken) DATABASE_CATEGORIES = Inr results"
      using sql_total by blast
    then have "checkCutoverDatabase (\<lambda>_. Delivered) (\<lambda>_. sample_broken) Legacy
        = Inr \<lparr>cd_results = results, cd_writerMode = Some Legacy, cd_schemaRevision = ''rev1''\<rparr>"
      unfolding checkCutoverDatabase_Inr by simp (simp add: sample_broken_def attested_mode_def)
    then show thesis by (rule that)
  qed
  moreover have "\<not> switchable Legacy sample_broken" by (simp add: switchable_def sample_broken_def)
  ultimately show ?thesis using database_check_is_exact [OF c] by (simp add: sample_check_def)
qed

end
