(* ===== verification/CutoverValkey.thy ===== *)
theory CutoverValkey
  imports CounterSeed CutoverDatabase
begin

text \<open>
  The Valkey half of the cutover checker, \<open>checkCutoverValkey\<close> of
  src/cutover/ticket-type-cutover-readiness.ts: the three passes over the Ticket Type rows, the scanned
  counter keys and the Event rows, with the rules of the expected mode and the phase. The checker only
  reads; a lost command ends it with an exception.
\<close>

section \<open>State\<close>

datatype CutoverCheckPhase = Preflight | Postflight

text \<open>
  What the run meets: the answer to its \<open>i\<close>-th GET, the key lists of the SCAN calls up to the one that
  returns cursor 0, and the queries that are lost. The rows come from the snapshot of the caller.
\<close>

record valkey_reader =
  rv_get :: "nat \<Rightarrow> string \<Rightarrow> string option result"
  rv_scan :: "string list result list"
  rv_type_page :: "nat \<Rightarrow> bool"
  rv_present :: "nat \<Rightarrow> bool"
  rv_event_page :: "nat \<Rightarrow> bool"

record cutover_run =
  counts :: "string \<Rightarrow> int"
  sent :: nat

definition bump :: "string \<Rightarrow> cutover_run \<Rightarrow> cutover_run" where
  "bump category st = st\<lparr>counts := (counts st)(category := counts st category + 1)\<rparr>"

definition bump_if :: "bool \<Rightarrow> string \<Rightarrow> cutover_run \<Rightarrow> cutover_run" where
  "bump_if b category st = (if b then bump category st else st)"

definition read_key :: "valkey_reader \<Rightarrow> string \<Rightarrow> cutover_run \<Rightarrow> string option result \<times> cutover_run" where
  "read_key env key st = (rv_get env (sent st) key, st\<lparr>sent := Suc (sent st)\<rparr>)"

section \<open>Values\<close>

definition is_safe_number :: "string \<Rightarrow> bool" where
  "is_safe_number raw = (NON_NEGATIVE_INTEGER raw \<and> safe_count (digits_value raw))"

definition counter_value_ok :: "string \<Rightarrow> int \<Rightarrow> bool" where
  "counter_value_ok raw limit =
     (is_safe_number raw \<and> int (digits_value raw) \<le> POSTGRES_INT4_MAX \<and> int (digits_value raw) \<le> limit)"

section \<open>Pass 1: the Ticket Type rows\<close>

definition check_type_row :: "valkey_reader \<Rightarrow> bool \<Rightarrow> (tti_row, cutover_run) handler" where
  "check_type_row env strict row st =
     (case read_key env (ticketTypeCounterKey (tti_event row) (tti_type row)) st of
        (Inl ex, st1) \<Rightarrow> (Inl ex, st1)
      | (Inr None, st1) \<Rightarrow> (Inr (), bump_if strict ''valkey_counter_missing'' st1)
      | (Inr (Some raw), st1) \<Rightarrow>
          (let st2 = (if \<not> counter_value_ok raw (tti_total row) then bump ''valkey_counter_value_invalid'' st1
                      else bump_if (strict \<and> int (digits_value raw) \<noteq> tti_remaining row) ''valkey_counter_remaining_mismatch'' st1)
           in if \<not> strict then (Inr (), st2)
              else (case read_key env (ticketTypeCounterRevisionKey (tti_event row) (tti_type row)) st2 of
                  (Inl ex, st3) \<Rightarrow> (Inl ex, st3)
                | (Inr revision, st3) \<Rightarrow>
                    (Inr (), bump_if (case revision of None \<Rightarrow> True | Some x \<Rightarrow> \<not> is_safe_number x)
                       ''valkey_revision_missing_or_invalid'' st3))))"

section \<open>Pass 2: the scanned keys\<close>

definition present_pairs :: "tti_row list \<Rightarrow> (string \<times> string) list \<Rightarrow> (string \<times> string) list" where
  "present_pairs rows candidates =
     concat (map (\<lambda>(e, t). map (\<lambda>r. (pg_uuid e, pg_uuid t))
       (filter (\<lambda>r. tti_event r = pg_uuid e \<and> tti_type r = pg_uuid t) rows)) candidates)"

definition pair_text :: "string \<times> string \<Rightarrow> string" where
  "pair_text p = fst p @ '':'' @ snd p"

fun check_keys :: "string list \<Rightarrow> cutover_run \<Rightarrow> (string \<times> string) list \<times> cutover_run" where
  "check_keys [] st = ([], st)"
| "check_keys (key # keys) st =
     (case parseTicketTypeCounterKey key of
        None \<Rightarrow> check_keys keys (bump ''valkey_counter_without_inventory_row'' st)
      | Some parts \<Rightarrow> (let (parsed, st') = check_keys keys st in (parts # parsed, st')))"

fun check_scan :: "valkey_reader \<Rightarrow> tti_row list \<Rightarrow> nat \<Rightarrow> string list result list \<Rightarrow> cutover_run \<Rightarrow> unit result \<times> cutover_run" where
  "check_scan env rows i [] st = (Inr (), st)"
| "check_scan env rows i (Inl ex # batches) st = (Inl ex, st)"
| "check_scan env rows i (Inr keys # batches) st =
     (let (parsed, st1) = check_keys keys st
      in if parsed = [] then check_scan env rows (Suc i) batches st1
         else if rv_present env i then (Inl connection_lost, st1)
         else (let present = map pair_text (present_pairs rows parsed)
               in check_scan env rows (Suc i) batches
                    (fold (\<lambda>p. bump_if (pair_text p \<notin> set present) ''valkey_counter_without_inventory_row'') parsed st1)))"

section \<open>Pass 3: the Event rows\<close>

definition check_event_row :: "valkey_reader \<Rightarrow> bool \<Rightarrow> bool \<Rightarrow> (ti_row, cutover_run) handler" where
  "check_event_row env strict becomingActive row st =
     (case read_key env (eventCounterVersionKey (ti_event row)) st of
        (Inl ex, st1) \<Rightarrow> (Inl ex, st1)
      | (Inr version, st1) \<Rightarrow>
          (let st2 = bump_if (case version of None \<Rightarrow> False | Some x \<Rightarrow> \<not> is_safe_number x) ''valkey_legacy_version_value_invalid'' st1
           in (case read_key env (eventCounterKey (ti_event row)) st2 of
                 (Inl ex, st3) \<Rightarrow> (Inl ex, st3)
               | (Inr None, st3) \<Rightarrow> (Inr (), bump_if becomingActive ''valkey_legacy_counter_missing'' st3)
               | (Inr (Some raw), st3) \<Rightarrow>
                   (Inr (), if \<not> counter_value_ok raw (ti_total row) then bump ''valkey_legacy_counter_value_invalid'' st3
                      else bump_if (strict \<and> int (digits_value raw) \<noteq> ti_remaining row) ''valkey_legacy_counter_remaining_mismatch'' st3))))"

section \<open>The check\<close>

definition type_cursor :: "tti_row \<Rightarrow> string \<times> string" where
  "type_cursor r = (tti_event r, tti_type r)"

definition checkCutoverValkey ::
    "valkey_reader \<Rightarrow> tti_row list \<Rightarrow> ti_row list \<Rightarrow> InventoryWriterMode \<Rightarrow> CutoverCheckPhase \<Rightarrow> int option
       \<Rightarrow> TicketTypeCutoverReadinessResult list result" where
  "checkCutoverValkey env typeRows eventRows expectedWriterMode checkPhase pageSize =
     (let n = boundedPageSize pageSize;
          strictTicketTypeNamespace = (\<not> (expectedWriterMode = Legacy \<and> checkPhase = Postflight));
          strictLegacyNamespace = (\<not> (expectedWriterMode = TicketTypeMode \<and> checkPhase = Postflight));
          legacyNamespaceBecomingActive = (expectedWriterMode = TicketTypeMode \<and> checkPhase = Preflight)
      in (case and_then (paged_loop type_cursor n (rv_type_page env) typeRows (check_type_row env strictTicketTypeNamespace) 0 None
                           \<lparr>counts = (\<lambda>_. 0), sent = 0\<rparr>) (\<lambda>st1.
               and_then (check_scan env typeRows 0 (rv_scan env) st1) (\<lambda>st2.
               paged_loop ti_event n (rv_event_page env) eventRows
                 (check_event_row env strictLegacyNamespace legacyNamespaceBecomingActive) 0 None st2)) of
            (Inl e, _) \<Rightarrow> Inl e
          | (Inr _, st) \<Rightarrow> Inr (map (\<lambda>category. (category, counts st category)) VALKEY_CATEGORIES)))"

section \<open>Canonical numbers\<close>

lemma char_zero: "char_of (48::nat) = CHR ''0''"
  by code_simp

lemma digits_value_pos: "list_all is_digit s \<Longrightarrow> s \<noteq> [] \<Longrightarrow> hd s \<noteq> CHR ''0'' \<Longrightarrow> 0 < digits_value s"
proof (induction s rule: rev_induct)
  case (snoc c s)
  show ?case
  proof (cases "s = []")
    case True
    have "char_of (of_char c :: nat) = c" by simp
    then have "of_char c \<noteq> (48::nat)" using snoc.prems(3) True char_zero by fastforce
    with True snoc.prems(1) show ?thesis by (simp add: is_digit_def Let_def digits_value_def)
  qed (use snoc in simp)
qed simp

lemma decimal_digits_value: "NON_NEGATIVE_INTEGER s \<Longrightarrow> decimal (digits_value s) = s"
proof -
  have digit: "char_of (48 + (of_char c - 48 :: nat)) = c \<and> of_char c - 48 < (10::nat)" if "is_digit c" for c
    using that by (simp add: is_digit_def Let_def) linarith
  have "decimal (digits_value s) = s" if "list_all is_digit s" "s \<noteq> []" "hd s \<noteq> CHR ''0''"
    using that
  proof (induction s rule: rev_induct)
    case (snoc c s)
    have c: "is_digit c" using snoc.prems(1) by simp
    show ?case
    proof (cases "s = []")
      case True
      with digit [OF c] show ?thesis by (subst decimal.simps) (simp add: digits_value_def)
    next
      case False
      with snoc have ih: "decimal (digits_value s) = s" and pos: "0 < digits_value s" by (simp_all add: digits_value_pos)
      have "(10 * digits_value s + (of_char c - 48)) div 10 = digits_value s"
        "(10 * digits_value s + (of_char c - 48)) mod 10 = of_char c - 48" using digit [OF c] by simp_all
      with ih pos digit [OF c] show ?thesis by (subst decimal.simps) simp
    qed
  qed simp
  moreover assume "NON_NEGATIVE_INTEGER s"
  ultimately show ?thesis by (auto simp: NON_NEGATIVE_INTEGER_def)
qed

section \<open>What a clean check means\<close>

definition counts_le :: "cutover_run \<Rightarrow> cutover_run \<Rightarrow> bool" where
  "counts_le st st' \<longleftrightarrow> (\<forall>c. counts st c \<le> counts st' c)"

lemma counts_leD: "counts_le st st' \<Longrightarrow> counts st c \<le> counts st' c"
  by (simp add: counts_le_def)

lemma counts_le_refl [simp]: "counts_le st st"
  by (simp add: counts_le_def)

lemma counts_le_trans: "counts_le st st1 \<Longrightarrow> counts_le st1 st2 \<Longrightarrow> counts_le st st2"
  by (meson counts_le_def order_trans)

lemma bump_counts [simp]:
  "counts (bump k st) c = counts st c + (if c = k then 1 else 0)"
  "counts (bump_if b k st) c = counts st c + (if b \<and> c = k then 1 else 0)"
  "sent (bump k st) = sent st" "sent (bump_if b k st) = sent st"
  by (simp_all add: bump_def bump_if_def)

lemma each_row_member:
  assumes "each_row f rows st = (Inr u, st')" "r \<in> set rows"
    and "\<And>r st u st'. f r st = (Inr u, st') \<Longrightarrow> counts_le st st'"
  shows "\<exists>st1 st2 u1. f r st1 = (Inr u1, st2) \<and> counts_le st st1 \<and> counts_le st2 st'"
    and "counts_le st st'"
proof -
  have le: "counts_le st st'" if "each_row f rows st = (Inr u, st')" for rows st
    using that
  proof (induction rows arbitrary: st)
    case (Cons x rows)
    then obtain u1 st1 where "f x st = (Inr u1, st1)" "each_row f rows st1 = (Inr u, st')" by (auto split: prod.splits sum.splits)
    with Cons.IH [of st1] assms(3) show ?case by (blast intro: counts_le_trans)
  qed simp
  then show "counts_le st st'" using assms(1) by blast
  show "\<exists>st1 st2 u1. f r st1 = (Inr u1, st2) \<and> counts_le st st1 \<and> counts_le st2 st'"
    using assms(1,2)
  proof (induction rows arbitrary: st)
    case (Cons x rows)
    from Cons.prems(1) obtain u1 st1 where s: "f x st = (Inr u1, st1)" "each_row f rows st1 = (Inr u, st')"
      by (auto split: prod.splits sum.splits)
    show ?case
    proof (cases "r = x")
      case True
      with s le [OF s(2)] show ?thesis by (intro exI [of _ st] exI [of _ st1] exI [of _ u1]) simp
    next
      case False
      with Cons.prems(2) have "r \<in> set rows" by simp
      from Cons.IH [OF s(2) this] assms(3) [OF s(1)] show ?thesis by (blast intro: counts_le_trans)
    qed
  qed simp
qed

lemma read_key_counts [simp]: "counts (snd (read_key env k st)) = counts st"
  by (simp add: read_key_def)

lemma check_type_row_le: "check_type_row env strict r st = (Inr u, st') \<Longrightarrow> counts_le st st'"
  by (auto simp: check_type_row_def read_key_def counts_le_def Let_def split: prod.splits sum.splits option.splits if_splits)

lemma check_event_row_le: "check_event_row env strict act r st = (Inr u, st') \<Longrightarrow> counts_le st st'"
  by (auto simp: check_event_row_def read_key_def counts_le_def Let_def split: prod.splits sum.splits option.splits if_splits)

lemma check_type_row_clean:
  assumes "check_type_row env True r st = (Inr u, st')" "\<forall>c \<in> set VALKEY_CATEGORIES. counts st' c \<le> counts st c"
  shows "\<exists>i raw j x. rv_get env i (ticketTypeCounterKey (tti_event r) (tti_type r)) = Inr (Some raw)
    \<and> raw = decimal (nat (tti_remaining r))
    \<and> rv_get env j (ticketTypeCounterRevisionKey (tti_event r) (tti_type r)) = Inr (Some x) \<and> is_safe_number x"
proof -
  have c: "counts st' ''valkey_counter_missing'' \<le> counts st ''valkey_counter_missing''"
    "counts st' ''valkey_counter_value_invalid'' \<le> counts st ''valkey_counter_value_invalid''"
    "counts st' ''valkey_counter_remaining_mismatch'' \<le> counts st ''valkey_counter_remaining_mismatch''"
    "counts st' ''valkey_revision_missing_or_invalid'' \<le> counts st ''valkey_revision_missing_or_invalid''"
    using assms(2) by (simp_all add: VALKEY_CATEGORIES_def)
  obtain raw where raw: "rv_get env (sent st) (ticketTypeCounterKey (tti_event r) (tti_type r)) = Inr (Some raw)"
    using assms(1) c(1) by (auto simp: check_type_row_def read_key_def split: sum.splits option.splits)
  from assms(1) raw c(2,3,4) obtain x where ok: "counter_value_ok raw (tti_total r)" "int (digits_value raw) = tti_remaining r"
    and x: "rv_get env (Suc (sent st)) (ticketTypeCounterRevisionKey (tti_event r) (tti_type r)) = Inr (Some x)" "is_safe_number x"
    by (auto simp: check_type_row_def read_key_def Let_def split: sum.splits option.splits if_splits)
  from ok(1) decimal_digits_value [of raw] have "raw = decimal (digits_value raw)"
    by (simp add: counter_value_ok_def is_safe_number_def)
  with ok(2) raw x show ?thesis by (metis nat_int)
qed

lemma check_event_row_clean:
  assumes "check_event_row env True act r st = (Inr u, st')" "\<forall>c \<in> set VALKEY_CATEGORIES. counts st' c \<le> counts st c"
  shows "\<exists>i. (\<not> act \<and> rv_get env i (eventCounterKey (ti_event r)) = Inr None)
    \<or> rv_get env i (eventCounterKey (ti_event r)) = Inr (Some (decimal (nat (ti_remaining r))))"
proof -
  have c: "counts st' ''valkey_legacy_counter_missing'' \<le> counts st ''valkey_legacy_counter_missing''"
    "counts st' ''valkey_legacy_counter_value_invalid'' \<le> counts st ''valkey_legacy_counter_value_invalid''"
    "counts st' ''valkey_legacy_counter_remaining_mismatch'' \<le> counts st ''valkey_legacy_counter_remaining_mismatch''"
    using assms(2) by (simp_all add: VALKEY_CATEGORIES_def)
  obtain a where a: "rv_get env (Suc (sent st)) (eventCounterKey (ti_event r)) = Inr a"
    and none: "a = None \<Longrightarrow> \<not> act"
    and some: "\<And>raw. a = Some raw \<Longrightarrow> counter_value_ok raw (ti_total r) \<and> int (digits_value raw) = ti_remaining r"
    using assms(1) c by (auto simp: check_event_row_def read_key_def Let_def split: sum.splits option.splits if_splits)
  show ?thesis
  proof (cases a)
    case (Some raw)
    with some decimal_digits_value [of raw] have "raw = decimal (nat (ti_remaining r))"
      by (metis counter_value_ok_def is_safe_number_def nat_int)
    with Some a show ?thesis by blast
  qed (use a none in blast)
qed

lemma fold_bump_le: "counts_le st (fold (\<lambda>p. bump_if (b p) k) ps st)"
proof (induction ps arbitrary: st)
  case (Cons p ps)
  have "counts_le st (bump_if (b p) k st)" by (simp add: counts_le_def)
  with Cons [of "bump_if (b p) k st"] show ?case by (auto intro: counts_le_trans)
qed simp

lemma fold_bump_clean:
  "counts (fold (\<lambda>p. bump_if (b p) k) ps st) k \<le> counts st k \<Longrightarrow> \<forall>p \<in> set ps. \<not> b p"
proof (induction ps arbitrary: st)
  case (Cons p ps)
  have "counts (bump_if (b p) k st) k \<le> counts (fold (\<lambda>p. bump_if (b p) k) ps (bump_if (b p) k st)) k"
    by (rule counts_leD [OF fold_bump_le])
  with Cons.prems have le: "counts (fold (\<lambda>p. bump_if (b p) k) ps (bump_if (b p) k st)) k \<le> counts (bump_if (b p) k st) k"
    and "\<not> b p" by (auto split: if_splits)
  with Cons.IH [OF le] show ?case by simp
qed simp

lemma check_keys_le: "check_keys keys st = (parsed, st') \<Longrightarrow> counts_le st st'"
proof (induction keys arbitrary: st parsed)
  case (Cons key keys)
  then show ?case
  proof (cases "parseTicketTypeCounterKey key")
    case None
    have "counts_le st (bump ''valkey_counter_without_inventory_row'' st)" by (simp add: counts_le_def)
    with None Cons show ?thesis by (auto intro: counts_le_trans)
  qed (auto split: prod.splits)
qed simp

lemma check_keys_clean:
  "check_keys keys st = (parsed, st')
    \<Longrightarrow> counts st' ''valkey_counter_without_inventory_row'' \<le> counts st ''valkey_counter_without_inventory_row''
    \<Longrightarrow> \<forall>key \<in> set keys. \<exists>p. parseTicketTypeCounterKey key = Some p \<and> p \<in> set parsed"
proof (induction keys arbitrary: st parsed)
  case (Cons key keys)
  show ?case
  proof (cases "parseTicketTypeCounterKey key")
    case None
    with Cons.prems check_keys_le [of keys "bump ''valkey_counter_without_inventory_row'' st" parsed st']
    have False by (auto simp: counts_le_def dest: spec [of _ "''valkey_counter_without_inventory_row''"])
    then show ?thesis ..
  next
    case (Some p)
    with Cons.prems(1) obtain ps where "check_keys keys st = (ps, st')" "parsed = p # ps" by (auto split: prod.splits)
    with Cons.IH [OF this(1) Cons.prems(2)] Some show ?thesis by (cases p) auto
  qed
qed simp

lemma present_pair_row:
  assumes "parseTicketTypeCounterKey key = Some (e, t)" "pair_text (e, t) \<in> set (map pair_text (present_pairs rows parsed))"
    and "\<forall>p \<in> set parsed. is_uuid (fst p) \<and> is_uuid (snd p)"
  shows "\<exists>r \<in> set rows. key = ticketTypeCounterKey (tti_event r) (tti_type r)"
proof -
  from assms(2) obtain e2 t2 r where r: "(e2, t2) \<in> set parsed" "r \<in> set rows" "tti_event r = pg_uuid e2" "tti_type r = pg_uuid t2"
    and same: "pair_text (e, t) = pair_text (pg_uuid e2, pg_uuid t2)"
    by (auto simp: present_pairs_def)
  have "length e = 36" "length (pg_uuid e2) = 36"
    using assms(1,3) r(1) length_uuid by (auto simp: parse_counter_key_iff pg_uuid_def)
  with same have "e = pg_uuid e2" "t = pg_uuid t2" by (simp_all add: pair_text_def)
  with r assms(1) show ?thesis unfolding parse_counter_key_iff by (intro bexI [of _ r]) simp_all
qed

lemma check_keys_uuid: "check_keys keys st = (parsed, st') \<Longrightarrow> \<forall>p \<in> set parsed. is_uuid (fst p) \<and> is_uuid (snd p)"
proof (induction keys arbitrary: st parsed)
  case (Cons key keys)
  show ?case
  proof (cases "parseTicketTypeCounterKey key")
    case None
    with Cons show ?thesis by auto
  next
    case (Some p)
    with Cons.prems obtain ps where "check_keys keys st = (ps, st')" "parsed = p # ps" by (auto split: prod.splits)
    with Cons.IH [OF this(1)] Some show ?thesis by (cases p) (simp add: parse_counter_key_iff)
  qed
qed simp

lemma check_scan_clean:
  "check_scan env rows i batches st = (Inr u, st') \<Longrightarrow> counts_le st st'
    \<and> (counts st' ''valkey_counter_without_inventory_row'' \<le> counts st ''valkey_counter_without_inventory_row'' \<longrightarrow>
        (\<forall>batch \<in> set batches. \<exists>keys. batch = Inr keys
          \<and> (\<forall>key \<in> set keys. \<exists>r \<in> set rows. key = ticketTypeCounterKey (tti_event r) (tti_type r))))"
proof (induction env rows i batches st rule: check_scan.induct)
  case (3 env rows i keys batches st)
  let ?k = "''valkey_counter_without_inventory_row''"
  obtain parsed st1 where p: "check_keys keys st = (parsed, st1)" by fastforce
  let ?b = "\<lambda>p. pair_text p \<notin> set (map pair_text (present_pairs rows parsed))"
  define st2 where "st2 = (if parsed = [] then st1 else fold (\<lambda>p. bump_if (?b p) ?k) parsed st1)"
  have rest: "check_scan env rows (Suc i) batches st2 = (Inr u, st')"
    using "3.prems" p by (auto simp: st2_def Let_def split: if_splits)
  have ih: "counts_le st2 st' \<and> (counts st' ?k \<le> counts st2 ?k \<longrightarrow> (\<forall>batch \<in> set batches. \<exists>keys. batch = Inr keys
        \<and> (\<forall>key \<in> set keys. \<exists>r \<in> set rows. key = ticketTypeCounterKey (tti_event r) (tti_type r))))"
  proof (cases "parsed = []")
    case True
    with "3.IH"(1) [OF p [symmetric] refl] rest show ?thesis by (simp add: st2_def)
  next
    case False
    with "3.prems" p have "\<not> rv_present env i" by (auto split: if_splits)
    with "3.IH"(2) [OF p [symmetric] refl False this refl] rest False show ?thesis by (simp add: st2_def)
  qed
  have le: "counts_le st st1" "counts_le st1 st2"
    using check_keys_le [OF p] fold_bump_le [of st1 ?b ?k parsed] unfolding st2_def by simp_all
  have m: "counts st ?k \<le> counts st1 ?k" "counts st1 ?k \<le> counts st2 ?k" "counts st2 ?k \<le> counts st' ?k"
    using le ih by (simp_all only: counts_leD)
  from le ih have "counts_le st st'" by (blast intro: counts_le_trans)
  moreover have "\<exists>r \<in> set rows. key = ticketTypeCounterKey (tti_event r) (tti_type r)"
    if c: "counts st' ?k \<le> counts st ?k" and key: "key \<in> set keys" for key
  proof -
    have "counts st1 ?k \<le> counts st ?k" "counts st2 ?k \<le> counts st1 ?k"
      using c m by simp_all
    from check_keys_clean [OF p this(1)] key obtain e t where
      et: "parseTicketTypeCounterKey key = Some (e, t)" "(e, t) \<in> set parsed" by (metis surj_pair)
    with \<open>counts st2 ?k \<le> counts st1 ?k\<close> fold_bump_clean [of ?b ?k parsed st1] have "\<not> ?b (e, t)"
      by (auto simp: st2_def split: if_splits)
    then show ?thesis using present_pair_row [OF et(1) _ check_keys_uuid [OF p]] by blast
  qed
  moreover have "counts st' ?k \<le> counts st ?k \<Longrightarrow> counts st' ?k \<le> counts st2 ?k"
    using m by simp
  ultimately show ?case using ih by simp
qed simp_all

text \<open>The three passes of a check that ends well.\<close>

lemma checkCutoverValkey_Inr:
  assumes "checkCutoverValkey env typeRows eventRows m phase n = Inr results"
    and "distinct (map type_cursor typeRows)" "distinct (map ti_event eventRows)"
  obtains st1 st2 st3 where
    "each_row (check_type_row env (\<not> (m = Legacy \<and> phase = Postflight))) (sort_key type_cursor typeRows)
       \<lparr>counts = (\<lambda>_. 0), sent = 0\<rparr> = (Inr (), st1)"
    "check_scan env typeRows 0 (rv_scan env) st1 = (Inr (), st2)"
    "each_row (check_event_row env (\<not> (m = TicketTypeMode \<and> phase = Postflight)) (m = TicketTypeMode \<and> phase = Preflight))
       (sort_key ti_event eventRows) st2 = (Inr (), st3)"
    "results = map (\<lambda>c. (c, counts st3 c)) VALKEY_CATEGORIES"
proof -
  from assms(1) obtain st1 st2 st3 where p:
    "paged_loop type_cursor (boundedPageSize n) (rv_type_page env) typeRows
       (check_type_row env (\<not> (m = Legacy \<and> phase = Postflight))) 0 None \<lparr>counts = (\<lambda>_. 0), sent = 0\<rparr> = (Inr (), st1)"
    "check_scan env typeRows 0 (rv_scan env) st1 = (Inr (), st2)"
    "paged_loop ti_event (boundedPageSize n) (rv_event_page env) eventRows
       (check_event_row env (\<not> (m = TicketTypeMode \<and> phase = Postflight)) (m = TicketTypeMode \<and> phase = Preflight)) 0 None st2 = (Inr (), st3)"
    "results = map (\<lambda>c. (c, counts st3 c)) VALKEY_CATEGORIES"
    by (auto simp: checkCutoverValkey_def Let_def and_then_def split: prod.splits sum.splits)
  from that [OF paged_loop_each_row [OF assms(2) p(1)] p(2) paged_loop_each_row [OF assms(3) p(3)] p(4)] show thesis .
qed

text \<open>A clean preflight means a safe pre-filter: when the check before a switch reports no violation, every
  Ticket Type row had its counter in Valkey at exactly its remaining quantity, with a revision a
  compare-and-set can use; every Event row had its counter at exactly its remaining quantity, or none
  at all, which only the check for the legacy mode lets pass; and every counter key that the scan saw
  belongs to a row. (The phases and orders of the reads are those of the run.)\<close>

theorem clean_preflight_means_current_counters:
  assumes "checkCutoverValkey env typeRows eventRows m Preflight n = Inr results" "clean results"
    and "distinct (map type_cursor typeRows)" "distinct (map ti_event eventRows)"
  shows "(\<forall>r \<in> set typeRows. \<exists>i j x.
      rv_get env i (ticketTypeCounterKey (tti_event r) (tti_type r)) = Inr (Some (decimal (nat (tti_remaining r))))
    \<and> rv_get env j (ticketTypeCounterRevisionKey (tti_event r) (tti_type r)) = Inr (Some x) \<and> is_safe_number x)
  \<and> (\<forall>r \<in> set eventRows. \<exists>i. rv_get env i (eventCounterKey (ti_event r)) = Inr (Some (decimal (nat (ti_remaining r))))
      \<or> (m = Legacy \<and> rv_get env i (eventCounterKey (ti_event r)) = Inr None))
  \<and> (\<forall>batch \<in> set (rv_scan env). \<exists>keys. batch = Inr keys
      \<and> (\<forall>key \<in> set keys. \<exists>r \<in> set typeRows. key = ticketTypeCounterKey (tti_event r) (tti_type r)))"
proof -
  let ?st0 = "\<lparr>counts = (\<lambda>_. 0), sent = 0\<rparr> :: cutover_run"
  from checkCutoverValkey_Inr [OF assms(1,3,4)] obtain st1 st2 st3 where
    p1: "each_row (check_type_row env True) (sort_key type_cursor typeRows) ?st0 = (Inr (), st1)"
    and p2: "check_scan env typeRows 0 (rv_scan env) st1 = (Inr (), st2)"
    and p3: "each_row (check_event_row env True (m = TicketTypeMode)) (sort_key ti_event eventRows) st2 = (Inr (), st3)"
    and res: "results = map (\<lambda>c. (c, counts st3 c)) VALKEY_CATEGORIES" by auto
  have end0: "counts st3 c = 0" if "c \<in> set VALKEY_CATEGORIES" for c
    using assms(2) that by (auto simp: res clean_def)
  note rows = each_row_member(1) [OF _ _ check_type_row_le] and erows = each_row_member(1) [OF _ _ check_event_row_le]
  have le1: "counts_le ?st0 st1" by (cases "typeRows = []") (use p1 each_row_member(2) [OF p1 _ check_type_row_le] in \<open>auto dest: hd_in_set\<close>)
  have le2: "counts_le st1 st2" using check_scan_clean [OF p2] by blast
  have le3: "counts_le st2 st3" by (cases "eventRows = []") (use p3 each_row_member(2) [OF p3 _ check_event_row_le] in \<open>auto dest: hd_in_set\<close>)
  have tight: "counts b c \<le> counts a c" if "counts_le ?st0 a" "counts_le b st3" "c \<in> set VALKEY_CATEGORIES" for a b c
    using counts_leD [OF that(1), of c] counts_leD [OF that(2), of c] end0 [OF that(3)] by simp
  show ?thesis
  proof (intro conjI ballI)
    fix r assume "r \<in> set typeRows"
    then obtain a b u where s: "check_type_row env True r a = (Inr u, b)" "counts_le ?st0 a" "counts_le b st1"
      using rows [OF p1] by force
    have "counts_le b st3" using s(3) le2 le3 by (blast intro: counts_le_trans)
    from check_type_row_clean [OF s(1)] tight [OF s(2) this] show "\<exists>i j x.
        rv_get env i (ticketTypeCounterKey (tti_event r) (tti_type r)) = Inr (Some (decimal (nat (tti_remaining r))))
      \<and> rv_get env j (ticketTypeCounterRevisionKey (tti_event r) (tti_type r)) = Inr (Some x) \<and> is_safe_number x" by blast
  next
    fix r assume "r \<in> set eventRows"
    then obtain a b u where s: "check_event_row env True (m = TicketTypeMode) r a = (Inr u, b)" "counts_le st2 a" "counts_le b st3"
      using erows [OF p3] by force
    have "counts_le ?st0 a" using s(2) le1 le2 by (blast intro: counts_le_trans)
    from check_event_row_clean [OF s(1)] tight [OF this s(3)]
    show "\<exists>i. rv_get env i (eventCounterKey (ti_event r)) = Inr (Some (decimal (nat (ti_remaining r))))
      \<or> (m = Legacy \<and> rv_get env i (eventCounterKey (ti_event r)) = Inr None)"
      by (metis InventoryWriterMode.exhaust)
  next
    fix batch assume "batch \<in> set (rv_scan env)"
    moreover have "counts st2 ''valkey_counter_without_inventory_row'' \<le> counts st1 ''valkey_counter_without_inventory_row''"
      by (rule tight [OF le1 le3]) (simp add: VALKEY_CATEGORIES_def)
    ultimately show "\<exists>keys. batch = Inr keys
      \<and> (\<forall>key \<in> set keys. \<exists>r \<in> set typeRows. key = ticketTypeCounterKey (tti_event r) (tti_type r))"
      using check_scan_clean [OF p2] by blast
  qed
qed

section \<open>When the check passes\<close>

text \<open>The text of an integer value, and a reader that serves one unchanging key space without a failure.\<close>

definition int_text :: "int \<Rightarrow> string" where
  "int_text i = (if i < 0 then CHR ''-'' # decimal (nat (- i)) else decimal (nat i))"

definition serves :: "valkey_reader \<Rightarrow> valkey \<Rightarrow> bool" where
  "serves env v \<longleftrightarrow> (\<forall>i k. rv_get env i k = Inr (map_option int_text (vk_get k v)))
     \<and> (\<forall>i. \<not> rv_type_page env i \<and> \<not> rv_present env i \<and> \<not> rv_event_page env i) \<and> list_all is_ok (rv_scan env)"

definition usable_revision :: "int \<Rightarrow> bool" where
  "usable_revision x = (0 \<le> x \<and> x \<le> 9007199254740991)"

definition type_counter_current :: "valkey \<Rightarrow> tti_row \<Rightarrow> bool" where
  "type_counter_current v r \<longleftrightarrow>
     vk_get (ticketTypeCounterKey (tti_event r) (tti_type r)) v = Some (tti_remaining r)
   \<and> (case vk_get (ticketTypeCounterRevisionKey (tti_event r) (tti_type r)) v of None \<Rightarrow> False | Some x \<Rightarrow> usable_revision x)
   \<and> 0 \<le> tti_remaining r \<and> tti_remaining r \<le> tti_total r \<and> tti_total r \<le> POSTGRES_INT4_MAX"

definition event_counter_current :: "bool \<Rightarrow> valkey \<Rightarrow> ti_row \<Rightarrow> bool" where
  "event_counter_current required v r \<longleftrightarrow>
     (case vk_get (eventCounterKey (ti_event r)) v of None \<Rightarrow> \<not> required | Some q \<Rightarrow> q = ti_remaining r)
   \<and> (case vk_get (eventCounterVersionKey (ti_event r)) v of None \<Rightarrow> True | Some x \<Rightarrow> usable_revision x)
   \<and> 0 \<le> ti_remaining r \<and> ti_remaining r \<le> ti_total r \<and> ti_total r \<le> POSTGRES_INT4_MAX"

definition scan_known :: "tti_row list \<Rightarrow> string list result \<Rightarrow> bool" where
  "scan_known rows batch = (case batch of Inl e \<Rightarrow> True
     | Inr keys \<Rightarrow> list_all (\<lambda>key. list_ex (\<lambda>r. key = ticketTypeCounterKey (tti_event r) (tti_type r)) rows) keys)"

definition uuid_row :: "tti_row \<Rightarrow> bool" where
  "uuid_row r = (is_uuid (tti_event r) \<and> is_uuid (tti_type r)
     \<and> pg_uuid (tti_event r) = tti_event r \<and> pg_uuid (tti_type r) = tti_type r)"

lemma int_text_number:
  "usable_revision i \<Longrightarrow> is_safe_number (int_text i) \<and> int (digits_value (int_text i)) = i"
  by (simp add: usable_revision_def int_text_def is_safe_number_def safe_count_def nat_le_iff)

lemma int_text_quantity:
  "0 \<le> q \<Longrightarrow> q \<le> limit \<Longrightarrow> limit \<le> POSTGRES_INT4_MAX \<Longrightarrow> counter_value_ok (int_text q) limit \<and> int (digits_value (int_text q)) = q"
  using int_text_number [of q] by (simp add: counter_value_ok_def usable_revision_def POSTGRES_INT4_MAX_def)

lemma bump_if_False [simp]: "bump_if False k st = st"
  by (simp add: bump_if_def)

lemma check_type_row_passes:
  assumes "serves env v" "type_counter_current v r"
  shows "\<exists>n. check_type_row env strict r st = (Inr (), st\<lparr>sent := n\<rparr>)"
proof -
  note cur = assms(2) [unfolded type_counter_current_def]
  have "counter_value_ok (int_text (tti_remaining r)) (tti_total r) \<and> int (digits_value (int_text (tti_remaining r))) = tti_remaining r"
    by (rule int_text_quantity) (use cur in simp_all)
  moreover obtain x where "vk_get (ticketTypeCounterRevisionKey (tti_event r) (tti_type r)) v = Some x" "is_safe_number (int_text x)"
    using cur int_text_number by (auto split: option.splits)
  ultimately show ?thesis using assms(1) cur by (auto simp: check_type_row_def read_key_def serves_def)
qed

lemma check_event_row_passes:
  assumes "serves env v" "event_counter_current act v r"
  shows "\<exists>n. check_event_row env strict act r st = (Inr (), st\<lparr>sent := n\<rparr>)"
proof -
  note cur = assms(2) [unfolded event_counter_current_def]
  have "counter_value_ok (int_text (ti_remaining r)) (ti_total r) \<and> int (digits_value (int_text (ti_remaining r))) = ti_remaining r"
    by (rule int_text_quantity) (use cur in simp_all)
  then show ?thesis using assms(1) cur int_text_number
    by (auto simp: check_event_row_def read_key_def serves_def split: option.splits)
qed

lemma each_row_passes:
  assumes "\<And>r st. r \<in> set rows \<Longrightarrow> \<exists>n. f r st = (Inr (), st\<lparr>sent := n\<rparr>)"
  shows "\<exists>n. each_row f rows st = (Inr (), (st :: cutover_run)\<lparr>sent := n\<rparr>)"
  using assms
proof (induction rows arbitrary: st)
  case Nil
  then show ?case by (intro exI [of _ "sent st"]) simp
next
  case (Cons r rows)
  from Cons.prems obtain n where "f r st = (Inr (), st\<lparr>sent := n\<rparr>)" by fastforce
  with Cons.IH [of "st\<lparr>sent := n\<rparr>"] Cons.prems show ?case by simp
qed

lemma check_keys_known:
  "list_all (\<lambda>key. list_ex (\<lambda>r. key = ticketTypeCounterKey (tti_event r) (tti_type r)) rows) keys \<Longrightarrow> list_all uuid_row rows
     \<Longrightarrow> \<exists>parsed. check_keys keys st = (parsed, st) \<and> set parsed \<subseteq> (\<lambda>r. (tti_event r, tti_type r)) ` set rows"
proof (induction keys)
  case (Cons key keys)
  then obtain r where r: "r \<in> set rows" "key = ticketTypeCounterKey (tti_event r) (tti_type r)" by (auto simp: list_ex_iff)
  with Cons.prems(2) have "parseTicketTypeCounterKey key = Some (tti_event r, tti_type r)"
    by (simp add: parse_counter_key_iff list_all_iff uuid_row_def)
  moreover from Cons obtain parsed where "check_keys keys st = (parsed, st)" "set parsed \<subseteq> (\<lambda>r. (tti_event r, tti_type r)) ` set rows"
    by auto
  ultimately show ?case using r(1) by simp
qed simp

lemma present_of_rows:
  assumes "p \<in> set parsed" "set parsed \<subseteq> (\<lambda>r. (tti_event r, tti_type r)) ` set rows" "list_all uuid_row rows"
  shows "pair_text p \<in> set (map pair_text (present_pairs rows parsed))"
proof -
  from assms obtain r where r: "r \<in> set rows" "p = (tti_event r, tti_type r)" "uuid_row r" by (auto simp: list_all_iff)
  with assms(1) have "p \<in> set (present_pairs rows parsed)"
    by (force simp: present_pairs_def uuid_row_def)
  then show ?thesis by simp
qed

lemma check_scan_passes:
  "list_all is_ok batches \<Longrightarrow> list_all (scan_known rows) batches \<Longrightarrow> list_all uuid_row rows \<Longrightarrow> \<forall>i. \<not> rv_present env i
     \<Longrightarrow> check_scan env rows i batches st = (Inr (), st)"
proof (induction env rows i batches st rule: check_scan.induct)
  case (3 env rows i keys batches st)
  from "3.prems" check_keys_known [of rows keys st] obtain parsed where
    p: "check_keys keys st = (parsed, st)" "set parsed \<subseteq> (\<lambda>r. (tti_event r, tti_type r)) ` set rows"
    by (auto simp: scan_known_def)
  have "fold (\<lambda>p. bump_if (pair_text p \<notin> set (map pair_text (present_pairs rows parsed))) k) parsed st = st" for k
    using present_of_rows [OF _ p(2) "3.prems"(3)]
    by (subst fold_cong [OF refl refl, of _ _ "\<lambda>_ x. x"]) (auto simp: fold_id id_def)
  with "3.IH" "3.prems" p(1) show ?case by (auto simp: Let_def)
qed simp_all

lemma current_counters_pass:
  assumes "serves env v" "list_all (type_counter_current v) typeRows" "list_all uuid_row typeRows"
    and "list_all (scan_known typeRows) (rv_scan env)"
    and "list_all (event_counter_current (m = TicketTypeMode) v) eventRows"
    and "distinct (map type_cursor typeRows)" "distinct (map ti_event eventRows)"
  shows "checkCutoverValkey env typeRows eventRows m Preflight n = Inr (map (\<lambda>c. (c, 0)) VALKEY_CATEGORIES)"
proof -
  let ?st0 = "\<lparr>counts = (\<lambda>_. 0), sent = 0\<rparr> :: cutover_run"
  have fails: "\<forall>i. \<not> rv_type_page env i" "\<forall>i. \<not> rv_event_page env i" "\<forall>i. \<not> rv_present env i"
    using assms(1) by (simp_all add: serves_def)
  obtain a where a: "each_row (check_type_row env True) (sort_key type_cursor typeRows) ?st0 = (Inr (), ?st0\<lparr>sent := a\<rparr>)"
    using each_row_passes [of "sort_key type_cursor typeRows" "check_type_row env True" ?st0]
      check_type_row_passes [OF assms(1)] assms(2) by (auto simp: list_all_iff)
  have b: "check_scan env typeRows 0 (rv_scan env) (?st0\<lparr>sent := a\<rparr>) = (Inr (), ?st0\<lparr>sent := a\<rparr>)"
    using assms(1) by (intro check_scan_passes [OF _ assms(4,3) fails(3)]) (simp add: serves_def)
  obtain c where c: "each_row (check_event_row env True (m = TicketTypeMode)) (sort_key ti_event eventRows) (?st0\<lparr>sent := a\<rparr>)
      = (Inr (), ?st0\<lparr>sent := c\<rparr>)"
    using each_row_passes [of "sort_key ti_event eventRows" "check_event_row env True (m = TicketTypeMode)" "?st0\<lparr>sent := a\<rparr>"]
      check_event_row_passes [OF assms(1)] assms(5) by (auto simp: list_all_iff)
  show ?thesis
    using a b c paged_loop_beyond [OF assms(6) boundedPageSize_pos fails(1), of n "check_type_row env True" 0 None ?st0]
      paged_loop_beyond [OF assms(7) boundedPageSize_pos fails(2), of n "check_event_row env True (m = TicketTypeMode)" 0 None "?st0\<lparr>sent := a\<rparr>"]
    by (simp add: checkCutoverValkey_def Let_def and_then_def beyond_def)
qed

text \<open>The two rows of the sample stock and an Event row without a counter, before a switch from legacy mode.\<close>

definition sample_current :: valkey where
  "sample_current = empty_keys\<lparr>data := map_of
     [(ticketTypeCounterKey uuid_a uuid_c, 3), (ticketTypeCounterRevisionKey uuid_a uuid_c, 0),
      (ticketTypeCounterKey uuid_a uuid_b, 5), (ticketTypeCounterRevisionKey uuid_a uuid_b, 1)]\<rparr>"

definition sample_reader :: valkey_reader where
  "sample_reader = \<lparr>rv_get = (\<lambda>i k. Inr (map_option int_text (vk_get k sample_current))),
     rv_scan = [Inr [ticketTypeCounterKey uuid_a uuid_b], Inr [ticketTypeCounterKey uuid_a uuid_c]],
     rv_type_page = (\<lambda>_. False), rv_present = (\<lambda>_. False), rv_event_page = (\<lambda>_. False)\<rparr>"

definition sample_event_rows :: "ti_row list" where
  "sample_event_rows = [\<lparr>ti_event = uuid_a, ti_total = 18, ti_remaining = 8, ti_version = 10\<rparr>]"

lemma sample_preflight:
  "checkCutoverValkey sample_reader (ticket_type_inventory (sample_stock Legacy)) sample_event_rows Legacy Preflight None
     = Inr (map (\<lambda>c. (c, 0)) VALKEY_CATEGORIES)"
proof (rule current_counters_pass)
  show "serves sample_reader sample_current" by (simp add: serves_def sample_reader_def)
  show "list_all (type_counter_current sample_current) (ticket_type_inventory (sample_stock Legacy))" by code_simp
  show "list_all uuid_row (ticket_type_inventory (sample_stock Legacy))" by code_simp
  show "list_all (scan_known (ticket_type_inventory (sample_stock Legacy))) (rv_scan sample_reader)" by code_simp
  show "list_all (event_counter_current (Legacy = TicketTypeMode) sample_current) sample_event_rows" by code_simp
  show "distinct (map type_cursor (ticket_type_inventory (sample_stock Legacy)))" by code_simp
  show "distinct (map ti_event sample_event_rows)" by code_simp
qed

theorem clean_preflight_means_current_counters_witness:
  "\<exists>i. rv_get sample_reader i (ticketTypeCounterKey uuid_a uuid_b) = Inr (Some ''5'')"
proof -
  have "clean (map (\<lambda>c. (c, 0)) VALKEY_CATEGORIES)" by (simp add: clean_def)
  moreover have "distinct (map type_cursor (ticket_type_inventory (sample_stock Legacy)))" "distinct (map ti_event sample_event_rows)"
    by code_simp+
  ultimately have "list_all (\<lambda>r. \<exists>i. rv_get sample_reader i (ticketTypeCounterKey (tti_event r) (tti_type r))
      = Inr (Some (decimal (nat (tti_remaining r))))) (ticket_type_inventory (sample_stock Legacy))"
    using clean_preflight_means_current_counters [OF sample_preflight] by (simp add: list_all_iff)
  moreover have "decimal 5 = ''5''" by code_simp
  ultimately show ?thesis by (simp add: sample_stock_def)
qed

end
