(* ===== verification/Evidence.thy ===== *)
theory Evidence
  imports CutoverValkey Reconciliation
begin

text \<open>
  The evidence of a cutover check, src/cutover/ticket-type-cutover-readiness.ts: completeness of the
  results, the OpenSearch check, and the document that is written and parsed back. A JSON text is the
  value it denotes; None is a text that is not JSON. The fields with one possible value (type, version,
  complete) are constants of the document.
\<close>

section \<open>Completeness\<close>

text \<open>A result whose fields may be anything.\<close>

type_synonym raw_result = "jsval \<times> jsval"

definition is_count :: "jsval \<Rightarrow> bool" where
  "is_count v = (isSafeInteger v \<and> 0 \<le> number_value v)"

fun assert_results :: "raw_result list \<Rightarrow> string list \<Rightarrow> string list result" where
  "assert_results [] seen = Inr seen"
| "assert_results ((category, n) # rs) seen =
     (case category of
        JString c \<Rightarrow>
          if c \<notin> set TICKET_TYPE_CUTOVER_READINESS_CATEGORIES then Inl (PlainError ''unexpected Ticket Type cutover category'')
          else if c \<in> set seen then Inl (PlainError ''duplicate Ticket Type cutover category'')
          else if \<not> is_count n then Inl (PlainError ''invalid Ticket Type cutover count'')
          else assert_results rs (c # seen)
      | _ \<Rightarrow> Inl (PlainError ''unexpected Ticket Type cutover category''))"

definition assertTicketTypeCutoverReadinessComplete :: "raw_result list \<Rightarrow> unit result" where
  "assertTicketTypeCutoverReadinessComplete rs =
     bind_result (assert_results rs []) (\<lambda>seen.
       if filter (\<lambda>c. c \<notin> set seen) TICKET_TYPE_CUTOVER_READINESS_CATEGORIES \<noteq> []
       then Inl (PlainError ''missing Ticket Type cutover categories'') else Inr ())"

definition raw :: "TicketTypeCutoverReadinessResult \<Rightarrow> raw_result" where
  "raw r = (JString (fst r), jsint (snd r))"

definition hasTicketTypeCutoverViolations :: "TicketTypeCutoverReadinessResult list \<Rightarrow> bool result" where
  "hasTicketTypeCutoverViolations results =
     bind_result (assertTicketTypeCutoverReadinessComplete (map raw results)) (\<lambda>_. Inr (list_ex (\<lambda>r. snd r > 0) results))"

section \<open>The OpenSearch check\<close>

record CutoverOpenSearchCheck =
  co_result :: TicketTypeCutoverReadinessResult
  co_report :: ReconciliationReport

definition checkCutoverOpenSearch ::
    "(string \<Rightarrow> string option) \<Rightarrow> (string \<Rightarrow> int option) \<Rightarrow> (string \<Rightarrow> event_columns) \<Rightarrow> reconcile_env \<Rightarrow> pg
       \<Rightarrow> ReconciliationOptions \<Rightarrow> CutoverOpenSearchCheck result" where
  "checkCutoverOpenSearch date_iso date_ms columns env s options =
     map_sum id (\<lambda>report. \<lparr>co_result = (''opensearch_projection_diff'', rp_totalDiffs report), co_report = report\<rparr>)
       (reconcileInventoryProjection date_iso date_ms columns env s
          \<lparr>ro_index = Some (case ro_index options of None \<Rightarrow> EVENTS_INDEX | Some i \<Rightarrow> i),
           ro_pageSize = ro_pageSize options, ro_maxFindings = ro_maxFindings options\<rparr>)"

section \<open>Writing the evidence\<close>

record SerializeCutoverEvidenceInput =
  si_expectedWriterMode :: InventoryWriterMode
  si_checkPhase :: CutoverCheckPhase
  si_writerMode :: InventoryWriterMode
  si_schemaRevision :: string
  si_opensearchIndex :: string
  si_results :: "TicketTypeCutoverReadinessResult list"
  si_opensearchReport :: ReconciliationReport

record TicketTypeCutoverEvidence =
  ce_expectedWriterMode :: InventoryWriterMode
  ce_checkPhase :: CutoverCheckPhase
  ce_writerMode :: InventoryWriterMode
  ce_schemaRevision :: string
  ce_opensearchIndex :: string
  ce_results :: "TicketTypeCutoverReadinessResult list"
  ce_categoryCount :: int
  ce_opensearchReport :: ReconciliationReport

definition TICKET_TYPE_CUTOVER_EVIDENCE_TYPE :: string where
  "TICKET_TYPE_CUTOVER_EVIDENCE_TYPE = ''ticket-type-cutover-readiness''"

definition TICKET_TYPE_CUTOVER_EVIDENCE_VERSION :: int where
  "TICKET_TYPE_CUTOVER_EVIDENCE_VERSION = 1"

definition phase_text :: "CutoverCheckPhase \<Rightarrow> string" where
  "phase_text p = (case p of Preflight \<Rightarrow> ''preflight'' | Postflight \<Rightarrow> ''postflight'')"

definition finding_json :: "ReconciliationFinding \<Rightarrow> jsval" where
  "finding_json f = JObject ([(''eventId'', JString (rf_eventId f)), (''category'', JString (rf_category f))]
     @ (case rf_ticketTypeId f of None \<Rightarrow> [] | Some t \<Rightarrow> [(''ticketTypeId'', JString t)]))"

definition report_json :: "ReconciliationReport \<Rightarrow> jsval" where
  "report_json r = JObject
     [(''index'', JString (rp_index r)), (''checkedEvents'', jsint (rp_checkedEvents r)),
      (''checkedDocuments'', jsint (rp_checkedDocuments r)),
      (''counts'', JObject (map (\<lambda>(c, n). (c, jsint n)) (rp_counts r))), (''totalDiffs'', jsint (rp_totalDiffs r)),
      (''findings'', JArray (map finding_json (rp_findings r))), (''hasDiff'', JBool (rp_hasDiff r))]"

definition result_json :: "TicketTypeCutoverReadinessResult \<Rightarrow> jsval" where
  "result_json r = JObject [(''category'', JString (fst r)), (''violationCount'', jsint (snd r))]"

definition evidence_json :: "TicketTypeCutoverEvidence \<Rightarrow> jsval" where
  "evidence_json e = JObject
     [(''evidenceType'', JString TICKET_TYPE_CUTOVER_EVIDENCE_TYPE), (''evidenceVersion'', jsint TICKET_TYPE_CUTOVER_EVIDENCE_VERSION),
      (''expectedWriterMode'', JString (mode_text (ce_expectedWriterMode e))), (''checkPhase'', JString (phase_text (ce_checkPhase e))),
      (''writerMode'', JString (mode_text (ce_writerMode e))), (''schemaRevision'', JString (ce_schemaRevision e)),
      (''opensearchIndex'', JString (ce_opensearchIndex e)), (''results'', JArray (map result_json (ce_results e))),
      (''categoryCount'', jsint (ce_categoryCount e)), (''opensearchReport'', report_json (ce_opensearchReport e)),
      (''complete'', JBool True)]"

definition evidence_of :: "SerializeCutoverEvidenceInput \<Rightarrow> TicketTypeCutoverEvidence" where
  "evidence_of i = \<lparr>ce_expectedWriterMode = si_expectedWriterMode i, ce_checkPhase = si_checkPhase i,
     ce_writerMode = si_writerMode i, ce_schemaRevision = si_schemaRevision i, ce_opensearchIndex = si_opensearchIndex i,
     ce_results = si_results i, ce_categoryCount = int (length (si_results i)), ce_opensearchReport = si_opensearchReport i\<rparr>"

definition projection_result :: "TicketTypeCutoverReadinessResult list \<Rightarrow> int option" where
  "projection_result rs = map_option snd (find (\<lambda>r. fst r = ''opensearch_projection_diff'') rs)"

definition serializeTicketTypeCutoverEvidence :: "SerializeCutoverEvidenceInput \<Rightarrow> jsval result" where
  "serializeTicketTypeCutoverEvidence i =
     bind_result (assertTicketTypeCutoverReadinessComplete (map raw (si_results i))) (\<lambda>_.
       if si_schemaRevision i = [] then Inl (PlainError ''cutover evidence requires a non-empty schemaRevision'')
       else if si_opensearchIndex i = [] then Inl (PlainError ''cutover evidence requires a non-empty opensearchIndex'')
       else if projection_result (si_results i) \<noteq> Some (rp_totalDiffs (si_opensearchReport i))
       then Inl (PlainError ''cutover evidence opensearch category must equal opensearchReport.totalDiffs'')
       else if rp_index (si_opensearchReport i) \<noteq> si_opensearchIndex i
       then Inl (PlainError ''cutover evidence opensearchIndex must equal opensearchReport.index'')
       else Inr (evidence_json (evidence_of i)))"

section \<open>Parsing the evidence\<close>

definition assertWriterMode :: "jsval \<Rightarrow> InventoryWriterMode result" where
  "assertWriterMode v = (if v = JString ''legacy'' then Inr Legacy else if v = JString ''ticket_type'' then Inr TicketTypeMode
     else Inl (PlainError ''must be one of legacy, ticket_type''))"

definition assertCheckPhase :: "jsval \<Rightarrow> CutoverCheckPhase result" where
  "assertCheckPhase v = (if v = JString ''preflight'' then Inr Preflight else if v = JString ''postflight'' then Inr Postflight
     else Inl (PlainError ''must be one of preflight, postflight''))"

definition require_text :: "string \<Rightarrow> jsval \<Rightarrow> string result" where
  "require_text message v = (case v of JString (x # xs) \<Rightarrow> Inr (x # xs) | _ \<Rightarrow> Inl (PlainError message))"

definition require_count :: "(string \<times> jsval) list \<Rightarrow> string \<Rightarrow> int result" where
  "require_count fs name = (if is_count (get_field fs name) then Inr (number_value (get_field fs name))
     else Inl (PlainError ''cutover evidence opensearchReport count is invalid''))"

definition parse_finding :: "jsval \<Rightarrow> ReconciliationFinding result" where
  "parse_finding v = (case v of
       JObject fs \<Rightarrow>
         bind_result (require_text ''cutover evidence opensearchReport finding eventId is missing or empty'' (get_field fs ''eventId''))
           (\<lambda>eventId.
         (case get_field fs ''category'' of
            JString category \<Rightarrow>
              if category \<notin> set RECONCILIATION_CATEGORIES
              then Inl (PlainError ''cutover evidence opensearchReport finding category is invalid'')
              else if get_field fs ''ticketTypeId'' = JUndefined
              then Inr \<lparr>rf_eventId = eventId, rf_category = category, rf_ticketTypeId = None\<rparr>
              else bind_result (require_text ''cutover evidence opensearchReport finding ticketTypeId is invalid'' (get_field fs ''ticketTypeId''))
                (\<lambda>t. Inr \<lparr>rf_eventId = eventId, rf_category = category, rf_ticketTypeId = Some t\<rparr>)
          | _ \<Rightarrow> Inl (PlainError ''cutover evidence opensearchReport finding category is invalid'')))
     | _ \<Rightarrow> Inl (PlainError ''cutover evidence opensearchReport.findings entries must be objects''))"

definition parse_counts :: "(string \<times> jsval) list \<Rightarrow> (string \<times> int) list result" where
  "parse_counts fs =
     (if list_ex (\<lambda>f. fst f \<notin> set RECONCILIATION_CATEGORIES) fs
      then Inl (PlainError ''cutover evidence opensearchReport.counts has unexpected category'')
      else map_result (\<lambda>c. map_sum id (Pair c) (require_count fs c)) RECONCILIATION_CATEGORIES)"

definition parse_report_fields :: "(string \<times> jsval) list \<Rightarrow> ReconciliationReport result" where
  "parse_report_fields fs =
     bind_result (require_text ''cutover evidence opensearchReport.index is missing or empty'' (get_field fs ''index'')) (\<lambda>index.
     bind_result (require_count fs ''checkedEvents'') (\<lambda>checkedEvents.
     bind_result (require_count fs ''checkedDocuments'') (\<lambda>checkedDocuments.
     bind_result (require_count fs ''totalDiffs'') (\<lambda>totalDiffs.
     bind_result (case get_field fs ''counts'' of JObject cs \<Rightarrow> parse_counts cs
                  | _ \<Rightarrow> Inl (PlainError ''cutover evidence opensearchReport.counts must be an object'')) (\<lambda>counts.
     if sum_list (map snd counts) \<noteq> totalDiffs
     then Inl (PlainError ''cutover evidence opensearchReport.totalDiffs does not equal the sum of counts'')
     else bind_result (case get_field fs ''findings'' of JArray vs \<Rightarrow> map_result parse_finding vs
                  | _ \<Rightarrow> Inl (PlainError ''cutover evidence opensearchReport.findings must be an array'')) (\<lambda>findings.
     if get_field fs ''hasDiff'' \<noteq> JBool (totalDiffs > 0)
     then Inl (PlainError ''cutover evidence opensearchReport.hasDiff does not match totalDiffs'')
     else Inr \<lparr>rp_index = index, rp_checkedEvents = checkedEvents, rp_checkedDocuments = checkedDocuments, rp_counts = counts,
            rp_totalDiffs = totalDiffs, rp_findings = findings, rp_hasDiff = (get_field fs ''hasDiff'' = JBool True)\<rparr>))))))"

definition parseReconciliationReport :: "jsval \<Rightarrow> ReconciliationReport result" where
  "parseReconciliationReport v = (case v of JObject fs \<Rightarrow> parse_report_fields fs
     | _ \<Rightarrow> Inl (PlainError ''cutover evidence opensearchReport must be an object''))"

definition is_object :: "jsval \<Rightarrow> bool" where
  "is_object v = (case v of JObject _ \<Rightarrow> True | JArray _ \<Rightarrow> True | _ \<Rightarrow> False)"

definition parse_result :: "jsval \<Rightarrow> raw_result result" where
  "parse_result v = (if is_object v then Inr (property_of v ''category'', property_of v ''violationCount'')
     else Inl (PlainError ''cutover evidence result entries must be objects''))"

definition typed :: "raw_result \<Rightarrow> TicketTypeCutoverReadinessResult" where
  "typed r = (string_value (fst r), number_value (snd r))"

definition parse_results :: "jsval \<Rightarrow> TicketTypeCutoverReadinessResult list result" where
  "parse_results v = (case v of
       JArray vs \<Rightarrow> bind_result (map_result parse_result vs) (\<lambda>rs.
         bind_result (assertTicketTypeCutoverReadinessComplete rs) (\<lambda>_. Inr (map typed rs)))
     | _ \<Rightarrow> Inl (PlainError ''cutover evidence results must be an array''))"

definition parse_evidence_fields :: "(string \<times> jsval) list \<Rightarrow> TicketTypeCutoverEvidence result" where
  "parse_evidence_fields fs =
     (if get_field fs ''evidenceType'' \<noteq> JString TICKET_TYPE_CUTOVER_EVIDENCE_TYPE
      then Inl (PlainError ''cutover evidence type mismatch'')
      else if get_field fs ''evidenceVersion'' \<noteq> jsint TICKET_TYPE_CUTOVER_EVIDENCE_VERSION
      then Inl (PlainError ''cutover evidence version mismatch'')
      else
     bind_result (assertWriterMode (get_field fs ''expectedWriterMode'')) (\<lambda>expectedWriterMode.
     bind_result (assertCheckPhase (get_field fs ''checkPhase'')) (\<lambda>checkPhase.
     bind_result (assertWriterMode (get_field fs ''writerMode'')) (\<lambda>writerMode.
     bind_result (require_text ''cutover evidence schemaRevision is missing or empty'' (get_field fs ''schemaRevision'')) (\<lambda>schemaRevision.
     bind_result (require_text ''cutover evidence opensearchIndex is missing or empty'' (get_field fs ''opensearchIndex'')) (\<lambda>opensearchIndex.
     bind_result (parse_results (get_field fs ''results'')) (\<lambda>results.
     if get_field fs ''categoryCount'' \<noteq> jsint (int (length results))
     then Inl (PlainError ''cutover evidence categoryCount mismatch'')
     else bind_result (parseReconciliationReport (get_field fs ''opensearchReport'')) (\<lambda>report.
     if projection_result results \<noteq> Some (rp_totalDiffs report)
     then Inl (PlainError ''cutover evidence opensearch category does not match opensearchReport.totalDiffs'')
     else if rp_index report \<noteq> opensearchIndex
     then Inl (PlainError ''cutover evidence opensearchIndex does not match opensearchReport.index'')
     else if get_field fs ''complete'' \<noteq> JBool True then Inl (PlainError ''cutover evidence is not marked complete'')
     else Inr \<lparr>ce_expectedWriterMode = expectedWriterMode, ce_checkPhase = checkPhase, ce_writerMode = writerMode,
            ce_schemaRevision = schemaRevision, ce_opensearchIndex = opensearchIndex, ce_results = results,
            ce_categoryCount = int (length results), ce_opensearchReport = report\<rparr>))))))))"

definition parseTicketTypeCutoverEvidence :: "jsval option \<Rightarrow> TicketTypeCutoverEvidence result" where
  "parseTicketTypeCutoverEvidence json = (case json of
       None \<Rightarrow> Inl (PlainError ''cutover evidence is not valid JSON'')
     | Some (JObject fs) \<Rightarrow> parse_evidence_fields fs
     | Some _ \<Rightarrow> Inl (PlainError ''cutover evidence must be a JSON object''))"

section \<open>Complete results\<close>

definition MAX_SAFE_INTEGER :: int where
  "MAX_SAFE_INTEGER = 9007199254740991"

lemma is_count_jsint [simp]: "is_count (jsint n) \<longleftrightarrow> 0 \<le> n \<and> n \<le> MAX_SAFE_INTEGER"
  by (auto simp: is_count_def isSafeInteger_def MAX_SAFE_INTEGER_def)

lemma is_count_value: "is_count v \<Longrightarrow> v = jsint (number_value v) \<and> 0 \<le> number_value v \<and> number_value v \<le> MAX_SAFE_INTEGER"
  by (auto simp: is_count_def isSafeInteger_def isInteger_iff MAX_SAFE_INTEGER_def)

definition complete_results :: "TicketTypeCutoverReadinessResult list \<Rightarrow> bool" where
  "complete_results rs \<longleftrightarrow> distinct (map fst rs) \<and> set (map fst rs) = set TICKET_TYPE_CUTOVER_READINESS_CATEGORIES
     \<and> list_all (\<lambda>r. 0 \<le> snd r \<and> snd r \<le> MAX_SAFE_INTEGER) rs"

lemma assert_results_Inr:
  "assert_results rs seen = Inr seen' \<Longrightarrow>
     map raw (map typed rs) = rs \<and> seen' = rev (map fst (map typed rs)) @ seen
   \<and> distinct (map fst (map typed rs)) \<and> set (map fst (map typed rs)) \<inter> set seen = {}
   \<and> set (map fst (map typed rs)) \<subseteq> set TICKET_TYPE_CUTOVER_READINESS_CATEGORIES
   \<and> list_all (\<lambda>r. 0 \<le> snd r \<and> snd r \<le> MAX_SAFE_INTEGER) (map typed rs)"
proof (induction rs seen rule: assert_results.induct)
  case (2 category n rs seen)
  from "2.prems" obtain c where c: "category = JString c" "c \<in> set TICKET_TYPE_CUTOVER_READINESS_CATEGORIES" "c \<notin> set seen" "is_count n"
    and r: "assert_results rs (c # seen) = Inr seen'"
    by (auto split: jsval.splits if_splits)
  from "2.IH" [OF c(1) _ _ _ r] c is_count_value [OF c(4)] show ?case by (auto simp: typed_def raw_def)
qed simp

lemma assert_results_complete:
  "distinct (map fst rs) \<Longrightarrow> set (map fst rs) \<inter> set seen = {} \<Longrightarrow> set (map fst rs) \<subseteq> set TICKET_TYPE_CUTOVER_READINESS_CATEGORIES
     \<Longrightarrow> list_all (\<lambda>r. 0 \<le> snd r \<and> snd r \<le> MAX_SAFE_INTEGER) rs
     \<Longrightarrow> assert_results (map raw rs) seen = Inr (rev (map fst rs) @ seen)"
  by (induction rs arbitrary: seen) (auto simp: raw_def)

lemma assert_complete_iff:
  "assertTicketTypeCutoverReadinessComplete (map raw rs) = Inr u \<longleftrightarrow> complete_results rs"
proof
  assume "assertTicketTypeCutoverReadinessComplete (map raw rs) = Inr u"
  then obtain seen where s: "assert_results (map raw rs) [] = Inr seen" "\<forall>c \<in> set TICKET_TYPE_CUTOVER_READINESS_CATEGORIES. c \<in> set seen"
    by (auto simp: assertTicketTypeCutoverReadinessComplete_def bind_result_Inr filter_empty_conv split: if_splits)
  have t: "map typed (map raw rs) = rs" by (simp add: typed_def raw_def comp_def)
  from assert_results_Inr [OF s(1), unfolded t] s(2) show "complete_results rs" by (auto simp: complete_results_def)
next
  assume "complete_results rs"
  then show "assertTicketTypeCutoverReadinessComplete (map raw rs) = Inr u"
    using assert_results_complete [of rs "[]"]
    by (simp add: complete_results_def assertTicketTypeCutoverReadinessComplete_def)
qed

lemma assert_complete_raw:
  "assertTicketTypeCutoverReadinessComplete rs = Inr u \<Longrightarrow> map raw (map typed rs) = rs"
  using assert_results_Inr [of rs "[]"]
  by (auto simp: assertTicketTypeCutoverReadinessComplete_def bind_result_Inr)

lemma complete_length: "complete_results rs \<Longrightarrow> length rs = length TICKET_TYPE_CUTOVER_READINESS_CATEGORIES"
proof -
  assume "complete_results rs"
  then have "distinct (map fst rs)" "set (map fst rs) = set TICKET_TYPE_CUTOVER_READINESS_CATEGORIES"
    by (simp_all only: complete_results_def)
  moreover have "distinct TICKET_TYPE_CUTOVER_READINESS_CATEGORIES" by code_simp
  ultimately show ?thesis by (metis distinct_card length_map)
qed

section \<open>Sound reports\<close>

definition finding_ok :: "ReconciliationFinding \<Rightarrow> bool" where
  "finding_ok f \<longleftrightarrow> rf_eventId f \<noteq> [] \<and> rf_category f \<in> set RECONCILIATION_CATEGORIES \<and> rf_ticketTypeId f \<noteq> Some []"

definition safe_number :: "int \<Rightarrow> bool" where
  "safe_number n \<longleftrightarrow> 0 \<le> n \<and> n \<le> MAX_SAFE_INTEGER"

definition report_ok :: "ReconciliationReport \<Rightarrow> bool" where
  "report_ok r \<longleftrightarrow> rp_index r \<noteq> [] \<and> safe_number (rp_checkedEvents r) \<and> safe_number (rp_checkedDocuments r)
     \<and> map fst (rp_counts r) = RECONCILIATION_CATEGORIES \<and> list_all (\<lambda>c. safe_number (snd c)) (rp_counts r)
     \<and> safe_number (rp_totalDiffs r) \<and> rp_totalDiffs r = sum_list (map snd (rp_counts r))
     \<and> list_all finding_ok (rp_findings r) \<and> rp_hasDiff r = (rp_totalDiffs r > 0)"

lemma require_text_Inr: "require_text m v = Inr s \<longleftrightarrow> v = JString s \<and> s \<noteq> []"
  by (auto simp: require_text_def split: jsval.split list.split)

lemma require_count_Inr: "require_count fs n = Inr x \<longleftrightarrow> get_field fs n = jsint x \<and> safe_number x"
  using is_count_value [of "get_field fs n"] by (auto simp: require_count_def safe_number_def)

lemma parse_finding_Inr: "parse_finding v = Inr f \<Longrightarrow> finding_ok f"
proof -
  assume p: "parse_finding v = Inr f"
  then obtain fs where v: "v = JObject fs" by (auto simp: parse_finding_def split: jsval.splits)
  show "finding_ok f"
    using p unfolding v by (cases "get_field fs ''category''")
      (auto simp: parse_finding_def bind_result_Inr require_text_Inr finding_ok_def split: if_splits)
qed

lemma parse_finding_json: "finding_ok f \<Longrightarrow> parse_finding (finding_json f) = Inr f"
proof -
  assume f: "finding_ok f"
  have t: "require_text m (JString s) = Inr s" if "s \<noteq> []" for m s using that by (simp add: require_text_Inr)
  show ?thesis using f t
    by (cases "rf_ticketTypeId f") (auto simp: parse_finding_def finding_json_def finding_ok_def)
qed

lemma map_result_all: "map_result f xs = Inr ys \<Longrightarrow> \<forall>x y. f x = Inr y \<longrightarrow> P y \<Longrightarrow> list_all P ys"
  by (induction xs arbitrary: ys) (auto simp: bind_result_Inr)

lemma parse_counts_Inr:
  assumes "parse_counts fs = Inr cs"
  shows "map fst cs = RECONCILIATION_CATEGORIES" "list_all (\<lambda>c. safe_number (snd c)) cs"
proof -
  let ?f = "\<lambda>c. map_sum id (Pair c) (require_count fs c)"
  have r: "map_result ?f RECONCILIATION_CATEGORIES = Inr cs" using assms by (auto simp: parse_counts_def split: if_splits)
  show "list_all (\<lambda>c. safe_number (snd c)) cs" by (rule map_result_all [OF r]) (auto simp: require_count_Inr)
  have "map fst cs = xs" if "map_result ?f xs = Inr cs" for xs cs
    using that by (induction xs arbitrary: cs) (auto simp: bind_result_Inr)
  with r show "map fst cs = RECONCILIATION_CATEGORIES" by blast
qed

lemma parse_counts_json:
  assumes "map fst cs = RECONCILIATION_CATEGORIES" "list_all (\<lambda>c. safe_number (snd c)) cs"
  shows "parse_counts (map (\<lambda>(c, n). (c, jsint n)) cs) = Inr cs"
proof -
  let ?fs = "map (\<lambda>(c, n). (c, jsint n)) cs"
  have d: "distinct (map fst cs)" using assms(1) distinct_reconciliation_categories by simp
  have v: "get_field ?fs (fst c) = jsint (snd c)" if "c \<in> set cs" for c
  proof -
    have "map_of cs (fst c) = Some (snd c)" using that d by simp
    moreover have "map_of ?fs k = map_option jsint (map_of cs k)" for k by (induction cs) auto
    ultimately show ?thesis by (simp add: get_field_def)
  qed
  have "map_result (\<lambda>k. map_sum id (Pair k) (require_count ?fs k)) (map fst xs) = Inr xs" if "set xs \<subseteq> set cs" for xs
    using that
  proof (induction xs)
    case (Cons c xs)
    then have "require_count ?fs (fst c) = Inr (snd c)" using v [of c] assms(2) by (auto simp: require_count_Inr list_all_iff)
    with Cons show ?case by simp
  qed simp
  from this [of cs] assms(1) have "map_result (\<lambda>k. map_sum id (Pair k) (require_count ?fs k)) RECONCILIATION_CATEGORIES = Inr cs" by simp
  moreover have "\<not> list_ex (\<lambda>f. fst f \<notin> set RECONCILIATION_CATEGORIES) ?fs"
    unfolding assms(1) [symmetric] by (force simp: list_ex_iff)
  ultimately show ?thesis by (simp add: parse_counts_def)
qed

lemma parse_report_Inr:
  assumes "parseReconciliationReport v = Inr r"
  shows "report_ok r"
proof -
  from assms obtain fs where fs: "parse_report_fields fs = Inr r" by (auto simp: parseReconciliationReport_def split: jsval.splits)
  then obtain index ce cd td cs vs findings where
    "index \<noteq> []" "safe_number ce" "safe_number cd" "safe_number td" and cs: "parse_counts cs = Inr (rp_counts r)"
    and sum: "sum_list (map snd (rp_counts r)) = td" and f: "map_result parse_finding vs = Inr findings"
    and r: "rp_index r = index" "rp_checkedEvents r = ce" "rp_checkedDocuments r = cd" "rp_totalDiffs r = td"
      "rp_findings r = findings" "rp_hasDiff r = (0 < td)"
    unfolding parse_report_fields_def
    by (auto simp: bind_result_Inr require_text_Inr require_count_Inr split: jsval.splits if_splits)
  moreover have "list_all finding_ok findings" using map_result_all [OF f] parse_finding_Inr by blast
  ultimately show ?thesis using parse_counts_Inr [OF cs] by (simp add: report_ok_def)
qed

lemma map_result_map: "\<forall>x \<in> set xs. f (g x) = Inr x \<Longrightarrow> map_result f (map g xs) = Inr xs"
  by (induction xs) simp_all

lemma parse_report_json:
  assumes "report_ok r"
  shows "parseReconciliationReport (report_json r) = Inr r"
proof -
  note r = assms [unfolded report_ok_def]
  have t: "require_text m (JString (rp_index r)) = Inr (rp_index r)" for m using r by (simp add: require_text_Inr)
  have n: "require_count fs k = Inr x" if "get_field fs k = jsint x" "safe_number x" for fs k x
    using that by (simp add: require_count_Inr)
  have c: "parse_counts (map (\<lambda>(c, n). (c, jsint n)) (rp_counts r)) = Inr (rp_counts r)" using r by (intro parse_counts_json) simp_all
  have f: "map_result parse_finding (map finding_json (rp_findings r)) = Inr (rp_findings r)"
    using r parse_finding_json by (intro map_result_map) (simp add: list_all_iff)
  have d: "sum_list (map snd (rp_counts r)) = rp_totalDiffs r" "rp_hasDiff r = (0 < rp_totalDiffs r)" using r by simp_all
  have s: "safe_number (rp_checkedEvents r)" "safe_number (rp_checkedDocuments r)" "safe_number (rp_totalDiffs r)" using r by blast+
  have "r = \<lparr>rp_index = rp_index r, rp_checkedEvents = rp_checkedEvents r, rp_checkedDocuments = rp_checkedDocuments r,
      rp_counts = rp_counts r, rp_totalDiffs = rp_totalDiffs r, rp_findings = rp_findings r, rp_hasDiff = (0 < rp_totalDiffs r)\<rparr>"
    using d(2) by simp
  then show ?thesis
    by (simp add: parseReconciliationReport_def report_json_def parse_report_fields_def t n [OF _ s(1)] n [OF _ s(2)] n [OF _ s(3)] c f d)
qed

section \<open>Sound evidence\<close>

definition evidence_ok :: "TicketTypeCutoverEvidence \<Rightarrow> bool" where
  "evidence_ok e \<longleftrightarrow> complete_results (ce_results e)
     \<and> ce_categoryCount e = int (length TICKET_TYPE_CUTOVER_READINESS_CATEGORIES)
     \<and> ce_schemaRevision e \<noteq> [] \<and> report_ok (ce_opensearchReport e) \<and> rp_index (ce_opensearchReport e) = ce_opensearchIndex e
     \<and> projection_result (ce_results e) = Some (rp_totalDiffs (ce_opensearchReport e))"

definition input_of :: "TicketTypeCutoverEvidence \<Rightarrow> SerializeCutoverEvidenceInput" where
  "input_of e = \<lparr>si_expectedWriterMode = ce_expectedWriterMode e, si_checkPhase = ce_checkPhase e, si_writerMode = ce_writerMode e,
     si_schemaRevision = ce_schemaRevision e, si_opensearchIndex = ce_opensearchIndex e, si_results = ce_results e,
     si_opensearchReport = ce_opensearchReport e\<rparr>"

lemma projection_result_member: "projection_result rs = Some n \<Longrightarrow> \<exists>r \<in> set rs. snd r = n"
  by (induction rs) (auto simp: projection_result_def split: if_splits)

lemma assertWriterMode_text [simp]: "assertWriterMode (JString (mode_text m)) = Inr m"
  by (cases m) (simp_all add: assertWriterMode_def mode_text_def)

lemma assertCheckPhase_text [simp]: "assertCheckPhase (JString (phase_text p)) = Inr p"
  by (cases p) (simp_all add: assertCheckPhase_def phase_text_def)

lemma parse_results_Inr: "parse_results v = Inr rs \<Longrightarrow> complete_results rs"
proof -
  assume "parse_results v = Inr rs"
  then obtain raws u where a: "assertTicketTypeCutoverReadinessComplete raws = Inr u" and rs: "rs = map typed raws"
    by (auto simp: parse_results_def bind_result_Inr split: jsval.splits)
  from a assert_complete_raw [OF a] show ?thesis unfolding rs by (metis assert_complete_iff)
qed

lemma parse_results_json: "complete_results rs \<Longrightarrow> parse_results (JArray (map result_json rs)) = Inr rs"
proof -
  assume c: "complete_results rs"
  have "map_result parse_result (map result_json rs) = Inr (map raw rs)"
    by (induction rs) (simp_all add: parse_result_def result_json_def is_object_def property_of_def raw_def)
  moreover have "map typed (map raw rs) = rs" by (simp add: typed_def raw_def comp_def)
  moreover have "assertTicketTypeCutoverReadinessComplete (map raw rs) = Inr ()" using c by (simp add: assert_complete_iff)
  ultimately show ?thesis by (simp add: parse_results_def)
qed

lemma parse_evidence_Inr:
  assumes "parseTicketTypeCutoverEvidence json = Inr e"
  shows "evidence_ok e"
proof -
  from assms obtain fs where fs: "parse_evidence_fields fs = Inr e"
    by (auto simp: parseTicketTypeCutoverEvidence_def split: option.splits jsval.splits)
  then obtain rev rs report where "rev \<noteq> []" and rs: "parse_results (get_field fs ''results'') = Inr rs"
    and report: "parseReconciliationReport (get_field fs ''opensearchReport'') = Inr report"
    and e: "projection_result rs = Some (rp_totalDiffs report)" "rp_index report = ce_opensearchIndex e"
      "ce_schemaRevision e = rev" "ce_results e = rs" "ce_categoryCount e = int (length rs)" "ce_opensearchReport e = report"
    unfolding parse_evidence_fields_def
    by (auto simp: bind_result_Inr require_text_Inr split: if_splits)
  with parse_results_Inr [OF rs] parse_report_Inr [OF report] complete_length show ?thesis by (simp add: evidence_ok_def)
qed

lemma serialize_Inr:
  "serializeTicketTypeCutoverEvidence i = Inr v \<longleftrightarrow>
     complete_results (si_results i) \<and> si_schemaRevision i \<noteq> [] \<and> si_opensearchIndex i \<noteq> []
   \<and> projection_result (si_results i) = Some (rp_totalDiffs (si_opensearchReport i))
   \<and> rp_index (si_opensearchReport i) = si_opensearchIndex i \<and> v = evidence_json (evidence_of i)"
  by (auto simp: serializeTicketTypeCutoverEvidence_def bind_result_Inr assert_complete_iff)

lemma parse_evidence_json:
  assumes "evidence_ok e"
  shows "parseTicketTypeCutoverEvidence (Some (evidence_json e)) = Inr e"
proof -
  note e = assms [unfolded evidence_ok_def]
  have t: "require_text m (JString (ce_schemaRevision e)) = Inr (ce_schemaRevision e)"
    "require_text m (JString (ce_opensearchIndex e)) = Inr (ce_opensearchIndex e)" for m
    using e by (auto simp: require_text_Inr report_ok_def)
  have "int (length (ce_results e)) = ce_categoryCount e" using e complete_length by simp
  then show ?thesis using e parse_results_json parse_report_json
    by (simp add: parseTicketTypeCutoverEvidence_def evidence_json_def parse_evidence_fields_def t)
qed

section \<open>The report of a reconciliation\<close>

definition run_sound :: "reconcile_run \<Rightarrow> bool" where
  "run_sound st \<longleftrightarrow> (\<forall>c. 0 \<le> rr_counts st c) \<and> list_all finding_ok (rr_findings st)
     \<and> 0 \<le> rr_checkedDocuments st \<and> rr_checkedDocuments st \<le> rr_checkedEvents st
     \<and> list_all (\<lambda>a. ae_eventId a \<noteq> []) (rr_page st)"

lemma record_diff_sound:
  assumes "run_sound st" "e \<noteq> []" "fst d \<in> set RECONCILIATION_CATEGORIES"
  shows "run_sound (record_diff m e d st)"
proof -
  have "0 \<le> rr_counts st (fst d) + 1" using assms(1) by (simp add: run_sound_def add_nonneg_nonneg)
  with assms show ?thesis by (simp add: run_sound_def record_diff_def finding_ok_def)
qed

lemma fold_record_sound:
  "run_sound st \<Longrightarrow> e \<noteq> [] \<Longrightarrow> list_all known ds \<Longrightarrow> run_sound (fold (record_diff m e) ds st)"
  by (induction ds arbitrary: st) (simp_all add: record_diff_sound)

lemma compare_one_sound: "run_sound st \<Longrightarrow> ae_eventId a \<noteq> [] \<Longrightarrow> run_sound (compare_one date_ms m docs a st)"
proof -
  assume st: "run_sound st" and e: "ae_eventId a \<noteq> []"
  from st have s: "run_sound (st\<lparr>rr_checkedEvents := rr_checkedEvents st + 1\<rparr>)"
    "run_sound (st\<lparr>rr_checkedEvents := rr_checkedEvents st + 1, rr_checkedDocuments := rr_checkedDocuments st + 1\<rparr>)"
    by (simp_all add: run_sound_def)
  have "known (''missing_event_document'', None)" by (simp add: RECONCILIATION_CATEGORIES_def)
  then show ?thesis using record_diff_sound [OF s(1) e] fold_record_sound [OF s(2) e compareEvent_known]
    by (simp add: compare_one_def Let_def split: option.split)
qed

lemma fold_compare_sound:
  "run_sound st \<Longrightarrow> list_all (\<lambda>a. ae_eventId a \<noteq> []) as \<Longrightarrow> run_sound (fold (compare_one date_ms m docs) as st)"
  by (induction as arbitrary: st) (simp_all add: compare_one_sound)

lemma flush_page_sound: "run_sound st \<Longrightarrow> flush_page date_ms env m st = (r, st') \<Longrightarrow> run_sound st'"
proof -
  assume st: "run_sound st" and f: "flush_page date_ms env m st = (r, st')"
  have "run_sound (fold (compare_one date_ms m docs) (rr_page st) st)" for docs
    using st by (intro fold_compare_sound) (simp_all add: run_sound_def)
  then have "run_sound ((fold (compare_one date_ms m docs) (rr_page st) st)\<lparr>rr_page := [], rr_mgets := Suc (rr_mgets st)\<rparr>)" for docs
    by (simp add: run_sound_def)
  with st f show ?thesis by (auto simp: flush_page_def split: if_splits sum.splits)
qed

lemma consume_sound: "run_sound st \<Longrightarrow> ae_eventId a \<noteq> [] \<Longrightarrow> consume_event date_ms env n m a st = (r, st') \<Longrightarrow> run_sound st'"
proof -
  assume st: "run_sound st" "ae_eventId a \<noteq> []" and c: "consume_event date_ms env n m a st = (r, st')"
  from st have "run_sound (st\<lparr>rr_page := rr_page st @ [a]\<rparr>)" by (simp add: run_sound_def)
  with c flush_page_sound show ?thesis by (auto simp: consume_event_def Let_def split: if_splits)
qed

lemma detect_sound: "run_sound st \<Longrightarrow> detectUnexpected env s n m i pages st = (r, st') \<Longrightarrow> run_sound st'"
proof (induction env s n m i pages st rule: detectUnexpected.induct)
  case (3 env s n m i found pages st)
  show ?case
  proof (cases "found \<noteq> [] \<and> \<not> re_present env i \<and> list_all (\<lambda>h. is_uuid (hit_event h)) found")
    case True
    let ?st = "fold (\<lambda>e. record_diff m e (''unexpected_event_document'', None)) (unexpected_events s found) st"
    have k: "known (''unexpected_event_document'', None)" by (simp add: RECONCILIATION_CATEGORIES_def)
    have "set (unexpected_events s found) \<subseteq> hit_event ` set found" by (auto simp: unexpected_events_def Let_def)
    moreover have "e \<noteq> []" if "is_uuid e" for e using length_uuid [OF that] by auto
    ultimately have ne: "list_all (\<lambda>e. e \<noteq> []) (unexpected_events s found)" using True by (fastforce simp: list_all_iff)
    have fold: "run_sound (fold (\<lambda>e. record_diff m e (''unexpected_event_document'', None)) es st0)"
      if "run_sound st0" "list_all (\<lambda>e. e \<noteq> []) es" for es st0
      using that by (induction es arbitrary: st0) (simp_all add: record_diff_sound [OF _ _ k])
    from "3.prems"(2) True consider "st' = ?st"
      | "detectUnexpected env s n m (Suc i) pages ?st = (r, st')" "\<not> (\<not> h_sort (last found) \<or> length found < n)"
      by (auto simp: Let_def split: if_splits)
    then show ?thesis
    proof cases
      case 1
      then show ?thesis using fold [OF "3.prems"(1) ne] by simp
    next
      case 2
      then show ?thesis using "3.IH" [OF _ _ _ refl _ fold [OF "3.prems"(1) ne] 2(1)] True by blast
    qed
  next
    case False
    with "3.prems" show ?thesis by (auto split: if_splits)
  qed
qed auto

lemma sum_list_member: "x \<in> set xs \<Longrightarrow> \<forall>y \<in> set xs. 0 \<le> f y \<Longrightarrow> f x \<le> (sum_list (map f xs) :: int)"
proof (induction xs)
  case (Cons y ys)
  have "0 \<le> sum_list (map f ys)" using Cons.prems(2) by (intro sum_list_nonneg) auto
  with Cons show ?case by auto
qed simp

lemma reconcile_report_ok:
  assumes "reconcileInventoryProjection date_iso date_ms columns env s options = Inr report"
    and "\<forall>r \<in> set (ticket_inventory s). ti_event r \<noteq> []" "ro_index options \<noteq> Some []"
    and "rp_totalDiffs report \<le> MAX_SAFE_INTEGER" "rp_checkedEvents report \<le> MAX_SAFE_INTEGER"
  shows "report_ok report"
proof -
  define n where "n = (case ro_pageSize options of None \<Rightarrow> DEFAULT_PAGE_SIZE | Some n \<Rightarrow> n)"
  define m where "m = (case ro_maxFindings options of None \<Rightarrow> 100 | Some n \<Rightarrow> n)"
  define index where "index = (case ro_index options of None \<Rightarrow> EVENTS_INDEX | Some i \<Rightarrow> i)"
  let ?f = "\<lambda>r st. case authoritative_event date_iso columns s r of Inl e \<Rightarrow> (Inl e, st) | Inr x \<Rightarrow> consume_event date_ms env n m x st"
  from assms(1) obtain st1 st2 st3 where
    l: "iterateAuthoritativeInventory date_iso columns (re_page env) s n (consume_event date_ms env n m) start_reconcile = (Inr (), st1)"
    and f: "flush_page date_ms env m st1 = (Inr (), st2)"
    and d: "detectUnexpected env s (boundedPageSize (Some n)) m 0 (re_search env) st2 = (Inr (), st3)"
    and rep: "report = report_of index st3"
    unfolding reconcileInventoryProjection_def reconcile_passes_def Let_def n_def [symmetric] m_def [symmetric] index_def [symmetric]
    by (auto split: if_splits prod.splits sum.splits)
  have "run_sound st1"
  proof -
    have rows: "ae_eventId a \<noteq> []" if "authoritative_event date_iso columns s r = Inr a" "r \<in> set (event_rows s)" for a r
      using that assms(2) authoritative_event_Inr(1) [OF that(1)] by (auto simp: event_rows_def)
    have "case paged_loop ti_event (boundedPageSize (Some n)) (re_page env) (event_rows s) ?f 0 None start_reconcile of
        (Inl e, st) \<Rightarrow> True | (Inr u, st) \<Rightarrow> run_sound st"
    proof (rule paged_loop_invar, goal_cases)
      case 1
      show ?case by (simp add: run_sound_def start_reconcile_def)
    next
      case (2 r st u st')
      then obtain a where a: "authoritative_event date_iso columns s r = Inr a" "consume_event date_ms env n m a st = (Inr u, st')"
        by (auto split: sum.splits)
      then show ?case using consume_sound [OF 2(2) rows [OF a(1) 2(1)] a(2)] by simp
    qed simp_all
    then show ?thesis using l by (simp add: iterateAuthoritativeInventory_def)
  qed
  then have s3: "run_sound st3" using flush_page_sound [OF _ f] detect_sound [OF _ d] by blast
  have counts: "0 \<le> rr_counts st3 c" for c using s3 by (simp add: run_sound_def)
  have total: "rp_totalDiffs report = sum_list (map (rr_counts st3) RECONCILIATION_CATEGORIES)"
    by (simp add: rep report_of_def Let_def)
  have "safe_number (rr_counts st3 c)" if "c \<in> set RECONCILIATION_CATEGORIES" for c
    using sum_list_member [OF that, of "rr_counts st3"] counts assms(4) total by (simp add: safe_number_def)
  moreover have "0 \<le> rp_totalDiffs report" unfolding total using counts by (intro sum_list_nonneg) auto
  moreover have "index \<noteq> []" using assms(3) by (auto simp: index_def EVENTS_INDEX_def split: option.split)
  ultimately show ?thesis using s3 assms(4,5)
    by (auto simp: report_ok_def rep report_of_def Let_def run_sound_def safe_number_def list_all_iff comp_def)
qed

text \<open>C24: accepted evidence is complete: whatever text the parser accepts, the evidence it returns holds each of
  the 23 categories exactly once with a count that is a safe non-negative integer, a named schema
  revision, and a report that names all 14 difference categories, adds up, and agrees with the category
  that sums it up; it can be written again, to a text that parses to the same evidence; and if no
  category counts a violation, then the projection had no difference either.\<close>

theorem accepted_evidence_is_complete:
  assumes "parseTicketTypeCutoverEvidence json = Inr e"
  shows "evidence_ok e \<and> serializeTicketTypeCutoverEvidence (input_of e) = Inr (evidence_json e)
    \<and> parseTicketTypeCutoverEvidence (Some (evidence_json e)) = Inr e
    \<and> (hasTicketTypeCutoverViolations (ce_results e) = Inr False \<longrightarrow>
         clean (ce_results e) \<and> \<not> rp_hasDiff (ce_opensearchReport e))"
proof -
  note ok = parse_evidence_Inr [OF assms]
  note e = ok [unfolded evidence_ok_def]
  have n: "int (length (ce_results e)) = ce_categoryCount e" using e complete_length by simp
  have "evidence_of (input_of e) = e" by (simp add: evidence_of_def input_of_def n)
  then have "serializeTicketTypeCutoverEvidence (input_of e) = Inr (evidence_json e)"
    using e by (auto simp: serialize_Inr input_of_def report_ok_def)
  moreover have "clean (ce_results e) \<and> \<not> rp_hasDiff (ce_opensearchReport e)"
    if "hasTicketTypeCutoverViolations (ce_results e) = Inr False"
  proof -
    from that e have z: "\<forall>r \<in> set (ce_results e). snd r = 0"
      by (fastforce simp: hasTicketTypeCutoverViolations_def bind_result_Inr list_ex_iff complete_results_def list_all_iff)
    from e obtain r where "r \<in> set (ce_results e)" "snd r = rp_totalDiffs (ce_opensearchReport e)"
      using projection_result_member by blast
    with z e show ?thesis by (auto simp: clean_def report_ok_def)
  qed
  ultimately show ?thesis using ok parse_evidence_json [OF ok] by simp
qed

text \<open>C25: evidence survives its text: the evidence that a run writes about the report of its own
  reconciliation parses back to exactly what was written, unless a count left the range of safe
  integers.\<close>

theorem evidence_round_trip:
  assumes "checkCutoverOpenSearch date_iso date_ms columns env s options = Inr check"
    and "si_opensearchReport i = co_report check" "serializeTicketTypeCutoverEvidence i = Inr v"
    and "\<forall>r \<in> set (ticket_inventory s). ti_event r \<noteq> []" "ro_index options \<noteq> Some []"
    and "rp_totalDiffs (co_report check) \<le> MAX_SAFE_INTEGER" "rp_checkedEvents (co_report check) \<le> MAX_SAFE_INTEGER"
  shows "parseTicketTypeCutoverEvidence (Some v) = Inr (evidence_of i)"
proof -
  from assms(1) have r: "reconcileInventoryProjection date_iso date_ms columns env s
      \<lparr>ro_index = Some (case ro_index options of None \<Rightarrow> EVENTS_INDEX | Some i \<Rightarrow> i),
       ro_pageSize = ro_pageSize options, ro_maxFindings = ro_maxFindings options\<rparr> = Inr (co_report check)"
    by (auto simp: checkCutoverOpenSearch_def)
  have "report_ok (co_report check)"
    by (rule reconcile_report_ok [OF r assms(4) _ assms(6,7)]) (use assms(5) in \<open>auto simp: EVENTS_INDEX_def split: option.splits\<close>)
  with assms(2,3) have "evidence_ok (evidence_of i)" "v = evidence_json (evidence_of i)"
    using complete_length [of "si_results i"] by (auto simp: serialize_Inr evidence_ok_def evidence_of_def)
  then show ?thesis using parse_evidence_json by simp
qed

text \<open>The evidence of the sample report, with no violation in any category.\<close>

definition sample_check_search :: "CutoverOpenSearchCheck result" where
  "sample_check_search = checkCutoverOpenSearch Some (\<lambda>s. Some (int (length s))) sample_columns sample_search sample_inventory
     \<lparr>ro_index = None, ro_pageSize = None, ro_maxFindings = None\<rparr>"

definition sample_evidence_input :: "ReconciliationReport \<Rightarrow> SerializeCutoverEvidenceInput" where
  "sample_evidence_input report = \<lparr>si_expectedWriterMode = Legacy, si_checkPhase = Preflight, si_writerMode = Legacy,
     si_schemaRevision = ''rev1'', si_opensearchIndex = EVENTS_INDEX,
     si_results = map (\<lambda>c. (c, 0)) TICKET_TYPE_CUTOVER_READINESS_CATEGORIES, si_opensearchReport = report\<rparr>"

lemma sample_check_search_ok:
  obtains check where "sample_check_search = Inr check" "rp_totalDiffs (co_report check) = 0" "rp_checkedEvents (co_report check) = 1"
    "rp_index (co_report check) = EVENTS_INDEX"
proof -
  have "case sample_check_search of Inl _ \<Rightarrow> False
    | Inr c \<Rightarrow> rp_totalDiffs (co_report c) = 0 \<and> rp_checkedEvents (co_report c) = 1 \<and> rp_index (co_report c) = EVENTS_INDEX"
    by code_simp
  with that show thesis by (auto split: sum.splits)
qed

lemma sample_evidence_written:
  assumes "rp_totalDiffs report = 0" "rp_index report = EVENTS_INDEX"
  shows "serializeTicketTypeCutoverEvidence (sample_evidence_input report) = Inr (evidence_json (evidence_of (sample_evidence_input report)))"
proof -
  have "complete_results (map (\<lambda>c. (c, 0)) TICKET_TYPE_CUTOVER_READINESS_CATEGORIES)" by code_simp
  moreover have "projection_result (map (\<lambda>c. (c, 0)) TICKET_TYPE_CUTOVER_READINESS_CATEGORIES) = Some 0" by code_simp
  moreover have "EVENTS_INDEX \<noteq> []" by code_simp
  ultimately show ?thesis using assms by (simp add: serialize_Inr sample_evidence_input_def)
qed

theorem evidence_round_trip_witness:
  "\<exists>check v. sample_check_search = Inr check
     \<and> serializeTicketTypeCutoverEvidence (sample_evidence_input (co_report check)) = Inr v
     \<and> parseTicketTypeCutoverEvidence (Some v) = Inr (evidence_of (sample_evidence_input (co_report check)))"
proof -
  obtain check where c: "sample_check_search = Inr check" "rp_totalDiffs (co_report check) = 0" "rp_checkedEvents (co_report check) = 1"
    "rp_index (co_report check) = EVENTS_INDEX" by (rule sample_check_search_ok)
  note w = sample_evidence_written [OF c(2,4)]
  have "\<forall>r \<in> set (ticket_inventory sample_inventory). ti_event r \<noteq> []" by code_simp
  from evidence_round_trip [OF c(1) [unfolded sample_check_search_def] _ w this]
  have "parseTicketTypeCutoverEvidence (Some (evidence_json (evidence_of (sample_evidence_input (co_report check)))))
      = Inr (evidence_of (sample_evidence_input (co_report check)))"
    using c(2,3) by (simp add: sample_evidence_input_def MAX_SAFE_INTEGER_def)
  with c(1) w show ?thesis by blast
qed

theorem accepted_evidence_is_complete_witness:
  "\<exists>check e. sample_check_search = Inr check
     \<and> parseTicketTypeCutoverEvidence (Some (evidence_json (evidence_of (sample_evidence_input (co_report check))))) = Inr e
     \<and> \<not> rp_hasDiff (ce_opensearchReport e)"
proof -
  obtain check where c: "sample_check_search = Inr check" "rp_totalDiffs (co_report check) = 0" "rp_checkedEvents (co_report check) = 1"
    "rp_index (co_report check) = EVENTS_INDEX" by (rule sample_check_search_ok)
  let ?e = "evidence_of (sample_evidence_input (co_report check))"
  have "report_ok (co_report check)"
  proof (rule reconcile_report_ok)
    show "reconcileInventoryProjection Some (\<lambda>s. Some (int (length s))) sample_columns sample_search sample_inventory
      \<lparr>ro_index = Some EVENTS_INDEX, ro_pageSize = None, ro_maxFindings = None\<rparr> = Inr (co_report check)"
      using c(1) by (auto simp: sample_check_search_def checkCutoverOpenSearch_def)
    show "\<forall>r \<in> set (ticket_inventory sample_inventory). ti_event r \<noteq> []" by code_simp
    show "ro_index \<lparr>ro_index = Some EVENTS_INDEX, ro_pageSize = None, ro_maxFindings = None\<rparr> \<noteq> Some []" by (simp add: EVENTS_INDEX_def)
  qed (simp_all add: c MAX_SAFE_INTEGER_def)
  then have "evidence_ok ?e" using sample_evidence_written [OF c(2,4)] complete_length [of "ce_results ?e"]
    by (simp add: evidence_ok_def evidence_of_def serialize_Inr) (simp add: sample_evidence_input_def)
  note p = parse_evidence_json [OF this]
  have "list_all (\<lambda>r. \<not> 0 < snd r) (ce_results ?e)" by (simp add: evidence_of_def sample_evidence_input_def list_all_iff)
  moreover have "complete_results (ce_results ?e)" using \<open>evidence_ok ?e\<close> by (simp add: evidence_ok_def)
  ultimately have "hasTicketTypeCutoverViolations (ce_results ?e) = Inr False"
    using assert_complete_iff [of "ce_results ?e" "()"]
    by (auto simp: hasTicketTypeCutoverViolations_def list_ex_iff list_all_iff)
  with accepted_evidence_is_complete [OF p] p c(1) show ?thesis by blast
qed

end
