(* ===== verification/WriterSwitch.thy ===== *)
theory WriterSwitch
  imports Evidence
begin

text \<open>
  The switch of the inventory writer, src/cutover/ticket-type-writer-mode-switch.ts: the switch transaction,
  the verification after a COMMIT whose answer was lost, and the run of preflight and switch. Once the
  exclusive barrier and the table locks are held no other transaction changes the inventory tables or
  the control row until this one ends; what others commit before is an argument, and so are the
  migrations and catalog objects that each statement sees (they are not locked). A failed ROLLBACK only
  writes a log line: the server ends the transaction of a broken connection the same way.
\<close>

section \<open>Modes and time limits\<close>

definition oppositeWriterMode :: "InventoryWriterMode \<Rightarrow> InventoryWriterMode" where
  "oppositeWriterMode mode = (if mode = Legacy then TicketTypeMode else Legacy)"

record WriterModeSwitchTimeouts =
  lockTimeout :: string
  statementTimeout :: string
  idleInTransactionTimeout :: string

definition DEFAULT_WRITER_MODE_SWITCH_TIMEOUTS :: WriterModeSwitchTimeouts where
  "DEFAULT_WRITER_MODE_SWITCH_TIMEOUTS =
     \<lparr>lockTimeout = ''10s'', statementTimeout = ''60s'', idleInTransactionTimeout = ''60s''\<rparr>"

text \<open>\<open>0*[1-9][0-9]*(ms|s|min)\<close>: digits of which one is not zero, and a unit.\<close>

definition TIMEOUT_LITERAL :: "string \<Rightarrow> bool" where
  "TIMEOUT_LITERAL v = (list_ex (\<lambda>c. c \<noteq> CHR ''0'') (takeWhile is_digit v)
     \<and> dropWhile is_digit v \<in> {''ms'', ''s'', ''min''})"

definition assertTimeoutLiteral :: "string \<Rightarrow> string result" where
  "assertTimeoutLiteral v = (if \<not> TIMEOUT_LITERAL v then Inl (PlainError ''must be a positive duration'') else Inr v)"

definition check_timeouts :: "WriterModeSwitchTimeouts \<Rightarrow> unit result" where
  "check_timeouts t =
     bind_result (assertTimeoutLiteral (lockTimeout t)) (\<lambda>_.
     bind_result (assertTimeoutLiteral (statementTimeout t)) (\<lambda>_.
     bind_result (assertTimeoutLiteral (idleInTransactionTimeout t)) (\<lambda>_. Inr ())))"

definition assertNoCutoverViolations :: "TicketTypeCutoverReadinessResult list \<Rightarrow> unit result" where
  "assertNoCutoverViolations results =
     (if filter (\<lambda>r. snd r > 0) results = [] then Inr () else Inl (PlainError ''readiness violations detected''))"

section \<open>The switch transaction\<close>

record ExecuteWriterModeSwitchOptions =
  so_expectedSchemaRevision :: "string option"
  so_timeouts :: WriterModeSwitchTimeouts

record ExecuteWriterModeSwitchResult =
  sr_sourceMode :: InventoryWriterMode
  sr_targetMode :: InventoryWriterMode
  sr_schemaRevision :: string
  sr_postSwitchDatabaseResults :: "TicketTypeCutoverReadinessResult list"

datatype switch_error = CommitOutcomeUnknown ExecuteWriterModeSwitchResult | SwitchFailed exn

datatype sw_stmt =
    SW_BEGIN | SW_LOCK_TIMEOUT | SW_STATEMENT_TIMEOUT | SW_IDLE_TIMEOUT | SW_SEARCH_PATH
  | SW_BARRIER | SW_TABLE_LOCKS | SW_UPDATE

text \<open>
  What the transaction meets: the error of a statement, the fate of the statements of the two checks, the
  number of altered catalog objects and the migrations that each of them sees, the fate of COMMIT, and
  what other transactions commit before the locks are held.
\<close>

datatype check_time = BeforeSwitch | AfterSwitch

record switch_env =
  sw_fail :: "sw_stmt \<Rightarrow> exn option"
  sw_check :: "check_time \<Rightarrow> cd_stmt \<Rightarrow> link"
  sw_catalog :: "check_time \<Rightarrow> cd_stmt \<Rightarrow> nat \<times> string list"
  sw_commit :: link
  sw_drained :: "pg \<Rightarrow> pg"

fun statements :: "('q \<Rightarrow> exn option) \<Rightarrow> 'q list \<Rightarrow> unit result" where
  "statements fails [] = Inr ()"
| "statements fails (q # qs) = (case fails q of Some e \<Rightarrow> Inl e | None \<Rightarrow> statements fails qs)"

definition switch_check :: "switch_env \<Rightarrow> check_time \<Rightarrow> InventoryWriterMode \<Rightarrow> pg \<Rightarrow> CutoverDatabaseCheck result" where
  "switch_check env t mode s =
     checkCutoverDatabase (sw_check env t) (\<lambda>q. tables_of s (fst (sw_catalog env t q)) (snd (sw_catalog env t q))) mode"

definition accept_before ::
    "InventoryWriterMode \<Rightarrow> string option \<Rightarrow> CutoverDatabaseCheck \<Rightarrow> unit result" where
  "accept_before sourceMode expected before =
     (case cd_writerMode before of
        None \<Rightarrow> Inl (PlainError ''inventory writer control state is missing or invalid; refusing to switch'')
      | Some m \<Rightarrow>
          if m \<noteq> sourceMode then Inl (PlainError ''writer mode switch aborted: expected another current mode'')
          else if expected \<noteq> None \<and> Some (cd_schemaRevision before) \<noteq> expected
          then Inl (PlainError ''writer mode switch aborted: schema revision changed since preflight'')
          else assertNoCutoverViolations (cd_results before))"

definition accept_after ::
    "InventoryWriterMode \<Rightarrow> CutoverDatabaseCheck \<Rightarrow> CutoverDatabaseCheck \<Rightarrow> unit result" where
  "accept_after targetMode before after =
     (if cd_writerMode after \<noteq> Some targetMode
      then Inl (PlainError ''writer mode switch aborted: control state did not converge'')
      else if cd_schemaRevision after \<noteq> cd_schemaRevision before
      then Inl (PlainError ''writer mode switch aborted: schema revision changed during switch transaction'')
      else assertNoCutoverViolations (cd_results after))"

text \<open>The transaction up to its COMMIT: the result it would return and the tables it would commit.\<close>

definition switch_body ::
    "switch_env \<Rightarrow> InventoryWriterMode \<Rightarrow> string option \<Rightarrow> pg \<Rightarrow> (ExecuteWriterModeSwitchResult \<times> pg) result" where
  "switch_body env targetMode expected s =
     bind_result (statements (sw_fail env)
         [SW_LOCK_TIMEOUT, SW_STATEMENT_TIMEOUT, SW_IDLE_TIMEOUT, SW_SEARCH_PATH, SW_BARRIER, SW_TABLE_LOCKS]) (\<lambda>_.
     bind_result (switch_check env BeforeSwitch (oppositeWriterMode targetMode) s) (\<lambda>before.
     bind_result (accept_before (oppositeWriterMode targetMode) expected before) (\<lambda>_.
     bind_result (statements (sw_fail env) [SW_UPDATE]) (\<lambda>_.
     bind_result (updateInventoryWriterMode targetMode s) (\<lambda>s1.
     bind_result (switch_check env AfterSwitch targetMode s1) (\<lambda>after.
     bind_result (accept_after targetMode before after) (\<lambda>_.
     Inr (\<lparr>sr_sourceMode = oppositeWriterMode targetMode, sr_targetMode = targetMode,
           sr_schemaRevision = cd_schemaRevision before, sr_postSwitchDatabaseResults = cd_results after\<rparr>, s1))))))))"

definition executeWriterModeSwitch ::
    "switch_env \<Rightarrow> InventoryWriterMode \<Rightarrow> ExecuteWriterModeSwitchOptions \<Rightarrow> pg
       \<Rightarrow> (switch_error + ExecuteWriterModeSwitchResult) \<times> pg" where
  "executeWriterModeSwitch env targetMode options s =
     (case bind_result (check_timeouts (so_timeouts options)) (\<lambda>_. statements (sw_fail env) [SW_BEGIN]) of
        Inl e \<Rightarrow> (Inl (SwitchFailed e), sw_drained env s)
      | Inr _ \<Rightarrow>
          (case switch_body env targetMode (so_expectedSchemaRevision options) (sw_drained env s) of
             Inl e \<Rightarrow> (Inl (SwitchFailed e), sw_drained env s)
           | Inr (pendingResult, s1) \<Rightarrow>
               (case sw_commit env of
                  Delivered \<Rightarrow> (Inr pendingResult, s1)
                | LostReply \<Rightarrow> (Inl (CommitOutcomeUnknown pendingResult), s1)
                | LostRequest \<Rightarrow> (Inl (CommitOutcomeUnknown pendingResult), sw_drained env s))))"

section \<open>Verification after a lost COMMIT\<close>

datatype vf_stmt = VF_CONNECT | VF_BEGIN | VF_LOCK_TIMEOUT | VF_STATEMENT_TIMEOUT | VF_BARRIER | VF_READ | VF_COMMIT

text \<open>The barrier is granted when the lost transaction has ended; \<open>s\<close> is the database from then on.\<close>

definition verifyWriterModeAfterAmbiguousCommit ::
    "WriterModeSwitchTimeouts \<Rightarrow> (vf_stmt \<Rightarrow> exn option) \<Rightarrow> pg \<Rightarrow> InventoryWriterMode option result" where
  "verifyWriterModeAfterAmbiguousCommit t fails s =
     bind_result (assertTimeoutLiteral (lockTimeout t)) (\<lambda>_.
     bind_result (assertTimeoutLiteral (statementTimeout t)) (\<lambda>_.
     Inr (case bind_result (statements fails [VF_CONNECT, VF_BEGIN, VF_LOCK_TIMEOUT, VF_STATEMENT_TIMEOUT, VF_BARRIER, VF_READ]) (\<lambda>_.
           bind_result (readInventoryWriterMode s) (\<lambda>mode.
           bind_result (statements fails [VF_COMMIT]) (\<lambda>_. Inr mode))) of
        Inl e \<Rightarrow> None
      | Inr mode \<Rightarrow> Some mode)))"

section \<open>Preflight and switch\<close>

datatype WriterModeSwitchOutcome =
    PreflightViolations jsval
  | Switched jsval ExecuteWriterModeSwitchResult
  | CommitAmbiguous jsval InventoryWriterMode "ExecuteWriterModeSwitchResult option"

datatype run_error = PhaseTwoError jsval exn | RunFailed exn

record RunWriterModeSwitchOptions =
  rs_targetMode :: InventoryWriterMode
  rs_opensearchIndex :: string
  rs_pageSize :: "int option"
  rs_maxFindings :: "int option"
  rs_timeouts :: WriterModeSwitchTimeouts

datatype pf_stmt = PF_CONNECT | PF_BEGIN | PF_STATEMENT_TIMEOUT | PF_LOCK_TIMEOUT | PF_IDLE_TIMEOUT | PF_COMMIT
  | PF_PROJECTION_CONNECT | PF_SWITCH_CONNECT

text \<open>
  The run's environment: one snapshot of the tables and of the catalog for the two checks of the
  preflight, the answers of Valkey and OpenSearch, the snapshot of the reconciliation, and what the
  switch transaction and the verification meet; \<open>rw_later\<close> is what other transactions commit between the
  end of the transaction and the verification.
\<close>

record run_env =
  rw_fail :: "pf_stmt \<Rightarrow> exn option"
  rw_check :: "cd_stmt \<Rightarrow> link"
  rw_altered :: nat
  rw_revisions :: "string list"
  rw_valkey :: valkey_reader
  rw_recon :: reconcile_env
  rw_meanwhile :: "pg \<Rightarrow> pg"
  rw_switch :: switch_env
  rw_later :: "pg \<Rightarrow> pg"
  rw_verify :: "vf_stmt \<Rightarrow> exn option"

definition preflight_stores ::
    "run_env \<Rightarrow> InventoryWriterMode \<Rightarrow> int option \<Rightarrow> pg \<Rightarrow> (CutoverDatabaseCheck \<times> TicketTypeCutoverReadinessResult list) result" where
  "preflight_stores env sourceMode pageSize s =
     bind_result (statements (rw_fail env) [PF_CONNECT, PF_BEGIN, PF_STATEMENT_TIMEOUT, PF_LOCK_TIMEOUT, PF_IDLE_TIMEOUT]) (\<lambda>_.
     bind_result (checkCutoverDatabase (rw_check env) (\<lambda>_. tables_of s (rw_altered env) (rw_revisions env)) sourceMode) (\<lambda>dbCheck.
     bind_result (checkCutoverValkey (rw_valkey env) (ticket_type_inventory s) (ticket_inventory s) sourceMode Preflight pageSize) (\<lambda>vkResults.
     bind_result (statements (rw_fail env) [PF_COMMIT]) (\<lambda>_. Inr (dbCheck, vkResults)))))"

definition preflight_input ::
    "RunWriterModeSwitchOptions \<Rightarrow> InventoryWriterMode \<Rightarrow> CutoverDatabaseCheck \<Rightarrow> TicketTypeCutoverReadinessResult list
       \<Rightarrow> CutoverOpenSearchCheck \<Rightarrow> SerializeCutoverEvidenceInput" where
  "preflight_input options m dbCheck vkResults osCheck =
     \<lparr>si_expectedWriterMode = oppositeWriterMode (rs_targetMode options), si_checkPhase = Preflight, si_writerMode = m,
      si_schemaRevision = cd_schemaRevision dbCheck, si_opensearchIndex = rs_opensearchIndex options,
      si_results = cd_results dbCheck @ vkResults @ [co_result osCheck], si_opensearchReport = co_report osCheck\<rparr>"

text \<open>Phase 1: the database check, the input of the evidence, and its text.\<close>

definition preflight ::
    "(string \<Rightarrow> string option) \<Rightarrow> (string \<Rightarrow> int option) \<Rightarrow> (string \<Rightarrow> event_columns) \<Rightarrow> run_env
       \<Rightarrow> RunWriterModeSwitchOptions \<Rightarrow> pg \<Rightarrow> (CutoverDatabaseCheck \<times> SerializeCutoverEvidenceInput \<times> jsval) result" where
  "preflight date_iso date_ms columns env options s =
     bind_result (preflight_stores env (oppositeWriterMode (rs_targetMode options)) (rs_pageSize options) s) (\<lambda>(dbCheck, vkResults).
     (case cd_writerMode dbCheck of
        None \<Rightarrow> Inl (PlainError ''inventory writer control state is missing or invalid; cannot attest writerMode'')
      | Some m \<Rightarrow>
          if m = rs_targetMode options then Inl (PlainError ''refusing implicit no-op switch'')
          else
     bind_result (statements (rw_fail env) [PF_PROJECTION_CONNECT]) (\<lambda>_.
     bind_result (checkCutoverOpenSearch date_iso date_ms columns (rw_recon env) (rw_meanwhile env s)
         \<lparr>ro_index = Some (rs_opensearchIndex options), ro_pageSize = rs_pageSize options, ro_maxFindings = rs_maxFindings options\<rparr>) (\<lambda>osCheck.
     bind_result (serializeTicketTypeCutoverEvidence (preflight_input options m dbCheck vkResults osCheck)) (\<lambda>evidence.
     Inr (dbCheck, preflight_input options m dbCheck vkResults osCheck, evidence))))))"

definition commit_unknown :: exn where
  "commit_unknown = PlainError ''COMMIT outcome is unknown and writer mode verification failed''"

definition resolve_ambiguous ::
    "run_env \<Rightarrow> RunWriterModeSwitchOptions \<Rightarrow> jsval \<Rightarrow> ExecuteWriterModeSwitchResult \<Rightarrow> pg
       \<Rightarrow> run_error + WriterModeSwitchOutcome" where
  "resolve_ambiguous env options evidence pendingResult s =
     (case verifyWriterModeAfterAmbiguousCommit (rs_timeouts options) (rw_verify env) s of
        Inl e \<Rightarrow> Inl (RunFailed e)
      | Inr None \<Rightarrow> Inl (PhaseTwoError evidence commit_unknown)
      | Inr (Some mode) \<Rightarrow>
          if mode = rs_targetMode options then Inr (CommitAmbiguous evidence mode (Some pendingResult))
          else Inr (CommitAmbiguous evidence mode None))"

text \<open>What the run reports of the end of the switch transaction.\<close>

definition after_switch ::
    "run_env \<Rightarrow> RunWriterModeSwitchOptions \<Rightarrow> jsval \<Rightarrow> (switch_error + ExecuteWriterModeSwitchResult) \<times> pg
       \<Rightarrow> (run_error + WriterModeSwitchOutcome) \<times> pg" where
  "after_switch env options evidence = (\<lambda>(x, s). case x of
     Inr result \<Rightarrow> (Inr (Switched evidence result), s)
   | Inl (SwitchFailed e) \<Rightarrow> (Inl (PhaseTwoError evidence e), s)
   | Inl (CommitOutcomeUnknown pendingResult) \<Rightarrow>
       (resolve_ambiguous env options evidence pendingResult (rw_later env s), rw_later env s))"

definition runWriterModeSwitch ::
    "(string \<Rightarrow> string option) \<Rightarrow> (string \<Rightarrow> int option) \<Rightarrow> (string \<Rightarrow> event_columns) \<Rightarrow> run_env
       \<Rightarrow> RunWriterModeSwitchOptions \<Rightarrow> pg \<Rightarrow> (run_error + WriterModeSwitchOutcome) \<times> pg" where
  "runWriterModeSwitch date_iso date_ms columns env options s =
     (case preflight date_iso date_ms columns env options s of
        Inl e \<Rightarrow> (Inl (RunFailed e), rw_meanwhile env s)
      | Inr (dbCheck, input, evidence) \<Rightarrow>
          (case bind_result (hasTicketTypeCutoverViolations (si_results input)) (\<lambda>violations.
                if violations then Inr True else bind_result (statements (rw_fail env) [PF_SWITCH_CONNECT]) (\<lambda>_. Inr False)) of
             Inl e \<Rightarrow> (Inl (RunFailed e), rw_meanwhile env s)
           | Inr violations \<Rightarrow>
               if violations then (Inr (PreflightViolations evidence), rw_meanwhile env s)
               else after_switch env options evidence
                 (executeWriterModeSwitch (rw_switch env) (rs_targetMode options)
                    \<lparr>so_expectedSchemaRevision = Some (cd_schemaRevision dbCheck), so_timeouts = rs_timeouts options\<rparr>
                    (rw_meanwhile env s))))"

lemma run_cases:
  assumes "runWriterModeSwitch date_iso date_ms columns env options s = (r, s')"
  obtains (failed) e where "r = Inl (RunFailed e)" "s' = rw_meanwhile env s"
  | (violations) evidence where "r = Inr (PreflightViolations evidence)" "s' = rw_meanwhile env s"
  | (switch) dbCheck i evidence where "preflight date_iso date_ms columns env options s = Inr (dbCheck, i, evidence)"
      "hasTicketTypeCutoverViolations (si_results i) = Inr False"
      "after_switch env options evidence (executeWriterModeSwitch (rw_switch env) (rs_targetMode options)
         \<lparr>so_expectedSchemaRevision = Some (cd_schemaRevision dbCheck), so_timeouts = rs_timeouts options\<rparr>
         (rw_meanwhile env s)) = (r, s')"
proof (cases "preflight date_iso date_ms columns env options s")
  case (Inr p)
  obtain dbCheck i evidence where p: "p = (dbCheck, i, evidence)" using prod_cases3 by blast
  show thesis
  proof (cases "hasTicketTypeCutoverViolations (si_results i)")
    case (Inr b)
    show thesis
      using assms \<open>preflight _ _ _ _ _ _ = Inr p\<close> Inr p that
      by (cases b; cases "rw_fail env PF_SWITCH_CONNECT") (auto simp: runWriterModeSwitch_def)
  qed (use assms Inr p that(1) in \<open>auto simp: runWriterModeSwitch_def\<close>)
qed (use assms that(1) in \<open>auto simp: runWriterModeSwitch_def\<close>)

section \<open>The checks of the transaction\<close>

lemma statements_Inr: "statements fails qs = Inr u \<longleftrightarrow> list_all (\<lambda>q. fails q = None) qs"
  by (induction qs) (auto split: option.split)

lemma opposite_mode [simp]: "oppositeWriterMode (oppositeWriterMode m) = m" "oppositeWriterMode m \<noteq> m" "m \<noteq> oppositeWriterMode m"
  by (cases m; simp add: oppositeWriterMode_def)+

lemma collect_rows_nonneg:
  "collect_rows expt rows acc = Inr cs \<Longrightarrow> \<forall>c \<in> set acc. 0 \<le> snd c \<Longrightarrow> \<forall>c \<in> set cs. 0 \<le> snd c"
  by (induction expt rows acc rule: collect_rows.induct) (auto split: if_splits)

lemma collect_nonneg: "collectCategoryCounts rows expt = Inr rs \<Longrightarrow> r \<in> set rs \<Longrightarrow> 0 \<le> snd r"
proof -
  assume "collectCategoryCounts rows expt = Inr rs" and r: "r \<in> set rs"
  then obtain cs where cs: "collect_rows expt rows [] = Inr cs" and rs: "rs = map (\<lambda>c. (c, the (map_of cs c))) expt"
    and all: "\<forall>c \<in> set expt. map_of cs c \<noteq> None"
    by (auto simp: collectCategoryCounts_def bind_result_Inr filter_empty_conv split: if_splits)
  from r rs obtain c where c: "c \<in> set expt" "r = (c, the (map_of cs c))" by auto
  with all obtain n where n: "map_of cs c = Some n" by blast
  from map_of_SomeD [OF n] collect_rows_nonneg [OF cs] have "0 \<le> n" by force
  with c n show ?thesis by simp
qed

lemma no_violations_clean: "assertNoCutoverViolations rs = Inr u \<Longrightarrow> (\<And>r. r \<in> set rs \<Longrightarrow> 0 \<le> snd r) \<Longrightarrow> clean rs"
  by (force simp: assertNoCutoverViolations_def filter_empty_conv clean_def split: if_splits)

lemma clean_zeros: "clean rs \<Longrightarrow> rs = map (\<lambda>k. (k, 0)) (map fst rs)"
  by (induction rs) (auto simp: clean_def)

text \<open>The conditions on the tables do not depend on the catalog.\<close>

abbreviation tables :: "pg \<Rightarrow> cutover_tables" where
  "tables s \<equiv> tables_of s 0 []"

lemma switchable_catalog: "switchable m (tables_of s altered revisions) \<longleftrightarrow> altered = 0 \<and> switchable m (tables s)"
  by (auto simp: switchable_def tables_of_def default_types_def)

lemma switch_check_clean:
  assumes "switch_check env t m s = Inr c" "assertNoCutoverViolations (cd_results c) = Inr u"
  shows "switchable m (tables s)" "cd_results c = map (\<lambda>k. (k, 0)) DATABASE_CATEGORIES"
proof -
  from assms(1) have col: "collectCategoryCounts (TICKET_TYPE_CUTOVER_DATABASE_SQL m
      (tables_of s (fst (sw_catalog env t CD_VIOLATIONS)) (snd (sw_catalog env t CD_VIOLATIONS)))) DATABASE_CATEGORIES = Inr (cd_results c)"
    by (simp add: switch_check_def checkCutoverDatabase_Inr)
  have clean: "clean (cd_results c)" using no_violations_clean [OF assms(2)] collect_nonneg [OF col] by blast
  with database_results(1) [OF col] show "switchable m (tables s)" using switchable_catalog by blast
  from clean_zeros [OF clean] database_results(2) [OF col] show "cd_results c = map (\<lambda>k. (k, 0)) DATABASE_CATEGORIES" by metis
qed

lemma check_passes:
  assumes "switchable m (tables s)" "\<forall>q. net q = Delivered" "\<forall>q. seen q = tables_of s 0 (r # rs)" "r \<noteq> []"
  shows "checkCutoverDatabase net seen m
    = Inr \<lparr>cd_results = map (\<lambda>k. (k, 0)) DATABASE_CATEGORIES, cd_writerMode = Some m, cd_schemaRevision = r\<rparr>"
proof -
  have sw: "switchable m (tables_of s 0 (r # rs))" using assms(1) switchable_catalog by blast
  then have "ct_control (tables_of s 0 (r # rs)) = [(True, mode_text m)]" by (simp add: switchable_def)
  with collect_zero [OF sql_categories distinct_database_categories sw [folded database_counts_zero]] assms(2-4)
  show ?thesis by (simp add: checkCutoverDatabase_Inr) (simp add: tables_of_def)
qed

section \<open>The transaction is atomic\<close>

text \<open>
  \<open>s'\<close> is \<open>s\<close> after the step of a history that switches the writer, and both satisfied the conditions of
  their modes.
\<close>

definition checked_switch :: "InventoryWriterMode \<Rightarrow> pg \<Rightarrow> pg \<Rightarrow> bool" where
  "checked_switch targetMode s s' \<longleftrightarrow>
     switchable (oppositeWriterMode targetMode) (tables s) \<and> switchable targetMode (tables s')
   \<and> s' = shop_perform (DbOp (SwitchWriter targetMode)) s"

lemma switch_body_Inr:
  assumes "switch_body env targetMode expected s = Inr (outcome, s')"
  shows "checked_switch targetMode s s'" "sr_sourceMode outcome = oppositeWriterMode targetMode" "sr_targetMode outcome = targetMode"
    "sr_postSwitchDatabaseResults outcome = map (\<lambda>k. (k, 0)) DATABASE_CATEGORIES"
    "expected = None \<or> expected = Some (sr_schemaRevision outcome)"
proof -
  from assms obtain before after where
    b: "switch_check env BeforeSwitch (oppositeWriterMode targetMode) s = Inr before"
      "accept_before (oppositeWriterMode targetMode) expected before = Inr ()"
    and u: "updateInventoryWriterMode targetMode s = Inr s'"
    and a: "switch_check env AfterSwitch targetMode s' = Inr after" "accept_after targetMode before after = Inr ()"
    and outcome: "outcome = \<lparr>sr_sourceMode = oppositeWriterMode targetMode, sr_targetMode = targetMode,
        sr_schemaRevision = cd_schemaRevision before, sr_postSwitchDatabaseResults = cd_results after\<rparr>"
    by (auto simp: switch_body_def bind_result_Inr)
  from b(2) have nb: "assertNoCutoverViolations (cd_results before) = Inr ()"
    and e: "expected = None \<or> expected = Some (cd_schemaRevision before)"
    by (auto simp: accept_before_def split: option.splits if_splits)
  from a(2) have na: "assertNoCutoverViolations (cd_results after) = Inr ()" by (auto simp: accept_after_def split: if_splits)
  show "checked_switch targetMode s s'"
    using switch_check_clean(1) [OF b(1) nb] switch_check_clean(1) [OF a(1) na] u by (simp add: checked_switch_def)
  show "sr_sourceMode outcome = oppositeWriterMode targetMode" "sr_targetMode outcome = targetMode"
    "sr_postSwitchDatabaseResults outcome = map (\<lambda>k. (k, 0)) DATABASE_CATEGORIES"
    "expected = None \<or> expected = Some (sr_schemaRevision outcome)"
    using e switch_check_clean(2) [OF a(1) na] by (auto simp: outcome)
qed

text \<open>The switch is one atomic step of the database: on success the tables that it found satisfied
  every condition of the source mode, the committed tables satisfy every condition of the target mode,
  they differ from what it found in the control row only (the step that histories of purchases take),
  and the reported counts are zero in all categories; on a failure it changed nothing; and when the
  answer to COMMIT is lost, one of the two holds and the pending result describes the first.\<close>

theorem switch_is_atomic:
  assumes "executeWriterModeSwitch env targetMode options s = (r, s')"
  shows "case r of
      Inr result \<Rightarrow> checked_switch targetMode (sw_drained env s) s' \<and> sr_targetMode result = targetMode
        \<and> sr_postSwitchDatabaseResults result = map (\<lambda>k. (k, 0)) DATABASE_CATEGORIES
    | Inl (SwitchFailed e) \<Rightarrow> s' = sw_drained env s
    | Inl (CommitOutcomeUnknown result) \<Rightarrow>
        (s' = sw_drained env s \<or> checked_switch targetMode (sw_drained env s) s')
        \<and> checked_switch targetMode (sw_drained env s) (shop_perform (DbOp (SwitchWriter targetMode)) (sw_drained env s))
        \<and> sr_targetMode result = targetMode
        \<and> sr_postSwitchDatabaseResults result = map (\<lambda>k. (k, 0)) DATABASE_CATEGORIES"
proof (cases "switch_body env targetMode (so_expectedSchemaRevision options) (sw_drained env s)")
  case (Inl e)
  with assms show ?thesis by (auto simp: executeWriterModeSwitch_def split: sum.splits)
next
  case (Inr p)
  obtain outcome s1 where p: "p = (outcome, s1)" by fastforce
  note b = switch_body_Inr [OF Inr [unfolded p]]
  have "s1 = shop_perform (DbOp (SwitchWriter targetMode)) (sw_drained env s)" using b(1) by (simp add: checked_switch_def)
  with b Inr p assms show ?thesis
    by (auto simp: executeWriterModeSwitch_def split: sum.splits link.splits)
qed

section \<open>A healthy switch succeeds\<close>

lemma read_mode_control: "readInventoryWriterMode s = Inr m \<longleftrightarrow> writer_control s = Some (mode_text m)"
  by (cases m) (auto simp: readInventoryWriterMode_def mode_text_def split: option.splits if_splits)

lemma history_sound:
  assumes "list_all shop_admissible ops"
  shows "sound (fold shop_perform ops (empty_pg m)) \<and> sole_types (fold shop_perform ops (empty_pg m))"
proof (rule shop_run [OF assms])
  show "sound (empty_pg m) \<and> sole_types (empty_pg m)"
    by (cases m) (simp_all add: empty_pg_def sound_def pg_inv_def pg_wf_def aggregates_match_def stock_conserved_def
        requests_unique_def purchases_linked_def listed_def sole_types_def mode_text_def)
qed

lemma sound_switch:
  assumes "sound d" "sole_types d" "writer_control d = Some (mode_text (oppositeWriterMode targetMode))"
  shows "checked_switch targetMode d (d\<lparr>writer_control := Some (mode_text targetMode)\<rparr>)"
proof -
  let ?s1 = "d\<lparr>writer_control := Some (mode_text targetMode)\<rparr>"
  have u: "updateInventoryWriterMode targetMode d = Inr ?s1" using assms(3) by (simp add: updateInventoryWriterMode_def)
  then have "sound ?s1 \<and> sole_types ?s1" using shop_step [of "DbOp (SwitchWriter targetMode)" d] assms(1,2) by simp
  with sound_switchable [OF assms] sound_switchable [of ?s1 targetMode] u show ?thesis by (simp add: checked_switch_def)
qed

lemma switch_commits:
  assumes "checked_switch targetMode d (d\<lparr>writer_control := Some (mode_text targetMode)\<rparr>)" "sw_drained env s = d"
    and "writer_control d = Some (mode_text (oppositeWriterMode targetMode))"
    and "\<forall>q. sw_fail env q = None" "\<forall>t q. sw_check env t q = Delivered"
    and "\<forall>t q. sw_catalog env t q = (0, r # rs)" "r \<noteq> []"
    and "check_timeouts (so_timeouts options) = Inr ()" "so_expectedSchemaRevision options \<in> {None, Some r}"
  shows "executeWriterModeSwitch env targetMode options s =
    (let result = \<lparr>sr_sourceMode = oppositeWriterMode targetMode, sr_targetMode = targetMode, sr_schemaRevision = r,
          sr_postSwitchDatabaseResults = map (\<lambda>k. (k, 0)) DATABASE_CATEGORIES\<rparr>
     in case sw_commit env of Delivered \<Rightarrow> (Inr result, d\<lparr>writer_control := Some (mode_text targetMode)\<rparr>)
        | LostReply \<Rightarrow> (Inl (CommitOutcomeUnknown result), d\<lparr>writer_control := Some (mode_text targetMode)\<rparr>)
        | LostRequest \<Rightarrow> (Inl (CommitOutcomeUnknown result), d))"
proof -
  let ?m = "oppositeWriterMode targetMode" and ?zeros = "map (\<lambda>k. (k, 0)) DATABASE_CATEGORIES"
  let ?s1 = "d\<lparr>writer_control := Some (mode_text targetMode)\<rparr>"
  have u: "updateInventoryWriterMode targetMode d = Inr ?s1" using assms(3) by (simp add: updateInventoryWriterMode_def)
  have sw: "switchable ?m (tables d)" "switchable targetMode (tables ?s1)" using assms(1) unfolding checked_switch_def by blast+
  have check: "switch_check env t m x = Inr \<lparr>cd_results = ?zeros, cd_writerMode = Some m, cd_schemaRevision = r\<rparr>"
    if "switchable m (tables x)" for t m x
    using check_passes [OF that] assms(5-7) by (simp add: switch_check_def)
  have "assertNoCutoverViolations ?zeros = Inr ()" by (simp add: assertNoCutoverViolations_def)
  then have "switch_body env targetMode (so_expectedSchemaRevision options) d =
      Inr (\<lparr>sr_sourceMode = ?m, sr_targetMode = targetMode, sr_schemaRevision = r, sr_postSwitchDatabaseResults = ?zeros\<rparr>, ?s1)"
    using assms(4,9) check [OF sw(1)] check [OF sw(2)] u
    by (auto simp: switch_body_def accept_before_def accept_after_def)
  with assms(2,4,8) show ?thesis by (simp add: executeWriterModeSwitch_def Let_def split: link.split)
qed

text \<open>Nothing in the program's own data can block a switch: after any history of registrations, purchases
  and earlier switches, a switch to the other mode commits when its statements are answered, the time
  limits are well-formed, and no migration or catalog change came in between; the new mode is then in
  force and the inventory is untouched.\<close>

theorem healthy_switch_commits:
  assumes "list_all shop_admissible ops" "sw_drained env s = fold shop_perform ops (empty_pg m0)"
    and "readInventoryWriterMode (sw_drained env s) = Inr (oppositeWriterMode targetMode)"
    and "\<forall>q. sw_fail env q = None" "\<forall>t q. sw_check env t q = Delivered" "sw_commit env = Delivered"
    and "\<forall>t q. sw_catalog env t q = (0, r # rs)" "r \<noteq> []"
    and "check_timeouts (so_timeouts options) = Inr ()" "so_expectedSchemaRevision options \<in> {None, Some r}"
  shows "\<exists>result. executeWriterModeSwitch env targetMode options s = (Inr result, (sw_drained env s)\<lparr>writer_control := Some (mode_text targetMode)\<rparr>)
    \<and> sr_schemaRevision result = r"
proof -
  have d: "sound (sw_drained env s) \<and> sole_types (sw_drained env s)" using history_sound [OF assms(1)] assms(2) by simp
  have w: "writer_control (sw_drained env s) = Some (mode_text (oppositeWriterMode targetMode))" using assms(3) by (simp add: read_mode_control)
  show ?thesis using switch_commits [OF sound_switch [OF _ _ w] refl w assms(4,5,7-10)] d assms(6) by (simp add: Let_def)
qed

section \<open>What an outcome says\<close>

lemma switch_cases:
  assumes "executeWriterModeSwitch env targetMode options s = (r, s')"
  obtains (committed) result where "r = Inr result" "checked_switch targetMode (sw_drained env s) s'"
  | (failed) e where "r = Inl (SwitchFailed e)" "s' = sw_drained env s"
  | (lost_done) result where "r = Inl (CommitOutcomeUnknown result)" "check_timeouts (so_timeouts options) = Inr ()"
      "checked_switch targetMode (sw_drained env s) s'"
  | (lost_not) result where "r = Inl (CommitOutcomeUnknown result)" "check_timeouts (so_timeouts options) = Inr ()" "s' = sw_drained env s"
      "checked_switch targetMode (sw_drained env s) (shop_perform (DbOp (SwitchWriter targetMode)) (sw_drained env s))"
proof (cases r)
  case (Inl x)
  show thesis
  proof (cases x)
    case (CommitOutcomeUnknown result)
    from assms Inl CommitOutcomeUnknown have "check_timeouts (so_timeouts options) = Inr ()"
      by (auto simp: executeWriterModeSwitch_def bind_result_Inr split: sum.splits)
    with Inl CommitOutcomeUnknown switch_is_atomic [OF assms] that(3,4) show thesis by auto
  qed (use Inl switch_is_atomic [OF assms] that(2) in auto)
qed (use switch_is_atomic [OF assms] that(1) in auto)

lemma checked_switch_modes:
  assumes "checked_switch targetMode s s'"
  shows "readInventoryWriterMode s = Inr (oppositeWriterMode targetMode)" "readInventoryWriterMode s' = Inr targetMode"
proof -
  have "readInventoryWriterMode x = Inr m" if "switchable m (tables x)" for m x
    using that by (auto simp: switchable_def tables_of_def read_mode_control split: option.splits)
  with assms show "readInventoryWriterMode s = Inr (oppositeWriterMode targetMode)" "readInventoryWriterMode s' = Inr targetMode"
    by (auto simp only: checked_switch_def)
qed

lemma verify_returns: "check_timeouts t = Inr u \<Longrightarrow> verifyWriterModeAfterAmbiguousCommit t fails s \<noteq> Inl e"
  by (auto simp: verifyWriterModeAfterAmbiguousCommit_def check_timeouts_def bind_result_Inr)

lemma verified_mode: "verifyWriterModeAfterAmbiguousCommit t fails s = Inr (Some m) \<Longrightarrow> readInventoryWriterMode s = Inr m"
  by (auto simp: verifyWriterModeAfterAmbiguousCommit_def bind_result_Inr split: sum.splits)

lemma preflight_Inr:
  assumes "preflight date_iso date_ms columns env options s = Inr (dbCheck, i, evidence)"
  obtains vkResults osCheck m where
    "checkCutoverDatabase (rw_check env) (\<lambda>_. tables_of s (rw_altered env) (rw_revisions env)) (oppositeWriterMode (rs_targetMode options)) = Inr dbCheck"
    "checkCutoverValkey (rw_valkey env) (ticket_type_inventory s) (ticket_inventory s) (oppositeWriterMode (rs_targetMode options))
       Preflight (rs_pageSize options) = Inr vkResults"
    "checkCutoverOpenSearch date_iso date_ms columns (rw_recon env) (rw_meanwhile env s)
       \<lparr>ro_index = Some (rs_opensearchIndex options), ro_pageSize = rs_pageSize options, ro_maxFindings = rs_maxFindings options\<rparr> = Inr osCheck"
    "i = preflight_input options m dbCheck vkResults osCheck" "serializeTicketTypeCutoverEvidence i = Inr evidence"
proof -
  from assms obtain vkResults where p: "preflight_stores env (oppositeWriterMode (rs_targetMode options)) (rs_pageSize options) s = Inr (dbCheck, vkResults)"
    by (auto simp: preflight_def bind_result_Inr split: option.splits if_splits)
  with assms obtain m osCheck where
    "checkCutoverOpenSearch date_iso date_ms columns (rw_recon env) (rw_meanwhile env s)
       \<lparr>ro_index = Some (rs_opensearchIndex options), ro_pageSize = rs_pageSize options, ro_maxFindings = rs_maxFindings options\<rparr> = Inr osCheck"
    "i = preflight_input options m dbCheck vkResults osCheck" "serializeTicketTypeCutoverEvidence i = Inr evidence"
    by (auto simp: preflight_def bind_result_Inr split: option.splits if_splits)
  moreover from p have "checkCutoverDatabase (rw_check env) (\<lambda>_. tables_of s (rw_altered env) (rw_revisions env)) (oppositeWriterMode (rs_targetMode options)) = Inr dbCheck"
    "checkCutoverValkey (rw_valkey env) (ticket_type_inventory s) (ticket_inventory s) (oppositeWriterMode (rs_targetMode options))
       Preflight (rs_pageSize options) = Inr vkResults"
    by (auto simp: preflight_stores_def bind_result_Inr)
  ultimately show thesis by (rule that [rotated 2])
qed

lemma no_violations_clean_results: "hasTicketTypeCutoverViolations rs = Inr False \<Longrightarrow> clean rs"
  by (fastforce simp: hasTicketTypeCutoverViolations_def bind_result_Inr assert_complete_iff complete_results_def
      list_all_iff list_ex_iff clean_def)

lemma cutover_report_clean:
  "checkCutoverOpenSearch date_iso date_ms columns env s options = Inr c \<Longrightarrow> snd (co_result c) = 0 \<Longrightarrow> \<not> rp_hasDiff (co_report c)"
  by (auto simp: checkCutoverOpenSearch_def reconcileInventoryProjection_def report_of_def Let_def split: if_splits prod.splits)

lemma type_cursors_distinct: "pg_wf s \<Longrightarrow> distinct (map type_cursor (ticket_type_inventory s))"
proof -
  assume "pg_wf s"
  then have "distinct (map tti_type (ticket_type_inventory s))" by (simp add: pg_wf_def)
  then have "distinct (map snd (map type_cursor (ticket_type_inventory s)))" by (simp add: type_cursor_def comp_def)
  then show ?thesis using distinct_map by blast
qed

text \<open>C27: a switched writer means that the stores agreed: when the tool reports \<open>switched\<close>, the transaction was
  the atomic step between two sound databases, and its preflight had found every Ticket Type counter at
  the remaining quantity of its row, before a switch back to legacy mode also every Event counter, and
  for every Event a document that shows exactly its rows.\<close>

theorem switched_means_stores_agreed:
  assumes "runWriterModeSwitch date_iso date_ms columns env options s = (Inr (Switched evidence result), s')"
    and "pg_wf s" "pg_wf (rw_meanwhile env s)"
  shows "checked_switch (rs_targetMode options) (sw_drained (rw_switch env) (rw_meanwhile env s)) s'
    \<and> (\<forall>r \<in> set (ticket_type_inventory s). \<exists>i. rv_get (rw_valkey env) i (ticketTypeCounterKey (tti_event r) (tti_type r))
         = Inr (Some (decimal (nat (tti_remaining r)))))
    \<and> (rs_targetMode options = Legacy \<longrightarrow> (\<forall>r \<in> set (ticket_inventory s). \<exists>i.
         rv_get (rw_valkey env) i (eventCounterKey (ti_event r)) = Inr (Some (decimal (nat (ti_remaining r))))))
    \<and> (\<forall>r \<in> set (event_rows (rw_meanwhile env s)). \<exists>a i docs doc.
         authoritative_event date_iso columns (rw_meanwhile env s) r = Inr a
       \<and> re_mget (rw_recon env) i = Inr docs \<and> docs (ti_event r) = Some doc \<and> document_current date_ms a doc)"
proof -
  let ?m = "oppositeWriterMode (rs_targetMode options)"
  obtain dbCheck i where p: "preflight date_iso date_ms columns env options s = Inr (dbCheck, i, evidence)"
    and v: "hasTicketTypeCutoverViolations (si_results i) = Inr False"
    and x: "executeWriterModeSwitch (rw_switch env) (rs_targetMode options)
      \<lparr>so_expectedSchemaRevision = Some (cd_schemaRevision dbCheck), so_timeouts = rs_timeouts options\<rparr> (rw_meanwhile env s) = (Inr result, s')"
    using assms(1)
  proof (cases rule: run_cases)
    case (switch dbCheck i evidence')
    from switch(3) that [of dbCheck i] switch(1,2) show thesis
      by (auto simp: after_switch_def resolve_ambiguous_def split: prod.splits sum.splits switch_error.splits option.splits if_splits)
  qed simp_all
  obtain vkResults osCheck m where
    vk: "checkCutoverValkey (rw_valkey env) (ticket_type_inventory s) (ticket_inventory s) ?m Preflight (rs_pageSize options) = Inr vkResults"
    and os: "checkCutoverOpenSearch date_iso date_ms columns (rw_recon env) (rw_meanwhile env s)
       \<lparr>ro_index = Some (rs_opensearchIndex options), ro_pageSize = rs_pageSize options, ro_maxFindings = rs_maxFindings options\<rparr> = Inr osCheck"
    and i: "i = preflight_input options m dbCheck vkResults osCheck"
    by (rule preflight_Inr [OF p])
  from no_violations_clean_results [OF v] have c: "clean vkResults" "snd (co_result osCheck) = 0"
    by (auto simp: i preflight_input_def clean_def)
  have d: "distinct (map ti_event (ticket_inventory s))" "distinct (map ti_event (ticket_inventory (rw_meanwhile env s)))"
    using assms(2,3) by (simp_all add: pg_wf_def)
  note counters = clean_preflight_means_current_counters [OF vk c(1) type_cursors_distinct [OF assms(2)] d(1)]
  from os obtain report where rec: "reconcileInventoryProjection date_iso date_ms columns (rw_recon env) (rw_meanwhile env s)
      \<lparr>ro_index = Some (rs_opensearchIndex options), ro_pageSize = rs_pageSize options, ro_maxFindings = rs_maxFindings options\<rparr> = Inr report"
    and "report = co_report osCheck" by (auto simp: checkCutoverOpenSearch_def)
  with cutover_report_clean [OF os c(2)] have "\<not> rp_hasDiff report" by simp
  note docs = clean_report_facts [OF rec this d(2)]
  have "\<forall>r \<in> set (ticket_inventory s). \<exists>i. rv_get (rw_valkey env) i (eventCounterKey (ti_event r)) = Inr (Some (decimal (nat (ti_remaining r))))"
    if "rs_targetMode options = Legacy"
    using counters [THEN conjunct2, THEN conjunct1] that by (simp add: oppositeWriterMode_def)
  moreover have "checked_switch (rs_targetMode options) (sw_drained (rw_switch env) (rw_meanwhile env s)) s'"
    using switch_is_atomic [OF x] by simp
  ultimately show ?thesis using counters [THEN conjunct1] docs [THEN conjunct1] by blast
qed

text \<open>Every outcome is true of the database: a run that failed before the switch or found violations
  changed nothing, \<open>switched\<close> means switched, a failure in the switch transaction means that nothing was
  changed, and when the answer to COMMIT was lost, the mode that the tool verifies tells exactly whether
  the switch was committed (and the pending result is passed on only then); only when the verification
  fails as well does the tool leave it open.\<close>

theorem run_outcome_is_true:
  assumes "runWriterModeSwitch date_iso date_ms columns env options s = (r, s')" "\<forall>x. rw_later env x = x"
    and "d = sw_drained (rw_switch env) (rw_meanwhile env s)"
  shows "case r of
      Inl (RunFailed e) \<Rightarrow> s' = rw_meanwhile env s
    | Inr (PreflightViolations evidence) \<Rightarrow> s' = rw_meanwhile env s
    | Inr (Switched evidence result) \<Rightarrow> checked_switch (rs_targetMode options) d s'
    | Inl (PhaseTwoError evidence e) \<Rightarrow> s' = d \<or> (e = commit_unknown \<and> checked_switch (rs_targetMode options) d s')
    | Inr (CommitAmbiguous evidence mode result) \<Rightarrow>
        (if mode = rs_targetMode options then checked_switch (rs_targetMode options) d s' \<and> result \<noteq> None
         else s' = d \<and> result = None)"
  using assms(1)
proof (cases rule: run_cases)
  case (switch dbCheck i evidence)
  let ?t = "rs_targetMode options"
  obtain x s2 where x: "executeWriterModeSwitch (rw_switch env) ?t
      \<lparr>so_expectedSchemaRevision = Some (cd_schemaRevision dbCheck), so_timeouts = rs_timeouts options\<rparr> (rw_meanwhile env s) = (x, s2)"
    by fastforce
  note r = switch(3) [unfolded x after_switch_def prod.case, symmetric]
  note verify = verify_returns [of "rs_timeouts options" "()" "rw_verify env" s2]
  from x show ?thesis
  proof (cases rule: switch_cases)
    case (lost_done result)
    have "m = ?t" if "verifyWriterModeAfterAmbiguousCommit (rs_timeouts options) (rw_verify env) s2 = Inr (Some m)" for m
      using verified_mode [OF that] checked_switch_modes(2) [OF lost_done(3)] by simp
    with lost_done r verify assms(2,3) show ?thesis by (auto simp: resolve_ambiguous_def split: option.splits sum.splits)
  next
    case (lost_not result)
    have "m \<noteq> ?t" if "verifyWriterModeAfterAmbiguousCommit (rs_timeouts options) (rw_verify env) s2 = Inr (Some m)" for m
      using verified_mode [OF that] checked_switch_modes(1) [OF lost_not(4)] lost_not(3) opposite_mode(2) [of ?t] by auto
    with lost_not r verify assms(2,3) show ?thesis by (auto simp: resolve_ambiguous_def split: option.splits sum.splits)
  qed (use r assms(3) in simp_all)
qed simp_all

section \<open>A run on the sample stores\<close>

lemma preflight_passes:
  assumes "\<forall>q. rw_fail env q = None" "\<forall>q. rw_check env q = Delivered" "rw_altered env = 0" "rw_revisions env = r # rs" "r \<noteq> []"
    and "switchable (oppositeWriterMode (rs_targetMode options)) (tables s)"
    and "checkCutoverValkey (rw_valkey env) (ticket_type_inventory s) (ticket_inventory s)
      (oppositeWriterMode (rs_targetMode options)) Preflight (rs_pageSize options) = Inr (map (\<lambda>k. (k, 0)) VALKEY_CATEGORIES)"
    and "checkCutoverOpenSearch date_iso date_ms columns (rw_recon env) (rw_meanwhile env s)
       \<lparr>ro_index = Some (rs_opensearchIndex options), ro_pageSize = rs_pageSize options, ro_maxFindings = rs_maxFindings options\<rparr> = Inr c"
    and "rp_totalDiffs (co_report c) = 0" "co_result c = (''opensearch_projection_diff'', 0)"
    and "rp_index (co_report c) = rs_opensearchIndex options" "rs_opensearchIndex options \<noteq> []"
  obtains d i v where "preflight date_iso date_ms columns env options s = Inr (d, i, v)" "cd_schemaRevision d = r"
    "hasTicketTypeCutoverViolations (si_results i) = Inr False"
proof -
  let ?m = "oppositeWriterMode (rs_targetMode options)" and ?vk = "map (\<lambda>k. (k, 0)) VALKEY_CATEGORIES"
  let ?d = "\<lparr>cd_results = map (\<lambda>k. (k, 0)) DATABASE_CATEGORIES, cd_writerMode = Some ?m, cd_schemaRevision = r\<rparr>"
  let ?i = "preflight_input options ?m ?d ?vk c"
  have res: "si_results ?i = map (\<lambda>k. (k, 0)) TICKET_TYPE_CUTOVER_READINESS_CATEGORIES"
    by (simp add: preflight_input_def assms(10) TICKET_TYPE_CUTOVER_READINESS_CATEGORIES_def)
  have complete: "complete_results (si_results ?i)" unfolding res by code_simp
  moreover have "projection_result (si_results ?i) = Some 0" unfolding res by code_simp
  ultimately have "serializeTicketTypeCutoverEvidence ?i = Inr (evidence_json (evidence_of ?i))"
    using assms(5,9,11,12) by (simp add: serialize_Inr) (simp add: preflight_input_def)
  moreover have "checkCutoverDatabase (rw_check env) (\<lambda>_. tables_of s (rw_altered env) (rw_revisions env)) ?m = Inr ?d"
    using check_passes [OF assms(6)] assms(2-5) by simp
  ultimately have p: "preflight date_iso date_ms columns env options s = Inr (?d, ?i, evidence_json (evidence_of ?i))"
    using assms(1,7,8) by (simp add: preflight_def preflight_stores_def)
  have "assertTicketTypeCutoverReadinessComplete (map raw (si_results ?i)) = Inr ()"
    by (rule assert_complete_iff [THEN iffD2, OF complete])
  then have "hasTicketTypeCutoverViolations (si_results ?i) = Inr (list_ex (\<lambda>r. 0 < snd r) (si_results ?i))"
    by (simp only: hasTicketTypeCutoverViolations_def bind_result_simps)
  then have h: "hasTicketTypeCutoverViolations (si_results ?i) = Inr False" unfolding res by (simp add: list_ex_iff)
  show thesis by (rule that [OF p _ h]) simp
qed

text \<open>The sample inventory, its counter and its document, in a run that switches to Ticket Type mode.\<close>

definition sample_counter :: valkey where
  "sample_counter = empty_keys\<lparr>data := map_of [(ticketTypeCounterKey uuid_a uuid_b, 5), (ticketTypeCounterRevisionKey uuid_a uuid_b, 4)]\<rparr>"

definition sample_switch_reader :: valkey_reader where
  "sample_switch_reader = \<lparr>rv_get = (\<lambda>i k. Inr (map_option int_text (vk_get k sample_counter))),
     rv_scan = [Inr [ticketTypeCounterKey uuid_a uuid_b]],
     rv_type_page = (\<lambda>_. False), rv_present = (\<lambda>_. False), rv_event_page = (\<lambda>_. False)\<rparr>"

definition sample_switch :: "link \<Rightarrow> (pg \<Rightarrow> pg) \<Rightarrow> switch_env" where
  "sample_switch commit others = \<lparr>sw_fail = (\<lambda>_. None), sw_check = (\<lambda>_ _. Delivered), sw_catalog = (\<lambda>_ _. (0, [''rev1''])),
     sw_commit = commit, sw_drained = others\<rparr>"

definition sample_run_env :: "link \<Rightarrow> run_env" where
  "sample_run_env commit = \<lparr>rw_fail = (\<lambda>_. None), rw_check = (\<lambda>_. Delivered), rw_altered = 0, rw_revisions = [''rev1''],
     rw_valkey = sample_switch_reader, rw_recon = sample_search, rw_meanwhile = (\<lambda>s. s), rw_switch = sample_switch commit (\<lambda>s. s),
     rw_later = (\<lambda>s. s), rw_verify = (\<lambda>_. None)\<rparr>"

definition sample_options :: RunWriterModeSwitchOptions where
  "sample_options = \<lparr>rs_targetMode = TicketTypeMode, rs_opensearchIndex = EVENTS_INDEX, rs_pageSize = None, rs_maxFindings = None,
     rs_timeouts = DEFAULT_WRITER_MODE_SWITCH_TIMEOUTS\<rparr>"

abbreviation sample_run :: "link \<Rightarrow> (run_error + WriterModeSwitchOutcome) \<times> pg" where
  "sample_run commit \<equiv> runWriterModeSwitch Some (\<lambda>s. Some (int (length s))) sample_columns (sample_run_env commit) sample_options sample_inventory"

abbreviation switched_inventory :: pg where
  "switched_inventory \<equiv> sample_inventory\<lparr>writer_control := Some (mode_text TicketTypeMode)\<rparr>"

lemma sample_timeouts [simp]: "check_timeouts DEFAULT_WRITER_MODE_SWITCH_TIMEOUTS = Inr ()"
  by code_simp

lemma sample_checked_switch: "checked_switch TicketTypeMode sample_inventory switched_inventory"
proof -
  have "switchable Legacy (tables sample_inventory)" "switchable TicketTypeMode (tables switched_inventory)"
    by (auto simp: switchable_def tables_of_def sample_inventory_def default_types_def sum_where_def)
  moreover have "updateInventoryWriterMode TicketTypeMode sample_inventory = Inr switched_inventory"
    by (simp add: updateInventoryWriterMode_def sample_inventory_def)
  ultimately show ?thesis by (simp add: checked_switch_def oppositeWriterMode_def)
qed

lemma sample_counters_pass:
  "checkCutoverValkey sample_switch_reader (ticket_type_inventory sample_inventory) (ticket_inventory sample_inventory) Legacy Preflight None
     = Inr (map (\<lambda>c. (c, 0)) VALKEY_CATEGORIES)"
proof (rule current_counters_pass)
  show "serves sample_switch_reader sample_counter" by (simp add: serves_def sample_switch_reader_def)
  show "list_all (type_counter_current sample_counter) (ticket_type_inventory sample_inventory)" by code_simp
  show "list_all uuid_row (ticket_type_inventory sample_inventory)" by code_simp
  show "list_all (scan_known (ticket_type_inventory sample_inventory)) (rv_scan sample_switch_reader)" by code_simp
  show "list_all (event_counter_current (Legacy = TicketTypeMode) sample_counter) (ticket_inventory sample_inventory)" by code_simp
  show "distinct (map type_cursor (ticket_type_inventory sample_inventory))" by code_simp
  show "distinct (map ti_event (ticket_inventory sample_inventory))" by code_simp
qed

lemma sample_search_options:
  obtains c where "checkCutoverOpenSearch Some (\<lambda>s. Some (int (length s))) sample_columns sample_search sample_inventory
      \<lparr>ro_index = Some EVENTS_INDEX, ro_pageSize = None, ro_maxFindings = None\<rparr> = Inr c"
    "rp_totalDiffs (co_report c) = 0" "co_result c = (''opensearch_projection_diff'', 0)" "rp_index (co_report c) = EVENTS_INDEX"
proof -
  obtain c where c: "sample_check_search = Inr c" "rp_totalDiffs (co_report c) = 0" "rp_index (co_report c) = EVENTS_INDEX"
    by (rule sample_check_search_ok)
  moreover from c(1) have "checkCutoverOpenSearch Some (\<lambda>s. Some (int (length s))) sample_columns sample_search sample_inventory
      \<lparr>ro_index = Some EVENTS_INDEX, ro_pageSize = None, ro_maxFindings = None\<rparr> = Inr c"
    by (simp add: sample_check_search_def checkCutoverOpenSearch_def)
  moreover from c(1,2) have "co_result c = (''opensearch_projection_diff'', 0)"
    by (auto simp: sample_check_search_def checkCutoverOpenSearch_def)
  ultimately show thesis by (intro that)
qed

lemma sample_run_result:
  obtains evidence outcome where "sample_run commit = after_switch (sample_run_env commit) sample_options evidence
    (case commit of Delivered \<Rightarrow> (Inr outcome, switched_inventory)
     | LostReply \<Rightarrow> (Inl (CommitOutcomeUnknown outcome), switched_inventory)
     | LostRequest \<Rightarrow> (Inl (CommitOutcomeUnknown outcome), sample_inventory))"
proof -
  obtain c where c: "checkCutoverOpenSearch Some (\<lambda>s. Some (int (length s))) sample_columns sample_search sample_inventory
      \<lparr>ro_index = Some EVENTS_INDEX, ro_pageSize = None, ro_maxFindings = None\<rparr> = Inr c"
    "rp_totalDiffs (co_report c) = 0" "co_result c = (''opensearch_projection_diff'', 0)" "rp_index (co_report c) = EVENTS_INDEX"
    by (rule sample_search_options)
  have opp: "oppositeWriterMode TicketTypeMode = Legacy" by (simp add: oppositeWriterMode_def)
  have sw: "switchable Legacy (tables sample_inventory)" using sample_checked_switch unfolding checked_switch_def opp by blast
  obtain d i v where p: "preflight Some (\<lambda>s. Some (int (length s))) sample_columns (sample_run_env commit) sample_options sample_inventory = Inr (d, i, v)"
    "cd_schemaRevision d = ''rev1''" "hasTicketTypeCutoverViolations (si_results i) = Inr False"
  proof (rule preflight_passes)
    show "rw_revisions (sample_run_env commit) = ''rev1'' # []" by (simp add: sample_run_env_def)
    show "switchable (oppositeWriterMode (rs_targetMode sample_options)) (tables sample_inventory)" using sw by (simp add: sample_options_def opp)
  qed (use c sample_counters_pass in \<open>simp_all add: sample_run_env_def sample_options_def opp EVENTS_INDEX_def\<close>)
  note x = switch_commits [OF sample_checked_switch, of "sample_switch commit (\<lambda>s. s)" sample_inventory "''rev1''" "[]"
      "\<lparr>so_expectedSchemaRevision = Some ''rev1'', so_timeouts = DEFAULT_WRITER_MODE_SWITCH_TIMEOUTS\<rparr>"]
  show thesis
    using p x by (intro that [of v]) (simp add: runWriterModeSwitch_def sample_switch_def sample_run_env_def sample_options_def opp
        sample_inventory_def Let_def)
qed

theorem healthy_switch_commits_witness:
  "\<exists>outcome. executeWriterModeSwitch (sample_switch Delivered (\<lambda>_. fold shop_perform Events.sample_history (empty_pg Legacy))) Legacy
       \<lparr>so_expectedSchemaRevision = None, so_timeouts = DEFAULT_WRITER_MODE_SWITCH_TIMEOUTS\<rparr> (empty_pg Legacy)
     = (Inr outcome, (fold shop_perform Events.sample_history (empty_pg Legacy))\<lparr>writer_control := Some ''legacy''\<rparr>)"
proof -
  have "list_all shop_admissible Events.sample_history"
    by (simp add: Events.sample_history_def sample_listing_def idle sample_input_def)
  moreover have "readInventoryWriterMode (fold shop_perform Events.sample_history (empty_pg Legacy)) = Inr (oppositeWriterMode Legacy)" by code_simp
  ultimately show ?thesis
    using healthy_switch_commits [of Events.sample_history "sample_switch Delivered (\<lambda>_. fold shop_perform Events.sample_history (empty_pg Legacy))"
        "empty_pg Legacy" Legacy Legacy "''rev1''" "[]" "\<lparr>so_expectedSchemaRevision = None, so_timeouts = DEFAULT_WRITER_MODE_SWITCH_TIMEOUTS\<rparr>"]
    by (auto simp: sample_switch_def mode_text_def)
qed

theorem switched_means_stores_agreed_witness:
  "(\<exists>evidence outcome. sample_run Delivered = (Inr (Switched evidence outcome), switched_inventory))
   \<and> (\<exists>i. rv_get sample_switch_reader i (ticketTypeCounterKey uuid_a uuid_b) = Inr (Some ''5''))"
proof -
  obtain evidence outcome where run: "sample_run Delivered = (Inr (Switched evidence outcome), switched_inventory)"
    by (rule sample_run_result [of Delivered]) (simp add: after_switch_def)
  have wf: "pg_wf sample_inventory"
    by (simp add: pg_wf_def sample_inventory_def check_quantities_def mode_text_def)
  have "rw_meanwhile (sample_run_env Delivered) sample_inventory = sample_inventory" by (simp add: sample_run_env_def)
  with switched_means_stores_agreed [OF run wf] wf
  have "list_all (\<lambda>r. \<exists>i. rv_get sample_switch_reader i (ticketTypeCounterKey (tti_event r) (tti_type r))
      = Inr (Some (decimal (nat (tti_remaining r))))) (ticket_type_inventory sample_inventory)"
    by (simp add: sample_run_env_def list_all_iff)
  moreover have "decimal 5 = ''5''" by code_simp
  ultimately have "\<exists>i. rv_get sample_switch_reader i (ticketTypeCounterKey uuid_a uuid_b) = Inr (Some ''5'')"
    by (simp add: sample_inventory_def)
  with run show ?thesis by blast
qed

end
