(* ===== verification/Config.thy ===== *)
theory Config
  imports InventoryEvent
begin

text \<open>
  The settings of src/config.ts that are read from the environment: the secrets that sign and verify the access
  tokens, and the connection to the database. \<open>process.env\<close> is a function from names to values; what
  \<open>JSON.parse\<close> makes of a text is an argument, \<open>None\<close> when it throws.
\<close>

type_synonym env = "string \<Rightarrow> string option"

definition getOptionalEnv :: "env \<Rightarrow> string \<Rightarrow> string option" where
  "getOptionalEnv process_env name = (if process_env name = Some [] then None else process_env name)"

definition JWT_ACCESS_TOKEN_TTL_SECONDS :: int where
  "JWT_ACCESS_TOKEN_TTL_SECONDS = 15 * 60"

section \<open>The signing secrets\<close>

record JwtSecrets =
  js_current :: string
  js_previous :: "string option"

definition getJwtSecrets :: "(string \<Rightarrow> jsval option) \<Rightarrow> env \<Rightarrow> JwtSecrets result" where
  "getJwtSecrets json_parse process_env =
     (case getOptionalEnv process_env ''JWT_SECRET'' of
        None \<Rightarrow> Inl (PlainError ''JWT_SECRET is required'')
      | Some raw \<Rightarrow>
          if take 1 (dropWhile is_js_space raw) \<noteq> ''{'' then Inr \<lparr>js_current = raw, js_previous = None\<rparr>
          else (case json_parse raw of
              None \<Rightarrow> Inl (PlainError ''JWT_SECRET looks like JSON but could not be parsed'')
            | Some (JObject fs) \<Rightarrow>
                (case get_field fs ''current'' of
                   JString current \<Rightarrow>
                     if length current = 0 then Inl (PlainError ''JWT_SECRET JSON must contain a non-empty current string'')
                     else Inr \<lparr>js_current = current,
                               js_previous = (case get_field fs ''previous'' of
                                   JString previous \<Rightarrow> if length previous > 0 then Some previous else None
                                 | _ \<Rightarrow> None)\<rparr>
                 | _ \<Rightarrow> Inl (PlainError ''JWT_SECRET JSON must contain a non-empty current string''))
            | Some _ \<Rightarrow> Inl (PlainError ''JWT_SECRET JSON must contain a non-empty current string'')))"

text \<open>The algorithm is HS256 throughout.\<close>

record JwtConfig =
  jc_secret :: string
  jc_expiresIn :: int

definition getJwtConfig :: "(string \<Rightarrow> jsval option) \<Rightarrow> env \<Rightarrow> JwtConfig result" where
  "getJwtConfig json_parse process_env =
     map_sum id (\<lambda>s. \<lparr>jc_secret = js_current s, jc_expiresIn = JWT_ACCESS_TOKEN_TTL_SECONDS\<rparr>)
       (getJwtSecrets json_parse process_env)"

section \<open>The connection to the database\<close>

text \<open>\<open>encodeURIComponent\<close> on code units below 256, whose UTF-8 form has one byte or two.\<close>

definition hex_digit :: "nat \<Rightarrow> char" where
  "hex_digit n = (if n < 10 then char_of (48 + n) else char_of (55 + n))"

definition percent :: "nat \<Rightarrow> string" where
  "percent byte = [CHR ''%'', hex_digit (byte div 16), hex_digit (byte mod 16)]"

definition uri_unreserved :: "char \<Rightarrow> bool" where
  "uri_unreserved c = (let n = (of_char c :: nat) in
     (48 \<le> n \<and> n \<le> 57) \<or> (65 \<le> n \<and> n \<le> 90) \<or> (97 \<le> n \<and> n \<le> 122)
     \<or> c \<in> {CHR ''-'', CHR ''_'', CHR ''.'', CHR ''!'', CHR ''~'', CHR ''*'', CHR 0x27, CHR ''('', CHR '')''})"

definition encode_char :: "char \<Rightarrow> string" where
  "encode_char c =
     (let n = (of_char c :: nat) in
      if uri_unreserved c then [c] else if n < 128 then percent n else percent (192 + n div 64) @ percent (128 + n mod 64))"

definition encodeURIComponent :: "string \<Rightarrow> string" where
  "encodeURIComponent s = concat (map encode_char s)"

definition buildDatabaseUrl :: "env \<Rightarrow> string result" where
  "buildDatabaseUrl process_env =
     (let e = getOptionalEnv process_env; port = (case e ''DB_PORT'' of None \<Rightarrow> ''5432'' | Some p \<Rightarrow> p)
      in case e ''DATABASE_URL'' of
           Some direct \<Rightarrow> Inr direct
         | None \<Rightarrow>
             (case (e ''DB_HOST'', e ''DB_NAME'', e ''DB_USERNAME'', e ''DB_PASSWORD'') of
                (Some host, Some name, Some user, Some password) \<Rightarrow>
                  Inr (''postgresql://'' @ encodeURIComponent user @ '':'' @ encodeURIComponent password @ ''@'' @ host
                       @ '':'' @ port @ ''/'' @ name)
              | _ \<Rightarrow> Inl (PlainError ''DATABASE_URL or DB_HOST/DB_NAME/DB_USERNAME/DB_PASSWORD is required'')))"

definition isDatabaseSslEnabled :: "env \<Rightarrow> bool" where
  "isDatabaseSslEnabled process_env \<longleftrightarrow> getOptionalEnv process_env ''DB_SSL'' = Some ''true''"

text \<open>A password that is fixed, or fetched from the secret's ARN at every connection.\<close>

datatype pool_password = StaticPassword string | FetchedPassword string

record pool_address =
  pa_host :: string
  pa_port :: jsnum
  pa_database :: string
  pa_user :: string
  pa_password :: pool_password

datatype DatabasePoolConfig = ConnectionString string | ConnectTo pool_address

definition getDatabasePoolConfig :: "(string \<Rightarrow> jsnum) \<Rightarrow> env \<Rightarrow> DatabasePoolConfig result" where
  "getDatabasePoolConfig to_number process_env =
     (let e = getOptionalEnv process_env; port = to_number (case e ''DB_PORT'' of None \<Rightarrow> ''5432'' | Some p \<Rightarrow> p)
      in case e ''DATABASE_URL'' of
           Some direct \<Rightarrow> Inr (ConnectionString direct)
         | None \<Rightarrow>
             (case (e ''DB_HOST'', e ''DB_NAME'', e ''DB_USERNAME'') of
                (Some host, Some database, Some user) \<Rightarrow>
                  let to = \<lambda>password. ConnectTo \<lparr>pa_host = host, pa_port = port, pa_database = database, pa_user = user,
                                                pa_password = password\<rparr>
                  in (case e ''DB_PASSWORD_SECRET_ARN'' of
                        Some arn \<Rightarrow> Inr (to (FetchedPassword arn))
                      | None \<Rightarrow> (case e ''DB_PASSWORD'' of
                            Some password \<Rightarrow> Inr (to (StaticPassword password))
                          | None \<Rightarrow> Inl (PlainError ''DB_PASSWORD or DB_PASSWORD_SECRET_ARN is required'')))
              | _ \<Rightarrow> Inl (PlainError ''DATABASE_URL or DB_HOST/DB_NAME/DB_USERNAME is required'')))"

section \<open>Lemmas\<close>

text \<open>Neither the user nor the password can be mistaken for another part of the URL.\<close>

lemma hex_digit_plain: "n < 16 \<Longrightarrow> uri_unreserved (hex_digit n)"
  by (cases "n < 10") (simp_all add: hex_digit_def uri_unreserved_def Let_def)

lemma percent_chars: "x \<in> set (percent n) \<Longrightarrow> n < 256 \<Longrightarrow> uri_unreserved x \<or> x = CHR ''%''"
  using hex_digit_plain [of "n div 16"] hex_digit_plain [of "n mod 16"] by (auto simp: percent_def)

lemma encoded_chars:
  assumes "x \<in> set (encodeURIComponent s)"
  shows "uri_unreserved x \<or> x = CHR ''%''"
proof -
  from assms obtain c where c: "x \<in> set (encode_char c)" by (auto simp: encodeURIComponent_def)
  define n where "n = (of_char c :: nat)"
  have "n < 256" unfolding n_def by (rule nat_of_char_less_256)
  then have "n div 64 < 4" by (intro less_mult_imp_div_less) simp
  moreover have "n mod 64 < 64" by simp
  ultimately have "192 + n div 64 < 256" "128 + n mod 64 < 256" by linarith+
  with c show ?thesis by (auto simp: encode_char_def Let_def n_def [symmetric] split: if_splits dest: percent_chars)
qed

lemma url_separators_are_escaped:
  assumes "x \<in> set (encodeURIComponent s)"
  shows "x \<notin> set '':/@?#''"
proof -
  have "\<not> uri_unreserved y" if "y \<in> set '':/@?#''" for y
    using that by (auto simp: uri_unreserved_def)
  with encoded_chars [OF assms] show ?thesis by auto
qed

text \<open>The secrets are never empty.\<close>

lemma secrets_are_not_empty:
  assumes "getJwtSecrets json_parse process_env = Inr s"
  shows "js_current s \<noteq> [] \<and> js_previous s \<noteq> Some []"
  using assms by (auto simp: getJwtSecrets_def getOptionalEnv_def split: option.splits if_splits jsval.splits)

end
