(* ===== verification/TokenCleanup.thy ===== *)
theory TokenCleanup
  imports RefreshTokens Config "HOL-Library.Multiset"
begin

text \<open>
  The cleanup of expired refresh tokens: src/database/refresh-token-cleanup.ts (the DELETE, its batches and the
  advisory lock), src/database/refresh-token-cleanup.config.ts (the retention from the environment) and the run of
  src/database/refresh-token-cleanup.service.ts. Times are milliseconds and a day is 86,400,000 of them (the
  sessions run in UTC). The clock of the database, the order in which LIMIT meets the families, the fate of each
  statement and what others commit in between are arguments.
\<close>

section \<open>The DELETE\<close>

definition DEFAULT_RETENTION_DAYS :: jsval where "DEFAULT_RETENTION_DAYS = jsint 30"

definition DEFAULT_BATCH_SIZE :: jsval where "DEFAULT_BATCH_SIZE = jsint 1000"

definition DEFAULT_MAX_BATCHES :: jsval where "DEFAULT_MAX_BATCHES = jsint 100"

definition DAY_MS :: int where "DAY_MS = 86400000"

text \<open>The first instant of a PostgreSQL timestamp, in November 4714 BC.\<close>

definition TIMESTAMP_MIN :: int where "TIMESTAMP_MIN = -210866803200000"

definition families :: "token_db \<Rightarrow> string list" where
  "families s = remdups (map rt_family (tokens s))"

definition max_expires :: "token_db \<Rightarrow> string \<Rightarrow> int" where
  "max_expires s f = Max (set (map rt_expires (filter (\<lambda>r. rt_family r = f) (tokens s))))"

definition overdue :: "int \<Rightarrow> token_db \<Rightarrow> string list" where
  "overdue cutoff s = filter (\<lambda>f. max_expires s f < cutoff) (families s)"

definition refers_to :: "string set \<Rightarrow> string option \<Rightarrow> bool" where
  "refers_to ids p = (case p of None \<Rightarrow> False | Some i \<Rightarrow> i \<in> ids)"

text \<open>The foreign keys of the table to itself are checked when the statement ends.\<close>

definition delete_families :: "string list \<Rightarrow> token_db \<Rightarrow> (int \<times> int \<times> token_db) result" where
  "delete_families target s =
     (let gone = filter (\<lambda>r. rt_family r \<in> set target) (tokens s);
          kept = filter (\<lambda>r. rt_family r \<notin> set target) (tokens s);
          ids = set (map rt_id gone)
      in if list_ex (\<lambda>r. refers_to ids (rt_parent r)) kept
         then Inl (PgError ''23503'' ''refresh_tokens_parent_token_id_fkey'')
         else if list_ex (\<lambda>r. refers_to ids (rt_replaced r)) kept
         then Inl (PgError ''23503'' ''refresh_tokens_replaced_by_token_id_fkey'')
         else Inr (int (length gone), int (length (remdups (map rt_family gone))), s\<lparr>tokens := kept\<rparr>))"

text \<open>
  A JavaScript number is sent in its decimal form, which has an exponent from 10^21 on, and then read as
  INTEGER or BIGINT.
\<close>

definition pg_integer :: "int \<Rightarrow> int \<Rightarrow> unit result" where
  "pg_integer highest n =
     (if n \<ge> 10 ^ 21 then Inl (PgError ''22P02'' []) else if n > highest then Inl (PgError ''22003'' []) else Inr ())"

text \<open>
  One DELETE is one step here: what others commit falls between two DELETEs. In PostgreSQL at READ
  COMMITTED a rotation can commit while the statement runs; with a retention of 0 days it can insert a
  successor of a row the DELETE has already chosen, and the foreign key then refuses the DELETE. That
  interleaving is outside the model.
\<close>

definition CLEANUP_SQL :: "(string list \<Rightarrow> string list) \<Rightarrow> int \<Rightarrow> int \<Rightarrow> int \<Rightarrow> token_db \<Rightarrow> (int \<times> int \<times> token_db) result" where
  "CLEANUP_SQL pick now days limit s =
     bind_result (pg_integer POSTGRES_INT4_MAX days) (\<lambda>_.
     bind_result (pg_integer 9223372036854775807 limit) (\<lambda>_.
       if now - days * DAY_MS < TIMESTAMP_MIN then Inl (PgError ''22008'' [])
       else delete_families (take (nat limit) (pick (overdue (now - days * DAY_MS) s))) s))"

section \<open>Batches\<close>

record CleanupOptions =
  co_batchSize :: "jsval option"
  co_maxBatches :: "jsval option"

record CleanupResult =
  cr_deletedRows :: int
  cr_deletedFamilies :: int
  cr_batches :: int
  cr_reachedMaxBatches :: bool

definition assertNonNegativeInteger :: "jsval \<Rightarrow> unit result" where
  "assertNonNegativeInteger v =
     (if \<not> isInteger v \<or> number_value v < 0 then Inl (PlainError ''must be a non-negative integer'') else Inr ())"

definition assertPositiveInteger :: "jsval \<Rightarrow> unit result" where
  "assertPositiveInteger v =
     (if \<not> isInteger v \<or> number_value v \<le> 0 then Inl (PlainError ''must be a positive integer'') else Inr ())"

record cleanup_env =
  cl_now :: "nat \<Rightarrow> int"
  cl_net :: "nat \<Rightarrow> link"
  cl_pick :: "nat \<Rightarrow> string list \<Rightarrow> string list"
  cl_others :: "nat \<Rightarrow> token_db \<Rightarrow> token_db"

function cleanup_loop ::
    "cleanup_env \<Rightarrow> int \<Rightarrow> int \<Rightarrow> int \<Rightarrow> CleanupResult \<Rightarrow> token_db \<Rightarrow> CleanupResult result \<times> token_db" where
  "cleanup_loop env days batchSize maxBatches res s =
     (if \<not> cr_batches res < maxBatches then (Inr (res\<lparr>cr_reachedMaxBatches := True\<rparr>), s)
      else (let i = nat (cr_batches res); s0 = cl_others env i s
            in case CLEANUP_SQL (cl_pick env i) (cl_now env i) days batchSize s0 of
                 Inl e \<Rightarrow> (Inl (if cl_net env i = Delivered then e else token_lost), s0)
               | Inr (deletedRows, deletedFamilies, s1) \<Rightarrow>
                   if cl_net env i \<noteq> Delivered then (Inl token_lost, if cl_net env i = LostRequest then s0 else s1)
                   else (let res' = res\<lparr>cr_batches := cr_batches res + 1, cr_deletedRows := cr_deletedRows res + deletedRows,
                                        cr_deletedFamilies := cr_deletedFamilies res + deletedFamilies\<rparr>
                         in if deletedFamilies < batchSize then (Inr res', s1)
                            else cleanup_loop env days batchSize maxBatches res' s1)))"
  by pat_completeness auto
termination
  by (relation "measure (\<lambda>(env, days, batchSize, maxBatches, res, s). nat (maxBatches - cr_batches res))") auto

declare cleanup_loop.simps [simp del]

definition start_cleanup :: CleanupResult where
  "start_cleanup = \<lparr>cr_deletedRows = 0, cr_deletedFamilies = 0, cr_batches = 0, cr_reachedMaxBatches = False\<rparr>"

definition cleanupExpiredRefreshTokenFamilies ::
    "cleanup_env \<Rightarrow> jsval option \<Rightarrow> CleanupOptions \<Rightarrow> token_db \<Rightarrow> CleanupResult result \<times> token_db" where
  "cleanupExpiredRefreshTokenFamilies env retentionDays options s =
     (let days = (case retentionDays of None \<Rightarrow> DEFAULT_RETENTION_DAYS | Some d \<Rightarrow> d);
          batchSize = (case co_batchSize options of None \<Rightarrow> DEFAULT_BATCH_SIZE | Some n \<Rightarrow> n);
          maxBatches = (case co_maxBatches options of None \<Rightarrow> DEFAULT_MAX_BATCHES | Some n \<Rightarrow> n)
      in case bind_result (assertNonNegativeInteger days) (\<lambda>_.
              bind_result (assertPositiveInteger batchSize) (\<lambda>_. assertPositiveInteger maxBatches)) of
           Inl e \<Rightarrow> (Inl e, s)
         | Inr _ \<Rightarrow> cleanup_loop env (number_value days) (number_value batchSize) (number_value maxBatches) start_cleanup s)"

section \<open>The advisory lock\<close>

datatype LockedCleanupResult = CleanupCompleted CleanupResult | CleanupSkipped

text \<open>
  What a run does besides its DELETEs: it takes the lock, waits, gives the lock back (or fails to) and
  closes its connection.
\<close>

datatype cleanup_event = TookLock | Slept int | Unlocked | UnlockFailed exn | Closed

text \<open>\<open>lk_try\<close> is the answer of \<open>pg_try_advisory_lock\<close>; \<open>lk_elapsed\<close> is the time the deletion took.\<close>

record lock_env =
  lk_try :: "bool option result"
  lk_unlock :: "exn option"
  lk_elapsed :: int
  lk_minLockHoldMs :: "int option"
  lk_sleeps :: bool

definition hold_lock :: "lock_env \<Rightarrow> cleanup_event list" where
  "hold_lock lk =
     (let remainingHoldMs = (case lk_minLockHoldMs lk of None \<Rightarrow> 0 | Some ms \<Rightarrow> ms) - lk_elapsed lk
      in if remainingHoldMs > 0 \<and> lk_sleeps lk then [Slept remainingHoldMs] else [])"

definition unlock :: "lock_env \<Rightarrow> cleanup_event list" where
  "unlock lk = (case lk_unlock lk of None \<Rightarrow> [Unlocked] | Some e \<Rightarrow> [UnlockFailed e])"

definition runRefreshTokenCleanupWithLock ::
    "lock_env \<Rightarrow> cleanup_env \<Rightarrow> jsval option \<Rightarrow> CleanupOptions \<Rightarrow> token_db
       \<Rightarrow> LockedCleanupResult result \<times> cleanup_event list \<times> token_db" where
  "runRefreshTokenCleanupWithLock lk env retentionDays options s =
     (case lk_try lk of
        Inl e \<Rightarrow> (Inl e, [], s)
      | Inr locked \<Rightarrow>
          if locked \<noteq> Some True then (Inr CleanupSkipped, [], s)
          else (case cleanupExpiredRefreshTokenFamilies env retentionDays options s of
                  (Inl e, s') \<Rightarrow> (Inl e, TookLock # unlock lk, s')
                | (Inr res, s') \<Rightarrow> (Inr (CleanupCompleted res), TookLock # hold_lock lk @ unlock lk, s')))"

section \<open>The daily run\<close>

text \<open>\<open>to_number\<close> is \<open>Number\<close> on a string.\<close>

definition resolveRetentionDays :: "(string \<Rightarrow> jsnum) \<Rightarrow> env \<Rightarrow> jsval result" where
  "resolveRetentionDays to_number process_env =
     (case getOptionalEnv process_env ''REFRESH_TOKEN_RETENTION_DAYS'' of
        None \<Rightarrow> Inr DEFAULT_RETENTION_DAYS
      | Some text \<Rightarrow>
          let parsed = JNumber (to_number text)
          in if \<not> isInteger parsed \<or> number_value parsed < 0
             then Inl (PlainError ''REFRESH_TOKEN_RETENTION_DAYS must be a non-negative integer'')
             else Inr parsed)"

definition DEFAULT_MIN_LOCK_HOLD_MS :: int where "DEFAULT_MIN_LOCK_HOLD_MS = 5 * 60 * 1000"

definition resolveMinLockHoldMs :: "(string \<Rightarrow> jsnum) \<Rightarrow> env \<Rightarrow> int option result" where
  "resolveMinLockHoldMs to_number process_env =
     (case getOptionalEnv process_env ''REFRESH_TOKEN_CLEANUP_MIN_LOCK_HOLD_MS'' of
        None \<Rightarrow> Inr None
      | Some text \<Rightarrow>
          let parsed = JNumber (to_number text)
          in if \<not> isInteger parsed \<or> number_value parsed < 0
             then Inl (PlainError ''REFRESH_TOKEN_CLEANUP_MIN_LOCK_HOLD_MS must be a non-negative integer'')
             else Inr (Some (number_value parsed)))"

text \<open>The service is made with a time of its own, with that of the environment, or with five minutes.\<close>

definition service_hold :: "(string \<Rightarrow> jsnum) \<Rightarrow> int option \<Rightarrow> env \<Rightarrow> int result" where
  "service_hold to_number given process_env =
     (case given of
        Some ms \<Rightarrow> Inr ms
      | None \<Rightarrow> map_sum id (\<lambda>ms. case ms of None \<Rightarrow> DEFAULT_MIN_LOCK_HOLD_MS | Some n \<Rightarrow> n) (resolveMinLockHoldMs to_number process_env))"

definition isCleanupEnabled :: "env \<Rightarrow> bool" where
  "isCleanupEnabled process_env \<longleftrightarrow> getOptionalEnv process_env ''REFRESH_TOKEN_CLEANUP_ENABLED'' \<noteq> Some ''false''"

datatype RefreshTokenCleanupRunResult = RunLocked LockedCleanupResult | CleanupFailed

datatype run_stmt = CR_CREATE | CR_CONNECT | CR_STATEMENT_TIMEOUT | CR_LOCK_TIMEOUT

text \<open>
  The run: it never throws, and it closes the connection that it has made. Its wait may end early when the
  process shuts down.
\<close>

definition runOnce ::
    "(string \<Rightarrow> jsnum) \<Rightarrow> env \<Rightarrow> (run_stmt \<Rightarrow> exn option) \<Rightarrow> int \<Rightarrow> lock_env \<Rightarrow> cleanup_env \<Rightarrow> token_db
       \<Rightarrow> RefreshTokenCleanupRunResult \<times> cleanup_event list \<times> token_db" where
  "runOnce to_number process_env fails hold lk env s =
     (case resolveRetentionDays to_number process_env of
        Inl e \<Rightarrow> (CleanupFailed, [], s)
      | Inr retentionDays \<Rightarrow>
          if fails CR_CREATE \<noteq> None then (CleanupFailed, [], s)
          else if fails CR_CONNECT \<noteq> None \<or> fails CR_STATEMENT_TIMEOUT \<noteq> None \<or> fails CR_LOCK_TIMEOUT \<noteq> None
          then (CleanupFailed, [Closed], s)
          else (case runRefreshTokenCleanupWithLock (lk\<lparr>lk_minLockHoldMs := Some hold, lk_sleeps := True\<rparr>) env (Some retentionDays)
                       \<lparr>co_batchSize = None, co_maxBatches = None\<rparr> s of
                  (Inl e, trace, s') \<Rightarrow> (CleanupFailed, trace @ [Closed], s')
                | (Inr res, trace, s') \<Rightarrow> (RunLocked res, trace @ [Closed], s')))"

section \<open>Families\<close>

lemma max_expires_less:
  assumes "f \<in> set (families s)"
  shows "max_expires s f < c \<longleftrightarrow> (\<forall>r \<in> set (tokens s). rt_family r = f \<longrightarrow> rt_expires r < c)"
proof -
  let ?E = "set (map rt_expires (filter (\<lambda>r. rt_family r = f) (tokens s)))"
  have "?E \<noteq> {}" using assms by (auto simp: families_def filter_empty_conv)
  then have "Max ?E < c \<longleftrightarrow> (\<forall>x \<in> ?E. x < c)" by (intro Max_less_iff) simp_all
  then show ?thesis by (auto simp: max_expires_def)
qed

lemma overdue_mem:
  "f \<in> set (overdue c s) \<longleftrightarrow> (\<exists>r \<in> set (tokens s). rt_family r = f) \<and> (\<forall>r \<in> set (tokens s). rt_family r = f \<longrightarrow> rt_expires r < c)"
proof -
  have "f \<in> set (families s) \<longleftrightarrow> (\<exists>r \<in> set (tokens s). rt_family r = f)" by (auto simp: families_def)
  with max_expires_less [of f s c] show ?thesis unfolding overdue_def by auto
qed

lemma distinct_overdue [simp]: "distinct (overdue c s)"
  by (simp add: overdue_def families_def)

text \<open>What a statement that succeeds has done.\<close>

lemma delete_families_Inr:
  assumes "delete_families target s = Inr (n, m, s')"
  shows "tokens s' = filter (\<lambda>r. rt_family r \<notin> set target) (tokens s)" "user_ids s' = user_ids s"
    "n = int (length (filter (\<lambda>r. rt_family r \<in> set target) (tokens s)))"
    "m = int (card (set target \<inter> rt_family ` set (tokens s)))"
proof -
  have "length (remdups (map rt_family (filter (\<lambda>r. rt_family r \<in> set target) (tokens s)))) = card (set target \<inter> rt_family ` set (tokens s))"
    unfolding length_remdups_card_conv by (rule arg_cong [where f = card]) auto
  with assms show "tokens s' = filter (\<lambda>r. rt_family r \<notin> set target) (tokens s)" "user_ids s' = user_ids s"
    "n = int (length (filter (\<lambda>r. rt_family r \<in> set target) (tokens s)))" "m = int (card (set target \<inter> rt_family ` set (tokens s)))"
    by (auto simp: delete_families_def Let_def split: if_splits)
qed

section \<open>Lineage stays within a family\<close>

text \<open>A row names its parent and its successor in its own family.\<close>

definition linked_to :: "token_db \<Rightarrow> refresh_row \<Rightarrow> string option \<Rightarrow> bool" where
  "linked_to s r p \<longleftrightarrow> (case p of None \<Rightarrow> True | Some i \<Rightarrow> \<exists>q \<in> set (tokens s). rt_id q = i \<and> rt_family q = rt_family r)"

definition lineage_ok :: "token_db \<Rightarrow> bool" where
  "lineage_ok s \<longleftrightarrow> (\<forall>r \<in> set (tokens s). linked_to s r (rt_parent r) \<and> linked_to s r (rt_replaced r))"

lemma linked_to_map:
  assumes "\<And>r. rt_id (g r) = rt_id r \<and> rt_family (g r) = rt_family r" "set (tokens s') = g ` set (tokens s) \<union> N"
    and "linked_to s r p" "rt_family r' = rt_family r"
  shows "linked_to s' r' p"
  using assms by (fastforce simp: linked_to_def split: option.splits)

lemma lineage_revoke:
  assumes "lineage_ok (t_others env s)"
  shows "lineage_ok (revoke_family env f reason s)"
proof -
  let ?g = "\<lambda>r. if rt_id r \<in> set (map rt_id (tokens s)) \<and> rt_family r = f \<and> rt_revoked r = None
      then r\<lparr>rt_revoked := Some (t_db_now env), rt_reason := Some reason\<rparr> else r"
  have t: "set (tokens (revoke_family env f reason s)) = ?g ` set (tokens (t_others env s)) \<union> {}"
    by (simp add: revoke_family_def Let_def)
  show ?thesis
    unfolding lineage_ok_def
  proof
    fix r'
    assume "r' \<in> set (tokens (revoke_family env f reason s))"
    then obtain r where r: "r \<in> set (tokens (t_others env s))" "r' = ?g r" using t by blast
    then have e: "rt_family r' = rt_family r" "rt_parent r' = rt_parent r" "rt_replaced r' = rt_replaced r" by simp_all
    have "linked_to (revoke_family env f reason s) r' p" if "linked_to (t_others env s) r p" for p
      by (rule linked_to_map [where g = ?g, OF _ t that e(1)]) simp
    with assms r(1) show "linked_to (revoke_family env f reason s) r' (rt_parent r')
        \<and> linked_to (revoke_family env f reason s) r' (rt_replaced r')"
      unfolding e by (simp add: lineage_ok_def)
  qed
qed

lemma lineage_issue:
  assumes "lineage_ok s"
  shows "lineage_ok (snd (issue env u meta s))"
proof -
  have "lineage_ok (s\<lparr>tokens := tokens s @ [token_row env meta u f None]\<rparr>)" for f
    using assms by (fastforce simp: lineage_ok_def linked_to_def token_row_def split: option.splits)
  with assms show ?thesis by (auto simp: issue_def insert_token_Inr split: sum.split)
qed

lemma lineage_rotated:
  assumes "lineage_ok s" "row_by rt_hash k (tokens s) = Some row" "\<forall>x \<in> set (tokens s). rt_id x \<noteq> t_new_id env"
    and "distinct (map rt_id (tokens s))"
  shows "lineage_ok (consume env (rt_id row) (t_new_id env)
     (s\<lparr>tokens := tokens s @ [token_row env meta (rt_user row) (rt_family row) (Some (rt_id row))]\<rparr>))"
proof -
  have row: "row \<in> set (tokens s)" using row_by_Some [OF assms(2)] by simp
  let ?g = "\<lambda>r. if rt_id r = rt_id row then r\<lparr>rt_used := Some (t_db_now env), rt_replaced := Some (t_new_id env)\<rparr> else r"
  let ?n = "token_row env meta (rt_user row) (rt_family row) (Some (rt_id row))"
  let ?s' = "consume env (rt_id row) (t_new_id env) (s\<lparr>tokens := tokens s @ [?n]\<rparr>)"
  have t: "set (tokens ?s') = ?g ` set (tokens s) \<union> {?n}" using consume_tokens [OF assms(3) row] by simp
  have old: "linked_to ?s' (?g r) p" if "linked_to s r p" for r p
    using linked_to_map [where g = ?g and r = r and r' = "?g r", OF _ t that] by simp
  show ?thesis
    unfolding lineage_ok_def
  proof
    fix r'
    assume "r' \<in> set (tokens ?s')"
    then consider r where "r \<in> set (tokens s)" "r' = ?g r" | "r' = ?n" using t by blast
    then show "linked_to ?s' r' (rt_parent r') \<and> linked_to ?s' r' (rt_replaced r')"
    proof cases
      case 1
      with assms(1) old have p: "linked_to ?s' r' (rt_parent r)" "linked_to ?s' r' (rt_replaced r)" by (auto simp: lineage_ok_def)
      show ?thesis
      proof (cases "rt_id r = rt_id row")
        case True
        with 1(1) row assms(4) have "r = row" by (auto simp: distinct_map inj_on_def)
        have "?n \<in> set (tokens ?s')" using t by blast
        moreover have "rt_id ?n = t_new_id env" "rt_family ?n = rt_family r'" using \<open>r = row\<close> 1(2) by simp_all
        ultimately have "linked_to ?s' r' (Some (t_new_id env))" unfolding linked_to_def option.case by blast
        with p(1) True 1(2) show ?thesis by simp
      qed (use p 1(2) in simp)
    next
      case 2
      have "?g row \<in> set (tokens ?s')" using row t by blast
      then have "linked_to ?s' ?n (Some (rt_id row))" unfolding linked_to_def option.case by (rule bexI [rotated]) simp
      with 2 show ?thesis by (simp add: token_row_def linked_to_def)
    qed
  qed
qed

lemma others_lineage:
  assumes "(\<lambda>a b. token_step h a b \<and> (tokens_ok a \<longrightarrow> lineage_ok a \<longrightarrow> lineage_ok b))\<^sup>*\<^sup>* s s'" "tokens_ok s" "lineage_ok s"
  shows "lineage_ok s'"
proof -
  have "tokens_ok s' \<and> lineage_ok s'"
    using assms
  proof (induction rule: rtranclp_induct)
    case (step a b)
    then have "tokens_ok b" using token_step_adv [of h a b] by (simp add: token_adv_def)
    with step show ?case by blast
  qed simp
  then show ?thesis by simp
qed

lemma lineage_step: "token_step h s s' \<Longrightarrow> tokens_ok s \<longrightarrow> lineage_ok s \<longrightarrow> lineage_ok s'"
proof (induction rule: token_step.induct)
  case (Issue env s u meta)
  then show ?case by (intro impI lineage_issue)
next
  case (Rotate env s raw meta)
  show ?case
  proof (intro impI)
    assume prems: "tokens_ok s" "lineage_ok s"
    have others: "lineage_ok (t_others env s)" by (rule others_lineage [OF Rotate(2) prems])
    have d: "distinct (map rt_id (tokens s))" using prems(1) by (simp add: tokens_ok_def)
    from rotate_snd [of env raw meta s] show "lineage_ok (snd (rotate env raw meta s))"
    proof (elim disjE exE conjE)
      assume "snd (rotate env raw meta s) \<in> {s, t_others env s}"
      with others prems(2) show ?thesis by auto
    next
      fix row
      assume "snd (rotate env raw meta s) = revoke_family env (rt_family row) REVOKE_REASON_REUSE s"
      with lineage_revoke [OF others] show ?thesis by simp
    next
      fix row
      assume r: "row_by rt_hash (t_hash env raw) (tokens s) = Some row" "\<forall>x \<in> set (tokens s). rt_id x \<noteq> t_new_id env"
        and e: "snd (rotate env raw meta s) = consume env (rt_id row) (t_new_id env)
            (s\<lparr>tokens := tokens s @ [token_row env meta (rt_user row) (rt_family row) (Some (rt_id row))]\<rparr>)"
      show ?thesis unfolding e by (rule lineage_rotated [OF prems(2) r d])
    qed
  qed
next
  case (Revoke env s raw reason)
  show ?case
  proof (intro impI)
    assume prems: "tokens_ok s" "lineage_ok s"
    have "lineage_ok (t_others env s)" by (rule others_lineage [OF Revoke(2) prems])
    from lineage_revoke [OF this] prems(2) show "lineage_ok (snd (revokeFamilyByToken env raw reason s))"
      by (simp add: revokeFamilyByToken_def split: option.split)
  qed
qed

definition table_ok :: "token_db \<Rightarrow> bool" where
  "table_ok s \<longleftrightarrow> tokens_ok s \<and> lineage_ok s"

lemma table_step: "token_step h s s' \<Longrightarrow> table_ok s \<Longrightarrow> table_ok s'"
  using lineage_step token_step_adv unfolding table_ok_def token_adv_def by blast

lemma reach_table_ok: "(token_step h)\<^sup>*\<^sup>* s s' \<Longrightarrow> table_ok s \<Longrightarrow> table_ok s'"
  by (induction rule: rtranclp_induct) (auto intro: table_step)

text \<open>A DELETE of whole families breaks no foreign key.\<close>

lemma delete_families_ok:
  assumes "table_ok s"
  obtains n m s' where "delete_families target s = Inr (n, m, s')" "table_ok s'"
proof -
  let ?gone = "filter (\<lambda>r. rt_family r \<in> set target) (tokens s)" and ?kept = "filter (\<lambda>r. rt_family r \<notin> set target) (tokens s)"
  let ?s' = "s\<lparr>tokens := ?kept\<rparr>"
  have d: "distinct (map rt_id (tokens s))" and l: "lineage_ok s" using assms by (simp_all add: table_ok_def tokens_ok_def)
  have no: "\<not> refers_to (set (map rt_id ?gone)) p \<and> linked_to ?s' r p" if r: "r \<in> set ?kept" "linked_to s r p" for r p
  proof (cases p)
    case (Some i)
    with r(2) obtain q where q: "q \<in> set (tokens s)" "rt_id q = i" "rt_family q = rt_family r" by (auto simp: linked_to_def)
    have "x = q" if "x \<in> set (tokens s)" "rt_id x = i" for x using that q(1,2) d by (auto simp: distinct_map inj_on_def)
    moreover have "rt_family q \<notin> set target" using r(1) q(3) by simp
    ultimately have "i \<notin> set (map rt_id ?gone)" by auto
    moreover have "q \<in> set (tokens ?s')" using q(1) \<open>rt_family q \<notin> set target\<close> by simp
    then have "linked_to ?s' r (Some i)" unfolding linked_to_def option.case using q(2,3) by blast
    ultimately show ?thesis using Some by (simp add: refers_to_def)
  qed (simp add: refers_to_def linked_to_def)
  have no2: "\<not> refers_to (set (map rt_id ?gone)) (rt_parent r) \<and> \<not> refers_to (set (map rt_id ?gone)) (rt_replaced r)
      \<and> linked_to ?s' r (rt_parent r) \<and> linked_to ?s' r (rt_replaced r)" if "r \<in> set ?kept" for r
    using no [OF that] l that by (auto simp: lineage_ok_def)
  then have "delete_families target s = Inr (int (length ?gone), int (length (remdups (map rt_family ?gone))), ?s')"
    by (auto simp: delete_families_def Let_def list_ex_iff)
  moreover have "lineage_ok ?s'" using no2 by (simp add: lineage_ok_def)
  moreover have "tokens_ok ?s'"
  proof -
    have "distinct (map rt_id ?kept)" "distinct (map rt_hash ?kept)" using assms by (simp_all add: table_ok_def tokens_ok_def distinct_map_filter)
    moreover have "one_active (set ?kept)" using assms by (auto simp: table_ok_def tokens_ok_def one_active_def)
    ultimately show ?thesis by (simp add: tokens_ok_def)
  qed
  ultimately show thesis by (intro that) (simp_all add: table_ok_def)
qed

section \<open>What a cleanup may take away\<close>

text \<open>The settings a run ends up with, and the settings that no check refuses.\<close>

definition or_default :: "jsval \<Rightarrow> jsval option \<Rightarrow> int" where
  "or_default d v = number_value (case v of None \<Rightarrow> d | Some n \<Rightarrow> n)"

abbreviation retention :: "jsval option \<Rightarrow> int" where
  "retention days \<equiv> or_default DEFAULT_RETENTION_DAYS days"

definition settings_ok :: "jsval option \<Rightarrow> CleanupOptions \<Rightarrow> bool" where
  "settings_ok days options \<longleftrightarrow>
     is_ok (assertNonNegativeInteger (case days of None \<Rightarrow> DEFAULT_RETENTION_DAYS | Some n \<Rightarrow> n))
     \<and> is_ok (assertPositiveInteger (case co_batchSize options of None \<Rightarrow> DEFAULT_BATCH_SIZE | Some n \<Rightarrow> n))
     \<and> is_ok (assertPositiveInteger (case co_maxBatches options of None \<Rightarrow> DEFAULT_MAX_BATCHES | Some n \<Rightarrow> n))
     \<and> is_ok (pg_integer POSTGRES_INT4_MAX (retention days))
     \<and> is_ok (pg_integer 9223372036854775807 (or_default DEFAULT_BATCH_SIZE (co_batchSize options)))"

definition cutoff :: "cleanup_env \<Rightarrow> jsval option \<Rightarrow> nat \<Rightarrow> int" where
  "cutoff env days i = cl_now env i - retention days * DAY_MS"

text \<open>A family with a token younger than a limit, and what may happen to the table meanwhile.\<close>

definition young :: "int \<Rightarrow> token_db \<Rightarrow> string \<Rightarrow> bool" where
  "young c s f \<longleftrightarrow> (\<exists>r \<in> set (tokens s). rt_family r = f \<and> c \<le> rt_expires r)"

definition keeps_young :: "int \<Rightarrow> token_db \<Rightarrow> token_db \<Rightarrow> bool" where
  "keeps_young c s s' \<longleftrightarrow> table_ok s \<longrightarrow> table_ok s' \<and>
     (\<forall>r \<in> set (tokens s). young c s (rt_family r) \<longrightarrow> (\<exists>r' \<in> set (tokens s'). row_le r r'))"

lemma keeps_young_refl [simp]: "keeps_young c s s"
  using row_le_refl unfolding keeps_young_def by blast

lemma keeps_young_trans:
  assumes "keeps_young c a b" "keeps_young c b d"
  shows "keeps_young c a d"
  unfolding keeps_young_def
proof (intro impI conjI ballI)
  assume a: "table_ok a"
  with assms show "table_ok d" by (simp add: keeps_young_def)
  fix r
  assume r: "r \<in> set (tokens a)" "young c a (rt_family r)"
  then obtain y where "y \<in> set (tokens a)" "rt_family y = rt_family r" "c \<le> rt_expires y" by (auto simp: young_def)
  with r(2) a assms(1) obtain y' where "y' \<in> set (tokens b)" "row_le y y'" unfolding keeps_young_def by metis
  with \<open>rt_family y = rt_family r\<close> \<open>c \<le> rt_expires y\<close> have "young c b (rt_family r)" by (auto simp: young_def row_le_def)
  moreover from r a assms(1) obtain r' where r': "r' \<in> set (tokens b)" "row_le r r'" unfolding keeps_young_def by blast
  moreover have "rt_family r' = rt_family r" using r'(2) by (simp add: row_le_def)
  ultimately obtain r'' where "r'' \<in> set (tokens d)" "row_le r' r''" using a assms unfolding keeps_young_def by metis
  with r'(2) show "\<exists>r' \<in> set (tokens d). row_le r r'" using row_le_trans by blast
qed

lemma keeps_young_others: "(token_step h)\<^sup>*\<^sup>* s s' \<Longrightarrow> keeps_young c s s'"
  using reach_table_ok [of h s s'] token_reach_adv [of h s s'] by (auto simp: keeps_young_def table_ok_def token_adv_def)

lemma keeps_young_delete:
  assumes "delete_families target s = Inr (n, m, s')" "set target \<subseteq> set (overdue c' s)" "c' \<le> c"
  shows "keeps_young c s s'"
  unfolding keeps_young_def
proof (intro impI conjI ballI)
  assume "table_ok s"
  from delete_families_ok [OF this, of target] assms(1) show "table_ok s'" by force
  fix r
  assume "r \<in> set (tokens s)" "young c s (rt_family r)"
  moreover have "rt_family r \<notin> set target"
    using assms(2,3) \<open>young c s (rt_family r)\<close> by (fastforce simp: young_def overdue_mem)
  ultimately show "\<exists>r' \<in> set (tokens s'). row_le r r'"
    using delete_families_Inr(1) [OF assms(1)] row_le_refl by auto
qed

lemma CLEANUP_SQL_Inr:
  assumes "CLEANUP_SQL pick now days limit s = Inr (n, m, s')"
  shows "delete_families (take (nat limit) (pick (overdue (now - days * DAY_MS) s))) s = Inr (n, m, s')"
  using assms by (auto simp: CLEANUP_SQL_def bind_result_def split: sum.splits if_splits)

lemma CLEANUP_SQL_ok:
  assumes "is_ok (pg_integer POSTGRES_INT4_MAX days)" "is_ok (pg_integer 9223372036854775807 limit)" "TIMESTAMP_MIN \<le> now - days * DAY_MS"
  shows "CLEANUP_SQL pick now days limit s = delete_families (take (nat limit) (pick (overdue (now - days * DAY_MS) s))) s"
  using assms by (auto simp: CLEANUP_SQL_def is_ok_iff)

lemma CLEANUP_SQL_keeps_young:
  assumes "CLEANUP_SQL pick now days limit s = Inr (n, m, s')" "\<And>xs. set (pick xs) = set xs" "now - days * DAY_MS \<le> c"
  shows "keeps_young c s s'"
proof (rule keeps_young_delete [OF CLEANUP_SQL_Inr [OF assms(1)] _ assms(3)])
  show "set (take (nat limit) (pick (overdue (now - days * DAY_MS) s))) \<subseteq> set (overdue (now - days * DAY_MS) s)"
    using set_take_subset assms(2) by fastforce
qed

text \<open>The loop, whatever happens to its statements.\<close>

lemma cleanup_loop_keeps_young:
  assumes "\<And>i xs. set (cl_pick env i xs) = set xs" "\<And>i s. keeps_young c s (cl_others env i s)"
    and "\<And>i. cl_now env i - days * DAY_MS \<le> c"
  shows "keeps_young c s (snd (cleanup_loop env days batchSize maxBatches res s))"
proof (induction "nat (maxBatches - cr_batches res)" arbitrary: res s rule: less_induct)
  case less
  let ?i = "nat (cr_batches res)"
  let ?sql = "CLEANUP_SQL (cl_pick env ?i) (cl_now env ?i) days batchSize (cl_others env ?i s)"
  have o: "keeps_young c s (cl_others env ?i s)" by (rule assms(2))
  show ?case
  proof (cases "cr_batches res < maxBatches")
    case more: True
    show ?thesis
    proof (cases ?sql)
      case (Inl x)
      with o more show ?thesis by (subst cleanup_loop.simps) (simp add: Let_def)
    next
      case (Inr y)
      then obtain n k s1 where y: "?sql = Inr (n, k, s1)" by (metis prod_cases3)
      have s1: "keeps_young c s s1" by (rule keeps_young_trans [OF o CLEANUP_SQL_keeps_young [OF y assms(1,3)]])
      let ?res = "res\<lparr>cr_batches := cr_batches res + 1, cr_deletedRows := cr_deletedRows res + n,
          cr_deletedFamilies := cr_deletedFamilies res + k\<rparr>"
      have "keeps_young c s1 (snd (cleanup_loop env days batchSize maxBatches ?res s1))" by (rule less) (use more in simp)
      from keeps_young_trans [OF s1 this] y o s1 more show ?thesis
        by (subst cleanup_loop.simps) (simp add: Let_def)
    qed
  qed (simp add: cleanup_loop.simps)
qed

text \<open>No statement of the loop fails when they are delivered and their parameters are in range.\<close>

lemma cleanup_loop_ok:
  assumes "table_ok s" "cl_net env = (\<lambda>_. Delivered)" "\<And>i s. table_ok s \<Longrightarrow> table_ok (cl_others env i s)"
    and "is_ok (pg_integer POSTGRES_INT4_MAX days)" "is_ok (pg_integer 9223372036854775807 batchSize)"
    and "\<And>i. TIMESTAMP_MIN \<le> cl_now env i - days * DAY_MS"
  shows "is_ok (fst (cleanup_loop env days batchSize maxBatches res s))"
  using assms(1)
proof (induction "nat (maxBatches - cr_batches res)" arbitrary: res s rule: less_induct)
  case less
  let ?i = "nat (cr_batches res)"
  from delete_families_ok [OF assms(3) [OF less.prems]] obtain n k s1
    where y: "CLEANUP_SQL (cl_pick env ?i) (cl_now env ?i) days batchSize (cl_others env ?i s) = Inr (n, k, s1)" "table_ok s1"
    unfolding CLEANUP_SQL_ok [OF assms(4,5,6)] by metis
  let ?res = "res\<lparr>cr_batches := cr_batches res + 1, cr_deletedRows := cr_deletedRows res + n,
      cr_deletedFamilies := cr_deletedFamilies res + k\<rparr>"
  have "is_ok (fst (cleanup_loop env days batchSize maxBatches ?res s1))" if "cr_batches res < maxBatches"
    by (rule less.hyps [OF _ y(2)]) (use that in simp)
  with y(1) show ?case by (subst cleanup_loop.simps) (simp add: Let_def assms(2) is_ok_iff)
qed

lemma cleanup_unfold:
  assumes "settings_ok days options"
  shows "cleanupExpiredRefreshTokenFamilies env days options s
    = cleanup_loop env (retention days) (or_default DEFAULT_BATCH_SIZE (co_batchSize options))
        (or_default DEFAULT_MAX_BATCHES (co_maxBatches options)) start_cleanup s"
  using assms by (auto simp: cleanupExpiredRefreshTokenFamilies_def settings_ok_def or_default_def is_ok_iff Let_def)

lemma cleanup_cases:
  obtains e where "cleanupExpiredRefreshTokenFamilies env days options s = (Inl e, s)"
  | b m where "cleanupExpiredRefreshTokenFamilies env days options s = cleanup_loop env (retention days) b m start_cleanup s"
  by (cases "bind_result (assertNonNegativeInteger (case days of None \<Rightarrow> DEFAULT_RETENTION_DAYS | Some d \<Rightarrow> d)) (\<lambda>_.
       bind_result (assertPositiveInteger (case co_batchSize options of None \<Rightarrow> DEFAULT_BATCH_SIZE | Some n \<Rightarrow> n))
        (\<lambda>_. assertPositiveInteger (case co_maxBatches options of None \<Rightarrow> DEFAULT_MAX_BATCHES | Some n \<Rightarrow> n)))")
    (simp_all add: cleanupExpiredRefreshTokenFamilies_def or_default_def Let_def)

section \<open>A cleanup with the table to itself\<close>

lemma max_expires_kept:
  assumes "f \<notin> T" "tokens s' = filter (\<lambda>r. rt_family r \<notin> T) (tokens s)"
  shows "max_expires s' f = max_expires s f"
proof -
  have "filter (\<lambda>r. rt_family r = f) (tokens s') = filter (\<lambda>r. rt_family r = f) (tokens s)"
    unfolding assms(2) filter_filter using assms(1) by (intro filter_cong) auto
  then show ?thesis by (simp add: max_expires_def)
qed

lemma overdue_kept:
  assumes "tokens s' = filter (\<lambda>r. rt_family r \<notin> T) (tokens s)"
  shows "overdue c s' = filter (\<lambda>f. f \<notin> T) (overdue c s)"
proof -
  have "families s' = filter (\<lambda>f. f \<notin> T) (families s)"
    unfolding families_def assms by (simp add: filter_map o_def flip: remdups_filter)
  then have "overdue c s' = filter (\<lambda>f. max_expires s' f < c) (filter (\<lambda>f. f \<notin> T) (families s))"
    by (simp add: overdue_def)
  also have "\<dots> = filter (\<lambda>f. max_expires s f < c \<and> f \<notin> T) (families s)"
    unfolding filter_filter by (intro filter_cong) (auto simp: max_expires_kept [OF _ assms])
  also have "\<dots> = filter (\<lambda>f. f \<notin> T) (overdue c s)" by (simp add: overdue_def conj_commute)
  finally show ?thesis .
qed

text \<open>One batch: the first families of some order of the overdue ones go, and nothing else.\<close>

lemma one_batch:
  assumes "table_ok s" "mset order = mset (overdue c s)"
  obtains n s' where "delete_families (take k order) s = Inr (n, int (min k (length (overdue c s))), s')" "table_ok s'"
    "tokens s' = filter (\<lambda>r. rt_family r \<notin> set (take k order)) (tokens s)" "user_ids s' = user_ids s"
    "n = int (length (tokens s)) - int (length (tokens s'))"
    "overdue c s' = filter (\<lambda>f. f \<notin> set (take k order)) (overdue c s)"
    "length (overdue c s') = length (overdue c s) - k"
proof -
  let ?T = "set (take k order)"
  from delete_families_ok [OF assms(1), of "take k order"] obtain n m s'
    where d: "delete_families (take k order) s = Inr (n, m, s')" "table_ok s'" .
  note p = delete_families_Inr [OF d(1)]
  have dist: "distinct order" using assms(2) distinct_overdue mset_eq_imp_distinct_iff by blast
  have sub: "?T \<subseteq> set (overdue c s)" using set_take_subset mset_eq_setD [OF assms(2)] by metis
  then have "?T \<inter> rt_family ` set (tokens s) = ?T" unfolding overdue_mem subset_iff by blast
  moreover have card: "card ?T = min k (length (overdue c s))"
    using dist mset_eq_length [OF assms(2)] by (simp add: distinct_card min.commute)
  ultimately have m: "m = int (min k (length (overdue c s)))" using p(4) by simp
  have rows: "n = int (length (tokens s)) - int (length (tokens s'))"
    using sum_length_filter_compl [of "\<lambda>r. rt_family r \<in> ?T" "tokens s"] p(1,3) by simp
  note kept = overdue_kept [OF p(1), of c]
  have "length (overdue c s') = card (set (overdue c s) - ?T)"
    unfolding kept using distinct_card [of "filter (\<lambda>f. f \<notin> ?T) (overdue c s)"] by (simp add: set_diff_eq)
  also have "\<dots> = length (overdue c s) - k"
    using sub card distinct_card [OF distinct_overdue, of c s] by (simp add: card_Diff_subset)
  finally show thesis using that [OF d(1) [unfolded m] d(2) p(1,2) rows kept] by simp
qed

lemma quiet_loop:
  assumes "cl_net env = (\<lambda>_. Delivered)" "cl_others env = (\<lambda>_ s. s)" "\<And>i xs. mset (cl_pick env i xs) = mset xs"
    and "is_ok (pg_integer POSTGRES_INT4_MAX days)" "is_ok (pg_integer 9223372036854775807 (int b))"
    and "\<And>i. cl_now env i - days * DAY_MS = c" "TIMESTAMP_MIN \<le> c" "0 < b" "table_ok s" "cr_batches res + int m = maxBatches"
    and "\<not> cr_reachedMaxBatches res"
  shows "\<exists>res' s'. cleanup_loop env days (int b) maxBatches res s = (Inr res', s')
    \<and> cr_deletedFamilies res' = cr_deletedFamilies res + int (min (length (overdue c s)) (b * m))
    \<and> cr_deletedRows res' = cr_deletedRows res + int (length (tokens s)) - int (length (tokens s'))
    \<and> length (overdue c s') = length (overdue c s) - b * m
    \<and> (\<exists>T \<subseteq> set (overdue c s). tokens s' = filter (\<lambda>r. rt_family r \<notin> T) (tokens s))
    \<and> (cr_reachedMaxBatches res' \<longleftrightarrow> b * m \<le> length (overdue c s))
    \<and> cr_batches res' = cr_batches res + int (if b * m \<le> length (overdue c s) then m else length (overdue c s) div b + 1)"
  using assms(9-11)
proof (induction m arbitrary: res s)
  case 0
  then show ?case by (subst cleanup_loop.simps) (auto intro!: exI [of _ "{}"])
next
  case (Suc m)
  let ?i = "nat (cr_batches res)" and ?N = "length (overdue c s)"
  let ?order = "cl_pick env ?i (overdue c s)"
  from one_batch [where order = ?order and c = c and k = b, OF Suc.prems(1) assms(3)] obtain n s1 where
    d: "delete_families (take b ?order) s = Inr (n, int (min b ?N), s1)" "table_ok s1"
    and t1: "tokens s1 = filter (\<lambda>r. rt_family r \<notin> set (take b ?order)) (tokens s)"
    and n: "n = int (length (tokens s)) - int (length (tokens s1))"
    and o1: "overdue c s1 = filter (\<lambda>f. f \<notin> set (take b ?order)) (overdue c s)" "length (overdue c s1) = ?N - b" .
  have sub: "set (take b ?order) \<subseteq> set (overdue c s)" using set_take_subset mset_eq_setD [OF assms(3)] by metis
  let ?res = "res\<lparr>cr_batches := cr_batches res + 1, cr_deletedRows := cr_deletedRows res + n,
      cr_deletedFamilies := cr_deletedFamilies res + int (min b ?N)\<rparr>"
  have sql: "CLEANUP_SQL (cl_pick env ?i) (cl_now env ?i) days (int b) s = Inr (n, int (min b ?N), s1)"
    using CLEANUP_SQL_ok [OF assms(4,5)] d(1) assms(6,7) by simp
  have step: "cleanup_loop env days (int b) maxBatches res s
      = (if ?N < b then (Inr ?res, s1) else cleanup_loop env days (int b) maxBatches ?res s1)"
    using sql Suc.prems(2) by (subst cleanup_loop.simps) (simp add: Let_def assms(1,2) min_def)
  show ?case
  proof (cases "?N < b")
    case True
    then have "\<not> b * Suc m \<le> ?N" by simp
    with True show ?thesis
      using step n o1(2) sub t1 Suc.prems(3) by (intro exI [of _ ?res] exI [of _ s1]) auto
  next
    case False
    have b: "cr_batches ?res + int m = maxBatches" "\<not> cr_reachedMaxBatches ?res" using Suc.prems(2,3) by simp_all
    from Suc.IH [OF d(2) b] obtain res' s' T where
      r: "cleanup_loop env days (int b) maxBatches ?res s1 = (Inr res', s')"
      "cr_deletedFamilies res' = cr_deletedFamilies ?res + int (min (length (overdue c s1)) (b * m))"
      "cr_deletedRows res' = cr_deletedRows ?res + int (length (tokens s1)) - int (length (tokens s'))"
      "length (overdue c s') = length (overdue c s1) - b * m"
      "T \<subseteq> set (overdue c s1)" "tokens s' = filter (\<lambda>r. rt_family r \<notin> T) (tokens s1)"
      "cr_reachedMaxBatches res' \<longleftrightarrow> b * m \<le> length (overdue c s1)"
      "cr_batches res' = cr_batches ?res + int (if b * m \<le> length (overdue c s1) then m else length (overdue c s1) div b + 1)"
      by blast
    have arith: "b * m \<le> ?N - b \<longleftrightarrow> b * Suc m \<le> ?N" "?N - b - b * m = ?N - b * Suc m"
      "int b + int (min (?N - b) (b * m)) = int (min ?N (b * Suc m))" "(?N - b) div b + 1 = ?N div b"
      using False assms(8) by (auto simp: min_def le_div_geq)
    have "\<exists>T \<subseteq> set (overdue c s). tokens s' = filter (\<lambda>r. rt_family r \<notin> T) (tokens s)"
      using r(5,6) sub by (intro exI [of _ "T \<union> set (take b ?order)"]) (auto simp: o1(1) t1 intro!: filter_cong)
    moreover have "min b ?N = b" using False by simp
    ultimately show ?thesis
      using r(1-4,7,8) False step n arith unfolding o1(2) by (intro exI [of _ res'] exI [of _ s']) auto
  qed
qed

section \<open>The calls of a client\<close>

datatype token_call = CallIssue rt_env string TokenClientMeta | CallRotate rt_env string TokenClientMeta | CallRevoke rt_env string string

datatype token_answer = AnswerIssue "IssuedRefreshToken result" | AnswerRotate "RotatedRefreshToken result" | AnswerRevoke "unit result"

fun perform :: "token_call \<Rightarrow> token_db \<Rightarrow> token_answer \<times> token_db" where
  "perform (CallIssue env u meta) s = map_prod AnswerIssue id (issue env u meta s)"
| "perform (CallRotate env raw meta) s = map_prod AnswerRotate id (rotate env raw meta s)"
| "perform (CallRevoke env raw reason) s = map_prod AnswerRevoke id (revokeFamilyByToken env raw reason s)"

fun call_env :: "token_call \<Rightarrow> rt_env" where
  "call_env (CallIssue env u meta) = env"
| "call_env (CallRotate env raw meta) = env"
| "call_env (CallRevoke env raw reason) = env"

fun token_answers :: "token_call list \<Rightarrow> token_db \<Rightarrow> token_answer list" where
  "token_answers [] s = []"
| "token_answers (x # xs) s = (let (a, s') = perform x s in a # token_answers xs s')"

text \<open>
  A call on its own whose statements arrive, by a process whose clock has passed \<open>c\<close>, and whose random
  values nobody has drawn before.
\<close>

definition well_timed :: "int \<Rightarrow> rt_env \<Rightarrow> token_db \<Rightarrow> bool" where
  "well_timed c env s \<longleftrightarrow> t_net env = (\<lambda>_. Delivered) \<and> t_others env = (\<lambda>s. s) \<and> c \<le> t_date_now env
     \<and> (\<forall>r \<in> set (tokens s). rt_id r \<noteq> t_new_id env \<and> rt_hash r \<noteq> t_hash env (t_new_token env) \<and> rt_family r \<noteq> t_new_family env)"

fun all_well_timed :: "int \<Rightarrow> token_call list \<Rightarrow> token_db \<Rightarrow> bool" where
  "all_well_timed c [] s \<longleftrightarrow> True"
| "all_well_timed c (x # xs) s \<longleftrightarrow> well_timed c (call_env x) s \<and> all_well_timed c xs (snd (perform x s))"

text \<open>The second table lacks some families, all of whose tokens expired before \<open>c\<close>.\<close>

definition lacks :: "int \<Rightarrow> string set \<Rightarrow> token_db \<Rightarrow> token_db \<Rightarrow> bool" where
  "lacks c G s s' \<longleftrightarrow> distinct (map rt_hash (tokens s)) \<and> user_ids s' = user_ids s
     \<and> tokens s' = filter (\<lambda>r. rt_family r \<notin> G) (tokens s)
     \<and> G \<subseteq> rt_family ` set (tokens s) \<and> (\<forall>r \<in> set (tokens s). rt_family r \<in> G \<longrightarrow> rt_expires r < c)"

lemma lacks_row:
  assumes "lacks c G s s'" "row_by rt_hash k (tokens s) = Some row"
  shows "row_by rt_hash k (tokens s') = (if rt_family row \<in> G then None else Some row)"
proof (cases "rt_family row \<in> G")
  case True
  have "rt_hash x \<noteq> k" if "x \<in> set (tokens s')" for x
  proof
    assume "rt_hash x = k"
    with that assms row_by_Some [OF assms(2)] have "x = row" by (auto simp: lacks_def distinct_map inj_on_def)
    with that assms(1) True show False by (simp add: lacks_def)
  qed
  then show ?thesis using True by (auto simp: row_by_None_iff)
next
  case False
  with assms row_by_Some [OF assms(2)] have r: "row \<in> set (tokens s')" "rt_hash row = k" by (simp_all add: lacks_def)
  have "distinct (map rt_hash (tokens s'))" using assms(1) by (simp add: lacks_def distinct_map_filter)
  from row_by_unique [OF this r(1)] r(2) False show ?thesis by simp
qed

lemma lacks_no_row:
  assumes "lacks c G s s'" "row_by rt_hash k (tokens s) = None"
  shows "row_by rt_hash k (tokens s') = None"
  using assms by (auto simp: lacks_def row_by_None_iff)

text \<open>The UPDATEs and the INSERT meet the same rows on both sides, or rows that only the first table has.\<close>

lemma filter_map_family:
  assumes "\<And>r. rt_family (g r) = rt_family r"
  shows "filter (\<lambda>r. rt_family r \<notin> G) (map g xs) = map g (filter (\<lambda>r. rt_family r \<notin> G) xs)"
  by (simp add: filter_map o_def assms)

lemma lacks_map:
  assumes "lacks c G s s'" "\<And>r. rt_family (g r) = rt_family r \<and> rt_hash (g r) = rt_hash r \<and> rt_expires (g r) = rt_expires r"
    and "tokens t = map g (tokens s)" "tokens t' = map g (tokens s')" "user_ids t = user_ids s" "user_ids t' = user_ids s'"
  shows "lacks c G t t'"
  using assms by (simp add: lacks_def filter_map_family image_image o_def)

lemma lacks_insert:
  assumes "lacks c G s s'" "rt_family n \<notin> G" "\<forall>r \<in> set (tokens s). rt_hash r \<noteq> rt_hash n"
  shows "lacks c G (s\<lparr>tokens := tokens s @ [n]\<rparr>) (s'\<lparr>tokens := tokens s' @ [n]\<rparr>)"
  using assms by (auto simp: lacks_def)

lemma lacks_insert_token:
  assumes "lacks c G s s'" "rt_family n \<notin> G" "\<forall>r \<in> set (tokens s). rt_id r \<noteq> rt_id n \<and> rt_hash r \<noteq> rt_hash n"
  shows "(\<exists>e. insert_token n s = Inl e \<and> insert_token n s' = Inl e)
    \<or> insert_token n s = Inr (s\<lparr>tokens := tokens s @ [n]\<rparr>) \<and> insert_token n s' = Inr (s'\<lparr>tokens := tokens s' @ [n]\<rparr>)"
proof -
  have "user_ids s' = user_ids s" "\<forall>r \<in> set (tokens s'). rt_id r \<noteq> rt_id n \<and> rt_hash r \<noteq> rt_hash n"
    using assms(1,3) by (simp_all add: lacks_def)
  with assms(3) show ?thesis by (auto simp: insert_token_def list_ex_iff)
qed

text \<open>A quiet revocation marks every valid row of the family.\<close>

lemma revoke_family_quiet:
  assumes "t_others env = (\<lambda>s. s)"
  shows "revoke_family env f reason s = s\<lparr>tokens := map (\<lambda>r. if rt_family r = f \<and> rt_revoked r = None
      then r\<lparr>rt_revoked := Some (t_db_now env), rt_reason := Some reason\<rparr> else r) (tokens s)\<rparr>"
  by (simp add: revoke_family_def assms cong: map_cong)

lemma lacks_revoke:
  assumes "lacks c G s s'" "t_others env = (\<lambda>s. s)"
  shows "lacks c G (revoke_family env f reason s) (revoke_family env f reason s')"
  unfolding revoke_family_quiet [OF assms(2)]
  by (rule lacks_map [OF assms(1), where g = "\<lambda>r. if rt_family r = f \<and> rt_revoked r = None
      then r\<lparr>rt_revoked := Some (t_db_now env), rt_reason := Some reason\<rparr> else r"]) simp_all

lemma lacks_revoke_gone:
  assumes "lacks c G s s'" "t_others env = (\<lambda>s. s)" "f \<in> G"
  shows "lacks c G (revoke_family env f reason s) s'"
proof -
  have "tokens (revoke_family env f reason s') = tokens s'"
    using assms(1,3) by (simp add: revoke_family_quiet [OF assms(2)]) (intro map_idI, auto simp: lacks_def)
  then have "revoke_family env f reason s' = s'" by (simp add: revoke_family_quiet [OF assms(2)])
  with lacks_revoke [OF assms(1,2), of f reason] show ?thesis by simp
qed

text \<open>Each call gives the same answer on both tables and leaves them alike.\<close>

lemma lacks_issue:
  assumes "lacks c G s s'" "well_timed c env s"
  shows "fst (issue env u meta s') = fst (issue env u meta s) \<and> lacks c G (snd (issue env u meta s)) (snd (issue env u meta s'))"
proof -
  let ?n = "token_row env meta u (t_new_family env) None"
  have "t_new_family env \<notin> rt_family ` set (tokens s)" using assms(2) by (auto simp: well_timed_def)
  then have "rt_family ?n \<notin> G" using assms(1) by (auto simp: lacks_def token_row_def)
  moreover have fresh: "\<forall>r \<in> set (tokens s). rt_id r \<noteq> rt_id ?n \<and> rt_hash r \<noteq> rt_hash ?n"
    using assms(2) by (simp add: well_timed_def token_row_def)
  ultimately show ?thesis
    using lacks_insert_token [OF assms(1), of ?n] lacks_insert [OF assms(1), of ?n] assms
    by (auto simp: issue_def well_timed_def)
qed

lemma lacks_rotate:
  assumes "lacks c G s s'" "well_timed c env s"
  shows "fst (rotate env raw meta s') = fst (rotate env raw meta s) \<and> lacks c G (snd (rotate env raw meta s)) (snd (rotate env raw meta s'))"
proof -
  have t: "t_net env = (\<lambda>_. Delivered)" "t_others env = (\<lambda>s. s)" "c \<le> t_date_now env" using assms(2) by (simp_all add: well_timed_def)
  show ?thesis
  proof (cases "row_by rt_hash (t_hash env raw) (tokens s)")
    case None
    with lacks_no_row [OF assms(1)] assms(1) show ?thesis by (simp add: rotate_def)
  next
    case (Some row)
    note there = lacks_row [OF assms(1) Some]
    show ?thesis
    proof (cases "rt_family row \<in> G")
      case True
      then have "rt_expires row < c" using assms(1) row_by_Some [OF Some] by (simp add: lacks_def)
      with True Some there t lacks_revoke_gone [OF assms(1) t(2) True] assms(1) show ?thesis
        by (simp add: rotate_def t_commit_def t_ask_def)
    next
      case False
      let ?n = "token_row env meta (rt_user row) (rt_family row) (Some (rt_id row))"
      have n: "rt_family ?n \<notin> G" "\<forall>r \<in> set (tokens s). rt_id r \<noteq> rt_id ?n \<and> rt_hash r \<noteq> rt_hash ?n"
        using assms(2) False by (simp_all add: well_timed_def token_row_def)
      have "lacks c G (s\<lparr>tokens := tokens s @ [?n]\<rparr>) (s'\<lparr>tokens := tokens s' @ [?n]\<rparr>)"
        using n by (intro lacks_insert [OF assms(1)]) auto
      then have "lacks c G (consume env (rt_id row) (t_new_id env) (s\<lparr>tokens := tokens s @ [?n]\<rparr>))
          (consume env (rt_id row) (t_new_id env) (s'\<lparr>tokens := tokens s' @ [?n]\<rparr>))"
        by (rule lacks_map [where g = "\<lambda>r. if rt_id r = rt_id row
            then r\<lparr>rt_used := Some (t_db_now env), rt_replaced := Some (t_new_id env)\<rparr> else r"]) (simp_all add: consume_def)
      with False Some there t lacks_revoke [OF assms(1) t(2)] assms(1) lacks_insert_token [OF assms(1) n] show ?thesis
        by (auto simp: rotate_def t_commit_def t_ask_def)
    qed
  qed
qed

lemma lacks_revokeFamilyByToken:
  assumes "lacks c G s s'" "well_timed c env s"
  shows "fst (revokeFamilyByToken env raw reason s') = fst (revokeFamilyByToken env raw reason s)
    \<and> lacks c G (snd (revokeFamilyByToken env raw reason s)) (snd (revokeFamilyByToken env raw reason s'))"
proof -
  have t: "t_net env = (\<lambda>_. Delivered)" "t_others env = (\<lambda>s. s)" using assms(2) by (simp_all add: well_timed_def)
  show ?thesis
  proof (cases "row_by rt_hash (t_hash env raw) (tokens s)")
    case None
    with lacks_no_row [OF assms(1)] assms(1) t show ?thesis by (simp add: revokeFamilyByToken_def t_ask_def)
  next
    case (Some row)
    from lacks_row [OF assms(1) Some] Some t lacks_revoke [OF assms(1) t(2)] lacks_revoke_gone [OF assms(1) t(2)] assms(1)
    show ?thesis by (simp add: revokeFamilyByToken_def t_ask_def)
  qed
qed

lemma lacks_perform:
  assumes "lacks c G s s'" "well_timed c (call_env x) s"
  shows "fst (perform x s') = fst (perform x s) \<and> lacks c G (snd (perform x s)) (snd (perform x s'))"
  using assms lacks_issue lacks_rotate lacks_revokeFamilyByToken by (cases x) auto

lemma lacks_answers: "lacks c G s s' \<Longrightarrow> all_well_timed c xs s \<Longrightarrow> token_answers xs s' = token_answers xs s"
proof (induction xs arbitrary: s s')
  case (Cons x xs)
  from lacks_perform [OF Cons.prems(1), of x] Cons.prems(2) Cons.IH show ?case by (simp add: case_prod_unfold Let_def)
qed simp

text \<open>What a cleanup on its own has taken away.\<close>

lemma lacks_refl: "distinct (map rt_hash (tokens s)) \<Longrightarrow> lacks c {} s s"
  by (simp add: lacks_def)

lemma lacks_delete:
  assumes "lacks c G s s1" "delete_families target s1 = Inr (n, m, s2)" "set target \<subseteq> set (overdue c' s1)" "c' \<le> c"
  shows "lacks c (G \<union> set target) s s2"
proof -
  note d = delete_families_Inr(1,2) [OF assms(2)]
  have s1: "tokens s1 = filter (\<lambda>r. rt_family r \<notin> G) (tokens s)" using assms(1) by (simp add: lacks_def)
  have "rt_expires r < c" if "r \<in> set (tokens s)" "rt_family r \<in> set target" "rt_family r \<notin> G" for r
    using that assms(3,4) s1 by (fastforce simp: overdue_mem)
  moreover have "set target \<subseteq> rt_family ` set (tokens s)" using assms(3) s1 by (fastforce simp: overdue_mem)
  moreover have "tokens s2 = filter (\<lambda>r. rt_family r \<notin> G \<union> set target) (tokens s)" using d(1) s1 by (simp add: conj_commute)
  ultimately show ?thesis using assms(1) d(2) by (auto simp: lacks_def)
qed

lemma cleanup_loop_lacks:
  assumes "\<And>i xs. set (cl_pick env i xs) = set xs" "cl_others env = (\<lambda>_ s. s)"
    and "\<And>i. cl_now env i - days * DAY_MS \<le> c" "lacks c G s0 s"
  shows "\<exists>G'. lacks c G' s0 (snd (cleanup_loop env days batchSize maxBatches res s))"
  using assms(4)
proof (induction "nat (maxBatches - cr_batches res)" arbitrary: res s G rule: less_induct)
  case less
  let ?i = "nat (cr_batches res)"
  let ?c = "cl_now env ?i - days * DAY_MS"
  let ?sql = "CLEANUP_SQL (cl_pick env ?i) (cl_now env ?i) days batchSize s"
  show ?case
  proof (cases ?sql)
    case (Inl x)
    with less.prems show ?thesis by (subst cleanup_loop.simps) (auto simp: Let_def assms(2))
  next
    case (Inr y)
    then obtain n k s1 where y: "?sql = Inr (n, k, s1)" by (metis prod_cases3)
    let ?target = "take (nat batchSize) (cl_pick env ?i (overdue ?c s))"
    have "set ?target \<subseteq> set (overdue ?c s)" using set_take_subset assms(1) by fastforce
    from lacks_delete [OF less.prems CLEANUP_SQL_Inr [OF y] this assms(3)] have s1: "lacks c (G \<union> set ?target) s0 s1" .
    let ?res = "res\<lparr>cr_batches := cr_batches res + 1, cr_deletedRows := cr_deletedRows res + n,
        cr_deletedFamilies := cr_deletedFamilies res + k\<rparr>"
    have "\<exists>G'. lacks c G' s0 (snd (cleanup_loop env days batchSize maxBatches ?res s1))" if "cr_batches res < maxBatches"
      by (rule less.hyps [OF _ s1]) (use that in simp)
    with y s1 less.prems show ?thesis by (subst cleanup_loop.simps) (auto simp: Let_def assms(2))
  qed
qed

section \<open>Samples\<close>

text \<open>The cleanup of the two rows of \<open>sample_rotated\<close> at a time of the database's clock.\<close>

definition sample_cleanup :: "int \<Rightarrow> cleanup_env" where
  "sample_cleanup t = \<lparr>cl_now = (\<lambda>_. t), cl_net = (\<lambda>_. Delivered), cl_pick = (\<lambda>_ xs. xs), cl_others = (\<lambda>_ s. s)\<rparr>"

lemma sample_cleanup_simps [simp]:
  "cl_now (sample_cleanup t) = (\<lambda>_. t)" "cl_net (sample_cleanup t) = (\<lambda>_. Delivered)"
  "cl_pick (sample_cleanup t) = (\<lambda>_ xs. xs)" "cl_others (sample_cleanup t) = (\<lambda>_ s. s)"
  by (simp_all add: sample_cleanup_def)

definition one_at_most :: CleanupOptions where
  "one_at_most = \<lparr>co_batchSize = Some (jsint 1), co_maxBatches = Some (jsint 1)\<rparr>"

definition empty_tokens :: "string list \<Rightarrow> token_db" where
  "empty_tokens us = \<lparr>tokens = [], user_ids = us\<rparr>"

lemma empty_tokens_ok: "table_ok (empty_tokens us)"
  by (simp add: empty_tokens_def table_ok_def tokens_ok_def one_active_def lineage_ok_def)

lemma sample_rotated_reached: "(token_step sample_rt_hash)\<^sup>*\<^sup>* (empty_tokens [''u'']) sample_rotated"
proof (rule converse_rtranclp_into_rtranclp [OF _ r_into_rtranclp])
  show "token_step sample_rt_hash (empty_tokens [''u'']) sample_login"
    unfolding sample_login_def empty_tokens_def by (rule token_step.Issue) simp_all
  show "token_step sample_rt_hash sample_login sample_rotated"
    unfolding sample_rotated_def by (rule token_step.Rotate) simp_all
qed

lemma sample_settings_ok: "settings_ok None one_at_most"
  "settings_ok None \<lparr>co_batchSize = None, co_maxBatches = None\<rparr>"
  by code_simp+

lemma sample_retention: "retention None = 30"
  by code_simp

section \<open>Properties\<close>

text \<open>C30: whatever else happens to the table while it runs, and whatever happens to its statements, a cleanup takes
  no token of a family in which some token has not yet been expired for the retention, and it leaves each row's
  parent and successor in place; with its statements delivered and settings that pass the checks it never fails
  on the table's foreign keys to itself.\<close>

theorem cleanup_spares_young_families:
  assumes "(token_step h)\<^sup>*\<^sup>* (empty_tokens us) s" "\<And>i s. (token_step h)\<^sup>*\<^sup>* s (cl_others env i s)"
    and "\<And>i xs. mset (cl_pick env i xs) = mset xs" "\<And>i. cutoff env days i \<le> c"
    and "cleanupExpiredRefreshTokenFamilies env days options s = (r, s')"
  shows "table_ok s' \<and> (\<forall>row \<in> set (tokens s). young c s (rt_family row) \<longrightarrow> (\<exists>row' \<in> set (tokens s'). row_le row row'))
    \<and> (cl_net env = (\<lambda>_. Delivered) \<and> settings_ok days options \<and> (\<forall>i. TIMESTAMP_MIN \<le> cutoff env days i) \<longrightarrow> is_ok r)"
proof (intro conjI impI)
  have s: "table_ok s" by (rule reach_table_ok [OF assms(1) empty_tokens_ok])
  have pick: "set (cl_pick env i xs) = set xs" for i xs using assms(3) [of i xs] by (rule mset_eq_setD)
  have cut: "cl_now env i - retention days * DAY_MS \<le> c" for i using assms(4) [of i] by (simp add: cutoff_def)
  have "keeps_young c s s'"
  proof (cases rule: cleanup_cases [of env days options s])
    case (2 b m)
    then show ?thesis
      using cleanup_loop_keeps_young [where s = s and batchSize = b and maxBatches = m and res = start_cleanup, OF pick keeps_young_others [OF assms(2)] cut]
        assms(5) by (metis snd_conv)
  qed (use assms(5) in simp)
  with s show "table_ok s'" "\<forall>row \<in> set (tokens s). young c s (rt_family row) \<longrightarrow> (\<exists>row' \<in> set (tokens s'). row_le row row')"
    by (simp_all add: keeps_young_def)
  assume "cl_net env = (\<lambda>_. Delivered) \<and> settings_ok days options \<and> (\<forall>i. TIMESTAMP_MIN \<le> cutoff env days i)"
  then have d: "cl_net env = (\<lambda>_. Delivered)" and o: "settings_ok days options"
    and t: "TIMESTAMP_MIN \<le> cl_now env i - retention days * DAY_MS" for i by (simp_all add: cutoff_def)
  from o have p: "is_ok (pg_integer POSTGRES_INT4_MAX (retention days))"
    "is_ok (pg_integer 9223372036854775807 (or_default DEFAULT_BATCH_SIZE (co_batchSize options)))" by (simp_all add: settings_ok_def)
  from cleanup_loop_ok [OF s d reach_table_ok [OF assms(2)] p t] cleanup_unfold [OF o] assms(5) show "is_ok r" by (metis fst_conv)
qed

lemma cleanup_spares_young_families_witness:
  "let (r, s') = cleanupExpiredRefreshTokenFamilies (sample_cleanup 3801601000) None one_at_most sample_rotated
   in table_ok s' \<and> is_ok r \<and> list_ex (\<lambda>row. rt_hash row = ''#B'') (tokens s')"
proof -
  let ?call = "cleanupExpiredRefreshTokenFamilies (sample_cleanup 3801601000) None one_at_most sample_rotated"
  have c: "cutoff (sample_cleanup 3801601000) None i = 1209601000" for i by (simp add: cutoff_def sample_retention DAY_MS_def)
  note w = cleanup_spares_young_families [OF sample_rotated_reached, of "sample_cleanup 3801601000" None 1209601000 one_at_most
      "fst ?call" "snd ?call"]
  have p: "table_ok (snd ?call) \<and> (\<forall>row \<in> set (tokens sample_rotated). young 1209601000 sample_rotated (rt_family row)
        \<longrightarrow> (\<exists>row' \<in> set (tokens (snd ?call)). row_le row row')) \<and> is_ok (fst ?call)"
    using w by (simp add: c sample_settings_ok TIMESTAMP_MIN_def)
  have "tokens sample_rotated ! 1 \<in> set (tokens sample_rotated)" "rt_hash (tokens sample_rotated ! 1) = ''#B''" by code_simp+
  moreover have "young 1209601000 sample_rotated (rt_family (tokens sample_rotated ! 1))" unfolding young_def by code_simp
  ultimately show ?thesis using p by (fastforce simp: list_ex_iff row_le_def split: prod.split)
qed

text \<open>C31: a cleanup is invisible: once the clocks of the processes have passed every cutoff, any sequence of calls
  is answered after an undisturbed cleanup exactly as it would have been without it.\<close>

theorem cleanup_is_invisible:
  assumes "distinct (map rt_hash (tokens s))" "cl_others env = (\<lambda>_ s. s)"
    and "\<And>i xs. mset (cl_pick env i xs) = mset xs" "\<And>i. cutoff env days i \<le> c" "all_well_timed c calls s"
  shows "token_answers calls (snd (cleanupExpiredRefreshTokenFamilies env days options s)) = token_answers calls s"
proof (cases rule: cleanup_cases [of env days options s])
  case (2 b m)
  have "set (cl_pick env i xs) = set xs" for i xs using assms(3) [of i xs] by (rule mset_eq_setD)
  from cleanup_loop_lacks [OF this assms(2) assms(4) [unfolded cutoff_def] lacks_refl [OF assms(1)]] 2 lacks_answers [OF _ assms(5)]
  show ?thesis by metis
qed simp

lemma cleanup_is_invisible_witness:
  "token_answers [CallRotate (sample_rt_env ''r3'' ''C'' \<lparr>t_date_now := 1300000000, t_new_family := ''f3''\<rparr>) ''B'' sample_meta]
     (snd (cleanupExpiredRefreshTokenFamilies (sample_cleanup 3801601001) None one_at_most sample_rotated))
   = [AnswerRotate (Inl invalid_token)]"
proof -
  let ?calls = "[CallRotate (sample_rt_env ''r3'' ''C'' \<lparr>t_date_now := 1300000000, t_new_family := ''f3''\<rparr>) ''B'' sample_meta]"
  have c: "cutoff (sample_cleanup 3801601001) None i \<le> 1300000000" for i by (simp add: cutoff_def sample_retention DAY_MS_def)
  have "well_timed 1300000000 (sample_rt_env ''r3'' ''C'' \<lparr>t_date_now := 1300000000, t_new_family := ''f3''\<rparr>) sample_rotated"
    unfolding well_timed_def by (intro conjI, simp, simp, simp, code_simp)
  then have "all_well_timed 1300000000 ?calls sample_rotated" by simp
  from cleanup_is_invisible [of sample_rotated "sample_cleanup 3801601001" None 1300000000 ?calls one_at_most, OF _ _ _ c this]
  have "token_answers ?calls (snd (cleanupExpiredRefreshTokenFamilies (sample_cleanup 3801601001) None one_at_most sample_rotated))
      = token_answers ?calls sample_rotated" using sample_login_ok(2) by (simp add: tokens_ok_def)
  also have "\<dots> = [AnswerRotate (Inl invalid_token)]" by code_simp
  finally show ?thesis .
qed

text \<open>C32: a cleanup that is alone finishes what fits into its batches: with N overdue families, batches of B and at
  most M batches it deletes min N (B M) families and no other rows; it says that it stopped early exactly
  when N reaches B M, and otherwise nothing overdue is left.\<close>

theorem quiet_cleanup_completes:
  assumes "table_ok s" "cl_net env = (\<lambda>_. Delivered)" "cl_others env = (\<lambda>_ s. s)"
    and "\<And>i xs. mset (cl_pick env i xs) = mset xs" "settings_ok days options"
    and "\<And>i. cutoff env days i = c" "TIMESTAMP_MIN \<le> c" "N = length (overdue c s)"
    and "int B = or_default DEFAULT_BATCH_SIZE (co_batchSize options)" "int M = or_default DEFAULT_MAX_BATCHES (co_maxBatches options)"
  shows "\<exists>result s'. cleanupExpiredRefreshTokenFamilies env days options s = (Inr result, s')
    \<and> cr_deletedFamilies result = int (min N (B * M))
    \<and> cr_deletedRows result = int (length (tokens s)) - int (length (tokens s'))
    \<and> length (overdue c s') = N - B * M
    \<and> (\<exists>T \<subseteq> set (overdue c s). tokens s' = filter (\<lambda>row. rt_family row \<notin> T) (tokens s))
    \<and> (cr_reachedMaxBatches result \<longleftrightarrow> B * M \<le> N)
    \<and> cr_batches result = int (if B * M \<le> N then M else N div B + 1)"
proof -
  have "is_ok (pg_integer POSTGRES_INT4_MAX (retention days))" "is_ok (pg_integer 9223372036854775807 (int B))" "0 < B"
    using assms(5,9) by (auto simp: settings_ok_def assertPositiveInteger_def or_default_def split: if_splits)
  from quiet_loop [OF assms(2-4) this(1,2) assms(6) [unfolded cutoff_def] assms(7) this(3) assms(1), of start_cleanup M "int M"]
  show ?thesis
    unfolding cleanup_unfold [OF assms(5)] assms(8) assms(9,10) [symmetric] by (simp add: start_cleanup_def split del: if_split)
qed

lemma quiet_cleanup_completes_witness:
  "let (r, s') = cleanupExpiredRefreshTokenFamilies (sample_cleanup 3801601001) None one_at_most sample_rotated
   in r = Inr \<lparr>cr_deletedRows = 2, cr_deletedFamilies = 1, cr_batches = 1, cr_reachedMaxBatches = True\<rparr> \<and> tokens s' = []"
proof -
  have o: "overdue 1209601001 sample_rotated = [''f2'']" "length (tokens sample_rotated) = 2" by code_simp+
  have c: "cutoff (sample_cleanup 3801601001) None i = 1209601001" for i by (simp add: cutoff_def sample_retention DAY_MS_def)
  have n: "int 1 = or_default DEFAULT_BATCH_SIZE (co_batchSize one_at_most)" "int 1 = or_default DEFAULT_MAX_BATCHES (co_maxBatches one_at_most)"
    by (simp_all add: or_default_def one_at_most_def)
  from quiet_cleanup_completes [OF reach_table_ok [OF sample_rotated_reached empty_tokens_ok] _ _ _ sample_settings_ok(1) c _ refl n]
  obtain result s' T where
    r: "cleanupExpiredRefreshTokenFamilies (sample_cleanup 3801601001) None one_at_most sample_rotated = (Inr result, s')"
      "cr_deletedFamilies result = 1" "length (overdue 1209601001 s') = 0" "cr_deletedRows result = 2 - int (length (tokens s'))"
      "tokens s' = filter (\<lambda>row. rt_family row \<notin> T) (tokens sample_rotated)" "T \<subseteq> {''f2''}"
      "cr_reachedMaxBatches result" "cr_batches result = 1"
    by (auto simp: o TIMESTAMP_MIN_def)
  have f: "list_all (\<lambda>row. rt_family row = ''f2'') (tokens sample_rotated)" by code_simp
  have "''f2'' \<in> T"
  proof (rule ccontr)
    assume "''f2'' \<notin> T"
    with f r(5) have "tokens s' = tokens sample_rotated" by (simp add: list_all_iff)
    then have "overdue 1209601001 s' = overdue 1209601001 sample_rotated"
      by (simp add: overdue_def families_def max_expires_def)
    with r(3) o(1) show False by simp
  qed
  with f r(5) have "tokens s' = []" by (simp add: list_all_iff filter_empty_conv)
  with r show ?thesis by simp
qed

text \<open>The lock is given back by whoever took it, whatever happens in between, and the connection is closed last;
  without the lock the run does not touch the table.\<close>

lemma lock_is_given_back:
  assumes "runOnce to_number process_env fails hold lk env s = (res, trace, s')"
  shows "(TookLock \<notin> set trace \<longrightarrow> s' = s \<and> (\<forall>r. res \<noteq> RunLocked (CleanupCompleted r)))
    \<and> (TookLock \<in> set trace \<longrightarrow> (\<exists>waits. trace = TookLock # waits @ unlock lk @ [Closed] \<and> (\<forall>e \<in> set waits. \<exists>ms > 0. e = Slept ms)))
    \<and> (trace \<noteq> [] \<longrightarrow> last trace = Closed)"
proof -
  have u: "unlock (lk\<lparr>lk_minLockHoldMs := Some hold, lk_sleeps := True\<rparr>) = unlock lk" by (simp add: unlock_def)
  have h: "\<forall>e \<in> set (hold_lock (lk\<lparr>lk_minLockHoldMs := Some hold, lk_sleeps := True\<rparr>)). \<exists>ms > 0. e = Slept ms" by (simp add: hold_lock_def Let_def)
  have "trace = [] \<and> s' = s \<and> res = CleanupFailed \<or> trace = [Closed] \<and> s' = s \<and> (\<forall>r. res \<noteq> RunLocked (CleanupCompleted r))
    \<or> (\<exists>waits. trace = TookLock # waits @ unlock lk @ [Closed] \<and> (\<forall>e \<in> set waits. \<exists>ms > 0. e = Slept ms))"
  proof (cases "cleanupExpiredRefreshTokenFamilies env (case resolveRetentionDays to_number process_env of Inr d \<Rightarrow> Some d | _ \<Rightarrow> None)
      \<lparr>co_batchSize = None, co_maxBatches = None\<rparr> s")
    case (Pair r t)
    then show ?thesis
      using assms h by (cases "resolveRetentionDays to_number process_env"; cases r)
        (auto simp: runOnce_def runRefreshTokenCleanupWithLock_def u split: if_splits sum.splits)
  qed
  then show ?thesis by auto
qed

end
