(* ===== verification/Catalog.thy ===== *)
theory Catalog
  imports CutoverDatabase
begin

text \<open>
  The part of the PostgreSQL catalog that the two readiness checkers read, the statements of the
  migrations that fill it, and the catalog halves of the checks:
  src/database/ticket-type-expand-readiness.ts (the triggers, foreign keys, NOT NULL columns and unique
  indexes that the expand schema needs) and src/cutover/ticket-type-cutover-readiness.ts (the objects of
  the compatibility writer). Relations are named with their schema. The text of a function body is denoted by a
  name; \<open>md5\<close>, an argument, is what PostgreSQL's md5 yields for the text of that name.
\<close>

section \<open>Joins\<close>

text \<open>One row of a LEFT JOIN: the rows that match, or one row of NULLs.\<close>

definition left_join :: "('r \<Rightarrow> bool) \<Rightarrow> 'r list \<Rightarrow> 'r option list" where
  "left_join on rows = (if filter on rows = [] then [None] else map Some (filter on rows))"

lemma left_join_all:
  "(\<forall>h \<in> set (left_join on rows). P h)
     \<longleftrightarrow> (\<forall>r \<in> set rows. on r \<longrightarrow> P (Some r)) \<and> (P None \<or> (\<exists>r \<in> set rows. on r))"
  by (auto simp: left_join_def filter_empty_conv)

lemma left_join_none: "\<not> P None \<Longrightarrow>
  (\<forall>h \<in> set (left_join on rows). P h) \<longleftrightarrow> (\<exists>r \<in> set rows. on r) \<and> (\<forall>r \<in> set rows. on r \<longrightarrow> P (Some r))"
  by (auto simp: left_join_all)

section \<open>Catalog rows\<close>

record pg_proc =
  proc_oid :: nat
  proname :: string
  prorettype :: string
  pronargs :: nat
  prokind :: char
  provolatile :: char
  proparallel :: char
  prolang :: string
  prosecdef :: bool
  proleakproof :: bool
  proconfig :: "string list option"
  prosrc :: string

record pg_trigger =
  tgrelid :: string
  tgname :: string
  tgisinternal :: bool
  tgenabled :: char
  tgfoid :: nat
  tgtype :: nat
  tgnargs :: nat
  tgqual :: "string option"
  tgconstraint :: nat
  tgdeferrable :: bool
  tginitdeferred :: bool
  tgattr :: string
  tgoldtable :: "string option"
  tgnewtable :: "string option"

text \<open>\<open>conkey\<close> and \<open>confkey\<close> hold the names of the columns in the order of the key.\<close>

record pg_constraint =
  conrelid :: string
  conname :: string
  contype :: char
  convalidated :: bool
  confrelid :: string
  confdeltype :: char
  confupdtype :: char
  confmatchtype :: char
  condeferrable :: bool
  condeferred :: bool
  conkey :: "string list"
  confkey :: "string list"

record pg_attribute =
  attrelid :: string
  attname :: string
  attnum :: int
  attisdropped :: bool
  attnotnull :: bool

text \<open>\<open>indexdef\<close> holds what \<open>pg_get_indexdef\<close> prints per key column, \<open>indpred\<close> the printed predicate.\<close>

record pg_index =
  indexrelid :: string
  indrelid :: string
  amname :: string
  indisunique :: bool
  indisvalid :: bool
  indisready :: bool
  indislive :: bool
  indisprimary :: bool
  indisexclusion :: bool
  indnatts :: nat
  indnkeyatts :: nat
  indexdef :: "string list"
  indpred :: "string option"

record catalog =
  pg_procs :: "pg_proc list"
  pg_triggers :: "pg_trigger list"
  pg_constraints :: "pg_constraint list"
  pg_attributes :: "pg_attribute list"
  pg_indexes :: "pg_index list"

definition public :: "string \<Rightarrow> string" where
  "public name = ''public.'' @ name"

text \<open>\<open>to_regprocedure\<close> of a trigger function in the schema public.\<close>

definition to_regprocedure :: "string \<Rightarrow> catalog \<Rightarrow> nat option" where
  "to_regprocedure f c = map_option proc_oid (find (\<lambda>p. proname p = public f) (pg_procs c))"

section \<open>The bridge triggers\<close>

record required_trigger =
  rt_table :: string
  rt_trigger :: string
  rt_function :: string
  rt_md5s :: "string list"
  rt_type :: nat

definition required :: "string \<Rightarrow> string \<Rightarrow> string \<Rightarrow> string list \<Rightarrow> nat \<Rightarrow> required_trigger" where
  "required t g f ms ty = \<lparr>rt_table = t, rt_trigger = g, rt_function = f, rt_md5s = ms, rt_type = ty\<rparr>"

definition required_bridge_triggers :: "required_trigger list" where
  "required_bridge_triggers =
     [required ''events'' ''events_ticket_type_expand_default_trg'' ''ticket_type_expand_create_default_ticket_type''
        [''b93a46dd7d53cb4f5833ff8ce5f447f5''] 5,
      required ''ticket_inventory'' ''ticket_inventory_ticket_type_expand_sync_trg'' ''ticket_type_expand_sync_inventory''
        [''4c5fc01e805ed4fb42cd4d35c493aa78'', ''56894124575b9c7825a172fa67cf5d86''] 21,
      required ''purchases'' ''purchases_ticket_type_expand_default_trg'' ''ticket_type_expand_set_purchase_ticket_type''
        [''9b5c4e4e463f9d632afcd449ce80281f''] 7]"

definition trigger_wired :: "required_trigger \<Rightarrow> catalog \<Rightarrow> pg_trigger \<Rightarrow> bool" where
  "trigger_wired r c t =
     (Some (tgfoid t) = to_regprocedure (rt_function r) c \<and> tgtype t = rt_type r \<and> tgnargs t = 0 \<and> tgqual t = None
      \<and> tgconstraint t = 0 \<and> \<not> tgdeferrable t \<and> \<not> tginitdeferred t \<and> tgattr t = [] \<and> tgoldtable t = None \<and> tgnewtable t = None)"

definition function_sound :: "(string \<Rightarrow> string) \<Rightarrow> string list \<Rightarrow> pg_proc \<Rightarrow> bool" where
  "function_sound md5 hashes f =
     (prorettype f = ''trigger'' \<and> pronargs f = 0 \<and> prokind f = CHR ''f'' \<and> provolatile f = CHR ''v'' \<and> proparallel f = CHR ''u''
      \<and> prolang f = ''plpgsql'' \<and> \<not> prosecdef f \<and> \<not> proleakproof f
      \<and> proconfig f = Some [''search_path=pg_catalog, public, pg_temp''] \<and> md5 (prosrc f) \<in> set hashes)"

text \<open>The rows of the two left joins for one required trigger.\<close>

definition joined_triggers :: "required_trigger \<Rightarrow> catalog \<Rightarrow> (pg_trigger option \<times> pg_proc option) list" where
  "joined_triggers r c =
     concat (map (\<lambda>t. map (Pair t) (case t of
         None \<Rightarrow> [None]
       | Some g \<Rightarrow> left_join (\<lambda>f. proc_oid f = tgfoid g) (pg_procs c)))
       (left_join (\<lambda>g. tgrelid g = public (rt_table r) \<and> tgname g = rt_trigger r \<and> \<not> tgisinternal g) (pg_triggers c)))"

definition trigger_ok :: "(string \<Rightarrow> string) \<Rightarrow> char list \<Rightarrow> required_trigger \<Rightarrow> catalog \<Rightarrow> pg_trigger option \<times> pg_proc option \<Rightarrow> bool" where
  "trigger_ok md5 enabled r c j =
     (case j of
        (Some t, Some f) \<Rightarrow> tgenabled t \<in> set enabled \<and> trigger_wired r c t \<and> function_sound md5 (rt_md5s r) f
      | _ \<Rightarrow> False)"

definition trigger_violations :: "(string \<Rightarrow> string) \<Rightarrow> char list \<Rightarrow> required_trigger list \<Rightarrow> catalog \<Rightarrow> nat" where
  "trigger_violations md5 enabled rs c =
     sum_list (map (\<lambda>r. count_rows (\<lambda>j. \<not> trigger_ok md5 enabled r c j) (joined_triggers r c)) rs)"

definition required_bridge_trigger_missing_or_disabled :: "(string \<Rightarrow> string) \<Rightarrow> catalog \<Rightarrow> nat" where
  "required_bridge_trigger_missing_or_disabled md5 c = trigger_violations md5 [CHR ''O'', CHR ''A''] required_bridge_triggers c"

section \<open>The foreign keys\<close>

record required_foreign_key =
  rf_table :: string
  rf_name :: string
  rf_columns :: "string list"
  rf_references :: string
  rf_referenced :: "string list"
  rf_delete :: char

definition required_ticket_type_foreign_keys :: "required_foreign_key list" where
  "required_ticket_type_foreign_keys =
     [\<lparr>rf_table = ''ticket_types'', rf_name = ''ticket_types_event_id_fkey'', rf_columns = [''event_id''],
       rf_references = ''events'', rf_referenced = [''id''], rf_delete = CHR ''c''\<rparr>,
      \<lparr>rf_table = ''ticket_type_inventory'', rf_name = ''ticket_type_inventory_event_ticket_type_fkey'',
       rf_columns = [''event_id'', ''ticket_type_id''], rf_references = ''ticket_types'', rf_referenced = [''event_id'', ''id''],
       rf_delete = CHR ''c''\<rparr>,
      \<lparr>rf_table = ''purchases'', rf_name = ''purchases_event_ticket_type_fkey'', rf_columns = [''event_id'', ''ticket_type_id''],
       rf_references = ''ticket_types'', rf_referenced = [''event_id'', ''id''], rf_delete = CHR ''r''\<rparr>]"

definition foreign_key_ok :: "required_foreign_key \<Rightarrow> pg_constraint option \<Rightarrow> bool" where
  "foreign_key_ok r j =
     (case j of
        None \<Rightarrow> False
      | Some k \<Rightarrow> contype k = CHR ''f'' \<and> convalidated k \<and> confrelid k = public (rf_references r) \<and> confdeltype k = rf_delete r
          \<and> confupdtype k = CHR ''a'' \<and> confmatchtype k = CHR ''s'' \<and> \<not> condeferrable k \<and> \<not> condeferred k
          \<and> conkey k = rf_columns r \<and> confkey k = rf_referenced r)"

definition required_ticket_type_fk_missing_or_unvalidated :: "catalog \<Rightarrow> nat" where
  "required_ticket_type_fk_missing_or_unvalidated c =
     sum_list (map (\<lambda>r. count_rows (\<lambda>j. \<not> foreign_key_ok r j)
       (left_join (\<lambda>k. conrelid k = public (rf_table r) \<and> conname k = rf_name r) (pg_constraints c)))
       required_ticket_type_foreign_keys)"

section \<open>The NOT NULL columns\<close>

definition required_not_null_columns :: "(string \<times> string) list" where
  "required_not_null_columns =
     [(''ticket_types'', ''id''), (''ticket_types'', ''event_id''), (''ticket_types'', ''name''), (''ticket_types'', ''is_default''),
      (''ticket_types'', ''created_at''), (''ticket_types'', ''updated_at''),
      (''ticket_type_inventory'', ''ticket_type_id''), (''ticket_type_inventory'', ''event_id''),
      (''ticket_type_inventory'', ''total_quantity''), (''ticket_type_inventory'', ''remaining_quantity''),
      (''ticket_type_inventory'', ''version''), (''ticket_type_inventory'', ''updated_at''),
      (''purchases'', ''ticket_type_id'')]"

definition not_null_ok :: "pg_attribute option \<Rightarrow> bool" where
  "not_null_ok j = (case j of None \<Rightarrow> False | Some a \<Rightarrow> attnotnull a)"

definition required_ticket_type_not_null_missing :: "catalog \<Rightarrow> nat" where
  "required_ticket_type_not_null_missing c =
     sum_list (map (\<lambda>(t, n). count_rows (\<lambda>j. \<not> not_null_ok j)
       (left_join (\<lambda>a. attrelid a = public t \<and> attname a = n \<and> 0 < attnum a \<and> \<not> attisdropped a) (pg_attributes c)))
       required_not_null_columns)"

section \<open>The unique indexes\<close>

record required_index =
  ri_table :: string
  ri_name :: string
  ri_keys :: "string list"
  ri_predicate :: "string option"
  ri_primary :: bool

definition required_unique_indexes :: "required_index list" where
  "required_unique_indexes =
     [\<lparr>ri_table = ''ticket_types'', ri_name = ''ticket_types_pkey'', ri_keys = [''id''], ri_predicate = None, ri_primary = True\<rparr>,
      \<lparr>ri_table = ''ticket_types'', ri_name = ''ticket_types_event_id_id_key'', ri_keys = [''event_id'', ''id''], ri_predicate = None,
       ri_primary = False\<rparr>,
      \<lparr>ri_table = ''ticket_types'', ri_name = ''ticket_types_event_normalized_name_uq'', ri_keys = [''event_id'', ''lower(name)''],
       ri_predicate = None, ri_primary = False\<rparr>,
      \<lparr>ri_table = ''ticket_types'', ri_name = ''ticket_types_one_default_per_event_uq'', ri_keys = [''event_id''],
       ri_predicate = Some ''is_default'', ri_primary = False\<rparr>,
      \<lparr>ri_table = ''ticket_type_inventory'', ri_name = ''ticket_type_inventory_pkey'', ri_keys = [''ticket_type_id''],
       ri_predicate = None, ri_primary = True\<rparr>]"

definition index_ok :: "required_index \<Rightarrow> pg_index option \<Rightarrow> bool" where
  "index_ok r j =
     (case j of
        None \<Rightarrow> False
      | Some i \<Rightarrow> indisunique i \<and> indisvalid i \<and> indisready i \<and> indisprimary i = ri_primary r \<and> \<not> indisexclusion i
          \<and> indnatts i = indnkeyatts i \<and> amname i = ''btree'' \<and> indexdef i = ri_keys r \<and> indpred i = ri_predicate r)"

definition required_unique_index_missing_or_invalid :: "catalog \<Rightarrow> nat" where
  "required_unique_index_missing_or_invalid c =
     sum_list (map (\<lambda>r. count_rows (\<lambda>j. \<not> index_ok r j)
       (left_join (\<lambda>i. indexrelid i = public (ri_name r) \<and> indrelid i = public (ri_table r)) (pg_indexes c)))
       required_unique_indexes)"

section \<open>The objects of the compatibility writer\<close>

definition compatibility_triggers :: "required_trigger list" where
  "compatibility_triggers =
     [required ''events'' ''inventory_compatibility_mark_event_delete_before_trg''
        ''inventory_compatibility_mark_event_delete_cascade'' [''824fc3b87181f8feae6a582a5ec59591''] 10,
      required ''ticket_inventory'' ''inventory_compatibility_fence_legacy_statement_trg''
        ''inventory_compatibility_fence_inventory_statement'' [''64716d53339a3c529079f61c2377b8d0''] 22,
      required ''ticket_inventory'' ''inventory_compatibility_guard_legacy_write_trg''
        ''inventory_compatibility_guard_legacy_write'' [''3a3971b24bb14e3f5c23138d7688d065''] 23,
      required ''ticket_inventory'' ''inventory_compatibility_guard_legacy_delete_trg''
        ''inventory_compatibility_guard_delete_cascade'' [''0127f775847e6d28fa6c83d73fa6a1f6''] 10,
      required ''ticket_inventory'' ''inventory_compatibility_reject_legacy_truncate_trg''
        ''inventory_compatibility_reject_truncate'' [''41793cc2f9cd2451c70505a22df5e225''] 34,
      required ''ticket_inventory'' ''ticket_inventory_ticket_type_expand_sync_trg''
        ''ticket_type_expand_sync_inventory'' [''56894124575b9c7825a172fa67cf5d86''] 21,
      required ''ticket_type_inventory'' ''inventory_compatibility_fence_ticket_type_statement_trg''
        ''inventory_compatibility_fence_inventory_statement'' [''64716d53339a3c529079f61c2377b8d0''] 22,
      required ''ticket_type_inventory'' ''inventory_compatibility_guard_ticket_type_write_trg''
        ''inventory_compatibility_guard_ticket_type_write'' [''c70407a9864736bbf6322356ea55f51f''] 23,
      required ''ticket_type_inventory'' ''inventory_compatibility_guard_ticket_type_delete_trg''
        ''inventory_compatibility_guard_delete_cascade'' [''0127f775847e6d28fa6c83d73fa6a1f6''] 10,
      required ''ticket_type_inventory'' ''inventory_compatibility_reject_ticket_type_truncate_trg''
        ''inventory_compatibility_reject_truncate'' [''41793cc2f9cd2451c70505a22df5e225''] 34,
      required ''ticket_type_inventory'' ''inventory_compatibility_sync_ticket_type_to_legacy_trg''
        ''inventory_compatibility_sync_ticket_type_to_legacy'' [''c347780b856f90d05d68e1800e1d36f1''] 21,
      required ''ticket_types'' ''inventory_compatibility_guard_ticket_type_definition_delete_trg''
        ''inventory_compatibility_guard_delete_cascade'' [''0127f775847e6d28fa6c83d73fa6a1f6''] 10,
      required ''ticket_types'' ''inventory_compatibility_reject_ticket_type_definition_truncate_''
        ''inventory_compatibility_reject_truncate'' [''41793cc2f9cd2451c70505a22df5e225''] 34]"

definition request_index_ok :: "pg_index \<Rightarrow> bool" where
  "request_index_ok i =
     (indrelid i = public ''purchases'' \<and> indexrelid i = public ''purchases_request_id_uq'' \<and> indisunique i \<and> indisvalid i
      \<and> indisready i \<and> indislive i \<and> \<not> indisprimary i \<and> \<not> indisexclusion i \<and> indnatts i = indnkeyatts i \<and> amname i = ''btree''
      \<and> indexdef i = [''buyer_id'', ''event_id'', ''request_id''] \<and> indpred i = Some ''request_id IS NOT NULL'')"

definition compatibility_object_missing_or_invalid :: "(string \<Rightarrow> string) \<Rightarrow> catalog \<Rightarrow> nat" where
  "compatibility_object_missing_or_invalid md5 c =
     trigger_violations md5 [CHR ''O''] compatibility_triggers c + (if list_ex request_index_ok (pg_indexes c) then 0 else 1)"

section \<open>When the counts are zero\<close>

text \<open>What a required trigger is in an intact catalog.\<close>

definition trigger_intact :: "(string \<Rightarrow> string) \<Rightarrow> char list \<Rightarrow> catalog \<Rightarrow> required_trigger \<Rightarrow> bool" where
  "trigger_intact md5 enabled c r \<longleftrightarrow>
     (\<exists>t \<in> set (pg_triggers c). tgrelid t = public (rt_table r) \<and> tgname t = rt_trigger r \<and> \<not> tgisinternal t)
   \<and> (\<forall>t \<in> set (pg_triggers c). tgrelid t = public (rt_table r) \<and> tgname t = rt_trigger r \<and> \<not> tgisinternal t \<longrightarrow>
        tgenabled t \<in> set enabled \<and> trigger_wired r c t
      \<and> (\<forall>f \<in> set (pg_procs c). proc_oid f = tgfoid t \<longrightarrow> function_sound md5 (rt_md5s r) f))"

lemma wired_function: "trigger_wired r c t \<Longrightarrow> \<exists>f \<in> set (pg_procs c). proc_oid f = tgfoid t"
  by (auto simp: trigger_wired_def to_regprocedure_def eq_commute [of "Some x" for x] find_Some_iff intro!: bexI nth_mem)

lemma trigger_ok_simps [simp]:
  "\<not> trigger_ok md5 enabled r c (None, j)" "\<not> trigger_ok md5 enabled r c (Some t, None)"
  "trigger_ok md5 enabled r c (Some t, Some f)
     \<longleftrightarrow> tgenabled t \<in> set enabled \<and> trigger_wired r c t \<and> function_sound md5 (rt_md5s r) f"
  by (simp_all add: trigger_ok_def)

lemma joined_rows:
  "(\<forall>j \<in> set (joined_triggers r c). trigger_ok md5 enabled r c j) \<longleftrightarrow> trigger_intact md5 enabled c r"
proof -
  let ?on = "\<lambda>g. tgrelid g = public (rt_table r) \<and> tgname g = rt_trigger r \<and> \<not> tgisinternal g"
  let ?row = "\<lambda>t. \<forall>f \<in> set (case t of None \<Rightarrow> [None] | Some g \<Rightarrow> left_join (\<lambda>f. proc_oid f = tgfoid g) (pg_procs c)).
      trigger_ok md5 enabled r c (t, f)"
  have row: "?row (Some t) \<longleftrightarrow> tgenabled t \<in> set enabled \<and> trigger_wired r c t
      \<and> (\<forall>f \<in> set (pg_procs c). proc_oid f = tgfoid t \<longrightarrow> function_sound md5 (rt_md5s r) f)" for t
    using wired_function [of r c t]
    by (subst option.case) (subst left_join_none, auto)
  have "(\<forall>j \<in> set (joined_triggers r c). trigger_ok md5 enabled r c j) \<longleftrightarrow> (\<forall>t \<in> set (left_join ?on (pg_triggers c)). ?row t)"
    by (auto simp: joined_triggers_def)
  also have "\<dots> \<longleftrightarrow> (\<exists>t \<in> set (pg_triggers c). ?on t) \<and> (\<forall>t \<in> set (pg_triggers c). ?on t \<longrightarrow> ?row (Some t))"
    by (rule left_join_none) simp
  finally show ?thesis unfolding row trigger_intact_def .
qed

lemma trigger_violations_zero:
  "trigger_violations md5 enabled rs c = 0 \<longleftrightarrow> list_all (trigger_intact md5 enabled c) rs"
  by (auto simp: trigger_violations_def list_all_iff joined_rows [symmetric])

definition foreign_key_intact :: "catalog \<Rightarrow> required_foreign_key \<Rightarrow> bool" where
  "foreign_key_intact c r \<longleftrightarrow>
     (\<exists>k \<in> set (pg_constraints c). conrelid k = public (rf_table r) \<and> conname k = rf_name r)
   \<and> (\<forall>k \<in> set (pg_constraints c). conrelid k = public (rf_table r) \<and> conname k = rf_name r \<longrightarrow> foreign_key_ok r (Some k))"

definition column_intact :: "catalog \<Rightarrow> string \<times> string \<Rightarrow> bool" where
  "column_intact c tn \<longleftrightarrow>
     (\<exists>a \<in> set (pg_attributes c). attrelid a = public (fst tn) \<and> attname a = snd tn \<and> 0 < attnum a \<and> \<not> attisdropped a)
   \<and> (\<forall>a \<in> set (pg_attributes c). attrelid a = public (fst tn) \<and> attname a = snd tn \<and> 0 < attnum a \<and> \<not> attisdropped a
        \<longrightarrow> attnotnull a)"

definition index_intact :: "catalog \<Rightarrow> required_index \<Rightarrow> bool" where
  "index_intact c r \<longleftrightarrow>
     (\<exists>i \<in> set (pg_indexes c). indexrelid i = public (ri_name r) \<and> indrelid i = public (ri_table r))
   \<and> (\<forall>i \<in> set (pg_indexes c). indexrelid i = public (ri_name r) \<and> indrelid i = public (ri_table r) \<longrightarrow> index_ok r (Some i))"

lemma foreign_keys_zero:
  "required_ticket_type_fk_missing_or_unvalidated c = 0 \<longleftrightarrow> list_all (foreign_key_intact c) required_ticket_type_foreign_keys"
proof -
  have "(\<forall>j \<in> set (left_join (\<lambda>k. conrelid k = public (rf_table r) \<and> conname k = rf_name r) (pg_constraints c)). foreign_key_ok r j)
      \<longleftrightarrow> foreign_key_intact c r" for r
    unfolding foreign_key_intact_def by (rule left_join_none) (simp add: foreign_key_ok_def)
  then show ?thesis by (simp add: required_ticket_type_fk_missing_or_unvalidated_def list_all_iff)
qed

lemma columns_zero:
  "required_ticket_type_not_null_missing c = 0 \<longleftrightarrow> list_all (column_intact c) required_not_null_columns"
proof -
  have "(\<forall>j \<in> set (left_join (\<lambda>a. attrelid a = public t \<and> attname a = n \<and> 0 < attnum a \<and> \<not> attisdropped a) (pg_attributes c)).
      not_null_ok j) \<longleftrightarrow> column_intact c (t, n)" for t n
    unfolding column_intact_def by (subst left_join_none) (simp_all add: not_null_ok_def)
  then show ?thesis by (auto simp: required_ticket_type_not_null_missing_def list_all_iff split: prod.splits)
qed

lemma indexes_zero:
  "required_unique_index_missing_or_invalid c = 0 \<longleftrightarrow> list_all (index_intact c) required_unique_indexes"
proof -
  have "(\<forall>j \<in> set (left_join (\<lambda>i. indexrelid i = public (ri_name r) \<and> indrelid i = public (ri_table r)) (pg_indexes c)). index_ok r j)
      \<longleftrightarrow> index_intact c r" for r
    unfolding index_intact_def by (rule left_join_none) (simp add: index_ok_def)
  then show ?thesis by (simp add: required_unique_index_missing_or_invalid_def list_all_iff)
qed

text \<open>The catalog half of the expand check finds nothing.\<close>

definition expand_catalog_intact :: "(string \<Rightarrow> string) \<Rightarrow> catalog \<Rightarrow> bool" where
  "expand_catalog_intact md5 c \<longleftrightarrow>
     list_all (trigger_intact md5 [CHR ''O'', CHR ''A''] c) required_bridge_triggers
   \<and> list_all (foreign_key_intact c) required_ticket_type_foreign_keys
   \<and> list_all (column_intact c) required_not_null_columns \<and> list_all (index_intact c) required_unique_indexes"

section \<open>Statements of the migrations\<close>

text \<open>\<open>CreateFunction\<close> and \<open>ReplaceFunction\<close> take the name of the function and the name of its text.\<close>

datatype trigger_event = OnInsert | OnUpdate | OnDelete | OnTruncate

datatype ddl =
    CreateFunction string string
  | ReplaceFunction string string
  | DropFunction string
  | CreateTrigger string bool "trigger_event list" string bool string
      \<comment> \<open>name, BEFORE, events, table, FOR EACH ROW, function\<close>
  | DropTrigger string string
  | AddColumn string string bool   \<comment> \<open>table, column, NOT NULL\<close>
  | SetNotNull string string
  | DropColumn string string
  | AddForeignKey string string "string list" string "string list" char bool
      \<comment> \<open>table, name, columns, referenced table, its columns, ON DELETE, validated at once\<close>
  | ValidateConstraint string string
  | DropConstraint string string
  | CreateIndex string string "string list" "string option" bool bool
      \<comment> \<open>table, name, keys, predicate, PRIMARY KEY, UNIQUE\<close>
  | DropIndex string
  | DropTable string
  | IfExists ddl

definition event_bit :: "trigger_event \<Rightarrow> nat" where
  "event_bit e = (case e of OnInsert \<Rightarrow> 4 | OnDelete \<Rightarrow> 8 | OnUpdate \<Rightarrow> 16 | OnTruncate \<Rightarrow> 32)"

definition tgtype_of :: "bool \<Rightarrow> bool \<Rightarrow> trigger_event list \<Rightarrow> nat" where
  "tgtype_of row before es = (if row then 1 else 0) + (if before then 2 else 0) + sum_list (map event_bit es)"

definition next_oid :: "catalog \<Rightarrow> nat" where
  "next_oid c = Suc (fold max (map proc_oid (pg_procs c)) 0)"

definition new_proc :: "nat \<Rightarrow> string \<Rightarrow> string \<Rightarrow> pg_proc" where
  "new_proc oid f body =
     \<lparr>proc_oid = oid, proname = public f, prorettype = ''trigger'', pronargs = 0, prokind = CHR ''f'', provolatile = CHR ''v'',
      proparallel = CHR ''u'', prolang = ''plpgsql'', prosecdef = False, proleakproof = False,
      proconfig = Some [''search_path=pg_catalog, public, pg_temp''], prosrc = body\<rparr>"

text \<open>An identifier is cut to 63 bytes (\<open>NAMEDATALEN\<close>).\<close>

definition pg_identifier :: "string \<Rightarrow> string" where
  "pg_identifier s = take 63 s"

definition new_trigger :: "string \<Rightarrow> string \<Rightarrow> nat \<Rightarrow> nat \<Rightarrow> pg_trigger" where
  "new_trigger t g oid ty =
     \<lparr>tgrelid = public t, tgname = pg_identifier g, tgisinternal = False, tgenabled = CHR ''O'', tgfoid = oid, tgtype = ty, tgnargs = 0,
      tgqual = None, tgconstraint = 0, tgdeferrable = False, tginitdeferred = False, tgattr = [], tgoldtable = None, tgnewtable = None\<rparr>"

definition new_index :: "string \<Rightarrow> string \<Rightarrow> string list \<Rightarrow> string option \<Rightarrow> bool \<Rightarrow> bool \<Rightarrow> pg_index" where
  "new_index t i keys predicate primary unique =
     \<lparr>indexrelid = public i, indrelid = public t, amname = ''btree'', indisunique = unique, indisvalid = True, indisready = True,
      indislive = True, indisprimary = primary, indisexclusion = False, indnatts = length keys, indnkeyatts = length keys,
      indexdef = keys, indpred = predicate\<rparr>"

definition new_foreign_key :: "string \<Rightarrow> string \<Rightarrow> string list \<Rightarrow> string \<Rightarrow> string list \<Rightarrow> char \<Rightarrow> bool \<Rightarrow> pg_constraint" where
  "new_foreign_key t k cols ref refcols del valid =
     \<lparr>conrelid = public t, conname = k, contype = CHR ''f'', convalidated = valid, confrelid = public ref, confdeltype = del,
      confupdtype = CHR ''a'', confmatchtype = CHR ''s'', condeferrable = False, condeferred = False, conkey = cols, confkey = refcols\<rparr>"

definition has_trigger :: "string \<Rightarrow> string \<Rightarrow> catalog \<Rightarrow> bool" where
  "has_trigger t g c = list_ex (\<lambda>x. tgrelid x = public t \<and> tgname x = pg_identifier g) (pg_triggers c)"

definition has_column :: "string \<Rightarrow> string \<Rightarrow> catalog \<Rightarrow> bool" where
  "has_column t n c = list_ex (\<lambda>a. attrelid a = public t \<and> attname a = n \<and> \<not> attisdropped a) (pg_attributes c)"

text \<open>A foreign key needs a unique index on the columns it references.\<close>

definition unique_columns :: "string \<Rightarrow> string list \<Rightarrow> catalog \<Rightarrow> bool" where
  "unique_columns t cols c = list_ex (\<lambda>i. indrelid i = public t \<and> indisunique i \<and> indexdef i = cols \<and> indpred i = None) (pg_indexes c)"

fun exec_ddl :: "ddl \<Rightarrow> catalog \<Rightarrow> catalog result" where
  "exec_ddl (CreateFunction f body) c =
     (if to_regprocedure f c \<noteq> None then Inl (PgError ''42723'' f)
      else Inr (c\<lparr>pg_procs := pg_procs c @ [new_proc (next_oid c) f body]\<rparr>))"
| "exec_ddl (ReplaceFunction f body) c =
     (case to_regprocedure f c of
        None \<Rightarrow> Inr (c\<lparr>pg_procs := pg_procs c @ [new_proc (next_oid c) f body]\<rparr>)
      | Some oid \<Rightarrow> Inr (c\<lparr>pg_procs := map (\<lambda>p. if proname p = public f then new_proc oid f body else p) (pg_procs c)\<rparr>))"
| "exec_ddl (DropFunction f) c =
     (case to_regprocedure f c of
        None \<Rightarrow> Inl (PgError ''42883'' f)
      | Some oid \<Rightarrow>
          if list_ex (\<lambda>t. tgfoid t = oid) (pg_triggers c) then Inl (PgError ''2BP01'' f)
          else Inr (c\<lparr>pg_procs := filter (\<lambda>p. proname p \<noteq> public f) (pg_procs c)\<rparr>))"
| "exec_ddl (CreateTrigger g before es t row f) c =
     (case to_regprocedure f c of
        None \<Rightarrow> Inl (PgError ''42883'' f)
      | Some oid \<Rightarrow>
          if has_trigger t g c then Inl (PgError ''42710'' g)
          else Inr (c\<lparr>pg_triggers := pg_triggers c @ [new_trigger t g oid (tgtype_of row before es)]\<rparr>))"
| "exec_ddl (DropTrigger g t) c =
     (if \<not> has_trigger t g c then Inl (PgError ''42704'' g)
      else Inr (c\<lparr>pg_triggers := filter (\<lambda>x. \<not> (tgrelid x = public t \<and> tgname x = pg_identifier g)) (pg_triggers c)\<rparr>))"
| "exec_ddl (AddColumn t n notnull) c =
     (if has_column t n c then Inl (PgError ''42701'' n)
      else Inr (c\<lparr>pg_attributes := pg_attributes c
        @ [\<lparr>attrelid = public t, attname = n, attnum = int (Suc (count_rows (\<lambda>a. attrelid a = public t \<and> 0 < attnum a) (pg_attributes c))),
            attisdropped = False, attnotnull = notnull\<rparr>]\<rparr>))"
| "exec_ddl (SetNotNull t n) c =
     (if \<not> has_column t n c then Inl (PgError ''42703'' n)
      else Inr (c\<lparr>pg_attributes := map (\<lambda>a. if attrelid a = public t \<and> attname a = n \<and> \<not> attisdropped a then a\<lparr>attnotnull := True\<rparr> else a)
        (pg_attributes c)\<rparr>))"
| "exec_ddl (DropColumn t n) c =
     (if \<not> has_column t n c then Inl (PgError ''42703'' n)
      else Inr (c\<lparr>pg_attributes := map (\<lambda>a. if attrelid a = public t \<and> attname a = n \<and> \<not> attisdropped a
        then a\<lparr>attisdropped := True, attnotnull := False\<rparr> else a) (pg_attributes c)\<rparr>))"
| "exec_ddl (AddForeignKey t k cols ref refcols del valid) c =
     (if \<not> unique_columns ref refcols c then Inl (PgError ''42830'' k)
      else Inr (c\<lparr>pg_constraints := pg_constraints c @ [new_foreign_key t k cols ref refcols del valid]\<rparr>))"
| "exec_ddl (ValidateConstraint t k) c =
     Inr (c\<lparr>pg_constraints := map (\<lambda>x. if conrelid x = public t \<and> conname x = k then x\<lparr>convalidated := True\<rparr> else x) (pg_constraints c)\<rparr>)"
| "exec_ddl (DropConstraint t k) c =
     Inr (c\<lparr>pg_constraints := filter (\<lambda>x. \<not> (conrelid x = public t \<and> conname x = k)) (pg_constraints c)\<rparr>)"
| "exec_ddl (CreateIndex t i keys predicate primary unique) c =
     (if list_ex (\<lambda>x. indexrelid x = public i) (pg_indexes c) then Inl (PgError ''42P07'' i)
      else Inr (c\<lparr>pg_indexes := pg_indexes c @ [new_index t i keys predicate primary unique]\<rparr>))"
| "exec_ddl (DropIndex i) c =
     (if \<not> list_ex (\<lambda>x. indexrelid x = public i) (pg_indexes c) then Inl (PgError ''42704'' i)
      else Inr (c\<lparr>pg_indexes := filter (\<lambda>x. indexrelid x \<noteq> public i) (pg_indexes c)\<rparr>))"
| "exec_ddl (DropTable t) c =
     (if \<not> list_ex (\<lambda>a. attrelid a = public t) (pg_attributes c) then Inl (PgError ''42P01'' t)
      else if list_ex (\<lambda>k. confrelid k = public t \<and> conrelid k \<noteq> public t) (pg_constraints c) then Inl (PgError ''2BP01'' t)
      else Inr (c\<lparr>pg_triggers := filter (\<lambda>x. tgrelid x \<noteq> public t) (pg_triggers c),
        pg_constraints := filter (\<lambda>x. conrelid x \<noteq> public t) (pg_constraints c),
        pg_attributes := filter (\<lambda>x. attrelid x \<noteq> public t) (pg_attributes c),
        pg_indexes := filter (\<lambda>x. indrelid x \<noteq> public t) (pg_indexes c)\<rparr>))"
| "exec_ddl (IfExists d) c =
     (case exec_ddl d c of
        Inl (PgError code n) \<Rightarrow> if code \<in> {''42704'', ''42883'', ''42703''} then Inr c else Inl (PgError code n)
      | r \<Rightarrow> r)"

text \<open>Statements one after the other: the first exception ends the list.\<close>

fun run_each :: "('x \<Rightarrow> 's \<Rightarrow> 's result) \<Rightarrow> 'x list \<Rightarrow> 's \<Rightarrow> 's result" where
  "run_each f [] s = Inr s"
| "run_each f (x # xs) s = bind_result (f x s) (run_each f xs)"

lemma run_each_append: "run_each f (xs @ ys) s = bind_result (run_each f xs s) (run_each f ys)"
proof (induction xs arbitrary: s)
  case (Cons x xs)
  then show ?case by (cases "f x s") simp_all
qed simp

lemma public_eq [simp]: "public a = public b \<longleftrightarrow> a = b"
  by (simp add: public_def)

lemma trigger_violations_cong:
  assumes "\<And>f. f \<in> set (pg_procs c) \<Longrightarrow> md5 (prosrc f) = md5' (prosrc f)"
  shows "trigger_violations md5 enabled rs c = trigger_violations md5' enabled rs c"
proof -
  have "trigger_ok md5 enabled r c j = trigger_ok md5' enabled r c j" if "j \<in> set (joined_triggers r c)" for r j
    using that assms by (fastforce simp: joined_triggers_def left_join_def trigger_ok_def function_sound_def split: option.splits if_splits)
  then show ?thesis by (simp add: trigger_violations_def count_rows_def cong: filter_cong)
qed

section \<open>Function texts on record\<close>

text \<open>The names of function texts with the hashes that a check has on record for them.\<close>

definition on_record :: "(string \<times> string) list \<Rightarrow> (string \<Rightarrow> string) \<Rightarrow> bool" where
  "on_record bodies md5 \<longleftrightarrow> list_all (\<lambda>(body, hash). md5 body = hash) bodies"

definition md5_of :: "(string \<times> string) list \<Rightarrow> string \<Rightarrow> string" where
  "md5_of bodies body = (case map_of bodies body of None \<Rightarrow> [] | Some hash \<Rightarrow> hash)"

text \<open>All that the two checks count in a catalog, after the functions whose text is not on record.\<close>

definition catalog_audit :: "(string \<times> string) list \<Rightarrow> catalog \<Rightarrow> nat list" where
  "catalog_audit bodies c =
     [count_rows (\<lambda>p. prosrc p \<notin> set (map fst bodies)) (pg_procs c),
      required_bridge_trigger_missing_or_disabled (md5_of bodies) c,
      required_ticket_type_fk_missing_or_unvalidated c, required_ticket_type_not_null_missing c,
      required_unique_index_missing_or_invalid c, compatibility_object_missing_or_invalid (md5_of bodies) c]"

lemma audit_result:
  assumes "on_record bodies md5" "distinct (map fst bodies)" "catalog_audit bodies c = [0, 0, 0, 0, 0, n]"
  shows "expand_catalog_intact md5 c" "compatibility_object_missing_or_invalid md5 c = n"
proof -
  have same: "trigger_violations md5 enabled rs c = trigger_violations (md5_of bodies) enabled rs c" for enabled rs
  proof (rule trigger_violations_cong)
    fix f assume "f \<in> set (pg_procs c)"
    with assms(3) obtain hash where "(prosrc f, hash) \<in> set bodies" by (auto simp: catalog_audit_def)
    with assms(1,2) show "md5 (prosrc f) = md5_of bodies (prosrc f)" by (auto simp: md5_of_def on_record_def list_all_iff)
  qed
  show "expand_catalog_intact md5 c"
    using assms(3) same
    by (simp add: catalog_audit_def expand_catalog_intact_def required_bridge_trigger_missing_or_disabled_def
        trigger_violations_zero [symmetric] foreign_keys_zero [symmetric] columns_zero [symmetric] indexes_zero [symmetric])
  show "compatibility_object_missing_or_invalid md5 c = n"
    using assms(3) same by (simp add: catalog_audit_def compatibility_object_missing_or_invalid_def)
qed

end
