(* ===== verification/ExpandMigration.thy ===== *)
theory ExpandMigration
  imports Catalog
begin

text \<open>
  The migration that adds Ticket Types,
  src/database/migrations/1785128190273-add-ticket-type-expand-schema.ts: \<open>up\<close> with its backfill, the triggers
  that keep the new tables in step while old binaries write, and \<open>down\<close>. The database before it is
  that of the baseline migration with the foreign key to the buyers. A migration is one
  transaction under table locks: a function that returns an exception or the new database. What an old
  binary does to an Event is modelled without deletion.
\<close>

section \<open>The database before the migration\<close>

record stock_row = ti_row +
  ti_updated_at :: int

record ledger_row =
  lr_id :: string
  lr_event :: string
  lr_buyer :: string
  lr_request :: "string option"
  lr_quantity :: int
  lr_status :: PurchaseStatus
  lr_reason :: "string option"
  lr_remaining_after :: "int option"
  lr_created_at :: int

record 'p base_db =
  bd_users :: "string list"
  bd_events :: "string list"
  bd_stock :: "stock_row list"
  bd_ledger :: "'p list"
  bd_catalog :: catalog

type_synonym legacy_db = "ledger_row base_db"

definition BASELINE_DDL :: "ddl list" where
  "BASELINE_DDL =
     map (\<lambda>(n, nn). AddColumn ''events'' n nn)
       [(''id'', True), (''title'', True), (''event_type'', True), (''starts_at'', True), (''location_latitude'', False),
        (''location_longitude'', False), (''created_at'', True)]
   @ [CreateIndex ''events'' ''events_pkey'' [''id''] None True True]
   @ map (\<lambda>(n, nn). AddColumn ''ticket_inventory'' n nn)
       [(''event_id'', True), (''total_quantity'', True), (''remaining_quantity'', True), (''version'', True), (''updated_at'', True)]
   @ [CreateIndex ''ticket_inventory'' ''ticket_inventory_pkey'' [''event_id''] None True True]
   @ map (\<lambda>(n, nn). AddColumn ''purchases'' n nn)
       [(''id'', True), (''event_id'', True), (''buyer_id'', True), (''request_id'', False), (''quantity'', True), (''status'', True),
        (''rejection_reason'', False), (''remaining_quantity_after'', False), (''created_at'', True)]
   @ [CreateIndex ''purchases'' ''purchases_pkey'' [''id''] None True True,
      CreateIndex ''purchases'' ''purchases_request_id_uq'' [''buyer_id'', ''event_id'', ''request_id'']
        (Some ''request_id IS NOT NULL AND status = 'confirmed'::purchase_status'') False True,
      CreateIndex ''purchases'' ''purchases_rejected_request_id_uq'' [''buyer_id'', ''event_id'', ''request_id'']
        (Some ''request_id IS NOT NULL AND status = 'rejected'::purchase_status'') False True]"

definition no_catalog :: catalog where
  "no_catalog = \<lparr>pg_procs = [], pg_triggers = [], pg_constraints = [], pg_attributes = [], pg_indexes = []\<rparr>"

definition after_ddl :: "ddl list \<Rightarrow> catalog \<Rightarrow> catalog" where
  "after_ddl ds c = (case run_each exec_ddl ds c of Inl _ \<Rightarrow> c | Inr c' \<Rightarrow> c')"

definition baseline_catalog :: catalog where
  "baseline_catalog = after_ddl BASELINE_DDL no_catalog"

section \<open>Statements of the old binaries\<close>

definition insert_event_row :: "string \<Rightarrow> ('p, 'm) base_db_scheme \<Rightarrow> ('p, 'm) base_db_scheme result" where
  "insert_event_row e s =
     (if e \<in> set (bd_events s) then Inl (PgError ''23505'' ''events_pkey'') else Inr (s\<lparr>bd_events := bd_events s @ [e]\<rparr>))"

definition stock_checks :: "stock_row \<Rightarrow> exn option" where
  "stock_checks r =
     (if \<not> (in_int4 (ti_total r) \<and> in_int4 (ti_remaining r) \<and> in_int4 (ti_version r)) then Some (PgError ''22003'' [])
      else if \<not> check_quantities (ti_total r) (ti_remaining r) 0 then Some (PgError ''23514'' ''ticket_inventory_check'') else None)"

definition insert_stock_row :: "stock_row \<Rightarrow> ('p, 'm) base_db_scheme \<Rightarrow> ('p, 'm) base_db_scheme result" where
  "insert_stock_row r s =
     (case stock_checks r of
        Some e \<Rightarrow> Inl e
      | None \<Rightarrow>
          if row_by ti_event (ti_event r) (bd_stock s) \<noteq> None then Inl (PgError ''23505'' ''ticket_inventory_pkey'')
          else if ti_event r \<notin> set (bd_events s) then Inl (PgError ''23503'' ''ticket_inventory_event_id_fkey'')
          else Inr (s\<lparr>bd_stock := bd_stock s @ [r]\<rparr>))"

text \<open>An UPDATE of a row that exists; one that finds no row is a statement without effect.\<close>

definition update_stock_row :: "stock_row \<Rightarrow> ('p, 'm) base_db_scheme \<Rightarrow> ('p, 'm) base_db_scheme result" where
  "update_stock_row r s =
     (if row_by ti_event (ti_event r) (bd_stock s) = None then Inr s
      else case stock_checks r of
          Some e \<Rightarrow> Inl e
        | None \<Rightarrow> Inr (s\<lparr>bd_stock := put_row ti_event r (bd_stock s)\<rparr>))"

definition ledger_checks :: "'m ledger_row_scheme \<Rightarrow> bool" where
  "ledger_checks p =
     (0 < lr_quantity p \<and> (lr_status p = Confirmed \<longleftrightarrow> lr_reason p = None)
      \<and> (case lr_remaining_after p of None \<Rightarrow> True | Some n \<Rightarrow> 0 \<le> n))"

definition same_key :: "'m ledger_row_scheme \<Rightarrow> 'm ledger_row_scheme \<Rightarrow> bool" where
  "same_key p q =
     (lr_request p \<noteq> None \<and> lr_request q = lr_request p \<and> lr_buyer q = lr_buyer p \<and> lr_event q = lr_event p
      \<and> lr_status q = lr_status p)"

definition insert_ledger_row ::
    "'m ledger_row_scheme \<Rightarrow> ('m ledger_row_scheme, 'n) base_db_scheme \<Rightarrow> ('m ledger_row_scheme, 'n) base_db_scheme result" where
  "insert_ledger_row p s =
     (if \<not> in_int4 (lr_quantity p) then Inl (PgError ''22003'' [])
      else if \<not> ledger_checks p then Inl (PgError ''23514'' ''purchases_check'')
      else if list_ex (\<lambda>q. lr_id q = lr_id p) (bd_ledger s) then Inl (PgError ''23505'' ''purchases_pkey'')
      else if list_ex (same_key p) (bd_ledger s) then Inl (PgError ''23505'' ''purchases_request_id_uq'')
      else if lr_event p \<notin> set (bd_events s) then Inl (PgError ''23503'' ''purchases_event_id_fkey'')
      else if lr_buyer p \<notin> set (bd_users s) then Inl (PgError ''23503'' ''purchases_buyer_id_fkey'')
      else Inr (s\<lparr>bd_ledger := bd_ledger s @ [p]\<rparr>))"

datatype legacy_write =
    InsertEvent string
  | InsertStock stock_row
  | UpdateStock stock_row
  | InsertPurchase ledger_row

fun legacy_apply :: "legacy_write \<Rightarrow> legacy_db \<Rightarrow> legacy_db result" where
  "legacy_apply (InsertEvent e) s = insert_event_row e s"
| "legacy_apply (InsertStock r) s = insert_stock_row r s"
| "legacy_apply (UpdateStock r) s = update_stock_row r s"
| "legacy_apply (InsertPurchase p) s = insert_ledger_row p s"

section \<open>The database after the migration\<close>

record shadow_stock = tti_row +
  tti_updated_at :: int

record typed_ledger_row = ledger_row +
  lr_type :: "string option"

record expand_db = "typed_ledger_row base_db" +
  ex_types :: "type_row list"
  ex_shadow :: "shadow_stock list"

text \<open>ADD COLUMN and DROP COLUMN \<open>ticket_type_id\<close>.\<close>

definition add_type :: "string option \<Rightarrow> ledger_row \<Rightarrow> typed_ledger_row" where
  "add_type t p =
     \<lparr>lr_id = lr_id p, lr_event = lr_event p, lr_buyer = lr_buyer p, lr_request = lr_request p, lr_quantity = lr_quantity p,
      lr_status = lr_status p, lr_reason = lr_reason p, lr_remaining_after = lr_remaining_after p,
      lr_created_at = lr_created_at p, lr_type = t\<rparr>"

definition drop_type :: "typed_ledger_row \<Rightarrow> ledger_row" where
  "drop_type p =
     \<lparr>lr_id = lr_id p, lr_event = lr_event p, lr_buyer = lr_buyer p, lr_request = lr_request p, lr_quantity = lr_quantity p,
      lr_status = lr_status p, lr_reason = lr_reason p, lr_remaining_after = lr_remaining_after p,
      lr_created_at = lr_created_at p\<rparr>"

text \<open>\<open>draw\<close> is the uuid that \<open>gen_random_uuid()\<close> yields for the default Type of an Event, \<open>lower\<close> PostgreSQL's function.\<close>

record expand_env =
  draw :: "string \<Rightarrow> string"
  pg_lower :: "string \<Rightarrow> string"

definition btrim :: "string \<Rightarrow> string" where
  "btrim s = rev (dropWhile (\<lambda>c. c = CHR '' '') (rev (dropWhile (\<lambda>c. c = CHR '' '') s)))"

definition insert_type_row :: "expand_env \<Rightarrow> type_row \<Rightarrow> expand_db \<Rightarrow> expand_db result" where
  "insert_type_row env r x =
     (if type_name r = [] \<or> type_name r \<noteq> btrim (type_name r) then Inl (PgError ''23514'' ''ticket_types_name_nonblank_check'')
      else if list_ex (\<lambda>t. type_id t = type_id r) (ex_types x) then Inl (PgError ''23505'' ''ticket_types_pkey'')
      else if list_ex (\<lambda>t. type_event t = type_event r \<and> pg_lower env (type_name t) = pg_lower env (type_name r)) (ex_types x)
      then Inl (PgError ''23505'' ''ticket_types_event_normalized_name_uq'')
      else if is_default r \<and> list_ex (\<lambda>t. type_event t = type_event r \<and> is_default t) (ex_types x)
      then Inl (PgError ''23505'' ''ticket_types_one_default_per_event_uq'')
      else if type_event r \<notin> set (bd_events x) then Inl (PgError ''23503'' ''ticket_types_event_id_fkey'')
      else Inr (x\<lparr>ex_types := ex_types x @ [r]\<rparr>))"

definition put_shadow_row :: "shadow_stock \<Rightarrow> expand_db \<Rightarrow> expand_db result" where
  "put_shadow_row r x =
     (if \<not> (in_int4 (tti_total r) \<and> in_int4 (tti_remaining r) \<and> in_int4 (tti_version r)) then Inl (PgError ''22003'' [])
      else if \<not> check_quantities (tti_total r) (tti_remaining r) (tti_version r)
      then Inl (PgError ''23514'' ''ticket_type_inventory_check'')
      else if \<not> list_ex (\<lambda>t. type_id t = tti_type r \<and> type_event t = tti_event r) (ex_types x)
      then Inl (PgError ''23503'' ''ticket_type_inventory_event_ticket_type_fkey'')
      else Inr (x\<lparr>ex_shadow := put_row tti_type r (ex_shadow x)\<rparr>))"

definition insert_shadow_row :: "shadow_stock \<Rightarrow> expand_db \<Rightarrow> expand_db result" where
  "insert_shadow_row r x =
     (if check_quantities (tti_total r) (tti_remaining r) (tti_version r) \<and> row_by tti_type (tti_type r) (ex_shadow x) \<noteq> None
      then Inl (PgError ''23505'' ''ticket_type_inventory_pkey'') else put_shadow_row r x)"

definition default_row :: "expand_env \<Rightarrow> string \<Rightarrow> type_row" where
  "default_row env e = \<lparr>type_id = draw env e, type_event = e, type_name = ''General Admission'', is_default = True\<rparr>"

definition stock_shadow :: "string \<Rightarrow> stock_row \<Rightarrow> shadow_stock" where
  "stock_shadow t r = \<lparr>tti_type = t, tti_event = ti_event r, tti_total = ti_total r, tti_remaining = ti_remaining r,
     tti_version = ti_version r, tti_updated_at = ti_updated_at r\<rparr>"

definition default_in :: "string \<Rightarrow> type_row list \<Rightarrow> string option" where
  "default_in e ts = map_option type_id (find (\<lambda>t. type_event t = e \<and> is_default t) ts)"

section \<open>The bridge\<close>

text \<open>A trigger fires in an ordinary session unless it is disabled or for replicas only.\<close>

definition trigger_fires :: "string \<Rightarrow> string \<Rightarrow> catalog \<Rightarrow> bool" where
  "trigger_fires t g c = list_ex (\<lambda>x. tgrelid x = public t \<and> tgname x = g \<and> tgenabled x \<in> {CHR ''O'', CHR ''A''}) (pg_triggers c)"

definition expand_create_default_ticket_type :: "expand_env \<Rightarrow> string \<Rightarrow> expand_db \<Rightarrow> expand_db result" where
  "expand_create_default_ticket_type env e x =
     (if trigger_fires ''events'' ''events_ticket_type_expand_default_trg'' (bd_catalog x)
      then insert_type_row env (default_row env e) x else Inr x)"

definition expand_sync_inventory :: "stock_row \<Rightarrow> expand_db \<Rightarrow> expand_db result" where
  "expand_sync_inventory r x =
     (if \<not> trigger_fires ''ticket_inventory'' ''ticket_inventory_ticket_type_expand_sync_trg'' (bd_catalog x) then Inr x
      else case default_in (ti_event r) (ex_types x) of
          None \<Rightarrow> Inl (RaiseException ''P0001'' ''ticket type inventory bridge failed: event has no default ticket type'')
        | Some t \<Rightarrow> put_shadow_row (stock_shadow t r) x)"

definition expand_set_purchase_ticket_type :: "typed_ledger_row \<Rightarrow> expand_db \<Rightarrow> typed_ledger_row result" where
  "expand_set_purchase_ticket_type p x =
     (if \<not> trigger_fires ''purchases'' ''purchases_ticket_type_expand_default_trg'' (bd_catalog x) then Inr p
      else let t = (if lr_type p = None then default_in (lr_event p) (ex_types x) else lr_type p) in
        if t = None then Inl (RaiseException ''P0001'' ''purchase ticket type bridge failed: event has no default ticket type'')
        else Inr (p\<lparr>lr_type := t\<rparr>))"

definition insert_typed_ledger_row :: "typed_ledger_row \<Rightarrow> expand_db \<Rightarrow> expand_db result" where
  "insert_typed_ledger_row p x =
     (if lr_type p = None then Inl (PgError ''23502'' ''ticket_type_id'')
      else bind_result (insert_ledger_row p x) (\<lambda>x1.
        if list_ex (\<lambda>t. Some (type_id t) = lr_type p \<and> type_event t = lr_event p) (ex_types x1) then Inr x1
        else Inl (PgError ''23503'' ''purchases_event_ticket_type_fkey'')))"

text \<open>The same statement of the old binary on the migrated database, with its triggers.\<close>

fun bridge_apply :: "expand_env \<Rightarrow> legacy_write \<Rightarrow> expand_db \<Rightarrow> expand_db result" where
  "bridge_apply env (InsertEvent e) x = bind_result (insert_event_row e x) (expand_create_default_ticket_type env e)"
| "bridge_apply env (InsertStock r) x = bind_result (insert_stock_row r x) (expand_sync_inventory r)"
| "bridge_apply env (UpdateStock r) x =
     (if row_by ti_event (ti_event r) (bd_stock x) = None then Inr x
      else bind_result (update_stock_row r x) (expand_sync_inventory r))"
| "bridge_apply env (InsertPurchase p) x =
     bind_result (expand_set_purchase_ticket_type (add_type None p) x) (\<lambda>p1. insert_typed_ledger_row p1 x)"

section \<open>The migration up\<close>

definition CREATE_EXPAND_SCHEMA_DDL :: "ddl list" where
  "CREATE_EXPAND_SCHEMA_DDL =
     map (\<lambda>n. AddColumn ''ticket_types'' n True) [''id'', ''event_id'', ''name'', ''is_default'', ''created_at'', ''updated_at'']
   @ [CreateIndex ''ticket_types'' ''ticket_types_pkey'' [''id''] None True True,
      CreateIndex ''ticket_types'' ''ticket_types_event_id_id_key'' [''event_id'', ''id''] None False True,
      AddForeignKey ''ticket_types'' ''ticket_types_event_id_fkey'' [''event_id''] ''events'' [''id''] (CHR ''c'') True,
      CreateIndex ''ticket_types'' ''ticket_types_event_normalized_name_uq'' [''event_id'', ''lower(name)''] None False True,
      CreateIndex ''ticket_types'' ''ticket_types_one_default_per_event_uq'' [''event_id''] (Some ''is_default'') False True]
   @ map (\<lambda>n. AddColumn ''ticket_type_inventory'' n True)
       [''ticket_type_id'', ''event_id'', ''total_quantity'', ''remaining_quantity'', ''version'', ''updated_at'']
   @ [CreateIndex ''ticket_type_inventory'' ''ticket_type_inventory_pkey'' [''ticket_type_id''] None True True,
      AddForeignKey ''ticket_type_inventory'' ''ticket_type_inventory_event_ticket_type_fkey'' [''event_id'', ''ticket_type_id'']
        ''ticket_types'' [''event_id'', ''id''] (CHR ''c'') True,
      CreateIndex ''ticket_type_inventory'' ''ticket_type_inventory_event_id_idx'' [''event_id''] None False False,
      AddColumn ''purchases'' ''ticket_type_id'' False]"

definition CREATE_LIVE_WRITE_BRIDGE_DDL :: "ddl list" where
  "CREATE_LIVE_WRITE_BRIDGE_DDL =
     [CreateFunction ''ticket_type_expand_create_default_ticket_type'' ''create_default_ticket_type'',
      CreateTrigger ''events_ticket_type_expand_default_trg'' False [OnInsert] ''events'' True
        ''ticket_type_expand_create_default_ticket_type'',
      CreateFunction ''ticket_type_expand_sync_inventory'' ''sync_inventory'',
      CreateTrigger ''ticket_inventory_ticket_type_expand_sync_trg'' False [OnInsert, OnUpdate] ''ticket_inventory'' True
        ''ticket_type_expand_sync_inventory'',
      CreateFunction ''ticket_type_expand_set_purchase_ticket_type'' ''set_purchase_ticket_type'',
      CreateTrigger ''purchases_ticket_type_expand_default_trg'' True [OnInsert] ''purchases'' True
        ''ticket_type_expand_set_purchase_ticket_type'']"

definition FINALIZE_PURCHASE_CONSTRAINTS_DDL :: "ddl list" where
  "FINALIZE_PURCHASE_CONSTRAINTS_DDL =
     [AddForeignKey ''purchases'' ''purchases_event_ticket_type_fkey'' [''event_id'', ''ticket_type_id'']
        ''ticket_types'' [''event_id'', ''id''] (CHR ''r'') False,
      ValidateConstraint ''purchases'' ''purchases_event_ticket_type_fkey'',
      SetNotNull ''purchases'' ''ticket_type_id'',
      CreateIndex ''purchases'' ''purchases_event_ticket_type_created_at_idx'' [''event_id'', ''ticket_type_id'', ''created_at''] None False False]"

text \<open>\<open>free\<close>: no other session holds one of the tables that are locked with NOWAIT.\<close>

definition lock_tables :: "bool \<Rightarrow> unit result" where
  "lock_tables free = (if free then Inr () else Inl (PgError ''55P03'' ''could not obtain lock on relation''))"

definition assert_legacy_inventory :: "legacy_db \<Rightarrow> unit result" where
  "assert_legacy_inventory l =
     (if list_ex (\<lambda>e. row_by ti_event e (bd_stock l) = None) (bd_events l)
      then Inl (RaiseException ''P0001'' ''ticket type expand migration aborted: legacy event without ticket_inventory'') else Inr ())"

definition create_expand_schema :: "legacy_db \<Rightarrow> expand_db result" where
  "create_expand_schema l =
     bind_result (run_each exec_ddl CREATE_EXPAND_SCHEMA_DDL (bd_catalog l)) (\<lambda>c.
       Inr \<lparr>bd_users = bd_users l, bd_events = bd_events l, bd_stock = bd_stock l, bd_ledger = map (add_type None) (bd_ledger l),
         bd_catalog = c, ex_types = [], ex_shadow = []\<rparr>)"

definition default_pairs :: "expand_db \<Rightarrow> (stock_row \<times> type_row) list" where
  "default_pairs x =
     concat (map (\<lambda>r. map (Pair r) (filter (\<lambda>t. type_event t = ti_event r \<and> is_default t) (ex_types x))) (bd_stock x))"

definition link_purchase :: "type_row list \<Rightarrow> typed_ledger_row \<Rightarrow> typed_ledger_row" where
  "link_purchase ts p = (case default_in (lr_event p) ts of None \<Rightarrow> p | Some t \<Rightarrow> p\<lparr>lr_type := Some t\<rparr>)"

definition backfill_expand_schema :: "expand_env \<Rightarrow> expand_db \<Rightarrow> expand_db result" where
  "backfill_expand_schema env x =
     bind_result (run_each (\<lambda>e. insert_type_row env (default_row env e)) (bd_events x) x) (\<lambda>x1.
     bind_result (run_each (\<lambda>(r, t). insert_shadow_row (stock_shadow (type_id t) r)) (default_pairs x1) x1) (\<lambda>x2.
     Inr (x2\<lparr>bd_ledger := map (link_purchase (ex_types x2)) (bd_ledger x2)\<rparr>)))"

definition ddl_step :: "ddl list \<Rightarrow> expand_db \<Rightarrow> expand_db result" where
  "ddl_step ds x = bind_result (run_each exec_ddl ds (bd_catalog x)) (\<lambda>c. Inr (x\<lparr>bd_catalog := c\<rparr>))"

definition type_known :: "expand_db \<Rightarrow> typed_ledger_row \<Rightarrow> bool" where
  "type_known x p = list_ex (\<lambda>t. type_event t = lr_event p \<and> Some (type_id t) = lr_type p) (ex_types x)"

definition finalize_purchase_constraints :: "expand_db \<Rightarrow> expand_db result" where
  "finalize_purchase_constraints x =
     (if list_ex (\<lambda>p. lr_type p \<noteq> None \<and> \<not> type_known x p) (bd_ledger x)
      then Inl (PgError ''23503'' ''purchases_event_ticket_type_fkey'')
      else if list_ex (\<lambda>p. lr_type p = None) (bd_ledger x) then Inl (PgError ''23502'' ''ticket_type_id'')
      else ddl_step FINALIZE_PURCHASE_CONSTRAINTS_DDL x)"

section \<open>What up and down assert\<close>

definition types_of :: "string \<Rightarrow> expand_db \<Rightarrow> type_row list" where
  "types_of e x = filter (\<lambda>t. type_event t = e) (ex_types x)"

definition not_one_default :: "expand_db \<Rightarrow> bool" where
  "not_one_default x =
     list_ex (\<lambda>e. length (types_of e x) \<noteq> 1 \<or> length (filter is_default (types_of e x)) \<noteq> 1) (bd_events x)"

text \<open>The default Types with their stock, and the FULL JOIN with the Event stock.\<close>

definition expanded_stock :: "expand_db \<Rightarrow> shadow_stock list" where
  "expanded_stock x =
     concat (map (\<lambda>t. filter (\<lambda>r. tti_event r = type_event t \<and> tti_type r = type_id t) (ex_shadow x)) (filter is_default (ex_types x)))"

definition stock_differs :: "stock_row \<Rightarrow> shadow_stock \<Rightarrow> bool" where
  "stock_differs l r =
     (tti_total r \<noteq> ti_total l \<or> tti_remaining r \<noteq> ti_remaining l \<or> tti_version r \<noteq> ti_version l
      \<or> tti_updated_at r \<noteq> ti_updated_at l)"

definition legacy_shadow_mismatch :: "expand_db \<Rightarrow> bool" where
  "legacy_shadow_mismatch x =
     (list_ex (\<lambda>l. \<not> list_ex (\<lambda>r. tti_event r = ti_event l) (expanded_stock x)) (bd_stock x)
      \<or> list_ex (\<lambda>r. row_by ti_event (tti_event r) (bd_stock x) = None) (expanded_stock x)
      \<or> list_ex (\<lambda>l. list_ex (\<lambda>r. tti_event r = ti_event l \<and> stock_differs l r) (expanded_stock x)) (bd_stock x))"

definition non_default_shadow :: "expand_db \<Rightarrow> bool" where
  "non_default_shadow x =
     list_ex (\<lambda>r. list_ex (\<lambda>t. type_event t = tti_event r \<and> type_id t = tti_type r \<and> \<not> is_default t) (ex_types x)) (ex_shadow x)"

text \<open>The row of the Type of the purchase is a default one of its Event.\<close>

definition linked_to_default :: "expand_db \<Rightarrow> typed_ledger_row \<Rightarrow> bool" where
  "linked_to_default x p =
     list_ex (\<lambda>t. type_event t = lr_event p \<and> Some (type_id t) = lr_type p \<and> is_default t) (ex_types x)"

definition assert_expand_schema :: "expand_db \<Rightarrow> unit result" where
  "assert_expand_schema x =
     (if not_one_default x
      then Inl (RaiseException ''P0001'' ''ticket type expand migration aborted: default ticket type count is not exactly one'')
      else if legacy_shadow_mismatch x \<or> non_default_shadow x
      then Inl (RaiseException ''P0001'' ''ticket type expand migration aborted: ticket type inventory does not match legacy inventory'')
      else if list_ex (\<lambda>p. \<not> linked_to_default x p) (bd_ledger x)
      then Inl (RaiseException ''P0001'' ''ticket type expand migration aborted: purchase ticket type linkage is invalid'')
      else Inr ())"

definition expand_up :: "expand_env \<Rightarrow> bool \<Rightarrow> legacy_db \<Rightarrow> expand_db result" where
  "expand_up env free l =
     bind_result (lock_tables free) (\<lambda>_.
     bind_result (assert_legacy_inventory l) (\<lambda>_.
     bind_result (create_expand_schema l) (\<lambda>x1.
     bind_result (backfill_expand_schema env x1) (\<lambda>x2.
     bind_result (ddl_step CREATE_LIVE_WRITE_BRIDGE_DDL x2) (\<lambda>x3.
     bind_result (finalize_purchase_constraints x3) (\<lambda>x4.
     bind_result (assert_expand_schema x4) (\<lambda>_. Inr x4)))))))"

section \<open>The migration down\<close>

definition assert_safe_rollback :: "expand_db \<Rightarrow> unit result" where
  "assert_safe_rollback x =
     (if not_one_default x \<or> list_ex (\<lambda>t. \<not> is_default t) (ex_types x)
      then Inl (RaiseException ''P0001'' ''ticket type expand rollback blocked: each event must have exactly one default ticket type'')
      else if legacy_shadow_mismatch x
      then Inl (RaiseException ''P0001'' ''ticket type expand rollback blocked: ticket type inventory does not match legacy inventory'')
      else if list_ex (\<lambda>p. lr_type p = None \<or> \<not> linked_to_default x p) (bd_ledger x)
      then Inl (RaiseException ''P0001'' ''ticket type expand rollback blocked: purchases are not linked to the event default ticket type'')
      else Inr ())"

definition DROP_EXPAND_SCHEMA_DDL :: "ddl list" where
  "DROP_EXPAND_SCHEMA_DDL =
     [IfExists (DropTrigger ''events_ticket_type_expand_default_trg'' ''events''),
      IfExists (DropTrigger ''ticket_inventory_ticket_type_expand_sync_trg'' ''ticket_inventory''),
      IfExists (DropTrigger ''purchases_ticket_type_expand_default_trg'' ''purchases''),
      IfExists (DropFunction ''ticket_type_expand_create_default_ticket_type''),
      IfExists (DropFunction ''ticket_type_expand_sync_inventory''),
      IfExists (DropFunction ''ticket_type_expand_set_purchase_ticket_type''),
      IfExists (DropConstraint ''purchases'' ''purchases_event_ticket_type_fkey''),
      IfExists (DropIndex ''purchases_event_ticket_type_created_at_idx''),
      IfExists (DropColumn ''purchases'' ''ticket_type_id''),
      DropTable ''ticket_type_inventory'', DropTable ''ticket_types'']"

definition expand_down :: "bool \<Rightarrow> expand_db \<Rightarrow> legacy_db result" where
  "expand_down free x =
     bind_result (lock_tables free) (\<lambda>_.
     bind_result (assert_safe_rollback x) (\<lambda>_.
     bind_result (run_each exec_ddl DROP_EXPAND_SCHEMA_DDL (bd_catalog x)) (\<lambda>c.
     Inr \<lparr>bd_users = bd_users x, bd_events = bd_events x, bd_stock = bd_stock x, bd_ledger = map drop_type (bd_ledger x),
       bd_catalog = c\<rparr>)))"

section \<open>The migrated database as a function of the old one\<close>

definition legacy_wf :: "legacy_db \<Rightarrow> bool" where
  "legacy_wf l \<longleftrightarrow> distinct (bd_events l) \<and> distinct (map ti_event (bd_stock l))
     \<and> (\<forall>r \<in> set (bd_stock l). ti_event r \<in> set (bd_events l) \<and> stock_checks r = None)
     \<and> (\<forall>p \<in> set (bd_ledger l). lr_event p \<in> set (bd_events l))"

definition versions_ok :: "legacy_db \<Rightarrow> bool" where
  "versions_ok l \<longleftrightarrow> (\<forall>r \<in> set (bd_stock l). 0 \<le> ti_version r)"

definition stocked :: "legacy_db \<Rightarrow> bool" where
  "stocked l \<longleftrightarrow> (\<forall>e \<in> set (bd_events l). \<exists>r \<in> set (bd_stock l). ti_event r = e)"

definition shadow_for :: "expand_env \<Rightarrow> stock_row \<Rightarrow> shadow_stock" where
  "shadow_for env r = stock_shadow (draw env (ti_event r)) r"

definition expanded :: "expand_env \<Rightarrow> catalog \<Rightarrow> legacy_db \<Rightarrow> expand_db" where
  "expanded env c l =
     \<lparr>bd_users = bd_users l, bd_events = bd_events l, bd_stock = bd_stock l,
      bd_ledger = map (\<lambda>p. add_type (Some (draw env (lr_event p))) p) (bd_ledger l), bd_catalog = c,
      ex_types = map (default_row env) (bd_events l), ex_shadow = map (shadow_for env) (bd_stock l)\<rparr>"

lemma expanded_simps [simp]:
  "bd_users (expanded env c l) = bd_users l" "bd_events (expanded env c l) = bd_events l" "bd_stock (expanded env c l) = bd_stock l"
  "bd_ledger (expanded env c l) = map (\<lambda>p. add_type (Some (draw env (lr_event p))) p) (bd_ledger l)"
  "bd_catalog (expanded env c l) = c" "ex_types (expanded env c l) = map (default_row env) (bd_events l)"
  "ex_shadow (expanded env c l) = map (shadow_for env) (bd_stock l)"
  by (simp_all add: expanded_def)

lemma default_row_simps [simp]:
  "type_id (default_row env e) = draw env e" "type_event (default_row env e) = e" "is_default (default_row env e)"
  "type_name (default_row env e) = ''General Admission''"
  by (simp_all add: default_row_def)

lemma shadow_for_simps [simp]:
  "tti_type (shadow_for env r) = draw env (ti_event r)" "tti_event (shadow_for env r) = ti_event r"
  "tti_total (shadow_for env r) = ti_total r" "tti_remaining (shadow_for env r) = ti_remaining r"
  "tti_version (shadow_for env r) = ti_version r" "tti_updated_at (shadow_for env r) = ti_updated_at r"
  by (simp_all add: shadow_for_def stock_shadow_def)

lemma add_type_simps [simp]:
  "lr_id (add_type t p) = lr_id p" "lr_event (add_type t p) = lr_event p" "lr_buyer (add_type t p) = lr_buyer p"
  "lr_request (add_type t p) = lr_request p" "lr_quantity (add_type t p) = lr_quantity p" "lr_status (add_type t p) = lr_status p"
  "lr_reason (add_type t p) = lr_reason p" "lr_remaining_after (add_type t p) = lr_remaining_after p"
  "lr_created_at (add_type t p) = lr_created_at p" "lr_type (add_type t p) = t" "drop_type (add_type t p) = p"
  "(add_type t p)\<lparr>lr_type := u\<rparr> = add_type u p"
  by (simp_all add: add_type_def drop_type_def)

lemma default_in_rows [simp]:
  "default_in e (map (default_row env) es) = (if e \<in> set es then Some (draw env e) else None)"
  by (induction es) (auto simp: default_in_def)

lemma default_filter:
  "distinct es \<Longrightarrow> filter (\<lambda>t. type_event t = e) (map (default_row env) es) = (if e \<in> set es then [default_row env e] else [])"
  by (induction es) auto

lemma default_filter2:
  "distinct es \<Longrightarrow> filter (\<lambda>t. type_event t = e \<and> is_default t) (map (default_row env) es) = (if e \<in> set es then [default_row env e] else [])"
  by (induction es) auto

lemma admission_trimmed [simp]: "btrim ''General Admission'' = ''General Admission''"
  by (simp add: btrim_def)

lemma stock_checks_None:
  "stock_checks r = None \<longleftrightarrow> in_int4 (ti_total r) \<and> in_int4 (ti_remaining r) \<and> in_int4 (ti_version r)
     \<and> check_quantities (ti_total r) (ti_remaining r) 0"
  by (auto simp: stock_checks_def)

section \<open>The backfill\<close>

lemma run_types:
  assumes "inj (draw env)" "ex_types x = map (default_row env) ds" "distinct (ds @ es)" "set es \<subseteq> set (bd_events x)"
  shows "run_each (\<lambda>e. insert_type_row env (default_row env e)) es x = Inr (x\<lparr>ex_types := map (default_row env) (ds @ es)\<rparr>)"
  using assms(2-)
proof (induction es arbitrary: ds x)
  case Nil
  then show ?case by (cases x) simp
next
  case (Cons e es)
  have "draw env d \<noteq> draw env e" if "d \<in> set ds" for d
    using that Cons.prems(2) assms(1) by (auto simp: inj_eq)
  then have step: "insert_type_row env (default_row env e) x = Inr (x\<lparr>ex_types := map (default_row env) (ds @ [e])\<rparr>)"
    using Cons.prems by (auto simp: insert_type_row_def list_ex_iff)
  show ?case using Cons.IH [of "x\<lparr>ex_types := map (default_row env) (ds @ [e])\<rparr>" "ds @ [e]"] Cons.prems by (simp add: step)
qed

lemma put_row_new: "key r \<notin> key ` set rows \<Longrightarrow> put_row key r rows = rows @ [r]"
  by (simp add: put_row_def row_by_None_iff)

lemma run_shadows:
  assumes "inj (draw env)" "ex_shadow x = map (shadow_for env) ds" "distinct (map ti_event (ds @ rs))"
    and "\<forall>r \<in> set rs. stock_checks r = None \<and> 0 \<le> ti_version r \<and> default_row env (ti_event r) \<in> set (ex_types x)"
  shows "run_each (\<lambda>(r, t). insert_shadow_row (stock_shadow (type_id t) r)) (map (\<lambda>r. (r, default_row env (ti_event r))) rs) x
    = Inr (x\<lparr>ex_shadow := map (shadow_for env) (ds @ rs)\<rparr>)"
  using assms(2-)
proof (induction rs arbitrary: ds x)
  case Nil
  then show ?case by (cases x) simp
next
  case (Cons r rs)
  have fresh: "draw env (ti_event r) \<notin> tti_type ` set (ex_shadow x)"
    using Cons.prems(1,2) assms(1) by (auto simp: inj_eq)
  then have "row_by tti_type (draw env (ti_event r)) (ex_shadow x) = None" by (simp add: row_by_None_iff)
  moreover have "put_row tti_type (shadow_for env r) (ex_shadow x) = map (shadow_for env) (ds @ [r])"
    using put_row_new [of tti_type "shadow_for env r" "ex_shadow x"] fresh Cons.prems(1) by simp
  moreover have "list_ex (\<lambda>t. type_id t = draw env (ti_event r) \<and> type_event t = ti_event r) (ex_types x)"
    using Cons.prems(3) by (force simp: list_ex_iff)
  ultimately have step: "insert_shadow_row (stock_shadow (draw env (ti_event r)) r) x = Inr (x\<lparr>ex_shadow := map (shadow_for env) (ds @ [r])\<rparr>)"
    using Cons.prems(3) by (simp add: insert_shadow_row_def put_shadow_row_def shadow_for_def [symmetric] check_quantities_def stock_checks_None)
  show ?case using Cons.IH [of "x\<lparr>ex_shadow := map (shadow_for env) (ds @ [r])\<rparr>" "ds @ [r]"] Cons.prems by (simp add: step)
qed

lemma pairs_of_defaults:
  assumes "distinct es" "\<forall>r \<in> set rs. ti_event r \<in> set es"
  shows "concat (map (\<lambda>r. map (Pair r) (filter (\<lambda>t. type_event t = ti_event r \<and> is_default t) (map (default_row env) es))) rs)
    = map (\<lambda>r. (r, default_row env (ti_event r))) rs"
  using assms(2) by (induction rs) (simp_all add: default_filter2 [OF assms(1)])

lemma backfill:
  assumes "inj (draw env)" "legacy_wf l" "versions_ok l"
    and "x = \<lparr>bd_users = bd_users l, bd_events = bd_events l, bd_stock = bd_stock l, bd_ledger = map (add_type None) (bd_ledger l),
         bd_catalog = c, ex_types = [], ex_shadow = []\<rparr>"
  shows "backfill_expand_schema env x = Inr (expanded env c l)"
proof -
  let ?x1 = "x\<lparr>ex_types := map (default_row env) (bd_events l)\<rparr>"
  have wf: "distinct (bd_events l)" "distinct (map ti_event (bd_stock l))" "\<forall>r \<in> set (bd_stock l). ti_event r \<in> set (bd_events l)"
    using assms(2) by (simp_all add: legacy_wf_def)
  have types: "run_each (\<lambda>e. insert_type_row env (default_row env e)) (bd_events x) x = Inr ?x1"
    using run_types [OF assms(1), of x "[]" "bd_events l"] wf by (simp add: assms(4))
  have pairs: "default_pairs ?x1 = map (\<lambda>r. (r, default_row env (ti_event r))) (bd_stock l)"
    using pairs_of_defaults [OF wf(1,3)] by (simp add: default_pairs_def assms(4))
  have shadows: "run_each (\<lambda>(r, t). insert_shadow_row (stock_shadow (type_id t) r)) (default_pairs ?x1) ?x1
      = Inr (?x1\<lparr>ex_shadow := map (shadow_for env) (bd_stock l)\<rparr>)"
    using run_shadows [OF assms(1), of ?x1 "[]" "bd_stock l"] wf assms(2,3) unfolding pairs
    by (simp add: assms(4) legacy_wf_def versions_ok_def)
  show ?thesis using assms(2)
    by (simp add: backfill_expand_schema_def types shadows) (auto simp: assms(4) expanded_def link_purchase_def legacy_wf_def)
qed

section \<open>The assertions hold on it\<close>

lemma types_of_expanded [simp]:
  "distinct (bd_events l) \<Longrightarrow> e \<in> set (bd_events l) \<Longrightarrow> types_of e (expanded env c l) = [default_row env e]"
  by (simp add: types_of_def default_filter)

lemma expanded_stock_iff:
  "r \<in> set (expanded_stock x) \<longleftrightarrow> r \<in> set (ex_shadow x)
     \<and> (\<exists>t \<in> set (ex_types x). is_default t \<and> tti_event r = type_event t \<and> tti_type r = type_id t)"
  by (auto simp: expanded_stock_def)

lemma expanded_passes:
  assumes "legacy_wf l"
  shows "\<not> not_one_default (expanded env c l)" "\<not> legacy_shadow_mismatch (expanded env c l)" "\<not> non_default_shadow (expanded env c l)"
    "list_all (linked_to_default (expanded env c l)) (bd_ledger (expanded env c l))" "list_all is_default (ex_types (expanded env c l))"
proof -
  note wf = assms [unfolded legacy_wf_def]
  have member: "r \<in> set (expanded_stock (expanded env c l)) \<longleftrightarrow> r \<in> shadow_for env ` set (bd_stock l)" for r
    using wf by (auto simp: expanded_stock_iff)
  have same: "r = r'" if "r \<in> set (bd_stock l)" "r' \<in> set (bd_stock l)" "ti_event r = ti_event r'" for r r'
    using wf that by (auto simp: distinct_map inj_on_def)
  show "\<not> not_one_default (expanded env c l)" using wf by (simp add: not_one_default_def list_ex_iff)
  show "\<not> legacy_shadow_mismatch (expanded env c l)"
    unfolding legacy_shadow_mismatch_def list_ex_iff Bex_def member using same
    by (auto simp: row_by_None_iff stock_differs_def)
  show "\<not> non_default_shadow (expanded env c l)" by (auto simp: non_default_shadow_def list_ex_iff)
  show "list_all (linked_to_default (expanded env c l)) (bd_ledger (expanded env c l))"
    using wf by (auto simp: list_all_iff linked_to_default_def list_ex_iff)
  show "list_all is_default (ex_types (expanded env c l))" by (simp add: list_all_iff)
qed

section \<open>The catalog of the migrated database\<close>

definition schema_catalog :: catalog where
  "schema_catalog = after_ddl CREATE_EXPAND_SCHEMA_DDL baseline_catalog"

definition bridge_catalog :: catalog where
  "bridge_catalog = after_ddl CREATE_LIVE_WRITE_BRIDGE_DDL schema_catalog"

definition expand_catalog :: catalog where
  "expand_catalog = after_ddl FINALIZE_PURCHASE_CONSTRAINTS_DDL bridge_catalog"

definition dropped_catalog :: catalog where
  "dropped_catalog = after_ddl DROP_EXPAND_SCHEMA_DDL expand_catalog"

lemma ddl_ok:
  "is_ok (run_each exec_ddl (CREATE_EXPAND_SCHEMA_DDL @ CREATE_LIVE_WRITE_BRIDGE_DDL @ FINALIZE_PURCHASE_CONSTRAINTS_DDL
     @ DROP_EXPAND_SCHEMA_DDL) baseline_catalog)"
  by code_simp

lemma after_ddl_append:
  "is_ok (run_each exec_ddl (ds @ es) c) \<Longrightarrow>
     run_each exec_ddl ds c = Inr (after_ddl ds c) \<and> is_ok (run_each exec_ddl es (after_ddl ds c))"
  by (cases "run_each exec_ddl ds c") (simp_all add: run_each_append after_ddl_def)

lemma after_ddl_ok: "is_ok (run_each exec_ddl ds c) \<Longrightarrow> run_each exec_ddl ds c = Inr (after_ddl ds c)"
  by (auto simp: is_ok_iff after_ddl_def)

lemma catalog_runs:
  "run_each exec_ddl CREATE_EXPAND_SCHEMA_DDL baseline_catalog = Inr schema_catalog"
  "run_each exec_ddl CREATE_LIVE_WRITE_BRIDGE_DDL schema_catalog = Inr bridge_catalog"
  "run_each exec_ddl FINALIZE_PURCHASE_CONSTRAINTS_DDL bridge_catalog = Inr expand_catalog"
  "run_each exec_ddl DROP_EXPAND_SCHEMA_DDL expand_catalog = Inr dropped_catalog"
proof -
  note s1 = after_ddl_append [OF ddl_ok, folded schema_catalog_def]
  note s2 = after_ddl_append [OF conjunct2 [OF s1], folded bridge_catalog_def]
  note s3 = after_ddl_append [OF conjunct2 [OF s2], folded expand_catalog_def]
  from s1 s2 s3 after_ddl_ok [OF conjunct2 [OF s3], folded dropped_catalog_def] show
    "run_each exec_ddl CREATE_EXPAND_SCHEMA_DDL baseline_catalog = Inr schema_catalog"
    "run_each exec_ddl CREATE_LIVE_WRITE_BRIDGE_DDL schema_catalog = Inr bridge_catalog"
    "run_each exec_ddl FINALIZE_PURCHASE_CONSTRAINTS_DDL bridge_catalog = Inr expand_catalog"
    "run_each exec_ddl DROP_EXPAND_SCHEMA_DDL expand_catalog = Inr dropped_catalog" by blast+
qed

definition CANONICAL_BODIES :: "(string \<times> string) list" where
  "CANONICAL_BODIES =
     [(''create_default_ticket_type'', ''b93a46dd7d53cb4f5833ff8ce5f447f5''),
      (''sync_inventory'', ''4c5fc01e805ed4fb42cd4d35c493aa78''),
      (''set_purchase_ticket_type'', ''9b5c4e4e463f9d632afcd449ce80281f'')]"

lemma expand_audit: "catalog_audit CANONICAL_BODIES expand_catalog = [0, 0, 0, 0, 0, 14]"
  by code_simp

lemma expand_catalog_ok:
  assumes "on_record CANONICAL_BODIES md5"
  shows "expand_catalog_intact md5 expand_catalog"
  by (rule audit_result(1) [OF assms _ expand_audit]) (simp add: CANONICAL_BODIES_def)

lemma bridge_fires [simp]:
  "trigger_fires ''events'' ''events_ticket_type_expand_default_trg'' expand_catalog"
  "trigger_fires ''ticket_inventory'' ''ticket_inventory_ticket_type_expand_sync_trg'' expand_catalog"
  "trigger_fires ''purchases'' ''purchases_ticket_type_expand_default_trg'' expand_catalog"
proof -
  have "on_record CANONICAL_BODIES (md5_of CANONICAL_BODIES)" by (simp add: on_record_def md5_of_def CANONICAL_BODIES_def)
  from expand_catalog_ok [OF this]
  have "list_all (\<lambda>r. trigger_fires (rt_table r) (rt_trigger r) expand_catalog) required_bridge_triggers"
    unfolding expand_catalog_intact_def list_all_iff trigger_intact_def trigger_fires_def list_ex_iff by fastforce
  then show
    "trigger_fires ''events'' ''events_ticket_type_expand_default_trg'' expand_catalog"
    "trigger_fires ''ticket_inventory'' ''ticket_inventory_ticket_type_expand_sync_trg'' expand_catalog"
    "trigger_fires ''purchases'' ''purchases_ticket_type_expand_default_trg'' expand_catalog"
    by (simp_all add: required_bridge_triggers_def required_def)
qed

section \<open>Up\<close>

lemma run_each_Inr:
  "run_each f xs s = Inr s' \<Longrightarrow> y \<in> set xs \<Longrightarrow> \<exists>s1 s2. f y s1 = Inr s2"
  by (induction xs arbitrary: s) (auto simp: bind_result_Inr)

lemma up_expands:
  assumes "inj (draw env)" "legacy_wf l" "bd_catalog l = baseline_catalog" "versions_ok l" "stocked l"
  shows "expand_up env True l = Inr (expanded env expand_catalog l)"
proof -
  let ?x1 = "\<lparr>bd_users = bd_users l, bd_events = bd_events l, bd_stock = bd_stock l, bd_ledger = map (add_type None) (bd_ledger l),
         bd_catalog = schema_catalog, ex_types = [], ex_shadow = []\<rparr>"
  have asserted: "assert_legacy_inventory l = Inr ()"
    using assms(5) by (force simp: assert_legacy_inventory_def stocked_def list_ex_iff row_by_None_iff)
  have create: "create_expand_schema l = Inr ?x1" by (simp add: create_expand_schema_def assms(3) catalog_runs)
  have bridge: "ddl_step CREATE_LIVE_WRITE_BRIDGE_DDL (expanded env schema_catalog l) = Inr (expanded env bridge_catalog l)"
    by (simp add: ddl_step_def catalog_runs expanded_def)
  have known: "type_known (expanded env bridge_catalog l) p" if "p \<in> set (bd_ledger (expanded env bridge_catalog l))" for p
    using that assms(2) by (auto simp: type_known_def list_ex_iff legacy_wf_def)
  then have finalize: "finalize_purchase_constraints (expanded env bridge_catalog l) = Inr (expanded env expand_catalog l)"
    by (auto simp: finalize_purchase_constraints_def list_ex_iff ddl_step_def catalog_runs expanded_def)
  note passes = expanded_passes [OF assms(2), of env expand_catalog]
  have "assert_expand_schema (expanded env expand_catalog l) = Inr ()"
    using passes by (simp add: assert_expand_schema_def list_ex_iff list_all_iff)
  then show ?thesis
    by (simp add: expand_up_def lock_tables_def asserted create backfill [OF assms(1,2,4) refl] bridge finalize)
qed

lemma up_needs:
  assumes "expand_up env free l = Inr x" "inj (draw env)" "legacy_wf l" "bd_catalog l = baseline_catalog"
  shows "free" "stocked l" "versions_ok l"
proof -
  note up = assms(1) [unfolded expand_up_def bind_result_Inr]
  from up show "free" by (auto simp: lock_tables_def split: if_splits)
  from up show "stocked l"
    by (auto simp: assert_legacy_inventory_def stocked_def list_ex_iff row_by_None_iff image_iff split: if_splits)
  from up obtain x1 x2 where c: "create_expand_schema l = Inr x1" "backfill_expand_schema env x1 = Inr x2" by auto
  have x1: "ex_types x1 = []" "bd_events x1 = bd_events l" "bd_stock x1 = bd_stock l"
    using c(1) by (auto simp: create_expand_schema_def bind_result_Inr)
  have wf: "distinct (bd_events l)" "\<forall>r \<in> set (bd_stock l). ti_event r \<in> set (bd_events l)"
    using assms(3) by (simp_all add: legacy_wf_def)
  have types: "run_each (\<lambda>e. insert_type_row env (default_row env e)) (bd_events x1) x1
      = Inr (x1\<lparr>ex_types := map (default_row env) (bd_events l)\<rparr>)"
    using run_types [OF assms(2), of x1 "[]" "bd_events l"] wf by (simp add: x1)
  have "default_pairs (x1\<lparr>ex_types := map (default_row env) (bd_events l)\<rparr>) = map (\<lambda>r. (r, default_row env (ti_event r))) (bd_stock l)"
    using pairs_of_defaults [OF wf] by (simp add: default_pairs_def x1)
  then obtain x3 where run: "run_each (\<lambda>(r, t). insert_shadow_row (stock_shadow (type_id t) r))
      (map (\<lambda>r. (r, default_row env (ti_event r))) (bd_stock l)) (x1\<lparr>ex_types := map (default_row env) (bd_events l)\<rparr>) = Inr x3"
    using c(2) by (auto simp: backfill_expand_schema_def bind_result_Inr types)
  have "0 \<le> ti_version r" if "r \<in> set (bd_stock l)" for r
    using run_each_Inr [OF run, of "(r, default_row env (ti_event r))"] that
    by (auto simp: insert_shadow_row_def put_shadow_row_def stock_shadow_def check_quantities_def split: if_splits)
  then show "versions_ok l" by (simp add: versions_ok_def)
qed

text \<open>The migration succeeds exactly when it gets its locks, every Event has a stock row and no stock row has a
  negative version (which the old schema allows and the new one does not); then it adds one default
  Type per Event, one shadow row per stock row with the same numbers, and links every purchase.\<close>

theorem up_succeeds_iff:
  assumes "inj (draw env)" "legacy_wf l" "bd_catalog l = baseline_catalog"
  shows "expand_up env free l = Inr x \<longleftrightarrow> free \<and> stocked l \<and> versions_ok l \<and> x = expanded env expand_catalog l"
  using up_expands [OF assms] up_needs [OF _ assms] by (metis (full_types) sum.inject(2))

section \<open>Old binaries on the migrated database\<close>

definition write_ok :: "legacy_write \<Rightarrow> bool" where
  "write_ok w = (case w of InsertStock r \<Rightarrow> 0 \<le> ti_version r | UpdateStock r \<Rightarrow> 0 \<le> ti_version r | _ \<Rightarrow> True)"

lemma put_row_map:
  assumes "inj d" "\<And>r. key' (g r) = d (key r)"
  shows "put_row key' (g r) (map g rows) = map g (put_row key r rows)"
proof -
  have "row_by key' (key' (g r)) (map g rows) = None \<longleftrightarrow> row_by key (key r) rows = None"
    using assms by (auto simp: row_by_None_iff image_iff inj_eq)
  then show ?thesis using assms by (simp add: put_row_def inj_eq)
qed

lemma put_shadow_of:
  assumes "inj (draw env)" "ti_event r \<in> set (bd_events l)" "stock_checks r = None" "0 \<le> ti_version r"
  shows "expand_sync_inventory r ((expanded env expand_catalog l)\<lparr>bd_stock := put_row ti_event r (bd_stock l)\<rparr>)
    = Inr (expanded env expand_catalog (l\<lparr>bd_stock := put_row ti_event r (bd_stock l)\<rparr>))"
proof -
  have "put_row tti_type (shadow_for env r) (map (shadow_for env) (bd_stock l)) = map (shadow_for env) (put_row ti_event r (bd_stock l))"
    by (rule put_row_map [OF assms(1)]) simp
  then show ?thesis using assms(2-)
    by (auto simp: expand_sync_inventory_def put_shadow_row_def shadow_for_def [symmetric] list_ex_iff check_quantities_def
        stock_checks_None expanded_def)
qed

text \<open>A statement of an old binary has the effect it had before the migration; it fails exactly when it failed.\<close>

lemma bridged_write:
  assumes "inj (draw env)" "legacy_wf l" "write_ok w"
  shows "case legacy_apply w l of
      Inr l' \<Rightarrow> bridge_apply env w (expanded env expand_catalog l) = Inr (expanded env expand_catalog l')
    | Inl e \<Rightarrow> \<not> is_ok (bridge_apply env w (expanded env expand_catalog l))"
proof (cases w)
  case (InsertEvent e)
  show ?thesis
    by (auto simp: InsertEvent insert_event_row_def expand_create_default_ticket_type_def insert_type_row_def list_ex_iff
        inj_eq [OF assms(1)] expanded_def)
next
  case (InsertStock r)
  show ?thesis
  proof (cases "legacy_apply w l")
    case (Inl e)
    then have "insert_stock_row r (expanded env expand_catalog l) = Inl e"
      by (cases "stock_checks r") (auto simp: InsertStock insert_stock_row_def split: if_splits)
    with Inl show ?thesis by (simp add: InsertStock)
  next
    case (Inr l')
    then have r: "stock_checks r = None" "row_by ti_event (ti_event r) (bd_stock l) = None" "ti_event r \<in> set (bd_events l)"
      and l': "l' = l\<lparr>bd_stock := put_row ti_event r (bd_stock l)\<rparr>"
      by (auto simp: InsertStock insert_stock_row_def put_row_def split: option.splits if_splits)
    have "insert_stock_row r (expanded env expand_catalog l) = Inr ((expanded env expand_catalog l)\<lparr>bd_stock := bd_stock l'\<rparr>)"
      using r by (simp add: insert_stock_row_def l' put_row_def)
    with put_shadow_of [OF assms(1) r(3,1)] assms(3) Inr [unfolded InsertStock] show ?thesis
      by (simp add: InsertStock write_ok_def l')
  qed
next
  case (UpdateStock r)
  show ?thesis
  proof (cases "row_by ti_event (ti_event r) (bd_stock l)")
    case None
    then show ?thesis by (simp add: UpdateStock update_stock_row_def)
  next
    case (Some r0)
    then have e: "ti_event r \<in> set (bd_events l)"
      using assms(2) row_by_Some [of ti_event "ti_event r" "bd_stock l" r0] by (auto simp: legacy_wf_def)
    show ?thesis
    proof (cases "stock_checks r")
      case None
      with put_shadow_of [OF assms(1) e None] assms(3) Some show ?thesis
        by (simp add: UpdateStock update_stock_row_def write_ok_def)
    next
      case (Some e)
      with \<open>row_by ti_event (ti_event r) (bd_stock l) = Some r0\<close> show ?thesis by (simp add: UpdateStock update_stock_row_def)
    qed
  qed
next
  case (InsertPurchase p)
  let ?x = "expanded env expand_catalog l" and ?q = "add_type (Some (draw env (lr_event p))) p"
  have checks: "ledger_checks (add_type t p) = ledger_checks p" for t by (simp add: ledger_checks_def)
  have keys: "same_key (add_type t p) (add_type u q) = same_key p q" for t u q by (simp add: same_key_def)
  have same: "insert_ledger_row ?q ?x = map_sum id (\<lambda>l'. ?x\<lparr>bd_ledger := map (\<lambda>p. add_type (Some (draw env (lr_event p))) p) (bd_ledger l')\<rparr>)
      (insert_ledger_row p l)"
    unfolding insert_ledger_row_def by (simp add: checks keys list_ex_iff)
  show ?thesis
  proof (cases "lr_event p \<in> set (bd_events l)")
    case True
    then have "expand_set_purchase_ticket_type (add_type None p) ?x = Inr ?q" by (simp add: expand_set_purchase_ticket_type_def)
    moreover have "list_ex (\<lambda>t. Some (type_id t) = lr_type ?q \<and> type_event t = lr_event ?q) (ex_types ?x)"
      using True by (simp add: list_ex_iff)
    moreover have "expanded env expand_catalog l' = ?x\<lparr>bd_ledger := map (\<lambda>p. add_type (Some (draw env (lr_event p))) p) (bd_ledger l')\<rparr>"
      if "insert_ledger_row p l = Inr l'" for l'
      using that by (auto simp: insert_ledger_row_def expanded_def split: if_splits)
    ultimately show ?thesis
      by (cases "insert_ledger_row p l") (simp_all add: InsertPurchase insert_typed_ledger_row_def same)
  next
    case False
    then have "\<not> is_ok (insert_ledger_row p l)" by (simp add: insert_ledger_row_def)
    with False show ?thesis
      by (cases "insert_ledger_row p l") (simp_all add: InsertPurchase expand_set_purchase_ticket_type_def)
  qed
qed

section \<open>Histories\<close>

text \<open>A statement outside of a transaction: one that fails leaves no trace.\<close>

definition attempt :: "('w \<Rightarrow> 's \<Rightarrow> 's result) \<Rightarrow> 'w \<Rightarrow> 's \<Rightarrow> 's" where
  "attempt f w s = (case f w s of Inl _ \<Rightarrow> s | Inr s' \<Rightarrow> s')"

lemma legacy_wf_apply:
  assumes "legacy_wf l" "legacy_apply w l = Inr l'"
  shows "legacy_wf l'"
proof (cases w)
  case (InsertStock r)
  with assms show ?thesis
    by (auto simp: insert_stock_row_def legacy_wf_def row_by_None_iff split: option.splits if_splits)
next
  case (UpdateStock r)
  show ?thesis
  proof (cases "row_by ti_event (ti_event r) (bd_stock l)")
    case (Some r0)
    then have "ti_event r \<in> set (bd_events l)"
      using assms(1) row_by_Some [of ti_event "ti_event r" "bd_stock l" r0] by (auto simp: legacy_wf_def)
    with UpdateStock Some assms show ?thesis
      by (auto simp: update_stock_row_def legacy_wf_def distinct_put_row split: option.splits dest!: mem_put_row)
  qed (use UpdateStock assms in \<open>simp add: update_stock_row_def\<close>)
qed (use assms in \<open>auto simp: insert_event_row_def insert_ledger_row_def legacy_wf_def split: if_splits\<close>)

lemma catalog_apply: "legacy_apply w l = Inr l' \<Longrightarrow> bd_catalog l' = bd_catalog l"
  by (cases w) (auto simp: insert_event_row_def insert_stock_row_def update_stock_row_def insert_ledger_row_def
      split: if_splits option.splits)

lemma legacy_wf_attempt: "legacy_wf l \<Longrightarrow> legacy_wf (attempt legacy_apply w l)"
  using legacy_wf_apply by (auto simp: attempt_def split: sum.split)

lemma legacy_wf_run: "legacy_wf l \<Longrightarrow> legacy_wf (fold (attempt legacy_apply) ws l)"
  by (induction ws arbitrary: l) (simp_all add: legacy_wf_attempt)

lemma bridged_history:
  assumes "inj (draw env)" "legacy_wf l" "list_all write_ok ws"
  shows "fold (attempt (bridge_apply env)) ws (expanded env expand_catalog l)
    = expanded env expand_catalog (fold (attempt legacy_apply) ws l)"
  using assms(2,3)
proof (induction ws arbitrary: l)
  case (Cons w ws)
  have "attempt (bridge_apply env) w (expanded env expand_catalog l) = expanded env expand_catalog (attempt legacy_apply w l)"
    using bridged_write [OF assms(1) Cons.prems(1), of w] Cons.prems(2)
    by (cases "legacy_apply w l"; cases "bridge_apply env w (expanded env expand_catalog l)") (simp_all add: attempt_def)
  with Cons legacy_wf_attempt show ?case by simp
qed simp

text \<open>The tables without the catalog.\<close>

definition same_tables :: "legacy_db \<Rightarrow> legacy_db \<Rightarrow> bool" where
  "same_tables a b \<longleftrightarrow> bd_users a = bd_users b \<and> bd_events a = bd_events b \<and> bd_stock a = bd_stock b \<and> bd_ledger a = bd_ledger b"

lemma down_of_expanded:
  assumes "legacy_wf l"
  shows "expand_down True (expanded env expand_catalog l) = Inr (l\<lparr>bd_catalog := dropped_catalog\<rparr>)"
  using expanded_passes [OF assms, of env expand_catalog]
  by (simp add: expand_down_def lock_tables_def assert_safe_rollback_def list_ex_iff list_all_iff catalog_runs comp_def)

text \<open>C38: old binaries can go on working while the migration is in force, and it can be taken back: after the
  migration, any statements of old binaries (failed ones included) and the migration down, which is never
  blocked, the tables are those that the same statements leave in a database that was never
  migrated.\<close>

theorem migration_round_trip:
  assumes "inj (draw env)" "legacy_wf l" "bd_catalog l = baseline_catalog" "list_all write_ok ws"
    and "expand_up env free l = Inr x"
  shows "\<exists>l'. expand_down True (fold (attempt (bridge_apply env)) ws x) = Inr l'
    \<and> same_tables l' (fold (attempt legacy_apply) ws l)"
proof -
  have "x = expanded env expand_catalog l" using up_succeeds_iff [OF assms(1-3)] assms(5) by simp
  with bridged_history [OF assms(1,2,4)] down_of_expanded [OF legacy_wf_run [OF assms(2)]] show ?thesis
    by (simp add: same_tables_def)
qed

text \<open>A sold ticket, then an old binary that registers, sells and repeats itself.\<close>

definition sample_expand_env :: expand_env where
  "sample_expand_env = \<lparr>draw = (\<lambda>e. CHR ''t'' # e), pg_lower = (\<lambda>s. s)\<rparr>"

definition sample_stock_row :: "string \<Rightarrow> int \<Rightarrow> int \<Rightarrow> int \<Rightarrow> stock_row" where
  "sample_stock_row e rem ver stamp = \<lparr>ti_event = e, ti_total = 5, ti_remaining = rem, ti_version = ver, ti_updated_at = stamp\<rparr>"

definition sample_ledger :: "string \<Rightarrow> ledger_row" where
  "sample_ledger i = \<lparr>lr_id = i, lr_event = ''e'', lr_buyer = ''u'', lr_request = Some i, lr_quantity = 1, lr_status = Confirmed,
     lr_reason = None, lr_remaining_after = Some 4, lr_created_at = 7\<rparr>"

definition sample_legacy :: legacy_db where
  "sample_legacy = \<lparr>bd_users = [''u''], bd_events = [''e''], bd_stock = [sample_stock_row ''e'' 4 1 7], bd_ledger = [sample_ledger ''p''],
     bd_catalog = baseline_catalog\<rparr>"

definition sample_writes :: "legacy_write list" where
  "sample_writes = [InsertEvent ''f'', InsertStock (sample_stock_row ''f'' 5 0 8), UpdateStock (sample_stock_row ''e'' 3 2 9),
     InsertPurchase (sample_ledger ''q''), InsertEvent ''f'']"

lemma sample_ok:
  "inj (draw sample_expand_env)" "legacy_wf sample_legacy" "bd_catalog sample_legacy = baseline_catalog" "list_all write_ok sample_writes"
  "stocked sample_legacy" "versions_ok sample_legacy" "\<not> list_ex (\<lambda>p. lr_event p \<noteq> ''e'') (bd_ledger sample_legacy)"
  by (auto simp: sample_expand_env_def sample_legacy_def sample_writes_def sample_stock_row_def sample_ledger_def legacy_wf_def inj_def
      write_ok_def stocked_def versions_ok_def stock_checks_None in_int4_def check_quantities_def POSTGRES_INT4_MAX_def)

theorem migration_round_trip_witness:
  "\<exists>l'. expand_down True (fold (attempt (bridge_apply sample_expand_env)) sample_writes (expanded sample_expand_env expand_catalog sample_legacy)) = Inr l'
    \<and> same_tables l' (fold (attempt legacy_apply) sample_writes sample_legacy)"
proof -
  have "expand_up sample_expand_env True sample_legacy = Inr (expanded sample_expand_env expand_catalog sample_legacy)"
    using up_succeeds_iff [OF sample_ok(1-3), of True "expanded sample_expand_env expand_catalog sample_legacy"] sample_ok(5,6) by blast
  from migration_round_trip [OF sample_ok(1-4) this] show ?thesis .
qed

end
