(* ===== verification/ExpandReadiness.thy ===== *)
theory ExpandReadiness
  imports ExpandMigration Evidence
begin

text \<open>
  The check before the cutover, src/database/ticket-type-expand-readiness.ts, on a migrated database: the
  counts of its 16 categories, how the answer is read, the evidence, and the command
  src/database/check-ticket-type-expand-readiness.ts; and what the guard of the migration down keeps.
\<close>

section \<open>The categories\<close>

definition TICKET_TYPE_EXPAND_READINESS_CATEGORIES :: "string list" where
  "TICKET_TYPE_EXPAND_READINESS_CATEGORIES =
     [''event_without_exactly_one_default'', ''event_without_exactly_one_ticket_type_before_cutover'',
      ''event_without_legacy_inventory'', ''legacy_inventory_without_default_shadow'', ''legacy_shadow_remaining_mismatch'',
      ''legacy_shadow_total_mismatch'', ''legacy_shadow_updated_at_mismatch'', ''legacy_shadow_version_mismatch'',
      ''non_default_inventory_before_cutover'', ''purchase_ticket_type_event_mismatch'', ''purchase_without_ticket_type'',
      ''required_bridge_trigger_missing_or_disabled'', ''required_ticket_type_fk_missing_or_unvalidated'',
      ''required_ticket_type_not_null_missing'', ''required_unique_index_missing_or_invalid'',
      ''ticket_type_inventory_event_mismatch'']"

type_synonym TicketTypeExpandReadinessResult = "string \<times> int"

section \<open>The query\<close>

text \<open>The rows of the joins of the Event stock with its default Type and that Type's stock: outer and inner.\<close>

definition default_shadow_left :: "expand_db \<Rightarrow> stock_row \<Rightarrow> shadow_stock option list" where
  "default_shadow_left x l =
     concat (map (\<lambda>d. case d of
         None \<Rightarrow> [None]
       | Some t \<Rightarrow> left_join (\<lambda>r. tti_event r = ti_event l \<and> tti_type r = type_id t) (ex_shadow x))
       (left_join (\<lambda>t. type_event t = ti_event l \<and> is_default t) (ex_types x)))"

definition default_shadow_pairs :: "expand_db \<Rightarrow> (stock_row \<times> shadow_stock) list" where
  "default_shadow_pairs x =
     concat (map (\<lambda>l. concat (map (\<lambda>t.
       map (Pair l) (filter (\<lambda>r. tti_event r = ti_event l \<and> tti_type r = type_id t) (ex_shadow x)))
       (filter (\<lambda>t. type_event t = ti_event l \<and> is_default t) (ex_types x)))) (bd_stock x))"

definition purchase_mismatch :: "typed_ledger_row \<Rightarrow> type_row option \<Rightarrow> bool" where
  "purchase_mismatch p j = (lr_type p \<noteq> None \<and> (case j of None \<Rightarrow> True | Some t \<Rightarrow> type_event t \<noteq> lr_event p))"

definition readiness_counts :: "(string \<Rightarrow> string) \<Rightarrow> expand_db \<Rightarrow> nat list" where
  "readiness_counts md5 x =
     [count_rows (\<lambda>e. length (filter is_default (types_of e x)) \<noteq> 1) (bd_events x),
      count_rows (\<lambda>e. length (types_of e x) \<noteq> 1) (bd_events x),
      sum_list (map (\<lambda>e. count_rows (\<lambda>j. j = None) (left_join (\<lambda>r. ti_event r = e) (bd_stock x))) (bd_events x)),
      sum_list (map (\<lambda>l. count_rows (\<lambda>j. j = None) (default_shadow_left x l)) (bd_stock x)),
      count_rows (\<lambda>(l, r). tti_remaining r \<noteq> ti_remaining l) (default_shadow_pairs x),
      count_rows (\<lambda>(l, r). tti_total r \<noteq> ti_total l) (default_shadow_pairs x),
      count_rows (\<lambda>(l, r). tti_updated_at r \<noteq> ti_updated_at l) (default_shadow_pairs x),
      count_rows (\<lambda>(l, r). tti_version r \<noteq> ti_version l) (default_shadow_pairs x),
      sum_list (map (\<lambda>r. count_rows (\<lambda>t. type_event t = tti_event r \<and> type_id t = tti_type r \<and> \<not> is_default t) (ex_types x)) (ex_shadow x)),
      sum_list (map (\<lambda>p. count_rows (purchase_mismatch p) (left_join (\<lambda>t. Some (type_id t) = lr_type p) (ex_types x))) (bd_ledger x)),
      count_rows (\<lambda>p. lr_type p = None) (bd_ledger x),
      required_bridge_trigger_missing_or_disabled md5 (bd_catalog x),
      required_ticket_type_fk_missing_or_unvalidated (bd_catalog x),
      required_ticket_type_not_null_missing (bd_catalog x),
      required_unique_index_missing_or_invalid (bd_catalog x),
      sum_list (map (\<lambda>r. count_rows (\<lambda>j. j = None)
        (left_join (\<lambda>t. type_event t = tti_event r \<and> type_id t = tti_type r) (ex_types x))) (ex_shadow x))]"

definition TICKET_TYPE_EXPAND_READINESS_SQL :: "(string \<Rightarrow> string) \<Rightarrow> expand_db \<Rightarrow> (string \<times> string) list" where
  "TICKET_TYPE_EXPAND_READINESS_SQL md5 x =
     zip TICKET_TYPE_EXPAND_READINESS_CATEGORIES (map decimal (readiness_counts md5 x))"

section \<open>Reading the answer\<close>

text \<open>The columns of a row may hold any value; the driver returns the texts of the query.\<close>

fun collect_readiness :: "(jsval \<times> jsval) list \<Rightarrow> (string \<times> int) list \<Rightarrow> (string \<times> int) list result" where
  "collect_readiness [] acc = Inr acc"
| "collect_readiness ((category, n) # rows) acc =
     (case category of
        JString c \<Rightarrow>
          if c \<notin> set TICKET_TYPE_EXPAND_READINESS_CATEGORIES
          then Inl (PlainError ''unexpected Ticket Type readiness category'')
          else if map_of acc c \<noteq> None then Inl (PlainError ''duplicate Ticket Type readiness category'')
          else (case n of
              JString digits \<Rightarrow>
                if \<not> NON_NEGATIVE_INTEGER digits \<or> \<not> safe_count (digits_value digits)
                then Inl (PlainError ''invalid Ticket Type readiness count'')
                else collect_readiness rows ((c, int (digits_value digits)) # acc)
            | _ \<Rightarrow> Inl (PlainError ''invalid Ticket Type readiness count''))
      | _ \<Rightarrow> Inl (PlainError ''unexpected Ticket Type readiness category''))"

fun assert_readiness :: "raw_result list \<Rightarrow> string list \<Rightarrow> string list result" where
  "assert_readiness [] seen = Inr seen"
| "assert_readiness ((category, n) # rs) seen =
     (case category of
        JString c \<Rightarrow>
          if c \<notin> set TICKET_TYPE_EXPAND_READINESS_CATEGORIES then Inl (PlainError ''unexpected Ticket Type readiness category'')
          else if c \<in> set seen then Inl (PlainError ''duplicate Ticket Type readiness category'')
          else if \<not> is_count n then Inl (PlainError ''invalid Ticket Type readiness count'')
          else assert_readiness rs (c # seen)
      | _ \<Rightarrow> Inl (PlainError ''unexpected Ticket Type readiness category''))"

definition assertTicketTypeExpandReadinessComplete :: "raw_result list \<Rightarrow> unit result" where
  "assertTicketTypeExpandReadinessComplete rs =
     bind_result (assert_readiness rs []) (\<lambda>seen.
       if filter (\<lambda>c. c \<notin> set seen) TICKET_TYPE_EXPAND_READINESS_CATEGORIES \<noteq> []
       then Inl (PlainError ''missing Ticket Type readiness categories'') else Inr ())"

definition results_of :: "(string \<times> int) list \<Rightarrow> TicketTypeExpandReadinessResult list" where
  "results_of acc =
     concat (map (\<lambda>c. case map_of acc c of None \<Rightarrow> [] | Some n \<Rightarrow> [(c, n)]) TICKET_TYPE_EXPAND_READINESS_CATEGORIES)"

definition checkTicketTypeExpandReadiness :: "(jsval \<times> jsval) list \<Rightarrow> TicketTypeExpandReadinessResult list result" where
  "checkTicketTypeExpandReadiness rows =
     bind_result (collect_readiness rows []) (\<lambda>acc.
     bind_result (assertTicketTypeExpandReadinessComplete (map raw (results_of acc))) (\<lambda>_. Inr (results_of acc)))"

definition hasTicketTypeExpandViolations :: "TicketTypeExpandReadinessResult list \<Rightarrow> bool result" where
  "hasTicketTypeExpandViolations results =
     bind_result (assertTicketTypeExpandReadinessComplete (map raw results)) (\<lambda>_. Inr (list_ex (\<lambda>r. snd r > 0) results))"

definition TICKET_TYPE_EXPAND_READINESS_EVIDENCE_TYPE :: string where
  "TICKET_TYPE_EXPAND_READINESS_EVIDENCE_TYPE = ''ticket-type-expand-readiness''"

definition TICKET_TYPE_EXPAND_READINESS_EVIDENCE_VERSION :: int where
  "TICKET_TYPE_EXPAND_READINESS_EVIDENCE_VERSION = 1"

definition serializeTicketTypeExpandReadinessEvidence :: "TicketTypeExpandReadinessResult list \<Rightarrow> jsval result" where
  "serializeTicketTypeExpandReadinessEvidence results =
     bind_result (assertTicketTypeExpandReadinessComplete (map raw results)) (\<lambda>_.
       Inr (JObject
         [(''evidenceType'', JString TICKET_TYPE_EXPAND_READINESS_EVIDENCE_TYPE),
          (''evidenceVersion'', jsint TICKET_TYPE_EXPAND_READINESS_EVIDENCE_VERSION),
          (''results'', JArray (map result_json results)), (''categoryCount'', jsint (int (length results))),
          (''complete'', JBool True)]))"

section \<open>The command\<close>

text \<open>
  src/database/check-ticket-type-expand-readiness.ts: the evidence that is printed and the exit code. A
  statement that is not answered throws, so does closing the connection; a failed ROLLBACK is only printed.
\<close>

datatype ec_stmt = EC_CONNECT | EC_BEGIN | EC_STATEMENT_TIMEOUT | EC_LOCK_TIMEOUT | EC_CHECK | EC_COMMIT | EC_END

definition ec_ask :: "(ec_stmt \<Rightarrow> link) \<Rightarrow> ec_stmt \<Rightarrow> 'a result \<Rightarrow> 'a result" where
  "ec_ask net q r = (if net q = Delivered then r else Inl connection_lost)"

definition expand_check :: "(ec_stmt \<Rightarrow> link) \<Rightarrow> (string \<Rightarrow> string) \<Rightarrow> expand_db \<Rightarrow> (jsval \<times> bool) result" where
  "expand_check net md5 x =
     bind_result (ec_ask net EC_CONNECT (Inr ())) (\<lambda>_.
     bind_result (ec_ask net EC_BEGIN (Inr ())) (\<lambda>_.
     bind_result (ec_ask net EC_STATEMENT_TIMEOUT (Inr ())) (\<lambda>_.
     bind_result (ec_ask net EC_LOCK_TIMEOUT (Inr ())) (\<lambda>_.
     bind_result (ec_ask net EC_CHECK (checkTicketTypeExpandReadiness
       (map (\<lambda>(c, n). (JString c, JString n)) (TICKET_TYPE_EXPAND_READINESS_SQL md5 x)))) (\<lambda>results.
     bind_result (ec_ask net EC_COMMIT (Inr ())) (\<lambda>_.
     bind_result (hasTicketTypeExpandViolations results) (\<lambda>violated.
     bind_result (serializeTicketTypeExpandReadinessEvidence results) (\<lambda>evidence. Inr (evidence, violated)))))))))"

definition expand_check_main :: "(ec_stmt \<Rightarrow> link) \<Rightarrow> (string \<Rightarrow> string) \<Rightarrow> expand_db \<Rightarrow> jsval option \<times> nat" where
  "expand_check_main net md5 x =
     (case expand_check net md5 x of
        Inl e \<Rightarrow> (None, 1)
      | Inr (evidence, violated) \<Rightarrow> (Some evidence, if violated \<or> net EC_END \<noteq> Delivered then 1 else 0))"

section \<open>What the guard of the migration down keeps\<close>

text \<open>The unique keys, the foreign keys to the Events, and the two foreign keys to the Types.\<close>

definition expand_keys :: "expand_db \<Rightarrow> bool" where
  "expand_keys x \<longleftrightarrow>
     distinct (bd_events x) \<and> distinct (map ti_event (bd_stock x)) \<and> distinct (map type_id (ex_types x))
   \<and> distinct (map tti_type (ex_shadow x)) \<and> (\<forall>t \<in> set (ex_types x). type_event t \<in> set (bd_events x))
   \<and> (\<forall>r \<in> set (bd_stock x). ti_event r \<in> set (bd_events x)) \<and> (\<forall>p \<in> set (bd_ledger x). lr_event p \<in> set (bd_events x))"

definition types_linked :: "expand_db \<Rightarrow> bool" where
  "types_linked x \<longleftrightarrow>
     (\<forall>r \<in> set (ex_shadow x). \<exists>t \<in> set (ex_types x). type_id t = tti_type r \<and> type_event t = tti_event r)
   \<and> (\<forall>p \<in> set (bd_ledger x). type_known x p)"

definition expand_wf :: "expand_db \<Rightarrow> bool" where
  "expand_wf x \<longleftrightarrow> expand_keys x \<and> types_linked x"

lemmas expand_wf_unfold = expand_wf_def expand_keys_def types_linked_def

lemma one_default: "\<not> not_one_default x \<longleftrightarrow> (\<forall>e \<in> set (bd_events x). \<exists>t. types_of e x = [t] \<and> is_default t)"
proof -
  have "(length ts \<noteq> 1 \<or> length (filter is_default ts) \<noteq> 1) \<longleftrightarrow> \<not> (\<exists>t. ts = [t] \<and> is_default t)" for ts :: "type_row list"
  proof (cases ts)
    case (Cons t us)
    then show ?thesis by (cases us) simp_all
  qed simp
  then show ?thesis by (simp add: not_one_default_def list_ex_iff)
qed

lemma sole_type_of:
  "\<not> not_one_default x \<Longrightarrow> e \<in> set (bd_events x) \<Longrightarrow> (\<And>t. types_of e x = [t] \<Longrightarrow> is_default t \<Longrightarrow> thesis) \<Longrightarrow> thesis"
  unfolding one_default by blast

lemma sole_default:
  assumes "types_of e x = [t]" "is_default t"
  shows "default_in e (ex_types x) = Some (type_id t)" "\<And>u. u \<in> set (ex_types x) \<Longrightarrow> type_event u = e \<Longrightarrow> u = t"
    "t \<in> set (ex_types x)" "type_event t = e"
proof -
  have mem: "u \<in> set (ex_types x) \<and> type_event u = e \<longleftrightarrow> u = t" for u
    using arg_cong [OF assms(1), of set] by (auto simp: types_of_def)
  then show "u \<in> set (ex_types x) \<Longrightarrow> type_event u = e \<Longrightarrow> u = t" for u by blast
  from mem show "t \<in> set (ex_types x)" "type_event t = e" by blast+
  have "find (\<lambda>u. type_event u = e \<and> is_default u) (ex_types x) = Some t"
  proof (cases "find (\<lambda>u. type_event u = e \<and> is_default u) (ex_types x)")
    case None
    with mem assms(2) show ?thesis by (auto simp: find_None_iff)
  next
    case (Some u)
    then have "u \<in> set (ex_types x) \<and> type_event u = e" by (auto simp: find_Some_iff)
    with mem [of u] Some show ?thesis by simp
  qed
  then show "default_in e (ex_types x) = Some (type_id t)" by (simp add: default_in_def)
qed

lemma every_type_default:
  assumes "expand_wf x" "\<not> not_one_default x" "t \<in> set (ex_types x)"
  shows "is_default t"
proof -
  from assms have "type_event t \<in> set (bd_events x)" by (simp add: expand_wf_unfold)
  then obtain u where "types_of (type_event t) x = [u]" "is_default u" by (rule sole_type_of [OF assms(2)])
  with sole_default(2) [OF this assms(3) refl] show ?thesis by simp
qed

text \<open>With one Type per Event the FULL JOIN compares every stock row with the one shadow row of its Event.\<close>

lemma shadow_pairs:
  assumes "expand_wf x" "\<not> not_one_default x"
  shows "\<not> legacy_shadow_mismatch x \<longleftrightarrow>
      (\<forall>l \<in> set (bd_stock x). \<exists>r \<in> set (ex_shadow x). tti_event r = ti_event l)
    \<and> (\<forall>r \<in> set (ex_shadow x). \<exists>l \<in> set (bd_stock x). tti_event r = ti_event l)
    \<and> (\<forall>l \<in> set (bd_stock x). \<forall>r \<in> set (ex_shadow x). tti_event r = ti_event l \<longrightarrow> \<not> stock_differs l r)"
proof -
  note wf = assms(1) [unfolded expand_wf_unfold]
  have all: "set (expanded_stock x) = set (ex_shadow x)"
  proof (intro subset_antisym subsetI)
    fix r assume r: "r \<in> set (ex_shadow x)"
    with wf obtain t where t: "t \<in> set (ex_types x)" "type_id t = tti_type r" "type_event t = tti_event r" by blast
    with every_type_default [OF assms t(1)] r show "r \<in> set (expanded_stock x)" unfolding expanded_stock_iff by metis
  qed (simp add: expanded_stock_iff)
  have found: "row_by ti_event k (bd_stock x) = None \<longleftrightarrow> \<not> (\<exists>l \<in> set (bd_stock x). k = ti_event l)" for k
    by (auto simp: row_by_None_iff)
  show ?thesis by (simp add: legacy_shadow_mismatch_def list_ex_iff all found)
qed

lemma shadow_matches:
  assumes "expand_wf x" "\<not> not_one_default x"
  shows "\<not> legacy_shadow_mismatch x \<longleftrightarrow>
      (\<forall>l \<in> set (bd_stock x). \<exists>r \<in> set (ex_shadow x). tti_event r = ti_event l \<and> \<not> stock_differs l r)
    \<and> (\<forall>r \<in> set (ex_shadow x). \<exists>l \<in> set (bd_stock x). tti_event r = ti_event l \<and> \<not> stock_differs l r)" (is "_ \<longleftrightarrow> ?to \<and> ?from")
proof -
  note wf = assms(1) [unfolded expand_wf_unfold]
  have stock: "l = l'" if "l \<in> set (bd_stock x)" "l' \<in> set (bd_stock x)" "ti_event l = ti_event l'" for l l'
    using wf that by (auto simp: distinct_map inj_on_def)
  show ?thesis
  proof
    assume "\<not> legacy_shadow_mismatch x"
    then show "?to \<and> ?from" unfolding shadow_pairs [OF assms] by meson
  next
    assume both: "?to \<and> ?from"
    have "\<not> stock_differs l r" if l: "l \<in> set (bd_stock x)" and r: "r \<in> set (ex_shadow x)" "tti_event r = ti_event l" for l r
    proof -
      from both r(1) obtain m where m: "m \<in> set (bd_stock x)" "tti_event r = ti_event m" "\<not> stock_differs m r" by blast
      with stock [OF m(1) l] r(2) show ?thesis by simp
    qed
    with both show "\<not> legacy_shadow_mismatch x" unfolding shadow_pairs [OF assms] by meson
  qed
qed

lemma stock_shadow_eq: "tti_event r = ti_event l \<Longrightarrow> \<not> stock_differs l r \<Longrightarrow> r = stock_shadow (tti_type r) l"
  by (cases r) (simp add: stock_differs_def stock_shadow_def)

lemma retype: "add_type (lr_type p) (drop_type p) = p"
  by (cases p) (simp add: add_type_def drop_type_def)

text \<open>The rollback is refused wherever it would lose something: when the migration down goes through, every
  Event has one Type, a default one, every stock row of the new layout is the copy of the Event's row
  under that Type, and every purchase names that Type, so that the dropped tables and the dropped
  column held nothing but copies, the ids of the Types and their names.\<close>

theorem rollback_drops_copies_only:
  assumes "expand_wf x" "expand_down free x = Inr l"
  shows "bd_events l = bd_events x \<and> bd_stock l = bd_stock x
    \<and> (\<forall>e \<in> set (bd_events x). \<exists>t. types_of e x = [t] \<and> is_default t)
    \<and> bd_ledger x = map (\<lambda>p. add_type (default_in (lr_event p) (ex_types x)) p) (bd_ledger l)
    \<and> set (ex_shadow x) = (\<lambda>r. stock_shadow (the (default_in (ti_event r) (ex_types x))) r) ` set (bd_stock l)"
proof -
  from assms(2) have guard: "\<not> not_one_default x" "\<not> legacy_shadow_mismatch x"
    and links: "\<forall>p \<in> set (bd_ledger x). linked_to_default x p"
    and l: "bd_events l = bd_events x" "bd_stock l = bd_stock x" "bd_ledger l = map drop_type (bd_ledger x)"
    by (auto simp: expand_down_def bind_result_Inr assert_safe_rollback_def list_ex_iff split: if_splits)
  note wf = assms(1) [unfolded expand_wf_unfold]
  have sole: "\<exists>t. types_of e x = [t] \<and> is_default t" if "e \<in> set (bd_events x)" for e using guard(1) that by (simp add: one_default)
  have "default_in (lr_event p) (ex_types x) = lr_type p" if p: "p \<in> set (bd_ledger x)" for p
  proof -
    from p wf sole obtain t where t: "types_of (lr_event p) x = [t]" "is_default t" by blast
    from links p obtain u where "u \<in> set (ex_types x)" "type_event u = lr_event p" "Some (type_id u) = lr_type p"
      by (auto simp: linked_to_default_def list_ex_iff)
    with sole_default(1,2) [OF t] show ?thesis by metis
  qed
  then have ledger: "map (\<lambda>p. add_type (default_in (lr_event p) (ex_types x)) p) (bd_ledger l) = bd_ledger x"
    by (auto simp: l drop_type_def [THEN arg_cong [of _ _ lr_event]] retype intro!: map_idI)
  have copy: "stock_shadow (the (default_in (ti_event s) (ex_types x))) s = r"
    if "r \<in> set (ex_shadow x)" "s \<in> set (bd_stock x)" "tti_event r = ti_event s" "\<not> stock_differs s r" for r s
  proof -
    from that(2) wf sole obtain t where t: "types_of (ti_event s) x = [t]" "is_default t" by blast
    from that(1) wf obtain u where "u \<in> set (ex_types x)" "type_id u = tti_type r" "type_event u = tti_event r" by blast
    with sole_default(1,2) [OF t] that(3) have "default_in (ti_event s) (ex_types x) = Some (tti_type r)" by metis
    with stock_shadow_eq [OF that(3,4)] show ?thesis by simp
  qed
  have shadows: "set (ex_shadow x) = (\<lambda>r. stock_shadow (the (default_in (ti_event r) (ex_types x))) r) ` set (bd_stock x)"
    (is "_ = ?copy ` _")
  proof (intro subset_antisym subsetI)
    note matches = guard(2) [unfolded shadow_matches [OF assms(1) guard(1)]]
    show "r \<in> ?copy ` set (bd_stock x)" if r: "r \<in> set (ex_shadow x)" for r
    proof -
      from matches r obtain s where "s \<in> set (bd_stock x)" "tti_event r = ti_event s" "\<not> stock_differs s r" by blast
      with copy [OF r this] show ?thesis by blast
    qed
    show "r \<in> set (ex_shadow x)" if "r \<in> ?copy ` set (bd_stock x)" for r
    proof -
      from that obtain s where s: "s \<in> set (bd_stock x)" "r = ?copy s" by blast
      with matches obtain u where "u \<in> set (ex_shadow x)" "tti_event u = ti_event s" "\<not> stock_differs s u" by blast
      with copy [OF this(1) s(1) this(2,3)] s(2) show ?thesis by simp
    qed
  qed
  show ?thesis unfolding l(1,2) by (intro conjI refl ballI sole ledger [symmetric] shadows)
qed


section \<open>Reading the counts back\<close>

lemma distinct_readiness: "distinct TICKET_TYPE_EXPAND_READINESS_CATEGORIES"
  by code_simp

lemma readiness_lengths [simp]: "length TICKET_TYPE_EXPAND_READINESS_CATEGORIES = 16" "length (readiness_counts md5 x) = 16"
  by (simp_all add: TICKET_TYPE_EXPAND_READINESS_CATEGORIES_def readiness_counts_def)

lemma sql_categories_expand: "map fst (TICKET_TYPE_EXPAND_READINESS_SQL md5 x) = TICKET_TYPE_EXPAND_READINESS_CATEGORIES"
  by (simp add: TICKET_TYPE_EXPAND_READINESS_SQL_def)

lemma sql_zero:
  "list_all (\<lambda>r. snd r = ''0'') (TICKET_TYPE_EXPAND_READINESS_SQL md5 x) \<longleftrightarrow> list_all (\<lambda>n. n = 0) (readiness_counts md5 x)"
proof -
  have "list_all (\<lambda>r. snd r = ''0'') (zip ks (map decimal ns)) \<longleftrightarrow> list_all (\<lambda>n. n = 0) ns"
    if "length ks = length ns" for ks :: "string list" and ns
    using that by (induction ks ns rule: list_induct2) (simp_all add: decimal_zero_iff)
  then show ?thesis by (simp add: TICKET_TYPE_EXPAND_READINESS_SQL_def)
qed

lemma collect_readiness_texts:
  "collect_readiness (map (\<lambda>(c, n). (JString c, JString n)) rows) acc = Inr out
     \<longleftrightarrow> collect_rows TICKET_TYPE_EXPAND_READINESS_CATEGORIES rows acc = Inr out"
  by (induction rows arbitrary: acc) (auto cong: if_cong split: if_splits)

lemma assert_readiness_run:
  assumes "distinct (map fst rs)" "\<forall>r \<in> set rs. fst r \<in> set TICKET_TYPE_EXPAND_READINESS_CATEGORIES \<and> fst r \<notin> set seen
      \<and> is_count (jsint (snd r))"
  shows "assert_readiness (map raw rs) seen = Inr (rev (map fst rs) @ seen)"
  using assms
proof (induction rs arbitrary: seen)
  case (Cons r rs)
  have "assert_readiness (map raw rs) (fst r # seen) = Inr (rev (map fst rs) @ fst r # seen)"
  proof (rule Cons.IH)
    show "distinct (map fst rs)" using Cons.prems(1) by simp
    show "\<forall>q \<in> set rs. fst q \<in> set TICKET_TYPE_EXPAND_READINESS_CATEGORIES \<and> fst q \<notin> set (fst r # seen) \<and> is_count (jsint (snd q))"
    proof
      fix q assume q: "q \<in> set rs"
      then have "fst q \<noteq> fst r" using Cons.prems(1) by (metis distinct.simps(2) image_eqI list.simps(9) set_map)
      with q Cons.prems(2) show "fst q \<in> set TICKET_TYPE_EXPAND_READINESS_CATEGORIES \<and> fst q \<notin> set (fst r # seen)
        \<and> is_count (jsint (snd q))" by simp
    qed
  qed
  moreover have "raw r = (JString (fst r), jsint (snd r))" by (simp add: raw_def)
  ultimately show ?case using Cons.prems(2) by simp
qed simp

lemma results_of_all:
  assumes "\<forall>c \<in> set TICKET_TYPE_EXPAND_READINESS_CATEGORIES. map_of acc c \<noteq> None"
  shows "results_of acc = map (\<lambda>c. (c, the (map_of acc c))) TICKET_TYPE_EXPAND_READINESS_CATEGORIES"
proof -
  have "concat (map (\<lambda>c. case map_of acc c of None \<Rightarrow> [] | Some n \<Rightarrow> [(c, n)]) cs) = map (\<lambda>c. (c, the (map_of acc c))) cs"
    if "\<forall>c \<in> set cs. map_of acc c \<noteq> None" for cs
    using that by (induction cs) auto
  with assms show ?thesis unfolding results_of_def by blast
qed

text \<open>An answer that is accepted is one that the collection of the cutover check accepts.\<close>

lemma check_collects:
  assumes "checkTicketTypeExpandReadiness (map (\<lambda>(c, n). (JString c, JString n)) rows) = Inr results"
  shows "collectCategoryCounts rows TICKET_TYPE_EXPAND_READINESS_CATEGORIES = Inr results"
proof -
  obtain acc where acc: "collect_rows TICKET_TYPE_EXPAND_READINESS_CATEGORIES rows [] = Inr acc" "results = results_of acc"
    and complete: "assertTicketTypeExpandReadinessComplete (map raw (results_of acc)) = Inr ()"
    using assms by (auto simp: checkTicketTypeExpandReadiness_def bind_result_Inr collect_readiness_texts)
  have seen: "assert_readiness rs seen = Inr out \<Longrightarrow> c \<in> set out \<Longrightarrow> c \<in> set seen \<or> JString c \<in> fst ` set rs" for rs seen out c
    by (induction rs seen rule: assert_readiness.induct) (auto split: jsval.splits if_splits)
  have "map_of acc c \<noteq> None" if c: "c \<in> set TICKET_TYPE_EXPAND_READINESS_CATEGORIES" for c
  proof -
    from complete obtain out where out: "assert_readiness (map raw (results_of acc)) [] = Inr out"
      and none: "filter (\<lambda>c. c \<notin> set out) TICKET_TYPE_EXPAND_READINESS_CATEGORIES = []"
      by (auto simp: assertTicketTypeExpandReadinessComplete_def bind_result_Inr split: if_splits)
    from none c have "c \<in> set out" by (auto simp: filter_empty_conv)
    from seen [OF out this] obtain n where "(c, n) \<in> set (results_of acc)" by (auto simp: raw_def)
    then show ?thesis by (auto simp: results_of_def dest: sym split: option.splits)
  qed
  then have all: "\<forall>c \<in> set TICKET_TYPE_EXPAND_READINESS_CATEGORIES. map_of acc c \<noteq> None" by blast
  then have "filter (\<lambda>c. map_of acc c = None) TICKET_TYPE_EXPAND_READINESS_CATEGORIES = []" by (auto simp: filter_empty_conv)
  then show ?thesis by (simp add: collectCategoryCounts_def acc results_of_all [OF all])
qed

lemma check_zero:
  assumes "list_all (\<lambda>n. n = 0) (readiness_counts md5 x)"
  shows "checkTicketTypeExpandReadiness (map (\<lambda>(c, n). (JString c, JString n)) (TICKET_TYPE_EXPAND_READINESS_SQL md5 x))
      = Inr (map (\<lambda>c. (c, 0)) TICKET_TYPE_EXPAND_READINESS_CATEGORIES)"
    "assertTicketTypeExpandReadinessComplete (map raw (map (\<lambda>c. (c, 0)) TICKET_TYPE_EXPAND_READINESS_CATEGORIES)) = Inr ()"
proof -
  let ?zero = "map (\<lambda>c. (c, 0::int)) TICKET_TYPE_EXPAND_READINESS_CATEGORIES"
  have "assert_readiness (map raw ?zero) [] = Inr (rev (map fst ?zero) @ [])"
    by (rule assert_readiness_run) (auto simp: comp_def distinct_readiness MAX_SAFE_INTEGER_def)
  then show complete: "assertTicketTypeExpandReadinessComplete (map raw ?zero) = Inr ()"
    by (simp add: assertTicketTypeExpandReadinessComplete_def comp_def filter_empty_conv)
  obtain acc where acc: "collect_rows TICKET_TYPE_EXPAND_READINESS_CATEGORIES (TICKET_TYPE_EXPAND_READINESS_SQL md5 x) [] = Inr acc"
    and "filter (\<lambda>c. map_of acc c = None) TICKET_TYPE_EXPAND_READINESS_CATEGORIES = []"
    and zero: "map (\<lambda>c. (c, the (map_of acc c))) TICKET_TYPE_EXPAND_READINESS_CATEGORIES = ?zero"
    using collect_zero [OF sql_categories_expand distinct_readiness, of md5 x] assms
    by (auto simp: sql_zero collectCategoryCounts_def bind_result_Inr split: if_splits)
  then have "\<forall>c \<in> set TICKET_TYPE_EXPAND_READINESS_CATEGORIES. map_of acc c \<noteq> None" by (auto simp: filter_empty_conv)
  from results_of_all [OF this] zero have "results_of acc = ?zero" by simp
  with complete show "checkTicketTypeExpandReadiness (map (\<lambda>(c, n). (JString c, JString n)) (TICKET_TYPE_EXPAND_READINESS_SQL md5 x)) = Inr ?zero"
    using acc by (simp add: checkTicketTypeExpandReadiness_def collect_readiness_texts [THEN iffD2])
qed

lemma exit_zero:
  "snd (expand_check_main net md5 x) = 0 \<longleftrightarrow> (\<forall>q. net q = Delivered) \<and> list_all (\<lambda>n. n = 0) (readiness_counts md5 x)"
    (is "?l \<longleftrightarrow> ?r")
proof
  assume ?l
  then obtain evidence where run: "expand_check net md5 x = Inr (evidence, False)" and last: "net EC_END = Delivered"
    by (auto simp: expand_check_main_def split: sum.splits if_splits)
  have all: "\<forall>q. net q = Delivered"
  proof
    fix q show "net q = Delivered" using run last by (cases q) (auto simp: expand_check_def bind_result_Inr ec_ask_def split: if_splits)
  qed
  with run obtain results where
    check: "checkTicketTypeExpandReadiness (map (\<lambda>(c, n). (JString c, JString n)) (TICKET_TYPE_EXPAND_READINESS_SQL md5 x)) = Inr results"
    and none: "\<not> list_ex (\<lambda>r. snd r > 0) results"
    by (auto simp: expand_check_def bind_result_Inr ec_ask_def hasTicketTypeExpandViolations_def)
  note collected = check_collects [OF check]
  have decimals: "\<forall>r \<in> set (TICKET_TYPE_EXPAND_READINESS_SQL md5 x). \<exists>n. snd r = decimal n"
    by (auto simp: TICKET_TYPE_EXPAND_READINESS_SQL_def dest!: set_zip_rightD)
  obtain acc where "collect_rows TICKET_TYPE_EXPAND_READINESS_CATEGORIES (TICKET_TYPE_EXPAND_READINESS_SQL md5 x) [] = Inr acc"
    and results: "results = map (\<lambda>c. (c, the (map_of acc c))) TICKET_TYPE_EXPAND_READINESS_CATEGORIES"
    and present: "\<forall>c \<in> set TICKET_TYPE_EXPAND_READINESS_CATEGORIES. map_of acc c \<noteq> None"
    using collected by (auto simp: collectCategoryCounts_def bind_result_Inr filter_empty_conv split: if_splits)
  from collect_rows_Inr [OF this(1)] have "\<forall>(c, n) \<in> set acc. 0 \<le> n" by auto
  then have "0 \<le> the (map_of acc c)" if "map_of acc c \<noteq> None" for c using that map_of_SomeD [of acc c] by fastforce
  with present have "\<forall>r \<in> set results. 0 \<le> snd r" by (simp add: results)
  with none have "clean results" unfolding clean_def list_ex_iff by (meson antisym not_le)
  from collect_clean [OF collected this sql_categories_expand distinct_readiness decimals] all show ?r by (simp add: sql_zero)
next
  assume ?r
  with check_zero [of md5 x] show ?l
    by (simp add: expand_check_main_def expand_check_def ec_ask_def hasTicketTypeExpandViolations_def
        serializeTicketTypeExpandReadinessEvidence_def list_ex_iff)
qed

section \<open>When every count is zero\<close>

lemma default_left_ok:
  "(\<forall>j \<in> set (default_shadow_left x l). j \<noteq> None) \<longleftrightarrow>
     (\<exists>t \<in> set (ex_types x). type_event t = ti_event l \<and> is_default t)
   \<and> (\<forall>t \<in> set (ex_types x). type_event t = ti_event l \<and> is_default t \<longrightarrow>
        (\<exists>r \<in> set (ex_shadow x). tti_event r = ti_event l \<and> tti_type r = type_id t))"
proof -
  let ?on = "\<lambda>t. type_event t = ti_event l \<and> is_default t"
  let ?row = "\<lambda>d. \<forall>j \<in> set (case d of None \<Rightarrow> [None]
      | Some t \<Rightarrow> left_join (\<lambda>r. tti_event r = ti_event l \<and> tti_type r = type_id t) (ex_shadow x)). j \<noteq> None"
  have row: "?row (Some t) \<longleftrightarrow> (\<exists>r \<in> set (ex_shadow x). tti_event r = ti_event l \<and> tti_type r = type_id t)" for t
    by (subst option.case) (subst left_join_none, auto)
  have "(\<forall>j \<in> set (default_shadow_left x l). j \<noteq> None) \<longleftrightarrow> (\<forall>d \<in> set (left_join ?on (ex_types x)). ?row d)"
    by (auto simp: default_shadow_left_def)
  also have "\<dots> \<longleftrightarrow> (\<exists>t \<in> set (ex_types x). ?on t) \<and> (\<forall>t \<in> set (ex_types x). ?on t \<longrightarrow> ?row (Some t))"
    by (rule left_join_none) simp
  finally show ?thesis unfolding row .
qed

lemma pair_member:
  "(l, r) \<in> set (default_shadow_pairs x) \<longleftrightarrow> l \<in> set (bd_stock x) \<and> r \<in> set (ex_shadow x) \<and> tti_event r = ti_event l
     \<and> (\<exists>t \<in> set (ex_types x). type_event t = ti_event l \<and> is_default t \<and> tti_type r = type_id t)"
  by (auto simp: default_shadow_pairs_def)

text \<open>The data categories, one conjunct per category.\<close>

definition data_clean :: "expand_db \<Rightarrow> bool" where
  "data_clean x \<longleftrightarrow>
     \<not> not_one_default x
   \<and> (\<forall>e \<in> set (bd_events x). \<exists>l \<in> set (bd_stock x). ti_event l = e)
   \<and> (\<forall>l \<in> set (bd_stock x). (\<exists>t \<in> set (ex_types x). type_event t = ti_event l \<and> is_default t)
        \<and> (\<forall>t \<in> set (ex_types x). type_event t = ti_event l \<and> is_default t \<longrightarrow>
            (\<exists>r \<in> set (ex_shadow x). tti_event r = ti_event l \<and> tti_type r = type_id t)))
   \<and> (\<forall>(l, r) \<in> set (default_shadow_pairs x). \<not> stock_differs l r)
   \<and> (\<forall>r \<in> set (ex_shadow x). \<forall>t \<in> set (ex_types x). type_event t = tti_event r \<and> type_id t = tti_type r \<longrightarrow> is_default t)
   \<and> (\<forall>p \<in> set (bd_ledger x). lr_type p \<noteq> None \<and> (\<exists>t \<in> set (ex_types x). Some (type_id t) = lr_type p)
        \<and> (\<forall>t \<in> set (ex_types x). Some (type_id t) = lr_type p \<longrightarrow> type_event t = lr_event p))
   \<and> (\<forall>r \<in> set (ex_shadow x). \<exists>t \<in> set (ex_types x). type_event t = tti_event r \<and> type_id t = tti_type r)"

lemma purchase_left_ok:
  "(\<forall>j \<in> set (left_join (\<lambda>t. Some (type_id t) = lr_type p) ts). \<not> purchase_mismatch p j) \<and> lr_type p \<noteq> None
     \<longleftrightarrow> lr_type p \<noteq> None \<and> (\<exists>t \<in> set ts. Some (type_id t) = lr_type p)
        \<and> (\<forall>t \<in> set ts. Some (type_id t) = lr_type p \<longrightarrow> type_event t = lr_event p)"
  by (auto simp: left_join_all purchase_mismatch_def)

lemma not_null_left:
  "(\<forall>j \<in> set (left_join on rows). \<exists>y. j = Some y) \<longleftrightarrow> (\<exists>r \<in> set rows. on r)"
  by (auto simp: left_join_all)

lemma counts_clean:
  "list_all (\<lambda>n. n = 0) (readiness_counts md5 x) \<longleftrightarrow> data_clean x \<and> expand_catalog_intact md5 (bd_catalog x)"
proof -
  have one: "count_rows (\<lambda>e. length (filter is_default (types_of e x)) \<noteq> 1) (bd_events x) = 0
      \<and> count_rows (\<lambda>e. length (types_of e x) \<noteq> 1) (bd_events x) = 0 \<longleftrightarrow> \<not> not_one_default x"
    by (auto simp: not_one_default_def list_ex_iff)
  have stock: "sum_list (map (\<lambda>e. count_rows (\<lambda>j. j = None) (left_join (\<lambda>r. ti_event r = e) (bd_stock x))) (bd_events x)) = 0
      \<longleftrightarrow> (\<forall>e \<in> set (bd_events x). \<exists>l \<in> set (bd_stock x). ti_event l = e)"
    by (simp add: not_null_left)
  have shadow: "sum_list (map (\<lambda>l. count_rows (\<lambda>j. j = None) (default_shadow_left x l)) (bd_stock x)) = 0
      \<longleftrightarrow> (\<forall>l \<in> set (bd_stock x). (\<exists>t \<in> set (ex_types x). type_event t = ti_event l \<and> is_default t)
        \<and> (\<forall>t \<in> set (ex_types x). type_event t = ti_event l \<and> is_default t \<longrightarrow>
            (\<exists>r \<in> set (ex_shadow x). tti_event r = ti_event l \<and> tti_type r = type_id t)))"
    by (simp add: default_left_ok [symmetric])
  have pairs: "count_rows (\<lambda>(l, r). tti_remaining r \<noteq> ti_remaining l) (default_shadow_pairs x) = 0
      \<and> count_rows (\<lambda>(l, r). tti_total r \<noteq> ti_total l) (default_shadow_pairs x) = 0
      \<and> count_rows (\<lambda>(l, r). tti_updated_at r \<noteq> ti_updated_at l) (default_shadow_pairs x) = 0
      \<and> count_rows (\<lambda>(l, r). tti_version r \<noteq> ti_version l) (default_shadow_pairs x) = 0
      \<longleftrightarrow> (\<forall>(l, r) \<in> set (default_shadow_pairs x). \<not> stock_differs l r)"
    by (auto simp: stock_differs_def)
  have foreign: "sum_list (map (\<lambda>r. count_rows (\<lambda>t. type_event t = tti_event r \<and> type_id t = tti_type r \<and> \<not> is_default t) (ex_types x)) (ex_shadow x)) = 0
      \<longleftrightarrow> (\<forall>r \<in> set (ex_shadow x). \<forall>t \<in> set (ex_types x). type_event t = tti_event r \<and> type_id t = tti_type r \<longrightarrow> is_default t)"
    by auto
  have ledger: "sum_list (map (\<lambda>p. count_rows (purchase_mismatch p) (left_join (\<lambda>t. Some (type_id t) = lr_type p) (ex_types x))) (bd_ledger x)) = 0
      \<and> count_rows (\<lambda>p. lr_type p = None) (bd_ledger x) = 0
      \<longleftrightarrow> (\<forall>p \<in> set (bd_ledger x). lr_type p \<noteq> None \<and> (\<exists>t \<in> set (ex_types x). Some (type_id t) = lr_type p)
        \<and> (\<forall>t \<in> set (ex_types x). Some (type_id t) = lr_type p \<longrightarrow> type_event t = lr_event p))"
    unfolding purchase_left_ok [symmetric] by auto
  have orphan: "sum_list (map (\<lambda>r. count_rows (\<lambda>j. j = None)
        (left_join (\<lambda>t. type_event t = tti_event r \<and> type_id t = tti_type r) (ex_types x))) (ex_shadow x)) = 0
      \<longleftrightarrow> (\<forall>r \<in> set (ex_shadow x). \<exists>t \<in> set (ex_types x). type_event t = tti_event r \<and> type_id t = tti_type r)"
    by (simp add: not_null_left)
  show ?thesis
    unfolding readiness_counts_def data_clean_def expand_catalog_intact_def list.pred_inject
      one [symmetric] stock [symmetric] shadow [symmetric] pairs [symmetric] foreign [symmetric] ledger [symmetric] orphan [symmetric]
      required_bridge_trigger_missing_or_disabled_def trigger_violations_zero [symmetric] foreign_keys_zero [symmetric]
      columns_zero [symmetric] indexes_zero [symmetric]
    using list.pred_inject(1) [of "\<lambda>n. n = (0::nat)"] by blast
qed

text \<open>What the data categories ask for is what the rollback needs, and a stock row per Event.\<close>

lemma data_clean_iff:
  assumes "expand_keys x"
  shows "data_clean x \<longleftrightarrow> types_linked x \<and> assert_safe_rollback x = Inr ()
    \<and> (\<forall>e \<in> set (bd_events x). \<exists>l \<in> set (bd_stock x). ti_event l = e)" (is "?l \<longleftrightarrow> ?r")
proof
  assume ?l
  note clean = this [unfolded data_clean_def]
  then have one: "\<not> not_one_default x" by simp
  have linked: "types_linked x"
    unfolding types_linked_def type_known_def list_ex_iff using clean by metis
  with assms have wf: "expand_wf x" by (simp add: expand_wf_def)
  have default: "is_default t" if "t \<in> set (ex_types x)" for t by (rule every_type_default [OF wf one that])
  have events: "tti_event r \<in> set (bd_events x)" if "r \<in> set (ex_shadow x)" for r
    using that wf unfolding expand_wf_unfold by metis
  have "\<not> stock_differs l r" if l: "l \<in> set (bd_stock x)" "r \<in> set (ex_shadow x)" "tti_event r = ti_event l" for l r
  proof -
    from clean l(2) obtain t where t: "t \<in> set (ex_types x)" "type_event t = tti_event r" "type_id t = tti_type r" by blast
    with l default [OF t(1)] have "(l, r) \<in> set (default_shadow_pairs x)" unfolding pair_member by auto
    with clean show ?thesis by blast
  qed
  moreover have "\<exists>r \<in> set (ex_shadow x). tti_event r = ti_event l" if "l \<in> set (bd_stock x)" for l using clean that by blast
  moreover have "\<exists>l \<in> set (bd_stock x). tti_event r = ti_event l" if "r \<in> set (ex_shadow x)" for r
    using clean events [OF that] by metis
  ultimately have "\<not> legacy_shadow_mismatch x" unfolding shadow_pairs [OF wf one] by blast
  moreover have "linked_to_default x p" if "p \<in> set (bd_ledger x)" for p
    using clean that default unfolding linked_to_default_def list_ex_iff by metis
  ultimately have "assert_safe_rollback x = Inr ()"
    using one default clean by (auto simp: assert_safe_rollback_def list_ex_iff)
  with linked clean show ?r by blast
next
  assume r: ?r
  then have wf: "expand_wf x" using assms by (simp add: expand_wf_def)
  from r have one: "\<not> not_one_default x" and match: "\<not> legacy_shadow_mismatch x" and default: "\<forall>t \<in> set (ex_types x). is_default t"
    and links: "\<forall>p \<in> set (bd_ledger x). lr_type p \<noteq> None \<and> linked_to_default x p"
    by (auto simp: assert_safe_rollback_def list_ex_iff split: if_splits)
  note match = match [unfolded shadow_pairs [OF wf one]]
  have ids: "t = u" if "t \<in> set (ex_types x)" "u \<in> set (ex_types x)" "type_id t = type_id u" for t u
    using assms that by (auto simp: expand_keys_def distinct_map inj_on_def)
  have sole: "\<exists>t \<in> set (ex_types x). type_event t = ti_event l \<and> is_default t" if "l \<in> set (bd_stock x)" for l
  proof -
    from that assms have "ti_event l \<in> set (bd_events x)" by (simp add: expand_keys_def)
    then obtain t where "types_of (ti_event l) x = [t]" "is_default t" by (rule sole_type_of [OF one])
    from sole_default(3,4) [OF this] this(2) show ?thesis by blast
  qed
  have copy: "\<exists>r \<in> set (ex_shadow x). tti_event r = ti_event l \<and> tti_type r = type_id t"
    if l: "l \<in> set (bd_stock x)" "t \<in> set (ex_types x)" "type_event t = ti_event l" for l t
  proof -
    from match l(1) obtain s where s: "s \<in> set (ex_shadow x)" "tti_event s = ti_event l" by blast
    with wf obtain u where u: "u \<in> set (ex_types x)" "type_id u = tti_type s" "type_event u = tti_event s" unfolding expand_wf_unfold by blast
    from l(1) assms have "ti_event l \<in> set (bd_events x)" by (simp add: expand_keys_def)
    then obtain v where v: "types_of (ti_event l) x = [v]" "is_default v" by (rule sole_type_of [OF one])
    from sole_default(2) [OF v l(2,3)] sole_default(2) [OF v u(1)] u(3) s(2) have "t = u" by simp
    with s u show ?thesis by auto
  qed
  have purchases: "(\<exists>t \<in> set (ex_types x). Some (type_id t) = lr_type p)
      \<and> (\<forall>t \<in> set (ex_types x). Some (type_id t) = lr_type p \<longrightarrow> type_event t = lr_event p)" if "p \<in> set (bd_ledger x)" for p
  proof -
    from links that obtain u where u: "u \<in> set (ex_types x)" "type_event u = lr_event p" "Some (type_id u) = lr_type p"
      by (auto simp: linked_to_default_def list_ex_iff)
    then show ?thesis using ids by (metis option.inject)
  qed
  have pairs: "\<forall>(l, r) \<in> set (default_shadow_pairs x). \<not> stock_differs l r"
    using match by (auto simp: pair_member)
  have orphan: "\<exists>t \<in> set (ex_types x). type_event t = tti_event r \<and> type_id t = tti_type r" if "r \<in> set (ex_shadow x)" for r
    using that wf unfolding expand_wf_unfold by metis
  show ?l unfolding data_clean_def
    using one r sole copy pairs default links purchases orphan by simp
qed

lemma gate_clean:
  "snd (expand_check_main net md5 x) = 0 \<longleftrightarrow>
     (\<forall>q. net q = Delivered) \<and> data_clean x \<and> expand_catalog_intact md5 (bd_catalog x)"
  unfolding exit_zero counts_clean by blast

text \<open>C39: the gate before the cutover is exact, and it keeps the way back open: the command exits with 0
  exactly when all its statements are answered, every purchase and every Type stock row names a Type
  of its Event, the migration could be rolled back without loss, every Event has its stock row, and
  the triggers, foreign keys, NOT NULL columns and unique indexes of the schema are intact.\<close>

theorem gate_opens_iff_ready:
  assumes "expand_keys x"
  shows "snd (expand_check_main net md5 x) = 0 \<longleftrightarrow>
      (\<forall>q. net q = Delivered) \<and> types_linked x \<and> assert_safe_rollback x = Inr ()
    \<and> (\<forall>e \<in> set (bd_events x). \<exists>l \<in> set (bd_stock x). ti_event l = e) \<and> expand_catalog_intact md5 (bd_catalog x)"
  unfolding gate_clean data_clean_iff [OF assms] by blast

section \<open>The migrated database\<close>

lemma expanded_ready:
  assumes "inj (draw env)" "legacy_wf l"
  shows "expand_keys (expanded env c l)" "types_linked (expanded env c l)" "assert_safe_rollback (expanded env c l) = Inr ()"
proof -
  note wf = assms(2) [unfolded legacy_wf_def]
  have d: "draw env e = draw env f \<longleftrightarrow> e = f" for e f using assms(1) by (simp add: inj_eq)
  show "expand_keys (expanded env c l)"
    using wf by (auto simp: expand_keys_def distinct_map inj_on_def d)
  show "types_linked (expanded env c l)"
    using wf by (auto simp: types_linked_def type_known_def list_ex_iff)
  show "assert_safe_rollback (expanded env c l) = Inr ()"
    using expanded_passes [OF assms(2), of env c] by (simp add: assert_safe_rollback_def list_ex_iff list_all_iff)
qed

lemma expanded_gate:
  assumes "inj (draw env)" "legacy_wf l" "stocked l" "expand_catalog_intact md5 c"
  shows "snd (expand_check_main (\<lambda>_. Delivered) md5 (expanded env c l)) = 0"
  using expanded_ready [OF assms(1,2), of c] assms(3,4)
  unfolding gate_clean data_clean_iff [OF expanded_ready(1) [OF assms(1,2)]] by (auto simp: stocked_def)

text \<open>The migration leads to the cutover: after it, and after any statements of old binaries that leave
  every Event with its stock row, the check finds nothing and its command exits with 0.\<close>

theorem migrated_database_opens_gate:
  assumes "inj (draw env)" "legacy_wf l" "bd_catalog l = baseline_catalog" "list_all write_ok ws" "on_record CANONICAL_BODIES md5"
    and "expand_up env free l = Inr x" "stocked (fold (attempt legacy_apply) ws l)"
  shows "snd (expand_check_main (\<lambda>_. Delivered) md5 (fold (attempt (bridge_apply env)) ws x)) = 0"
proof -
  have "x = expanded env expand_catalog l" using up_succeeds_iff [OF assms(1-3)] assms(6) by simp
  then show ?thesis
    using expanded_gate [OF assms(1) legacy_wf_run [OF assms(2)] assms(7) expand_catalog_ok [OF assms(5)]]
      bridged_history [OF assms(1,2,4)] by simp
qed

lemma sample_expanded_keys: "expand_keys (expanded sample_expand_env expand_catalog sample_legacy)"
  by (rule expanded_ready(1) [OF sample_ok(1,2)])

theorem gate_opens_iff_ready_witness:
  "snd (expand_check_main (\<lambda>_. Delivered) (md5_of CANONICAL_BODIES) (expanded sample_expand_env expand_catalog sample_legacy)) = 0"
proof -
  have "on_record CANONICAL_BODIES (md5_of CANONICAL_BODIES)" by (simp add: on_record_def md5_of_def CANONICAL_BODIES_def)
  then show ?thesis
    using gate_opens_iff_ready [OF sample_expanded_keys, of "\<lambda>_. Delivered" "md5_of CANONICAL_BODIES"]
      expanded_ready(2,3) [OF sample_ok(1,2), of expand_catalog] expand_catalog_ok sample_ok(5)
    by (auto simp: stocked_def)
qed

end
