(* ===== verification/CompatibilityMigration.thy ===== *)
theory CompatibilityMigration
  imports ExpandReadiness
begin

text \<open>
  The migration that adds the compatibility writer,
  src/database/migrations/1785542400000-add-ticket-type-compatibility-writer.ts: its statements on the catalog, what up
  and down assert, and the database before and after. What its triggers do to a statement is modelled in
  PgInventory.
\<close>

section \<open>The statements\<close>

definition CREATE_CONTROL_STATE_DDL :: "ddl list" where
  "CREATE_CONTROL_STATE_DDL =
     map (\<lambda>n. AddColumn ''inventory_writer_control'' n True) [''singleton'', ''writer_mode'', ''updated_at'']
   @ [CreateIndex ''inventory_writer_control'' ''inventory_writer_control_pkey'' [''singleton''] None True True]"

definition REPLACE_IDEMPOTENCY_INDEXES_DDL :: "ddl list" where
  "REPLACE_IDEMPOTENCY_INDEXES_DDL =
     [DropIndex ''purchases_request_id_uq'', DropIndex ''purchases_rejected_request_id_uq'',
      CreateIndex ''purchases'' ''purchases_request_id_uq'' [''buyer_id'', ''event_id'', ''request_id'']
        (Some ''request_id IS NOT NULL'') False True]"

definition REPLACE_FORWARD_BRIDGE_DDL :: "ddl list" where
  "REPLACE_FORWARD_BRIDGE_DDL = [ReplaceFunction ''ticket_type_expand_sync_inventory'' ''sync_inventory_successor'']"

definition RESTORE_FORWARD_BRIDGE_DDL :: "ddl list" where
  "RESTORE_FORWARD_BRIDGE_DDL = [ReplaceFunction ''ticket_type_expand_sync_inventory'' ''sync_inventory'']"

definition CREATE_MODE_AWARE_GUARDS_DDL :: "ddl list" where
  "CREATE_MODE_AWARE_GUARDS_DDL =
     [CreateFunction ''inventory_compatibility_fence_inventory_statement'' ''fence_inventory_statement'',
      CreateTrigger ''inventory_compatibility_fence_legacy_statement_trg'' True [OnInsert, OnUpdate] ''ticket_inventory'' False
        ''inventory_compatibility_fence_inventory_statement'',
      CreateTrigger ''inventory_compatibility_fence_ticket_type_statement_trg'' True [OnInsert, OnUpdate] ''ticket_type_inventory'' False
        ''inventory_compatibility_fence_inventory_statement'',
      CreateFunction ''inventory_compatibility_guard_legacy_write'' ''guard_legacy_write'',
      CreateTrigger ''inventory_compatibility_guard_legacy_write_trg'' True [OnInsert, OnUpdate] ''ticket_inventory'' True
        ''inventory_compatibility_guard_legacy_write'',
      CreateFunction ''inventory_compatibility_guard_ticket_type_write'' ''guard_ticket_type_write'',
      CreateTrigger ''inventory_compatibility_guard_ticket_type_write_trg'' True [OnInsert, OnUpdate] ''ticket_type_inventory'' True
        ''inventory_compatibility_guard_ticket_type_write'',
      CreateFunction ''inventory_compatibility_mark_event_delete_cascade'' ''mark_event_delete_cascade'',
      CreateTrigger ''inventory_compatibility_mark_event_delete_before_trg'' True [OnDelete] ''events'' False
        ''inventory_compatibility_mark_event_delete_cascade'',
      CreateFunction ''inventory_compatibility_guard_delete_cascade'' ''guard_delete_cascade'',
      CreateTrigger ''inventory_compatibility_guard_legacy_delete_trg'' True [OnDelete] ''ticket_inventory'' False
        ''inventory_compatibility_guard_delete_cascade'',
      CreateTrigger ''inventory_compatibility_guard_ticket_type_delete_trg'' True [OnDelete] ''ticket_type_inventory'' False
        ''inventory_compatibility_guard_delete_cascade'',
      CreateTrigger ''inventory_compatibility_guard_ticket_type_definition_delete_trg'' True [OnDelete] ''ticket_types'' False
        ''inventory_compatibility_guard_delete_cascade'',
      CreateFunction ''inventory_compatibility_reject_truncate'' ''reject_truncate'',
      CreateTrigger ''inventory_compatibility_reject_legacy_truncate_trg'' True [OnTruncate] ''ticket_inventory'' False
        ''inventory_compatibility_reject_truncate'',
      CreateTrigger ''inventory_compatibility_reject_ticket_type_truncate_trg'' True [OnTruncate] ''ticket_type_inventory'' False
        ''inventory_compatibility_reject_truncate'',
      CreateTrigger ''inventory_compatibility_reject_ticket_type_definition_truncate_trg'' True [OnTruncate] ''ticket_types'' False
        ''inventory_compatibility_reject_truncate'']"

definition CREATE_REVERSE_MIRROR_DDL :: "ddl list" where
  "CREATE_REVERSE_MIRROR_DDL =
     [CreateFunction ''inventory_compatibility_sync_ticket_type_to_legacy'' ''sync_ticket_type_to_legacy'',
      CreateTrigger ''inventory_compatibility_sync_ticket_type_to_legacy_trg'' False [OnInsert, OnUpdate] ''ticket_type_inventory'' True
        ''inventory_compatibility_sync_ticket_type_to_legacy'']"

definition DROP_COMPATIBILITY_WRITER_DDL :: "ddl list" where
  "DROP_COMPATIBILITY_WRITER_DDL =
     [DropTrigger ''inventory_compatibility_sync_ticket_type_to_legacy_trg'' ''ticket_type_inventory'',
      DropTrigger ''inventory_compatibility_reject_ticket_type_definition_truncate_trg'' ''ticket_types'',
      DropTrigger ''inventory_compatibility_reject_ticket_type_truncate_trg'' ''ticket_type_inventory'',
      DropTrigger ''inventory_compatibility_reject_legacy_truncate_trg'' ''ticket_inventory'',
      DropTrigger ''inventory_compatibility_guard_ticket_type_definition_delete_trg'' ''ticket_types'',
      DropTrigger ''inventory_compatibility_guard_ticket_type_delete_trg'' ''ticket_type_inventory'',
      DropTrigger ''inventory_compatibility_guard_legacy_delete_trg'' ''ticket_inventory'',
      DropTrigger ''inventory_compatibility_mark_event_delete_before_trg'' ''events'',
      DropTrigger ''inventory_compatibility_guard_ticket_type_write_trg'' ''ticket_type_inventory'',
      DropTrigger ''inventory_compatibility_guard_legacy_write_trg'' ''ticket_inventory'',
      DropTrigger ''inventory_compatibility_fence_ticket_type_statement_trg'' ''ticket_type_inventory'',
      DropTrigger ''inventory_compatibility_fence_legacy_statement_trg'' ''ticket_inventory'',
      DropFunction ''inventory_compatibility_sync_ticket_type_to_legacy'',
      DropFunction ''inventory_compatibility_reject_truncate'',
      DropFunction ''inventory_compatibility_guard_delete_cascade'',
      DropFunction ''inventory_compatibility_mark_event_delete_cascade'',
      DropFunction ''inventory_compatibility_guard_ticket_type_write'',
      DropFunction ''inventory_compatibility_guard_legacy_write'',
      DropFunction ''inventory_compatibility_fence_inventory_statement'',
      DropIndex ''purchases_request_id_uq'',
      CreateIndex ''purchases'' ''purchases_request_id_uq'' [''buyer_id'', ''event_id'', ''request_id'']
        (Some ''request_id IS NOT NULL AND status = 'confirmed'::purchase_status'') False True,
      CreateIndex ''purchases'' ''purchases_rejected_request_id_uq'' [''buyer_id'', ''event_id'', ''request_id'']
        (Some ''request_id IS NOT NULL AND status = 'rejected'::purchase_status'') False True,
      DropTable ''inventory_writer_control'']"

section \<open>Up and down\<close>

text \<open>The rows of the control table are pairs of \<open>singleton\<close> and \<open>writer_mode\<close>.\<close>

record compat_db =
  cp_base :: expand_db
  cp_control :: "(bool \<times> string) list"

definition ambiguous_keys :: "expand_db \<Rightarrow> bool" where
  "ambiguous_keys x =
     list_ex (\<lambda>p. lr_request p \<noteq> None \<and> 1 < count_rows (\<lambda>q. lr_buyer q = lr_buyer p \<and> lr_event q = lr_event p
       \<and> lr_request q = lr_request p) (bd_ledger x)) (bd_ledger x)"

definition create_compatibility_writer :: "expand_db \<Rightarrow> compat_db result" where
  "create_compatibility_writer x =
     bind_result (ddl_step (CREATE_CONTROL_STATE_DDL @ REPLACE_IDEMPOTENCY_INDEXES_DDL @ REPLACE_FORWARD_BRIDGE_DDL
       @ CREATE_MODE_AWARE_GUARDS_DDL @ CREATE_REVERSE_MIRROR_DDL) x) (\<lambda>x1.
     Inr \<lparr>cp_base = x1, cp_control = [(True, ''legacy'')]\<rparr>)"

definition assert_compatibility_state :: "compat_db \<Rightarrow> unit result" where
  "assert_compatibility_state y =
     (if length (cp_control y) \<noteq> 1 \<or> \<not> list_ex (\<lambda>c. fst c \<and> snd c = ''legacy'') (cp_control y)
      then Inl (RaiseException ''P0001'' ''inventory compatibility migration aborted: initial writer mode is not legacy'')
      else if not_one_default (cp_base y) \<or> legacy_shadow_mismatch (cp_base y)
          \<or> list_ex (\<lambda>p. \<not> linked_to_default (cp_base y) p) (bd_ledger (cp_base y))
      then Inl (RaiseException ''P0001'' ''inventory compatibility migration aborted: expand readiness is not lossless'')
      else Inr ())"

definition compat_up :: "bool \<Rightarrow> expand_db \<Rightarrow> compat_db result" where
  "compat_up free x =
     bind_result (lock_tables free) (\<lambda>_.
     if ambiguous_keys x
     then Inl (RaiseException ''P0001'' ''inventory compatibility migration aborted: duplicate requestId exists across purchase statuses'')
     else bind_result (create_compatibility_writer x) (\<lambda>y.
       bind_result (assert_compatibility_state y) (\<lambda>_. Inr y)))"

definition assert_safe_down :: "compat_db \<Rightarrow> unit result" where
  "assert_safe_down y =
     (if map_option snd (find fst (cp_control y)) \<noteq> Some ''legacy''
      then Inl (RaiseException ''P0001'' ''inventory compatibility rollback blocked: writer mode must be legacy'')
      else if not_one_default (cp_base y) \<or> legacy_shadow_mismatch (cp_base y) \<or> non_default_shadow (cp_base y)
          \<or> list_ex (\<lambda>p. \<not> linked_to_default (cp_base y) p) (bd_ledger (cp_base y))
      then Inl (RaiseException ''P0001'' ''inventory compatibility rollback blocked: legacy representation is not lossless'')
      else Inr ())"

definition compat_down :: "bool \<Rightarrow> compat_db \<Rightarrow> expand_db result" where
  "compat_down free y =
     bind_result (lock_tables free) (\<lambda>_.
     bind_result (assert_safe_down y) (\<lambda>_.
     ddl_step (DROP_COMPATIBILITY_WRITER_DDL @ RESTORE_FORWARD_BRIDGE_DDL) (cp_base y)))"

section \<open>The catalog\<close>

definition compat_catalog :: catalog where
  "compat_catalog = after_ddl (CREATE_CONTROL_STATE_DDL @ REPLACE_IDEMPOTENCY_INDEXES_DDL @ REPLACE_FORWARD_BRIDGE_DDL
       @ CREATE_MODE_AWARE_GUARDS_DDL @ CREATE_REVERSE_MIRROR_DDL) expand_catalog"

definition restored_catalog :: catalog where
  "restored_catalog = after_ddl (DROP_COMPATIBILITY_WRITER_DDL @ RESTORE_FORWARD_BRIDGE_DDL) compat_catalog"

definition COMPATIBILITY_BODIES :: "(string \<times> string) list" where
  "COMPATIBILITY_BODIES = CANONICAL_BODIES @
     [(''sync_inventory_successor'', ''56894124575b9c7825a172fa67cf5d86''),
      (''fence_inventory_statement'', ''64716d53339a3c529079f61c2377b8d0''),
      (''guard_legacy_write'', ''3a3971b24bb14e3f5c23138d7688d065''),
      (''guard_ticket_type_write'', ''c70407a9864736bbf6322356ea55f51f''),
      (''mark_event_delete_cascade'', ''824fc3b87181f8feae6a582a5ec59591''),
      (''guard_delete_cascade'', ''0127f775847e6d28fa6c83d73fa6a1f6''),
      (''reject_truncate'', ''41793cc2f9cd2451c70505a22df5e225''),
      (''sync_ticket_type_to_legacy'', ''c347780b856f90d05d68e1800e1d36f1'')]"

lemma compat_ddl_ok:
  "is_ok (run_each exec_ddl ((CREATE_CONTROL_STATE_DDL @ REPLACE_IDEMPOTENCY_INDEXES_DDL @ REPLACE_FORWARD_BRIDGE_DDL
       @ CREATE_MODE_AWARE_GUARDS_DDL @ CREATE_REVERSE_MIRROR_DDL)
     @ (DROP_COMPATIBILITY_WRITER_DDL @ RESTORE_FORWARD_BRIDGE_DDL)) expand_catalog)"
  by code_simp

lemmas compat_runs =
  conjunct1 [OF after_ddl_append [OF compat_ddl_ok, folded compat_catalog_def]]
  after_ddl_ok [OF conjunct2 [OF after_ddl_append [OF compat_ddl_ok, folded compat_catalog_def]], folded restored_catalog_def]

lemma audits:
  "catalog_audit COMPATIBILITY_BODIES compat_catalog = [0, 0, 0, 0, 0, 0]"
  "catalog_audit COMPATIBILITY_BODIES restored_catalog = [0, 0, 0, 0, 0, 14]"
  by code_simp+

lemma distinct_bodies: "distinct (map fst COMPATIBILITY_BODIES)"
  by code_simp

section \<open>The gate and the migration\<close>

definition with_catalog :: "catalog \<Rightarrow> expand_db \<Rightarrow> expand_db" where
  "with_catalog c x = x\<lparr>bd_catalog := c\<rparr>"

lemma with_catalog_simps [simp]:
  "bd_events (with_catalog c x) = bd_events x" "bd_stock (with_catalog c x) = bd_stock x" "bd_ledger (with_catalog c x) = bd_ledger x"
  "ex_types (with_catalog c x) = ex_types x" "ex_shadow (with_catalog c x) = ex_shadow x" "bd_catalog (with_catalog c x) = c"
  by (simp_all add: with_catalog_def)

lemma with_catalog_checks [simp]:
  "expand_keys (with_catalog c x) = expand_keys x" "types_linked (with_catalog c x) = types_linked x"
  "not_one_default (with_catalog c x) = not_one_default x" "legacy_shadow_mismatch (with_catalog c x) = legacy_shadow_mismatch x"
  "non_default_shadow (with_catalog c x) = non_default_shadow x" "linked_to_default (with_catalog c x) p = linked_to_default x p"
  "assert_safe_rollback (with_catalog c x) = assert_safe_rollback x"
proof -
  have t: "types_of e (with_catalog c x) = types_of e x" for e by (simp add: types_of_def)
  have s: "expanded_stock (with_catalog c x) = expanded_stock x" by (simp add: expanded_stock_def)
  show one: "not_one_default (with_catalog c x) = not_one_default x" by (simp add: not_one_default_def t)
  show match: "legacy_shadow_mismatch (with_catalog c x) = legacy_shadow_mismatch x" by (simp add: legacy_shadow_mismatch_def s)
  show linked: "linked_to_default (with_catalog c x) p = linked_to_default x p" for p by (simp add: linked_to_default_def)
  show "expand_keys (with_catalog c x) = expand_keys x" by (simp add: expand_keys_def)
  show "types_linked (with_catalog c x) = types_linked x" by (simp add: types_linked_def type_known_def)
  show "non_default_shadow (with_catalog c x) = non_default_shadow x" by (simp add: non_default_shadow_def)
  show "assert_safe_rollback (with_catalog c x) = assert_safe_rollback x" by (simp add: assert_safe_rollback_def one match linked)
qed

lemma safe_rollback_facts:
  assumes "assert_safe_rollback x = Inr ()"
  shows "\<not> not_one_default x" "\<not> legacy_shadow_mismatch x" "\<not> non_default_shadow x"
    "\<not> list_ex (\<lambda>p. \<not> linked_to_default x p) (bd_ledger x)"
  using assms by (auto simp: assert_safe_rollback_def non_default_shadow_def list_ex_iff split: if_splits)

lemma compat_up_run:
  assumes "assert_safe_rollback x = Inr ()" "bd_catalog x = expand_catalog"
  shows "compat_up free x = Inr y \<longleftrightarrow>
    free \<and> \<not> ambiguous_keys x \<and> y = \<lparr>cp_base = with_catalog compat_catalog x, cp_control = [(True, ''legacy'')]\<rparr>"
proof -
  have run: "create_compatibility_writer x = Inr \<lparr>cp_base = with_catalog compat_catalog x, cp_control = [(True, ''legacy'')]\<rparr>"
    by (simp add: create_compatibility_writer_def ddl_step_def assms(2) compat_runs with_catalog_def)
  have "assert_compatibility_state \<lparr>cp_base = with_catalog compat_catalog x, cp_control = [(True, ''legacy'')]\<rparr> = Inr ()"
    using safe_rollback_facts [OF assms(1)] by (simp add: assert_compatibility_state_def)
  with run show ?thesis by (auto simp: compat_up_def lock_tables_def)
qed

lemma compat_down_run:
  assumes "assert_safe_rollback x = Inr ()"
  shows "compat_down True \<lparr>cp_base = with_catalog compat_catalog x, cp_control = [(True, ''legacy'')]\<rparr>
    = Inr (with_catalog restored_catalog x)"
  using safe_rollback_facts [OF assms]
  by (simp add: compat_down_def lock_tables_def assert_safe_down_def ddl_step_def compat_runs) (simp add: with_catalog_def)

text \<open>C40: a database that passed the gate takes the compatibility writer, and gives it back: where the command of the
  check exits with 0, the second migration succeeds exactly when it gets its locks and no request id has
  both a confirmed and a rejected purchase; it starts in legacy mode with every object that the cutover check asks
  for, the gate stays open, and the migration down restores the tables and keeps the gate open.\<close>

theorem gate_admits_compatibility_writer:
  assumes "expand_keys x" "bd_catalog x = expand_catalog" "on_record COMPATIBILITY_BODIES md5"
    and "snd (expand_check_main net md5 x) = 0"
  shows "(is_ok (compat_up free x) \<longleftrightarrow> free \<and> \<not> ambiguous_keys x)
    \<and> (case compat_up free x of
         Inl e \<Rightarrow> True
       | Inr y \<Rightarrow> cp_control y = [(True, ''legacy'')] \<and> compatibility_object_missing_or_invalid md5 (bd_catalog (cp_base y)) = 0
           \<and> snd (expand_check_main net md5 (cp_base y)) = 0
           \<and> (case compat_down True y of
                Inl e \<Rightarrow> False
              | Inr z \<Rightarrow> z\<lparr>bd_catalog := bd_catalog x\<rparr> = x \<and> snd (expand_check_main net md5 z) = 0))"
proof -
  from assms(4) have ready: "\<forall>q. net q = Delivered" "types_linked x" "assert_safe_rollback x = Inr ()"
    "\<forall>e \<in> set (bd_events x). \<exists>l \<in> set (bd_stock x). ti_event l = e"
    unfolding gate_clean data_clean_iff [OF assms(1)] by blast+
  have gate: "snd (expand_check_main net md5 (with_catalog c x)) = 0" if "expand_catalog_intact md5 c" for c
    using data_clean_iff [of "with_catalog c x"] assms(1) ready that unfolding gate_clean by simp
  note intact = audit_result(1) [OF assms(3) distinct_bodies audits(1)] audit_result(1) [OF assms(3) distinct_bodies audits(2)]
    and objects = audit_result(2) [OF assms(3) distinct_bodies audits(1)]
  note up = compat_up_run [OF ready(3) assms(2), of free]
  have ok: "is_ok (compat_up free x) \<longleftrightarrow> free \<and> \<not> ambiguous_keys x" by (simp add: is_ok_iff up)
  show ?thesis
  proof (cases "compat_up free x")
    case (Inr y)
    then have "y = \<lparr>cp_base = with_catalog compat_catalog x, cp_control = [(True, ''legacy'')]\<rparr>" by (simp add: up)
    with ok Inr compat_down_run [OF ready(3)] objects gate intact show ?thesis by simp (simp add: with_catalog_def)
  qed (use ok in simp)
qed

text \<open>The version gap that an Event registered in ticket_type mode leaves between its two stock rows blocks the way down.\<close>

lemma version_gap_blocks_down:
  assumes "l \<in> set (bd_stock (cp_base y))" "r \<in> set (expanded_stock (cp_base y))" "tti_event r = ti_event l"
    and "tti_version r \<noteq> ti_version l"
  shows "\<not> is_ok (compat_down free y)"
proof -
  have "legacy_shadow_mismatch (cp_base y)"
    using assms by (auto simp: legacy_shadow_mismatch_def list_ex_iff stock_differs_def)
  then have "\<not> is_ok (assert_safe_down y)" by (simp add: assert_safe_down_def)
  then show ?thesis by (auto simp: compat_down_def is_ok_iff bind_result_Inr)
qed

text \<open>With the catalog of the two migrations the cutover check finds no violation after any history of the shop.\<close>

lemma migrated_shop_is_switchable:
  assumes "list_all shop_admissible ops" "s = fold shop_perform ops (empty_pg m0)" "r \<noteq> []" "on_record COMPATIBILITY_BODIES md5"
  shows "\<exists>m c. readInventoryWriterMode s = Inr m
    \<and> checkCutoverDatabase (\<lambda>_. Delivered)
        (\<lambda>_. tables_of s (compatibility_object_missing_or_invalid md5 compat_catalog) (r # rs)) m = Inr c
    \<and> cd_results c = map (\<lambda>k. (k, 0)) DATABASE_CATEGORIES"
  using shop_database_is_switchable [OF assms(1-3), of rs] audit_result(2) [OF assms(4) distinct_bodies audits(1)] by auto

theorem gate_admits_compatibility_writer_witness:
  "is_ok (compat_up True (expanded sample_expand_env expand_catalog sample_legacy))"
proof -
  let ?x = "expanded sample_expand_env expand_catalog sample_legacy" and ?md5 = "md5_of COMPATIBILITY_BODIES"
  have known: "on_record COMPATIBILITY_BODIES ?md5" by code_simp
  then have "on_record CANONICAL_BODIES ?md5" by (simp add: on_record_def COMPATIBILITY_BODIES_def)
  then have "snd (expand_check_main (\<lambda>_. Delivered) ?md5 ?x) = 0"
    using expanded_gate [OF sample_ok(1,2,5) expand_catalog_ok] by simp
  from gate_admits_compatibility_writer [OF sample_expanded_keys _ known this] have "is_ok (compat_up True ?x) \<longleftrightarrow> \<not> ambiguous_keys ?x"
    by simp
  moreover have "\<not> ambiguous_keys ?x" by (simp add: ambiguous_keys_def sample_legacy_def sample_ledger_def count_rows_def)
  ultimately show ?thesis by simp
qed

end
