(* ===== verification/InventoryDeletes.thy ===== *)
theory InventoryDeletes
  imports Catalog
begin

text \<open>
  Deletion under the compatibility writer,
  src/database/migrations/1785542400000-add-ticket-type-compatibility-writer.ts: the guards on DELETE and TRUNCATE of the
  inventory tables and the cascade of the foreign keys from the Events, with what depends on
  \<open>pg_trigger_depth()\<close>: the statement that a foreign key runs is one level deeper than the statement that
  caused it.
\<close>

section \<open>Guards\<close>

text \<open>\<open>dt_cascade\<close> is the transaction-local setting \<open>ticket_c2c.event_delete_cascade\<close>; nothing resets it before the end.\<close>

record delete_tx =
  dt_db :: pg
  dt_cascade :: bool

definition mark_event_delete_cascade :: "delete_tx \<Rightarrow> delete_tx" where
  "mark_event_delete_cascade d = d\<lparr>dt_cascade := True\<rparr>"

definition guard_delete_cascade :: "nat \<Rightarrow> delete_tx \<Rightarrow> unit result" where
  "guard_delete_cascade depth d =
     (if depth \<ge> 2 \<and> dt_cascade d then Inr ()
      else Inl (RaiseException ''55000'' ''direct delete rejected for compatibility table''))"

definition reject_truncate :: "delete_tx \<Rightarrow> delete_tx result" where
  "reject_truncate d = Inl (RaiseException ''55000'' ''truncate rejected for compatibility table'')"

section \<open>Statements and cascades\<close>

definition delete_stock :: "nat \<Rightarrow> (ti_row \<Rightarrow> bool) \<Rightarrow> delete_tx \<Rightarrow> delete_tx result" where
  "delete_stock depth gone d =
     bind_result (guard_delete_cascade depth d) (\<lambda>_.
     Inr (d\<lparr>dt_db := (dt_db d)\<lparr>ticket_inventory := filter (\<lambda>r. \<not> gone r) (ticket_inventory (dt_db d))\<rparr>\<rparr>))"

definition delete_type_stock :: "nat \<Rightarrow> (tti_row \<Rightarrow> bool) \<Rightarrow> delete_tx \<Rightarrow> delete_tx result" where
  "delete_type_stock depth gone d =
     bind_result (guard_delete_cascade depth d) (\<lambda>_.
     Inr (d\<lparr>dt_db := (dt_db d)\<lparr>ticket_type_inventory := filter (\<lambda>r. \<not> gone r) (ticket_type_inventory (dt_db d))\<rparr>\<rparr>))"

text \<open>The foreign keys to one Type that is gone: the stock cascades, a purchase forbids it.\<close>

definition type_gone :: "nat \<Rightarrow> type_row \<Rightarrow> delete_tx \<Rightarrow> delete_tx result" where
  "type_gone depth t d =
     bind_result (delete_type_stock (Suc depth) (\<lambda>r. tti_event r = type_event t \<and> tti_type r = type_id t) d) (\<lambda>d1.
     if list_ex (\<lambda>p. p_event p = type_event t \<and> p_type p = type_id t) (purchases (dt_db d1))
     then Inl (PgError ''23503'' ''purchases_event_ticket_type_fkey'') else Inr d1)"

definition delete_types :: "nat \<Rightarrow> (type_row \<Rightarrow> bool) \<Rightarrow> delete_tx \<Rightarrow> delete_tx result" where
  "delete_types depth gone d =
     bind_result (guard_delete_cascade depth d) (\<lambda>_.
     run_each (type_gone depth) (filter gone (ticket_types (dt_db d)))
       (d\<lparr>dt_db := (dt_db d)\<lparr>ticket_types := filter (\<lambda>t. \<not> gone t) (ticket_types (dt_db d))\<rparr>\<rparr>))"

definition delete_event :: "string \<Rightarrow> delete_tx \<Rightarrow> delete_tx result" where
  "delete_event e d =
     (let d0 = mark_event_delete_cascade d in
      if e \<notin> set (events (dt_db d)) then Inr d0
      else bind_result (delete_stock 2 (\<lambda>r. ti_event r = e)
             (d0\<lparr>dt_db := (dt_db d0)\<lparr>events := filter (\<lambda>x. x \<noteq> e) (events (dt_db d0))\<rparr>\<rparr>)) (\<lambda>d1.
           if list_ex (\<lambda>p. p_event p = e) (purchases (dt_db d1)) then Inl (PgError ''23503'' ''purchases_event_id_fkey'')
           else delete_types 2 (\<lambda>t. type_event t = e) d1))"

section \<open>What is refused\<close>

text \<open>No client statement deletes stock or Types, not even after an Event was deleted in the same transaction.\<close>

theorem direct_deletes_are_refused:
  "\<not> is_ok (delete_stock 1 gone d)" "\<not> is_ok (delete_type_stock 1 gone' d)" "\<not> is_ok (delete_types 1 gone'' d)"
  "\<not> is_ok (reject_truncate d)"
  by (simp_all add: delete_stock_def delete_type_stock_def delete_types_def reject_truncate_def guard_delete_cascade_def)

section \<open>What the cascade does\<close>

definition without_event :: "string \<Rightarrow> pg \<Rightarrow> pg" where
  "without_event e s =
     s\<lparr>events := filter (\<lambda>x. x \<noteq> e) (events s), ticket_types := filter (\<lambda>t. type_event t \<noteq> e) (ticket_types s),
       ticket_inventory := filter (\<lambda>r. ti_event r \<noteq> e) (ticket_inventory s),
       ticket_type_inventory := filter (\<lambda>r. tti_event r \<noteq> e) (ticket_type_inventory s)\<rparr>"

lemma types_gone:
  assumes "dt_cascade d" "\<forall>p \<in> set (purchases (dt_db d)). p_event p \<noteq> e" "\<forall>t \<in> set ts. type_event t = e"
  shows "run_each (type_gone 2) ts d = Inr (d\<lparr>dt_db := (dt_db d)\<lparr>ticket_type_inventory :=
    filter (\<lambda>r. \<not> (tti_event r = e \<and> tti_type r \<in> type_id ` set ts)) (ticket_type_inventory (dt_db d))\<rparr>\<rparr>)"
  using assms
proof (induction ts arbitrary: d)
  case Nil
  then show ?case by (cases d) simp
next
  case (Cons t ts)
  let ?d1 = "d\<lparr>dt_db := (dt_db d)\<lparr>ticket_type_inventory :=
      filter (\<lambda>r. \<not> (tti_event r = e \<and> tti_type r = type_id t)) (ticket_type_inventory (dt_db d))\<rparr>\<rparr>"
  have "type_gone 2 t d = Inr ?d1"
    using Cons.prems by (auto simp: type_gone_def delete_type_stock_def guard_delete_cascade_def list_ex_iff)
  moreover have "run_each (type_gone 2) ts ?d1 = Inr (?d1\<lparr>dt_db := (dt_db ?d1)\<lparr>ticket_type_inventory :=
      filter (\<lambda>r. \<not> (tti_event r = e \<and> tti_type r \<in> type_id ` set ts)) (ticket_type_inventory (dt_db ?d1))\<rparr>\<rparr>)"
    by (rule Cons.IH) (use Cons.prems in auto)
  moreover have "filter (\<lambda>r. \<not> (tti_event r = e \<and> tti_type r \<in> type_id ` set ts))
        (filter (\<lambda>r. \<not> (tti_event r = e \<and> tti_type r = type_id t)) rows)
      = filter (\<lambda>r. \<not> (tti_event r = e \<and> tti_type r \<in> type_id ` set (t # ts))) rows" for rows :: "tti_row list"
    by (induction rows) auto
  ultimately show ?case by simp
qed

text \<open>An Event can be deleted exactly when nobody bought for it; all its rows go, and no others.\<close>

theorem delete_event_result:
  assumes "pg_wf s" "e \<in> set (events s)"
  shows "delete_event e \<lparr>dt_db = s, dt_cascade = c\<rparr> =
    (if list_ex (\<lambda>p. p_event p = e) (purchases s) then Inl (PgError ''23503'' ''purchases_event_id_fkey'')
     else Inr \<lparr>dt_db = without_event e s, dt_cascade = True\<rparr>)"
proof (cases "list_ex (\<lambda>p. p_event p = e) (purchases s)")
  case True
  then show ?thesis
    using assms(2) by (simp add: delete_event_def Let_def mark_event_delete_cascade_def delete_stock_def guard_delete_cascade_def)
next
  case False
  then have none: "\<forall>p \<in> set (purchases s). p_event p \<noteq> e" by (auto simp: list_ex_iff)
  have "(\<not> (tti_event r = e \<and> tti_type r \<in> type_id ` set (filter (\<lambda>t. type_event t = e) (ticket_types s)))) \<longleftrightarrow> tti_event r \<noteq> e"
    if "r \<in> set (ticket_type_inventory s)" for r
  proof -
    from assms(1) that obtain t where "t \<in> set (ticket_types s)" "type_id t = tti_type r" "type_event t = tti_event r"
      unfolding pg_wf_def by blast
    then show ?thesis by (auto intro: rev_image_eqI)
  qed
  then have rows: "filter (\<lambda>r. \<not> (tti_event r = e \<and> tti_type r \<in> type_id ` set (filter (\<lambda>t. type_event t = e) (ticket_types s))))
      (ticket_type_inventory s) = filter (\<lambda>r. tti_event r \<noteq> e) (ticket_type_inventory s)"
    by (rule filter_cong [OF refl])
  let ?d = "\<lparr>dt_db = s\<lparr>events := filter (\<lambda>x. x \<noteq> e) (events s), ticket_inventory := filter (\<lambda>r. ti_event r \<noteq> e) (ticket_inventory s),
        ticket_types := filter (\<lambda>t. type_event t \<noteq> e) (ticket_types s)\<rparr>, dt_cascade = True\<rparr>"
  have "run_each (type_gone 2) (filter (\<lambda>t. type_event t = e) (ticket_types s)) ?d
      = Inr (?d\<lparr>dt_db := (dt_db ?d)\<lparr>ticket_type_inventory := filter (\<lambda>r. \<not> (tti_event r = e
          \<and> tti_type r \<in> type_id ` set (filter (\<lambda>t. type_event t = e) (ticket_types s)))) (ticket_type_inventory (dt_db ?d))\<rparr>\<rparr>)"
    by (rule types_gone) (use none in auto)
  also have "\<dots> = Inr \<lparr>dt_db = without_event e s, dt_cascade = True\<rparr>"
    unfolding without_event_def rows [symmetric] by simp
  finally have gone: "run_each (type_gone 2) (filter (\<lambda>t. type_event t = e) (ticket_types s)) ?d
      = Inr \<lparr>dt_db = without_event e s, dt_cascade = True\<rparr>" .
  have "delete_event e \<lparr>dt_db = s, dt_cascade = c\<rparr> = run_each (type_gone 2) (filter (\<lambda>t. type_event t = e) (ticket_types s)) ?d"
    using False assms(2)
    by (simp add: delete_event_def Let_def mark_event_delete_cascade_def delete_stock_def guard_delete_cascade_def delete_types_def)
  with gone False show ?thesis by simp
qed

lemma default_type_without:
  "e' \<noteq> e \<Longrightarrow> default_type_of e' (without_event e s) = default_type_of e' s"
proof -
  assume "e' \<noteq> e"
  then have "find (\<lambda>t. type_event t = e' \<and> is_default t) (filter (\<lambda>t. type_event t \<noteq> e) ts)
      = find (\<lambda>t. type_event t = e' \<and> is_default t) ts" for ts :: "type_row list"
    by (induction ts) auto
  then show ?thesis by (simp add: default_type_of_def without_event_def)
qed

lemma sums_without:
  "e' \<noteq> e \<Longrightarrow> aggregate_total e' (without_event e s) = aggregate_total e' s"
  "e' \<noteq> e \<Longrightarrow> aggregate_remaining e' (without_event e s) = aggregate_remaining e' s"
  unfolding aggregate_total_def aggregate_remaining_def sum_where_def without_event_def
  by (auto intro!: arg_cong [of _ _ sum_list] arg_cong [of _ _ "map _"] filter_cong)

text \<open>A deletion keeps every invariant of the tables.\<close>

theorem delete_event_sound:
  assumes "sound s" "delete_event e \<lparr>dt_db = s, dt_cascade = c\<rparr> = Inr d"
  shows "sound (dt_db d)"
proof (cases "e \<in> set (events s)")
  case False
  with assms show ?thesis by (auto simp: delete_event_def mark_event_delete_cascade_def)
next
  case True
  note inv = assms(1) [unfolded sound_def pg_inv_def]
  from assms(2) delete_event_result [OF _ True, of c] inv have none: "\<forall>p \<in> set (purchases s). p_event p \<noteq> e"
    and d: "dt_db d = without_event e s"
    by (auto simp: list_ex_iff split: if_splits)
  let ?s = "without_event e s"
  have sel: "events ?s = filter (\<lambda>x. x \<noteq> e) (events s)" "ticket_types ?s = filter (\<lambda>t. type_event t \<noteq> e) (ticket_types s)"
    "ticket_inventory ?s = filter (\<lambda>r. ti_event r \<noteq> e) (ticket_inventory s)"
    "ticket_type_inventory ?s = filter (\<lambda>r. tti_event r \<noteq> e) (ticket_type_inventory s)"
    "purchases ?s = purchases s" "writer_control ?s = writer_control s" by (simp_all add: without_event_def)
  have wf: "pg_wf s" using inv by simp
  have "\<exists>t \<in> set (ticket_types ?s). type_id t = tti_type r \<and> type_event t = tti_event r"
    "\<exists>a \<in> set (ticket_inventory ?s). ti_event a = tti_event r \<and> tti_version r \<le> ti_version a"
    if r: "r \<in> set (ticket_type_inventory ?s)" for r
  proof -
    from r have r: "r \<in> set (ticket_type_inventory s)" "tti_event r \<noteq> e" by (simp_all add: sel)
    with wf obtain t a where "t \<in> set (ticket_types s)" "type_id t = tti_type r" "type_event t = tti_event r"
      "a \<in> set (ticket_inventory s)" "ti_event a = tti_event r" "tti_version r \<le> ti_version a" unfolding pg_wf_def by meson
    with r(2) show "\<exists>t \<in> set (ticket_types ?s). type_id t = tti_type r \<and> type_event t = tti_event r"
      "\<exists>a \<in> set (ticket_inventory ?s). ti_event a = tti_event r \<and> tti_version r \<le> ti_version a" by (auto simp: sel)
  qed
  moreover have "distinct (map type_id (ticket_types ?s))" "distinct (map ti_event (ticket_inventory ?s))"
    "distinct (map tti_type (ticket_type_inventory ?s))" "writer_control ?s \<in> {Some ''legacy'', Some ''ticket_type''}"
    "\<forall>r \<in> set (ticket_inventory ?s). check_quantities (ti_total r) (ti_remaining r) 0"
    "\<forall>r \<in> set (ticket_type_inventory ?s). check_quantities (tti_total r) (tti_remaining r) (tti_version r)"
    using wf unfolding pg_wf_def sel by (simp_all add: distinct_map_filter)
  ultimately have "pg_wf ?s" unfolding pg_wf_def by blast
  moreover have "aggregates_match ?s" using inv by (auto simp: aggregates_match_def sel sums_without)
  moreover have "stock_conserved ?s" using inv by (auto simp: stock_conserved_def sel sold_quantity_def)
  moreover have "requests_unique ?s" using inv by (simp add: requests_unique_def sel)
  moreover have "purchases_linked ?s"
    unfolding purchases_linked_def sel
  proof
    fix p assume p: "p \<in> set (purchases s)"
    with inv obtain ty where "purchase_checks p" "ty \<in> set (ticket_types s)" "type_id ty = p_type p" "type_event ty = p_event p"
      unfolding purchases_linked_def by blast
    moreover from this(2,4) none p have "ty \<in> set (filter (\<lambda>t. type_event t \<noteq> e) (ticket_types s))" by simp
    ultimately show "purchase_checks p \<and> (\<exists>ty \<in> set (filter (\<lambda>t. type_event t \<noteq> e) (ticket_types s)).
        type_id ty = p_type p \<and> type_event ty = p_event p)" by blast
  qed
  moreover have "listed ?s"
  proof -
    have "type_row_of t ?s \<noteq> None" if "default_type_of e' s = Some t" "type_row_of t s \<noteq> None" "e' \<noteq> e" "e' \<in> set (events s)" for e' t
    proof -
      note dt = that(1)
      from that(2) obtain r where r: "r \<in> set (ticket_type_inventory s)" "tti_type r = t"
        using row_by_Some [of tti_type t] by (fastforce simp: type_row_of_def)
      with inv obtain u where u: "u \<in> set (ticket_types s)" "type_id u = t" "type_event u = tti_event r" unfolding pg_wf_def by blast
      obtain v where v: "v \<in> set (ticket_types s)" "type_id v = t" "type_event v = e'"
        using default_type_member [OF dt] by blast
      from inv u v have "u = v" unfolding pg_wf_def by (auto simp: distinct_map inj_on_def)
      with u v r that(3) have "r \<in> set (ticket_type_inventory ?s)" by (simp add: sel)
      with r(2) show ?thesis by (auto simp: type_row_of_def row_by_None_iff)
    qed
    with inv show ?thesis unfolding listed_def sel by (fastforce simp: default_type_without)
  qed
  ultimately show ?thesis by (simp add: d sound_def pg_inv_def)
qed

end
