(* ===== verification/Accounts.thy ===== *)
theory Accounts
  imports Config RefreshTokens
begin

text \<open>
  Accounts and sessions: src/auth/auth.service.ts (signup, login, refresh, logout, me) over
  src/users/users.service.ts, the refresh tokens and the table of
  src/database/migrations/1783251707172-add-users.ts. bcrypt, the JWT library and PostgreSQL's \<open>lower\<close> are
  arguments; so are the ids, salts and clocks a call draws, the fate of its statements and what others commit
  between them.
\<close>

section \<open>What the service is given\<close>

record JwtPayload =
  jp_sub :: string
  jp_email :: string
  jp_iat :: int
  jp_exp :: int

text \<open>
  \<open>bcrypt_hash\<close> of a salt and a password, \<open>bcrypt_compare\<close> of a password and a hash, \<open>jwt_sign\<close> with a secret,
  \<open>jwt_verify\<close> with a secret at a second of the clock (HS256 on both sides), and \<open>toISOString\<close>.
\<close>

record auth_lib =
  bcrypt_hash :: "string \<Rightarrow> string \<Rightarrow> string"
  bcrypt_compare :: "string \<Rightarrow> string \<Rightarrow> bool"
  jwt_sign :: "string \<Rightarrow> JwtPayload \<Rightarrow> string"
  jwt_verify :: "string \<Rightarrow> int \<Rightarrow> string \<Rightarrow> JwtPayload option"
  pg_lower :: "string \<Rightarrow> string"
  to_iso :: "int \<Rightarrow> string"

section \<open>Credentials\<close>

record ParsedCredentials =
  pc_email :: string
  pc_password :: string

definition EMAIL_MAX_LENGTH :: nat where "EMAIL_MAX_LENGTH = 254"

definition PASSWORD_MIN_LENGTH :: nat where "PASSWORD_MIN_LENGTH = 8"

definition PASSWORD_MAX_BYTES :: nat where "PASSWORD_MAX_BYTES = 72"

text \<open>\<open>[^\s@]\<close>, and the pattern of three runs of it around an at sign and a dot.\<close>

definition email_char :: "char \<Rightarrow> bool" where
  "email_char c \<longleftrightarrow> \<not> is_js_space c \<and> c \<noteq> CHR ''@''"

definition EMAIL_PATTERN :: "string \<Rightarrow> bool" where
  "EMAIL_PATTERN s =
     (let local = takeWhile (\<lambda>c. c \<noteq> CHR ''@'') s; domain = drop (length local + 1) s
      in local \<noteq> [] \<and> length local < length s \<and> list_all email_char local \<and> list_all email_char domain
         \<and> list_ex (\<lambda>i. domain ! i = CHR ''.'') [1..<length domain - 1])"

text \<open>UTF-8 of a code unit below 256.\<close>

definition byteLength :: "string \<Rightarrow> nat" where
  "byteLength s = sum_list (map (\<lambda>c. if (of_char c :: nat) < 128 then 1 else 2) s)"

definition parseCredentials :: "jsval \<Rightarrow> ParsedCredentials result" where
  "parseCredentials body =
     (case body of
        JObject fs \<Rightarrow>
          (case get_field fs ''email'' of
             JString email \<Rightarrow>
               if length email > EMAIL_MAX_LENGTH \<or> \<not> EMAIL_PATTERN email
               then Inl (BadRequestException ''email must be a valid email address'')
               else (case get_field fs ''password'' of
                   JString password \<Rightarrow>
                     if length password < PASSWORD_MIN_LENGTH \<or> byteLength password > PASSWORD_MAX_BYTES
                     then Inl (BadRequestException ''password must be at least 8 characters and at most 72 bytes'')
                     else Inr \<lparr>pc_email = email, pc_password = password\<rparr>
                 | _ \<Rightarrow> Inl (BadRequestException ''password must be at least 8 characters and at most 72 bytes''))
           | _ \<Rightarrow> Inl (BadRequestException ''email must be a valid email address''))
      | _ \<Rightarrow> Inl (BadRequestException ''request body must be an object''))"

lemma parsed_bytes: "parseCredentials body = Inr cred \<Longrightarrow> byteLength (pc_password cred) \<le> PASSWORD_MAX_BYTES"
  by (auto simp: parseCredentials_def split: jsval.splits if_splits)

section \<open>The users\<close>

record UserRow =
  u_id :: string
  u_email :: string
  u_password_hash :: string
  u_created_at :: int

text \<open>The table of the users beside that of the tokens, which refers to their ids.\<close>

record accounts =
  users :: "UserRow list"
  sessions :: token_db

text \<open>
  One call of the service: the fate of getting a connection for the users and of the statement on them, the
  values PostgreSQL and the process draw, the environment of the call on the tokens, and what is committed
  between the two.
\<close>

record auth_env =
  au_connect :: link
  au_query :: link
  au_id :: string
  au_now :: int
  au_salt :: string
  au_iat :: int
  au_rt :: rt_env
  au_between :: "accounts \<Rightarrow> accounts"

definition users_ask :: "auth_env \<Rightarrow> 'a result \<Rightarrow> 'a result" where
  "users_ask env r = (if au_connect env = Delivered \<and> au_query env = Delivered then r else Inl token_lost)"

definition insert_user :: "auth_lib \<Rightarrow> UserRow \<Rightarrow> accounts \<Rightarrow> accounts result" where
  "insert_user lib u st =
     (if list_ex (\<lambda>x. u_id x = u_id u) (users st) then Inl (PgError ''23505'' ''users_pkey'')
      else if list_ex (\<lambda>x. pg_lower lib (u_email x) = pg_lower lib (u_email u)) (users st)
      then Inl (PgError ''23505'' ''users_email_uq'')
      else Inr (st\<lparr>users := users st @ [u], sessions := (sessions st)\<lparr>user_ids := user_ids (sessions st) @ [u_id u]\<rparr>\<rparr>))"

definition createUser :: "auth_lib \<Rightarrow> auth_env \<Rightarrow> string \<Rightarrow> string \<Rightarrow> accounts \<Rightarrow> UserRow result \<times> accounts" where
  "createUser lib env email passwordHash st =
     (let u = \<lparr>u_id = au_id env, u_email = email, u_password_hash = passwordHash, u_created_at = au_now env\<rparr>
      in if au_connect env \<noteq> Delivered then (Inl token_lost, st)
         else (case insert_user lib u st of
             Inl e \<Rightarrow> (users_ask env (Inl e), st)
           | Inr st1 \<Rightarrow> (users_ask env (Inr u), if au_query env = LostRequest then st else st1)))"

definition findByEmail :: "auth_lib \<Rightarrow> auth_env \<Rightarrow> string \<Rightarrow> accounts \<Rightarrow> UserRow option result" where
  "findByEmail lib env email st = users_ask env (Inr (List.find (\<lambda>u. pg_lower lib (u_email u) = pg_lower lib email) (users st)))"

definition findById :: "auth_env \<Rightarrow> string \<Rightarrow> accounts \<Rightarrow> UserRow option result" where
  "findById env i st = users_ask env (Inr (row_by u_id i (users st)))"

section \<open>The service\<close>

record AuthenticatedUser =
  me_userId :: string
  me_email :: string
  me_createdAt :: string

record AuthTokenResult =
  at_accessToken :: string
  at_expiresIn :: int
  at_refreshToken :: string
  at_refreshExpiresIn :: int
  at_user :: AuthenticatedUser

definition toAuthenticatedUser :: "auth_lib \<Rightarrow> UserRow \<Rightarrow> AuthenticatedUser" where
  "toAuthenticatedUser lib u = \<lparr>me_userId = u_id u, me_email = u_email u, me_createdAt = to_iso lib (u_created_at u)\<rparr>"

definition isEmailUniqueViolation :: "exn \<Rightarrow> bool" where
  "isEmailUniqueViolation e \<longleftrightarrow> e = PgError ''23505'' ''users_email_uq''"

text \<open>A hash no password that passes the checks is compared with successfully.\<close>

definition DUMMY_PASSWORD_HASH :: string where
  "DUMMY_PASSWORD_HASH = ''$2b$12$EQ1HuYaX8g.4em0LdU6AS.xm/iikRB/m1eLrmhdgYey3VWNqG6o1O''"

definition buildTokenResult :: "auth_lib \<Rightarrow> JwtConfig \<Rightarrow> auth_env \<Rightarrow> UserRow \<Rightarrow> string \<Rightarrow> int \<Rightarrow> AuthTokenResult" where
  "buildTokenResult lib config env user refreshToken refreshExpiresIn =
     \<lparr>at_accessToken = jwt_sign lib (jc_secret config)
        \<lparr>jp_sub = u_id user, jp_email = u_email user, jp_iat = au_iat env, jp_exp = au_iat env + jc_expiresIn config\<rparr>,
      at_expiresIn = JWT_ACCESS_TOKEN_TTL_SECONDS, at_refreshToken = refreshToken, at_refreshExpiresIn = refreshExpiresIn,
      at_user = toAuthenticatedUser lib user\<rparr>"

definition issueTokens ::
    "auth_lib \<Rightarrow> JwtConfig \<Rightarrow> auth_env \<Rightarrow> UserRow \<Rightarrow> TokenClientMeta \<Rightarrow> accounts \<Rightarrow> AuthTokenResult result \<times> accounts" where
  "issueTokens lib config env user meta st =
     (let (r, s) = issue (au_rt env) (u_id user) meta (sessions st)
      in (map_sum id (\<lambda>issued. buildTokenResult lib config env user (i_token issued) (i_expiresIn issued)) r, st\<lparr>sessions := s\<rparr>))"

definition signup ::
    "auth_lib \<Rightarrow> JwtConfig \<Rightarrow> auth_env \<Rightarrow> jsval \<Rightarrow> TokenClientMeta \<Rightarrow> accounts \<Rightarrow> AuthTokenResult result \<times> accounts" where
  "signup lib config env body meta st =
     (case parseCredentials body of
        Inl e \<Rightarrow> (Inl e, st)
      | Inr credentials \<Rightarrow>
          (case createUser lib env (pc_email credentials) (bcrypt_hash lib (au_salt env) (pc_password credentials)) st of
             (Inl e, st1) \<Rightarrow>
               (Inl (if isEmailUniqueViolation e then ConflictException ''email is already registered'' else e), st1)
           | (Inr user, st1) \<Rightarrow> issueTokens lib config env user meta (au_between env st1)))"

definition login ::
    "auth_lib \<Rightarrow> JwtConfig \<Rightarrow> auth_env \<Rightarrow> jsval \<Rightarrow> TokenClientMeta \<Rightarrow> accounts \<Rightarrow> AuthTokenResult result \<times> accounts" where
  "login lib config env body meta st =
     (case parseCredentials body of
        Inl e \<Rightarrow> (Inl e, st)
      | Inr credentials \<Rightarrow>
          (case findByEmail lib env (pc_email credentials) st of
             Inl e \<Rightarrow> (Inl e, st)
           | Inr user \<Rightarrow>
               let passwordMatches = bcrypt_compare lib (pc_password credentials)
                     (case user of None \<Rightarrow> DUMMY_PASSWORD_HASH | Some u \<Rightarrow> u_password_hash u)
               in (case user of
                     None \<Rightarrow> (Inl (UnauthorizedException ''invalid email or password''), st)
                   | Some u \<Rightarrow> if \<not> passwordMatches then (Inl (UnauthorizedException ''invalid email or password''), st)
                              else issueTokens lib config env u meta (au_between env st))))"

definition refresh ::
    "auth_lib \<Rightarrow> JwtConfig \<Rightarrow> auth_env \<Rightarrow> string option \<Rightarrow> TokenClientMeta \<Rightarrow> accounts \<Rightarrow> AuthTokenResult result \<times> accounts" where
  "refresh lib config env rawRefreshToken meta st =
     (case rawRefreshToken of
        None \<Rightarrow> (Inl invalid_token, st)
      | Some raw \<Rightarrow>
          if raw = [] then (Inl invalid_token, st)
          else (case rotate (au_rt env) raw meta (sessions st) of
              (Inl e, s) \<Rightarrow> (Inl e, st\<lparr>sessions := s\<rparr>)
            | (Inr rotated, s) \<Rightarrow>
                let st1 = au_between env (st\<lparr>sessions := s\<rparr>)
                in (case findById env (r_userId rotated) st1 of
                      Inl e \<Rightarrow> (Inl e, st1)
                    | Inr None \<Rightarrow> (Inl invalid_token, st1)
                    | Inr (Some user) \<Rightarrow> (Inr (buildTokenResult lib config env user (r_token rotated) (r_expiresIn rotated)), st1))))"

definition logout :: "auth_env \<Rightarrow> string option \<Rightarrow> accounts \<Rightarrow> unit result \<times> accounts" where
  "logout env rawRefreshToken st =
     (case rawRefreshToken of
        None \<Rightarrow> (Inr (), st)
      | Some raw \<Rightarrow>
          if raw = [] then (Inr (), st)
          else (let (r, s) = revokeFamilyByToken (au_rt env) raw REVOKE_REASON_LOGOUT (sessions st) in (r, st\<lparr>sessions := s\<rparr>)))"

definition getMe :: "auth_lib \<Rightarrow> auth_env \<Rightarrow> JwtPayload \<Rightarrow> accounts \<Rightarrow> AuthenticatedUser result" where
  "getMe lib env payload st =
     (case findById env (jp_sub payload) st of
        Inl e \<Rightarrow> Inl e
      | Inr None \<Rightarrow> Inl (UnauthorizedException ''user no longer exists'')
      | Inr (Some user) \<Rightarrow> Inr (toAuthenticatedUser lib user))"

section \<open>What any call may do to the accounts\<close>

text \<open>Every token belongs to a user, and no operation on the tokens changes who the users are.\<close>

definition owned :: "token_db \<Rightarrow> bool" where
  "owned s \<longleftrightarrow> (\<forall>r \<in> set (tokens s). rt_user r \<in> set (user_ids s))"

definition same_users :: "token_db \<Rightarrow> token_db \<Rightarrow> bool" where
  "same_users s s' \<longleftrightarrow> user_ids s' = user_ids s \<and> (owned s \<longrightarrow> owned s')"

lemma same_users_refl [simp]: "same_users s s"
  by (simp add: same_users_def)

lemma same_users_trans: "same_users a b \<Longrightarrow> same_users b c \<Longrightarrow> same_users a c"
  by (simp add: same_users_def)

lemma same_users_issue: "same_users s (snd (issue env u meta s))"
  by (auto simp: issue_def insert_token_Inr same_users_def owned_def split: sum.split)

lemma same_users_revoke:
  assumes "same_users s (t_others env s)"
  shows "same_users s (revoke_family env f reason s)"
proof -
  have "same_users (t_others env s) (revoke_family env f reason s)"
    by (auto simp: same_users_def owned_def revoke_family_def Let_def)
  with assms show ?thesis by (rule same_users_trans)
qed

lemma same_users_rotate:
  assumes "same_users s (t_others env s)"
  shows "same_users s (snd (rotate env raw meta s))"
  using rotate_snd [of env raw meta s]
proof (elim disjE exE conjE)
  fix row
  assume r: "row_by rt_hash (t_hash env raw) (tokens s) = Some row"
    and e: "snd (rotate env raw meta s) = consume env (rt_id row) (t_new_id env)
        (s\<lparr>tokens := tokens s @ [token_row env meta (rt_user row) (rt_family row) (Some (rt_id row))]\<rparr>)"
  show ?thesis unfolding e using row_by_Some [OF r] by (auto simp: same_users_def owned_def consume_def)
qed (use assms same_users_revoke in auto)

lemma same_users_revokeFamilyByToken:
  "same_users s (t_others env s) \<Longrightarrow> same_users s (snd (revokeFamilyByToken env raw reason s))"
  by (simp add: revokeFamilyByToken_def same_users_revoke split: option.split)

lemma same_users_step: "token_step h s s' \<Longrightarrow> same_users s s'"
proof (induction rule: token_step.induct)
  case (Rotate env s raw meta)
  have "same_users s (t_others env s)"
    using Rotate(2) by (induction rule: rtranclp_induct) (auto intro: same_users_trans)
  then show ?case by (rule same_users_rotate)
next
  case (Revoke env s raw reason)
  have "same_users s (t_others env s)"
    using Revoke(2) by (induction rule: rtranclp_induct) (auto intro: same_users_trans)
  then show ?case by (rule same_users_revokeFamilyByToken)
qed (rule same_users_issue)

lemma same_users_reach: "(token_step h)\<^sup>*\<^sup>* s s' \<Longrightarrow> same_users s s'"
  by (induction rule: rtranclp_induct) (auto intro: same_users_trans same_users_step)

text \<open>An account is never changed or taken away, and no two have the same address.\<close>

definition accounts_ok :: "auth_lib \<Rightarrow> accounts \<Rightarrow> bool" where
  "accounts_ok lib st \<longleftrightarrow> distinct (map u_id (users st)) \<and> distinct (map (\<lambda>u. pg_lower lib (u_email u)) (users st))
     \<and> user_ids (sessions st) = map u_id (users st) \<and> owned (sessions st)"

definition grows :: "auth_lib \<Rightarrow> accounts \<Rightarrow> accounts \<Rightarrow> bool" where
  "grows lib st st' \<longleftrightarrow> (\<exists>more. users st' = users st @ more) \<and> (accounts_ok lib st \<longrightarrow> accounts_ok lib st')"

lemma grows_refl [simp]: "grows lib st st"
  by (simp add: grows_def)

lemma grows_trans: "grows lib a b \<Longrightarrow> grows lib b c \<Longrightarrow> grows lib a c"
  by (auto simp: grows_def)

lemma grows_sessions: "same_users (sessions st) s \<Longrightarrow> grows lib st (st\<lparr>sessions := s\<rparr>)"
  by (simp add: grows_def accounts_ok_def same_users_def)

lemma insert_user_Inr:
  "insert_user lib u st = Inr st' \<longleftrightarrow> u_id u \<notin> u_id ` set (users st)
     \<and> pg_lower lib (u_email u) \<notin> (\<lambda>x. pg_lower lib (u_email x)) ` set (users st)
     \<and> st' = st\<lparr>users := users st @ [u], sessions := (sessions st)\<lparr>user_ids := user_ids (sessions st) @ [u_id u]\<rparr>\<rparr>"
  by (auto simp: insert_user_def list_ex_iff) (metis imageI)+

lemma grows_insert: "insert_user lib u st = Inr st' \<Longrightarrow> grows lib st st'"
  by (auto simp: insert_user_Inr grows_def accounts_ok_def owned_def)

lemma grows_createUser: "grows lib st (snd (createUser lib env email hash st))"
  using grows_insert by (auto simp: createUser_def Let_def split: sum.split)

lemma grows_issueTokens: "grows lib st (snd (issueTokens lib config env user meta st))"
  using grows_sessions [OF same_users_issue] by (simp add: issueTokens_def Let_def case_prod_unfold)

lemma grows_signup:
  assumes "\<And>st. grows lib st (au_between env st)"
  shows "grows lib st (snd (signup lib config env body meta st))"
proof (cases "parseCredentials body")
  case (Inr c)
  let ?created = "createUser lib env (pc_email c) (bcrypt_hash lib (au_salt env) (pc_password c)) st"
  have g: "grows lib st (snd ?created)" by (rule grows_createUser)
  have "grows lib st (snd (issueTokens lib config env user meta (au_between env (snd ?created))))" for user
    by (rule grows_trans [OF grows_trans [OF g assms] grows_issueTokens])
  with Inr g show ?thesis by (simp add: signup_def case_prod_unfold split: sum.split)
qed (simp add: signup_def)

lemma grows_login:
  assumes "grows lib st (au_between env st)"
  shows "grows lib st (snd (login lib config env body meta st))"
  using grows_trans [OF assms grows_issueTokens] by (simp add: login_def Let_def split: sum.split option.split)

lemma grows_refresh:
  assumes "\<And>st. grows lib st (au_between env st)" "same_users (sessions st) (t_others (au_rt env) (sessions st))"
  shows "grows lib st (snd (refresh lib config env raw meta st))"
proof -
  have g: "grows lib st (st\<lparr>sessions := snd (rotate (au_rt env) t meta (sessions st))\<rparr>)" for t
    by (rule grows_sessions [OF same_users_rotate [OF assms(2)]])
  have "grows lib st (au_between env (st\<lparr>sessions := snd (rotate (au_rt env) t meta (sessions st))\<rparr>))" for t
    by (rule grows_trans [OF g assms(1)])
  with g show ?thesis by (simp add: refresh_def Let_def case_prod_unfold split: option.split sum.split)
qed

lemma grows_logout:
  assumes "same_users (sessions st) (t_others (au_rt env) (sessions st))"
  shows "grows lib st (snd (logout env raw st))"
  using grows_sessions [OF same_users_revokeFamilyByToken [OF assms]]
  by (simp add: logout_def case_prod_unfold Let_def split: option.split)

text \<open>
  One call of a client. What is committed between its statements is itself a history of calls, and so is what
  commits while a family is locked.
\<close>

inductive account_step :: "auth_lib \<Rightarrow> JwtConfig \<Rightarrow> (string \<Rightarrow> string) \<Rightarrow> accounts \<Rightarrow> accounts \<Rightarrow> bool" for lib config h where
  SignupStep: "t_hash (au_rt env) = h \<Longrightarrow> \<forall>s. (account_step lib config h)\<^sup>*\<^sup>* s (au_between env s)
    \<Longrightarrow> account_step lib config h st (snd (signup lib config env body meta st))"
| LoginStep: "t_hash (au_rt env) = h \<Longrightarrow> \<forall>s. (account_step lib config h)\<^sup>*\<^sup>* s (au_between env s)
    \<Longrightarrow> account_step lib config h st (snd (login lib config env body meta st))"
| RefreshStep: "t_hash (au_rt env) = h \<Longrightarrow> \<forall>s. (account_step lib config h)\<^sup>*\<^sup>* s (au_between env s)
    \<Longrightarrow> (token_step h)\<^sup>*\<^sup>* (sessions st) (t_others (au_rt env) (sessions st))
    \<Longrightarrow> account_step lib config h st (snd (refresh lib config env raw meta st))"
| LogoutStep: "t_hash (au_rt env) = h \<Longrightarrow> (token_step h)\<^sup>*\<^sup>* (sessions st) (t_others (au_rt env) (sessions st))
    \<Longrightarrow> account_step lib config h st (snd (logout env raw st))"

lemma grows_history: "(\<lambda>a b. account_step lib config h a b \<and> grows lib a b)\<^sup>*\<^sup>* st st' \<Longrightarrow> grows lib st st'"
  by (induction rule: rtranclp_induct) (auto intro: grows_trans)

lemma account_step_grows: "account_step lib config h st st' \<Longrightarrow> grows lib st st'"
proof (induction rule: account_step.induct)
  case (SignupStep env st body meta)
  then show ?case by (intro grows_signup grows_history) blast
next
  case (LoginStep env st body meta)
  then show ?case by (intro grows_login grows_history) blast
next
  case (RefreshStep env st raw meta)
  then show ?case by (intro grows_refresh grows_history same_users_reach) blast+
next
  case (LogoutStep env st raw)
  then show ?case by (intro grows_logout same_users_reach)
qed

lemma account_reach_grows: "(account_step lib config h)\<^sup>*\<^sup>* st st' \<Longrightarrow> grows lib st st'"
  by (induction rule: rtranclp_induct) (auto intro: grows_trans account_step_grows)

definition no_accounts :: accounts where
  "no_accounts = \<lparr>users = [], sessions = \<lparr>tokens = [], user_ids = []\<rparr>\<rparr>"

lemma no_accounts_ok: "accounts_ok lib no_accounts"
  by (simp add: accounts_ok_def no_accounts_def owned_def)

text \<open>A user that exists is found, by the id and by any spelling of the address.\<close>

lemma found_by_email:
  assumes "accounts_ok lib st" "u \<in> set (users st)" "pg_lower lib email = pg_lower lib (u_email u)"
  shows "List.find (\<lambda>x. pg_lower lib (u_email x) = pg_lower lib email) (users st) = Some u"
proof -
  have "\<exists>x. List.find (\<lambda>x. pg_lower lib (u_email x) = pg_lower lib email) (users st) = Some x"
    using assms(2,3) by (metis (mono_tags, lifting) find_None_iff not_Some_eq)
  then obtain x where x: "List.find (\<lambda>x. pg_lower lib (u_email x) = pg_lower lib email) (users st) = Some x" ..
  then have "x \<in> set (users st)" "pg_lower lib (u_email x) = pg_lower lib (u_email u)"
    using assms(3) by (auto simp: find_Some_iff)
  with assms(1,2) have "x = u" by (auto simp: accounts_ok_def distinct_map inj_on_def)
  with x show ?thesis by simp
qed

lemma found_by_id: "accounts_ok lib st \<Longrightarrow> u \<in> set (users st) \<Longrightarrow> row_by u_id (u_id u) (users st) = Some u"
  by (rule row_by_unique) (simp_all add: accounts_ok_def)

lemma grows_users: "grows lib st st' \<Longrightarrow> u \<in> set (users st) \<Longrightarrow> u \<in> set (users st')"
  by (auto simp: grows_def)

text \<open>What a call that succeeded has found or made.\<close>

lemma issueTokens_Inr:
  assumes "issueTokens lib config env user meta st = (Inr res, st')"
  shows "res = buildTokenResult lib config env user (t_new_token (au_rt env)) REFRESH_TOKEN_TTL_SECONDS"
  using assms by (auto simp: issueTokens_def issue_def t_ask_def split: prod.splits if_splits sum.splits)

lemma signup_Inr:
  assumes "signup lib config env body meta st = (Inr res, st')"
  obtains cred user st1 where "parseCredentials body = Inr cred"
    "user = \<lparr>u_id = au_id env, u_email = pc_email cred, u_password_hash = bcrypt_hash lib (au_salt env) (pc_password cred),
      u_created_at = au_now env\<rparr>"
    "insert_user lib user st = Inr st1" "issueTokens lib config env user meta (au_between env st1) = (Inr res, st')"
  using assms
  by (auto simp: signup_def createUser_def Let_def users_ask_def split: sum.splits prod.splits if_splits)

section \<open>Calls on their own account\<close>

text \<open>The draws of a call are new to the tokens, and its statements arrive.\<close>

definition new_draws :: "auth_env \<Rightarrow> token_db \<Rightarrow> bool" where
  "new_draws env s \<longleftrightarrow> list_all (\<lambda>r. rt_id r \<noteq> t_new_id (au_rt env)
     \<and> rt_hash r \<noteq> t_hash (au_rt env) (t_new_token (au_rt env))) (tokens s)"

definition all_delivered :: "auth_env \<Rightarrow> bool" where
  "all_delivered env \<longleftrightarrow> au_connect env = Delivered \<and> au_query env = Delivered \<and> t_net (au_rt env) = (\<lambda>_. Delivered)"

lemma issueTokens_succeeds:
  assumes "accounts_ok lib st" "u \<in> set (users st)" "new_draws env (sessions st)" "all_delivered env"
  shows "\<exists>s. issueTokens lib config env u meta st
    = (Inr (buildTokenResult lib config env u (t_new_token (au_rt env)) REFRESH_TOKEN_TTL_SECONDS), st\<lparr>sessions := s\<rparr>)"
proof -
  have "u_id u \<in> set (user_ids (sessions st))" using assms(1,2) by (simp add: accounts_ok_def)
  with assms(3,4) have "insert_token (token_row (au_rt env) meta (u_id u) (t_new_family (au_rt env)) None) (sessions st)
      = Inr ((sessions st)\<lparr>tokens := tokens (sessions st) @ [token_row (au_rt env) meta (u_id u) (t_new_family (au_rt env)) None]\<rparr>)"
    by (simp add: insert_token_Inr new_draws_def list_all_iff)
  with assms(4) show ?thesis by (auto simp: issueTokens_def issue_def all_delivered_def t_ask_def)
qed

lemma login_found:
  assumes "accounts_ok lib st" "u \<in> set (users st)" "parseCredentials body = Inr cred"
    and "pg_lower lib (pc_email cred) = pg_lower lib (u_email u)" "all_delivered env"
  shows "login lib config env body meta st
    = (if bcrypt_compare lib (pc_password cred) (u_password_hash u) then issueTokens lib config env u meta (au_between env st)
       else (Inl (UnauthorizedException ''invalid email or password''), st))"
  using found_by_email [OF assms(1,2,4)] assms(3,5) by (simp add: login_def findByEmail_def users_ask_def all_delivered_def)

lemma user_email_sub [simp]:
  "u_id \<lparr>u_id = i, u_email = e, u_password_hash = h, u_created_at = t\<rparr> = i"
  by simp

text \<open>Who signed up is a user from then on.\<close>

lemma signed_up:
  assumes "(account_step lib config h)\<^sup>*\<^sup>* no_accounts st" "signup lib config env body meta st = (Inr res, st1)"
    and "\<And>s. (account_step lib config h)\<^sup>*\<^sup>* s (au_between env s)" "parseCredentials body = Inr cred"
  obtains user where "user \<in> set (users st1)" "accounts_ok lib st1" "u_email user = pc_email cred"
    "u_password_hash user = bcrypt_hash lib (au_salt env) (pc_password cred)" "u_id user = au_id env"
    "me_userId (at_user res) = au_id env"
proof -
  from signup_Inr [OF assms(2)] assms(4) obtain user st' where
    u: "user = \<lparr>u_id = au_id env, u_email = pc_email cred, u_password_hash = bcrypt_hash lib (au_salt env) (pc_password cred),
        u_created_at = au_now env\<rparr>"
    and i: "insert_user lib user st = Inr st'" "issueTokens lib config env user meta (au_between env st') = (Inr res, st1)"
    by (metis sum.inject(2))
  have "grows lib st' st1"
    using grows_trans [OF account_reach_grows [OF assms(3)] grows_issueTokens] i(2) by (metis snd_conv)
  moreover have "user \<in> set (users st')" "accounts_ok lib st'"
    using i(1) grows_insert [OF i(1)] account_reach_grows [OF assms(1)] no_accounts_ok [of lib]
    by (auto simp: insert_user_Inr grows_def)
  ultimately have "user \<in> set (users st1)" "accounts_ok lib st1" using grows_users by (auto simp: grows_def)
  moreover have "me_userId (at_user res) = au_id env"
    using issueTokens_Inr [OF i(2)] by (simp add: buildTokenResult_def toAuthenticatedUser_def u)
  ultimately show thesis using that u by simp
qed

section \<open>Failures half way\<close>

text \<open>
  A signup whose account is made but whose refresh token is not issued fails, and the account stays: repeating the
  request is answered that the address is taken.
\<close>

lemma failed_signup_leaves_account:
  assumes "parseCredentials body = Inr cred" "au_connect env = Delivered" "au_query env = Delivered" "au_between env = (\<lambda>s. s)"
    and "au_id env \<notin> u_id ` set (users st)"
    and "pg_lower lib (pc_email cred) \<notin> (\<lambda>x. pg_lower lib (u_email x)) ` set (users st)"
    and "t_net (au_rt env) T_CONNECT \<noteq> Delivered" "au_id env' \<noteq> au_id env" "au_id env' \<notin> u_id ` set (users st)"
    and "au_connect env' = Delivered" "au_query env' = Delivered"
  shows "fst (signup lib config env body meta st) = Inl token_lost
    \<and> fst (signup lib config env' body meta' (snd (signup lib config env body meta st)))
        = Inl (ConflictException ''email is already registered'')"
proof -
  let ?u = "\<lparr>u_id = au_id env, u_email = pc_email cred, u_password_hash = bcrypt_hash lib (au_salt env) (pc_password cred),
    u_created_at = au_now env\<rparr>"
  let ?st1 = "st\<lparr>users := users st @ [?u], sessions := (sessions st)\<lparr>user_ids := user_ids (sessions st) @ [au_id env]\<rparr>\<rparr>"
  have "insert_user lib ?u st = Inr ?st1" using assms(5,6) by (simp add: insert_user_Inr)
  then have s: "signup lib config env body meta st = (Inl token_lost, ?st1)"
    using assms(1-4,7) by (simp add: signup_def createUser_def users_ask_def issueTokens_def issue_def Let_def)
  have "list_ex (\<lambda>x. u_id x = au_id env') (users ?st1) = False" using assms(8,9) by (auto simp: list_ex_iff) (metis imageI)
  then have "insert_user lib \<lparr>u_id = au_id env', u_email = pc_email cred,
      u_password_hash = bcrypt_hash lib (au_salt env') (pc_password cred), u_created_at = au_now env'\<rparr> ?st1
    = Inl (PgError ''23505'' ''users_email_uq'')"
    by (simp add: insert_user_def)
  with s assms(1,10,11) show ?thesis by (simp add: signup_def createUser_def users_ask_def isEmailUniqueViolation_def Let_def)
qed

text \<open>A refresh whose lookup of the user fails has consumed the token all the same.\<close>

lemma failed_refresh_consumes_token:
  assumes "raw \<noteq> []" "rotate (au_rt env) raw meta (sessions st) = (Inr rotated, s)" "au_query env \<noteq> Delivered"
    and "au_between env = (\<lambda>s. s)" "tokens_ok (sessions st)" "t_others (au_rt env) (sessions st) = sessions st"
    and "t_hash (au_rt env') = t_hash (au_rt env)"
  shows "fst (refresh lib config env (Some raw) meta st) = Inl token_lost
    \<and> \<not> is_ok (fst (refresh lib config env' (Some raw) meta' (snd (refresh lib config env (Some raw) meta st))))"
proof -
  have r: "refresh lib config env (Some raw) meta st = (Inl token_lost, st\<lparr>sessions := s\<rparr>)"
    using assms(1-4) by (simp add: refresh_def findById_def users_ask_def)
  from consumed_row [OF assms(5,2)] assms(6) token_adv_refl obtain used where
    "row_by rt_hash (t_hash (au_rt env) raw) (tokens s) = Some used" "\<not> active used" by metis
  then have "\<not> is_ok (fst (rotate (au_rt env') raw meta' s))"
    using rotate_refused(1) [of "au_rt env'" raw s used meta'] assms(7) by simp
  then show ?thesis
    using r assms(1) by (auto simp: refresh_def is_ok_iff split: sum.split prod.splits)
qed

section \<open>Samples\<close>

text \<open>
  A hash that keeps the salt and the password, and tokens in clear, of which one is accepted: the laws of bcrypt
  and of JWT hold of it as far as the instances below use them.
\<close>

definition sample_payload :: JwtPayload where
  "sample_payload = \<lparr>jp_sub = ''u'', jp_email = ''ann@x.org'', jp_iat = 1, jp_exp = 901\<rparr>"

definition sample_lib :: auth_lib where
  "sample_lib = \<lparr>bcrypt_hash = (\<lambda>salt p. p @ ''$'' @ salt), bcrypt_compare = (\<lambda>p h. h = p @ ''$s''),
     jwt_sign = (\<lambda>secret p. secret @ ''.'' @ jp_sub p),
     jwt_verify = (\<lambda>secret now tok. if secret = ''k1'' \<and> tok = ''k1.u'' \<and> now < 901 then Some sample_payload else None),
     pg_lower = (\<lambda>s. s), to_iso = (\<lambda>_. ''T'')\<rparr>"

definition sample_config :: JwtConfig where
  "sample_config = \<lparr>jc_secret = ''k1'', jc_expiresIn = JWT_ACCESS_TOKEN_TTL_SECONDS\<rparr>"

definition sample_auth_env :: "string \<Rightarrow> string \<Rightarrow> string \<Rightarrow> auth_env" where
  "sample_auth_env u i tok = \<lparr>au_connect = Delivered, au_query = Delivered, au_id = u, au_now = 1000, au_salt = ''s'',
     au_iat = 1, au_rt = sample_rt_env i tok, au_between = (\<lambda>s. s)\<rparr>"

definition sample_body :: "string \<Rightarrow> jsval" where
  "sample_body password = JObject [(''email'', JString ''ann@x.org''), (''password'', JString password)]"

lemma sample_auth_env_simps [simp]:
  "au_connect (sample_auth_env u i k) = Delivered" "au_query (sample_auth_env u i k) = Delivered" "au_id (sample_auth_env u i k) = u"
  "au_salt (sample_auth_env u i k) = ''s''" "au_iat (sample_auth_env u i k) = 1"
  "au_rt (sample_auth_env u i k) = sample_rt_env i k" "au_between (sample_auth_env u i k) = (\<lambda>s. s)"
  by (simp_all add: sample_auth_env_def)

lemma sample_credentials:
  "parseCredentials (sample_body ''correct horse'') = Inr \<lparr>pc_email = ''ann@x.org'', pc_password = ''correct horse''\<rparr>"
  "parseCredentials (sample_body ''wrong battery'') = Inr \<lparr>pc_email = ''ann@x.org'', pc_password = ''wrong battery''\<rparr>"
  by code_simp+

definition sample_signed_up :: accounts where
  "sample_signed_up = snd (signup sample_lib sample_config (sample_auth_env ''u'' ''r1'' ''A'') (sample_body ''correct horse'')
     sample_meta no_accounts)"

lemma sample_signup_ok:
  "is_ok (fst (signup sample_lib sample_config (sample_auth_env ''u'' ''r1'' ''A'') (sample_body ''correct horse'') sample_meta no_accounts))"
  by code_simp

section \<open>Properties\<close>

text \<open>C33: accounts stay apart and sessions stay theirs: whatever calls are made and however they overlap, no two
  accounts have the same address up to PostgreSQL's \<open>lower\<close> or the same id, every refresh token belongs to an
  account, accounts are only added; and signing up with a taken address is answered 409 and changes nothing.\<close>

theorem one_account_per_address:
  assumes "(account_step lib config h)\<^sup>*\<^sup>* no_accounts st0" "(account_step lib config h)\<^sup>*\<^sup>* st0 st"
    and "parseCredentials body = Inr cred" "u \<in> set (users st)" "pg_lower lib (pc_email cred) = pg_lower lib (u_email u)"
    and "au_id env \<notin> u_id ` set (users st)" "au_connect env = Delivered" "au_query env = Delivered"
  shows "distinct (map (\<lambda>u. pg_lower lib (u_email u)) (users st)) \<and> distinct (map u_id (users st))
    \<and> (\<forall>r \<in> set (tokens (sessions st)). \<exists>u \<in> set (users st). rt_user r = u_id u)
    \<and> set (users st0) \<subseteq> set (users st)
    \<and> signup lib config env body meta st = (Inl (ConflictException ''email is already registered''), st)"
proof -
  have ok: "accounts_ok lib st" and more: "set (users st0) \<subseteq> set (users st)"
    using account_reach_grows [OF assms(1)] account_reach_grows [OF assms(2)] no_accounts_ok [of lib] by (auto simp: grows_def)
  have "list_ex (\<lambda>x. u_id x = au_id env) (users st) = False" using assms(6) by (auto simp: list_ex_iff) (metis imageI)
  moreover have "list_ex (\<lambda>x. pg_lower lib (u_email x) = pg_lower lib (pc_email cred)) (users st)"
    using assms(4,5) by (auto simp: list_ex_iff)
  ultimately have "signup lib config env body meta st = (Inl (ConflictException ''email is already registered''), st)"
    using assms(3,7,8) by (simp add: signup_def createUser_def insert_user_def users_ask_def isEmailUniqueViolation_def Let_def)
  with ok more show ?thesis by (fastforce simp: accounts_ok_def owned_def)
qed

text \<open>C34: a password opens the account it was registered with, and no other password does: after a signup and any
  history of calls, a login with any spelling of the address is answered with tokens for that account exactly when
  the password is the same; otherwise it is 401 and nothing changes, in the words that answer an unknown address.\<close>

theorem password_opens_its_account:
  assumes "(account_step lib config h)\<^sup>*\<^sup>* no_accounts st0" "signup lib config env body meta st0 = (Inr res, st1)"
    and "\<And>s. (account_step lib config h)\<^sup>*\<^sup>* s (au_between env s)" "(account_step lib config h)\<^sup>*\<^sup>* st1 st2"
    and "parseCredentials body = Inr cred" "parseCredentials body' = Inr cred'"
    and "pg_lower lib (pc_email cred') = pg_lower lib (pc_email cred)"
    and "\<And>p. byteLength p \<le> PASSWORD_MAX_BYTES \<Longrightarrow> bcrypt_compare lib p (bcrypt_hash lib (au_salt env) (pc_password cred)) \<longleftrightarrow> p = pc_password cred"
    and "all_delivered env'" "(account_step lib config h)\<^sup>*\<^sup>* st2 (au_between env' st2)"
    and "new_draws env' (sessions (au_between env' st2))"
  shows "if pc_password cred' = pc_password cred
    then \<exists>res' st3. login lib config env' body' meta' st2 = (Inr res', st3) \<and> me_userId (at_user res') = me_userId (at_user res)
    else login lib config env' body' meta' st2 = (Inl (UnauthorizedException ''invalid email or password''), st2)"
proof -
  from signed_up [OF assms(1,2,3,5)] obtain user where
    u: "user \<in> set (users st1)" "accounts_ok lib st1" "u_email user = pc_email cred"
      "u_password_hash user = bcrypt_hash lib (au_salt env) (pc_password cred)" "u_id user = au_id env"
      "me_userId (at_user res) = au_id env" .
  note g = account_reach_grows [OF assms(4)]
  have u2: "user \<in> set (users st2)" "accounts_ok lib st2" using g grows_users u(1,2) by (auto simp: grows_def)
  note g' = account_reach_grows [OF assms(10)]
  have u3: "user \<in> set (users (au_between env' st2))" "accounts_ok lib (au_between env' st2)"
    using g' grows_users u2 by (auto simp: grows_def)
  from issueTokens_succeeds [OF u3(2,1) assms(11,9)] obtain s where
    i: "issueTokens lib config env' user meta' (au_between env' st2)
      = (Inr (buildTokenResult lib config env' user (t_new_token (au_rt env')) REFRESH_TOKEN_TTL_SECONDS), (au_between env' st2)\<lparr>sessions := s\<rparr>)"
    by blast
  have "login lib config env' body' meta' st2
      = (if pc_password cred' = pc_password cred then issueTokens lib config env' user meta' (au_between env' st2)
         else (Inl (UnauthorizedException ''invalid email or password''), st2))"
    using login_found [OF u2(2,1) assms(6) _ assms(9)] assms(7,8) parsed_bytes [OF assms(6)] u(3,4) by simp
  with i u(5,6) show ?thesis by (simp add: buildTokenResult_def toAuthenticatedUser_def)
qed

lemma sample_signed_up_reached:
  "(account_step sample_lib sample_config sample_rt_hash)\<^sup>*\<^sup>* no_accounts sample_signed_up"
proof (rule r_into_rtranclp)
  show "account_step sample_lib sample_config sample_rt_hash no_accounts sample_signed_up"
    unfolding sample_signed_up_def by (rule SignupStep) simp_all
qed

lemma one_account_per_address_witness:
  "distinct (map u_id (users sample_signed_up))
   \<and> fst (signup sample_lib sample_config (sample_auth_env ''v'' ''r2'' ''B'') (sample_body ''wrong battery'') sample_meta sample_signed_up)
     = Inl (ConflictException ''email is already registered'')"
proof -
  have u: "users sample_signed_up ! 0 \<in> set (users sample_signed_up)"
    "pg_lower sample_lib ''ann@x.org'' = pg_lower sample_lib (u_email (users sample_signed_up ! 0))"
    "''v'' \<notin> u_id ` set (users sample_signed_up)" by code_simp+
  from one_account_per_address [OF sample_signed_up_reached rtranclp.rtrancl_refl sample_credentials(2) u(1),
      of "sample_auth_env ''v'' ''r2'' ''B''" sample_meta]
  show ?thesis using u(2,3) by simp
qed

lemma password_opens_its_account_witness:
  "is_ok (fst (login sample_lib sample_config (sample_auth_env ''w'' ''r2'' ''B'') (sample_body ''correct horse'') sample_meta sample_signed_up))
   \<and> fst (login sample_lib sample_config (sample_auth_env ''w'' ''r2'' ''B'') (sample_body ''wrong battery'') sample_meta sample_signed_up)
     = Inl (UnauthorizedException ''invalid email or password'')"
proof -
  have lib: "bcrypt_compare sample_lib p (bcrypt_hash sample_lib ''s'' pw) \<longleftrightarrow> p = pw" for p pw
    by (auto simp: sample_lib_def)
  have draws: "new_draws (sample_auth_env ''w'' ''r2'' ''B'') (sessions sample_signed_up)" by code_simp
  obtain res where s: "signup sample_lib sample_config (sample_auth_env ''u'' ''r1'' ''A'') (sample_body ''correct horse'')
      sample_meta no_accounts = (Inr res, sample_signed_up)"
    using sample_signup_ok unfolding sample_signed_up_def by (metis is_ok_iff prod.collapse)
  note w = password_opens_its_account [OF rtranclp.rtrancl_refl s _ rtranclp.rtrancl_refl sample_credentials(1),
      where h = sample_rt_hash and env' = "sample_auth_env ''w'' ''r2'' ''B''" and meta' = sample_meta]
  from w [OF _ sample_credentials(1)] w [OF _ sample_credentials(2)] draws show ?thesis
    by (auto simp: lib all_delivered_def)
qed

end
