(* ===== verification/AuthApi.thy ===== *)
theory AuthApi
  imports Accounts RateLimit
begin

text \<open>
  The HTTP side of the accounts: the address of the client (src/auth/client-ip.ts), the cookies
  (src/auth/auth-cookie.ts), the guard of the access tokens (src/auth/jwt-auth.guard.ts) and the handlers of
  src/auth/auth.controller.ts, which put the rate limiter in front of the service. A response is its result and
  what is written to its headers.
\<close>

section \<open>Requests and responses\<close>

datatype header = NoHeader | OneHeader string | ManyHeaders "string list"

record http_request =
  rq_authorization :: "string option"
  rq_forwarded :: header
  rq_user_agent :: header
  rq_ip :: "string option"
  rq_cookies :: "(string \<times> string) list"
  rq_body :: jsval

text \<open>What all requests of a deployment share: \<open>process.env\<close>, \<open>Number\<close>, \<open>JSON.parse\<close>, SHA-256 and the libraries.\<close>

record deployment =
  dp_env :: env
  dp_to_number :: "string \<Rightarrow> jsnum"
  dp_json :: "string \<Rightarrow> jsval option"
  dp_sha256 :: "string \<Rightarrow> string"
  dp_lib :: auth_lib
  dp_config :: JwtConfig

text \<open>What one request meets: Valkey's answers, the service's environment and the second of the clock.\<close>

record http_env =
  he_net :: "nat \<Rightarrow> link"
  he_auth :: auth_env
  he_now :: int

definition rate_env :: "deployment \<Rightarrow> number_env" where
  "rate_env d name = map_option (dp_to_number d) (getOptionalEnv (dp_env d) name)"

section \<open>The address of the client\<close>

fun split_on :: "char \<Rightarrow> string \<Rightarrow> string list" where
  "split_on d [] = [[]]"
| "split_on d (c # cs) = (if c = d then [] # split_on d cs else (c # hd (split_on d cs)) # tl (split_on d cs))"

definition trim :: "string \<Rightarrow> string" where
  "trim s = rev (dropWhile is_js_space (rev (dropWhile is_js_space s)))"

fun join_commas :: "string list \<Rightarrow> string" where
  "join_commas [] = []"
| "join_commas [x] = x"
| "join_commas (x # y # ys) = x @ '','' @ join_commas (y # ys)"

definition normalizeHeader :: "header \<Rightarrow> string option" where
  "normalizeHeader v = (case v of NoHeader \<Rightarrow> None | OneHeader s \<Rightarrow> Some s | ManyHeaders ss \<Rightarrow> Some (join_commas ss))"

definition parseTrustedProxyHops :: "deployment \<Rightarrow> int" where
  "parseTrustedProxyHops d =
     (case getOptionalEnv (dp_env d) ''RATE_LIMIT_TRUSTED_PROXY_HOPS'' of
        None \<Rightarrow> 0
      | Some raw \<Rightarrow>
          let hops = JNumber (dp_to_number d raw)
          in if \<not> isInteger hops \<or> number_value hops < 0 then 0 else number_value hops)"

definition resolveClientIp :: "deployment \<Rightarrow> http_request \<Rightarrow> string option" where
  "resolveClientIp d request =
     (let hops = parseTrustedProxyHops d
      in case normalizeHeader (rq_forwarded request) of
           None \<Rightarrow> rq_ip request
         | Some forwardedFor \<Rightarrow>
             if \<not> (hops > 0 \<and> forwardedFor \<noteq> []) then rq_ip request
             else (let entries = filter (\<lambda>e. length e > 0) (map trim (split_on (CHR '','') forwardedFor));
                       index = int (length entries) - 1 - hops
                   in if index \<ge> 0 then Some (entries ! nat index) else rq_ip request))"

section \<open>Cookies\<close>

definition AUTH_COOKIE_NAME :: string where "AUTH_COOKIE_NAME = ''access_token''"

definition REFRESH_COOKIE_NAME :: string where "REFRESH_COOKIE_NAME = ''refresh_token''"

definition REFRESH_COOKIE_PATH :: string where "REFRESH_COOKIE_PATH = ''/api/auth''"

record cookie_options =
  ck_httpOnly :: bool
  ck_secure :: bool
  ck_sameSite :: string
  ck_path :: string
  ck_maxAge :: int

datatype reply_op = SetCookie string string cookie_options | ClearCookie string cookie_options | RetryAfter int

definition authCookieOptions :: "deployment \<Rightarrow> cookie_options" where
  "authCookieOptions d = \<lparr>ck_httpOnly = True, ck_secure = dp_env d ''COOKIE_SECURE'' \<noteq> Some ''false'', ck_sameSite = ''lax'',
     ck_path = ''/'', ck_maxAge = JWT_ACCESS_TOKEN_TTL_SECONDS\<rparr>"

definition refreshCookieOptions :: "deployment \<Rightarrow> cookie_options" where
  "refreshCookieOptions d = \<lparr>ck_httpOnly = True, ck_secure = dp_env d ''COOKIE_SECURE'' \<noteq> Some ''false'', ck_sameSite = ''lax'',
     ck_path = REFRESH_COOKIE_PATH, ck_maxAge = REFRESH_TOKEN_TTL_SECONDS\<rparr>"

definition setAuthCookie :: "deployment \<Rightarrow> string \<Rightarrow> reply_op" where
  "setAuthCookie d accessToken = SetCookie AUTH_COOKIE_NAME accessToken (authCookieOptions d)"

definition clearAuthCookie :: "deployment \<Rightarrow> reply_op" where
  "clearAuthCookie d = ClearCookie AUTH_COOKIE_NAME (authCookieOptions d)"

definition setRefreshCookie :: "deployment \<Rightarrow> string \<Rightarrow> reply_op" where
  "setRefreshCookie d refreshToken = SetCookie REFRESH_COOKIE_NAME refreshToken (refreshCookieOptions d)"

definition clearRefreshCookie :: "deployment \<Rightarrow> reply_op" where
  "clearRefreshCookie d = ClearCookie REFRESH_COOKIE_NAME (refreshCookieOptions d)"

section \<open>The guard\<close>

text \<open>\<open>toLowerCase\<close> on code units below 256.\<close>

definition lower_unit :: "char \<Rightarrow> char" where
  "lower_unit c = (let n = (of_char c :: nat)
     in if (65 \<le> n \<and> n \<le> 90) \<or> (192 \<le> n \<and> n \<le> 222 \<and> n \<noteq> 215) then char_of (n + 32) else c)"

definition toLowerCase :: "string \<Rightarrow> string" where
  "toLowerCase s = map lower_unit s"

definition extractBearerToken :: "string option \<Rightarrow> string option" where
  "extractBearerToken authorization =
     (case present authorization of
        None \<Rightarrow> None
      | Some a \<Rightarrow>
          (case split_on (CHR '' '') a of
             scheme # token # _ \<Rightarrow> if toLowerCase scheme \<noteq> ''bearer'' \<or> token = [] then None else Some token
           | _ \<Rightarrow> None))"

definition verifyWithPreviousSecret :: "deployment \<Rightarrow> int \<Rightarrow> string \<Rightarrow> JwtPayload option" where
  "verifyWithPreviousSecret d now token =
     (case getJwtSecrets (dp_json d) (dp_env d) of
        Inl e \<Rightarrow> None
      | Inr secrets \<Rightarrow>
          (case present (js_previous secrets) of
             None \<Rightarrow> None
           | Some previous \<Rightarrow> jwt_verify (dp_lib d) previous now token))"

definition canActivate :: "deployment \<Rightarrow> int \<Rightarrow> http_request \<Rightarrow> JwtPayload result" where
  "canActivate d now request =
     (let token = (case extractBearerToken (rq_authorization request) of
                     Some t \<Rightarrow> Some t
                   | None \<Rightarrow> map_of (rq_cookies request) AUTH_COOKIE_NAME)
      in case present token of
           None \<Rightarrow> Inl (UnauthorizedException ''missing bearer token or auth cookie'')
         | Some t \<Rightarrow>
             (case jwt_verify (dp_lib d) (jc_secret (dp_config d)) now t of
                Some payload \<Rightarrow> Inr payload
              | None \<Rightarrow>
                  (case verifyWithPreviousSecret d now t of
                     Some previousPayload \<Rightarrow> Inr previousPayload
                   | None \<Rightarrow> Inl (UnauthorizedException ''invalid or expired token''))))"

section \<open>The handlers\<close>

definition extractBodyEmail :: "jsval \<Rightarrow> string option" where
  "extractBodyEmail body =
     (case body of
        JObject fs \<Rightarrow> (case get_field fs ''email'' of
            JString email \<Rightarrow> if length email > 0 then Some (toLowerCase email) else None
          | _ \<Rightarrow> None)
      | _ \<Rightarrow> None)"

definition extractBodyRefreshToken :: "jsval \<Rightarrow> string option" where
  "extractBodyRefreshToken body =
     (case body of
        JObject fs \<Rightarrow> (case get_field fs ''refreshToken'' of
            JString token \<Rightarrow> if length token > 0 then Some token else None
          | _ \<Rightarrow> None)
      | _ \<Rightarrow> None)"

definition clientMeta :: "deployment \<Rightarrow> http_request \<Rightarrow> TokenClientMeta" where
  "clientMeta d request =
     \<lparr>meta_ip = resolveClientIp d request,
      meta_agent = (case rq_user_agent request of OneHeader s \<Rightarrow> Some s | _ \<Rightarrow> None)\<rparr>"

definition enforceRateLimit ::
    "deployment \<Rightarrow> http_env \<Rightarrow> RateLimitedEndpoint \<Rightarrow> RateLimitSubject \<Rightarrow> 'a cache_io_scheme
       \<Rightarrow> unit result \<times> reply_op list \<times> 'a cache_io_scheme" where
  "enforceRateLimit d env endpoint subject w =
     (case enforce (rate_env d) (he_net env) endpoint subject w of
        (Inl e, w') \<Rightarrow> (Inl e, (case extractRetryAfterSeconds e of Some n \<Rightarrow> [RetryAfter n] | None \<Rightarrow> []), w')
      | (Inr _, w') \<Rightarrow> (Inr (), [], w'))"

type_synonym 'a response = "AuthTokenResult result \<times> reply_op list \<times> 'a cache_io_scheme \<times> accounts"

definition token_cookies :: "deployment \<Rightarrow> AuthTokenResult result \<Rightarrow> reply_op list" where
  "token_cookies d r =
     (case r of Inl e \<Rightarrow> [] | Inr result \<Rightarrow> [setAuthCookie d (at_accessToken result), setRefreshCookie d (at_refreshToken result)])"

definition signup_handler :: "deployment \<Rightarrow> http_env \<Rightarrow> http_request \<Rightarrow> 'a cache_io_scheme \<Rightarrow> accounts \<Rightarrow> 'a response" where
  "signup_handler d env request w st =
     (case enforceRateLimit d env Signup
             \<lparr>sub_ip = resolveClientIp d request, sub_secondary = extractBodyEmail (rq_body request)\<rparr> w of
        (Inl e, ops, w') \<Rightarrow> (Inl e, ops, w', st)
      | (Inr _, ops, w') \<Rightarrow>
          (let (r, st') = signup (dp_lib d) (dp_config d) (he_auth env) (rq_body request) (clientMeta d request) st
           in (r, ops @ token_cookies d r, w', st')))"

definition login_handler :: "deployment \<Rightarrow> http_env \<Rightarrow> http_request \<Rightarrow> 'a cache_io_scheme \<Rightarrow> accounts \<Rightarrow> 'a response" where
  "login_handler d env request w st =
     (case enforceRateLimit d env Login
             \<lparr>sub_ip = resolveClientIp d request, sub_secondary = extractBodyEmail (rq_body request)\<rparr> w of
        (Inl e, ops, w') \<Rightarrow> (Inl e, ops, w', st)
      | (Inr _, ops, w') \<Rightarrow>
          (let (r, st') = login (dp_lib d) (dp_config d) (he_auth env) (rq_body request) (clientMeta d request) st
           in (r, ops @ token_cookies d r, w', st')))"

definition raw_refresh_token :: "http_request \<Rightarrow> string option" where
  "raw_refresh_token request =
     (case extractBodyRefreshToken (rq_body request) of
        Some t \<Rightarrow> Some t
      | None \<Rightarrow> map_of (rq_cookies request) REFRESH_COOKIE_NAME)"

definition refresh_handler :: "deployment \<Rightarrow> http_env \<Rightarrow> http_request \<Rightarrow> 'a cache_io_scheme \<Rightarrow> accounts \<Rightarrow> 'a response" where
  "refresh_handler d env request w st =
     (let rawToken = raw_refresh_token request
      in case enforceRateLimit d env Refresh
             \<lparr>sub_ip = resolveClientIp d request, sub_secondary = map_option (dp_sha256 d) (present rawToken)\<rparr> w of
        (Inl e, ops, w') \<Rightarrow> (Inl e, ops, w', st)
      | (Inr _, ops, w') \<Rightarrow>
          (let (r, st') = refresh (dp_lib d) (dp_config d) (he_auth env) rawToken (clientMeta d request) st
           in (r, ops @ (case r of Inl e \<Rightarrow> [clearAuthCookie d, clearRefreshCookie d] | Inr _ \<Rightarrow> token_cookies d r), w', st')))"

definition logout_handler :: "deployment \<Rightarrow> http_env \<Rightarrow> http_request \<Rightarrow> accounts \<Rightarrow> unit result \<times> reply_op list \<times> accounts" where
  "logout_handler d env request st =
     (case logout (he_auth env) (raw_refresh_token request) st of
        (Inl e, st') \<Rightarrow> (Inl e, [], st')
      | (Inr _, st') \<Rightarrow> (Inr (), [clearAuthCookie d, clearRefreshCookie d], st'))"

definition me_handler :: "deployment \<Rightarrow> http_env \<Rightarrow> http_request \<Rightarrow> accounts \<Rightarrow> AuthenticatedUser result" where
  "me_handler d env request st =
     bind_result (canActivate d (he_now env) request) (\<lambda>user. getMe (dp_lib d) (he_auth env) user st)"

section \<open>Forwarded addresses\<close>

lemma split_on_not_Nil [simp]: "split_on d s \<noteq> []"
  by (cases s) auto

lemma split_on_append: "split_on d (a @ d # b) = split_on d a @ split_on d b"
  by (induction a) (auto simp: hd_append)

lemma split_on_single: "d \<notin> set s \<Longrightarrow> split_on d s = [s]"
  by (induction s) auto

lemma split_join_commas: "xs \<noteq> [] \<Longrightarrow> split_on (CHR '','') (join_commas xs) = concat (map (split_on (CHR '','')) xs)"
  by (induction xs rule: join_commas.induct) (simp_all add: split_on_append)

text \<open>The entries of a header, and those that one proxy adds.\<close>

definition entries :: "string \<Rightarrow> string list" where
  "entries s = filter (\<lambda>e. length e > 0) (map trim (split_on (CHR '','') s))"

definition one_address :: "string \<Rightarrow> bool" where
  "one_address a \<longleftrightarrow> CHR '','' \<notin> set a \<and> trim a \<noteq> []"

lemma resolveClientIp_entries:
  assumes "normalizeHeader (rq_forwarded request) = Some f" "0 < parseTrustedProxyHops d" "f \<noteq> []"
  shows "resolveClientIp d request = (let index = int (length (entries f)) - 1 - parseTrustedProxyHops d
    in if index \<ge> 0 then Some (entries f ! nat index) else rq_ip request)"
  using assms unfolding resolveClientIp_def entries_def Let_def by simp

lemma entries_join: "xs \<noteq> [] \<Longrightarrow> entries (join_commas xs) = concat (map entries xs)"
  by (simp add: entries_def [abs_def] split_join_commas map_concat filter_concat o_def)

lemma entries_one: "one_address a \<Longrightarrow> entries a = [trim a]"
  by (simp add: entries_def one_address_def split_on_single)

lemma entries_many: "list_all one_address as \<Longrightarrow> concat (map entries as) = map trim as"
  by (induction as) (simp_all add: entries_one)

lemma join_commas_Nil: "join_commas (xs @ a # ys) = [] \<Longrightarrow> a = []"
  by (induction xs rule: join_commas.induct; cases ys) auto

section \<open>Tokens and sessions\<close>

text \<open>The calls that hand out tokens.\<close>

definition grants :: "auth_lib \<Rightarrow> JwtConfig \<Rightarrow> auth_env \<Rightarrow> accounts \<Rightarrow> AuthTokenResult \<Rightarrow> accounts \<Rightarrow> bool" where
  "grants lib config env st res st' \<longleftrightarrow> (\<exists>body meta. signup lib config env body meta st = (Inr res, st'))
     \<or> (\<exists>body meta. login lib config env body meta st = (Inr res, st'))
     \<or> (\<exists>raw meta. refresh lib config env raw meta st = (Inr res, st'))"

lemma grants_step:
  assumes "grants lib config env st res st'" "\<And>s. (account_step lib config (t_hash (au_rt env)))\<^sup>*\<^sup>* s (au_between env s)"
    and "(token_step (t_hash (au_rt env)))\<^sup>*\<^sup>* (sessions st) (t_others (au_rt env) (sessions st))"
  shows "account_step lib config (t_hash (au_rt env)) st st'"
proof -
  have between: "\<forall>s. (account_step lib config (t_hash (au_rt env)))\<^sup>*\<^sup>* s (au_between env s)" using assms(2) by blast
  from assms(1) consider body meta where "signup lib config env body meta st = (Inr res, st')"
    | body meta where "login lib config env body meta st = (Inr res, st')"
    | raw meta where "refresh lib config env raw meta st = (Inr res, st')" unfolding grants_def by blast
  then show ?thesis
  proof cases
    case (1 body meta)
    with SignupStep [OF refl between, of st body meta] show ?thesis by simp
  next
    case (2 body meta)
    with LoginStep [OF refl between, of st body meta] show ?thesis by simp
  next
    case (3 raw meta)
    with RefreshStep [OF refl between assms(3), of raw meta] show ?thesis by simp
  qed
qed

lemma grants_user:
  assumes "grants lib config env st res st'" "accounts_ok lib st"
    and "\<And>s. (account_step lib config (t_hash (au_rt env)))\<^sup>*\<^sup>* s (au_between env s)"
  obtains user tok ttl where "user \<in> set (users st')" "res = buildTokenResult lib config env user tok ttl"
proof -
  have g: "grows lib s (au_between env s)" for s by (rule account_reach_grows [OF assms(3)])
  note result = that
  have issued: thesis if "issueTokens lib config env user meta s = (Inr res, st')" "user \<in> set (users s)" for user meta s
  proof (rule result [rotated])
    show "res = buildTokenResult lib config env user (t_new_token (au_rt env)) REFRESH_TOKEN_TTL_SECONDS"
      by (rule issueTokens_Inr [OF that(1)])
    show "user \<in> set (users st')" using grows_issueTokens [of lib s config env user meta] that grows_users by (metis snd_conv)
  qed
  from assms(1) consider body meta where "signup lib config env body meta st = (Inr res, st')"
    | body meta where "login lib config env body meta st = (Inr res, st')"
    | raw meta where "refresh lib config env raw meta st = (Inr res, st')" unfolding grants_def by blast
  then show thesis
  proof cases
    case 1
    then obtain user st1 where i: "insert_user lib user st = Inr st1" "issueTokens lib config env user meta (au_between env st1) = (Inr res, st')"
      by (rule signup_Inr) blast
    have "user \<in> set (users (au_between env st1))" using i(1) grows_users [OF g] by (auto simp: insert_user_Inr)
    with i(2) show thesis by (rule issued)
  next
    case 2
    then obtain user where f: "user \<in> set (users st)" and i: "issueTokens lib config env user meta (au_between env st) = (Inr res, st')"
      by (auto simp: login_def findByEmail_def users_ask_def Let_def find_Some_iff in_set_conv_nth split: sum.splits option.splits if_splits)
    show thesis by (rule issued [OF i grows_users [OF g f]])
  next
    case 3
    then have "\<exists>user tok ttl. user \<in> set (users st') \<and> res = buildTokenResult lib config env user tok ttl"
      by (auto simp: refresh_def findById_def users_ask_def Let_def split: sum.splits option.splits if_splits prod.splits
          dest: row_by_Some)
    then show thesis using result by blast
  qed
qed

text \<open>A request that carries a token, in its header or in its cookie.\<close>

definition carries :: "http_request \<Rightarrow> string \<Rightarrow> bool" where
  "carries request token \<longleftrightarrow> token \<noteq> [] \<and>
     (rq_authorization request = Some (''Bearer '' @ token) \<and> CHR '' '' \<notin> set token
      \<or> rq_authorization request = None \<and> map_of (rq_cookies request) AUTH_COOKIE_NAME = Some token)"

lemma bearer_token:
  assumes "token \<noteq> []" "CHR '' '' \<notin> set token"
  shows "extractBearerToken (Some (''Bearer '' @ token)) = Some token"
proof -
  have "split_on (CHR '' '') (''Bearer'' @ CHR '' '' # token) = [''Bearer'', token]"
    unfolding split_on_append using assms(2) by (simp add: split_on_single)
  moreover have "toLowerCase ''Bearer'' = ''bearer''" by code_simp
  ultimately show ?thesis using assms(1) by (simp add: extractBearerToken_def present_def)
qed

lemma canActivate_token:
  assumes "carries request token"
  shows "canActivate d now request = (case jwt_verify (dp_lib d) (jc_secret (dp_config d)) now token of
      Some payload \<Rightarrow> Inr payload
    | None \<Rightarrow> (case verifyWithPreviousSecret d now token of
        Some payload \<Rightarrow> Inr payload | None \<Rightarrow> Inl (UnauthorizedException ''invalid or expired token'')))"
proof -
  have "present (case extractBearerToken (rq_authorization request) of
      Some t \<Rightarrow> Some t | None \<Rightarrow> map_of (rq_cookies request) AUTH_COOKIE_NAME) = Some token"
    using assms bearer_token [of token] by (auto simp: carries_def present_def extractBearerToken_def)
  then show ?thesis by (simp add: canActivate_def Let_def)
qed

section \<open>Attempts against one account\<close>

text \<open>Requests to log in, with the seconds before each of them.\<close>

fun login_attempts ::
    "deployment \<Rightarrow> (int \<times> http_env \<times> http_request) list \<Rightarrow> 'a cache_io_scheme \<Rightarrow> accounts \<Rightarrow> AuthTokenResult result list" where
  "login_attempts d [] w st = []"
| "login_attempts d ((dt, env, request) # rest) w st =
     (let (r, ops, w', st') = login_handler d env request (advance dt w) st in r # login_attempts d rest w' st')"

text \<open>An attempt that got past the limiter, which is the only one to answer 429.\<close>

definition let_through :: "'a result \<Rightarrow> bool" where
  "let_through r \<longleftrightarrow> (case r of Inl (HttpException status msg n) \<Rightarrow> False | _ \<Rightarrow> True)"

definition guesses :: "string \<Rightarrow> (int \<times> http_env \<times> http_request) list \<Rightarrow> AuthTokenResult result list \<Rightarrow> nat" where
  "guesses email requests answers =
     length (filter (\<lambda>((dt, env, request), r). extractBodyEmail (rq_body request) = Some email \<and> let_through r) (zip requests answers))"

definition limiter_call :: "deployment \<Rightarrow> int \<times> http_env \<times> http_request \<Rightarrow> rl_call" where
  "limiter_call d c = (case c of (dt, env, request) \<Rightarrow>
     (dt, Login, \<lparr>sub_ip = resolveClientIp d request, sub_secondary = extractBodyEmail (rq_body request)\<rparr>))"

definition email_limit :: "deployment \<Rightarrow> int" where
  "email_limit d = readPositiveIntEnv (rate_env d) ''AUTH_RATE_LIMIT_LOGIN_SECONDARY'' 10"

lemma email_limit_positive: "0 < email_limit d"
  by (auto simp: email_limit_def readPositiveIntEnv_def split: option.split)

lemma enforce_error: "fst (enforce env net endpoint subject w) = Inl e \<Longrightarrow> \<exists>n. e = HttpException 429 ''too many requests'' n \<and> 0 < n"
  by (auto simp: enforce_def split: if_splits prod.splits option.splits)

lemma login_not_429: "let_through (fst (login lib config env body meta st))"
proof (cases "fst (login lib config env body meta st)")
  case (Inl e)
  have "e \<noteq> HttpException a b n" for a b n
    using Inl by (auto simp: login_def parseCredentials_def findByEmail_def users_ask_def issueTokens_def issue_def t_ask_def
        insert_token_def token_lost_def Let_def split: jsval.splits sum.splits option.splits if_splits)
  with Inl show ?thesis by (cases e) (simp_all add: let_through_def, blast)
qed (simp add: let_through_def)

text \<open>The limiter sees the requests as a history of its own calls.\<close>

lemma attempts_are_limiter_calls:
  assumes "list_all (\<lambda>(dt, env, request). he_net env = (\<lambda>_. Delivered)) requests"
  shows "map let_through (login_attempts d requests w st) = fst (run_calls (rate_env d) (map (limiter_call d) requests) w)"
  using assms
proof (induction requests arbitrary: w st)
  case (Cons c requests)
  obtain dt env request where c: "c = (dt, env, request)" by (rule prod_cases3)
  obtain r w1 where r: "enforce (rate_env d) (\<lambda>_. Delivered) Login
      \<lparr>sub_ip = resolveClientIp d request, sub_secondary = extractBodyEmail (rq_body request)\<rparr> (advance dt w) = (r, w1)" by fastforce
  have n: "he_net env = (\<lambda>_. Delivered)" using Cons.prems by (simp add: c)
  show ?case
  proof (cases r)
    case (Inl e)
    with enforce_error [of _ "\<lambda>_. Delivered" _ _ _ e] r obtain k where e: "e = HttpException 429 ''too many requests'' k" by (metis fst_conv)
    with Inl r n Cons show ?thesis
      by (simp add: c limiter_call_def login_handler_def enforceRateLimit_def case_prod_unfold let_through_def Let_def)
  next
    case (Inr u)
    with r n Cons login_not_429 show ?thesis
      by (simp add: c limiter_call_def login_handler_def enforceRateLimit_def case_prod_unfold Let_def)
  qed
qed simp

lemma email_check:
  assumes "extractBodyEmail (rq_body request) = Some email"
  shows "(''ratelimit:login:sub:'' @ email, email_limit d) \<in> set (limit_checks (rate_env d) Login
    \<lparr>sub_ip = resolveClientIp d request, sub_secondary = extractBodyEmail (rq_body request)\<rparr>)"
proof -
  have "email \<noteq> []" using assms by (auto simp: extractBodyEmail_def toLowerCase_def split: jsval.splits if_splits)
  moreover have "''AUTH_RATE_LIMIT_'' @ toUpperCase (endpoint_name Login) @ ''_SECONDARY'' = ''AUTH_RATE_LIMIT_LOGIN_SECONDARY''" by code_simp
  moreover have "snd (DEFAULT_LIMITS Login) = 10" by (simp add: DEFAULT_LIMITS_def)
  ultimately show ?thesis
    using assms by (simp add: limit_checks_def present_def email_limit_def endpoint_name_def)
qed

lemma guesses_accepted:
  assumes "length answers = length requests"
  shows "int (guesses email requests answers)
    \<le> accepted (rate_env d) (''ratelimit:login:sub:'' @ email, email_limit d) (map (limiter_call d) requests) (map let_through answers)"
  using assms
proof (induction requests answers rule: list_induct2')
  case (4 c requests r answers)
  obtain dt env request where c: "c = (dt, env, request)" by (rule prod_cases3)
  with 4 email_check [of request email d] show ?case by (auto simp: guesses_def limiter_call_def)
qed (simp_all add: guesses_def)

lemma length_login_attempts [simp]: "length (login_attempts d requests w st) = length requests"
  by (induction requests arbitrary: w st) (auto simp: case_prod_unfold Let_def)

section \<open>Properties\<close>

text \<open>C35: a session is recognised for its fifteen minutes and no longer, through a rotation of the secret: whatever
  calls follow a signup, a login or a refresh, and whichever process of the deployment gets the request, the
  access token opens the account of its owner exactly as long as the token has not expired and its secret is the
  current or the previous one; otherwise it is 401.\<close>

theorem session_is_recognised:
  assumes "(account_step lib config (t_hash (au_rt env)))\<^sup>*\<^sup>* no_accounts st0" "grants lib config env st0 res st1"
    and "\<And>s. (account_step lib config (t_hash (au_rt env)))\<^sup>*\<^sup>* s (au_between env s)"
    and "(token_step (t_hash (au_rt env)))\<^sup>*\<^sup>* (sessions st0) (t_others (au_rt env) (sessions st0))"
    and "(account_step lib config (t_hash (au_rt env)))\<^sup>*\<^sup>* st1 st2" "jc_expiresIn config = JWT_ACCESS_TOKEN_TTL_SECONDS"
    and "dp_lib d = lib" "getJwtConfig (dp_json d) (dp_env d) = Inr (dp_config d)" "getJwtSecrets (dp_json d) (dp_env d) = Inr secrets"
    and "payload = \<lparr>jp_sub = me_userId (at_user res), jp_email = me_email (at_user res), jp_iat = au_iat env, jp_exp = au_iat env + 900\<rparr>"
    and "\<And>secret now. jwt_verify lib secret now (jwt_sign lib (jc_secret config) payload)
           = (if secret = jc_secret config \<and> now < jp_exp payload then Some payload else None)"
    and "carries request (at_accessToken res)" "all_delivered (he_auth env')"
  shows "me_handler d env' request st2 =
    (if he_now env' < au_iat env + 900 \<and> (jc_secret config = js_current secrets \<or> Some (jc_secret config) = js_previous secrets)
     then Inr (at_user res) else Inl (UnauthorizedException ''invalid or expired token''))"
proof -
  have ok0: "accounts_ok lib st0" using account_reach_grows [OF assms(1)] no_accounts_ok [of lib] by (simp add: grows_def)
  note step = grants_step [OF assms(2,3,4)]
  have ok2: "accounts_ok lib st2"
    using account_step_grows [OF step] account_reach_grows [OF assms(5)] ok0 by (simp add: grows_def)
  from grants_user [OF assms(2) ok0 assms(3)] obtain user tok ttl where
    u: "user \<in> set (users st1)" "res = buildTokenResult lib config env user tok ttl" .
  have u2: "user \<in> set (users st2)" by (rule grows_users [OF account_reach_grows [OF assms(5)] u(1)])
  have sub: "jp_sub payload = u_id user" "at_user res = toAuthenticatedUser lib user"
    and token: "at_accessToken res = jwt_sign lib (jc_secret config) payload"
    using assms(6) by (simp_all add: assms(10) u(2) buildTokenResult_def toAuthenticatedUser_def JWT_ACCESS_TOKEN_TTL_SECONDS_def)
  have me: "getMe lib (he_auth env') payload st2 = Inr (at_user res)"
    using found_by_id [OF ok2 u2] assms(13) by (simp add: getMe_def findById_def users_ask_def all_delivered_def sub)
  have current: "jc_secret (dp_config d) = js_current secrets" using assms(8,9) by (simp add: getJwtConfig_def) (metis JwtConfig.select_convs(1))
  have "jp_exp payload = au_iat env + 900" by (simp add: assms(10))
  note law = assms(11) [unfolded this]
  have cur: "jwt_verify (dp_lib d) (jc_secret (dp_config d)) now (at_accessToken res)
      = (if js_current secrets = jc_secret config \<and> now < au_iat env + 900 then Some payload else None)" for now
    unfolding assms(7) token current by (rule law)
  have prev: "verifyWithPreviousSecret d now (at_accessToken res)
      = (if Some (jc_secret config) = js_previous secrets \<and> now < au_iat env + 900 then Some payload else None)" for now
    using secrets_are_not_empty [OF assms(9)] assms(7,9) by (auto simp: verifyWithPreviousSecret_def token law present_def split: option.splits)
  show ?thesis unfolding me_handler_def canActivate_token [OF assms(12)] cur prev using me by (auto simp: assms(7))
qed

text \<open>C36: guessing a password is bounded: within one window after no attempt on an address was counted, however many
  requests from however many clients try to log in to it, at most as many of them as the limit allows are
  compared with the password; all others are answered 429. (Valkey answers; without it the limiter lets all pass.)\<close>

theorem guesses_per_window_are_bounded:
  assumes "client_enabled w" "vk_get (''ratelimit:login:sub:'' @ email) (vk w) = None"
    and "list_all (\<lambda>(dt, env, request). 0 \<le> dt \<and> he_net env = (\<lambda>_. Delivered)) requests"
    and "sum_list (map fst requests) < window_seconds (rate_env d)"
  shows "int (guesses email requests (login_attempts d requests w st)) \<le> email_limit d"
proof -
  define k where "k = ''ratelimit:login:sub:'' @ email"
  let ?calls = "map (limiter_call d) requests"
  have net: "list_all (\<lambda>(dt, env, request). he_net env = (\<lambda>_. Delivered)) requests"
    and dt: "\<forall>c \<in> set ?calls. 0 \<le> fst c" using assms(3) by (auto simp: list_all_iff limiter_call_def)
  have "map fst ?calls = map fst requests" by (simp add: limiter_call_def case_prod_unfold)
  then have sum: "sum_list (map fst ?calls) = sum_list (map fst requests)" by (rule arg_cong)
  obtain oks w' where run: "run_calls (rate_env d) ?calls w = (oks, w')" by fastforce
  have absent: "vk_get k (vk w) = None" using assms(2) by (simp only: k_def)
  then have "keeps_until (clock (vk w) + window_seconds (rate_env d)) k (vk w)" by (simp add: keeps_until_def)
  from run_calls_bounded [OF assms(1) this order.refl dt _ run, of "email_limit d"]
  have "accepted (rate_env d) (k, email_limit d) ?calls oks \<le> max 0 (email_limit d - cval k (vk w))"
    using assms(4) unfolding sum by simp
  then have "accepted (rate_env d) (k, email_limit d) ?calls oks \<le> email_limit d"
    using absent email_limit_positive [of d] by (simp add: cval_def)
  moreover have "oks = map let_through (login_attempts d requests w st)"
    using attempts_are_limiter_calls [OF net, of d w st] run by simp
  ultimately show ?thesis using guesses_accepted [of "login_attempts d requests w st" requests email d] unfolding k_def by simp
qed

text \<open>C37: a client cannot choose the address it is counted under: whatever it writes in front, the address is the one
  that the last trusted proxy but the configured number of hops has appended.\<close>

theorem forged_addresses_are_ignored:
  assumes "normalizeHeader (rq_forwarded request) = Some (join_commas (forged @ client # proxies))"
    and "one_address client" "list_all one_address proxies"
    and "parseTrustedProxyHops d = int (length proxies)" "proxies \<noteq> []"
  shows "resolveClientIp d request = Some (trim client)"
proof -
  let ?s = "join_commas (forged @ client # proxies)"
  have e: "entries ?s = concat (map entries forged) @ trim client # map trim proxies"
    using entries_join [of "forged @ client # proxies"] entries_one [OF assms(2)] entries_many [OF assms(3)] by simp
  have "client \<noteq> []" using assms(2) by (auto simp: one_address_def trim_def)
  then have "?s \<noteq> []" using join_commas_Nil [of forged client proxies] by blast
  moreover have "0 < parseTrustedProxyHops d" using assms(4,5) by simp
  ultimately have "resolveClientIp d request = (let index = int (length (entries ?s)) - 1 - int (length proxies)
      in if index \<ge> 0 then Some (entries ?s ! nat index) else rq_ip request)"
    using resolveClientIp_entries assms(1,4) by metis
  moreover have "int (length (entries ?s)) - 1 - int (length proxies) = int (length (concat (map entries forged)))"
    unfolding e by simp
  ultimately show ?thesis by (simp add: e nth_append)
qed

text \<open>A refresh that the service refuses takes both cookies away from the browser; one that the limiter refuses
  does not reach the accounts, and says how many seconds to wait.\<close>

lemma refused_refresh:
  assumes "refresh_handler d env request w st = (Inl e, ops, w', st')"
  shows "(ops = [clearAuthCookie d, clearRefreshCookie d])
    \<or> (st' = st \<and> (\<exists>n > 0. e = HttpException 429 ''too many requests'' n \<and> ops = [RetryAfter n]))"
proof (cases "enforce (rate_env d) (he_net env) Refresh
    \<lparr>sub_ip = resolveClientIp d request, sub_secondary = map_option (dp_sha256 d) (present (raw_refresh_token request))\<rparr> w")
  case (Pair r w1)
  show ?thesis
  proof (cases r)
    case (Inl ex)
    with Pair enforce_error [of "rate_env d" "he_net env" Refresh _ w ex] obtain n where
      "ex = HttpException 429 ''too many requests'' n" "0 < n" by (metis fst_conv)
    with Pair Inl assms show ?thesis
      by (auto simp: refresh_handler_def enforceRateLimit_def extractRetryAfterSeconds_def Let_def)
  next
    case (Inr u)
    with Pair assms show ?thesis by (auto simp: refresh_handler_def enforceRateLimit_def Let_def split: prod.splits)
  qed
qed

section \<open>Instances\<close>

text \<open>One proxy in front, two logins per address and window, and a secret that replaced \<open>k1\<close>.\<close>

definition sample_secret_json :: "string \<Rightarrow> jsval option" where
  "sample_secret_json s = Some (JObject [(''current'', JString ''k2''), (''previous'', JString ''k1'')])"

definition sample_deployment :: deployment where
  "sample_deployment = \<lparr>dp_env = (\<lambda>n. if n = ''JWT_SECRET'' then Some ''{}''
       else if n = ''RATE_LIMIT_TRUSTED_PROXY_HOPS'' then Some ''1''
       else if n = ''AUTH_RATE_LIMIT_LOGIN_SECONDARY'' then Some ''2'' else None),
     dp_to_number = (\<lambda>s. if s = ''1'' then Fin 1 else Fin 2), dp_json = sample_secret_json, dp_sha256 = sample_rt_hash,
     dp_lib = sample_lib, dp_config = \<lparr>jc_secret = ''k2'', jc_expiresIn = JWT_ACCESS_TOKEN_TTL_SECONDS\<rparr>\<rparr>"

definition sample_request :: "jsval \<Rightarrow> http_request" where
  "sample_request body = \<lparr>rq_authorization = None, rq_forwarded = OneHeader ''6.6.6.6,, 1.2.3.4, 130.176.0.1'', rq_user_agent = NoHeader,
     rq_ip = Some ''10.0.0.1'', rq_cookies = [(''access_token'', ''k1.u'')], rq_body = body\<rparr>"

definition sample_http_env :: "string \<Rightarrow> int \<Rightarrow> http_env" where
  "sample_http_env i now = \<lparr>he_net = (\<lambda>_. Delivered), he_auth = sample_auth_env ''w'' i i, he_now = now\<rparr>"

lemma session_is_recognised_witness:
  "me_handler sample_deployment (sample_http_env ''r9'' 900) (sample_request JNull) sample_signed_up
     = Inr \<lparr>me_userId = ''u'', me_email = ''ann@x.org'', me_createdAt = ''T''\<rparr>
   \<and> me_handler sample_deployment (sample_http_env ''r9'' 901) (sample_request JNull) sample_signed_up
     = Inl (UnauthorizedException ''invalid or expired token'')"
proof -
  let ?env = "sample_auth_env ''u'' ''r1'' ''A''"
  let ?call = "signup sample_lib sample_config ?env (sample_body ''correct horse'') sample_meta no_accounts"
  obtain res where s: "?call = (Inr res, sample_signed_up)"
    using sample_signup_ok unfolding sample_signed_up_def by (metis is_ok_iff prod.collapse)
  have "fst ?call = Inr \<lparr>at_accessToken = ''k1.u'', at_expiresIn = 900, at_refreshToken = ''A'', at_refreshExpiresIn = 1209600,
      at_user = \<lparr>me_userId = ''u'', me_email = ''ann@x.org'', me_createdAt = ''T''\<rparr>\<rparr>" by code_simp
  with s have res: "res = \<lparr>at_accessToken = ''k1.u'', at_expiresIn = 900, at_refreshToken = ''A'', at_refreshExpiresIn = 1209600,
      at_user = \<lparr>me_userId = ''u'', me_email = ''ann@x.org'', me_createdAt = ''T''\<rparr>\<rparr>" by simp
  have g: "grants sample_lib sample_config ?env no_accounts res sample_signed_up" unfolding grants_def using s by blast
  have boot: "getJwtConfig (dp_json sample_deployment) (dp_env sample_deployment) = Inr (dp_config sample_deployment)"
    "getJwtSecrets (dp_json sample_deployment) (dp_env sample_deployment) = Inr \<lparr>js_current = ''k2'', js_previous = Some ''k1''\<rparr>"
    by code_simp+
  have payload: "sample_payload = \<lparr>jp_sub = me_userId (at_user res), jp_email = me_email (at_user res), jp_iat = au_iat ?env,
      jp_exp = au_iat ?env + 900\<rparr>" by (simp add: res sample_payload_def)
  have law: "jwt_verify sample_lib secret now (jwt_sign sample_lib (jc_secret sample_config) sample_payload)
      = (if secret = jc_secret sample_config \<and> now < jp_exp sample_payload then Some sample_payload else None)" for secret now
    by (simp add: sample_lib_def sample_config_def sample_payload_def)
  have c: "carries (sample_request JNull) (at_accessToken res)" by (simp add: res) code_simp
  have "me_handler sample_deployment (sample_http_env ''r9'' now) (sample_request JNull) sample_signed_up
      = (if now < 901 then Inr (at_user res) else Inl (UnauthorizedException ''invalid or expired token''))" for now
    using session_is_recognised [OF _ g _ _ _ _ _ boot payload law c, where env' = "sample_http_env ''r9'' now"]
    by (simp add: sample_http_env_def all_delivered_def sample_config_def sample_deployment_def)
  then show ?thesis by (simp add: res)
qed

definition three_guesses :: "(int \<times> http_env \<times> http_request) list" where
  "three_guesses = map (\<lambda>dt. (dt, sample_http_env ''r9'' 1, sample_request (sample_body ''wrong battery''))) [0, 1, 2]"

lemma guesses_per_window_are_bounded_witness:
  "int (guesses ''ann@x.org'' three_guesses (login_attempts sample_deployment three_guesses rl_start sample_signed_up)) \<le> 2
   \<and> guesses ''ann@x.org'' three_guesses (map (\<lambda>_. Inl invalid_token) three_guesses) = 3"
proof -
  have "client_enabled rl_start" "vk_get k (vk rl_start) = None" for k by (simp_all add: rl_start_def vk_get_def)
  moreover have "email_limit sample_deployment = 2" "sum_list (map fst three_guesses) < window_seconds (rate_env sample_deployment)"
    by code_simp+
  moreover have "list_all (\<lambda>(dt, env, request). 0 \<le> dt \<and> he_net env = (\<lambda>_. Delivered)) three_guesses"
    by (simp add: three_guesses_def sample_http_env_def)
  ultimately have "int (guesses ''ann@x.org'' three_guesses (login_attempts sample_deployment three_guesses rl_start sample_signed_up)) \<le> 2"
    using guesses_per_window_are_bounded [of rl_start "''ann@x.org''" three_guesses sample_deployment sample_signed_up] by simp
  moreover have "guesses ''ann@x.org'' three_guesses (map (\<lambda>_. Inl invalid_token) three_guesses) = 3" by code_simp
  ultimately show ?thesis by simp
qed

lemma forged_addresses_are_ignored_witness:
  "resolveClientIp sample_deployment (sample_request JNull) = Some ''1.2.3.4''"
proof -
  have h: "normalizeHeader (rq_forwarded (sample_request JNull)) = Some (join_commas ([''6.6.6.6'', []] @ '' 1.2.3.4'' # ['' 130.176.0.1'']))"
    "one_address '' 1.2.3.4''" "list_all one_address ['' 130.176.0.1'']" "parseTrustedProxyHops sample_deployment = 1"
    by code_simp+
  have "trim '' 1.2.3.4'' = ''1.2.3.4''" by code_simp
  with forged_addresses_are_ignored [OF h(1-3)] h(4) show ?thesis by simp
qed

end
