(* ===== verification/SearchClient.thy ===== *)
theory SearchClient
  imports AuthApi
begin

text \<open>
  src/opensearch.ts, which decides how a process talks to OpenSearch (signed requests inside AWS), and
  \<open>createProjectionClients\<close> and the option parsers of src/search/projection-cli.shared.ts. What \<open>new URL\<close>
  accepts and the host that it finds are arguments.
\<close>

section \<open>Endpoints\<close>

record url_lib =
  url_valid :: "string \<Rightarrow> bool"
  url_hostname :: "string \<Rightarrow> string"

record ParsedEndpoint =
  pe_scheme :: string
  pe_node :: string

definition ascii_letter :: "char \<Rightarrow> bool" where
  "ascii_letter c = (let n = (of_char c :: nat) in (65 \<le> n \<and> n \<le> 90) \<or> (97 \<le> n \<and> n \<le> 122))"

definition scheme_char :: "char \<Rightarrow> bool" where
  "scheme_char c = (let n = (of_char c :: nat) in ascii_letter c \<or> (48 \<le> n \<and> n \<le> 57) \<or> c \<in> {CHR ''+'', CHR ''.'', CHR ''-''})"

text \<open>\<open>/^([a-zA-Z][a-zA-Z0-9+.-]*):\/\//\<close>; no character of the class is a colon.\<close>

definition scheme_match :: "string \<Rightarrow> string option" where
  "scheme_match s =
     (let scheme = takeWhile scheme_char s; rest = dropWhile scheme_char s
      in if scheme \<noteq> [] \<and> ascii_letter (hd scheme) \<and> take 3 rest = ''://'' then Some scheme else None)"

definition parseEndpoint :: "url_lib \<Rightarrow> string \<Rightarrow> ParsedEndpoint result" where
  "parseEndpoint urls endpoint =
     (if trim endpoint = [] then Inl (PlainError ''OpenSearch endpoint is missing or empty'')
      else (case scheme_match endpoint of
          Some raw \<Rightarrow>
            (let scheme = toLowerCase raw
             in if scheme \<noteq> ''http'' \<and> scheme \<noteq> ''https'' then Inl (PlainError ''unsupported OpenSearch endpoint protocol'')
                else if \<not> url_valid urls endpoint then Inl (PlainError ''malformed OpenSearch endpoint'')
                else Inr \<lparr>pe_scheme = scheme, pe_node = endpoint\<rparr>)
        | None \<Rightarrow>
            (let node = ''https://'' @ endpoint
             in if \<not> url_valid urls node then Inl (PlainError ''malformed OpenSearch endpoint'')
                else Inr \<lparr>pe_scheme = ''none'', pe_node = node\<rparr>)))"

definition isLocalHost :: "string \<Rightarrow> bool" where
  "isLocalHost host \<longleftrightarrow> host \<in> {''127.0.0.1'', ''localhost'', ''::1'', ''[::1]'', ''opensearch''}"

section \<open>Clients\<close>

datatype search_client = SignedClient string string | UnsignedClient string

definition aws_region :: "env \<Rightarrow> string option" where
  "aws_region process_env =
     (case getOptionalEnv process_env ''AWS_REGION'' of Some r \<Rightarrow> Some r | None \<Rightarrow> getOptionalEnv process_env ''AWS_DEFAULT_REGION'')"

definition createOpenSearchClient :: "url_lib \<Rightarrow> env \<Rightarrow> string \<Rightarrow> search_client result" where
  "createOpenSearchClient urls process_env endpoint =
     bind_result (parseEndpoint urls endpoint) (\<lambda>p.
     (case aws_region process_env of
        Some region \<Rightarrow>
          if pe_scheme p = ''http''
          then Inl (PlainError ''refusing to create an unsigned OpenSearch client for an http:// endpoint while an AWS region is configured'')
          else Inr (SignedClient region (pe_node p))
      | None \<Rightarrow> Inr (UnsignedClient (pe_node p))))"

definition createTestOpenSearchClient :: "url_lib \<Rightarrow> string \<Rightarrow> search_client result" where
  "createTestOpenSearchClient urls endpoint =
     bind_result (parseEndpoint urls endpoint) (\<lambda>p.
     if \<not> isLocalHost (url_hostname urls (pe_node p)) then Inl (PlainError ''createTestOpenSearchClient refuses non-local host'')
     else Inr (UnsignedClient (pe_node p)))"

text \<open>
  The clients of a command line tool; \<open>ssl\<close> is the error of reading the certificates of the database,
  which JavaScript evaluates after the pool's other settings.
\<close>

definition createProjectionClients ::
    "url_lib \<Rightarrow> (string \<Rightarrow> jsnum) \<Rightarrow> exn option \<Rightarrow> env \<Rightarrow> (DatabasePoolConfig \<times> search_client) result" where
  "createProjectionClients urls to_number ssl process_env =
     (case getOptionalEnv process_env ''OPENSEARCH_ENDPOINT'' of
        None \<Rightarrow> Inl (PlainError ''OPENSEARCH_ENDPOINT is required for projection CLI'')
      | Some endpoint \<Rightarrow>
          bind_result (getDatabasePoolConfig to_number process_env) (\<lambda>pool.
          bind_result (case ssl of None \<Rightarrow> Inr () | Some e \<Rightarrow> Inl e) (\<lambda>_.
          bind_result (createOpenSearchClient urls process_env endpoint) (\<lambda>search. Inr (pool, search)))))"

section \<open>Options\<close>

definition startsWith :: "string \<Rightarrow> string \<Rightarrow> bool" where
  "startsWith p s = (take (length p) s = p)"

text \<open>The argument behind the first one that equals \<open>a\<close>.\<close>

fun argument_after :: "string \<Rightarrow> string list \<Rightarrow> string option" where
  "argument_after a [] = None"
| "argument_after a (x # xs) = (if x = a then (case xs of [] \<Rightarrow> None | y # _ \<Rightarrow> Some y) else argument_after a xs)"

definition parseStringOption :: "string list \<Rightarrow> string \<Rightarrow> string option" where
  "parseStringOption argv name =
     (let prefix = ''--'' @ name @ ''=''
      in case find (startsWith prefix) argv of
           Some eq \<Rightarrow> Some (drop (length prefix) eq)
         | None \<Rightarrow> argument_after (''--'' @ name) argv)"

text \<open>The same search, then \<open>Number\<close>; what is not finite counts as absent.\<close>

definition parseIntOption :: "(string \<Rightarrow> jsnum) \<Rightarrow> string list \<Rightarrow> string \<Rightarrow> rat option" where
  "parseIntOption to_number argv name =
     (let prefix = ''--'' @ name @ ''='';
          finite = (\<lambda>text. case to_number text of Fin r \<Rightarrow> Some r | _ \<Rightarrow> None)
      in case find (startsWith prefix) argv of
           Some eq \<Rightarrow> finite (drop (length prefix) eq)
         | None \<Rightarrow> Option.bind (argument_after (''--'' @ name) argv) finite)"

section \<open>What the choice of the client guarantees\<close>

lemma scheme_match_Some:
  assumes "scheme_match s = Some scheme"
  shows "\<exists>rest. s = scheme @ rest \<and> take 3 rest = ''://''"
proof (intro exI conjI)
  show "s = scheme @ dropWhile scheme_char s" "take 3 (dropWhile scheme_char s) = ''://''"
    using assms by (auto simp: scheme_match_def Let_def split: if_splits)
qed

lemma endpoint_is_http:
  assumes "parseEndpoint urls endpoint = Inr p"
  shows "pe_scheme p \<in> {''http'', ''https'', ''none''}" "url_valid urls (pe_node p)"
    "pe_scheme p \<noteq> ''http'' \<Longrightarrow> toLowerCase (take 8 (pe_node p)) = ''https://''"
proof -
  show "pe_scheme p \<in> {''http'', ''https'', ''none''}" "url_valid urls (pe_node p)"
    using assms by (auto simp: parseEndpoint_def Let_def split: if_splits option.splits)
  assume n: "pe_scheme p \<noteq> ''http''"
  show "toLowerCase (take 8 (pe_node p)) = ''https://''"
  proof (cases "scheme_match endpoint")
    case None
    with assms have "pe_node p = ''https://'' @ endpoint" by (auto simp: parseEndpoint_def Let_def split: if_splits)
    moreover have "toLowerCase ''https://'' = ''https://''" by code_simp
    ultimately show ?thesis by simp
  next
    case (Some raw)
    with assms n have raw: "toLowerCase raw = ''https''" "pe_node p = endpoint"
      by (auto simp: parseEndpoint_def Let_def split: if_splits)
    have len: "length raw = 5" using arg_cong [OF raw(1), of length] by (simp add: toLowerCase_def)
    from scheme_match_Some [OF Some] obtain rest where "endpoint = raw @ rest" "take 3 rest = ''://''" by blast
    with len raw(2) have "take 8 (pe_node p) = raw @ ''://''" by simp
    moreover have "toLowerCase ''://'' = ''://''" by code_simp
    ultimately show ?thesis using raw(1) by (simp add: toLowerCase_def)
  qed
qed

text \<open>Inside AWS a process either signs its requests, over TLS, or does not start.\<close>

theorem aws_clients_sign:
  assumes "aws_region process_env = Some region" "createOpenSearchClient urls process_env endpoint = Inr c"
  shows "\<exists>node. c = SignedClient region node \<and> toLowerCase (take 8 node) = ''https://''"
  using assms endpoint_is_http(3) by (fastforce simp: createOpenSearchClient_def bind_result_Inr split: if_splits)

theorem test_clients_stay_local:
  assumes "createTestOpenSearchClient urls endpoint = Inr c"
  shows "\<exists>node. c = UnsignedClient node \<and> isLocalHost (url_hostname urls node)"
  using assms by (auto simp: createTestOpenSearchClient_def bind_result_Inr split: if_splits)

text \<open>Both spellings of an option are read alike.\<close>

lemma option_spellings:
  "parseStringOption [''--'' @ name @ ''='' @ v] name = Some v"
  "\<not> startsWith (''--'' @ name @ ''='') v \<Longrightarrow> parseStringOption [''--'' @ name, v] name = Some v"
  by (simp_all add: parseStringOption_def startsWith_def)

end
