(* ===== verification/Commands.thy ===== *)
theory Commands
  imports SearchClient WriterSwitch Rebuild
begin

text \<open>
  The operators' commands: their arguments, the order in which they open their clients, what they print and the exit
  code. src/cutover/check-ticket-type-cutover-readiness.ts, src/cutover/switch-ticket-type-writer-mode.ts, \<open>main\<close> of
  src/cutover/reconcile-inventory-counters.ts, src/search/inventory-reconciliation.cli.ts,
  src/search/inventory-rebuild.cli.ts and src/search/search-index-migrate.cli.ts. Standard output is a list of JSON
  values; standard error is left out.
\<close>

section \<open>What a command starts with\<close>

text \<open>
  \<open>process.env\<close>, the libraries, and the errors of reading the certificates, of connecting to Valkey, of
  taking a connection from the pool and of ending the pool.
\<close>

record command_env =
  cx_env :: env
  cx_to_number :: "string \<Rightarrow> jsnum"
  cx_urls :: url_lib
  cx_ssl :: "exn option"
  cx_valkey :: "exn option"
  cx_connect :: "exn option"
  cx_pool_end :: "exn option"

definition succeed :: "exn option \<Rightarrow> unit result" where
  "succeed e = (case e of None \<Rightarrow> Inr () | Some x \<Rightarrow> Inl x)"

definition require_env :: "command_env \<Rightarrow> string \<Rightarrow> unit result" where
  "require_env cx name = (if getOptionalEnv (cx_env cx) name = None then Inl (PlainError (name @ '' is required'')) else Inr ())"

definition open_projection :: "command_env \<Rightarrow> unit result" where
  "open_projection cx =
     bind_result (createProjectionClients (cx_urls cx) (cx_to_number cx) (cx_ssl cx) (cx_env cx)) (\<lambda>_. Inr ())"

text \<open>
  A page size that is not whole reaches PostgreSQL when it lies between the bounds, and LIMIT refuses it; outside it
  is cut to a bound. Everywhere else a number is compared with lengths, which its ceiling decides.
\<close>

definition refused_limit :: "rat option \<Rightarrow> bool" where
  "refused_limit n = (case n of None \<Rightarrow> False | Some r \<Rightarrow> 1 < r \<and> r < 1000 \<and> of_int \<lfloor>r\<rfloor> \<noteq> r)"

definition whole_option :: "rat option \<Rightarrow> int option" where
  "whole_option = map_option ceiling"

definition page_queries :: "rat option \<Rightarrow> (nat \<Rightarrow> bool) \<Rightarrow> nat \<Rightarrow> bool" where
  "page_queries n fails = (if refused_limit n then (\<lambda>_. True) else fails)"

definition int_option :: "command_env \<Rightarrow> string list \<Rightarrow> string \<Rightarrow> rat option" where
  "int_option cx argv name = parseIntOption (cx_to_number cx) argv name"

definition mode_of_text :: "string option \<Rightarrow> InventoryWriterMode result" where
  "mode_of_text given =
     (if given = Some ''legacy'' then Inr Legacy else if given = Some ''ticket_type'' then Inr TicketTypeMode else Inl (PlainError ''usage''))"

section \<open>The readiness check\<close>

definition parseExpectMode :: "string list \<Rightarrow> InventoryWriterMode result" where
  "parseExpectMode argv = mode_of_text (parseStringOption argv ''expect-mode'')"

definition parsePhase :: "string list \<Rightarrow> CutoverCheckPhase result" where
  "parsePhase argv =
     (let given = parseStringOption argv ''phase''
      in if given = Some ''preflight'' then Inr Preflight else if given = Some ''postflight'' then Inr Postflight
         else Inl (PlainError ''usage''))"

text \<open>
  The stores are those of a run of the switch: the statements of the check have the same names, and the
  reconciliation takes a snapshot of its own.
\<close>

definition with_pages :: "rat option \<Rightarrow> run_env \<Rightarrow> run_env" where
  "with_pages n env =
     env\<lparr>rw_valkey := (rw_valkey env)\<lparr>rv_type_page := page_queries n (rv_type_page (rw_valkey env)),
                                     rv_event_page := page_queries n (rv_event_page (rw_valkey env))\<rparr>,
         rw_recon := (rw_recon env)\<lparr>re_page := page_queries n (re_page (rw_recon env))\<rparr>\<rparr>"

definition check_stores ::
    "(string \<Rightarrow> string option) \<Rightarrow> (string \<Rightarrow> int option) \<Rightarrow> (string \<Rightarrow> event_columns) \<Rightarrow> run_env
       \<Rightarrow> InventoryWriterMode \<Rightarrow> CutoverCheckPhase \<Rightarrow> int option \<Rightarrow> int option \<Rightarrow> pg \<Rightarrow> (jsval \<times> bool) result" where
  "check_stores date_iso date_ms columns env expectedWriterMode checkPhase pageSize maxFindings s =
     bind_result (statements (rw_fail env) [PF_CONNECT, PF_BEGIN, PF_STATEMENT_TIMEOUT, PF_LOCK_TIMEOUT, PF_IDLE_TIMEOUT]) (\<lambda>_.
     bind_result (checkCutoverDatabase (rw_check env) (\<lambda>_. tables_of s (rw_altered env) (rw_revisions env)) expectedWriterMode) (\<lambda>dbCheck.
     bind_result (checkCutoverValkey (rw_valkey env) (ticket_type_inventory s) (ticket_inventory s) expectedWriterMode checkPhase pageSize) (\<lambda>vkResults.
     bind_result (statements (rw_fail env) [PF_COMMIT]) (\<lambda>_.
     (case cd_writerMode dbCheck of
        None \<Rightarrow> Inl (PlainError ''inventory writer control state is missing or invalid; cannot attest writerMode'')
      | Some m \<Rightarrow>
     bind_result (statements (rw_fail env) [PF_PROJECTION_CONNECT]) (\<lambda>_.
     bind_result (checkCutoverOpenSearch date_iso date_ms columns (rw_recon env) (rw_meanwhile env s)
         \<lparr>ro_index = Some EVENTS_INDEX, ro_pageSize = pageSize, ro_maxFindings = maxFindings\<rparr>) (\<lambda>osCheck.
     (let rs = cd_results dbCheck @ vkResults @ [co_result osCheck]
      in bind_result (serializeTicketTypeCutoverEvidence
            \<lparr>si_expectedWriterMode = expectedWriterMode, si_checkPhase = checkPhase, si_writerMode = m,
             si_schemaRevision = cd_schemaRevision dbCheck, si_opensearchIndex = EVENTS_INDEX,
             si_results = rs, si_opensearchReport = co_report osCheck\<rparr>) (\<lambda>evidence.
         bind_result (hasTicketTypeCutoverViolations rs) (\<lambda>violations. Inr (evidence, violations)))))))))))"

definition check_main ::
    "(string \<Rightarrow> string option) \<Rightarrow> (string \<Rightarrow> int option) \<Rightarrow> (string \<Rightarrow> event_columns) \<Rightarrow> command_env \<Rightarrow> run_env
       \<Rightarrow> string list \<Rightarrow> pg \<Rightarrow> jsval list \<times> nat" where
  "check_main date_iso date_ms columns cx env argv s =
     (case bind_result (parseExpectMode argv) (\<lambda>mode. bind_result (parsePhase argv) (\<lambda>phase.
           bind_result (require_env cx ''VALKEY_URL'') (\<lambda>_. bind_result (open_projection cx) (\<lambda>_.
           bind_result (succeed (cx_valkey cx)) (\<lambda>_.
           check_stores date_iso date_ms columns (with_pages (int_option cx argv ''page-size'') env) mode phase
             (whole_option (int_option cx argv ''page-size'')) (whole_option (int_option cx argv ''max-findings'')) s))))) of
        Inl e \<Rightarrow> ([], 1)
      | Inr (evidence, violations) \<Rightarrow>
          ([evidence], if cx_pool_end cx \<noteq> None then 1 else if violations then 2 else 0))"

section \<open>The switch\<close>

definition parseTargetMode :: "string list \<Rightarrow> InventoryWriterMode result" where
  "parseTargetMode argv = mode_of_text (parseStringOption argv ''target-mode'')"

definition result_fields :: "ExecuteWriterModeSwitchResult \<Rightarrow> (string \<times> jsval) list" where
  "result_fields result =
     [(''sourceMode'', JString (mode_text (sr_sourceMode result))), (''targetMode'', JString (mode_text (sr_targetMode result))),
      (''schemaRevision'', JString (sr_schemaRevision result)),
      (''postSwitchDatabaseResults'', JArray (map result_json (sr_postSwitchDatabaseResults result)))]"

definition SWITCH_ACTION :: string where
  "SWITCH_ACTION = ''ticket-type-writer-mode-switch''"

definition ambiguous_json :: "InventoryWriterMode \<Rightarrow> InventoryWriterMode \<Rightarrow> ExecuteWriterModeSwitchResult option \<Rightarrow> jsval" where
  "ambiguous_json targetMode verifiedMode result = JObject
     ([(''action'', JString SWITCH_ACTION), (''commitOutcome'', JString ''ambiguous''),
       (''verifiedMode'', JString (mode_text verifiedMode)), (''switched'', JBool (verifiedMode = targetMode))]
      @ (case result of None \<Rightarrow> [] | Some r \<Rightarrow> result_fields r))"

definition switched_json :: "ExecuteWriterModeSwitchResult \<Rightarrow> jsval" where
  "switched_json result = JObject ([(''action'', JString SWITCH_ACTION), (''switched'', JBool True)] @ result_fields result)"

definition switch_report ::
    "InventoryWriterMode \<Rightarrow> (run_error + WriterModeSwitchOutcome) \<Rightarrow> jsval list \<times> nat" where
  "switch_report targetMode outcome =
     (case outcome of
        Inl (PhaseTwoError evidence e) \<Rightarrow> ([evidence], 1)
      | Inl (RunFailed e) \<Rightarrow> ([], 1)
      | Inr (PreflightViolations evidence) \<Rightarrow> ([evidence], 2)
      | Inr (CommitAmbiguous evidence verifiedMode result) \<Rightarrow>
          ([evidence, ambiguous_json targetMode verifiedMode result], if verifiedMode = targetMode then 3 else 4)
      | Inr (Switched evidence result) \<Rightarrow> ([evidence, switched_json result], 0))"

text \<open>A failure to end the pool is reported on standard error and changes nothing.\<close>

definition switch_options :: "command_env \<Rightarrow> string list \<Rightarrow> InventoryWriterMode \<Rightarrow> RunWriterModeSwitchOptions" where
  "switch_options cx argv targetMode =
     \<lparr>rs_targetMode = targetMode, rs_opensearchIndex = EVENTS_INDEX,
      rs_pageSize = whole_option (int_option cx argv ''page-size''),
      rs_maxFindings = whole_option (int_option cx argv ''max-findings''),
      rs_timeouts = DEFAULT_WRITER_MODE_SWITCH_TIMEOUTS\<rparr>"

definition switch_main ::
    "(string \<Rightarrow> string option) \<Rightarrow> (string \<Rightarrow> int option) \<Rightarrow> (string \<Rightarrow> event_columns) \<Rightarrow> command_env \<Rightarrow> run_env
       \<Rightarrow> string list \<Rightarrow> pg \<Rightarrow> (jsval list \<times> nat) \<times> pg" where
  "switch_main date_iso date_ms columns cx env argv s =
     (case bind_result (parseTargetMode argv) (\<lambda>targetMode.
           bind_result (require_env cx ''VALKEY_URL'') (\<lambda>_. bind_result (open_projection cx) (\<lambda>_.
           bind_result (succeed (cx_valkey cx)) (\<lambda>_. Inr targetMode)))) of
        Inl e \<Rightarrow> (([], 1), s)
      | Inr targetMode \<Rightarrow>
          (let (outcome, s') = runWriterModeSwitch date_iso date_ms columns (with_pages (int_option cx argv ''page-size'') env)
                 (switch_options cx argv targetMode) s
           in (switch_report targetMode outcome, s')))"

section \<open>Seed and repair of the counters\<close>

definition COUNTER_ACTION :: string where
  "COUNTER_ACTION = ''inventory-counter-reconcile''"

definition cli_mode_text :: "CounterCliMode \<Rightarrow> string" where
  "cli_mode_text m = (case m of Seed \<Rightarrow> ''seed'' | Reconcile \<Rightarrow> ''reconcile'')"

definition serializeCounterReconcileEvidence :: "CounterReconcileOutcome \<Rightarrow> jsval" where
  "serializeCounterReconcileEvidence outcome = JObject
     [(''action'', JString COUNTER_ACTION), (''namespace'', JString (namespace_text (co_namespace outcome))),
      (''mode'', JString (cli_mode_text (co_mode outcome))), (''writerMode'', JString (mode_text (co_writerMode outcome))),
      (''processed'', jsint (processed (co_counts outcome))), (''initialized'', jsint (initialized (co_counts outcome))),
      (''synced'', jsint (synced (co_counts outcome))), (''skipped'', jsint (skipped (co_counts outcome)))]"

definition refused_json :: "CounterNamespace \<Rightarrow> CounterCliMode \<Rightarrow> string \<Rightarrow> string \<Rightarrow> jsval" where
  "refused_json ns mode namespace writerMode = JObject
     [(''action'', JString COUNTER_ACTION), (''namespace'', JString (namespace_text ns)), (''mode'', JString (cli_mode_text mode)),
      (''writerMode'', JString writerMode), (''refused'', JBool True),
      (''reason'', JString (''refusing to seed namespace '' @ namespace @ '': it is active under writer_mode='' @ writerMode @
         '' (seed is allowed only for the inactive namespace)''))]"

definition counter_main ::
    "command_env \<Rightarrow> counter_env \<Rightarrow> string list \<Rightarrow> pg \<Rightarrow> valkey \<Rightarrow> (jsval list \<times> nat) \<times> valkey" where
  "counter_main cx env argv s v =
     (case bind_result (parseNamespaceOption (parseStringOption argv ''namespace'')) (\<lambda>ns.
           bind_result (parseModeOption (parseStringOption argv ''mode'')) (\<lambda>mode.
           bind_result (require_env cx ''VALKEY_URL'') (\<lambda>_.
           bind_result (getDatabasePoolConfig (cx_to_number cx) (cx_env cx)) (\<lambda>_. bind_result (succeed (cx_ssl cx)) (\<lambda>_.
           bind_result (succeed (cx_valkey cx)) (\<lambda>_. Inr (ns, mode))))))) of
        Inl e \<Rightarrow> (([], 1), v)
      | Inr (ns, mode) \<Rightarrow>
          (let n = int_option cx argv ''page-size''
           in case runInventoryCounterReconcile (env\<lparr>rc_page := page_queries n (rc_page env)\<rparr>) ns mode (whole_option n) s v of
                (Inl (SeedNamespaceActiveError namespace writerMode), st) \<Rightarrow>
                  (([refused_json ns mode namespace writerMode], 2), key_space st)
              | (Inl e, st) \<Rightarrow> (([], 1), key_space st)
              | (Inr outcome, st) \<Rightarrow> (([serializeCounterReconcileEvidence outcome], 0), key_space st)))"

section \<open>Commands of the projection\<close>

definition reconciliation_main ::
    "(string \<Rightarrow> string option) \<Rightarrow> (string \<Rightarrow> int option) \<Rightarrow> (string \<Rightarrow> event_columns) \<Rightarrow> command_env \<Rightarrow> reconcile_env
       \<Rightarrow> string list \<Rightarrow> pg \<Rightarrow> jsval list \<times> nat" where
  "reconciliation_main date_iso date_ms columns cx env argv s =
     (let n = int_option cx argv ''page-size''
      in case bind_result (open_projection cx) (\<lambda>_. bind_result (succeed (cx_connect cx)) (\<lambda>_.
           reconcileInventoryProjection date_iso date_ms columns (env\<lparr>re_page := page_queries n (re_page env)\<rparr>) s
             \<lparr>ro_index = None, ro_pageSize = whole_option n,
              ro_maxFindings = whole_option (int_option cx argv ''max-findings'')\<rparr>)) of
           Inl e \<Rightarrow> ([], 1)
         | Inr report \<Rightarrow> ([report_json report], if cx_pool_end cx \<noteq> None then 1 else if rp_hasDiff report then 2 else 0))"

definition rebuild_json :: "RebuildReport \<Rightarrow> jsval" where
  "rebuild_json r = JObject
     [(''index'', JString (rbr_index r)), (''processedEvents'', jsint (rbr_processedEvents r)),
      (''processedTicketTypes'', jsint (rbr_processedTicketTypes r)), (''bulkRequests'', jsint (rbr_bulkRequests r))]"

definition rebuild_main ::
    "(jsval \<Rightarrow> string) \<Rightarrow> (string \<Rightarrow> string option) \<Rightarrow> (string \<Rightarrow> event_columns) \<Rightarrow> command_env \<Rightarrow> rebuild_env
       \<Rightarrow> string list \<Rightarrow> pg \<Rightarrow> search_cluster \<Rightarrow> (jsval list \<times> nat) \<times> search_cluster" where
  "rebuild_main url_text date_iso columns cx env argv s c =
     (case bind_result (open_projection cx) (\<lambda>_. succeed (cx_connect cx)) of
        Inl e \<Rightarrow> (([], 1), c)
      | Inr _ \<Rightarrow>
          (let n = int_option cx argv ''page-size'';
               (r, c') = rebuildInventoryProjection url_text date_iso columns (env\<lparr>rb_page := page_queries n (rb_page env)\<rparr>) s
                 \<lparr>ro_rebuild_index = None, ro_rebuild_pageSize = whole_option n,
                  ro_bulkSize = whole_option (int_option cx argv ''bulk-size'')\<rparr> c
           in (case r of Inl e \<Rightarrow> ([], 1)
               | Inr report \<Rightarrow> ([rebuild_json report], if cx_pool_end cx \<noteq> None then 1 else 0), c')))"

definition index_migrate_main :: "command_env \<Rightarrow> link \<Rightarrow> search_cluster \<Rightarrow> (jsval list \<times> nat) \<times> search_cluster" where
  "index_migrate_main cx ensure c =
     (case getOptionalEnv (cx_env cx) ''OPENSEARCH_ENDPOINT'' of
        None \<Rightarrow> (([], 1), c)
      | Some endpoint \<Rightarrow>
          (case createOpenSearchClient (cx_urls cx) (cx_env cx) endpoint of
             Inl e \<Rightarrow> (([], 1), c)
           | Inr client \<Rightarrow>
               (case via ensure (ensureEventsIndex EVENTS_INDEX) c of
                  (Some (Inr _), c') \<Rightarrow> (([JObject [(''index'', JString EVENTS_INDEX), (''status'', JString ''ensured'')]], 0), c')
                | (_, c') \<Rightarrow> (([], 1), c'))))"

section \<open>Lemmas on the stores\<close>

lemma with_pages_same [simp]:
  "rw_fail (with_pages n env) = rw_fail env" "rw_check (with_pages n env) = rw_check env"
  "rw_altered (with_pages n env) = rw_altered env" "rw_revisions (with_pages n env) = rw_revisions env"
  "rw_switch (with_pages n env) = rw_switch env" "rw_meanwhile (with_pages n env) = rw_meanwhile env"
  "rw_later (with_pages n env) = rw_later env" "rw_verify (with_pages n env) = rw_verify env"
  by (simp_all add: with_pages_def)

lemma no_page_option [simp]: "with_pages None env = env"
  by (simp add: with_pages_def page_queries_def refused_limit_def)

text \<open>The check in the preflight phase is the preflight of the switch, but for the refusal of a switch to the present mode.\<close>

lemma check_is_preflight:
  assumes "rs_opensearchIndex options = EVENTS_INDEX"
  shows "check_stores date_iso date_ms columns env (oppositeWriterMode (rs_targetMode options)) Preflight
      (rs_pageSize options) (rs_maxFindings options) s = Inr (evidence, violations)
    \<and> checkCutoverDatabase (rw_check env) (\<lambda>_. tables_of s (rw_altered env) (rw_revisions env)) (oppositeWriterMode (rs_targetMode options)) = Inr dbCheck
    \<and> cd_writerMode dbCheck \<noteq> Some (rs_targetMode options)
    \<longleftrightarrow> (\<exists>i. preflight date_iso date_ms columns env options s = Inr (dbCheck, i, evidence)
      \<and> hasTicketTypeCutoverViolations (si_results i) = Inr violations)"
  using assms
  by (auto simp: check_stores_def preflight_def preflight_stores_def preflight_input_def bind_result_Inr Let_def split: option.splits if_splits)

lemma check_covers_database:
  assumes "check_stores date_iso date_ms columns env m Preflight n k s = Inr (evidence, False)"
  obtains dbCheck where
    "checkCutoverDatabase (rw_check env) (\<lambda>_. tables_of s (rw_altered env) (rw_revisions env)) m = Inr dbCheck"
    "switchable m (tables s)" "rw_altered env = 0" "cd_writerMode dbCheck = Some m"
    "\<exists>rs. rw_revisions env = cd_schemaRevision dbCheck # rs" "cd_schemaRevision dbCheck \<noteq> []"
proof -
  from assms obtain dbCheck vkResults and osCheck :: CutoverOpenSearchCheck where
    d: "checkCutoverDatabase (rw_check env) (\<lambda>_. tables_of s (rw_altered env) (rw_revisions env)) m = Inr dbCheck"
    and h: "hasTicketTypeCutoverViolations (cd_results dbCheck @ vkResults @ [co_result osCheck]) = Inr False"
    by (auto simp: check_stores_def bind_result_Inr Let_def split: option.splits)
  from no_violations_clean_results [OF h] have "clean (cd_results dbCheck)" by (simp add: clean_def)
  with d database_results(1) have w: "switchable m (tables_of s (rw_altered env) (rw_revisions env))"
    by (auto simp: checkCutoverDatabase_Inr)
  with d have "cd_writerMode dbCheck = Some m" by (simp add: checkCutoverDatabase_Inr switchable_def)
  moreover from w have "switchable m (tables s)" "rw_altered env = 0" using switchable_catalog by blast+
  moreover from d have "\<exists>rs. rw_revisions env = cd_schemaRevision dbCheck # rs" "cd_schemaRevision dbCheck \<noteq> []"
    by (auto simp: checkCutoverDatabase_Inr tables_of_def)
  ultimately show thesis using d by (intro that [of dbCheck])
qed

lemma activation_switchable:
  assumes "switchable m (tables s)" "m = TicketTypeMode \<longrightarrow> (\<forall>t \<in> set (ticket_types s). is_default t)"
  shows "checked_switch (oppositeWriterMode m) s (s\<lparr>writer_control := Some (mode_text (oppositeWriterMode m))\<rparr>)"
    "writer_control s = Some (mode_text m)"
proof -
  from assms(1) show c: "writer_control s = Some (mode_text m)" by (auto simp: switchable_def tables_of_def split: option.splits)
  then have "updateInventoryWriterMode (oppositeWriterMode m) s = Inr (s\<lparr>writer_control := Some (mode_text (oppositeWriterMode m))\<rparr>)"
    by (simp add: updateInventoryWriterMode_def)
  moreover have "switchable (oppositeWriterMode m) (tables (s\<lparr>writer_control := Some (mode_text (oppositeWriterMode m))\<rparr>))"
    using assms by (cases m) (auto simp: switchable_def tables_of_def default_types_def oppositeWriterMode_def)
  ultimately show "checked_switch (oppositeWriterMode m) s (s\<lparr>writer_control := Some (mode_text (oppositeWriterMode m))\<rparr>)"
    using assms(1) by (simp add: checked_switch_def)
qed

section \<open>What the exit code of the switch says\<close>

lemma verification_answers:
  assumes "readInventoryWriterMode s = Inr m" "\<forall>q. fails q = None"
  shows "verifyWriterModeAfterAmbiguousCommit t fails s \<noteq> Inr None"
  using assms by (auto simp: verifyWriterModeAfterAmbiguousCommit_def bind_result_Inr)

lemma unreported_switch:
  assumes "runWriterModeSwitch date_iso date_ms columns env options s = (Inl (PhaseTwoError evidence e), s')" "\<forall>x. rw_later env x = x"
    and "s' \<noteq> sw_drained (rw_switch env) (rw_meanwhile env s)"
  shows "sw_commit (rw_switch env) = LostReply \<and> (\<exists>q. rw_verify env q \<noteq> None)"
  using assms(1)
proof (cases rule: run_cases)
  case (switch dbCheck i evidence')
  let ?o = "\<lparr>so_expectedSchemaRevision = Some (cd_schemaRevision dbCheck), so_timeouts = rs_timeouts options\<rparr>"
  obtain x s2 where x: "executeWriterModeSwitch (rw_switch env) (rs_targetMode options) ?o (rw_meanwhile env s) = (x, s2)" by fastforce
  note r = switch(3) [unfolded x after_switch_def prod.case]
  from x show ?thesis
  proof (cases rule: switch_cases)
    case (lost_done result)
    from x lost_done(1) r assms(2,3) have "sw_commit (rw_switch env) = LostReply"
      by (auto simp: executeWriterModeSwitch_def split: sum.splits link.splits)
    moreover from r lost_done(1) assms(2) have "verifyWriterModeAfterAmbiguousCommit (rs_timeouts options) (rw_verify env) s2 = Inr None"
      by (auto simp: resolve_ambiguous_def split: sum.splits option.splits if_splits)
    ultimately show ?thesis using verification_answers [OF checked_switch_modes(2) [OF lost_done(3)]] by blast
  next
    case (lost_not result)
    with r assms(2,3) show ?thesis by (auto simp: resolve_ambiguous_def split: sum.splits option.splits if_splits)
  qed (use r assms(3) in simp_all)
qed simp_all

text \<open>C28: the exit code of the switch is true of the database: 0 and 3 mean that it was switched, in one atomic step
  between databases that satisfy every condition of the old and of the new mode; 2 and 4 mean that it was not touched;
  1 means that it was not touched either, unless the answer to COMMIT was lost and the verification failed
  as well; no other code exists. With 0 the tool has printed the evidence of its preflight and the result.\<close>

theorem switch_exit_code_is_true:
  assumes "switch_main date_iso date_ms columns cx env argv s = ((out, code), s')" "parseTargetMode argv = Inr targetMode"
    and "\<forall>x. rw_later env x = x" "d = sw_drained (rw_switch env) (rw_meanwhile env s)"
  shows "(code = 0 \<and> checked_switch targetMode d s' \<and> (\<exists>evidence result. out = [evidence, switched_json result]))
    \<or> (code = 3 \<and> checked_switch targetMode d s')
    \<or> (code = 2 \<and> s' = rw_meanwhile env s)
    \<or> (code = 4 \<and> s' = d)
    \<or> (code = 1 \<and> (s' \<in> {s, rw_meanwhile env s, d} \<or> (checked_switch targetMode d s'
          \<and> sw_commit (rw_switch env) = LostReply \<and> (\<exists>q. rw_verify env q \<noteq> None))))"
proof (cases "(out, code) = ([], 1) \<and> s' = s")
  case False
  let ?env = "with_pages (int_option cx argv ''page-size'') env"
  obtain outcome where run: "runWriterModeSwitch date_iso date_ms columns ?env (switch_options cx argv targetMode) s = (outcome, s')"
    and out: "(out, code) = switch_report targetMode outcome"
    using assms(1,2) False by (auto simp: switch_main_def Let_def bind_result_Inr split: prod.splits sum.splits)
  have later: "\<forall>x. rw_later ?env x = x" using assms(3) by simp
  have d: "d = sw_drained (rw_switch ?env) (rw_meanwhile ?env s)" using assms(4) by simp
  have t: "rs_targetMode (switch_options cx argv targetMode) = targetMode" by (simp add: switch_options_def)
  note facts = run_outcome_is_true [OF run later d, unfolded t]
  show ?thesis
  proof (cases outcome)
    case (Inl x)
    then show ?thesis
    proof (cases x)
      case (PhaseTwoError evidence e)
      with facts out Inl unreported_switch [OF run [unfolded Inl PhaseTwoError] later] d show ?thesis
        by (auto simp: switch_report_def)
    qed (use facts out in \<open>simp add: switch_report_def\<close>)
  next
    case (Inr x)
    then show ?thesis using facts out by (cases x) (auto simp: switch_report_def split: if_splits)
  qed
qed auto

section \<open>What a green check says\<close>

lemma check_main_green:
  assumes "check_main date_iso date_ms columns cx env argv s = ([evidence], 0)" "parseExpectMode argv = Inr m" "parsePhase argv = Inr phase"
  shows "require_env cx ''VALKEY_URL'' = Inr ()" "open_projection cx = Inr ()" "succeed (cx_valkey cx) = Inr ()"
    "check_stores date_iso date_ms columns (with_pages (int_option cx argv ''page-size'') env) m phase
       (whole_option (int_option cx argv ''page-size'')) (whole_option (int_option cx argv ''max-findings'')) s = Inr (evidence, False)"
  using assms by (auto simp: check_main_def bind_result_Inr split: sum.splits if_splits)

text \<open>C26: a green check in the preflight phase predicts the switch: when it exits with 0 for the present mode, then the
  switch to the other mode, run on the same stores with every statement answered, exits with 0, prints the
  same evidence, and changes nothing but the mode. Back to the legacy mode this takes, as the check after the
  switch demands, that no Event has a second Ticket Type.\<close>

theorem green_check_predicts_switch:
  assumes "check_main date_iso date_ms columns cx env check_argv s = ([evidence], 0)"
    and "parseExpectMode check_argv = Inr m" "parsePhase check_argv = Inr Preflight"
    and "parseTargetMode switch_argv = Inr (oppositeWriterMode m)"
    and "m = TicketTypeMode \<longrightarrow> (\<forall>t \<in> set (ticket_types s). is_default t)"
    and "\<forall>name. int_option cx switch_argv name = int_option cx check_argv name"
    and "rw_meanwhile env s = s" "sw_drained (rw_switch env) s = s" "rw_fail env PF_SWITCH_CONNECT = None"
    and "\<forall>q. sw_fail (rw_switch env) q = None" "\<forall>t q. sw_check (rw_switch env) t q = Delivered"
    and "\<forall>t q. sw_catalog (rw_switch env) t q = (rw_altered env, rw_revisions env)" "sw_commit (rw_switch env) = Delivered"
  shows "\<exists>result. switch_main date_iso date_ms columns cx env switch_argv s
    = (([evidence, switched_json result], 0), s\<lparr>writer_control := Some (mode_text (oppositeWriterMode m))\<rparr>)"
proof -
  let ?env = "with_pages (int_option cx check_argv ''page-size'') env" and ?t = "oppositeWriterMode m"
  let ?options = "switch_options cx check_argv ?t"
  note green = check_main_green [OF assms(1-3)]
  obtain dbCheck where d: "checkCutoverDatabase (rw_check ?env) (\<lambda>_. tables_of s (rw_altered ?env) (rw_revisions ?env)) m = Inr dbCheck"
    "switchable m (tables s)" "rw_altered ?env = 0" "cd_writerMode dbCheck = Some m"
    "\<exists>rs. rw_revisions ?env = cd_schemaRevision dbCheck # rs" "cd_schemaRevision dbCheck \<noteq> []"
    by (rule check_covers_database [OF green(4)])
  from d(5) obtain rs where rs: "rw_revisions env = cd_schemaRevision dbCheck # rs" by auto
  have o: "switch_options cx switch_argv ?t = ?options" "rs_targetMode ?options = ?t" "rs_opensearchIndex ?options = EVENTS_INDEX"
    using assms(6) by (simp_all add: switch_options_def)
  obtain i where i: "preflight date_iso date_ms columns ?env ?options s = Inr (dbCheck, i, evidence)"
    "hasTicketTypeCutoverViolations (si_results i) = Inr False"
    using check_is_preflight [OF o(3), THEN iffD1, of date_iso date_ms columns ?env s evidence False dbCheck] green(4) d(1,4)
    by (auto simp: switch_options_def)
  note w = activation_switchable [OF d(2) assms(5)]
  let ?so = "\<lparr>so_expectedSchemaRevision = Some (cd_schemaRevision dbCheck), so_timeouts = rs_timeouts ?options\<rparr>"
  obtain result where x: "executeWriterModeSwitch (rw_switch env) ?t ?so s = (Inr result, s\<lparr>writer_control := Some (mode_text ?t)\<rparr>)"
    using switch_commits [OF w(1) assms(8), of "cd_schemaRevision dbCheck" rs ?so] w(2) assms(10-13) d(3,6) rs
    by (simp add: Let_def switch_options_def)
  then have "runWriterModeSwitch date_iso date_ms columns ?env ?options s
      = (Inr (Switched evidence result), s\<lparr>writer_control := Some (mode_text ?t)\<rparr>)"
    using i assms(7,9) o(2) by (simp add: runWriterModeSwitch_def after_switch_def)
  then show ?thesis
    using green(1-3) assms(4,6) o(1) by (auto simp: switch_main_def switch_report_def)
qed

section \<open>The other commands\<close>

lemma each_row_error:
  "each_row f rs st = (Inl e, st') \<Longrightarrow> \<exists>r st1 st2. f r st1 = (Inl e, st2)"
  by (induction rs arbitrary: st) (auto split: prod.splits sum.splits)

lemma paged_loop_error:
  "paged_loop key n fails rows f i after st = (Inl e, st') \<Longrightarrow> e = connection_lost \<or> (\<exists>r st1 st2. f r st1 = (Inl e, st2))"
proof (induction key n fails rows f i after st arbitrary: e st' rule: paged_loop.induct)
  case (1 key n fails rows f i after st)
  from "1.prems" show ?case
    by (subst (asm) paged_loop.simps)
      (auto simp: Let_def dest: each_row_error "1.IH" [OF _ refl] split: if_splits prod.splits sum.splits)
qed

lemma counter_run_error:
  assumes "runInventoryCounterReconcile env ns mode n s v = (Inl (SeedNamespaceActiveError a b), st)"
    and "\<forall>i a b. rc_fresh env i \<noteq> Inl (SeedNamespaceActiveError a b)"
  shows "counter_guard env ns mode s = Inl (SeedNamespaceActiveError a b) \<and> st = start_run v"
proof -
  have row: "process_row env ns mode r st1 \<noteq> (Inl (SeedNamespaceActiveError a b), st2)" for r st1 st2
    by (auto simp: process_row_def valkey_command_def Let_def split: prod.splits option.splits if_splits)
  have repair: "reconcile_row env ns r st1 \<noteq> (Inl (SeedNamespaceActiveError a b), st2)" for r st1 st2
    using assms(2) by (auto simp: reconcile_row_def valkey_command_def Let_def split: prod.splits option.splits sum.splits if_splits)
  show ?thesis
    using assms(1) row repair
    by (auto simp: runInventoryCounterReconcile_def connection_lost_def dest!: paged_loop_error each_row_error
        split: sum.splits prod.splits if_splits)
qed

text \<open>A refused seed (exit code 2) has written nothing, and only a seed of the active namespace is refused.\<close>

theorem refused_seed_writes_nothing:
  assumes "counter_main cx env argv s v = ((out, 2), v')" "\<forall>i n w. rc_fresh env i \<noteq> Inl (SeedNamespaceActiveError n w)"
  shows "v' = v \<and> (\<exists>ns. parseNamespaceOption (parseStringOption argv ''namespace'') = Inr ns
    \<and> readInventoryWriterMode s = Inr (if ns = TicketTypeNamespace then TicketTypeMode else Legacy))"
proof -
  obtain ns mode n m st a b where "parseNamespaceOption (parseStringOption argv ''namespace'') = Inr ns" "v' = key_space st"
    and run: "runInventoryCounterReconcile (env\<lparr>rc_page := page_queries n (rc_page env)\<rparr>) ns mode m s v
      = (Inl (SeedNamespaceActiveError a b), st)"
    using assms(1) by (auto simp: counter_main_def Let_def bind_result_Inr split: sum.splits prod.splits exn.splits)
  moreover from run assms(2) have "counter_guard (env\<lparr>rc_page := page_queries n (rc_page env)\<rparr>) ns mode s
      = Inl (SeedNamespaceActiveError a b)" "st = start_run v"
    using counter_run_error [OF run] by auto
  moreover from this(1) have "readInventoryWriterMode s = Inr (if ns = TicketTypeNamespace then TicketTypeMode else Legacy)"
    by (auto simp: counter_guard_def bind_result_def rc_ask_def connection_lost_def assertSeedNamespaceInactive_def Let_def
        readInventoryWriterMode_def split: sum.splits if_splits option.splits InventoryWriterMode.splits)
  ultimately show ?thesis by (auto simp: start_run_def)
qed

text \<open>A green reconciliation has compared every Event and found its document to show exactly its rows.\<close>

theorem green_reconciliation_means_equal:
  assumes "reconciliation_main date_iso date_ms columns cx env argv s = (out, 0)" "distinct (map ti_event (ticket_inventory s))"
  shows "\<forall>r \<in> set (event_rows s). \<exists>a i docs doc. authoritative_event date_iso columns s r = Inr a
      \<and> re_mget env i = Inr docs \<and> docs (ti_event r) = Some doc \<and> document_current date_ms a doc"
proof -
  from assms(1) obtain report n k where "reconcileInventoryProjection date_iso date_ms columns
      (env\<lparr>re_page := page_queries n (re_page env)\<rparr>) s \<lparr>ro_index = None, ro_pageSize = whole_option n, ro_maxFindings = k\<rparr> = Inr report"
    "\<not> rp_hasDiff report"
    by (auto simp: reconciliation_main_def Let_def bind_result_Inr split: sum.splits if_splits)
  from clean_report_facts [OF this assms(2)] show ?thesis by simp
qed

section \<open>Commands on the sample stores\<close>

definition sample_command_env :: command_env where
  "sample_command_env = \<lparr>cx_env = map_of [(''VALKEY_URL'', ''redis://valkey''), (''OPENSEARCH_ENDPOINT'', ''http://opensearch:9200''),
       (''DATABASE_URL'', ''postgresql://db'')],
     cx_to_number = (\<lambda>_. NaN), cx_urls = \<lparr>url_valid = (\<lambda>_. True), url_hostname = (\<lambda>u. u)\<rparr>,
     cx_ssl = None, cx_valkey = None, cx_connect = None, cx_pool_end = None\<rparr>"

definition sample_check_argv :: "string list" where
  "sample_check_argv = [''--expect-mode=legacy'', ''--phase'', ''preflight'']"

definition sample_switch_argv :: "string list" where
  "sample_switch_argv = [''--target-mode'', ''ticket_type'']"

abbreviation sample_switch_main :: "link \<Rightarrow> (jsval list \<times> nat) \<times> pg" where
  "sample_switch_main commit \<equiv> switch_main Some (\<lambda>s. Some (int (length s))) sample_columns sample_command_env (sample_run_env commit)
     sample_switch_argv sample_inventory"

lemma sample_command_parts:
  "require_env sample_command_env ''VALKEY_URL'' = Inr ()" "open_projection sample_command_env = Inr ()"
  "parseExpectMode sample_check_argv = Inr Legacy" "parsePhase sample_check_argv = Inr Preflight"
  "parseTargetMode sample_switch_argv = Inr TicketTypeMode" "succeed (cx_valkey sample_command_env) = Inr ()"
  by code_simp+

lemma sample_int_options [simp]:
  "int_option sample_command_env argv name = None"
  by (auto simp: int_option_def parseIntOption_def sample_command_env_def Let_def split: option.split bind_split)

lemma sample_switch_main_run:
  assumes "sample_run commit = (outcome, s')"
  shows "sample_switch_main commit = (switch_report TicketTypeMode outcome, s')"
proof -
  have "switch_options sample_command_env sample_switch_argv TicketTypeMode = sample_options"
    by (simp add: switch_options_def sample_options_def whole_option_def)
  with assms sample_command_parts show ?thesis by (simp add: switch_main_def)
qed

lemma sample_check_main:
  assumes "sample_run Delivered = (Inr (Switched evidence result), s')"
  shows "check_main Some (\<lambda>s. Some (int (length s))) sample_columns sample_command_env (sample_run_env Delivered)
     sample_check_argv sample_inventory = ([evidence], 0)"
proof -
  have opp: "oppositeWriterMode (rs_targetMode sample_options) = Legacy" "rs_opensearchIndex sample_options = EVENTS_INDEX"
    by (simp_all add: sample_options_def oppositeWriterMode_def)
  obtain dbCheck i where "preflight Some (\<lambda>s. Some (int (length s))) sample_columns (sample_run_env Delivered) sample_options sample_inventory
      = Inr (dbCheck, i, evidence)" "hasTicketTypeCutoverViolations (si_results i) = Inr False"
    using assms
  proof (cases rule: run_cases)
    case (switch dbCheck i evidence')
    from switch(3) that [of dbCheck i] switch(1,2) show ?thesis
      by (auto simp: after_switch_def resolve_ambiguous_def split: prod.splits sum.splits switch_error.splits option.splits if_splits)
  qed simp_all
  then have "check_stores Some (\<lambda>s. Some (int (length s))) sample_columns (sample_run_env Delivered) Legacy Preflight None None sample_inventory
      = Inr (evidence, False)"
    using check_is_preflight [OF opp(2), THEN iffD2, of Some "\<lambda>s. Some (int (length s))" sample_columns "sample_run_env Delivered" sample_inventory dbCheck evidence False]
    unfolding opp(1) by (auto simp: sample_options_def)
  then show ?thesis
    using sample_command_parts by (simp add: check_main_def whole_option_def) (simp add: sample_command_env_def)
qed

theorem green_check_predicts_switch_witness:
  "\<exists>evidence result. check_main Some (\<lambda>s. Some (int (length s))) sample_columns sample_command_env (sample_run_env Delivered)
       sample_check_argv sample_inventory = ([evidence], 0)
     \<and> sample_switch_main Delivered = (([evidence, switched_json result], 0), switched_inventory)"
proof -
  obtain evidence result where "sample_run Delivered = (Inr (Switched evidence result), switched_inventory)"
    by (rule sample_run_result [of Delivered]) (simp add: after_switch_def)
  then have c: "check_main Some (\<lambda>s. Some (int (length s))) sample_columns sample_command_env (sample_run_env Delivered)
      sample_check_argv sample_inventory = ([evidence], 0)" by (rule sample_check_main)
  have opp: "oppositeWriterMode Legacy = TicketTypeMode" by (simp add: oppositeWriterMode_def)
  have "\<exists>result. sample_switch_main Delivered
      = (([evidence, switched_json result], 0), sample_inventory\<lparr>writer_control := Some (mode_text (oppositeWriterMode Legacy))\<rparr>)"
    by (rule green_check_predicts_switch [OF c sample_command_parts(3,4)])
      (use sample_command_parts(5) in \<open>simp_all add: opp sample_run_env_def sample_switch_def\<close>)
  with c show ?thesis unfolding opp by blast
qed

theorem switch_exit_code_is_true_witness:
  "snd (fst (sample_switch_main LostReply)) = 3 \<and> checked_switch TicketTypeMode sample_inventory (snd (sample_switch_main LostReply))"
proof -
  have "readInventoryWriterMode switched_inventory = Inr TicketTypeMode" by (simp add: read_mode_control)
  then have v: "verifyWriterModeAfterAmbiguousCommit DEFAULT_WRITER_MODE_SWITCH_TIMEOUTS (\<lambda>_. None) switched_inventory
      = Inr (Some TicketTypeMode)"
    using sample_timeouts by (auto simp: verifyWriterModeAfterAmbiguousCommit_def check_timeouts_def bind_result_Inr)
  obtain evidence outcome where run: "sample_run LostReply = (Inr (CommitAmbiguous evidence TicketTypeMode (Some outcome)), switched_inventory)"
    by (rule sample_run_result [of LostReply])
      (simp add: after_switch_def resolve_ambiguous_def sample_run_env_def sample_options_def v)
  have main: "sample_switch_main LostReply = (([evidence, ambiguous_json TicketTypeMode TicketTypeMode (Some outcome)], 3), switched_inventory)"
    by (simp add: sample_switch_main_run [OF run] switch_report_def)
  have "sample_inventory = sw_drained (rw_switch (sample_run_env LostReply)) (rw_meanwhile (sample_run_env LostReply) sample_inventory)"
    "\<forall>x. rw_later (sample_run_env LostReply) x = x"
    by (simp_all add: sample_run_env_def sample_switch_def)
  from switch_exit_code_is_true [OF main sample_command_parts(5) this(2,1)]
  have "checked_switch TicketTypeMode sample_inventory switched_inventory" by simp
  with main show ?thesis by simp
qed

end
