(* ===== verification/Spec2Isabelle.thy ===== *)
theory Spec2Isabelle
  imports Events TicketTypeResolver ProjectionWorker RateLimit RefreshTokens Rebuild ProjectionRepair WriterSwitch TokenCleanup CompatibilityMigration InventoryDeletes Commands
begin

text \<open>
  A model of the ticket-selling backend under src/ (NestJS, PostgreSQL, Valkey, EventBridge, OpenSearch) and
  the theorems that make it correct.

  The program. \<open>EventsService\<close> registers Events with their stock. \<open>PurchasesService\<close> sells: a pre-filter in
  Valkey turns away what is obviously sold out, one PostgreSQL transaction decides, and domain events tell
  the search projection. The inventory has two layouts, an Event row (legacy) and rows per Ticket Type;
  a control row names the one that purchases write, triggers keep the other in step, and operators' tools
  seed the Valkey counters of the other layout, check that the stores agree, and switch. The worker
  applies the inventory events to OpenSearch through version-guarded scripts; reconciliation compares
  the result with PostgreSQL.

  Theories, in the order of their imports.
  \<^item> Prelude: exceptions of the code as the datatype \<open>exn\<close>, results as sums, the fate of a network call
    (\<open>link\<close>: delivered, request lost, reply lost), metrics, list and map lemmas, and the locale
    \<open>versioned_cells\<close>: operations over cells with a version that grows with every change, from which
    "equal versions mean equal values" and "nothing is lost under compare-and-set" follow once.
  \<^item> JsValues: JavaScript values and numbers, common/validation-primitives.ts, messaging/inventory-version.ts.
  \<^item> CacheKeys, Valkey, InventoryCache: cache/inventory-cache.keys.ts, .scripts.ts and .service.ts; the
    key space with deadlines, each Lua script one atomic function, each service method with its fail-open
    path. \<open>versioned_cells\<close> is interpreted for the counters of both layouts.
  \<^item> PgInventory: the tables, constraints and triggers of database/migrations/ that the inventory uses and
    database/inventory-writer-control.ts. A statement returns an exception or the new database.
  \<^item> PurchaseTransaction: \<open>parsePurchaseInput\<close> and \<open>executePurchaseTransaction\<close> of
    purchases/purchases.service.ts, every replay and error path, the ledger and its unique constraints;
    histories of purchases and mode switches; the abstract shop that the transaction refines.
    \<open>in_requestId\<close> is \<open>Some\<close> for non-empty request ids only, as the parser yields them.
  \<^item> TicketTypeResolver: purchases/ticket-type-resolver.service.ts as a step relation, one step per await.
  \<^item> InventoryEvent, DomainEvents: messaging/inventory-event.contract.ts, domain-events.service.ts and the trace
    field of observability/trace-context.ts.
  \<^item> PurchaseFlow: \<open>createPurchase\<close> with its three paths around the transaction. Two observers that the code does
    not have record what the request does to the counters: \<open>calls\<close> (the operations and what they reported) and
    \<open>moves\<close> (the operations and the counter before and after each).
  \<^item> ProjectionStore, ProjectionWorker: search/events-projection.store.ts, worker/search-projection.worker.ts.
  \<^item> Events: events/events.service.ts (registration). Others may buy before the transaction writes and again
    between its COMMIT and the initialisation of the counter.
  \<^item> Config: config.ts, the secrets of the access tokens and the connection settings. RateLimit, RefreshTokens,
    TokenCleanup: auth/rate-limit.service.ts, auth/refresh-tokens.service.ts and
    database/refresh-token-cleanup.ts with its service: whole families are deleted, in batches, under an advisory lock.
  \<^item> Accounts, AuthApi: auth/auth.service.ts and users/users.service.ts; the handlers of
    auth/auth.controller.ts, auth/jwt-auth.guard.ts, auth/auth-cookie.ts and auth/client-ip.ts.
  \<^item> Paging, CounterSeed: the keyset page loop and cutover/reconcile-inventory-counters.ts.
  \<^item> CutoverDatabase, CutoverValkey, Evidence: the checks of cutover/ticket-type-cutover-readiness.ts and the
    JSON evidence that they write. WriterSwitch: cutover/ticket-type-writer-mode-switch.ts, the preflight, the switch
    transaction and what is known after a COMMIT whose answer was lost.
  \<^item> ProjectionSource, Reconciliation, Rebuild, ProjectionRepair: search/inventory-projection-source.ts,
    search/inventory-reconciliation.service.ts, search/inventory-rebuild.service.ts and
    search/projection-repair.service.ts with its command.
  \<^item> SearchClient, Commands: opensearch.ts and search/projection-cli.shared.ts; the command line tools for the
    cutover check, the switch, the reconciliation, the rebuild and the creation of the index, with their arguments,
    their output and their exit codes.
  \<^item> Catalog: the rows of the PostgreSQL catalog that the checkers read, the statements that create and drop
    those objects. ExpandMigration: database/migrations/1785128190273 (up, the bridge under old binaries, down).
    ExpandReadiness: database/ticket-type-expand-readiness.ts and its command. CompatibilityMigration:
    database/migrations/1785542400000, up and down. InventoryDeletes: its guards on DELETE and TRUNCATE and the
    cascade from an Event.

  Groups of lemmas. Invariants: \<open>pg_inv\<close> (tables) and its preservation by every transaction, by the
  switch and by the deletion of an Event, \<open>docs_ok\<close> (documents), \<open>tokens_ok\<close> (token families); frame lemmas
  say which cells an operation leaves alone. Functional lemmas give each operation's result on every branch.
  Refinement: the abstract shop, the newest payload per document, the old binaries over the expanded tables. Step
  relations carry the interleavings of resolver loads and token rotations; other writers appear as arguments that run
  between two commands, and one SQL statement is one step. The gates (expand check, cutover check, switch) are related to what they guard: a gate
  that opens implies that the next step succeeds and loses nothing, and the migrations produce what the gates ask for.

  Bounds. An update of the index is tried at most six times (\<open>MAX_CONFLICT_RETRIES\<close> = 5 retries) and a page holds
  between 1 and 1000 rows, as in the code; the page loop terminates because the rows behind the last
  key become fewer. Quantities are \<open>int\<close> with the INTEGER range checked where PostgreSQL checks it, JavaScript
  numbers are rationals with the safe-integer test written out.

  Not modelled. The controllers that only pass a body on, dependency injection, the start of the processes,
  OpenTelemetry spans and log lines (what the command line tools write to standard error among them); the search
  query (ranking and filtering happen in OpenSearch); the command that runs the token cleanup by hand; the frontend, Terraform and the load-test scripts. A lock is obtained or
  refused: waiting for one, and the timeouts that end the waiting, are errors that a statement may return. The
  text of a function in the catalog is denoted by a name, with md5 as an argument. Third-party services are
  arguments: what PostgreSQL, Valkey, EventBridge, SQS and OpenSearch answer, and whether their answer arrives;
  so are bcrypt, the JWT library, SHA-256 and the random generators.
\<close>

end
